(* ===== verification/Prelude.thy ===== *)
theory Prelude
  imports Main "HOL-Library.Word" "HOL-Library.Monad_Syntax"
begin

section \<open>Shared vocabulary of the development\<close>

text \<open>
  The vocabulary the component theories share: C integers, checked memory access and the
  reading of undefined behaviour.

  \<^item> Bytes of the serial link are \<open>8 word\<close> values. Elsewhere an unsigned C integer is a
    \<open>nat\<close> and every store into a \<open>w\<close>-bit variable is written out with \<open>u8\<close>, \<open>u16\<close>
    or \<open>u32\<close>; \<open>sub32\<close> is the wrapping subtraction of \<open>uint32_t\<close> and \<open>s32\<close> the
    reinterpretation of a 32-bit value as \<open>int32_t\<close>. The target is the 32-bit Arm core of
    the SDK, so \<open>size_t\<close> is 32 bits wide.
  \<^item> A function that can fail an assertion, divide by zero, shift out of range or touch memory
    outside an array returns an \<open>option\<close>; \<open>None\<close> stands for all of these, so a theorem
    that the result is \<open>Some\<close> says that none of them happens.
\<close>

named_theorems c_int \<open>bounds and identities of the C integer conversions\<close>

subsection \<open>C integers\<close>

type_synonym byte = "8 word"

definition u8 :: "nat \<Rightarrow> nat" where
  "u8 n = n mod 256"

definition u16 :: "nat \<Rightarrow> nat" where
  "u16 n = n mod 65536"

definition u32 :: "nat \<Rightarrow> nat" where
  "u32 n = n mod 4294967296"

definition sub32 :: "nat \<Rightarrow> nat \<Rightarrow> nat" where
  "sub32 a b = u32 (a + (4294967296 - u32 b))"

definition s32 :: "nat \<Rightarrow> int" where
  "s32 n = (if u32 n < 2147483648 then int (u32 n) else int (u32 n) - 4294967296)"

definition s8 :: "int \<Rightarrow> int" where
  "s8 i = (i + 128) mod 256 - 128"

lemma u8_less [simp, c_int]: "u8 n < 256"
  by (simp add: u8_def)

lemma u16_less [simp, c_int]: "u16 n < 65536"
  by (simp add: u16_def)

lemma u32_less [simp, c_int]: "u32 n < 4294967296"
  by (simp add: u32_def)

lemma u8_id [c_int]: "n < 256 \<Longrightarrow> u8 n = n"
  by (simp add: u8_def)

lemma u16_id [c_int]: "n < 65536 \<Longrightarrow> u16 n = n"
  by (simp add: u16_def)

lemma u32_id [c_int]: "n < 4294967296 \<Longrightarrow> u32 n = n"
  by (simp add: u32_def)

lemma u8_le: "u8 n \<le> n"
  by (simp add: u8_def)

lemma u16_le: "u16 n \<le> n"
  by (simp add: u16_def)

lemma u32_le: "u32 n \<le> n"
  by (simp add: u32_def)

lemma u32_u32 [simp]: "u32 (u32 n) = u32 n"
  by (simp add: u32_def)

lemma sub32_less [simp, c_int]: "sub32 a b < 4294967296"
  by (simp add: sub32_def)

lemma sub32_ge: "b \<le> a \<Longrightarrow> a < 4294967296 \<Longrightarrow> sub32 a b = a - b"
  by (simp add: sub32_def u32_def mod_if)

lemma sub32_lt: "a < b \<Longrightarrow> b < 4294967296 \<Longrightarrow> sub32 a b = a + 4294967296 - b"
  by (simp add: sub32_def u32_def mod_if)

lemma s32_small: "n < 2147483648 \<Longrightarrow> s32 n = int n"
  by (simp add: s32_def u32_def)

lemma s32_big: "2147483648 \<le> n \<Longrightarrow> n < 4294967296 \<Longrightarrow> s32 n = int n - 4294967296"
  by (simp add: s32_def u32_def)

lemma s8_id [c_int]: "-128 \<le> i \<Longrightarrow> i < 128 \<Longrightarrow> s8 i = i"
  by (simp add: s8_def)

subsection \<open>Assertions and array accesses\<close>

text \<open>
  \<open>ensure b\<close> is \<open>MMOSAL_ASSERT(b)\<close>, or the side condition of an operation whose
  behaviour C leaves undefined; \<open>fetch\<close> and \<open>store\<close> are array accesses.
\<close>

definition ensure :: "bool \<Rightarrow> unit option" where
  "ensure b = (if b then Some () else None)"

definition fetch :: "'a list \<Rightarrow> nat \<Rightarrow> 'a option" where
  "fetch xs i = (if i < length xs then Some (xs ! i) else None)"

definition store :: "'a list \<Rightarrow> nat \<Rightarrow> 'a \<Rightarrow> 'a list option" where
  "store xs i v = (if i < length xs then Some (xs[i := v]) else None)"

lemma ensure_simps [simp]:
  "ensure True = Some ()" "ensure False = None"
  by (simp_all add: ensure_def)

lemma ensure_eq_Some [simp]: "ensure b = Some u \<longleftrightarrow> b"
  by (simp add: ensure_def)

lemma ensure_bind [simp]: "Option.bind (ensure b) f = (if b then f () else None)"
  by (simp add: ensure_def)

lemma fetch_Some [simp]: "i < length xs \<Longrightarrow> fetch xs i = Some (xs ! i)"
  by (simp add: fetch_def)

lemma store_Some [simp]: "i < length xs \<Longrightarrow> store xs i v = Some (xs[i := v])"
  by (simp add: store_def)

lemma fetch_eq_Some: "fetch xs i = Some v \<longleftrightarrow> i < length xs \<and> v = xs ! i"
  by (auto simp: fetch_def)

lemma store_eq_Some: "store xs i v = Some ys \<longleftrightarrow> i < length xs \<and> ys = xs[i := v]"
  by (auto simp: store_def)

lemma bind_eq_SomeE:
  assumes "Option.bind m f = Some y"
  obtains x where "m = Some x" and "f x = Some y"
  using assms by (cases m) auto

subsection \<open>Memory blocks\<close>

text \<open>Reading and writing several consecutive bytes, as \<open>memcpy\<close> does.\<close>

definition mem_read :: "'a list \<Rightarrow> nat \<Rightarrow> nat \<Rightarrow> 'a list option" where
  "mem_read mem off n = (if off + n \<le> length mem then Some (take n (drop off mem)) else None)"

definition put_bytes :: "'a list \<Rightarrow> nat \<Rightarrow> 'a list \<Rightarrow> 'a list" where
  "put_bytes mem off bs = take off mem @ bs @ drop (off + length bs) mem"

definition mem_write :: "'a list \<Rightarrow> nat \<Rightarrow> 'a list \<Rightarrow> 'a list option" where
  "mem_write mem off bs = (if off + length bs \<le> length mem then Some (put_bytes mem off bs) else None)"

lemma mem_read_Some: "off + n \<le> length mem \<Longrightarrow> mem_read mem off n = Some (take n (drop off mem))"
  by (simp add: mem_read_def)

lemma mem_write_Some:
  "off + length bs \<le> length mem \<Longrightarrow> mem_write mem off bs = Some (put_bytes mem off bs)"
  by (simp add: mem_write_def)

lemma length_put_bytes [simp]:
  "off + length bs \<le> length mem \<Longrightarrow> length (put_bytes mem off bs) = length mem"
  by (simp add: put_bytes_def)

lemma drop_put_bytes:
  "off + length bs \<le> length mem \<Longrightarrow> drop off (put_bytes mem off bs) = bs @ drop (off + length bs) mem"
  by (simp add: put_bytes_def)

lemma take_put_bytes:
  "n \<le> off \<Longrightarrow> off + length bs \<le> length mem \<Longrightarrow> take n (put_bytes mem off bs) = take n mem"
  by (simp add: put_bytes_def min_def)

lemma window_put_bytes_before:
  assumes "off + length bs \<le> length mem"
  shows "take (n + length bs) (drop off (put_bytes mem off bs)) = bs @ take n (drop (off + length bs) mem)"
  using assms by (simp add: drop_put_bytes)

lemma window_put_bytes_after:
  assumes "off + n + length bs \<le> length mem"
  shows "take (n + length bs) (drop off (put_bytes mem (off + n) bs)) = take n (drop off mem) @ bs"
proof -
  have "take n (drop off (put_bytes mem (off + n) bs)) = take n (drop off mem)"
    using assms by (simp add: take_drop take_put_bytes add.commute)
  moreover have "drop n (drop off (put_bytes mem (off + n) bs)) = bs @ drop (off + n + length bs) mem"
    using assms drop_put_bytes [of "off + n" bs mem] by (simp add: add.commute)
  ultimately show ?thesis by (simp add: take_add)
qed

subsection \<open>Division and loops\<close>

text \<open>Division and remainder: a zero divisor is \<open>None\<close>.\<close>

definition cdiv :: "nat \<Rightarrow> nat \<Rightarrow> nat option" where
  "cdiv a b = (if b = 0 then None else Some (a div b))"

definition cmod :: "nat \<Rightarrow> nat \<Rightarrow> nat option" where
  "cmod a b = (if b = 0 then None else Some (a mod b))"

lemma cdiv_Some [simp]: "b \<noteq> 0 \<Longrightarrow> cdiv a b = Some (a div b)"
  by (simp add: cdiv_def)

lemma cmod_Some [simp]: "b \<noteq> 0 \<Longrightarrow> cmod a b = Some (a mod b)"
  by (simp add: cmod_def)

text \<open>A \<open>for\<close> loop over a list of indices whose body can fail.\<close>

fun foldM :: "('x \<Rightarrow> 's \<Rightarrow> 's option) \<Rightarrow> 'x list \<Rightarrow> 's \<Rightarrow> 's option" where
  "foldM f [] s = Some s"
| "foldM f (x # xs) s = do { s \<leftarrow> f x s; foldM f xs s }"

lemma foldM_invariant:
  assumes "P s" "\<And>x s. x \<in> set xs \<Longrightarrow> P s \<Longrightarrow> \<exists>s'. f x s = Some s' \<and> P s'"
  shows "\<exists>s'. foldM f xs s = Some s' \<and> P s'"
  using assms
proof (induction xs arbitrary: s)
  case Nil
  then show ?case by simp
next
  case (Cons x xs)
  obtain s1 where "f x s = Some s1" "P s1"
    using Cons.prems(1) Cons.prems(2) [of x s] by auto
  with Cons.IH [of s1] Cons.prems(2) show ?case by auto
qed

lemma foldM_append: "foldM f (xs @ ys) s = Option.bind (foldM f xs s) (foldM f ys)"
  by (induction xs arbitrary: s) (auto split: bind_splits)

lemma foldM_upt_invariant:
  assumes "P 0 s" "\<And>i s. i < n \<Longrightarrow> P i s \<Longrightarrow> \<exists>s'. f i s = Some s' \<and> P (Suc i) s'"
  shows "\<exists>s'. foldM f [0..<n] s = Some s' \<and> P n s'"
  using assms(2)
proof (induction n)
  case 0
  then show ?case using assms(1) by simp
next
  case (Suc n)
  then obtain s1 where "foldM f [0..<n] s = Some s1" "P n s1" by auto
  with Suc.prems [of n s1] show ?case by (auto simp: foldM_append)
qed

lemma foldM_upt_from:
  assumes "P m s" "m \<le> n" "\<And>i s. m \<le> i \<Longrightarrow> i < n \<Longrightarrow> P i s \<Longrightarrow> \<exists>s'. f i s = Some s' \<and> P (Suc i) s'"
  shows "\<exists>s'. foldM f [m..<n] s = Some s' \<and> P n s'"
  using assms(2,3)
proof (induction n)
  case 0
  then show ?case using assms(1) by simp
next
  case (Suc n)
  show ?case
  proof (cases "m = Suc n")
    case True
    then show ?thesis using assms(1) by simp
  next
    case False
    then have m: "m \<le> n" using Suc.prems(1) by simp
    then obtain s1 where "foldM f [m..<n] s = Some s1" "P n s1" using Suc.IH Suc.prems(2) by auto
    moreover from this obtain s2 where "f n s1 = Some s2" "P (Suc n) s2" using Suc.prems(2) [OF m] by auto
    ultimately show ?thesis using m by (simp add: foldM_append)
  qed
qed

subsection \<open>Fields of integers\<close>

text \<open>\<open>(x & MASK) >> SHIFT\<close>.\<close>

definition get_field :: "nat \<Rightarrow> nat \<Rightarrow> nat \<Rightarrow> nat" where
  "get_field m s x = drop_bit s (and x m)"

lemma get_field_mask:
  assumes "m = push_bit s (mask k)"
  shows "get_field m s x = take_bit k (drop_bit s x)"
  unfolding get_field_def assms by (rule bit_eqI) (auto simp: bit_simps)

lemma get_field_div:
  assumes "m = (2 ^ k - 1) * 2 ^ s"
  shows "get_field m s x = x div 2 ^ s mod 2 ^ k"
  using get_field_mask [of m s k x] assms
  by (simp add: mask_eq_exp_minus_1 push_bit_eq_mult take_bit_eq_mod drop_bit_eq_div)

text \<open>Reinterpretation of an integer as \<open>int32_t\<close>.\<close>

definition wrap_s32 :: "int \<Rightarrow> int" where
  "wrap_s32 i = (i + 2147483648) mod 4294967296 - 2147483648"

subsection \<open>Lists\<close>

lemma take_update_snoc:
  "n < length xs \<Longrightarrow> take (Suc n) (xs[n := v]) = take n xs @ [v]"
  by (simp add: take_Suc_conv_app_nth)

lemma take_update_ge: "n \<le> i \<Longrightarrow> take n (xs[i := v]) = take n xs"
  by (simp add: take_update_swap list_update_beyond)

end
