(* ===== verification/Mmosal_Time.thy ===== *)
theory Mmosal_Time
  imports Prelude
begin

section \<open>Comparison of wrapping times\<close>

text \<open>
  The inline comparisons of \<open>morselib/include/mmosal.h\<close>: times are 32-bit millisecond counters, and one
  is before another when their wrapped difference is negative. This orders times that are less than
  2147483648 milliseconds apart, which is stated with times that do not wrap: the code's times are their
  remainders.
\<close>

definition mmosal_time_lt :: "nat \<Rightarrow> nat \<Rightarrow> bool" where
  "mmosal_time_lt a b \<longleftrightarrow> s32 (sub32 a b) < 0"

definition mmosal_time_le :: "nat \<Rightarrow> nat \<Rightarrow> bool" where
  "mmosal_time_le a b \<longleftrightarrow> s32 (sub32 a b) \<le> 0"

definition mmosal_time_max :: "nat \<Rightarrow> nat \<Rightarrow> nat" where
  "mmosal_time_max a b = (if mmosal_time_lt a b then b else a)"

definition mmosal_time_has_passed :: "nat \<Rightarrow> nat \<Rightarrow> bool" where
  "mmosal_time_has_passed now t \<longleftrightarrow> mmosal_time_le t now"

definition near :: "nat \<Rightarrow> nat \<Rightarrow> bool" where
  "near a b \<longleftrightarrow> a < b + 2147483648 \<and> b < a + 2147483648"

lemma sub32_wrap: "sub32 (u32 a) (u32 b) = nat ((int a - int b) mod 4294967296)"
proof -
  have "int (sub32 (u32 a) (u32 b)) = (int a - int b) mod 4294967296"
  proof -
    have "int (u32 a + (4294967296 - u32 b)) = int (u32 a) + (4294967296 - int (u32 b))"
      using less_imp_le [OF u32_less [of b]] by (simp only: of_nat_add of_nat_diff of_nat_numeral)
    then have "int (sub32 (u32 a) (u32 b)) = (int (u32 a) + (4294967296 - int (u32 b))) mod 4294967296"
      by (simp only: sub32_def u32_u32 u32_def [of "u32 a + _"] of_nat_mod of_nat_numeral)
    also have "... = (int a mod 4294967296 - int b mod 4294967296 + 4294967296) mod 4294967296"
      by (simp add: u32_def zmod_int algebra_simps)
    also have "... = (int a - int b) mod 4294967296" by (simp add: mod_diff_eq)
    finally show ?thesis .
  qed
  then show ?thesis by simp
qed

lemma s32_sub32:
  assumes "near a b"
  shows "s32 (sub32 (u32 a) (u32 b)) = int a - int b"
proof -
  let ?d = "int a - int b"
  have d: "- 2147483648 < ?d" "?d < 2147483648" using assms by (auto simp: near_def)
  show ?thesis
  proof (cases "0 \<le> ?d")
    case True
    then have "sub32 (u32 a) (u32 b) = nat ?d" using d by (simp add: sub32_wrap mod_pos_pos_trivial)
    then show ?thesis using True d by (simp add: s32_small)
  next
    case False
    have "?d mod 4294967296 = (?d + 4294967296) mod 4294967296" by simp
    also have "... = ?d + 4294967296" using False d by (intro mod_pos_pos_trivial) auto
    finally have "sub32 (u32 a) (u32 b) = nat (?d + 4294967296)" by (simp add: sub32_wrap)
    then show ?thesis using False d by (simp add: s32_big)
  qed
qed

lemma time_compare:
  assumes "near a b"
  shows "mmosal_time_lt (u32 a) (u32 b) \<longleftrightarrow> a < b" "mmosal_time_le (u32 a) (u32 b) \<longleftrightarrow> a \<le> b"
  using s32_sub32 [OF assms] by (simp_all add: mmosal_time_lt_def mmosal_time_le_def)

end
