(* ===== verification/Driver_Task.thy ===== *)
theory Driver_Task
  imports Mmosal_Time
begin

section \<open>Events of the driver task\<close>

text \<open>
  The driver runs in a task of its own (\<open>driver/driver_task.c\<close>). Other tasks and interrupts notify it of events, which are bits
  in a mask; events can also be scheduled for later, in a table of four. This theory models the mask, the
  table and how long the task sleeps; its loop is in \<open>Driver_Loop\<close>, since it calls the rest of
  the driver. The lemmas show that the table is a map from events to times, with the limit of four,
  and that events fire when they are due.
\<close>

subsection \<open>Events and the clock\<close>

text \<open>
  An event is its number in \<open>driver_task_event\<close>, which is its position in the mask of pending
  events. The clock and everything else a step finds outside is read from an environment at the
  position \<open>ticks\<close>, which every reading advances.
\<close>

abbreviation (input) DRV_EVT_NONE :: nat where "DRV_EVT_NONE \<equiv> 0"
abbreviation (input) DRV_EVT_RX_PEND :: nat where "DRV_EVT_RX_PEND \<equiv> 1"
abbreviation (input) DRV_EVT_PAGE_RETURN_PEND :: nat where "DRV_EVT_PAGE_RETURN_PEND \<equiv> 2"
abbreviation (input) DRV_EVT_TX_COMMAND_PEND :: nat where "DRV_EVT_TX_COMMAND_PEND \<equiv> 3"
abbreviation (input) DRV_EVT_TX_BEACON_PEND :: nat where "DRV_EVT_TX_BEACON_PEND \<equiv> 4"
abbreviation (input) DRV_EVT_TX_MGMT_PEND :: nat where "DRV_EVT_TX_MGMT_PEND \<equiv> 5"
abbreviation (input) DRV_EVT_TX_DATA_PEND :: nat where "DRV_EVT_TX_DATA_PEND \<equiv> 6"
abbreviation (input) DRV_EVT_TX_PACKET_FREED_UP_PEND :: nat where "DRV_EVT_TX_PACKET_FREED_UP_PEND \<equiv> 7"
abbreviation (input) DRV_EVT_TRAFFIC_PAUSE_PEND :: nat where "DRV_EVT_TRAFFIC_PAUSE_PEND \<equiv> 8"
abbreviation (input) DRV_EVT_TRAFFIC_RESUME_PEND :: nat where "DRV_EVT_TRAFFIC_RESUME_PEND \<equiv> 9"
abbreviation (input) DRV_EVT_TRAFFIC_PAUSE_TIMEOUT :: nat where "DRV_EVT_TRAFFIC_PAUSE_TIMEOUT \<equiv> 10"
abbreviation (input) DRV_EVT_PS_ASYNC_WAKEUP_PEND :: nat where "DRV_EVT_PS_ASYNC_WAKEUP_PEND \<equiv> 11"
abbreviation (input) DRV_EVT_PS_DELAYED_EVAL_PEND :: nat where "DRV_EVT_PS_DELAYED_EVAL_PEND \<equiv> 12"
abbreviation (input) DRV_EVT_PS_BUS_ACTIVITY_PEND :: nat where "DRV_EVT_PS_BUS_ACTIVITY_PEND \<equiv> 13"
abbreviation (input) DRV_EVT_STALE_TX_STATUS_PEND :: nat where "DRV_EVT_STALE_TX_STATUS_PEND \<equiv> 14"
abbreviation (input) DRV_EVT_SHUTDOWN :: nat where "DRV_EVT_SHUTDOWN \<equiv> 15"
abbreviation (input) DRV_EVT_STOP_NOTICATION :: nat where "DRV_EVT_STOP_NOTICATION \<equiv> 16"
abbreviation (input) DRV_EVT_BEACON_REQ_PEND :: nat where "DRV_EVT_BEACON_REQ_PEND \<equiv> 17"

abbreviation (input) MAX_SCHEDULED_EVTS :: nat where "MAX_SCHEDULED_EVTS \<equiv> 4"
abbreviation (input) DRV_TASK_MAX_SLEEP_MS :: int where "DRV_TASK_MAX_SLEEP_MS \<equiv> 1073741823"

definition DRV_EVT_MASK_PAGESET :: nat where
  "DRV_EVT_MASK_PAGESET = 2 ^ 1 + 2 ^ 2 + 2 ^ 3 + 2 ^ 4 + 2 ^ 5 + 2 ^ 6 + 2 ^ 8 + 2 ^ 9 + 2 ^ 7"

definition DRV_EVT_TX_MASK :: nat where
  "DRV_EVT_TX_MASK = 2 ^ 3 + 2 ^ 4 + 2 ^ 5 + 2 ^ 6"

record driver_env =
  clock :: "nat \<Rightarrow> nat"

text \<open>\<open>dt_task\<close> says that the task exists and \<open>dt_semb\<close> that its semaphore has been given.\<close>

record driver_task =
  ticks :: nat
  pending_evts :: nat
  scheduled_evts :: "(nat \<times> nat) list"
  dt_semb :: bool
  dt_task :: bool
  dt_running :: bool

definition mmosal_get_time_ms ::
  "'e driver_env_scheme \<Rightarrow> 'a driver_task_scheme \<Rightarrow> nat \<times> 'a driver_task_scheme" where
  "mmosal_get_time_ms env d = (u32 (clock env (ticks d)), d\<lparr>ticks := ticks d + 1\<rparr>)"

definition driver_task_notify_event :: "nat \<Rightarrow> 'a driver_task_scheme \<Rightarrow> 'a driver_task_scheme" where
  "driver_task_notify_event evt d =
     d\<lparr>pending_evts := set_bit evt (pending_evts d), dt_semb := dt_semb d \<or> dt_task d\<rparr>"

definition driver_task_notify_event_from_isr :: "nat \<Rightarrow> 'a driver_task_scheme \<Rightarrow> 'a driver_task_scheme" where
  "driver_task_notify_event_from_isr evt d =
     (if dt_task d then d\<lparr>pending_evts := set_bit evt (pending_evts d), dt_semb := True\<rparr> else d)"

definition driver_task_notification_is_pending :: "nat \<Rightarrow> 'a driver_task_scheme \<Rightarrow> bool" where
  "driver_task_notification_is_pending evts d \<longleftrightarrow> and (pending_evts d) evts \<noteq> 0"

definition driver_task_notification_check :: "nat \<Rightarrow> 'a driver_task_scheme \<Rightarrow> bool" where
  "driver_task_notification_check evt d \<longleftrightarrow> bit (pending_evts d) evt"

definition driver_task_notification_check_and_clear ::
  "nat \<Rightarrow> 'a driver_task_scheme \<Rightarrow> bool \<times> 'a driver_task_scheme" where
  "driver_task_notification_check_and_clear evt d =
     (bit (pending_evts d) evt, d\<lparr>pending_evts := unset_bit evt (pending_evts d)\<rparr>)"

subsection \<open>Scheduled events\<close>

text \<open>The first slot that holds an event, as the loops over the table find it.\<close>

definition evt_slot :: "nat \<Rightarrow> (nat \<times> nat) list \<Rightarrow> nat option" where
  "evt_slot evt es = find (\<lambda>i. fst (es ! i) = evt) [0..<length es]"

definition driver_task_schedule_notification_at ::
  "nat \<Rightarrow> nat \<Rightarrow> 'a driver_task_scheme \<Rightarrow> 'a driver_task_scheme option" where
  "driver_task_schedule_notification_at evt timeout_at_ms d =
     (case evt_slot evt (scheduled_evts d) of
        Some i \<Rightarrow>
          (if snd (scheduled_evts d ! i) = timeout_at_ms then Some d
           else Some (d\<lparr>scheduled_evts := (scheduled_evts d)[i := (evt, timeout_at_ms)], dt_semb := True\<rparr>))
      | None \<Rightarrow>
          (case evt_slot DRV_EVT_NONE (scheduled_evts d) of
             Some i \<Rightarrow>
               Some (d\<lparr>scheduled_evts := (scheduled_evts d)[i := (evt, timeout_at_ms)], dt_semb := True\<rparr>)
           | None \<Rightarrow> None))"

definition driver_task_schedule_notification ::
  "'e driver_env_scheme \<Rightarrow> nat \<Rightarrow> nat \<Rightarrow> 'a driver_task_scheme \<Rightarrow> 'a driver_task_scheme option" where
  "driver_task_schedule_notification env evt timeout_ms d =
     (let (now, d) = mmosal_get_time_ms env d
      in driver_task_schedule_notification_at evt (u32 (now + timeout_ms)) d)"

definition driver_task_drop_scheduled_event ::
  "nat \<Rightarrow> 'a driver_task_scheme \<Rightarrow> bool \<times> 'a driver_task_scheme" where
  "driver_task_drop_scheduled_event evt d =
     (case evt_slot evt (scheduled_evts d) of
        Some i \<Rightarrow> (True, d\<lparr>scheduled_evts := (scheduled_evts d)[i := (DRV_EVT_NONE, 0)]\<rparr>)
      | None \<Rightarrow> (False, d))"

fun process_evts ::
  "'e driver_env_scheme \<Rightarrow> (nat \<times> nat) list \<Rightarrow> 'a driver_task_scheme
    \<Rightarrow> (nat \<times> nat) list \<times> 'a driver_task_scheme" where
  "process_evts env [] d = ([], d)"
| "process_evts env ((evt, t) # es) d =
     (let (x, d) =
        (if evt \<noteq> DRV_EVT_NONE then
           (let (now, d) = mmosal_get_time_ms env d
            in if mmosal_time_has_passed now t
               then ((DRV_EVT_NONE, t), d\<lparr>pending_evts := set_bit evt (pending_evts d)\<rparr>)
               else if driver_task_notification_check evt d then ((DRV_EVT_NONE, t), d)
               else ((evt, t), d))
         else ((evt, t), d));
          (es, d) = process_evts env es d
      in (x # es, d))"

definition driver_task_process_scheduled_evts ::
  "'e driver_env_scheme \<Rightarrow> 'a driver_task_scheme \<Rightarrow> 'a driver_task_scheme" where
  "driver_task_process_scheduled_evts env d =
     (let (es, d) = process_evts env (scheduled_evts d) d in d\<lparr>scheduled_evts := es\<rparr>)"

text \<open>The earliest time in the table: the time found so far is \<open>None\<close> or \<open>Some\<close>.\<close>

fun next_evt_time :: "(nat \<times> nat) list \<Rightarrow> nat option \<Rightarrow> nat option" where
  "next_evt_time [] found = found"
| "next_evt_time ((evt, t) # es) found =
     next_evt_time es
       (if evt \<noteq> DRV_EVT_NONE
        then (case found of None \<Rightarrow> Some t | Some u \<Rightarrow> if mmosal_time_lt t u then Some t else Some u)
        else found)"

definition get_next_scheduled_evt_time :: "'a driver_task_scheme \<Rightarrow> nat option" where
  "get_next_scheduled_evt_time d = next_evt_time (scheduled_evts d) None"

text \<open>How long the task waits for its semaphore when no event is pending; it does not wait at all
  when the result is not positive.\<close>

definition driver_task_wait_ms ::
  "'e driver_env_scheme \<Rightarrow> 'a driver_task_scheme \<Rightarrow> int \<times> 'a driver_task_scheme" where
  "driver_task_wait_ms env d =
     (case get_next_scheduled_evt_time d of
        None \<Rightarrow> (DRV_TASK_MAX_SLEEP_MS, d)
      | Some t \<Rightarrow> (let (now, d) = mmosal_get_time_ms env d in (s32 (sub32 t now), d)))"

definition driver_task_start :: "bool \<Rightarrow> bool \<Rightarrow> 'a driver_task_scheme \<Rightarrow> int \<times> 'a driver_task_scheme" where
  "driver_task_start semb_created task_created d =
     (if \<not> semb_created then (- 12, d)
      else if \<not> task_created then (- 12, d\<lparr>dt_task := False, dt_running := False\<rparr>)
      else (0, d\<lparr>dt_semb := False, dt_task := True, dt_running := True\<rparr>))"

subsection \<open>Lemmas on events\<close>

lemma notify_check [simp]:
  "driver_task_notification_check e (driver_task_notify_event f d)
     \<longleftrightarrow> e = f \<or> driver_task_notification_check e d"
  by (auto simp: driver_task_notification_check_def driver_task_notify_event_def bit_simps)

lemma clear_check [simp]:
  "driver_task_notification_check e (snd (driver_task_notification_check_and_clear f d))
     \<longleftrightarrow> e \<noteq> f \<and> driver_task_notification_check e d"
  by (auto simp: driver_task_notification_check_def driver_task_notification_check_and_clear_def bit_simps)

text \<open>The table as a map from events to times. Every event but \<open>DRV_EVT_NONE\<close> is in it once.\<close>

definition sched_map :: "(nat \<times> nat) list \<Rightarrow> nat \<rightharpoonup> nat" where
  "sched_map es = map_of (filter (\<lambda>(e, t). e \<noteq> DRV_EVT_NONE) es)"

definition sched_ok :: "(nat \<times> nat) list \<Rightarrow> bool" where
  "sched_ok es \<longleftrightarrow> length es = MAX_SCHEDULED_EVTS \<and> distinct (filter (\<lambda>e. e \<noteq> DRV_EVT_NONE) (map fst es))"

lemma evt_slot_Some:
  assumes "evt_slot e es = Some i"
  shows "i < length es" "fst (es ! i) = e"
  using assms by (auto simp: evt_slot_def find_Some_iff)

lemma evt_slot_None: "evt_slot e es = None \<longleftrightarrow> e \<notin> fst ` set es"
proof -
  have "e \<notin> fst ` set es \<longleftrightarrow> (\<forall>x\<in>set es. fst x \<noteq> e)" by auto
  also have "... \<longleftrightarrow> evt_slot e es = None"
    by (auto simp: all_set_conv_all_nth evt_slot_def find_None_iff)
  finally show ?thesis ..
qed

lemma sched_map_Nil [simp]: "sched_map [] = Map.empty"
  by (simp add: sched_map_def)

lemma sched_map_Cons [simp]:
  "sched_map ((e, t) # es) = (if e = DRV_EVT_NONE then sched_map es else (sched_map es)(e \<mapsto> t))"
  by (simp add: sched_map_def)

lemma dom_sched_map: "dom (sched_map es) = fst ` set es - {DRV_EVT_NONE}"
proof (induction es)
  case (Cons x es)
  have "dom (sched_map (x # es)) = (if fst x = DRV_EVT_NONE then {} else {fst x}) \<union> dom (sched_map es)"
    by (cases x) simp
  then show ?case using Cons by auto
qed simp

lemma sched_map_NONE [simp]: "sched_map es DRV_EVT_NONE = None"
  using dom_sched_map [of es] by auto

lemma sched_map_absent: "e \<notin> fst ` set es \<Longrightarrow> sched_map es e = None"
  using dom_sched_map [of es] by auto

lemma card_sched_map:
  "distinct (filter (\<lambda>e. e \<noteq> DRV_EVT_NONE) (map fst es)) \<Longrightarrow>
    card (dom (sched_map es)) = length (filter (\<lambda>e. e \<noteq> DRV_EVT_NONE) (map fst es))"
proof -
  have "dom (sched_map es) = set (filter (\<lambda>e. e \<noteq> DRV_EVT_NONE) (map fst es))"
    by (auto simp: dom_sched_map)
  then show "distinct (filter (\<lambda>e. e \<noteq> DRV_EVT_NONE) (map fst es)) \<Longrightarrow> ?thesis"
    by (simp only: distinct_card)
qed

lemma sched_full:
  assumes "sched_ok es"
  shows "card (dom (sched_map es)) < MAX_SCHEDULED_EVTS \<longleftrightarrow> DRV_EVT_NONE \<in> fst ` set es"
proof -
  have "length (filter (\<lambda>e. e \<noteq> DRV_EVT_NONE) (map fst es)) < length (map fst es)
    \<longleftrightarrow> (\<exists>e\<in>set (map fst es). e = DRV_EVT_NONE)"
    by (metis (mono_tags, lifting) filter_False filter_True filter_id_conv length_filter_less less_irrefl)
  then show ?thesis using assms card_sched_map [of es] by (auto simp: sched_ok_def simp del: filter_map)
qed

text \<open>Writing a slot that was free, or held the event.\<close>

lemma sched_map_update:
  assumes "i < length es" "distinct (filter (\<lambda>e. e \<noteq> DRV_EVT_NONE) (map fst es))"
    and "fst (es ! i) = e \<or> fst (es ! i) = DRV_EVT_NONE \<and> e \<notin> fst ` set es" and "e \<noteq> DRV_EVT_NONE"
  shows "sched_map (es[i := (e, t)]) = (sched_map es)(e \<mapsto> t)
    \<and> distinct (filter (\<lambda>e. e \<noteq> DRV_EVT_NONE) (map fst (es[i := (e, t)])))
    \<and> fst ` set (es[i := (e, t)]) \<subseteq> insert e (fst ` set es)"
  using assms
proof (induction es arbitrary: i)
  case (Cons x es)
  obtain f u where x: "x = (f, u)" by (cases x)
  show ?case
  proof (cases i)
    case 0
    have "(f, b) \<notin> set es" if "f \<noteq> DRV_EVT_NONE" for b
      using Cons.prems(2) that x by (auto simp: image_iff)
    then show ?thesis using Cons.prems x 0 by (auto simp: image_iff)
  next
    case (Suc j)
    have ne: "f \<noteq> e"
      using Cons.prems Suc x by (auto simp: image_iff) (metis nth_mem)+
    have "sched_map (es[j := (e, t)]) = (sched_map es)(e \<mapsto> t)
      \<and> distinct (filter (\<lambda>e. e \<noteq> DRV_EVT_NONE) (map fst (es[j := (e, t)])))
      \<and> fst ` set (es[j := (e, t)]) \<subseteq> insert e (fst ` set es)"
      by (rule Cons.IH) (use Cons.prems Suc x in \<open>auto split: if_splits\<close>)
    then show ?thesis using Cons.prems Suc x ne by (auto simp: fun_upd_twist split: if_splits)
  qed
qed simp

lemma sched_map_drop:
  assumes "i < length es" "distinct (filter (\<lambda>e. e \<noteq> DRV_EVT_NONE) (map fst es))" "fst (es ! i) = e"
    and "e \<noteq> DRV_EVT_NONE"
  shows "sched_map (es[i := (DRV_EVT_NONE, t)]) = (sched_map es)(e := None)
    \<and> distinct (filter (\<lambda>e. e \<noteq> DRV_EVT_NONE) (map fst (es[i := (DRV_EVT_NONE, t)])))"
  using assms
proof (induction es arbitrary: i)
  case (Cons x es)
  obtain f u where x: "x = (f, u)" by (cases x)
  show ?case
  proof (cases i)
    case 0
    then show ?thesis using Cons.prems x by (auto simp: sched_map_absent)
  next
    case (Suc j)
    have ne: "f \<noteq> e" using Cons.prems Suc x by (auto simp: image_iff) (metis nth_mem)+
    have "sched_map (es[j := (DRV_EVT_NONE, t)]) = (sched_map es)(e := None)
      \<and> distinct (filter (\<lambda>e. e \<noteq> DRV_EVT_NONE) (map fst (es[j := (DRV_EVT_NONE, t)])))"
      by (rule Cons.IH) (use Cons.prems Suc x in \<open>auto split: if_splits\<close>)
    moreover have "fst ` set (es[j := (DRV_EVT_NONE, t)]) \<subseteq> insert DRV_EVT_NONE (fst ` set es)"
      using set_update_subset_insert [of es j "(DRV_EVT_NONE, t)"] by force
    ultimately show ?thesis using Cons.prems Suc x ne by (auto simp: fun_upd_twist split: if_splits)
  qed
qed simp

lemma schedule_drop_map:
  assumes "sched_ok (scheduled_evts d)" and "evt \<noteq> DRV_EVT_NONE"
  shows "(case driver_task_schedule_notification_at evt t d of
            Some d' \<Rightarrow> sched_map (scheduled_evts d') = (sched_map (scheduled_evts d))(evt \<mapsto> t)
              \<and> sched_ok (scheduled_evts d') \<and> pending_evts d' = pending_evts d
          | None \<Rightarrow> card (dom (sched_map (scheduled_evts d))) = MAX_SCHEDULED_EVTS
              \<and> evt \<notin> dom (sched_map (scheduled_evts d)))
    \<and> (case driver_task_drop_scheduled_event evt d of (b, d') \<Rightarrow>
         sched_map (scheduled_evts d') = (sched_map (scheduled_evts d))(evt := None)
         \<and> sched_ok (scheduled_evts d') \<and> b = (evt \<in> dom (sched_map (scheduled_evts d))))"
proof
  let ?es = "scheduled_evts d"
  have len: "length ?es = MAX_SCHEDULED_EVTS"
    and dist: "distinct (filter (\<lambda>e. e \<noteq> DRV_EVT_NONE) (map fst ?es))"
    using assms(1) by (auto simp: sched_ok_def)
  note upd = sched_map_update [OF _ dist _ assms(2)]
  have le: "card (dom (sched_map ?es)) \<le> MAX_SCHEDULED_EVTS"
    using card_sched_map [OF dist] len by (metis length_filter_le length_map)
  show "case driver_task_schedule_notification_at evt t d of
            Some d' \<Rightarrow> sched_map (scheduled_evts d') = (sched_map ?es)(evt \<mapsto> t)
              \<and> sched_ok (scheduled_evts d') \<and> pending_evts d' = pending_evts d
          | None \<Rightarrow> card (dom (sched_map ?es)) = MAX_SCHEDULED_EVTS \<and> evt \<notin> dom (sched_map ?es)"
  proof (cases "evt_slot evt ?es")
    case (Some i)
    note slot = evt_slot_Some [OF Some]
    have id: "?es[i := (evt, t)] = ?es" if "snd (?es ! i) = t"
      using slot that by (simp add: list_update_same_conv prod_eq_iff)
    show ?thesis using upd [OF slot(1), of t] slot Some len dist id
      by (auto simp: driver_task_schedule_notification_at_def sched_ok_def)
  next
    case None
    then have abs: "evt \<notin> fst ` set ?es" by (simp add: evt_slot_None)
    show ?thesis
    proof (cases "evt_slot DRV_EVT_NONE ?es")
      case (Some i)
      note slot = evt_slot_Some [OF Some]
      show ?thesis using upd [OF slot(1), of t] slot Some None len abs
        by (auto simp: driver_task_schedule_notification_at_def sched_ok_def)
    next
      case full: None
      then have "DRV_EVT_NONE \<notin> fst ` set ?es" by (simp add: evt_slot_None)
      then have "card (dom (sched_map ?es)) = MAX_SCHEDULED_EVTS" "evt \<notin> dom (sched_map ?es)"
        using sched_full [OF assms(1)] le abs by (auto simp: dom_sched_map)
      then show ?thesis
        by (simp add: driver_task_schedule_notification_at_def None full)
    qed
  qed
  show "case driver_task_drop_scheduled_event evt d of (b, d') \<Rightarrow>
      sched_map (scheduled_evts d') = (sched_map ?es)(evt := None)
      \<and> sched_ok (scheduled_evts d') \<and> b = (evt \<in> dom (sched_map ?es))"
  proof (cases "evt_slot evt ?es")
    case None
    then have "evt \<notin> fst ` set ?es" by (simp add: evt_slot_None)
    then show ?thesis using None assms(1)
      by (auto simp: driver_task_drop_scheduled_event_def sched_map_absent dom_sched_map)
  next
    case (Some i)
    note slot = evt_slot_Some [OF Some]
    have "evt \<in> fst ` set ?es" using slot by (metis image_eqI nth_mem)
    then show ?thesis using sched_map_drop [OF slot(1) dist slot(2) assms(2), of 0] Some len assms(2)
      by (auto simp: driver_task_drop_scheduled_event_def sched_ok_def dom_sched_map)
  qed
qed

text \<open>C31. Scheduling an event puts it into the table as into a map, whatever other events are
  scheduled, and dropping removes it; but when four other events are scheduled the assertion that
  there is a free slot fails.\<close>

theorem scheduled_events_refine_map:
  assumes "sched_ok (scheduled_evts d)" and "evt \<noteq> DRV_EVT_NONE"
  shows "(case driver_task_schedule_notification_at evt t d of
            Some d' \<Rightarrow> sched_map (scheduled_evts d') = (sched_map (scheduled_evts d))(evt \<mapsto> t)
              \<and> sched_ok (scheduled_evts d') \<and> pending_evts d' = pending_evts d
          | None \<Rightarrow> card (dom (sched_map (scheduled_evts d))) = MAX_SCHEDULED_EVTS
              \<and> evt \<notin> dom (sched_map (scheduled_evts d)))
    \<and> (case driver_task_drop_scheduled_event evt d of (b, d') \<Rightarrow>
         sched_map (scheduled_evts d') = (sched_map (scheduled_evts d))(evt := None)
         \<and> sched_ok (scheduled_evts d') \<and> b = (evt \<in> dom (sched_map (scheduled_evts d))))"
  by (rule schedule_drop_map [OF assms])

theorem scheduled_events_refine_map_witness:
  "\<exists>d :: driver_task. sched_ok (scheduled_evts d)
    \<and> driver_task_schedule_notification_at DRV_EVT_TX_DATA_PEND 7 d = None
    \<and> card (dom (sched_map (scheduled_evts d))) = MAX_SCHEDULED_EVTS"
proof -
  let ?d = "\<lparr>ticks = 0, pending_evts = 0, scheduled_evts = [(13, 5), (3, 1), (4, 2), (5, 3)],
    dt_semb = False, dt_task = True, dt_running = True\<rparr> :: driver_task"
  have ok: "sched_ok (scheduled_evts ?d)" by (simp add: sched_ok_def)
  have full: "driver_task_schedule_notification_at DRV_EVT_TX_DATA_PEND 7 ?d = None"
  proof -
    have "evt_slot DRV_EVT_TX_DATA_PEND (scheduled_evts ?d) = None" "evt_slot DRV_EVT_NONE (scheduled_evts ?d) = None"
      by (simp_all add: evt_slot_None)
    then show ?thesis by (simp add: driver_task_schedule_notification_at_def)
  qed
  show ?thesis using scheduled_events_refine_map [OF ok, of DRV_EVT_TX_DATA_PEND 7] ok full
    by (intro exI [of _ ?d]) simp
qed

subsection \<open>Events fire when they are due\<close>

text \<open>
  \<open>rs\<close> is the table with times that do not wrap, and \<open>R k\<close> the time at the reading \<open>k\<close> of the
  clock. The comparisons are right when the times are near those of the readings, up to the
  reading \<open>n\<close>.
\<close>

definition wrapped :: "(nat \<times> nat) list \<Rightarrow> (nat \<times> nat) list" where
  "wrapped rs = map (\<lambda>(e, r). (e, u32 r)) rs"

definition times_near :: "(nat \<Rightarrow> nat) \<Rightarrow> nat \<Rightarrow> (nat \<times> nat) list \<Rightarrow> bool" where
  "times_near R n rs \<longleftrightarrow>
     (\<forall>e r k. (e, r) \<in> set rs \<and> e \<noteq> DRV_EVT_NONE \<and> k \<le> n \<longrightarrow> near r (R k)) \<and>
     (\<forall>e r f q. (e, r) \<in> set rs \<and> e \<noteq> DRV_EVT_NONE \<and> (f, q) \<in> set rs \<and> f \<noteq> DRV_EVT_NONE \<longrightarrow> near r q)"

lemma times_near_mono:
  assumes "times_near R n rs" "n' \<le> n" "\<And>e r. (e, r) \<in> set rs' \<Longrightarrow> e \<noteq> DRV_EVT_NONE \<Longrightarrow> (e, r) \<in> set rs"
  shows "times_near R n' rs'"
  using assms unfolding times_near_def by (meson le_trans)

lemma wrapped_simps [simp]:
  "wrapped [] = []" "wrapped ((e, r) # rs) = (e, u32 r) # wrapped rs" "length (wrapped rs) = length rs"
  by (simp_all add: wrapped_def)

text \<open>The slot \<open>i\<close> is due at its reading of the clock; every occupied slot before it takes one reading.\<close>

definition occupied :: "(nat \<times> nat) list \<Rightarrow> nat" where
  "occupied rs = length (filter (\<lambda>x. fst x \<noteq> DRV_EVT_NONE) rs)"

definition due_slot :: "(nat \<Rightarrow> nat) \<Rightarrow> nat \<Rightarrow> (nat \<times> nat) list \<Rightarrow> nat \<Rightarrow> bool" where
  "due_slot R n rs i \<longleftrightarrow> fst (rs ! i) \<noteq> DRV_EVT_NONE \<and> snd (rs ! i) \<le> R (n + occupied (take i rs))"

lemma occupied_simps [simp]:
  "occupied [] = 0" "occupied ((e, r) # rs) = of_bool (e \<noteq> DRV_EVT_NONE) + occupied rs"
  by (simp_all add: occupied_def)

lemma due_slot_simps [simp]:
  "due_slot R n ((e, r) # rs) 0 \<longleftrightarrow> e \<noteq> DRV_EVT_NONE \<and> r \<le> R n"
  "due_slot R n ((e, r) # rs) (Suc i) \<longleftrightarrow> due_slot R (n + of_bool (e \<noteq> DRV_EVT_NONE)) rs i"
  by (simp_all add: due_slot_def add.assoc)

lemma process_evts_exact:
  assumes "process_evts env (wrapped rs) d = (es, d')" and "times_near R (ticks d + length rs) rs"
    and "distinct (filter (\<lambda>e. e \<noteq> DRV_EVT_NONE) (map fst rs))"
    and clk: "\<And>k. u32 (clock env k) = u32 (R k)"
  shows "(\<forall>e. driver_task_notification_check e d' \<longleftrightarrow> driver_task_notification_check e d
        \<or> (\<exists>i<length rs. fst (rs ! i) = e \<and> due_slot R (ticks d) rs i))
    \<and> length es = length rs
    \<and> (\<forall>i<length rs. es ! i = (if due_slot R (ticks d) rs i \<or> driver_task_notification_check (fst (rs ! i)) d
          then DRV_EVT_NONE else fst (rs ! i), u32 (snd (rs ! i))))
    \<and> d' = d\<lparr>ticks := ticks d + occupied rs, pending_evts := pending_evts d'\<rparr>"
  using assms(1-3)
proof (induction rs arbitrary: d es)
  case (Cons x rs)
  obtain e r where x: "x = (e, r)" by (cases x)
  define step where "step =
    (if e \<noteq> DRV_EVT_NONE then
       (let (now, d) = mmosal_get_time_ms env d
        in if mmosal_time_has_passed now (u32 r)
           then ((DRV_EVT_NONE, u32 r), d\<lparr>pending_evts := set_bit e (pending_evts d)\<rparr>)
           else if driver_task_notification_check e d then ((DRV_EVT_NONE, u32 r), d)
           else ((e, u32 r), d))
     else ((e, u32 r), d))"
  obtain y d1 where st: "step = (y, d1)" by fastforce
  obtain es1 where es1: "process_evts env (wrapped rs) d1 = (es1, d')" "es = y # es1"
  proof -
    have "process_evts env (wrapped (x # rs)) d =
        (let (y, d) = step; (es, d) = process_evts env (wrapped rs) d in (y # es, d))"
      by (simp add: step_def x del: Let_def)
    then show ?thesis using Cons.prems(1) st that by (simp split: prod.splits)
  qed
  have "e \<noteq> DRV_EVT_NONE \<longrightarrow> near r (R (ticks d))"
    using Cons.prems(2) x unfolding times_near_def by (metis le_add1 list.set_intros(1))
  then have due: "e \<noteq> DRV_EVT_NONE \<longrightarrow> mmosal_time_has_passed (u32 (clock env (ticks d))) (u32 r) = (r \<le> R (ticks d))"
    by (simp add: clk mmosal_time_has_passed_def time_compare)
  have t1: "ticks d1 = ticks d + of_bool (e \<noteq> DRV_EVT_NONE)"
    and d1: "d1 = d\<lparr>ticks := ticks d1, pending_evts := pending_evts d1\<rparr>"
    and y: "y = (if due_slot R (ticks d) (x # rs) 0 \<or> driver_task_notification_check e d then DRV_EVT_NONE else e, u32 r)"
    and chk: "driver_task_notification_check f d1 \<longleftrightarrow> driver_task_notification_check f d
      \<or> f = e \<and> due_slot R (ticks d) (x # rs) 0" for f
    using st due by (auto simp: step_def x mmosal_get_time_ms_def driver_task_notification_check_def bit_simps
        split: if_splits)
  have nr: "times_near R (ticks d1 + length rs) rs"
    by (rule times_near_mono [OF Cons.prems(2)]) (use x t1 in auto)
  have dist: "distinct (filter (\<lambda>e. e \<noteq> DRV_EVT_NONE) (map fst rs))"
    using Cons.prems(3) by (simp split: if_splits)
  have other: "driver_task_notification_check (fst (rs ! i)) d1 \<longleftrightarrow> driver_task_notification_check (fst (rs ! i)) d"
    if "i < length rs" "fst (rs ! i) \<noteq> DRV_EVT_NONE" for i
  proof (cases "e = DRV_EVT_NONE")
    case False
    then have "e \<notin> fst ` set rs" using Cons.prems(3) x by auto
    then have "fst (rs ! i) \<noteq> e" using that(1) by (metis image_eqI nth_mem)
    then show ?thesis by (simp add: chk)
  qed (simp add: chk x)
  note IH = Cons.IH [OF es1(1) nr dist]
  have d': "d' = d\<lparr>ticks := ticks d + occupied (x # rs), pending_evts := pending_evts d'\<rparr>"
  proof -
    have "d' = d1\<lparr>ticks := ticks d1 + occupied rs, pending_evts := pending_evts d'\<rparr>" using IH by blast
    also have "... = d\<lparr>ticks := ticks d1 + occupied rs, pending_evts := pending_evts d'\<rparr>" by (subst d1) simp
    finally show ?thesis by (simp add: t1 x add.assoc)
  qed
  have pend: "driver_task_notification_check f d' \<longleftrightarrow> driver_task_notification_check f d
        \<or> (\<exists>i<length (x # rs). fst ((x # rs) ! i) = f \<and> due_slot R (ticks d) (x # rs) i)" for f
  proof -
    have "driver_task_notification_check f d' \<longleftrightarrow> driver_task_notification_check f d1
        \<or> (\<exists>i<length rs. fst (rs ! i) = f \<and> due_slot R (ticks d1) rs i)" using IH by blast
    then show ?thesis by (auto simp: chk x t1 less_Suc_eq_0_disj)
  qed
  have slots: "es ! i = (if due_slot R (ticks d) (x # rs) i \<or> driver_task_notification_check (fst ((x # rs) ! i)) d
          then DRV_EVT_NONE else fst ((x # rs) ! i), u32 (snd ((x # rs) ! i)))" if "i < length (x # rs)" for i
  proof (cases i)
    case 0
    then show ?thesis by (simp add: es1(2) y) (simp add: x)
  next
    case (Suc j)
    then have j: "j < length rs" using that by simp
    have "es1 ! j = (if due_slot R (ticks d1) rs j \<or> driver_task_notification_check (fst (rs ! j)) d1
          then DRV_EVT_NONE else fst (rs ! j), u32 (snd (rs ! j)))" using IH j by blast
    then show ?thesis using other [OF j] by (simp add: Suc es1(2) x t1) blast
  qed
  show ?case using IH pend slots d' es1(2) by simp
qed simp

lemma next_evt_time_least:
  assumes "\<And>e r x. (e, r) \<in> set rs \<Longrightarrow> e \<noteq> DRV_EVT_NONE \<Longrightarrow> m = Some x \<Longrightarrow> near r x"
    and "\<And>e r f q. (e, r) \<in> set rs \<Longrightarrow> e \<noteq> DRV_EVT_NONE \<Longrightarrow> (f, q) \<in> set rs \<Longrightarrow> f \<noteq> DRV_EVT_NONE \<Longrightarrow> near r q"
  shows "\<exists>m'. next_evt_time (wrapped rs) (map_option u32 m) = map_option u32 m'
    \<and> (\<forall>x. m = Some x \<longrightarrow> (\<exists>y\<le>x. m' = Some y))
    \<and> (\<forall>e r. (e, r) \<in> set rs \<and> e \<noteq> DRV_EVT_NONE \<longrightarrow> (\<exists>y\<le>r. m' = Some y))
    \<and> (\<forall>y. m' = Some y \<longrightarrow> m = Some y \<or> (\<exists>e. e \<noteq> DRV_EVT_NONE \<and> (e, y) \<in> set rs))"
  using assms
proof (induction rs arbitrary: m)
  case (Cons p rs)
  obtain e r where p: "p = (e, r)" by (cases p)
  define m1 where "m1 = (if e = DRV_EVT_NONE then m
    else Some (case m of None \<Rightarrow> r | Some x \<Rightarrow> min r x))"
  have near: "e \<noteq> DRV_EVT_NONE \<longrightarrow> m = Some x \<longrightarrow> near r x" for x using Cons.prems p by auto
  have step: "next_evt_time (wrapped (p # rs)) (map_option u32 m) = next_evt_time (wrapped rs) (map_option u32 m1)"
    using near by (auto simp: p m1_def time_compare min_def split: option.splits)
  have "near q y" if "(f, q) \<in> set rs" "f \<noteq> DRV_EVT_NONE" "m1 = Some y" for f q y
  proof -
    have "m = Some y \<or> e \<noteq> DRV_EVT_NONE \<and> y = r"
      using that(3) by (auto simp: m1_def min_def split: option.splits if_splits)
    then show ?thesis using Cons.prems(1) [of f q y] Cons.prems(2) [of f q e r] that p by auto
  qed
  moreover have "near q q'" if "(f, q) \<in> set rs" "f \<noteq> DRV_EVT_NONE" "(g, q') \<in> set rs" "g \<noteq> DRV_EVT_NONE" for f q g q'
    using Cons.prems(2) [of f q g q'] that by simp
  ultimately obtain m' where m':
    "next_evt_time (wrapped rs) (map_option u32 m1) = map_option u32 m'"
    "\<forall>x. m1 = Some x \<longrightarrow> (\<exists>y\<le>x. m' = Some y)"
    "\<forall>e r. (e, r) \<in> set rs \<and> e \<noteq> DRV_EVT_NONE \<longrightarrow> (\<exists>y\<le>r. m' = Some y)"
    "\<forall>y. m' = Some y \<longrightarrow> m1 = Some y \<or> (\<exists>e. e \<noteq> DRV_EVT_NONE \<and> (e, y) \<in> set rs)"
    using Cons.IH [of m1] by blast
  have "\<forall>x. m = Some x \<longrightarrow> (\<exists>y\<le>x. m' = Some y)" "e \<noteq> DRV_EVT_NONE \<longrightarrow> (\<exists>y\<le>r. m' = Some y)"
    using m'(2) by (auto simp: m1_def split: option.splits if_splits)
  moreover have "\<forall>y. m' = Some y \<longrightarrow> m = Some y \<or> (\<exists>f. f \<noteq> DRV_EVT_NONE \<and> (f, y) \<in> set (p # rs))"
    using m'(4) p by (auto simp: m1_def min_def split: option.splits if_splits)
  ultimately show ?case using m'(1,3) step p by (intro exI [of _ m']) auto
qed auto

lemma next_evt_time_slots:
  assumes "times_near R (n + length rs) rs" "ticks (d1 :: 'a driver_task_scheme) \<le> n + length rs"
    and "scheduled_evts d1 = es" "length es = length rs"
    and slots: "\<And>i. i < length rs \<Longrightarrow> snd (es ! i) = u32 (snd (rs ! i)) \<and> (fst (es ! i) = DRV_EVT_NONE \<or> fst (es ! i) = fst (rs ! i))"
    and clk: "\<And>k. u32 (clock env k) = u32 (R k)"
    and wait: "driver_task_wait_ms env d1 = (w, d2)"
  shows "if \<exists>i<length rs. fst (es ! i) \<noteq> DRV_EVT_NONE
    then (\<exists>i<length rs. fst (es ! i) \<noteq> DRV_EVT_NONE \<and> int (R (ticks d1)) + w = int (snd (rs ! i)))
      \<and> (\<forall>i<length rs. fst (es ! i) \<noteq> DRV_EVT_NONE \<longrightarrow> int (R (ticks d1)) + w \<le> int (snd (rs ! i)))
    else w = DRV_TASK_MAX_SLEEP_MS"
proof -
  define rs' where "rs' = map (\<lambda>i. (fst (es ! i), snd (rs ! i))) [0..<length rs]"
  have es: "es = wrapped rs'"
    by (rule nth_equalityI) (use assms(4) slots in \<open>auto simp: rs'_def wrapped_def prod_eq_iff\<close>)
  have mem: "(e, r) \<in> set rs' \<longleftrightarrow> (\<exists>i<length rs. e = fst (es ! i) \<and> r = snd (rs ! i))" for e r
    by (auto simp: rs'_def)
  have "times_near R (n + length rs) rs'"
  proof (rule times_near_mono [OF assms(1) order_refl])
    fix e r assume "(e, r) \<in> set rs'" "e \<noteq> DRV_EVT_NONE"
    then obtain i where i: "i < length rs" "e = fst (es ! i)" "r = snd (rs ! i)" "fst (es ! i) \<noteq> DRV_EVT_NONE"
      unfolding mem by blast
    then have "e = fst (rs ! i)" using slots [OF i(1)] by simp
    then show "(e, r) \<in> set rs" using i(1,3) by (metis nth_mem prod.collapse)
  qed
  then have nn: "\<And>e r. (e, r) \<in> set rs' \<Longrightarrow> e \<noteq> DRV_EVT_NONE \<Longrightarrow> near r (R (ticks d1))"
      "\<And>e r f q. (e, r) \<in> set rs' \<Longrightarrow> e \<noteq> DRV_EVT_NONE \<Longrightarrow> (f, q) \<in> set rs' \<Longrightarrow> f \<noteq> DRV_EVT_NONE \<Longrightarrow> near r q"
    using assms(2) unfolding times_near_def by auto
  obtain m where m: "next_evt_time (wrapped rs') None = map_option u32 m"
    "\<forall>e r. (e, r) \<in> set rs' \<and> e \<noteq> DRV_EVT_NONE \<longrightarrow> (\<exists>y\<le>r. m = Some y)"
    "\<forall>y. m = Some y \<longrightarrow> (\<exists>e. e \<noteq> DRV_EVT_NONE \<and> (e, y) \<in> set rs')"
    using next_evt_time_least [of rs' None] nn by auto
  show ?thesis
  proof (cases m)
    case None
    then have no: "\<not> (\<exists>i<length rs. fst (es ! i) \<noteq> DRV_EVT_NONE)"
      using m(2) mem by (metis option.distinct(1))
    then show ?thesis
      unfolding if_not_P [OF no] using wait m(1) None assms(3) by (simp add: driver_task_wait_ms_def get_next_scheduled_evt_time_def es)
  next
    case (Some y)
    then obtain f i where i: "f \<noteq> DRV_EVT_NONE" "(f, y) \<in> set rs'" "i < length rs" "f = fst (es ! i)" "y = snd (rs ! i)"
      using m(3) mem by metis
    then have "near y (R (ticks d1))" using nn by blast
    then have w: "w = int y - int (R (ticks d1))"
      using wait m(1) Some assms(3) by (simp add: driver_task_wait_ms_def get_next_scheduled_evt_time_def es
        mmosal_get_time_ms_def clk s32_sub32)
    have "y \<le> snd (rs ! j)" if "j < length rs" "fst (es ! j) \<noteq> DRV_EVT_NONE" for j
      using m(2) mem that Some by (metis option.inject)
    then show ?thesis using i w by auto
  qed
qed

text \<open>C32. Processing the table of scheduled events is pinned down exactly, if the times lie within half of the 32-bit
  range: a slot is due when its time is not after its reading of the clock; afterwards an event is pending exactly
  if it was before or its slot was due; the slots that were due, or whose event was already pending, are free,
  every other slot and the rest of the state are as they were; and the task then waits exactly until the earliest event that
  is left, or the longest time when none is.\<close>

theorem scheduled_events_fire_when_due:
  assumes tab: "scheduled_evts d = wrapped rs" "sched_ok (scheduled_evts d)"
    and near: "times_near R (ticks d + length rs) rs" and clk: "\<And>k. u32 (clock env k) = u32 (R k)"
    and ran: "d1 = driver_task_process_scheduled_evts env d" "driver_task_wait_ms env d1 = (w, d2)"
  shows "(\<forall>e. driver_task_notification_check e d1 \<longleftrightarrow> driver_task_notification_check e d
        \<or> (\<exists>i<length rs. fst (rs ! i) = e \<and> due_slot R (ticks d) rs i))
    \<and> length (scheduled_evts d1) = length rs
    \<and> (\<forall>i<length rs. scheduled_evts d1 ! i =
          (if due_slot R (ticks d) rs i \<or> driver_task_notification_check (fst (rs ! i)) d then DRV_EVT_NONE else fst (rs ! i),
           u32 (snd (rs ! i))))
    \<and> d1 = d\<lparr>ticks := ticks d + occupied rs, pending_evts := pending_evts d1, scheduled_evts := scheduled_evts d1\<rparr>
    \<and> (if \<exists>i<length rs. fst (scheduled_evts d1 ! i) \<noteq> DRV_EVT_NONE
       then (\<exists>i<length rs. fst (scheduled_evts d1 ! i) \<noteq> DRV_EVT_NONE \<and> int (R (ticks d1)) + w = int (snd (rs ! i)))
         \<and> (\<forall>i<length rs. fst (scheduled_evts d1 ! i) \<noteq> DRV_EVT_NONE \<longrightarrow> int (R (ticks d1)) + w \<le> int (snd (rs ! i)))
       else w = DRV_TASK_MAX_SLEEP_MS)"
proof -
  obtain es d0 where p: "process_evts env (wrapped rs) d = (es, d0)" by (cases "process_evts env (wrapped rs) d")
  have d1: "d1 = d0\<lparr>scheduled_evts := es\<rparr>"
    using ran(1) by (simp add: driver_task_process_scheduled_evts_def tab(1) p)
  have "map fst (wrapped rs) = map fst rs" by (auto simp: wrapped_def)
  then have "distinct (filter (\<lambda>e. e \<noteq> DRV_EVT_NONE) (map fst rs))" using tab by (simp add: sched_ok_def del: filter_map)
  note exact = process_evts_exact [OF p near this clk]
  have pend: "driver_task_notification_check e d1 \<longleftrightarrow> driver_task_notification_check e d
      \<or> (\<exists>i<length rs. fst (rs ! i) = e \<and> due_slot R (ticks d) rs i)" for e
    using exact by (simp add: d1 driver_task_notification_check_def)
  have slots: "es ! i = (if due_slot R (ticks d) rs i \<or> driver_task_notification_check (fst (rs ! i)) d
      then DRV_EVT_NONE else fst (rs ! i), u32 (snd (rs ! i)))" if "i < length rs" for i
    using exact that by blast
  have d0: "d0 = d\<lparr>ticks := ticks d + occupied rs, pending_evts := pending_evts d0\<rparr>" using exact by blast
  then have "ticks d0 = ticks d + occupied rs" by (metis driver_task.select_convs(1) driver_task.surjective driver_task.update_convs(1,2))
  moreover have "occupied rs \<le> length rs" by (simp add: occupied_def)
  ultimately have tk: "ticks d1 \<le> ticks d + length rs" by (simp add: d1)
  have d1': "d1 = d\<lparr>ticks := ticks d + occupied rs, pending_evts := pending_evts d1, scheduled_evts := scheduled_evts d1\<rparr>"
    unfolding d1 by (subst d0) simp
  have es: "scheduled_evts d1 = es" "length es = length rs" using exact by (simp_all add: d1)
  have wait: "if \<exists>i<length rs. fst (es ! i) \<noteq> DRV_EVT_NONE
    then (\<exists>i<length rs. fst (es ! i) \<noteq> DRV_EVT_NONE \<and> int (R (ticks d1)) + w = int (snd (rs ! i)))
      \<and> (\<forall>i<length rs. fst (es ! i) \<noteq> DRV_EVT_NONE \<longrightarrow> int (R (ticks d1)) + w \<le> int (snd (rs ! i)))
    else w = DRV_TASK_MAX_SLEEP_MS"
    by (rule next_evt_time_slots [OF near tk es _ clk ran(2)]) (simp_all add: slots)
  show ?thesis using pend slots d1' wait unfolding es by (intro conjI) blast+
qed

theorem scheduled_events_fire_when_due_witness:
  "\<exists>d d1 d2 :: driver_task. \<exists>w. driver_task_notification_check DRV_EVT_TX_DATA_PEND d1
    \<and> scheduled_evts d1 = [(0, 4294967290), (0, 0), (13, 3), (0, 0)] \<and> w = 8
    \<and> scheduled_evts d = wrapped [(6, 4294967290), (0, 0), (13, 4294967299), (0, 0)]
    \<and> d1 = driver_task_process_scheduled_evts \<lparr>clock = \<lambda>_. 4294967291\<rparr> d
    \<and> driver_task_wait_ms \<lparr>clock = \<lambda>_. 4294967291\<rparr> d1 = (w, d2)"
proof -
  let ?rs = "[(6, 4294967290), (0, 0), (13, 4294967299), (0, 0)] :: (nat \<times> nat) list"
  let ?d = "\<lparr>ticks = 0, pending_evts = 0, scheduled_evts = wrapped ?rs, dt_semb = False, dt_task = True,
    dt_running = True\<rparr> :: driver_task"
  let ?env = "\<lparr>clock = \<lambda>_. 4294967291\<rparr> :: driver_env"
  let ?d1 = "driver_task_process_scheduled_evts ?env ?d"
  have near: "times_near (\<lambda>_. 4294967291) (ticks ?d + length ?rs) ?rs"
    by (auto simp: times_near_def near_def)
  obtain w d2 where w: "driver_task_wait_ms ?env ?d1 = (w, d2)" by fastforce
  have tab: "scheduled_evts ?d = wrapped ?rs" by simp
  have ok: "sched_ok (scheduled_evts ?d)" by (simp add: sched_ok_def)
  have clk: "u32 (clock ?env k) = u32 4294967291" for k by simp
  note fire = scheduled_events_fire_when_due [OF tab ok near clk refl w]
  have len: "length ?rs = 4" by simp
  have slots: "due_slot (\<lambda>_. 4294967291) 0 ?rs 0" "\<not> due_slot (\<lambda>_. 4294967291) 0 ?rs 1"
    "\<not> due_slot (\<lambda>_. 4294967291) 0 ?rs 2" "\<not> due_slot (\<lambda>_. 4294967291) 0 ?rs 3"
    by (simp_all add: due_slot_def)
  have none: "\<not> driver_task_notification_check e ?d" for e by (simp add: driver_task_notification_check_def)
  have "driver_task_notification_check 6 ?d1"
    using fire [THEN conjunct1, rule_format, of 6] slots(1) by (auto intro: exI [of _ 0])
  moreover have es: "scheduled_evts ?d1 = [(0, 4294967290), (0, 0), (13, 3), (0, 0)]"
  proof (rule nth_equalityI)
    show "length (scheduled_evts ?d1) = length [(0 :: nat, 4294967290 :: nat), (0, 0), (13, 3), (0, 0)]"
      using fire by simp
    fix i assume "i < length (scheduled_evts ?d1)"
    then have "i = 0 \<or> i = 1 \<or> i = 2 \<or> i = 3" using fire by auto
    moreover have "scheduled_evts ?d1 ! i = (if due_slot (\<lambda>_. 4294967291) (ticks ?d) ?rs i
        \<or> driver_task_notification_check (fst (?rs ! i)) ?d then 0 else fst (?rs ! i), u32 (snd (?rs ! i)))" if "i < 4" for i
      using fire [THEN conjunct2, THEN conjunct2, THEN conjunct1, rule_format, of i] that by simp
    ultimately show "scheduled_evts ?d1 ! i = [(0, 4294967290), (0, 0), (13, 3), (0, 0)] ! i"
      using slots none by (auto simp: u32_def)
  qed
  moreover have "w = 8"
  proof -
    have four: "i = 0 \<or> i = 1 \<or> i = 2 \<or> i = 3" if "i < 4" for i :: nat using that by arith
    have slot: "fst ([(0, 4294967290), (0, 0), (13, 3), (0, 0 :: nat)] ! i) \<noteq> (0 :: nat) \<Longrightarrow> i < 4 \<Longrightarrow> i = 2" for i
      using four [of i] by auto
    have some: "\<exists>i<length ?rs. fst (scheduled_evts ?d1 ! i) \<noteq> DRV_EVT_NONE"
      unfolding es len by (rule exI [of _ 2]) simp
    note last = fire [THEN conjunct2, THEN conjunct2, THEN conjunct2, THEN conjunct2, unfolded if_P [OF some]]
    obtain i where i: "i < length ?rs" "fst (scheduled_evts ?d1 ! i) \<noteq> DRV_EVT_NONE" "int 4294967291 + w = int (snd (?rs ! i))"
      using last [THEN conjunct1] by blast
    have "i = 2" using slot [of i] i(1,2) unfolding es len by blast
    then show ?thesis using i(3) by simp
  qed
  ultimately show ?thesis using w by (intro exI [of _ ?d] exI [of _ ?d1] exI [of _ d2] exI [of _ w]) simp
qed

end
