(* ===== verification/Mmrc_Rates.thy ===== *)
theory Mmrc_Rates
  imports Prelude
begin

section \<open>Rates of the rate control module\<close>

text \<open>
  The first part of \<open>morselib/mmrc/src/core/mmrc.c\<close>, built for 802.11ah and one spatial stream as
  \<open>mmrc.h\<close> configures it: the numbering of the rows of a station's statistics table by guard
  interval, bandwidth and MCS, the standard throughput and transmit time of a rate and the
  combinations 802.11ah does not support. Bit-field members hold numbers below two to their width.
\<close>

subsection \<open>Data\<close>

abbreviation (input) MMRC_MAX_CHAIN_LENGTH :: nat where "MMRC_MAX_CHAIN_LENGTH \<equiv> 4"
abbreviation (input) MMRC_MCS10 :: nat where "MMRC_MCS10 \<equiv> 10"
abbreviation (input) MMRC_MCS_UNUSED :: nat where "MMRC_MCS_UNUSED \<equiv> 11"
abbreviation (input) MMRC_BW_1MHZ :: nat where "MMRC_BW_1MHZ \<equiv> 0"
abbreviation (input) MMRC_BW_2MHZ :: nat where "MMRC_BW_2MHZ \<equiv> 1"
abbreviation (input) MMRC_BW_4MHZ :: nat where "MMRC_BW_4MHZ \<equiv> 2"
abbreviation (input) MMRC_BW_8MHZ :: nat where "MMRC_BW_8MHZ \<equiv> 3"
abbreviation (input) MMRC_BW_16MHZ :: nat where "MMRC_BW_16MHZ \<equiv> 4"
abbreviation (input) MMRC_BW_MAX :: nat where "MMRC_BW_MAX \<equiv> 5"
abbreviation (input) MMRC_GUARD_LONG :: nat where "MMRC_GUARD_LONG \<equiv> 0"
abbreviation (input) MMRC_GUARD_SHORT :: nat where "MMRC_GUARD_SHORT \<equiv> 1"
abbreviation (input) MMRC_GUARD_MAX :: nat where "MMRC_GUARD_MAX \<equiv> 2"

record mmrc_rate =
  mr_rate :: nat
  mr_attempts :: nat
  mr_ss :: nat
  mr_bw :: nat
  mr_flags :: nat
  mr_index :: nat
  mr_guard :: nat

definition mmrc_rate_zero :: mmrc_rate where
  "mmrc_rate_zero = \<lparr>mr_rate = 0, mr_attempts = 0, mr_ss = 0, mr_bw = 0, mr_flags = 0,
     mr_index = 0, mr_guard = 0\<rparr>"

record mmrc_sta_capabilities =
  cap_max_rates :: nat
  cap_max_retries :: nat
  cap_bandwidth :: nat
  cap_spatial_streams :: nat
  cap_rates :: nat
  cap_guard :: nat
  cap_sta_flags :: nat
  cap_sgi_per_bw :: nat

subsection \<open>Bit sets\<close>

text \<open>\<open>__builtin_popcount\<close>.\<close>

fun bit_count :: "nat \<Rightarrow> nat" where
  "bit_count n = (if n = 0 then 0 else n mod 2 + bit_count (n div 2))"

declare bit_count.simps [simp del]

text \<open>The loop of \<open>nth_bit\<close>; a shift by 32 or more has no defined result.\<close>

function nth_bit_loop :: "nat \<Rightarrow> nat \<Rightarrow> nat \<Rightarrow> nat \<Rightarrow> nat option" where
  "nth_bit_loop inp index i count =
     (if count = index + 1 then Some (u8 (i - 1))
      else if 32 \<le> i then None
      else nth_bit_loop inp index (i + 1) (if bit inp i then u8 (count + 1) else count))"
  by auto
termination by (relation "measure (\<lambda>(inp, index, i, count). 32 - i)") auto

declare nth_bit_loop.simps [simp del]

definition nth_bit :: "nat \<Rightarrow> nat \<Rightarrow> nat option" where
  "nth_bit inp index = nth_bit_loop inp index 0 0"

fun bit_index_loop :: "nat \<Rightarrow> nat \<Rightarrow> nat" where
  "bit_index_loop inp 0 = (if bit inp 0 then 1 else 0)"
| "bit_index_loop inp (Suc pos) = bit_index_loop inp pos + (if bit inp (Suc pos) then 1 else 0)"

definition bit_index :: "nat \<Rightarrow> nat \<Rightarrow> nat" where
  "bit_index inp bit_pos =
     (let index = bit_index_loop inp bit_pos in if index = 0 then 0 else index - 1)"

subsection \<open>Rows of the statistics table\<close>

definition rows_from_sta_caps :: "mmrc_sta_capabilities \<Rightarrow> nat" where
  "rows_from_sta_caps caps =
     (let n_rates = bit_count (cap_rates caps);
          streams = 1;
          (n_rates, rows) = (if bit (cap_rates caps) MMRC_MCS10 then (n_rates - 1, 2) else (n_rates, 0))
      in u16 (rows + bit_count (cap_bandwidth caps) * n_rates * bit_count (cap_guard caps) * streams))"

definition rate_update_index :: "mmrc_sta_capabilities \<Rightarrow> mmrc_rate \<Rightarrow> mmrc_rate option" where
  "rate_update_index caps rate = do {
     let bw = bit_count (cap_bandwidth caps);
     let streams = 1;
     let guard = bit_count (cap_guard caps);
     let rows = rows_from_sta_caps caps;
     let index = u16 (bit_index (cap_guard caps) (mr_guard rate)
                      + bit_index (cap_bandwidth caps) (mr_bw rate) * guard
                      + bit_index (cap_rates caps) (mr_rate rate) * bw * streams * guard);
     ensure (index < rows);
     Some (rate\<lparr>mr_index := index mod 32768\<rparr>)
   }"

definition get_rate_row :: "mmrc_sta_capabilities \<Rightarrow> nat \<Rightarrow> mmrc_rate option" where
  "get_rate_row caps index = do {
     let mcs = bit_count (cap_rates caps);
     let bw = bit_count (cap_bandwidth caps);
     let streams = 1;
     let guard = bit_count (cap_guard caps);
     let total_caps = u16 (mcs * bw * streams * guard);
     rows \<leftarrow> cdiv total_caps mcs;
     mcs_index \<leftarrow> cdiv index rows;
     mcs \<leftarrow> nth_bit (cap_rates caps) mcs_index;
     ss_index \<leftarrow> cmod index rows;
     rows \<leftarrow> cdiv rows bw;
     bw_index \<leftarrow> cdiv ss_index rows;
     bw \<leftarrow> nth_bit (cap_bandwidth caps) bw_index;
     guard_index \<leftarrow> cmod index guard;
     guard \<leftarrow> nth_bit (cap_guard caps) guard_index;
     let bw = (if bw \<ge> MMRC_BW_MAX then MMRC_BW_1MHZ else bw);
     let guard = (if guard \<ge> MMRC_GUARD_MAX then MMRC_GUARD_LONG else guard);
     let guard = (if guard = MMRC_GUARD_SHORT \<and> \<not> bit (cap_sgi_per_bw caps) bw
                  then MMRC_GUARD_LONG else guard);
     rate_update_index caps
       \<lparr>mr_rate = mcs mod 16, mr_attempts = 0, mr_ss = 0, mr_bw = bw mod 8, mr_flags = 0,
        mr_index = 0, mr_guard = guard mod 2\<rparr>
   }"

subsection \<open>Throughput and transmit time\<close>

definition sym_table :: "nat list" where
  "sym_table = [24, 36, 48, 72, 96, 144, 192, 216, 256, 288]"

definition calculate_bits_per_symbol :: "mmrc_rate \<Rightarrow> nat option" where
  "calculate_bits_per_symbol rate =
     (if mr_rate rate = MMRC_MCS10 then Some 6
      else if mr_rate rate \<ge> MMRC_MCS_UNUSED then Some 1
      else do {
        bps \<leftarrow> fetch sym_table (mr_rate rate);
        let bps = (if mr_bw rate = MMRC_BW_4MHZ then bps * 537
                   else if mr_bw rate = MMRC_BW_8MHZ then bps * 1152
                   else if mr_bw rate = MMRC_BW_16MHZ then bps * 2301
                   else if mr_bw rate = MMRC_BW_1MHZ then bps * 24 div 52 * 256
                   else bps * 256);
        Some ((mr_ss rate + 1) * bps div 256)
      })"

definition get_tx_time :: "mmrc_rate \<Rightarrow> nat option" where
  "get_tx_time rate = do {
     n_sym \<leftarrow> calculate_bits_per_symbol rate;
     let n_sym = (if n_sym = 0 then sym_table ! 0 else n_sym);
     let n_sym = 9600 div n_sym;
     Some (if mr_guard rate = MMRC_GUARD_LONG then u32 (n_sym * 1024 * 10) div 256
           else if mr_guard rate = MMRC_GUARD_SHORT then u32 (n_sym * 921 * 10) div 256
           else 0)
   }"

definition s1g_tpt_lgi :: "nat list list" where
  "s1g_tpt_lgi =
     [[300, 600, 900, 1200, 1800, 2400, 2700, 3000, 3600, 4000, 150],
      [650, 1300, 1950, 2600, 3900, 5200, 5850, 6500, 7800, 0, 0],
      [1350, 2700, 4050, 5400, 8100, 10800, 12150, 13500, 16200, 18000, 0],
      [2925, 5850, 8775, 11700, 17550, 23400, 26325, 29250, 35100, 39000, 0]]"

definition s1g_tpt_sgi :: "nat list list" where
  "s1g_tpt_sgi =
     [[333, 666, 1000, 1333, 2000, 2666, 3000, 3333, 4000, 4444, 166],
      [722, 1444, 2166, 2888, 4333, 5777, 6500, 7222, 8666, 0, 0],
      [1500, 3000, 4500, 6000, 9000, 12000, 13500, 15000, 18000, 20000, 0],
      [3250, 6500, 9750, 13000, 19500, 26000, 29250, 32500, 39000, 43333, 0]]"

definition mmrc_calculate_theoretical_throughput :: "mmrc_rate \<Rightarrow> nat option" where
  "mmrc_calculate_theoretical_throughput rate = do {
     let streams = 1;
     row \<leftarrow> fetch (if mr_guard rate \<noteq> 0 then s1g_tpt_sgi else s1g_tpt_lgi) (mr_bw rate);
     tpt \<leftarrow> fetch row (mr_rate rate);
     Some (u32 (tpt * 1000 * streams))
   }"

definition validate_rate :: "mmrc_sta_capabilities \<Rightarrow> mmrc_rate \<Rightarrow> bool" where
  "validate_rate caps rate =
     (if mr_rate rate = MMRC_MCS10 \<and> (mr_bw rate \<noteq> MMRC_BW_1MHZ \<or> mr_ss rate \<noteq> 0) then False
      else if mr_rate rate = 9 \<and> mr_bw rate = MMRC_BW_2MHZ then False
      else if mr_guard rate = MMRC_GUARD_SHORT \<and> \<not> bit (cap_sgi_per_bw caps) (mr_bw rate) then False
      else True)"

definition calculate_attempt_time :: "mmrc_rate \<Rightarrow> nat \<Rightarrow> nat option" where
  "calculate_attempt_time rate sz = do {
     time \<leftarrow> get_tx_time rate;
     if sz > 1200 then Some (u32 (time * (u32 (sz * 1000) div 1200)) div 1000)
     else do {
       d \<leftarrow> cdiv 1200000 sz;
       cdiv (u32 (time * 1000)) d
     }
   }"

definition calc_ewma_average :: "nat \<Rightarrow> nat \<Rightarrow> nat \<Rightarrow> nat option" where
  "calc_ewma_average avg latest weight = do {
     ensure (weight \<le> 100);
     Some (if avg = 0 then latest else u32 (latest * (100 - weight) + avg * weight) div 100)
   }"

subsection \<open>Ranks of set bits\<close>

definition rank :: "nat \<Rightarrow> nat \<Rightarrow> nat" where
  "rank inp b = length (filter (bit inp) [0..<b])"

lemma rank_0 [simp]: "rank inp 0 = 0"
  by (simp add: rank_def)

lemma rank_Suc: "rank inp (Suc b) = rank inp b + (if bit inp b then 1 else 0)"
  by (simp add: rank_def)

lemma rank_mono: "a \<le> b \<Longrightarrow> rank inp a \<le> rank inp b"
  by (induction b) (auto simp: rank_Suc le_Suc_eq)

lemma rank_le: "rank inp b \<le> b"
  by (induction b) (auto simp: rank_Suc)

lemma rank_inj:
  assumes "bit inp a" "bit inp b" "rank inp a = rank inp b"
  shows "a = b"
proof (rule ccontr)
  assume "a \<noteq> b"
  then consider "Suc a \<le> b" | "Suc b \<le> a" by linarith
  then show False
    using assms rank_mono [of "Suc a" b inp] rank_mono [of "Suc b" a inp]
    by cases (simp_all add: rank_Suc)
qed

lemma bit_count_rank: "n < 2 ^ m \<Longrightarrow> bit_count n = rank n m"
proof (induction m arbitrary: n)
  case 0
  then show ?case by (simp add: bit_count.simps)
next
  case (Suc m)
  have "filter (bit n) [0..<Suc m] = filter (bit n) (0 # map Suc [0..<m])"
    by (simp only: upt_conv_Cons [of 0 "Suc m"] map_Suc_upt)
  then have "rank n (Suc m) = n mod 2 + rank (n div 2) m"
    by (simp add: rank_def filter_map comp_def bit_Suc bit_0 mod2_eq_if)
  with Suc.IH [of "n div 2"] Suc.prems show ?case
    by (subst bit_count.simps) (auto simp: bit_count.simps)
qed

lemma bit_index_loop_rank: "bit_index_loop inp pos = rank inp (Suc pos)"
  by (induction pos) (simp_all add: rank_Suc)

lemma bit_index_rank: "bit inp b \<Longrightarrow> bit_index inp b = rank inp b"
  by (simp add: bit_index_def bit_index_loop_rank rank_Suc)

lemma bit_index_less:
  assumes "n < 2 ^ m" "0 < n" "pos < m"
  shows "bit_index n pos < bit_count n"
proof -
  have "rank n (Suc pos) \<le> bit_count n"
    using assms rank_mono [of "Suc pos" m n] by (simp add: bit_count_rank)
  moreover have "0 < bit_count n"
    using assms(2) by (induction n rule: bit_count.induct) (subst bit_count.simps; force)
  ultimately show ?thesis
    by (auto simp: bit_index_def bit_index_loop_rank Let_def)
qed

lemma bit_lt: "bit n b \<Longrightarrow> n < 2 ^ m \<Longrightarrow> b < (m :: nat)" for n :: nat
  by (metis bit_take_bit_iff take_bit_nat_eq_self)

text \<open>\<open>nth_bit\<close> finds the set bit of the given rank.\<close>

lemma nth_bit_loop_rank:
  assumes "count = rank inp i" "count \<le> index" "i \<le> b" "b < 32" "bit inp b" "rank inp b = index"
  shows "nth_bit_loop inp index i count = Some b"
  using assms
proof (induction inp index i count rule: nth_bit_loop.induct)
  case (1 inp index i count)
  have index: "index < 32" using "1.prems"(4,6) rank_le [of inp b] by simp
  show ?case
  proof (cases "i = b")
    case True
    then have "nth_bit_loop inp index (b + 1) (index + 1) = Some b"
      using "1.prems" by (subst nth_bit_loop.simps) (simp add: u8_id)
    with True "1.prems" index show ?thesis
      by (subst nth_bit_loop.simps) (simp add: u8_id)
  next
    case False
    then have "Suc i \<le> b" using "1.prems"(3) by simp
    then have "rank inp (Suc i) \<le> index" using "1.prems"(6) rank_mono by blast
    moreover have "(if bit inp i then u8 (count + 1) else count) = rank inp (Suc i)"
      using "1.prems"(1,2) index by (simp add: rank_Suc u8_id)
    ultimately show ?thesis
      using "1.IH" "1.prems" \<open>Suc i \<le> b\<close> by (subst nth_bit_loop.simps) simp
  qed
qed

lemma nth_bit_rank:
  assumes "bit inp b" "b < 32"
  shows "nth_bit inp (rank inp b) = Some b"
  using nth_bit_loop_rank [of 0 inp 0 "rank inp b" b] assms by (simp add: nth_bit_def)

lemma rank_surj:
  "k < rank inp m \<Longrightarrow> \<exists>b < m. bit inp b \<and> rank inp b = k"
  by (induction m) (auto simp: rank_Suc less_Suc_eq split: if_splits)

lemma nth_bit_Some:
  assumes "n < 2 ^ m" "m \<le> 32" "k < bit_count n"
  obtains b where "nth_bit n k = Some b" "bit n b" "b < m" "rank n b = k"
proof -
  from assms obtain b where "b < m" "bit n b" "rank n b = k"
    using rank_surj [of k n m] by (auto simp: bit_count_rank)
  then show ?thesis
    using nth_bit_rank [of n b] assms(2) that by simp
qed

subsection \<open>The row numbering\<close>

text \<open>
  The capabilities rate control runs with: at least one rate and bandwidth, neither MCS10 nor
  16 MHz, and the long guard interval. \<open>umac_rc_start\<close> never sets the bit of MCS10.
\<close>

definition caps_ok :: "mmrc_sta_capabilities \<Rightarrow> bool" where
  "caps_ok c \<longleftrightarrow> 0 < cap_rates c \<and> cap_rates c < 2 ^ 10 \<and> 0 < cap_bandwidth c
     \<and> cap_bandwidth c < 2 ^ 4 \<and> cap_guard c \<in> {1, 3} \<and> cap_max_rates c \<in> {1..7}
     \<and> 0 < cap_max_retries c"

definition row_index :: "mmrc_sta_capabilities \<Rightarrow> mmrc_rate \<Rightarrow> nat" where
  "row_index c r = bit_index (cap_guard c) (mr_guard r)
     + bit_count (cap_guard c) * (bit_index (cap_bandwidth c) (mr_bw r)
     + bit_count (cap_bandwidth c) * bit_index (cap_rates c) (mr_rate r))"

lemma bit_count_bounds:
  assumes "caps_ok c"
  shows "0 < bit_count (cap_rates c)" "bit_count (cap_rates c) \<le> 10"
    "0 < bit_count (cap_bandwidth c)" "bit_count (cap_bandwidth c) \<le> 4"
    "0 < bit_count (cap_guard c)" "bit_count (cap_guard c) \<le> 2"
proof -
  have pos: "0 < bit_count n" if "0 < n" "n < 2 ^ m" for n m :: nat
    using bit_index_less [OF that(2,1), of 0] that by (cases m) auto
  have le: "bit_count n \<le> m" if "n < 2 ^ m" for n m :: nat
    using rank_le [of n m] that by (simp add: bit_count_rank)
  have g: "0 < cap_guard c" "cap_guard c < 2 ^ 2"
    using assms by (auto simp: caps_ok_def)
  show "0 < bit_count (cap_rates c)" "bit_count (cap_rates c) \<le> 10"
    "0 < bit_count (cap_bandwidth c)" "bit_count (cap_bandwidth c) \<le> 4"
    "0 < bit_count (cap_guard c)" "bit_count (cap_guard c) \<le> 2"
    using pos [OF g] le [OF g(2)] assms pos le unfolding caps_ok_def by blast+
qed

lemma rows_ok:
  assumes "caps_ok c"
  shows "rows_from_sta_caps c = bit_count (cap_guard c) * (bit_count (cap_bandwidth c) * bit_count (cap_rates c))"
    "rows_from_sta_caps c \<le> 80" "0 < rows_from_sta_caps c"
proof -
  note b = bit_count_bounds [OF assms]
  have le: "bit_count (cap_guard c) * (bit_count (cap_bandwidth c) * bit_count (cap_rates c)) \<le> 2 * (4 * 10)"
    using b by (intro mult_le_mono)
  have "\<not> bit (cap_rates c) 10"
    using assms bit_lt [of "cap_rates c" 10 10] by (auto simp: caps_ok_def)
  then show rows: "rows_from_sta_caps c = bit_count (cap_guard c) * (bit_count (cap_bandwidth c) * bit_count (cap_rates c))"
    using le by (simp add: rows_from_sta_caps_def u16_id ac_simps)
  show "rows_from_sta_caps c \<le> 80" "0 < rows_from_sta_caps c"
    using le b by (simp_all add: rows)
qed

lemma mixed_radix_less:
  assumes "x < g" "y < b" "z < n"
  shows "x + g * (y + b * z) < g * (b * (n :: nat))"
proof -
  have "y + b * z < b * n"
    using assms by (metis add.commute add_less_mono1 less_le_trans mult_Suc_right mult_le_mono2 Suc_leI)
  then have "g * Suc (y + b * z) \<le> g * (b * n)" by (intro mult_le_mono2) simp
  with assms(1) show ?thesis by simp
qed

lemma rate_update_index_ok:
  assumes "caps_ok c" "mr_rate r < 16" "mr_bw r < 8" "mr_guard r < 2"
  shows "rate_update_index c r = Some (r\<lparr>mr_index := row_index c r\<rparr>)"
    "row_index c r < rows_from_sta_caps c"
proof -
  have "bit_index (cap_rates c) (mr_rate r) < bit_count (cap_rates c)"
    "bit_index (cap_bandwidth c) (mr_bw r) < bit_count (cap_bandwidth c)"
    "bit_index (cap_guard c) (mr_guard r) < bit_count (cap_guard c)"
    using assms bit_index_less [of "cap_rates c" 16 "mr_rate r"]
      bit_index_less [of "cap_bandwidth c" 8 "mr_bw r"] bit_index_less [of "cap_guard c" 2 "mr_guard r"]
    by (auto simp: caps_ok_def)
  then show less: "row_index c r < rows_from_sta_caps c"
    unfolding row_index_def rows_ok(1) [OF assms(1)] by (intro mixed_radix_less)
  have index: "bit_index (cap_guard c) (mr_guard r) + bit_index (cap_bandwidth c) (mr_bw r) * bit_count (cap_guard c)
    + bit_index (cap_rates c) (mr_rate r) * bit_count (cap_bandwidth c) * bit_count (cap_guard c) = row_index c r"
    by (simp add: row_index_def algebra_simps)
  have "row_index c r < 32768" using less rows_ok(2) [OF assms(1)] by simp
  then show "rate_update_index c r = Some (r\<lparr>mr_index := row_index c r\<rparr>)"
    using less index by (simp add: rate_update_index_def Let_def u16_id)
qed

text \<open>A rate that some row stands for.\<close>

definition row_rate :: "mmrc_sta_capabilities \<Rightarrow> mmrc_rate \<Rightarrow> bool" where
  "row_rate c r \<longleftrightarrow> bit (cap_rates c) (mr_rate r) \<and> bit (cap_bandwidth c) (mr_bw r)
     \<and> bit (cap_guard c) (mr_guard r)
     \<and> (mr_guard r = MMRC_GUARD_SHORT \<longrightarrow> bit (cap_sgi_per_bw c) (mr_bw r))
     \<and> mr_attempts r = 0 \<and> mr_ss r = 0 \<and> mr_flags r = 0 \<and> mr_index r = row_index c r"

lemma bit_caps:
  assumes "caps_ok c"
  shows "bit (cap_rates c) i \<Longrightarrow> i < 10" "bit (cap_bandwidth c) i \<Longrightarrow> i < 4"
    "bit (cap_guard c) i \<Longrightarrow> i < 2" "bit (cap_guard c) 0"
  using assms bit_lt [of "cap_rates c" i 10] bit_lt [of "cap_bandwidth c" i 4]
    bit_lt [of "cap_guard c" i 2] by (auto simp: caps_ok_def bit_0)

lemma get_rate_row_eq:
  assumes "caps_ok c" "g < bit_count (cap_guard c)" "b < bit_count (cap_bandwidth c)"
    "n < bit_count (cap_rates c)"
    and bits: "nth_bit (cap_guard c) g = Some gi" "nth_bit (cap_bandwidth c) b = Some bi"
      "nth_bit (cap_rates c) n = Some ri" "gi < 2" "bi < 4" "ri < 10"
  shows "get_rate_row c (g + bit_count (cap_guard c) * (b + bit_count (cap_bandwidth c) * n))
    = rate_update_index c \<lparr>mr_rate = ri, mr_attempts = 0, mr_ss = 0, mr_bw = bi, mr_flags = 0, mr_index = 0,
        mr_guard = if gi = MMRC_GUARD_SHORT \<and> \<not> bit (cap_sgi_per_bw c) bi then MMRC_GUARD_LONG else gi\<rparr>"
proof -
  let ?G = "bit_count (cap_guard c)" and ?B = "bit_count (cap_bandwidth c)" and ?N = "bit_count (cap_rates c)"
  note bounds = bit_count_bounds [OF assms(1)]
  let ?i = "g + ?G * (b + ?B * n)"
  have total: "u16 (?N * ?B * 1 * ?G) = ?G * (?B * ?N)"
    using rows_ok [OF assms(1)] by (simp add: ac_simps) (simp add: u16_id)
  have low: "g + ?G * b < ?G * ?B"
    using mixed_radix_less [OF assms(2,3), of 0 1] by simp
  have "?i = (g + ?G * b) + n * (?G * ?B)" by (simp add: distrib_left ac_simps)
  then have split: "?i div (?G * ?B) = n" "?i mod (?G * ?B) = g + ?G * b"
    using low by (simp_all only: div_mult_self3 mod_mult_self3 div_mult_self1 mod_mult_self1) simp_all
  have "(?G * (?B * ?N)) div ?N = ?G * ?B" "?G * ?B div ?B = ?G" "(g + ?G * b) div ?G = b" "?i mod ?G = g"
    using bounds assms(2) by simp_all
  then show ?thesis
    using bounds split bits unfolding get_rate_row_def Let_def total by simp
qed

lemma get_rate_row_total:
  assumes "caps_ok c" "i < rows_from_sta_caps c"
  obtains r where "get_rate_row c i = Some r" "row_rate c r"
proof -
  let ?G = "bit_count (cap_guard c)" and ?B = "bit_count (cap_bandwidth c)" and ?N = "bit_count (cap_rates c)"
  note bounds = bit_count_bounds [OF assms(1)]
  let ?g = "i mod ?G" and ?b = "(i div ?G) mod ?B" and ?n = "i div ?G div ?B"
  have i: "i = ?g + ?G * (?b + ?B * ?n)" by simp
  have n: "?n < ?N"
    using assms(2) unfolding rows_ok(1) [OF assms(1)]
    by (simp add: less_mult_imp_div_less ac_simps)
  have "cap_guard c < 2 ^ 2" "cap_bandwidth c < 2 ^ 4" "cap_rates c < 2 ^ 10"
    using assms(1) by (auto simp: caps_ok_def)
  then have caps: "cap_guard c < 2 ^ 2" "cap_bandwidth c < 2 ^ 4" "cap_rates c < 2 ^ 10" .
  have "?g < ?G" using bounds by simp
  then obtain gi where gi: "nth_bit (cap_guard c) ?g = Some gi" "bit (cap_guard c) gi" "gi < 2"
    by (rule nth_bit_Some [OF caps(1), rotated]) simp_all
  have "?b < ?B" using bounds by simp
  then obtain bi where bi: "nth_bit (cap_bandwidth c) ?b = Some bi" "bit (cap_bandwidth c) bi" "bi < 4"
    by (rule nth_bit_Some [OF caps(2), rotated]) simp_all
  obtain ri where ri: "nth_bit (cap_rates c) ?n = Some ri" "bit (cap_rates c) ri" "ri < 10"
    by (rule nth_bit_Some [OF caps(3) _ n]) simp_all
  note bits = gi bi ri
  let ?r = "\<lparr>mr_rate = ri, mr_attempts = 0, mr_ss = 0, mr_bw = bi, mr_flags = 0, mr_index = 0,
    mr_guard = if gi = MMRC_GUARD_SHORT \<and> \<not> bit (cap_sgi_per_bw c) bi then MMRC_GUARD_LONG else gi\<rparr>"
  have "get_rate_row c i = rate_update_index c ?r"
    using get_rate_row_eq [of c ?g ?b ?n gi bi ri] bits bounds n assms(1) by simp
  also have "... = Some (?r\<lparr>mr_index := row_index c ?r\<rparr>)"
    using bits by (intro rate_update_index_ok [OF assms(1)]) auto
  finally show ?thesis
    using that bits bit_caps(4) [OF assms(1)] by (auto simp: row_rate_def row_index_def)
qed

lemma get_rate_row_index:
  assumes "caps_ok c" "row_rate c r"
  shows "get_rate_row c (mr_index r) = Some r"
proof -
  note bits = assms(2) [unfolded row_rate_def]
  note lt = bit_caps [OF assms(1)]
  have r: "mr_rate r < 10" "mr_bw r < 4" "mr_guard r < 2"
    using bits lt by auto
  have "bit_index (cap_guard c) (mr_guard r) < bit_count (cap_guard c)"
    "bit_index (cap_bandwidth c) (mr_bw r) < bit_count (cap_bandwidth c)"
    "bit_index (cap_rates c) (mr_rate r) < bit_count (cap_rates c)"
    using assms(1) r bit_index_less [of "cap_rates c" 10 "mr_rate r"]
      bit_index_less [of "cap_bandwidth c" 4 "mr_bw r"] bit_index_less [of "cap_guard c" 2 "mr_guard r"]
    by (auto simp: caps_ok_def)
  moreover have "nth_bit (cap_guard c) (bit_index (cap_guard c) (mr_guard r)) = Some (mr_guard r)"
    "nth_bit (cap_bandwidth c) (bit_index (cap_bandwidth c) (mr_bw r)) = Some (mr_bw r)"
    "nth_bit (cap_rates c) (bit_index (cap_rates c) (mr_rate r)) = Some (mr_rate r)"
    using bits r by (simp_all add: bit_index_rank nth_bit_rank)
  ultimately have "get_rate_row c (row_index c r)
    = rate_update_index c \<lparr>mr_rate = mr_rate r, mr_attempts = 0, mr_ss = 0, mr_bw = mr_bw r, mr_flags = 0,
        mr_index = 0, mr_guard = mr_guard r\<rparr>"
    using r bits assms(1) unfolding row_index_def by (subst get_rate_row_eq) auto
  moreover have "row_index c \<lparr>mr_rate = mr_rate r, mr_attempts = 0, mr_ss = 0, mr_bw = mr_bw r, mr_flags = 0,
        mr_index = 0, mr_guard = mr_guard r\<rparr> = row_index c r"
    by (simp add: row_index_def)
  ultimately show ?thesis
    using r bits rate_update_index_ok(1) [OF assms(1)] by (cases r) simp
qed

lemma row_rate_bounds:
  assumes "caps_ok c" "row_rate c r"
  shows "mr_rate r < 10" "mr_bw r < 4" "mr_guard r < 2" "mr_index r < rows_from_sta_caps c"
    "mr_ss r = 0" "mr_attempts r = 0"
  using assms bit_caps [OF assms(1)] rate_update_index_ok(2) [OF assms(1), of r]
  by (auto simp: row_rate_def) fastforce+

text \<open>The rows of the statistics table number the supported rates: every row stands for a rate made of
  a supported MCS, bandwidth and guard interval (the long one where the short one is not supported at
  that bandwidth), the rate's index is a row of the table, and looking up the row of such a rate gives
  the rate back.\<close>

theorem mmrc_rows_round_trip:
  assumes "caps_ok c"
  shows "(\<forall>i < rows_from_sta_caps c. \<exists>r. get_rate_row c i = Some r \<and> row_rate c r
      \<and> mr_index r < rows_from_sta_caps c)
    \<and> (\<forall>r. row_rate c r \<longrightarrow> rate_update_index c r = Some r \<and> get_rate_row c (mr_index r) = Some r)"
proof (intro conjI allI impI)
  fix i
  assume "i < rows_from_sta_caps c"
  then obtain r where "get_rate_row c i = Some r" "row_rate c r"
    by (rule get_rate_row_total [OF assms])
  then show "\<exists>r. get_rate_row c i = Some r \<and> row_rate c r \<and> mr_index r < rows_from_sta_caps c"
    using row_rate_bounds(4) [OF assms] by blast
next
  fix r
  assume r: "row_rate c r"
  then show "get_rate_row c (mr_index r) = Some r" by (rule get_rate_row_index [OF assms])
  have "rate_update_index c r = Some (r\<lparr>mr_index := row_index c r\<rparr>)"
    using row_rate_bounds [OF assms r] by (intro rate_update_index_ok [OF assms]) auto
  then show "rate_update_index c r = Some r"
    using r by (cases r) (simp add: row_rate_def)
qed

definition sample_caps :: mmrc_sta_capabilities where
  "sample_caps = \<lparr>cap_max_rates = 4, cap_max_retries = 2, cap_bandwidth = 7, cap_spatial_streams = 1,
     cap_rates = 0xff, cap_guard = 3, cap_sta_flags = 1, cap_sgi_per_bw = 6\<rparr>"

lemma sample_caps_ok: "caps_ok sample_caps"
  by (simp add: caps_ok_def sample_caps_def)

theorem mmrc_rows_round_trip_witness:
  "caps_ok sample_caps \<and> (\<exists>r. get_rate_row sample_caps 47 = Some r \<and> row_rate sample_caps r
      \<and> mr_index r < rows_from_sta_caps sample_caps)"
proof -
  have "rows_from_sta_caps sample_caps = 48"
    by (simp add: rows_from_sta_caps_def sample_caps_def bit_count.simps u16_def)
  then have "47 < rows_from_sta_caps sample_caps" by simp
  with mmrc_rows_round_trip [OF sample_caps_ok] sample_caps_ok show ?thesis by blast
qed

subsection \<open>Bounds of throughput and time\<close>

lemma less_4_cases: "(n :: nat) < 4 \<Longrightarrow> n = 0 \<or> n = 1 \<or> n = 2 \<or> n = 3"
  by linarith

lemma throughput_Some:
  assumes "mr_bw r < 4" "mr_rate r < 11"
  obtains t where "mmrc_calculate_theoretical_throughput r = Some t" "t \<le> 43333000"
proof -
  have "list_all (\<lambda>row. length row = 11 \<and> list_all (\<lambda>t. t \<le> 43333) row) s1g_tpt_lgi" "length s1g_tpt_lgi = 4"
    "list_all (\<lambda>row. length row = 11 \<and> list_all (\<lambda>t. t \<le> 43333) row) s1g_tpt_sgi" "length s1g_tpt_sgi = 4"
    by (simp_all add: s1g_tpt_lgi_def s1g_tpt_sgi_def)
  then obtain row where row: "fetch (if mr_guard r \<noteq> 0 then s1g_tpt_sgi else s1g_tpt_lgi) (mr_bw r) = Some row"
      "length row = 11" "list_all (\<lambda>t. t \<le> 43333) row"
    using assms(1) by (cases "mr_guard r = 0") (auto simp: list_all_length)
  then have "row ! mr_rate r \<le> 43333" using assms(2) by (simp add: list_all_length)
  with row assms(2) that show ?thesis
    by (simp add: mmrc_calculate_theoretical_throughput_def u32_id)
qed

lemma get_tx_time_Some:
  assumes "mr_rate r < 10"
  obtains t where "get_tx_time r = Some t"
  using assms by (auto simp: get_tx_time_def calculate_bits_per_symbol_def sym_table_def Let_def)

lemma calculate_attempt_time_Some:
  assumes "mr_rate r < 10" "0 < sz"
  obtains t where "calculate_attempt_time r sz = Some t"
proof -
  obtain t where "get_tx_time r = Some t" using assms by (auto elim: get_tx_time_Some)
  moreover have "1200000 div sz \<noteq> 0" if "sz \<le> 1200"
    using that assms(2) by (simp add: div_eq_0_iff)
  ultimately show ?thesis
    using assms(2) that by (cases "1200 < sz") (auto simp: calculate_attempt_time_def)
qed

end
