(* ===== verification/Skbq.thy ===== *)
theory Skbq
  imports Driver_Task Mmrc_Rates "HOL-Library.Multiset"
begin

section \<open>Queues of packets to the chip\<close>

text \<open>
  \<open>driver/morse_driver/skbq.c\<close>: a packet to be sent gets a header of 40 bytes and is padded to whole words, waits in a
  queue, is written to the chip, and waits among the pending packets for the report of the chip, which hands it
  back to the UMAC. Packets that wait too long are released. An operation acts on a queue and on the state
  of the driver around it; \<open>None\<close> is an assertion that fails. Metadata whose values are not of
  interest here, such as statistics, are left out.
\<close>

subsection \<open>Packets on their way to the chip\<close>

text \<open>The flags of \<open>morse_skbq\<close>, the channels and the flags of \<open>skb_header.h\<close> and \<open>mmdrv.h\<close>.\<close>

abbreviation (input) MORSE_CHIP_IF_FLAGS_COMMAND :: nat where "MORSE_CHIP_IF_FLAGS_COMMAND \<equiv> 4"
abbreviation (input) MORSE_CHIP_IF_FLAGS_DATA :: nat where "MORSE_CHIP_IF_FLAGS_DATA \<equiv> 16"

abbreviation (input) MORSE_SKB_CHAN_DATA :: nat where "MORSE_SKB_CHAN_DATA \<equiv> 0"
abbreviation (input) MORSE_SKB_CHAN_NDP_FRAMES :: nat where "MORSE_SKB_CHAN_NDP_FRAMES \<equiv> 1"
abbreviation (input) MORSE_SKB_CHAN_DATA_NOACK :: nat where "MORSE_SKB_CHAN_DATA_NOACK \<equiv> 2"
abbreviation (input) MORSE_SKB_CHAN_BEACON :: nat where "MORSE_SKB_CHAN_BEACON \<equiv> 3"
abbreviation (input) MORSE_SKB_CHAN_MGMT :: nat where "MORSE_SKB_CHAN_MGMT \<equiv> 4"
abbreviation (input) MORSE_SKB_CHAN_LOOPBACK :: nat where "MORSE_SKB_CHAN_LOOPBACK \<equiv> 0xEE"
abbreviation (input) MORSE_SKB_CHAN_COMMAND :: nat where "MORSE_SKB_CHAN_COMMAND \<equiv> 0xFE"
abbreviation (input) MORSE_SKB_CHAN_TX_STATUS :: nat where "MORSE_SKB_CHAN_TX_STATUS \<equiv> 0xFF"
abbreviation (input) MORSE_SKB_HEADER_SYNC :: nat where "MORSE_SKB_HEADER_SYNC \<equiv> 0xAA"

abbreviation (input) SKB_HEADER_LEN :: nat where "SKB_HEADER_LEN \<equiv> 40"
abbreviation (input) TX_STATUS_LEN :: nat where "TX_STATUS_LEN \<equiv> 32"

abbreviation (input) TX_STATUS_LIFETIME_MS :: nat where "TX_STATUS_LIFETIME_MS \<equiv> 15000"
abbreviation (input) SKBQ_POP_TIMEOUT_THRESHOLD_MS :: nat where "SKBQ_POP_TIMEOUT_THRESHOLD_MS \<equiv> 5000"

definition has_flag :: "nat \<Rightarrow> nat \<Rightarrow> bool" where
  "has_flag x f \<longleftrightarrow> and x f \<noteq> 0"

record mmdrv_tx_metadata =
  timeout_abs_ms :: nat
  rc_rates :: "mmrc_rate list"
  tm_vif_id :: nat
  tm_key_idx :: nat
  tm_tid :: nat
  tm_tid_max_reorder_buf_size :: nat
  tm_flags :: nat
  tm_ampdu_mss :: nat
  tm_mmss_offset :: nat
  tm_status_flags :: nat
  tm_attempts :: nat
  tm_tail_padding :: nat

record morse_skb_rate_info =
  sr_morse_rc :: nat
  sr_count :: nat

record morse_skb_tx_status =
  ts_flags :: nat
  ts_pkt_id :: nat
  ts_tid :: nat
  ts_channel :: nat
  ts_rates :: "morse_skb_rate_info list"

record morse_skb_tx_info =
  ti_flags :: nat
  ti_pkt_id :: nat
  ti_tid :: nat
  ti_tid_params :: nat
  ti_mmss_params :: nat
  ti_rates :: "morse_skb_rate_info list"

record morse_buff_skb_header =
  hd_sync :: nat
  hd_channel :: nat
  hd_len :: nat
  hd_offset :: nat
  hd_tx_info :: morse_skb_tx_info

text \<open>
  A packet: its identity, the address of its first data byte, the free bytes before and behind the
  data, the header the driver has put in front (40 bytes of the data), the rest of the data and the
  metadata.
\<close>

record tx_pkt =
  pk_ref :: nat
  pk_addr :: nat
  pk_before :: nat
  pk_after :: nat
  pk_hdr :: "morse_buff_skb_header option"
  pk_data :: "nat list"
  pk_meta :: mmdrv_tx_metadata

definition pkt_data_length :: "tx_pkt \<Rightarrow> nat" where
  "pkt_data_length p = (if pk_hdr p = None then 0 else SKB_HEADER_LEN) + length (pk_data p)"

text \<open>\<open>hdr->tx_info.pkt_id\<close> and the channel of a packet that has its header.\<close>

definition pkt_id :: "tx_pkt \<Rightarrow> nat" where
  "pkt_id p = (case pk_hdr p of None \<Rightarrow> 0 | Some h \<Rightarrow> ti_pkt_id (hd_tx_info h))"

definition pkt_channel :: "tx_pkt \<Rightarrow> nat" where
  "pkt_channel p = (case pk_hdr p of None \<Rightarrow> 0 | Some h \<Rightarrow> hd_channel h)"

definition pkt_timeout :: "tx_pkt \<Rightarrow> nat" where
  "pkt_timeout p = timeout_abs_ms (pk_meta p)"

text \<open>The lists of packets are sequences, which the list operations implement. Removing a packet
  that is not in a list fails an assertion, unless the list is empty.\<close>

definition list_remove :: "nat \<Rightarrow> tx_pkt list \<Rightarrow> tx_pkt list option" where
  "list_remove ref xs =
     (if xs = [] then Some []
      else if ref \<in> set (map pk_ref xs) then Some (filter (\<lambda>p. pk_ref p \<noteq> ref) xs) else None)"

record morse_skbq =
  pkt_seq :: nat
  mq_flags :: nat
  mq_skbq :: "tx_pkt list"
  mq_pending :: "tx_pkt list"

text \<open>
  The part of the driver a queue acts on: the events, whether data traffic is stopped, the timer for
  stale packets, and where packets go: released to the memory pool, or handed back to the UMAC with
  their status.
\<close>

record tx_host = driver_task +
  state_flags :: nat
  stale_enabled :: bool
  stale_timer :: bool
  released :: "tx_pkt list"
  reported :: "tx_pkt list"

definition release_pkt :: "tx_pkt \<Rightarrow> 'a tx_host_scheme \<Rightarrow> 'a tx_host_scheme" where
  "release_pkt p s = s\<lparr>released := released s @ [p]\<rparr>"

definition mmdrv_host_process_tx_status :: "tx_pkt \<Rightarrow> 'a tx_host_scheme \<Rightarrow> 'a tx_host_scheme" where
  "mmdrv_host_process_tx_status p s = s\<lparr>reported := reported s @ [p]\<rparr>"

definition driver_is_data_tx_allowed :: "'a tx_host_scheme \<Rightarrow> bool" where
  "driver_is_data_tx_allowed s \<longleftrightarrow>
     \<not> bit (state_flags s) 0 \<and> \<not> driver_task_notification_check DRV_EVT_TRAFFIC_PAUSE_PEND s"

definition morse_skbq_data_traffic_pause :: "'a tx_host_scheme \<Rightarrow> 'a tx_host_scheme" where
  "morse_skbq_data_traffic_pause s = s\<lparr>state_flags := set_bit 0 (state_flags s)\<rparr>"

definition morse_skbq_data_traffic_resume :: "'a tx_host_scheme \<Rightarrow> 'a tx_host_scheme" where
  "morse_skbq_data_traffic_resume s =
     driver_task_notify_event DRV_EVT_TX_DATA_PEND (s\<lparr>state_flags := unset_bit 0 (state_flags s)\<rparr>)"

subsection \<open>Putting the header in front\<close>

text \<open>The rate code of \<open>morse_rate_code.h\<close>.\<close>

definition morse_ratecode_init :: "nat \<Rightarrow> nat \<Rightarrow> nat \<Rightarrow> nat \<Rightarrow> nat" where
  "morse_ratecode_init bw nss mcs preamble =
     or (or (or (and (bw * 2 ^ 11) 0x3800) (and (nss * 2 ^ 8) 0x700)) (and (mcs * 2 ^ 4) 0xF0)) preamble"

definition morse_ratecode_bw_mhz_to_bw_index :: "nat \<Rightarrow> nat" where
  "morse_ratecode_bw_mhz_to_bw_index mhz =
     (if mhz = 1 then 0 else if mhz = 2 then 1 else if mhz = 4 then 2 else if mhz = 8 then 3 else 1)"

definition rate_info_of :: "nat \<Rightarrow> mmrc_rate \<Rightarrow> morse_skb_rate_info" where
  "rate_info_of flags r =
     (let bw = morse_ratecode_bw_mhz_to_bw_index (u8 (2 ^ mr_bw r));
          pream = (if bw = 0 then 2 else 1);
          rc = morse_ratecode_init bw 0 (mr_rate r) pream;
          rc = (if has_flag (mr_flags r) 1 then or rc 0x10000 else rc);
          rc = (if has_flag (mr_guard r) MMRC_GUARD_SHORT then or rc 0x40000 else rc);
          rc = (if has_flag flags 0x08 then or rc 0x80000 else rc);
          rc = (if has_flag flags 0x20 then or rc 0x100000 else rc)
      in \<lparr>sr_morse_rc = rc, sr_count = mr_attempts r\<rparr>)"

definition convert_tx_metadata_to_tx_info :: "mmdrv_tx_metadata \<Rightarrow> morse_skb_tx_info" where
  "convert_tx_metadata_to_tx_info m =
     \<lparr>ti_flags =
        or (or (or (or (if has_flag (tm_flags m) 0x01 then 0x4 else 0)
                       (if has_flag (tm_flags m) 0x04 then 0x8 else 0))
                   (if has_flag (tm_flags m) 0x02 then 0x80000000 else 0))
               (and (tm_key_idx m) 0x07 * 2 ^ 12))
           (and (tm_vif_id m) 0xFF * 2 ^ 4),
      ti_pkt_id = 0,
      ti_tid = tm_tid m,
      ti_tid_params =
        u8 (or (if has_flag (tm_flags m) 0x01 then 0x20 else 0)
               (if tm_tid_max_reorder_buf_size m \<noteq> 0 then tm_tid_max_reorder_buf_size m - 1 else 0)),
      ti_mmss_params = or (and (tm_ampdu_mss m) 0x0F) (and (tm_mmss_offset m * 2 ^ 4) 0xF0),
      ti_rates =
        map (\<lambda>ii. if ii < length (rc_rates m) \<and> mr_rate (rc_rates m ! ii) \<noteq> MMRC_MCS_UNUSED
                  then rate_info_of (tm_flags m) (rc_rates m ! ii)
                  else \<lparr>sr_morse_rc = 0, sr_count = 0\<rparr>) [0..<4]\<rparr>"

definition empty_tx_info :: morse_skb_tx_info where
  "empty_tx_info = \<lparr>ti_flags = 0, ti_pkt_id = 0, ti_tid = 0, ti_tid_params = 0, ti_mmss_params = 0,
     ti_rates = replicate 4 \<lparr>sr_morse_rc = 0, sr_count = 0\<rparr>\<rparr>"

text \<open>
  The 40 bytes of the header have been put in front of the data and cleared; the address is then
  aligned down, which leaves as many cleared bytes between the header and the data, and the end is
  padded. The result are the number of bytes between them and the packet, without its header.
\<close>

definition pad_to_word :: "nat \<Rightarrow> nat" where
  "pad_to_word len = (4 - len mod 4) mod 4"

definition morse_skbq_ensure_word_alignment :: "tx_pkt \<Rightarrow> (nat \<times> tx_pkt) option" where
  "morse_skbq_ensure_word_alignment p =
     (let offset = pk_addr p mod 4 in do {
        ensure (offset \<le> pk_before p);
        let p = p\<lparr>pk_addr := pk_addr p - offset, pk_before := pk_before p - offset,
                  pk_data := replicate offset 0 @ pk_data p\<rparr>;
        let len = SKB_HEADER_LEN + length (pk_data p);
        let tail_pad = pad_to_word len;
        (if tail_pad \<noteq> 0 then do {
           ensure (tail_pad \<le> pk_after p);
           Some (offset, p\<lparr>pk_data := pk_data p @ replicate tail_pad 0, pk_after := pk_after p - tail_pad,
                          pk_meta := pk_meta p\<lparr>tm_tail_padding := tail_pad\<rparr>\<rparr>)
         }
         else Some (offset, p))
      })"

definition skb_add_header :: "nat \<Rightarrow> nat \<Rightarrow> tx_pkt \<Rightarrow> tx_pkt option" where
  "skb_add_header now channel p =
     (let p = p\<lparr>pk_meta := pk_meta p\<lparr>timeout_abs_ms := u32 (now + TX_STATUS_LIFETIME_MS)\<rparr>\<rparr>;
          payload_len = pkt_data_length p
      in do {
        ensure (SKB_HEADER_LEN \<le> pk_before p);
        (offset, p) \<leftarrow> morse_skbq_ensure_word_alignment
          (p\<lparr>pk_addr := pk_addr p - SKB_HEADER_LEN, pk_before := pk_before p - SKB_HEADER_LEN\<rparr>);
        Some (p\<lparr>pk_hdr := Some \<lparr>hd_sync = MORSE_SKB_HEADER_SYNC, hd_channel = channel,
            hd_len = u16 payload_len, hd_offset = offset,
            hd_tx_info = (if channel \<noteq> MORSE_SKB_CHAN_COMMAND
                          then convert_tx_metadata_to_tx_info (pk_meta p) else empty_tx_info)\<rparr>\<rparr>)
      })"

definition morse_skb_remove_padding_after_sent_to_chip :: "tx_pkt \<Rightarrow> tx_pkt" where
  "morse_skb_remove_padding_after_sent_to_chip p =
     (case pk_hdr p of
        None \<Rightarrow> p
      | Some hdr \<Rightarrow>
          (let p = (if hd_offset hdr \<le> length (pk_data p)
                    then p\<lparr>pk_hdr := None, pk_data := drop (hd_offset hdr) (pk_data p),
                           pk_addr := pk_addr p + SKB_HEADER_LEN + hd_offset hdr,
                           pk_before := pk_before p + SKB_HEADER_LEN + hd_offset hdr\<rparr>
                    else p);
               pad = tm_tail_padding (pk_meta p);
               p = (if pad \<le> pkt_data_length p
                    then p\<lparr>pk_data := take (length (pk_data p) - pad) (pk_data p),
                           pk_after := pk_after p + pad\<rparr>
                    else p)
           in p\<lparr>pk_meta := pk_meta p\<lparr>tm_tail_padding := 0\<rparr>\<rparr>))"

subsection \<open>Submitting a packet\<close>

definition morse_skbq_init :: "nat \<Rightarrow> morse_skbq" where
  "morse_skbq_init flags = \<lparr>pkt_seq = 0, mq_flags = flags, mq_skbq = [], mq_pending = []\<rparr>"

definition with_id :: "nat \<Rightarrow> tx_pkt \<Rightarrow> tx_pkt" where
  "with_id n p =
     p\<lparr>pk_hdr := map_option (\<lambda>h. h\<lparr>hd_tx_info := hd_tx_info h\<lparr>ti_pkt_id := n\<rparr>\<rparr>) (pk_hdr p)\<rparr>"

definition morse_skbq_put :: "tx_pkt \<Rightarrow> morse_skbq \<Rightarrow> morse_skbq" where
  "morse_skbq_put p mq =
     mq\<lparr>pkt_seq := u32 (pkt_seq mq + 1), mq_skbq := mq_skbq mq @ [with_id (pkt_seq mq) p]\<rparr>"

definition morse_skbq_tx ::
  "nat \<Rightarrow> tx_pkt \<Rightarrow> morse_skbq \<Rightarrow> 'a tx_host_scheme \<Rightarrow> morse_skbq \<times> 'a tx_host_scheme" where
  "morse_skbq_tx channel p mq s =
     (morse_skbq_put p mq,
      if channel = MORSE_SKB_CHAN_DATA \<or> channel = MORSE_SKB_CHAN_LOOPBACK \<or> channel = MORSE_SKB_CHAN_DATA_NOACK
      then (if driver_is_data_tx_allowed s then driver_task_notify_event DRV_EVT_TX_DATA_PEND s else s)
      else if channel = MORSE_SKB_CHAN_MGMT then driver_task_notify_event DRV_EVT_TX_MGMT_PEND s
      else if channel = MORSE_SKB_CHAN_BEACON then driver_task_notify_event DRV_EVT_TX_BEACON_PEND s
      else if channel = MORSE_SKB_CHAN_COMMAND then driver_task_notify_event DRV_EVT_TX_COMMAND_PEND s
      else s)"

definition morse_skbq_mmpkt_tx ::
  "'e driver_env_scheme \<Rightarrow> nat \<Rightarrow> tx_pkt \<Rightarrow> morse_skbq \<Rightarrow> 'a tx_host_scheme
    \<Rightarrow> (morse_skbq \<times> 'a tx_host_scheme) option" where
  "morse_skbq_mmpkt_tx env channel p mq s =
     (let (now, s) = mmosal_get_time_ms env s in do {
        p \<leftarrow> skb_add_header now channel p;
        Some (morse_skbq_tx channel p mq s)
      })"

subsection \<open>On the way to the chip\<close>

text \<open>Releasing the packets at the head of the queue that are about to expire.\<close>

fun drop_stale_loop ::
  "nat \<Rightarrow> tx_pkt list \<Rightarrow> 'a tx_host_scheme \<Rightarrow> nat \<times> tx_pkt list \<times> 'a tx_host_scheme" where
  "drop_stale_loop limit [] s = (0, [], s)"
| "drop_stale_loop limit (p # ps) s =
     (if mmosal_time_lt limit (pkt_timeout p) then (0, p # ps, s)
      else (let (n, ps, s) = drop_stale_loop limit ps (release_pkt p s) in (n + 1, ps, s)))"

definition morse_skbq_drop_stale_pkts ::
  "'e driver_env_scheme \<Rightarrow> morse_skbq \<Rightarrow> 'a tx_host_scheme \<Rightarrow> nat \<times> morse_skbq \<times> 'a tx_host_scheme" where
  "morse_skbq_drop_stale_pkts env mq s =
     (let (now, s) = mmosal_get_time_ms env s;
          (n, ps, s) = drop_stale_loop (u32 (now + SKBQ_POP_TIMEOUT_THRESHOLD_MS)) (mq_skbq mq) s
      in (n, mq\<lparr>mq_skbq := ps\<rparr>, s))"

definition morse_skbq_deq_num_items ::
  "'e driver_env_scheme \<Rightarrow> nat \<Rightarrow> morse_skbq \<Rightarrow> 'a tx_host_scheme
    \<Rightarrow> tx_pkt list \<times> morse_skbq \<times> 'a tx_host_scheme" where
  "morse_skbq_deq_num_items env n mq s =
     (let (_, mq, s) = morse_skbq_drop_stale_pkts env mq s
      in (take n (mq_skbq mq), mq\<lparr>mq_skbq := drop n (mq_skbq mq)\<rparr>, s))"

definition morse_skbq_tx_complete ::
  "tx_pkt list \<Rightarrow> morse_skbq \<Rightarrow> 'a tx_host_scheme \<Rightarrow> morse_skbq \<times> 'a tx_host_scheme" where
  "morse_skbq_tx_complete ps mq s =
     (if ps = [] then (mq, s)
      else (mq\<lparr>mq_pending := mq_pending mq @ ps\<rparr>, if stale_enabled s then s\<lparr>stale_timer := True\<rparr> else s))"

subsection \<open>Reports from the chip\<close>

fun finish_rates :: "morse_skb_rate_info list \<Rightarrow> mmrc_rate list \<Rightarrow> nat \<Rightarrow> (mmrc_rate list \<times> nat) option" where
  "finish_rates [] rates attempts = Some (rates, attempts)"
| "finish_rates (st # sts) [] attempts = None"
| "finish_rates (st # sts) (r # rates) attempts =
     (let r = r\<lparr>mr_attempts := sr_count st mod 16\<rparr>
      in if sr_count st = 0 then Some (r # rates, attempts)
         else do {
           (rates, attempts) \<leftarrow> finish_rates sts rates (u8 (attempts + sr_count st));
           Some (r # rates, attempts)
         })"

definition status_flags_of :: "nat \<Rightarrow> nat" where
  "status_flags_of f =
     or (or (or (if has_flag f 0x1 then 0x10 else 0) (if has_flag f 0x8000 then 0x20 else 0))
            (if has_flag f 0x80000 then 0x40 else 0))
        (if has_flag f 0x800000 then 0x80 else 0)"

definition skbq_data_tx_finish ::
  "tx_pkt \<Rightarrow> morse_skb_tx_status option \<Rightarrow> morse_skbq \<Rightarrow> 'a tx_host_scheme
    \<Rightarrow> (morse_skbq \<times> 'a tx_host_scheme) option" where
  "skbq_data_tx_finish p tx_sts mq s = do {
     pending \<leftarrow> list_remove (pk_ref p) (mq_pending mq);
     let mq = mq\<lparr>mq_pending := pending\<rparr>;
     (case tx_sts of
        None \<Rightarrow> Some (mq, release_pkt p s)
      | Some sts \<Rightarrow>
          (if ts_channel sts = MORSE_SKB_CHAN_BEACON then Some (mq, release_pkt p s)
           else do {
             (rates, attempts) \<leftarrow> finish_rates (ts_rates sts) (rc_rates (pk_meta p)) 0;
             Some (mq, mmdrv_host_process_tx_status
               (p\<lparr>pk_meta := pk_meta p\<lparr>rc_rates := rates, tm_attempts := attempts,
                  tm_status_flags := status_flags_of (ts_flags sts)\<rparr>\<rparr>) s)
           }))
   }"

definition skbq_cmd_finish ::
  "tx_pkt \<Rightarrow> morse_skbq \<Rightarrow> 'a tx_host_scheme \<Rightarrow> (morse_skbq \<times> 'a tx_host_scheme) option" where
  "skbq_cmd_finish p mq s =
     (if mq_pending mq \<noteq> [] then do {
        pending \<leftarrow> list_remove (pk_ref p) (mq_pending mq);
        Some (mq\<lparr>mq_pending := pending\<rparr>, release_pkt p s)
      }
      else if mq_skbq mq \<noteq> [] then do {
        skbq \<leftarrow> list_remove (pk_ref p) (mq_skbq mq);
        Some (mq\<lparr>mq_skbq := skbq\<rparr>, release_pkt p s)
      }
      else Some (mq, s))"

definition morse_skbq_tx_finish ::
  "tx_pkt \<Rightarrow> morse_skb_tx_status option \<Rightarrow> morse_skbq \<Rightarrow> 'a tx_host_scheme
    \<Rightarrow> (morse_skbq \<times> 'a tx_host_scheme) option" where
  "morse_skbq_tx_finish p tx_sts mq s =
     (if has_flag (mq_flags mq) MORSE_CHIP_IF_FLAGS_COMMAND then skbq_cmd_finish p mq s
      else skbq_data_tx_finish p tx_sts mq s)"

text \<open>The walk over the pending packets that looks for a packet by its identifier; packets with a smaller one
  that have expired are released on the way.\<close>

fun pending_walk ::
  "'e driver_env_scheme \<Rightarrow> nat \<Rightarrow> tx_pkt list \<Rightarrow> morse_skbq \<Rightarrow> 'a tx_host_scheme
    \<Rightarrow> (tx_pkt option \<times> morse_skbq \<times> 'a tx_host_scheme) option" where
  "pending_walk env ident [] mq s = Some (None, mq, s)"
| "pending_walk env ident (p # ps) mq s =
     (if pkt_id p = ident then Some (Some p, mq, s)
      else if pkt_id p < ident then
        (let (now, s) = mmosal_get_time_ms env s
         in if mmosal_time_has_passed now (pkt_timeout p)
            then do {
              (mq, s) \<leftarrow> skbq_data_tx_finish p None mq s;
              pending_walk env ident ps mq s
            }
            else pending_walk env ident ps mq s)
      else pending_walk env ident ps mq s)"

definition skbq_get_pending_by_id ::
  "'e driver_env_scheme \<Rightarrow> nat \<Rightarrow> morse_skbq \<Rightarrow> 'a tx_host_scheme
    \<Rightarrow> (tx_pkt option \<times> morse_skbq \<times> 'a tx_host_scheme) option" where
  "skbq_get_pending_by_id env ident mq s = pending_walk env ident (mq_pending mq) mq s"

text \<open>A packet the chip did not send because the receiver sleeps goes back into the queue.\<close>

definition insert_pending_mmpkt_to_skbq :: "tx_pkt \<Rightarrow> nat \<Rightarrow> morse_skbq \<Rightarrow> morse_skbq option" where
  "insert_pending_mmpkt_to_skbq p insertion_id mq = do {
     pending \<leftarrow> list_remove (pk_ref p) (mq_pending mq);
     let mq = mq\<lparr>mq_pending := pending\<rparr>;
     (if mq_skbq mq = [] then Some (mq\<lparr>mq_skbq := [p]\<rparr>)
      else if pkt_id (last (mq_skbq mq)) \<le> insertion_id then Some (mq\<lparr>mq_skbq := mq_skbq mq @ [p]\<rparr>)
      else if list_ex (\<lambda>q. insertion_id \<le> pkt_id q) (mq_skbq mq) then Some (mq\<lparr>mq_skbq := p # mq_skbq mq\<rparr>)
      else None)
   }"

definition tx_mmpkt_is_ps_filtered :: "tx_pkt \<Rightarrow> morse_skb_tx_status \<Rightarrow> morse_skbq \<Rightarrow> morse_skbq option" where
  "tx_mmpkt_is_ps_filtered p tx_sts mq = do {
     ensure (has_flag (ts_flags tx_sts) 0x8000);
     ensure (ts_channel tx_sts = MORSE_SKB_CHAN_DATA \<or> ts_channel tx_sts = MORSE_SKB_CHAN_MGMT);
     ensure (has_flag (mq_flags mq) MORSE_CHIP_IF_FLAGS_DATA);
     insert_pending_mmpkt_to_skbq p (ts_pkt_id tx_sts) mq
   }"

text \<open>What \<open>morse_skbq_tx_status_process\<close> does with one status once it has the queue; the result says
  whether a packet was found.\<close>

definition tx_status_one ::
  "'e driver_env_scheme \<Rightarrow> morse_skb_tx_status \<Rightarrow> morse_skbq \<Rightarrow> 'a tx_host_scheme
    \<Rightarrow> (bool \<times> morse_skbq \<times> 'a tx_host_scheme) option" where
  "tx_status_one env sts mq s = do {
     (found, mq, s) \<leftarrow> skbq_get_pending_by_id env (ts_pkt_id sts) mq s;
     (case found of
        None \<Rightarrow> Some (False, mq, s)
      | Some p \<Rightarrow>
          (if has_flag (ts_flags sts) 0x20000 then do {
             (mq, s) \<leftarrow> skbq_data_tx_finish p None mq s;
             Some (True, mq, s)
           }
           else if has_flag (ts_flags sts) 0x8000 then do {
             mq \<leftarrow> tx_mmpkt_is_ps_filtered p sts mq;
             Some (True, mq, s)
           }
           else do {
             (mq, s) \<leftarrow> morse_skbq_tx_finish (morse_skb_remove_padding_after_sent_to_chip p) (Some sts) mq s;
             Some (True, mq, s)
           }))
   }"

subsection \<open>Stale packets, flushing and the end\<close>

fun stale_walk ::
  "'e driver_env_scheme \<Rightarrow> tx_pkt list \<Rightarrow> morse_skbq \<Rightarrow> 'a tx_host_scheme
    \<Rightarrow> (nat \<times> morse_skbq \<times> 'a tx_host_scheme) option" where
  "stale_walk env [] mq s = Some (0, mq, s)"
| "stale_walk env (p # ps) mq s =
     (let (now, s) = mmosal_get_time_ms env s
      in if mmosal_time_has_passed now (pkt_timeout p)
         then do {
           (mq, s) \<leftarrow> skbq_data_tx_finish p None mq s;
           (n, mq, s) \<leftarrow> stale_walk env ps mq s;
           Some (n + 1, mq, s)
         }
         else stale_walk env ps mq s)"

definition morse_skbq_check_for_stale_tx ::
  "'e driver_env_scheme \<Rightarrow> morse_skbq \<Rightarrow> 'a tx_host_scheme
    \<Rightarrow> (nat \<times> morse_skbq \<times> 'a tx_host_scheme) option" where
  "morse_skbq_check_for_stale_tx env mq s =
     (if mq_pending mq = [] then Some (0, mq, s) else stale_walk env (mq_pending mq) mq s)"

definition release_all :: "tx_pkt list \<Rightarrow> 'a tx_host_scheme \<Rightarrow> 'a tx_host_scheme" where
  "release_all ps s = fold release_pkt ps s"

definition purge_skbq :: "morse_skbq \<Rightarrow> 'a tx_host_scheme \<Rightarrow> nat \<times> morse_skbq \<times> 'a tx_host_scheme" where
  "purge_skbq mq s = (length (mq_skbq mq), mq\<lparr>mq_skbq := []\<rparr>, release_all (mq_skbq mq) s)"

definition purge_pending :: "morse_skbq \<Rightarrow> 'a tx_host_scheme \<Rightarrow> nat \<times> morse_skbq \<times> 'a tx_host_scheme" where
  "purge_pending mq s = (length (mq_pending mq), mq\<lparr>mq_pending := []\<rparr>, release_all (mq_pending mq) s)"

definition morse_skbq_tx_flush :: "morse_skbq \<Rightarrow> 'a tx_host_scheme \<Rightarrow> nat \<times> morse_skbq \<times> 'a tx_host_scheme" where
  "morse_skbq_tx_flush mq s =
     (let (n, mq, s) = purge_pending mq s; (m, mq, s) = purge_skbq mq s in (n + m, mq, s))"

definition morse_skbq_finish :: "morse_skbq \<Rightarrow> 'a tx_host_scheme \<Rightarrow> morse_skbq \<times> 'a tx_host_scheme" where
  "morse_skbq_finish mq s =
     (let (_, mq, s) = purge_skbq mq s; (_, mq, s) = purge_pending mq s in (mq, s))"

definition morse_skbq_count :: "morse_skbq \<Rightarrow> nat" where
  "morse_skbq_count mq = length (mq_skbq mq)"

definition morse_skbq_count_tx_ready :: "morse_skbq \<Rightarrow> 'a tx_host_scheme \<Rightarrow> nat" where
  "morse_skbq_count_tx_ready mq s = (if driver_is_data_tx_allowed s then morse_skbq_count mq else 0)"

definition morse_skbq_tx_pending :: "morse_skbq \<Rightarrow> tx_pkt option" where
  "morse_skbq_tx_pending mq = (case mq_pending mq of [] \<Rightarrow> None | p # _ \<Rightarrow> Some p)"

subsection \<open>Header and padding\<close>

text \<open>A packet as the UMAC submits it has no header and no padding. The same memory and data:\<close>

definition plain :: "tx_pkt \<Rightarrow> bool" where
  "plain p \<longleftrightarrow> pk_hdr p = None \<and> tm_tail_padding (pk_meta p) = 0"

definition same_payload :: "tx_pkt \<Rightarrow> tx_pkt \<Rightarrow> bool" where
  "same_payload a b \<longleftrightarrow> pk_ref a = pk_ref b \<and> pk_hdr a = None \<and> pk_data a = pk_data b
     \<and> pk_addr a = pk_addr b \<and> pk_before a = pk_before b \<and> pk_after a = pk_after b"

definition wraps :: "tx_pkt \<Rightarrow> tx_pkt \<Rightarrow> bool" where
  "wraps p0 p \<longleftrightarrow> pk_ref p = pk_ref p0 \<and> pk_hdr p \<noteq> None
     \<and> same_payload (morse_skb_remove_padding_after_sent_to_chip p) p0"

text \<open>What \<open>skb_add_header\<close> makes of a packet.\<close>

definition head_pad :: "tx_pkt \<Rightarrow> nat" where
  "head_pad p = (pk_addr p - SKB_HEADER_LEN) mod 4"

definition tail_pad :: "tx_pkt \<Rightarrow> nat" where
  "tail_pad p = pad_to_word (SKB_HEADER_LEN + head_pad p + length (pk_data p))"

lemma alignment_eq:
  assumes "a = pk_addr p mod 4" "t = pad_to_word (SKB_HEADER_LEN + a + length (pk_data p))"
    and "tm_tail_padding (pk_meta p) = 0"
  shows "morse_skbq_ensure_word_alignment p =
    (if a \<le> pk_before p \<and> t \<le> pk_after p
     then Some (a, p\<lparr>pk_addr := pk_addr p - a, pk_before := pk_before p - a, pk_after := pk_after p - t,
         pk_data := replicate a 0 @ pk_data p @ replicate t 0, pk_meta := pk_meta p\<lparr>tm_tail_padding := t\<rparr>\<rparr>)
     else None)"
proof -
  show ?thesis
    using assms by (simp add: morse_skbq_ensure_word_alignment_def Let_def ensure_def add.assoc)
qed

lemma skb_add_header_eq:
  assumes "plain p"
  shows "skb_add_header now ch p =
    (if SKB_HEADER_LEN \<le> pk_before p \<and> head_pad p \<le> pk_before p - SKB_HEADER_LEN \<and> tail_pad p \<le> pk_after p
     then let m = pk_meta p\<lparr>timeout_abs_ms := u32 (now + TX_STATUS_LIFETIME_MS), tm_tail_padding := tail_pad p\<rparr>
       in Some (p\<lparr>pk_addr := pk_addr p - SKB_HEADER_LEN - head_pad p,
         pk_before := pk_before p - SKB_HEADER_LEN - head_pad p, pk_after := pk_after p - tail_pad p,
         pk_hdr := Some \<lparr>hd_sync = MORSE_SKB_HEADER_SYNC, hd_channel = ch, hd_len = u16 (length (pk_data p)),
           hd_offset = head_pad p,
           hd_tx_info = (if ch \<noteq> MORSE_SKB_CHAN_COMMAND then convert_tx_metadata_to_tx_info m else empty_tx_info)\<rparr>,
         pk_data := replicate (head_pad p) 0 @ pk_data p @ replicate (tail_pad p) 0, pk_meta := m\<rparr>)
     else None)"
proof -
  let ?q = "p\<lparr>pk_meta := pk_meta p\<lparr>timeout_abs_ms := u32 (now + TX_STATUS_LIFETIME_MS)\<rparr>,
    pk_addr := pk_addr p - SKB_HEADER_LEN, pk_before := pk_before p - SKB_HEADER_LEN\<rparr>"
  have "head_pad p = pk_addr ?q mod 4" "tm_tail_padding (pk_meta ?q) = 0"
    "tail_pad p = pad_to_word (SKB_HEADER_LEN + head_pad p + length (pk_data ?q))"
    using assms by (simp_all add: head_pad_def tail_pad_def plain_def)
  from alignment_eq [OF this(1,3,2)] show ?thesis
    using assms by (simp add: skb_add_header_def Let_def plain_def pkt_data_length_def ensure_def)
qed

lemma remove_padding_eq:
  assumes "pk_hdr p = Some h" "hd_offset h = a" "tm_tail_padding (pk_meta p) = t"
    and "pk_data p = replicate a 0 @ ds @ replicate t 0"
  shows "morse_skb_remove_padding_after_sent_to_chip p =
    p\<lparr>pk_hdr := None, pk_data := ds, pk_addr := pk_addr p + SKB_HEADER_LEN + a,
      pk_before := pk_before p + SKB_HEADER_LEN + a, pk_after := pk_after p + t,
      pk_meta := pk_meta p\<lparr>tm_tail_padding := 0\<rparr>\<rparr>"
  using assms by (simp add: morse_skb_remove_padding_after_sent_to_chip_def pkt_data_length_def Let_def)

lemma skb_add_header_wraps:
  assumes "plain p" "skb_add_header now ch p = Some q" "SKB_HEADER_LEN + 3 \<le> pk_addr p"
  shows "wraps p q"
proof -
  have le: "head_pad p \<le> 3" by (simp add: head_pad_def)
  note q = assms(2) [unfolded skb_add_header_eq [OF assms(1)]]
  have room: "SKB_HEADER_LEN + head_pad p \<le> pk_before p" "tail_pad p \<le> pk_after p"
    using q by (auto split: if_splits)
  obtain h where h: "pk_hdr q = Some h" "hd_offset h = head_pad p" "tm_tail_padding (pk_meta q) = tail_pad p"
    "pk_data q = replicate (head_pad p) 0 @ pk_data p @ replicate (tail_pad p) 0" "pk_ref q = pk_ref p"
    "pk_addr q = pk_addr p - SKB_HEADER_LEN - head_pad p" "pk_before q = pk_before p - SKB_HEADER_LEN - head_pad p"
    "pk_after q = pk_after p - tail_pad p"
    using q by (auto simp: Let_def split: if_splits)
  show ?thesis using assms(1,3) room le
    unfolding wraps_def same_payload_def remove_padding_eq [OF h(1-4)] by (simp add: h plain_def)
qed

lemma with_id_simps [simp]:
  "pk_ref (with_id n p) = pk_ref p" "pk_data (with_id n p) = pk_data p" "pk_meta (with_id n p) = pk_meta p"
  "pk_addr (with_id n p) = pk_addr p" "pk_before (with_id n p) = pk_before p" "pk_after (with_id n p) = pk_after p"
  "pk_hdr (with_id n p) = None \<longleftrightarrow> pk_hdr p = None" "pkt_timeout (with_id n p) = pkt_timeout p"
  by (simp_all add: with_id_def pkt_timeout_def)

lemma with_id_wraps [simp]: "wraps p0 (with_id n p) = wraps p0 p"
proof (cases "pk_hdr p")
  case (Some h)
  have "pk_hdr (with_id n p) = Some (h\<lparr>hd_tx_info := hd_tx_info h\<lparr>ti_pkt_id := n\<rparr>\<rparr>)"
    by (simp add: with_id_def Some)
  then show ?thesis
    by (simp add: wraps_def same_payload_def morse_skb_remove_padding_after_sent_to_chip_def Some Let_def
        pkt_data_length_def)
qed (simp add: wraps_def)

subsection \<open>No packet is lost\<close>

text \<open>
  \<open>subs\<close> are the packets submitted so far, \<open>fl\<close> those that have been taken from the queue and are being
  written to the chip. Every packet submitted is in exactly one place, and as long as the queue has it,
  its payload can be restored.
\<close>

definition skbq_inv :: "tx_pkt list \<Rightarrow> morse_skbq \<Rightarrow> tx_pkt list \<Rightarrow> 'a tx_host_scheme \<Rightarrow> bool" where
  "skbq_inv subs mq fl s \<longleftrightarrow>
     mset (map pk_ref (mq_skbq mq @ fl @ mq_pending mq @ released s @ reported s)) = mset (map pk_ref subs) \<and>
     distinct (map pk_ref subs) \<and>
     (\<forall>p\<in>set (mq_skbq mq @ fl @ mq_pending mq). length (rc_rates (pk_meta p)) = 4 \<and> (\<exists>p0\<in>set subs. wraps p0 p)) \<and>
     (\<forall>r\<in>set (reported s). \<exists>p0\<in>set subs. same_payload r p0)"

lemma inv_distinct:
  assumes "skbq_inv subs mq fl s"
  shows "distinct (map pk_ref (mq_skbq mq @ fl @ mq_pending mq @ released s @ reported s))"
  using assms unfolding skbq_inv_def by (metis mset_eq_imp_distinct_iff)

lemma list_remove_in:
  assumes "distinct (map pk_ref xs)" "p \<in> set xs" "pk_ref p' = pk_ref p"
  shows "list_remove (pk_ref p') xs = Some (remove1 p xs)"
proof -
  have "filter (\<lambda>q. pk_ref q \<noteq> pk_ref p) xs = remove1 p xs"
    using assms(1,2)
  proof (induction xs)
    case (Cons x xs)
    have "\<forall>q\<in>set xs. pk_ref q \<noteq> pk_ref p" if "x = p" using Cons.prems(1) that by (auto simp: image_iff)
    then show ?case using Cons by (cases "x = p") (auto simp: filter_id_conv)
  qed simp
  then show ?thesis using assms(2,3) by (auto simp: list_remove_def)
qed

lemma mset_refs_remove1:
  "p \<in> set xs \<Longrightarrow> mset (map pk_ref xs) = add_mset (pk_ref p) (mset (map pk_ref (remove1 p xs)))"
  by (induction xs) auto

lemma finish_rates_total:
  "length sts \<le> length rates \<Longrightarrow>
    \<exists>rates' n. finish_rates sts rates a = Some (rates', n) \<and> length rates' = length rates"
proof (induction sts rates a rule: finish_rates.induct)
  case (3 st sts r rates attempts)
  then show ?case by (cases "sr_count st = 0") (fastforce simp: Let_def)+
qed auto

lemma same_payload_meta [simp]: "same_payload (p\<lparr>pk_meta := m\<rparr>) p0 = same_payload p p0"
  by (simp add: same_payload_def)

lemma finish_inv:
  assumes inv: "skbq_inv subs mq fl s" and p: "p \<in> set (mq_pending mq)" "pk_ref p' = pk_ref p"
    and sts: "sts \<noteq> None \<Longrightarrow> length (ts_rates (the sts)) \<le> length (rc_rates (pk_meta p')) \<and> (\<exists>p0\<in>set subs. same_payload p' p0)"
  shows "\<exists>mq' s'. skbq_data_tx_finish p' sts mq s = Some (mq', s') \<and> skbq_inv subs mq' fl s'
    \<and> mq' = mq\<lparr>mq_pending := remove1 p (mq_pending mq)\<rparr>"
proof -
  let ?mq = "mq\<lparr>mq_pending := remove1 p (mq_pending mq)\<rparr>"
  have d: "distinct (map pk_ref (mq_pending mq))" using inv_distinct [OF inv] by simp
  note rem = list_remove_in [OF d p]
  have sub: "set (remove1 p (mq_pending mq)) \<subseteq> set (mq_pending mq)" by (rule set_remove1_subset)
  have rel: "skbq_inv subs ?mq fl (release_pkt p' s)"
    using inv mset_refs_remove1 [OF p(1)] p(2) sub by (auto simp: skbq_inv_def release_pkt_def)
  have rep: "skbq_inv subs ?mq fl (mmdrv_host_process_tx_status q s)" if "pk_ref q = pk_ref p" "\<exists>p0\<in>set subs. same_payload q p0" for q
    using inv mset_refs_remove1 [OF p(1)] that sub by (auto simp: skbq_inv_def mmdrv_host_process_tx_status_def)
  show ?thesis
  proof (cases sts)
    case None
    then show ?thesis using rem rel by (simp add: skbq_data_tx_finish_def Let_def)
  next
    case (Some st)
    show ?thesis
    proof (cases "ts_channel st = MORSE_SKB_CHAN_BEACON")
      case True
      then show ?thesis using Some rem rel by (simp add: skbq_data_tx_finish_def Let_def)
    next
      case False
      obtain rates n where fr: "finish_rates (ts_rates st) (rc_rates (pk_meta p')) 0 = Some (rates, n)"
        using finish_rates_total sts Some by fastforce
      show ?thesis using Some False rem fr sts p(2)
        by (simp add: skbq_data_tx_finish_def Let_def) (rule rep, simp_all)
    qed
  qed
qed

lemma inv_clock [simp]: "skbq_inv subs mq fl (s\<lparr>ticks := t\<rparr>) = skbq_inv subs mq fl s"
  by (simp add: skbq_inv_def)

lemma distinct_refs_notin: "distinct (map pk_ref (p # ps)) \<Longrightarrow> q \<in> set ps \<Longrightarrow> q \<noteq> p"
  by auto

text \<open>Both walks over the pending packets remove packets from it and release them.\<close>

lemma pending_walk_inv:
  assumes "skbq_inv subs mq fl s" "set ps \<subseteq> set (mq_pending mq)" "distinct (map pk_ref ps)"
  shows "\<exists>found pend s'. pending_walk env n ps mq s = Some (found, mq\<lparr>mq_pending := pend\<rparr>, s')
    \<and> skbq_inv subs (mq\<lparr>mq_pending := pend\<rparr>) fl s' \<and> set pend \<subseteq> set (mq_pending mq)
    \<and> (\<forall>p. found = Some p \<longrightarrow> p \<in> set pend \<and> p \<in> set ps \<and> pkt_id p = n)"
  using assms
proof (induction ps arbitrary: mq s)
  case Nil
  then show ?case by (simp, intro exI [of _ "mq_pending mq"]) simp
next
  case (Cons p ps)
  let ?s = "s\<lparr>ticks := ticks s + 1\<rparr>"
  have sub: "set ps \<subseteq> set (mq_pending mq)" "distinct (map pk_ref ps)" using Cons.prems by auto
  show ?case
  proof (cases "pkt_id p = n")
    case True
    then show ?thesis using Cons.prems by (simp, intro exI [of _ "mq_pending mq"]) simp
  next
    case ne: False
    show ?thesis
    proof (cases "pkt_id p < n \<and> mmosal_time_has_passed (u32 (clock env (ticks s))) (pkt_timeout p)")
      case True
      have inv: "skbq_inv subs mq fl ?s" using Cons.prems by simp
      obtain s' where fin: "skbq_data_tx_finish p None mq ?s = Some (mq\<lparr>mq_pending := remove1 p (mq_pending mq)\<rparr>, s')"
        and inv': "skbq_inv subs (mq\<lparr>mq_pending := remove1 p (mq_pending mq)\<rparr>) fl s'"
        using finish_inv [OF inv, of p p None] Cons.prems by auto
      have left: "set ps \<subseteq> set (mq_pending (mq\<lparr>mq_pending := remove1 p (mq_pending mq)\<rparr>))"
        using sub distinct_refs_notin [OF Cons.prems(3)] by auto
      have step: "pending_walk env n (p # ps) mq s
          = pending_walk env n ps (mq\<lparr>mq_pending := remove1 p (mq_pending mq)\<rparr>) s'"
        using True ne fin by (simp add: mmosal_get_time_ms_def)
      from Cons.IH [OF inv' left sub(2)] obtain found pend s2 where
        "pending_walk env n (p # ps) mq s = Some (found, mq\<lparr>mq_pending := pend\<rparr>, s2)"
        "skbq_inv subs (mq\<lparr>mq_pending := pend\<rparr>) fl s2" "set pend \<subseteq> set (remove1 p (mq_pending mq))"
        "\<forall>p. found = Some p \<longrightarrow> p \<in> set pend \<and> p \<in> set ps \<and> pkt_id p = n"
        unfolding step by auto
      then show ?thesis using set_remove1_subset [of p "mq_pending mq"]
        by (intro exI [of _ found] exI [of _ pend] exI [of _ s2]) auto
    next
      case False
      have "\<exists>t. pending_walk env n (p # ps) mq s = pending_walk env n ps mq (s\<lparr>ticks := t\<rparr>)"
        using ne False by (auto simp: mmosal_get_time_ms_def intro: exI [of _ "ticks s"])
      then obtain t where t: "pending_walk env n (p # ps) mq s = pending_walk env n ps mq (s\<lparr>ticks := t\<rparr>)" ..
      from Cons.prems(1) have "skbq_inv subs mq fl (s\<lparr>ticks := t\<rparr>)" by simp
      from Cons.IH [OF this sub] obtain found pend s2 where
        "pending_walk env n (p # ps) mq s = Some (found, mq\<lparr>mq_pending := pend\<rparr>, s2)"
        "skbq_inv subs (mq\<lparr>mq_pending := pend\<rparr>) fl s2" "set pend \<subseteq> set (mq_pending mq)"
        "\<forall>p. found = Some p \<longrightarrow> p \<in> set pend \<and> p \<in> set ps \<and> pkt_id p = n"
        unfolding t by blast
      then show ?thesis by (intro exI [of _ found] exI [of _ pend] exI [of _ s2]) auto
    qed
  qed
qed

lemma stale_walk_inv:
  assumes "skbq_inv subs mq fl s" "set ps \<subseteq> set (mq_pending mq)" "distinct (map pk_ref ps)"
  shows "\<exists>n pend s'. stale_walk env ps mq s = Some (n, mq\<lparr>mq_pending := pend\<rparr>, s')
    \<and> skbq_inv subs (mq\<lparr>mq_pending := pend\<rparr>) fl s' \<and> set pend \<subseteq> set (mq_pending mq)"
  using assms
proof (induction ps arbitrary: mq s)
  case Nil
  then show ?case by (simp, intro exI [of _ "mq_pending mq"]) simp
next
  case (Cons p ps)
  let ?s = "s\<lparr>ticks := ticks s + 1\<rparr>"
  have sub: "set ps \<subseteq> set (mq_pending mq)" "distinct (map pk_ref ps)" using Cons.prems by auto
  have inv: "skbq_inv subs mq fl ?s" using Cons.prems by simp
  show ?case
  proof (cases "mmosal_time_has_passed (u32 (clock env (ticks s))) (pkt_timeout p)")
    case True
    obtain s' where fin: "skbq_data_tx_finish p None mq ?s = Some (mq\<lparr>mq_pending := remove1 p (mq_pending mq)\<rparr>, s')"
      and inv': "skbq_inv subs (mq\<lparr>mq_pending := remove1 p (mq_pending mq)\<rparr>) fl s'"
      using finish_inv [OF inv, of p p None] Cons.prems by auto
    have "set ps \<subseteq> set (remove1 p (mq_pending mq))"
      using sub distinct_refs_notin [OF Cons.prems(3)] by auto
    then show ?thesis
      using Cons.IH [OF inv' _ sub(2)] True fin set_remove1_subset [of p "mq_pending mq"]
      by (fastforce simp: mmosal_get_time_ms_def)
  next
    case False
    then show ?thesis using Cons.IH [OF inv sub] by (simp add: mmosal_get_time_ms_def)
  qed
qed

lemma remove_padding_keeps [simp]:
  "pk_ref (morse_skb_remove_padding_after_sent_to_chip p) = pk_ref p"
  "rc_rates (pk_meta (morse_skb_remove_padding_after_sent_to_chip p)) = rc_rates (pk_meta p)"
  by (simp_all add: morse_skb_remove_padding_after_sent_to_chip_def Let_def split: option.splits)

lemma insert_pending_inv:
  assumes inv: "skbq_inv subs mq fl s" and p: "p \<in> set (mq_pending mq)"
  shows "\<exists>q. insert_pending_mmpkt_to_skbq p n mq
      = Some (mq\<lparr>mq_pending := remove1 p (mq_pending mq), mq_skbq := q\<rparr>)
    \<and> skbq_inv subs (mq\<lparr>mq_pending := remove1 p (mq_pending mq), mq_skbq := q\<rparr>) fl s"
proof -
  have rem: "list_remove (pk_ref p) (mq_pending mq) = Some (remove1 p (mq_pending mq))"
    using inv_distinct [OF inv] p by (intro list_remove_in) simp_all
  have ins: "skbq_inv subs (mq\<lparr>mq_pending := remove1 p (mq_pending mq), mq_skbq := q\<rparr>) fl s"
    if "mset q = add_mset p (mset (mq_skbq mq))" for q
  proof -
    have "set q = insert p (set (mq_skbq mq))" using arg_cong [OF that, of set_mset] by simp
    moreover have "mset (map pk_ref q) = add_mset (pk_ref p) (mset (map pk_ref (mq_skbq mq)))"
      using that by (metis image_mset_add_mset mset_map)
    ultimately show ?thesis
      using inv p mset_refs_remove1 [OF p] set_remove1_subset [of p "mq_pending mq"]
      by (auto simp: skbq_inv_def)
  qed
  have "\<not> list_ex (\<lambda>q. n \<le> pkt_id q) (mq_skbq mq) \<Longrightarrow> mq_skbq mq \<noteq> [] \<Longrightarrow> pkt_id (last (mq_skbq mq)) \<le> n"
    using last_in_set [of "mq_skbq mq"] by (auto simp: list_ex_iff not_le intro: less_imp_le)
  then show ?thesis using ins
    by (auto simp: insert_pending_mmpkt_to_skbq_def rem Let_def)
qed

lemma tx_status_one_inv:
  assumes inv: "skbq_inv subs mq fl s" and fl: "mq_flags mq = MORSE_CHIP_IF_FLAGS_DATA"
    and sts: "length (ts_rates sts) = 4"
      "has_flag (ts_flags sts) 0x8000 \<Longrightarrow> ts_channel sts \<in> {MORSE_SKB_CHAN_DATA, MORSE_SKB_CHAN_MGMT}"
  shows "\<exists>b mq' s'. tx_status_one env sts mq s = Some (b, mq', s') \<and> skbq_inv subs mq' fl s'
    \<and> mq_flags mq' = mq_flags mq"
proof -
  have "distinct (map pk_ref (mq_pending mq))" using inv_distinct [OF inv] by simp
  from pending_walk_inv [OF inv subset_refl this, of env "ts_pkt_id sts"]
  obtain found pend s1 where w:
    "skbq_get_pending_by_id env (ts_pkt_id sts) mq s = Some (found, mq\<lparr>mq_pending := pend\<rparr>, s1)"
    "skbq_inv subs (mq\<lparr>mq_pending := pend\<rparr>) fl s1" "\<forall>p. found = Some p \<longrightarrow> p \<in> set pend"
    unfolding skbq_get_pending_by_id_def by blast
  let ?mq = "mq\<lparr>mq_pending := pend\<rparr>"
  show ?thesis
  proof (cases found)
    case None
    then show ?thesis using w by (intro exI [of _ False] exI [of _ "mq\<lparr>mq_pending := pend\<rparr>"] exI [of _ s1])
        (simp add: tx_status_one_def)
  next
    case (Some p)
    then have p: "p \<in> set (mq_pending ?mq)" using w(3) by simp
    have wr: "length (rc_rates (pk_meta p)) = 4" "\<exists>p0\<in>set subs. wraps p0 p"
      using w(2) p by (auto simp: skbq_inv_def)
    consider (invalid) "has_flag (ts_flags sts) 0x20000"
      | (filtered) "\<not> has_flag (ts_flags sts) 0x20000" "has_flag (ts_flags sts) 0x8000"
      | (sent) "\<not> has_flag (ts_flags sts) 0x20000" "\<not> has_flag (ts_flags sts) 0x8000" by blast
    then show ?thesis
    proof cases
      case invalid
      then show ?thesis using finish_inv [OF w(2) p refl, of None] w(1) Some
        by (auto simp: tx_status_one_def)
    next
      case filtered
      have d: "has_flag MORSE_CHIP_IF_FLAGS_DATA MORSE_CHIP_IF_FLAGS_DATA" by (simp add: has_flag_def)
      have ch: "ts_channel sts = MORSE_SKB_CHAN_DATA \<or> ts_channel sts = MORSE_SKB_CHAN_MGMT"
        using sts(2) filtered by auto
      show ?thesis using insert_pending_inv [OF w(2) p, of "ts_pkt_id sts"] w(1) Some filtered fl d ch
        by (auto simp: tx_status_one_def tx_mmpkt_is_ps_filtered_def ensure_def)
    next
      case sent
      have "\<not> has_flag MORSE_CHIP_IF_FLAGS_DATA MORSE_CHIP_IF_FLAGS_COMMAND" by (simp add: has_flag_def)
      then have "morse_skbq_tx_finish q (Some sts) ?mq s1 = skbq_data_tx_finish q (Some sts) ?mq s1" for q
        using fl by (simp add: morse_skbq_tx_finish_def)
      moreover have "\<exists>p0\<in>set subs. same_payload (morse_skb_remove_padding_after_sent_to_chip p) p0"
        using wr(2) by (auto simp: wraps_def)
      ultimately show ?thesis
        using finish_inv [OF w(2) p, of "morse_skb_remove_padding_after_sent_to_chip p" "Some sts"] wr(1) sts(1) sent w(1) Some
        by (auto simp: tx_status_one_def)
    qed
  qed
qed

subsection \<open>The life of a queue\<close>

definition submittable :: "tx_pkt \<Rightarrow> bool" where
  "submittable p \<longleftrightarrow> plain p \<and> SKB_HEADER_LEN + 3 \<le> pk_addr p \<and> length (rc_rates (pk_meta p)) = 4"

definition legal_status :: "morse_skb_tx_status \<Rightarrow> bool" where
  "legal_status sts \<longleftrightarrow> length (ts_rates sts) = 4
     \<and> (has_flag (ts_flags sts) 0x8000 \<longrightarrow> ts_channel sts \<in> {MORSE_SKB_CHAN_DATA, MORSE_SKB_CHAN_MGMT})"

text \<open>
  The steps of a queue for data, each under its lock, in any order: a packet is submitted; packets that
  are about to expire are dropped; packets are taken for writing, of which some fail and the others become pending; a
  status is processed; stale packets are released; the queue is flushed. In between, the rest of the
  driver changes anything but what has been released and reported.
\<close>

inductive skbq_run :: "driver_env \<Rightarrow> tx_pkt list \<Rightarrow> morse_skbq \<Rightarrow> tx_pkt list \<Rightarrow> tx_host \<Rightarrow> bool" for env where
  run_init: "released s = [] \<Longrightarrow> reported s = [] \<Longrightarrow> skbq_run env [] (morse_skbq_init MORSE_CHIP_IF_FLAGS_DATA) [] s"
| run_submit: "skbq_run env subs mq fl s \<Longrightarrow> submittable p \<Longrightarrow> pk_ref p \<notin> set (map pk_ref subs)
    \<Longrightarrow> morse_skbq_mmpkt_tx env ch p mq s = Some (mq', s') \<Longrightarrow> skbq_run env (subs @ [p]) mq' fl s'"
| run_drop: "skbq_run env subs mq fl s \<Longrightarrow> morse_skbq_drop_stale_pkts env mq s = (n, mq', s')
    \<Longrightarrow> skbq_run env subs mq' fl s'"
| run_take: "skbq_run env subs mq [] s
    \<Longrightarrow> skbq_run env subs (mq\<lparr>mq_skbq := drop n (mq_skbq mq)\<rparr>) (take n (mq_skbq mq)) s"
| run_fail: "skbq_run env subs mq (xs @ p # ys) s \<Longrightarrow> skbq_run env subs mq (xs @ ys) (release_pkt p s)"
| run_complete: "skbq_run env subs mq fl s \<Longrightarrow> morse_skbq_tx_complete fl mq s = (mq', s')
    \<Longrightarrow> skbq_run env subs mq' [] s'"
| run_status: "skbq_run env subs mq fl s \<Longrightarrow> legal_status sts \<Longrightarrow> tx_status_one env sts mq s = Some (b, mq', s')
    \<Longrightarrow> skbq_run env subs mq' fl s'"
| run_stale: "skbq_run env subs mq fl s \<Longrightarrow> morse_skbq_check_for_stale_tx env mq s = Some (n, mq', s')
    \<Longrightarrow> skbq_run env subs mq' fl s'"
| run_flush: "skbq_run env subs mq fl s \<Longrightarrow> morse_skbq_tx_flush mq s = (n, mq', s')
    \<Longrightarrow> skbq_run env subs mq' fl s'"
| run_other: "skbq_run env subs mq fl s \<Longrightarrow> released s' = released s \<Longrightarrow> reported s' = reported s
    \<Longrightarrow> skbq_run env subs mq fl s'"

lemma released_release_all [simp]:
  "released (release_all ps s) = released s @ ps" "reported (release_all ps s) = reported s"
  by (induction ps arbitrary: s) (simp_all add: release_all_def release_pkt_def)

lemma drop_stale_loop_prefix:
  "drop_stale_loop limit ps s = (n, ps', s') \<Longrightarrow>
    \<exists>xs. ps = xs @ ps' \<and> released s' = released s @ xs \<and> reported s' = reported s \<and> n = length xs
      \<and> (\<forall>p\<in>set xs. \<not> mmosal_time_lt limit (pkt_timeout p))
      \<and> (ps' \<noteq> [] \<longrightarrow> mmosal_time_lt limit (pkt_timeout (hd ps')))"
proof (induction limit ps s arbitrary: n rule: drop_stale_loop.induct)
  case (2 limit p ps s)
  show ?case
  proof (cases "mmosal_time_lt limit (pkt_timeout p)")
    case True
    then show ?thesis using 2(2) by auto
  next
    case False
    obtain m where m: "drop_stale_loop limit ps (release_pkt p s) = (m, ps', s')" "n = m + 1"
      using 2(2) False by (auto split: prod.splits)
    from 2(1) [OF False m(1)] obtain xs where "ps = xs @ ps'" "released s' = released (release_pkt p s) @ xs"
      "reported s' = reported (release_pkt p s)" "m = length xs" "\<forall>p\<in>set xs. \<not> mmosal_time_lt limit (pkt_timeout p)"
      "ps' \<noteq> [] \<longrightarrow> mmosal_time_lt limit (pkt_timeout (hd ps'))" by blast
    then show ?thesis using m(2) False by (intro exI [of _ "p # xs"]) (simp add: release_pkt_def)
  qed
qed auto

lemma submit_inv:
  assumes inv: "skbq_inv subs mq fl s" and p: "submittable p" "pk_ref p \<notin> set (map pk_ref subs)"
    and tx: "morse_skbq_mmpkt_tx env ch p mq s = Some (mq', s')"
  shows "skbq_inv (subs @ [p]) mq' fl s' \<and> mq_flags mq' = mq_flags mq"
proof -
  obtain q where q: "skb_add_header (u32 (clock env (ticks s))) ch p = Some q" "mq' = morse_skbq_put q mq"
      "released s' = released s" "reported s' = reported s"
    using tx by (auto simp: morse_skbq_mmpkt_tx_def mmosal_get_time_ms_def morse_skbq_tx_def
        driver_task_notify_event_def split: Option.bind_splits if_splits)
  have "wraps p q" using skb_add_header_wraps [OF _ q(1)] p(1) by (simp add: submittable_def)
  moreover have "rc_rates (pk_meta q) = rc_rates (pk_meta p)"
    using q(1) skb_add_header_eq p(1) by (auto simp: submittable_def Let_def split: if_splits)
  moreover have "pk_ref q = pk_ref p" using \<open>wraps p q\<close> by (simp add: wraps_def)
  ultimately show ?thesis using inv p q
    by (auto simp: skbq_inv_def morse_skbq_put_def submittable_def)
qed

lemma skbq_run_inv: "skbq_run env subs mq fl s \<Longrightarrow> skbq_inv subs mq fl s \<and> mq_flags mq = MORSE_CHIP_IF_FLAGS_DATA"
proof (induction rule: skbq_run.induct)
  case (run_init s)
  then show ?case by (simp add: skbq_inv_def morse_skbq_init_def)
next
  case (run_submit subs mq fl s p ch mq' s')
  then show ?case using submit_inv by metis
next
  case (run_drop subs mq fl s n mq' s')
  then obtain limit ps' s1 where d: "drop_stale_loop limit (mq_skbq mq) s1 = (n, ps', s')" "mq' = mq\<lparr>mq_skbq := ps'\<rparr>"
      "released s1 = released s" "reported s1 = reported s"
    by (auto simp: morse_skbq_drop_stale_pkts_def mmosal_get_time_ms_def split: prod.splits)
  obtain xs where "mq_skbq mq = xs @ ps'" "released s' = released s @ xs" "reported s' = reported s"
    using drop_stale_loop_prefix [OF d(1)] d(3,4) by auto
  then show ?case using run_drop.IH d(2) by (auto simp: skbq_inv_def ac_simps)
next
  case (run_take subs mq s n)
  have "mset (map pk_ref (mq_skbq mq)) = mset (map pk_ref (take n (mq_skbq mq))) + mset (map pk_ref (drop n (mq_skbq mq)))"
    by (metis append_take_drop_id map_append mset_append)
  moreover have "set (mq_skbq mq) = set (take n (mq_skbq mq)) \<union> set (drop n (mq_skbq mq))"
    by (metis append_take_drop_id set_append)
  ultimately show ?case using run_take.IH by (auto simp: skbq_inv_def ac_simps)
next
  case (run_fail subs mq xs p ys s)
  then show ?case by (auto simp: skbq_inv_def release_pkt_def ac_simps)
next
  case (run_complete subs mq fl s mq' s')
  then show ?case by (auto simp: skbq_inv_def morse_skbq_tx_complete_def ac_simps split: if_splits)
next
  case (run_status subs mq fl s sts b mq' s')
  then show ?case using tx_status_one_inv [of subs mq fl s sts env] by (auto simp: legal_status_def)
next
  case (run_stale subs mq fl s n mq' s')
  have "distinct (map pk_ref (mq_pending mq))" using run_stale.IH inv_distinct by fastforce
  then show ?case
    using stale_walk_inv [of subs mq fl s "mq_pending mq" env] run_stale
    by (auto simp: morse_skbq_check_for_stale_tx_def split: if_splits)
next
  case (run_flush subs mq fl s n mq' s')
  then show ?case
    by (auto simp: skbq_inv_def morse_skbq_tx_flush_def purge_skbq_def purge_pending_def ac_simps)
next
  case (run_other subs mq fl s s')
  then show ?case by (simp add: skbq_inv_def)
qed

text \<open>C30. No packet is lost, doubled or changed on its way to the chip: whatever the order of the operations on a data
  queue and whatever the chip reports, every packet submitted is in exactly one place, waiting, being written, pending,
  released or reported, and a reported packet has the data, the place in memory and the free space it was submitted
  with. Processing a status with four rates never fails, if the chip filters only data and management frames.\<close>

theorem skbq_conserves_packets:
  assumes "skbq_run env subs mq fl s"
  shows "mset (map pk_ref (mq_skbq mq @ fl @ mq_pending mq @ released s @ reported s)) = mset (map pk_ref subs)
    \<and> distinct (map pk_ref subs)
    \<and> (\<forall>r\<in>set (reported s). \<exists>p\<in>set subs. same_payload r p)
    \<and> (legal_status sts \<longrightarrow> tx_status_one env sts mq s \<noteq> None)"
  using skbq_run_inv [OF assms] tx_status_one_inv [of subs mq fl s sts env]
  by (auto simp: skbq_inv_def legal_status_def)

text \<open>A packet of five bytes at an odd address, and a status for it.\<close>

definition sample_pkt :: "nat \<Rightarrow> tx_pkt" where
  "sample_pkt ref = \<lparr>pk_ref = ref, pk_addr = 101, pk_before = 60, pk_after = 8, pk_hdr = None, pk_data = [1, 2, 3, 4, 5],
     pk_meta = \<lparr>timeout_abs_ms = 0, rc_rates = replicate 4 mmrc_rate_zero, tm_vif_id = 0, tm_key_idx = 0, tm_tid = 0,
       tm_tid_max_reorder_buf_size = 0, tm_flags = 0, tm_ampdu_mss = 0, tm_mmss_offset = 0, tm_status_flags = 0,
       tm_attempts = 0, tm_tail_padding = 0\<rparr>\<rparr>"

definition sample_status :: "nat \<Rightarrow> nat \<Rightarrow> morse_skb_tx_status" where
  "sample_status flags n = \<lparr>ts_flags = flags, ts_pkt_id = n, ts_tid = 0, ts_channel = MORSE_SKB_CHAN_DATA,
     ts_rates = [\<lparr>sr_morse_rc = 0, sr_count = 3\<rparr>, \<lparr>sr_morse_rc = 0, sr_count = 0\<rparr>, \<lparr>sr_morse_rc = 0, sr_count = 0\<rparr>,
       \<lparr>sr_morse_rc = 0, sr_count = 0\<rparr>]\<rparr>"

definition sample_host :: tx_host where
  "sample_host = \<lparr>ticks = 0, pending_evts = 0, scheduled_evts = replicate 4 (0, 0), dt_semb = False, dt_task = True,
     dt_running = True, state_flags = 0, stale_enabled = True, stale_timer = False, released = [], reported = []\<rparr>"

definition steady_clock :: driver_env where
  "steady_clock = \<lparr>clock = \<lambda>_. 1000\<rparr>"

lemma submittable_sample: "submittable (sample_pkt n)"
  by (simp add: submittable_def plain_def sample_pkt_def)

lemma legal_sample: "legal_status (sample_status 0 n)"
  by (simp add: legal_status_def sample_status_def has_flag_def)

lemma replicate_4: "replicate 4 x = [x, x, x, x]"
  by (simp add: numeral_eq_Suc)

lemma sample_pkt_header:
  obtains q where "skb_add_header now ch (sample_pkt n) = Some q" "pk_hdr q \<noteq> None" "pk_ref q = n"
    "rc_rates (pk_meta q) = [mmrc_rate_zero, mmrc_rate_zero, mmrc_rate_zero, mmrc_rate_zero]" "wraps (sample_pkt n) q"
proof -
  have plain: "plain (sample_pkt n)" by (simp add: plain_def sample_pkt_def)
  have pad: "head_pad (sample_pkt n) = 1" "tail_pad (sample_pkt n) = 2"
    "pk_before (sample_pkt n) = 60" "pk_after (sample_pkt n) = 8" "pk_ref (sample_pkt n) = n"
    "rc_rates (pk_meta (sample_pkt n)) = [mmrc_rate_zero, mmrc_rate_zero, mmrc_rate_zero, mmrc_rate_zero]"
    by (simp_all add: head_pad_def tail_pad_def pad_to_word_def sample_pkt_def replicate_4)
  obtain q where q: "skb_add_header now ch (sample_pkt n) = Some q" "pk_ref q = n"
      "rc_rates (pk_meta q) = [mmrc_rate_zero, mmrc_rate_zero, mmrc_rate_zero, mmrc_rate_zero]"
    using skb_add_header_eq [OF plain, of now ch] pad by (simp add: Let_def)
  have "wraps (sample_pkt n) q"
    by (rule skb_add_header_wraps [OF plain q(1)]) (simp add: sample_pkt_def)
  then show ?thesis using q that by (auto simp: wraps_def)
qed

theorem skbq_conserves_packets_witness:
  "\<exists>mq s. skbq_run steady_clock [sample_pkt 7] mq [] s \<and> map pk_ref (reported s) = [7]
    \<and> mset (map pk_ref (mq_skbq mq @ [] @ mq_pending mq @ released s @ reported s)) = {#7#}
    \<and> tx_status_one steady_clock (sample_status 0 1) mq s \<noteq> None"
proof -
  let ?env = steady_clock and ?mq = "morse_skbq_init MORSE_CHIP_IF_FLAGS_DATA"
  obtain q where q: "skb_add_header 1000 MORSE_SKB_CHAN_DATA (sample_pkt 7) = Some q" "pk_hdr q \<noteq> None" "pk_ref q = 7"
    "rc_rates (pk_meta q) = [mmrc_rate_zero, mmrc_rate_zero, mmrc_rate_zero, mmrc_rate_zero]"
    using sample_pkt_header by metis
  let ?p = "with_id 0 q"
  have r0: "skbq_run ?env [] ?mq [] sample_host"
    by (rule run_init) (simp_all add: sample_host_def)
  have "\<exists>s1. morse_skbq_mmpkt_tx ?env MORSE_SKB_CHAN_DATA (sample_pkt 7) ?mq sample_host = Some (morse_skbq_put q ?mq, s1)"
    using q(1) by (simp add: morse_skbq_mmpkt_tx_def mmosal_get_time_ms_def steady_clock_def u32_def morse_skbq_tx_def)
  then obtain s1 where "morse_skbq_mmpkt_tx ?env MORSE_SKB_CHAN_DATA (sample_pkt 7) ?mq sample_host = Some (morse_skbq_put q ?mq, s1)" ..
  from run_submit [OF r0 submittable_sample _ this]
  have r1: "skbq_run ?env [sample_pkt 7] (morse_skbq_put q ?mq) [] s1" by simp
  then have "released s1 = []" "reported s1 = []"
    using skbq_run_inv [OF r1] by (auto simp: skbq_inv_def morse_skbq_put_def morse_skbq_init_def)
  from run_take [OF r1, of 1] have r2: "skbq_run ?env [sample_pkt 7] (?mq\<lparr>pkt_seq := 1\<rparr>) [?p] s1"
    by (simp add: morse_skbq_put_def morse_skbq_init_def u32_def)
  obtain s3 where "morse_skbq_tx_complete [?p] (?mq\<lparr>pkt_seq := 1\<rparr>) s1 = (?mq\<lparr>pkt_seq := 1, mq_pending := [?p]\<rparr>, s3)"
    by (simp add: morse_skbq_tx_complete_def morse_skbq_init_def)
  from run_complete [OF r2 this] have r3: "skbq_run ?env [sample_pkt 7] (?mq\<lparr>pkt_seq := 1, mq_pending := [?p]\<rparr>) [] s3" .
  have "reported s3 = []" using skbq_run_inv [OF r3] q(3) by (simp add: skbq_inv_def morse_skbq_init_def)
  have pid: "pkt_id ?p = 0" using q(2) by (auto simp: pkt_id_def with_id_def)
  have "\<exists>r. tx_status_one ?env (sample_status 0 0) (?mq\<lparr>pkt_seq := 1, mq_pending := [?p]\<rparr>) s3
      = Some (True, ?mq\<lparr>pkt_seq := 1\<rparr>, mmdrv_host_process_tx_status r s3) \<and> pk_ref r = 7"
    using q(3,4) by (simp add: tx_status_one_def skbq_get_pending_by_id_def pid sample_status_def has_flag_def
        morse_skbq_tx_finish_def morse_skbq_init_def skbq_data_tx_finish_def list_remove_def u8_def) (intro exI conjI, rule refl, simp)
  then obtain r where st: "tx_status_one ?env (sample_status 0 0) (?mq\<lparr>pkt_seq := 1, mq_pending := [?p]\<rparr>) s3
      = Some (True, ?mq\<lparr>pkt_seq := 1\<rparr>, mmdrv_host_process_tx_status r s3)" "pk_ref r = 7" by blast
  from run_status [OF r3 legal_sample st(1)]
  have r4: "skbq_run ?env [sample_pkt 7] (?mq\<lparr>pkt_seq := 1\<rparr>) [] (mmdrv_host_process_tx_status r s3)" .
  show ?thesis
    using skbq_conserves_packets [OF r4, of "sample_status 0 1"] r4 st(2) \<open>reported s3 = []\<close> legal_sample
    by (intro exI [of _ "?mq\<lparr>pkt_seq := 1\<rparr>"] exI [of _ "mmdrv_host_process_tx_status r s3"] conjI r4)
      (simp_all add: mmdrv_host_process_tx_status_def sample_pkt_def)
qed

end
