(* ===== verification/Crc.thy ===== *)
theory Crc
  imports Prelude
begin

section \<open>Checksums: CRC-16/XMODEM and CRC-7\<close>

text \<open>
  The table-driven checksums of \<open>mmutils/mmcrc.c\<close> and
  \<open>morselib/src/driver/morse_crc/morse_crc.c\<close>: the two lookup tables, the byte loops and the
  YAPS status-word checksum. Each is compared with the bit-at-a-time division by its generator
  polynomial; for CRC-16 the shift register is shown to be reversible, which gives the residue
  of a message followed by its checksum and the detection of every error inside one byte.
\<close>

unbundle bit_operations_syntax

subsection \<open>The code\<close>

definition crc16_xmodem_lookup_table :: "16 word list" where
  "crc16_xmodem_lookup_table = [
    0x0000, 0x1021, 0x2042, 0x3063, 0x4084, 0x50a5, 0x60c6, 0x70e7,
    0x8108, 0x9129, 0xa14a, 0xb16b, 0xc18c, 0xd1ad, 0xe1ce, 0xf1ef,
    0x1231, 0x0210, 0x3273, 0x2252, 0x52b5, 0x4294, 0x72f7, 0x62d6,
    0x9339, 0x8318, 0xb37b, 0xa35a, 0xd3bd, 0xc39c, 0xf3ff, 0xe3de,
    0x2462, 0x3443, 0x0420, 0x1401, 0x64e6, 0x74c7, 0x44a4, 0x5485,
    0xa56a, 0xb54b, 0x8528, 0x9509, 0xe5ee, 0xf5cf, 0xc5ac, 0xd58d,
    0x3653, 0x2672, 0x1611, 0x0630, 0x76d7, 0x66f6, 0x5695, 0x46b4,
    0xb75b, 0xa77a, 0x9719, 0x8738, 0xf7df, 0xe7fe, 0xd79d, 0xc7bc,
    0x48c4, 0x58e5, 0x6886, 0x78a7, 0x0840, 0x1861, 0x2802, 0x3823,
    0xc9cc, 0xd9ed, 0xe98e, 0xf9af, 0x8948, 0x9969, 0xa90a, 0xb92b,
    0x5af5, 0x4ad4, 0x7ab7, 0x6a96, 0x1a71, 0x0a50, 0x3a33, 0x2a12,
    0xdbfd, 0xcbdc, 0xfbbf, 0xeb9e, 0x9b79, 0x8b58, 0xbb3b, 0xab1a,
    0x6ca6, 0x7c87, 0x4ce4, 0x5cc5, 0x2c22, 0x3c03, 0x0c60, 0x1c41,
    0xedae, 0xfd8f, 0xcdec, 0xddcd, 0xad2a, 0xbd0b, 0x8d68, 0x9d49,
    0x7e97, 0x6eb6, 0x5ed5, 0x4ef4, 0x3e13, 0x2e32, 0x1e51, 0x0e70,
    0xff9f, 0xefbe, 0xdfdd, 0xcffc, 0xbf1b, 0xaf3a, 0x9f59, 0x8f78,
    0x9188, 0x81a9, 0xb1ca, 0xa1eb, 0xd10c, 0xc12d, 0xf14e, 0xe16f,
    0x1080, 0x00a1, 0x30c2, 0x20e3, 0x5004, 0x4025, 0x7046, 0x6067,
    0x83b9, 0x9398, 0xa3fb, 0xb3da, 0xc33d, 0xd31c, 0xe37f, 0xf35e,
    0x02b1, 0x1290, 0x22f3, 0x32d2, 0x4235, 0x5214, 0x6277, 0x7256,
    0xb5ea, 0xa5cb, 0x95a8, 0x8589, 0xf56e, 0xe54f, 0xd52c, 0xc50d,
    0x34e2, 0x24c3, 0x14a0, 0x0481, 0x7466, 0x6447, 0x5424, 0x4405,
    0xa7db, 0xb7fa, 0x8799, 0x97b8, 0xe75f, 0xf77e, 0xc71d, 0xd73c,
    0x26d3, 0x36f2, 0x0691, 0x16b0, 0x6657, 0x7676, 0x4615, 0x5634,
    0xd94c, 0xc96d, 0xf90e, 0xe92f, 0x99c8, 0x89e9, 0xb98a, 0xa9ab,
    0x5844, 0x4865, 0x7806, 0x6827, 0x18c0, 0x08e1, 0x3882, 0x28a3,
    0xcb7d, 0xdb5c, 0xeb3f, 0xfb1e, 0x8bf9, 0x9bd8, 0xabbb, 0xbb9a,
    0x4a75, 0x5a54, 0x6a37, 0x7a16, 0x0af1, 0x1ad0, 0x2ab3, 0x3a92,
    0xfd2e, 0xed0f, 0xdd6c, 0xcd4d, 0xbdaa, 0xad8b, 0x9de8, 0x8dc9,
    0x7c26, 0x6c07, 0x5c64, 0x4c45, 0x3ca2, 0x2c83, 0x1ce0, 0x0cc1,
    0xef1f, 0xff3e, 0xcf5d, 0xdf7c, 0xaf9b, 0xbfba, 0x8fd9, 0x9ff8,
    0x6e17, 0x7e36, 0x4e55, 0x5e74, 0x2e93, 0x3eb2, 0x0ed1, 0x1ef0]"

definition crc7_sd_lookup_table :: "8 word list" where
  "crc7_sd_lookup_table = [
    0x00, 0x09, 0x12, 0x1b, 0x24, 0x2d, 0x36, 0x3f, 0x48, 0x41, 0x5a, 0x53, 0x6c, 0x65, 0x7e, 0x77,
    0x19, 0x10, 0x0b, 0x02, 0x3d, 0x34, 0x2f, 0x26, 0x51, 0x58, 0x43, 0x4a, 0x75, 0x7c, 0x67, 0x6e,
    0x32, 0x3b, 0x20, 0x29, 0x16, 0x1f, 0x04, 0x0d, 0x7a, 0x73, 0x68, 0x61, 0x5e, 0x57, 0x4c, 0x45,
    0x2b, 0x22, 0x39, 0x30, 0x0f, 0x06, 0x1d, 0x14, 0x63, 0x6a, 0x71, 0x78, 0x47, 0x4e, 0x55, 0x5c,
    0x64, 0x6d, 0x76, 0x7f, 0x40, 0x49, 0x52, 0x5b, 0x2c, 0x25, 0x3e, 0x37, 0x08, 0x01, 0x1a, 0x13,
    0x7d, 0x74, 0x6f, 0x66, 0x59, 0x50, 0x4b, 0x42, 0x35, 0x3c, 0x27, 0x2e, 0x11, 0x18, 0x03, 0x0a,
    0x56, 0x5f, 0x44, 0x4d, 0x72, 0x7b, 0x60, 0x69, 0x1e, 0x17, 0x0c, 0x05, 0x3a, 0x33, 0x28, 0x21,
    0x4f, 0x46, 0x5d, 0x54, 0x6b, 0x62, 0x79, 0x70, 0x07, 0x0e, 0x15, 0x1c, 0x23, 0x2a, 0x31, 0x38,
    0x41, 0x48, 0x53, 0x5a, 0x65, 0x6c, 0x77, 0x7e, 0x09, 0x00, 0x1b, 0x12, 0x2d, 0x24, 0x3f, 0x36,
    0x58, 0x51, 0x4a, 0x43, 0x7c, 0x75, 0x6e, 0x67, 0x10, 0x19, 0x02, 0x0b, 0x34, 0x3d, 0x26, 0x2f,
    0x73, 0x7a, 0x61, 0x68, 0x57, 0x5e, 0x45, 0x4c, 0x3b, 0x32, 0x29, 0x20, 0x1f, 0x16, 0x0d, 0x04,
    0x6a, 0x63, 0x78, 0x71, 0x4e, 0x47, 0x5c, 0x55, 0x22, 0x2b, 0x30, 0x39, 0x06, 0x0f, 0x14, 0x1d,
    0x25, 0x2c, 0x37, 0x3e, 0x01, 0x08, 0x13, 0x1a, 0x6d, 0x64, 0x7f, 0x76, 0x49, 0x40, 0x5b, 0x52,
    0x3c, 0x35, 0x2e, 0x27, 0x18, 0x11, 0x0a, 0x03, 0x74, 0x7d, 0x66, 0x6f, 0x50, 0x59, 0x42, 0x4b,
    0x17, 0x1e, 0x05, 0x0c, 0x33, 0x3a, 0x21, 0x28, 0x5f, 0x56, 0x4d, 0x44, 0x7b, 0x72, 0x69, 0x60,
    0x0e, 0x07, 0x1c, 0x15, 0x2a, 0x23, 0x38, 0x31, 0x46, 0x4f, 0x54, 0x5d, 0x62, 0x6b, 0x70, 0x79]"

fun mmcrc_16_xmodem :: "16 word \<Rightarrow> byte list \<Rightarrow> 16 word" where
  "mmcrc_16_xmodem crc [] = crc"
| "mmcrc_16_xmodem crc (d # ds) =
     mmcrc_16_xmodem
       (crc16_xmodem_lookup_table ! unat (drop_bit 8 crc XOR ucast d) XOR push_bit 8 crc) ds"

fun morse_crc16_xmodem :: "16 word \<Rightarrow> byte list \<Rightarrow> 16 word" where
  "morse_crc16_xmodem crc [] = crc"
| "morse_crc16_xmodem crc (d # ds) =
     morse_crc16_xmodem
       (crc16_xmodem_lookup_table ! unat (drop_bit 8 crc XOR ucast d) XOR push_bit 8 crc) ds"

fun morse_crc7_sd :: "8 word \<Rightarrow> byte list \<Rightarrow> 8 word" where
  "morse_crc7_sd crc [] = crc"
| "morse_crc7_sd crc (d # ds) =
     morse_crc7_sd (crc7_sd_lookup_table ! unat (push_bit 1 crc XOR d)) ds"

text \<open>
  \<open>htobe32\<close> stores the masked word most significant byte first, and the checksum runs over
  the four bytes in memory order.
\<close>

definition be32_bytes :: "32 word \<Rightarrow> byte list" where
  "be32_bytes w = [ucast (drop_bit 24 w), ucast (drop_bit 16 w), ucast (drop_bit 8 w), ucast w]"

definition morse_yaps_crc :: "32 word \<Rightarrow> 8 word" where
  "morse_yaps_crc word = morse_crc7_sd 0 (be32_bytes (word AND 0x1ffffff))"

subsection \<open>Division by the generator polynomial, one bit at a time\<close>

definition crc16_shift :: "16 word \<Rightarrow> 16 word" where
  "crc16_shift x = (if bit x 15 then push_bit 1 x XOR 0x1021 else push_bit 1 x)"

fun crc16_bitwise :: "16 word \<Rightarrow> byte list \<Rightarrow> 16 word" where
  "crc16_bitwise crc [] = crc"
| "crc16_bitwise crc (d # ds) =
     crc16_bitwise ((crc16_shift ^^ 8) (crc XOR push_bit 8 (ucast d))) ds"

definition crc7_shift :: "8 word \<Rightarrow> 8 word" where
  "crc7_shift x = (if bit x 7 then push_bit 1 x XOR 0x12 else push_bit 1 x)"

text \<open>
  The CRC-7 register holds seven bits; the bitwise form keeps them in the upper seven bits of a
  byte while it shifts.
\<close>

fun crc7_bitwise :: "8 word \<Rightarrow> byte list \<Rightarrow> 8 word" where
  "crc7_bitwise crc [] = crc"
| "crc7_bitwise crc (d # ds) =
     crc7_bitwise (drop_bit 1 ((crc7_shift ^^ 8) (push_bit 1 crc XOR d))) ds"

subsection \<open>The lookup tables tabulate the division\<close>

fun tabulates :: "('a::comm_semiring_1 \<Rightarrow> 'b) \<Rightarrow> 'a \<Rightarrow> 'a \<Rightarrow> 'b list \<Rightarrow> bool" where
  "tabulates f d x [] = True"
| "tabulates f d x (t # ts) = (f x = t \<and> tabulates f d (x + d) ts)"

lemma tabulates_nth:
  "tabulates f d x ts \<Longrightarrow> i < length ts \<Longrightarrow> ts ! i = f (x + of_nat i * d)"
proof (induction ts arbitrary: i x)
  case Nil
  then show ?case by simp
next
  case (Cons t ts)
  then show ?case by (cases i) (auto simp: algebra_simps)
qed

lemma funpow_8: "(f ^^ 8) x = f (f (f (f (f (f (f (f x)))))))"
  by (simp add: numeral_eq_Suc)

lemma crc16_shift_cases:
  "bit x 15 \<Longrightarrow> crc16_shift x = push_bit 1 x XOR 0x1021"
  "\<not> bit x 15 \<Longrightarrow> crc16_shift x = push_bit 1 x"
  by (simp_all add: crc16_shift_def)

lemma crc7_shift_cases:
  "bit x 7 \<Longrightarrow> crc7_shift x = push_bit 1 x XOR 0x12"
  "\<not> bit x 7 \<Longrightarrow> crc7_shift x = push_bit 1 x"
  by (simp_all add: crc7_shift_def)

lemma crc16_table_tabulates: "tabulates (crc16_shift ^^ 8) 0x100 0 crc16_xmodem_lookup_table"
  by (simp add: crc16_xmodem_lookup_table_def funpow_8 crc16_shift_cases)

lemma crc7_table_tabulates:
  "tabulates (\<lambda>x. drop_bit 1 ((crc7_shift ^^ 8) x)) 1 0 crc7_sd_lookup_table"
  by (simp add: crc7_sd_lookup_table_def funpow_8 crc7_shift_cases)

lemma length_crc16_table: "length crc16_xmodem_lookup_table = 256"
  by (simp add: crc16_xmodem_lookup_table_def)

lemma length_crc7_table: "length crc7_sd_lookup_table = 256"
  by (simp add: crc7_sd_lookup_table_def)

lemma crc16_table_nth:
  assumes "unat (i :: 16 word) < 256"
  shows "crc16_xmodem_lookup_table ! unat i = (crc16_shift ^^ 8) (push_bit 8 i)"
  using tabulates_nth [OF crc16_table_tabulates, of "unat i"] assms
  by (simp add: length_crc16_table push_bit_eq_mult)

lemma crc7_table_nth:
  "crc7_sd_lookup_table ! unat (i :: 8 word) = drop_bit 1 ((crc7_shift ^^ 8) i)"
  using tabulates_nth [OF crc7_table_tabulates, of "unat i"] unsigned_less [of i]
  by (simp add: length_crc7_table)

subsection \<open>Linearity and reversibility of the shift register\<close>

lemma crc16_shift_xor: "crc16_shift (x XOR y) = crc16_shift x XOR crc16_shift y"
  by (auto simp: crc16_shift_def bit_xor_iff push_bit_xor ac_simps)

lemma crc16_shifts_xor: "(crc16_shift ^^ n) (x XOR y) = (crc16_shift ^^ n) x XOR (crc16_shift ^^ n) y"
  by (induction n) (simp_all add: crc16_shift_xor)

lemma crc16_shifts_low:
  "(\<forall>i. 16 - n \<le> i \<longrightarrow> \<not> bit x i) \<Longrightarrow> n \<le> 16 \<Longrightarrow> (crc16_shift ^^ n) x = push_bit n x"
proof (induction n)
  case 0
  then show ?case by simp
next
  case (Suc n)
  then have IH: "(crc16_shift ^^ n) x = push_bit n x" by simp
  have "\<not> bit (push_bit n x) 15"
    using Suc.prems by (auto simp: bit_push_bit_iff)
  then have "(crc16_shift ^^ Suc n) x = push_bit 1 (push_bit n x)"
    by (simp only: funpow.simps comp_apply IH crc16_shift_cases if_False not_False_eq_True)
  then show ?case by (simp only: push_bit_push_bit) simp
qed

definition crc16_unshift :: "16 word \<Rightarrow> 16 word" where
  "crc16_unshift y = (if bit y 0 then drop_bit 1 (y XOR 0x1021) OR 0x8000 else drop_bit 1 y)"

lemma bit_0x1021: "bit (0x1021 :: 16 word) n \<longleftrightarrow> n = 0 \<or> n = 5 \<or> n = 12" 
  by (auto simp: bit_numeral_rec bit_1_iff split: nat.splits)
lemma bit_0x8000: "bit (0x8000 :: 16 word) n \<longleftrightarrow> n = 15" 
  by (auto simp: bit_numeral_rec bit_1_iff split: nat.splits)
lemma bit_crc16_shift:
  "bit (crc16_shift x) n \<longleftrightarrow> n < 16 \<and> ((0 < n \<and> bit x (n - 1)) \<noteq> (bit x 15 \<and> (n = 0 \<or> n = 5 \<or> n = 12)))"
proof (cases "bit x 15")
  case True
  then show ?thesis
  by (auto simp only: crc16_shift_cases bit_push_bit_iff bit_xor_iff bit_0x1021 possible_bit_word) auto
next
  case False
  then show ?thesis
  by (auto simp only: crc16_shift_cases(2) bit_push_bit_iff possible_bit_word not_False_eq_True) auto
qed
lemma crc16_unshift_shift: "crc16_unshift (crc16_shift x) = x"
proof (rule bit_word_eqI)
  fix n assume "n < LENGTH(16)"
  then have n: "n < 16" by simp
  have 0: "bit (crc16_shift x) 0 = bit x 15" by (auto simp only: bit_crc16_shift)
  show "bit (crc16_unshift (crc16_shift x)) n = bit x n"
  proof (cases "bit x 15")
    case True
    then have "bit (crc16_unshift (crc16_shift x)) n = bit (drop_bit 1 (crc16_shift x XOR 0x1021) OR 0x8000) n"
      by (simp only: crc16_unshift_def 0 if_True)
    also have "... = bit x n" using n True
      by (auto simp only: bit_crc16_shift bit_drop_bit_eq bit_or_iff bit_xor_iff bit_0x1021 bit_0x8000 comp_apply) auto
    finally show ?thesis .
  next
    case False
    then have "bit (crc16_unshift (crc16_shift x)) n = bit (drop_bit 1 (crc16_shift x)) n"
      by (simp only: crc16_unshift_def 0 if_False)
    also have "... = bit x n" using n False
      by (cases "n = 15") (auto simp only: bit_crc16_shift bit_drop_bit_eq comp_apply, auto)
    finally show ?thesis .
  qed
qed

lemma crc16_shifts_inj: "(crc16_shift ^^ n) x = (crc16_shift ^^ n) y \<Longrightarrow> x = y"
  by (induction n) (auto dest: arg_cong [where f = crc16_unshift] simp: crc16_unshift_shift)

lemma crc16_register_split:
  fixes crc :: "16 word"
  shows "crc XOR push_bit 8 (ucast (d :: byte)) = push_bit 8 (drop_bit 8 crc XOR ucast d) XOR take_bit 8 crc"
proof -
  have "push_bit 8 (drop_bit 8 crc) XOR take_bit 8 crc = crc"
    by (rule bit_word_eqI) (auto simp: bit_simps)
  then show ?thesis by (metis (no_types, lifting) push_bit_xor xor.assoc xor.commute)
qed
lemma crc16_index_bound: "unat (drop_bit 8 (crc :: 16 word) XOR ucast (d :: byte)) < 256"
proof -
  have "drop_bit 8 crc XOR ucast d = take_bit 8 (drop_bit 8 crc XOR ucast d)"
    by (rule bit_word_eqI) (auto simp: bit_simps dest: bit_imp_le_length)
  then have "unat (drop_bit 8 crc XOR ucast d) = take_bit 8 (unat (drop_bit 8 crc XOR ucast d))"
    by (metis unsigned_take_bit_eq)
  then show ?thesis by (metis take_bit_nat_less_exp power2_eq_square numeral_Bit0 take_bit_nat_less_exp[of 8, simplified])
qed
lemma crc16_shift8_low: "(crc16_shift ^^ 8) (take_bit 8 crc) = push_bit 8 crc"
proof -
  have "(crc16_shift ^^ 8) (take_bit 8 crc) = push_bit 8 (take_bit 8 crc)"
    by (rule crc16_shifts_low) (auto simp: bit_simps)
  also have "... = push_bit 8 crc"
    by (rule bit_word_eqI) (auto simp: bit_simps)
  finally show ?thesis .
qed
lemma crc16_step:
  "crc16_xmodem_lookup_table ! unat (drop_bit 8 crc XOR ucast (d :: byte)) XOR push_bit 8 crc
    = (crc16_shift ^^ 8) (crc XOR push_bit 8 (ucast d))"
    by (simp only: crc16_table_nth crc16_index_bound crc16_register_split crc16_shifts_xor crc16_shift8_low)

subsection \<open>The byte loops divide by the generator polynomial\<close>

lemma mmcrc_16_xmodem_bitwise: "mmcrc_16_xmodem crc ds = crc16_bitwise crc ds"
  by (induction crc ds rule: mmcrc_16_xmodem.induct) (simp_all add: crc16_step)

lemma morse_crc16_xmodem_mmcrc: "morse_crc16_xmodem crc ds = mmcrc_16_xmodem crc ds"
  by (induction crc ds rule: mmcrc_16_xmodem.induct) simp_all

lemma morse_crc7_sd_bitwise: "morse_crc7_sd crc ds = crc7_bitwise crc ds"
  by (induction crc ds rule: morse_crc7_sd.induct) (simp_all add: crc7_table_nth)

text \<open>C3. The table-driven checksums compute the remainder of the bit-at-a-time division: for every
  initial value and message, both copies of CRC-16/XMODEM agree with division by 0x1021 and the
  CRC-7 agrees with division by 0x09 (shifted into the upper seven bits).\<close>

theorem crc_tables_divide:
  "mmcrc_16_xmodem crc ds = crc16_bitwise crc ds
   \<and> morse_crc16_xmodem crc ds = crc16_bitwise crc ds
   \<and> morse_crc7_sd crc7 ds = crc7_bitwise crc7 ds"
  by (simp add: mmcrc_16_xmodem_bitwise morse_crc16_xmodem_mmcrc morse_crc7_sd_bitwise)

subsection \<open>Error detection\<close>

lemma crc16_bitwise_append: "crc16_bitwise crc (xs @ ys) = crc16_bitwise (crc16_bitwise crc xs) ys"
  by (induction crc xs rule: crc16_bitwise.induct) simp_all

lemma crc16_bitwise_two: "crc16_bitwise crc [a, b] = (crc16_shift ^^ 16) (crc XOR (push_bit 8 (ucast a) XOR ucast b))"
proof -
  have "push_bit 8 (ucast b) = (crc16_shift ^^ 8) (ucast b)"
   by (rule crc16_shifts_low [symmetric]) (auto simp: bit_simps dest: bit_imp_le_length)
  moreover have "(crc16_shift ^^ 16) x = (crc16_shift ^^ 8) ((crc16_shift ^^ 8) x)" for x
    by (simp flip: funpow_add [THEN fun_cong, unfolded comp_apply])
  ultimately show ?thesis
   by (simp add: crc16_shifts_xor ac_simps)
qed
lemma xor_cancel_right: "x XOR m = y XOR m \<longleftrightarrow> x = (y :: 'a::len word)"
  by (metis xor.assoc xor_self_eq xor.right_neutral)
lemma crc16_bitwise_inj: "crc16_bitwise x ds = crc16_bitwise y ds \<Longrightarrow> x = y"
proof (induction ds arbitrary: x y)
  case (Cons d ds)
  then have "(crc16_shift ^^ 8) (x XOR push_bit 8 (ucast d)) = (crc16_shift ^^ 8) (y XOR push_bit 8 (ucast d))"
    by simp
  from crc16_shifts_inj [OF this] show ?case
    by (simp add: xor_cancel_right)
qed simp

lemma word_pair_inj: "push_bit 8 (ucast a) XOR ucast b = (push_bit 8 (ucast c) XOR ucast d :: 16 word) \<Longrightarrow> a = (c::byte) \<and> b = (d::byte)"
proof -
  assume eq: "push_bit 8 (ucast a) XOR ucast b = (push_bit 8 (ucast c) XOR ucast d :: 16 word)"
  have bits: "bit (push_bit 8 (ucast a) XOR ucast b :: 16 word) n = bit (push_bit 8 (ucast c) XOR ucast d :: 16 word) n" for n
    using eq by simp
  have "a = c"
  proof (rule bit_word_eqI)
    fix n assume "n < LENGTH(8)"
    then show "bit a n = bit c n" using bits [of "n + 8"] by (auto simp: bit_simps dest: bit_imp_le_length)
  qed
  moreover have "b = d"
  proof (rule bit_word_eqI)
    fix n assume "n < LENGTH(8)"
    then show "bit b n = bit d n" using bits [of n] by (auto simp: bit_simps dest: bit_imp_le_length)
  qed
  ultimately show ?thesis by simp
qed

lemma crc16_residue: "mmcrc_16_xmodem crc (ds @ [ucast (drop_bit 8 (mmcrc_16_xmodem crc ds)), ucast (mmcrc_16_xmodem crc ds)]) = 0"
proof -
  have "crc16_bitwise r [ucast (drop_bit 8 r), ucast r] = 0" for r :: "16 word"
  proof -
    have "push_bit 8 (ucast (ucast (drop_bit 8 r) :: byte)) XOR ucast (ucast r :: byte) = r"
      by (rule bit_word_eqI) (auto simp: bit_simps dest: bit_imp_le_length)
    moreover have "(crc16_shift ^^ n) 0 = 0" for n
      by (induction n) (simp_all add: crc16_shift_def)
    ultimately show ?thesis by (simp add: crc16_bitwise_two del: funpow.simps crc16_bitwise.simps)
  qed
  then show ?thesis by (simp only: crc16_bitwise_append mmcrc_16_xmodem_bitwise)
qed

lemma mmcrc_burst_inj:
  assumes "mmcrc_16_xmodem crc (xs @ [a, b] @ ys) = mmcrc_16_xmodem crc (xs @ [c, d] @ ys)"
  shows "a = c \<and> b = d"
proof -
  let ?r = "crc16_bitwise crc xs"
  from assms have "crc16_bitwise ?r [a, b] = crc16_bitwise ?r [c, d]"
    by (simp only: crc16_bitwise_append mmcrc_16_xmodem_bitwise) (rule crc16_bitwise_inj)
  then have "(crc16_shift ^^ 16) (?r XOR (push_bit 8 (ucast a) XOR ucast b)) = (crc16_shift ^^ 16) (?r XOR (push_bit 8 (ucast c) XOR ucast d))"
    by (simp only: crc16_bitwise_two)
  from crc16_shifts_inj [OF this] show ?thesis
    by (metis xor_cancel_right xor.commute word_pair_inj)
qed

text \<open>Two messages of equal length that differ only inside two adjacent bytes have different
  CRC-16 checksums, whatever the initial value and the surrounding bytes: every error burst that
  lies inside two adjacent bytes is detected.\<close>

theorem mmcrc_detects_burst:
  assumes "(a, b) \<noteq> (c, d)"
  shows "mmcrc_16_xmodem crc (xs @ [a, b] @ ys) \<noteq> mmcrc_16_xmodem crc (xs @ [c, d] @ ys)"
  using assms mmcrc_burst_inj by blast

theorem mmcrc_detects_burst_witness:
  "(2 :: byte, 3 :: byte) \<noteq> (0x82, 0x41) \<and>
   mmcrc_16_xmodem 0 ([1] @ [2, 3] @ [4]) \<noteq> mmcrc_16_xmodem 0 ([1] @ [0x82, 0x41] @ [4])"
proof -
  have differ: "(2 :: byte, 3 :: byte) \<noteq> (0x82, 0x41)" by simp
  show ?thesis
    using differ mmcrc_detects_burst [OF differ, of 0 "[1]" "[4]"] by blast
qed

lemma crc7_shift_xor: "crc7_shift (x XOR y) = crc7_shift x XOR crc7_shift y"
  by (auto simp: crc7_shift_def bit_xor_iff push_bit_xor ac_simps)

lemma crc7_shifts_xor: "(crc7_shift ^^ n) (x XOR y) = (crc7_shift ^^ n) x XOR (crc7_shift ^^ n) y"
  by (induction n) (simp_all add: crc7_shift_xor)

lemma crc7_bitwise_xor:
  "length xs = length ys \<Longrightarrow> crc7_bitwise (a XOR b) (map2 (XOR) xs ys) = crc7_bitwise a xs XOR crc7_bitwise b ys"
proof (induction xs ys arbitrary: a b rule: list_induct2)
  case (Cons x xs y ys)
  have "push_bit 1 (a XOR b) XOR (x XOR y) = (push_bit 1 a XOR x) XOR (push_bit 1 b XOR y)"
    by (simp only: push_bit_xor ac_simps)
  have "crc7_bitwise (a XOR b) (map2 (XOR) (x # xs) (y # ys))
      = crc7_bitwise (drop_bit 1 ((crc7_shift ^^ 8) ((push_bit 1 a XOR x) XOR (push_bit 1 b XOR y)))) (map2 (XOR) xs ys)"
    by (simp only: zip_Cons_Cons list.map prod.case crc7_bitwise.simps \<open>push_bit 1 (a XOR b) XOR (x XOR y) = _\<close>)
  then show ?case
    by (simp only: crc7_shifts_xor drop_bit_xor Cons.IH crc7_bitwise.simps)
qed simp

lemma yaps_crc_xor: "morse_yaps_crc (v XOR w) = morse_yaps_crc v XOR morse_yaps_crc w"
proof -
  have *: "(v XOR w) AND 0x1ffffff = (v AND 0x1ffffff) XOR (w AND 0x1ffffff)"
   by (rule bit_word_eqI) (auto simp: bit_simps)
  have "be32_bytes (x XOR y) = map2 (XOR) (be32_bytes x) (be32_bytes y)" for x y
   by (simp add: be32_bytes_def drop_bit_xor unsigned_xor_eq)
  with crc7_bitwise_xor [of "be32_bytes (v AND 0x1ffffff)" "be32_bytes (w AND 0x1ffffff)" 0 0] show ?thesis
   by (simp add: morse_yaps_crc_def morse_crc7_sd_bitwise * be32_bytes_def)
qed

lemma yaps_crc_unit_vectors:
  assumes "i < 25"
  shows "morse_yaps_crc (push_bit i 1) \<noteq> 0"
proof -
  from assms consider "i = 24 \<or> i = 23 \<or> i = 22 \<or> i = 21 \<or> i = 20 \<or> i = 19 \<or> i = 18 \<or> i = 17"
    | "i = 16 \<or> i = 15 \<or> i = 14 \<or> i = 13 \<or> i = 12 \<or> i = 11 \<or> i = 10 \<or> i = 9" | "i = 8 \<or> i = 7 \<or> i = 6 \<or> i = 5 \<or> i = 4 \<or> i = 3 \<or> i = 2 \<or> i = 1 \<or> i = 0"
    by atomize_elim presburger
  then show ?thesis
    by cases (elim disjE; simp add: morse_yaps_crc_def be32_bytes_def morse_crc7_sd_bitwise
        funpow_8 crc7_shift_cases)+
qed

text \<open>Flipping any single one of the 25 protected bits of a YAPS status word changes its
  CRC-7.\<close>

theorem morse_yaps_crc_detects_bit_flip:
  "i < 25 \<Longrightarrow> morse_yaps_crc (w XOR push_bit i 1) \<noteq> morse_yaps_crc w"
  using yaps_crc_unit_vectors [of i]
  by (metis yaps_crc_xor xor_cancel_right xor.commute xor.left_neutral)

theorem morse_yaps_crc_detects_bit_flip_witness:
  "(3 :: nat) < 25 \<and> morse_yaps_crc (0x155 XOR push_bit 3 1) \<noteq> morse_yaps_crc 0x155"
  using morse_yaps_crc_detects_bit_flip [of 3 "0x155"] by (simp only:) simp

end
