(* ===== verification/Driver_State.thy ===== *)
theory Driver_State
  imports Skbq Crc
begin

section \<open>State of the driver and interrupts of the chip\<close>

text \<open>
  The state of the driver (\<open>struct driver_data\<close> of \<open>morse.h\<close> with the YAPS interface of \<open>yaps.h\<close>) and what it finds
  outside; the interrupts of the chip (\<open>driver/morse_driver/hw.c\<close>, the task and the enabling of interrupts in
  \<open>driver/transport/sdio.c\<close>), beacons as far as they are started and stopped (\<open>driver/beacon/beacon.c\<close>), and the look at the
  assertion of a firmware that has stopped (\<open>driver/morse_driver/coredump.c\<close>). A call of the transport is one access to the
  bus whose result is a parameter; its count of consecutive failures is left out.
\<close>

subsection \<open>The state of the driver\<close>

text \<open>The status registers of the chip and the sizes of its queues, as far as packets to the chip need them.\<close>

record yaps_status_regs =
  tc_tx_pool_num_pages :: nat
  tc_cmd_pool_num_pages :: nat
  tc_beacon_pool_num_pages :: nat
  tc_mgmt_pool_num_pages :: nat
  tc_tx_num_pkts :: nat
  tc_cmd_num_pkts :: nat
  tc_beacon_num_pkts :: nat
  tc_mgmt_num_pkts :: nat
  fc_num_pkts :: nat
  tc_delim_crc_fail_detected :: nat

record morse_yaps_hw_aux_data =
  tc_tx_q_size :: nat
  tc_cmd_q_size :: nat
  tc_beacon_q_size :: nat
  tc_mgmt_q_size :: nat
  reserved_yaps_page_size :: nat
  status_regs :: yaps_status_regs

text \<open>
  Calls into the UMAC and accesses to the bus are logged; an access is logged with the state of the wake
  pin.
\<close>

datatype host_call =
    Health_Check_Required
  | Hw_Restart_Required
  | Set_Tx_Paused bool
  | Rx_Frame nat "nat list"
  | Cmd_Response "nat list"

datatype bus_op =
    Write_Packet "32 word" tx_pkt
  | Read_Delimiter
  | Read_Packet nat
  | Read_Status
  | Read_Int_Status
  | Clear_Int_Status nat
  | Read_Int_Enable nat
  | Clear_Int nat nat
  | Write_Int_Enable nat nat
  | Read_Memory nat nat

text \<open>Regions of the memory of the chip that the firmware declares for core dumps.\<close>

record morse_coredump_mem_region =
  cr_type :: nat
  cr_start :: nat
  cr_len :: nat

record driver_data = tx_host +
  pageset_consec_failure_cnt :: nat
  tx_max_pause_time_ms :: nat
  host_log :: "host_call list"
  ps_initialized :: bool
  ps_suspended :: bool
  ps_wakers :: nat
  ps_pending_wake :: bool
  bus_ps_timeout :: nat
  dynamic_ps_timeout_ms :: nat
  wake_pin :: bool
  irq_enabled :: bool
  hal_irq_enabled :: bool
  chip_if :: bool
  data_tx_qs :: "morse_skbq list"
  beacon_q :: morse_skbq
  mgmt_q :: morse_skbq
  cmd_q :: morse_skbq
  chip_queue_full :: bool
  validate_skb_checksum :: bool
  yaps_hw :: morse_yaps_hw_aux_data
  access_lock :: bool
  beacon_enabled :: bool
  beacon_vif_id :: nat
  beacon_count :: nat
  beacon_work_fn :: bool
  memory_regions :: "morse_coredump_mem_region list"
  started :: bool
  bus_log :: "(bool \<times> bus_op) list"

text \<open>What the driver finds outside, by the number of the reading: the busy pin, whether a wait for the
  chip to wake up succeeded, the beacon of the UMAC, the results of the bus and of allocations, and the events that interrupts and other
  tasks have raised.\<close>

record chip_env = driver_env +
  busy_is_asserted :: "nat \<Rightarrow> bool"
  beacon_of :: "nat \<Rightarrow> tx_pkt option"
  bus_write :: "nat \<Rightarrow> int"
  bus_status :: "nat \<Rightarrow> int \<times> yaps_status_regs \<times> nat"
  bus_delim :: "nat \<Rightarrow> int \<times> 32 word"
  bus_read :: "nat \<Rightarrow> int \<times> nat list"
  bus_int_status :: "nat \<Rightarrow> int \<times> nat"
  bus_int_write :: "nat \<Rightarrow> int"
  bus_int_enable :: "nat \<Rightarrow> nat"
  bus_memory :: "nat \<Rightarrow> int \<times> nat list"
  alloc_rx :: "nat \<Rightarrow> nat \<Rightarrow> bool"
  alloc_info :: "nat \<Rightarrow> nat \<Rightarrow> bool"
  raised_events :: "nat \<Rightarrow> nat list"

definition tick :: "driver_data \<Rightarrow> driver_data" where
  "tick d = d\<lparr>ticks := ticks d + 1\<rparr>"

subsection \<open>The bus\<close>

definition log_bus :: "bus_op \<Rightarrow> driver_data \<Rightarrow> driver_data" where
  "log_bus b d = d\<lparr>bus_log := bus_log d @ [(wake_pin d, b)], ticks := ticks d + 1\<rparr>"

definition host :: "host_call \<Rightarrow> driver_data \<Rightarrow> driver_data" where
  "host c d = d\<lparr>host_log := host_log d @ [c]\<rparr>"

text \<open>The transport refuses lengths that are not a positive multiple of four without an access.\<close>

definition morse_trns_read_multi_byte ::
  "'e chip_env_scheme \<Rightarrow> nat \<Rightarrow> nat \<Rightarrow> driver_data \<Rightarrow> (int \<times> nat list) \<times> driver_data" where
  "morse_trns_read_multi_byte env address len d =
     (if len = 0 \<or> len mod 4 \<noteq> 0 then ((- 1, []), d)
      else (bus_memory env (ticks d), log_bus (Read_Memory address len) d))"

subsection \<open>Interrupts of the chip\<close>

definition yaps_irq_handler :: "nat \<Rightarrow> nat \<Rightarrow> nat \<Rightarrow> driver_data \<Rightarrow> driver_data" where
  "yaps_irq_handler pkt_waiting_irqn packet_freed_up_irqn status d =
     (let d = (if bit status pkt_waiting_irqn then driver_task_notify_event DRV_EVT_RX_PEND d else d)
      in if bit status packet_freed_up_irqn then driver_task_notify_event DRV_EVT_TX_PACKET_FREED_UP_PEND d else d)"

text \<open>The bits of the status that concern the interface (0 to 13, 15 and 29), beacons (17 to 24) and a firmware that has
  stopped (27).\<close>

definition MORSE_CHIP_IF_IRQ_MASK_ALL :: nat where
  "MORSE_CHIP_IF_IRQ_MASK_ALL = (2 ^ 14 - 1) + 2 ^ 15 + 2 ^ 29"

definition MORSE_INT_BEACON_VIF_MASK_ALL :: nat where
  "MORSE_INT_BEACON_VIF_MASK_ALL = (2 ^ 8 - 1) * 2 ^ 17"

abbreviation (input) MORSE_INT_BEACON_BASE_NUM :: nat where "MORSE_INT_BEACON_BASE_NUM \<equiv> 17"
abbreviation (input) MORSE_INT_HW_STOP_NOTIFICATION_NUM :: nat where "MORSE_INT_HW_STOP_NOTIFICATION_NUM \<equiv> 27"

definition morse_beacon_irq_handle :: "nat \<Rightarrow> driver_data \<Rightarrow> driver_data" where
  "morse_beacon_irq_handle status1_reg d =
     (let beacon_irq_num = u8 (MORSE_INT_BEACON_BASE_NUM + beacon_vif_id d)
      in if bit status1_reg beacon_irq_num then driver_task_notify_event_from_isr DRV_EVT_BEACON_REQ_PEND d else d)"

text \<open>The handler reads the status, twice when the first reading fails, raises the events, and acknowledges what it has seen.\<close>

definition read_int_status :: "'e chip_env_scheme \<Rightarrow> driver_data \<Rightarrow> (int \<times> nat) \<times> driver_data" where
  "read_int_status env d = (bus_int_status env (ticks d), log_bus Read_Int_Status d)"

definition irq_events :: "nat \<Rightarrow> driver_data \<Rightarrow> driver_data" where
  "irq_events status1 d =
     (let d = (if and status1 MORSE_CHIP_IF_IRQ_MASK_ALL \<noteq> 0 then yaps_irq_handler 0 1 status1 d else d);
          d = (if and status1 MORSE_INT_BEACON_VIF_MASK_ALL \<noteq> 0
               then morse_beacon_irq_handle (and status1 MORSE_INT_BEACON_VIF_MASK_ALL) d else d)
      in if bit status1 MORSE_INT_HW_STOP_NOTIFICATION_NUM then driver_task_notify_event DRV_EVT_STOP_NOTICATION d else d)"

definition morse_hw_irq_handle :: "'e chip_env_scheme \<Rightarrow> driver_data \<Rightarrow> int \<times> driver_data" where
  "morse_hw_irq_handle env d =
     (let ((ret, status1), d) = read_int_status env d;
          ((ret, status1), d) = (if ret \<noteq> 0 then read_int_status env d else ((ret, status1), d))
      in if ret \<noteq> 0 then (ret, d)
      else (let d = irq_events (u32 status1) d;
                (ret, d) = (if u32 status1 \<noteq> 0
                            then (bus_int_write env (ticks d), log_bus (Clear_Int_Status (u32 status1)) d) else (0, d))
            in if ret \<noteq> 0 then (ret, d) else (0, d\<lparr>hal_irq_enabled := True\<rparr>)))"

definition morse_trns_set_irq_enabled :: "'e chip_env_scheme \<Rightarrow> bool \<Rightarrow> driver_data \<Rightarrow> driver_data" where
  "morse_trns_set_irq_enabled env enabled d =
     (if enabled then
        (if \<not> irq_enabled d then snd (morse_hw_irq_handle env (d\<lparr>irq_enabled := True, hal_irq_enabled := True\<rparr>)) else d)
      else d\<lparr>irq_enabled := False, hal_irq_enabled := False\<rparr>)"

text \<open>The interrupt itself only silences its source and wakes a task, which handles it if interrupts are enabled.\<close>

definition morse_spi_irq_handler :: "driver_data \<Rightarrow> driver_data" where
  "morse_spi_irq_handler d = d\<lparr>hal_irq_enabled := False\<rparr>"

definition morse_spi_irq_turn :: "'e chip_env_scheme \<Rightarrow> driver_data \<Rightarrow> driver_data" where
  "morse_spi_irq_turn env d = (if irq_enabled d then snd (morse_hw_irq_handle env d) else d)"

text \<open>Interrupts are enabled one by one in the registers of the chip. The code does not look at the result of the reading: when it fails,
  the value is arbitrary.\<close>

definition morse_hw_irq_enable :: "'e chip_env_scheme \<Rightarrow> nat \<Rightarrow> bool \<Rightarrow> driver_data \<Rightarrow> int \<times> driver_data" where
  "morse_hw_irq_enable env irq enable d =
     (let bank = (if irq < 32 then 1 else 2);
          mask = (if irq < 32 then u32 (2 ^ irq) else u32 (2 ^ (irq - 32)));
          irq_en = u32 (bus_int_enable env (ticks d));
          d = log_bus (Read_Int_Enable bank) d;
          irq_en = (if enable then or irq_en mask else and irq_en (u32 (2 ^ 32 - 1 - mask)));
          d = log_bus (Clear_Int bank mask) d;
          d = log_bus (Write_Int_Enable bank irq_en) d
      in (0, d))"

subsection \<open>Starting and stopping beacons\<close>

definition morse_beacon_set_irq_enabled :: "'e chip_env_scheme \<Rightarrow> bool \<Rightarrow> driver_data \<Rightarrow> int \<times> driver_data" where
  "morse_beacon_set_irq_enabled env enabled d =
     morse_hw_irq_enable env (u8 (MORSE_INT_BEACON_BASE_NUM + beacon_vif_id d)) enabled d"

definition morse_beacon_start :: "'e chip_env_scheme \<Rightarrow> nat \<Rightarrow> driver_data \<Rightarrow> int \<times> driver_data" where
  "morse_beacon_start env vif_id d =
     morse_beacon_set_irq_enabled env True
       (driver_task_notify_event DRV_EVT_BEACON_REQ_PEND
         (d\<lparr>beacon_count := 0, beacon_enabled := True, beacon_vif_id := vif_id, beacon_work_fn := True\<rparr>))"

definition morse_beacon_stop :: "'e chip_env_scheme \<Rightarrow> driver_data \<Rightarrow> int \<times> driver_data" where
  "morse_beacon_stop env d =
     (let (ret, d) = (if beacon_enabled d \<and> beacon_vif_id d \<noteq> 65535 then morse_beacon_set_irq_enabled env False d
                      else (0, d))
      in (ret, d\<lparr>beacon_enabled := False, beacon_vif_id := 65535\<rparr>))"

subsection \<open>The assertion of a firmware that has stopped\<close>

abbreviation (input) MORSE_MEM_REGION_TYPE_ASSERT_INFO :: nat where "MORSE_MEM_REGION_TYPE_ASSERT_INFO \<equiv> 2"

definition le32_at :: "nat list \<Rightarrow> nat \<Rightarrow> nat" where
  "le32_at bs i = u8 (bs ! i) + 2 ^ 8 * u8 (bs ! (i + 1)) + 2 ^ 16 * u8 (bs ! (i + 2)) + 2 ^ 24 * u8 (bs ! (i + 3))"

text \<open>The first eight bytes of the information are the hart and the line, the rest is a string; the buffer is
  allocated as zeros. The search ends at the first region that holds an assertion.\<close>

definition assertion_found :: "nat \<Rightarrow> nat list \<Rightarrow> bool" where
  "assertion_found len bytes =
     (let info = take len (bytes @ replicate len 0);
          line = le32_at info 4;
          info_strlen = length (takeWhile (\<lambda>b. b \<noteq> 0) (drop 8 info))
      in info_strlen > 0 \<or> line > 0)"

fun coredump_loop :: "'e chip_env_scheme \<Rightarrow> morse_coredump_mem_region list \<Rightarrow> driver_data \<Rightarrow> driver_data" where
  "coredump_loop env [] d = d"
| "coredump_loop env (region # regions) d =
     (if cr_type region \<noteq> MORSE_MEM_REGION_TYPE_ASSERT_INFO then coredump_loop env regions d
      else if cr_len region < 9 then coredump_loop env regions d
      else if \<not> alloc_info env (ticks d) (cr_len region) then coredump_loop env regions (tick d)
      else (let ((result, bytes), d) = morse_trns_read_multi_byte env (cr_start region) (cr_len region) (tick d)
            in if result \<noteq> 0 then coredump_loop env regions d
            else if assertion_found (cr_len region) bytes then d
            else coredump_loop env regions d))"

definition coredump_log_assert_info :: "'e chip_env_scheme \<Rightarrow> driver_data \<Rightarrow> driver_data" where
  "coredump_log_assert_info env d = coredump_loop env (memory_regions d) d"

subsection \<open>What handling interrupts and looking at an assertion leave alone\<close>

text \<open>The accesses of the handler to the bus, with the wake pin as it is, satisfy \<open>P\<close>; the power of the chip does not change.\<close>

definition accessed :: "(bus_op \<Rightarrow> bool) \<Rightarrow> driver_data \<Rightarrow> driver_data \<Rightarrow> bool" where
  "accessed P d d' \<longleftrightarrow> ps_initialized d' = ps_initialized d \<and> ps_suspended d' = ps_suspended d
     \<and> ps_wakers d' = ps_wakers d \<and> wake_pin d' = wake_pin d \<and> irq_enabled d' = irq_enabled d
     \<and> (\<exists>bs. bus_log d' = bus_log d @ map (Pair (wake_pin d)) bs \<and> list_all P bs)"

lemma accessed_refl [simp]: "accessed P d d"
  by (auto simp: accessed_def intro!: exI [of _ "[]"])

lemma accessed_trans: "accessed P d d1 \<Longrightarrow> accessed P d1 d2 \<Longrightarrow> accessed P d d2"
proof -
  assume a: "accessed P d d1" "accessed P d1 d2"
  then obtain bs cs where "bus_log d1 = bus_log d @ map (Pair (wake_pin d)) bs" "list_all P bs"
    "bus_log d2 = bus_log d1 @ map (Pair (wake_pin d)) cs" "list_all P cs" by (auto simp: accessed_def)
  then have "bus_log d2 = bus_log d @ map (Pair (wake_pin d)) (bs @ cs) \<and> list_all P (bs @ cs)" by simp
  then show ?thesis using a unfolding accessed_def by metis
qed

lemma accessed_step [simp]:
  "accessed P d (tick d)" "accessed P d (driver_task_notify_event e d)" "accessed P d (driver_task_notify_event_from_isr e d)"
  "P b \<Longrightarrow> accessed P d (log_bus b d)" "accessed P d (d\<lparr>hal_irq_enabled := h\<rparr>)"
  "accessed P d (host c d)"
  by (auto simp: accessed_def tick_def driver_task_notify_event_def driver_task_notify_event_from_isr_def log_bus_def host_def
      intro!: exI [of _ "[]"] exI [of _ "[b]"])

lemma accessed_irq_handle: "accessed (\<lambda>b. b = Read_Int_Status \<or> (\<exists>n. b = Clear_Int_Status n)) d (snd (morse_hw_irq_handle env d))"
proof -
  let ?P = "\<lambda>b. b = Read_Int_Status \<or> (\<exists>n. b = Clear_Int_Status n)"
  have r: "accessed ?P d (snd (read_int_status env d))" for d by (simp add: read_int_status_def)
  have cond: "accessed ?P d d1 \<Longrightarrow> (\<And>d. accessed ?P d (f d)) \<Longrightarrow> accessed ?P d (if b then f d1 else d1)" for d d1 f b
    using accessed_trans by auto
  have y: "accessed ?P d (yaps_irq_handler 0 1 n d)" for n d
    unfolding yaps_irq_handler_def Let_def by (intro cond accessed_refl accessed_step)
  have b: "accessed ?P d (morse_beacon_irq_handle n d)" for n d
    unfolding morse_beacon_irq_handle_def Let_def by (intro cond accessed_refl accessed_step)
  have e: "accessed ?P d (irq_events n d)" for n d
    unfolding irq_events_def Let_def by (intro cond accessed_refl accessed_step y b)
  have l: "accessed ?P d (log_bus (Clear_Int_Status n) (irq_events n d))" for n d
    by (rule accessed_trans [OF e accessed_step(4)]) simp
  have h: "accessed ?P d (d1\<lparr>hal_irq_enabled := True\<rparr>)" if "accessed ?P d d1" for d d1
    by (rule accessed_trans [OF that]) simp
  obtain x d1 where d1: "read_int_status env d = (x, d1)" by fastforce
  obtain ret st d2 where d2: "(if fst x \<noteq> 0 then read_int_status env d1 else (x, d1)) = ((ret, st), d2)" by (metis prod.collapse)
  have a1: "accessed ?P d d1" using r [of d] d1 by simp
  have a2: "accessed ?P d d2" using a1 accessed_trans [OF a1 r [of d1]] d2 by (auto split: if_splits)
  have "\<exists>d3. accessed ?P d2 d3 \<and> snd (morse_hw_irq_handle env d) = d3"
    using d2 l h e
    by (cases x) (auto simp: morse_hw_irq_handle_def d1 Let_def)
  then show ?thesis using accessed_trans [OF a2] by auto
qed

text \<open>The accesses that the driver makes without waking the chip: the memory of an assertion and the enabling of an interrupt.\<close>

fun unguarded :: "bus_op \<Rightarrow> bool" where
  "unguarded (Read_Memory address len) \<longleftrightarrow> True"
| "unguarded (Read_Int_Enable bank) \<longleftrightarrow> True"
| "unguarded (Clear_Int bank bits) \<longleftrightarrow> True"
| "unguarded (Write_Int_Enable bank irq_en) \<longleftrightarrow> True"
| "unguarded b \<longleftrightarrow> False"

lemma accessed_read: "morse_trns_read_multi_byte env a n d = (r, d') \<Longrightarrow> accessed unguarded d d'"
  by (auto simp: morse_trns_read_multi_byte_def split: if_splits)

lemma accessed_loop: "accessed unguarded d (coredump_loop env regions d)"
proof (induction regions arbitrary: d)
  case (Cons region regions)
  obtain result bytes d1 where d1: "morse_trns_read_multi_byte env (cr_start region) (cr_len region) (tick d) = ((result, bytes), d1)"
    by (metis prod.collapse)
  have a: "accessed unguarded d d1" by (rule accessed_trans [OF _ accessed_read [OF d1]]) simp
  have t: "accessed unguarded d (coredump_loop env regions (tick d))"
    by (rule accessed_trans [OF accessed_step(1) Cons.IH])
  have l: "accessed unguarded d (coredump_loop env regions d1)" by (rule accessed_trans [OF a Cons.IH])
  show ?case
    using a t l Cons.IH by (simp only: coredump_loop.simps d1 Let_def prod.case split: if_split) simp
qed simp

lemma accessed_coredump: "accessed unguarded d (coredump_log_assert_info env d)"
  unfolding coredump_log_assert_info_def by (rule accessed_loop)

lemma accessed_irq_enable: "accessed unguarded d (snd (morse_hw_irq_enable env irq enable d))"
proof -
  have log: "accessed unguarded d (log_bus a d1)" if "accessed unguarded d d1" "unguarded a" for a d1
    using that(1) by (rule accessed_trans) (simp add: that(2))
  show ?thesis unfolding morse_hw_irq_enable_def Let_def snd_conv by (intro log accessed_refl unguarded.simps [THEN iffD2] TrueI)
qed

lemma coredump_pending [simp]: "pending_evts (coredump_log_assert_info env d) = pending_evts d"
proof -
  have "pending_evts (coredump_loop env regions d) = pending_evts d" for regions
  proof (induction regions arbitrary: d)
    case (Cons region regions)
    obtain result bytes d1 where d1: "morse_trns_read_multi_byte env (cr_start region) (cr_len region) (tick d) = ((result, bytes), d1)"
      by (metis prod.collapse)
    then have "pending_evts d1 = pending_evts (tick d)"
      by (auto simp: morse_trns_read_multi_byte_def log_bus_def split: if_splits)
    then show ?case using Cons.IH d1 by (simp add: Let_def) (simp add: tick_def)
  qed simp
  then show ?thesis by (simp add: coredump_log_assert_info_def)
qed

end
