(* ===== verification/Driver_Ps.thy ===== *)
theory Driver_Ps
  imports Driver_State
begin

section \<open>Power save of the driver\<close>

text \<open>
  The power save of the driver (\<open>driver/morse_driver/ps.c\<close>): wakers keep the chip awake, and when none is left and nothing is
  to be sent the driver lowers the wake pin and disables the interrupt of the chip. Waking the chip enables the interrupt again, which
  handles at once what the chip has to say.
\<close>

definition morse_yaps_get_tx_buffered_count :: "driver_data \<Rightarrow> nat" where
  "morse_yaps_get_tx_buffered_count d =
     (if \<not> chip_if d then 0
      else length (mq_skbq (beacon_q d)) + length (mq_pending (beacon_q d))
         + length (mq_skbq (mgmt_q d)) + length (mq_pending (mgmt_q d))
         + length (mq_skbq (cmd_q d)) + length (mq_pending (cmd_q d))
         + sum_list (map (\<lambda>q. morse_skbq_count_tx_ready q d + length (mq_pending q)) (data_tx_qs d)))"

definition morse_yaps_get_tx_status_pending_count :: "driver_data \<Rightarrow> nat" where
  "morse_yaps_get_tx_status_pending_count d =
     (if \<not> chip_if d then 0
      else length (mq_pending (beacon_q d)) + length (mq_pending (mgmt_q d)) + length (mq_pending (cmd_q d))
         + sum_list (map (\<lambda>q. length (mq_pending q)) (data_tx_qs d)))"

subsection \<open>Waking the chip and letting it sleep\<close>

abbreviation (input) PS_WAKER_UMAC :: nat where "PS_WAKER_UMAC \<equiv> 0"
abbreviation (input) PS_WAKER_PAGESET :: nat where "PS_WAKER_PAGESET \<equiv> 1"
abbreviation (input) PS_WAKER_COMMAND :: nat where "PS_WAKER_COMMAND \<equiv> 2"
abbreviation (input) PS_WAKER_IRQ :: nat where "PS_WAKER_IRQ \<equiv> 3"
abbreviation (input) DEFAULT_BUS_TIMEOUT_MS :: nat where "DEFAULT_BUS_TIMEOUT_MS \<equiv> 5"
abbreviation (input) MMWLAN_DEFAULT_DYNAMIC_PS_TIMEOUT_MS :: nat where "MMWLAN_DEFAULT_DYNAMIC_PS_TIMEOUT_MS \<equiv> 100"

definition mmhal_wlan_busy_is_asserted :: "'e chip_env_scheme \<Rightarrow> driver_data \<Rightarrow> bool \<times> driver_data" where
  "mmhal_wlan_busy_is_asserted env d = (busy_is_asserted env (ticks d), tick d)"

text \<open>Waiting for the chip has a time limit and its outcome is only logged.\<close>

definition morse_ps_wait_after_wake_pin_raise :: "'e chip_env_scheme \<Rightarrow> driver_data \<Rightarrow> driver_data" where
  "morse_ps_wait_after_wake_pin_raise env d =
     (let (busy, d) = mmhal_wlan_busy_is_asserted env d in if busy then d else tick d)"

definition morse_ps_update_timeout :: "'e chip_env_scheme \<Rightarrow> nat \<Rightarrow> driver_data \<Rightarrow> driver_data option" where
  "morse_ps_update_timeout env timeout_ms d =
     (let (now, d) = mmosal_get_time_ms env d; new_timeout = u32 (now + timeout_ms)
      in if mmosal_time_lt (bus_ps_timeout d) new_timeout
         then driver_task_schedule_notification_at DRV_EVT_PS_BUS_ACTIVITY_PEND new_timeout
                (d\<lparr>bus_ps_timeout := new_timeout\<rparr>)
         else Some d)"

definition morse_ps_wakeup :: "'e chip_env_scheme \<Rightarrow> driver_data \<Rightarrow> driver_data option" where
  "morse_ps_wakeup env d =
     (if \<not> ps_suspended d then Some d
      else (let d = d\<lparr>ps_pending_wake := True\<rparr>; d = d\<lparr>wake_pin := True\<rparr>;
                d = morse_ps_wait_after_wake_pin_raise env d;
                d = morse_trns_set_irq_enabled env True d; d = d\<lparr>ps_suspended := False\<rparr>; d = d\<lparr>ps_pending_wake := False\<rparr>
            in morse_ps_update_timeout env DEFAULT_BUS_TIMEOUT_MS d))"

definition morse_ps_sleep :: "driver_data \<Rightarrow> driver_data" where
  "morse_ps_sleep d =
     (if ps_suspended d then d
      else d\<lparr>ps_suspended := True, irq_enabled := False, hal_irq_enabled := False, wake_pin := False\<rparr>)"

definition morse_ps_irq_handle :: "driver_data \<Rightarrow> driver_data" where
  "morse_ps_irq_handle d =
     (if \<not> ps_initialized d then d
      else if ps_pending_wake d then d
      else driver_task_notify_event_from_isr DRV_EVT_PS_ASYNC_WAKEUP_PEND d)"

definition morse_ps_evaluate :: "'e chip_env_scheme \<Rightarrow> driver_data \<Rightarrow> driver_data option" where
  "morse_ps_evaluate env d =
     (let blocking_evt_is_pending = driver_task_notification_is_pending DRV_EVT_MASK_PAGESET d
      in if \<not> ps_initialized d then Some d
      else (let skbs_pending = morse_yaps_get_tx_buffered_count d \<noteq> 0;
                d = (if \<not> skbs_pending \<and> stale_enabled d then d\<lparr>stale_timer := False\<rparr> else d);
                needs_wake = (ps_wakers d \<noteq> 0 \<or> blocking_evt_is_pending \<or> skbs_pending)
            in do {
              (needs_wake, d) \<leftarrow>
                (if driver_is_data_tx_allowed d then
                   (let (now, d) = mmosal_get_time_ms env d
                    in if \<not> mmosal_time_has_passed now (bus_ps_timeout d)
                       then do {
                         d \<leftarrow> driver_task_schedule_notification_at DRV_EVT_PS_BUS_ACTIVITY_PEND (bus_ps_timeout d) d;
                         Some (True, d)
                       }
                       else Some (needs_wake, d))
                 else Some (needs_wake, d));
              (if needs_wake then morse_ps_wakeup env d
               else (let (busy, d) = mmhal_wlan_busy_is_asserted env d
                     in if busy then morse_ps_update_timeout env DEFAULT_BUS_TIMEOUT_MS d
                        else Some (morse_ps_sleep d)))
            }))"

definition morse_ps_network_activity :: "'e chip_env_scheme \<Rightarrow> driver_data \<Rightarrow> driver_data option" where
  "morse_ps_network_activity env d = morse_ps_update_timeout env (dynamic_ps_timeout_ms d) d"

text \<open>The result of the command that tells the chip is an argument.\<close>

definition morse_ps_set_dynamic_ps_timeout :: "int \<Rightarrow> nat \<Rightarrow> driver_data \<Rightarrow> int \<times> driver_data" where
  "morse_ps_set_dynamic_ps_timeout ret timeout_ms d =
     (if ret \<noteq> 0 then (ret, d) else (0, d\<lparr>dynamic_ps_timeout_ms := timeout_ms\<rparr>))"

definition morse_ps_work :: "'e chip_env_scheme \<Rightarrow> driver_data \<Rightarrow> driver_data option" where
  "morse_ps_work env d =
     (if \<not> ps_initialized d then Some d
      else (let (async_wakeup, d) = driver_task_notification_check_and_clear DRV_EVT_PS_ASYNC_WAKEUP_PEND d;
                (delayed_eval, d) = driver_task_notification_check_and_clear DRV_EVT_PS_DELAYED_EVAL_PEND d;
                (bus_activity, d) = driver_task_notification_check_and_clear DRV_EVT_PS_BUS_ACTIVITY_PEND d
            in do {
              d \<leftarrow> (if async_wakeup then morse_ps_wakeup env d else Some d);
              (bus_activity, d) \<leftarrow>
                (if bus_activity then
                   (let (now, d) = mmosal_get_time_ms env d
                    in if \<not> mmosal_time_has_passed now (bus_ps_timeout d)
                       then do {
                         d \<leftarrow> driver_task_schedule_notification_at DRV_EVT_PS_BUS_ACTIVITY_PEND (bus_ps_timeout d) d;
                         Some (False, d)
                       }
                       else Some (True, d))
                 else Some (False, d));
              (if delayed_eval \<or> bus_activity then morse_ps_evaluate env d else Some d)
            }))"

definition morse_ps_enable :: "'e chip_env_scheme \<Rightarrow> nat \<Rightarrow> driver_data \<Rightarrow> driver_data option" where
  "morse_ps_enable env waker_id d =
     (if \<not> ps_initialized d then Some d
      else morse_ps_evaluate env (d\<lparr>ps_wakers := unset_bit waker_id (ps_wakers d)\<rparr>))"

definition morse_ps_enable_async :: "nat \<Rightarrow> driver_data \<Rightarrow> driver_data" where
  "morse_ps_enable_async waker_id d =
     (if \<not> ps_initialized d then d
      else driver_task_notify_event DRV_EVT_PS_DELAYED_EVAL_PEND (d\<lparr>ps_wakers := unset_bit waker_id (ps_wakers d)\<rparr>))"

definition morse_ps_disable :: "'e chip_env_scheme \<Rightarrow> nat \<Rightarrow> driver_data \<Rightarrow> driver_data option" where
  "morse_ps_disable env waker_id d =
     (if \<not> ps_initialized d then Some d
      else morse_ps_evaluate env (d\<lparr>ps_wakers := set_bit waker_id (ps_wakers d)\<rparr>))"

definition morse_ps_disable_async :: "nat \<Rightarrow> driver_data \<Rightarrow> driver_data" where
  "morse_ps_disable_async waker_id d =
     (if \<not> ps_initialized d then d
      else driver_task_notify_event DRV_EVT_PS_DELAYED_EVAL_PEND (d\<lparr>ps_wakers := set_bit waker_id (ps_wakers d)\<rparr>))"

definition morse_ps_init :: "driver_data \<Rightarrow> driver_data" where
  "morse_ps_init d =
     d\<lparr>bus_ps_timeout := 0, dynamic_ps_timeout_ms := MMWLAN_DEFAULT_DYNAMIC_PS_TIMEOUT_MS, ps_suspended := False,
       ps_wakers := set_bit PS_WAKER_UMAC 0, ps_initialized := True, wake_pin := True\<rparr>"

definition morse_ps_deinit :: "driver_data \<Rightarrow> driver_data" where
  "morse_ps_deinit d =
     (if \<not> ps_initialized d then d else d\<lparr>ps_initialized := False, wake_pin := False\<rparr>)"

subsection \<open>When the chip sleeps\<close>

text \<open>The wake pin and the interrupt of the chip agree with what the driver believes.\<close>

definition ps_ok :: "driver_data \<Rightarrow> bool" where
  "ps_ok d \<longleftrightarrow> ps_initialized d \<and> (wake_pin d \<longleftrightarrow> \<not> ps_suspended d) \<and> (ps_suspended d \<longrightarrow> \<not> irq_enabled d)"

lemma schedule_at_more:
  "driver_task_schedule_notification_at e t d = Some d' \<Longrightarrow> driver_task.more d' = driver_task.more d \<and> ticks d' = ticks d
    \<and> pending_evts d' = pending_evts d"
  by (auto simp: driver_task_schedule_notification_at_def split: option.splits if_splits)

lemma driver_more_eq:
  fixes d d' :: driver_data
  assumes "driver_task.more d' = driver_task.more d"
  shows "tx_host.more d' = tx_host.more d" "released d' = released d" "reported d' = reported d"
    "state_flags d' = state_flags d" "stale_enabled d' = stale_enabled d" "stale_timer d' = stale_timer d"
  using assms by (cases d; cases d'; simp)+

lemma host_more_eq:
  fixes d d' :: driver_data
  assumes "tx_host.more d' = tx_host.more d"
  shows "ps_initialized d' = ps_initialized d" "ps_suspended d' = ps_suspended d" "ps_wakers d' = ps_wakers d"
    "wake_pin d' = wake_pin d" "irq_enabled d' = irq_enabled d" "bus_log d' = bus_log d" "bus_ps_timeout d' = bus_ps_timeout d"
    "chip_if d' = chip_if d" "data_tx_qs d' = data_tx_qs d" "beacon_q d' = beacon_q d" "mgmt_q d' = mgmt_q d" "cmd_q d' = cmd_q d"
    "chip_queue_full d' = chip_queue_full d" "yaps_hw d' = yaps_hw d" "access_lock d' = access_lock d"
    "dynamic_ps_timeout_ms d' = dynamic_ps_timeout_ms d" "host_log d' = host_log d" "beacon_work_fn d' = beacon_work_fn d"
    "beacon_enabled d' = beacon_enabled d" "pageset_consec_failure_cnt d' = pageset_consec_failure_cnt d"
    "validate_skb_checksum d' = validate_skb_checksum d"
  using assms by (cases d; cases d'; simp)+

lemma update_timeout_more:
  assumes "morse_ps_update_timeout env ms d = Some d'"
  shows "tx_host.more d' = tx_host.more (d\<lparr>bus_ps_timeout := bus_ps_timeout d'\<rparr>)"
proof -
  obtain now d0 where now: "mmosal_get_time_ms env d = (now, d0)" by fastforce
  then have d0: "d0 = d\<lparr>ticks := ticks d + 1\<rparr>" by (simp add: mmosal_get_time_ms_def)
  let ?t = "u32 (now + ms)"
  show ?thesis
  proof (cases "mmosal_time_lt (bus_ps_timeout d0) ?t")
    case True
    then have "driver_task_schedule_notification_at DRV_EVT_PS_BUS_ACTIVITY_PEND ?t (d0\<lparr>bus_ps_timeout := ?t\<rparr>) = Some d'"
      using assms by (simp add: morse_ps_update_timeout_def now Let_def)
    from schedule_at_more [OF this] have "driver_task.more d' = driver_task.more (d\<lparr>bus_ps_timeout := ?t\<rparr>)" by (cases d) (simp add: d0)
    from driver_more_eq(1) [OF this] have more: "tx_host.more d' = tx_host.more (d\<lparr>bus_ps_timeout := ?t\<rparr>)" .
    from host_more_eq(7) [OF this] have "bus_ps_timeout d' = ?t" by simp
    with more show ?thesis by (cases d) simp
  next
    case False
    then have "d' = d0" using assms by (simp add: morse_ps_update_timeout_def now Let_def)
    then show ?thesis by (cases d) (simp add: d0)
  qed
qed

lemma update_timeout_keeps:
  assumes "morse_ps_update_timeout env ms d = Some d'"
  shows "ps_suspended d' = ps_suspended d" "wake_pin d' = wake_pin d" "irq_enabled d' = irq_enabled d"
    "ps_initialized d' = ps_initialized d" "bus_log d' = bus_log d" "ps_wakers d' = ps_wakers d"
  using host_more_eq [OF update_timeout_more [OF assms]] by simp_all

lemma set_irq_accessed:
  "accessed (\<lambda>b. b = Read_Int_Status \<or> (\<exists>n. b = Clear_Int_Status n)) (d\<lparr>irq_enabled := True\<rparr>) (morse_trns_set_irq_enabled env True d)"
proof (cases "irq_enabled d")
  case True
  then have eq: "d\<lparr>irq_enabled := True\<rparr> = d" by (cases d) simp
  show ?thesis unfolding eq using True by (simp add: morse_trns_set_irq_enabled_def)
next
  case False
  let ?d = "d\<lparr>irq_enabled := True, hal_irq_enabled := True\<rparr>"
  have "accessed P (d\<lparr>irq_enabled := True\<rparr>) ?d" for P by (auto simp: accessed_def intro!: exI [of _ "[]"])
  from accessed_trans [OF this accessed_irq_handle [of ?d env]] show ?thesis
    using False by (simp add: morse_trns_set_irq_enabled_def)
qed

text \<open>Waking the chip: its pin is raised before the interrupts are handled.\<close>

lemma wakeup_awake:
  assumes "morse_ps_wakeup env d = Some d'"
  shows "\<not> ps_suspended d'" "ps_initialized d' = ps_initialized d" "ps_wakers d' = ps_wakers d"
    "if ps_suspended d then wake_pin d' \<and> irq_enabled d' \<and> (\<exists>bs. bus_log d' = bus_log d @ map (Pair True) bs) else d' = d"
proof -
  define d1 where "d1 = morse_ps_wait_after_wake_pin_raise env (d\<lparr>ps_pending_wake := True, wake_pin := True\<rparr>)"
  define d2 where "d2 = morse_trns_set_irq_enabled env True d1"
  have d1: "ps_initialized d1 = ps_initialized d" "ps_wakers d1 = ps_wakers d" "wake_pin d1" "bus_log d1 = bus_log d"
    by (simp_all add: d1_def morse_ps_wait_after_wake_pin_raise_def mmhal_wlan_busy_is_asserted_def tick_def Let_def)
  have d2: "ps_initialized d2 = ps_initialized d" "ps_wakers d2 = ps_wakers d" "wake_pin d2" "irq_enabled d2"
    "\<exists>bs. bus_log d2 = bus_log d @ map (Pair True) bs"
    using set_irq_accessed [of d1 env] d1 by (auto simp: accessed_def d2_def)
  have up: "ps_suspended d \<Longrightarrow> morse_ps_update_timeout env DEFAULT_BUS_TIMEOUT_MS (d2\<lparr>ps_suspended := False, ps_pending_wake := False\<rparr>) = Some d'"
    using assms by (simp add: morse_ps_wakeup_def d1_def d2_def Let_def)
  have "\<not> ps_suspended d' \<and> ps_initialized d' = ps_initialized d \<and> ps_wakers d' = ps_wakers d \<and>
    (if ps_suspended d then wake_pin d' \<and> irq_enabled d' \<and> (\<exists>bs. bus_log d' = bus_log d @ map (Pair True) bs) else d' = d)"
  proof (cases "ps_suspended d")
    case True
    note keeps = update_timeout_keeps [OF up [OF True]]
    have "\<not> ps_suspended d'" "ps_initialized d' = ps_initialized d" "ps_wakers d' = ps_wakers d" "wake_pin d'" "irq_enabled d'"
      "bus_log d' = bus_log d2"
      using d2(1-4) keeps by simp_all
    then show ?thesis using d2(5) True by metis
  next
    case False
    then have "d' = d" using assms by (simp add: morse_ps_wakeup_def)
    then show ?thesis using False by simp
  qed
  then show "\<not> ps_suspended d'" "ps_initialized d' = ps_initialized d" "ps_wakers d' = ps_wakers d"
    "if ps_suspended d then wake_pin d' \<and> irq_enabled d' \<and> (\<exists>bs. bus_log d' = bus_log d @ map (Pair True) bs) else d' = d"
    by blast+
qed

text \<open>What \<open>morse_ps_evaluate\<close> takes for a reason to keep the chip awake.\<close>

definition must_be_awake :: "'e chip_env_scheme \<Rightarrow> driver_data \<Rightarrow> bool" where
  "must_be_awake env d \<longleftrightarrow> ps_wakers d \<noteq> 0 \<or> driver_task_notification_is_pending DRV_EVT_MASK_PAGESET d
     \<or> morse_yaps_get_tx_buffered_count d \<noteq> 0
     \<or> driver_is_data_tx_allowed d \<and> \<not> mmosal_time_has_passed (u32 (clock env (ticks d))) (bus_ps_timeout d)"

lemma ps_ok_more:
  "ps_ok d \<Longrightarrow> tx_host.more d' = tx_host.more d \<Longrightarrow> ps_ok d' \<and> ps_suspended d' = ps_suspended d"
  by (auto simp: ps_ok_def dest: host_more_eq)

lemma wakeup_ok:
  assumes "ps_ok d" "morse_ps_wakeup env d = Some d'"
  shows "ps_ok d' \<and> \<not> ps_suspended d'"
  using assms(1) wakeup_awake [OF assms(2)] by (auto simp: ps_ok_def split: if_splits)

lemma sleep_ok: "ps_ok d \<Longrightarrow> ps_ok (morse_ps_sleep d) \<and> ps_suspended (morse_ps_sleep d)"
  by (simp add: ps_ok_def morse_ps_sleep_def)

lemma update_timeout_ok:
  "ps_ok d \<Longrightarrow> morse_ps_update_timeout env ms d = Some d' \<Longrightarrow> ps_ok d' \<and> ps_suspended d' = ps_suspended d"
  by (simp add: ps_ok_def update_timeout_keeps)

lemma ticks_more: "tx_host.more (d\<lparr>ticks := n\<rparr> :: driver_data) = tx_host.more d"
  by (cases d) simp

text \<open>The evaluation once its reasons are known.\<close>

lemma evaluate_cases:
  assumes "ps_ok d" "morse_ps_evaluate env d = Some d'"
  obtains (awake) d2 where "must_be_awake env d" "tx_host.more d2 = tx_host.more d" "morse_ps_wakeup env d2 = Some d'"
  | (idle) d2 where "\<not> must_be_awake env d" "tx_host.more d2 = tx_host.more d"
      "ticks d2 = ticks d + of_bool (driver_is_data_tx_allowed d)"
      "(if busy_is_asserted env (ticks d2) then morse_ps_update_timeout env DEFAULT_BUS_TIMEOUT_MS (tick d2)
        else Some (morse_ps_sleep (tick d2))) = Some d'"
proof -
  define d1 where "d1 = (if morse_yaps_get_tx_buffered_count d = 0 \<and> stale_enabled d then d\<lparr>stale_timer := False\<rparr> else d)"
  define needs where "needs = (ps_wakers d1 \<noteq> 0 \<or> driver_task_notification_is_pending DRV_EVT_MASK_PAGESET d
    \<or> morse_yaps_get_tx_buffered_count d \<noteq> 0)"
  have d1: "tx_host.more d1 = tx_host.more d" "ticks d1 = ticks d" "driver_is_data_tx_allowed d1 = driver_is_data_tx_allowed d"
    "bus_ps_timeout d1 = bus_ps_timeout d" "ps_wakers d1 = ps_wakers d"
    unfolding d1_def
    by (cases d, simp add: driver_is_data_tx_allowed_def driver_task_notification_check_def)+
  define rest where "rest = (\<lambda>(nw, d2). if nw then morse_ps_wakeup env d2
    else (let (busy, d) = mmhal_wlan_busy_is_asserted env d2
          in if busy then morse_ps_update_timeout env DEFAULT_BUS_TIMEOUT_MS d else Some (morse_ps_sleep d)))"
  have eq: "Option.bind (if driver_is_data_tx_allowed d1 then
        (let (now, d) = mmosal_get_time_ms env d1
         in if \<not> mmosal_time_has_passed now (bus_ps_timeout d)
            then do {
              d \<leftarrow> driver_task_schedule_notification_at DRV_EVT_PS_BUS_ACTIVITY_PEND (bus_ps_timeout d) d;
              Some (True, d)
            }
            else Some (needs, d))
      else Some (needs, d1)) rest = Some d'"
    using assms unfolding morse_ps_evaluate_def ps_ok_def Let_def d1_def needs_def rest_def
    by (simp only: not_True_eq_False not_not if_False simp_thms)
  show ?thesis
  proof (cases "driver_is_data_tx_allowed d")
    case allowed: True
    let ?d2 = "d1\<lparr>ticks := ticks d1 + 1\<rparr>"
    have d2: "tx_host.more ?d2 = tx_host.more d" "bus_ps_timeout ?d2 = bus_ps_timeout d"
      by (simp_all add: ticks_more d1)
    show ?thesis
    proof (cases "mmosal_time_has_passed (u32 (clock env (ticks d))) (bus_ps_timeout d)")
      case True
      then have *: "rest (needs, ?d2) = Some d'"
        using eq d1 allowed by (simp add: mmosal_get_time_ms_def)
      show ?thesis
      proof (cases needs)
        case True
        then show ?thesis using * d2(1) by (intro awake [of ?d2]) (auto simp: rest_def must_be_awake_def needs_def d1(5))
      next
        case False
        then show ?thesis
          using * d2(1) d1(2) \<open>mmosal_time_has_passed _ _\<close>
          by (intro idle [of ?d2])
            (auto simp: rest_def split: if_splits simp: must_be_awake_def needs_def d1(5) allowed mmhal_wlan_busy_is_asserted_def)
      qed
    next
      case False
      then obtain d3 where d3: "driver_task_schedule_notification_at DRV_EVT_PS_BUS_ACTIVITY_PEND (bus_ps_timeout d) ?d2 = Some d3"
        "rest (True, d3) = Some d'"
        using eq d1 allowed by (auto simp: mmosal_get_time_ms_def split: bind_splits)
      have "tx_host.more d3 = tx_host.more ?d2"
        using schedule_at_more [OF d3(1)] by (intro driver_more_eq) simp
      then show ?thesis
        using d3(2) d2(1) False allowed by (intro awake [of d3]) (auto simp: rest_def must_be_awake_def)
    qed
  next
    case False
    then have *: "rest (needs, d1) = Some d'" using eq d1 by simp
    show ?thesis
    proof (cases needs)
      case True
      then show ?thesis using * d1(1) by (intro awake [of d1]) (auto simp: rest_def must_be_awake_def needs_def d1(5))
    next
      case no: False
      then show ?thesis
        using * d1(1,2) False
        by (intro idle [of d1]) (auto simp: rest_def split: if_splits simp: must_be_awake_def needs_def d1(5) mmhal_wlan_busy_is_asserted_def)
    qed
  qed
qed

end
