(* ===== verification/Yaps_Hw.thy ===== *)
theory Yaps_Hw
  imports Driver_Ps
begin

unbundle bit_operations_syntax

section \<open>The hardware queues of the chip\<close>

text \<open>
  \<open>driver/morse_driver/mm8108/yaps-hw.c\<close>: a packet is written to the chip behind a delimiter word with its length, pool and a CRC; the
  driver counts the pages and places that are free in the queues of the chip between two readings of its status
  registers. The transport (SDIO or SPI) is a parameter that returns the results of the accesses; the bytes of
  a written packet are those of its delimiter, header and data. Lengths fit \<open>uint32_t\<close>.
\<close>

subsection \<open>Delimiters\<close>

abbreviation (input) EIO :: int where "EIO \<equiv> 5"
abbreviation (input) EAGAIN :: int where "EAGAIN \<equiv> 11"
abbreviation (input) ENOMEM :: int where "ENOMEM \<equiv> 12"
abbreviation (input) EINVAL :: int where "EINVAL \<equiv> 22"
abbreviation (input) ETIMEDOUT :: int where "ETIMEDOUT \<equiv> 116"
abbreviation (input) EMSGSIZE :: int where "EMSGSIZE \<equiv> 122"
abbreviation (input) ENODEV :: int where "ENODEV \<equiv> 19"

abbreviation (input) YAPS_MAX_RX_PAYLOAD :: int where "YAPS_MAX_RX_PAYLOAD \<equiv> 1628"
abbreviation (input) YAPS_MAX_PKT_SIZE_BYTES :: nat where "YAPS_MAX_PKT_SIZE_BYTES \<equiv> 16128"
abbreviation (input) YAPS_METADATA_PAGE_COUNT :: nat where "YAPS_METADATA_PAGE_COUNT \<equiv> 1"
abbreviation (input) YAPS_PHANDLE_CORRUPTION_WAR_EXTRA_PAGE :: nat
  where "YAPS_PHANDLE_CORRUPTION_WAR_EXTRA_PAGE \<equiv> 1"
abbreviation (input) YAPS_PAGE_SIZE :: nat where "YAPS_PAGE_SIZE \<equiv> 256"
abbreviation (input) YAPS_STATUS_REG_READ_TIMEOUT_MS :: nat where "YAPS_STATUS_REG_READ_TIMEOUT_MS \<equiv> 100"
abbreviation (input) MORSE_YAPS_RX_Q :: "32 word" where "MORSE_YAPS_RX_Q \<equiv> 4"
abbreviation (input) MAX_CONSEC_FAILURES :: nat where "MAX_CONSEC_FAILURES \<equiv> 5"

definition YAPS_CALC_PADDING :: "32 word \<Rightarrow> 32 word" where
  "YAPS_CALC_PADDING n = (if n AND 3 \<noteq> 0 then 4 - (n AND 3) else 0)"

definition YAPS_DELIM_GET_PHANDLE_SIZE :: "32 word \<Rightarrow> 32 word" where
  "YAPS_DELIM_GET_PHANDLE_SIZE delim = delim AND 0x3FFF"

definition YAPS_DELIM_GET_POOL_ID :: "32 word \<Rightarrow> 32 word" where
  "YAPS_DELIM_GET_POOL_ID delim = drop_bit 14 delim AND 7"

definition YAPS_DELIM_GET_PADDING :: "32 word \<Rightarrow> 32 word" where
  "YAPS_DELIM_GET_PADDING delim = drop_bit 17 delim AND 3"

definition YAPS_DELIM_GET_IRQ :: "32 word \<Rightarrow> 32 word" where
  "YAPS_DELIM_GET_IRQ delim = drop_bit 19 delim AND 1"

definition YAPS_DELIM_GET_CRC :: "32 word \<Rightarrow> 32 word" where
  "YAPS_DELIM_GET_CRC delim = drop_bit 25 delim AND 0x7F"

definition morse_yaps_delimiter :: "nat \<Rightarrow> nat \<Rightarrow> 32 word \<Rightarrow> bool \<Rightarrow> 32 word" where
  "morse_yaps_delimiter reserved len pool_id irq =
     (let delim = (of_nat len AND 0x3FFF) + of_nat reserved;
          delim = delim OR push_bit 17 (YAPS_CALC_PADDING (of_nat len) AND 3);
          delim = delim OR push_bit 14 (pool_id AND 7);
          delim = delim OR push_bit 19 (of_bool irq AND 1);
          delim = delim OR push_bit 25 (ucast (morse_yaps_crc delim) AND 0x7F)
      in delim)"

definition morse_yaps_is_valid_delimiter :: "32 word \<Rightarrow> bool" where
  "morse_yaps_is_valid_delimiter delim =
     (let calc_crc = morse_yaps_crc delim;
          pkt_size = YAPS_DELIM_GET_PHANDLE_SIZE delim;
          padding = YAPS_DELIM_GET_PADDING delim
      in if ucast calc_crc \<noteq> YAPS_DELIM_GET_CRC delim then False
         else if pkt_size = 0 then False
         else if unat pkt_size + unat padding > YAPS_MAX_PKT_SIZE_BYTES then False
         else if YAPS_CALC_PADDING pkt_size \<noteq> padding then False
         else True)"

subsection \<open>Pages and places in the queues of the chip\<close>

datatype tc_queue = MORSE_YAPS_TX_Q | MORSE_YAPS_CMD_Q | MORSE_YAPS_BEACON_Q | MORSE_YAPS_MGMT_Q

primrec pool_of :: "tc_queue \<Rightarrow> 32 word" where
  "pool_of MORSE_YAPS_TX_Q = 0"
| "pool_of MORSE_YAPS_CMD_Q = 1"
| "pool_of MORSE_YAPS_BEACON_Q = 2"
| "pool_of MORSE_YAPS_MGMT_Q = 3"

definition morse_yaps_pages_required :: "morse_yaps_hw_aux_data \<Rightarrow> tx_pkt \<Rightarrow> nat" where
  "morse_yaps_pages_required hw p =
     (pkt_data_length p + reserved_yaps_page_size hw + YAPS_PAGE_SIZE - 1) div YAPS_PAGE_SIZE
     + YAPS_METADATA_PAGE_COUNT + YAPS_PHANDLE_CORRUPTION_WAR_EXTRA_PAGE"

primrec morse_yaps_hw_get_tc_queue_space :: "tc_queue \<Rightarrow> morse_yaps_hw_aux_data \<Rightarrow> nat" where
  "morse_yaps_hw_get_tc_queue_space MORSE_YAPS_CMD_Q hw = sub32 (tc_cmd_q_size hw) (tc_cmd_num_pkts (status_regs hw))"
| "morse_yaps_hw_get_tc_queue_space MORSE_YAPS_BEACON_Q hw = sub32 (tc_beacon_q_size hw) (tc_beacon_num_pkts (status_regs hw))"
| "morse_yaps_hw_get_tc_queue_space MORSE_YAPS_MGMT_Q hw = sub32 (tc_mgmt_q_size hw) (tc_mgmt_num_pkts (status_regs hw))"
| "morse_yaps_hw_get_tc_queue_space MORSE_YAPS_TX_Q hw = sub32 (tc_tx_q_size hw) (tc_tx_num_pkts (status_regs hw))"

primrec morse_yaps_hw_get_tc_queue_pages :: "tc_queue \<Rightarrow> morse_yaps_hw_aux_data \<Rightarrow> nat" where
  "morse_yaps_hw_get_tc_queue_pages MORSE_YAPS_CMD_Q hw = tc_cmd_pool_num_pages (status_regs hw)"
| "morse_yaps_hw_get_tc_queue_pages MORSE_YAPS_BEACON_Q hw = tc_beacon_pool_num_pages (status_regs hw)"
| "morse_yaps_hw_get_tc_queue_pages MORSE_YAPS_MGMT_Q hw = tc_mgmt_pool_num_pages (status_regs hw)"
| "morse_yaps_hw_get_tc_queue_pages MORSE_YAPS_TX_Q hw = tc_tx_pool_num_pages (status_regs hw)"

definition morse_yaps_will_fit :: "tc_queue \<Rightarrow> tx_pkt \<Rightarrow> morse_yaps_hw_aux_data \<Rightarrow> bool" where
  "morse_yaps_will_fit q p hw =
     (if morse_yaps_hw_get_tc_queue_space q hw = 0 then False
      else morse_yaps_pages_required hw p \<le> morse_yaps_hw_get_tc_queue_pages q hw)"

primrec take_pages :: "tc_queue \<Rightarrow> nat \<Rightarrow> yaps_status_regs \<Rightarrow> yaps_status_regs" where
  "take_pages MORSE_YAPS_TX_Q n r = r\<lparr>tc_tx_pool_num_pages := sub32 (tc_tx_pool_num_pages r) n,
     tc_tx_num_pkts := u32 (tc_tx_num_pkts r + 1)\<rparr>"
| "take_pages MORSE_YAPS_CMD_Q n r = r\<lparr>tc_cmd_pool_num_pages := sub32 (tc_cmd_pool_num_pages r) n,
     tc_cmd_num_pkts := u32 (tc_cmd_num_pkts r + 1)\<rparr>"
| "take_pages MORSE_YAPS_BEACON_Q n r = r\<lparr>tc_beacon_pool_num_pages := sub32 (tc_beacon_pool_num_pages r) n,
     tc_beacon_num_pkts := u32 (tc_beacon_num_pkts r + 1)\<rparr>"
| "take_pages MORSE_YAPS_MGMT_Q n r = r\<lparr>tc_mgmt_pool_num_pages := sub32 (tc_mgmt_pool_num_pages r) n,
     tc_mgmt_num_pkts := u32 (tc_mgmt_num_pkts r + 1)\<rparr>"

definition morse_yaps_update_status_pkt_sent ::
  "tc_queue \<Rightarrow> tx_pkt \<Rightarrow> morse_yaps_hw_aux_data \<Rightarrow> morse_yaps_hw_aux_data option" where
  "morse_yaps_update_status_pkt_sent q p hw = do {
     ensure (morse_yaps_will_fit q p hw);
     Some (hw\<lparr>status_regs := take_pages q (morse_yaps_pages_required hw p) (status_regs hw)\<rparr>)
   }"

fun num_pkts_loop :: "morse_yaps_hw_aux_data \<Rightarrow> nat \<Rightarrow> nat \<Rightarrow> tx_pkt list \<Rightarrow> nat \<Rightarrow> nat \<Rightarrow> nat" where
  "num_pkts_loop hw num_spaces num_pages [] num_pkts pages_needed = num_pkts"
| "num_pkts_loop hw num_spaces num_pages (p # ps) num_pkts pages_needed =
     (if num_pkts \<ge> num_spaces then num_pkts
      else (let pkt_pages = morse_yaps_pages_required hw p
            in if pkt_pages + pages_needed > num_pages then num_pkts
               else num_pkts_loop hw num_spaces num_pages ps (num_pkts + 1) (pages_needed + pkt_pages)))"

definition morse_yaps_hw_get_num_pkts :: "tc_queue \<Rightarrow> tx_pkt list \<Rightarrow> morse_yaps_hw_aux_data \<Rightarrow> nat" where
  "morse_yaps_hw_get_num_pkts q ps hw =
     num_pkts_loop hw (morse_yaps_hw_get_tc_queue_space q hw) (morse_yaps_hw_get_tc_queue_pages q hw) ps 0 0"

subsection \<open>The bus\<close>

definition yaps_hw_lock :: "driver_data \<Rightarrow> int \<times> driver_data" where
  "yaps_hw_lock d = (if access_lock d then (- 1, d) else (0, d\<lparr>access_lock := True\<rparr>))"

definition yaps_hw_unlock :: "driver_data \<Rightarrow> driver_data" where
  "yaps_hw_unlock d = d\<lparr>access_lock := False\<rparr>"

definition morse_hw_pager_update_consec_failure_cnt :: "int \<Rightarrow> driver_data \<Rightarrow> driver_data" where
  "morse_hw_pager_update_consec_failure_cnt ret d =
     (if ret = 0 then d\<lparr>pageset_consec_failure_cnt := 0\<rparr>
      else if ret \<noteq> - EAGAIN \<and> ret \<noteq> - ENOMEM then
        (let d = d\<lparr>pageset_consec_failure_cnt := pageset_consec_failure_cnt d + 1\<rparr>
         in if pageset_consec_failure_cnt d > MAX_CONSEC_FAILURES
            then host Health_Check_Required (d\<lparr>pageset_consec_failure_cnt := 0\<rparr>) else d)
      else d)"

definition morse_yaps_hw_write_pkt_err_check :: "tc_queue \<Rightarrow> tx_pkt \<Rightarrow> morse_yaps_hw_aux_data \<Rightarrow> int" where
  "morse_yaps_hw_write_pkt_err_check q p hw =
     (if pkt_data_length p + reserved_yaps_page_size hw > YAPS_MAX_PKT_SIZE_BYTES then - EMSGSIZE
      else if \<not> morse_yaps_will_fit q p hw then - ENOMEM
      else 0)"

definition morse_yaps_hw_write_pkt ::
  "'e chip_env_scheme \<Rightarrow> tx_pkt \<Rightarrow> tc_queue \<Rightarrow> tx_pkt option \<Rightarrow> driver_data \<Rightarrow> (int \<times> driver_data) option" where
  "morse_yaps_hw_write_pkt env p q next_pkt d =
     (let (ret, d) = yaps_hw_lock d
      in if ret \<noteq> 0 then Some (ret, d)
      else (let ret = morse_yaps_hw_write_pkt_err_check q p (yaps_hw d)
            in if ret \<noteq> 0 then Some (ret, yaps_hw_unlock d)
            else do {
              hw \<leftarrow> morse_yaps_update_status_pkt_sent q p (yaps_hw d);
              let d = d\<lparr>yaps_hw := hw\<rparr>;
              let set_irq = (case next_pkt of None \<Rightarrow> True | Some n \<Rightarrow> \<not> morse_yaps_will_fit q n hw);
              let delim = morse_yaps_delimiter (reserved_yaps_page_size hw) (pkt_data_length p) (pool_of q) set_irq;
              ensure (4 \<le> pk_before p);
              let ret = bus_write env (ticks d);
              Some (ret, yaps_hw_unlock (log_bus (Write_Packet delim p) d))
            }))"

text \<open>Reading a packet: the result is the packet when there is one. The scratch packet of the interface, which takes
  the data when there is no memory, has \<open>YAPS_MAX_RX_PAYLOAD\<close> bytes.\<close>

definition morse_yaps_hw_read_pkt ::
  "'e chip_env_scheme \<Rightarrow> driver_data \<Rightarrow> ((int \<times> nat list option) \<times> driver_data) option" where
  "morse_yaps_hw_read_pkt env d =
     (let (ret, d) = yaps_hw_lock d
      in if ret \<noteq> 0 then Some ((ret, None), d)
      else (let (ret, delim) = bus_delim env (ticks d); d = log_bus Read_Delimiter d
            in if ret \<noteq> 0 then Some ((ret, None), yaps_hw_unlock d)
            else if delim = 0 then Some ((0, None), yaps_hw_unlock d)
            else if \<not> morse_yaps_is_valid_delimiter delim then Some ((- EIO, None), yaps_hw_unlock d)
            else (let pkt_len = int (unat (YAPS_DELIM_GET_PHANDLE_SIZE delim)) - int (reserved_yaps_page_size (yaps_hw d));
                      total_len = pkt_len + int (unat (YAPS_DELIM_GET_PADDING delim))
                  in do {
                    ensure (total_len \<le> YAPS_MAX_RX_PAYLOAD);
                    let n = nat (total_len mod 2 ^ 32);
                    let have_mem = alloc_rx env (ticks d) n;
                    let d = tick d;
                    (if \<not> have_mem \<and> YAPS_DELIM_GET_POOL_ID delim \<noteq> MORSE_YAPS_RX_Q
                     then Some ((- ENOMEM, None), yaps_hw_unlock d)
                     else do {
                       ensure (have_mem \<or> int n \<le> YAPS_MAX_RX_PAYLOAD);
                       let (ret, bytes) = bus_read env (ticks d);
                       let d = log_bus (Read_Packet n) d;
                       (if ret \<noteq> 0 then Some ((ret, None), yaps_hw_unlock d)
                        else if \<not> have_mem then Some ((- ENOMEM, None), yaps_hw_unlock d)
                        else Some ((0, Some (take n (bytes @ replicate n 0))), yaps_hw_unlock d))
                     })
                  })))"

partial_function (option) status_loop ::
  "'e chip_env_scheme \<Rightarrow> nat \<Rightarrow> driver_data \<Rightarrow> (int \<times> driver_data) option" where
  "status_loop env limit d =
     (let (now, d) = mmosal_get_time_ms env d
      in if mmosal_time_has_passed now limit then Some (- ETIMEDOUT, d)
      else (let (ret, regs, lock) = bus_status env (ticks d);
                d = log_bus Read_Status (d\<lparr>yaps_hw := (yaps_hw d)\<lparr>status_regs := regs\<rparr>\<rparr>)
            in if ret = 0 \<and> lock \<noteq> 0 then status_loop env limit d else Some (ret, d)))"

definition morse_yaps_hw_update_status ::
  "'e chip_env_scheme \<Rightarrow> driver_data \<Rightarrow> (int \<times> driver_data) option" where
  "morse_yaps_hw_update_status env d =
     (let (ret, d) = yaps_hw_lock d
      in if ret \<noteq> 0 then Some (ret, d)
      else (let (now, d) = mmosal_get_time_ms env d in do {
              (ret, d) \<leftarrow> status_loop env (u32 (now + YAPS_STATUS_REG_READ_TIMEOUT_MS)) d;
              (if ret \<noteq> 0 then Some (ret, yaps_hw_unlock (host Health_Check_Required d))
               else (let regs = status_regs (yaps_hw d);
                         ret = (if tc_delim_crc_fail_detected regs \<noteq> 0 then - EIO else 0);
                         d = (if fc_num_pkts regs \<noteq> 0 \<and> ret = 0
                              then driver_task_notify_event DRV_EVT_RX_PEND d else d)
                     in Some (ret, yaps_hw_unlock d)))
            }))"

end
