(* ===== verification/Yaps.thy ===== *)
theory Yaps
  imports Yaps_Hw
begin

section \<open>The YAPS interface\<close>

text \<open>
  \<open>driver/morse_driver/mm8108/yaps.c\<close>, with the part of \<open>skbq.c\<close> that goes over several queues: moving packets from the
  queues to the chip, receiving packets and reports, and the work of the interface for the pending events. The
  event handlers for commands, beacons and management frames are one function of the queue. Claiming
  the bus has no effect here, since only this task uses it.
\<close>

subsection \<open>The queues of the interface\<close>

abbreviation (input) MAX_PKTS_PER_RX_TXN :: nat where "MAX_PKTS_PER_RX_TXN \<equiv> 32"

datatype queue_id = Data_Q nat | Beacon_Q | Mgmt_Q | Cmd_Q

primrec get_q :: "queue_id \<Rightarrow> driver_data \<Rightarrow> morse_skbq" where
  "get_q (Data_Q i) d = data_tx_qs d ! i"
| "get_q Beacon_Q d = beacon_q d"
| "get_q Mgmt_Q d = mgmt_q d"
| "get_q Cmd_Q d = cmd_q d"

primrec put_q :: "queue_id \<Rightarrow> morse_skbq \<Rightarrow> driver_data \<Rightarrow> driver_data" where
  "put_q (Data_Q i) mq d = d\<lparr>data_tx_qs := (data_tx_qs d)[i := mq]\<rparr>"
| "put_q Beacon_Q mq d = d\<lparr>beacon_q := mq\<rparr>"
| "put_q Mgmt_Q mq d = d\<lparr>mgmt_q := mq\<rparr>"
| "put_q Cmd_Q mq d = d\<lparr>cmd_q := mq\<rparr>"

definition dot11_tid_to_ac :: "nat \<Rightarrow> nat" where
  "dot11_tid_to_ac tid =
     (if tid = 1 \<or> tid = 2 then 1 else if tid = 4 \<or> tid = 5 then 2 else if tid = 6 \<or> tid = 7 then 3 else 0)"

definition skbq_yaps_tc_q_from_aci :: "nat \<Rightarrow> queue_id option" where
  "skbq_yaps_tc_q_from_aci aci = (if 4 \<le> aci then None else Some (Data_Q aci))"

definition morse_skbq_match_tx_status_to_skbq :: "morse_skb_tx_status \<Rightarrow> queue_id option" where
  "morse_skbq_match_tx_status_to_skbq sts =
     (if ts_channel sts \<in> {MORSE_SKB_CHAN_DATA, MORSE_SKB_CHAN_DATA_NOACK, MORSE_SKB_CHAN_LOOPBACK}
      then skbq_yaps_tc_q_from_aci (dot11_tid_to_ac (ts_tid sts))
      else if ts_channel sts = MORSE_SKB_CHAN_MGMT then Some Mgmt_Q
      else if ts_channel sts = MORSE_SKB_CHAN_BEACON then Some Beacon_Q
      else None)"

subsection \<open>Packets to the chip\<close>

definition next_packet :: "tx_pkt list \<Rightarrow> tx_pkt option" where
  "next_packet ps = (case ps of [] \<Rightarrow> None | p # _ \<Rightarrow> Some p)"

fun tx_loop ::
  "'e chip_env_scheme \<Rightarrow> tc_queue \<Rightarrow> tx_pkt list \<Rightarrow> tx_pkt list \<Rightarrow> tx_pkt list \<Rightarrow> int \<Rightarrow> driver_data
    \<Rightarrow> (tx_pkt list \<times> tx_pkt list \<times> int \<times> driver_data) option" where
  "tx_loop env q [] sent failed ret d = Some (sent, failed, ret, d)"
| "tx_loop env q (p # ps) sent failed ret d = do {
     (ret, d) \<leftarrow> morse_yaps_hw_write_pkt env p q (next_packet ps) d;
     let d = morse_hw_pager_update_consec_failure_cnt ret d;
     (if ret = - ENOMEM then Some (sent, failed @ p # ps, ret, d)
      else if ret = 0 then tx_loop env q ps (sent @ [p]) failed ret d
      else tx_loop env q ps sent (failed @ [p]) ret d)
   }"

definition tc_queue_of :: "nat \<Rightarrow> tc_queue" where
  "tc_queue_of channel =
     (if channel = MORSE_SKB_CHAN_COMMAND then MORSE_YAPS_CMD_Q
      else if channel = MORSE_SKB_CHAN_BEACON then MORSE_YAPS_BEACON_Q
      else if channel = MORSE_SKB_CHAN_MGMT then MORSE_YAPS_MGMT_Q
      else MORSE_YAPS_TX_Q)"

definition morse_yaps_tx :: "'e chip_env_scheme \<Rightarrow> queue_id \<Rightarrow> driver_data \<Rightarrow> (int \<times> driver_data) option" where
  "morse_yaps_tx env qi d =
     (case mq_skbq (get_q qi d) of
        [] \<Rightarrow> Some (0, d)
      | p # _ \<Rightarrow>
          (let mq = get_q qi d;
               (_, mq, d) = (if qi = Cmd_Q then purge_pending mq d else (0, mq, d));
               q = tc_queue_of (pkt_channel p);
               (_, mq, d) = morse_skbq_drop_stale_pkts env mq d;
               num_items = morse_yaps_hw_get_num_pkts q (mq_skbq mq) (yaps_hw d);
               to_send = take num_items (mq_skbq mq);
               mq = mq\<lparr>mq_skbq := drop num_items (mq_skbq mq)\<rparr>
           in do {
             (sent, failed, ret, d) \<leftarrow> tx_loop env q to_send [] [] 0 d;
             let d = release_all failed d;
             let (mq, d) = morse_skbq_tx_complete sent mq d;
             Some (ret, put_q qi mq d)
           }))"

text \<open>The loop over the access categories, from the highest; the count of packets left is carried along.\<close>

fun tx_data_loop :: "'e chip_env_scheme \<Rightarrow> nat list \<Rightarrow> nat \<Rightarrow> driver_data \<Rightarrow> (nat \<times> driver_data) option" where
  "tx_data_loop env [] left d = Some (left, d)"
| "tx_data_loop env (aci # acis) left d =
     (if \<not> driver_is_data_tx_allowed d then Some (left, d)
      else do {
        (ret, d) \<leftarrow> morse_yaps_tx env (Data_Q aci) d;
        let d = d\<lparr>chip_queue_full := (ret \<noteq> 0)\<rparr>;
        let left = left + morse_skbq_count (get_q (Data_Q aci) d);
        (if chip_queue_full d then Some (left, d) else tx_data_loop env acis left d)
      })"

definition morse_yaps_tx_data_handler :: "'e chip_env_scheme \<Rightarrow> driver_data \<Rightarrow> (bool \<times> driver_data) option" where
  "morse_yaps_tx_data_handler env d = do {
     (left, d) \<leftarrow> tx_data_loop env [3, 2, 1, 0] 0 d;
     Some (0 < left \<and> driver_is_data_tx_allowed d, d)
   }"

definition morse_yaps_tx_handler :: "'e chip_env_scheme \<Rightarrow> queue_id \<Rightarrow> driver_data \<Rightarrow> (bool \<times> driver_data) option" where
  "morse_yaps_tx_handler env qi d = do {
     (ret, d) \<leftarrow> morse_yaps_tx env qi d;
     Some (0 < morse_skbq_count (get_q qi d), d)
   }"

subsection \<open>Packets from the chip\<close>

definition le16_at :: "nat list \<Rightarrow> nat \<Rightarrow> nat" where
  "le16_at bs i = bs ! i + 256 * bs ! (i + 1)"

definition le32_at :: "nat list \<Rightarrow> nat \<Rightarrow> nat" where
  "le32_at bs i = le16_at bs i + 65536 * le16_at bs (i + 2)"

text \<open>A status of 32 bytes, with \<open>i\<close> the index of its first byte.\<close>

definition tx_status_at :: "nat list \<Rightarrow> nat \<Rightarrow> morse_skb_tx_status" where
  "tx_status_at bs i =
     \<lparr>ts_flags = le32_at bs i, ts_pkt_id = le32_at bs (i + 4), ts_tid = bs ! (i + 8), ts_channel = bs ! (i + 9),
      ts_rates = map (\<lambda>k. \<lparr>sr_morse_rc = le32_at bs (i + 12 + 5 * k), sr_count = bs ! (i + 16 + 5 * k)\<rparr>) [0..<4]\<rparr>"

fun tx_status_loop :: "'e chip_env_scheme \<Rightarrow> morse_skb_tx_status list \<Rightarrow> driver_data \<Rightarrow> driver_data option" where
  "tx_status_loop env [] d = Some d"
| "tx_status_loop env (sts # stss) d =
     (case morse_skbq_match_tx_status_to_skbq sts of
        None \<Rightarrow> tx_status_loop env stss d
      | Some qi \<Rightarrow> do {
          (_, mq, d) \<leftarrow> tx_status_one env sts (get_q qi d) d;
          tx_status_loop env stss (put_q qi mq d)
        })"

definition notify_if_idle :: "driver_data \<Rightarrow> driver_data" where
  "notify_if_idle d =
     (if \<not> ps_suspended d \<and> morse_yaps_get_tx_buffered_count d = 0
      then driver_task_notify_event DRV_EVT_PS_DELAYED_EVAL_PEND d else d)"

definition morse_skbq_tx_status_process :: "'e chip_env_scheme \<Rightarrow> nat list \<Rightarrow> driver_data \<Rightarrow> driver_data option" where
  "morse_skbq_tx_status_process env bs d = do {
     d \<leftarrow> tx_status_loop env (map (\<lambda>k. tx_status_at bs (TX_STATUS_LEN * k)) [0..<length bs div TX_STATUS_LEN]) d;
     Some (notify_if_idle d)
   }"

definition morse_skbq_process_rx :: "'e chip_env_scheme \<Rightarrow> nat list \<Rightarrow> driver_data \<Rightarrow> driver_data option" where
  "morse_skbq_process_rx env bs d = do {
     ensure (SKB_HEADER_LEN \<le> length bs);
     let channel = bs ! 1;
     let bs = drop SKB_HEADER_LEN bs;
     (if channel = MORSE_SKB_CHAN_COMMAND then Some (host (Cmd_Response bs) d)
      else if channel = MORSE_SKB_CHAN_TX_STATUS then morse_skbq_tx_status_process env bs d
      else if channel = MORSE_SKB_CHAN_LOOPBACK then Some d
      else Some (host (Rx_Frame channel bs) d))
   }"

text \<open>The exclusive or of the first words of a packet, without the three bytes of the checksum, which are cleared.
  The result says whether the checksum is right.\<close>

definition morse_validate_skb_checksum :: "nat list \<Rightarrow> (bool \<times> nat list) option" where
  "morse_validate_skb_checksum bs = do {
     ensure (8 \<le> length bs);
     let len = u16 (le16_at bs 2 + SKB_HEADER_LEN);
     let header_checksum = le16_at bs 6 * 256 + bs ! 5;
     len \<leftarrow> (if bs ! 1 = MORSE_SKB_CHAN_DATA then do {
                ensure (SKB_HEADER_LEN + 2 \<le> length bs);
                let fc = le16_at bs SKB_HEADER_LEN;
                (if fc mod 4 = 0 \<and> fc div 4 mod 4 = 2
                 then (let len = min len (SKB_HEADER_LEN + 40) in Some (len - len mod 4))
                 else Some len)
              }
              else Some len);
     let bs = bs[5 := 0, 6 := 0, 7 := 0];
     let words = (len + 3) div 4;
     ensure (4 * words \<le> length bs);
     let checksum = fold (\<lambda>i c. xor c (le32_at bs (4 * i))) [0..<words] 0 mod 2 ^ 24;
     Some (checksum = header_checksum, bs)
   }"

definition yaps_read_pkt :: "'e chip_env_scheme \<Rightarrow> driver_data \<Rightarrow> (bool \<times> driver_data) option" where
  "yaps_read_pkt env d = do {
     ((ret, pkt), d) \<leftarrow> morse_yaps_hw_read_pkt env d;
     (ret, more_packets, d) \<leftarrow>
       (case pkt of
          None \<Rightarrow> Some (ret, ret \<noteq> 0, d)
        | Some bs \<Rightarrow> do {
            ensure (8 \<le> length bs);
            (let d = snd (mmosal_get_time_ms env d)
             in if bs ! 0 \<noteq> MORSE_SKB_HEADER_SYNC then Some (- EIO, False, d)
             else do {
               (valid, bs) \<leftarrow> (if validate_skb_checksum d then morse_validate_skb_checksum bs else Some (True, bs));
               (if \<not> valid \<and> bs ! 1 \<noteq> MORSE_SKB_CHAN_TX_STATUS then Some (- EIO, False, d)
                else if bs ! 1 \<notin> {MORSE_SKB_CHAN_DATA, MORSE_SKB_CHAN_NDP_FRAMES, MORSE_SKB_CHAN_TX_STATUS,
                    MORSE_SKB_CHAN_DATA_NOACK, MORSE_SKB_CHAN_BEACON, MORSE_SKB_CHAN_MGMT,
                    MORSE_SKB_CHAN_LOOPBACK, MORSE_SKB_CHAN_COMMAND}
                then Some (- EIO, False, d)
                else do {
                  let mmpkt_len = SKB_HEADER_LEN + bs ! 4 + le16_at bs 2;
                  ensure (mmpkt_len \<le> length bs);
                  d \<leftarrow> morse_skbq_process_rx env (take mmpkt_len bs) d;
                  Some (0, True, d)
                })
             })
          });
     Some (more_packets, morse_hw_pager_update_consec_failure_cnt ret d)
   }"

fun rx_loop :: "'e chip_env_scheme \<Rightarrow> nat \<Rightarrow> driver_data \<Rightarrow> (bool \<times> driver_data) option" where
  "rx_loop env n d = do {
     (more_packets, d) \<leftarrow> yaps_read_pkt env d;
     (case n of
        0 \<Rightarrow> Some (more_packets, d)
      | Suc m \<Rightarrow> if more_packets then rx_loop env m d else Some (more_packets, d))
   }"

definition morse_yaps_rx_handler :: "'e chip_env_scheme \<Rightarrow> driver_data \<Rightarrow> (bool \<times> driver_data) option" where
  "morse_yaps_rx_handler env d = rx_loop env (MAX_PKTS_PER_RX_TXN - 1) d"

subsection \<open>The work of the interface\<close>

fun stale_loop :: "'e chip_env_scheme \<Rightarrow> queue_id list \<Rightarrow> nat \<Rightarrow> driver_data \<Rightarrow> (nat \<times> driver_data) option" where
  "stale_loop env [] flushed d = Some (flushed, d)"
| "stale_loop env (qi # qis) flushed d = do {
     (n, mq, d) \<leftarrow> morse_skbq_check_for_stale_tx env (get_q qi d) d;
     stale_loop env qis (flushed + n) (put_q qi mq d)
   }"

definition morse_yaps_stale_tx_work :: "'e chip_env_scheme \<Rightarrow> driver_data \<Rightarrow> driver_data option" where
  "morse_yaps_stale_tx_work env d =
     (let (pending, d) = driver_task_notification_check_and_clear DRV_EVT_STALE_TX_STATUS_PEND d
      in if \<not> pending \<or> \<not> chip_if d \<or> \<not> stale_enabled d then Some d
      else do {
        (flushed, d) \<leftarrow> stale_loop env [Beacon_Q, Mgmt_Q, Data_Q 0, Data_Q 1, Data_Q 2, Data_Q 3] 0 d;
        Some (if flushed \<noteq> 0 then notify_if_idle d else d)
      })"

text \<open>A queue handled when its event is pending: if packets are left, the event is scheduled again.\<close>

definition tx_step ::
  "'e chip_env_scheme \<Rightarrow> nat \<Rightarrow> nat \<Rightarrow> ('e chip_env_scheme \<Rightarrow> driver_data \<Rightarrow> (bool \<times> driver_data) option)
    \<Rightarrow> driver_data \<Rightarrow> (bool \<times> driver_data) option" where
  "tx_step env evt again_ms handler d =
     (let (pending, d) = driver_task_notification_check_and_clear evt d
      in if pending then do {
           (more, d) \<leftarrow> handler env d;
           d \<leftarrow> (if more then driver_task_schedule_notification env evt again_ms d else Some d);
           Some (True, d)
         }
         else Some (False, d))"

definition when_event :: "nat \<Rightarrow> (driver_data \<Rightarrow> driver_data) \<Rightarrow> driver_data \<Rightarrow> driver_data" where
  "when_event evt f d =
     (let (pending, d) = driver_task_notification_check_and_clear evt d in if pending then f d else d)"

definition morse_yaps_work_tx :: "'e chip_env_scheme \<Rightarrow> bool \<Rightarrow> driver_data \<Rightarrow> driver_data option" where
  "morse_yaps_work_tx env network_activity d = do {
     (_, d) \<leftarrow> tx_step env DRV_EVT_TX_COMMAND_PEND 10 (\<lambda>env. morse_yaps_tx_handler env Cmd_Q) d;
     (_, d) \<leftarrow> tx_step env DRV_EVT_TX_BEACON_PEND 1 (\<lambda>env. morse_yaps_tx_handler env Beacon_Q) d;
     (mgmt, d) \<leftarrow> tx_step env DRV_EVT_TX_MGMT_PEND 2 (\<lambda>env. morse_yaps_tx_handler env Mgmt_Q) d;
     let d = when_event DRV_EVT_TRAFFIC_PAUSE_PEND morse_skbq_data_traffic_pause d;
     let d = when_event DRV_EVT_TRAFFIC_PAUSE_TIMEOUT
       (\<lambda>d. driver_task_notify_event DRV_EVT_TRAFFIC_RESUME_PEND (host (Set_Tx_Paused False) d)) d;
     let d = when_event DRV_EVT_TRAFFIC_RESUME_PEND morse_skbq_data_traffic_resume d;
     let d = when_event DRV_EVT_TX_PACKET_FREED_UP_PEND (\<lambda>d. d\<lparr>chip_queue_full := False\<rparr>) d;
     (data, d) \<leftarrow> (if chip_queue_full d then Some (False, d)
                   else tx_step env DRV_EVT_TX_DATA_PEND 2 morse_yaps_tx_data_handler d);
     (if network_activity \<or> mgmt \<or> data then morse_ps_network_activity env d else Some d)
   }"

definition morse_yaps_work :: "'e chip_env_scheme \<Rightarrow> driver_data \<Rightarrow> driver_data option" where
  "morse_yaps_work env d =
     (if \<not> driver_task_notification_is_pending DRV_EVT_MASK_PAGESET d then Some d
      else if \<not> chip_if d then Some d
      else do {
        d \<leftarrow> morse_ps_disable env PS_WAKER_PAGESET d;
        (let (rx, d) = driver_task_notification_check_and_clear DRV_EVT_RX_PEND d in do {
           d \<leftarrow> (if rx then do {
                    (more, d) \<leftarrow> morse_yaps_rx_handler env d;
                    Some (if more then driver_task_notify_event DRV_EVT_RX_PEND d else d)
                  }
                  else Some d);
           (rc, d) \<leftarrow> (if driver_task_notification_is_pending DRV_EVT_TX_MASK d then do {
                          (rc, d) \<leftarrow> morse_yaps_hw_update_status env d;
                          Some (rc, morse_hw_pager_update_consec_failure_cnt rc d)
                        }
                        else Some (0, d));
           d \<leftarrow> (if rc \<noteq> 0 then Some d else morse_yaps_work_tx env rx d);
           morse_ps_enable env PS_WAKER_PAGESET d
         })
      })"

definition morse_yaps_init :: "driver_data \<Rightarrow> driver_data" where
  "morse_yaps_init d =
     d\<lparr>beacon_q := morse_skbq_init MORSE_CHIP_IF_FLAGS_DATA, mgmt_q := morse_skbq_init MORSE_CHIP_IF_FLAGS_DATA,
       data_tx_qs := replicate 4 (morse_skbq_init MORSE_CHIP_IF_FLAGS_DATA),
       cmd_q := morse_skbq_init MORSE_CHIP_IF_FLAGS_COMMAND\<rparr>"

fun finish_loop :: "queue_id list \<Rightarrow> driver_data \<Rightarrow> driver_data" where
  "finish_loop [] d = d"
| "finish_loop (qi # qis) d =
     (let (mq, d) = morse_skbq_finish (get_q qi d) d in finish_loop qis (put_q qi mq d))"

definition morse_yaps_finish :: "driver_data \<Rightarrow> driver_data" where
  "morse_yaps_finish d = finish_loop [Beacon_Q, Mgmt_Q, Data_Q 0, Data_Q 1, Data_Q 2, Data_Q 3, Cmd_Q] d"

end
