(* ===== verification/Driver_Loop.thy ===== *)
theory Driver_Loop
  imports Yaps
begin

section \<open>The driver task\<close>

text \<open>
  The loop of \<open>driver/driver_task.c\<close> over the work of power save, beacons and the YAPS interface, the entry for frames of the UMAC
  (\<open>mmdrv_tx_frame\<close>), the work for beacons (\<open>driver/beacon/beacon.c\<close>) and the control of traffic by the chip (\<open>driver/morse_driver/event.c\<close>). The inner
  loop is a partial function: nothing in the code bounds it.
\<close>

subsection \<open>Frames from the UMAC, beacons and events of the chip\<close>

definition mmdrv_tx_frame ::
  "'e chip_env_scheme \<Rightarrow> tx_pkt \<Rightarrow> bool \<Rightarrow> driver_data \<Rightarrow> driver_data option" where
  "mmdrv_tx_frame env p is_mgmt d =
     (let p = p\<lparr>pk_meta := pk_meta p\<lparr>tm_status_flags := 0x10, tm_attempts := 0\<rparr>\<rparr>
      in if \<not> started d then Some (mmdrv_host_process_tx_status p d)
      else (let aci = dot11_tid_to_ac (tm_tid (pk_meta p));
                (qi, channel) =
                  (if is_mgmt then (Mgmt_Q, MORSE_SKB_CHAN_MGMT)
                   else if has_flag (tm_flags (pk_meta p)) 0x10 then (Data_Q aci, MORSE_SKB_CHAN_DATA_NOACK)
                   else (Data_Q aci, MORSE_SKB_CHAN_DATA))
            in do {
              (mq, d) \<leftarrow> morse_skbq_mmpkt_tx env channel p (get_q qi d) d;
              Some (put_q qi mq d)
            }))"

definition morse_beacon_work :: "'e chip_env_scheme \<Rightarrow> driver_data \<Rightarrow> driver_data option" where
  "morse_beacon_work env d =
     (if \<not> beacon_work_fn d then Some d
      else (let (pending, d) = driver_task_notification_check_and_clear DRV_EVT_BEACON_REQ_PEND d
            in if \<not> pending \<or> \<not> beacon_enabled d then Some d
            else (case beacon_of env (ticks d) of
                    None \<Rightarrow> Some (tick d)
                  | Some p \<Rightarrow> do {
                      (mq, d) \<leftarrow> morse_skbq_mmpkt_tx env MORSE_SKB_CHAN_BEACON p (beacon_q d) (tick d);
                      Some (d\<lparr>beacon_q := mq\<rparr>)
                    })))"

definition handle_umac_traffic_control ::
  "'e chip_env_scheme \<Rightarrow> bool \<Rightarrow> nat \<Rightarrow> nat \<Rightarrow> driver_data \<Rightarrow> driver_data option" where
  "handle_umac_traffic_control env pause_data_traffic sources duty_cycle d =
     (if pause_data_traffic then
        (let d = driver_task_notify_event DRV_EVT_TRAFFIC_PAUSE_PEND (host (Set_Tx_Paused True) d)
         in if tx_max_pause_time_ms d \<noteq> 0 \<and> and sources duty_cycle = duty_cycle
            then driver_task_schedule_notification env DRV_EVT_TRAFFIC_PAUSE_TIMEOUT (tx_max_pause_time_ms d) d
            else Some d)
      else
        (let (_, d) = driver_task_notification_check_and_clear DRV_EVT_TRAFFIC_PAUSE_TIMEOUT d;
             (_, d) = driver_task_drop_scheduled_event DRV_EVT_TRAFFIC_PAUSE_TIMEOUT d;
             d = driver_task_notify_event DRV_EVT_TRAFFIC_RESUME_PEND d
         in Some (host (Set_Tx_Paused False) d)))"

subsection \<open>The loop of the driver task\<close>

text \<open>
  Interrupts and other tasks raise events at the head of the loop over the pending events. A turn of this
  loop says whether the task shuts down.
\<close>

definition raise_events :: "'e chip_env_scheme \<Rightarrow> driver_data \<Rightarrow> driver_data" where
  "raise_events env d = fold driver_task_notify_event_from_isr (raised_events env (ticks d)) (tick d)"

definition driver_turn :: "'e chip_env_scheme \<Rightarrow> driver_data \<Rightarrow> (bool \<times> driver_data) option" where
  "driver_turn env d =
     (let (stopped, d) = driver_task_notification_check_and_clear DRV_EVT_STOP_NOTICATION d;
          d = (if stopped then host Hw_Restart_Required (coredump_log_assert_info env d) else d)
      in if driver_task_notification_check DRV_EVT_SHUTDOWN d then Some (True, d)
      else do {
        d \<leftarrow> morse_ps_work env d;
        d \<leftarrow> morse_beacon_work env d;
        d \<leftarrow> morse_yaps_work env d;
        d \<leftarrow> morse_yaps_stale_tx_work env d;
        Some (False, d)
      })"

partial_function (option) driver_drain :: "'e chip_env_scheme \<Rightarrow> driver_data \<Rightarrow> (bool \<times> driver_data) option" where
  "driver_drain env d =
     (let d = raise_events env d
      in if pending_evts d = 0 then Some (False, d)
      else do {
        (shutting_down, d) \<leftarrow> driver_turn env d;
        (if shutting_down then Some (True, d) else driver_drain env d)
      })"

text \<open>One round of the task: the result is \<open>None\<close> when it shuts down, else how long it waits.\<close>

definition driver_task_round ::
  "'e chip_env_scheme \<Rightarrow> driver_data \<Rightarrow> (int option \<times> driver_data) option" where
  "driver_task_round env d = do {
     let d = driver_task_process_scheduled_evts env d;
     (shutting_down, d) \<leftarrow> driver_drain env d;
     (if shutting_down then Some (None, d\<lparr>dt_task := False, dt_running := False\<rparr>)
      else (let (ms, d) = driver_task_wait_ms env d in Some (Some ms, d)))
   }"

subsection \<open>Stopping the task\<close>

text \<open>Another task raises the event and waits until the driver task is no longer running; meanwhile the driver
  task goes on with its rounds.\<close>

partial_function (option) stop_wait :: "'e chip_env_scheme \<Rightarrow> driver_data \<Rightarrow> driver_data option" where
  "stop_wait env d =
     (if dt_running d then do {
        (_, d) \<leftarrow> driver_task_round env d;
        stop_wait env d
      }
      else Some d)"

definition driver_task_stop :: "'e chip_env_scheme \<Rightarrow> driver_data \<Rightarrow> driver_data option" where
  "driver_task_stop env d =
     (if \<not> dt_running d then Some d
      else do {
        d \<leftarrow> stop_wait env (driver_task_notify_event DRV_EVT_SHUTDOWN d);
        Some (d\<lparr>dt_semb := False\<rparr>)
      })"

lemma raise_keeps: "bit (pending_evts d) e \<Longrightarrow> bit (pending_evts (raise_events env d)) e"
proof -
  have "bit (pending_evts d) e \<Longrightarrow> bit (pending_evts (fold driver_task_notify_event_from_isr es d)) e" for es and d :: driver_data
    by (induction es arbitrary: d) (auto simp: driver_task_notify_event_from_isr_def bit_simps)
  then show "bit (pending_evts d) e \<Longrightarrow> ?thesis" by (simp add: raise_events_def tick_def)
qed

lemma process_keeps:
  "bit (pending_evts d) e \<Longrightarrow> bit (pending_evts (driver_task_process_scheduled_evts env (d :: driver_data))) e"
proof -
  have "process_evts env es d = (es', d') \<Longrightarrow> bit (pending_evts d) e \<Longrightarrow> bit (pending_evts d') e" for es es' and d d' :: driver_data
  proof (induction es arbitrary: d es')
    case (Cons x es)
    obtain f t where x: "x = (f, t)" by fastforce
    from Cons.prems show ?case
      by (auto simp: x mmosal_get_time_ms_def Let_def bit_simps split: prod.splits if_splits dest!: Cons.IH)
  qed simp
  then show "bit (pending_evts d) e \<Longrightarrow> ?thesis" by (auto simp: driver_task_process_scheduled_evts_def split: prod.splits)
qed

text \<open>Whatever is pending and whatever the chip does, the next round of the task is its last: stopping always returns.\<close>

lemma shutdown_round:
  assumes "bit (pending_evts d) DRV_EVT_SHUTDOWN"
  shows "\<exists>d'. driver_task_round env d = Some (None, d') \<and> \<not> dt_running d' \<and> \<not> dt_task d'"
proof -
  let ?d = "raise_events env (driver_task_process_scheduled_evts env d)"
  have s: "bit (pending_evts ?d) DRV_EVT_SHUTDOWN" using assms raise_keeps process_keeps by blast
  then have "pending_evts ?d \<noteq> 0" by (metis bit_0_eq bot_apply bot_bool_def)
  moreover obtain b d1 where c: "driver_task_notification_check_and_clear DRV_EVT_STOP_NOTICATION ?d = (b, d1)" by fastforce
  then have "bit (pending_evts d1) DRV_EVT_SHUTDOWN" using s by (auto simp: driver_task_notification_check_and_clear_def bit_simps)
  then have "driver_turn env ?d = Some (True, if b then host Hw_Restart_Required (coredump_log_assert_info env d1) else d1)"
    by (simp add: driver_turn_def c Let_def driver_task_notification_check_def host_def)
  ultimately have "\<exists>d2. driver_drain env (driver_task_process_scheduled_evts env d) = Some (True, d2)"
    by (subst driver_drain.simps) (simp add: Let_def)
  then show ?thesis by (auto simp: driver_task_round_def)
qed

lemma driver_task_stop_returns: "\<exists>d'. driver_task_stop env d = Some d' \<and> \<not> dt_running d'"
proof (cases "dt_running d")
  case True
  have "bit (pending_evts (driver_task_notify_event DRV_EVT_SHUTDOWN d)) DRV_EVT_SHUTDOWN"
    by (simp add: driver_task_notify_event_def bit_simps)
  from shutdown_round [OF this, of env] obtain d' where d': "driver_task_round env (driver_task_notify_event DRV_EVT_SHUTDOWN d) = Some (None, d')"
    "\<not> dt_running d'" by blast
  then have "stop_wait env (driver_task_notify_event DRV_EVT_SHUTDOWN d) = Some d'"
    using True by (subst stop_wait.simps) (simp add: driver_task_notify_event_def, subst stop_wait.simps, simp)
  then show ?thesis using True d'(2) by (simp add: driver_task_stop_def)
qed (simp add: driver_task_stop_def)

end
