(* ===== verification/Yaps_Correct.thy ===== *)
theory Yaps_Correct
  imports Yaps
begin

unbundle bit_operations_syntax

section \<open>Correctness of the YAPS interface\<close>

text \<open>
  What the bookkeeping of pages guarantees for a burst of packets, what becomes of packets that the chip
  returns, and that delimiters are read as they were written.
\<close>

subsection \<open>A burst of packets fits into the chip\<close>

definition burst_fits :: "tc_queue \<Rightarrow> tx_pkt list \<Rightarrow> morse_yaps_hw_aux_data \<Rightarrow> bool" where
  "burst_fits q ps hw \<longleftrightarrow> length ps \<le> morse_yaps_hw_get_tc_queue_space q hw
     \<and> sum_list (map (morse_yaps_pages_required hw) ps) \<le> morse_yaps_hw_get_tc_queue_pages q hw
     \<and> morse_yaps_hw_get_tc_queue_pages q hw < 2 ^ 32"

lemma num_pkts_loop_fits:
  assumes "n \<le> sp" "need \<le> pg"
  shows "\<exists>k\<le>length ps. num_pkts_loop hw sp pg ps n need = n + k \<and> n + k \<le> sp
    \<and> need + sum_list (map (morse_yaps_pages_required hw) (take k ps)) \<le> pg"
  using assms
proof (induction hw sp pg ps n need rule: num_pkts_loop.induct)
  case (2 hw sp pg p ps n need)
  show ?case
  proof (cases "n \<ge> sp \<or> morse_yaps_pages_required hw p + need > pg")
    case True
    then show ?thesis using "2.prems" by (intro exI [of _ 0]) (auto simp: Let_def)
  next
    case False
    then obtain k where "k \<le> length ps" "num_pkts_loop hw sp pg ps (n + 1) (need + morse_yaps_pages_required hw p) = n + 1 + k"
      "n + 1 + k \<le> sp" "need + morse_yaps_pages_required hw p + sum_list (map (morse_yaps_pages_required hw) (take k ps)) \<le> pg"
      using "2.IH" [OF _ refl] by auto
    then show ?thesis using False by (intro exI [of _ "Suc k"]) (auto simp: Let_def)
  qed
qed auto

lemma num_pkts_fits:
  assumes "morse_yaps_hw_get_tc_queue_pages q hw < 2 ^ 32"
  shows "burst_fits q (take (morse_yaps_hw_get_num_pkts q ps hw) ps) hw"
  using num_pkts_loop_fits [of 0 "morse_yaps_hw_get_tc_queue_space q hw" 0 "morse_yaps_hw_get_tc_queue_pages q hw" ps hw] assms
  by (auto simp: burst_fits_def morse_yaps_hw_get_num_pkts_def)

lemma sub32_u32: "sub32 a b = nat ((int a - int b) mod 4294967296)"
proof -
  have "sub32 a b = sub32 (u32 a) (u32 b)" by (simp only: sub32_def u32_u32) (simp only: u32_def mod_add_left_eq)
  then show ?thesis by (simp add: sub32_wrap)
qed

lemma sub32_le: "b \<le> a \<Longrightarrow> a < 4294967296 \<Longrightarrow> sub32 a b = a - b"
  by (simp add: sub32_u32 mod_pos_pos_trivial nat_diff_distrib)

lemma sub32_step:
  assumes "0 < sub32 a b"
  shows "sub32 a (u32 (Suc b)) = sub32 a b - 1"
proof -
  have "int (u32 (Suc b)) = (int b + 1) mod 4294967296" by (simp add: u32_def zmod_int add.commute)
  then have "sub32 a (u32 (Suc b)) = nat ((int a - (int b + 1)) mod 4294967296)"
    by (simp add: sub32_u32 mod_diff_right_eq)
  also have "(int a - (int b + 1)) mod 4294967296 = ((int a - int b) mod 4294967296 - 1) mod 4294967296"
    by (simp add: mod_diff_left_eq algebra_simps)
  also have "... = (int a - int b) mod 4294967296 - 1"
    using assms by (intro mod_pos_pos_trivial) (simp_all add: sub32_u32)
  finally show ?thesis by (simp add: sub32_u32 nat_diff_distrib)
qed

lemma update_sent_fits:
  assumes "burst_fits q (p # ps) hw"
  shows "\<exists>hw'. morse_yaps_update_status_pkt_sent q p hw = Some hw' \<and> burst_fits q ps hw'
    \<and> reserved_yaps_page_size hw' = reserved_yaps_page_size hw
    \<and> morse_yaps_hw_get_tc_queue_pages q hw' = morse_yaps_hw_get_tc_queue_pages q hw - morse_yaps_pages_required hw p"
proof -
  let ?n = "morse_yaps_pages_required hw p"
  let ?hw = "hw\<lparr>status_regs := take_pages q ?n (status_regs hw)\<rparr>"
  have fit: "morse_yaps_will_fit q p hw" using assms by (auto simp: morse_yaps_will_fit_def burst_fits_def)
  have req: "morse_yaps_pages_required ?hw = morse_yaps_pages_required hw"
    by (rule ext) (simp add: morse_yaps_pages_required_def)
  have "morse_yaps_hw_get_tc_queue_pages q ?hw = morse_yaps_hw_get_tc_queue_pages q hw - ?n"
    using assms by (cases q) (simp_all add: burst_fits_def sub32_le)
  moreover have "morse_yaps_hw_get_tc_queue_space q ?hw = morse_yaps_hw_get_tc_queue_space q hw - 1"
    using assms by (cases q) (simp_all add: burst_fits_def sub32_step)
  ultimately have "burst_fits q ps ?hw" using assms by (auto simp: burst_fits_def req)
  then show ?thesis using fit \<open>morse_yaps_hw_get_tc_queue_pages q ?hw = _\<close>
    by (intro exI [of _ ?hw]) (simp add: morse_yaps_update_status_pkt_sent_def ensure_def)
qed

text \<open>What writing to the chip leaves unchanged: everything but the bookkeeping of the hardware.\<close>

definition io_frame :: "driver_data \<Rightarrow> driver_data \<Rightarrow> bool" where
  "io_frame d d' \<longleftrightarrow> (\<exists>hw bl t c h. d' = d\<lparr>yaps_hw := hw, bus_log := bl, ticks := t, pageset_consec_failure_cnt := c, host_log := h\<rparr>)"

lemma io_frame_refl [simp]: "io_frame d d"
  unfolding io_frame_def by (intro exI [of _ "yaps_hw d"] exI [of _ "bus_log d"] exI [of _ "ticks d"]
    exI [of _ "pageset_consec_failure_cnt d"] exI [of _ "host_log d"]) simp

lemma io_frame_trans: "io_frame a b \<Longrightarrow> io_frame b c \<Longrightarrow> io_frame a c"
  by (auto simp: io_frame_def) blast

lemma io_frameD:
  assumes "io_frame d d'"
  shows "access_lock d' = access_lock d" "released d' = released d" "reported d' = reported d"
    "get_q qi d' = get_q qi d" "wake_pin d' = wake_pin d" "pending_evts d' = pending_evts d"
    "scheduled_evts d' = scheduled_evts d" "data_tx_qs d' = data_tx_qs d" "stale_enabled d' = stale_enabled d"
    "state_flags d' = state_flags d"
  using assms by (cases qi; auto simp: io_frame_def)+

lemma consec_frame [simp]: "io_frame d (morse_hw_pager_update_consec_failure_cnt ret d)"
  unfolding io_frame_def morse_hw_pager_update_consec_failure_cnt_def host_def Let_def
  by (intro exI [of _ "yaps_hw d"] exI [of _ "bus_log d"] exI [of _ "ticks d"]
    exI [of _ "pageset_consec_failure_cnt (morse_hw_pager_update_consec_failure_cnt ret d)"]
    exI [of _ "host_log (morse_hw_pager_update_consec_failure_cnt ret d)"])
    (simp add: morse_hw_pager_update_consec_failure_cnt_def host_def)

lemma consec_yaps_hw [simp]: "yaps_hw (morse_hw_pager_update_consec_failure_cnt ret d) = yaps_hw d"
  by (simp add: morse_hw_pager_update_consec_failure_cnt_def host_def Let_def)

lemma write_pkt_fits:
  assumes "\<not> access_lock d" "burst_fits q (p # ps) (yaps_hw d)" "4 \<le> pk_before p"
  shows "\<exists>ret d'. morse_yaps_hw_write_pkt env p q nxt d = Some (ret, d') \<and> io_frame d d' \<and> burst_fits q ps (yaps_hw d')
    \<and> ret \<in> {- EMSGSIZE, bus_write env (ticks d)}
    \<and> reserved_yaps_page_size (yaps_hw d') = reserved_yaps_page_size (yaps_hw d)
    \<and> (ret = - EMSGSIZE \<longrightarrow> bus_write env (ticks d) = - EMSGSIZE
          \<or> reserved_yaps_page_size (yaps_hw d) + pkt_data_length p > YAPS_MAX_PKT_SIZE_BYTES)"
proof (cases "pkt_data_length p + reserved_yaps_page_size (yaps_hw d) > YAPS_MAX_PKT_SIZE_BYTES")
  case True
  have same: "d\<lparr>access_lock := False\<rparr> = d" using assms(1) by (cases d) simp
  have "io_frame d (d\<lparr>access_lock := False\<rparr>)" by (subst same) simp
  moreover have "burst_fits q ps (yaps_hw d)" using assms(2) by (auto simp: burst_fits_def)
  ultimately show ?thesis using True assms(1)
    by (simp add: morse_yaps_hw_write_pkt_def yaps_hw_lock_def yaps_hw_unlock_def morse_yaps_hw_write_pkt_err_check_def)
next
  case False
  have fit: "morse_yaps_will_fit q p (yaps_hw d)" using assms(2) by (auto simp: morse_yaps_will_fit_def burst_fits_def)
  obtain hw' where hw': "morse_yaps_update_status_pkt_sent q p (yaps_hw d) = Some hw'" "burst_fits q ps hw'"
      "reserved_yaps_page_size hw' = reserved_yaps_page_size (yaps_hw d)"
    using update_sent_fits [OF assms(2)] by blast
  obtain delim where w: "morse_yaps_hw_write_pkt env p q nxt d = Some (bus_write env (ticks d),
      yaps_hw_unlock (log_bus (Write_Packet delim p) (d\<lparr>access_lock := True, yaps_hw := hw'\<rparr>)))"
    using False fit hw' assms(1,3)
    by (simp add: morse_yaps_hw_write_pkt_def yaps_hw_lock_def morse_yaps_hw_write_pkt_err_check_def ensure_def Let_def)
  have "io_frame d (yaps_hw_unlock (log_bus (Write_Packet delim p) (d\<lparr>access_lock := True, yaps_hw := hw'\<rparr>)))"
    unfolding io_frame_def yaps_hw_unlock_def log_bus_def using assms(1)
    by (intro exI [of _ hw'] exI [of _ "bus_log d @ [(wake_pin d, Write_Packet delim p)]"] exI [of _ "ticks d + 1"]
      exI [of _ "pageset_consec_failure_cnt d"] exI [of _ "host_log d"]) (cases d, simp)
  then show ?thesis using w hw'(2,3) False by (auto simp: yaps_hw_unlock_def log_bus_def)
qed

lemma tx_loop_fits:
  assumes "\<not> access_lock d" "burst_fits q ps (yaps_hw d)" "\<forall>p\<in>set ps. 4 \<le> pk_before p"
    and "\<And>k. bus_write env k \<noteq> - ENOMEM" "ret \<noteq> - ENOMEM"
  shows "\<exists>ss fs ret' d'. tx_loop env q ps sent failed ret d = Some (sent @ ss, failed @ fs, ret', d')
    \<and> mset ps = mset ss + mset fs \<and> io_frame d d' \<and> ret' \<noteq> - ENOMEM
    \<and> ((\<forall>k. bus_write env k = 0) \<and> (\<forall>p\<in>set ps. reserved_yaps_page_size (yaps_hw d) + pkt_data_length p \<le> YAPS_MAX_PKT_SIZE_BYTES) \<and> ret = 0
        \<longrightarrow> ss = ps \<and> ret' = 0)"
  using assms(1,2,3,5)
proof (induction ps arbitrary: d sent failed ret)
  case Nil
  then show ?case by simp
next
  case (Cons p ps)
  obtain r d1 where w: "morse_yaps_hw_write_pkt env p q (next_packet ps) d = Some (r, d1)" "io_frame d d1"
      "burst_fits q ps (yaps_hw d1)" "r \<in> {- EMSGSIZE, bus_write env (ticks d)}"
      "reserved_yaps_page_size (yaps_hw d1) = reserved_yaps_page_size (yaps_hw d)"
      "r = - EMSGSIZE \<longrightarrow> bus_write env (ticks d) = - EMSGSIZE \<or> reserved_yaps_page_size (yaps_hw d) + pkt_data_length p > YAPS_MAX_PKT_SIZE_BYTES"
    using write_pkt_fits [of d q p ps env "next_packet ps"] Cons.prems by auto
  let ?d = "morse_hw_pager_update_consec_failure_cnt r d1"
  have r: "r \<noteq> - ENOMEM" using w(4) assms(4) by auto
  have f: "io_frame d ?d" using w(2) by (rule io_frame_trans) simp
  have prem: "\<not> access_lock ?d" "burst_fits q ps (yaps_hw ?d)" "\<forall>p\<in>set ps. 4 \<le> pk_before p"
    using w(3) io_frameD [OF f] Cons.prems by simp_all
  show ?case
  proof (cases "r = 0")
    case True
    have "(0 :: int) \<noteq> - ENOMEM" by simp
    from Cons.IH [OF prem this, of "sent @ [p]" failed] obtain ss fs ret' d' where l:
      "tx_loop env q ps (sent @ [p]) failed 0 ?d = Some ((sent @ [p]) @ ss, failed @ fs, ret', d')"
      "mset ps = mset ss + mset fs" "io_frame ?d d'" "ret' \<noteq> - ENOMEM"
      "(\<forall>k. bus_write env k = 0) \<and> (\<forall>p\<in>set ps. reserved_yaps_page_size (yaps_hw ?d) + pkt_data_length p \<le> YAPS_MAX_PKT_SIZE_BYTES)
          \<and> (0 :: int) = 0 \<longrightarrow> ss = ps \<and> ret' = 0" by blast
    have "tx_loop env q (p # ps) sent failed ret d = Some (sent @ p # ss, failed @ fs, ret', d')"
      using l(1) w(1) True by simp
    moreover have "io_frame d d'" using l(3) by (rule io_frame_trans [OF f])
    moreover have "mset (p # ps) = mset (p # ss) + mset fs" using l(2) by simp
    moreover have "(\<forall>k. bus_write env k = 0) \<and> (\<forall>p\<in>set (p # ps). reserved_yaps_page_size (yaps_hw d) + pkt_data_length p \<le> YAPS_MAX_PKT_SIZE_BYTES)
          \<and> ret = 0 \<longrightarrow> p # ss = p # ps \<and> ret' = 0" using l(5) w(5) by simp
    ultimately show ?thesis using l(4) by blast
  next
    case False
    from Cons.IH [OF prem r, of sent "failed @ [p]"] obtain ss fs ret' d' where l:
      "tx_loop env q ps sent (failed @ [p]) r ?d = Some (sent @ ss, (failed @ [p]) @ fs, ret', d')"
      "mset ps = mset ss + mset fs" "io_frame ?d d'" "ret' \<noteq> - ENOMEM" by blast
    have "tx_loop env q (p # ps) sent failed ret d = Some (sent @ ss, failed @ p # fs, ret', d')"
      using l(1) w(1) False r by simp
    moreover have "io_frame d d'" using l(3) by (rule io_frame_trans [OF f])
    moreover have "mset (p # ps) = mset ss + mset (p # fs)" using l(2) by simp
    moreover have "\<not> ((\<forall>k. bus_write env k = 0) \<and> (\<forall>p\<in>set (p # ps). reserved_yaps_page_size (yaps_hw d) + pkt_data_length p \<le> YAPS_MAX_PKT_SIZE_BYTES))"
      using w(4,6) False by auto
    ultimately show ?thesis using l(4) by blast
  qed
qed

lemma release_all_eq: "release_all ps s = s\<lparr>released := released s @ ps\<rparr>"
  by (induction ps arbitrary: s) (simp_all add: release_all_def release_pkt_def)

lemma drop_stale_eq:
  "\<exists>xs. drop_stale_loop limit ps s = (length xs, drop (length xs) ps, release_all xs s) \<and> xs = take (length xs) ps"
proof (induction limit ps s rule: drop_stale_loop.induct)
  case (2 limit p ps s)
  show ?case
  proof (cases "mmosal_time_lt limit (pkt_timeout p)")
    case True
    then show ?thesis by (intro exI [of _ "[]"]) (simp add: release_all_def)
  next
    case False
    from 2 [OF False] obtain xs where xs: "drop_stale_loop limit ps (release_pkt p s)
        = (length xs, drop (length xs) ps, release_all xs (release_pkt p s))" "xs = take (length xs) ps" by blast
    then show ?thesis using False
      by (intro exI [of _ "p # xs"]) (simp add: release_all_def)
  qed
qed (simp add: release_all_def)

text \<open>The places of the packets of a queue before and after it has been served.\<close>

definition q_index_ok :: "queue_id \<Rightarrow> driver_data \<Rightarrow> bool" where
  "q_index_ok qi d \<longleftrightarrow> (case qi of Data_Q i \<Rightarrow> i < length (data_tx_qs d) | _ \<Rightarrow> True)"

lemma get_put_q [simp]: "q_index_ok qi d \<Longrightarrow> get_q qi (put_q qi mq d) = mq"
  by (cases qi) (simp_all add: q_index_ok_def)

lemma put_q_frame [simp]:
  "released (put_q qi mq d) = released d" "reported (put_q qi mq d) = reported d" "yaps_hw (put_q qi mq d) = yaps_hw d"
  "access_lock (put_q qi mq d) = access_lock d" "pending_evts (put_q qi mq d) = pending_evts d"
  "scheduled_evts (put_q qi mq d) = scheduled_evts d" "wake_pin (put_q qi mq d) = wake_pin d"
  "bus_log (put_q qi mq d) = bus_log d" "q_index_ok qj (put_q qi mq d) = q_index_ok qj d"
  by (cases qi; simp add: q_index_ok_def split: queue_id.splits)+

text \<open>C33. The burst of packets taken from a queue always fits into the free places and pages of the chip: serving a
  queue never fails an assertion and never runs out of memory; the expired packets at its head are dropped, the packets after
  them are written in order, those that could not be written are released and the others become pending, and no
  packet of the burst fails when the bus works and none is too long.\<close>

theorem yaps_burst_always_fits:
  assumes "q_index_ok qi d" "\<not> access_lock d" "\<forall>p\<in>set (mq_skbq (get_q qi d)). 4 \<le> pk_before p"
    and "\<And>q. morse_yaps_hw_get_tc_queue_pages q (yaps_hw d) < 2 ^ 32" "\<And>k. bus_write env k \<noteq> - ENOMEM"
  shows "\<exists>ret d' dropped burst rest ss fs. morse_yaps_tx env qi d = Some (ret, d') \<and> ret \<noteq> - ENOMEM \<and> \<not> access_lock d'
    \<and> mq_skbq (get_q qi d) = dropped @ burst @ rest \<and> mset burst = mset ss + mset fs
    \<and> mq_skbq (get_q qi d') = rest
    \<and> mq_pending (get_q qi d') = (if qi = Cmd_Q \<and> mq_skbq (get_q qi d) \<noteq> [] then [] else mq_pending (get_q qi d)) @ ss
    \<and> released d' = released d @ (if qi = Cmd_Q \<and> mq_skbq (get_q qi d) \<noteq> [] then mq_pending (get_q qi d) else []) @ dropped @ fs
    \<and> reported d' = reported d
    \<and> ((\<forall>k. bus_write env k = 0) \<and> (\<forall>p\<in>set burst. reserved_yaps_page_size (yaps_hw d) + pkt_data_length p \<le> YAPS_MAX_PKT_SIZE_BYTES)
        \<longrightarrow> ss = burst \<and> ret = 0)"
proof (cases "mq_skbq (get_q qi d)")
  case Nil
  then show ?thesis using assms(2)
    by (intro exI [of _ 0] exI [of _ d] exI [of _ "[]"]) (simp add: morse_yaps_tx_def)
next
  case (Cons p ps)
  let ?mq = "get_q qi d" and ?q = "tc_queue_of (pkt_channel p)"
  define mq1 where "mq1 = (if qi = Cmd_Q then ?mq\<lparr>mq_pending := []\<rparr> else ?mq)"
  define d1 where "d1 = (if qi = Cmd_Q then release_all (mq_pending ?mq) d else d)"
  have skbq: "mq_skbq mq1 = mq_skbq ?mq" by (simp add: mq1_def)
  have purge: "(if qi = Cmd_Q then purge_pending ?mq d else (0, ?mq, d)) = (if qi = Cmd_Q then length (mq_pending ?mq) else 0, mq1, d1)"
    by (simp add: purge_pending_def mq1_def d1_def)
  define limit where "limit = u32 (u32 (clock env (ticks d1)) + SKBQ_POP_TIMEOUT_THRESHOLD_MS)"
  obtain xs where xs: "drop_stale_loop limit (mq_skbq ?mq) (d1\<lparr>ticks := ticks d1 + 1\<rparr>)
      = (length xs, drop (length xs) (mq_skbq ?mq), release_all xs (d1\<lparr>ticks := ticks d1 + 1\<rparr>))"
      "xs = take (length xs) (mq_skbq ?mq)" using drop_stale_eq by blast
  define rest0 where "rest0 = drop (length xs) (mq_skbq ?mq)"
  define d2 where "d2 = release_all xs (d1\<lparr>ticks := ticks d1 + 1\<rparr>)"
  have drop: "morse_skbq_drop_stale_pkts env mq1 d1 = (length xs, mq1\<lparr>mq_skbq := rest0\<rparr>, d2)"
    using xs(1) by (simp add: morse_skbq_drop_stale_pkts_def mmosal_get_time_ms_def skbq limit_def rest0_def d2_def)
  have queue: "mq_skbq ?mq = xs @ rest0" using xs(2) by (metis append_take_drop_id rest0_def)
  have d2: "yaps_hw d2 = yaps_hw d" "access_lock d2 = access_lock d" "reported d2 = reported d"
      "released d2 = released d @ (if qi = Cmd_Q then mq_pending ?mq else []) @ xs" "q_index_ok qi d2"
    using assms(1) by (simp_all add: d2_def d1_def release_all_eq q_index_ok_def split: queue_id.splits)
  define n where "n = morse_yaps_hw_get_num_pkts ?q rest0 (yaps_hw d)"
  have fits: "burst_fits ?q (take n rest0) (yaps_hw d2)"
    unfolding d2 n_def by (rule num_pkts_fits) (rule assms(4))
  have head: "\<forall>p\<in>set (take n rest0). 4 \<le> pk_before p"
    using assms(3) queue by (auto dest: in_set_takeD)
  have free: "\<not> access_lock d2" and zero: "(0 :: int) \<noteq> - ENOMEM" using d2(2) assms(2) by simp_all
  obtain ss fs ret d3 where l: "tx_loop env ?q (take n rest0) [] [] 0 d2 = Some (ss, fs, ret, d3)"
      "mset (take n rest0) = mset ss + mset fs" "io_frame d2 d3" "ret \<noteq> - ENOMEM"
      "(\<forall>k. bus_write env k = 0) \<and> (\<forall>p\<in>set (take n rest0). reserved_yaps_page_size (yaps_hw d2) + pkt_data_length p \<le> YAPS_MAX_PKT_SIZE_BYTES)
        \<and> (0 :: int) = 0 \<longrightarrow> ss = take n rest0 \<and> ret = 0"
    using tx_loop_fits [OF free fits head assms(5) zero, of "[]" "[]", unfolded append_Nil] by blast
  note fr = io_frameD [OF l(3)]
  obtain mq4 d4 where c: "morse_skbq_tx_complete ss (mq1\<lparr>mq_skbq := drop n rest0\<rparr>) (release_all fs d3) = (mq4, d4)"
    by (cases "morse_skbq_tx_complete ss (mq1\<lparr>mq_skbq := drop n rest0\<rparr>) (release_all fs d3)")
  have mq4: "mq_skbq mq4 = drop n rest0" "mq_pending mq4 = mq_pending mq1 @ ss"
      "released d4 = released d3 @ fs" "reported d4 = reported d3" "access_lock d4 = access_lock d3" "data_tx_qs d4 = data_tx_qs d3"
    using c by (auto simp: morse_skbq_tx_complete_def release_all_eq split: if_splits)
  have run: "morse_yaps_tx env qi d = Some (ret, put_q qi mq4 d4)"
    using Cons purge drop l(1) c by (simp add: morse_yaps_tx_def Let_def d2(1) n_def)
  have idx: "q_index_ok qi d4" using d2(5) mq4(6) fr by (simp add: q_index_ok_def split: queue_id.splits)
  show ?thesis
  proof (intro exI conjI)
    show "morse_yaps_tx env qi d = Some (ret, put_q qi mq4 d4)" by (rule run)
    show "mq_skbq ?mq = xs @ take n rest0 @ drop n rest0" using queue by simp
    show "mset (take n rest0) = mset ss + mset fs" by (rule l(2))
    show "ret \<noteq> - ENOMEM" by (rule l(4))
  qed (use idx mq4 fr d2 assms(2) l(5) Cons in \<open>auto simp: mq1_def\<close>)
qed

text \<open>A driver whose chip is quiet and answers everything: no packet and no event comes from it.\<close>

definition quiet_env :: chip_env where
  "quiet_env = \<lparr>clock = \<lambda>_. 1000, busy_is_asserted = \<lambda>_. False, beacon_of = \<lambda>_. None, bus_write = \<lambda>_. 0,
     bus_status = \<lambda>_. (0, \<lparr>tc_tx_pool_num_pages = 100, tc_cmd_pool_num_pages = 100, tc_beacon_pool_num_pages = 100,
       tc_mgmt_pool_num_pages = 100, tc_tx_num_pkts = 0, tc_cmd_num_pkts = 0, tc_beacon_num_pkts = 0, tc_mgmt_num_pkts = 0,
       fc_num_pkts = 0, tc_delim_crc_fail_detected = 0\<rparr>, 0),
     bus_delim = \<lambda>_. (0, 0), bus_read = \<lambda>_. (0, []), bus_int_status = \<lambda>_. (0, 0), bus_int_write = \<lambda>_. 0,
     bus_int_enable = \<lambda>_. 0, bus_memory = \<lambda>_. (0, []), alloc_rx = \<lambda>_ _. True, alloc_info = \<lambda>_ _. True,
     raised_events = \<lambda>_. []\<rparr>"

definition idle_driver :: driver_data where
  "idle_driver = \<lparr>ticks = 0, pending_evts = 0, scheduled_evts = replicate 4 (0, 0), dt_semb = False, dt_task = True,
     dt_running = True, state_flags = 0, stale_enabled = True, stale_timer = False, released = [], reported = [],
     pageset_consec_failure_cnt = 0, tx_max_pause_time_ms = 0, host_log = [], ps_initialized = True, ps_suspended = False,
     ps_wakers = 0, ps_pending_wake = False, bus_ps_timeout = 0, dynamic_ps_timeout_ms = 100, wake_pin = True, irq_enabled = True,
     hal_irq_enabled = True,
     chip_if = True, data_tx_qs = replicate 4 (morse_skbq_init MORSE_CHIP_IF_FLAGS_DATA),
     beacon_q = morse_skbq_init MORSE_CHIP_IF_FLAGS_DATA, mgmt_q = morse_skbq_init MORSE_CHIP_IF_FLAGS_DATA,
     cmd_q = morse_skbq_init MORSE_CHIP_IF_FLAGS_COMMAND, chip_queue_full = False, validate_skb_checksum = False,
     yaps_hw = \<lparr>tc_tx_q_size = 16, tc_cmd_q_size = 4, tc_beacon_q_size = 4, tc_mgmt_q_size = 4, reserved_yaps_page_size = 0,
       status_regs = fst (snd (bus_status quiet_env 0))\<rparr>,
     access_lock = False, beacon_enabled = False, beacon_vif_id = 65535, beacon_count = 0, beacon_work_fn = False,
     memory_regions = [], started = True, bus_log = []\<rparr>"

definition queued_pkt :: "nat \<Rightarrow> nat \<Rightarrow> tx_pkt" where
  "queued_pkt n channel = (sample_pkt n)\<lparr>pk_addr := 60, pk_before := 19,
     pk_hdr := Some \<lparr>hd_sync = MORSE_SKB_HEADER_SYNC, hd_channel = channel, hd_len = 5, hd_offset = 1,
       hd_tx_info = empty_tx_info\<lparr>ti_pkt_id := n\<rparr>\<rparr>,
     pk_meta := pk_meta (sample_pkt n)\<lparr>timeout_abs_ms := 16000\<rparr>\<rparr>"

theorem yaps_burst_always_fits_witness:
  "\<exists>d ret d'. map pk_ref (mq_skbq (get_q (Data_Q 0) d)) = [7, 8]
    \<and> morse_yaps_tx quiet_env (Data_Q 0) d = Some (ret, d') \<and> ret \<noteq> - ENOMEM \<and> \<not> access_lock d'"
proof -
  let ?d = "idle_driver\<lparr>data_tx_qs := (data_tx_qs idle_driver)[0 := morse_skbq_init MORSE_CHIP_IF_FLAGS_DATA
    \<lparr>mq_skbq := [queued_pkt 7 MORSE_SKB_CHAN_DATA, queued_pkt 8 MORSE_SKB_CHAN_DATA]\<rparr>]\<rparr>"
  have "morse_yaps_hw_get_tc_queue_pages q (yaps_hw ?d) < 2 ^ 32" for q
    by (cases q) (simp_all add: idle_driver_def quiet_env_def)
  then show ?thesis
    using yaps_burst_always_fits [of "Data_Q 0" ?d quiet_env]
    by (intro exI [of _ ?d]) (auto simp: q_index_ok_def idle_driver_def quiet_env_def queued_pkt_def sample_pkt_def)
qed

subsection \<open>Packets for receivers that sleep\<close>

text \<open>A status that returns a packet because its receiver sleeps.\<close>

definition returns_packet :: "queue_id \<Rightarrow> tx_pkt \<Rightarrow> morse_skb_tx_status \<Rightarrow> bool" where
  "returns_packet qi p sts \<longleftrightarrow> has_flag (ts_flags sts) 0x8000 \<and> \<not> has_flag (ts_flags sts) 0x20000
     \<and> ts_channel sts \<in> {MORSE_SKB_CHAN_DATA, MORSE_SKB_CHAN_MGMT} \<and> ts_pkt_id sts = pkt_id p
     \<and> morse_skbq_match_tx_status_to_skbq sts = Some qi"

lemma returned_packet:
  assumes "returns_packet qi p sts" "mq_flags mq = MORSE_CHIP_IF_FLAGS_DATA"
    and "mq_pending mq = p # ps" "distinct (map pk_ref (p # ps))"
    and "mq_skbq mq \<noteq> [] \<Longrightarrow> pkt_id (last (mq_skbq mq)) \<noteq> pkt_id p"
  shows "tx_status_one env sts mq s = Some (True, mq\<lparr>mq_pending := ps, mq_skbq :=
    (if mq_skbq mq \<noteq> [] \<and> pkt_id p < pkt_id (last (mq_skbq mq)) then p # mq_skbq mq else mq_skbq mq @ [p])\<rparr>, s)"
proof -
  have rem: "list_remove (pk_ref p) (p # ps) = Some ps"
    using list_remove_in [of "p # ps" p p] assms(4) by simp
  have d: "has_flag MORSE_CHIP_IF_FLAGS_DATA MORSE_CHIP_IF_FLAGS_DATA" by (simp add: has_flag_def)
  have "mq_skbq mq \<noteq> [] \<Longrightarrow> \<not> pkt_id (last (mq_skbq mq)) \<le> pkt_id p \<Longrightarrow> list_ex (\<lambda>q. pkt_id p \<le> pkt_id q) (mq_skbq mq)"
    using last_in_set [of "mq_skbq mq"] by (auto simp: list_ex_iff not_le intro: less_imp_le)
  then show ?thesis using assms(1,2,3,5) rem d
    by (auto simp: tx_status_one_def skbq_get_pending_by_id_def returns_packet_def tx_mmpkt_is_ps_filtered_def
        ensure_def insert_pending_mmpkt_to_skbq_def Let_def)
qed

lemma put_get_q [simp]: "put_q qi (get_q qi d) d = d"
  by (cases qi) simp_all

lemma no_pending_eq: "mq_pending m = [] \<Longrightarrow> m\<lparr>mq_pending := [], mq_skbq := mq_skbq m\<rparr> = m"
  by (cases m) simp

lemma put_put_q [simp]: "put_q qi b (put_q qi a d) = put_q qi b d"
  by (cases qi) simp_all

lemma returned_in_order:
  assumes "list_all2 (returns_packet qi) ps stss" "q_index_ok qi d" "mq_pending (get_q qi d) = ps"
    and "mq_flags (get_q qi d) = MORSE_CHIP_IF_FLAGS_DATA" "distinct (map pk_ref ps)"
    and "sorted_wrt (<) (map pkt_id (mq_skbq (get_q qi d) @ ps))"
  shows "tx_status_loop env stss d = Some (put_q qi (get_q qi d\<lparr>mq_pending := [], mq_skbq := mq_skbq (get_q qi d) @ ps\<rparr>) d)"
  using assms
proof (induction ps stss arbitrary: d rule: list_all2_induct)
  case Nil
  then show ?case by (simp add: no_pending_eq)
next
  case (Cons p ps sts stss)
  let ?mq = "get_q qi d" and ?mq1 = "get_q qi d\<lparr>mq_pending := ps, mq_skbq := mq_skbq (get_q qi d) @ [p]\<rparr>"
  have lt: "mq_skbq ?mq \<noteq> [] \<Longrightarrow> pkt_id (last (mq_skbq ?mq)) < pkt_id p"
    using Cons.prems(5) last_in_set [of "mq_skbq ?mq"] by (auto simp: sorted_wrt_append)
  have one: "tx_status_one env sts ?mq d = Some (True, ?mq1, d)"
    using returned_packet [OF Cons.hyps(1) Cons.prems(3,2,4)] lt by fastforce
  have idx: "q_index_ok qi (put_q qi ?mq1 d)" using Cons.prems(1) by simp
  have "tx_status_loop env stss (put_q qi ?mq1 d)
      = Some (put_q qi (get_q qi (put_q qi ?mq1 d)\<lparr>mq_pending := [], mq_skbq := mq_skbq (get_q qi (put_q qi ?mq1 d)) @ ps\<rparr>) (put_q qi ?mq1 d))"
    by (rule Cons.IH) (use Cons.prems in \<open>simp_all add: sorted_wrt_append\<close>)
  then show ?case using one Cons.hyps(1) Cons.prems(1) by (simp add: returns_packet_def)
qed

lemma returned_in_front:
  assumes "list_all2 (returns_packet qi) ps stss" "q_index_ok qi d" "mq_pending (get_q qi d) = ps"
    and "mq_flags (get_q qi d) = MORSE_CHIP_IF_FLAGS_DATA" "distinct (map pk_ref ps)"
    and "mq_skbq (get_q qi d) \<noteq> []" "\<forall>p\<in>set ps. pkt_id p < pkt_id (last (mq_skbq (get_q qi d)))"
  shows "tx_status_loop env stss d = Some (put_q qi (get_q qi d\<lparr>mq_pending := [], mq_skbq := rev ps @ mq_skbq (get_q qi d)\<rparr>) d)"
  using assms
proof (induction ps stss arbitrary: d rule: list_all2_induct)
  case Nil
  then show ?case by (simp add: no_pending_eq)
next
  case (Cons p ps sts stss)
  let ?mq = "get_q qi d" and ?mq1 = "get_q qi d\<lparr>mq_pending := ps, mq_skbq := p # mq_skbq (get_q qi d)\<rparr>"
  have one: "tx_status_one env sts ?mq d = Some (True, ?mq1, d)"
    using returned_packet [OF Cons.hyps(1) Cons.prems(3,2,4)] Cons.prems(5,6) by fastforce
  have idx: "q_index_ok qi (put_q qi ?mq1 d)" using Cons.prems(1) by simp
  have "tx_status_loop env stss (put_q qi ?mq1 d)
      = Some (put_q qi (get_q qi (put_q qi ?mq1 d)\<lparr>mq_pending := [], mq_skbq := rev ps @ mq_skbq (get_q qi (put_q qi ?mq1 d))\<rparr>) (put_q qi ?mq1 d))"
    by (rule Cons.IH) (use Cons.prems in \<open>simp_all\<close>)
  then show ?case using one Cons.hyps(1) Cons.prems(1) by (simp add: returns_packet_def)
qed

text \<open>C35. Packets that the chip returns because their receiver sleeps, reported in the order in which they were sent: when the
  queue is empty they are queued again in this order; when newer packets wait in it, they are put in front of these in
  reverse order.\<close>

theorem returned_packets_reversed:
  assumes "list_all2 (returns_packet qi) ps stss" "q_index_ok qi d" "mq_pending (get_q qi d) = ps"
    and "mq_flags (get_q qi d) = MORSE_CHIP_IF_FLAGS_DATA" "distinct (map pk_ref ps)" "sorted_wrt (<) (map pkt_id ps)"
  shows "(mq_skbq (get_q qi d) = [] \<longrightarrow>
        tx_status_loop env stss d = Some (put_q qi (get_q qi d\<lparr>mq_pending := [], mq_skbq := ps\<rparr>) d))
    \<and> (mq_skbq (get_q qi d) \<noteq> [] \<and> (\<forall>p\<in>set ps. \<forall>q\<in>set (mq_skbq (get_q qi d)). pkt_id p < pkt_id q) \<longrightarrow>
        tx_status_loop env stss d = Some (put_q qi (get_q qi d\<lparr>mq_pending := [], mq_skbq := rev ps @ mq_skbq (get_q qi d)\<rparr>) d))"
  using returned_in_order [OF assms(1-5)] returned_in_front [OF assms(1-5)] assms(6) by (auto simp: sorted_wrt_append)

theorem returned_packets_reversed_witness:
  "\<exists>d d'. map pkt_id (mq_pending (get_q (Data_Q 0) d)) = [1, 2] \<and> map pkt_id (mq_skbq (get_q (Data_Q 0) d)) = [3]
    \<and> tx_status_loop quiet_env [sample_status 0x8000 1, sample_status 0x8000 2] d = Some d'
    \<and> map pkt_id (mq_skbq (get_q (Data_Q 0) d')) = [2, 1, 3]"
proof -
  let ?q = "\<lambda>n. queued_pkt n MORSE_SKB_CHAN_DATA"
  let ?d = "idle_driver\<lparr>data_tx_qs := [morse_skbq_init MORSE_CHIP_IF_FLAGS_DATA\<lparr>mq_pending := [?q 1, ?q 2], mq_skbq := [?q 3]\<rparr>]\<rparr>"
  have ids: "pkt_id (?q n) = n" "pk_ref (?q n) = n" for n by (simp_all add: queued_pkt_def pkt_id_def sample_pkt_def)
  have ret: "list_all2 (returns_packet (Data_Q 0)) [?q 1, ?q 2] [sample_status 0x8000 1, sample_status 0x8000 2]"
    by (simp add: returns_packet_def sample_status_def has_flag_def ids morse_skbq_match_tx_status_to_skbq_def
        skbq_yaps_tc_q_from_aci_def dot11_tid_to_ac_def)
  let ?d' = "put_q (Data_Q 0) (get_q (Data_Q 0) ?d\<lparr>mq_pending := [], mq_skbq := rev [?q 1, ?q 2] @ mq_skbq (get_q (Data_Q 0) ?d)\<rparr>) ?d"
  have "tx_status_loop quiet_env [sample_status 0x8000 1, sample_status 0x8000 2] ?d = Some ?d'"
    by (rule returned_packets_reversed [OF ret, THEN conjunct2, rule_format])
      (simp_all add: q_index_ok_def morse_skbq_init_def ids)
  then show ?thesis
    by (intro exI [of _ ?d] exI [of _ ?d'] conjI) (simp_all add: morse_skbq_init_def ids del: tx_status_loop.simps)
qed

subsection \<open>The delimiter of a packet\<close>

lemma and_masks:
  fixes x :: "32 word"
  shows "x AND 0x3FFF = take_bit 14 x" "x AND 0x7F = take_bit 7 x" "x AND 7 = take_bit 3 x"
    "x AND 3 = take_bit 2 x" "x AND 1 = take_bit 1 x" "x AND 0x1ffffff = take_bit 25 x"
  by (simp_all add: take_bit_eq_mask mask_eq_exp_minus_1)

lemma yaps_crc_low: "\<not> bit (morse_yaps_crc w) 7"
  by (auto simp: morse_yaps_crc_def be32_bytes_def morse_crc7_sd_bitwise bit_simps dest: bit_imp_le_length)

lemma yaps_crc_bits: "bit (morse_yaps_crc w) n \<Longrightarrow> n < 7"
  using bit_imp_le_length [of "morse_yaps_crc w" n] yaps_crc_low [of w] by (cases "n = 7") auto

lemma yaps_crc_take: "morse_yaps_crc (take_bit 25 w) = morse_yaps_crc w"
  by (simp add: morse_yaps_crc_def and_masks)

lemma yaps_crc_flip: "i < 25 \<Longrightarrow> morse_yaps_crc (w XOR push_bit i 1) \<noteq> morse_yaps_crc w"
  using yaps_crc_unit_vectors [of i] by (metis yaps_crc_xor xor_cancel_right xor.commute xor.left_neutral)

lemma bits_below: "take_bit k x = (x :: 32 word) \<Longrightarrow> bit x n \<Longrightarrow> n < k"
  by (metis bit_take_bit_iff)

text \<open>The fields of a word put together from its parts.\<close>

lemma delim_fields:
  fixes a p q r c :: "32 word"
  assumes take: "take_bit 14 a = a" "take_bit 2 p = p" "take_bit 3 q = q" "take_bit 1 r = r" "take_bit 7 c = c"
    and w: "w = ((a OR push_bit 17 p) OR push_bit 14 q) OR push_bit 19 r"
  shows "YAPS_DELIM_GET_PHANDLE_SIZE (w OR push_bit 25 c) = a"
    and "YAPS_DELIM_GET_PADDING (w OR push_bit 25 c) = p"
    and "YAPS_DELIM_GET_POOL_ID (w OR push_bit 25 c) = q"
    and "YAPS_DELIM_GET_IRQ (w OR push_bit 25 c) = r"
    and "YAPS_DELIM_GET_CRC (w OR push_bit 25 c) = c"
    and "take_bit 25 (w OR push_bit 25 c) = w"
proof -
  have lim: "bit a n \<Longrightarrow> n < 14" "bit p n \<Longrightarrow> n < 2" "bit q n \<Longrightarrow> n < 3" "bit r n \<Longrightarrow> n < 1" "bit c n \<Longrightarrow> n < 7" for n
    using bits_below [OF take(1)] bits_below [OF take(2)] bits_below [OF take(3)] bits_below [OF take(4)]
      bits_below [OF take(5)] by blast+
  note defs = YAPS_DELIM_GET_PHANDLE_SIZE_def YAPS_DELIM_GET_PADDING_def YAPS_DELIM_GET_POOL_ID_def
    YAPS_DELIM_GET_CRC_def and_masks(1-4) w
  show "YAPS_DELIM_GET_PHANDLE_SIZE (w OR push_bit 25 c) = a"
    unfolding defs by (rule bit_word_eqI) (auto simp: bit_simps dest: lim)
  show "YAPS_DELIM_GET_PADDING (w OR push_bit 25 c) = p"
    unfolding defs by (rule bit_word_eqI) (auto simp: bit_simps dest: lim)
  show "YAPS_DELIM_GET_POOL_ID (w OR push_bit 25 c) = q"
    unfolding defs by (rule bit_word_eqI) (auto simp: bit_simps dest: lim)
  show "YAPS_DELIM_GET_IRQ (w OR push_bit 25 c) = r"
    unfolding w YAPS_DELIM_GET_IRQ_def by (rule bit_word_eqI) (auto simp: bit_simps dest: lim)
  show "YAPS_DELIM_GET_CRC (w OR push_bit 25 c) = c"
    unfolding defs by (rule bit_word_eqI) (auto simp: bit_simps dest: lim)
  show "take_bit 25 (w OR push_bit 25 c) = w"
    unfolding defs by (rule bit_word_eqI) (auto simp: bit_simps dest: lim)
qed

lemma padding_mod: "x < 2 ^ 32 \<Longrightarrow> YAPS_CALC_PADDING (of_nat x) = of_nat ((4 - x mod 4) mod 4)"
proof -
  assume "x < 2 ^ 32"
  have "take_bit 2 (of_nat x :: 32 word) = of_nat (x mod 4)"
    by (simp add: of_nat_mod take_bit_of_nat take_bit_eq_mod [of 2 x])
  moreover have "x mod 4 = 0 \<or> x mod 4 = 1 \<or> x mod 4 = 2 \<or> x mod 4 = 3" by arith
  ultimately show ?thesis by (auto simp: YAPS_CALC_PADDING_def and_masks)
qed

lemma ucast_byte_inj:
  assumes "(ucast x :: 32 word) = ucast (y :: 8 word)"
  shows "x = y"
proof (rule bit_word_eqI)
  fix n assume "n < LENGTH(8)"
  then show "bit x n = bit y n" using arg_cong [OF assms, of "\<lambda>w. bit w n"] by (simp add: bit_unsigned_iff)
qed

lemma padding_agrees: "(4 - (l + r) mod 4) mod 4 = (4 - l mod 4) mod 4 \<longleftrightarrow> r mod 4 = (0 :: nat)"
proof -
  have "x = 0 \<or> x = 1 \<or> x = 2 \<or> x = 3" if "x < 4" for x :: nat using that by arith
  from this [of "l mod 4"] this [of "r mod 4"] show ?thesis
    unfolding mod_add_eq [of l 4 r, symmetric] by auto
qed

lemma padding_fills: "(len + (4 - len mod 4) mod 4) mod 4 = (0 :: nat)"
proof -
  have "(r + (4 - r) mod 4) mod 4 = 0" if "r < 4" for r :: nat
  proof -
    have "r = 0 \<or> r = 1 \<or> r = 2 \<or> r = 3" using that by arith
    then show ?thesis by auto
  qed
  from this [of "len mod 4"] show ?thesis by (simp only: mod_add_left_eq mod_less_divisor zero_less_numeral)
qed

lemma padded_size:
  assumes "r mod 4 = (0 :: nat)" "l + r \<le> 16128"
  shows "l + r + (4 - l mod 4) mod 4 \<le> 16128"
proof -
  define k where "k = (4 - l mod 4) mod 4"
  have "k < 4" by (simp add: k_def)
  have "(l + k + r) mod 4 = ((l + k) mod 4 + r mod 4) mod 4" by (rule mod_add_eq [symmetric])
  then have "(l + k + r) mod 4 = 0" unfolding padding_fills [of l, folded k_def] assms(1) by simp
  then obtain m where m: "l + k + r = 4 * m" by (blast dest: mod_0_imp_dvd elim: dvdE)
  have "l + k + r < 16128 + 4"
    using add_le_less_mono [OF assms(2) \<open>k < 4\<close>] by (simp only: add.assoc add.commute add.left_commute)
  then have "m \<le> 4032" unfolding m by simp
  then have "l + k + r \<le> 16128" unfolding m by simp
  then show ?thesis unfolding k_def [symmetric] by (simp only: add.assoc add.commute add.left_commute)
qed

text \<open>C34. What the driver writes before a packet against the checks for packets from the chip: for every length
  that passes the driver's own check (\<open>len + reserved\<close> at most 16128), the fields of the delimiter are the length with
  the reserved bytes, the pool, the interrupt flag and the padding that fills the last word of the packet; the
  delimiter is valid exactly when the number of reserved bytes, which the chip reports, is a multiple of four (the
  padding is computed without them and checked with them); and with any one bit flipped it is not valid.\<close>

theorem yaps_delimiter_round_trip:
  assumes "0 < len + reserved" "len + reserved \<le> YAPS_MAX_PKT_SIZE_BYTES" "pool < 8"
    and "delim = morse_yaps_delimiter reserved len pool irq"
  shows "(morse_yaps_is_valid_delimiter delim \<longleftrightarrow> reserved mod 4 = 0)
    \<and> unat (YAPS_DELIM_GET_PHANDLE_SIZE delim) = len + reserved \<and> YAPS_DELIM_GET_POOL_ID delim = pool
    \<and> YAPS_DELIM_GET_IRQ delim = of_bool irq
    \<and> unat (YAPS_DELIM_GET_PADDING delim) < 4 \<and> (len + unat (YAPS_DELIM_GET_PADDING delim)) mod 4 = 0
    \<and> (\<forall>i<32. \<not> morse_yaps_is_valid_delimiter (delim XOR push_bit i 1))"
proof -
  define a :: "32 word" where "a = of_nat (len + reserved)"
  define p :: "32 word" where "p = of_nat ((4 - len mod 4) mod 4)"
  define r :: "32 word" where "r = of_bool irq"
  define w where "w = ((a OR push_bit 17 p) OR push_bit 14 pool) OR push_bit 19 r"
  define c :: "32 word" where "c = ucast (morse_yaps_crc w)"
  have p4: "(4 - len mod 4) mod 4 < 4" by simp
  have nat: "m < 2 ^ k \<Longrightarrow> take_bit k (of_nat m :: 32 word) = of_nat m" for m k
    by (simp add: take_bit_of_nat take_bit_nat_eq_self)
  have lim: "take_bit 14 a = a" "take_bit 2 p = p" "take_bit 3 pool = pool" "take_bit 1 r = r"
  proof -
    show "take_bit 14 a = a" unfolding a_def by (rule nat) (use assms(2) in simp)
    show "take_bit 2 p = p" unfolding p_def by (rule nat) simp
    show "take_bit 3 pool = pool" using nat [of "unat pool" 3] assms(3) by (simp add: word_less_nat_alt)
    show "take_bit 1 r = r" by (simp add: r_def)
  qed
  have c7: "take_bit 7 c = c"
    by (rule bit_word_eqI) (auto simp: c_def bit_simps dest: yaps_crc_bits)
  have e1: "(of_nat len :: 32 word) AND 0x3FFF = of_nat len"
    unfolding and_masks by (rule nat) (use assms(2) in simp)
  have e2: "YAPS_CALC_PADDING (of_nat len) AND 3 = p"
    using lim(2) assms(2) by (simp add: padding_mod and_masks flip: p_def)
  have e3: "pool AND 7 = pool" and e5: "c AND 0x7F = c" by (simp_all only: and_masks lim(3) c7)
  have e4: "(of_bool irq :: 32 word) AND 1 = r" by (cases irq) (simp_all add: r_def)
  have delim: "delim = w OR push_bit 25 c"
    unfolding assms(4) morse_yaps_delimiter_def Let_def e1 e2 e3 e4 of_nat_add [symmetric] a_def [symmetric]
      w_def [symmetric] c_def [symmetric] e5 by (rule refl)
  note f = delim_fields [OF lim(1,2,3,4) c7 w_def, folded delim]
  have crc: "(ucast (morse_yaps_crc delim) :: 32 word) = c"
  proof -
    have "morse_yaps_crc w = morse_yaps_crc delim" by (rule yaps_crc_take [of delim, unfolded f(6)])
    then show ?thesis by (simp only: c_def)
  qed
  have unat32: "m < 2 ^ 32 \<Longrightarrow> unat (of_nat m :: 32 word) = m" for m
    by (simp add: unsigned_of_nat take_bit_nat_eq_self)
  have a: "unat a = len + reserved" unfolding a_def by (rule unat32) (use assms(2) in simp)
  have p: "unat p = (4 - len mod 4) mod 4" unfolding p_def by (rule unat32) (use p4 in simp)
  have pad: "YAPS_CALC_PADDING a = p \<longleftrightarrow> reserved mod 4 = 0"
  proof -
    let ?n = "(4 - (len + reserved) mod 4) mod 4"
    have "YAPS_CALC_PADDING a = of_nat ?n"
      using assms(2) padding_mod [of "len + reserved"] by (simp add: a_def)
    moreover have "unat (of_nat ?n :: 32 word) = ?n" by (rule unat32) (rule less_trans [of _ 4], simp_all)
    ultimately show ?thesis
      using p padding_agrees [of len reserved] by (metis p_def)
  qed
  have "a \<noteq> 0" using a assms(1) by auto
  then have valid: "morse_yaps_is_valid_delimiter delim \<longleftrightarrow> reserved mod 4 = 0"
    using crc pad a p assms(2) padded_size [of reserved len]
    by (auto simp: morse_yaps_is_valid_delimiter_def f Let_def)
  have "\<not> morse_yaps_is_valid_delimiter (delim XOR push_bit i 1)" if "i < 32" for i
  proof -
    have "(ucast (morse_yaps_crc (delim XOR push_bit i 1)) :: 32 word) \<noteq> YAPS_DELIM_GET_CRC (delim XOR push_bit i 1)"
    proof (cases "i < 25")
      case True
      have "YAPS_DELIM_GET_CRC (delim XOR push_bit i 1) = YAPS_DELIM_GET_CRC delim"
        unfolding YAPS_DELIM_GET_CRC_def and_masks by (rule bit_word_eqI) (use True in \<open>auto simp: bit_simps\<close>)
      moreover have "(ucast (morse_yaps_crc (delim XOR push_bit i 1)) :: 32 word) \<noteq> ucast (morse_yaps_crc delim)"
        using yaps_crc_flip [OF True, of delim] by (meson ucast_byte_inj)
      ultimately show ?thesis using crc f(5) by simp
    next
      case False
      have "take_bit 25 (delim XOR push_bit i 1) = take_bit 25 delim"
        by (rule bit_word_eqI) (use False in \<open>auto simp: bit_simps\<close>)
      then have same: "morse_yaps_crc (delim XOR push_bit i 1) = morse_yaps_crc delim"
        by (metis yaps_crc_take)
      have "bit (YAPS_DELIM_GET_CRC (delim XOR push_bit i 1)) (i - 25) = (\<not> bit (YAPS_DELIM_GET_CRC delim) (i - 25))"
        unfolding YAPS_DELIM_GET_CRC_def and_masks using False that by (auto simp: bit_simps)
      then show ?thesis unfolding same using crc f(5) by auto
    qed
    then show ?thesis by (simp add: morse_yaps_is_valid_delimiter_def Let_def)
  qed
  moreover note padding_fills [of len]
  ultimately show ?thesis using valid a p p4 by (simp add: f r_def)
qed

theorem yaps_delimiter_round_trip_witness:
  "(0 :: nat) < 1497 + 4 \<and> morse_yaps_is_valid_delimiter (morse_yaps_delimiter 4 1497 2 True)
    \<and> unat (YAPS_DELIM_GET_PHANDLE_SIZE (morse_yaps_delimiter 4 1497 2 True)) = 1501"
  using yaps_delimiter_round_trip [of 1497 4 2 _ True, OF _ _ _ refl] by simp

end
