(* ===== verification/Driver_Awake.thy ===== *)
theory Driver_Awake
  imports Driver_Loop Yaps_Correct
begin

section \<open>Power save and the bus\<close>

text \<open>
  The bus to the chip may be used only while the chip is awake; two places of the driver use it without waking
  the chip (\<open>unguarded\<close>). What the driver knows about its power and its accesses is
  projected to \<open>power_state\<close>; the operations fall into those that leave it alone, those that access the bus while
  the chip is awake, and the evaluation of power save. The invariant \<open>bus_ok\<close> holds in every run of the driver.
\<close>

subsection \<open>What leaves the power_state state and the bus alone\<close>

definition power_state :: "driver_data \<Rightarrow> bool \<times> bool \<times> bool \<times> bool \<times> (bool \<times> bus_op) list" where
  "power_state d = (ps_initialized d, wake_pin d, ps_suspended d, irq_enabled d, bus_log d)"

lemma power_more:
  assumes "tx_host.more d' = tx_host.more d"
  shows "power_state d' = power_state d"
  by (simp only: power_state_def host_more_eq [OF assms])

lemma power_update [simp]:
  "power_state (d\<lparr>ticks := n\<rparr>) = power_state d" "power_state (d\<lparr>pending_evts := n\<rparr>) = power_state d" "power_state (d\<lparr>dt_semb := b\<rparr>) = power_state d"
  "power_state (d\<lparr>scheduled_evts := es\<rparr>) = power_state d" "power_state (d\<lparr>released := ps\<rparr>) = power_state d" "power_state (d\<lparr>reported := ps\<rparr>) = power_state d"
  "power_state (d\<lparr>state_flags := n\<rparr>) = power_state d" "power_state (d\<lparr>stale_timer := b\<rparr>) = power_state d" "power_state (d\<lparr>host_log := h\<rparr>) = power_state d"
  "power_state (d\<lparr>access_lock := b\<rparr>) = power_state d" "power_state (d\<lparr>yaps_hw := hw\<rparr>) = power_state d" "power_state (d\<lparr>chip_queue_full := b\<rparr>) = power_state d"
  "power_state (d\<lparr>pageset_consec_failure_cnt := n\<rparr>) = power_state d" "power_state (d\<lparr>ps_wakers := n\<rparr>) = power_state d"
  "power_state (d\<lparr>beacon_q := q\<rparr>) = power_state d" "power_state (d\<lparr>cmd_q := q\<rparr>) = power_state d"
  "power_state (d\<lparr>mgmt_q := q\<rparr>) = power_state d" "power_state (d\<lparr>data_tx_qs := qs\<rparr>) = power_state d" "power_state (d\<lparr>dt_task := b\<rparr>) = power_state d" "power_state (d\<lparr>dt_running := b\<rparr>) = power_state d"
  by (simp_all add: power_state_def)

lemma power_events [simp]:
  "power_state (driver_task_notify_event e d) = power_state d" "power_state (driver_task_notify_event_from_isr e d) = power_state d"
  "power_state (snd (driver_task_notification_check_and_clear e d)) = power_state d" "power_state (snd (mmosal_get_time_ms env d)) = power_state d"
  "power_state (tick d) = power_state d" "power_state (host c d) = power_state d" "power_state (snd (driver_task_drop_scheduled_event e d)) = power_state d"
  by (simp_all add: driver_task_notify_event_def driver_task_notify_event_from_isr_def
      driver_task_notification_check_and_clear_def mmosal_get_time_ms_def tick_def host_def
      driver_task_drop_scheduled_event_def split: option.split)

lemma power_cleared: "driver_task_notification_check_and_clear e d = (b, d') \<Longrightarrow> power_state d' = power_state d"
  using power_events(3) [of e d] by simp

lemma power_dropped: "driver_task_drop_scheduled_event e d = (b, d') \<Longrightarrow> power_state d' = power_state d"
  using power_events(7) [of e d] by simp

lemma power_time: "mmosal_get_time_ms env d = (now, d') \<Longrightarrow> power_state d' = power_state d"
  using power_events(4) [of env d] by simp

lemma power_schedule_at: "driver_task_schedule_notification_at e t d = Some d' \<Longrightarrow> power_state d' = power_state d"
  using schedule_at_more driver_more_eq(1) power_more by blast

lemma power_schedule: "driver_task_schedule_notification env e t d = Some d' \<Longrightarrow> power_state d' = power_state d"
  unfolding driver_task_schedule_notification_def
  by (auto split: prod.splits dest!: power_schedule_at power_time)

lemma power_queue [simp]:
  "power_state (release_pkt p d) = power_state d" "power_state (mmdrv_host_process_tx_status p d) = power_state d"
  "power_state (put_q qi mq d) = power_state d" "power_state (morse_skbq_data_traffic_pause d) = power_state d"
  "power_state (morse_skbq_data_traffic_resume d) = power_state d" "power_state (release_all ps d) = power_state d"
  by (simp_all add: release_pkt_def mmdrv_host_process_tx_status_def morse_skbq_data_traffic_pause_def
      morse_skbq_data_traffic_resume_def release_all_eq) (cases qi; simp add: power_state_def)

lemma power_complete: "morse_skbq_tx_complete ps mq d = (mq', d') \<Longrightarrow> power_state d' = power_state d"
  by (auto simp: morse_skbq_tx_complete_def split: if_splits)

lemma power_drop_loop: "drop_stale_loop limit ps d = (n, ps', d') \<Longrightarrow> power_state d' = power_state d"
proof (induction ps arbitrary: d n ps')
  case (Cons p ps)
  then show ?case by (fastforce split: if_splits prod.splits)
qed simp

lemma power_drop: "morse_skbq_drop_stale_pkts env mq d = (n, mq', d') \<Longrightarrow> power_state d' = power_state d"
  by (auto simp: morse_skbq_drop_stale_pkts_def split: prod.splits dest!: power_drop_loop power_time)

lemma power_finish:
  "skbq_data_tx_finish p sts mq d = Some (mq', d') \<Longrightarrow> power_state d' = power_state d"
  "skbq_cmd_finish p mq d = Some (mq', d') \<Longrightarrow> power_state d' = power_state d"
  by (auto simp: skbq_data_tx_finish_def skbq_cmd_finish_def Let_def
      split: Option.bind_splits option.splits if_splits)

lemma power_tx_finish: "morse_skbq_tx_finish p sts mq d = Some (mq', d') \<Longrightarrow> power_state d' = power_state d"
  by (auto simp: morse_skbq_tx_finish_def split: if_splits dest: power_finish)

lemma power_pending_walk: "pending_walk env n ps mq d = Some (f, mq', d') \<Longrightarrow> power_state d' = power_state d"
proof (induction ps arbitrary: d mq)
  case (Cons p ps)
  from Cons.prems show ?case
    by (auto split: if_splits Option.bind_splits prod.splits dest!: Cons.IH power_finish(1) power_time)
qed simp

lemma power_status_one: "tx_status_one env sts mq d = Some (b, mq', d') \<Longrightarrow> power_state d' = power_state d"
  by (auto simp: tx_status_one_def skbq_get_pending_by_id_def
      split: if_splits Option.bind_splits option.splits dest!: power_pending_walk power_finish(1) power_tx_finish)

lemma power_status_loop: "tx_status_loop env stss d = Some d' \<Longrightarrow> power_state d' = power_state d"
proof (induction stss arbitrary: d)
  case (Cons sts stss)
  from Cons.prems show ?case
    by (auto split: Option.bind_splits option.splits dest!: Cons.IH power_status_one)
qed simp

lemma power_stale_walk: "stale_walk env ps mq d = Some (n, mq', d') \<Longrightarrow> power_state d' = power_state d"
proof (induction ps arbitrary: d mq n)
  case (Cons p ps)
  from Cons.prems show ?case
    by (auto split: if_splits Option.bind_splits prod.splits dest!: Cons.IH power_finish(1) power_time)
qed simp

lemma power_timeout: "morse_ps_update_timeout env ms d = Some d' \<Longrightarrow> power_state d' = power_state d"
  using update_timeout_keeps [of env ms d d'] by (simp add: power_state_def)

lemma power_activity: "morse_ps_network_activity env d = Some d' \<Longrightarrow> power_state d' = power_state d"
  unfolding morse_ps_network_activity_def by (rule power_timeout)

lemma power_consec [simp]: "power_state (morse_hw_pager_update_consec_failure_cnt ret d) = power_state d"
  by (simp add: morse_hw_pager_update_consec_failure_cnt_def Let_def)

lemma power_lock: "yaps_hw_lock d = (ret, d') \<Longrightarrow> power_state d' = power_state d"
  by (auto simp: yaps_hw_lock_def split: if_splits)

lemma power_unlock [simp]: "power_state (yaps_hw_unlock d) = power_state d"
  by (simp add: yaps_hw_unlock_def)

lemma power_idle [simp]: "power_state (notify_if_idle d) = power_state d"
  by (simp add: notify_if_idle_def)

subsection \<open>The bus is used only while the chip is awake\<close>

text \<open>The driver has accessed the bus only while the wake pin was raised, unguarded accesses apart; and the chip is awake now.\<close>

definition bus_ok :: "driver_data \<Rightarrow> bool" where
  "bus_ok d \<longleftrightarrow> (case power_state d of (ini, wake, susp, irq, log) \<Rightarrow>
     ini \<and> (wake \<longleftrightarrow> \<not> susp) \<and> (susp \<longrightarrow> \<not> irq) \<and> (\<forall>x\<in>set log. fst x \<or> unguarded (snd x)))"

definition awake_ok :: "driver_data \<Rightarrow> bool" where
  "awake_ok d \<longleftrightarrow> bus_ok d \<and> (case power_state d of (ini, wake, susp, irq, log) \<Rightarrow> wake)"

lemma bus_ok_iff: "bus_ok d \<longleftrightarrow> ps_ok d \<and> (\<forall>x\<in>set (bus_log d). fst x \<or> unguarded (snd x))"
  by (simp add: bus_ok_def power_state_def ps_ok_def)

lemma awake_ok_iff: "awake_ok d \<longleftrightarrow> bus_ok d \<and> \<not> ps_suspended d"
  by (auto simp: bus_ok_def awake_ok_def power_state_def)

lemma bus_accessed:
  assumes "accessed P d d'" "bus_ok d" "wake_pin d \<or> P = unguarded"
  shows "bus_ok d' \<and> (awake_ok d \<longrightarrow> awake_ok d')"
proof -
  obtain bs where "bus_log d' = bus_log d @ map (Pair (wake_pin d)) bs" "list_all P bs" using assms(1) by (auto simp: accessed_def)
  then have "\<forall>x\<in>set (bus_log d'). fst x \<or> unguarded (snd x)"
    using assms(2,3) by (auto simp: bus_ok_iff list_all_iff)
  then show ?thesis using assms(1,2) by (auto simp: accessed_def bus_ok_iff awake_ok_iff ps_ok_def)
qed

lemma awake_power: "power_state d' = power_state d \<Longrightarrow> awake_ok d' = awake_ok d"
  by (simp add: awake_ok_def bus_ok_def)

lemma bus_power: "power_state d' = power_state d \<Longrightarrow> bus_ok d' = bus_ok d"
  by (simp add: bus_ok_def)

lemma awake_log [simp]: "awake_ok (log_bus b d) = awake_ok d"
  by (auto simp: awake_ok_def bus_ok_def power_state_def log_bus_def)

lemma awake_keep [simp]:
  "awake_ok (yaps_hw_unlock d) = awake_ok d" "awake_ok (tick d) = awake_ok d" "awake_ok (host c d) = awake_ok d"
  "awake_ok (d\<lparr>yaps_hw := hw\<rparr>) = awake_ok d" "awake_ok (morse_hw_pager_update_consec_failure_cnt ret d) = awake_ok d"
  "awake_ok (driver_task_notify_event e d) = awake_ok d" "awake_ok (put_q qi mq d) = awake_ok d"
  "awake_ok (release_all ps d) = awake_ok d" "awake_ok (d\<lparr>cmd_q := mq\<rparr>) = awake_ok d" "awake_ok (d\<lparr>chip_queue_full := b\<rparr>) = awake_ok d"
  "awake_ok (morse_skbq_data_traffic_pause d) = awake_ok d" "awake_ok (morse_skbq_data_traffic_resume d) = awake_ok d"
  by (simp_all add: awake_ok_def bus_ok_def)

lemma awake_lock: "yaps_hw_lock d = (ret, d') \<Longrightarrow> awake_ok d' = awake_ok d"
  by (rule awake_power) (rule power_lock)

lemma awake_time: "mmosal_get_time_ms env d = (now, d') \<Longrightarrow> awake_ok d' = awake_ok d"
  by (rule awake_power) (rule power_time)

lemma awake_write: "morse_yaps_hw_write_pkt env p q nxt d = Some (ret, d') \<Longrightarrow> awake_ok d' = awake_ok d"
  by (auto simp: morse_yaps_hw_write_pkt_def Let_def split: prod.splits if_splits Option.bind_splits dest!: awake_lock)

lemma awake_read: "morse_yaps_hw_read_pkt env d = Some (r, d') \<Longrightarrow> awake_ok d' = awake_ok d"
  by (auto simp: morse_yaps_hw_read_pkt_def Let_def split: prod.splits if_splits Option.bind_splits dest!: awake_lock)

lemma awake_status_loop:
  assumes "status_loop env limit d = Some (ret, d')"
  shows "awake_ok d' = awake_ok d"
proof -
  have "awake_ok (snd (ret, d')) = awake_ok d"
  proof (rule status_loop.raw_induct [where P = "\<lambda>env limit d r. awake_ok (snd r) = awake_ok d", OF _ assms], goal_cases)
    case (1 f env limit d r)
    from 1(2) show ?case by (auto simp: Let_def split: prod.splits if_splits dest!: 1(1) awake_time)
  qed
  then show ?thesis by simp
qed

lemma awake_update_status: "morse_yaps_hw_update_status env d = Some (ret, d') \<Longrightarrow> awake_ok d' = awake_ok d"
  by (auto simp: morse_yaps_hw_update_status_def Let_def split: prod.splits if_splits Option.bind_splits
      dest!: awake_lock awake_time awake_status_loop)

lemma awake_tx_loop: "tx_loop env q ps sent failed ret d = Some (s, f, r, d') \<Longrightarrow> awake_ok d' = awake_ok d"
proof (induction ps arbitrary: d sent failed ret)
  case (Cons p ps)
  from Cons.prems show ?case
    by (auto simp: Let_def split: prod.splits if_splits Option.bind_splits dest!: Cons.IH awake_write)
qed simp

lemma awake_tx: "morse_yaps_tx env qi d = Some (ret, d') \<Longrightarrow> awake_ok d' = awake_ok d"
  by (auto simp: morse_yaps_tx_def purge_pending_def Let_def split: prod.splits if_splits Option.bind_splits list.splits
      dest!: awake_tx_loop awake_power [OF power_drop] awake_power [OF power_complete])

lemma awake_tx_data_loop: "tx_data_loop env acis left d = Some (n, d') \<Longrightarrow> awake_ok d' = awake_ok d"
proof (induction acis arbitrary: left d)
  case (Cons aci acis)
  from Cons.prems show ?case
    by (auto simp: Let_def split: prod.splits if_splits Option.bind_splits dest!: Cons.IH awake_tx)
qed simp

lemma awake_handlers:
  "morse_yaps_tx_data_handler env d = Some (mo, d') \<Longrightarrow> awake_ok d' = awake_ok d"
  "morse_yaps_tx_handler env qi d = Some (mo, d') \<Longrightarrow> awake_ok d' = awake_ok d"
  by (auto simp: morse_yaps_tx_data_handler_def morse_yaps_tx_handler_def simp del: tx_data_loop.simps split: Option.bind_splits
      dest!: awake_tx_data_loop awake_tx)

lemma awake_status_process: "morse_skbq_tx_status_process env bs d = Some d' \<Longrightarrow> awake_ok d' = awake_ok d"
  by (rule awake_power) (auto simp: morse_skbq_tx_status_process_def split: Option.bind_splits dest!: power_status_loop)

lemma awake_process_rx: "morse_skbq_process_rx env bs d = Some d' \<Longrightarrow> awake_ok d' = awake_ok d"
  by (auto simp: morse_skbq_process_rx_def Let_def split: Option.bind_splits if_splits dest!: awake_status_process)

lemma awake_read_pkt:
  assumes "yaps_read_pkt env d = Some (mo, d')"
  shows "awake_ok d' = awake_ok d"
proof -
  from assms obtain ret pkt d1 where r: "morse_yaps_hw_read_pkt env d = Some ((ret, pkt), d1)"
    by (auto simp: yaps_read_pkt_def simp del: insert_iff split: Option.bind_splits)
  let ?d1 = "snd (mmosal_get_time_ms env d1)"
  have d1: "awake_ok d1 = awake_ok d" "awake_ok ?d1 = awake_ok d"
    using awake_read [OF r] awake_time [of env d1] by (cases "mmosal_get_time_ms env d1", simp)+
  show ?thesis
  proof (cases pkt)
    case None
    then show ?thesis using assms r d1 by (simp add: yaps_read_pkt_def) (auto)
  next
    case (Some bs)
    have "\<exists>ret d2. d' = morse_hw_pager_update_consec_failure_cnt ret d2 \<and> (d2 = ?d1 \<or> (\<exists>b. morse_skbq_process_rx env b ?d1 = Some d2))"
      using assms unfolding yaps_read_pkt_def r Some Let_def
      by (simp del: insert_iff split: Option.bind_split_asm if_split_asm prod.split_asm) blast+
    then show ?thesis using d1 awake_process_rx by fastforce
  qed
qed

lemma awake_rx_loop: "rx_loop env n d = Some (mo, d') \<Longrightarrow> awake_ok d' = awake_ok d"
proof (induction n arbitrary: d)
  case 0
  then show ?case by (auto split: Option.bind_splits dest!: awake_read_pkt)
next
  case (Suc n)
  from Suc.prems obtain b d1 where "yaps_read_pkt env d = Some (b, d1)" "(if b then rx_loop env n d1 else Some (b, d1)) = Some (mo, d')"
    by (subst (asm) rx_loop.simps) (auto split: Option.bind_splits)
  then show ?case using Suc.IH awake_read_pkt by (fastforce simp del: rx_loop.simps split: if_splits)
qed

subsection \<open>Power save around the work of the interface\<close>

lemma bus_wakeup:
  assumes "bus_ok d" "morse_ps_wakeup env d = Some d'"
  shows "awake_ok d'"
  using assms(1) wakeup_ok [OF _ assms(2)] wakeup_awake(4) [OF assms(2)]
  by (auto simp: awake_ok_iff bus_ok_iff split: if_splits)

lemma bus_evaluate:
  assumes "bus_ok d" "morse_ps_evaluate env d = Some d'"
  shows "bus_ok d' \<and> (must_be_awake env d \<longrightarrow> awake_ok d')"
proof -
  have ok: "ps_ok d" using assms(1) by (simp add: bus_ok_iff)
  show ?thesis
    using ok assms(2)
  proof (cases rule: evaluate_cases)
    case (awake d2)
    then have "bus_ok d2" using assms(1) power_more bus_power by blast
    then show ?thesis using bus_wakeup awake(3) awake_ok_iff by blast
  next
    case (idle d2)
    then have b: "bus_ok (tick d2)" using assms(1) power_more bus_power by (metis power_events(5))
    show ?thesis
    proof (cases "busy_is_asserted env (ticks d2)")
      case True
      then have "morse_ps_update_timeout env DEFAULT_BUS_TIMEOUT_MS (tick d2) = Some d'" using idle(4) by simp
      then show ?thesis using b idle(1) bus_power [OF power_timeout] by blast
    next
      case False
      then have "d' = morse_ps_sleep (tick d2)" using idle(4) by simp
      then show ?thesis using b idle(1) by (auto simp: bus_ok_def power_state_def morse_ps_sleep_def)
    qed
  qed
qed

lemma bus_disable:
  assumes "bus_ok d" "morse_ps_disable env w d = Some d'"
  shows "awake_ok d'"
proof -
  let ?d = "d\<lparr>ps_wakers := set_bit w (ps_wakers d)\<rparr>"
  have "bus_ok ?d" using assms(1) by (simp add: bus_ok_def)
  moreover have "morse_ps_evaluate env ?d = Some d'"
    using assms by (simp add: morse_ps_disable_def bus_ok_iff ps_ok_def)
  moreover have "bit (set_bit w (ps_wakers d)) w" by (simp add: bit_simps)
  then have "set_bit w (ps_wakers d) \<noteq> 0" by (metis bit_0_eq bot_apply bot_bool_def)
  then have "must_be_awake env ?d" by (simp add: must_be_awake_def)
  ultimately show ?thesis using bus_evaluate by blast
qed

lemma bus_clear: "driver_task_notification_check_and_clear e d = (b, d') \<Longrightarrow> bus_ok d' = bus_ok d"
  by (rule bus_power) (rule power_cleared)

lemma bus_enable:
  assumes "bus_ok d" "morse_ps_enable env w d = Some d'"
  shows "bus_ok d'"
proof -
  let ?d = "d\<lparr>ps_wakers := unset_bit w (ps_wakers d)\<rparr>"
  have "bus_ok ?d" using assms(1) by (simp add: bus_ok_def)
  moreover have "morse_ps_evaluate env ?d = Some d'"
    using assms by (simp add: morse_ps_enable_def bus_ok_iff ps_ok_def)
  ultimately show ?thesis using bus_evaluate by blast
qed

lemma bus_work:
  assumes "bus_ok d" "morse_ps_work env d = Some d'"
  shows "bus_ok d'"
proof -
  have ini: "ps_initialized d" using assms(1) by (simp add: bus_ok_iff ps_ok_def)
  obtain a d1 where d1: "driver_task_notification_check_and_clear DRV_EVT_PS_ASYNC_WAKEUP_PEND d = (a, d1)" by fastforce
  obtain e d2 where d2: "driver_task_notification_check_and_clear DRV_EVT_PS_DELAYED_EVAL_PEND d1 = (e, d2)" by fastforce
  obtain c d3 where d3: "driver_task_notification_check_and_clear DRV_EVT_PS_BUS_ACTIVITY_PEND d2 = (c, d3)" by fastforce
  have b3: "bus_ok d3" using assms(1) bus_clear d1 d2 d3 by blast
  obtain d4 where d4: "(if a then morse_ps_wakeup env d3 else Some d3) = Some d4"
    using assms(2) by (auto simp: morse_ps_work_def ini d1 d2 d3 split: Option.bind_splits)
  have b4: "bus_ok d4" using b3 d4 bus_wakeup awake_ok_iff by (cases a) auto
  obtain now d5 where t: "mmosal_get_time_ms env d4 = (now, d5)" by fastforce
  have b5: "bus_ok d5" using b4 bus_power [OF power_time [OF t]] by simp
  obtain x d6 where d6: "bus_ok d6" "(if x then morse_ps_evaluate env d6 else Some d6) = Some d'"
    using assms(2) b4 b5
    by (auto simp: morse_ps_work_def ini d1 d2 d3 d4 t split: Option.bind_splits if_splits
        dest!: bus_power [OF power_schedule_at])
  then show ?thesis using bus_evaluate by (cases x) auto
qed

lemma awake_tx_step:
  assumes "tx_step env e ms handler d = Some (b, d')"
    and "\<And>d more d'. handler env d = Some (more, d') \<Longrightarrow> awake_ok d' = awake_ok d"
  shows "awake_ok d' = awake_ok d"
  using assms(1) unfolding tx_step_def
  by (auto split: prod.splits if_splits Option.bind_splits
      dest!: assms(2) awake_power [OF power_cleared] awake_power [OF power_schedule])

lemma awake_when: "(\<And>d. awake_ok (f d) = awake_ok d) \<Longrightarrow> awake_ok (when_event e f d) = awake_ok d"
  by (auto simp: when_event_def split: prod.splits dest!: awake_power [OF power_cleared])

lemma awake_work_tx: 
  assumes "morse_yaps_work_tx env b d = Some d'"
  shows "awake_ok d' = awake_ok d"
  using assms unfolding morse_yaps_work_tx_def Let_def
  by (auto simp: awake_when split: prod.splits if_splits Option.bind_splits
      dest!: awake_tx_step awake_handlers awake_power [OF power_activity])

subsection \<open>The driver at work\<close>

lemma awake_bus: "awake_ok d \<Longrightarrow> bus_ok d"
  by (simp add: awake_ok_def)

lemma awake_rx_handler: "morse_yaps_rx_handler env d = Some (b, d') \<Longrightarrow> awake_ok d' = awake_ok d"
  unfolding morse_yaps_rx_handler_def by (rule awake_rx_loop)

lemma enable_awake: "morse_ps_enable env w d = Some d' \<Longrightarrow> awake_ok d \<Longrightarrow> bus_ok d'"
  using bus_enable awake_bus by blast

lemma bus_yaps_work:
  assumes "bus_ok d" "morse_yaps_work env d = Some d'"
  shows "bus_ok d'"
proof (cases "driver_task_notification_is_pending DRV_EVT_MASK_PAGESET d \<and> chip_if d")
  case False
  then show ?thesis using assms by (auto simp: morse_yaps_work_def split: if_splits)
next
  case True
  then show ?thesis
    using assms(2)
    by (auto simp: morse_yaps_work_def split: prod.splits if_splits Option.bind_splits
        dest!: bus_disable [OF assms(1)] awake_power [OF power_cleared] awake_rx_handler awake_update_status awake_work_tx
        dest: enable_awake)
qed

lemma power_stale_loop: "stale_loop env qis n d = Some (m, d') \<Longrightarrow> power_state d' = power_state d"
proof (induction qis arbitrary: n d)
  case (Cons qi qis)
  from Cons.prems show ?case
    by (auto simp: morse_skbq_check_for_stale_tx_def split: Option.bind_splits if_splits dest!: Cons.IH power_stale_walk)
qed simp

lemma power_stale_work: "morse_yaps_stale_tx_work env d = Some d' \<Longrightarrow> power_state d' = power_state d"
  by (auto simp: morse_yaps_stale_tx_work_def simp del: stale_loop.simps split: Option.bind_splits if_splits prod.splits
      dest!: power_stale_loop power_cleared)

lemma power_mmpkt_tx: "morse_skbq_mmpkt_tx env ch p mq d = Some (mq', d') \<Longrightarrow> power_state d' = power_state d"
  by (auto simp: morse_skbq_mmpkt_tx_def morse_skbq_tx_def split: Option.bind_splits prod.splits if_splits dest!: power_time)

lemma power_beacon_work: "morse_beacon_work env d = Some d' \<Longrightarrow> power_state d' = power_state d"
  by (auto simp: morse_beacon_work_def split: Option.bind_splits if_splits option.splits prod.splits
      dest!: power_cleared power_mmpkt_tx)

lemma power_tx_frame: "mmdrv_tx_frame env p m d = Some d' \<Longrightarrow> power_state d' = power_state d"
  by (auto simp: mmdrv_tx_frame_def Let_def split: Option.bind_splits if_splits dest!: power_mmpkt_tx)

lemma power_traffic: "handle_umac_traffic_control env b srcs m d = Some d' \<Longrightarrow> power_state d' = power_state d"
  by (auto simp: handle_umac_traffic_control_def Let_def split: if_splits prod.splits
      dest!: power_schedule power_cleared power_dropped)

lemma bus_turn:
  assumes "bus_ok d" "driver_turn env d = Some (b, d')"
  shows "bus_ok d'"
proof -
  obtain s d1 where d1: "driver_task_notification_check_and_clear DRV_EVT_STOP_NOTICATION d = (s, d1)" by fastforce
  let ?d1 = "if s then host Hw_Restart_Required (coredump_log_assert_info env d1) else d1"
  have "bus_ok d1" using assms(1) bus_clear [OF d1] by simp
  then have b1: "bus_ok ?d1"
    using bus_accessed [OF accessed_coredump, of d1 env] by (simp add: bus_power [OF power_events(6)])
  show ?thesis
  proof (cases "driver_task_notification_check DRV_EVT_SHUTDOWN ?d1")
    case True
    then show ?thesis using assms(2) b1 by (simp add: driver_turn_def d1)
  next
    case False
    obtain d2 d3 d4 where d: "morse_ps_work env ?d1 = Some d2" "morse_beacon_work env d2 = Some d3"
      "morse_yaps_work env d3 = Some d4" "morse_yaps_stale_tx_work env d4 = Some d'"
      using assms(2) False by (auto simp: driver_turn_def d1 Let_def split: Option.bind_splits)
    have "bus_ok d3" using bus_work [OF b1 d(1)] bus_power [OF power_beacon_work [OF d(2)]] by simp
    then have "bus_ok d4" using bus_yaps_work d(3) by blast
    then show ?thesis using bus_power [OF power_stale_work [OF d(4)]] by simp
  qed
qed

lemma power_raise: "power_state (raise_events env d) = power_state d"
proof -
  have "power_state (fold driver_task_notify_event_from_isr es d) = power_state d" for es d
    by (induction es arbitrary: d) simp_all
  then show ?thesis by (simp add: raise_events_def)
qed

lemma bus_drain:
  assumes "driver_drain env d = Some (b, d')" "bus_ok d"
  shows "bus_ok d'"
proof -
  have "bus_ok d \<longrightarrow> bus_ok (snd (b, d'))"
  proof (rule driver_drain.raw_induct [where P = "\<lambda>env d r. bus_ok d \<longrightarrow> bus_ok (snd r)", OF _ assms(1)], goal_cases)
    case (1 f env d r)
    let ?d = "raise_events env d"
    have b: "bus_ok ?d = bus_ok d" by (rule bus_power) (rule power_raise)
    from 1(2) show ?case
      by (auto simp: Let_def b split: if_splits Option.bind_splits dest: bus_turn dest!: 1(1))
        (metis b bus_turn snd_conv)+
  qed
  then show ?thesis using assms(2) by simp
qed

text \<open>
  The driver from its start, which enables the interrupts of the chip: rounds of its task, and in between what other tasks
  and interrupts do: frames of the UMAC, the interrupt of the chip and the task that handles it, beacons that are started and
  stopped, wakers that are set or cleared, events and the control of traffic. A waker that is set or cleared
  synchronously is evaluated at once.
\<close>

inductive driver_run :: "'e chip_env_scheme \<Rightarrow> driver_data \<Rightarrow> bool" for env where
  run_start: "bus_log d = [] \<Longrightarrow> driver_run env (morse_trns_set_irq_enabled env True (morse_ps_init d))"
| run_round: "driver_run env d \<Longrightarrow> driver_task_round env d = Some (ms, d') \<Longrightarrow> driver_run env d'"
| run_frame: "driver_run env d \<Longrightarrow> mmdrv_tx_frame env p m d = Some d' \<Longrightarrow> driver_run env d'"
| run_event: "driver_run env d \<Longrightarrow> driver_run env (driver_task_notify_event e d)"
| run_chip_irq: "driver_run env d \<Longrightarrow> driver_run env (morse_spi_irq_handler d)"
| run_irq_task: "driver_run env d \<Longrightarrow> driver_run env (morse_spi_irq_turn env d)"
| run_busy_irq: "driver_run env d \<Longrightarrow> driver_run env (morse_ps_irq_handle d)"
| run_traffic: "driver_run env d \<Longrightarrow> handle_umac_traffic_control env b srcs m d = Some d' \<Longrightarrow> driver_run env d'"
| run_beacon_start: "driver_run env d \<Longrightarrow> driver_run env (snd (morse_beacon_start env vif_id d))"
| run_beacon_stop: "driver_run env d \<Longrightarrow> driver_run env (snd (morse_beacon_stop env d))"
| run_enable: "driver_run env d \<Longrightarrow> morse_ps_enable env w d = Some d' \<Longrightarrow> driver_run env d'"
| run_disable: "driver_run env d \<Longrightarrow> morse_ps_disable env w d = Some d' \<Longrightarrow> driver_run env d'"
| run_enable_async: "driver_run env d \<Longrightarrow> driver_run env (morse_ps_enable_async w d)"
| run_disable_async: "driver_run env d \<Longrightarrow> driver_run env (morse_ps_disable_async w d)"

lemma power_process: "power_state (driver_task_process_scheduled_evts env d) = power_state d"
proof -
  have "process_evts env es d = (es', d') \<Longrightarrow> power_state d' = power_state d" for es es' d'
  proof (induction es arbitrary: d es')
    case (Cons x es)
    obtain e t where x: "x = (e, t)" by fastforce
    from Cons.prems show ?case
      by (auto simp: x mmosal_get_time_ms_def Let_def split: prod.splits if_splits dest!: Cons.IH)
  qed simp
  then show ?thesis by (auto simp: driver_task_process_scheduled_evts_def split: prod.splits)
qed

lemma bus_round:
  assumes "bus_ok d" "driver_task_round env d = Some (ms, d')"
  shows "bus_ok d'"
proof -
  let ?d = "driver_task_process_scheduled_evts env d"
  obtain b d1 where d1: "driver_drain env ?d = Some (b, d1)"
    using assms(2) by (auto simp: driver_task_round_def Let_def split: Option.bind_splits)
  have b1: "bus_ok d1" by (rule bus_drain [OF d1]) (use assms(1) bus_power [OF power_process] in blast)
  then show ?thesis
    using assms(2)
    by (auto simp: driver_task_round_def d1 driver_task_wait_ms_def bus_ok_def split: if_splits option.splits prod.splits
        dest!: power_time)
qed

lemma bus_irq_enable: "bus_ok d \<Longrightarrow> bus_ok (snd (morse_beacon_set_irq_enabled env enable d))"
  unfolding morse_beacon_set_irq_enabled_def using bus_accessed [OF accessed_irq_enable] by blast

lemma bus_beacon_start: "bus_ok d \<Longrightarrow> bus_ok (snd (morse_beacon_start env vif_id d))"
  unfolding morse_beacon_start_def by (rule bus_irq_enable) (simp add: bus_ok_def, simp add: power_state_def)

lemma bus_beacon_stop:
  assumes "bus_ok d"
  shows "bus_ok (snd (morse_beacon_stop env d))"
proof -
  define r where "r = (if beacon_enabled d \<and> beacon_vif_id d \<noteq> 65535 then morse_beacon_set_irq_enabled env False d else (0, d))"
  have "bus_ok (snd r)" using assms bus_irq_enable [of d env False] by (simp add: r_def)
  moreover have "snd (morse_beacon_stop env d) = snd r\<lparr>beacon_enabled := False, beacon_vif_id := 65535\<rparr>"
    by (cases r) (simp add: morse_beacon_stop_def r_def [symmetric])
  ultimately show ?thesis by (simp add: bus_ok_def power_state_def)
qed

lemma driver_run_bus_ok: "driver_run env d \<Longrightarrow> bus_ok d"
proof (induction rule: driver_run.induct)
  case (run_start d)
  let ?d = "morse_ps_init d\<lparr>irq_enabled := True\<rparr>"
  have "bus_ok ?d" "wake_pin ?d" using run_start by (simp_all add: bus_ok_iff ps_ok_def morse_ps_init_def)
  then show ?case using bus_accessed [OF set_irq_accessed [of "morse_ps_init d" env]] by blast
next
  case (run_round d ms d')
  then show ?case using bus_round by blast
next
  case (run_frame d p m d')
  then show ?case using bus_power power_tx_frame by blast
next
  case (run_event d e)
  then show ?case using bus_power power_events(1) by blast
next
  case (run_chip_irq d)
  then show ?case by (simp add: morse_spi_irq_handler_def bus_ok_def power_state_def)
next
  case (run_irq_task d)
  then show ?case using bus_accessed [OF accessed_irq_handle [of d env]] by (auto simp: morse_spi_irq_turn_def bus_ok_iff ps_ok_def)
next
  case (run_beacon_start d vif_id)
  from run_beacon_start(2) show ?case by (rule bus_beacon_start)
next
  case (run_beacon_stop d)
  from run_beacon_stop(2) show ?case by (rule bus_beacon_stop)
next
  case (run_busy_irq d)
  then show ?case by (auto simp: morse_ps_irq_handle_def bus_ok_def)
next
  case (run_traffic d b srcs m d')
  then show ?case using bus_power power_traffic by blast
next
  case (run_enable d w d')
  then show ?case using bus_enable by blast
next
  case (run_disable d w d')
  then show ?case using bus_disable awake_bus by blast
next
  case (run_enable_async d w)
  then show ?case by (simp add: morse_ps_enable_async_def bus_ok_def)
next
  case (run_disable_async d w)
  then show ?case by (simp add: morse_ps_disable_async_def bus_ok_def)
qed

end
