(* ===== verification/Driver_Correct.thy ===== *)
theory Driver_Correct
  imports Driver_Awake
begin

section \<open>Properties of the driver\<close>

text \<open>
  When the chip sleeps, that the bus is used only while it is awake, what happens to the events that nobody handles or that do
  not fit the table of scheduled events, and what the chip reads from the header of a packet.
\<close>

subsection \<open>An event nobody handles\<close>

text \<open>Turns of the inner loop of the driver task.\<close>

fun driver_turns :: "'e chip_env_scheme \<Rightarrow> nat \<Rightarrow> driver_data \<Rightarrow> (bool \<times> driver_data) option" where
  "driver_turns env 0 d = Some (False, d)"
| "driver_turns env (Suc n) d = do {
     (stopped, d) \<leftarrow> driver_turn env (raise_events env d);
     (if stopped then Some (True, d) else driver_turns env n d)
   }"

lemma unset_others:
  assumes "pending_evts d = 2 ^ e" "f \<noteq> e"
  shows "driver_task_notification_check_and_clear f d = (False, d)"
proof -
  have "unset_bit f (2 ^ e) = (2 ^ e :: nat)" using assms(2) by (intro bit_eqI) (auto simp: bit_simps)
  then show ?thesis
    using assms by (cases d) (auto simp: driver_task_notification_check_and_clear_def bit_exp_iff)
qed

lemma mask_pageset_10 [simp]: "and 1024 DRV_EVT_MASK_PAGESET = 0"
  by (simp add: DRV_EVT_MASK_PAGESET_def)

lemma pause_timeout_turn:
  assumes "pending_evts d = 2 ^ DRV_EVT_TRAFFIC_PAUSE_TIMEOUT"
  shows "driver_turn env d = Some (False, d)"
proof -
  note other = unset_others [OF assms]
  have "\<not> driver_task_notification_check DRV_EVT_SHUTDOWN d"
    using assms by (simp add: driver_task_notification_check_def bit_simps)
  moreover have "\<not> driver_task_notification_is_pending DRV_EVT_MASK_PAGESET d"
    using assms by (simp add: driver_task_notification_is_pending_def)
  ultimately show ?thesis
    by (simp add: driver_turn_def morse_ps_work_def morse_beacon_work_def morse_yaps_work_def morse_yaps_stale_tx_work_def
        other Let_def)
qed

lemma raise_nothing: "\<forall>k. raised_events env k = [] \<Longrightarrow> raise_events env d = tick d"
  by (simp add: raise_events_def tick_def)

lemma pause_timeout_drain:
  assumes "\<forall>k. raised_events env k = []" "pending_evts d = 2 ^ DRV_EVT_TRAFFIC_PAUSE_TIMEOUT"
  shows "driver_drain env d = None"
proof (rule ccontr)
  assume "driver_drain env d \<noteq> None"
  then obtain r where r: "driver_drain env d = Some r" by auto
  have "\<not> ((\<forall>k. raised_events env k = []) \<and> pending_evts d = 2 ^ DRV_EVT_TRAFFIC_PAUSE_TIMEOUT)"
  proof (rule driver_drain.raw_induct [where P =
        "\<lambda>env d r. \<not> ((\<forall>k. raised_events env k = []) \<and> pending_evts d = 2 ^ DRV_EVT_TRAFFIC_PAUSE_TIMEOUT)", OF _ r], goal_cases)
    case (1 f env d r)
    show ?case
    proof
      assume a: "(\<forall>k. raised_events env k = []) \<and> pending_evts d = 2 ^ DRV_EVT_TRAFFIC_PAUSE_TIMEOUT"
      then have p: "pending_evts (tick d) = 2 ^ DRV_EVT_TRAFFIC_PAUSE_TIMEOUT" by (simp add: tick_def)
      from 1(2) have "f env (tick d) = Some r"
        using a pause_timeout_turn [OF p, of env] p by (simp add: raise_nothing Let_def)
      from 1(1) [OF this] show False using a p by simp
    qed
  qed
  then show False using assms by simp
qed

lemma pause_timeout_turns:
  assumes "\<forall>k. raised_events env k = []" "pending_evts d = 2 ^ DRV_EVT_TRAFFIC_PAUSE_TIMEOUT"
  shows "driver_turns env n d = Some (False, d\<lparr>ticks := ticks d + n\<rparr>)"
  using assms(2)
proof (induction n arbitrary: d)
  case (Suc n)
  then have p: "pending_evts (tick d) = 2 ^ DRV_EVT_TRAFFIC_PAUSE_TIMEOUT" by (simp add: tick_def)
  show ?case
    using Suc.IH [OF p] pause_timeout_turn [OF p, of env]
    by (simp add: raise_nothing [OF assms(1)]) (simp add: tick_def)
qed simp

text \<open>C38. The timeout that ends a pause of the traffic does nothing when it fires alone: it is not among the events that the
  interface looks at, so that no handler clears it. The inner loop of the driver task then spins, without changing anything, for any
  number of turns; it does not return to the scheduled events, and the traffic stays paused, until another event is raised.\<close>

theorem pause_timeout_spins:
  assumes "\<forall>k. raised_events env k = []"
    and "pending_evts (driver_task_process_scheduled_evts env d) = 2 ^ DRV_EVT_TRAFFIC_PAUSE_TIMEOUT"
  shows "driver_turns env n (driver_task_process_scheduled_evts env d)
      = Some (False, (driver_task_process_scheduled_evts env d)\<lparr>ticks := ticks (driver_task_process_scheduled_evts env d) + n\<rparr>)
    \<and> driver_task_round env d = None"
  using pause_timeout_turns [OF assms] pause_timeout_drain [OF assms] by (simp add: driver_task_round_def)

text \<open>Traffic is paused, the table holds the timeout, and it is due.\<close>

theorem pause_timeout_spins_witness:
  "\<exists>d. bit (state_flags d) 0 \<and> pending_evts d = 0 \<and> driver_task_round quiet_env d = None
    \<and> (\<forall>n. \<exists>d'. driver_turns quiet_env n (driver_task_process_scheduled_evts quiet_env d) = Some (False, d'))"
proof -
  let ?d = "idle_driver\<lparr>state_flags := 1, scheduled_evts := [(DRV_EVT_TRAFFIC_PAUSE_TIMEOUT, 1000), (0, 0), (0, 0), (0, 0)]\<rparr>"
  have due: "mmosal_time_has_passed (u32 1000) 1000"
    by (simp add: mmosal_time_has_passed_def mmosal_time_lt_def mmosal_time_le_def u32_def s32_def sub32_def)
  have "pending_evts (driver_task_process_scheduled_evts quiet_env ?d) = 2 ^ DRV_EVT_TRAFFIC_PAUSE_TIMEOUT"
    using due by (simp add: driver_task_process_scheduled_evts_def mmosal_get_time_ms_def quiet_env_def idle_driver_def
        set_bit_eq_or)
  moreover have "\<forall>k. raised_events quiet_env k = []" by (simp add: quiet_env_def)
  ultimately have spin: "driver_task_round quiet_env ?d = None"
    "\<exists>d'. driver_turns quiet_env n (driver_task_process_scheduled_evts quiet_env ?d) = Some (False, d')" for n
    using pause_timeout_spins [of quiet_env ?d n] by blast+
  have "bit (state_flags ?d) 0" "pending_evts ?d = 0" by (simp_all add: idle_driver_def bit_simps)
  then show ?thesis using spin by blast
qed

subsection \<open>A round of the driver task\<close>

text \<open>The chip announces a packet and has none: the driver reads a delimiter that is zero.\<close>

lemma quiet_time [simp]: "mmosal_get_time_ms quiet_env d = (1000, d\<lparr>ticks := ticks d + 1\<rparr>)"
  by (simp add: mmosal_get_time_ms_def quiet_env_def u32_def)

lemma quiet_raise: "raise_events quiet_env d = tick d"
  by (simp add: raise_events_def quiet_env_def tick_def)

lemma no_event: "pending_evts d = 0 \<Longrightarrow> driver_task_notification_check_and_clear e d = (False, d)"
  by (cases d) (simp add: driver_task_notification_check_and_clear_def unset_bit_eq_and_not)

lemma no_event_steps:
  assumes "pending_evts d = 0"
  shows "tx_step env e ms h d = Some (False, d)" "when_event e f d = d"
  by (simp_all add: tx_step_def when_event_def no_event [OF assms])

lemma quiet_rx:
  assumes "\<not> access_lock d"
  shows "morse_yaps_rx_handler quiet_env d = Some (False, d\<lparr>bus_log := bus_log d @ [(wake_pin d, Read_Delimiter)],
    ticks := ticks d + 1, access_lock := False, pageset_consec_failure_cnt := 0\<rparr>)"
proof -
  have "morse_yaps_hw_read_pkt quiet_env d = Some ((0, None), d\<lparr>bus_log := bus_log d @ [(wake_pin d, Read_Delimiter)],
      ticks := ticks d + 1, access_lock := False\<rparr>)"
    using assms by (simp add: morse_yaps_hw_read_pkt_def yaps_hw_lock_def yaps_hw_unlock_def log_bus_def Let_def
        quiet_env_def)
  then have "yaps_read_pkt quiet_env d = Some (False, d\<lparr>bus_log := bus_log d @ [(wake_pin d, Read_Delimiter)],
      ticks := ticks d + 1, access_lock := False, pageset_consec_failure_cnt := 0\<rparr>)"
    by (simp add: yaps_read_pkt_def morse_hw_pager_update_consec_failure_cnt_def)
  then show ?thesis
    by (simp add: morse_yaps_rx_handler_def)
qed

lemma unset_own: "unset_bit e (2 ^ e) = (0 :: nat)"
  by (intro bit_eqI) (auto simp: bit_simps)

lemma unset_1_3: "unset_bit (Suc 0) 3 = (1 :: nat)"
proof -
  have "set_bit 1 (1 :: nat) = 3" by (simp add: set_bit_eq_or)
  then have "unset_bit 1 3 = (unset_bit 1 (set_bit 1 1) :: nat)" by simp
  also have "\<dots> = 1" by (intro bit_eqI) (auto simp: bit_simps bit_1_iff)
  finally show ?thesis by simp
qed

lemma evt_slot_hd: "evt_slot e ((e, t) # es) = Some 0"
  by (simp add: evt_slot_def upt_conv_Cons del: upt_Suc)

text \<open>An evaluation that finds a waker while the chip is awake.\<close>

lemma evaluate_waker:
  assumes "ps_initialized d" "\<not> ps_suspended d" "ps_wakers d \<noteq> 0" "\<not> stale_enabled d"
    and "driver_is_data_tx_allowed d"
    and "mmosal_time_has_passed 1000 (bus_ps_timeout d) \<or> scheduled_evts d \<noteq> [] \<and> hd (scheduled_evts d) = (DRV_EVT_PS_BUS_ACTIVITY_PEND, bus_ps_timeout d)"
  shows "morse_ps_evaluate quiet_env d = Some (d\<lparr>ticks := ticks d + 1\<rparr>)"
proof -
  have "driver_task_schedule_notification_at DRV_EVT_PS_BUS_ACTIVITY_PEND (bus_ps_timeout d) (d\<lparr>ticks := ticks d + 1\<rparr>)
      = Some (d\<lparr>ticks := ticks d + 1\<rparr>)" if "\<not> mmosal_time_has_passed 1000 (bus_ps_timeout d)"
    using assms(6) that
    by (cases "scheduled_evts d") (auto simp: driver_task_schedule_notification_at_def evt_slot_hd)
  then show ?thesis
    using assms by (auto simp: morse_ps_evaluate_def Let_def morse_ps_wakeup_def)
qed

definition announced :: driver_data where
  "announced = driver_task_notify_event DRV_EVT_RX_PEND (morse_ps_init (idle_driver\<lparr>stale_enabled := False\<rparr>))"

lemma announced_round:
  "\<exists>ms d. driver_task_round quiet_env announced = Some (ms, d) \<and> bus_log d = [(True, Read_Delimiter)]"
proof -
  let ?i = "idle_driver\<lparr>stale_enabled := False, ps_wakers := 1\<rparr>"
  have i0: "announced = ?i\<lparr>pending_evts := 2, dt_semb := True\<rparr>"
    by (simp add: announced_def morse_ps_init_def driver_task_notify_event_def idle_driver_def set_bit_eq_or)
  let ?d0 = "?i\<lparr>pending_evts := 2, dt_semb := True\<rparr>"
  have passed: "mmosal_time_has_passed 1000 0" "\<not> mmosal_time_has_passed 1000 1100" "mmosal_time_lt 0 1100"
    by (simp_all add: mmosal_time_has_passed_def mmosal_time_le_def mmosal_time_lt_def u32_def s32_def sub32_def)
  have proc: "driver_task_process_scheduled_evts quiet_env ?d0 = ?d0"
    by (simp add: driver_task_process_scheduled_evts_def idle_driver_def replicate_4)
  define d1 where "d1 = ?d0\<lparr>ticks := 2, ps_wakers := 3\<rparr>"
  have dis: "morse_ps_disable quiet_env PS_WAKER_PAGESET (tick ?d0) = Some d1"
    using evaluate_waker [of "tick ?d0\<lparr>ps_wakers := 3\<rparr>"] passed
    by (simp add: morse_ps_disable_def tick_def d1_def idle_driver_def set_bit_eq_or driver_is_data_tx_allowed_def
        driver_task_notification_check_def bit_simps)
  define d2 where "d2 = d1\<lparr>pending_evts := 0\<rparr>"
  have clr: "driver_task_notification_check_and_clear DRV_EVT_RX_PEND d1 = (True, d2)"
    by (simp add: driver_task_notification_check_and_clear_def d1_def d2_def bit_simps unset_own [of 1, simplified])
  define d3 where "d3 = d2\<lparr>bus_log := [(True, Read_Delimiter)], ticks := 3, pageset_consec_failure_cnt := 0\<rparr>"
  have rx: "morse_yaps_rx_handler quiet_env d2 = Some (False, d3)"
    using quiet_rx [of d2] by (simp add: d1_def d2_def d3_def idle_driver_def)
  have p3: "pending_evts d3 = 0" "\<not> chip_queue_full d3" by (simp_all add: d3_def d2_def idle_driver_def d1_def)
  define d4 where "d4 = d3\<lparr>ticks := 4, bus_ps_timeout := 1100, scheduled_evts := [(13, 1100), (0, 0), (0, 0), (0, 0)]\<rparr>"
  have tx: "morse_yaps_work_tx quiet_env True d3 = Some d4"
    using passed
    by (simp add: morse_yaps_work_tx_def no_event_steps p3 morse_ps_network_activity_def morse_ps_update_timeout_def Let_def)
      (simp add: d4_def d3_def d2_def d1_def idle_driver_def u32_def driver_task_schedule_notification_at_def replicate_4 evt_slot_def)
  have en: "morse_ps_enable quiet_env PS_WAKER_PAGESET d4 = Some (d4\<lparr>ps_wakers := 1, ticks := 5\<rparr>)"
    using evaluate_waker [of "d4\<lparr>ps_wakers := 1\<rparr>"] passed
    by (simp add: morse_ps_enable_def d4_def d3_def d2_def d1_def idle_driver_def unset_1_3 driver_is_data_tx_allowed_def
        driver_task_notification_check_def)
  define d5 where "d5 = d4\<lparr>ps_wakers := 1, ticks := 5\<rparr>"
  have work: "morse_yaps_work quiet_env (tick ?d0) = Some d5"
    using dis clr rx tx en
    by (simp add: morse_yaps_work_def d5_def driver_task_notification_is_pending_def DRV_EVT_MASK_PAGESET_def tick_def idle_driver_def)
      (simp add: d3_def d2_def)
  have p: "pending_evts (tick ?d0) = 2 ^ 1" "\<not> beacon_work_fn (tick ?d0)" "pending_evts d5 = 0"
    by (simp_all add: tick_def idle_driver_def d5_def d4_def d3_def d2_def)
  have turn: "driver_turn quiet_env (tick ?d0) = Some (False, d5)"
    using unset_others [OF p(1)] p work
    by (simp add: driver_turn_def morse_ps_work_def morse_beacon_work_def morse_yaps_stale_tx_work_def no_event Let_def
        driver_task_notification_check_def bit_simps)
  have "driver_drain quiet_env d5 = Some (False, tick d5)"
    by (subst driver_drain.simps) (simp add: quiet_raise p Let_def, simp add: tick_def p)
  then have "driver_drain quiet_env ?d0 = Some (False, tick d5)"
    using turn by (subst driver_drain.simps) (simp add: quiet_raise Let_def, simp add: tick_def)
  moreover have "bus_log (tick d5) = [(True, Read_Delimiter)]"
    by (simp add: tick_def d5_def d4_def d3_def)
  ultimately show ?thesis
    unfolding i0 driver_task_round_def Let_def proc by (simp add: driver_task_wait_ms_def split: option.split)
qed

text \<open>C36. The bus is used only while the chip is awake, but for two places: whatever the rounds of the driver task, the interrupts of
  the chip and the operations of other tasks in between, every access to the bus has been made with the wake pin raised, unless
  it is one of those that the driver makes without waking the chip (\<open>unguarded\<close>: reading the assertion of a firmware that has
  stopped, and enabling or disabling the interrupt of the beacon); and the pin, the interrupt and what the driver believes about
  the chip agree.\<close>

theorem bus_only_while_awake:
  assumes "driver_run env d"
  shows "ps_initialized d \<and> (wake_pin d \<longleftrightarrow> \<not> ps_suspended d) \<and> (irq_enabled d \<longrightarrow> \<not> ps_suspended d)
    \<and> (\<forall>(pin, access)\<in>set (bus_log d). pin \<or> unguarded access)"
  using driver_run_bus_ok [OF assms] by (auto simp: bus_ok_iff ps_ok_def)

lemma quiet_start:
  assumes "bus_log d = []" "irq_enabled d"
  shows "driver_run quiet_env (morse_ps_init d)"
proof -
  have "morse_trns_set_irq_enabled quiet_env True (morse_ps_init d) = morse_ps_init d"
    using assms(2) by (simp add: morse_trns_set_irq_enabled_def morse_ps_init_def)
  then show ?thesis using run_start [OF assms(1), of quiet_env] by simp
qed

theorem bus_only_while_awake_witness:
  "\<exists>d. driver_run quiet_env d \<and> bus_log d = [(True, Read_Delimiter)] \<and> (wake_pin d \<longleftrightarrow> \<not> ps_suspended d)"
proof -
  have "driver_run quiet_env announced"
    unfolding announced_def by (intro run_event quiet_start) (simp_all add: idle_driver_def)
  moreover obtain ms d where d: "driver_task_round quiet_env announced = Some (ms, d)" "bus_log d = [(True, Read_Delimiter)]"
    using announced_round by blast
  ultimately have "driver_run quiet_env d" using run_round by blast
  from bus_only_while_awake [OF this] this d(2) show ?thesis by blast
qed

lemma stop_turn:
  assumes "pending_evts d = 2 ^ DRV_EVT_STOP_NOTICATION"
  shows "driver_turn env d = Some (False, host Hw_Restart_Required (coredump_log_assert_info env (d\<lparr>pending_evts := 0\<rparr>)))"
proof -
  let ?d = "host Hw_Restart_Required (coredump_log_assert_info env (d\<lparr>pending_evts := 0\<rparr>))"
  have clr: "driver_task_notification_check_and_clear DRV_EVT_STOP_NOTICATION d = (True, d\<lparr>pending_evts := 0\<rparr>)"
    unfolding driver_task_notification_check_and_clear_def assms by (simp only: unset_own bit_exp_iff possible_bit_nat) simp
  have p: "pending_evts ?d = 0" by (simp add: host_def)
  show ?thesis
    using p no_event [OF p]
    by (simp add: driver_turn_def clr morse_ps_work_def morse_beacon_work_def morse_yaps_work_def morse_yaps_stale_tx_work_def Let_def
        driver_task_notification_check_def driver_task_notification_is_pending_def)
qed

text \<open>A firmware that stops while the chip is let to sleep: the notification does not keep the chip awake, and the driver looks for
  the assertion of the firmware without waking the chip. Whenever the notification is the only event left and the chip has been put
  to sleep, the next turn of the task reads the memory of the chip, for the first region of an assertion that the
  firmware has declared, with the wake pin low.\<close>

theorem coredump_read_while_asleep:
  assumes "\<forall>k. raised_events env k = []" "pending_evts d = 2 ^ DRV_EVT_STOP_NOTICATION" "\<not> wake_pin d"
    and "memory_regions d = region # regions" "cr_type region = MORSE_MEM_REGION_TYPE_ASSERT_INFO"
    and "9 \<le> cr_len region" "cr_len region mod 4 = 0" "\<forall>k n. alloc_info env k n"
  shows "\<exists>d'. driver_drain env d = Some (False, d') \<and> \<not> wake_pin d'
    \<and> (False, Read_Memory (cr_start region) (cr_len region)) \<in> set (bus_log d')"
proof -
  let ?d0 = "tick d\<lparr>pending_evts := 0\<rparr>"
  let ?d1 = "log_bus (Read_Memory (cr_start region) (cr_len region)) (tick ?d0)"
  define dc where "dc = coredump_log_assert_info env ?d0"
  have r: "morse_trns_read_multi_byte env (cr_start region) (cr_len region) (tick ?d0) = (bus_memory env (ticks (tick ?d0)), ?d1)"
    using assms(6,7) by (auto simp: morse_trns_read_multi_byte_def)
  have m: "memory_regions ?d0 = region # regions" using assms(4) by (simp add: tick_def)
  have "accessed unguarded ?d1 (coredump_loop env regions ?d1)" by (rule accessed_loop)
  then have "accessed unguarded ?d1 dc"
    using assms(5,6,8) r unfolding dc_def coredump_log_assert_info_def m
    by (cases "bus_memory env (ticks (tick ?d0))") (simp add: Let_def)
  then have "\<not> wake_pin dc" "(False, Read_Memory (cr_start region) (cr_len region)) \<in> set (bus_log dc)"
    using assms(3) by (auto simp: accessed_def log_bus_def tick_def)
  moreover have "driver_drain env d = driver_drain env (host Hw_Restart_Required dc)"
    using stop_turn [of "tick d" env] assms(1,2)
    by (subst driver_drain.simps) (simp add: raise_nothing Let_def dc_def, simp add: tick_def)
  moreover have "pending_evts dc = 0" by (simp add: dc_def)
  then have "driver_drain env (host Hw_Restart_Required dc) = Some (False, tick (host Hw_Restart_Required dc))"
    using assms(1) by (subst driver_drain.simps) (simp add: raise_nothing Let_def, simp add: tick_def host_def)
  ultimately show ?thesis by (auto simp: tick_def host_def)
qed

text \<open>The UMAC lets the chip sleep after the notification has been raised.\<close>

theorem coredump_read_while_asleep_witness:
  "\<exists>d d'. driver_run quiet_env d \<and> ps_suspended d \<and> driver_drain quiet_env d = Some (False, d')
    \<and> (False, Read_Memory 4096 64) \<in> set (bus_log d')"
proof -
  let ?i = "idle_driver\<lparr>stale_enabled := False,
    memory_regions := [\<lparr>cr_type = MORSE_MEM_REGION_TYPE_ASSERT_INFO, cr_start = 4096, cr_len = 64\<rparr>]\<rparr>"
  define d where "d = driver_task_notify_event DRV_EVT_STOP_NOTICATION (morse_ps_init ?i)"
  define d1 where "d1 = morse_ps_sleep (?i\<lparr>pending_evts := 2 ^ 16, dt_semb := True, ticks := Suc (Suc 0)\<rparr>)"
  have run: "driver_run quiet_env d"
    unfolding d_def by (intro run_event quiet_start) (simp_all add: idle_driver_def)
  have wakers: "unset_bit 0 (Suc 0) = 0" using unset_own [of 0] by simp
  have d: "d\<lparr>ps_wakers := 0\<rparr> = ?i\<lparr>pending_evts := 2 ^ 16, dt_semb := True\<rparr>"
    by (simp add: d_def morse_ps_init_def driver_task_notify_event_def idle_driver_def set_bit_eq_or)
  have passed: "mmosal_time_has_passed 1000 0"
    by (simp add: mmosal_time_has_passed_def mmosal_time_le_def u32_def s32_def sub32_def)
  have count: "morse_yaps_get_tx_buffered_count (?i\<lparr>pending_evts := n, dt_semb := True\<rparr>) = 0" for n
    by (simp add: morse_yaps_get_tx_buffered_count_def idle_driver_def morse_skbq_init_def replicate_4
        morse_skbq_count_tx_ready_def morse_skbq_count_def)
  have facts: "\<not> driver_task_notification_is_pending DRV_EVT_MASK_PAGESET (?i\<lparr>pending_evts := 2 ^ 16, dt_semb := True\<rparr>)"
    "driver_is_data_tx_allowed (?i\<lparr>pending_evts := 2 ^ 16, dt_semb := True\<rparr>)"
    by (simp_all add: idle_driver_def driver_task_notification_is_pending_def driver_is_data_tx_allowed_def
        driver_task_notification_check_def DRV_EVT_MASK_PAGESET_def bit_simps)
  have "ps_wakers d = 1" "ps_initialized d"
    by (simp_all add: d_def morse_ps_init_def driver_task_notify_event_def set_bit_eq_or)
  then have "morse_ps_enable quiet_env PS_WAKER_UMAC d = morse_ps_evaluate quiet_env (d\<lparr>ps_wakers := 0\<rparr>)"
    by (simp add: morse_ps_enable_def wakers)
  also have "\<dots> = Some d1"
    unfolding d using facts count passed
    by (simp add: morse_ps_evaluate_def mmhal_wlan_busy_is_asserted_def Let_def)
      (simp add: d1_def idle_driver_def quiet_env_def tick_def)
  finally have enable: "morse_ps_enable quiet_env PS_WAKER_UMAC d = Some d1" .
  have run1: "driver_run quiet_env d1" using run_enable [OF run enable] .
  have s: "pending_evts d1 = 2 ^ DRV_EVT_STOP_NOTICATION" "\<not> wake_pin d1" "ps_suspended d1"
    "memory_regions d1 = [\<lparr>cr_type = MORSE_MEM_REGION_TYPE_ASSERT_INFO, cr_start = 4096, cr_len = 64\<rparr>]"
    by (simp_all add: d1_def morse_ps_sleep_def idle_driver_def)
  have quiet: "\<forall>k. raised_events quiet_env k = []" "\<forall>k n. alloc_info quiet_env k n" by (simp_all add: quiet_env_def)
  obtain d' where "driver_drain quiet_env d1 = Some (False, d')" "(False, Read_Memory 4096 64) \<in> set (bus_log d')"
    using coredump_read_while_asleep [OF quiet(1) s(1,2,4) _ _ _ quiet(2)] by auto
  then show ?thesis using run1 s(3) by blast
qed

text \<open>C37. The chip is awake after every evaluation that finds a reason for it: a waker, an event that needs the chip, a
  buffered packet or recent traffic. Without a reason it is put to sleep, unless it raises its busy pin, and is not woken.
  While the chip or the UMAC has paused the traffic of data, the data packets waiting in the queues (other than those already sent)
  and recent traffic are no reason. The wake pin and the interrupt always follow.\<close>

theorem chip_sleeps_only_when_idle:
  assumes "ps_ok d" "morse_ps_evaluate env d = Some d'"
  shows "ps_ok d' \<and> (if must_be_awake env d then \<not> ps_suspended d'
    else ps_suspended d' = (ps_suspended d \<or> \<not> busy_is_asserted env (ticks d + of_bool (driver_is_data_tx_allowed d))))"
  using assms
proof (cases rule: evaluate_cases)
  case (awake d2)
  then show ?thesis using ps_ok_more [OF assms(1)] wakeup_ok by force
next
  case (idle d2)
  have "ps_ok (tick d2) \<and> ps_suspended (tick d2) = ps_suspended d"
    using ps_ok_more [OF assms(1) idle(2)] by (simp add: ps_ok_def tick_def)
  note ok = this
  show ?thesis
  proof (cases "busy_is_asserted env (ticks d2)")
    case True
    then have "ps_ok d' \<and> ps_suspended d' = ps_suspended d"
      using idle(4) ok update_timeout_ok by force
    then show ?thesis using True idle(1,3) by simp
  next
    case False
    then have "d' = morse_ps_sleep (tick d2)" using idle(4) by simp
    then show ?thesis using False idle(1,3) ok sleep_ok by simp
  qed
qed

theorem chip_sleeps_only_when_idle_witness:
  "\<exists>d. ps_ok idle_driver \<and> morse_ps_evaluate quiet_env idle_driver = Some d \<and> ps_suspended d \<and> \<not> wake_pin d"
proof -
  have ok: "ps_ok idle_driver" by (simp add: ps_ok_def idle_driver_def)
  have passed: "mmosal_time_has_passed 1000 0"
    by (simp add: mmosal_time_has_passed_def mmosal_time_le_def u32_def s32_def sub32_def)
  have quiet: "\<not> busy_is_asserted quiet_env k" "u32 (clock quiet_env k) = 1000" for k by (simp_all add: quiet_env_def u32_def)
  have count: "morse_yaps_get_tx_buffered_count idle_driver = 0"
    by (simp add: morse_yaps_get_tx_buffered_count_def idle_driver_def morse_skbq_init_def replicate_4
        morse_skbq_count_tx_ready_def morse_skbq_count_def)
  have facts: "\<not> driver_task_notification_is_pending DRV_EVT_MASK_PAGESET idle_driver" "ps_wakers idle_driver = 0"
    "bus_ps_timeout idle_driver = 0" "ps_initialized idle_driver" "stale_enabled idle_driver"
    "driver_is_data_tx_allowed idle_driver" "driver_is_data_tx_allowed (idle_driver\<lparr>stale_timer := False\<rparr>)"
    by (simp_all add: idle_driver_def driver_task_notification_is_pending_def driver_is_data_tx_allowed_def
        driver_task_notification_check_def)
  have "\<exists>d. morse_ps_evaluate quiet_env idle_driver = Some d"
    using facts count passed quiet by (simp add: morse_ps_evaluate_def mmhal_wlan_busy_is_asserted_def Let_def)
  then obtain d where d: "morse_ps_evaluate quiet_env idle_driver = Some d" ..
  have "\<not> must_be_awake quiet_env idle_driver" using facts count passed quiet by (simp add: must_be_awake_def)
  then show ?thesis
    using chip_sleeps_only_when_idle [OF ok d] quiet ok d by (auto simp: ps_ok_def)
qed

subsection \<open>Too many scheduled events\<close>

text \<open>A queue from which nothing can be sent now: it is empty, or its first packet is not stale and the chip
  has no room for it. The queue for commands has no pending packets.\<close>

definition blocked :: "'e chip_env_scheme \<Rightarrow> queue_id \<Rightarrow> driver_data \<Rightarrow> bool" where
  "blocked env qi d \<longleftrightarrow> (qi = Cmd_Q \<longrightarrow> mq_pending (cmd_q d) = []) \<and>
     (case mq_skbq (get_q qi d) of [] \<Rightarrow> True
      | p # ps \<Rightarrow> (\<forall>k. mmosal_time_lt (u32 (u32 (clock env k) + SKBQ_POP_TIMEOUT_THRESHOLD_MS)) (pkt_timeout p))
          \<and> morse_yaps_hw_get_num_pkts (tc_queue_of (pkt_channel p)) (p # ps) (yaps_hw d) = 0)"

lemma get_q_ticks [simp]: "get_q qi (d\<lparr>ticks := t\<rparr>) = get_q qi d"
  by (cases qi) simp_all

lemma put_get_ticks [simp]: "put_q qi (get_q qi d) (d\<lparr>ticks := t\<rparr>) = d\<lparr>ticks := t\<rparr>"
  by (cases qi) simp_all

lemma tx_blocked:
  assumes "blocked env qi d"
  shows "\<exists>t. morse_yaps_tx env qi d = Some (0, d\<lparr>ticks := t\<rparr>)"
proof (cases "mq_skbq (get_q qi d)")
  case Nil
  then show ?thesis by (intro exI [of _ "ticks d"]) (simp add: morse_yaps_tx_def)
next
  case (Cons p ps)
  let ?d = "d\<lparr>ticks := ticks d + 1\<rparr>"
  have id: "get_q qi d\<lparr>mq_skbq := p # ps\<rparr> = get_q qi d" using Cons by (metis morse_skbq.surjective morse_skbq.update_convs(3))
  have purge: "qi = Cmd_Q \<Longrightarrow> purge_pending (get_q qi d) d = (0, get_q qi d, d)"
    using assms by (cases "cmd_q d") (simp add: purge_pending_def blocked_def release_all_def)
  have drop: "morse_skbq_drop_stale_pkts env (get_q qi d) d = (0, get_q qi d, ?d)"
    using assms Cons id by (simp add: morse_skbq_drop_stale_pkts_def mmosal_get_time_ms_def blocked_def)
  have num: "morse_yaps_hw_get_num_pkts (tc_queue_of (pkt_channel p)) (p # ps) (yaps_hw d) = 0"
    using assms Cons by (simp add: blocked_def)
  have "(if qi = Cmd_Q then purge_pending (get_q qi d) d else (0, get_q qi d, d)) = (0, get_q qi d, d)"
    using purge by simp
  then have "morse_yaps_tx env qi d = Some (0, ?d)"
    using drop num by (simp add: id morse_yaps_tx_def Cons Let_def release_all_def morse_skbq_tx_complete_def)
  then show ?thesis by blast
qed

lemma blocked_cong:
  "get_q qi d' = get_q qi d \<Longrightarrow> cmd_q d' = cmd_q d \<Longrightarrow> yaps_hw d' = yaps_hw d \<Longrightarrow> blocked env qi d' = blocked env qi d"
  by (simp add: blocked_def split: list.split)

text \<open>What is left of the state while blocked queues are handled.\<close>

lemma tx_handler_blocked:
  assumes "blocked env qi d"
  shows "\<exists>t. morse_yaps_tx_handler env qi d = Some (mq_skbq (get_q qi d) \<noteq> [], d\<lparr>ticks := t\<rparr>)"
  using tx_blocked [OF assms] by (auto simp: morse_yaps_tx_handler_def morse_skbq_count_def)

lemma tx_data_blocked:
  assumes "\<forall>i\<in>set acis. blocked env (Data_Q i) d" "driver_is_data_tx_allowed d" "\<not> chip_queue_full d"
  shows "\<exists>t. tx_data_loop env acis left d = Some (left + sum_list (map (\<lambda>i. length (mq_skbq (data_tx_qs d ! i))) acis), d\<lparr>ticks := t\<rparr>)"
  using assms
proof (induction acis arbitrary: left d)
  case Nil
  then show ?case by (intro exI [of _ "ticks d"]) simp
next
  case (Cons i acis)
  obtain t where t: "morse_yaps_tx env (Data_Q i) d = Some (0, d\<lparr>ticks := t\<rparr>)" using tx_blocked Cons.prems by fastforce
  have id: "d\<lparr>ticks := t, chip_queue_full := False\<rparr> = d\<lparr>ticks := t\<rparr>" using Cons.prems(3) by (cases d) simp
  have b: "\<forall>i\<in>set acis. blocked env (Data_Q i) (d\<lparr>ticks := t\<rparr>)" using Cons.prems(1) by (auto simp: blocked_def split: list.split)
  have a: "driver_is_data_tx_allowed (d\<lparr>ticks := t\<rparr>)"
    using Cons.prems(2) by (simp add: driver_is_data_tx_allowed_def driver_task_notification_check_def)
  show ?case
    using Cons.IH [OF b a, of "left + length (mq_skbq (data_tx_qs d ! i))"] Cons.prems(2,3)
    by (simp add: t id Let_def morse_skbq_count_def add.assoc)
qed

lemma when_event_not: "\<not> bit (pending_evts d) e \<Longrightarrow> when_event e f d = (d :: driver_data)"
proof -
  assume a: "\<not> bit (pending_evts d) e"
  then have "unset_bit e (pending_evts d) = pending_evts d" by (intro bit_eqI) (auto simp: bit_simps)
  then show ?thesis using a by (cases d) (simp add: when_event_def driver_task_notification_check_and_clear_def)
qed

lemma schedule_free:
  assumes "evt_slot e (scheduled_evts d) = None" "evt_slot DRV_EVT_NONE (scheduled_evts d) = Some i"
  shows "\<exists>t u. driver_task_schedule_notification env e ms (d :: driver_data)
    = Some (d\<lparr>ticks := t, scheduled_evts := (scheduled_evts d)[i := (e, u)], dt_semb := True\<rparr>)"
  using assms by (auto simp: driver_task_schedule_notification_def mmosal_get_time_ms_def driver_task_schedule_notification_at_def)

text \<open>The state after events have been scheduled, and the events cleared so far.\<close>

definition rescheduled :: "driver_data \<Rightarrow> nat \<Rightarrow> nat \<Rightarrow> (nat \<times> nat) list \<Rightarrow> bool \<Rightarrow> driver_data" where
  "rescheduled d t evts es b = d\<lparr>ticks := t, pending_evts := evts, scheduled_evts := es, dt_semb := b\<rparr>"

lemma blocked_rescheduled [simp]: "blocked env qi (rescheduled d t evts es b) = blocked env qi d"
  by (rule blocked_cong) (cases qi; simp add: rescheduled_def)+

lemma rescheduled_simps [simp]:
  "pending_evts (rescheduled d t evts es b) = evts" "scheduled_evts (rescheduled d t evts es b) = es"
  "get_q qi (rescheduled d t evts es b) = get_q qi d" "data_tx_qs (rescheduled d t evts es b) = data_tx_qs d"
  "chip_queue_full (rescheduled d t evts es b) = chip_queue_full d"
  "rescheduled (rescheduled d t evts es b) t' evts' es' b' = rescheduled d t' evts' es' b'"
  "(rescheduled d t evts es b)\<lparr>ticks := t'\<rparr> = rescheduled d t' evts es b"
  "(rescheduled d t evts es b)\<lparr>pending_evts := evts'\<rparr> = rescheduled d t evts' es b"
  "(rescheduled d t evts es b)\<lparr>scheduled_evts := es', dt_semb := b'\<rparr> = rescheduled d t evts es' b'"
  "(rescheduled d t evts es b)\<lparr>ticks := t', scheduled_evts := es', dt_semb := b'\<rparr> = rescheduled d t' evts es' b'"
  by (cases qi; simp add: rescheduled_def)+

lemma rescheduled_self: "rescheduled d (ticks d) (pending_evts d) (scheduled_evts d) (dt_semb d) = d"
  by (simp add: rescheduled_def)

lemma tx_step_blocked:
  assumes "blocked env qi d" "mq_skbq (get_q qi d) \<noteq> []" "bit evts e"
    and "evt_slot e es = None" "evt_slot DRV_EVT_NONE es = Some i"
  shows "\<exists>t' u. tx_step env e ms (\<lambda>env. morse_yaps_tx_handler env qi) (rescheduled d t evts es b)
    = Some (True, rescheduled d t' (unset_bit e evts) (es[i := (e, u)]) True)"
proof -
  obtain t1 where t1: "morse_yaps_tx_handler env qi (rescheduled d t (unset_bit e evts) es b)
      = Some (True, rescheduled d t1 (unset_bit e evts) es b)"
    using tx_handler_blocked [of env qi "rescheduled d t (unset_bit e evts) es b"] assms(1,2) by auto
  obtain t2 u where "driver_task_schedule_notification env e ms (rescheduled d t1 (unset_bit e evts) es b)
      = Some (rescheduled d t2 (unset_bit e evts) (es[i := (e, u)]) True)"
    using schedule_free [of e "rescheduled d t1 (unset_bit e evts) es b" i env ms] assms(4,5) by auto
  then show ?thesis
    using assms(3) t1
    by (intro exI [of _ t2] exI [of _ u]) (simp add: tx_step_def driver_task_notification_check_and_clear_def)
qed

lemma evt_slot_Cons: "evt_slot e ((f, t) # es) = (if f = e then Some 0 else map_option Suc (evt_slot e es))"
proof -
  have "find P (map Suc is) = map_option Suc (find (P \<circ> Suc) is)" for P "is"
    by (induction "is") auto
  then show ?thesis
    by (simp add: evt_slot_def upt_conv_Cons map_Suc_upt [symmetric] comp_def del: upt_Suc)
qed

lemma evt_slot_Nil [simp]: "evt_slot e [] = None"
  by (simp add: evt_slot_def)

lemma allowed_rescheduled:
  "\<not> bit (state_flags d) 0 \<Longrightarrow> \<not> bit evts DRV_EVT_TRAFFIC_PAUSE_PEND \<Longrightarrow> driver_is_data_tx_allowed (rescheduled d t evts es b)"
  by (simp add: driver_is_data_tx_allowed_def driver_task_notification_check_def rescheduled_def)

text \<open>The step for data, for a table with and without a free slot.\<close>

lemma tx_step_data_blocked:
  assumes "\<forall>i\<in>{0, 1, 2, 3}. blocked env (Data_Q i) d" "\<exists>i\<in>{0, 1, 2, 3}. mq_skbq (data_tx_qs d ! i) \<noteq> []"
    and "\<not> bit (state_flags d) 0" "\<not> bit evts DRV_EVT_TRAFFIC_PAUSE_PEND" "\<not> chip_queue_full d"
    and "bit evts DRV_EVT_TX_DATA_PEND" "evt_slot DRV_EVT_TX_DATA_PEND es = None"
  shows "evt_slot DRV_EVT_NONE es = None \<Longrightarrow>
      tx_step env DRV_EVT_TX_DATA_PEND ms morse_yaps_tx_data_handler (rescheduled d t evts es b) = None"
    and "evt_slot DRV_EVT_NONE es = Some j \<Longrightarrow>
      \<exists>t' u. tx_step env DRV_EVT_TX_DATA_PEND ms morse_yaps_tx_data_handler (rescheduled d t evts es b)
        = Some (True, rescheduled d t' (unset_bit DRV_EVT_TX_DATA_PEND evts) (es[j := (DRV_EVT_TX_DATA_PEND, u)]) True)"
proof -
  let ?evts = "unset_bit DRV_EVT_TX_DATA_PEND evts"
  have allowed: "driver_is_data_tx_allowed (rescheduled d t' ?evts es' b')" for t' es' b'
    using assms(3,4) by (intro allowed_rescheduled) (auto simp: bit_simps)
  obtain t1 left where t1: "tx_data_loop env [3, 2, 1, 0] 0 (rescheduled d t ?evts es b) = Some (left, rescheduled d t1 ?evts es b)"
    "0 < left"
    using tx_data_blocked [of "[3, 2, 1, 0]" env "rescheduled d t ?evts es b" 0] assms(1,2,5) allowed by auto
  have handler: "morse_yaps_tx_data_handler env (rescheduled d t ?evts es b) = Some (True, rescheduled d t1 ?evts es b)"
    using t1 allowed by (simp add: morse_yaps_tx_data_handler_def del: tx_data_loop.simps)
  show "tx_step env DRV_EVT_TX_DATA_PEND ms morse_yaps_tx_data_handler (rescheduled d t evts es b) = None"
    if "evt_slot DRV_EVT_NONE es = None"
    using handler that assms(6,7)
    by (simp add: tx_step_def driver_task_notification_check_and_clear_def driver_task_schedule_notification_def
        mmosal_get_time_ms_def driver_task_schedule_notification_at_def)
  show "\<exists>t' u. tx_step env DRV_EVT_TX_DATA_PEND ms morse_yaps_tx_data_handler (rescheduled d t evts es b)
      = Some (True, rescheduled d t' ?evts (es[j := (DRV_EVT_TX_DATA_PEND, u)]) True)"
    if free: "evt_slot DRV_EVT_NONE es = Some j"
  proof -
    obtain t2 u where "driver_task_schedule_notification env DRV_EVT_TX_DATA_PEND ms (rescheduled d t1 ?evts es b)
        = Some (rescheduled d t2 ?evts (es[j := (DRV_EVT_TX_DATA_PEND, u)]) True)"
      using schedule_free [of DRV_EVT_TX_DATA_PEND "rescheduled d t1 ?evts es b" j env ms] assms(7) free by auto
    then show ?thesis
      using assms(6) handler
      by (intro exI [of _ t2] exI [of _ u]) (simp add: tx_step_def driver_task_notification_check_and_clear_def)
  qed
qed

text \<open>A busy driver: every kind of packet waits, the chip has no room, and the bus was active a moment ago.\<close>

definition all_queues_blocked :: "'e chip_env_scheme \<Rightarrow> driver_data \<Rightarrow> bool" where
  "all_queues_blocked env d \<longleftrightarrow>
     (\<forall>qi\<in>{Cmd_Q, Beacon_Q, Mgmt_Q, Data_Q 0, Data_Q 1, Data_Q 2, Data_Q 3}. blocked env qi d)
     \<and> mq_skbq (cmd_q d) \<noteq> [] \<and> mq_skbq (beacon_q d) \<noteq> [] \<and> mq_skbq (mgmt_q d) \<noteq> []
     \<and> (\<exists>i\<in>{0, 1, 2, 3}. mq_skbq (data_tx_qs d ! i) \<noteq> [])
     \<and> \<not> bit (state_flags d) 0 \<and> \<not> chip_queue_full d
     \<and> (\<forall>e. bit (pending_evts d) e \<longleftrightarrow>
           e \<in> {DRV_EVT_TX_COMMAND_PEND, DRV_EVT_TX_BEACON_PEND, DRV_EVT_TX_MGMT_PEND, DRV_EVT_TX_DATA_PEND})"

lemma blocked_steps:
  assumes "all_queues_blocked env d" "scheduled_evts d = (DRV_EVT_PS_BUS_ACTIVITY_PEND, t) # (0, a) # (0, b) # (0, c) # es"
    and free: "\<forall>e\<in>{3, 4, 5, 6}. evt_slot e es = None"
  obtains t1 u v w evts where
    "morse_yaps_work_tx env nact d = do {
       (data, d) \<leftarrow> tx_step env DRV_EVT_TX_DATA_PEND 2 morse_yaps_tx_data_handler
         (rescheduled d t1 evts ((DRV_EVT_PS_BUS_ACTIVITY_PEND, t) # (3, u) # (4, v) # (5, w) # es) True);
       morse_ps_network_activity env d
     }"
    "\<forall>e. bit evts e \<longleftrightarrow> e = DRV_EVT_TX_DATA_PEND"
proof -
  note blocked = assms(1) [unfolded all_queues_blocked_def]
  have self: "rescheduled d (ticks d) (pending_evts d) ((13, t) # (0, a) # (0, b) # (0, c) # es) (dt_semb d) = d"
    using rescheduled_self [of d] by (simp add: assms(2))
  obtain t1 u where 1: "tx_step env DRV_EVT_TX_COMMAND_PEND 10 (\<lambda>env. morse_yaps_tx_handler env Cmd_Q) d
      = Some (True, rescheduled d t1 (unset_bit 3 (pending_evts d)) ((13, t) # (3, u) # (0, b) # (0, c) # es) True)"
    using tx_step_blocked [of env Cmd_Q d "pending_evts d" 3 "(13, t) # (0, a) # (0, b) # (0, c) # es" 1 10 "ticks d" "dt_semb d"] blocked free
    by (auto simp: self evt_slot_Cons)
  obtain t2 v where 2: "tx_step env DRV_EVT_TX_BEACON_PEND 1 (\<lambda>env. morse_yaps_tx_handler env Beacon_Q)
        (rescheduled d t1 (unset_bit 3 (pending_evts d)) ((13, t) # (3, u) # (0, b) # (0, c) # es) True)
      = Some (True, rescheduled d t2 (unset_bit 4 (unset_bit 3 (pending_evts d))) ((13, t) # (3, u) # (4, v) # (0, c) # es) True)"
    using tx_step_blocked [of env Beacon_Q d "unset_bit 3 (pending_evts d)" 4 "(13, t) # (3, u) # (0, b) # (0, c) # es" 2 1 t1 True]
      blocked free by (auto simp: evt_slot_Cons bit_simps)
  let ?evts = "unset_bit 5 (unset_bit 4 (unset_bit 3 (pending_evts d)))"
  obtain t3 w where 3: "tx_step env DRV_EVT_TX_MGMT_PEND 2 (\<lambda>env. morse_yaps_tx_handler env Mgmt_Q)
        (rescheduled d t2 (unset_bit 4 (unset_bit 3 (pending_evts d))) ((13, t) # (3, u) # (4, v) # (0, c) # es) True)
      = Some (True, rescheduled d t3 ?evts ((13, t) # (3, u) # (4, v) # (5, w) # es) True)"
    using tx_step_blocked [of env Mgmt_Q d "unset_bit 4 (unset_bit 3 (pending_evts d))" 5 "(13, t) # (3, u) # (4, v) # (0, c) # es" 3 2 t2 True]
      blocked free by (auto simp: evt_slot_Cons bit_simps)
  have evts: "\<forall>e. bit ?evts e \<longleftrightarrow> e = DRV_EVT_TX_DATA_PEND" using blocked by (auto simp: bit_simps)
  have "\<not> chip_queue_full d" using blocked by blast
  then show thesis
    using that [of t3 ?evts u v w] evts 1 2 3
    by (simp add: morse_yaps_work_tx_def when_event_not Let_def)
qed

lemma activity_returns:
  assumes "scheduled_evts d = (DRV_EVT_PS_BUS_ACTIVITY_PEND, t) # es"
  shows "\<exists>d'. morse_ps_network_activity env d = Some d'"
  using assms
  by (auto simp: morse_ps_network_activity_def morse_ps_update_timeout_def Let_def mmosal_get_time_ms_def
      driver_task_schedule_notification_at_def evt_slot_hd)

lemma all_blocked_table: "all_queues_blocked env (d\<lparr>scheduled_evts := es\<rparr>) = all_queues_blocked env d"
proof -
  have "get_q qi (d\<lparr>scheduled_evts := es\<rparr>) = get_q qi d" for qi by (cases qi) simp_all
  then have "blocked env qi (d\<lparr>scheduled_evts := es\<rparr>) = blocked env qi d" for qi by (intro blocked_cong) simp_all
  then show ?thesis by (simp add: all_queues_blocked_def)
qed

text \<open>C39. The table of scheduled events is too small. When packets of all four kinds wait and the chip has no room for them, each queue
  schedules its event again; with the event of the bus activity these are five, and the table has four entries: the assertion at the end of
  \<open>driver_task_schedule_notification_at\<close> fails, and the work of the interface with it. One more entry would do.\<close>

theorem four_queues_overflow_table:
  assumes "all_queues_blocked env d" "scheduled_evts d = [(DRV_EVT_PS_BUS_ACTIVITY_PEND, t), (0, a), (0, b), (0, c)]"
  shows "morse_yaps_work_tx env nact d = None
    \<and> (\<exists>d'. morse_yaps_work_tx env nact (d\<lparr>scheduled_evts := scheduled_evts d @ [(DRV_EVT_NONE, 0)]\<rparr>) = Some d')"
proof
  have allowed: "\<not> bit (state_flags d) 0" "\<not> chip_queue_full d" "\<forall>i\<in>{0, 1, 2, 3}. blocked env (Data_Q i) d"
    "\<exists>i\<in>{0, 1, 2, 3}. mq_skbq (data_tx_qs d ! i) \<noteq> []"
    using assms(1) by (auto simp: all_queues_blocked_def)
  obtain t1 u v w evts where e: "morse_yaps_work_tx env nact d = do {
       (data, d) \<leftarrow> tx_step env DRV_EVT_TX_DATA_PEND 2 morse_yaps_tx_data_handler
         (rescheduled d t1 evts [(DRV_EVT_PS_BUS_ACTIVITY_PEND, t), (3, u), (4, v), (5, w)] True);
       morse_ps_network_activity env d
     }" "\<forall>e. bit evts e \<longleftrightarrow> e = DRV_EVT_TX_DATA_PEND"
    by (rule blocked_steps [OF assms(1,2), where nact = nact]) auto
  show "morse_yaps_work_tx env nact d = None"
    using tx_step_data_blocked(1) [OF allowed(3,4,1) _ allowed(2), of evts "[(13, t), (3, u), (4, v), (5, w)]" 2 t1 True] e
    by (simp add: evt_slot_Cons)
  let ?d = "d\<lparr>scheduled_evts := scheduled_evts d @ [(DRV_EVT_NONE, 0)]\<rparr>"
  have blocked: "all_queues_blocked env ?d" using assms(1) all_blocked_table by blast
  have table: "scheduled_evts ?d = (DRV_EVT_PS_BUS_ACTIVITY_PEND, t) # (0, a) # (0, b) # (0, c) # [(0, 0)]"
    using assms(2) by simp
  obtain t1 u v w evts where e: "morse_yaps_work_tx env nact ?d = do {
       (data, d) \<leftarrow> tx_step env DRV_EVT_TX_DATA_PEND 2 morse_yaps_tx_data_handler
         (rescheduled ?d t1 evts [(DRV_EVT_PS_BUS_ACTIVITY_PEND, t), (3, u), (4, v), (5, w), (0, 0)] True);
       morse_ps_network_activity env d
     }" "\<forall>e. bit evts e \<longleftrightarrow> e = DRV_EVT_TX_DATA_PEND"
    by (rule blocked_steps [OF blocked table, where nact = nact]) (auto simp: evt_slot_Cons)
  have allowed': "\<forall>i\<in>{0, 1, 2, 3}. blocked env (Data_Q i) ?d" "\<exists>i\<in>{0, 1, 2, 3}. mq_skbq (data_tx_qs ?d ! i) \<noteq> []"
    "\<not> bit (state_flags ?d) 0" "\<not> chip_queue_full ?d"
    using blocked by (auto simp: all_queues_blocked_def)
  obtain t2 x where "tx_step env DRV_EVT_TX_DATA_PEND 2 morse_yaps_tx_data_handler
      (rescheduled ?d t1 evts [(DRV_EVT_PS_BUS_ACTIVITY_PEND, t), (3, u), (4, v), (5, w), (0, 0)] True)
    = Some (True, rescheduled ?d t2 (unset_bit 6 evts) [(13, t), (3, u), (4, v), (5, w), (6, x)] True)"
    using tx_step_data_blocked(2) [OF allowed'(1,2,3) _ allowed'(4), of evts "[(13, t), (3, u), (4, v), (5, w), (0, 0)]" 4 2 t1 True] e(2)
    by (auto simp: evt_slot_Cons)
  then show "\<exists>d'. morse_yaps_work_tx env nact ?d = Some d'"
    by (simp add: e(1)) (rule activity_returns, simp)
qed

theorem four_queues_overflow_table_witness:
  "\<exists>d. all_queues_blocked quiet_env d \<and> length (scheduled_evts d) = MAX_SCHEDULED_EVTS \<and> morse_yaps_work_tx quiet_env True d = None"
proof -
  let ?q = "\<lambda>flags channel. morse_skbq_init flags\<lparr>mq_skbq := [queued_pkt 1 channel]\<rparr>"
  let ?full = "\<lparr>tc_tx_pool_num_pages = 0, tc_cmd_pool_num_pages = 0, tc_beacon_pool_num_pages = 0,
       tc_mgmt_pool_num_pages = 0, tc_tx_num_pkts = 0, tc_cmd_num_pkts = 0, tc_beacon_num_pkts = 0, tc_mgmt_num_pkts = 0,
       fc_num_pkts = 0, tc_delim_crc_fail_detected = 0\<rparr>"
  let ?d = "idle_driver\<lparr>cmd_q := ?q MORSE_CHIP_IF_FLAGS_COMMAND MORSE_SKB_CHAN_COMMAND, beacon_q := ?q MORSE_CHIP_IF_FLAGS_DATA MORSE_SKB_CHAN_BEACON,
    mgmt_q := ?q MORSE_CHIP_IF_FLAGS_DATA MORSE_SKB_CHAN_MGMT, data_tx_qs := replicate 4 (?q MORSE_CHIP_IF_FLAGS_DATA MORSE_SKB_CHAN_DATA),
    pending_evts := 120, yaps_hw := (yaps_hw idle_driver)\<lparr>status_regs := ?full\<rparr>,
    scheduled_evts := [(DRV_EVT_PS_BUS_ACTIVITY_PEND, 1100), (0, 0), (0, 0), (0, 0)]\<rparr>"
  have bits: "bit (120 :: nat) e \<longleftrightarrow> e \<in> {3, 4, 5, 6}" for e
  proof -
    have eq: "(120 :: nat) = set_bit 3 (set_bit 4 (set_bit 5 (set_bit 6 0)))" by (simp add: set_bit_eq_or)
    show ?thesis unfolding eq by (simp only: bit_set_bit_iff) auto
  qed
  have time: "mmosal_time_lt 6000 16000"
    by (simp add: mmosal_time_lt_def u32_def s32_def sub32_def)
  have lt: "mmosal_time_lt (u32 (u32 (clock quiet_env k) + SKBQ_POP_TIMEOUT_THRESHOLD_MS)) 16000" for k
    using time by (simp add: quiet_env_def u32_def)
  have tmo: "pkt_timeout (queued_pkt n ch) = 16000" "pkt_channel (queued_pkt n ch) = ch" for n ch
    by (simp_all add: queued_pkt_def sample_pkt_def pkt_timeout_def pkt_channel_def)
  have pages: "0 < morse_yaps_pages_required hw p" for hw p by (simp add: morse_yaps_pages_required_def)
  have "get_q qi ?d = ?q flags ch \<Longrightarrow> qi = Cmd_Q \<longrightarrow> mq_pending (cmd_q ?d) = [] \<Longrightarrow> blocked quiet_env qi ?d" for qi flags ch
    using lt tmo pages by (cases "tc_queue_of ch") (simp_all add: blocked_def morse_yaps_hw_get_num_pkts_def)
  then have "all_queues_blocked quiet_env ?d"
    using bits by (simp add: all_queues_blocked_def) (simp add: idle_driver_def morse_skbq_init_def)
  then show ?thesis
    using four_queues_overflow_table [of quiet_env ?d 1100 0 0 0 True] by (intro exI [of _ ?d]) simp
qed

subsection \<open>The header of a submitted packet\<close>
















end
