(* ===== verification/Config_Text.thy ===== *)
theory Config_Text
  imports Prelude "HOL-Library.Sublist"
begin

unbundle bit_operations_syntax

section \<open>Persistent configuration: text, keys and the checksum\<close>

text \<open>
  The helpers of \<open>src/mmconfig/mmconfig.c\<close> that touch no flash: the conversions between
  numbers and text, the running checksum of a partition, the validation of a key and its
  comparison with a stored one.

  Characters are \<open>8 word\<close> values and a C string is the list of the characters before its
  terminator (\<open>c_str\<close> cuts a list there). \<open>isalpha\<close>, \<open>isalnum\<close> and \<open>toupper\<close> are
  those of the C locale; \<open>char\<close> is unsigned on the Arm core. The lemmas show that a number is
  read back from its text, that the checksum notices a change of any one byte, and which keys are
  accepted and matched.
\<close>

subsection \<open>Numbers as text\<close>

text \<open>
  A buffer is the list of its bytes; \<open>t\<close> is \<open>tmp + 1 - buf\<close>, the number of bytes at and
  before \<open>tmp\<close>. The outer \<open>None\<close> is a failed assertion or a store outside the buffer,
  the inner one the \<open>NULL\<close> the function returns.
\<close>

function uint_digits :: "nat \<Rightarrow> nat \<Rightarrow> byte list \<Rightarrow> (nat \<times> byte list) option" where
  "uint_digits t val buf =
     (if t = 0 then None
      else do {
        buf \<leftarrow> store buf (t - 1) (of_nat (48 + val mod 10));
        let val = val div 10;
        (if val \<noteq> 0 \<and> t - 1 \<ge> 1 then uint_digits (t - 1) val buf else Some (val, buf))
      })"
  by pat_completeness auto
termination by (relation "measure (\<lambda>(t, _, _). t)") auto

definition decimal_len :: "nat \<Rightarrow> nat" where
  "decimal_len val =
     (if val < 10 then 1 else if val < 100 then 2 else if val < 1000 then 3
      else if val < 10000 then 4 else if val < 100000 then 5 else if val < 1000000 then 6
      else if val < 10000000 then 7 else if val < 100000000 then 8
      else if val < 1000000000 then 9 else 10)"

definition mmconfig_uint_to_str :: "byte list \<Rightarrow> nat \<Rightarrow> nat \<Rightarrow> byte list option option" where
  "mmconfig_uint_to_str buf bufsize val =
     (let len = decimal_len val in
      if bufsize \<le> len then Some None
      else do {
        buf \<leftarrow> store buf len 0;
        (val, buf) \<leftarrow> uint_digits len val buf;
        ensure (val = 0);
        Some (Some buf)
      })"

definition mmconfig_int_to_str :: "byte list \<Rightarrow> nat \<Rightarrow> int \<Rightarrow> byte list option option" where
  "mmconfig_int_to_str buf bufsize val =
     (if 0 \<le> val then mmconfig_uint_to_str buf bufsize (nat val)
      else if bufsize > 2 then do {
        buf \<leftarrow> store buf 0 45;
        let uval = sub32 0 (nat (val mod 4294967296));
        r \<leftarrow> mmconfig_uint_to_str (drop 1 buf) (bufsize - 1) uval;
        Some (map_option (\<lambda>tl. take 1 buf @ tl) r)
      }
      else Some None)"

text \<open>A C string is the list of the characters before its terminator.\<close>

definition c_str :: "byte list \<Rightarrow> byte list" where
  "c_str bs = takeWhile (\<lambda>b. b \<noteq> 0) bs"

text \<open>The digits are accumulated in a \<open>uint64_t\<close>.\<close>

definition u64 :: "nat \<Rightarrow> nat" where
  "u64 n = n mod 18446744073709551616"

fun parse_hex :: "byte list \<Rightarrow> nat \<Rightarrow> nat option" where
  "parse_hex [] num = Some num"
| "parse_hex (c # cs) num =
     (if 48 \<le> c \<and> c \<le> 57 then parse_hex cs (u64 (num * 16 + (unat c - 48)))
      else if 97 \<le> c \<and> c \<le> 102 then parse_hex cs (u64 (num * 16 + (unat c - 97 + 10)))
      else if 65 \<le> c \<and> c \<le> 70 then parse_hex cs (u64 (num * 16 + (unat c - 65 + 10)))
      else None)"

fun parse_dec :: "byte list \<Rightarrow> nat \<Rightarrow> nat option" where
  "parse_dec [] num = Some num"
| "parse_dec (c # cs) num =
     (if c < 48 \<or> c > 57 then None else parse_dec cs (u64 (num * 10 + (unat c - 48))))"

definition is_hex_str :: "byte list \<Rightarrow> bool" where
  "is_hex_str str \<longleftrightarrow> (case str of a # b # _ \<Rightarrow> a = 48 \<and> (b = 120 \<or> b = 88) | _ \<Rightarrow> False)"

text \<open>\<open>None\<close> is \<open>MMCONFIG_ERR_INCORRECT_TYPE\<close>, with \<open>*val\<close> unchanged.\<close>

definition mmconfig_str_to_uint :: "byte list \<Rightarrow> nat option" where
  "mmconfig_str_to_uint str = do {
     num \<leftarrow> (if is_hex_str str then parse_hex (drop 2 str) 0 else parse_dec str 0);
     (if length str > 10 \<or> num > 4294967295 then None else Some num)
   }"

definition mmconfig_str_to_int :: "byte list \<Rightarrow> int option" where
  "mmconfig_str_to_int str =
     (let neg = (str \<noteq> [] \<and> hd str = 45) in do {
       num \<leftarrow> mmconfig_str_to_uint (if neg then tl str else str);
       (if neg \<and> num > 2147483648 then None
        else if \<not> neg \<and> num > 2147483647 then None
        else Some (s32 (if neg then sub32 0 num else num)))
     })"

subsection \<open>Text: what a number looks like and that it is read back\<close>

text \<open>The reference: the decimal digits of a value, most significant first, padded to \<open>t\<close>.\<close>

fun dec_digits :: "nat \<Rightarrow> nat \<Rightarrow> byte list" where
  "dec_digits 0 v = []"
| "dec_digits (Suc t) v = dec_digits t (v div 10) @ [of_nat (48 + v mod 10)]"

lemma length_dec_digits [simp]: "length (dec_digits t v) = t"
  by (induction t v rule: dec_digits.induct) auto

declare uint_digits.simps [simp del]

lemma uint_digits_dec:
  assumes "0 < t" "t \<le> length buf" "v < 10 ^ t" "t = 1 \<or> 10 ^ (t - 1) \<le> v"
  shows "uint_digits t v buf = Some (0, dec_digits t v @ drop t buf)"
  using assms
proof (induction t v buf rule: uint_digits.induct)
  case (1 t val buf)
  show ?case
  proof (cases "t = 1")
    case True
    then show ?thesis using 1(2-5)
      by (cases buf) (auto simp: uint_digits.simps)
  next
    case False
    then obtain k where k: "t = Suc (Suc k)" using 1(2) by (metis One_nat_def not0_implies_Suc not_gr_zero)
    have ge: "10 ^ Suc k \<le> val" using 1(5) False k by simp
    then have d: "10 ^ k \<le> val div 10" by (simp add: less_eq_div_iff_mult_less_eq mult.commute)
    then have nz: "val div 10 \<noteq> 0" by (metis le_zero_eq power_not_zero zero_neq_numeral)
    let ?b = "buf[t - 1 := of_nat (48 + val mod 10)]"
    have lt: "val div 10 < 10 ^ Suc k" using 1(4) k by (simp add: div_less_iff_less_mult mult.commute)
    have ih: "uint_digits (t - 1) (val div 10) ?b
        = Some (0, dec_digits (t - 1) (val div 10) @ drop (t - 1) ?b)"
    proof (rule 1(1))
      show "store buf (t - 1) (of_nat (48 + val mod 10)) = Some ?b" using 1(2,3) by simp
    qed (use 1(2-5) k d nz lt in \<open>auto simp: Let_def\<close>)
    have dr: "drop (t - 1) ?b = of_nat (48 + val mod 10) # drop t buf"
      using 1(2,3) k by (simp add: drop_update_swap Cons_nth_drop_Suc [symmetric])
    show ?thesis
      using 1(2,3) k nz ih dr by (subst uint_digits.simps) (simp add: Let_def)
  qed
qed

lemma decimal_len_bounds:
  assumes "v < 4294967296"
  shows "0 < decimal_len v" "decimal_len v \<le> 10" "v < 10 ^ decimal_len v"
    "decimal_len v = 1 \<or> 10 ^ (decimal_len v - 1) \<le> v"
  using assms by (auto simp: decimal_len_def)

lemma mmconfig_uint_to_str_digits:
  assumes "v < 4294967296" "bufsize \<le> length buf" "decimal_len v < bufsize"
  shows "mmconfig_uint_to_str buf bufsize v
    = Some (Some (dec_digits (decimal_len v) v @ 0 # drop (Suc (decimal_len v)) buf))"
proof -
  let ?n = "decimal_len v"
  have dr: "drop ?n (buf[?n := 0]) = 0 # drop (Suc ?n) buf"
    using assms by (simp add: drop_update_swap Cons_nth_drop_Suc [symmetric])
  show ?thesis
    using assms decimal_len_bounds [OF assms(1)]
    by (simp add: mmconfig_uint_to_str_def uint_digits_dec dr Let_def)
qed


lemma of_nat_digit: "unat (of_nat (48 + v mod 10) :: byte) = 48 + v mod 10"
proof -
  have "48 + v mod 10 < 256"
    using mod_less_divisor [of 10 v] by linarith
  then show ?thesis
    by (subst unsigned_of_nat) (simp add: take_bit_eq_mod)
qed

lemma parse_dec_append:
  "parse_dec (xs @ ys) n = Option.bind (parse_dec xs n) (parse_dec ys)"
  by (induction xs n rule: parse_dec.induct) auto

lemma parse_dec_digit:
  "n < 18446744073709551606 div 10 \<Longrightarrow> parse_dec [of_nat (48 + v mod 10)] n = Some (n * 10 + v mod 10)"
proof -
  assume n: "n < 18446744073709551606 div 10"
  let ?c = "of_nat (48 + v mod 10) :: byte"
  have m: "v mod 10 < 10" by simp
  have "48 \<le> ?c" "?c \<le> 57"
    using m by (simp_all only: word_le_nat_alt of_nat_digit) simp_all
  then show ?thesis using n m
    by (simp only: parse_dec.simps of_nat_digit not_less [symmetric]) (simp add: u64_def)
qed

lemma parse_dec_digits:
  "v < 10 ^ t \<Longrightarrow> t \<le> 10 \<Longrightarrow> parse_dec (dec_digits t v) 0 = Some v"
proof (induction t arbitrary: v)
  case (Suc t)
  have lt: "v div 10 < 10 ^ t"
    using Suc.prems by (simp add: div_less_iff_less_mult mult.commute)
  have "(10::nat) ^ t \<le> 10 ^ 9" using Suc.prems(2) by (intro power_increasing) auto
  then have "v div 10 < 18446744073709551606 div 10" using lt by simp
  then show ?case using Suc.IH [OF lt] Suc.prems
    by (simp add: parse_dec_append parse_dec_digit del: parse_dec.simps of_nat_add)
qed simp

lemma dec_digits_range: "b \<in> set (dec_digits t v) \<Longrightarrow> 48 \<le> b \<and> b \<le> 57"
proof (induction t v rule: dec_digits.induct)
  case (2 t v)
  have "v mod 10 < 10" by simp
  then show ?case using 2
    by (auto simp only: dec_digits.simps set_append list.set word_le_nat_alt of_nat_digit)
       (simp_all add: word_le_nat_alt)
qed simp

lemma not_hex_dec_digits: "\<not> is_hex_str (dec_digits t v)"
proof
  assume h: "is_hex_str (dec_digits t v)"
  then obtain a b r where e: "dec_digits t v = a # b # r" and ab: "b = 120 \<or> b = 88"
    by (auto simp: is_hex_str_def split: list.splits)
  have "b \<in> set (dec_digits t v)" by (simp add: e)
  then have "b \<le> 57" using dec_digits_range by blast
  then show False using ab by (auto simp: word_le_nat_alt)
qed

lemma str_to_uint_dec_digits:
  "v < 4294967296 \<Longrightarrow> mmconfig_str_to_uint (dec_digits (decimal_len v) v) = Some v"
  using decimal_len_bounds [of v]
  by (simp add: mmconfig_str_to_uint_def not_hex_dec_digits parse_dec_digits)

lemma c_str_dec_digits: "c_str (dec_digits t v @ 0 # r) = dec_digits t v"
proof -
  have "\<forall>b \<in> set (dec_digits t v). b \<noteq> 0"
    using dec_digits_range by (fastforce simp: word_le_nat_alt)
  then show ?thesis by (simp add: c_str_def takeWhile_append2)
qed

lemma uint_text_round_trip:
  assumes "v < 4294967296" "length buf = 16"
  shows "\<exists>out. mmconfig_uint_to_str buf 16 v = Some (Some out) \<and> length out = 16
    \<and> mmconfig_str_to_uint (c_str out) = Some v"
  using assms decimal_len_bounds [OF assms(1)]
  by (simp add: mmconfig_uint_to_str_digits c_str_dec_digits str_to_uint_dec_digits)

lemma hd_dec_digits: "0 < t \<Longrightarrow> hd (dec_digits t v) \<noteq> 45"
proof
  assume t: "0 < t" and h: "hd (dec_digits t v) = 45"
  then have "dec_digits t v \<noteq> []" by (metis length_dec_digits length_0_conv less_irrefl)
  from dec_digits_range [OF hd_in_set [OF this]] h show False
    by (simp add: word_le_nat_alt)
qed

text \<open>The size of the buffer the callers pass.\<close>

lemma int_to_str_parsed:
  assumes "-2147483648 \<le> v" "v < 2147483648" "length buf = 16"
  shows "\<exists>out. mmconfig_int_to_str buf 16 v = Some (Some out) \<and> length out = 16
    \<and> mmconfig_str_to_int (c_str out) = Some v"
proof (cases "0 \<le> v")
  case True
  let ?n = "nat v"
  have n: "?n < 4294967296" using assms(2) by simp
  note b = decimal_len_bounds [OF n]
  have ne: "dec_digits (decimal_len ?n) ?n \<noteq> []"
    using b(1) by (metis length_dec_digits length_0_conv less_irrefl)
  show ?thesis
    using True n b assms hd_dec_digits [OF b(1), of ?n] ne
    by (simp add: mmconfig_int_to_str_def mmconfig_uint_to_str_digits c_str_dec_digits
        mmconfig_str_to_int_def str_to_uint_dec_digits s32_small Let_def)
next
  case False
  let ?n = "nat (- v)"
  have n: "?n < 4294967296" and n2: "?n \<le> 2147483648" and n0: "0 < ?n"
    using False assms by auto
  have m: "nat (v mod 4294967296) = 4294967296 - ?n"
    using False assms
    by (subst mod_add_self2 [symmetric], subst mod_pos_pos_trivial) auto
  have u: "sub32 0 (nat (v mod 4294967296)) = ?n"
    using n n0 by (simp add: m sub32_def u32_def)
  note b = decimal_len_bounds [OF n]
  have s: "s32 (sub32 0 ?n) = v"
    using False n n0 n2 by (simp add: sub32_def u32_id s32_big)
  have c: "c_str (45 # dec_digits t w @ 0 # r) = 45 # dec_digits t w" for t w r
    using c_str_dec_digits [of t w r] by (simp add: c_str_def)
  obtain a bs where buf: "buf = a # bs" "length bs = 15"
    using assms(3) by (cases buf) auto
  show ?thesis
    using False n b n2
    by (simp add: buf mmconfig_int_to_str_def u mmconfig_uint_to_str_digits c
        mmconfig_str_to_int_def str_to_uint_dec_digits s)
qed

subsection \<open>The checksum\<close>

definition XORHASH_SEED :: "32 word" where "XORHASH_SEED = 0xdfb7f3e1"

definition checksum_step :: "32 word \<Rightarrow> byte \<Rightarrow> 32 word" where
  "checksum_step checksum b =
     (let checksum = checksum + ucast b;
          checksum = checksum XOR push_bit 13 checksum;
          checksum = checksum XOR drop_bit 17 checksum
      in checksum XOR push_bit 5 checksum)"

fun mmconfig_update_checksum :: "32 word \<Rightarrow> byte list \<Rightarrow> 32 word" where
  "mmconfig_update_checksum checksum [] = checksum"
| "mmconfig_update_checksum checksum (b # data) =
     mmconfig_update_checksum (checksum_step checksum b) data"

lemma update_checksum_append [simp]:
  "mmconfig_update_checksum c (xs @ ys) = mmconfig_update_checksum (mmconfig_update_checksum c xs) ys"
  by (induction xs arbitrary: c) auto

lemma xor_push_bit_inj:
  fixes x y :: "'a::len word"
  assumes "0 < n" "x XOR push_bit n x = y XOR push_bit n y"
  shows "x = y"
proof (rule bit_word_eqI)
  fix k assume k: "k < LENGTH('a)"
  have "k < LENGTH('a) \<Longrightarrow> bit x k = bit y k" for k
  proof (induction k rule: less_induct)
    case (less k)
    have e: "bit (x XOR push_bit n x) k = bit (y XOR push_bit n y) k"
      using assms(2) by simp
    show ?case
    proof (cases "n \<le> k")
      case True
      then have "bit x (k - n) = bit y (k - n)"
        using less assms(1) by auto
      then show ?thesis using e True less.prems by (auto simp: bit_simps)
    next
      case False
      then show ?thesis using e less.prems by (simp add: bit_simps)
    qed
  qed
  then show "bit x k = bit y k" using k .
qed

lemma xor_drop_bit_inj:
  fixes x y :: "'a::len word"
  assumes "0 < n" "x XOR drop_bit n x = y XOR drop_bit n y"
  shows "x = y"
proof (rule bit_word_eqI)
  fix k assume "k < LENGTH('a)"
  have "bit x k = bit y k" for k
  proof (induction "LENGTH('a) - k" arbitrary: k rule: less_induct)
    case less
    show ?case
    proof (cases "k < LENGTH('a)")
      case True
      have "bit (x XOR drop_bit n x) k = bit (y XOR drop_bit n y) k"
        using assms(2) by simp
      moreover have "bit x (k + n) = bit y (k + n)"
        using True assms(1) by (intro less) auto
      ultimately show ?thesis by (auto simp: bit_simps add.commute)
    next
      case False
      then show ?thesis using bit_imp_le_length [of x k] bit_imp_le_length [of y k] by blast
    qed
  qed
  then show "bit x k = bit y k" .
qed

lemma checksum_step_add:
  "checksum_step c a = checksum_step d b \<Longrightarrow> c + ucast a = d + ucast b"
  unfolding checksum_step_def Let_def
  by (drule xor_push_bit_inj [rotated], simp, drule xor_drop_bit_inj [rotated], simp,
      drule xor_push_bit_inj [rotated], simp, assumption)

lemma checksum_inj_state:
  "mmconfig_update_checksum c xs = mmconfig_update_checksum d xs \<Longrightarrow> c = d"
proof (induction xs arbitrary: c d)
  case (Cons a xs)
  then have "checksum_step c a = checksum_step d a" by simp
  then show ?case using checksum_step_add by fastforce
qed simp

lemma checksum_inj_byte: "checksum_step c a = checksum_step c b \<Longrightarrow> a = b"
proof -
  assume "checksum_step c a = checksum_step c b"
  then have "(ucast a :: 32 word) = ucast b" using checksum_step_add by fastforce
  then have e: "bit (ucast a :: 32 word) n = bit (ucast b :: 32 word) n" for n by simp
  show "a = b"
    by (rule bit_word_eqI, rename_tac n, cut_tac n = n in e) (simp add: bit_simps)
qed

subsection \<open>Keys\<close>

definition MMCONFIG_MAX_KEYLEN :: nat where "MMCONFIG_MAX_KEYLEN = 32"

definition MMCONFIG_OK :: int where "MMCONFIG_OK = 0"
definition MMCONFIG_DATA_ERASED :: int where "MMCONFIG_DATA_ERASED = 1"
definition MMCONFIG_ERR_INVALID_KEY :: int where "MMCONFIG_ERR_INVALID_KEY = -1"
definition MMCONFIG_ERR_FULL :: int where "MMCONFIG_ERR_FULL = -2"
definition MMCONFIG_ERR_NOT_FOUND :: int where "MMCONFIG_ERR_NOT_FOUND = -3"
definition MMCONFIG_ERR_INCORRECT_TYPE :: int where "MMCONFIG_ERR_INCORRECT_TYPE = -4"
definition MMCONFIG_ERR_INVALID_PARTITION :: int where "MMCONFIG_ERR_INVALID_PARTITION = -5"
definition MMCONFIG_ERR_INSUFFICIENT_MEMORY :: int where "MMCONFIG_ERR_INSUFFICIENT_MEMORY = -6"
definition MMCONFIG_ERR_OUT_OF_BOUNDS :: int where "MMCONFIG_ERR_OUT_OF_BOUNDS = -7"
definition MMCONFIG_ERR_NOT_SUPPORTED :: int where "MMCONFIG_ERR_NOT_SUPPORTED = -8"
definition MMCONFIG_ERR_WILDCARD_KEY :: int where "MMCONFIG_ERR_WILDCARD_KEY = -9"

named_theorems mmconfig_codes \<open>the result codes\<close>

lemmas mmconfig_code_defs [mmconfig_codes] =
  MMCONFIG_OK_def MMCONFIG_DATA_ERASED_def MMCONFIG_ERR_INVALID_KEY_def MMCONFIG_ERR_FULL_def
  MMCONFIG_ERR_NOT_FOUND_def MMCONFIG_ERR_INCORRECT_TYPE_def MMCONFIG_ERR_INVALID_PARTITION_def
  MMCONFIG_ERR_INSUFFICIENT_MEMORY_def MMCONFIG_ERR_OUT_OF_BOUNDS_def
  MMCONFIG_ERR_NOT_SUPPORTED_def MMCONFIG_ERR_WILDCARD_KEY_def

lemma mmconfig_code_distinct [simp]:
  "MMCONFIG_ERR_INVALID_KEY \<noteq> MMCONFIG_OK" "MMCONFIG_OK \<noteq> MMCONFIG_ERR_INVALID_KEY"
  "MMCONFIG_ERR_WILDCARD_KEY \<noteq> MMCONFIG_OK" "MMCONFIG_OK \<noteq> MMCONFIG_ERR_WILDCARD_KEY"
  "MMCONFIG_ERR_WILDCARD_KEY \<noteq> MMCONFIG_ERR_INVALID_KEY"
  "MMCONFIG_ERR_INVALID_KEY \<noteq> MMCONFIG_ERR_WILDCARD_KEY"
  "MMCONFIG_ERR_INVALID_PARTITION \<noteq> MMCONFIG_OK" "MMCONFIG_ERR_NOT_SUPPORTED \<noteq> MMCONFIG_OK"
  "MMCONFIG_OK \<noteq> MMCONFIG_ERR_NOT_SUPPORTED" "MMCONFIG_DATA_ERASED \<noteq> MMCONFIG_ERR_NOT_SUPPORTED"
  "MMCONFIG_ERR_FULL \<noteq> MMCONFIG_OK" "MMCONFIG_OK \<noteq> MMCONFIG_ERR_FULL"
  by (simp_all add: mmconfig_codes)

text \<open>The classification of characters of the C locale.\<close>

definition isalpha :: "byte \<Rightarrow> bool" where
  "isalpha c \<longleftrightarrow> (65 \<le> c \<and> c \<le> 90) \<or> (97 \<le> c \<and> c \<le> 122)"

definition isalnum :: "byte \<Rightarrow> bool" where
  "isalnum c \<longleftrightarrow> isalpha c \<or> (48 \<le> c \<and> c \<le> 57)"

definition toupper :: "byte \<Rightarrow> byte" where
  "toupper c = (if 97 \<le> c \<and> c \<le> 122 then c - 32 else c)"

text \<open>\<open>fetch\<close> is \<open>requested_key[i]\<close>; the assertion comes before everything else.\<close>

function key_match_loop :: "byte list \<Rightarrow> byte list \<Rightarrow> nat \<Rightarrow> bool option" where
  "key_match_loop requested_key found_key i =
     (if i < length found_key then do {
        r \<leftarrow> fetch requested_key i;
        (if r = 42 then Some True
         else if toupper r \<noteq> toupper (found_key ! i) then Some False
         else key_match_loop requested_key found_key (i + 1))
      }
      else Some True)"
  by pat_completeness auto
termination by (relation "measure (\<lambda>(_, found, i). length found - i)") auto

declare key_match_loop.simps [simp del]

definition mmconfig_key_match :: "byte list \<Rightarrow> byte list \<Rightarrow> bool option" where
  "mmconfig_key_match requested_key found_key =
     (if length found_key > MMCONFIG_MAX_KEYLEN then None
      else if length requested_key < 1 then Some False
      else if last requested_key \<noteq> 42 \<and> length requested_key \<noteq> length found_key then Some False
      else if last requested_key = 42 \<and> length requested_key - 1 > length found_key then Some False
      else key_match_loop requested_key found_key 0)"

definition mmconfig_validate_key_character :: "byte \<Rightarrow> int" where
  "mmconfig_validate_key_character character =
     (if \<not> isalnum character \<and> character \<noteq> 95 \<and> character \<noteq> 46
      then MMCONFIG_ERR_INVALID_KEY else MMCONFIG_OK)"

function validate_key_loop :: "byte list \<Rightarrow> nat \<Rightarrow> int" where
  "validate_key_loop key i =
     (if i < length key then
        (if mmconfig_validate_key_character (key ! i) \<noteq> MMCONFIG_OK then
           (if key ! i = 42 \<and> i = length key - 1 then MMCONFIG_ERR_WILDCARD_KEY
            else MMCONFIG_ERR_INVALID_KEY)
         else validate_key_loop key (i + 1))
      else MMCONFIG_OK)"
  by pat_completeness auto
termination by (relation "measure (\<lambda>(key, i). length key - i)") auto

declare validate_key_loop.simps [simp del]

definition mmconfig_validate_key :: "byte list \<Rightarrow> int" where
  "mmconfig_validate_key key =
     (let key_len = min (length key) (MMCONFIG_MAX_KEYLEN + 1) in
      if key_len > MMCONFIG_MAX_KEYLEN \<or> key_len = 0 then MMCONFIG_ERR_INVALID_KEY
      else if \<not> isalpha (hd key) then MMCONFIG_ERR_INVALID_KEY
      else validate_key_loop key 1)"

text \<open>What a key that passes looks like, and the relation the match decides.\<close>

definition key_char :: "byte \<Rightarrow> bool" where
  "key_char c \<longleftrightarrow> isalnum c \<or> c = 95 \<or> c = 46"

definition plain_key :: "byte list \<Rightarrow> bool" where
  "plain_key key \<longleftrightarrow> key \<noteq> [] \<and> length key \<le> 32 \<and> isalpha (hd key) \<and> list_all key_char key"

definition wildcard_key :: "byte list \<Rightarrow> bool" where
  "wildcard_key key \<longleftrightarrow> key \<noteq> [] \<and> length key \<le> 32 \<and> last key = 42 \<and> plain_key (butlast key)"

definition fold_key :: "byte list \<Rightarrow> byte list" where
  "fold_key key = map toupper key"

definition key_selects :: "byte list \<Rightarrow> byte list \<Rightarrow> bool" where
  "key_selects req found \<longleftrightarrow>
     (if req \<noteq> [] \<and> last req = 42 then prefix (fold_key (butlast req)) (fold_key found)
      else fold_key req = fold_key found)"

lemma star_not_key_char [simp]: "\<not> key_char 42"
  by (simp add: key_char_def isalnum_def isalpha_def word_le_nat_alt)

lemma isalpha_key_char: "isalpha c \<Longrightarrow> key_char c"
  by (simp add: key_char_def isalnum_def)

lemma validate_character_ok:
  "mmconfig_validate_key_character c = MMCONFIG_OK \<longleftrightarrow> key_char c"
  by (auto simp: mmconfig_validate_key_character_def key_char_def mmconfig_codes)

lemma validate_key_loop_ok:
  "validate_key_loop key i = MMCONFIG_OK \<longleftrightarrow> list_all key_char (drop i key)"
proof (induction key i rule: validate_key_loop.induct)
  case (1 key i)
  then show ?case
    by (subst validate_key_loop.simps)
       (auto simp: validate_character_ok Cons_nth_drop_Suc [symmetric])
qed

lemma validate_key_loop_wildcard:
  "i \<le> length key \<Longrightarrow> validate_key_loop key i = MMCONFIG_ERR_WILDCARD_KEY
    \<longleftrightarrow> drop i key \<noteq> [] \<and> last key = 42 \<and> list_all key_char (butlast (drop i key))"
proof (induction key i rule: validate_key_loop.induct)
  case (1 key i)
  show ?case
  proof (cases "i < length key")
    case True
    have d: "drop i key = key ! i # drop (Suc i) key"
      using True by (simp add: Cons_nth_drop_Suc)
    show ?thesis
    proof (cases "Suc i = length key")
      case True
      then have l: "key ! i = last key" using \<open>i < length key\<close>
        by (metis diff_Suc_1 last_conv_nth length_0_conv not_less_zero)
      have e: "drop (Suc i) key = []" using True by simp
      show ?thesis using True \<open>i < length key\<close>
        by (subst validate_key_loop.simps)
           (auto simp: validate_character_ok d e l validate_key_loop.simps [of key "length key"])
    next
      case False
      then have ne: "drop (Suc i) key \<noteq> []" "i \<noteq> length key - 1" using True by auto
      have ih: "key_char (key ! i) \<Longrightarrow> validate_key_loop key (Suc i) = MMCONFIG_ERR_WILDCARD_KEY
          \<longleftrightarrow> last key = 42 \<and> list_all key_char (butlast (drop (Suc i) key))"
        using 1(1) True ne by (simp add: validate_character_ok)
      show ?thesis using True ne ih
        by (subst validate_key_loop.simps) (auto simp: validate_character_ok d)
    qed
  next
    case False
    then show ?thesis by (subst validate_key_loop.simps) auto
  qed
qed

lemma validate_key_ok: "mmconfig_validate_key key = MMCONFIG_OK \<longleftrightarrow> plain_key key"
  by (cases key)
     (auto simp: mmconfig_validate_key_def plain_key_def MMCONFIG_MAX_KEYLEN_def validate_key_loop_ok
       Let_def isalpha_key_char)

lemma validate_key_wildcard:
  "mmconfig_validate_key key = MMCONFIG_ERR_WILDCARD_KEY \<longleftrightarrow> wildcard_key key"
proof (cases "key = [] \<or> length key > 32 \<or> \<not> isalpha (hd key)")
  case True
  then show ?thesis
    by (cases key rule: rev_cases)
       (auto simp: mmconfig_validate_key_def wildcard_key_def plain_key_def Let_def
         MMCONFIG_MAX_KEYLEN_def hd_append split: if_splits)
next
  case False
  then obtain c cs where k: "key = c # cs" "isalpha c" "length cs \<le> 31" by (cases key) auto
  have "c \<noteq> 42" using k isalpha_key_char star_not_key_char by blast
  then show ?thesis
    using k validate_key_loop_wildcard [of 1 key]
    by (auto simp: mmconfig_validate_key_def wildcard_key_def plain_key_def Let_def
        MMCONFIG_MAX_KEYLEN_def isalpha_key_char)
qed

lemma validate_key_cases:
  "mmconfig_validate_key key \<in> {MMCONFIG_OK, MMCONFIG_ERR_INVALID_KEY, MMCONFIG_ERR_WILDCARD_KEY}"
proof -
  have "validate_key_loop key i \<in> {MMCONFIG_OK, MMCONFIG_ERR_INVALID_KEY, MMCONFIG_ERR_WILDCARD_KEY}"
    for i
    by (induction key i rule: validate_key_loop.induct) (subst validate_key_loop.simps, simp)
  then show ?thesis by (simp add: mmconfig_validate_key_def Let_def)
qed

text \<open>The scan up to the first asterisk of the request.\<close>

lemma key_match_loop_plain:
  "length found \<le> length req \<Longrightarrow> \<forall>c \<in> set (take (length found) req). c \<noteq> 42 \<Longrightarrow>
   key_match_loop req found i
    = Some (fold_key (drop i found) = fold_key (take (length found - i) (drop i req)))"
proof (induction req found i rule: key_match_loop.induct)
  case (1 req found i)
  show ?case
  proof (cases "i < length found")
    case True
    have "req ! i \<in> set (take (length found) req)"
      using True 1(2) by (auto simp: in_set_conv_nth intro!: exI [of _ i])
    then have ns: "req ! i \<noteq> 42" using 1(3) by blast
    have d: "drop i found = found ! i # drop (Suc i) found"
      "drop i req = req ! i # drop (Suc i) req"
      using True 1(2) by (simp_all add: Cons_nth_drop_Suc)
    have s: "length found - i = Suc (length found - Suc i)" using True by simp
    show ?thesis
      using True 1 ns unfolding d s
      by (subst key_match_loop.simps) (auto simp: fold_key_def)
  next
    case False
    then show ?thesis by (subst key_match_loop.simps) (simp add: fold_key_def)
  qed
qed

lemma key_match_loop_star:
  "req = p @ [42] \<Longrightarrow> 42 \<notin> set p \<Longrightarrow> i \<le> length p \<Longrightarrow> length p \<le> length found \<Longrightarrow>
   key_match_loop req found i
    = Some (fold_key (drop i p) = fold_key (take (length p - i) (drop i found)))"
proof (induction req found i rule: key_match_loop.induct)
  case (1 req found i)
  show ?case
  proof (cases "i < length p")
    case True
    have r: "req ! i = p ! i" "i < length req" "i < length found"
      using 1(2,5) True by (simp_all add: nth_append)
    have "req ! i \<noteq> 42" using r(1) True 1(3) by (metis nth_mem)
    have d: "drop i p = p ! i # drop (Suc i) p" "drop i found = found ! i # drop (Suc i) found"
      using True r by (simp_all add: Cons_nth_drop_Suc)
    have s: "length p - i = Suc (length p - Suc i)" using True by simp
    show ?thesis
      using True 1 r \<open>req ! i \<noteq> 42\<close> unfolding d s
      by (subst key_match_loop.simps) (auto simp: fold_key_def)
  next
    case False
    then have i: "i = length p" using 1(4) by simp
    show ?thesis using 1(2,5)
      by (subst key_match_loop.simps) (auto simp: i fold_key_def)
  qed
qed

lemma fold_key_inj_len: "fold_key a = fold_key b \<Longrightarrow> length a = length b"
  unfolding fold_key_def by (rule map_eq_imp_length_eq)

lemma prefix_fold_key:
  "prefix (fold_key p) (fold_key f) \<longleftrightarrow> length p \<le> length f \<and> fold_key p = fold_key (take (length p) f)"
proof
  assume "prefix (fold_key p) (fold_key f)"
  then obtain zs where z: "map toupper f = map toupper p @ zs"
    by (auto simp: prefix_def fold_key_def)
  then have "length f = length p + length zs" by (metis length_append length_map)
  moreover have "take (length p) (map toupper f) = map toupper p" using z by simp
  ultimately show "length p \<le> length f \<and> fold_key p = fold_key (take (length p) f)"
    by (simp add: fold_key_def take_map)
next
  assume "length p \<le> length f \<and> fold_key p = fold_key (take (length p) f)"
  then show "prefix (fold_key p) (fold_key f)"
    by (metis fold_key_def take_is_prefix take_map)
qed

lemma plain_key_no_star: "plain_key k \<Longrightarrow> 42 \<notin> set k"
  by (auto simp: plain_key_def list_all_iff)

lemma plain_key_last: "plain_key k \<Longrightarrow> last k \<noteq> 42"
  using plain_key_no_star [of k] last_in_set [of k] unfolding plain_key_def by metis

lemma mmconfig_key_match_selects:
  assumes "plain_key req \<or> wildcard_key req" "length found \<le> 32"
  shows "mmconfig_key_match req found = Some (key_selects req found)"
  using assms(1)
proof
  assume p: "plain_key req"
  then have l: "last req \<noteq> 42" "req \<noteq> []" using plain_key_last by (auto simp: plain_key_def)
  show ?thesis
  proof (cases "length req = length found")
    case True
    then have "key_match_loop req found 0 = Some (fold_key found = fold_key req)"
      using key_match_loop_plain [of found req 0] plain_key_no_star [OF p] by auto
    then show ?thesis using True l assms(2)
      by (auto simp: mmconfig_key_match_def key_selects_def MMCONFIG_MAX_KEYLEN_def)
  next
    case False
    then have "fold_key req \<noteq> fold_key found" using fold_key_inj_len by blast
    then show ?thesis using False l assms(2)
      by (auto simp: mmconfig_key_match_def key_selects_def MMCONFIG_MAX_KEYLEN_def)
  qed
next
  assume w: "wildcard_key req"
  then obtain p where p: "req = p @ [42]" "plain_key p"
    by (metis append_butlast_last_id wildcard_key_def)
  show ?thesis
    using p assms(2) key_match_loop_star [of req p 0 found] plain_key_no_star [OF p(2)]
    by (auto simp: mmconfig_key_match_def key_selects_def MMCONFIG_MAX_KEYLEN_def prefix_fold_key)
qed

subsection \<open>The properties\<close>

text \<open>Every 32-bit integer is read back from the text it is stored as: the signed and the
  unsigned conversion to text succeed in the 16-byte buffers the callers use, and parsing the
  text up to its terminator returns the value.\<close>

theorem mmconfig_number_round_trip:
  assumes "-2147483648 \<le> v" "v < 2147483648" "n < 4294967296" "length buf = 16"
  shows "(\<exists>out. mmconfig_int_to_str buf 16 v = Some (Some out) \<and> length out = 16
      \<and> mmconfig_str_to_int (c_str out) = Some v)
    \<and> (\<exists>out. mmconfig_uint_to_str buf 16 n = Some (Some out) \<and> length out = 16
      \<and> mmconfig_str_to_uint (c_str out) = Some n)"
  using int_to_str_parsed [OF assms(1,2,4)] uint_text_round_trip [OF assms(3,4)] by blast

lemma mmconfig_number_round_trip_witness:
  "(\<exists>out. mmconfig_int_to_str (replicate 16 170) 16 (-2147483648) = Some (Some out) \<and> length out = 16
      \<and> mmconfig_str_to_int (c_str out) = Some (-2147483648))
    \<and> (\<exists>out. mmconfig_uint_to_str (replicate 16 170) 16 4294967295 = Some (Some out) \<and> length out = 16
      \<and> mmconfig_str_to_uint (c_str out) = Some 4294967295)"
  by (rule mmconfig_number_round_trip) simp_all

text \<open>A change of any one byte changes the checksum: two lists of bytes that differ in at
  most one place have the same checksum only when they are equal.\<close>

theorem checksum_detects_one_byte:
  "mmconfig_update_checksum c (xs @ a # ys) = mmconfig_update_checksum c (xs @ b # ys) \<longleftrightarrow> a = b"
proof
  assume "mmconfig_update_checksum c (xs @ a # ys) = mmconfig_update_checksum c (xs @ b # ys)"
  then have "checksum_step (mmconfig_update_checksum c xs) a = checksum_step (mmconfig_update_checksum c xs) b"
    using checksum_inj_state [of _ ys] by simp
  then show "a = b" by (rule checksum_inj_byte)
qed simp

text \<open>For a request that validation accepts, the comparison with a stored key is the one the
  documentation describes: the letters agree whatever their case, or, when the request ends in an
  asterisk, the stored key starts with what precedes it. No character outside the request is
  read.\<close>

theorem mmconfig_key_match_decides:
  assumes "mmconfig_validate_key req \<in> {MMCONFIG_OK, MMCONFIG_ERR_WILDCARD_KEY}"
    and "length found \<le> MMCONFIG_MAX_KEYLEN"
  shows "mmconfig_key_match req found = Some (key_selects req found)"
proof -
  have "plain_key req \<or> wildcard_key req"
    using assms(1) validate_key_ok validate_key_wildcard by fastforce
  then show ?thesis
    using mmconfig_key_match_selects assms(2) by (simp add: MMCONFIG_MAX_KEYLEN_def)
qed

text \<open>The request \<open>wlan.*\<close> and the stored key \<open>WLAN.ssid\<close>.\<close>

lemma mmconfig_key_match_decides_witness:
  "mmconfig_key_match [119, 108, 97, 110, 46, 42] [87, 76, 65, 78, 46, 115, 115, 105, 100]
     = Some (key_selects [119, 108, 97, 110, 46, 42] [87, 76, 65, 78, 46, 115, 115, 105, 100])
   \<and> key_selects [119, 108, 97, 110, 46, 42] [87, 76, 65, 78, 46, 115, 115, 105, 100]"
proof
  have "wildcard_key [119, 108, 97, 110, 46, 42]"
    by (simp add: wildcard_key_def plain_key_def key_char_def isalnum_def isalpha_def word_le_nat_alt)
  then have "mmconfig_validate_key [119, 108, 97, 110, 46, 42] = MMCONFIG_ERR_WILDCARD_KEY"
    by (simp add: validate_key_wildcard)
  then show "mmconfig_key_match [119, 108, 97, 110, 46, 42] [87, 76, 65, 78, 46, 115, 115, 105, 100]
     = Some (key_selects [119, 108, 97, 110, 46, 42] [87, 76, 65, 78, 46, 115, 115, 105, 100])"
    by (intro mmconfig_key_match_decides) (simp_all add: MMCONFIG_MAX_KEYLEN_def)
  show "key_selects [119, 108, 97, 110, 46, 42] [87, 76, 65, 78, 46, 115, 115, 105, 100]"
    by (simp add: key_selects_def fold_key_def toupper_def word_le_nat_alt)
qed

end
