(* ===== verification/Config_Store.thy ===== *)
theory Config_Store
  imports Config_Text
begin

section \<open>Persistent configuration: the store in flash\<close>

text \<open>
  The rest of \<open>src/mmconfig/mmconfig.c\<close>: two images of the key value store in one flash
  partition. A write builds the whole new image in the secondary half, through a staging buffer
  of 128 bytes, and swaps the two images once what it wrote validates; at start the newer valid
  image becomes the primary one.

  \<^item> Addresses are natural numbers: the partition is taken to end far enough below the top of the
    address space that the sums of the code do not wrap. Counters the code keeps in 32 bits are
    wrapped with \<open>u32\<close> and \<open>sub32\<close>.
  \<^item> \<open>None\<close> is a failed assertion or an access outside an array on the stack. The mutex is held
    during every operation, so the operations do not interleave.
  \<^item> \<open>flash_device\<close> states what is relied on of the flash driver; a NOR flash satisfies it.
\<close>

subsection \<open>The flash and the state\<close>

text \<open>
  Memory is a total function from addresses to bytes: the flash is memory mapped and an address
  outside the partition still reads something. The functions of \<open>mmhal_flash.h\<close> belong to the
  board and are fields of the environment, as are the partition it reports and the literal
  configuration of the application (the entries before the one with a \<open>NULL\<close>).
\<close>

type_synonym mem = "nat \<Rightarrow> byte"

record mmhal_flash_partition_config =
  partition_start :: nat
  partition_size :: nat
  not_memory_mapped :: bool

record mmconfig_env =
  mmhal_flash_getblocksize :: "nat \<Rightarrow> nat"
  mmhal_flash_erase :: "nat \<Rightarrow> mem \<Rightarrow> mem"
  mmhal_flash_write :: "nat \<Rightarrow> byte list \<Rightarrow> mem \<Rightarrow> mem"
  mmhal_get_mmconfig_partition :: "mmhal_flash_partition_config option"
  mm_litral_configs :: "(byte list \<times> byte list) list"

text \<open>
  The operations the code performs on the flash are also recorded in order in \<open>flash_log\<close>,
  which nothing reads; the power can be lost between any two of them.
\<close>

datatype flash_op = FErase nat | FWrite nat "byte list"

record mmconfig =
  flash :: mem
  flash_log :: "flash_op list"
  mmconfig_mutex :: bool
  mmconfig_primary_image :: nat
  mmconfig_secondary_image :: nat
  mmconfig_partition_size :: nat
  mmconfig_staging_buffer :: "byte list"
  mmconfig_buffer_index :: nat
  mmconfig_flashing_address :: nat

definition flash_erase :: "mmconfig_env \<Rightarrow> nat \<Rightarrow> mmconfig \<Rightarrow> mmconfig" where
  "flash_erase env a st =
     st\<lparr>flash := mmhal_flash_erase env a (flash st), flash_log := flash_log st @ [FErase a]\<rparr>"

definition flash_write :: "mmconfig_env \<Rightarrow> nat \<Rightarrow> byte list \<Rightarrow> mmconfig \<Rightarrow> mmconfig" where
  "flash_write env a bs st =
     st\<lparr>flash := mmhal_flash_write env a bs (flash st), flash_log := flash_log st @ [FWrite a bs]\<rparr>"

definition rd8 :: "mem \<Rightarrow> nat \<Rightarrow> nat" where
  "rd8 m a = unat (m a)"

definition rd16 :: "mem \<Rightarrow> nat \<Rightarrow> nat" where
  "rd16 m a = rd8 m a + 256 * rd8 m (a + 1)"

definition rd32 :: "mem \<Rightarrow> nat \<Rightarrow> 32 word" where
  "rd32 m a = of_nat (rd16 m a + 65536 * rd16 m (a + 2))"

definition rd_bytes :: "mem \<Rightarrow> nat \<Rightarrow> nat \<Rightarrow> byte list" where
  "rd_bytes m a n = map (\<lambda>i. m (a + i)) [0..<n]"

definition le16 :: "nat \<Rightarrow> byte list" where
  "le16 n = [of_nat (n mod 256), of_nat (n div 256)]"

definition le32 :: "32 word \<Rightarrow> byte list" where
  "le32 w = le16 (unat w mod 65536) @ le16 (unat w div 65536)"

definition MMCONFIG_SIGNATURE :: "32 word" where "MMCONFIG_SIGNATURE = 0x53434D4D"

abbreviation LIST_TERMINATOR :: byte where "LIST_TERMINATOR \<equiv> 255"

subsection \<open>Validating a partition\<close>

text \<open>
  \<open>kp\<close> is \<open>keyheader_ptr\<close> and \<open>pend\<close> the end of the partition; the records hold the
  length of the key, the key, the length of the data in two bytes and the data. \<open>None\<close> is the
  early return on a length whose upper byte is erased flash.
\<close>

function validate_loop :: "mem \<Rightarrow> nat \<Rightarrow> nat \<Rightarrow> 32 word \<Rightarrow> 32 word option" where
  "validate_loop m pend kp checksum =
     (if m kp \<noteq> LIST_TERMINATOR \<and> m kp \<noteq> 0 \<and> kp < pend then
        (let key_len = rd8 m kp;
             dp = kp + 1 + key_len;
             data_len = rd16 m dp
         in if data_len div 256 = 255 then None
            else let bytecount = 1 + key_len + 2 + data_len in
              validate_loop m pend (dp + 2 + data_len)
                (mmconfig_update_checksum checksum (rd_bytes m kp bytecount)))
      else Some checksum)"
  by pat_completeness auto
termination by (relation "measure (\<lambda>(_, pend, kp, _). pend - kp)") (auto simp: Let_def)

declare validate_loop.simps [simp del]

definition mmconfig_validate_partition :: "mem \<Rightarrow> nat \<Rightarrow> nat \<Rightarrow> int" where
  "mmconfig_validate_partition m psize part =
     (if rd32 m part \<noteq> MMCONFIG_SIGNATURE then MMCONFIG_ERR_INVALID_PARTITION
      else case validate_loop m (part + psize) (part + 12) XORHASH_SEED of
        None \<Rightarrow> MMCONFIG_ERR_INVALID_PARTITION
      | Some checksum \<Rightarrow>
          if checksum \<noteq> rd32 m (part + 8) then MMCONFIG_ERR_INVALID_PARTITION else MMCONFIG_OK)"

subsection \<open>Erasing and writing through the staging buffer\<close>

function erase_loop :: "mmconfig_env \<Rightarrow> nat \<Rightarrow> nat \<Rightarrow> mmconfig \<Rightarrow> mmconfig option" where
  "erase_loop env block_address end_address st =
     (if block_address < end_address then
        (let block_size = mmhal_flash_getblocksize env block_address in
         if block_size = 0 then None
         else erase_loop env (block_address + block_size) end_address (flash_erase env block_address st))
      else Some st)"
  by pat_completeness auto
termination by (relation "measure (\<lambda>(_, a, e, _). e - a)") auto

declare erase_loop.simps [simp del]

definition mmconfig_erase_partition ::
  "mmconfig_env \<Rightarrow> nat \<Rightarrow> nat \<Rightarrow> mmconfig \<Rightarrow> mmconfig option" where
  "mmconfig_erase_partition env part psize st = erase_loop env part (part + psize) st"

abbreviation STAGING_SIZE :: nat where "STAGING_SIZE \<equiv> 128"

lemma staging_full: "sub32 STAGING_SIZE i = 0 \<Longrightarrow> 0 < i"
  by (rule ccontr) (simp add: sub32_def u32_def)

function buffered_write_loop :: "mmconfig_env \<Rightarrow> byte list \<Rightarrow> mmconfig \<Rightarrow> byte list \<times> mmconfig" where
  "buffered_write_loop env data st =
     (let room = sub32 STAGING_SIZE (mmconfig_buffer_index st) in
      if length data \<ge> room then
        let buf = put_bytes (mmconfig_staging_buffer st) (mmconfig_buffer_index st) (take room data);
            st = st\<lparr>mmconfig_staging_buffer := buf\<rparr>;
            st = flash_write env (mmconfig_flashing_address st) buf st
        in buffered_write_loop env (drop room data)
             (st\<lparr>mmconfig_flashing_address := mmconfig_flashing_address st + STAGING_SIZE,
                 mmconfig_buffer_index := 0\<rparr>)
      else (data, st))"
  by pat_completeness auto
termination
proof (relation "measures [\<lambda>(_, data, _). length data, \<lambda>(_, _, st). mmconfig_buffer_index st]",
    goal_cases)
  case (2 env data st room)
  have "room = 0 \<Longrightarrow> 0 < mmconfig_buffer_index st"
    using staging_full [of "mmconfig_buffer_index st"] 2(1) by simp
  then show ?case using 2 by (cases "length data = 0"; cases "room = 0") auto
qed simp

declare buffered_write_loop.simps [simp del]

definition mmconfig_buffered_write :: "mmconfig_env \<Rightarrow> byte list \<Rightarrow> mmconfig \<Rightarrow> mmconfig option" where
  "mmconfig_buffered_write env data st =
     (let (data, st) = buffered_write_loop env data st in
      if length data > 0 then do {
        ensure (mmconfig_buffer_index st + length data < STAGING_SIZE);
        buf \<leftarrow> mem_write (mmconfig_staging_buffer st) (mmconfig_buffer_index st) data;
        Some (st\<lparr>mmconfig_staging_buffer := buf,
                 mmconfig_buffer_index := mmconfig_buffer_index st + length data\<rparr>)
      }
      else Some st)"

definition mmconfig_start_flashing ::
  "mmconfig_env \<Rightarrow> nat \<Rightarrow> 32 word \<Rightarrow> 32 word \<Rightarrow> mmconfig \<Rightarrow> mmconfig option" where
  "mmconfig_start_flashing env part version checksum st =
     mmconfig_buffered_write env (le32 MMCONFIG_SIGNATURE @ le32 version @ le32 checksum)
       (st\<lparr>mmconfig_staging_buffer := replicate STAGING_SIZE 255,
           mmconfig_buffer_index := 0,
           mmconfig_flashing_address := part\<rparr>)"

definition mmconfig_end_flashing :: "mmconfig_env \<Rightarrow> mmconfig \<Rightarrow> mmconfig" where
  "mmconfig_end_flashing env st =
     flash_write env (mmconfig_flashing_address st)
       (take (mmconfig_buffer_index st) (mmconfig_staging_buffer st)) st"

subsection \<open>Going through the stored records\<close>

text \<open>A node of an update list: the data is \<open>None\<close> for \<open>NULL\<close>, which deletes; the size is
  the length of the list.\<close>

record mmconfig_update_node =
  node_key :: "byte list"
  node_data :: "byte list option"

fun node_matches :: "mmconfig_update_node list \<Rightarrow> byte list \<Rightarrow> bool option" where
  "node_matches [] found = Some False"
| "node_matches (node # nodes) found = do {
     b \<leftarrow> mmconfig_key_match (node_key node) found;
     (if b then Some True else node_matches nodes found)
   }"

text \<open>\<open>retain\<close> is \<open>retain_entry_fn\<close>, which may update the checksum or write to flash.\<close>

type_synonym retain_fn = "32 word \<Rightarrow> byte list \<Rightarrow> mmconfig \<Rightarrow> (32 word \<times> mmconfig) option"

function process_loop ::
  "retain_fn \<Rightarrow> mmconfig_update_node list \<Rightarrow> nat \<Rightarrow> nat \<Rightarrow> nat \<Rightarrow> 32 word \<Rightarrow> mmconfig
    \<Rightarrow> (nat \<times> 32 word \<times> nat \<times> mmconfig) option" where
  "process_loop retain nodes pend kp skipped checksum st =
     (if flash st kp \<noteq> LIST_TERMINATOR \<and> flash st kp \<noteq> 0 \<and> kp < pend then
        (let key_len = rd8 (flash st) kp;
             dp = kp + 1 + key_len;
             data_len = rd16 (flash st) dp;
             bytecount = 1 + key_len + 2 + data_len
         in do {
           b \<leftarrow> node_matches nodes (rd_bytes (flash st) (kp + 1) key_len);
           (if b then
              process_loop retain nodes pend (dp + 2 + data_len) (u32 (skipped + bytecount)) checksum st
            else do {
              (checksum, st) \<leftarrow> retain checksum (rd_bytes (flash st) kp bytecount) st;
              process_loop retain nodes pend (dp + 2 + data_len) skipped checksum st
            })
         })
      else Some (kp, checksum, skipped, st))"
  by pat_completeness auto
termination by (relation "measure (\<lambda>(_, _, pend, kp, _). pend - kp)") auto

declare process_loop.simps [simp del]

definition mmconfig_process_existing_storage ::
  "retain_fn \<Rightarrow> mmconfig_update_node list \<Rightarrow> mmconfig \<Rightarrow> (nat \<times> 32 word \<times> nat \<times> mmconfig) option" where
  "mmconfig_process_existing_storage retain nodes st =
     (let image = mmconfig_primary_image st in
      process_loop retain nodes (image + mmconfig_partition_size st) (image + 12) 0 XORHASH_SEED st)"

definition retain_checksum :: retain_fn where
  "retain_checksum checksum data st = Some (mmconfig_update_checksum checksum data, st)"

definition mmconfig_buffered_write_wrapper :: "mmconfig_env \<Rightarrow> retain_fn" where
  "mmconfig_buffered_write_wrapper env checksum data st =
     map_option (\<lambda>st. (checksum, st)) (mmconfig_buffered_write env data st)"

text \<open>The new records: what is added to the checksum and to the space, \<open>None\<close> for an invalid
  key.\<close>

fun checksum_nodes :: "mmconfig_update_node list \<Rightarrow> 32 word \<Rightarrow> nat \<Rightarrow> (32 word \<times> nat) option" where
  "checksum_nodes [] checksum required = Some (checksum, required)"
| "checksum_nodes (node # nodes) checksum required =
     (let result = mmconfig_validate_key (node_key node) in
      if result \<noteq> MMCONFIG_OK \<and> result \<noteq> MMCONFIG_ERR_WILDCARD_KEY then None
      else case node_data node of
        None \<Rightarrow> checksum_nodes nodes checksum required
      | Some data \<Rightarrow>
          (let key_len = u8 (length (node_key node));
               data_len = u16 (length data);
               required = u32 (required + (1 + key_len + 2 + data_len));
               checksum = mmconfig_update_checksum checksum [of_nat key_len];
               checksum = mmconfig_update_checksum checksum (take key_len (node_key node));
               checksum = mmconfig_update_checksum checksum (le16 data_len);
               checksum = mmconfig_update_checksum checksum data
           in checksum_nodes nodes checksum required))"

text \<open>The result, the checksum, and the two numbers of bytes where they are computed.\<close>

definition mmconfig_compute_new_checksum ::
  "mmconfig_env \<Rightarrow> mmconfig_update_node list \<Rightarrow> mmconfig
    \<Rightarrow> (int \<times> 32 word \<times> (nat \<times> int) option) option" where
  "mmconfig_compute_new_checksum env nodes st =
     (case mmhal_get_mmconfig_partition env of
        None \<Rightarrow> Some (MMCONFIG_ERR_NOT_SUPPORTED, 0, None)
      | Some cfg \<Rightarrow>
          if partition_size cfg = 0 then Some (MMCONFIG_ERR_NOT_SUPPORTED, 0, None)
          else do {
            (kp, checksum, skipped, st) \<leftarrow> mmconfig_process_existing_storage retain_checksum nodes st;
            (case checksum_nodes nodes checksum 0 of
               None \<Rightarrow> Some (MMCONFIG_ERR_INVALID_KEY, checksum, None)
             | Some (checksum, required) \<Rightarrow>
                 (let space_required =
                        u32 (sub32 kp (mmconfig_primary_image st) + sub32 required skipped);
                      space_available = mmconfig_partition_size st;
                      remaining = s32 (sub32 space_available space_required)
                  in Some (if space_available < space_required then MMCONFIG_ERR_FULL else MMCONFIG_OK,
                           checksum, Some (space_required, remaining))))
          })"

fun write_nodes :: "mmconfig_env \<Rightarrow> mmconfig_update_node list \<Rightarrow> mmconfig \<Rightarrow> mmconfig option" where
  "write_nodes env [] st = Some st"
| "write_nodes env (node # nodes) st =
     (case node_data node of
        None \<Rightarrow> write_nodes env nodes st
      | Some data \<Rightarrow>
          (let key_len = u8 (length (node_key node));
               data_len = u16 (length data)
           in do {
             st \<leftarrow> mmconfig_buffered_write env [of_nat key_len] st;
             st \<leftarrow> mmconfig_buffered_write env (take key_len (node_key node)) st;
             st \<leftarrow> mmconfig_buffered_write env (le16 data_len) st;
             st \<leftarrow> mmconfig_buffered_write env data st;
             write_nodes env nodes st
           }))"

definition mmconfig_update_secondary_image ::
  "mmconfig_env \<Rightarrow> mmconfig_update_node list \<Rightarrow> mmconfig \<Rightarrow> (int \<times> mmconfig) option" where
  "mmconfig_update_secondary_image env nodes st = do {
     (retval, checksum, _) \<leftarrow> mmconfig_compute_new_checksum env nodes st;
     (if retval \<noteq> MMCONFIG_OK then Some (retval, st)
      else do {
        st \<leftarrow> mmconfig_erase_partition env (mmconfig_secondary_image st) (mmconfig_partition_size st) st;
        st \<leftarrow> mmconfig_start_flashing env (mmconfig_secondary_image st)
                (rd32 (flash st) (mmconfig_primary_image st + 4) + 1) checksum st;
        (_, _, _, st) \<leftarrow>
          mmconfig_process_existing_storage (mmconfig_buffered_write_wrapper env) nodes st;
        st \<leftarrow> write_nodes env nodes st;
        st \<leftarrow> mmconfig_buffered_write env [LIST_TERMINATOR] st;
        let st = mmconfig_end_flashing env st;
        let valid = mmconfig_validate_partition (flash st) (mmconfig_partition_size st)
                      (mmconfig_secondary_image st);
        Some (MMCONFIG_OK,
          if valid = MMCONFIG_OK
          then st\<lparr>mmconfig_secondary_image := mmconfig_primary_image st,
                  mmconfig_primary_image := mmconfig_secondary_image st\<rparr>
          else st)
      })
   }"

subsection \<open>Initialisation\<close>

definition header_bytes :: "32 word \<Rightarrow> 32 word \<Rightarrow> byte list" where
  "header_bytes version checksum = le32 MMCONFIG_SIGNATURE @ le32 version @ le32 checksum"

text \<open>\<open>mmconfig_eraseall()\<close> past its call of \<open>mmconfig_init()\<close>, which returns at once when
  it is reached from there: the mutex exists. Creating the mutex is taken to succeed.\<close>

definition eraseall_body :: "mmconfig_env \<Rightarrow> mmconfig \<Rightarrow> (int \<times> mmconfig) option" where
  "eraseall_body env st = do {
     ensure (mmconfig_mutex st);
     st \<leftarrow> mmconfig_erase_partition env (mmconfig_primary_image st) (mmconfig_partition_size st) st;
     st \<leftarrow> mmconfig_erase_partition env (mmconfig_secondary_image st) (mmconfig_partition_size st) st;
     let st = flash_write env (mmconfig_primary_image st) (header_bytes 0 XORHASH_SEED) st;
     let st = flash_write env (mmconfig_secondary_image st) (header_bytes 0 XORHASH_SEED) st;
     Some (MMCONFIG_OK, st)
   }"

definition mmconfig_init :: "mmconfig_env \<Rightarrow> mmconfig \<Rightarrow> (int \<times> mmconfig) option" where
  "mmconfig_init env st =
     (if mmconfig_mutex st then Some (MMCONFIG_OK, st)
      else case mmhal_get_mmconfig_partition env of
        None \<Rightarrow> Some (MMCONFIG_ERR_NOT_SUPPORTED, st)
      | Some cfg \<Rightarrow>
          if partition_size cfg = 0 then Some (MMCONFIG_ERR_NOT_SUPPORTED, st)
          else do {
            ensure (mmhal_flash_getblocksize env (partition_start cfg) \<noteq> 0);
            ensure (mmhal_flash_getblocksize env (partition_start cfg + partition_size cfg - 1) \<noteq> 0);
            ensure (\<not> not_memory_mapped cfg);
            let psize = partition_size cfg div 2;
            let first = partition_start cfg;
            let second = partition_start cfg + psize;
            let st = st\<lparr>mmconfig_mutex := True, mmconfig_partition_size := psize,
                        mmconfig_primary_image := first, mmconfig_secondary_image := second\<rparr>;
            let swapped = st\<lparr>mmconfig_primary_image := second, mmconfig_secondary_image := first\<rparr>;
            (if mmconfig_validate_partition (flash st) psize first = MMCONFIG_OK then
               (if mmconfig_validate_partition (flash st) psize second = MMCONFIG_OK \<and>
                   rd32 (flash st) (second + 4) > rd32 (flash st) (first + 4)
                then Some (MMCONFIG_OK, swapped) else Some (MMCONFIG_OK, st))
             else if mmconfig_validate_partition (flash st) psize second = MMCONFIG_OK then
               Some (MMCONFIG_OK, swapped)
             else do {
               (_, st) \<leftarrow> eraseall_body env st;
               Some (MMCONFIG_DATA_ERASED, st)
             })
          })"

definition mmconfig_eraseall :: "mmconfig_env \<Rightarrow> mmconfig \<Rightarrow> (int \<times> mmconfig) option" where
  "mmconfig_eraseall env st = do {
     (r, st) \<leftarrow> mmconfig_init env st;
     (if r = MMCONFIG_ERR_NOT_SUPPORTED then Some (MMCONFIG_ERR_NOT_SUPPORTED, st)
      else eraseall_body env st)
   }"

subsection \<open>Reading and writing a key\<close>

text \<open>The data is a pointer into flash or to a literal; the model returns the bytes it points to,
  as many as the length says.\<close>

function read_loop :: "mem \<Rightarrow> byte list \<Rightarrow> nat \<Rightarrow> nat \<Rightarrow> (byte list option) option" where
  "read_loop m key pend kp =
     (if m kp \<noteq> LIST_TERMINATOR \<and> m kp \<noteq> 0 \<and> kp < pend then
        (let key_len = rd8 m kp;
             dp = kp + 1 + key_len;
             data_len = rd16 m dp
         in do {
           b \<leftarrow> mmconfig_key_match key (rd_bytes m (kp + 1) key_len);
           (if b then Some (Some (rd_bytes m (dp + 2) data_len))
            else read_loop m key pend (dp + 2 + data_len))
         })
      else Some None)"
  by pat_completeness auto
termination by (relation "measure (\<lambda>(_, _, pend, kp). pend - kp)") auto

declare read_loop.simps [simp del]

fun find_literal :: "(byte list \<times> byte list) list \<Rightarrow> byte list \<Rightarrow> byte list option" where
  "find_literal [] key = None"
| "find_literal ((k, v) # cfgs) key = (if key = k then Some (v @ [0]) else find_literal cfgs key)"

definition mmconfig_read_data ::
  "mmconfig_env \<Rightarrow> byte list \<Rightarrow> mmconfig \<Rightarrow> ((int \<times> byte list) \<times> mmconfig) option" where
  "mmconfig_read_data env key st = do {
     (r, st) \<leftarrow> mmconfig_init env st;
     (if r = MMCONFIG_ERR_NOT_SUPPORTED then Some ((MMCONFIG_ERR_NOT_SUPPORTED, []), st)
      else if mmconfig_validate_key key \<noteq> MMCONFIG_OK then Some ((MMCONFIG_ERR_INVALID_KEY, []), st)
      else do {
        let image = mmconfig_primary_image st;
        found \<leftarrow> read_loop (flash st) key (image + mmconfig_partition_size st) (image + 12);
        (case found of
           Some data \<Rightarrow> Some ((int (length data), data), st)
         | None \<Rightarrow>
             (case find_literal (mm_litral_configs env) key of
                Some data \<Rightarrow> Some ((int (length data), data), st)
              | None \<Rightarrow> Some ((MMCONFIG_ERR_NOT_FOUND, []), st)))
      })
   }"

definition mmconfig_write_update_node_list ::
  "mmconfig_env \<Rightarrow> mmconfig_update_node list \<Rightarrow> mmconfig \<Rightarrow> (int \<times> mmconfig) option" where
  "mmconfig_write_update_node_list env node_list st = do {
     (r, st) \<leftarrow> mmconfig_init env st;
     (if r = MMCONFIG_ERR_NOT_SUPPORTED then Some (MMCONFIG_ERR_NOT_SUPPORTED, st)
      else if node_list = [] then Some (MMCONFIG_OK, st)
      else mmconfig_update_secondary_image env node_list st)
   }"

text \<open>\<open>data\<close> is a buffer of at least \<open>dsize\<close> bytes, or \<open>NULL\<close>; comparing with \<open>NULL\<close>
  is undefined unless nothing is compared.\<close>

definition mmconfig_write_data ::
  "mmconfig_env \<Rightarrow> byte list \<Rightarrow> byte list option \<Rightarrow> nat \<Rightarrow> mmconfig \<Rightarrow> (int \<times> mmconfig) option" where
  "mmconfig_write_data env key data dsize st = do {
     (r, st) \<leftarrow> mmconfig_init env st;
     (if r = MMCONFIG_ERR_NOT_SUPPORTED then Some (MMCONFIG_ERR_NOT_SUPPORTED, st)
      else do {
        let result = mmconfig_validate_key key;
        let write = mmconfig_write_update_node_list env
                      [\<lparr>node_key = key, node_data = map_option (take dsize) data\<rparr>];
        (if result = MMCONFIG_OK then do {
           ((result, currvalue), st) \<leftarrow> mmconfig_read_data env key st;
           same \<leftarrow> (if 0 \<le> result \<and> nat result = dsize then
                      (if dsize = 0 then Some True
                       else case data of
                         None \<Rightarrow> None
                       | Some d \<Rightarrow> do { ensure (dsize \<le> length d); Some (currvalue = take dsize d) })
                    else Some False);
           (if same then Some (MMCONFIG_OK, st) else write st)
         }
         else if result = MMCONFIG_ERR_WILDCARD_KEY then
           (if data = None then write st else Some (MMCONFIG_ERR_INVALID_KEY, st))
         else Some (MMCONFIG_ERR_INVALID_KEY, st))
      })
   }"

definition mmconfig_delete_key :: "mmconfig_env \<Rightarrow> byte list \<Rightarrow> mmconfig \<Rightarrow> (int \<times> mmconfig) option" where
  "mmconfig_delete_key env key st = mmconfig_write_data env key None 0 st"

subsection \<open>Typed access\<close>

definition mmconfig_alloc_and_load ::
  "mmconfig_env \<Rightarrow> bool \<Rightarrow> byte list \<Rightarrow> mmconfig \<Rightarrow> ((int \<times> byte list option) \<times> mmconfig) option" where
  "mmconfig_alloc_and_load env malloc_ok key st = do {
     (r, st) \<leftarrow> mmconfig_init env st;
     (if r = MMCONFIG_ERR_NOT_SUPPORTED then Some ((MMCONFIG_ERR_NOT_SUPPORTED, None), st)
      else do {
        ((len, livedata), st) \<leftarrow> mmconfig_read_data env key st;
        (if len < 0 then Some ((len, None), st)
         else if \<not> malloc_ok then Some ((MMCONFIG_ERR_INSUFFICIENT_MEMORY, None), st)
         else Some ((len, Some (take (nat len) livedata)), st))
      })
   }"

text \<open>The bytes returned are those copied to the buffer.\<close>

definition mmconfig_read_bytes ::
  "mmconfig_env \<Rightarrow> byte list \<Rightarrow> bool \<Rightarrow> nat \<Rightarrow> nat \<Rightarrow> mmconfig
    \<Rightarrow> ((int \<times> byte list) \<times> mmconfig) option" where
  "mmconfig_read_bytes env key buffer buffsize offset st = do {
     (r, st) \<leftarrow> mmconfig_init env st;
     (if r = MMCONFIG_ERR_NOT_SUPPORTED then Some ((MMCONFIG_ERR_NOT_SUPPORTED, []), st)
      else do {
        ((len, data), st) \<leftarrow> mmconfig_read_data env key st;
        (if len < 0 then Some ((len, []), st)
         else if offset > nat len then Some ((MMCONFIG_ERR_OUT_OF_BOUNDS, []), st)
         else if \<not> buffer then Some ((len, []), st)
         else let copied = (if buffsize < nat len - offset then buffsize else nat len - offset) in
           do {
             bs \<leftarrow> mem_read data offset copied;
             Some ((s32 copied, bs), st)
           })
      })
   }"

definition mmconfig_write_string ::
  "mmconfig_env \<Rightarrow> byte list \<Rightarrow> byte list \<Rightarrow> mmconfig \<Rightarrow> (int \<times> mmconfig) option" where
  "mmconfig_write_string env key value st =
     mmconfig_write_data env key (Some (value @ [0])) (length value + 1) st"

text \<open>\<open>bufsize\<close> is \<open>None\<close> for a \<open>NULL\<close> buffer.\<close>

definition decode_string :: "int option \<Rightarrow> int \<times> byte list \<Rightarrow> int \<times> byte list" where
  "decode_string bufsize r =
     (let (retval, value) = r in
      if retval < 0 then (retval, [])
      else if retval = 0 then (MMCONFIG_ERR_INCORRECT_TYPE, [])
      else if value ! nat (retval - 1) \<noteq> 0 then (MMCONFIG_ERR_INCORRECT_TYPE, [])
      else case bufsize of
        None \<Rightarrow> (retval, [])
      | Some n \<Rightarrow> if retval > n then (MMCONFIG_ERR_INSUFFICIENT_MEMORY, [])
                  else (retval, take (nat retval) value))"

definition mmconfig_read_string ::
  "mmconfig_env \<Rightarrow> byte list \<Rightarrow> int option \<Rightarrow> mmconfig \<Rightarrow> ((int \<times> byte list) \<times> mmconfig) option" where
  "mmconfig_read_string env key bufsize st = do {
     (r, st) \<leftarrow> mmconfig_init env st;
     (if r = MMCONFIG_ERR_NOT_SUPPORTED then Some ((MMCONFIG_ERR_NOT_SUPPORTED, []), st)
      else do {
        (r, st) \<leftarrow> mmconfig_read_data env key st;
        Some (decode_string bufsize r, st)
      })
   }"

text \<open>\<open>str\<close> is the array of 16 bytes on the stack, whatever it holds.\<close>

definition mmconfig_write_int ::
  "mmconfig_env \<Rightarrow> byte list \<Rightarrow> byte list \<Rightarrow> int \<Rightarrow> mmconfig \<Rightarrow> (int \<times> mmconfig) option" where
  "mmconfig_write_int env str key value st = do {
     out \<leftarrow> mmconfig_int_to_str str 16 value;
     text \<leftarrow> out;
     mmconfig_write_string env key (c_str text) st
   }"

definition mmconfig_write_uint32 ::
  "mmconfig_env \<Rightarrow> byte list \<Rightarrow> byte list \<Rightarrow> nat \<Rightarrow> mmconfig \<Rightarrow> (int \<times> mmconfig) option" where
  "mmconfig_write_uint32 env str key value st = do {
     out \<leftarrow> mmconfig_uint_to_str str 16 value;
     text \<leftarrow> out;
     mmconfig_write_string env key (c_str text) st
   }"

text \<open>The value is \<open>None\<close> where \<open>*value\<close> is left alone.\<close>

definition decode_number :: "(byte list \<Rightarrow> 'v option) \<Rightarrow> int \<times> byte list \<Rightarrow> int \<times> 'v option" where
  "decode_number conv r =
     (let (retval, data) = r in
      if retval < 0 then (retval, None)
      else if retval = 0 then (MMCONFIG_ERR_INCORRECT_TYPE, None)
      else if data ! nat (retval - 1) \<noteq> 0 then (MMCONFIG_ERR_INCORRECT_TYPE, None)
      else case conv (c_str data) of
        Some v \<Rightarrow> (MMCONFIG_OK, Some v)
      | None \<Rightarrow> (MMCONFIG_ERR_INCORRECT_TYPE, None))"

definition mmconfig_read_int ::
  "mmconfig_env \<Rightarrow> byte list \<Rightarrow> mmconfig \<Rightarrow> ((int \<times> int option) \<times> mmconfig) option" where
  "mmconfig_read_int env key st = do {
     (r, st) \<leftarrow> mmconfig_init env st;
     (if r = MMCONFIG_ERR_NOT_SUPPORTED then Some ((MMCONFIG_ERR_NOT_SUPPORTED, None), st)
      else do {
        (r, st) \<leftarrow> mmconfig_read_data env key st;
        Some (decode_number mmconfig_str_to_int r, st)
      })
   }"

definition mmconfig_read_uint32 ::
  "mmconfig_env \<Rightarrow> byte list \<Rightarrow> mmconfig \<Rightarrow> ((int \<times> nat option) \<times> mmconfig) option" where
  "mmconfig_read_uint32 env key st = do {
     (r, st) \<leftarrow> mmconfig_init env st;
     (if r = MMCONFIG_ERR_NOT_SUPPORTED then Some ((MMCONFIG_ERR_NOT_SUPPORTED, None), st)
      else do {
        (r, st) \<leftarrow> mmconfig_read_data env key st;
        Some (decode_number mmconfig_str_to_uint r, st)
      })
   }"

definition str_true :: "byte list" where "str_true = [116, 114, 117, 101]"
definition str_false :: "byte list" where "str_false = [102, 97, 108, 115, 101]"

definition mmconfig_write_bool ::
  "mmconfig_env \<Rightarrow> byte list \<Rightarrow> bool \<Rightarrow> mmconfig \<Rightarrow> (int \<times> mmconfig) option" where
  "mmconfig_write_bool env key value st =
     (if value then mmconfig_write_string env key str_true st
      else mmconfig_write_string env key str_false st)"

definition tolower :: "byte \<Rightarrow> byte" where
  "tolower c = (if 65 \<le> c \<and> c \<le> 90 then c + 32 else c)"

definition decode_bool :: "int \<times> byte list \<Rightarrow> int \<times> bool option" where
  "decode_bool r =
     (let (retval, data) = r; str = map tolower (c_str data) in
      if retval < 0 then (retval, None)
      else if retval = 0 then (MMCONFIG_ERR_INCORRECT_TYPE, None)
      else if retval = 1 then (retval, Some (data ! 0 \<noteq> 0))
      else if data ! nat (retval - 1) \<noteq> 0 then (MMCONFIG_ERR_INCORRECT_TYPE, None)
      else if str = str_true then (MMCONFIG_OK, Some True)
      else if str = str_false then (MMCONFIG_OK, Some False)
      else case mmconfig_str_to_int (c_str data) of
        Some tmp \<Rightarrow> (MMCONFIG_OK, Some (tmp \<noteq> 0))
      | None \<Rightarrow> (MMCONFIG_ERR_INCORRECT_TYPE, None))"

definition mmconfig_read_bool ::
  "mmconfig_env \<Rightarrow> byte list \<Rightarrow> mmconfig \<Rightarrow> ((int \<times> bool option) \<times> mmconfig) option" where
  "mmconfig_read_bool env key st = do {
     (r, st) \<leftarrow> mmconfig_init env st;
     (if r = MMCONFIG_ERR_NOT_SUPPORTED then Some ((MMCONFIG_ERR_NOT_SUPPORTED, None), st)
      else do {
        (r, st) \<leftarrow> mmconfig_read_data env key st;
        Some (decode_bool r, st)
      })
   }"

definition mmconfig_check_usage ::
  "mmconfig_env \<Rightarrow> mmconfig_update_node list \<Rightarrow> mmconfig
    \<Rightarrow> ((int \<times> (nat \<times> int) option) \<times> mmconfig) option" where
  "mmconfig_check_usage env nodes st = do {
     (r, st) \<leftarrow> mmconfig_init env st;
     (if r = MMCONFIG_ERR_NOT_SUPPORTED then Some ((MMCONFIG_ERR_NOT_SUPPORTED, None), st)
      else do {
        (result, _, usage) \<leftarrow> mmconfig_compute_new_checksum env nodes st;
        Some ((result, usage), st)
      })
   }"

subsection \<open>The interface of the flash\<close>

text \<open>
  What the code relies on, from the documentation in \<open>mmhal_flash.h\<close>: the size of the block
  at the start of a block is not zero and erasing there sets exactly that block to the erase
  value; writing to erased flash stores the bytes; and neither touches anything else. \<open>block\<close>
  says which addresses start a block.
\<close>

definition patch :: "mem \<Rightarrow> nat \<Rightarrow> byte list \<Rightarrow> mem" where
  "patch m a bs = (\<lambda>x. if a \<le> x \<and> x < a + length bs then bs ! (x - a) else m x)"

definition erased :: "mem \<Rightarrow> nat \<Rightarrow> nat \<Rightarrow> mem" where
  "erased m a n = (\<lambda>x. if a \<le> x \<and> x < a + n then 255 else m x)"

definition blank :: "mem \<Rightarrow> nat \<Rightarrow> nat \<Rightarrow> bool" where
  "blank m a n \<longleftrightarrow> (\<forall>i<n. m (a + i) = 255)"

locale flash_device =
  fixes env :: mmconfig_env and block :: "nat \<Rightarrow> bool"
  assumes block_size: "block a \<Longrightarrow> 0 < mmhal_flash_getblocksize env a"
    and erase_block: "block a \<Longrightarrow>
      mmhal_flash_erase env a m = erased m a (mmhal_flash_getblocksize env a)"
    and write_blank: "blank m a (length bs) \<Longrightarrow> mmhal_flash_write env a bs m = patch m a bs"
    and write_frame: "x < a \<or> a + length bs \<le> x \<Longrightarrow> mmhal_flash_write env a bs m x = m x"

text \<open>A range that consists of whole blocks.\<close>

inductive tiled :: "mmconfig_env \<Rightarrow> (nat \<Rightarrow> bool) \<Rightarrow> nat \<Rightarrow> nat \<Rightarrow> bool" for env block where
  tiled_nil: "tiled env block a a"
| tiled_block: "block a \<Longrightarrow> tiled env block (a + mmhal_flash_getblocksize env a) e \<Longrightarrow> tiled env block a e"

text \<open>NOR flash with blocks of one size: a write can only clear bits.\<close>

definition nor_write :: "nat \<Rightarrow> byte list \<Rightarrow> mem \<Rightarrow> mem" where
  "nor_write a bs m = (\<lambda>x. if a \<le> x \<and> x < a + length bs then m x AND bs ! (x - a) else m x)"

definition nor_env :: "nat \<Rightarrow> mmhal_flash_partition_config option \<Rightarrow> (byte list \<times> byte list) list \<Rightarrow> mmconfig_env" where
  "nor_env bsize cfg lits =
     \<lparr>mmhal_flash_getblocksize = (\<lambda>a. bsize),
      mmhal_flash_erase = (\<lambda>a m. erased m (a - a mod bsize) bsize),
      mmhal_flash_write = nor_write,
      mmhal_get_mmconfig_partition = cfg,
      mm_litral_configs = lits\<rparr>"

lemma byte_all_ones_and [simp]: "(255 :: byte) AND b = b"
proof -
  have "(255 :: byte) = -1" by simp
  then show ?thesis by (simp only: and.left_neutral)
qed

lemma nor_write_blank: "blank m a (length bs) \<Longrightarrow> nor_write a bs m = patch m a bs"
proof (rule ext)
  fix x assume b: "blank m a (length bs)"
  show "nor_write a bs m x = patch m a bs x"
  proof (cases "a \<le> x \<and> x < a + length bs")
    case True
    then have "m (a + (x - a)) = 255" using b unfolding blank_def by (metis less_diff_conv2 add.commute)
    then show ?thesis using True by (simp add: nor_write_def patch_def)
  next
    case False
    then show ?thesis by (auto simp: nor_write_def patch_def)
  qed
qed

lemma nor_flash_device:
  assumes "0 < bsize"
  shows "flash_device (nor_env bsize cfg lits) (\<lambda>a. a mod bsize = 0)"
proof unfold_locales
  fix a m
  show "a mod bsize = 0 \<Longrightarrow> 0 < mmhal_flash_getblocksize (nor_env bsize cfg lits) a"
    using assms by (simp add: nor_env_def)
  show "a mod bsize = 0 \<Longrightarrow> mmhal_flash_erase (nor_env bsize cfg lits) a m
      = erased m a (mmhal_flash_getblocksize (nor_env bsize cfg lits) a)"
    by (simp add: nor_env_def)
next
  fix m a bs
  show "blank m a (length bs) \<Longrightarrow> mmhal_flash_write (nor_env bsize cfg lits) a bs m = patch m a bs"
    by (simp add: nor_env_def nor_write_blank)
next
  fix x a :: nat and bs m
  show "x < a \<or> a + length bs \<le> x \<Longrightarrow> mmhal_flash_write (nor_env bsize cfg lits) a bs m x = m x"
    by (auto simp: nor_env_def nor_write_def)
qed

interpretation nor: flash_device "nor_env (2 ^ k) cfg lits" "\<lambda>a. a mod 2 ^ k = 0" for k cfg lits
  by (rule nor_flash_device) simp

end
