(* ===== verification/Config_Image.thy ===== *)
theory Config_Image
  imports Config_Store
begin

section \<open>Persistent configuration: images and flash operations\<close>

text \<open>
  The two views the proofs about the store rest on. The bytes of an image against its records:
  what each loop of the code computes on an image that holds a given list of records. And the flash
  operations: which range they touch, what erasing a range of whole blocks leaves, and that the
  staging buffer writes exactly the concatenation of what is pushed to it.
\<close>

subsection \<open>Reading memory\<close>

definition holds_at :: "mem \<Rightarrow> nat \<Rightarrow> byte list \<Rightarrow> bool" where
  "holds_at m a bs \<longleftrightarrow> (\<forall>i<length bs. m (a + i) = bs ! i)"

lemma holds_at_Nil [simp]: "holds_at m a []"
  by (simp add: holds_at_def)

lemma holds_at_Cons [simp]: "holds_at m a (b # bs) \<longleftrightarrow> m a = b \<and> holds_at m (Suc a) bs"
  by (auto simp: holds_at_def nth_Cons' less_Suc_eq_0_disj gr0_conv_Suc)

lemma holds_at_append [simp]:
  "holds_at m a (xs @ ys) \<longleftrightarrow> holds_at m a xs \<and> holds_at m (a + length xs) ys"
  by (induction xs arbitrary: a) auto

lemma holds_at_rd_bytes: "holds_at m a bs \<Longrightarrow> n = length bs \<Longrightarrow> rd_bytes m a n = bs"
  by (auto simp: holds_at_def rd_bytes_def intro!: nth_equalityI)

lemma holds_at_cong:
  "holds_at m a bs \<Longrightarrow> (\<And>x. a \<le> x \<Longrightarrow> x < a + length bs \<Longrightarrow> m' x = m x) \<Longrightarrow> holds_at m' a bs"
  by (simp add: holds_at_def)

lemma holds_at_patch: "holds_at (patch m a bs) a bs"
  by (simp add: holds_at_def patch_def)

lemma length_le16 [simp]: "length (le16 n) = 2"
  by (simp add: le16_def)

lemma length_le32 [simp]: "length (le32 w) = 4"
  by (simp add: le32_def)

lemma length_header_bytes [simp]: "length (header_bytes v c) = 12"
  by (simp add: header_bytes_def)

lemma unat_byte: "n < 256 \<Longrightarrow> unat (of_nat n :: byte) = n"
  by (simp add: unsigned_of_nat take_bit_eq_mod)

lemma rd16_le16: "n < 65536 \<Longrightarrow> holds_at m a (le16 n) \<Longrightarrow> rd16 m a = n"
proof -
  assume n: "n < 65536" and h: "holds_at m a (le16 n)"
  then have e: "m a = of_nat (n mod 256)" "m (Suc a) = of_nat (n div 256)"
    by (simp_all add: le16_def)
  have d: "n div 256 < 256" using n by (simp add: div_less_iff_less_mult)
  have u: "unat (m a) = n mod 256" "unat (m (Suc a)) = n div 256"
    unfolding e by (rule unat_byte, simp, rule unat_byte, rule d)
  then show ?thesis by (simp add: rd16_def rd8_def)
qed

lemma rd32_le32: "holds_at m a (le32 w) \<Longrightarrow> rd32 m a = w"
proof -
  assume h: "holds_at m a (le32 w)"
  have w: "unat w div 65536 < 65536"
    using unsigned_less [of w] by (simp add: div_less_iff_less_mult)
  have "rd16 m a = unat w mod 65536" "rd16 m (a + 2) = unat w div 65536"
    using h w by (auto simp: le32_def intro!: rd16_le16)
  then have e: "rd16 m a + 65536 * rd16 m (a + 2) = unat w" by simp
  show ?thesis unfolding rd32_def e by simp
qed

subsection \<open>The records of an image\<close>

text \<open>The contents of a store: the records in the order they are stored. A record can be read
  back when its lengths cannot be taken for the end of the list, an assertion failure or half
  written flash.\<close>

type_synonym record_entry = "byte list \<times> byte list"

definition record_ok :: "record_entry \<Rightarrow> bool" where
  "record_ok e \<longleftrightarrow> fst e \<noteq> [] \<and> length (fst e) \<le> MMCONFIG_MAX_KEYLEN \<and> length (snd e) < 65280"

definition record_bytes :: "record_entry \<Rightarrow> byte list" where
  "record_bytes e = [of_nat (length (fst e))] @ fst e @ le16 (length (snd e)) @ snd e"

definition image_bytes :: "record_entry list \<Rightarrow> byte list" where
  "image_bytes es = concat (map record_bytes es)"

definition image_ended :: "mem \<Rightarrow> nat \<Rightarrow> nat \<Rightarrow> bool" where
  "image_ended m p pend \<longleftrightarrow> m p = LIST_TERMINATOR \<or> m p = 0 \<or> pend \<le> p"

text \<open>\<open>m\<close> holds a valid image with these records at \<open>a\<close>.\<close>

definition image_at :: "mem \<Rightarrow> nat \<Rightarrow> nat \<Rightarrow> 32 word \<Rightarrow> record_entry list \<Rightarrow> bool" where
  "image_at m a psize version es \<longleftrightarrow>
     list_all record_ok es \<and> 12 + length (image_bytes es) \<le> psize
     \<and> holds_at m a (header_bytes version (mmconfig_update_checksum XORHASH_SEED (image_bytes es)))
     \<and> holds_at m (a + 12) (image_bytes es)
     \<and> image_ended m (a + 12 + length (image_bytes es)) (a + psize)"

lemma image_bytes_simps [simp]:
  "image_bytes [] = []" "image_bytes (e # es) = record_bytes e @ image_bytes es"
  "image_bytes (es @ fs) = image_bytes es @ image_bytes fs"
  by (simp_all add: image_bytes_def)

lemma length_record_bytes: "length (record_bytes e) = 3 + length (fst e) + length (snd e)"
  by (simp add: record_bytes_def)

lemma record_fields:
  assumes "record_ok e" "holds_at m kp (record_bytes e)"
  shows "m kp \<noteq> 255" "m kp \<noteq> 0" "rd8 m kp = length (fst e)"
    "rd16 m (kp + 1 + length (fst e)) = length (snd e)"
    "rd_bytes m kp (1 + length (fst e) + 2 + length (snd e)) = record_bytes e"
    "rd_bytes m (kp + 1) (length (fst e)) = fst e"
    "rd_bytes m (kp + 1 + length (fst e) + 2) (length (snd e)) = snd e"
    "length (snd e) div 256 \<noteq> 255"
proof -
  obtain k d where e: "e = (k, d)" by (cases e)
  have l: "0 < length k" "length k \<le> 32" "length d < 65280"
    using assms(1) by (simp_all add: e record_ok_def MMCONFIG_MAX_KEYLEN_def)
  have h: "m kp = of_nat (length k)" "holds_at m (kp + 1) k"
    "holds_at m (kp + 1 + length k) (le16 (length d))"
    "holds_at m (kp + 1 + length k + 2) d"
    using assms(2) by (simp_all add: e record_bytes_def)
  have u: "unat (m kp) = length k" using l unfolding h(1) by (intro unat_byte) simp
  show "m kp \<noteq> 255" "m kp \<noteq> 0" using u l by auto
  show "rd8 m kp = length (fst e)" using u by (simp add: e rd8_def)
  show "rd16 m (kp + 1 + length (fst e)) = length (snd e)"
    unfolding e fst_conv snd_conv using h(3) l by (intro rd16_le16) simp_all
  show "rd_bytes m kp (1 + length (fst e) + 2 + length (snd e)) = record_bytes e"
    by (rule holds_at_rd_bytes [OF assms(2)]) (simp add: length_record_bytes)
  show "rd_bytes m (kp + 1) (length (fst e)) = fst e"
    unfolding e fst_conv by (rule holds_at_rd_bytes [OF h(2)]) simp
  show "rd_bytes m (kp + 1 + length (fst e) + 2) (length (snd e)) = snd e"
    unfolding e fst_conv snd_conv by (rule holds_at_rd_bytes [OF h(4)]) simp
  show "length (snd e) div 256 \<noteq> 255"
    using l(3) less_mult_imp_div_less [of "length d" 255 256] by (simp add: e)
qed

subsection \<open>The loops over an image\<close>

lemma validate_loop_image:
  "list_all record_ok es \<Longrightarrow> holds_at m kp (image_bytes es) \<Longrightarrow>
   image_ended m (kp + length (image_bytes es)) pend \<Longrightarrow> kp + length (image_bytes es) \<le> pend \<Longrightarrow>
   validate_loop m pend kp c = Some (mmconfig_update_checksum c (image_bytes es))"
proof (induction es arbitrary: kp c)
  case Nil
  then show ?case
    by (subst validate_loop.simps) (auto simp: image_ended_def)
next
  case (Cons e es)
  have ok: "record_ok e" and h: "holds_at m kp (record_bytes e)" using Cons.prems by simp_all
  note f = record_fields [OF ok h]
  have n: "kp + 1 + length (fst e) + 2 + length (snd e) = kp + length (record_bytes e)"
    by (simp add: length_record_bytes)
  have ih: "validate_loop m pend (kp + length (record_bytes e)) (mmconfig_update_checksum c (record_bytes e))
      = Some (mmconfig_update_checksum (mmconfig_update_checksum c (record_bytes e)) (image_bytes es))"
    using Cons.prems by (intro Cons.IH) (simp_all add: add.assoc)
  have lt: "kp < pend" using Cons.prems by (simp add: length_record_bytes)
  show ?case
    by (subst validate_loop.simps) (simp only: f Let_def n ih lt, simp)
qed

lemma image_at_valid:
  assumes "image_at m a psize version es"
  shows "mmconfig_validate_partition m psize a = MMCONFIG_OK" "rd32 m (a + 4) = version"
proof -
  let ?c = "mmconfig_update_checksum XORHASH_SEED (image_bytes es)"
  have h: "holds_at m a (le32 MMCONFIG_SIGNATURE)" "holds_at m (a + 4) (le32 version)"
    "holds_at m (a + 8) (le32 ?c)"
    using assms by (simp_all add: image_at_def header_bytes_def add.commute)
  have v: "validate_loop m (a + psize) (a + 12) XORHASH_SEED = Some ?c"
    using assms by (intro validate_loop_image) (simp_all add: image_at_def add.assoc)
  show "mmconfig_validate_partition m psize a = MMCONFIG_OK"
    by (simp add: mmconfig_validate_partition_def rd32_le32 [OF h(1)] rd32_le32 [OF h(3)] v)
  show "rd32 m (a + 4) = version" by (rule rd32_le32 [OF h(2)])
qed

text \<open>What a read finds: the first record whose key the request selects.\<close>

fun store_lookup :: "record_entry list \<Rightarrow> byte list \<Rightarrow> byte list option" where
  "store_lookup [] key = None"
| "store_lookup (e # es) key = (if key_selects key (fst e) then Some (snd e) else store_lookup es key)"

lemma read_loop_image:
  assumes "plain_key key"
  shows "list_all record_ok es \<Longrightarrow> holds_at m kp (image_bytes es) \<Longrightarrow>
   image_ended m (kp + length (image_bytes es)) pend \<Longrightarrow> kp + length (image_bytes es) \<le> pend \<Longrightarrow>
   read_loop m key pend kp = Some (store_lookup es key)"
proof (induction es arbitrary: kp)
  case Nil
  then show ?case
    by (subst read_loop.simps) (auto simp: image_ended_def)
next
  case (Cons e es)
  have ok: "record_ok e" and h: "holds_at m kp (record_bytes e)" using Cons.prems by simp_all
  note f = record_fields [OF ok h]
  have n: "kp + 1 + length (fst e) + 2 + length (snd e) = kp + length (record_bytes e)"
    by (simp add: length_record_bytes)
  have ih: "read_loop m key pend (kp + length (record_bytes e)) = Some (store_lookup es key)"
    using Cons.prems by (intro Cons.IH) (simp_all add: add.assoc)
  have lt: "kp < pend" using Cons.prems by (simp add: length_record_bytes)
  have km: "mmconfig_key_match key (fst e) = Some (key_selects key (fst e))"
    using assms ok by (intro mmconfig_key_match_selects) (simp_all add: record_ok_def MMCONFIG_MAX_KEYLEN_def)
  show ?case
    by (subst read_loop.simps) (simp only: f Let_def n ih lt km, simp)
qed

text \<open>An update keeps the records that no node selects.\<close>

definition node_valid :: "mmconfig_update_node \<Rightarrow> bool" where
  "node_valid node \<longleftrightarrow> plain_key (node_key node) \<or> wildcard_key (node_key node)"

definition node_selects :: "mmconfig_update_node list \<Rightarrow> byte list \<Rightarrow> bool" where
  "node_selects nodes k \<longleftrightarrow> (\<exists>node \<in> set nodes. key_selects (node_key node) k)"

definition kept :: "mmconfig_update_node list \<Rightarrow> record_entry list \<Rightarrow> record_entry list" where
  "kept nodes es = filter (\<lambda>e. \<not> node_selects nodes (fst e)) es"

definition dropped :: "mmconfig_update_node list \<Rightarrow> record_entry list \<Rightarrow> record_entry list" where
  "dropped nodes es = filter (\<lambda>e. node_selects nodes (fst e)) es"

lemma node_selects_simps [simp]:
  "node_selects [] k = False"
  "node_selects (n # ns) k \<longleftrightarrow> key_selects (node_key n) k \<or> node_selects ns k"
  by (auto simp: node_selects_def)

lemma kept_simps [simp]:
  "kept ns [] = []" "kept ns (e # es) = (if node_selects ns (fst e) then kept ns es else e # kept ns es)"
  "dropped ns [] = []"
  "dropped ns (e # es) = (if node_selects ns (fst e) then e # dropped ns es else dropped ns es)"
  by (simp_all add: kept_def dropped_def)

lemma kept_ok: "list_all record_ok es \<Longrightarrow> list_all record_ok (kept ns es)"
  by (induction es) auto

lemma length_kept_dropped:
  "length (image_bytes (kept ns es)) + length (image_bytes (dropped ns es)) = length (image_bytes es)"
  by (induction es) auto

lemma node_matches_selects:
  "list_all node_valid nodes \<Longrightarrow> length k \<le> 32 \<Longrightarrow> node_matches nodes k = Some (node_selects nodes k)"
  by (induction nodes) (auto simp: node_valid_def mmconfig_key_match_selects)

text \<open>One step of the loop over the stored records.\<close>

lemma process_loop_record:
  assumes "record_ok e" "holds_at (flash st) kp (record_bytes e)" "kp < pend" "list_all node_valid nodes"
  shows "process_loop retain nodes pend kp skipped c st =
    (if node_selects nodes (fst e)
     then process_loop retain nodes pend (kp + length (record_bytes e))
            (u32 (skipped + length (record_bytes e))) c st
     else do { (c, st) \<leftarrow> retain c (record_bytes e) st;
            process_loop retain nodes pend (kp + length (record_bytes e)) skipped c st })"
proof -
  note f = record_fields [OF assms(1,2)]
  have n: "kp + 1 + length (fst e) + 2 + length (snd e) = kp + length (record_bytes e)"
    "1 + length (fst e) + 2 + length (snd e) = length (record_bytes e)"
    by (simp_all add: length_record_bytes)
  have nm: "node_matches nodes (fst e) = Some (node_selects nodes (fst e))"
    using assms(1,4) by (intro node_matches_selects) (simp_all add: record_ok_def MMCONFIG_MAX_KEYLEN_def)
  have rb: "rd_bytes (flash st) kp (length (record_bytes e)) = record_bytes e"
    using f(5) n by simp
  show ?thesis
    by (subst process_loop.simps) (simp only: f Let_def n assms(3) nm rb, simp)
qed

lemma process_loop_end:
  "image_ended (flash st) kp pend \<Longrightarrow> process_loop retain nodes pend kp skipped c st = Some (kp, c, skipped, st)"
  by (subst process_loop.simps) (auto simp: image_ended_def)

lemma process_loop_checksum:
  "list_all record_ok es \<Longrightarrow> list_all node_valid nodes \<Longrightarrow> holds_at (flash st) kp (image_bytes es) \<Longrightarrow>
   image_ended (flash st) (kp + length (image_bytes es)) pend \<Longrightarrow> kp + length (image_bytes es) \<le> pend \<Longrightarrow>
   u32 skipped = skipped \<Longrightarrow>
   process_loop retain_checksum nodes pend kp skipped c st
    = Some (kp + length (image_bytes es), mmconfig_update_checksum c (image_bytes (kept nodes es)),
        u32 (skipped + length (image_bytes (dropped nodes es))), st)"
proof (induction es arbitrary: kp skipped c)
  case Nil
  then show ?case by (simp add: process_loop_end)
next
  case (Cons e es)
  have lt: "kp < pend" using Cons.prems by (simp add: length_record_bytes)
  have u: "u32 (u32 (skipped + a) + b) = u32 (skipped + (a + b))" for a b
    by (simp add: u32_def mod_add_left_eq add.assoc)
  have ih: "u32 sk = sk \<Longrightarrow> process_loop retain_checksum nodes pend (kp + length (record_bytes e)) sk c st
      = Some (kp + length (record_bytes e) + length (image_bytes es),
          mmconfig_update_checksum c (image_bytes (kept nodes es)),
          u32 (sk + length (image_bytes (dropped nodes es))), st)" for sk c
    using Cons.prems by (intro Cons.IH) (simp_all add: add.assoc)
  show ?case
    using Cons.prems lt
    by (subst process_loop_record [where e = e]) (simp_all add: ih u retain_checksum_def add.assoc)
qed

subsection \<open>What an operation does to the flash\<close>

text \<open>The flash operations an operation performs, each inside a range of whole addresses.\<close>

fun run_op :: "mmconfig_env \<Rightarrow> mem \<Rightarrow> flash_op \<Rightarrow> mem" where
  "run_op env m (FErase a) = mmhal_flash_erase env a m"
| "run_op env m (FWrite a bs) = mmhal_flash_write env a bs m"

definition run_ops :: "mmconfig_env \<Rightarrow> mem \<Rightarrow> flash_op list \<Rightarrow> mem" where
  "run_ops env m ops = foldl (run_op env) m ops"

fun op_within :: "mmconfig_env \<Rightarrow> (nat \<Rightarrow> bool) \<Rightarrow> nat \<Rightarrow> nat \<Rightarrow> flash_op \<Rightarrow> bool" where
  "op_within env block lo hi (FErase a) \<longleftrightarrow>
     block a \<and> lo \<le> a \<and> a + mmhal_flash_getblocksize env a \<le> hi"
| "op_within env block lo hi (FWrite a bs) \<longleftrightarrow> lo \<le> a \<and> a + length bs \<le> hi"

definition flash_steps ::
  "mmconfig_env \<Rightarrow> (nat \<Rightarrow> bool) \<Rightarrow> nat \<Rightarrow> nat \<Rightarrow> mmconfig \<Rightarrow> mmconfig \<Rightarrow> bool" where
  "flash_steps env block lo hi st st' \<longleftrightarrow>
     (\<exists>ops. flash_log st' = flash_log st @ ops \<and> flash st' = run_ops env (flash st) ops
        \<and> list_all (op_within env block lo hi) ops)"

definition same_images :: "mmconfig \<Rightarrow> mmconfig \<Rightarrow> bool" where
  "same_images st st' \<longleftrightarrow>
     mmconfig_mutex st' = mmconfig_mutex st \<and> mmconfig_primary_image st' = mmconfig_primary_image st
     \<and> mmconfig_secondary_image st' = mmconfig_secondary_image st
     \<and> mmconfig_partition_size st' = mmconfig_partition_size st"

lemma same_images_refl [simp]: "same_images st st"
  by (simp add: same_images_def)

lemma same_images_trans: "same_images a b \<Longrightarrow> same_images b c \<Longrightarrow> same_images a c"
  by (simp add: same_images_def)

lemma run_ops_append: "run_ops env m (xs @ ys) = run_ops env (run_ops env m xs) ys"
  by (simp add: run_ops_def)

lemma flash_steps_refl: "flash st' = flash st \<Longrightarrow> flash_log st' = flash_log st \<Longrightarrow> flash_steps env block lo hi st st'"
  by (auto simp: flash_steps_def run_ops_def intro!: exI [of _ "[]"])

lemma flash_steps_trans:
  assumes "flash_steps env block lo hi a b" "flash_steps env block lo hi b c"
  shows "flash_steps env block lo hi a c"
proof -
  obtain xs ys where
    "flash_log b = flash_log a @ xs" "flash b = run_ops env (flash a) xs"
    "list_all (op_within env block lo hi) xs"
    "flash_log c = flash_log b @ ys" "flash c = run_ops env (flash b) ys"
    "list_all (op_within env block lo hi) ys"
    using assms unfolding flash_steps_def by blast
  then show ?thesis
    unfolding flash_steps_def by (intro exI [of _ "xs @ ys"]) (simp add: run_ops_append)
qed

lemma flash_steps_erase:
  "block a \<Longrightarrow> lo \<le> a \<Longrightarrow> a + mmhal_flash_getblocksize env a \<le> hi \<Longrightarrow>
   flash_steps env block lo hi st (flash_erase env a st)"
  unfolding flash_steps_def
  by (intro exI [of _ "[FErase a]"]) (simp add: flash_erase_def run_ops_def)

lemma flash_steps_write:
  "lo \<le> a \<Longrightarrow> a + length bs \<le> hi \<Longrightarrow> flash_steps env block lo hi st (flash_write env a bs st)"
  unfolding flash_steps_def
  by (intro exI [of _ "[FWrite a bs]"]) (simp add: flash_write_def run_ops_def)

lemma patch_Nil [simp]: "patch m a [] = m"
  by (auto simp: patch_def fun_eq_iff)

lemma patch_append: "patch (patch m a xs) (a + length xs) ys = patch m a (xs @ ys)"
  by (auto simp: patch_def fun_eq_iff nth_append)

lemma blank_after_patch:
  "blank m a n \<Longrightarrow> length xs + k \<le> n \<Longrightarrow> blank (patch m a xs) (a + length xs) k"
  by (auto simp: blank_def patch_def add.assoc)

lemma flash_steps_mono:
  "flash_steps env block lo hi st st' \<Longrightarrow> lo' \<le> lo \<Longrightarrow> hi \<le> hi' \<Longrightarrow> flash_steps env block lo' hi' st st'"
proof -
  assume s: "flash_steps env block lo hi st st'" and l: "lo' \<le> lo" "hi \<le> hi'"
  have "op_within env block lo hi op \<Longrightarrow> op_within env block lo' hi' op" for op
    using l by (cases op) auto
  then show ?thesis
    using s unfolding flash_steps_def by (metis (no_types, lifting) list.pred_mono_strong)
qed

context flash_device begin

lemma run_ops_frame:
  "list_all (op_within env block lo hi) ops \<Longrightarrow> x < lo \<or> hi \<le> x \<Longrightarrow> run_ops env m ops x = m x"
proof (induction ops arbitrary: m)
  case Nil
  then show ?case by (simp add: run_ops_def)
next
  case (Cons op ops)
  have "run_op env m op x = m x"
  proof (cases op)
    case (FErase a)
    then have "block a" "lo \<le> a" "a + mmhal_flash_getblocksize env a \<le> hi" using Cons.prems by simp_all
    then show ?thesis using Cons.prems by (auto simp: FErase erase_block erased_def)
  next
    case (FWrite a bs)
    then have "x < a \<or> a + length bs \<le> x" using Cons.prems by auto
    then show ?thesis by (simp add: FWrite write_frame)
  qed
  then show ?case using Cons by (simp add: run_ops_def)
qed

lemma flash_steps_frame:
  "flash_steps env block lo hi st st' \<Longrightarrow> x < lo \<or> hi \<le> x \<Longrightarrow> flash st' x = flash st x"
  unfolding flash_steps_def using run_ops_frame by metis

lemma erase_loop_tiled:
  assumes "tiled env block a e"
  shows "\<exists>st'. erase_loop env a e st = Some st' \<and> a \<le> e \<and> flash st' = erased (flash st) a (e - a)
    \<and> same_images st st' \<and> flash_steps env block a e st st'"
  using assms
proof (induction arbitrary: st)
  case (tiled_nil a)
  show ?case
    by (subst erase_loop.simps) (auto simp: flash_steps_refl erased_def fun_eq_iff)
next
  case (tiled_block a e)
  let ?n = "mmhal_flash_getblocksize env a"
  let ?st1 = "flash_erase env a st"
  have n: "0 < ?n" using block_size [OF tiled_block(1)] .
  obtain st' where s: "erase_loop env (a + ?n) e ?st1 = Some st'" "a + ?n \<le> e"
    "flash st' = erased (flash ?st1) (a + ?n) (e - (a + ?n))" "same_images ?st1 st'"
    "flash_steps env block (a + ?n) e ?st1 st'"
    using tiled_block(3) by blast
  have f: "flash ?st1 = erased (flash st) a ?n"
    by (simp add: flash_erase_def erase_block [OF tiled_block(1)])
  have ae: "a < e" using n s(2) by simp
  have l: "erase_loop env a e st = Some st'"
    using n ae s(1) by (subst erase_loop.simps) simp
  have m: "flash st' = erased (flash st) a (e - a)"
    using s(2) by (auto simp: s(3) f erased_def fun_eq_iff)
  have im: "same_images st st'"
    using s(4) by (simp add: same_images_def flash_erase_def)
  have "flash_steps env block a e st ?st1"
    by (rule flash_steps_erase) (use tiled_block(1) s(2) in auto)
  moreover have "flash_steps env block a e ?st1 st'"
    by (rule flash_steps_mono [OF s(5)]) simp_all
  ultimately have "flash_steps env block a e st st'" by (rule flash_steps_trans)
  then show ?case using l m im ae by auto
qed

end

subsection \<open>The staging buffer\<close>

text \<open>After \<open>bs\<close> has been pushed since \<open>mmconfig_start_flashing\<close>: the part \<open>xs\<close> is in
  flash, the part \<open>ys\<close> is in the buffer.\<close>

definition streamed :: "mem \<Rightarrow> nat \<Rightarrow> byte list \<Rightarrow> mmconfig \<Rightarrow> bool" where
  "streamed base a bs st \<longleftrightarrow>
     (\<exists>xs ys. bs = xs @ ys \<and> mmconfig_flashing_address st = a + length xs
        \<and> flash st = patch base a xs \<and> mmconfig_buffer_index st = length ys
        \<and> take (length ys) (mmconfig_staging_buffer st) = ys
        \<and> length ys < STAGING_SIZE \<and> length (mmconfig_staging_buffer st) = STAGING_SIZE)"

lemma put_bytes_end:
  "take (length ys) buf = ys \<Longrightarrow> length ys + length zs = length buf \<Longrightarrow> put_bytes buf (length ys) zs = ys @ zs"
  by (simp add: put_bytes_def)

context flash_device begin

lemma buffered_write_loop_streamed:
  "streamed base a bs st \<Longrightarrow> blank base a n \<Longrightarrow> length bs + length data \<le> n \<Longrightarrow>
   \<exists>xs ys st'. data = xs @ ys \<and> buffered_write_loop env data st = (ys, st')
     \<and> streamed base a (bs @ xs) st' \<and> mmconfig_buffer_index st' + length ys < STAGING_SIZE
     \<and> same_images st st' \<and> flash_steps env block a (a + n) st st'"
proof (induction "length data" arbitrary: data bs st rule: less_induct)
  case less
  obtain xs ys where s: "bs = xs @ ys" "mmconfig_flashing_address st = a + length xs"
    "flash st = patch base a xs" "mmconfig_buffer_index st = length ys"
    "take (length ys) (mmconfig_staging_buffer st) = ys"
    "length ys < STAGING_SIZE" "length (mmconfig_staging_buffer st) = STAGING_SIZE"
    using less(2) unfolding streamed_def by blast
  let ?room = "sub32 STAGING_SIZE (mmconfig_buffer_index st)"
  have room: "?room = STAGING_SIZE - length ys"
    using s(4,6) by (simp add: sub32_ge)
  show ?case
  proof (cases "?room \<le> length data")
    case False
    then have l: "buffered_write_loop env data st = (data, st)"
      by (subst buffered_write_loop.simps) (simp add: Let_def)
    have "mmconfig_buffer_index st + length data < STAGING_SIZE"
      using False room s(4) by simp
    then show ?thesis using l less(2)
      by (intro exI [of _ "[]"] exI [of _ data] exI [of _ st]) (simp add: flash_steps_refl)
  next
    case True
    let ?zs = "take ?room data"
    let ?st1 = "st\<lparr>mmconfig_staging_buffer := ys @ ?zs\<rparr>"
    let ?st2 = "flash_write env (a + length xs) (ys @ ?zs) ?st1"
    let ?st3 = "?st2\<lparr>mmconfig_flashing_address := a + length xs + STAGING_SIZE, mmconfig_buffer_index := 0\<rparr>"
    have lz: "length ys + length ?zs = STAGING_SIZE" using True room s(6) by simp
    have pb: "put_bytes (mmconfig_staging_buffer st) (length ys) ?zs = ys @ ?zs"
      by (rule put_bytes_end) (use s lz in auto)
    have n: "length xs + STAGING_SIZE \<le> n" using less(4) lz s(1) True room by simp
    have f: "flash ?st2 = patch base a (xs @ ys @ ?zs)"
      using write_blank [OF blank_after_patch [OF less(3), of xs "length (ys @ ?zs)"]] n lz
      by (simp add: flash_write_def s(3) patch_append)
    have st: "streamed base a (bs @ ?zs) ?st3"
      unfolding streamed_def using lz s f
      by (intro exI [of _ "xs @ ys @ ?zs"] exI [of _ "[]"]) (simp add: flash_write_def)
    have ln: "length (bs @ ?zs) + length (drop ?room data) \<le> n"
      using less(4) True by simp
    have lt: "length (drop ?room data) < length data" using True room s(6) by simp
    obtain us vs st' where r: "drop ?room data = us @ vs"
      "buffered_write_loop env (drop ?room data) ?st3 = (vs, st')"
      "streamed base a ((bs @ ?zs) @ us) st'" "mmconfig_buffer_index st' + length vs < STAGING_SIZE"
      "same_images ?st3 st'" "flash_steps env block a (a + n) ?st3 st'"
      using less(1) [OF lt st less(3) ln] by blast
    have fs: "flash_steps env block a (a + n) st st'"
    proof (rule flash_steps_trans [OF _ r(6)])
      have "flash_steps env block a (a + n) ?st1 ?st2"
        by (rule flash_steps_write) (use n lz in auto)
      then show "flash_steps env block a (a + n) st ?st3" by (simp add: flash_steps_def)
    qed
    have im: "same_images st st'" using r(5) by (simp add: same_images_def flash_write_def)
    have lp: "buffered_write_loop env data st = (vs, st')"
      using True r(2) s(2,4) pb
      by (subst buffered_write_loop.simps) (simp add: Let_def flash_write_def add.assoc)
    have d: "data = (?zs @ us) @ vs" using r(1) by (metis append.assoc append_take_drop_id)
    have st': "streamed base a (bs @ (?zs @ us)) st'" using r(3) by simp
    show ?thesis
      by (intro exI [of _ "?zs @ us"] exI [of _ vs] exI [of _ st'] conjI d lp st' r(4) im fs)
  qed
qed

lemma buffered_write_streamed:
  assumes "streamed base a bs st" "blank base a n" "length bs + length data \<le> n"
  shows "\<exists>st'. mmconfig_buffered_write env data st = Some st' \<and> streamed base a (bs @ data) st'
    \<and> same_images st st' \<and> flash_steps env block a (a + n) st st'"
proof -
  obtain us vs st1 where r: "data = us @ vs" "buffered_write_loop env data st = (vs, st1)"
    "streamed base a (bs @ us) st1" "mmconfig_buffer_index st1 + length vs < STAGING_SIZE"
    "same_images st st1" "flash_steps env block a (a + n) st st1"
    using buffered_write_loop_streamed [OF assms] by blast
  show ?thesis
  proof (cases "vs = []")
    case True
    then show ?thesis using r by (simp add: mmconfig_buffered_write_def)
  next
    case False
    obtain xs ys where s: "bs @ us = xs @ ys" "mmconfig_flashing_address st1 = a + length xs"
      "flash st1 = patch base a xs" "mmconfig_buffer_index st1 = length ys"
      "take (length ys) (mmconfig_staging_buffer st1) = ys"
      "length ys < STAGING_SIZE" "length (mmconfig_staging_buffer st1) = STAGING_SIZE"
      using r(3) unfolding streamed_def by blast
    let ?buf = "put_bytes (mmconfig_staging_buffer st1) (length ys) vs"
    let ?st2 = "st1\<lparr>mmconfig_staging_buffer := ?buf, mmconfig_buffer_index := length ys + length vs\<rparr>"
    have w: "mem_write (mmconfig_staging_buffer st1) (length ys) vs = Some ?buf"
      using r(4) s by (simp add: mem_write_def)
    have b: "take (length ys + length vs) ?buf = ys @ vs" "length ?buf = STAGING_SIZE"
      using r(4) s by (simp_all add: put_bytes_def)
    have e: "mmconfig_buffered_write env data st = Some ?st2"
      using False r(2,4) s(4) w by (simp add: mmconfig_buffered_write_def)
    have d: "bs @ data = xs @ ys @ vs" using s(1) r(1) by (metis append.assoc)
    have st: "streamed base a (bs @ data) ?st2"
      unfolding streamed_def d using s b r(4)
      by (intro exI [of _ xs] exI [of _ "ys @ vs"]) simp
    have "flash_steps env block a (a + n) st ?st2" "same_images st ?st2"
      using r(5,6) by (simp_all add: flash_steps_def same_images_def)
    then show ?thesis using e st by blast
  qed
qed

end

end
