(* ===== verification/Config_Correct.thy ===== *)
theory Config_Correct
  imports Config_Image
begin

section \<open>Persistent configuration: correctness\<close>

text \<open>
  The store of \<open>Config_Store\<close> against a list of records: an update replaces, adds and removes
  the records it names and keeps the others, a loss of power during it leaves the old contents, an
  update that does not fit changes nothing, start-up selects the newer valid image, and what is
  written with a typed operation is what the matching one reads. \<open>byte_store\<close> is the contract
  the typed operations rest on; every flash device provides it.
\<close>

subsection \<open>An update\<close>

definition node_ok :: "mmconfig_update_node \<Rightarrow> bool" where
  "node_ok node \<longleftrightarrow> node_valid node
     \<and> (case node_data node of None \<Rightarrow> True | Some data \<Rightarrow> length data < 65280)"

fun new_records :: "mmconfig_update_node list \<Rightarrow> record_entry list" where
  "new_records [] = []"
| "new_records (node # nodes) =
     (case node_data node of None \<Rightarrow> new_records nodes
      | Some data \<Rightarrow> (node_key node, data) # new_records nodes)"

definition updated :: "mmconfig_update_node list \<Rightarrow> record_entry list \<Rightarrow> record_entry list" where
  "updated nodes es = kept nodes es @ new_records nodes"

lemma node_valid_key:
  "node_valid node \<Longrightarrow> node_key node \<noteq> [] \<and> length (node_key node) \<le> 32"
  by (auto simp: node_valid_def plain_key_def wildcard_key_def)

lemma node_ok_valid: "list_all node_ok nodes \<Longrightarrow> list_all node_valid nodes"
  by (induction nodes) (auto simp: node_ok_def)

lemma new_records_ok: "list_all node_ok nodes \<Longrightarrow> list_all record_ok (new_records nodes)"
  by (induction nodes)
     (auto simp: node_ok_def record_ok_def MMCONFIG_MAX_KEYLEN_def dest!: node_valid_key split: option.splits)

lemma updated_ok: "list_all node_ok nodes \<Longrightarrow> list_all record_ok es \<Longrightarrow> list_all record_ok (updated nodes es)"
  by (simp add: updated_def new_records_ok kept_ok)

lemma node_valid_result:
  "node_valid node \<longleftrightarrow> mmconfig_validate_key (node_key node) = MMCONFIG_OK
     \<or> mmconfig_validate_key (node_key node) = MMCONFIG_ERR_WILDCARD_KEY"
  by (simp add: node_valid_def validate_key_ok validate_key_wildcard)

lemma u32_add_u32: "u32 (u32 a + b) = u32 (a + b)" "u32 (a + u32 b) = u32 (a + b)"
  by (simp_all add: u32_def mod_add_left_eq mod_add_right_eq)

lemma checksum_nodes_records:
  "list_all node_ok nodes \<Longrightarrow> u32 required = required \<Longrightarrow>
   checksum_nodes nodes c required
    = Some (mmconfig_update_checksum c (image_bytes (new_records nodes)),
        u32 (required + length (image_bytes (new_records nodes))))"
proof (induction nodes arbitrary: c required)
  case (Cons node nodes)
  have v: "node_valid node" using Cons.prems by (simp add: node_ok_def)
  show ?case
  proof (cases "node_data node")
    case None
    then show ?thesis using Cons v node_valid_result [of node] by (auto simp: Let_def)
  next
    case (Some data)
    have l: "length data < 65280" using Cons.prems Some by (simp add: node_ok_def)
    have k: "u8 (length (node_key node)) = length (node_key node)" "u16 (length data) = length data"
      using node_valid_key [OF v] l by (simp_all add: u8_id u16_id)
    have r: "1 + length (node_key node) + 2 + length data = length (record_bytes (node_key node, data))"
      by (simp add: length_record_bytes)
    have "checksum_nodes (node # nodes) c required
        = checksum_nodes nodes (mmconfig_update_checksum c (record_bytes (node_key node, data)))
            (u32 (required + length (record_bytes (node_key node, data))))"
      using v node_valid_result [of node]
      by (auto simp: Some Let_def k r record_bytes_def)
    then show ?thesis
      using Cons.prems Cons.IH
        [of "u32 (required + length (record_bytes (node_key node, data)))"
          "mmconfig_update_checksum c (record_bytes (node_key node, data))"]
      by (simp add: Some u32_add_u32 add.assoc)
  qed
qed simp

lemma space_required_eq:
  assumes "S \<le> E" "E + R - S < 4294967296" "E < 4294967296"
  shows "u32 (sub32 (p + E) p + sub32 (u32 R) (u32 S)) = E + R - S"
proof -
  have a: "sub32 (p + E) p = E"
  proof -
    have "p = 4294967296 * (p div 4294967296) + u32 p" "u32 p < 4294967296"
      by (simp_all add: u32_def)
    then have e: "p + E + (4294967296 - u32 p) = E + 4294967296 * (p div 4294967296 + 1)" by simp
    have "u32 (E + 4294967296 * (p div 4294967296 + 1)) = E"
      unfolding u32_def mod_mult_self2 using assms(3) by simp
    then show ?thesis unfolding sub32_def e .
  qed
  have s: "u32 S = S" using assms by (simp add: u32_id)
  have b: "sub32 (u32 R) S = u32 (R + (4294967296 - S))"
    by (simp add: sub32_def s u32_add_u32)
  have "u32 (E + u32 (R + (4294967296 - S))) = u32 (E + (R + (4294967296 - S)))"
    by (simp add: u32_add_u32)
  also have "E + (R + (4294967296 - S)) = (E + R - S) + 4294967296" using assms by simp
  also have "u32 ((E + R - S) + 4294967296) = E + R - S"
    unfolding u32_def mod_add_self2 using assms(2) by simp
  finally show ?thesis by (simp only: a b s)
qed

text \<open>The two images are the halves of the partition the board reports.\<close>

definition halves :: "mmconfig_env \<Rightarrow> mmconfig \<Rightarrow> bool" where
  "halves env st \<longleftrightarrow>
     (\<exists>cfg. mmhal_get_mmconfig_partition env = Some cfg \<and> partition_size cfg \<noteq> 0
        \<and> mmhal_flash_getblocksize env (partition_start cfg) \<noteq> 0
        \<and> mmhal_flash_getblocksize env (partition_start cfg + partition_size cfg - 1) \<noteq> 0
        \<and> \<not> not_memory_mapped cfg
        \<and> mmconfig_partition_size st = partition_size cfg div 2
        \<and> (mmconfig_primary_image st, mmconfig_secondary_image st) \<in>
            {(partition_start cfg, partition_start cfg + partition_size cfg div 2),
             (partition_start cfg + partition_size cfg div 2, partition_start cfg)})"

text \<open>A store in use: what \<open>mmconfig_init\<close> establishes and every operation keeps.\<close>

definition store_ok ::
  "mmconfig_env \<Rightarrow> (nat \<Rightarrow> bool) \<Rightarrow> mmconfig \<Rightarrow> 32 word \<Rightarrow> record_entry list \<Rightarrow> bool" where
  "store_ok env block st version es \<longleftrightarrow>
     (let a = mmconfig_primary_image st; b = mmconfig_secondary_image st; n = mmconfig_partition_size st in
      mmconfig_mutex st
      \<and> halves env st
      \<and> n < 4294967296 \<and> (a + n \<le> b \<or> b + n \<le> a)
      \<and> tiled env block a (a + n) \<and> tiled env block b (b + n)
      \<and> image_at (flash st) a n version es)"

lemma compute_new_checksum_ok:
  assumes "store_ok env block st version es" "list_all node_ok nodes"
    "12 + length (image_bytes (updated nodes es)) < 4294967296"
  shows "mmconfig_compute_new_checksum env nodes st =
    Some (if mmconfig_partition_size st < 12 + length (image_bytes (updated nodes es))
          then MMCONFIG_ERR_FULL else MMCONFIG_OK,
      mmconfig_update_checksum XORHASH_SEED (image_bytes (updated nodes es)),
      Some (12 + length (image_bytes (updated nodes es)),
        s32 (sub32 (mmconfig_partition_size st) (12 + length (image_bytes (updated nodes es))))))"
proof -
  let ?a = "mmconfig_primary_image st" and ?n = "mmconfig_partition_size st"
  obtain cfg where cfg: "mmhal_get_mmconfig_partition env = Some cfg" "partition_size cfg \<noteq> 0"
    using assms(1) by (auto simp: store_ok_def halves_def Let_def)
  have im: "image_at (flash st) ?a ?n version es" "?n < 4294967296"
    using assms(1) by (simp_all add: store_ok_def Let_def)
  let ?E = "length (image_bytes es)" and ?K = "length (image_bytes (kept nodes es))"
  let ?S = "length (image_bytes (dropped nodes es))" and ?R = "length (image_bytes (new_records nodes))"
  have l: "?K + ?S = ?E" by (rule length_kept_dropped)
  have le: "12 + ?E \<le> ?n" using im(1) by (simp add: image_at_def)
  have p: "mmconfig_process_existing_storage retain_checksum nodes st
      = Some (?a + 12 + ?E, mmconfig_update_checksum XORHASH_SEED (image_bytes (kept nodes es)), u32 ?S, st)"
    unfolding mmconfig_process_existing_storage_def Let_def
    using im(1) process_loop_checksum [of es nodes st "?a + 12" "?a + ?n" 0 XORHASH_SEED]
      node_ok_valid [OF assms(2)]
    by (simp add: image_at_def u32_def add.assoc)
  have u: "?K + ?R = length (image_bytes (updated nodes es))" by (simp add: updated_def)
  have sp: "u32 (sub32 (?a + 12 + ?E) ?a + sub32 (u32 ?R) (u32 ?S)) = 12 + (?K + ?R)"
    using space_required_eq [of ?S "12 + ?E" ?R ?a] l le im(2) assms(3) u
    by (simp add: add.assoc)
  show ?thesis
    unfolding mmconfig_compute_new_checksum_def
    using cfg
    by (simp add: p checksum_nodes_records [OF assms(2)] u32_def [of 0] Let_def
        sp [unfolded u] updated_def del: u)
qed


context flash_device begin

lemma process_loop_write:
  assumes "list_all node_valid nodes" "blank base a n" "pend \<le> a \<or> a + n \<le> lo"
  shows "list_all record_ok es \<Longrightarrow> lo \<le> kp \<Longrightarrow> holds_at (flash st) kp (image_bytes es) \<Longrightarrow>
   image_ended (flash st) (kp + length (image_bytes es)) pend \<Longrightarrow> kp + length (image_bytes es) \<le> pend \<Longrightarrow>
   streamed base a bs st \<Longrightarrow> length bs + length (image_bytes (kept nodes es)) \<le> n \<Longrightarrow>
   \<exists>sk st'. process_loop (mmconfig_buffered_write_wrapper env) nodes pend kp skipped c st
       = Some (kp + length (image_bytes es), c, sk, st')
     \<and> streamed base a (bs @ image_bytes (kept nodes es)) st'
     \<and> same_images st st' \<and> flash_steps env block a (a + n) st st'"
proof (induction es arbitrary: kp bs skipped st)
  case Nil
  then show ?case by (auto simp: process_loop_end flash_steps_refl)
next
  case (Cons e es)
  have lt: "kp < pend" using Cons.prems by (simp add: length_record_bytes)
  have ok: "record_ok e" and h: "holds_at (flash st) kp (record_bytes e)" using Cons.prems by simp_all
  note step = process_loop_record [where e = e, OF ok h lt assms(1)]
  show ?case
  proof (cases "node_selects nodes (fst e)")
    case True
    then show ?thesis
      using Cons.prems Cons.IH [of "kp + length (record_bytes e)" st bs "u32 (skipped + length (record_bytes e))"]
      by (simp add: step add.assoc)
  next
    case False
    obtain st1 where w: "mmconfig_buffered_write env (record_bytes e) st = Some st1"
      "streamed base a (bs @ record_bytes e) st1" "same_images st st1"
      "flash_steps env block a (a + n) st st1"
      using buffered_write_streamed [OF Cons.prems(6) assms(2), of "record_bytes e"] Cons.prems(7) False
      by auto
    have fr: "flash st1 x = flash st x" if "kp \<le> x" "x < pend" for x
      using flash_steps_frame [OF w(4)] assms(3) Cons.prems(2) that by fastforce
    have h1: "holds_at (flash st1) (kp + length (record_bytes e)) (image_bytes es)"
      by (rule holds_at_cong [of "flash st"], use Cons.prems in simp, rule fr, use Cons.prems in simp_all)
    have e1: "image_ended (flash st1) (kp + length (record_bytes e) + length (image_bytes es)) pend"
      using Cons.prems(4) fr [of "kp + length (record_bytes e) + length (image_bytes es)"]
      by (auto simp: image_ended_def add.assoc not_le)
    have p: "list_all record_ok es" "lo \<le> kp + length (record_bytes e)"
      "kp + length (record_bytes e) + length (image_bytes es) \<le> pend"
      "length (bs @ record_bytes e) + length (image_bytes (kept nodes es)) \<le> n"
      using Cons.prems False by simp_all
    obtain sk st' where r:
      "process_loop (mmconfig_buffered_write_wrapper env) nodes pend (kp + length (record_bytes e)) skipped c st1
        = Some (kp + length (record_bytes e) + length (image_bytes es), c, sk, st')"
      "streamed base a ((bs @ record_bytes e) @ image_bytes (kept nodes es)) st'"
      "same_images st1 st'" "flash_steps env block a (a + n) st1 st'"
      using Cons.IH [OF p(1,2) h1 e1 p(3) w(2) p(4), of skipped] by blast
    have l: "process_loop (mmconfig_buffered_write_wrapper env) nodes pend kp skipped c st
        = Some (kp + length (image_bytes (e # es)), c, sk, st')"
      unfolding step mmconfig_buffered_write_wrapper_def w(1)
      using False r(1) [unfolded mmconfig_buffered_write_wrapper_def] by (simp add: add.assoc)
    have s: "streamed base a (bs @ image_bytes (kept nodes (e # es))) st'" using False r(2) by simp
    show ?thesis
      by (intro exI [of _ sk] exI [of _ st'] conjI l s same_images_trans [OF w(3) r(3)]
          flash_steps_trans [OF w(4) r(4)])
  qed
qed

lemma write_nodes_streamed:
  assumes "blank base a n"
  shows "list_all node_ok nodes \<Longrightarrow> streamed base a bs st \<Longrightarrow>
   length bs + length (image_bytes (new_records nodes)) \<le> n \<Longrightarrow>
   \<exists>st'. write_nodes env nodes st = Some st'
     \<and> streamed base a (bs @ image_bytes (new_records nodes)) st'
     \<and> same_images st st' \<and> flash_steps env block a (a + n) st st'"
proof (induction nodes arbitrary: bs st)
  case Nil
  then show ?case by (simp add: flash_steps_refl)
next
  case (Cons node nodes)
  show ?case
  proof (cases "node_data node")
    case None
    then show ?thesis using Cons by simp
  next
    case (Some data)
    let ?k = "node_key node"
    have l: "length data < 65280" "length ?k \<le> 32"
      using Cons.prems Some node_valid_key [of node] by (simp_all add: node_ok_def)
    have k: "u8 (length ?k) = length ?k" "u16 (length data) = length data"
      using l by (simp_all add: u8_id u16_id)
    have n: "length bs + 1 + length ?k + 2 + length data + length (image_bytes (new_records nodes)) \<le> n"
      using Cons.prems(3) Some by (simp add: length_record_bytes)
    obtain s1 where w1: "mmconfig_buffered_write env [of_nat (length ?k)] st = Some s1"
      "streamed base a (bs @ [of_nat (length ?k)]) s1" "same_images st s1"
      "flash_steps env block a (a + n) st s1"
      using buffered_write_streamed [OF Cons.prems(2) assms, of "[of_nat (length ?k)]"] n by auto
    obtain s2 where w2: "mmconfig_buffered_write env ?k s1 = Some s2"
      "streamed base a ((bs @ [of_nat (length ?k)]) @ ?k) s2" "same_images s1 s2"
      "flash_steps env block a (a + n) s1 s2"
      using buffered_write_streamed [OF w1(2) assms, of ?k] n by auto
    obtain s3 where w3: "mmconfig_buffered_write env (le16 (length data)) s2 = Some s3"
      "streamed base a (((bs @ [of_nat (length ?k)]) @ ?k) @ le16 (length data)) s3" "same_images s2 s3"
      "flash_steps env block a (a + n) s2 s3"
      using buffered_write_streamed [OF w2(2) assms, of "le16 (length data)"] n by auto
    obtain s4 where w4: "mmconfig_buffered_write env data s3 = Some s4"
      "streamed base a ((((bs @ [of_nat (length ?k)]) @ ?k) @ le16 (length data)) @ data) s4"
      "same_images s3 s4" "flash_steps env block a (a + n) s3 s4"
      using buffered_write_streamed [OF w3(2) assms, of data] n by auto
    have st4: "streamed base a (bs @ record_bytes (?k, data)) s4"
      using w4(2) by (simp add: record_bytes_def)
    have ln: "length (bs @ record_bytes (?k, data)) + length (image_bytes (new_records nodes)) \<le> n"
      using n by (simp add: length_record_bytes)
    obtain st' where r: "write_nodes env nodes s4 = Some st'"
      "streamed base a ((bs @ record_bytes (?k, data)) @ image_bytes (new_records nodes)) st'"
      "same_images s4 st'" "flash_steps env block a (a + n) s4 st'"
      using Cons.IH [OF _ st4 ln] Cons.prems(1) by auto
    have "write_nodes env (node # nodes) st = Some st'"
      by (simp add: Some k Let_def w1(1) w2(1) w3(1) w4(1) r(1))
    moreover have "same_images st st'"
      using w1(3) w2(3) w3(3) w4(3) r(3) by (simp add: same_images_def)
    moreover have "flash_steps env block a (a + n) st st'"
      by (rule flash_steps_trans [OF w1(4) flash_steps_trans [OF w2(4) flash_steps_trans
            [OF w3(4) flash_steps_trans [OF w4(4) r(4)]]]])
    moreover have "streamed base a (bs @ image_bytes (new_records (node # nodes))) st'"
      using r(2) Some by simp
    ultimately show ?thesis by blast
  qed
qed

end

lemma image_at_frame:
  assumes "image_at m a n version es" "\<And>x. a \<le> x \<Longrightarrow> x < a + n \<Longrightarrow> m' x = m x"
  shows "image_at m' a n version es"
proof -
  let ?L = "length (image_bytes es)"
  have i: "list_all record_ok es" "12 + ?L \<le> n"
    "holds_at m a (header_bytes version (mmconfig_update_checksum XORHASH_SEED (image_bytes es)))"
    "holds_at m (a + 12) (image_bytes es)" "image_ended m (a + 12 + ?L) (a + n)"
    using assms(1) by (simp_all add: image_at_def)
  have "holds_at m' a (header_bytes version (mmconfig_update_checksum XORHASH_SEED (image_bytes es)))"
    by (rule holds_at_cong [OF i(3)], rule assms(2)) (use i(2) in simp_all)
  moreover have "holds_at m' (a + 12) (image_bytes es)"
    by (rule holds_at_cong [OF i(4)], rule assms(2)) (use i(2) in simp_all)
  moreover have "image_ended m' (a + 12 + ?L) (a + n)"
    using i(5) assms(2) [of "a + 12 + ?L"] by (auto simp: image_ended_def not_le)
  ultimately show ?thesis using i(1,2) by (simp add: image_at_def)
qed

context flash_device begin

lemma start_flashing_streamed:
  assumes "blank (flash st) a n" "12 \<le> n"
  shows "\<exists>st'. mmconfig_start_flashing env a version checksum st = Some st'
    \<and> streamed (flash st) a (header_bytes version checksum) st'
    \<and> same_images st st' \<and> flash_steps env block a (a + n) st st'"
proof -
  let ?st0 = "st\<lparr>mmconfig_staging_buffer := replicate STAGING_SIZE 255, mmconfig_buffer_index := 0,
    mmconfig_flashing_address := a\<rparr>"
  have s: "streamed (flash st) a [] ?st0" by (simp add: streamed_def)
  obtain st' where "mmconfig_buffered_write env (header_bytes version checksum) ?st0 = Some st'"
    "streamed (flash st) a ([] @ header_bytes version checksum) st'" "same_images ?st0 st'"
    "flash_steps env block a (a + n) ?st0 st'"
    using buffered_write_streamed [OF s assms(1), of "header_bytes version checksum"] assms(2) by auto
  then show ?thesis
    by (simp add: mmconfig_start_flashing_def header_bytes_def same_images_def flash_steps_def)
qed

lemma end_flashing_streamed:
  assumes "streamed base a bs st" "blank base a n" "length bs \<le> n"
  shows "flash (mmconfig_end_flashing env st) = patch base a bs"
    "same_images st (mmconfig_end_flashing env st)"
    "flash_steps env block a (a + n) st (mmconfig_end_flashing env st)"
proof -
  obtain xs ys where s: "bs = xs @ ys" "mmconfig_flashing_address st = a + length xs"
    "flash st = patch base a xs" "mmconfig_buffer_index st = length ys"
    "take (length ys) (mmconfig_staging_buffer st) = ys"
    using assms(1) unfolding streamed_def by blast
  have b: "blank (patch base a xs) (a + length xs) (length ys)"
    using blank_after_patch [OF assms(2)] assms(3) s(1) by simp
  show "flash (mmconfig_end_flashing env st) = patch base a bs"
    using write_blank [OF b] by (simp add: mmconfig_end_flashing_def flash_write_def s patch_append)
  show "same_images st (mmconfig_end_flashing env st)"
    by (simp add: mmconfig_end_flashing_def same_images_def flash_write_def)
  show "flash_steps env block a (a + n) st (mmconfig_end_flashing env st)"
    unfolding mmconfig_end_flashing_def s(2,4,5)
    by (rule flash_steps_write) (use assms(3) s(1) in auto)
qed

lemma written_image:
  assumes "list_all record_ok es" "12 + length (image_bytes es) < n"
  shows "image_at (patch base a (header_bytes version
      (mmconfig_update_checksum XORHASH_SEED (image_bytes es)) @ image_bytes es @ [255])) a n version es"
proof -
  let ?h = "header_bytes version (mmconfig_update_checksum XORHASH_SEED (image_bytes es))"
  have "holds_at (patch base a (?h @ image_bytes es @ [255])) a (?h @ image_bytes es @ [255])"
    by (rule holds_at_patch)
  then show ?thesis using assms by (simp add: image_at_def image_ended_def)
qed

lemma erase_partition_tiled:
  assumes "tiled env block a (a + n)"
  shows "\<exists>st'. mmconfig_erase_partition env a n st = Some st' \<and> flash st' = erased (flash st) a n
    \<and> same_images st st' \<and> flash_steps env block a (a + n) st st'"
  using erase_loop_tiled [OF assms, of st] by (auto simp: mmconfig_erase_partition_def)

lemma update_secondary_image_stored:
  assumes ok: "store_ok env block st version es" and nodes: "list_all node_ok nodes"
    and room: "12 + length (image_bytes (updated nodes es)) < mmconfig_partition_size st"
  shows "\<exists>st'. mmconfig_update_secondary_image env nodes st = Some (MMCONFIG_OK, st')
    \<and> store_ok env block st' (version + 1) (updated nodes es)
    \<and> mmconfig_primary_image st' = mmconfig_secondary_image st
    \<and> mmconfig_secondary_image st' = mmconfig_primary_image st
    \<and> mmconfig_partition_size st' = mmconfig_partition_size st
    \<and> flash_steps env block (mmconfig_secondary_image st)
        (mmconfig_secondary_image st + mmconfig_partition_size st) st st'"
proof -
  let ?a = "mmconfig_primary_image st" and ?b = "mmconfig_secondary_image st"
  let ?n = "mmconfig_partition_size st" and ?es = "updated nodes es"
  let ?c = "mmconfig_update_checksum XORHASH_SEED (image_bytes ?es)"
  let ?h = "header_bytes (version + 1) ?c"
  have s: "mmconfig_mutex st" "?n < 4294967296" "?a + ?n \<le> ?b \<or> ?b + ?n \<le> ?a"
    "tiled env block ?a (?a + ?n)" "tiled env block ?b (?b + ?n)" "image_at (flash st) ?a ?n version es"
    and cfg: "halves env st"
    using ok by (simp_all add: store_ok_def Let_def)
  obtain usage where c: "mmconfig_compute_new_checksum env nodes st = Some (MMCONFIG_OK, ?c, usage)"
    using compute_new_checksum_ok [OF ok nodes] room s(2) by simp
  obtain s1 where e: "mmconfig_erase_partition env ?b ?n st = Some s1"
    "flash s1 = erased (flash st) ?b ?n" "same_images st s1" "flash_steps env block ?b (?b + ?n) st s1"
    using erase_partition_tiled [OF s(5)] by blast
  let ?base = "flash s1"
  have bl: "blank ?base ?b ?n" by (simp add: e(2) blank_def erased_def)
  have i1: "image_at ?base ?a ?n version es"
    by (rule image_at_frame [OF s(6)]) (use s(3) in \<open>auto simp: e(2) erased_def\<close>)
  have f1: "mmconfig_primary_image s1 = ?a" "mmconfig_secondary_image s1 = ?b"
    "mmconfig_partition_size s1 = ?n" "mmconfig_mutex s1"
    using e(3) s(1) by (simp_all add: same_images_def)
  obtain s2 where t: "mmconfig_start_flashing env ?b (version + 1) ?c s1 = Some s2"
    "streamed ?base ?b ?h s2" "same_images s1 s2" "flash_steps env block ?b (?b + ?n) s1 s2"
    using start_flashing_streamed [OF bl] room by force
  have i2: "image_at (flash s2) ?a ?n version es"
    by (rule image_at_frame [OF i1]) (use s(3) in \<open>auto intro!: flash_steps_frame [OF t(4)]\<close>)
  have l: "length (image_bytes (kept nodes es)) + length (image_bytes (new_records nodes))
      = length (image_bytes ?es)" by (simp add: updated_def)
  have f2: "mmconfig_primary_image s2 = ?a" "mmconfig_secondary_image s2 = ?b"
    "mmconfig_partition_size s2 = ?n" using f1 t(3) by (simp_all add: same_images_def)
  have d: "?a + ?n \<le> ?b \<or> ?b + ?n \<le> ?a + 12" using s(3) by auto
  have i2': "list_all record_ok es" "?a + 12 \<le> ?a + 12" "holds_at (flash s2) (?a + 12) (image_bytes es)"
    "image_ended (flash s2) (?a + 12 + length (image_bytes es)) (?a + ?n)"
    "?a + 12 + length (image_bytes es) \<le> ?a + ?n" using i2 by (simp_all add: image_at_def)
  have lk: "length ?h + length (image_bytes (kept nodes es)) \<le> ?n" using l room by simp
  obtain sk s3 where p: "process_loop (mmconfig_buffered_write_wrapper env) nodes (?a + ?n) (?a + 12) 0
        XORHASH_SEED s2 = Some (?a + 12 + length (image_bytes es), XORHASH_SEED, sk, s3)"
    "streamed ?base ?b (?h @ image_bytes (kept nodes es)) s3" "same_images s2 s3"
    "flash_steps env block ?b (?b + ?n) s2 s3"
    using process_loop_write [OF node_ok_valid [OF nodes] bl d i2' t(2) lk] by blast
  obtain s4 where w: "write_nodes env nodes s3 = Some s4"
    "streamed ?base ?b ((?h @ image_bytes (kept nodes es)) @ image_bytes (new_records nodes)) s4"
    "same_images s3 s4" "flash_steps env block ?b (?b + ?n) s3 s4"
    using write_nodes_streamed [OF bl nodes p(2)] l room by auto
  have w2: "streamed ?base ?b (?h @ image_bytes ?es) s4" using w(2) by (simp add: updated_def)
  obtain s5 where u: "mmconfig_buffered_write env [255] s4 = Some s5"
    "streamed ?base ?b ((?h @ image_bytes ?es) @ [255]) s5" "same_images s4 s5"
    "flash_steps env block ?b (?b + ?n) s4 s5"
    using buffered_write_streamed [OF w2 bl, of "[255]"] room by auto
  let ?s6 = "mmconfig_end_flashing env s5"
  have ln: "length ((?h @ image_bytes ?es) @ [255]) \<le> ?n" using room by simp
  note fin = end_flashing_streamed [OF u(2) bl ln]
  have i6: "image_at (flash ?s6) ?b ?n (version + 1) ?es"
    unfolding fin(1) append_assoc
    by (rule written_image) (use updated_ok [OF nodes] i2'(1) room in simp_all)
  have im: "same_images st ?s6"
    using e(3) t(3) p(3) w(3) u(3) fin(2) by (simp add: same_images_def)
  have fs: "flash_steps env block ?b (?b + ?n) st ?s6"
    by (rule flash_steps_trans [OF e(4) flash_steps_trans [OF t(4) flash_steps_trans [OF p(4)
          flash_steps_trans [OF w(4) flash_steps_trans [OF u(4) fin(3)]]]]])
  have f6: "mmconfig_primary_image ?s6 = ?a" "mmconfig_secondary_image ?s6 = ?b"
    "mmconfig_partition_size ?s6 = ?n" "mmconfig_mutex ?s6"
    using im s(1) by (simp_all add: same_images_def)
  let ?s7 = "?s6\<lparr>mmconfig_secondary_image := ?a, mmconfig_primary_image := ?b\<rparr>"
  have run: "mmconfig_update_secondary_image env nodes st = Some (MMCONFIG_OK, ?s7)"
    unfolding mmconfig_update_secondary_image_def
    by (simp add: c e(1) f1 image_at_valid(2) [OF i1] t(1) f2 p(1) w(1) u(1) f6 Let_def
        mmconfig_process_existing_storage_def image_at_valid(1) [OF i6])
  have "halves env ?s7"
    using cfg f6 unfolding halves_def by auto
  then have "store_ok env block ?s7 (version + 1) ?es"
    using s(2-5) i6 f6 by (auto simp: store_ok_def Let_def)
  moreover have "flash_steps env block ?b (?b + ?n) st ?s7" using fs by (simp add: flash_steps_def)
  ultimately show ?thesis using run f6 by auto
qed

lemma update_full:
  assumes "store_ok env block st version es" "list_all node_ok nodes"
    "mmconfig_partition_size st < 12 + length (image_bytes (updated nodes es))"
    "12 + length (image_bytes (updated nodes es)) < 4294967296"
  shows "mmconfig_update_secondary_image env nodes st = Some (MMCONFIG_ERR_FULL, st)"
  using compute_new_checksum_ok [OF assms(1,2,4)] assms(3)
  by (simp add: mmconfig_update_secondary_image_def)

end

subsection \<open>The store as a map\<close>

lemma key_selects_fold:
  "fold_key k = fold_key k' \<Longrightarrow> key_selects pat k = key_selects pat k'"
  by (simp add: key_selects_def)

lemma key_selects_plain:
  "plain_key k \<Longrightarrow> key_selects k k' \<longleftrightarrow> fold_key k = fold_key k'"
  using plain_key_last [of k] by (auto simp: key_selects_def)

lemma store_lookup_append:
  "store_lookup (es @ fs) k = (case store_lookup es k of None \<Rightarrow> store_lookup fs k | Some d \<Rightarrow> Some d)"
  by (induction es) auto

lemma node_selects_fold: "fold_key k = fold_key k' \<Longrightarrow> node_selects nodes k = node_selects nodes k'"
  unfolding node_selects_def using key_selects_fold by blast

lemma store_lookup_kept:
  assumes "plain_key k"
  shows "store_lookup (kept nodes es) k = (if node_selects nodes k then None else store_lookup es k)"
proof (induction es)
  case (Cons e es)
  show ?case
  proof (cases "key_selects k (fst e)")
    case True
    then have "node_selects nodes (fst e) = node_selects nodes k"
      using assms node_selects_fold [of k "fst e" nodes] by (simp add: key_selects_plain)
    then show ?thesis using Cons True by auto
  next
    case False
    then show ?thesis using Cons by auto
  qed
qed simp

lemma store_lookup_new:
  assumes "plain_key k" "\<not> node_selects nodes k"
    "\<And>node. node \<in> set nodes \<Longrightarrow> node_data node \<noteq> None \<Longrightarrow> plain_key (node_key node)"
  shows "store_lookup (new_records nodes) k = None"
  using assms(2,3)
proof (induction nodes)
  case (Cons node nodes)
  have ih: "store_lookup (new_records nodes) k = None" using Cons by auto
  show ?case
  proof (cases "node_data node")
    case (Some d)
    then have p: "plain_key (node_key node)" using Cons.prems(2) by simp
    have "fold_key (node_key node) \<noteq> fold_key k" using p Cons.prems(1) by (simp add: key_selects_plain)
    then show ?thesis using ih Some assms(1) by (simp add: key_selects_plain)
  qed (use ih in simp)
qed simp

text \<open>After an update a key that some node selects has the value of the first node that sets it,
  and none when no node does; every other key keeps its value.\<close>

lemma store_lookup_updated:
  assumes "plain_key k"
    "\<And>node. node \<in> set nodes \<Longrightarrow> node_data node \<noteq> None \<Longrightarrow> plain_key (node_key node)"
  shows "store_lookup (updated nodes es) k =
    (if node_selects nodes k then store_lookup (new_records nodes) k else store_lookup es k)"
  using store_lookup_new [OF assms(1) _ assms(2)]
  by (auto simp: updated_def store_lookup_append store_lookup_kept [OF assms(1)] split: option.split)

subsection \<open>Reading and writing one key\<close>

definition read_result :: "mmconfig_env \<Rightarrow> byte list option \<Rightarrow> byte list \<Rightarrow> int \<times> byte list" where
  "read_result env found key =
     (case found of
        Some data \<Rightarrow> (int (length data), data)
      | None \<Rightarrow> (case find_literal (mm_litral_configs env) key of
          Some data \<Rightarrow> (int (length data), data) | None \<Rightarrow> (MMCONFIG_ERR_NOT_FOUND, [])))"

lemma store_ok_mutex: "store_ok env block st version es \<Longrightarrow> mmconfig_mutex st"
  by (simp add: store_ok_def Let_def)

lemma init_done: "mmconfig_mutex st \<Longrightarrow> mmconfig_init env st = Some (MMCONFIG_OK, st)"
  by (simp add: mmconfig_init_def)

lemma read_data_ok:
  assumes "store_ok env block st version es" "plain_key key"
  shows "mmconfig_read_data env key st = Some (read_result env (store_lookup es key) key, st)"
proof -
  let ?a = "mmconfig_primary_image st" and ?n = "mmconfig_partition_size st"
  have i: "image_at (flash st) ?a ?n version es"
    using assms(1) by (simp add: store_ok_def Let_def)
  have "read_loop (flash st) key (?a + ?n) (?a + 12) = Some (store_lookup es key)"
    by (rule read_loop_image [OF assms(2)]) (use i in \<open>simp_all add: image_at_def\<close>)
  then show ?thesis
    using assms(2) init_done [OF store_ok_mutex [OF assms(1)]]
    by (simp add: mmconfig_read_data_def validate_key_ok read_result_def split: option.split)
qed

lemma read_data_invalid:
  assumes "mmconfig_mutex st" "\<not> plain_key key"
  shows "mmconfig_read_data env key st = Some ((MMCONFIG_ERR_INVALID_KEY, []), st)"
  using assms init_done [OF assms(1), of env] by (simp add: mmconfig_read_data_def validate_key_ok)

lemma write_update_node_list_ok:
  assumes "mmconfig_mutex st" "nodes \<noteq> []"
  shows "mmconfig_write_update_node_list env nodes st = mmconfig_update_secondary_image env nodes st"
  using assms(2) init_done [OF assms(1), of env] by (simp add: mmconfig_write_update_node_list_def)

definition set_node :: "byte list \<Rightarrow> byte list \<Rightarrow> mmconfig_update_node" where
  "set_node key data = \<lparr>node_key = key, node_data = Some data\<rparr>"

definition delete_node :: "byte list \<Rightarrow> mmconfig_update_node" where
  "delete_node key = \<lparr>node_key = key, node_data = None\<rparr>"

lemma set_node_ok: "plain_key key \<Longrightarrow> length data < 65280 \<Longrightarrow> node_ok (set_node key data)"
  by (simp add: node_ok_def node_valid_def set_node_def)

lemma delete_node_ok: "plain_key key \<or> wildcard_key key \<Longrightarrow> node_ok (delete_node key)"
  by (simp add: node_ok_def node_valid_def delete_node_def)

text \<open>A write skips the flash when the value is already there, the literals included.\<close>

lemma write_data_cases:
  assumes "store_ok env block st version es" "plain_key key"
  shows "mmconfig_write_data env key (Some data) (length data) st =
    (if read_result env (store_lookup es key) key = (int (length data), data)
     then Some (MMCONFIG_OK, st)
     else mmconfig_update_secondary_image env [set_node key data] st)"
proof -
  note m = store_ok_mutex [OF assms(1)]
  obtain r v where rv: "read_result env (store_lookup es key) key = (r, v)" by fastforce
  have len: "r \<ge> 0 \<Longrightarrow> length v = nat r"
    using rv by (auto simp: read_result_def mmconfig_codes split: option.splits)
  have r: "mmconfig_read_data env key st = Some ((r, v), st)"
    using read_data_ok [OF assms] rv by simp
  have w: "mmconfig_write_update_node_list env [\<lparr>node_key = key, node_data = Some data\<rparr>] st
      = mmconfig_update_secondary_image env [set_node key data] st"
    by (simp add: write_update_node_list_ok [OF m] set_node_def)
  show ?thesis
    using assms(2) init_done [OF m, of env] len
    by (auto simp: mmconfig_write_data_def validate_key_ok r w rv Let_def)
qed

lemma write_data_delete:
  assumes "store_ok env block st version es" "plain_key key"
  shows "mmconfig_delete_key env key st =
    (if fst (read_result env (store_lookup es key) key) = 0 then Some (MMCONFIG_OK, st)
     else mmconfig_update_secondary_image env [delete_node key] st)"
proof -
  note m = store_ok_mutex [OF assms(1)]
  obtain r v where rv: "read_result env (store_lookup es key) key = (r, v)" by fastforce
  have r: "mmconfig_read_data env key st = Some ((r, v), st)"
    using read_data_ok [OF assms] rv by simp
  have w: "mmconfig_write_update_node_list env [\<lparr>node_key = key, node_data = None\<rparr>] st
      = mmconfig_update_secondary_image env [delete_node key] st"
    by (simp add: write_update_node_list_ok [OF m] delete_node_def)
  show ?thesis
    using assms(2) init_done [OF m, of env]
    by (auto simp: mmconfig_delete_key_def mmconfig_write_data_def validate_key_ok r w rv Let_def)
qed

text \<open>There is room for a record with this key and data, and for the byte that ends the list.\<close>

definition fits :: "mmconfig_env \<Rightarrow> (nat \<Rightarrow> bool) \<Rightarrow> byte list \<Rightarrow> byte list \<Rightarrow> mmconfig \<Rightarrow> bool" where
  "fits env block key data st \<longleftrightarrow> length data < 65280 \<and>
     (\<exists>version es. store_ok env block st version es \<and>
       12 + length (image_bytes (updated [set_node key data] es)) < mmconfig_partition_size st)"

context flash_device begin

lemma write_then_read:
  assumes "store_ok env block st version es" "plain_key key" "length data < 65280"
    "12 + length (image_bytes (updated [set_node key data] es)) < mmconfig_partition_size st"
  shows "\<exists>st' version' es'. mmconfig_write_data env key (Some data) (length data) st = Some (MMCONFIG_OK, st')
    \<and> store_ok env block st' version' es'
    \<and> mmconfig_read_data env key st' = Some ((int (length data), data), st')
    \<and> (\<forall>k. plain_key k \<and> fold_key k \<noteq> fold_key key \<longrightarrow> store_lookup es' k = store_lookup es k)"
proof (cases "read_result env (store_lookup es key) key = (int (length data), data)")
  case True
  then show ?thesis
    using write_data_cases [OF assms(1,2), of data] read_data_ok [OF assms(1,2)] assms(1) by auto
next
  case False
  let ?nodes = "[set_node key data]"
  have ok: "list_all node_ok ?nodes" using set_node_ok assms(2,3) by simp
  obtain st' where u: "mmconfig_update_secondary_image env ?nodes st = Some (MMCONFIG_OK, st')"
    "store_ok env block st' (version + 1) (updated ?nodes es)"
    using update_secondary_image_stored [OF assms(1) ok assms(4)] by blast
  have sel: "node_selects ?nodes k \<longleftrightarrow> fold_key key = fold_key k" for k
    using assms(2) by (simp add: set_node_def key_selects_plain)
  have lk: "store_lookup (updated ?nodes es) k =
      (if fold_key key = fold_key k then store_lookup (new_records ?nodes) k else store_lookup es k)"
    if "plain_key k" for k
    using store_lookup_updated [OF that, of ?nodes es] assms(2) sel by (simp add: set_node_def)
  have "store_lookup (updated ?nodes es) key = Some data"
    using lk [OF assms(2)] assms(2) by (simp add: set_node_def key_selects_plain)
  then have "mmconfig_read_data env key st' = Some ((int (length data), data), st')"
    using read_data_ok [OF u(2) assms(2)] by (simp add: read_result_def)
  moreover have "\<forall>k. plain_key k \<and> fold_key k \<noteq> fold_key key \<longrightarrow>
      store_lookup (updated ?nodes es) k = store_lookup es k"
    using lk by auto
  ultimately show ?thesis
    using write_data_cases [OF assms(1,2), of data] False u by auto
qed

end

subsection \<open>Typed values\<close>

text \<open>
  The contract the typed operations rest on: what was written under a key is what is read under
  it. \<open>wr\<close> is the write that reports success.
\<close>

locale byte_store =
  fixes rd :: "byte list \<Rightarrow> 's \<Rightarrow> (int \<times> byte list) option"
    and wr :: "byte list \<Rightarrow> byte list \<Rightarrow> 's \<Rightarrow> 's option"
    and fit :: "byte list \<Rightarrow> byte list \<Rightarrow> 's \<Rightarrow> bool"
  assumes wr_rd: "plain_key k \<Longrightarrow> fit k d s \<Longrightarrow>
    \<exists>s'. wr k d s = Some s' \<and> rd k s' = Some (int (length d), d)"
begin

lemma number_read_back:
  assumes "plain_key k" "fit k (text @ [0]) s" "0 \<notin> set text" "conv text = Some v"
  shows "\<exists>s'. wr k (text @ [0]) s = Some s'
    \<and> map_option (decode_number conv) (rd k s') = Some (MMCONFIG_OK, Some v)"
proof -
  obtain s' where s: "wr k (text @ [0]) s = Some s'"
    "rd k s' = Some (int (length (text @ [0])), text @ [0])"
    using wr_rd [OF assms(1,2)] by blast
  have c: "c_str (text @ [0]) = text" unfolding c_str_def using assms(3)
    by (subst takeWhile_append2) auto
  show ?thesis using s c assms(4) by (simp add: decode_number_def nth_append)
qed

lemma bool_read_back:
  assumes "plain_key k" "fit k ((if b then str_true else str_false) @ [0]) s"
  shows "\<exists>s'. wr k ((if b then str_true else str_false) @ [0]) s = Some s'
    \<and> map_option decode_bool (rd k s') = Some (MMCONFIG_OK, Some b)"
proof -
  let ?t = "if b then str_true else str_false"
  obtain s' where s: "wr k (?t @ [0]) s = Some s'"
    "rd k s' = Some (int (length (?t @ [0])), ?t @ [0])"
    using wr_rd [OF assms] by blast
  have t: "str_true = [116, 114, 117, 101]" "str_false = [102, 97, 108, 115, 101]"
    by (simp_all add: str_true_def str_false_def)
  have "decode_bool (int (length (?t @ [0])), ?t @ [0]) = (MMCONFIG_OK, Some b)"
    by (cases b) (simp_all add: decode_bool_def t c_str_def tolower_def Let_def word_le_nat_alt)
  then show ?thesis using s by (intro exI [of _ s']) simp
qed

lemma string_read_back:
  assumes "plain_key k" "fit k (text @ [0]) s" "int (length text) < n"
  shows "\<exists>s'. wr k (text @ [0]) s = Some s'
    \<and> map_option (decode_string (Some n)) (rd k s') = Some (int (length text) + 1, text @ [0])"
proof -
  obtain s' where s: "wr k (text @ [0]) s = Some s'"
    "rd k s' = Some (int (length (text @ [0])), text @ [0])"
    using wr_rd [OF assms(1,2)] by blast
  show ?thesis using s assms(3) by (simp add: decode_string_def nth_append nat_add_distrib)
qed

end

definition store_read :: "mmconfig_env \<Rightarrow> byte list \<Rightarrow> mmconfig \<Rightarrow> (int \<times> byte list) option" where
  "store_read env key st = map_option fst (mmconfig_read_data env key st)"

definition store_write :: "mmconfig_env \<Rightarrow> byte list \<Rightarrow> byte list \<Rightarrow> mmconfig \<Rightarrow> mmconfig option" where
  "store_write env key data st =
     (case mmconfig_write_data env key (Some data) (length data) st of
        Some (r, st') \<Rightarrow> if r = MMCONFIG_OK then Some st' else None
      | None \<Rightarrow> None)"

sublocale flash_device \<subseteq> store: byte_store "store_read env" "store_write env" "fits env block"
proof unfold_locales
  fix k d s
  assume k: "plain_key k" and f: "fits env block k d s"
  then obtain version es where "store_ok env block s version es" "length d < 65280"
    "12 + length (image_bytes (updated [set_node k d] es)) < mmconfig_partition_size s"
    by (auto simp: fits_def)
  then obtain st' where "mmconfig_write_data env k (Some d) (length d) s = Some (MMCONFIG_OK, st')"
    "mmconfig_read_data env k st' = Some ((int (length d), d), st')"
    using write_then_read [OF _ k] by meson
  then show "\<exists>s'. store_write env k d s = Some s' \<and> store_read env k s' = Some (int (length d), d)"
    by (simp add: store_write_def store_read_def)
qed

subsection \<open>Initialisation\<close>

text \<open>A partition of two halves of whole blocks, each with room for a header.\<close>

definition partition_ok :: "mmconfig_env \<Rightarrow> (nat \<Rightarrow> bool) \<Rightarrow> mmhal_flash_partition_config \<Rightarrow> bool" where
  "partition_ok env block cfg \<longleftrightarrow>
     (let a = partition_start cfg; n = partition_size cfg div 2 in
      mmhal_get_mmconfig_partition env = Some cfg \<and> \<not> not_memory_mapped cfg
      \<and> 12 \<le> n \<and> n < 4294967296
      \<and> mmhal_flash_getblocksize env a \<noteq> 0
      \<and> mmhal_flash_getblocksize env (a + partition_size cfg - 1) \<noteq> 0
      \<and> tiled env block a (a + n) \<and> tiled env block (a + n) (a + n + n))"

text \<open>A half that holds the header of an empty image and is erased behind it.\<close>

definition wiped :: "mem \<Rightarrow> nat \<Rightarrow> nat \<Rightarrow> bool" where
  "wiped m a n \<longleftrightarrow> holds_at m a (header_bytes 0 XORHASH_SEED) \<and> (\<forall>i<n. 12 \<le> i \<longrightarrow> m (a + i) = 255)"

context flash_device begin

lemma eraseall_body_empty:
  assumes "mmconfig_mutex st" "halves env st" "12 \<le> mmconfig_partition_size st"
    "mmconfig_partition_size st < 4294967296"
    "tiled env block (mmconfig_primary_image st) (mmconfig_primary_image st + mmconfig_partition_size st)"
    "tiled env block (mmconfig_secondary_image st) (mmconfig_secondary_image st + mmconfig_partition_size st)"
  shows "\<exists>st'. eraseall_body env st = Some (MMCONFIG_OK, st') \<and> store_ok env block st' 0 []
    \<and> same_images st st'
    \<and> wiped (flash st') (mmconfig_primary_image st) (mmconfig_partition_size st)
    \<and> wiped (flash st') (mmconfig_secondary_image st) (mmconfig_partition_size st)
    \<and> (\<forall>x. (x < mmconfig_primary_image st \<or> mmconfig_primary_image st + mmconfig_partition_size st \<le> x)
          \<and> (x < mmconfig_secondary_image st \<or> mmconfig_secondary_image st + mmconfig_partition_size st \<le> x)
        \<longrightarrow> flash st' x = flash st x)"
proof -
  let ?a = "mmconfig_primary_image st" and ?b = "mmconfig_secondary_image st"
  let ?n = "mmconfig_partition_size st" and ?h = "header_bytes 0 XORHASH_SEED"
  have dj: "?a + ?n \<le> ?b \<or> ?b + ?n \<le> ?a" using assms(2) by (auto simp: halves_def)
  obtain s1 where e: "mmconfig_erase_partition env ?a ?n st = Some s1"
    "flash s1 = erased (flash st) ?a ?n" "same_images st s1"
    using erase_partition_tiled [OF assms(5)] by blast
  obtain s2 where e2: "mmconfig_erase_partition env ?b ?n s1 = Some s2"
    "flash s2 = erased (flash s1) ?b ?n" "same_images s1 s2"
    using erase_partition_tiled [OF assms(6)] by blast
  let ?s3 = "flash_write env ?a ?h s2" and ?s4 = "flash_write env ?b ?h (flash_write env ?a ?h s2)"
  have ff: "flash s2 x = 255" if "?a \<le> x \<and> x < ?a + ?n \<or> ?b \<le> x \<and> x < ?b + ?n" for x
    using that by (auto simp: e(2) e2(2) erased_def)
  have ba: "blank (flash s2) ?a (length ?h)" using ff assms(3) by (simp add: blank_def)
  have f3: "flash ?s3 = patch (flash s2) ?a ?h"
    using write_blank [OF ba] by (simp add: flash_write_def)
  have bb: "blank (flash ?s3) ?b (length ?h)"
    using ff assms(3) dj by (auto simp: blank_def f3 patch_def)
  have f4: "flash ?s4 = patch (flash ?s3) ?b ?h"
    using write_blank [OF bb] by (simp add: flash_write_def)
  have ia: "image_at (flash ?s4) ?a ?n 0 []"
  proof -
    have "holds_at (flash ?s4) ?a ?h"
      by (rule holds_at_cong [OF holds_at_patch [of "flash s2" ?a ?h]])
         (use dj assms(3) in \<open>auto simp: f4 f3 patch_def\<close>)
    moreover have "image_ended (flash ?s4) (?a + 12) (?a + ?n)"
    proof (cases "?n \<le> 12")
      case False
      then have "flash ?s4 (?a + 12) = 255"
        using ff [of "?a + 12"] dj by (auto simp: f4 f3 patch_def)
      then show ?thesis by (simp add: image_ended_def)
    qed (simp add: image_ended_def)
    ultimately show ?thesis using assms(3) by (simp add: image_at_def)
  qed
  have wa: "wiped (flash ?s4) ?a ?n"
    using ia ff dj by (auto simp: wiped_def image_at_def f4 f3 patch_def)
  have wb: "wiped (flash ?s4) ?b ?n"
    using ff dj holds_at_patch [of "flash ?s3" ?b ?h] by (auto simp: wiped_def f4 f3 patch_def)
  have others: "\<forall>x. (x < ?a \<or> ?a + ?n \<le> x) \<and> (x < ?b \<or> ?b + ?n \<le> x) \<longrightarrow> flash ?s4 x = flash st x"
    using assms(3) by (auto simp: f4 f3 patch_def e(2) e2(2) erased_def)
  have f: "mmconfig_primary_image s1 = ?a" "mmconfig_secondary_image s1 = ?b"
    "mmconfig_partition_size s1 = ?n" "mmconfig_primary_image s2 = ?a"
    "mmconfig_secondary_image s2 = ?b" "mmconfig_partition_size s2 = ?n" "mmconfig_mutex s2"
    using e(3) e2(3) assms(1) by (simp_all add: same_images_def)
  have g: "mmconfig_primary_image ?s4 = ?a" "mmconfig_secondary_image ?s4 = ?b"
    "mmconfig_partition_size ?s4 = ?n" "mmconfig_mutex ?s4"
    using f by (simp_all add: flash_write_def)
  have "mmconfig_secondary_image ?s3 = ?b" using f by (simp add: flash_write_def)
  then have r: "eraseall_body env st = Some (MMCONFIG_OK, ?s4)"
    using assms(1) by (simp add: eraseall_body_def e(1) f e2(1) Let_def)
  have "halves env ?s4" using assms(2) g unfolding halves_def by simp
  then have "store_ok env block ?s4 0 []"
    using assms(4-6) dj ia g by (simp add: store_ok_def Let_def)
  moreover have "same_images st ?s4" using g assms(1) by (simp add: same_images_def)
  ultimately show ?thesis using r wa wb others by blast
qed

end

text \<open>The state with the first half, or the second, as the primary image.\<close>

definition select_images :: "mmhal_flash_partition_config \<Rightarrow> bool \<Rightarrow> mmconfig \<Rightarrow> mmconfig" where
  "select_images cfg second st =
     (let n = partition_size cfg div 2; a = partition_start cfg in
      st\<lparr>mmconfig_mutex := True, mmconfig_partition_size := n,
         mmconfig_primary_image := (if second then a + n else a),
         mmconfig_secondary_image := (if second then a else a + n)\<rparr>)"

lemma mmconfig_init_select:
  assumes "partition_ok env block cfg" "\<not> mmconfig_mutex st"
  shows "mmconfig_init env st =
    (let n = partition_size cfg div 2; a = partition_start cfg;
         va = mmconfig_validate_partition (flash st) n a = MMCONFIG_OK;
         vb = mmconfig_validate_partition (flash st) n (a + n) = MMCONFIG_OK
     in if va then
          Some (MMCONFIG_OK, select_images cfg
            (vb \<and> rd32 (flash st) (a + n + 4) > rd32 (flash st) (a + 4)) st)
        else if vb then Some (MMCONFIG_OK, select_images cfg True st)
        else do { (_, st) \<leftarrow> eraseall_body env (select_images cfg False st);
                  Some (MMCONFIG_DATA_ERASED, st) })"
proof -
  have "partition_size cfg \<noteq> 0" using assms(1) by (auto simp: partition_ok_def Let_def)
  then show ?thesis using assms
    by (simp add: mmconfig_init_def partition_ok_def select_images_def Let_def)
qed

lemma store_ok_select:
  assumes "partition_ok env block cfg"
    "image_at (flash st) (partition_start cfg + (if second then partition_size cfg div 2 else 0))
       (partition_size cfg div 2) version es"
  shows "store_ok env block (select_images cfg second st) version es"
  using assms
  by (auto simp: store_ok_def halves_def select_images_def partition_ok_def Let_def)

subsection \<open>The properties\<close>

text \<open>C29. Start-up selects the right image. With a valid image in the first half and none, or no
  newer one, in the second, the store holds the records of the first; with a valid image in the
  second half and none, or an older one, in the first, those of the second; and when neither half
  is valid both are erased and given the header of an empty image, the flash outside of them is not touched, the
  result is \<open>MMCONFIG_DATA_ERASED\<close> and the store is empty. The selection does not change the flash.\<close>

theorem mmconfig_init_selects:
  assumes "flash_device env block" "partition_ok env block cfg" "\<not> mmconfig_mutex st"
    and "a = partition_start cfg" "n = partition_size cfg div 2"
  shows "(image_at (flash st) a n version es
      \<and> (mmconfig_validate_partition (flash st) n (a + n) \<noteq> MMCONFIG_OK
          \<or> rd32 (flash st) (a + n + 4) \<le> version) \<longrightarrow>
      (\<exists>st'. mmconfig_init env st = Some (MMCONFIG_OK, st') \<and> store_ok env block st' version es
          \<and> flash st' = flash st))
    \<and> (image_at (flash st) (a + n) n version es
      \<and> (mmconfig_validate_partition (flash st) n a \<noteq> MMCONFIG_OK
          \<or> rd32 (flash st) (a + 4) < version) \<longrightarrow>
      (\<exists>st'. mmconfig_init env st = Some (MMCONFIG_OK, st') \<and> store_ok env block st' version es
          \<and> flash st' = flash st))
    \<and> (mmconfig_validate_partition (flash st) n a \<noteq> MMCONFIG_OK
      \<and> mmconfig_validate_partition (flash st) n (a + n) \<noteq> MMCONFIG_OK \<longrightarrow>
      (\<exists>st'. mmconfig_init env st = Some (MMCONFIG_DATA_ERASED, st') \<and> store_ok env block st' 0 []
          \<and> wiped (flash st') a n \<and> wiped (flash st') (a + n) n
          \<and> (\<forall>x. x < a \<or> a + n + n \<le> x \<longrightarrow> flash st' x = flash st x)))"
proof (intro conjI impI)
  note init = mmconfig_init_select [OF assms(2,3), folded assms(4,5)]
  have fl: "flash (select_images cfg b st) = flash st" for b
    by (simp add: select_images_def Let_def)
  {
    assume h: "image_at (flash st) a n version es
      \<and> (mmconfig_validate_partition (flash st) n (a + n) \<noteq> MMCONFIG_OK
          \<or> rd32 (flash st) (a + n + 4) \<le> version)"
    then have i: "image_at (flash st) a n version es" by simp
    have "store_ok env block (select_images cfg False st) version es"
      using store_ok_select [OF assms(2), of st False] i assms(4,5) by simp
    moreover have "mmconfig_init env st = Some (MMCONFIG_OK, select_images cfg False st)"
    proof -
      have "(mmconfig_validate_partition (flash st) n (a + n) = MMCONFIG_OK
          \<and> rd32 (flash st) (a + 4) < rd32 (flash st) (a + n + 4)) = False"
        using h image_at_valid(2) [OF i] by (auto simp: not_less)
      then show ?thesis using init image_at_valid(1) [OF i] by (simp add: Let_def del: de_Morgan_conj)
    qed
    ultimately show "\<exists>st'. mmconfig_init env st = Some (MMCONFIG_OK, st')
        \<and> store_ok env block st' version es \<and> flash st' = flash st" using fl by blast
  next
    assume h: "image_at (flash st) (a + n) n version es
      \<and> (mmconfig_validate_partition (flash st) n a \<noteq> MMCONFIG_OK \<or> rd32 (flash st) (a + 4) < version)"
    then have i: "image_at (flash st) (a + n) n version es" by simp
    have "store_ok env block (select_images cfg True st) version es"
      using store_ok_select [OF assms(2), of st True] i assms(4,5) by simp
    moreover have "mmconfig_init env st = Some (MMCONFIG_OK, select_images cfg True st)"
      using init h image_at_valid [OF i] by (auto simp: Let_def)
    ultimately show "\<exists>st'. mmconfig_init env st = Some (MMCONFIG_OK, st')
        \<and> store_ok env block st' version es \<and> flash st' = flash st" using fl by blast
  next
    assume h: "mmconfig_validate_partition (flash st) n a \<noteq> MMCONFIG_OK
      \<and> mmconfig_validate_partition (flash st) n (a + n) \<noteq> MMCONFIG_OK"
    let ?s = "select_images cfg False st"
    have p: "mmconfig_mutex ?s" "halves env ?s" "12 \<le> mmconfig_partition_size ?s"
      "mmconfig_partition_size ?s < 4294967296"
      "tiled env block (mmconfig_primary_image ?s) (mmconfig_primary_image ?s + mmconfig_partition_size ?s)"
      "tiled env block (mmconfig_secondary_image ?s) (mmconfig_secondary_image ?s + mmconfig_partition_size ?s)"
      using assms(2) by (auto simp: select_images_def partition_ok_def halves_def Let_def)
    have halves: "mmconfig_primary_image ?s = a" "mmconfig_secondary_image ?s = a + n" "mmconfig_partition_size ?s = n"
      "flash ?s = flash st"
      using assms(4,5) by (simp_all add: select_images_def Let_def)
    obtain st' where "eraseall_body env ?s = Some (MMCONFIG_OK, st')" "store_ok env block st' 0 []"
      "wiped (flash st') a n" "wiped (flash st') (a + n) n" "\<forall>x. x < a \<or> a + n + n \<le> x \<longrightarrow> flash st' x = flash st x"
      using flash_device.eraseall_body_empty [OF assms(1) p] unfolding halves by (meson le_add1 order.strict_trans1 order.trans trans_less_add1)
    then show "\<exists>st'. mmconfig_init env st = Some (MMCONFIG_DATA_ERASED, st') \<and> store_ok env block st' 0 []
          \<and> wiped (flash st') a n \<and> wiped (flash st') (a + n) n
          \<and> (\<forall>x. x < a \<or> a + n + n \<le> x \<longrightarrow> flash st' x = flash st x)"
      using init h by (simp add: Let_def)
  }
qed

subsection \<open>A concrete device\<close>

text \<open>NOR flash with blocks of 4 KiB at the address of the internal flash of the microcontroller,
  two of them for the store, fresh from the factory.\<close>

definition demo_cfg :: mmhal_flash_partition_config where
  "demo_cfg = \<lparr>partition_start = 134217728, partition_size = 8192, not_memory_mapped = False\<rparr>"

definition demo_env :: mmconfig_env where
  "demo_env = nor_env 4096 (Some demo_cfg) []"

definition demo_block :: "nat \<Rightarrow> bool" where
  "demo_block a \<longleftrightarrow> a mod 4096 = 0"

definition demo_blank :: mmconfig where
  "demo_blank = \<lparr>flash = (\<lambda>a. 255), flash_log = [], mmconfig_mutex = False, mmconfig_primary_image = 0,
     mmconfig_secondary_image = 0, mmconfig_partition_size = 0,
     mmconfig_staging_buffer = replicate 128 0, mmconfig_buffer_index = 0,
     mmconfig_flashing_address = 0\<rparr>"

lemma demo_device: "flash_device demo_env demo_block"
  using nor_flash_device [of 4096 "Some demo_cfg" "[]"]
  by (simp add: demo_env_def demo_block_def [abs_def])

lemma demo_block_size [simp]: "mmhal_flash_getblocksize demo_env a = 4096"
  by (simp add: demo_env_def nor_env_def)

lemma demo_tiled: "demo_block a \<Longrightarrow> tiled demo_env demo_block a (a + 4096)"
  by (rule tiled_block) (simp_all add: tiled_nil)

lemma demo_partition: "partition_ok demo_env demo_block demo_cfg"
proof -
  have "tiled demo_env demo_block 134217728 (134217728 + 4096)"
    "tiled demo_env demo_block 134221824 (134221824 + 4096)"
    by (rule demo_tiled, simp add: demo_block_def)+
  then show ?thesis
    by (simp add: partition_ok_def demo_cfg_def Let_def) (simp add: demo_env_def nor_env_def demo_cfg_def)
qed

lemma demo_blank_invalid:
  "mmconfig_validate_partition (flash demo_blank) n a \<noteq> MMCONFIG_OK"
  by (simp add: mmconfig_validate_partition_def demo_blank_def rd32_def rd16_def rd8_def
      MMCONFIG_SIGNATURE_def)

lemma mmconfig_init_selects_witness:
  "\<exists>st'. mmconfig_init demo_env demo_blank = Some (MMCONFIG_DATA_ERASED, st')
    \<and> store_ok demo_env demo_block st' 0 [] \<and> wiped (flash st') 134217728 4096 \<and> wiped (flash st') 134221824 4096"
  using mmconfig_init_selects [OF demo_device demo_partition _ refl refl, of demo_blank 0 "[]"]
    demo_blank_invalid
  by (auto simp: demo_blank_def demo_cfg_def)

lemma demo_store:
  obtains st where "store_ok demo_env demo_block st 0 []" "mmconfig_partition_size st = 4096"
proof -
  let ?s = "select_images demo_cfg False demo_blank"
  have p: "mmconfig_mutex ?s" "halves demo_env ?s" "12 \<le> mmconfig_partition_size ?s"
    "mmconfig_partition_size ?s < 4294967296"
    "tiled demo_env demo_block (mmconfig_primary_image ?s)
       (mmconfig_primary_image ?s + mmconfig_partition_size ?s)"
    "tiled demo_env demo_block (mmconfig_secondary_image ?s)
       (mmconfig_secondary_image ?s + mmconfig_partition_size ?s)"
    using demo_partition by (auto simp: select_images_def partition_ok_def halves_def Let_def)
  obtain st where "store_ok demo_env demo_block st 0 []" "same_images ?s st"
    using flash_device.eraseall_body_empty [OF demo_device p] by blast
  then show ?thesis
    using that by (simp add: same_images_def select_images_def demo_cfg_def Let_def)
qed

subsection \<open>Properties of the operations\<close>

text \<open>C26. An update implements an update of a map. When the new image fits, the update succeeds
  with the next version; a key that one of its nodes selects (by its name in either case of
  letters, or by a wildcard) then has the value of the first node that sets it, or none when it
  was only deleted; every other key reads as before. Nodes with data of size zero are left out: the header documents
  them as deletions, the code stores an empty value (a finding).\<close>

theorem mmconfig_update_refines_map:
  assumes "flash_device env block" "store_ok env block st version es"
    and "nodes \<noteq> []" "list_all node_ok nodes"
    and "\<And>node. node \<in> set nodes \<Longrightarrow> node_data node \<noteq> None \<Longrightarrow> plain_key (node_key node)"
    and "\<forall>node\<in>set nodes. node_data node \<noteq> Some []"
    and "12 + length (image_bytes (updated nodes es)) < mmconfig_partition_size st"
    and "plain_key k"
  shows "\<exists>st'. mmconfig_write_update_node_list env nodes st = Some (MMCONFIG_OK, st')
    \<and> store_ok env block st' (version + 1) (updated nodes es)
    \<and> mmconfig_read_data env k st' = Some (read_result env
        (if node_selects nodes k then store_lookup (new_records nodes) k else store_lookup es k) k, st')"
proof -
  obtain st' where u: "mmconfig_update_secondary_image env nodes st = Some (MMCONFIG_OK, st')"
    "store_ok env block st' (version + 1) (updated nodes es)"
    using flash_device.update_secondary_image_stored [OF assms(1,2,4,7)] by blast
  have lk: "store_lookup (updated nodes es) k =
      (if node_selects nodes k then store_lookup (new_records nodes) k else store_lookup es k)"
    by (rule store_lookup_updated [OF assms(8,5)])
  show ?thesis
    using u read_data_ok [OF u(2) assms(8), unfolded lk]
    by (simp add: write_update_node_list_ok [OF store_ok_mutex [OF assms(2)] assms(3)])
qed

lemma mmconfig_update_refines_map_witness:
  "\<exists>st st'. store_ok demo_env demo_block st 0 []
    \<and> mmconfig_write_update_node_list demo_env [set_node [97] [1, 2], delete_node [98]] st = Some (MMCONFIG_OK, st')
    \<and> mmconfig_read_data demo_env [65] st' = Some ((2, [1, 2]), st')"
proof -
  obtain st where s: "store_ok demo_env demo_block st 0 []" "mmconfig_partition_size st = 4096"
    by (rule demo_store)
  have k: "plain_key [97]" "plain_key [98]" "plain_key [65]"
    by (simp_all add: plain_key_def key_char_def isalnum_def isalpha_def word_le_nat_alt)
  let ?nodes = "[set_node [97] [1, 2], delete_node [98]] :: mmconfig_update_node list"
  have "list_all node_ok ?nodes" using k set_node_ok delete_node_ok by simp
  moreover have "node_data node \<noteq> None \<Longrightarrow> plain_key (node_key node)" if "node \<in> set ?nodes" for node
    using that k by (auto simp: set_node_def delete_node_def)
  moreover have "\<forall>node\<in>set ?nodes. node_data node \<noteq> Some []" by (simp add: set_node_def delete_node_def)
  moreover have "12 + length (image_bytes (updated ?nodes [])) < mmconfig_partition_size st"
    by (simp add: s(2) updated_def set_node_def delete_node_def length_record_bytes)
  ultimately obtain st' where
    u: "mmconfig_write_update_node_list demo_env ?nodes st = Some (MMCONFIG_OK, st')"
    "mmconfig_read_data demo_env [65] st' = Some (read_result demo_env
        (if node_selects ?nodes [65] then store_lookup (new_records ?nodes) [65]
         else store_lookup [] [65]) [65], st')"
    using mmconfig_update_refines_map [OF demo_device s(1), of ?nodes "[65]"] k(3) by blast
  have "read_result demo_env (if node_selects ?nodes [65] then store_lookup (new_records ?nodes) [65]
         else store_lookup [] [65]) [65] = (2, [1, 2])"
    by (simp add: set_node_def delete_node_def key_selects_def fold_key_def toupper_def read_result_def
        word_le_nat_alt)
  then show ?thesis using s(1) u by auto
qed

text \<open>What is read under a key in a store.\<close>

lemma read_data_same_state:
  assumes "store_ok env block st version es"
  shows "\<exists>r. mmconfig_read_data env k st = Some (r, st)"
proof (cases "plain_key k")
  case True
  then show ?thesis using read_data_ok [OF assms] by blast
next
  case False
  then show ?thesis using read_data_invalid [OF store_ok_mutex [OF assms]] by blast
qed

lemma store_ok_partition:
  assumes "store_ok env block st version es"
  obtains cfg where "partition_ok env block cfg" "mmconfig_partition_size st = partition_size cfg div 2"
    "(mmconfig_primary_image st, mmconfig_secondary_image st) \<in>
      {(partition_start cfg, partition_start cfg + partition_size cfg div 2),
       (partition_start cfg + partition_size cfg div 2, partition_start cfg)}"
proof -
  obtain cfg where c: "mmhal_get_mmconfig_partition env = Some cfg" "\<not> not_memory_mapped cfg"
    "mmhal_flash_getblocksize env (partition_start cfg) \<noteq> 0"
    "mmhal_flash_getblocksize env (partition_start cfg + partition_size cfg - 1) \<noteq> 0"
    "mmconfig_partition_size st = partition_size cfg div 2"
    "(mmconfig_primary_image st, mmconfig_secondary_image st) \<in>
      {(partition_start cfg, partition_start cfg + partition_size cfg div 2),
       (partition_start cfg + partition_size cfg div 2, partition_start cfg)}"
    using assms unfolding store_ok_def halves_def Let_def by blast
  have "12 \<le> partition_size cfg div 2"
    using assms c(5) by (auto simp: store_ok_def image_at_def Let_def)
  then have "partition_ok env block cfg"
    using assms c by (auto simp: store_ok_def partition_ok_def Let_def)
  then show ?thesis using that c(5,6) by blast
qed

lemma store_ok_selected:
  assumes "store_ok env block st version es" "partition_ok env block cfg"
    "mmconfig_partition_size st = partition_size cfg div 2"
    "mmconfig_primary_image st = partition_start cfg + (if second then partition_size cfg div 2 else 0)"
    "image_at (flash start) (mmconfig_primary_image st) (mmconfig_partition_size st) version es"
  shows "store_ok env block (select_images cfg second start) version es"
  using store_ok_select [OF assms(2), of start second version es] assms(3-5) by simp

text \<open>A start-up on flash in which the primary image is as it was.\<close>

lemma init_after_power_loss:
  assumes "store_ok env block st version es" "\<not> mmconfig_mutex start"
    and "image_at (flash start) (mmconfig_primary_image st) (mmconfig_partition_size st) version es"
  shows "\<exists>st''. mmconfig_init env start = Some (MMCONFIG_OK, st'') \<and> flash st'' = flash start
    \<and> (store_ok env block st'' version es
       \<or> mmconfig_primary_image st'' = mmconfig_secondary_image st
         \<and> mmconfig_validate_partition (flash start) (mmconfig_partition_size st)
             (mmconfig_secondary_image st) = MMCONFIG_OK
         \<and> version \<le> rd32 (flash start) (mmconfig_secondary_image st + 4))"
proof -
  let ?a = "mmconfig_primary_image st" and ?b = "mmconfig_secondary_image st"
  let ?n = "mmconfig_partition_size st" and ?m = "flash start"
  obtain cfg where c: "partition_ok env block cfg" "?n = partition_size cfg div 2"
    "(?a, ?b) \<in> {(partition_start cfg, partition_start cfg + partition_size cfg div 2),
       (partition_start cfg + partition_size cfg div 2, partition_start cfg)}"
    using store_ok_partition [OF assms(1)] by blast
  note init = mmconfig_init_select [OF c(1) assms(2), folded c(2)]
  have fl: "flash (select_images cfg s start) = ?m" for s by (simp add: select_images_def Let_def)
  note va = image_at_valid [OF assms(3)]
  let ?other = "mmconfig_validate_partition ?m ?n ?b = MMCONFIG_OK"
  consider (first) "?a = partition_start cfg" "?b = partition_start cfg + ?n"
    | (second) "?a = partition_start cfg + ?n" "?b = partition_start cfg"
    using c(2,3) by auto
  then show ?thesis
  proof cases
    case first
    let ?sel = "?other \<and> rd32 ?m (?b + 4) > rd32 ?m (?a + 4)"
    have i: "mmconfig_init env start = Some (MMCONFIG_OK, select_images cfg ?sel start)"
      using init va first by (simp add: Let_def)
    show ?thesis
    proof (cases ?sel)
      case True
      then have "mmconfig_primary_image (select_images cfg ?sel start) = ?b"
        using first c(2) by (simp add: select_images_def Let_def)
      then show ?thesis using True i fl va by auto
    next
      case False
      then have "select_images cfg ?sel start = select_images cfg False start" by metis
      then show ?thesis
        using store_ok_selected [OF assms(1) c(1,2), of False start] assms(3) first i fl by auto
    qed
  next
    case second
    let ?sel = "?other \<longrightarrow> rd32 ?m (?a + 4) > rd32 ?m (?b + 4)"
    have i: "mmconfig_init env start = Some (MMCONFIG_OK, select_images cfg ?sel start)"
      using init va second by (simp add: Let_def)
    show ?thesis
    proof (cases ?sel)
      case True
      then have "select_images cfg ?sel start = select_images cfg True start" by metis
      then show ?thesis
        using store_ok_selected [OF assms(1) c(1,2), of True start] assms(3) second c(2) i fl by auto
    next
      case False
      then have "mmconfig_primary_image (select_images cfg ?sel start) = ?b"
        using second by (simp add: select_images_def Let_def)
      then show ?thesis using False i fl va by (auto simp: not_less)
    qed
  qed
qed

text \<open>C25. Power can be lost at any moment of an update without harm to what is stored. Whatever
  prefix of the flash operations of an update has been carried out when the power fails, the next
  start-up finds a valid image, changes nothing in the flash, and holds the records from before
  the update; only when the other half already validates as an image at least as new does it hold
  that one.\<close>

theorem mmconfig_power_loss:
  assumes "flash_device env block" "store_ok env block st version es" "list_all node_ok nodes"
    and "12 + length (image_bytes (updated nodes es)) < mmconfig_partition_size st"
    and "mmconfig_update_secondary_image env nodes st = Some (r, st')"
    and "\<not> mmconfig_mutex start"
    and "flash start = run_ops env (flash st) (take i (drop (length (flash_log st)) (flash_log st')))"
  shows "\<exists>st''. mmconfig_init env start = Some (MMCONFIG_OK, st'') \<and> flash st'' = flash start
    \<and> (store_ok env block st'' version es
       \<or> mmconfig_primary_image st'' = mmconfig_secondary_image st
         \<and> mmconfig_validate_partition (flash start) (mmconfig_partition_size st)
             (mmconfig_secondary_image st) = MMCONFIG_OK
         \<and> version \<le> rd32 (flash start) (mmconfig_secondary_image st + 4))"
proof -
  let ?a = "mmconfig_primary_image st" and ?b = "mmconfig_secondary_image st"
  let ?n = "mmconfig_partition_size st"
  have fs: "flash_steps env block ?b (?b + ?n) st st'"
    using flash_device.update_secondary_image_stored [OF assms(1-4)] assms(5) by auto
  then obtain ops where ops: "flash_log st' = flash_log st @ ops"
    "list_all (op_within env block ?b (?b + ?n)) ops"
    unfolding flash_steps_def by blast
  have w: "list_all (op_within env block ?b (?b + ?n)) (take i ops)"
    using ops(2) by (auto simp: list_all_iff dest: in_set_takeD)
  have m: "flash start = run_ops env (flash st) (take i ops)" using assms(7) ops(1) by simp
  have s: "image_at (flash st) ?a ?n version es" "?a + ?n \<le> ?b \<or> ?b + ?n \<le> ?a"
    using assms(2) by (simp_all add: store_ok_def Let_def)
  have "image_at (flash start) ?a ?n version es"
    by (rule image_at_frame [OF s(1)], unfold m, rule flash_device.run_ops_frame [OF assms(1) w])
       (use s(2) in auto)
  then show ?thesis by (rule init_after_power_loss [OF assms(2,6)])
qed

lemma mmconfig_power_loss_witness:
  "\<exists>st st' start st''. store_ok demo_env demo_block st 0 []
    \<and> mmconfig_update_secondary_image demo_env [set_node [97] [1, 2]] st = Some (MMCONFIG_OK, st')
    \<and> flash start = run_ops demo_env (flash st) (take 2 (drop (length (flash_log st)) (flash_log st')))
    \<and> mmconfig_init demo_env start = Some (MMCONFIG_OK, st'') \<and> flash st'' = flash start"
proof -
  obtain st where s: "store_ok demo_env demo_block st 0 []" "mmconfig_partition_size st = 4096"
    by (rule demo_store)
  let ?nodes = "[set_node [97] [1, 2]] :: mmconfig_update_node list"
  have k: "plain_key [97]"
    by (simp add: plain_key_def key_char_def isalnum_def isalpha_def word_le_nat_alt)
  have n: "list_all node_ok ?nodes" using k set_node_ok by simp
  have r: "12 + length (image_bytes (updated ?nodes [])) < mmconfig_partition_size st"
    by (simp add: s(2) updated_def set_node_def length_record_bytes)
  obtain st' where u: "mmconfig_update_secondary_image demo_env ?nodes st = Some (MMCONFIG_OK, st')"
    using flash_device.update_secondary_image_stored [OF demo_device s(1) n r] by blast
  define start where "start = demo_blank\<lparr>flash :=
      run_ops demo_env (flash st) (take 2 (drop (length (flash_log st)) (flash_log st')))\<rparr>"
  have m: "\<not> mmconfig_mutex start" by (simp add: start_def demo_blank_def)
  have f: "flash start = run_ops demo_env (flash st) (take 2 (drop (length (flash_log st)) (flash_log st')))"
    by (simp add: start_def)
  show ?thesis
    using mmconfig_power_loss [OF demo_device s(1) n r u m f] s(1) u f by blast
qed

context flash_device begin

lemmas number_read_back = store.number_read_back
lemmas bool_read_back = store.bool_read_back

end

text \<open>A write that does not fit changes nothing: it returns \<open>MMCONFIG_ERR_FULL\<close>, no flash
  operation is performed, and \<open>mmconfig_check_usage\<close> announces it for the same list with the
  number of bytes needed and the (negative) number that would remain.\<close>

theorem mmconfig_full_changes_nothing:
  assumes "store_ok env block st version es" "nodes \<noteq> []" "list_all node_ok nodes"
    and "need = 12 + length (image_bytes (updated nodes es))"
    and "mmconfig_partition_size st < need" "need < 2147483648"
  shows "mmconfig_write_update_node_list env nodes st = Some (MMCONFIG_ERR_FULL, st)
    \<and> mmconfig_check_usage env nodes st =
        Some ((MMCONFIG_ERR_FULL, Some (need, int (mmconfig_partition_size st) - int need)), st)"
proof -
  note m = store_ok_mutex [OF assms(1)]
  have b: "12 + length (image_bytes (updated nodes es)) < 4294967296" using assms(4,6) by simp
  have r: "s32 (sub32 (mmconfig_partition_size st) need) = int (mmconfig_partition_size st) - int need"
    using assms(5,6) by (simp add: sub32_lt s32_big)
  note c = compute_new_checksum_ok [OF assms(1,3) b, folded assms(4)]
  have "mmconfig_update_secondary_image env nodes st = Some (MMCONFIG_ERR_FULL, st)"
    using c assms(5) by (simp add: mmconfig_update_secondary_image_def)
  then show ?thesis
    using c assms(5) r
    by (simp add: write_update_node_list_ok [OF m assms(2)] mmconfig_check_usage_def init_done [OF m])
qed

lemma mmconfig_full_changes_nothing_witness:
  "\<exists>st. store_ok demo_env demo_block st 0 []
    \<and> mmconfig_write_update_node_list demo_env [set_node [97] (replicate 5000 7)] st
        = Some (MMCONFIG_ERR_FULL, st)
    \<and> mmconfig_check_usage demo_env [set_node [97] (replicate 5000 7)] st
        = Some ((MMCONFIG_ERR_FULL, Some (5016, - 920)), st)"
proof -
  obtain st where s: "store_ok demo_env demo_block st 0 []" "mmconfig_partition_size st = 4096"
    by (rule demo_store)
  have k: "plain_key [97]"
    by (simp add: plain_key_def key_char_def isalnum_def isalpha_def word_le_nat_alt)
  let ?nodes = "[set_node [97] (replicate 5000 7)] :: mmconfig_update_node list"
  have n: "list_all node_ok ?nodes" using k set_node_ok [of "[97]" "replicate 5000 7"] by simp
  have l: "5016 = 12 + length (image_bytes (updated ?nodes []))"
    by (simp add: updated_def set_node_def length_record_bytes)
  show ?thesis
    using mmconfig_full_changes_nothing [OF s(1) _ n l] s by auto
qed

text \<open>C27. A value written under a key is what is read under it, whatever was there: the write
  succeeds when there is room, reads under the key in either case of letters return the length
  and the bytes, every other key reads as before, and reading part of the value from an offset
  copies exactly the bytes there are, never more than the buffer takes.\<close>

theorem mmconfig_write_read:
  assumes "flash_device env block" "store_ok env block st version es"
    and "plain_key key" "length data < 65280"
    and "12 + length (image_bytes (updated [set_node key data] es)) < mmconfig_partition_size st"
    and "offset \<le> length data" "buffsize < 4294967296"
  shows "\<exists>st'. mmconfig_write_data env key (Some data) (length data) st = Some (MMCONFIG_OK, st')
    \<and> mmconfig_read_data env key st' = Some ((int (length data), data), st')
    \<and> (\<forall>k. plain_key k \<and> fold_key k \<noteq> fold_key key \<longrightarrow>
         map_option fst (mmconfig_read_data env k st') = map_option fst (mmconfig_read_data env k st))
    \<and> mmconfig_read_bytes env key True buffsize offset st'
        = Some ((int (min buffsize (length data - offset)), take buffsize (drop offset data)), st')"
proof -
  obtain st' version' es' where w:
    "mmconfig_write_data env key (Some data) (length data) st = Some (MMCONFIG_OK, st')"
    "store_ok env block st' version' es'"
    "mmconfig_read_data env key st' = Some ((int (length data), data), st')"
    "\<forall>k. plain_key k \<and> fold_key k \<noteq> fold_key key \<longrightarrow> store_lookup es' k = store_lookup es k"
    using flash_device.write_then_read [OF assms(1-5)] by blast
  have o: "\<forall>k. plain_key k \<and> fold_key k \<noteq> fold_key key \<longrightarrow>
      map_option fst (mmconfig_read_data env k st') = map_option fst (mmconfig_read_data env k st)"
    using w(4) read_data_ok [OF w(2)] read_data_ok [OF assms(2)] by simp
  let ?c = "if buffsize < length data - offset then buffsize else length data - offset"
  have c: "?c = min buffsize (length data - offset)" by simp
  have r: "mem_read data offset ?c = Some (take buffsize (drop offset data))"
    using assms(6) by (auto simp: mem_read_def)
  have sc: "s32 ?c = int (min buffsize (length data - offset))"
    unfolding c using assms(4) by (subst s32_small) auto
  have "mmconfig_read_bytes env key True buffsize offset st'
      = Some ((int (min buffsize (length data - offset)), take buffsize (drop offset data)), st')"
    using r sc assms(6) w(3)
    by (cases "buffsize < length data - offset")
       (simp_all add: mmconfig_read_bytes_def init_done [OF store_ok_mutex [OF w(2)]] Let_def)
  then show ?thesis using w(1,3) o by blast
qed

lemma mmconfig_write_read_witness:
  "\<exists>st st'. store_ok demo_env demo_block st 0 []
    \<and> mmconfig_write_data demo_env [97] (Some [1, 2, 3]) 3 st = Some (MMCONFIG_OK, st')
    \<and> mmconfig_read_bytes demo_env [97] True 5 1 st' = Some ((2, [2, 3]), st')"
proof -
  obtain st where s: "store_ok demo_env demo_block st 0 []" "mmconfig_partition_size st = 4096"
    by (rule demo_store)
  have k: "plain_key [97]"
    by (simp add: plain_key_def key_char_def isalnum_def isalpha_def word_le_nat_alt)
  have r: "12 + length (image_bytes (updated [set_node [97] [1, 2, 3]] [])) < mmconfig_partition_size st"
    by (simp add: s(2) updated_def set_node_def length_record_bytes)
  show ?thesis
    using mmconfig_write_read [OF demo_device s(1) k _ r, of 1 5] s(1) by (auto simp: numeral_3_eq_3)
qed

lemma updated_length:
  "length (image_bytes (updated [set_node key data] es))
    \<le> length (image_bytes es) + 3 + length key + length data"
  using length_kept_dropped [of "[set_node key data]" es]
  by (simp add: updated_def set_node_def length_record_bytes)

lemma fits_text:
  assumes "store_ok env block st version es" "plain_key key"
    "12 + length (image_bytes es) + 3 + length key + 17 < mmconfig_partition_size st"
    "length text \<le> 16"
  shows "fits env block key (text @ [0]) st"
  unfolding fits_def
  using assms updated_length [of key "text @ [0]" es]
  by (intro conjI exI [of _ version] exI [of _ es]) simp_all

lemma typed_step:
  assumes "flash_device env block" "store_ok env block st version es" "plain_key key"
    "12 + length (image_bytes es) + 3 + length key + 17 < mmconfig_partition_size st"
    "length text \<le> 16"
    "store_write env key (text @ [0]) st = Some s'"
    "map_option dec (store_read env key s') = Some res"
  shows "mmconfig_write_string env key text st = Some (MMCONFIG_OK, s') \<and> mmconfig_mutex s'
    \<and> (\<exists>r. mmconfig_read_data env key s' = Some (r, s') \<and> dec r = res)"
proof -
  have room: "12 + length (image_bytes (updated [set_node key (text @ [0])] es)) < mmconfig_partition_size st"
    using updated_length [of key "text @ [0]" es] assms(4,5) by simp
  have l: "length (text @ [0]) < 65280" using assms(5) by simp
  obtain st' version' es' where w:
    "mmconfig_write_data env key (Some (text @ [0])) (length (text @ [0])) st = Some (MMCONFIG_OK, st')"
    "store_ok env block st' version' es'"
    "mmconfig_read_data env key st' = Some ((int (length (text @ [0])), text @ [0]), st')"
    using flash_device.write_then_read [OF assms(1-3) l room] by blast
  have s: "s' = st'" using assms(6) w(1) by (simp add: store_write_def)
  show ?thesis
    using w assms(7) store_ok_mutex [OF w(2)]
    by (simp add: s mmconfig_write_string_def store_read_def)
qed

text \<open>C28. The typed operations agree: an integer, an unsigned integer and a boolean are read back
  as they were written, with the result \<open>MMCONFIG_OK\<close>, from any store with room for the
  text.\<close>

theorem mmconfig_typed_round_trip:
  assumes "flash_device env block" "store_ok env block st version es"
    and "plain_key key" "12 + length (image_bytes es) + 3 + length key + 17 < mmconfig_partition_size st"
    and "-2147483648 \<le> v" "v < 2147483648" "n < 4294967296" "length str = 16"
  shows "(\<exists>st'. mmconfig_write_int env str key v st = Some (MMCONFIG_OK, st')
      \<and> mmconfig_read_int env key st' = Some ((MMCONFIG_OK, Some v), st'))
    \<and> (\<exists>st'. mmconfig_write_uint32 env str key n st = Some (MMCONFIG_OK, st')
      \<and> mmconfig_read_uint32 env key st' = Some ((MMCONFIG_OK, Some n), st'))
    \<and> (\<exists>st'. mmconfig_write_bool env key b st = Some (MMCONFIG_OK, st')
      \<and> mmconfig_read_bool env key st' = Some ((MMCONFIG_OK, Some b), st'))"
proof (intro conjI)
  note key = assms(3) and step = typed_step [OF assms(1-4)]
  obtain out where o: "mmconfig_int_to_str str 16 v = Some (Some out)" "length out = 16"
    "mmconfig_str_to_int (c_str out) = Some v"
    using int_to_str_parsed [OF assms(5,6,8)] by blast
  have z: "0 \<notin> set (c_str out)" "length (c_str out) \<le> 16"
    using o(2) length_takeWhile_le [of "\<lambda>b. b \<noteq> 0" out] by (auto simp: c_str_def dest: set_takeWhileD)
  note f = fits_text [OF assms(2-4) z(2)]
  obtain s' where "store_write env key (c_str out @ [0]) st = Some s'"
    "map_option (decode_number mmconfig_str_to_int) (store_read env key s') = Some (MMCONFIG_OK, Some v)"
    using flash_device.number_read_back [OF assms(1) key f z(1), of mmconfig_str_to_int, OF o(3)] by blast
  from step [OF z(2) this]
  show "\<exists>st'. mmconfig_write_int env str key v st = Some (MMCONFIG_OK, st')
      \<and> mmconfig_read_int env key st' = Some ((MMCONFIG_OK, Some v), st')"
    by (auto simp: mmconfig_write_int_def o(1) mmconfig_read_int_def init_done)
next
  note key = assms(3) and step = typed_step [OF assms(1-4)]
  obtain out where o: "mmconfig_uint_to_str str 16 n = Some (Some out)" "length out = 16"
    "mmconfig_str_to_uint (c_str out) = Some n"
    using uint_text_round_trip [OF assms(7,8)] by blast
  have z: "0 \<notin> set (c_str out)" "length (c_str out) \<le> 16"
    using o(2) length_takeWhile_le [of "\<lambda>b. b \<noteq> 0" out] by (auto simp: c_str_def dest: set_takeWhileD)
  note f = fits_text [OF assms(2-4) z(2)]
  obtain s' where "store_write env key (c_str out @ [0]) st = Some s'"
    "map_option (decode_number mmconfig_str_to_uint) (store_read env key s') = Some (MMCONFIG_OK, Some n)"
    using flash_device.number_read_back [OF assms(1) key f z(1), of mmconfig_str_to_uint, OF o(3)] by blast
  from step [OF z(2) this]
  show "\<exists>st'. mmconfig_write_uint32 env str key n st = Some (MMCONFIG_OK, st')
      \<and> mmconfig_read_uint32 env key st' = Some ((MMCONFIG_OK, Some n), st')"
    by (auto simp: mmconfig_write_uint32_def o(1) mmconfig_read_uint32_def init_done)
next
  let ?t = "if b then str_true else str_false"
  have l: "length ?t \<le> 16" by (simp add: str_true_def str_false_def)
  note f = fits_text [OF assms(2-4) l]
  obtain s' where "store_write env key (?t @ [0]) st = Some s'"
    "map_option decode_bool (store_read env key s') = Some (MMCONFIG_OK, Some b)"
    using flash_device.bool_read_back [OF assms(1,3) f] by blast
  from typed_step [OF assms(1-4) l this]
  show "\<exists>st'. mmconfig_write_bool env key b st = Some (MMCONFIG_OK, st')
      \<and> mmconfig_read_bool env key st' = Some ((MMCONFIG_OK, Some b), st')"
    by (cases b) (auto simp: mmconfig_write_bool_def mmconfig_read_bool_def init_done)
qed

lemma mmconfig_typed_round_trip_witness:
  "\<exists>st. store_ok demo_env demo_block st 0 []
    \<and> (\<exists>st'. mmconfig_write_int demo_env (replicate 16 0) [97] (-42) st = Some (MMCONFIG_OK, st')
        \<and> mmconfig_read_int demo_env [97] st' = Some ((MMCONFIG_OK, Some (-42)), st'))"
proof -
  obtain st where s: "store_ok demo_env demo_block st 0 []" "mmconfig_partition_size st = 4096"
    by (rule demo_store)
  have k: "plain_key [97]"
    by (simp add: plain_key_def key_char_def isalnum_def isalpha_def word_le_nat_alt)
  have "\<exists>st'. mmconfig_write_int demo_env (replicate 16 0) [97] (-42) st = Some (MMCONFIG_OK, st')
        \<and> mmconfig_read_int demo_env [97] st' = Some ((MMCONFIG_OK, Some (-42)), st')"
    by (rule mmconfig_typed_round_trip [OF demo_device s(1) k, of "-42" 0 "replicate 16 0",
          THEN conjunct1]) (simp_all add: s(2))
  then show ?thesis using s(1) by blast
qed

text \<open>Facts on the corners of the code.\<close>

lemma delete_of_empty_value_skipped:
  assumes "store_ok env block st version es" "plain_key key" "store_lookup es key = Some []"
  shows "mmconfig_delete_key env key st = Some (MMCONFIG_OK, st)
    \<and> mmconfig_read_data env key st = Some ((0, []), st)"
  using write_data_delete [OF assms(1,2)] read_data_ok [OF assms(1,2)] assms(3)
  by (simp add: read_result_def)

lemma one_byte_bool_result: "decode_bool (1, [b]) = (1, Some (b \<noteq> 0))"
  by (simp add: decode_bool_def Let_def)

lemma exact_fit_accepted:
  assumes "store_ok env block st version es" "list_all node_ok nodes"
    "12 + length (image_bytes (updated nodes es)) = mmconfig_partition_size st"
  shows "mmconfig_check_usage env nodes st
    = Some ((MMCONFIG_OK, Some (mmconfig_partition_size st, 0)), st)"
proof -
  have "mmconfig_partition_size st < 4294967296" using assms(1) by (simp add: store_ok_def Let_def)
  then show ?thesis
    using compute_new_checksum_ok [OF assms(1,2)] assms(3)
    by (simp add: mmconfig_check_usage_def init_done [OF store_ok_mutex [OF assms(1)]] sub32_ge s32_small)
qed

lemma empty_number_is_zero: "mmconfig_str_to_uint [] = Some 0" "mmconfig_str_to_int [45] = Some 0"
  by (simp_all add: mmconfig_str_to_uint_def mmconfig_str_to_int_def is_hex_str_def sub32_def u32_def
      s32_small)

end
