(* ===== verification/Ies.thy ===== *)
theory Ies
  imports Prelude
begin

section \<open>Information elements\<close>

text \<open>
  Management frames carry a sequence of elements: an identifier, a length and that many bytes. This theory models
  the buffer frames are built in (\<open>morselib/src/common/consbuf.c\<close>) and the search for an element
  (\<open>umac/ies/ies_common.c\<close>, \<open>ies_common.h\<close>, \<open>ssid.h\<close>, \<open>aid_request.c\<close>) with the reachable address
  element (\<open>reachable_address.c\<close>). Bytes are natural numbers below 256; a pointer into a buffer is its offset. A read outside
  the elements a function was given is \<open>None\<close>.
\<close>

subsection \<open>Construction buffers\<close>

text \<open>\<open>cb_buf\<close> is \<open>None\<close> for the null buffer, with which a construction only counts the bytes it needs.\<close>

record consbuf =
  cb_buf :: "nat list option"
  cb_buf_size :: nat
  cb_offset :: nat

definition consbuf_reinit :: "nat list \<Rightarrow> nat \<Rightarrow> consbuf" where
  "consbuf_reinit buf buf_size = \<lparr>cb_buf = Some buf, cb_buf_size = buf_size, cb_offset = 0\<rparr>"

definition consbuf_append :: "nat list \<Rightarrow> consbuf \<Rightarrow> consbuf option" where
  "consbuf_append data cbuf = do {
     cbuf \<leftarrow>
       (case cb_buf cbuf of
          None \<Rightarrow> Some cbuf
        | Some mem \<Rightarrow> do {
            ensure (length data \<le> sub32 (cb_buf_size cbuf) (cb_offset cbuf));
            mem \<leftarrow> mem_write mem (cb_offset cbuf) data;
            Some (cbuf\<lparr>cb_buf := Some mem\<rparr>)
          });
     Some (cbuf\<lparr>cb_offset := u32 (cb_offset cbuf + length data)\<rparr>)
   }"

definition consbuf_append_be16 :: "nat \<Rightarrow> consbuf \<Rightarrow> consbuf option" where
  "consbuf_append_be16 data cbuf = do {
     cbuf \<leftarrow>
       (case cb_buf cbuf of
          None \<Rightarrow> Some cbuf
        | Some mem \<Rightarrow> do {
            ensure (2 \<le> sub32 (cb_buf_size cbuf) (cb_offset cbuf));
            mem \<leftarrow> store mem (cb_offset cbuf) (drop_bit 8 data);
            mem \<leftarrow> store mem (cb_offset cbuf + 1) (and data 0xff);
            Some (cbuf\<lparr>cb_buf := Some mem\<rparr>)
          });
     Some (cbuf\<lparr>cb_offset := u32 (cb_offset cbuf + 2)\<rparr>)
   }"

definition consbuf_reserve :: "nat \<Rightarrow> consbuf \<Rightarrow> (nat option \<times> consbuf) option" where
  "consbuf_reserve len cbuf = do {
     ret \<leftarrow>
       (case cb_buf cbuf of
          None \<Rightarrow> Some None
        | Some mem \<Rightarrow> do {
            ensure (len \<le> sub32 (cb_buf_size cbuf) (cb_offset cbuf));
            Some (Some (cb_offset cbuf))
          });
     Some (ret, cbuf\<lparr>cb_offset := u32 (cb_offset cbuf + len)\<rparr>)
   }"

text \<open>Stores through a pointer that \<open>consbuf_reserve\<close> returned.\<close>

definition poke :: "nat \<Rightarrow> nat \<Rightarrow> consbuf \<Rightarrow> consbuf option" where
  "poke p v cbuf = do {
     mem \<leftarrow> cb_buf cbuf;
     mem \<leftarrow> store mem p v;
     Some (cbuf\<lparr>cb_buf := Some mem\<rparr>)
   }"

definition poke_bytes :: "nat \<Rightarrow> nat list \<Rightarrow> consbuf \<Rightarrow> consbuf option" where
  "poke_bytes p data cbuf = do {
     mem \<leftarrow> cb_buf cbuf;
     mem \<leftarrow> mem_write mem p data;
     Some (cbuf\<lparr>cb_buf := Some mem\<rparr>)
   }"

subsection \<open>Searching elements\<close>

datatype ie_result = IE_FOUND | IE_NOT_FOUND | IES_INVALID | IE_WRONG_LEN

definition ie_len_at :: "nat list \<Rightarrow> nat \<Rightarrow> nat option" where
  "ie_len_at ies p = fetch ies (p + 1)"

definition ie_valid :: "nat list \<Rightarrow> nat \<Rightarrow> bool option" where
  "ie_valid ies p =
     (if p + 2 \<le> length ies then do { len \<leftarrow> ie_len_at ies p; Some (p + 2 + len \<le> length ies) }
      else Some False)"

text \<open>The loop of the two searches: it stops at the end, at an element that does not fit, or at one that \<open>test\<close> accepts.\<close>

function ie_scan :: "nat list \<Rightarrow> (nat \<Rightarrow> bool option) \<Rightarrow> nat \<Rightarrow> (nat \<times> ie_result) option" where
  "ie_scan ies test p =
     (if p < length ies then
        case ie_valid ies p of
          None \<Rightarrow> None
        | Some valid \<Rightarrow>
            if \<not> valid then Some (p, IES_INVALID)
            else
              (case test p of
                 None \<Rightarrow> None
               | Some hit \<Rightarrow>
                   if hit then Some (p, IE_FOUND)
                   else
                     (case ie_len_at ies p of
                        None \<Rightarrow> None
                      | Some len \<Rightarrow> ie_scan ies test (p + 2 + len)))
      else Some (p, IE_NOT_FOUND))"
  by pat_completeness auto
termination by (relation "measure (\<lambda>(ies, test, p). length ies - p)") auto

text \<open>The result is the element found, if any, and what is stored through \<open>result\<close>.\<close>

definition ie_find_and_validate_length ::
  "nat list \<Rightarrow> nat \<Rightarrow> nat \<Rightarrow> (nat option \<times> ie_result) option" where
  "ie_find_and_validate_length ies ie_id expected_length = do {
     (p, res) \<leftarrow> ie_scan ies (\<lambda>p. do { i \<leftarrow> fetch ies p; Some (i = ie_id) }) 0;
     wrong_len \<leftarrow> (if expected_length \<noteq> 0 then do { len \<leftarrow> ie_len_at ies p; Some (expected_length \<noteq> len) }
                  else Some False);
     let res = (if wrong_len then IE_WRONG_LEN else res);
     Some (if res = IE_FOUND then Some p else None, res)
   }"

definition ie_find :: "nat list \<Rightarrow> nat \<Rightarrow> (nat option \<times> ie_result) option" where
  "ie_find ies ie_id = ie_find_and_validate_length ies ie_id 0"

abbreviation (input) DOT11_IE_SSID :: nat where "DOT11_IE_SSID \<equiv> 0"
abbreviation (input) DOT11_IE_TIM :: nat where "DOT11_IE_TIM \<equiv> 5"
abbreviation (input) DOT11_IE_AID_REQUEST :: nat where "DOT11_IE_AID_REQUEST \<equiv> 210"
abbreviation (input) DOT11_IE_VENDOR_SPECIFIC :: nat where "DOT11_IE_VENDOR_SPECIFIC \<equiv> 221"
abbreviation (input) DOT11_IE_REACHABLE_ADDRESS :: nat where "DOT11_IE_REACHABLE_ADDRESS \<equiv> 225"

definition ie_vendor_specific_find :: "nat list \<Rightarrow> nat list \<Rightarrow> (nat option \<times> ie_result) option" where
  "ie_vendor_specific_find ies vendor_id = do {
     (p, res) \<leftarrow> ie_scan ies
       (\<lambda>p. do {
          i \<leftarrow> fetch ies p;
          len \<leftarrow> ie_len_at ies p;
          if i = DOT11_IE_VENDOR_SPECIFIC \<and> length vendor_id \<le> len
          then do { info \<leftarrow> mem_read ies (p + 2) (length vendor_id); Some (info = vendor_id) }
          else Some False
        }) 0;
     Some (if res = IE_FOUND then Some p else None, res)
   }"

subsection \<open>Building elements\<close>

definition ie_build_hdr :: "nat \<Rightarrow> nat \<Rightarrow> consbuf \<Rightarrow> consbuf option" where
  "ie_build_hdr element_id len cbuf = do {
     (hdr, cbuf) \<leftarrow> consbuf_reserve 2 cbuf;
     case hdr of
       None \<Rightarrow> Some cbuf
     | Some p \<Rightarrow> do { cbuf \<leftarrow> poke p element_id cbuf; poke (p + 1) len cbuf }
   }"

definition ie_ssid_find :: "nat list \<Rightarrow> nat option option" where
  "ie_ssid_find ies = do { (p, _) \<leftarrow> ie_find ies DOT11_IE_SSID; Some p }"

abbreviation (input) DOT11_SSID_MAXLEN :: nat where "DOT11_SSID_MAXLEN \<equiv> 32"

definition ie_ssid_build :: "nat list \<Rightarrow> consbuf \<Rightarrow> consbuf option" where
  "ie_ssid_build ssid cbuf = do {
     ensure (length ssid \<le> DOT11_SSID_MAXLEN);
     cbuf \<leftarrow> ie_build_hdr DOT11_IE_SSID (length ssid) cbuf;
     consbuf_append ssid cbuf
   }"

definition ie_aid_request_build :: "consbuf \<Rightarrow> consbuf option" where
  "ie_aid_request_build cbuf = do {
     (ie, cbuf) \<leftarrow> consbuf_reserve 3 cbuf;
     case ie of
       None \<Rightarrow> Some cbuf
     | Some p \<Rightarrow> do {
         cbuf \<leftarrow> poke p DOT11_IE_AID_REQUEST cbuf;
         cbuf \<leftarrow> poke (p + 1) 1 cbuf;
         poke (p + 2) 0 cbuf
       }
   }"


subsection \<open>Reachable addresses\<close>

abbreviation (input) IE_REACHABLE_ADDRESS_FIXED_LEN :: nat where "IE_REACHABLE_ADDRESS_FIXED_LEN \<equiv> 7"
abbreviation (input) IE_REACHABLE_ADDRESS_SUBFIELD_LEN :: nat where "IE_REACHABLE_ADDRESS_SUBFIELD_LEN \<equiv> 7"
abbreviation (input) IE_REACHABLE_ADDRESS_FLAG_ADD_REMOVE :: nat where "IE_REACHABLE_ADDRESS_FLAG_ADD_REMOVE \<equiv> 1"
abbreviation (input) IE_REACHABLE_ADDRESS_FLAG_RELAY_CAPABLE :: nat where "IE_REACHABLE_ADDRESS_FLAG_RELAY_CAPABLE \<equiv> 2"

datatype reachable_address_update_type = REACHABLE_ADDRESS_REMOVE | REACHABLE_ADDRESS_ADD

text \<open>The element at \<open>p\<close>: its initiator is at \<open>p + 2\<close>, its address count at \<open>p + 8\<close> and its subfields, a byte of flags and
  an address each, from \<open>p + 9\<close> on.\<close>

definition ie_reachable_address_length_valid :: "nat list \<Rightarrow> nat \<Rightarrow> bool option" where
  "ie_reachable_address_length_valid ies p = do {
     len \<leftarrow> ie_len_at ies p;
     if len < IE_REACHABLE_ADDRESS_FIXED_LEN then Some False
     else do {
       address_count \<leftarrow> fetch ies (p + 8);
       Some (IE_REACHABLE_ADDRESS_FIXED_LEN + address_count * IE_REACHABLE_ADDRESS_SUBFIELD_LEN = len)
     }
   }"

definition ie_reachable_address_find :: "nat list \<Rightarrow> (nat option \<times> ie_result) option" where
  "ie_reachable_address_find ies = do {
     (ie, result) \<leftarrow> ie_find ies DOT11_IE_REACHABLE_ADDRESS;
     case ie of
       None \<Rightarrow> Some (None, result)
     | Some p \<Rightarrow> do {
         valid \<leftarrow> ie_reachable_address_length_valid ies p;
         Some (if valid then (Some p, IE_FOUND) else (None, IE_WRONG_LEN))
       }
   }"

definition ie_reachable_address_parse :: "nat list \<Rightarrow> nat option \<Rightarrow> (nat \<times> nat) option option" where
  "ie_reachable_address_parse ies raw_ie =
     (case raw_ie of
        None \<Rightarrow> Some None
      | Some p \<Rightarrow> do {
          valid \<leftarrow> ie_reachable_address_length_valid ies p;
          if \<not> valid then Some None
          else do { address_count \<leftarrow> fetch ies (p + 8); Some (Some (p + 2, address_count)) }
        })"

definition ie_reachable_address_get_update ::
  "nat list \<Rightarrow> nat option \<Rightarrow> nat \<Rightarrow> (reachable_address_update_type \<times> bool \<times> nat) option option" where
  "ie_reachable_address_get_update ies raw_ie index =
     (case raw_ie of
        None \<Rightarrow> Some None
      | Some p \<Rightarrow> do {
          valid \<leftarrow> ie_reachable_address_length_valid ies p;
          address_count \<leftarrow> (if valid then fetch ies (p + 8) else Some 0);
          if \<not> valid \<or> address_count \<le> index then Some None
          else do {
            let subfield = p + 9 + index * IE_REACHABLE_ADDRESS_SUBFIELD_LEN;
            flags \<leftarrow> fetch ies subfield;
            let update_type = (if and flags IE_REACHABLE_ADDRESS_FLAG_ADD_REMOVE \<noteq> 0 then REACHABLE_ADDRESS_ADD
                               else REACHABLE_ADDRESS_REMOVE);
            let relay_capable = (and flags IE_REACHABLE_ADDRESS_FLAG_RELAY_CAPABLE \<noteq> 0);
            Some (Some (update_type, relay_capable, subfield + 1))
          }
        })"

definition ie_reachable_address_build_single ::
  "nat list \<Rightarrow> reachable_address_update_type \<Rightarrow> bool \<Rightarrow> nat list \<Rightarrow> consbuf \<Rightarrow> (bool \<times> consbuf) option" where
  "ie_reachable_address_build_single initiator_mac update_type relay_capable mac cbuf = do {
     let total_len = IE_REACHABLE_ADDRESS_FIXED_LEN + IE_REACHABLE_ADDRESS_SUBFIELD_LEN;
     let reserve_len = 9 + IE_REACHABLE_ADDRESS_SUBFIELD_LEN;
     if cb_buf cbuf = None then Some (False, cbuf)
     else if cb_buf_size cbuf < cb_offset cbuf \<or> cb_buf_size cbuf - cb_offset cbuf < reserve_len then Some (False, cbuf)
     else do {
       (ie, cbuf) \<leftarrow> consbuf_reserve reserve_len cbuf;
       case ie of
         None \<Rightarrow> Some (False, cbuf)
       | Some p \<Rightarrow> do {
           let flags = (if update_type = REACHABLE_ADDRESS_ADD then or 0 IE_REACHABLE_ADDRESS_FLAG_ADD_REMOVE else 0);
           let flags = (if relay_capable then or flags IE_REACHABLE_ADDRESS_FLAG_RELAY_CAPABLE else flags);
           cbuf \<leftarrow> poke p DOT11_IE_REACHABLE_ADDRESS cbuf;
           cbuf \<leftarrow> poke (p + 1) (u8 total_len) cbuf;
           cbuf \<leftarrow> poke_bytes (p + 2) initiator_mac cbuf;
           cbuf \<leftarrow> poke (p + 8) 1 cbuf;
           cbuf \<leftarrow> poke (p + 9) flags cbuf;
           cbuf \<leftarrow> poke_bytes (p + 10) mac cbuf;
           Some (True, cbuf)
         }
     }
   }"

subsection \<open>Elements as a list\<close>

text \<open>A sequence of elements, each an identifier and its contents, and its encoding. What cannot be an element, with
  which the bytes may end, is \<open>broken\<close>; every byte sequence is an encoding followed by such a rest.\<close>

type_synonym element = "nat \<times> nat list"

definition encode_ie :: "element \<Rightarrow> nat list" where
  "encode_ie e = fst e # length (snd e) # snd e"

definition encode_ies :: "element list \<Rightarrow> nat list" where
  "encode_ies es = concat (List.map encode_ie es)"

definition broken :: "nat list \<Rightarrow> bool" where
  "broken rest \<longleftrightarrow> length rest < 2 \<or> length rest < 2 + rest ! 1"

lemma encode_ies_simps [simp]:
  "encode_ies [] = []" "encode_ies (e # es) = fst e # length (snd e) # snd e @ encode_ies es"
  "encode_ies (es @ es') = encode_ies es @ encode_ies es'"
  by (simp_all add: encode_ies_def encode_ie_def)

lemma elements_exist: "\<exists>es rest. ies = encode_ies es @ rest \<and> broken rest"
proof (induction "length ies" arbitrary: ies rule: less_induct)
  case less
  show ?case
  proof (cases "broken ies")
    case True
    then show ?thesis by (intro exI [of _ "[]"] exI [of _ ies]) simp
  next
    case False
    then have len: "2 \<le> length ies" "2 + ies ! 1 \<le> length ies" by (simp_all add: broken_def)
    then obtain i n tl where ies: "ies = i # n # tl" by (metis (no_types) Suc_le_length_iff numeral_2_eq_2)
    then have n: "n \<le> length tl" using len by simp
    have "\<exists>es rest. drop n tl = encode_ies es @ rest \<and> broken rest" by (rule less) (simp add: ies)
    then obtain es rest where "drop n tl = encode_ies es @ rest" "broken rest" by blast
    then have "ies = encode_ies ((i, take n tl) # es) @ rest" using ies n
      by simp (metis append_take_drop_id append.assoc)
    then show ?thesis using \<open>broken rest\<close> by blast
  qed
qed

declare ie_scan.simps [simp del]

lemma ie_valid_element: "ie_valid (pre @ encode_ies (e # es) @ rest) (length pre) = Some True"
  by (simp add: ie_valid_def ie_len_at_def fetch_def nth_append)

lemma ie_len_element: "ie_len_at (pre @ encode_ies (e # es) @ rest) (length pre) = Some (length (snd e))"
  by (simp add: ie_len_at_def fetch_def nth_append)

lemma ie_valid_broken: "broken rest \<Longrightarrow> ie_valid (pre @ rest) (length pre) = Some False"
  by (auto simp: ie_valid_def ie_len_at_def fetch_def nth_append broken_def)

lemma ie_scan_elements:
  assumes "\<And>as e bs. es = as @ e # bs \<Longrightarrow> test (length (pre @ encode_ies as)) = Some (Q e)" "broken rest"
  shows "ie_scan (pre @ encode_ies es @ rest) test (length pre) =
    (if \<exists>e\<in>set es. Q e then Some (length pre + length (encode_ies (takeWhile (\<lambda>e. \<not> Q e) es)), IE_FOUND)
     else Some (length pre + length (encode_ies es), if rest = [] then IE_NOT_FOUND else IES_INVALID))"
  using assms(1)
proof (induction es arbitrary: pre)
  case Nil
  then show ?case using ie_valid_broken [OF assms(2), of pre] by (simp add: ie_scan.simps [of "pre @ rest"])
next
  case (Cons e es)
  let ?ies = "pre @ encode_ies (e # es) @ rest"
  have hit: "test (length pre) = Some (Q e)" using Cons.prems [of "[]" e es] by simp
  show ?case
  proof (cases "Q e")
    case True
    then show ?thesis using hit ie_valid_element [of pre e es rest] by (subst ie_scan.simps) simp
  next
    case False
    let ?pre = "pre @ encode_ie e"
    have split: "?ies = ?pre @ encode_ies es @ rest" by (simp add: encode_ie_def)
    have "ie_scan ?ies test (length pre) = ie_scan ?ies test (length pre + 2 + length (snd e))"
      using False hit ie_valid_element [of pre e es rest] ie_len_element [of pre e es rest]
      by (subst ie_scan.simps) (simp add: encode_ies_def encode_ie_def)
    also have "length pre + 2 + length (snd e) = length ?pre" by (simp add: encode_ie_def)
    also have "ie_scan ?ies test (length ?pre) = ie_scan (?pre @ encode_ies es @ rest) test (length ?pre)"
      by (simp only: split)
    also have "... = (if \<exists>e\<in>set es. Q e then Some (length ?pre + length (encode_ies (takeWhile (\<lambda>e. \<not> Q e) es)), IE_FOUND)
     else Some (length ?pre + length (encode_ies es), if rest = [] then IE_NOT_FOUND else IES_INVALID))"
    proof (rule Cons.IH)
      fix as e' bs
      assume "es = as @ e' # bs"
      then show "test (length (?pre @ encode_ies as)) = Some (Q e')"
        using Cons.prems [of "e # as" e' bs] by (simp add: encode_ie_def)
    qed
    finally show ?thesis using False by (simp add: encode_ie_def)
  qed
qed

lemma fetch_element: "fetch (pre @ encode_ies (e # es) @ rest) (length pre) = Some (fst e)"
  by (simp add: fetch_def nth_append)

lemma scan_for_id:
  assumes "broken rest"
  shows "ie_scan (encode_ies es @ rest) (\<lambda>p. do { i \<leftarrow> fetch (encode_ies es @ rest) p; Some (i = ie_id) }) 0 =
    (if ie_id \<in> fst ` set es then Some (length (encode_ies (takeWhile (\<lambda>e. fst e \<noteq> ie_id) es)), IE_FOUND)
     else Some (length (encode_ies es), if rest = [] then IE_NOT_FOUND else IES_INVALID))"
proof -
  let ?test = "\<lambda>p. do { i \<leftarrow> fetch (encode_ies es @ rest) p; Some (i = ie_id) }"
  have "?test (length ([] @ encode_ies as)) = Some (fst e = ie_id)"
    if "es = as @ e # bs" for as e bs
    using that fetch_element [of "encode_ies as" e bs rest] by simp
  from ie_scan_elements [of es ?test "[]" "\<lambda>e. fst e = ie_id", OF this assms]
  show ?thesis by (auto simp: image_iff)
qed

lemma ie_find_elements:
  assumes "broken rest"
  shows "ie_find (encode_ies es @ rest) ie_id =
    Some (if ie_id \<in> fst ` set es then (Some (length (encode_ies (takeWhile (\<lambda>e. fst e \<noteq> ie_id) es))), IE_FOUND)
      else (None, if rest = [] then IE_NOT_FOUND else IES_INVALID))"
  by (simp add: ie_find_def ie_find_and_validate_length_def scan_for_id [OF assms])

definition has_vendor_id :: "nat list \<Rightarrow> element \<Rightarrow> bool" where
  "has_vendor_id vendor_id e \<longleftrightarrow> fst e = DOT11_IE_VENDOR_SPECIFIC \<and> take (length vendor_id) (snd e) = vendor_id"

lemma ie_vendor_specific_find_elements:
  assumes "broken rest"
  shows "ie_vendor_specific_find (encode_ies es @ rest) vid =
    Some (if \<exists>e\<in>set es. has_vendor_id vid e
      then (Some (length (encode_ies (takeWhile (\<lambda>e. \<not> has_vendor_id vid e) es))), IE_FOUND)
      else (None, if rest = [] then IE_NOT_FOUND else IES_INVALID))"
proof -
  let ?ies = "encode_ies es @ rest"
  let ?test = "\<lambda>p. do {
          i \<leftarrow> fetch ?ies p;
          len \<leftarrow> ie_len_at ?ies p;
          if i = DOT11_IE_VENDOR_SPECIFIC \<and> length vid \<le> len
          then do { info \<leftarrow> mem_read ?ies (p + 2) (length vid); Some (info = vid) }
          else Some False
        }"
  have "?test (length ([] @ encode_ies as)) = Some (has_vendor_id vid e)" if es: "es = as @ e # bs" for as e bs
  proof -
    have "mem_read ?ies (length (encode_ies as) + 2) (length vid) = Some (take (length vid) (snd e))"
      if "length vid \<le> length (snd e)"
      using that es by (simp add: mem_read_def)
    moreover have "fetch ?ies (length (encode_ies as)) = Some (fst e)"
      "ie_len_at ?ies (length (encode_ies as)) = Some (length (snd e))"
      using fetch_element [of "encode_ies as" e bs rest] ie_len_element [of "encode_ies as" e bs rest] es by simp_all
    moreover have "length vid \<le> length (snd e)" if "take (length vid) (snd e) = vid"
      using that by (metis length_take min.cobounded1)
    ultimately show ?thesis by (auto simp: has_vendor_id_def)
  qed
  from ie_scan_elements [of es ?test "[]" "has_vendor_id vid", OF this assms]
  show ?thesis by (simp add: ie_vendor_specific_find_def)
qed

text \<open>The searches never read outside the elements they are given, and return the first element with the wanted
  identifier, or the first vendor specific element whose contents begin with the wanted bytes; without one they tell
  whether the elements are well formed to their end.\<close>

theorem ie_search_finds_first:
  "\<exists>es rest. ies = encode_ies es @ rest \<and> broken rest
    \<and> ie_find ies ie_id =
        Some (if ie_id \<in> fst ` set es then (Some (length (encode_ies (takeWhile (\<lambda>e. fst e \<noteq> ie_id) es))), IE_FOUND)
          else (None, if rest = [] then IE_NOT_FOUND else IES_INVALID))
    \<and> ie_vendor_specific_find ies vid =
        Some (if \<exists>e\<in>set es. has_vendor_id vid e
          then (Some (length (encode_ies (takeWhile (\<lambda>e. \<not> has_vendor_id vid e) es))), IE_FOUND)
          else (None, if rest = [] then IE_NOT_FOUND else IES_INVALID))"
proof -
  obtain es rest where "ies = encode_ies es @ rest" "broken rest" using elements_exist by blast
  then show ?thesis using ie_find_elements ie_vendor_specific_find_elements by blast
qed

text \<open>With a length to check, the search takes the first element with the identifier and compares its length. If there is
  none it still reads the length of what it stopped at: past the end of well-formed elements, where it has no
  result, and it reports a wrong length instead of a missing or malformed element, unless the bytes agree by chance.\<close>

theorem ie_length_check_reads_past_end:
  assumes "broken rest" "n \<noteq> 0"
  shows "ie_find_and_validate_length (encode_ies es @ rest) ie_id n =
    (if ie_id \<in> fst ` set es
     then Some (if length (snd (hd (dropWhile (\<lambda>e. fst e \<noteq> ie_id) es))) = n
        then (Some (length (encode_ies (takeWhile (\<lambda>e. fst e \<noteq> ie_id) es))), IE_FOUND) else (None, IE_WRONG_LEN))
     else if length rest < 2 then None
     else Some (None, if rest ! 1 = n then IES_INVALID else IE_WRONG_LEN))"
proof (cases "ie_id \<in> fst ` set es")
  case True
  then obtain e where "e \<in> set es" "fst e = ie_id" by auto
  then have "dropWhile (\<lambda>e. fst e \<noteq> ie_id) es \<noteq> []" by (auto simp: dropWhile_eq_Nil_conv)
  then obtain e bs where d: "dropWhile (\<lambda>e. fst e \<noteq> ie_id) es = e # bs" by (meson neq_Nil_conv)
  then have es: "encode_ies es = encode_ies (takeWhile (\<lambda>e. fst e \<noteq> ie_id) es) @ encode_ies (e # bs)"
    by (metis encode_ies_simps(3) takeWhile_dropWhile_id)
  have "ie_len_at (encode_ies es @ rest) (length (encode_ies (takeWhile (\<lambda>e. fst e \<noteq> ie_id) es))) = Some (length (snd e))"
    using ie_len_element [of "encode_ies (takeWhile (\<lambda>e. fst e \<noteq> ie_id) es)" e bs rest] es by simp
  then show ?thesis using True d assms(2)
    by (simp add: ie_find_and_validate_length_def scan_for_id [OF assms(1)])
next
  case False
  have "ie_len_at (encode_ies es @ rest) (length (encode_ies es)) = (if length rest < 2 then None else Some (rest ! 1))"
    by (simp add: ie_len_at_def fetch_def nth_append)
  then show ?thesis using False assms(2)
    by (auto simp: ie_find_and_validate_length_def scan_for_id [OF assms(1)])
qed

theorem ie_length_check_reads_past_end_witness:
  "ie_find_and_validate_length [0, 2, 97, 98] 76 16 = None \<and> ie_find_and_validate_length [0, 2, 97, 98] 0 2 = Some (Some 0, IE_FOUND)"
proof -
  have ies: "[0, 2, 97, 98] = encode_ies [(0, [97, 98])] @ []" and b: "broken []" by (simp_all add: broken_def)
  show ?thesis
    unfolding ies using ie_length_check_reads_past_end [OF b, of 16 "[(0, [97, 98])]" 76]
      ie_length_check_reads_past_end [OF b, of 2 "[(0, [97, 98])]" 0] by simp
qed

subsection \<open>Building and finding\<close>

text \<open>\<open>room n cbuf\<close>: the buffer takes \<open>n\<close> more bytes; \<open>written cbuf cbuf' bs\<close>: \<open>bs\<close> were appended and nothing else changed.\<close>

definition room :: "nat \<Rightarrow> consbuf \<Rightarrow> bool" where
  "room n cbuf \<longleftrightarrow> (\<exists>mem. cb_buf cbuf = Some mem \<and> cb_buf_size cbuf \<le> length mem)
     \<and> cb_offset cbuf + n \<le> cb_buf_size cbuf \<and> cb_buf_size cbuf < 4294967296"

definition written :: "consbuf \<Rightarrow> nat list \<Rightarrow> consbuf" where
  "written cbuf bs = cbuf\<lparr>cb_buf := map_option (\<lambda>mem. put_bytes mem (cb_offset cbuf) bs) (cb_buf cbuf),
     cb_offset := cb_offset cbuf + length bs\<rparr>"

lemma consbuf_append_room:
  assumes "room (length bs) cbuf"
  shows "consbuf_append bs cbuf = Some (written cbuf bs)"
  using assms by (auto simp: consbuf_append_def room_def written_def sub32_ge u32_id mem_write_def)

lemma consbuf_reserve_room:
  assumes "room n cbuf"
  shows "consbuf_reserve n cbuf = Some (Some (cb_offset cbuf), cbuf\<lparr>cb_offset := cb_offset cbuf + n\<rparr>)"
  using assms by (auto simp: consbuf_reserve_def room_def sub32_ge u32_id)

lemma put_bytes_append:
  "p + length as + length bs \<le> length mem \<Longrightarrow> put_bytes (put_bytes mem p as) (p + length as) bs = put_bytes mem p (as @ bs)"
  by (simp add: put_bytes_def add_ac)

lemma list_update_put: "p < length mem \<Longrightarrow> mem[p := v] = put_bytes mem p [v]"
  by (simp add: put_bytes_def upd_conv_take_nth_drop)

lemma written_append:
  assumes "room (length as + length bs) cbuf"
  shows "written (written cbuf as) bs = written cbuf (as @ bs)"
  using assms by (auto simp: written_def room_def put_bytes_append add.assoc)

lemma room_written: "room (length as + n) cbuf \<Longrightarrow> room n (written cbuf as)"
  by (auto simp: room_def written_def)

lemma written_bytes:
  assumes "room (length bs) cbuf" "cb_buf (written cbuf bs) = Some mem"
  shows "take (length bs) (drop (cb_offset cbuf) mem) = bs"
  using assms by (auto simp: room_def written_def drop_put_bytes)


text \<open>An element written member by member: \<open>filled cbuf n bs\<close> has reserved \<open>n\<close> bytes, of which the first are \<open>bs\<close>.\<close>

definition filled :: "consbuf \<Rightarrow> nat \<Rightarrow> nat list \<Rightarrow> consbuf" where
  "filled cbuf n bs = cbuf\<lparr>cb_buf := map_option (\<lambda>mem. put_bytes mem (cb_offset cbuf) bs) (cb_buf cbuf),
     cb_offset := cb_offset cbuf + n\<rparr>"

lemma filled_written: "filled cbuf (length bs) bs = written cbuf bs"
  by (simp add: filled_def written_def)

lemma reserve_filled:
  assumes "room n cbuf"
  shows "consbuf_reserve n cbuf = Some (Some (cb_offset cbuf), filled cbuf n [])"
  using consbuf_reserve_room [OF assms] assms by (cases cbuf) (auto simp: filled_def put_bytes_def room_def)

lemma poke_bytes_filled:
  assumes "room n cbuf" "k = length bs" "k + length data \<le> n"
  shows "poke_bytes (cb_offset cbuf + k) data (filled cbuf n bs) = Some (filled cbuf n (bs @ data))"
  using assms by (auto simp: poke_bytes_def filled_def room_def mem_write_def put_bytes_append)

lemma poke_filled:
  assumes "room n cbuf" "k = length bs" "k < n"
  shows "poke (cb_offset cbuf + k) v (filled cbuf n bs) = Some (filled cbuf n (bs @ [v]))"
proof -
  obtain mem where mem: "cb_buf cbuf = Some mem" "cb_offset cbuf + n \<le> length mem" using assms(1) by (auto simp: room_def)
  have "(put_bytes mem (cb_offset cbuf) bs)[cb_offset cbuf + k := v] = put_bytes mem (cb_offset cbuf) (bs @ [v])"
    using mem(2) assms(2,3) list_update_put [of "cb_offset cbuf + k" "put_bytes mem (cb_offset cbuf) bs" v]
    by (simp add: put_bytes_append)
  then show ?thesis using mem assms(2,3) by (simp add: poke_def filled_def)
qed

lemma ie_build_hdr_room:
  assumes "room 2 cbuf"
  shows "ie_build_hdr i len cbuf = Some (written cbuf [i, len])"
  using reserve_filled [OF assms] poke_filled [OF assms, of 0 "[]" i] poke_filled [OF assms, of 1 "[i]" len]
    filled_written [of cbuf "[i, len]"]
  by (simp add: ie_build_hdr_def numeral_2_eq_2)

lemma ie_ssid_build_room:
  assumes "room (2 + length ssid) cbuf" "length ssid \<le> DOT11_SSID_MAXLEN"
  shows "ie_ssid_build ssid cbuf = Some (written cbuf (encode_ie (DOT11_IE_SSID, ssid)))"
proof -
  have r: "room (length [0, length ssid] + length ssid) cbuf" using assms(1) by simp
  have "room 2 cbuf" using assms(1) by (auto simp: room_def)
  then show ?thesis
    using assms(2) consbuf_append_room [OF room_written [OF r]] written_append [OF r]
    by (simp add: ie_ssid_build_def ie_build_hdr_room encode_ie_def)
qed

definition reachable_flags :: "reachable_address_update_type \<Rightarrow> bool \<Rightarrow> nat" where
  "reachable_flags update_type relay_capable =
     (if update_type = REACHABLE_ADDRESS_ADD then 1 else 0) + (if relay_capable then 2 else 0)"

lemma reachable_build_room:
  assumes "room 16 cbuf" "length initiator = 6" "length mac = 6"
  shows "ie_reachable_address_build_single initiator ty relay mac cbuf
    = Some (True, written cbuf (encode_ie (DOT11_IE_REACHABLE_ADDRESS,
        initiator @ [1, reachable_flags ty relay] @ mac)))"
proof -
  have sz: "cb_buf cbuf \<noteq> None" "cb_offset cbuf \<le> cb_buf_size cbuf" "16 \<le> cb_buf_size cbuf - cb_offset cbuf"
    using assms(1) by (auto simp: room_def)
  have flags: "(if relay then or (if ty = REACHABLE_ADDRESS_ADD then or 0 1 else 0) 2
      else if ty = REACHABLE_ADDRESS_ADD then or 0 1 else 0) = reachable_flags ty relay"
    by (simp add: reachable_flags_def)
  let ?b = "[225, 14] @ initiator"
  have pokes: "poke (cb_offset cbuf + 0) 225 (filled cbuf 16 []) = Some (filled cbuf 16 ([] @ [225]))"
    "poke (cb_offset cbuf + 1) 14 (filled cbuf 16 [225]) = Some (filled cbuf 16 ([225] @ [14]))"
    "poke_bytes (cb_offset cbuf + 2) initiator (filled cbuf 16 [225, 14]) = Some (filled cbuf 16 ([225, 14] @ initiator))"
    "poke (cb_offset cbuf + 8) 1 (filled cbuf 16 ?b) = Some (filled cbuf 16 (?b @ [1]))"
    "poke (cb_offset cbuf + 9) f (filled cbuf 16 (?b @ [1])) = Some (filled cbuf 16 ((?b @ [1]) @ [f]))"
    "poke_bytes (cb_offset cbuf + 10) mac (filled cbuf 16 ((?b @ [1]) @ [f])) = Some (filled cbuf 16 (((?b @ [1]) @ [f]) @ mac))" for f
    by (rule poke_filled [OF assms(1)] poke_bytes_filled [OF assms(1)]; use assms(2,3) in simp)+
  have "filled cbuf 16 (((?b @ [1]) @ [f]) @ mac) = written cbuf (((?b @ [1]) @ [f]) @ mac)" for f
    using filled_written [of cbuf "((?b @ [1]) @ [f]) @ mac"] assms(2,3) by simp
  then show ?thesis using sz pokes assms(2,3) reserve_filled [OF assms(1)]
    by (simp add: ie_reachable_address_build_single_def Let_def flags u8_def encode_ie_def)
qed

lemma reachable_element:
  fixes ty :: reachable_address_update_type and relay :: bool
  assumes "length initiator = 6" "length mac = 6" "225 \<notin> fst ` set es"
  defines "body \<equiv> initiator @ [1, reachable_flags ty relay] @ mac"
  defines "ies \<equiv> encode_ies es @ encode_ie (225, body)" and "p \<equiv> length (encode_ies es)"
  shows "ie_reachable_address_find ies = Some (Some p, IE_FOUND)"
    "ie_reachable_address_parse ies (Some p) = Some (Some (p + 2, 1))"
    "mem_read ies (p + 2) 6 = Some initiator"
    "ie_reachable_address_get_update ies (Some p) 0 = Some (Some (ty, relay, p + 10))"
    "mem_read ies (p + 10) 6 = Some mac"
proof -
  have ies: "ies = encode_ies es @ 225 # 14 # initiator @ 1 # reachable_flags ty relay # mac"
    using assms(1,2) by (simp add: ies_def body_def encode_ie_def)
  have at: "fetch ies (p + 1) = Some 14" "fetch ies (p + 8) = Some 1" "fetch ies (p + 9) = Some (reachable_flags ty relay)"
    using assms(1,2) by (simp_all add: ies p_def fetch_def nth_append nth_Cons')
  have valid: "ie_reachable_address_length_valid ies p = Some True"
    using at by (simp add: ie_reachable_address_length_valid_def ie_len_at_def)
  have "ies = encode_ies (es @ [(225, body)]) @ []" by (simp add: ies_def encode_ie_def)
  moreover have "takeWhile (\<lambda>e. fst e \<noteq> 225) (es @ [(225, body)]) = es"
    using assms(3) by (auto simp: takeWhile_append2 image_iff)
  moreover have "broken []" by (simp add: broken_def)
  ultimately have "ie_find ies 225 = Some (Some p, IE_FOUND)"
    using ie_find_elements [of "[]" "es @ [(225, body)]" 225] by (simp add: p_def)
  then show "ie_reachable_address_find ies = Some (Some p, IE_FOUND)"
    using valid by (simp add: ie_reachable_address_find_def)
  show "ie_reachable_address_parse ies (Some p) = Some (Some (p + 2, 1))"
    using valid at by (simp add: ie_reachable_address_parse_def)
  show "mem_read ies (p + 2) 6 = Some initiator" "mem_read ies (p + 10) 6 = Some mac"
    using assms(1,2) by (simp_all add: mem_read_def ies p_def)
  have "and (reachable_flags ty relay) 1 \<noteq> 0 \<longleftrightarrow> ty = REACHABLE_ADDRESS_ADD" "and (reachable_flags ty relay) 2 \<noteq> 0 \<longleftrightarrow> relay"
  proof -
    have "and (1 :: nat) 1 = 1" "and (3 :: nat) 1 = 1" "and (2 :: nat) 1 = 0" "and (1 :: nat) 2 = 0" "and (3 :: nat) 2 = 2"
      "and (2 :: nat) 2 = 2" by simp_all
    then show "and (reachable_flags ty relay) 1 \<noteq> 0 \<longleftrightarrow> ty = REACHABLE_ADDRESS_ADD" "and (reachable_flags ty relay) 2 \<noteq> 0 \<longleftrightarrow> relay"
      unfolding reachable_flags_def by (cases ty; cases relay; simp add: numeral_eq_Suc)+
  qed
  then show "ie_reachable_address_get_update ies (Some p) 0 = Some (Some (ty, relay, p + 10))"
    using valid at by (cases ty) (simp_all add: ie_reachable_address_get_update_def Let_def)
qed

text \<open>A reachable address element built in a buffer with room for it is found behind other elements and yields the
  initiator, the address, whether it is added or removed and whether it is a relay; without room nothing is built.\<close>

theorem reachable_address_round_trip:
  assumes "cb_buf cbuf = Some mem" "cb_buf_size cbuf \<le> length mem" "cb_buf_size cbuf < 4294967296"
    "cb_offset cbuf \<le> cb_buf_size cbuf" "length initiator = 6" "length mac = 6" "225 \<notin> fst ` set es"
  shows "if cb_buf_size cbuf - cb_offset cbuf < 16
    then ie_reachable_address_build_single initiator ty relay mac cbuf = Some (False, cbuf)
    else \<exists>cbuf' mem'. ie_reachable_address_build_single initiator ty relay mac cbuf = Some (True, cbuf')
      \<and> cb_offset cbuf' = cb_offset cbuf + 16 \<and> cb_buf cbuf' = Some mem'
      \<and> (let ies = encode_ies es @ take 16 (drop (cb_offset cbuf) mem'); p = length (encode_ies es) in
          ie_reachable_address_find ies = Some (Some p, IE_FOUND)
        \<and> (\<exists>i. ie_reachable_address_parse ies (Some p) = Some (Some (i, 1)) \<and> mem_read ies i 6 = Some initiator)
        \<and> (\<exists>m. ie_reachable_address_get_update ies (Some p) 0 = Some (Some (ty, relay, m)) \<and> mem_read ies m 6 = Some mac))"
proof (cases "cb_buf_size cbuf - cb_offset cbuf < 16")
  case True
  then show ?thesis using assms(1) by (simp add: ie_reachable_address_build_single_def Let_def)
next
  case False
  then have room: "room 16 cbuf" using assms(1-4) by (simp add: room_def)
  let ?bs = "encode_ie (225, initiator @ [1, reachable_flags ty relay] @ mac)"
  have len: "length ?bs = 16" using assms(5,6) by (simp add: encode_ie_def)
  obtain mem' where mem': "cb_buf (written cbuf ?bs) = Some mem'" using assms(1) by (simp add: written_def)
  have "take 16 (drop (cb_offset cbuf) mem') = ?bs" using written_bytes [of ?bs cbuf mem'] room mem' len by simp
  moreover have "cb_offset (written cbuf ?bs) = cb_offset cbuf + 16" using len by (simp add: written_def)
  ultimately show ?thesis
    using False mem' reachable_build_room [OF room assms(5,6), of ty relay] reachable_element [OF assms(5-7), of ty relay]
    by (auto simp: Let_def)
qed

theorem reachable_address_round_trip_witness:
  "\<exists>cbuf' mem'. ie_reachable_address_build_single [1, 2, 3, 4, 5, 6] REACHABLE_ADDRESS_ADD True [7, 8, 9, 10, 11, 12]
      (consbuf_reinit (replicate 20 0) 20) = Some (True, cbuf') \<and> cb_buf cbuf' = Some mem'
    \<and> ie_reachable_address_find (encode_ies [(0, [97])] @ take 16 mem') = Some (Some 3, IE_FOUND)"
proof -
  let ?c = "consbuf_reinit (replicate 20 0) 20"
  have p: "cb_buf ?c = Some (replicate 20 0)" "cb_buf_size ?c \<le> length (replicate 20 (0 :: nat))" "cb_buf_size ?c < 4294967296"
    "cb_offset ?c \<le> cb_buf_size ?c" "length [1, 2, 3, 4, 5, 6 :: nat] = 6" "length [7, 8, 9, 10, 11, 12 :: nat] = 6"
    "225 \<notin> fst ` set [(0, [97]) :: element]" "\<not> cb_buf_size ?c - cb_offset ?c < 16" "cb_offset ?c = 0"
    by (simp_all add: consbuf_reinit_def)
  from reachable_address_round_trip [OF p(1-7), of REACHABLE_ADDRESS_ADD True] p(8,9)
  show ?thesis by (auto simp: Let_def)
qed

end
