(* ===== verification/S1g_Tim.thy ===== *)
theory S1g_Tim
  imports Ies
begin

section \<open>Traffic indication\<close>

text \<open>
  \<open>morselib/src/umac/ies/s1g_tim.c\<close> and \<open>umac/ap/traffic_bitmap.h\<close>: the access point keeps a bit for each station
  with buffered traffic and announces the bits in an S1G TIM element, in blocks of up to 64 stations; a
  station looks for its association identifier (AID) in the element, whose blocks come in four encodings. The element
  is read at its partial virtual bitmap, a byte list; reading outside it is \<open>None\<close>.
\<close>

subsection \<open>The traffic bitmap\<close>

abbreviation (input) MAX_SUPPORTED_AID :: nat where "MAX_SUPPORTED_AID \<equiv> 64"
abbreviation (input) S1G_BITMAP_SUBBLOCKS :: nat where "S1G_BITMAP_SUBBLOCKS \<equiv> 8"

definition aid_is_valid :: "nat \<Rightarrow> bool" where
  "aid_is_valid aid \<longleftrightarrow> aid \<noteq> 0 \<and> aid < MAX_SUPPORTED_AID"

definition ap_traffic_bitmap_set_aid_bit :: "nat list \<Rightarrow> nat \<Rightarrow> nat list option" where
  "ap_traffic_bitmap_set_aid_bit bitmap aid = do {
     ensure (aid_is_valid aid);
     let aid_octet = u8 (drop_bit 3 aid);
     let aid_bit = u8 (push_bit (and aid 0x07) 1);
     b \<leftarrow> fetch bitmap aid_octet;
     store bitmap aid_octet (or b aid_bit)
   }"

definition ap_traffic_bitmap_clear_aid_bit :: "nat list \<Rightarrow> nat \<Rightarrow> nat list option" where
  "ap_traffic_bitmap_clear_aid_bit bitmap aid = do {
     ensure (aid_is_valid aid);
     let aid_octet = u8 (drop_bit 3 aid);
     let aid_bit = u8 (push_bit (and aid 0x07) 1);
     b \<leftarrow> fetch bitmap aid_octet;
     store bitmap aid_octet (and b (255 - aid_bit))
   }"

definition ap_traffic_bitmap_get_aid_bit :: "nat list \<Rightarrow> nat \<Rightarrow> bool option" where
  "ap_traffic_bitmap_get_aid_bit bitmap aid = do {
     ensure (aid_is_valid aid);
     let aid_octet = u8 (drop_bit 3 aid);
     let aid_bit = u8 (push_bit (and aid 0x07) 1);
     b \<leftarrow> fetch bitmap aid_octet;
     Some (and b aid_bit \<noteq> 0)
   }"

subsection \<open>Fields\<close>

text \<open>The macros that set a field of a byte.\<close>

definition set_field :: "nat \<Rightarrow> nat \<Rightarrow> nat \<Rightarrow> nat \<Rightarrow> nat" where
  "set_field m s v x = or (and x (255 - m)) (and (push_bit s v) m)"

abbreviation (input) aid_page_index :: "nat \<Rightarrow> nat" where "aid_page_index \<equiv> get_field 0x1800 11"
abbreviation (input) aid_block_offset :: "nat \<Rightarrow> nat" where "aid_block_offset \<equiv> get_field 0x7c0 6"
abbreviation (input) aid_block_mode_m :: "nat \<Rightarrow> nat" where "aid_block_mode_m \<equiv> get_field 0x38 3"
abbreviation (input) aid_block_mode_q :: "nat \<Rightarrow> nat" where "aid_block_mode_q \<equiv> get_field 0x07 0"
abbreviation (input) aid_single_mode_aid :: "nat \<Rightarrow> nat" where "aid_single_mode_aid \<equiv> get_field 0x3f 0"

definition dot11_tim_block_hdr_get_block_encoding :: "nat \<Rightarrow> nat" where
  "dot11_tim_block_hdr_get_block_encoding = get_field 0x03 0"

definition dot11_tim_block_hdr_get_inverse_bitmap :: "nat \<Rightarrow> nat" where
  "dot11_tim_block_hdr_get_inverse_bitmap = get_field 0x04 2"

definition dot11_tim_block_hdr_get_block_offset :: "nat \<Rightarrow> nat" where
  "dot11_tim_block_hdr_get_block_offset = get_field 0xf8 3"

definition dot11_tim_ade_get_ewl :: "nat \<Rightarrow> nat" where
  "dot11_tim_ade_get_ewl = get_field 0x07 0"

definition dot11_tim_ade_get_length :: "nat \<Rightarrow> nat" where
  "dot11_tim_ade_get_length = get_field 0xf8 3"

definition dot11_tim_bitmap_ctrl_page_slice_num :: "nat \<Rightarrow> nat" where
  "dot11_tim_bitmap_ctrl_page_slice_num = get_field 0x3e 1"

definition dot11_tim_bitmap_ctrl_page_index :: "nat \<Rightarrow> nat" where
  "dot11_tim_bitmap_ctrl_page_index = get_field 0xc0 6"

subsection \<open>Looking for an AID\<close>

text \<open>\<open>block\<close> is an offset in the partial virtual bitmap.\<close>

record tim_parse_state =
  page_index :: nat
  page_slice :: nat
  block_encoding_mode :: nat
  inverse_bitmap :: bool
  block_offset :: nat
  block :: nat
  data_length_remaining :: int

definition consume :: "nat \<Rightarrow> tim_parse_state \<Rightarrow> tim_parse_state" where
  "consume n st = st\<lparr>block := block st + n, data_length_remaining := data_length_remaining st - int n\<rparr>"

definition popcount8 :: "nat \<Rightarrow> nat" where
  "popcount8 b = length (filter (bit b) [0..<8])"

fun advance_subblock :: "nat \<Rightarrow> nat \<Rightarrow> nat \<Rightarrow> nat" where
  "advance_subblock 0 block_bitmap subblock = subblock"
| "advance_subblock (Suc pos_m) block_bitmap subblock =
     advance_subblock pos_m (drop_bit 1 block_bitmap) (if and block_bitmap 1 \<noteq> 0 then subblock + 1 else subblock)"

definition ie_s1g_tim_block_bitmap_has_aid ::
  "nat list \<Rightarrow> tim_parse_state \<Rightarrow> nat \<Rightarrow> (bool \<times> tim_parse_state) option" where
  "ie_s1g_tim_block_bitmap_has_aid pvb st aid = do {
     block_bitmap \<leftarrow> fetch pvb (block st);
     let subblock_count = popcount8 block_bitmap;
     let subblock = block st + 1;
     let st = consume (1 + subblock_count) st;
     if data_length_remaining st < 0 then Some (False, st)
     else if aid_page_index aid \<noteq> page_index st then Some (False, st)
     else if aid_block_offset aid \<noteq> block_offset st then Some (False, st)
     else do {
       let pos_m = aid_block_mode_m aid;
       if and block_bitmap (push_bit pos_m 1) = 0 then Some (inverse_bitmap st, st)
       else do {
         let subblock = advance_subblock pos_m block_bitmap subblock;
         let pos_q = aid_block_mode_q aid;
         sub \<leftarrow> fetch pvb subblock;
         let result = (and sub (push_bit pos_q 1) \<noteq> 0);
         Some (if inverse_bitmap st then \<not> result else result, st)
       }
     }
   }"

definition ie_s1g_tim_single_aid_has_aid ::
  "nat list \<Rightarrow> tim_parse_state \<Rightarrow> nat \<Rightarrow> (bool \<times> tim_parse_state) option" where
  "ie_s1g_tim_single_aid_has_aid pvb st aid = do {
     single_aid \<leftarrow> fetch pvb (block st);
     let st = consume 1 st;
     if data_length_remaining st < 0 then Some (False, st)
     else if aid_block_offset aid \<noteq> block_offset st then Some (False, st)
     else if aid_page_index aid \<noteq> page_index st then Some (False, st)
     else do {
       let result = (aid_single_mode_aid aid = single_aid);
       Some (if inverse_bitmap st then \<not> result else result, st)
     }
   }"

definition fast_round_up :: "nat \<Rightarrow> nat \<Rightarrow> nat" where
  "fast_round_up x m = nat (or (int x - 1) (int m - 1) + 1)"

abbreviation (input) DOT11_TIM_BLOCK_SIZE :: nat where "DOT11_TIM_BLOCK_SIZE \<equiv> 64"

definition ie_s1g_tim_olb_has_aid ::
  "nat list \<Rightarrow> tim_parse_state \<Rightarrow> nat \<Rightarrow> (bool \<times> tim_parse_state) option" where
  "ie_s1g_tim_olb_has_aid pvb st aid = do {
     len \<leftarrow> fetch pvb (block st);
     let subblocks = block st + 1;
     let st = consume (1 + len) st;
     if data_length_remaining st < 0 then Some (False, st)
     else if aid_page_index aid \<noteq> page_index st then Some (False, st)
     else do {
       let num_blocks = fast_round_up (len * 8) DOT11_TIM_BLOCK_SIZE div DOT11_TIM_BLOCK_SIZE;
       let aid_block_num = aid_block_offset aid;
       if aid_block_num < block_offset st \<or> aid_block_num \<ge> block_offset st + num_blocks then Some (False, st)
       else do {
         let pos_m = (aid_block_num - block_offset st) * 8 + aid_block_mode_m aid;
         if pos_m \<ge> len then Some (inverse_bitmap st, st)
         else do {
           let pos_q = aid_block_mode_q aid;
           sub \<leftarrow> fetch pvb (subblocks + pos_m);
           if and sub (push_bit pos_q 1) = 0 then Some (inverse_bitmap st, st)
           else Some (\<not> inverse_bitmap st, st)
         }
       }
     }
   }"

text \<open>The loop over the differences: the result is whether the AID was met, and the last AID reached.\<close>

function ade_scan ::
  "nat list \<Rightarrow> nat \<Rightarrow> nat \<Rightarrow> nat \<Rightarrow> nat \<Rightarrow> nat \<Rightarrow> nat \<Rightarrow> nat \<Rightarrow> (bool \<times> nat) option" where
  "ade_scan pvb delta_aids word_length delta_aid_mask len aid offset current_aid =
     (if word_length \<noteq> 0 \<and> offset + word_length \<le> len * 8 then do {
        let octet = offset div 8;
        let shift = and offset 0x7;
        let bits_remaining = int word_length + int shift - 8;
        d \<leftarrow> fetch pvb (delta_aids + octet);
        let delta_aid = u8 (drop_bit shift d);
        delta_aid \<leftarrow> (if bits_remaining > 0
                     then do { d \<leftarrow> fetch pvb (delta_aids + octet); Some (u8 (or delta_aid (push_bit (8 - shift) d))) }
                     else Some delta_aid);
        let delta_aid = and delta_aid delta_aid_mask;
        if delta_aid = 0 then Some (False, current_aid)
        else do {
          let current_aid = u16 (current_aid + delta_aid);
          if current_aid = aid then Some (True, current_aid)
          else ade_scan pvb delta_aids word_length delta_aid_mask len aid (offset + word_length) current_aid
        }
      }
      else Some (False, current_aid))"
  by pat_completeness auto
termination
  by (relation "measure (\<lambda>(pvb, delta_aids, word_length, delta_aid_mask, len, aid, offset, current_aid). len * 8 - offset)") auto

definition ie_s1g_tim_ade_has_aid ::
  "nat list \<Rightarrow> tim_parse_state \<Rightarrow> nat \<Rightarrow> (bool \<times> tim_parse_state) option" where
  "ie_s1g_tim_ade_has_aid pvb st aid = do {
     let delta_aids = block st + 1;
     let start_aid = u16 (page_index st * 2048 + block_offset st * 64);
     b \<leftarrow> fetch pvb (block st);
     let word_length = dot11_tim_ade_get_ewl b + 1;
     let delta_aid_mask = u8 (push_bit word_length 1 - 1);
     let len = dot11_tim_ade_get_length b;
     let st = consume (1 + len) st;
     if data_length_remaining st < 0 then Some (False, st)
     else do {
       (found, current_aid) \<leftarrow>
         (if len \<noteq> 0 then do {
            d \<leftarrow> fetch pvb delta_aids;
            let current_aid = u16 (start_aid + and d delta_aid_mask);
            if current_aid = aid then Some (True, current_aid)
            else ade_scan pvb delta_aids word_length delta_aid_mask len aid word_length current_aid
          }
          else Some (False, start_aid));
       if found then Some (\<not> inverse_bitmap st, st)
       else if inverse_bitmap st then do {
         let end_aid = u16 (fast_round_up (current_aid + 1) DOT11_TIM_BLOCK_SIZE);
         Some (start_aid \<le> aid \<and> aid < end_aid, st)
       }
       else Some (False, st)
     }
   }"

partial_function (option) tim_blocks :: "nat list \<Rightarrow> nat \<Rightarrow> tim_parse_state \<Rightarrow> bool option" where
  "tim_blocks pvb aid st =
     (if data_length_remaining st > 1 then do {
        hdr \<leftarrow> fetch pvb (block st);
        let st = st\<lparr>block_encoding_mode := dot11_tim_block_hdr_get_block_encoding hdr,
                    inverse_bitmap := dot11_tim_block_hdr_get_inverse_bitmap hdr \<noteq> 0,
                    block_offset := dot11_tim_block_hdr_get_block_offset hdr\<rparr>;
        let st = consume 1 st;
        (found, st) \<leftarrow>
          (if block_encoding_mode st = 0 then ie_s1g_tim_block_bitmap_has_aid pvb st aid
           else if block_encoding_mode st = 1 then ie_s1g_tim_single_aid_has_aid pvb st aid
           else if block_encoding_mode st = 2 then ie_s1g_tim_olb_has_aid pvb st aid
           else if block_encoding_mode st = 3 then ie_s1g_tim_ade_has_aid pvb st aid
           else None);
        if found then Some True else tim_blocks pvb aid st
      }
      else Some False)"

text \<open>The element at \<open>p\<close> in the elements of a frame: after its header come the DTIM count and period, the bitmap control
  and the partial virtual bitmap.\<close>

definition ie_s1g_tim_find :: "nat list \<Rightarrow> nat option option" where
  "ie_s1g_tim_find ies = do {
     (tim, _) \<leftarrow> ie_find ies DOT11_IE_TIM;
     case tim of
       None \<Rightarrow> Some None
     | Some p \<Rightarrow> do { len \<leftarrow> ie_len_at ies p; Some (if len \<ge> 3 then Some p else None) }
   }"

definition ie_s1g_tim_has_aid :: "nat list \<Rightarrow> nat \<Rightarrow> nat \<Rightarrow> bool option" where
  "ie_s1g_tim_has_aid ies p aid = do {
     len \<leftarrow> ie_len_at ies p;
     let block_info_len = int len - 3;
     if block_info_len \<le> 0 then Some False
     else do {
       bitmap_control \<leftarrow> fetch ies (p + 4);
       pvb \<leftarrow> mem_read ies (p + 5) (len - 3);
       let st = \<lparr>page_index = dot11_tim_bitmap_ctrl_page_index bitmap_control,
                 page_slice = dot11_tim_bitmap_ctrl_page_slice_num bitmap_control,
                 block_encoding_mode = 0, inverse_bitmap = False, block_offset = 0,
                 block = 0, data_length_remaining = block_info_len\<rparr>;
       if page_slice st > 0 \<and> page_slice st \<noteq> 31 then Some False else tim_blocks pvb aid st
     }
   }"

subsection \<open>Building the element\<close>

abbreviation (input) MAX_SUBBLOCKS_IN_BLOCK :: nat where "MAX_SUBBLOCKS_IN_BLOCK \<equiv> 8"
abbreviation (input) MAX_ENCODED_BLOCKS :: nat where "MAX_ENCODED_BLOCKS \<equiv> 1"
abbreviation (input) BASE_BLOCK_LEN :: nat where "BASE_BLOCK_LEN \<equiv> 2"
abbreviation (input) MAX_SUPPORTED_PVB_LEN :: nat where "MAX_SUPPORTED_PVB_LEN \<equiv> 10"
abbreviation (input) MAX_PVB_LEN :: nat where "MAX_PVB_LEN \<equiv> 251"

definition add_subblock ::
  "nat list \<Rightarrow> nat \<Rightarrow> nat \<Rightarrow> nat \<Rightarrow> nat list \<times> nat \<Rightarrow> (nat list \<times> nat) option" where
  "add_subblock traffic_bitmap blk pvb_len subblock = (\<lambda>(pvb, block_size). do {
     let sub_block_idx = blk * MAX_SUBBLOCKS_IN_BLOCK + subblock;
     if sub_block_idx \<ge> S1G_BITMAP_SUBBLOCKS then Some (pvb, block_size)
     else do {
       sub_block \<leftarrow> fetch traffic_bitmap sub_block_idx;
       if sub_block = 0 then Some (pvb, block_size)
       else do {
         let block_size = (if block_size = 0 then block_size + BASE_BLOCK_LEN else block_size);
         b \<leftarrow> fetch pvb (pvb_len + 1);
         pvb \<leftarrow> store pvb (pvb_len + 1) (u8 (or b (push_bit subblock 1)));
         pvb \<leftarrow> store pvb (pvb_len + block_size) sub_block;
         Some (pvb, block_size + 1)
       }
     }
   })"

definition add_block :: "nat list \<Rightarrow> nat \<Rightarrow> nat list \<times> nat \<Rightarrow> (nat list \<times> nat) option" where
  "add_block traffic_bitmap blk = (\<lambda>(pvb, pvb_len). do {
     (pvb, block_size) \<leftarrow> foldM (add_subblock traffic_bitmap blk pvb_len) [0..<MAX_SUBBLOCKS_IN_BLOCK] (pvb, 0);
     if block_size = 0 then Some (pvb, pvb_len)
     else do {
       c \<leftarrow> fetch pvb pvb_len;
       pvb \<leftarrow> store pvb pvb_len (set_field 0xf8 3 blk (set_field 0x03 0 0 c));
       Some (pvb, pvb_len + block_size)
     }
   })"

definition ie_s1g_tim_build ::
  "nat \<Rightarrow> nat \<Rightarrow> bool \<Rightarrow> nat list \<Rightarrow> consbuf \<Rightarrow> consbuf option" where
  "ie_s1g_tim_build dtim_count dtim_period traffic_indicator traffic_bitmap cbuf = do {
     b0 \<leftarrow> fetch traffic_bitmap 0;
     ensure (and b0 0x01 = 0);
     (p, cbuf) \<leftarrow> consbuf_reserve 0 cbuf;
     if p = None then do { (_, cbuf) \<leftarrow> consbuf_reserve (5 + MAX_PVB_LEN) cbuf; Some cbuf }
     else do {
       (pvb, pvb_len) \<leftarrow> foldM (add_block traffic_bitmap) [0..<MAX_ENCODED_BLOCKS]
         (replicate MAX_SUPPORTED_PVB_LEN 0, 0);
       ensure (pvb_len \<le> MAX_SUPPORTED_PVB_LEN);
       ensure (pvb_len \<le> 256 - 5);
       let tim_len = 2;
       let tim_len = (if traffic_indicator \<or> pvb_len > 0 then tim_len + (1 + pvb_len) else tim_len);
       (tim_ie, cbuf) \<leftarrow> consbuf_reserve (2 + tim_len) cbuf;
       case tim_ie of
         None \<Rightarrow> None
       | Some p \<Rightarrow> do {
           cbuf \<leftarrow> poke p DOT11_IE_TIM cbuf;
           cbuf \<leftarrow> poke (p + 1) (u8 tim_len) cbuf;
           cbuf \<leftarrow> poke (p + 2) dtim_count cbuf;
           cbuf \<leftarrow> poke (p + 3) dtim_period cbuf;
           if tim_len = 2 then Some cbuf
           else do {
             let bitmap_control = set_field 0x01 0 (of_bool traffic_indicator) 0;
             let bitmap_control = set_field 0x3e 1 0x1f bitmap_control;
             let bitmap_control = set_field 0xc0 6 0 bitmap_control;
             cbuf \<leftarrow> poke (p + 4) bitmap_control cbuf;
             if tim_len = 3 then Some cbuf
             else do {
               data \<leftarrow> mem_read pvb 0 pvb_len;
               poke_bytes (p + 5) data cbuf
             }
           }
         }
     }
   }"

subsection \<open>Fields as bits\<close>

lemma get_field_0x1800: "get_field 0x1800 11 x = x div 2048 mod 4"
  using get_field_div [of "0x1800" 2 11 x] by simp

lemma get_field_0x7c0: "get_field 0x7c0 6 x = x div 64 mod 32"
  using get_field_div [of "0x7c0" 5 6 x] by simp

lemma get_field_0x38: "get_field 0x38 3 x = x div 8 mod 8"
  using get_field_div [of "0x38" 3 3 x] by simp

lemma get_field_0x07: "get_field 0x07 0 x = x mod 8"
  using get_field_div [of "0x07" 3 0 x] by simp

lemma get_field_0x3f: "get_field 0x3f 0 x = x mod 64"
  using get_field_div [of "0x3f" 6 0 x] by simp

lemma get_field_0x03: "get_field 0x03 0 x = x mod 4"
  using get_field_div [of "0x03" 2 0 x] by simp

lemma get_field_0x04: "get_field 0x04 2 x = x div 4 mod 2"
  using get_field_div [of "0x04" 1 2 x] by simp

lemma get_field_0xf8: "get_field 0xf8 3 x = x div 8 mod 32"
  using get_field_div [of "0xf8" 5 3 x] by simp

lemma get_field_0x3e: "get_field 0x3e 1 x = x div 2 mod 32"
  using get_field_div [of "0x3e" 5 1 x] by simp

lemma get_field_0xc0: "get_field 0xc0 6 x = x div 64 mod 4"
  using get_field_div [of "0xc0" 2 6 x] by simp

lemmas get_fields = get_field_0x1800 get_field_0x7c0 get_field_0x38 get_field_0x07 get_field_0x3f get_field_0x03 get_field_0x04 get_field_0xf8 get_field_0x3e get_field_0xc0

lemma and_bit: "and x (2 ^ n) = 0 \<longleftrightarrow> \<not> bit x n" for x :: nat
  by (rule and_exp_eq_0_iff_not_bit)

lemma and_bit_pos: "0 < and x (2 ^ n) \<longleftrightarrow> bit x n" for x :: nat
  using and_bit [of x n] by (metis neq0_conv)

subsection \<open>The search stays inside the element and ends\<close>

lemma advance_subblock_count:
  "advance_subblock n b s = s + length (filter (bit b) [0..<n])"
proof (induction n arbitrary: b s)
  case 0
  then show ?case by simp
next
  case (Suc n)
  have "[0..<Suc n] = 0 # List.map Suc [0..<n]" by (simp add: map_Suc_upt upt_conv_Cons del: upt_Suc)
  moreover have "length (filter (bit b) (List.map Suc [0..<n])) = length (filter (bit (drop_bit 1 b)) [0..<n])"
    by (simp add: filter_map comp_def bit_simps)
  ultimately show ?case by (simp add: Suc bit_0 odd_iff_mod_2_eq_one and_one_eq)
qed

lemma count_less:
  assumes "P n" "n < k"
  shows "length (filter P [0..<n]) < length (filter P [0..<k])"
proof -
  have "[0..<k] = [0..<n] @ n # [Suc n..<k]" 
    using assms(2) upt_add_eq_append [of 0 n "k - n"] upt_conv_Cons [of n k] by simp
  then show ?thesis using assms(1) by simp
qed

text \<open>\<open>in_step pvb st\<close>: what remains to be read is what follows \<open>block\<close>.\<close>

definition in_step :: "nat list \<Rightarrow> tim_parse_state \<Rightarrow> bool" where
  "in_step pvb st \<longleftrightarrow> int (block st) + data_length_remaining st = int (length pvb)"

definition block_parsed :: "nat list \<Rightarrow> tim_parse_state \<Rightarrow> (bool \<times> tim_parse_state) option \<Rightarrow> bool" where
  "block_parsed pvb st r \<longleftrightarrow> (\<exists>found st'. r = Some (found, st') \<and> in_step pvb st'
     \<and> data_length_remaining st' < data_length_remaining st)"

lemma in_step_consume [simp]: "in_step pvb (consume n st) = in_step pvb st"
  by (simp add: in_step_def consume_def)

lemma remaining_consume [simp]: "data_length_remaining (consume n st) = data_length_remaining st - int n"
  "block (consume n st) = block st + n"
  by (simp_all add: consume_def)

lemma fetch_in_step: "in_step pvb st \<Longrightarrow> data_length_remaining st > int n \<Longrightarrow> \<exists>b. fetch pvb (block st + n) = Some b"
  by (simp add: in_step_def fetch_def)

lemma parsed_Some: "in_step pvb st \<Longrightarrow> 0 < n \<Longrightarrow> block_parsed pvb st (Some (b, consume n st))"
  by (simp add: block_parsed_def)

lemma parsed_bind:
  assumes "\<exists>b. m = Some b" "\<And>b. m = Some b \<Longrightarrow> block_parsed pvb st (f b)"
  shows "block_parsed pvb st (Option.bind m f)"
  using assms by auto

lemma block_bitmap_parsed:
  assumes "in_step pvb st" "data_length_remaining st > 0"
  shows "block_parsed pvb st (ie_s1g_tim_block_bitmap_has_aid pvb st aid)"
proof -
  let ?m = "aid_block_mode_m aid"
  have "\<exists>sub. fetch pvb (advance_subblock ?m b (Suc (block st))) = Some sub"
    if "bit b ?m" "\<not> data_length_remaining st < 1 + int (popcount8 b)" for b
  proof -
    have "?m < 8" by (simp add: get_fields)
    then have "length (filter (bit b) [0..<?m]) < popcount8 b" using count_less [of "bit b" ?m 8] that(1) by (simp add: popcount8_def)
    then show ?thesis using that(2) fetch_in_step [OF assms(1), of "1 + length (filter (bit b) [0..<?m])"]
      by (simp add: advance_subblock_count)
  qed
  moreover have "\<exists>b. fetch pvb (block st) = Some b" using fetch_in_step [OF assms(1), of 0] assms(2) by simp
  ultimately show ?thesis
    unfolding ie_s1g_tim_block_bitmap_has_aid_def Let_def
    by (auto simp: and_bit and_bit_pos intro!: parsed_bind parsed_Some assms(1))
qed

lemma single_aid_parsed:
  assumes "in_step pvb st" "data_length_remaining st > 0"
  shows "block_parsed pvb st (ie_s1g_tim_single_aid_has_aid pvb st aid)"
proof -
  have "\<exists>b. fetch pvb (block st) = Some b" using fetch_in_step [OF assms(1), of 0] assms(2) by simp
  then show ?thesis unfolding ie_s1g_tim_single_aid_has_aid_def Let_def
    by (auto intro!: parsed_bind parsed_Some assms(1))
qed

lemma olb_parsed:
  assumes "in_step pvb st" "data_length_remaining st > 0"
  shows "block_parsed pvb st (ie_s1g_tim_olb_has_aid pvb st aid)"
proof -
  have "\<exists>sub. fetch pvb (Suc (block st + n)) = Some sub" if "n < len" "\<not> data_length_remaining st < 1 + int len" for n len
    using that fetch_in_step [OF assms(1), of "1 + n"] by simp
  moreover have "\<exists>b. fetch pvb (block st) = Some b" using fetch_in_step [OF assms(1), of 0] assms(2) by simp
  ultimately show ?thesis unfolding ie_s1g_tim_olb_has_aid_def Let_def
    by (auto simp: not_le intro!: parsed_bind parsed_Some assms(1))
qed

declare ade_scan.simps [simp del]

lemma ade_scan_reads:
  assumes "\<And>n. n < len \<Longrightarrow> \<exists>b. fetch pvb (d + n) = Some b"
  shows "\<exists>r. ade_scan pvb d w m len aid offset current = Some r"
  using assms
proof (induction "len * 8 - offset" arbitrary: offset current rule: less_induct)
  case less
  show ?case
  proof (cases "w \<noteq> 0 \<and> offset + w \<le> len * 8")
    case False
    then show ?thesis by (subst ade_scan.simps) auto
  next
    case True
    then obtain b where b: "fetch pvb (d + offset div 8) = Some b"
      using less(2) [of "offset div 8"] by (auto simp: less_mult_imp_div_less)
    have "\<exists>found c. ade_scan pvb d w m len aid (offset + w) current' = Some (found, c)" for current'
    proof -
      have "len * 8 - (offset + w) < len * 8 - offset" using True by linarith
      then show ?thesis using less by (metis surj_pair)
    qed
    then show ?thesis using True b by (subst ade_scan.simps) (auto simp: Let_def)
  qed
qed

lemma if_parsed:
  "(c \<Longrightarrow> block_parsed pvb st a) \<Longrightarrow> (\<not> c \<Longrightarrow> block_parsed pvb st b) \<Longrightarrow> block_parsed pvb st (if c then a else b)"
  by simp

lemma found_parsed:
  assumes "\<exists>found c. m = Some (found, c)" "in_step pvb st" "0 < n"
  shows "block_parsed pvb st (do { (found, c) \<leftarrow> m;
    if found then Some (b, consume n st) else if b' then Some (f c, consume n st) else Some (b'', consume n st) })"
  using assms(1) parsed_Some [OF assms(2,3)] by auto

lemma ade_parsed:
  assumes "in_step pvb st" "data_length_remaining st > 0"
  shows "block_parsed pvb st (ie_s1g_tim_ade_has_aid pvb st aid)"
proof -
  have scan: "\<exists>found c. ade_scan pvb (Suc (block st)) w m len aid w' c' = Some (found, c)"
    if "\<not> data_length_remaining st < 1 + int len" for w m len w' c'
    using ade_scan_reads [of len pvb "Suc (block st)" w m aid w' c'] fetch_in_step [OF assms(1)] that
    by (metis add_Suc add_Suc_right linorder_not_less of_nat_Suc of_nat_less_iff order_less_le_trans surj_pair Suc_less_eq)
  have first: "\<exists>b. fetch pvb (Suc (block st)) = Some b" if "0 < len" "\<not> data_length_remaining st < 1 + int len" for len
    using that fetch_in_step [OF assms(1), of 1] by simp
  have get: "\<exists>b. fetch pvb (block st) = Some b" using fetch_in_step [OF assms(1), of 0] assms(2) by simp
  have first': "\<exists>found c. (if len \<noteq> 0 then do {
            d \<leftarrow> fetch pvb (block st + 1);
            let current_aid = f d;
            if current_aid = aid then Some (True, current_aid)
            else ade_scan pvb (block st + 1) w m len aid w current_aid
          } else Some (False, e)) = Some (found, c)" if "\<not> data_length_remaining st - int (1 + len) < 0" for len f w m e
    using first [of len] scan [of len] that by (fastforce simp: Let_def)
  show ?thesis unfolding ie_s1g_tim_ade_has_aid_def Let_def remaining_consume
    by (intro parsed_bind [OF get] if_parsed parsed_Some [OF assms(1)] found_parsed [OF first' assms(1), unfolded Let_def]) (simp_all del: of_nat_add)
qed

definition read_header :: "nat \<Rightarrow> tim_parse_state \<Rightarrow> tim_parse_state" where
  "read_header hdr st = consume 1 (st\<lparr>block_encoding_mode := hdr mod 4, inverse_bitmap := odd (hdr div 4),
     block_offset := hdr div 8 mod 32\<rparr>)"

lemma block_steps:
  "data_length_remaining st > 1 \<Longrightarrow> fetch pvb (block st) = Some hdr \<Longrightarrow>
     tim_blocks pvb aid st =
       do {
         (found, st) \<leftarrow>
           (if hdr mod 4 = 0 then ie_s1g_tim_block_bitmap_has_aid pvb (read_header hdr st) aid
            else if hdr mod 4 = 1 then ie_s1g_tim_single_aid_has_aid pvb (read_header hdr st) aid
            else if hdr mod 4 = 2 then ie_s1g_tim_olb_has_aid pvb (read_header hdr st) aid
            else ie_s1g_tim_ade_has_aid pvb (read_header hdr st) aid);
         if found then Some True else tim_blocks pvb aid st
       }"
  "\<not> data_length_remaining st > 1 \<Longrightarrow> tim_blocks pvb aid st = Some False"
proof -
  assume *: "data_length_remaining st > 1" "fetch pvb (block st) = Some hdr"
  have "hdr mod 4 < 4" by simp
  then have four: "hdr mod 4 \<noteq> 0 \<Longrightarrow> hdr mod 4 \<noteq> 1 \<Longrightarrow> hdr mod 4 \<noteq> 2 \<Longrightarrow> hdr mod 4 = 3" by linarith
  show "tim_blocks pvb aid st =
       do {
         (found, st) \<leftarrow>
           (if hdr mod 4 = 0 then ie_s1g_tim_block_bitmap_has_aid pvb (read_header hdr st) aid
            else if hdr mod 4 = 1 then ie_s1g_tim_single_aid_has_aid pvb (read_header hdr st) aid
            else if hdr mod 4 = 2 then ie_s1g_tim_olb_has_aid pvb (read_header hdr st) aid
            else ie_s1g_tim_ade_has_aid pvb (read_header hdr st) aid);
         if found then Some True else tim_blocks pvb aid st
       }"
    using * four by (subst tim_blocks.simps)
      (simp add: Let_def read_header_def consume_def dot11_tim_block_hdr_get_block_encoding_def get_fields
        dot11_tim_block_hdr_get_inverse_bitmap_def dot11_tim_block_hdr_get_block_offset_def odd_iff_mod_2_eq_one)
next
  assume "\<not> data_length_remaining st > 1"
  then show "tim_blocks pvb aid st = Some False" by (subst tim_blocks.simps) simp
qed

lemma tim_blocks_end:
  assumes "in_step pvb st"
  shows "\<exists>b. tim_blocks pvb aid st = Some b"
  using assms
proof (induction "nat (data_length_remaining st)" arbitrary: st rule: less_induct)
  case less
  show ?case
  proof (cases "data_length_remaining st > 1")
    case False
    then show ?thesis using block_steps(2) by blast
  next
    case True
    then obtain hdr where hdr: "fetch pvb (block st) = Some hdr" using fetch_in_step [OF less(2), of 0] by auto
    let ?st = "read_header hdr st"
    have st: "in_step pvb ?st" "data_length_remaining ?st > 0" "data_length_remaining ?st = data_length_remaining st - 1"
      using less(2) True by (simp_all add: read_header_def in_step_def)
    have rest: "\<exists>b. Option.bind r (\<lambda>(found, st). if found then Some True else tim_blocks pvb aid st) = Some b"
      if parsed: "block_parsed pvb ?st r" for r
    proof -
      obtain found st' where r: "r = Some (found, st')" "in_step pvb st'" "data_length_remaining st' < data_length_remaining ?st"
        using parsed unfolding block_parsed_def by blast
      then have "\<exists>b. tim_blocks pvb aid st' = Some b" using st less by simp
      then show ?thesis using r by (cases found) (auto intro: exI [of _ True])
    qed
    show ?thesis unfolding block_steps(1) [OF True hdr]
      by (intro rest if_parsed block_bitmap_parsed single_aid_parsed olb_parsed ade_parsed st(1,2))
  qed
qed

text \<open>The search of the contents of an element.\<close>

definition tim_search :: "nat list \<Rightarrow> nat \<Rightarrow> bool option" where
  "tim_search c aid =
     (if length c \<le> 3 then Some False
      else if c ! 2 div 2 mod 32 > 0 \<and> c ! 2 div 2 mod 32 \<noteq> 31 then Some False
      else tim_blocks (drop 3 c) aid
        \<lparr>page_index = c ! 2 div 64 mod 4, page_slice = c ! 2 div 2 mod 32, block_encoding_mode = 0, inverse_bitmap = False,
         block_offset = 0, block = 0, data_length_remaining = int (length c) - 3\<rparr>)"

lemma has_aid_element:
  "ie_s1g_tim_has_aid (pre @ encode_ies (e # es) @ rest) (length pre) aid = tim_search (snd e) aid"
proof -
  let ?ies = "pre @ encode_ies (e # es) @ rest"
  have "fetch ?ies (length pre + 4) = Some (snd e ! 2)" "mem_read ?ies (length pre + 5) (length (snd e) - 3) = Some (drop 3 (snd e))"
    if "3 < length (snd e)"
    using that by (simp_all add: fetch_def mem_read_def nth_append numeral_nat)
  moreover have "ie_len_at ?ies (length pre) = Some (length (snd e))" by (rule ie_len_element)
  ultimately show ?thesis
    by (auto simp: ie_s1g_tim_has_aid_def tim_search_def Let_def get_fields get_field_0x3e [unfolded One_nat_def]
      dot11_tim_bitmap_ctrl_page_slice_num_def dot11_tim_bitmap_ctrl_page_index_def simp del: encode_ies_simps)
qed

lemma tim_search_ends: "\<exists>b. tim_search c aid = Some b"
  unfolding tim_search_def by (auto intro!: tim_blocks_end simp: in_step_def)

lemma tim_found:
  assumes "broken rest"
  shows "ie_s1g_tim_find (encode_ies es @ rest) =
    Some (case dropWhile (\<lambda>e. fst e \<noteq> DOT11_IE_TIM) es of
        [] \<Rightarrow> None
      | e # _ \<Rightarrow> if length (snd e) \<ge> 3 then Some (length (encode_ies (takeWhile (\<lambda>e. fst e \<noteq> DOT11_IE_TIM) es))) else None)"
proof (cases "dropWhile (\<lambda>e. fst e \<noteq> DOT11_IE_TIM) es")
  case Nil
  then have "DOT11_IE_TIM \<notin> fst ` set es" by (auto simp: dropWhile_eq_Nil_conv)
  then show ?thesis unfolding Nil by (simp add: ie_s1g_tim_find_def ie_find_elements [OF assms])
next
  case (Cons e bs)
  define as where "as = takeWhile (\<lambda>e. fst e \<noteq> DOT11_IE_TIM) es"
  have es: "es = as @ e # bs"
    using takeWhile_dropWhile_id [of "\<lambda>e. fst e \<noteq> DOT11_IE_TIM" es] unfolding Cons as_def by (rule sym)
  have "fst e = DOT11_IE_TIM" using Cons by (simp add: dropWhile_eq_Cons_conv)
  then have mem: "DOT11_IE_TIM \<in> fst ` set es" unfolding es by simp
  have "ie_len_at (encode_ies es @ rest) (length (encode_ies as)) = Some (length (snd e))"
    using ie_len_element [of "encode_ies as" e bs rest] by (simp add: es)
  then show ?thesis unfolding Cons using mem by (simp add: ie_s1g_tim_find_def ie_find_elements [OF assms] as_def)
qed

text \<open>C17. The search for the element and the search of it for an association identifier always return: whatever the received
  bytes are, they read nothing outside the elements, the loop over the blocks ends, and no encoding is left out.\<close>

theorem tim_search_safe:
  "\<exists>r. ie_s1g_tim_find ies = Some r \<and> (case r of None \<Rightarrow> True | Some p \<Rightarrow> \<exists>b. ie_s1g_tim_has_aid ies p aid = Some b)"
proof -
  obtain es rest where ies: "ies = encode_ies es @ rest" "broken rest" using elements_exist by blast
  have "\<exists>b. ie_s1g_tim_has_aid ies (length (encode_ies as)) aid = Some b" if "es = as @ e # bs" for as e bs
    using has_aid_element [of "encode_ies as" e bs rest aid] tim_search_ends that ies(1) by simp
  then have "\<exists>b. ie_s1g_tim_has_aid ies (length (encode_ies (takeWhile (\<lambda>e. fst e \<noteq> DOT11_IE_TIM) es))) aid = Some b"
    if "dropWhile (\<lambda>e. fst e \<noteq> DOT11_IE_TIM) es = e # bs" for e bs
    using takeWhile_dropWhile_id [of "\<lambda>e. fst e \<noteq> DOT11_IE_TIM" es] that by metis
  then show ?thesis unfolding ies(1) tim_found [OF ies(2)] by (auto split: list.splits)
qed

subsection \<open>What the blocks announce\<close>

text \<open>Blocks as data, with the fields of an AID: page, block of 64, subblock of 8, and bit. A subblock that is absent from a
  block bitmap announces nothing.\<close>

datatype tim_block =
    Block_Bitmap bool nat "nat option list"
  | Single_AID bool nat nat
  | OLB bool nat "nat list"

definition block_header :: "nat \<Rightarrow> bool \<Rightarrow> nat \<Rightarrow> nat" where
  "block_header mode inverted off = mode + 4 * of_bool inverted + 8 * off"

definition present :: "'a option list \<Rightarrow> 'a list" where
  "present xs = List.map the (filter (\<lambda>x. x \<noteq> None) xs)"

definition subblock_bits :: "'a option list \<Rightarrow> nat" where
  "subblock_bits subs = horner_sum of_bool 2 (List.map (\<lambda>x. x \<noteq> None) subs)"

fun encode_block :: "tim_block \<Rightarrow> nat list" where
  "encode_block (Block_Bitmap inverted off subs) = block_header 0 inverted off # subblock_bits subs # present subs"
| "encode_block (Single_AID inverted off low) = [block_header 1 inverted off, low]"
| "encode_block (OLB inverted off subs) = block_header 2 inverted off # length subs # subs"

fun wf_block :: "tim_block \<Rightarrow> bool" where
  "wf_block (Block_Bitmap inverted off subs) \<longleftrightarrow> off < 32 \<and> length subs = 8"
| "wf_block (Single_AID inverted off low) \<longleftrightarrow> off < 32"
| "wf_block (OLB inverted off subs) \<longleftrightarrow> off < 32 \<and> length subs < 256"

fun announces :: "nat \<Rightarrow> nat \<Rightarrow> tim_block \<Rightarrow> bool" where
  "announces page aid (Block_Bitmap inverted off subs) \<longleftrightarrow> aid div 2048 mod 4 = page \<and> aid div 64 mod 32 = off
     \<and> (case subs ! (aid div 8 mod 8) of None \<Rightarrow> False | Some b \<Rightarrow> bit b (aid mod 8)) \<noteq> inverted"
| "announces page aid (Single_AID inverted off low) \<longleftrightarrow> aid div 2048 mod 4 = page \<and> aid div 64 mod 32 = off
     \<and> (aid mod 64 = low) \<noteq> inverted"
| "announces page aid (OLB inverted off subs) \<longleftrightarrow> aid div 2048 mod 4 = page \<and> off \<le> aid div 64 mod 32
     \<and> aid div 64 mod 32 < off + (length subs + 7) div 8
     \<and> (let m = (aid div 64 mod 32 - off) * 8 + aid div 8 mod 8 in m < length subs \<and> bit (subs ! m) (aid mod 8)) \<noteq> inverted"

lemma read_block_header:
  assumes "off < 32" "mode < 4"
  shows "block_header mode inverted off mod 4 = mode" "odd (block_header mode inverted off div 4) = inverted"
    "block_header mode inverted off div 8 mod 32 = off"
proof -
  show "block_header mode inverted off mod 4 = mode" using assms unfolding block_header_def by (cases inverted) presburger+
  show "odd (block_header mode inverted off div 4) = inverted" using assms unfolding block_header_def by (cases inverted; simp; presburger)
  show "block_header mode inverted off div 8 mod 32 = off" using assms unfolding block_header_def by (cases inverted; simp; presburger)
qed

lemma bit_subblock_bits: "bit (subblock_bits subs) n \<longleftrightarrow> n < length subs \<and> subs ! n \<noteq> None"
  unfolding subblock_bits_def bit_horner_sum_bit_iff by auto

lemma count_subblocks:
  assumes "n \<le> length subs"
  shows "length (filter (bit (subblock_bits subs)) [0..<n]) = length (present (take n subs))"
proof -
  have "filter (bit (subblock_bits subs)) [0..<n] = filter (\<lambda>i. subs ! i \<noteq> None) [0..<n]"
    using assms by (intro filter_cong) (auto simp: bit_subblock_bits)
  moreover have "take n subs = List.map (\<lambda>i. subs ! i) [0..<n]" using assms by (simp add: list_eq_iff_nth_eq)
  ultimately show ?thesis by (simp add: present_def filter_map comp_def)
qed

lemma nth_present:
  assumes "n < length subs" "subs ! n = Some b"
  shows "present subs ! length (present (take n subs)) = b"
proof -
  have "subs = take n subs @ Some b # drop (Suc n) subs" using assms id_take_nth_drop by metis
  then have "present subs = present (take n subs @ Some b # drop (Suc n) subs)" by simp
  also have "\<dots> = present (take n subs) @ b # present (drop (Suc n) subs)" by (simp add: present_def)
  finally show ?thesis by simp
qed

lemma present_take_less:
  assumes "n < length subs" "subs ! n \<noteq> None"
  shows "length (present (take n subs)) < length (present subs)"
  using count_less [of "bit (subblock_bits subs)" n "length subs"] assms count_subblocks [of n subs] count_subblocks [of "length subs" subs]
  by (simp add: bit_subblock_bits)

lemma popcount_subblocks: "length subs = 8 \<Longrightarrow> popcount8 (subblock_bits subs) = length (present subs)"
  using count_subblocks [of 8 subs] by (simp add: popcount8_def)

lemma block_bitmap_announces:
  assumes "pvb = pre @ subblock_bits subs # present subs @ post" "block st = length pre" "length subs = 8"
    "data_length_remaining st \<ge> int (1 + length (present subs))"
  shows "ie_s1g_tim_block_bitmap_has_aid pvb st aid =
    Some (announces (page_index st) aid (Block_Bitmap (inverse_bitmap st) (block_offset st) subs),
      consume (1 + length (present subs)) st)"
proof -
  let ?m = "aid div 8 mod 8"
  have hd: "fetch pvb (length pre) = Some (subblock_bits subs)" by (simp add: assms(1) fetch_def nth_append)
  have "fetch pvb (advance_subblock ?m (subblock_bits subs) (Suc (length pre))) = Some b" if "subs ! ?m = Some b" for b
    using present_take_less [of ?m subs] nth_present [of ?m subs b] that assms(3) count_subblocks [of ?m subs]
    by (simp add: assms(1) fetch_def nth_append advance_subblock_count)
  then show ?thesis
    using assms(2-4) hd unfolding ie_s1g_tim_block_bitmap_has_aid_def Let_def
    by (auto simp: popcount_subblocks get_fields and_bit and_bit_pos bit_subblock_bits consume_def split: option.splits)
qed

lemma or_low_bits: "or y (mask n) + 1 = (y div 2 ^ n + 1) * 2 ^ n" for y :: int
proof -
  have "or y (mask n) = or (push_bit n (drop_bit n y)) (mask n)" by (rule bit_eqI) (auto simp: bit_simps)
  also have "\<dots> = push_bit n (drop_bit n y) + mask n"
    by (rule disjunctive_add [symmetric]) (auto simp: bit_simps)
  finally show ?thesis by (simp add: push_bit_eq_mult drop_bit_eq_div mask_eq_exp_minus_1 algebra_simps)
qed

lemma round_up_blocks: "fast_round_up (len * 8) 64 div 64 = (len + 7) div 8"
proof -
  have "int (fast_round_up (len * 8) 64) = ((int len * 8 - 1) div 64 + 1) * 64"
    using or_low_bits [of "int len * 8 - 1" 6] by (simp add: fast_round_up_def mask_eq_exp_minus_1)
  then have "int (fast_round_up (len * 8) 64) div 64 = (int len * 8 - 1) div 64 + 1" by simp
  moreover have "(int len * 8 - 1) div 64 + 1 = (int len + 7) div 8"
  proof -
    have "(int len * 8 - 1) div 64 = (int len * 8 - 1) div 8 div 8" using zdiv_zmult2_eq [of 8 "int len * 8 - 1" 8] by simp
    moreover have "(int len * 8 - 1) div 8 = int len - 1" by presburger
    moreover have "(int len - 1) div 8 + 1 = (int len + 7) div 8" by presburger
    ultimately show ?thesis by simp
  qed
  ultimately have "int (fast_round_up (len * 8) 64 div 64) = int ((len + 7) div 8)" by (simp add: zdiv_int)
  then show ?thesis by (simp only: of_nat_eq_iff)
qed

lemma single_aid_announces:
  assumes "fetch pvb (block st) = Some low" "data_length_remaining st \<ge> 1"
  shows "ie_s1g_tim_single_aid_has_aid pvb st aid =
    Some (announces (page_index st) aid (Single_AID (inverse_bitmap st) (block_offset st) low), consume 1 st)"
  using assms unfolding ie_s1g_tim_single_aid_has_aid_def Let_def
  by (auto simp: get_fields consume_def)

lemma olb_announces:
  assumes "pvb = pre @ length subs # subs @ post" "block st = length pre" "data_length_remaining st \<ge> int (1 + length subs)"
  shows "ie_s1g_tim_olb_has_aid pvb st aid =
    Some (announces (page_index st) aid (OLB (inverse_bitmap st) (block_offset st) subs), consume (1 + length subs) st)"
proof -
  have "fetch pvb (length pre) = Some (length subs)" by (simp add: assms(1) fetch_def nth_append)
  moreover have "fetch pvb (Suc (length pre) + m) = Some (subs ! m)" if "m < length subs" for m
    using that by (simp add: assms(1) fetch_def nth_append)
  ultimately show ?thesis
    using assms(2,3) unfolding ie_s1g_tim_olb_has_aid_def Let_def
    by (auto simp: round_up_blocks get_fields and_bit and_bit_pos consume_def not_le)
qed

lemma even_block_header: "off < 32 \<Longrightarrow> mode < 4 \<Longrightarrow> even (block_header mode inverted off div 4) = (\<not> inverted)"
  using read_block_header(2) by blast

lemma length_encode_block: "2 \<le> length (encode_block b)"
  by (cases b) simp_all

lemma block_announces:
  assumes "wf_block b" "pvb = pre @ encode_block b @ post" "block st = length pre"
    "data_length_remaining st = int (length (encode_block b @ post))"
  shows "\<exists>st'. tim_blocks pvb aid st = (if announces (page_index st) aid b then Some True else tim_blocks pvb aid st')
    \<and> page_index st' = page_index st \<and> block st' = length (pre @ encode_block b) \<and> data_length_remaining st' = int (length post)"
proof -
  have more: "data_length_remaining st > 1" using assms(4) length_encode_block [of b] by simp
  have ends: "page_index (consume n (read_header h st)) = page_index st" "block (read_header h st) = Suc (block st)"
    "data_length_remaining (read_header h st) = data_length_remaining st - 1" for n h
    by (simp_all add: consume_def read_header_def)
  show ?thesis
  proof (cases b)
    case (Block_Bitmap inverted off subs)
    let ?h = "block_header 0 inverted off" and ?n = "length (present subs)"
    have "fetch pvb (block st) = Some ?h" using assms(2,3) Block_Bitmap by (simp add: fetch_def)
    moreover have "ie_s1g_tim_block_bitmap_has_aid pvb (read_header ?h st) aid =
      Some (announces (page_index st) aid b, consume (1 + ?n) (read_header ?h st))"
      using block_bitmap_announces [of pvb "pre @ [?h]" subs post "read_header ?h st" aid] assms Block_Bitmap
      by (simp add: read_header_def read_block_header even_block_header consume_def)
    ultimately show ?thesis using assms Block_Bitmap
      by (intro exI [of _ "consume (1 + ?n) (read_header ?h st)"]) (simp add: block_steps(1) [OF more] read_block_header ends) 
  next
    case (Single_AID inverted off low)
    let ?h = "block_header 1 inverted off"
    have "fetch pvb (block st) = Some ?h" using assms(2,3) Single_AID by (simp add: fetch_def)
    moreover have "ie_s1g_tim_single_aid_has_aid pvb (read_header ?h st) aid =
      Some (announces (page_index st) aid b, consume 1 (read_header ?h st))"
      using single_aid_announces [of pvb "read_header ?h st" low aid] assms Single_AID
      by (simp add: read_header_def read_block_header even_block_header consume_def fetch_def nth_append)
    ultimately show ?thesis using assms Single_AID
      by (intro exI [of _ "consume 1 (read_header ?h st)"]) (simp add: block_steps(1) [OF more] read_block_header ends)
  next
    case (OLB inverted off subs)
    let ?h = "block_header 2 inverted off"
    have "fetch pvb (block st) = Some ?h" using assms(2,3) OLB by (simp add: fetch_def)
    moreover have "ie_s1g_tim_olb_has_aid pvb (read_header ?h st) aid =
      Some (announces (page_index st) aid b, consume (1 + length subs) (read_header ?h st))"
      using olb_announces [of pvb "pre @ [?h]" subs post "read_header ?h st" aid] assms OLB
      by (simp add: read_header_def read_block_header even_block_header consume_def)
    ultimately show ?thesis using assms OLB
      by (intro exI [of _ "consume (1 + length subs) (read_header ?h st)"]) (simp add: block_steps(1) [OF more] read_block_header ends)
  qed
qed

lemma blocks_announce:
  assumes "list_all wf_block bs" "block st = length pre" "data_length_remaining st = int (length (concat (List.map encode_block bs)))"
  shows "tim_blocks (pre @ concat (List.map encode_block bs)) aid st = Some (list_ex (announces (page_index st) aid) bs)"
  using assms
proof (induction bs arbitrary: st pre)
  case Nil
  then show ?case by (simp add: block_steps(2))
next
  case (Cons b bs)
  let ?post = "concat (List.map encode_block bs)"
  obtain st' where st': "tim_blocks (pre @ encode_block b @ ?post) aid st =
      (if announces (page_index st) aid b then Some True else tim_blocks (pre @ encode_block b @ ?post) aid st')"
    "page_index st' = page_index st" "block st' = length (pre @ encode_block b)" "data_length_remaining st' = int (length ?post)"
    using block_announces [of b "pre @ encode_block b @ ?post" pre ?post st aid] Cons.prems by auto
  then show ?case using Cons.IH [of st' "pre @ encode_block b"] Cons.prems(1) by simp
qed

lemma tim_search_blocks:
  assumes "list_all wf_block bs" "bs \<noteq> []"
  shows "tim_search ([count, period, ctl] @ concat (List.map encode_block bs)) aid =
    Some (ctl div 2 mod 32 \<in> {0, 31} \<and> list_ex (announces (ctl div 64 mod 4) aid) bs)"
proof -
  let ?pvb = "concat (List.map encode_block bs)"
  obtain b bs' where "bs = b # bs'" using assms(2) by (cases bs) auto
  then have "length ?pvb > 0" using length_encode_block [of b] by (cases "encode_block b") auto
  then show ?thesis using blocks_announce [OF assms(1), of _ "[]" aid] by (auto simp: tim_search_def)
qed

text \<open>C16. The search finds an AID in an element of well-formed blocks if and only if a block announces it, for the block bitmap,
  single AID and OLB encodings in any sequence, inverted or not: the first TIM element counts, and a page slice other than
  none or all does not.\<close>

theorem tim_search_finds_announced:
  assumes "list_all wf_block bs" "bs \<noteq> []" "broken rest" "DOT11_IE_TIM \<notin> fst ` set es"
    "ies = encode_ies (es @ (DOT11_IE_TIM, [count, period, ctl] @ concat (List.map encode_block bs)) # es') @ rest"
  shows "ie_s1g_tim_find ies = Some (Some (length (encode_ies es)))
    \<and> ie_s1g_tim_has_aid ies (length (encode_ies es)) aid =
        Some (ctl div 2 mod 32 \<in> {0, 31} \<and> list_ex (announces (ctl div 64 mod 4) aid) bs)"
proof -
  let ?pvb = "concat (List.map encode_block bs)"
  let ?e = "(DOT11_IE_TIM, [count, period, ctl] @ ?pvb)"
  have "\<forall>e\<in>set es. fst e \<noteq> DOT11_IE_TIM" using assms(4) by force
  then have "dropWhile (\<lambda>e. fst e \<noteq> DOT11_IE_TIM) (es @ ?e # es') = ?e # es'"
    "takeWhile (\<lambda>e. fst e \<noteq> DOT11_IE_TIM) (es @ ?e # es') = es"
    by (simp_all add: dropWhile_append2 takeWhile_append2)
  then have find: "ie_s1g_tim_find ies = Some (Some (length (encode_ies es)))"
    unfolding assms(5) tim_found [OF assms(3)] by simp
  have search: "ie_s1g_tim_has_aid ies (length (encode_ies es)) aid = tim_search (snd ?e) aid"
    using has_aid_element [of "encode_ies es" ?e es' rest aid] by (simp add: assms(5))
  show ?thesis using find search tim_search_blocks [OF assms(1,2)] by simp
qed

theorem tim_search_finds_announced_witness:
  "ie_s1g_tim_has_aid [5, 12, 0, 1, 62, 0, 4, 2, 9, 9, 6, 2, 255, 1] 0 73 = Some True
    \<and> ie_s1g_tim_has_aid [5, 12, 0, 1, 62, 0, 4, 2, 9, 9, 6, 2, 255, 1] 0 7 = Some False"
proof -
  let ?bs = "[Block_Bitmap False 0 [None, None, Some 2, None, None, None, None, None], Single_AID False 1 9, OLB True 0 [255, 1]]"
  have bits: "[5, 12, 0, 1, 62, 0, 4, 2, 9, 9, 6, 2, 255, 1] =
      encode_ies ([] @ (DOT11_IE_TIM, [0, 1, 62] @ concat (List.map encode_block ?bs)) # []) @ []"
    by (simp add: block_header_def subblock_bits_def present_def)
  have wf: "list_all wf_block ?bs" "broken []" by (simp_all add: broken_def)
  have seven: "bit (255::nat) 7" "\<not> bit (2::nat) 7" by (simp_all add: bit_iff_odd)
  show ?thesis
    using tim_search_finds_announced [OF wf(1) _ wf(2) _ bits, of 73] tim_search_finds_announced [OF wf(1) _ wf(2) _ bits, of 7]
    by (simp add: seven bit_0)
qed

subsection \<open>Building and searching\<close>

text \<open>The subblocks of a traffic bitmap that are announced: those with a bit set.\<close>

definition announced_subblocks :: "nat list \<Rightarrow> nat option list" where
  "announced_subblocks bitmap = List.map (\<lambda>b. if b = 0 then None else Some b) bitmap"

definition pvb_of :: "nat option list \<Rightarrow> nat list" where
  "pvb_of subs = [0, subblock_bits subs] @ present subs @ replicate (8 - length (present subs)) 0"

definition size_of :: "nat option list \<Rightarrow> nat" where
  "size_of subs = (if present subs = [] then 0 else 2 + length (present subs))"

lemma u8_subblock_bits: "length subs \<le> 8 \<Longrightarrow> u8 (subblock_bits subs) = subblock_bits subs"
proof -
  assume len: "length subs \<le> 8"
  have "u8 (subblock_bits subs) = take_bit 8 (subblock_bits subs)" by (simp add: u8_def take_bit_eq_mod)
  also have "\<dots> = subblock_bits subs" using len by (intro bit_eqI) (auto simp: bit_simps bit_subblock_bits)
  finally show ?thesis .
qed

lemma subblock_bits_snoc:
  "subblock_bits (subs @ [None]) = subblock_bits subs"
  "subblock_bits (subs @ [Some b]) = or (subblock_bits subs) (2 ^ length subs)"
  by (rule bit_eqI; auto simp: bit_simps bit_subblock_bits nth_append)+

lemma length_present_le: "length (present subs) \<le> length subs"
  by (simp add: present_def)

lemma add_subblock_step:
  assumes "length bitmap = 8" "n < 8" "s = (pvb_of (take n (announced_subblocks bitmap)), size_of (take n (announced_subblocks bitmap)))"
  shows "add_subblock bitmap 0 0 n s =
    Some (pvb_of (take (Suc n) (announced_subblocks bitmap)), size_of (take (Suc n) (announced_subblocks bitmap)))"
proof -
  let ?subs = "announced_subblocks bitmap"
  define old where "old = take n ?subs"
  have len: "length old = n" "length (present old) \<le> n" using assms length_present_le [of old] by (simp_all add: old_def announced_subblocks_def)
  have take: "take (Suc n) ?subs = old @ [if bitmap ! n = 0 then None else Some (bitmap ! n)]"
    using assms by (simp add: old_def announced_subblocks_def take_Suc_conv_app_nth)
  have bits: "u8 (or (subblock_bits old) (2 ^ n)) = or (subblock_bits old) (2 ^ n)"
    using u8_subblock_bits [of "old @ [Some 0]"] subblock_bits_snoc(2) [of old 0] len assms(2) by simp
  show ?thesis
  proof (cases "bitmap ! n = 0")
    case True
    then show ?thesis using assms(1,2) unfolding assms(3) old_def [symmetric] take
      by (simp add: add_subblock_def pvb_of_def size_of_def subblock_bits_snoc present_def)
  next
    case False
    have "(present old @ replicate (8 - length (present old)) 0)[length (present old) := v] =
        present old @ v # replicate (7 - length (present old)) 0" for v :: nat
      using len assms(2) by (simp add: list_update_append Suc_diff_le numeral_nat)
    then show ?thesis using False assms(1,2) len bits unfolding assms(3) old_def [symmetric] take
      by (simp add: add_subblock_def pvb_of_def size_of_def subblock_bits_snoc present_def)
        (simp add: numeral_nat)
  qed
qed

lemma add_subblocks:
  assumes "length bitmap = 8" "n \<le> 8"
  shows "foldM (add_subblock bitmap 0 0) [0..<n] (replicate 10 0, 0) =
    Some (pvb_of (take n (announced_subblocks bitmap)), size_of (take n (announced_subblocks bitmap)))"
proof -
  have "(replicate 10 0, 0) = (pvb_of (take 0 (announced_subblocks bitmap)), size_of (take 0 (announced_subblocks bitmap)))"
    by (simp add: pvb_of_def size_of_def subblock_bits_def present_def numeral_nat)
  then obtain s where "foldM (add_subblock bitmap 0 0) [0..<n] (replicate 10 0, 0) = Some s"
    "s = (pvb_of (take n (announced_subblocks bitmap)), size_of (take n (announced_subblocks bitmap)))"
    using foldM_upt_invariant [where P = "\<lambda>n s. s = (pvb_of (take n (announced_subblocks bitmap)), size_of (take n (announced_subblocks bitmap)))"
        and f = "add_subblock bitmap 0 0" and n = n] add_subblock_step [OF assms(1)] assms(2)
    by (metis order_less_le_trans)
  then show ?thesis by simp
qed

text \<open>What the element of a bitmap holds.\<close>

definition tim_blocks_of :: "nat list \<Rightarrow> tim_block list" where
  "tim_blocks_of bitmap = (if present (announced_subblocks bitmap) = [] then [] else [Block_Bitmap False 0 (announced_subblocks bitmap)])"

definition tim_contents :: "nat \<Rightarrow> nat \<Rightarrow> bool \<Rightarrow> nat list \<Rightarrow> nat list" where
  "tim_contents dtim_count dtim_period traffic_indicator bitmap =
     (if traffic_indicator \<or> tim_blocks_of bitmap \<noteq> []
      then [dtim_count, dtim_period, of_bool traffic_indicator + 62] @ concat (List.map encode_block (tim_blocks_of bitmap))
      else [dtim_count, dtim_period])"

lemma announced_pvb:
  assumes "length bitmap = 8"
  shows "take (size_of (announced_subblocks bitmap)) (pvb_of (announced_subblocks bitmap)) =
    concat (List.map encode_block (tim_blocks_of bitmap))"
  by (simp add: size_of_def pvb_of_def tim_blocks_of_def block_header_def)

lemma add_blocks:
  assumes "length bitmap = 8"
  shows "foldM (add_block bitmap) [0..<MAX_ENCODED_BLOCKS] (replicate MAX_SUPPORTED_PVB_LEN 0, 0) =
    Some (pvb_of (announced_subblocks bitmap), size_of (announced_subblocks bitmap))"
proof -
  have "length (announced_subblocks bitmap) = 8" using assms by (simp add: announced_subblocks_def)
  then have "foldM (add_subblock bitmap 0 0) [0..<8] (replicate 10 0, 0) =
      Some (pvb_of (announced_subblocks bitmap), size_of (announced_subblocks bitmap))"
    using add_subblocks [OF assms, of 8] by simp
  moreover have "set_field 248 3 0 (set_field 3 0 0 0) = 0" by (simp add: set_field_def)
  moreover have "fetch (pvb_of subs) 0 = Some 0" "store (pvb_of subs) 0 0 = Some (pvb_of subs)" for subs
    by (simp_all add: pvb_of_def)
  ultimately show ?thesis by (simp add: add_block_def size_of_def del: upt_rec_numeral)
qed

lemma size_of_blocks:
  "size_of (announced_subblocks bitmap) = length (concat (List.map encode_block (tim_blocks_of bitmap)))"
  "size_of (announced_subblocks bitmap) = 0 \<longleftrightarrow> tim_blocks_of bitmap = []"
  by (auto simp: size_of_def tim_blocks_of_def)

lemma size_of_le: "length bitmap = 8 \<Longrightarrow> size_of (announced_subblocks bitmap) \<le> 10"
  using length_present_le [of "announced_subblocks bitmap"] by (simp add: size_of_def announced_subblocks_def)

lemma control_of: "set_field 0xc0 6 0 (set_field 0x3e 1 0x1f (set_field 0x01 0 (of_bool t) 0)) = of_bool t + 62"
  by (cases t) (simp_all add: set_field_def)

lemma tim_build_room:
  assumes "length bitmap = 8" "even (bitmap ! 0)" "room (2 + length (tim_contents count period t bitmap)) cbuf"
  shows "ie_s1g_tim_build count period t bitmap cbuf =
    Some (written cbuf (encode_ie (DOT11_IE_TIM, tim_contents count period t bitmap)))"
proof -
  let ?c = "tim_contents count period t bitmap" and ?subs = "announced_subblocks bitmap"
  let ?n = "2 + length ?c" and ?hd = "[DOT11_IE_TIM, length ?c, count, period]"
  define n where "n = ?n"
  have r0: "consbuf_reserve 0 cbuf = Some (Some (cb_offset cbuf), cbuf)"
    using consbuf_reserve_room [of 0 cbuf] assms(3) by (simp add: room_def)
  have data: "mem_read (pvb_of ?subs) 0 (size_of ?subs) = Some (concat (List.map encode_block (tim_blocks_of bitmap)))"
    using announced_pvb [OF assms(1)] size_of_le [OF assms(1)] length_present_le [of ?subs] assms(1)
    by (simp add: mem_read_def pvb_of_def announced_subblocks_def)
  have len: "length ?c = (if t \<or> size_of ?subs > 0 then 3 + size_of ?subs else 2)" "length ?c < 256" 
    using size_of_blocks [of bitmap] size_of_le [OF assms(1)] by (auto simp: tim_contents_def)
  note room = assms(3) [folded n_def]
  have n: "4 \<le> n" by (simp add: n_def tim_contents_def)
  have pokes: "poke (cb_offset cbuf) DOT11_IE_TIM (filled cbuf n []) = Some (filled cbuf n [DOT11_IE_TIM])"
    "poke (Suc (cb_offset cbuf)) l (filled cbuf n [DOT11_IE_TIM]) = Some (filled cbuf n [DOT11_IE_TIM, l])"
    "poke (Suc (Suc (cb_offset cbuf))) count (filled cbuf n [DOT11_IE_TIM, l]) = Some (filled cbuf n [DOT11_IE_TIM, l, count])"
    "poke (cb_offset cbuf + 3) period (filled cbuf n [DOT11_IE_TIM, l, count]) = Some (filled cbuf n [DOT11_IE_TIM, l, count, period])"
    for l
    using n poke_filled [OF room, of 0 "[]"] poke_filled [OF room, of 1 "[DOT11_IE_TIM]"] poke_filled [OF room, of 2 "[DOT11_IE_TIM, l]"]
      poke_filled [OF room, of 3 "[DOT11_IE_TIM, l, count]"] by simp_all
  have pokes': "poke (cb_offset cbuf + 4) v (filled cbuf n [DOT11_IE_TIM, l, count, period]) =
      Some (filled cbuf n [DOT11_IE_TIM, l, count, period, v])" if "4 < n" for l v
    using that poke_filled [OF room, of 4 "[DOT11_IE_TIM, l, count, period]"] by simp
  have bytes: "poke_bytes (cb_offset cbuf + 5) d (filled cbuf n [DOT11_IE_TIM, l, count, period, v]) =
      Some (filled cbuf n ([DOT11_IE_TIM, l, count, period, v] @ d))" if "length d + 5 \<le> n" for l v d
    using that poke_bytes_filled [OF room, of 5 "[DOT11_IE_TIM, l, count, period, v]" d] by simp
  have whole: "written cbuf (encode_ie (DOT11_IE_TIM, ?c)) = filled cbuf n (DOT11_IE_TIM # length ?c # ?c)"
    using filled_written [of cbuf "encode_ie (DOT11_IE_TIM, ?c)"] by (simp add: encode_ie_def n_def)
  have checks: "size_of ?subs \<le> 10" "u8 (length ?c) = length ?c" using size_of_le [OF assms(1)] len(2) by (simp_all add: u8_id)
  have reserve: "consbuf_reserve (2 + length ?c) cbuf = Some (Some (cb_offset cbuf), filled cbuf n [])"
    using reserve_filled [OF room] by (simp add: n_def)
  have b0: "fetch bitmap 0 = Some (bitmap ! 0)" "bitmap ! 0 mod 2 = 0"
    using assms(1,2) by (simp_all add: even_iff_mod_2_eq_zero)
  note build = ie_s1g_tim_build_def b0 r0 add_blocks [OF assms(1), simplified] pokes control_of [of True, simplified] control_of [of False, simplified] data bytes pokes'
  consider "size_of ?subs = 0" "\<not> t" | "size_of ?subs = 0" t | "size_of ?subs > 0" by blast
  then show ?thesis
  proof cases
    case 1
    then have "?c = [count, period]" by (simp add: tim_contents_def size_of_blocks(2))
    then show ?thesis unfolding whole using 1 checks reserve by (simp add: build u8_def) (simp add: numeral_2_eq_2)
  next
    case 2
    then have c: "?c = [count, period, 63]" by (simp add: tim_contents_def size_of_blocks(2))
    have "4 < n" using c by (simp add: n_def)
    moreover have "consbuf_reserve (Suc (Suc (Suc (Suc (Suc 0))))) cbuf = Some (Some (cb_offset cbuf), filled cbuf n [])"
      using reserve c by (simp add: eval_nat_numeral)
    moreover have "control = set_field 0x01 0 1 0 \<Longrightarrow> set_field 0xc0 6 0 (set_field 0x3e 1 0x1f control) = 63" for control
      using control_of [of True] by simp
    ultimately show ?thesis unfolding whole using 2 c by (simp add: build u8_def numeral_3_eq_3 [symmetric])
  next
    case 3
    let ?d = "concat (List.map encode_block (tim_blocks_of bitmap))"
    have c: "?c = [count, period, of_bool t + 62] @ ?d" using 3 size_of_blocks(2) [of bitmap] by (auto simp: tim_contents_def)
    have d: "length ?d = size_of ?subs" by (rule size_of_blocks(1) [symmetric])
    have "4 < n" "length ?d + 5 \<le> n" using c by (simp_all add: n_def)
    then show ?thesis unfolding whole using 3 checks reserve len(1) d by (simp add: build c del: encode_block.simps)
  qed
qed

text \<open>C15. What the access point announces is what a station reads: the element built for a traffic bitmap holds an AID if and only if
  the bitmap has its bit, for every valid AID, DTIM count and period; the element is too short to be found exactly when the bitmap has no
  bit at all and the traffic indicator is not set.\<close>

theorem tim_round_trip:
  assumes "length bitmap = 8" "even (bitmap ! 0)" "aid_is_valid aid" "room (2 + length (tim_contents count period t bitmap)) cbuf"
  shows "\<exists>cbuf' mem. ie_s1g_tim_build count period t bitmap cbuf = Some cbuf' \<and> cb_buf cbuf' = Some mem
    \<and> (let ies = take (cb_offset cbuf' - cb_offset cbuf) (drop (cb_offset cbuf) mem)
       in case ie_s1g_tim_find ies of
            None \<Rightarrow> False
          | Some None \<Rightarrow> \<not> t \<and> (\<forall>b\<in>set bitmap. b = 0) \<and> ap_traffic_bitmap_get_aid_bit bitmap aid = Some False
          | Some (Some p) \<Rightarrow> (t \<or> (\<exists>b\<in>set bitmap. b \<noteq> 0))
              \<and> ie_s1g_tim_has_aid ies p aid = ap_traffic_bitmap_get_aid_bit bitmap aid)"
proof -
  let ?e = "(DOT11_IE_TIM, tim_contents count period t bitmap)" and ?ies = "encode_ies [(DOT11_IE_TIM, tim_contents count period t bitmap)]"
  have room: "room (length (encode_ie ?e)) cbuf" using assms(4) by (simp add: encode_ie_def)
  obtain mem where mem: "cb_buf (written cbuf (encode_ie ?e)) = Some mem" using room by (auto simp: room_def written_def)
  have bytes: "take (cb_offset (written cbuf (encode_ie ?e)) - cb_offset cbuf) (drop (cb_offset cbuf) mem) = ?ies"
    using written_bytes [OF room mem] by (simp add: written_def encode_ies_def)
  have aid: "aid < 64" using assms(3) by (simp add: aid_is_valid_def)
  have byte: "aid div 8 mod 8 = aid div 8" using aid by simp
  have get: "ap_traffic_bitmap_get_aid_bit bitmap aid = Some (bit (bitmap ! (aid div 8)) (aid mod 8))"
  proof -
    have "2 ^ (aid mod 8) \<le> (2 ^ 7 :: nat)" by (rule power_increasing) simp_all
    then have "u8 (2 ^ (aid mod 8)) = 2 ^ (aid mod 8)" by (simp add: u8_id)
    moreover have "and aid 7 = aid mod 8" using take_bit_eq_mask [of 3 aid] by (simp add: mask_eq_exp_minus_1 take_bit_eq_mod)
    moreover have "u8 (drop_bit 3 aid) = aid div 8" using aid by (simp add: drop_bit_eq_div u8_id)
    ultimately show ?thesis using assms(1,3) aid
      by (simp add: ap_traffic_bitmap_get_aid_bit_def Let_def push_bit_eq_mult and_bit_pos)
  qed
  have blocks: "tim_blocks_of bitmap = [] \<longleftrightarrow> (\<forall>b\<in>set bitmap. b = 0)"
    by (auto simp: tim_blocks_of_def present_def announced_subblocks_def filter_empty_conv)
  have none: "\<not> bit (bitmap ! (aid div 8)) (aid mod 8)" if "tim_blocks_of bitmap = []"
  proof -
    have "bitmap ! (aid div 8) = 0" using that blocks assms(1) aid
      by (intro bspec [of "set bitmap" "\<lambda>b. b = 0"]) (simp_all add: less_mult_imp_div_less)
    then show ?thesis by simp
  qed
  have broken: "broken []" by (simp add: broken_def)
  have search: "ie_s1g_tim_has_aid ?ies 0 aid = tim_search (tim_contents count period t bitmap) aid"
    using has_aid_element [of "[]" ?e "[]" "[]" aid] by simp
  have block: "announces 0 aid (Block_Bitmap False 0 (announced_subblocks bitmap)) = bit (bitmap ! (aid div 8)) (aid mod 8)"
    using aid byte assms(1) by (simp add: announced_subblocks_def less_mult_imp_div_less)
  have "(case ie_s1g_tim_find ?ies of
            None \<Rightarrow> False
          | Some None \<Rightarrow> \<not> t \<and> (\<forall>b\<in>set bitmap. b = 0) \<and> ap_traffic_bitmap_get_aid_bit bitmap aid = Some False
          | Some (Some p) \<Rightarrow> (t \<or> (\<exists>b\<in>set bitmap. b \<noteq> 0))
              \<and> ie_s1g_tim_has_aid ?ies p aid = ap_traffic_bitmap_get_aid_bit bitmap aid)"
  proof (cases "tim_blocks_of bitmap = []")
    case True
    show ?thesis
    proof (cases t)
      case True
      then show ?thesis
        using tim_found [OF broken, of "[?e]"] search none get blocks \<open>tim_blocks_of bitmap = []\<close>
        by (simp add: tim_contents_def tim_search_def)
    next
      case False
      then show ?thesis
        using tim_found [OF broken, of "[?e]"] none get blocks \<open>tim_blocks_of bitmap = []\<close>
        by (simp add: tim_contents_def)
    qed
  next
    case False
    then have one: "tim_blocks_of bitmap = [Block_Bitmap False 0 (announced_subblocks bitmap)]" by (simp add: tim_blocks_of_def split: if_splits)
    have wf: "list_all wf_block (tim_blocks_of bitmap)" using one assms(1) by (simp add: announced_subblocks_def)
    have "tim_contents count period t bitmap = [count, period, of_bool t + 62] @ concat (List.map encode_block (tim_blocks_of bitmap))"
      using False by (simp add: tim_contents_def)
    moreover have "(of_bool t + 62) div 2 mod 32 = (31 :: nat)" "(of_bool t + 62) div 64 mod 4 = (0 :: nat)" by (cases t; simp)+
    ultimately have "tim_search (tim_contents count period t bitmap) aid = Some (bit (bitmap ! (aid div 8)) (aid mod 8))"
      using tim_search_blocks [OF wf False, of count period "of_bool t + 62" aid] block one by simp
    moreover have "3 \<le> length (tim_contents count period t bitmap)" using False by (simp add: tim_contents_def)
    ultimately show ?thesis using tim_found [OF broken, of "[?e]"] search get blocks False by auto
  qed
  then show ?thesis unfolding Let_def using tim_build_room [OF assms(1,2,4)] mem
    by (intro exI [of _ "written cbuf (encode_ie ?e)"] exI [of _ mem] conjI) (simp_all only: bytes)
qed

theorem tim_round_trip_witness:
  "room (2 + length (tim_contents 0 1 False [2, 0, 0, 64, 0, 0, 0, 0])) (consbuf_reinit (replicate 16 0) 16)
    \<and> (\<exists>cbuf' mem. ie_s1g_tim_build 0 1 False [2, 0, 0, 64, 0, 0, 0, 0] (consbuf_reinit (replicate 16 0) 16) = Some cbuf' \<and> cb_buf cbuf' = Some mem
    \<and> (let ies = take (cb_offset cbuf' - cb_offset (consbuf_reinit (replicate 16 0) 16)) (drop (cb_offset (consbuf_reinit (replicate 16 0) 16)) mem)
       in case ie_s1g_tim_find ies of
            None \<Rightarrow> False
          | Some None \<Rightarrow> \<not> False \<and> (\<forall>b\<in>set [2, 0, 0, 64, 0, 0, 0, 0 :: nat]. b = 0)
              \<and> ap_traffic_bitmap_get_aid_bit [2, 0, 0, 64, 0, 0, 0, 0] 30 = Some False
          | Some (Some p) \<Rightarrow> (False \<or> (\<exists>b\<in>set [2, 0, 0, 64, 0, 0, 0, 0 :: nat]. b \<noteq> 0)) \<and> ie_s1g_tim_has_aid ies p 30 = ap_traffic_bitmap_get_aid_bit [2, 0, 0, 64, 0, 0, 0, 0] 30))"
proof -
  have room: "room (2 + length (tim_contents 0 1 False [2, 0, 0, 64, 0, 0, 0, 0])) (consbuf_reinit (replicate 16 0) 16)"
    by (simp add: room_def consbuf_reinit_def tim_contents_def tim_blocks_of_def announced_subblocks_def present_def)
  show ?thesis
    by (rule conjI [OF room tim_round_trip [OF _ _ _ room]]) (simp_all add: aid_is_valid_def)
qed

text \<open>A word of the differential encoding that crosses a byte: the code takes its upper bits from the same byte again instead of from
  the next one. With words of 3 bits in the bytes 10 and 1, the differences are 2, 1 and 4: AIDs 66, 67 and 71 of the
  block from 64 are announced. The search finds the first two, reads 0 for the third difference and stops.\<close>

lemma ade_word_crossing_a_byte:
  "ie_s1g_tim_has_aid [5, 7, 0, 1, 62, 11, 18, 10, 1] 0 66 = Some True"
  "ie_s1g_tim_has_aid [5, 7, 0, 1, 62, 11, 18, 10, 1] 0 67 = Some True"
  "ie_s1g_tim_has_aid [5, 7, 0, 1, 62, 11, 18, 10, 1] 0 71 = Some False"
  by (simp_all add: ie_s1g_tim_has_aid_def ie_len_at_def fetch_def mem_read_def get_fields get_field_0x3e [unfolded One_nat_def]
      dot11_tim_bitmap_ctrl_page_slice_num_def dot11_tim_bitmap_ctrl_page_index_def Let_def block_steps read_header_def consume_def
      ie_s1g_tim_ade_has_aid_def dot11_tim_ade_get_ewl_def dot11_tim_ade_get_length_def u8_def u16_def)
    (subst ade_scan.simps, simp add: fetch_def Let_def u8_def u16_def block_steps)+

end
