(* ===== verification/Umac_Ba.thy ===== *)
theory Umac_Ba
  imports Prelude
begin

section \<open>Block acknowledgement sessions\<close>

text \<open>
  \<open>morselib/src/umac/ba/umac_ba.c\<close>: for each traffic identifier (TID) a station keeps a session as originator, which it
  requests from its peer, and one as recipient, which its peer requests. An operation returns the sessions and what it
  did outside them, in order: action frames sent (their action fields, as bytes), timeouts registered and cancelled, and the flush of
  the reorder list. \<open>tx_ok\<close> is whether the frame an operation sends can be sent, \<open>dev\<close> whether debug
  assertions are built in.
\<close>

subsection \<open>Sessions\<close>

abbreviation (input) UMAC_BA_MAX_SESSIONS :: nat where "UMAC_BA_MAX_SESSIONS \<equiv> 6"

datatype umac_ba_status = UMAC_BA_DISABLED | UMAC_BA_REQUESTED | UMAC_BA_REFUSED | UMAC_BA_SUCCESS

record umac_ba_session =
  ba_status :: umac_ba_status
  ba_dialog_token :: nat
  ba_tid :: nat
  ba_buffer_size :: nat
  ba_timeout :: nat
  ba_starting_seq_ctrl :: nat
  ba_attempt_backoff :: nat
  ba_next_expected_rx_seq_num :: nat

record umac_ba_sta_data =
  ba_originator :: "umac_ba_session list"
  ba_recipient :: "umac_ba_session list"

definition zero_session :: umac_ba_session where
  "zero_session = \<lparr>ba_status = UMAC_BA_DISABLED, ba_dialog_token = 0, ba_tid = 0, ba_buffer_size = 0, ba_timeout = 0,
     ba_starting_seq_ctrl = 0, ba_attempt_backoff = 0, ba_next_expected_rx_seq_num = 0\<rparr>"

definition umac_ba_deinit :: umac_ba_sta_data where
  "umac_ba_deinit = \<lparr>ba_originator = replicate UMAC_BA_MAX_SESSIONS zero_session,
     ba_recipient = replicate UMAC_BA_MAX_SESSIONS zero_session\<rparr>"

text \<open>A pointer to a session: its role and TID.\<close>

datatype ba_role = RECIPIENT | ORIGINATOR

type_synonym session_ref = "ba_role \<times> nat"

fun get_session :: "session_ref \<Rightarrow> umac_ba_sta_data \<Rightarrow> umac_ba_session option" where
  "get_session (ORIGINATOR, i) d = fetch (ba_originator d) i"
| "get_session (RECIPIENT, i) d = fetch (ba_recipient d) i"

fun put_session :: "session_ref \<Rightarrow> umac_ba_session \<Rightarrow> umac_ba_sta_data \<Rightarrow> umac_ba_sta_data" where
  "put_session (ORIGINATOR, i) s d = d\<lparr>ba_originator := (ba_originator d)[i := s]\<rparr>"
| "put_session (RECIPIENT, i) s d = d\<lparr>ba_recipient := (ba_recipient d)[i := s]\<rparr>"

datatype ba_effect =
    Tx_Action "nat list"
  | Register_Timeout nat session_ref
  | Cancel_Timeout session_ref
  | Flush_Reorder_List nat

definition umac_ba_calculate_addba_attempt_backoff :: "nat \<Rightarrow> nat" where
  "umac_ba_calculate_addba_attempt_backoff current_backoff =
     (if current_backoff = 0 then 100
      else if u32 (current_backoff * 2) \<ge> 60000 then 60000
      else u32 (current_backoff * 2))"

subsection \<open>Action fields\<close>

definition le16 :: "nat \<Rightarrow> nat list" where
  "le16 v = [v mod 256, v div 256 mod 256]"

definition get_le16 :: "nat list \<Rightarrow> nat \<Rightarrow> nat option" where
  "get_le16 bs i = do { lo \<leftarrow> fetch bs i; hi \<leftarrow> fetch bs (i + 1); Some (lo + 256 * hi) }"

text \<open>The macros that set a field of a 16-bit parameter set.\<close>

definition set_field16 :: "nat \<Rightarrow> nat \<Rightarrow> nat \<Rightarrow> nat \<Rightarrow> nat" where
  "set_field16 m s v x = or (and x (65535 - m)) (and (push_bit s v) m)"

definition dot11_ba_parameter_set_field_get_ba_policy :: "nat \<Rightarrow> nat" where
  "dot11_ba_parameter_set_field_get_ba_policy = get_field 0x02 1"

definition dot11_ba_parameter_set_field_get_tid :: "nat \<Rightarrow> nat" where
  "dot11_ba_parameter_set_field_get_tid = get_field 0x3c 2"

definition dot11_ba_parameter_set_field_get_buffer_size :: "nat \<Rightarrow> nat" where
  "dot11_ba_parameter_set_field_get_buffer_size = get_field 0xffc0 6"

definition dot11_delba_parameter_set_field_get_initiator :: "nat \<Rightarrow> nat" where
  "dot11_delba_parameter_set_field_get_initiator = get_field 0x0800 11"

definition dot11_delba_parameter_set_field_get_tid :: "nat \<Rightarrow> nat" where
  "dot11_delba_parameter_set_field_get_tid = get_field 0xf000 12"

abbreviation (input) DOT11_ACTION_CATEGORY_BLOCK_ACK :: nat where "DOT11_ACTION_CATEGORY_BLOCK_ACK \<equiv> 3"
abbreviation (input) DOT11_BA_ACTION_NDP_ADDBA_REQ :: nat where "DOT11_BA_ACTION_NDP_ADDBA_REQ \<equiv> 128"
abbreviation (input) DOT11_BA_ACTION_NDP_ADDBA_RESP :: nat where "DOT11_BA_ACTION_NDP_ADDBA_RESP \<equiv> 129"
abbreviation (input) DOT11_BA_ACTION_NDP_DELBA :: nat where "DOT11_BA_ACTION_NDP_DELBA \<equiv> 130"
abbreviation (input) DOT11_BA_POLICY_IMMEDIATE :: nat where "DOT11_BA_POLICY_IMMEDIATE \<equiv> 1"
abbreviation (input) DOT11_BLOCK_ACK_TIMEOUT_DISABLED :: nat where "DOT11_BLOCK_ACK_TIMEOUT_DISABLED \<equiv> 0"
abbreviation (input) DOT11_STATUS_SUCCESS :: nat where "DOT11_STATUS_SUCCESS \<equiv> 0"
abbreviation (input) DOT11_REASON_UNSPECIFIED :: nat where "DOT11_REASON_UNSPECIFIED \<equiv> 1"
abbreviation (input) DOT11_REASON_INACTIVITY :: nat where "DOT11_REASON_INACTIVITY \<equiv> 4"
abbreviation (input) DOT11_REASON_END_TS_BS :: nat where "DOT11_REASON_END_TS_BS \<equiv> 37"

fun initiator_number :: "ba_role \<Rightarrow> nat" where
  "initiator_number RECIPIENT = 0"
| "initiator_number ORIGINATOR = 1"

text \<open>What a transmission leaves: the frame, when it can be sent.\<close>

definition tx_action :: "bool \<Rightarrow> nat list \<Rightarrow> ba_effect list" where
  "tx_action tx_ok field = (if tx_ok then [Tx_Action field] else [])"

definition umac_ba_tx_delba :: "bool \<Rightarrow> ba_role \<Rightarrow> nat \<Rightarrow> nat \<Rightarrow> ba_effect list" where
  "umac_ba_tx_delba tx_ok initiator tid reason =
     (let param_set = set_field16 0x0800 11 (initiator_number initiator) 0;
          param_set = set_field16 0xf000 12 tid param_set
      in tx_action tx_ok ([DOT11_ACTION_CATEGORY_BLOCK_ACK, DOT11_BA_ACTION_NDP_DELBA] @ le16 param_set @ le16 reason))"

definition umac_ba_build_param_set :: "umac_ba_session \<Rightarrow> nat" where
  "umac_ba_build_param_set session =
     (let param_set = 0;
          param_set = set_field16 0x01 0 0 param_set;
          param_set = set_field16 0x02 1 DOT11_BA_POLICY_IMMEDIATE param_set;
          param_set = set_field16 0x3c 2 (ba_tid session) param_set
      in set_field16 0xffc0 6 (ba_buffer_size session) param_set)"

subsection \<open>Operations\<close>

type_synonym ba_result = "(umac_ba_sta_data \<times> ba_effect list) option"

definition umac_ba_addba_req_timeout_handler :: "bool \<Rightarrow> session_ref \<Rightarrow> umac_ba_sta_data \<Rightarrow> ba_result" where
  "umac_ba_addba_req_timeout_handler tx_ok ref d = do {
     session \<leftarrow> get_session ref d;
     if ba_status session \<noteq> UMAC_BA_REQUESTED then Some (d, [])
     else do {
       let effects = umac_ba_tx_delba tx_ok ORIGINATOR (ba_tid session) DOT11_REASON_INACTIVITY;
       if \<not> tx_ok then Some (d, effects)
       else Some (put_session ref (session\<lparr>ba_status := UMAC_BA_DISABLED\<rparr>) d, effects)
     }
   }"

definition umac_ba_rx_delba :: "nat list \<Rightarrow> umac_ba_sta_data \<Rightarrow> ba_result" where
  "umac_ba_rx_delba field d =
     (if length field < 6 then Some (d, [])
      else do {
        param_set \<leftarrow> get_le16 field 2;
        let tid = u8 (dot11_delba_parameter_set_field_get_tid param_set);
        if tid \<ge> UMAC_BA_MAX_SESSIONS then Some (d, [])
        else do {
          let ref = (if dot11_delba_parameter_set_field_get_initiator param_set = initiator_number ORIGINATOR
                     then RECIPIENT else ORIGINATOR, tid);
          session \<leftarrow> get_session ref d;
          if ba_status session = UMAC_BA_DISABLED then Some (d, [])
          else Some (put_session ref (session\<lparr>ba_status := UMAC_BA_DISABLED\<rparr>) d,
            [Cancel_Timeout ref, Flush_Reorder_List (ba_tid session)])
        }
      })"

definition umac_ba_tx_addba_resp :: "bool \<Rightarrow> umac_ba_session \<Rightarrow> umac_ba_session \<times> ba_effect list" where
  "umac_ba_tx_addba_resp tx_ok session =
     (let effects = tx_action tx_ok ([DOT11_ACTION_CATEGORY_BLOCK_ACK, DOT11_BA_ACTION_NDP_ADDBA_RESP, ba_dialog_token session]
        @ le16 DOT11_STATUS_SUCCESS @ le16 (umac_ba_build_param_set session) @ le16 0)
      in if \<not> tx_ok then (session, effects) else (session\<lparr>ba_status := UMAC_BA_SUCCESS\<rparr>, effects))"

definition umac_ba_rx_addba_resp :: "bool \<Rightarrow> nat list \<Rightarrow> umac_ba_sta_data \<Rightarrow> ba_result" where
  "umac_ba_rx_addba_resp tx_ok field d =
     (if length field < 9 then Some (d, [])
      else do {
        param_set \<leftarrow> get_le16 field 5;
        let tid = u8 (dot11_ba_parameter_set_field_get_tid param_set);
        if tid \<ge> UMAC_BA_MAX_SESSIONS then Some (d, umac_ba_tx_delba tx_ok ORIGINATOR tid DOT11_REASON_UNSPECIFIED)
        else do {
          let ref = (ORIGINATOR, tid);
          session \<leftarrow> get_session ref d;
          let effects = [Cancel_Timeout ref];
          dialog_token \<leftarrow> fetch field 2;
          if ba_status session \<noteq> UMAC_BA_REQUESTED \<or> ba_dialog_token session \<noteq> dialog_token then Some (d, effects)
          else do {
            status_code \<leftarrow> get_le16 field 3;
            if status_code \<noteq> DOT11_STATUS_SUCCESS
            then Some (put_session ref (session\<lparr>ba_status := UMAC_BA_REFUSED\<rparr>) d, effects)
            else if dot11_ba_parameter_set_field_get_ba_policy param_set \<noteq> DOT11_BA_POLICY_IMMEDIATE
            then Some (d, effects @ umac_ba_tx_delba tx_ok ORIGINATOR tid DOT11_REASON_UNSPECIFIED)
            else Some (put_session ref (session\<lparr>
                ba_buffer_size := min (dot11_ba_parameter_set_field_get_buffer_size param_set) (ba_buffer_size session),
                ba_status := UMAC_BA_SUCCESS\<rparr>) d, effects)
          }
        }
      })"

definition umac_ba_tx_addba_req :: "bool \<Rightarrow> umac_ba_session \<Rightarrow> umac_ba_session \<times> ba_effect list" where
  "umac_ba_tx_addba_req tx_ok session =
     (let effects = tx_action tx_ok ([DOT11_ACTION_CATEGORY_BLOCK_ACK, DOT11_BA_ACTION_NDP_ADDBA_REQ, ba_dialog_token session]
        @ le16 (umac_ba_build_param_set session) @ le16 (ba_timeout session) @ le16 (ba_starting_seq_ctrl session))
      in if \<not> tx_ok then (session, effects) else (session\<lparr>ba_status := UMAC_BA_REQUESTED\<rparr>, effects))"

text \<open>\<open>ampdu\<close> is whether the interface supports aggregation, \<open>maxlen\<close> the configured length of the reorder list.\<close>

definition umac_ba_rx_addba_req ::
  "bool \<Rightarrow> bool \<Rightarrow> bool \<Rightarrow> nat \<Rightarrow> nat list \<Rightarrow> umac_ba_sta_data \<Rightarrow> ba_result" where
  "umac_ba_rx_addba_req dev tx_ok ampdu maxlen field d =
     (if length field < 9 then Some (d, [])
      else do {
        param_set \<leftarrow> get_le16 field 3;
        let tid = u8 (dot11_ba_parameter_set_field_get_tid param_set);
        if tid \<ge> UMAC_BA_MAX_SESSIONS \<or> \<not> ampdu
        then Some (d, umac_ba_tx_delba tx_ok RECIPIENT tid DOT11_REASON_UNSPECIFIED)
        else do {
          let ref = (RECIPIENT, tid);
          session \<leftarrow> get_session ref d;
          if ba_status session \<noteq> UMAC_BA_DISABLED then Some (d, [])
          else do {
            let session = session\<lparr>ba_tid := tid\<rparr>;
            if dot11_ba_parameter_set_field_get_ba_policy param_set \<noteq> DOT11_BA_POLICY_IMMEDIATE
            then Some (put_session ref session d, umac_ba_tx_delba tx_ok RECIPIENT tid DOT11_REASON_UNSPECIFIED)
            else do {
              let session = session\<lparr>ba_buffer_size := min (dot11_ba_parameter_set_field_get_buffer_size param_set) (u16 maxlen)\<rparr>;
              dialog_token \<leftarrow> fetch field 2;
              let session = session\<lparr>ba_dialog_token := dialog_token\<rparr>;
              timeout \<leftarrow> get_le16 field 5;
              ensure (dev \<longrightarrow> timeout = DOT11_BLOCK_ACK_TIMEOUT_DISABLED);
              let session = session\<lparr>ba_timeout := DOT11_BLOCK_ACK_TIMEOUT_DISABLED\<rparr>;
              let (session, effects) = umac_ba_tx_addba_resp tx_ok session;
              Some (put_session ref session d, effects)
            }
          }
        }
      })"

text \<open>\<open>field\<close> is the action field of the frame; its first byte is the category.\<close>

definition umac_ba_process_rx_frame ::
  "bool \<Rightarrow> bool \<Rightarrow> bool \<Rightarrow> bool \<Rightarrow> nat \<Rightarrow> nat list \<Rightarrow> umac_ba_sta_data \<Rightarrow> ba_result" where
  "umac_ba_process_rx_frame dev associated tx_ok ampdu maxlen field d =
     (if \<not> associated then Some (d, [])
      else do {
        ensure (length field \<ge> 1);
        ba_action \<leftarrow> fetch field 1;
        if ba_action = DOT11_BA_ACTION_NDP_ADDBA_REQ then umac_ba_rx_addba_req dev tx_ok ampdu maxlen field d
        else if ba_action = DOT11_BA_ACTION_NDP_ADDBA_RESP then umac_ba_rx_addba_resp tx_ok field d
        else if ba_action = DOT11_BA_ACTION_NDP_DELBA then umac_ba_rx_delba field d
        else Some (d, [])
      })"

text \<open>\<open>token\<close> is the random dialog token.\<close>

definition umac_ba_session_init ::
  "bool \<Rightarrow> nat \<Rightarrow> nat \<Rightarrow> nat \<Rightarrow> nat \<Rightarrow> nat \<Rightarrow> umac_ba_sta_data \<Rightarrow> ba_result" where
  "umac_ba_session_init tx_ok maxlen token tid ssc timeout d =
     (if tid \<ge> UMAC_BA_MAX_SESSIONS then Some (d, [])
      else do {
        session \<leftarrow> get_session (ORIGINATOR, tid) d;
        if ba_status session \<noteq> UMAC_BA_DISABLED then Some (d, [])
        else do {
          let session = session\<lparr>ba_tid := tid, ba_timeout := timeout, ba_dialog_token := u8 token, ba_buffer_size := u16 maxlen,
            ba_starting_seq_ctrl := ssc,
            ba_attempt_backoff := umac_ba_calculate_addba_attempt_backoff (ba_attempt_backoff session)\<rparr>;
          let (session, effects) = umac_ba_tx_addba_req tx_ok session;
          Some (put_session (ORIGINATOR, tid) session d,
            effects @ [Register_Timeout (ba_attempt_backoff session) (ORIGINATOR, tid)])
        }
      })"

definition umac_ba_session_deinit :: "bool \<Rightarrow> nat \<Rightarrow> ba_role \<Rightarrow> umac_ba_sta_data \<Rightarrow> ba_result" where
  "umac_ba_session_deinit tx_ok tid initiator d =
     (if tid \<ge> UMAC_BA_MAX_SESSIONS then Some (d, [])
      else do {
        let ref = (initiator, tid);
        session \<leftarrow> get_session ref d;
        if ba_status session = UMAC_BA_DISABLED then Some (d, [])
        else do {
          let effects = umac_ba_tx_delba tx_ok initiator tid DOT11_REASON_END_TS_BS;
          if \<not> tx_ok then Some (d, effects) else Some (put_session ref zero_session d, effects)
        }
      })"

definition umac_ba_get_reorder_buffer_size :: "nat \<Rightarrow> umac_ba_sta_data \<Rightarrow> nat option" where
  "umac_ba_get_reorder_buffer_size tid d =
     (if tid \<ge> UMAC_BA_MAX_SESSIONS then Some 0
      else do {
        session \<leftarrow> get_session (RECIPIENT, tid) d;
        ensure (ba_buffer_size session \<le> 255);
        Some (ba_buffer_size session)
      })"

text \<open>The expected sequence number; \<open>None\<close> inside the result is -1.\<close>

definition umac_ba_get_expected_rx_seq_num :: "nat \<Rightarrow> umac_ba_sta_data \<Rightarrow> nat option option" where
  "umac_ba_get_expected_rx_seq_num tid d =
     (if tid \<ge> UMAC_BA_MAX_SESSIONS then Some None
      else do {
        session \<leftarrow> get_session (RECIPIENT, tid) d;
        Some (if ba_status session \<noteq> UMAC_BA_SUCCESS then None else Some (ba_next_expected_rx_seq_num session))
      })"

definition umac_ba_set_expected_rx_seq_num :: "nat \<Rightarrow> nat \<Rightarrow> umac_ba_sta_data \<Rightarrow> umac_ba_sta_data option" where
  "umac_ba_set_expected_rx_seq_num tid seq_num d =
     (if tid \<ge> UMAC_BA_MAX_SESSIONS then Some d
      else do {
        session \<leftarrow> get_session (RECIPIENT, tid) d;
        if ba_status session \<noteq> UMAC_BA_SUCCESS then Some d
        else Some (put_session (RECIPIENT, tid) (session\<lparr>ba_next_expected_rx_seq_num := seq_num\<rparr>) d)
      })"

definition umac_ba_is_ampdu_permitted :: "nat \<Rightarrow> umac_ba_sta_data \<Rightarrow> bool option" where
  "umac_ba_is_ampdu_permitted tid d =
     (if tid \<ge> UMAC_BA_MAX_SESSIONS then Some False
      else do { session \<leftarrow> get_session (ORIGINATOR, tid) d; Some (ba_status session = UMAC_BA_SUCCESS) })"

subsection \<open>Parameter sets and frames\<close>

text \<open>Fields are set from the lowest up, so that each adds its value.\<close>

lemma set_field16_add:
  assumes "x < 2 ^ s" "v < 2 ^ k" "m = (2 ^ k - 1) * 2 ^ s" "take_bit s (65535 - m) = mask s"
  shows "set_field16 m s v x = x + v * 2 ^ s"
proof -
  have m: "m = push_bit s (mask k)" using assms(3) by (simp add: push_bit_eq_mult mask_eq_exp_minus_1)
  have x: "take_bit s x = x" using assms(1) by (simp add: take_bit_eq_mod)
  have v: "take_bit k v = v" using assms(2) by (simp add: take_bit_eq_mod)
  have "and x (65535 - m) = and x (take_bit s (65535 - m))" using x by (metis and.assoc and.commute take_bit_and take_bit_eq_mask)
  then have low: "and x (65535 - m) = x" using assms(4) x by (simp add: take_bit_eq_mask)
  have "and (push_bit s v) m = push_bit s (take_bit k v)" unfolding m by (rule bit_eqI) (auto simp: bit_simps)
  then have high: "and (push_bit s v) m = push_bit s v" using v by simp
  have "or (take_bit s x) (push_bit s v) = take_bit s x + push_bit s v"
    by (rule disjunctive_add [symmetric]) (auto simp: bit_simps)
  then show ?thesis using low high x by (simp add: set_field16_def push_bit_eq_mult)
qed

lemma param_set_value:
  assumes "ba_tid s < 16" "ba_buffer_size s < 1024"
  shows "umac_ba_build_param_set s = 2 + 4 * ba_tid s + 64 * ba_buffer_size s"
  using assms
  by (simp add: umac_ba_build_param_set_def Let_def set_field16_add [where k = 1] set_field16_add [where k = 4] set_field16_add [where k = 10]
    mask_eq_exp_minus_1 take_bit_eq_mod)

lemma delba_param_value:
  assumes "tid < 16"
  shows "set_field16 0xf000 12 tid (set_field16 0x0800 11 (initiator_number r) 0) = 2048 * initiator_number r + 4096 * tid"
proof -
  have "initiator_number r < 2" by (cases r) simp_all
  then have "set_field16 0x0800 11 (initiator_number r) 0 = 2048 * initiator_number r"
    by (simp add: set_field16_add [where k = 1] mask_eq_exp_minus_1 take_bit_eq_mod)
  moreover have "2048 * initiator_number r < 2 ^ 12" using \<open>initiator_number r < 2\<close> by simp
  ultimately show ?thesis using assms
    by (simp add: set_field16_add [where k = 4] mask_eq_exp_minus_1 take_bit_eq_mod)
qed

lemma get_ba_policy: "dot11_ba_parameter_set_field_get_ba_policy p = p div 2 mod 2"
  using get_field_div [of "0x02" 1 1 p] by (simp add: dot11_ba_parameter_set_field_get_ba_policy_def)

lemma get_ba_tid: "dot11_ba_parameter_set_field_get_tid p = p div 4 mod 16"
  using get_field_div [of "0x3c" 4 2 p] by (simp add: dot11_ba_parameter_set_field_get_tid_def)

lemma get_ba_buffer_size: "dot11_ba_parameter_set_field_get_buffer_size p = p div 64 mod 1024"
  using get_field_div [of "0xffc0" 10 6 p] by (simp add: dot11_ba_parameter_set_field_get_buffer_size_def)

lemma get_delba_initiator: "dot11_delba_parameter_set_field_get_initiator p = p div 2048 mod 2"
  using get_field_div [of "0x0800" 1 11 p] by (simp add: dot11_delba_parameter_set_field_get_initiator_def)

lemma get_delba_tid: "dot11_delba_parameter_set_field_get_tid p = p div 4096 mod 16"
  using get_field_div [of "0xf000" 4 12 p] by (simp add: dot11_delba_parameter_set_field_get_tid_def)

lemmas ba_fields = get_ba_policy get_ba_tid get_ba_buffer_size get_delba_initiator get_delba_tid

lemma param_set_fields:
  assumes "ba_tid s < 16" "ba_buffer_size s < 1024"
  shows "dot11_ba_parameter_set_field_get_ba_policy (umac_ba_build_param_set s) = 1"
    "dot11_ba_parameter_set_field_get_tid (umac_ba_build_param_set s) = ba_tid s"
    "dot11_ba_parameter_set_field_get_buffer_size (umac_ba_build_param_set s) = ba_buffer_size s"
    "umac_ba_build_param_set s < 65536"
proof -
  have p: "umac_ba_build_param_set s = 2 + 4 * ba_tid s + 64 * ba_buffer_size s" by (rule param_set_value [OF assms])
  have "(2 + 4 * ba_tid s + 64 * ba_buffer_size s) div 2 = 1 + 2 * (ba_tid s + 16 * ba_buffer_size s)"
    "(2 + 4 * ba_tid s + 64 * ba_buffer_size s) div 4 = ba_tid s + 16 * ba_buffer_size s"
    by (intro div_nat_eqI; simp)+
  moreover have "(1 + 2 * y) mod 2 = 1" for y :: nat by presburger
  moreover have "(ba_tid s + 16 * ba_buffer_size s) mod 16 = ba_tid s" using assms(1) by simp
  ultimately show "dot11_ba_parameter_set_field_get_ba_policy (umac_ba_build_param_set s) = 1"
    "dot11_ba_parameter_set_field_get_tid (umac_ba_build_param_set s) = ba_tid s"
    unfolding p ba_fields by (simp_all only:)
  show "dot11_ba_parameter_set_field_get_buffer_size (umac_ba_build_param_set s) = ba_buffer_size s"
  proof -
    have "(2 + 4 * ba_tid s + 64 * ba_buffer_size s) div 64 = ba_buffer_size s" using assms(1) by (intro div_nat_eqI) simp_all
    then show ?thesis unfolding p ba_fields using assms(2) by simp
  qed
  show "umac_ba_build_param_set s < 65536" unfolding p using assms by simp
qed

lemma get_le16_le16:
  assumes "v < 65536" "i = length pre"
  shows "get_le16 (pre @ le16 v @ post) i = Some v"
  using assms by (simp add: get_le16_def le16_def fetch_def nth_append)

lemma get_le16_Some: "i + 1 < length bs \<Longrightarrow> \<exists>v. get_le16 bs i = Some v"
  by (simp add: get_le16_def)

subsection \<open>Sessions stay in order\<close>

definition ba_ok :: "nat \<Rightarrow> umac_ba_sta_data \<Rightarrow> bool" where
  "ba_ok maxlen d \<longleftrightarrow> length (ba_originator d) = 6 \<and> length (ba_recipient d) = 6
     \<and> (\<forall>i<6. ba_buffer_size (ba_recipient d ! i) \<le> maxlen)"

lemma ba_deinit_ok: "ba_ok maxlen umac_ba_deinit"
  by (simp add: ba_ok_def umac_ba_deinit_def zero_session_def)

definition ref_ok :: "session_ref \<Rightarrow> bool" where
  "ref_ok ref \<longleftrightarrow> snd ref < 6"

lemma get_session_Some: "ba_ok maxlen d \<Longrightarrow> ref_ok ref \<Longrightarrow> \<exists>s. get_session ref d = Some s"
  by (cases ref; cases "fst ref") (auto simp: ba_ok_def ref_ok_def)

lemma get_put_session:
  "ba_ok maxlen d \<Longrightarrow> ref_ok ref \<Longrightarrow> get_session ref' (put_session ref s d) = (if ref' = ref then Some s else get_session ref' d)"
  by (cases ref; cases "fst ref"; cases ref'; cases "fst ref'") (auto simp: ba_ok_def ref_ok_def fetch_def nth_list_update)

lemma put_session_ok:
  assumes "ba_ok maxlen d" "ref_ok ref" "fst ref = RECIPIENT \<Longrightarrow> ba_buffer_size s \<le> maxlen"
  shows "ba_ok maxlen (put_session ref s d)"
  using assms by (cases ref; cases "fst ref") (auto simp: ba_ok_def ref_ok_def nth_list_update)

lemma get_recipient_buffer:
  assumes "ba_ok maxlen d" "get_session ref d = Some s" "fst ref = RECIPIENT" "ref_ok ref"
  shows "ba_buffer_size s \<le> maxlen"
  using assms by (cases ref) (auto simp: ba_ok_def ref_ok_def fetch_def split: if_splits)

lemma put_shrunk:
  assumes "ba_ok maxlen d" "ref_ok ref" "get_session ref d = Some s" "fst ref = ORIGINATOR \<or> ba_buffer_size s' \<le> ba_buffer_size s"
  shows "ba_ok maxlen (put_session ref s' d)"
  using put_session_ok [OF assms(1,2)] get_recipient_buffer [OF assms(1,3) _ assms(2)] assms(4) by fastforce

subsection \<open>Sequences of operations\<close>

text \<open>The sessions of a station with the timeouts registered for them. \<open>Rx_Frame\<close> is a received frame (with whether the station is associated,
  an answer can be sent, aggregation is supported, and the action field), \<open>Timer\<close> the expiry of a timeout.\<close>

datatype ba_op =
    Rx_Frame bool bool bool "nat list"
  | Session_Init bool nat nat nat nat
  | Session_Deinit bool nat ba_role
  | Timer bool session_ref
  | Set_Expected nat nat

type_synonym ba_system = "umac_ba_sta_data \<times> session_ref list"

fun apply_effect :: "ba_effect \<Rightarrow> session_ref list \<Rightarrow> session_ref list" where
  "apply_effect (Register_Timeout ms ref) timers = timers @ [ref]"
| "apply_effect (Cancel_Timeout ref) timers = filter (\<lambda>r. r \<noteq> ref) timers"
| "apply_effect _ timers = timers"

definition settle :: "session_ref list \<Rightarrow> ba_result \<Rightarrow> ba_system option" where
  "settle timers r = do { (d, effects) \<leftarrow> r; Some (d, fold apply_effect effects timers) }"

fun ba_step :: "nat \<Rightarrow> ba_op \<Rightarrow> ba_system \<Rightarrow> ba_system option" where
  "ba_step maxlen (Rx_Frame associated tx_ok ampdu field) (d, timers) =
     settle timers (umac_ba_process_rx_frame False associated tx_ok ampdu maxlen field d)"
| "ba_step maxlen (Session_Init tx_ok token tid ssc timeout) (d, timers) =
     settle timers (umac_ba_session_init tx_ok maxlen token tid ssc timeout d)"
| "ba_step maxlen (Session_Deinit tx_ok tid r) (d, timers) = settle timers (umac_ba_session_deinit tx_ok tid r d)"
| "ba_step maxlen (Timer tx_ok ref) (d, timers) =
     (if ref \<in> set timers then settle (remove1 ref timers) (umac_ba_addba_req_timeout_handler tx_ok ref d) else Some (d, timers))"
| "ba_step maxlen (Set_Expected tid seq_num) (d, timers) =
     do { d \<leftarrow> umac_ba_set_expected_rx_seq_num tid seq_num d; Some (d, timers) }"

fun ba_run :: "nat \<Rightarrow> ba_op list \<Rightarrow> ba_system \<Rightarrow> ba_system option" where
  "ba_run maxlen [] s = Some s"
| "ba_run maxlen (op # ops) s = do { s \<leftarrow> ba_step maxlen op s; ba_run maxlen ops s }"

fun long_enough :: "ba_op \<Rightarrow> bool" where
  "long_enough (Rx_Frame associated tx_ok ampdu field) \<longleftrightarrow> length field \<ge> 2"
| "long_enough _ \<longleftrightarrow> True"

definition ba_sys_ok :: "nat \<Rightarrow> ba_system \<Rightarrow> bool" where
  "ba_sys_ok maxlen s \<longleftrightarrow> ba_ok maxlen (fst s) \<and> list_all ref_ok (snd s)"

fun effect_ok :: "ba_effect \<Rightarrow> bool" where
  "effect_ok (Register_Timeout ms ref) \<longleftrightarrow> ref_ok ref"
| "effect_ok _ \<longleftrightarrow> True"

definition ba_result_ok :: "nat \<Rightarrow> ba_result \<Rightarrow> bool" where
  "ba_result_ok maxlen r \<longleftrightarrow> (\<exists>d effects. r = Some (d, effects) \<and> ba_ok maxlen d \<and> list_all effect_ok effects)"

lemma timers_ok: "list_all effect_ok effects \<Longrightarrow> list_all ref_ok timers \<Longrightarrow> list_all ref_ok (fold apply_effect effects timers)"
proof (induction effects arbitrary: timers)
  case (Cons e effects)
  then have "list_all ref_ok (apply_effect e timers)" by (cases e) (auto simp: list_all_iff)
  then show ?case using Cons by simp
qed simp

lemma settle_ok: "ba_result_ok maxlen r \<Longrightarrow> list_all ref_ok timers \<Longrightarrow> \<exists>s. settle timers r = Some s \<and> ba_sys_ok maxlen s"
  by (auto simp: settle_def ba_result_ok_def ba_sys_ok_def timers_ok)

lemma ba_okI: "ba_ok maxlen d \<Longrightarrow> list_all effect_ok effects \<Longrightarrow> ba_result_ok maxlen (Some (d, effects))"
  by (simp add: ba_result_ok_def)

lemma tx_delba_effects [simp]: "list_all effect_ok (umac_ba_tx_delba tx_ok r tid reason)"
  by (simp add: umac_ba_tx_delba_def Let_def tx_action_def)

lemma tx_action_effects [simp]: "list_all effect_ok (tx_action tx_ok field)"
  by (simp add: tx_action_def)

lemma rx_delba_ok:
  assumes "ba_ok maxlen d"
  shows "ba_result_ok maxlen (umac_ba_rx_delba field d)"
proof (cases "length field < 6")
  case True
  then show ?thesis using assms by (simp add: umac_ba_rx_delba_def ba_okI)
next
  case False
  then obtain p where p: "get_le16 field 2 = Some p" using get_le16_Some [of 2 field] by auto
  let ?tid = "u8 (dot11_delba_parameter_set_field_get_tid p)"
  let ?ref = "(if dot11_delba_parameter_set_field_get_initiator p = initiator_number ORIGINATOR then RECIPIENT else ORIGINATOR, ?tid)"
  show ?thesis
  proof (cases "?tid < 6")
    case True
    then have ref: "ref_ok ?ref" by (simp add: ref_ok_def)
    then obtain s where "get_session ?ref d = Some s" using get_session_Some [OF assms] by blast
    moreover have "ba_ok maxlen (put_session ?ref (s\<lparr>ba_status := UMAC_BA_DISABLED\<rparr>) d)"
      by (rule put_shrunk [OF assms ref calculation]) simp
    ultimately show ?thesis using False True p assms by (simp add: umac_ba_rx_delba_def Let_def ba_okI)
  qed (use False p assms in \<open>simp add: umac_ba_rx_delba_def Let_def ba_okI\<close>)
qed

lemma rx_addba_resp_ok:
  assumes "ba_ok maxlen d"
  shows "ba_result_ok maxlen (umac_ba_rx_addba_resp tx_ok field d)"
proof (cases "length field < 9")
  case True
  then show ?thesis using assms by (simp add: umac_ba_rx_addba_resp_def ba_okI)
next
  case False
  then obtain p t c where p: "get_le16 field 5 = Some p" "fetch field 2 = Some t" "get_le16 field 3 = Some c"
    using get_le16_Some [of 5 field] get_le16_Some [of 3 field] by auto
  let ?tid = "u8 (dot11_ba_parameter_set_field_get_tid p)"
  show ?thesis
  proof (cases "?tid < 6")
    case True
    then have ref: "ref_ok (ORIGINATOR, ?tid)" by (simp add: ref_ok_def)
    then obtain s where s: "get_session (ORIGINATOR, ?tid) d = Some s" using get_session_Some [OF assms] by blast
    have "ba_ok maxlen (put_session (ORIGINATOR, ?tid) s' d)" for s' by (rule put_shrunk [OF assms ref s]) simp
    then show ?thesis using False True p s assms by (simp add: umac_ba_rx_addba_resp_def Let_def ba_okI del: get_session.simps put_session.simps)
  qed (use False p assms in \<open>simp add: umac_ba_rx_addba_resp_def Let_def ba_okI\<close>)
qed

lemma rx_addba_req_ok:
  assumes "ba_ok maxlen d" 
  shows "ba_result_ok maxlen (umac_ba_rx_addba_req False tx_ok ampdu maxlen field d)"
proof (cases "length field < 9")
  case True
  then show ?thesis using assms by (simp add: umac_ba_rx_addba_req_def ba_okI)
next
  case False
  then obtain p t c where p: "get_le16 field 3 = Some p" "fetch field 2 = Some t" "get_le16 field 5 = Some c"
    using get_le16_Some [of 5 field] get_le16_Some [of 3 field] by auto
  let ?tid = "u8 (dot11_ba_parameter_set_field_get_tid p)"
  show ?thesis
  proof (cases "?tid < 6")
    case True
    then have ref: "ref_ok (RECIPIENT, ?tid)" by (simp add: ref_ok_def)
    then obtain s where s: "get_session (RECIPIENT, ?tid) d = Some s" using get_session_Some [OF assms(1)] by blast
    have "ba_ok maxlen (put_session (RECIPIENT, ?tid) s' d)" if "ba_buffer_size s' \<le> maxlen \<or> ba_buffer_size s' \<le> ba_buffer_size s" for s'
      using that put_shrunk [OF assms ref s, of s'] put_session_ok [OF assms ref, of s'] by auto
    moreover have "min n (u16 maxlen) \<le> maxlen" for n using u16_le [of maxlen] by simp
    ultimately show ?thesis using False True p s assms
      by (simp add: umac_ba_rx_addba_req_def umac_ba_tx_addba_resp_def Let_def ba_okI del: get_session.simps put_session.simps min.bounded_iff)
  qed (use False p assms in \<open>simp add: umac_ba_rx_addba_req_def Let_def ba_okI\<close>)
qed

lemma session_init_ok:
  assumes "ba_ok maxlen d"
  shows "ba_result_ok maxlen (umac_ba_session_init tx_ok maxlen token tid ssc timeout d)"
proof (cases "tid < 6")
  case True
  then have ref: "ref_ok (ORIGINATOR, tid)" by (simp add: ref_ok_def)
  then obtain s where s: "get_session (ORIGINATOR, tid) d = Some s" using get_session_Some [OF assms] by blast
  have "ba_ok maxlen (put_session (ORIGINATOR, tid) s' d)" for s' by (rule put_shrunk [OF assms ref s]) simp
  then show ?thesis using True s assms ref
    by (simp add: umac_ba_session_init_def umac_ba_tx_addba_req_def Let_def ba_okI del: get_session.simps put_session.simps)
qed (use assms in \<open>simp add: umac_ba_session_init_def ba_okI\<close>)

lemma session_deinit_ok:
  assumes "ba_ok maxlen d"
  shows "ba_result_ok maxlen (umac_ba_session_deinit tx_ok tid r d)"
proof (cases "tid < 6")
  case True
  then have ref: "ref_ok (r, tid)" by (simp add: ref_ok_def)
  then obtain s where s: "get_session (r, tid) d = Some s" using get_session_Some [OF assms] by blast
  have "ba_ok maxlen (put_session (r, tid) zero_session d)" by (rule put_shrunk [OF assms ref s]) (simp add: zero_session_def)
  then show ?thesis using True s assms
    by (simp add: umac_ba_session_deinit_def Let_def ba_okI del: get_session.simps put_session.simps)
qed (use assms in \<open>simp add: umac_ba_session_deinit_def ba_okI\<close>)

lemma timeout_handler_ok:
  assumes "ba_ok maxlen d" "ref_ok ref"
  shows "ba_result_ok maxlen (umac_ba_addba_req_timeout_handler tx_ok ref d)"
proof -
  obtain s where s: "get_session ref d = Some s" using get_session_Some [OF assms] by blast
  have "ba_ok maxlen (put_session ref (s\<lparr>ba_status := UMAC_BA_DISABLED\<rparr>) d)" by (rule put_shrunk [OF assms s]) simp
  then show ?thesis using s assms
    by (simp add: umac_ba_addba_req_timeout_handler_def Let_def ba_okI del: get_session.simps put_session.simps)
qed

lemma process_rx_frame_ok:
  assumes "ba_ok maxlen d" "length field \<ge> 2"
  shows "ba_result_ok maxlen (umac_ba_process_rx_frame False associated tx_ok ampdu maxlen field d)"
proof -
  obtain a where "fetch field 1 = Some a" "length field \<ge> 1" using assms(2) by auto
  then show ?thesis using rx_delba_ok rx_addba_resp_ok rx_addba_req_ok assms
    by (simp add: umac_ba_process_rx_frame_def ba_okI)
qed

lemma set_expected_ok:
  assumes "ba_ok maxlen d"
  shows "\<exists>d'. umac_ba_set_expected_rx_seq_num tid n d = Some d' \<and> ba_ok maxlen d'"
proof (cases "tid < 6")
  case True
  then have ref: "ref_ok (RECIPIENT, tid)" by (simp add: ref_ok_def)
  then obtain s where s: "get_session (RECIPIENT, tid) d = Some s" using get_session_Some [OF assms] by blast
  have "ba_ok maxlen (put_session (RECIPIENT, tid) (s\<lparr>ba_next_expected_rx_seq_num := n\<rparr>) d)" by (rule put_shrunk [OF assms ref s]) simp
  then show ?thesis using True s assms by (simp add: umac_ba_set_expected_rx_seq_num_def del: get_session.simps put_session.simps)
qed (use assms in \<open>simp add: umac_ba_set_expected_rx_seq_num_def\<close>)

lemma ba_step_ok:
  assumes "ba_sys_ok maxlen s" "long_enough op"
  shows "\<exists>s'. ba_step maxlen op s = Some s' \<and> ba_sys_ok maxlen s'"
proof -
  obtain d timers where s: "s = (d, timers)" by (cases s)
  have ok: "ba_ok maxlen d" "list_all ref_ok timers" using assms(1) s by (simp_all add: ba_sys_ok_def)
  have less: "list_all ref_ok (remove1 ref timers)" "ref \<in> set timers \<Longrightarrow> ref_ok ref" for ref
    using ok(2) notin_set_remove1 by (fastforce simp: list_all_iff)+
  show ?thesis
  proof (cases op)
    case (Set_Expected tid n)
    then show ?thesis using set_expected_ok [OF ok(1), of tid n] ok(2) s by (auto simp: ba_sys_ok_def)
  next
    case (Timer tx_ok ref)
    then show ?thesis using settle_ok [OF timeout_handler_ok [OF ok(1) less(2)] less(1), of ref ref] assms(1) s by auto
  qed (use assms(2) s settle_ok process_rx_frame_ok session_init_ok session_deinit_ok ok in simp_all)
qed

text \<open>Whatever frames arrive, as long as they hold an action, and in whatever order sessions are opened, closed and timed out, no
  operation on the sessions fails, and the reorder buffer of every TID is within the configured length.\<close>

theorem ba_never_fails:
  assumes "list_all long_enough ops" "maxlen \<le> 255"
  shows "\<exists>s. ba_run maxlen ops (umac_ba_deinit, []) = Some s
    \<and> (\<forall>tid. \<exists>n \<le> maxlen. umac_ba_get_reorder_buffer_size tid (fst s) = Some n)"
proof -
  have "\<exists>s'. ba_run maxlen ops s = Some s' \<and> ba_sys_ok maxlen s'" if "ba_sys_ok maxlen s" for s
    using that assms(1)
  proof (induction ops arbitrary: s)
    case (Cons op ops)
    then obtain s1 where "ba_step maxlen op s = Some s1" "ba_sys_ok maxlen s1" using ba_step_ok [of maxlen s op] by auto
    then show ?case using Cons by simp
  qed simp
  moreover have "ba_sys_ok maxlen (umac_ba_deinit, [])" using ba_deinit_ok by (simp add: ba_sys_ok_def)
  ultimately obtain s where s: "ba_run maxlen ops (umac_ba_deinit, []) = Some s" "ba_sys_ok maxlen s" by blast
  have "\<exists>n \<le> maxlen. umac_ba_get_reorder_buffer_size tid (fst s) = Some n" for tid
  proof (cases "tid < 6")
    case True
    then have "ba_buffer_size (ba_recipient (fst s) ! tid) \<le> maxlen" "tid < length (ba_recipient (fst s))"
      using s(2) by (auto simp: ba_sys_ok_def ba_ok_def)
    then show ?thesis using True assms(2) by (simp add: umac_ba_get_reorder_buffer_size_def)
  qed (simp add: umac_ba_get_reorder_buffer_size_def)
  then show ?thesis using s(1) by blast
qed

theorem ba_never_fails_witness:
  "\<exists>s. ba_run 16 [Rx_Frame True True True [3, 128, 7, 66, 4, 0, 0, 0, 0], Session_Init True 9 2 0 0] (umac_ba_deinit, []) = Some s
    \<and> (\<forall>tid. \<exists>n \<le> 16. umac_ba_get_reorder_buffer_size tid (fst s) = Some n)"
  by (rule ba_never_fails) simp_all

text \<open>A block acknowledgement frame that ends before its action, which nothing before excludes, makes the station fail an assertion or
  read behind the frame; every other frame is handled.\<close>

theorem short_ba_frame_fails:
  assumes "ba_ok maxlen d"
  shows "umac_ba_process_rx_frame False True tx_ok ampdu maxlen field d = None \<longleftrightarrow> length field < 2"
proof (cases "length field < 2")
  case True
  then show ?thesis by (simp add: umac_ba_process_rx_frame_def fetch_def)
next
  case False
  then show ?thesis using process_rx_frame_ok [OF assms, of field True tx_ok ampdu] by (auto simp: ba_result_ok_def)
qed

theorem short_ba_frame_fails_witness:
  "umac_ba_process_rx_frame False True True True 16 [3] umac_ba_deinit = None"
  using short_ba_frame_fails [OF ba_deinit_ok [of 16], of True True "[3]"] by simp

subsection \<open>The originator\<close>

definition originator_status :: "nat \<Rightarrow> umac_ba_sta_data \<Rightarrow> umac_ba_status option" where
  "originator_status tid d = map_option ba_status (get_session (ORIGINATOR, tid) d)"

lemma originator_put:
  "ba_ok maxlen d \<Longrightarrow> ref_ok ref \<Longrightarrow> originator_status tid (put_session ref s d) = (if ref = (ORIGINATOR, tid) then Some (ba_status s) else originator_status tid d)"
  using get_put_session [of maxlen d ref "(ORIGINATOR, tid)" s] by (auto simp: originator_status_def)

text \<open>An answer that opens the session.\<close>

definition accepting_response :: "umac_ba_session \<Rightarrow> nat \<Rightarrow> nat list \<Rightarrow> bool" where
  "accepting_response s tid field \<longleftrightarrow> ba_status s = UMAC_BA_REQUESTED \<and> length field \<ge> 9 \<and> field ! 1 = DOT11_BA_ACTION_NDP_ADDBA_RESP
     \<and> field ! 2 = ba_dialog_token s \<and> get_le16 field 3 = Some DOT11_STATUS_SUCCESS
     \<and> (\<exists>p. get_le16 field 5 = Some p \<and> dot11_ba_parameter_set_field_get_tid p = tid
          \<and> dot11_ba_parameter_set_field_get_ba_policy p = DOT11_BA_POLICY_IMMEDIATE)"

lemma tid_u8 [simp]: "u8 (dot11_ba_parameter_set_field_get_tid p) = dot11_ba_parameter_set_field_get_tid p"
  "u8 (dot11_delba_parameter_set_field_get_tid p) = dot11_delba_parameter_set_field_get_tid p"
  by (simp_all add: ba_fields u8_id)

lemma rx_addba_resp_opens:
  assumes "ba_ok maxlen d" "umac_ba_rx_addba_resp tx_ok field d = Some (d', e)" "fetch field 1 = Some 129"
    "originator_status tid d \<noteq> Some UMAC_BA_SUCCESS" "originator_status tid d' = Some UMAC_BA_SUCCESS"
  shows "\<exists>s. get_session (ORIGINATOR, tid) d = Some s \<and> accepting_response s tid field"
proof -
  have changed: "d' \<noteq> d" using assms(4,5) by auto
  then have len: "\<not> length field < 9" using assms(2) by (auto simp: umac_ba_rx_addba_resp_def)
  then obtain p t c where p: "get_le16 field 5 = Some p" "fetch field 2 = Some t" "get_le16 field 3 = Some c"
    using get_le16_Some [of 5 field] get_le16_Some [of 3 field] by auto
  let ?tid = "dot11_ba_parameter_set_field_get_tid p"
  have tid: "?tid < 6" using assms(2) changed len p by (auto simp: umac_ba_rx_addba_resp_def Let_def split: if_splits)
  then have ref: "ref_ok (ORIGINATOR, ?tid)" by (simp add: ref_ok_def)
  then obtain s where s: "get_session (ORIGINATOR, ?tid) d = Some s" using get_session_Some [OF assms(1)] by blast
  have "ba_status s = UMAC_BA_REQUESTED \<and> ba_dialog_token s = t \<and> c = 0 \<and> dot11_ba_parameter_set_field_get_ba_policy p = 1 \<and> tid = ?tid"
    using assms(2,4,5) changed len p tid s originator_put [OF assms(1) ref, of tid]
    by (auto simp: umac_ba_rx_addba_resp_def Let_def simp del: get_session.simps put_session.simps split: if_splits)
  then show ?thesis using s p len assms(3) by (auto simp: accepting_response_def fetch_def split: if_splits)
qed

text \<open>What the other operations do to an originator: they never open it.\<close>

lemma not_opened:
  assumes "ba_ok maxlen d" "originator_status tid d \<noteq> Some UMAC_BA_SUCCESS"
  shows "umac_ba_rx_delba field d = Some (d', e) \<Longrightarrow> originator_status tid d' \<noteq> Some UMAC_BA_SUCCESS"
    "umac_ba_rx_addba_req False tx_ok ampdu maxlen field d = Some (d', e) \<Longrightarrow> originator_status tid d' = originator_status tid d"
    "umac_ba_session_init tx_ok maxlen token t ssc timeout d = Some (d', e) \<Longrightarrow> originator_status tid d' \<noteq> Some UMAC_BA_SUCCESS"
    "umac_ba_session_deinit tx_ok t r d = Some (d', e) \<Longrightarrow> originator_status tid d' \<noteq> Some UMAC_BA_SUCCESS"
    "umac_ba_addba_req_timeout_handler tx_ok ref d = Some (d', e) \<Longrightarrow> ref_ok ref \<Longrightarrow> originator_status tid d' \<noteq> Some UMAC_BA_SUCCESS"
    "umac_ba_set_expected_rx_seq_num t n d = Some d' \<Longrightarrow> originator_status tid d' = originator_status tid d"
proof -
  note put = originator_put [OF assms(1), of "(_, _)" tid, unfolded ref_ok_def snd_conv]
  note unfold = Let_def put bind_eq_Some_conv
  show "umac_ba_rx_delba field d = Some (d', e) \<Longrightarrow> originator_status tid d' \<noteq> Some UMAC_BA_SUCCESS"
    using assms(2) by (auto simp: umac_ba_rx_delba_def unfold simp del: get_session.simps put_session.simps split: if_splits)
  show "umac_ba_rx_addba_req False tx_ok ampdu maxlen field d = Some (d', e) \<Longrightarrow> originator_status tid d' = originator_status tid d"
    using assms(2) by (auto simp: umac_ba_rx_addba_req_def umac_ba_tx_addba_resp_def unfold simp del: get_session.simps put_session.simps split: if_splits)
  show "umac_ba_session_init tx_ok maxlen token t ssc timeout d = Some (d', e) \<Longrightarrow> originator_status tid d' \<noteq> Some UMAC_BA_SUCCESS"
    using assms(2) by (auto simp: umac_ba_session_init_def umac_ba_tx_addba_req_def unfold simp del: get_session.simps put_session.simps split: if_splits)
  show "umac_ba_session_deinit tx_ok t r d = Some (d', e) \<Longrightarrow> originator_status tid d' \<noteq> Some UMAC_BA_SUCCESS"
    using assms(2) by (auto simp: umac_ba_session_deinit_def zero_session_def unfold simp del: get_session.simps put_session.simps split: if_splits)
  show "umac_ba_addba_req_timeout_handler tx_ok ref d = Some (d', e) \<Longrightarrow> ref_ok ref \<Longrightarrow> originator_status tid d' \<noteq> Some UMAC_BA_SUCCESS"
    using assms(2) by (auto simp: umac_ba_addba_req_timeout_handler_def originator_put [OF assms(1)] unfold simp del: get_session.simps put_session.simps split: if_splits)
  show "umac_ba_set_expected_rx_seq_num t n d = Some d' \<Longrightarrow> originator_status tid d' = originator_status tid d"
    using assms(2) by (auto simp: umac_ba_set_expected_rx_seq_num_def unfold simp del: get_session.simps put_session.simps split: if_splits)
qed

lemma permitted_status:
  assumes "ba_ok maxlen d"
  shows "umac_ba_is_ampdu_permitted tid d = Some (tid < 6 \<and> originator_status tid d = Some UMAC_BA_SUCCESS)"
  using get_session_Some [OF assms, of "(ORIGINATOR, tid)"]
  by (auto simp: umac_ba_is_ampdu_permitted_def originator_status_def ref_ok_def simp del: get_session.simps)

text \<open>C21. Aggregation is permitted only when the peer agreed: it becomes permitted for a TID only by an answer to the request that is pending,
  with its token, that accepts it with the immediate policy.\<close>

theorem ampdu_only_when_agreed:
  assumes "ba_sys_ok maxlen s" "ba_step maxlen op s = Some s'"
    "umac_ba_is_ampdu_permitted tid (fst s) = Some False" "umac_ba_is_ampdu_permitted tid (fst s') = Some True"
  shows "\<exists>tx_ok ampdu field session. op = Rx_Frame True tx_ok ampdu field
    \<and> get_session (ORIGINATOR, tid) (fst s) = Some session \<and> accepting_response session tid field"
proof -
  obtain d timers d' timers' where s: "s = (d, timers)" "s' = (d', timers')" by (cases s; cases s')
  have ok: "ba_ok maxlen d" "list_all ref_ok timers" using assms(1) s by (simp_all add: ba_sys_ok_def)
  have tid: "tid < 6" using assms(4) by (auto simp: umac_ba_is_ampdu_permitted_def split: if_splits)
  have before: "originator_status tid d \<noteq> Some UMAC_BA_SUCCESS" using assms(3) permitted_status [OF ok(1)] tid s by simp
  have after: "originator_status tid d' = Some UMAC_BA_SUCCESS"
    using assms(4) tid s by (auto simp: umac_ba_is_ampdu_permitted_def originator_status_def bind_eq_Some_conv)
  have ref: "ref \<in> set timers \<Longrightarrow> ref_ok ref" for ref using ok(2) by (simp add: list_all_iff)
  note kept = not_opened [OF ok(1) before]
  show ?thesis
  proof (cases op)
    case (Rx_Frame associated tx_ok ampdu field)
    then obtain e where r: "umac_ba_process_rx_frame False associated tx_ok ampdu maxlen field d = Some (d', e)"
      using assms(2) s by (auto simp: settle_def bind_eq_Some_conv)
    then have a: associated using before after by (auto simp: umac_ba_process_rx_frame_def split: if_splits)
    have "fetch field 1 = Some 129 \<and> umac_ba_rx_addba_resp tx_ok field d = Some (d', e)"
      using r a before after kept(1,2) by (auto simp: umac_ba_process_rx_frame_def bind_eq_Some_conv split: if_splits)
    then show ?thesis using rx_addba_resp_opens [OF ok(1) _ _ before after] Rx_Frame a s by auto
  next
    case (Session_Init tx_ok token t ssc timeout)
    then show ?thesis using assms(2) s kept(3) after by (auto simp: settle_def bind_eq_Some_conv)
  next
    case (Session_Deinit tx_ok t r)
    then show ?thesis using assms(2) s kept(4) after by (auto simp: settle_def bind_eq_Some_conv)
  next
    case (Timer tx_ok r)
    then show ?thesis using assms(2) s kept(5) [of tx_ok r] before after ref by (auto simp: settle_def bind_eq_Some_conv split: if_splits)
  next
    case (Set_Expected t n)
    then show ?thesis using assms(2) s kept(6) before after by (auto simp: bind_eq_Some_conv)
  qed
qed

text \<open>A station whose session for the TID 2 waits for the answer to the token 9.\<close>

definition requested_sample :: umac_ba_sta_data where
  "requested_sample = umac_ba_deinit\<lparr>ba_originator := (ba_originator umac_ba_deinit)[2 :=
     zero_session\<lparr>ba_status := UMAC_BA_REQUESTED, ba_tid := 2, ba_dialog_token := 9, ba_buffer_size := 16, ba_attempt_backoff := 100\<rparr>]\<rparr>"

lemma requested_sample_ok: "ba_sys_ok 16 (requested_sample, timers) = list_all ref_ok timers"
  by (auto simp: ba_sys_ok_def ba_ok_def requested_sample_def umac_ba_deinit_def zero_session_def)

theorem ampdu_only_when_agreed_witness:
  "\<exists>s'. ba_step 16 (Rx_Frame True True True [3, 129, 9, 0, 0, 10, 2, 0, 0]) (requested_sample, []) = Some s'
    \<and> umac_ba_is_ampdu_permitted 2 (fst s') = Some True
    \<and> (\<exists>tx_ok ampdu field session. Rx_Frame True True True [3, 129, 9, 0, 0, 10, 2, 0, 0] = Rx_Frame True tx_ok ampdu field
      \<and> get_session (ORIGINATOR, 2) requested_sample = Some session \<and> accepting_response session 2 field)"
proof -
  let ?op = "Rx_Frame True True True [3, 129, 9, 0, 0, 10, 2, 0, 0]"
  obtain s' where s': "ba_step 16 ?op (requested_sample, []) = Some s'" "umac_ba_is_ampdu_permitted 2 (fst s') = Some True"
    by (simp add: settle_def umac_ba_process_rx_frame_def umac_ba_rx_addba_resp_def get_le16_def Let_def ba_fields fetch_def
      requested_sample_def umac_ba_deinit_def zero_session_def umac_ba_is_ampdu_permitted_def u8_def)
  moreover have "umac_ba_is_ampdu_permitted 2 (fst (requested_sample, [])) = Some False"
    by (simp add: umac_ba_is_ampdu_permitted_def requested_sample_def umac_ba_deinit_def)
  ultimately show ?thesis
    using ampdu_only_when_agreed [of 16 "(requested_sample, [])" ?op s' 2] requested_sample_ok by auto
qed

fun never_answers :: "nat \<Rightarrow> ba_op \<Rightarrow> bool" where
  "never_answers tid (Rx_Frame associated tx_ok ampdu field) \<longleftrightarrow> length field \<ge> 2 \<and> field ! 1 = DOT11_BA_ACTION_NDP_ADDBA_REQ"
| "never_answers tid (Session_Deinit tx_ok t r) \<longleftrightarrow> (r, t) \<noteq> (ORIGINATOR, tid)"
| "never_answers tid _ \<longleftrightarrow> True"

definition stuck :: "nat \<Rightarrow> nat \<Rightarrow> umac_ba_session \<Rightarrow> ba_system \<Rightarrow> bool" where
  "stuck maxlen tid session s \<longleftrightarrow> ba_sys_ok maxlen s \<and> get_session (ORIGINATOR, tid) (fst s) = Some session
     \<and> ba_status session = UMAC_BA_REQUESTED \<and> (ORIGINATOR, tid) \<notin> set (snd s)"

text \<open>An operation that leaves the session and its timeout alone.\<close>

definition leaves_alone :: "session_ref \<Rightarrow> umac_ba_sta_data \<Rightarrow> ba_result \<Rightarrow> bool" where
  "leaves_alone ref d r \<longleftrightarrow> (\<forall>d' effects. r = Some (d', effects) \<longrightarrow>
     get_session ref d' = get_session ref d \<and> (\<forall>ms. Register_Timeout ms ref \<notin> set effects))"

lemma no_timer: "ref \<notin> set timers \<Longrightarrow> \<forall>ms. Register_Timeout ms ref \<notin> set effects \<Longrightarrow> ref \<notin> set (fold apply_effect effects timers)"
proof (induction effects arbitrary: timers)
  case (Cons e effects)
  then have "ref \<notin> set (apply_effect e timers)" by (cases e) auto
  then show ?case using Cons by simp
qed simp

lemma no_timeout_delba [simp]: "Register_Timeout ms ref \<notin> set (umac_ba_tx_delba tx_ok r tid reason)"
  by (simp add: umac_ba_tx_delba_def Let_def tx_action_def)

lemma no_timeout_tx [simp]: "Register_Timeout ms ref \<notin> set (tx_action tx_ok field)"
  by (simp add: tx_action_def)

lemma leaves_alone_same: "(\<forall>ms. Register_Timeout ms ref \<notin> set effects) \<Longrightarrow> leaves_alone ref d (Some (d, effects))"
  by (simp add: leaves_alone_def)

lemma leaves_alone_put:
  "ba_ok maxlen d \<Longrightarrow> ref_ok ref' \<Longrightarrow> ref \<noteq> ref' \<Longrightarrow> (\<forall>ms. Register_Timeout ms ref \<notin> set effects) \<Longrightarrow>
    leaves_alone ref d (Some (put_session ref' s d, effects))"
  by (simp add: leaves_alone_def get_put_session)

lemma leaves_alone_None [simp]: "leaves_alone ref d None"
  by (simp add: leaves_alone_def)

lemma init_leaves_alone:
  assumes "ba_ok maxlen d" "get_session (ORIGINATOR, tid) d = Some session" "ba_status session = UMAC_BA_REQUESTED"
  shows "leaves_alone (ORIGINATOR, tid) d (umac_ba_session_init tx_ok maxlen token t ssc timeout d)"
proof (cases "t < 6 \<and> t \<noteq> tid")
  case True
  then obtain s where "get_session (ORIGINATOR, t) d = Some s" using get_session_Some [OF assms(1), of "(ORIGINATOR, t)"] by (auto simp: ref_ok_def)
  then show ?thesis using True leaves_alone_put [OF assms(1), of "(ORIGINATOR, t)" "(ORIGINATOR, tid)"]
    by (simp add: umac_ba_session_init_def umac_ba_tx_addba_req_def Let_def ref_ok_def leaves_alone_same del: get_session.simps put_session.simps)
next
  case False
  then have "t \<ge> 6 \<or> t = tid" by auto
  then show ?thesis using assms(2,3) by (auto simp: umac_ba_session_init_def leaves_alone_same simp del: get_session.simps)
qed

lemma deinit_leaves_alone:
  assumes "ba_ok maxlen d" "(r, t) \<noteq> (ORIGINATOR, tid)"
  shows "leaves_alone (ORIGINATOR, tid) d (umac_ba_session_deinit tx_ok t r d)"
proof (cases "t < 6")
  case True
  then obtain s where "get_session (r, t) d = Some s" using get_session_Some [OF assms(1), of "(r, t)"] by (auto simp: ref_ok_def)
  moreover have "(ORIGINATOR, tid) \<noteq> (r, t)" using assms(2) by metis
  ultimately show ?thesis using True leaves_alone_put [OF assms(1), of "(r, t)" "(ORIGINATOR, tid)"]
    by (simp add: umac_ba_session_deinit_def Let_def ref_ok_def leaves_alone_same del: get_session.simps put_session.simps)
qed (simp add: umac_ba_session_deinit_def leaves_alone_same)

lemma timeout_leaves_alone:
  assumes "ba_ok maxlen d" "ref_ok ref'" "ref' \<noteq> ref"
  shows "leaves_alone ref d (umac_ba_addba_req_timeout_handler tx_ok ref' d)"
proof -
  obtain s where "get_session ref' d = Some s" using get_session_Some [OF assms(1,2)] by blast
  then show ?thesis using leaves_alone_put [OF assms(1,2), of ref] assms(3)
    by (simp add: umac_ba_addba_req_timeout_handler_def Let_def leaves_alone_same del: get_session.simps put_session.simps)
qed

lemma addba_req_leaves_alone:
  assumes "ba_ok maxlen d"
  shows "leaves_alone (ORIGINATOR, tid) d (umac_ba_rx_addba_req False tx_ok ampdu maxlen field d)"
proof (cases "length field < 9")
  case True
  then show ?thesis by (simp add: umac_ba_rx_addba_req_def leaves_alone_same)
next
  case False
  then obtain p t c where p: "get_le16 field 3 = Some p" "fetch field 2 = Some t" "get_le16 field 5 = Some c"
    using get_le16_Some [of 5 field] get_le16_Some [of 3 field] by auto
  let ?tid = "dot11_ba_parameter_set_field_get_tid p"
  show ?thesis
  proof (cases "?tid < 6 \<and> ampdu")
    case True
    then have ref: "ref_ok (RECIPIENT, ?tid)" by (simp add: ref_ok_def)
    then obtain s where s: "get_session (RECIPIENT, ?tid) d = Some s" using get_session_Some [OF assms] by blast
    show ?thesis using False True p s leaves_alone_put [OF assms ref, of "(ORIGINATOR, tid)"]
      by (simp add: umac_ba_rx_addba_req_def umac_ba_tx_addba_resp_def Let_def leaves_alone_same del: get_session.simps put_session.simps)
  qed (use False p in \<open>auto simp: umac_ba_rx_addba_req_def Let_def leaves_alone_same\<close>)
qed

lemma set_expected_leaves_alone:
  assumes "ba_ok maxlen d" "umac_ba_set_expected_rx_seq_num t n d = Some d'"
  shows "get_session (ORIGINATOR, tid) d' = get_session (ORIGINATOR, tid) d"
  using assms(2) get_put_session [OF assms(1), of "(_, _)", unfolded ref_ok_def snd_conv]
  by (auto simp: umac_ba_set_expected_rx_seq_num_def bind_eq_Some_conv simp del: get_session.simps put_session.simps split: if_splits)

lemma stuck_settle:
  assumes "stuck maxlen tid session (d, timers)" "settle timers' r = Some s'" "ba_sys_ok maxlen s'" "set timers' \<subseteq> set timers"
    "leaves_alone (ORIGINATOR, tid) d r"
  shows "stuck maxlen tid session s'"
proof -
  obtain d' effects where r: "r = Some (d', effects)" "s' = (d', fold apply_effect effects timers')"
    using assms(2) by (auto simp: settle_def bind_eq_Some_conv)
  have same: "get_session (ORIGINATOR, tid) d' = get_session (ORIGINATOR, tid) d" "\<forall>ms. Register_Timeout ms (ORIGINATOR, tid) \<notin> set effects"
    using assms(5) r(1) by (simp_all add: leaves_alone_def)
  have "(ORIGINATOR, tid) \<notin> set timers'" using assms(1,4) by (auto simp: stuck_def)
  then show ?thesis using no_timer [OF _ same(2)] same(1) assms(1,3) r(2) by (simp add: stuck_def del: get_session.simps)
qed

lemma stuck_step:
  assumes "stuck maxlen tid session s" "never_answers tid op"
  shows "\<exists>s'. ba_step maxlen op s = Some s' \<and> stuck maxlen tid session s'"
proof -
  obtain d timers where s: "s = (d, timers)" by (cases s)
  have st: "ba_sys_ok maxlen (d, timers)" "ba_ok maxlen d" "get_session (ORIGINATOR, tid) d = Some session"
    "ba_status session = UMAC_BA_REQUESTED" "(ORIGINATOR, tid) \<notin> set timers"
    using assms(1) s by (simp_all add: stuck_def ba_sys_ok_def)
  have "long_enough op" using assms(2) by (cases op) simp_all
  then obtain s' where s': "ba_step maxlen op s = Some s'" "ba_sys_ok maxlen s'" using ba_step_ok [OF st(1)] s by blast
  have stuck: "stuck maxlen tid session (d, timers)" using assms(1) s by simp
  have ref: "ref \<in> set timers \<Longrightarrow> ref_ok ref \<and> ref \<noteq> (ORIGINATOR, tid)" for ref using st(1,5) by (auto simp: ba_sys_ok_def list_all_iff)
  have "stuck maxlen tid session s'"
  proof (cases op)
    case (Rx_Frame associated tx_ok ampdu field)
    have "leaves_alone (ORIGINATOR, tid) d (umac_ba_process_rx_frame False associated tx_ok ampdu maxlen field d)"
      using addba_req_leaves_alone [OF st(2)] assms(2) Rx_Frame by (simp add: umac_ba_process_rx_frame_def) (simp add: leaves_alone_def)
    then show ?thesis using stuck_settle [OF stuck _ s'(2)] s'(1) s Rx_Frame by auto
  next
    case (Session_Init tx_ok token t ssc timeout)
    then show ?thesis using stuck_settle [OF stuck _ s'(2) _ init_leaves_alone [OF st(2,3,4)]] s'(1) s by auto
  next
    case (Session_Deinit tx_ok t r)
    then show ?thesis using stuck_settle [OF stuck _ s'(2) _ deinit_leaves_alone [OF st(2)]] s'(1) s assms(2) by auto
  next
    case (Timer tx_ok r)
    show ?thesis
    proof (cases "r \<in> set timers")
      case True
      then show ?thesis using stuck_settle [OF stuck _ s'(2) set_remove1_subset timeout_leaves_alone [OF st(2)]] s'(1) s Timer ref [OF True] by auto
    next
      case False
      then show ?thesis using s' s Timer stuck by simp
    qed
  next
    case (Set_Expected t n)
    then show ?thesis using s' s set_expected_leaves_alone [OF st(2)] st by (auto simp: stuck_def bind_eq_Some_conv)
  qed
  then show ?thesis using s'(1) by blast
qed

text \<open>A response with a wrong token leaves a session that this station cannot open again: the timeout of the request is cancelled
  before the response is looked at, and the session stays requested. Whatever is opened, timed out or requested by the
  peer afterwards, the session stays as it is and aggregation stays off, until the peer sends another response or closes
  the session, or the session is closed here.\<close>

theorem session_stuck_after_wrong_token:
  assumes "ba_sys_ok maxlen (d, timers)" "get_session (ORIGINATOR, tid) d = Some session" "ba_status session = UMAC_BA_REQUESTED"
    "length field = 9" "field ! 1 = DOT11_BA_ACTION_NDP_ADDBA_RESP" "field ! 2 \<noteq> ba_dialog_token session"
    "get_le16 field 5 = Some p" "dot11_ba_parameter_set_field_get_tid p = tid" "list_all (never_answers tid) ops"
  shows "\<exists>s. ba_run maxlen (Rx_Frame True tx_ok ampdu field # ops) (d, timers) = Some s
    \<and> get_session (ORIGINATOR, tid) (fst s) = Some session \<and> umac_ba_is_ampdu_permitted tid (fst s) = Some False"
proof -
  have tid: "tid < 6" using assms(1,2) by (auto simp: ba_sys_ok_def ba_ok_def fetch_def split: if_splits)
  let ?timers = "filter (\<lambda>r. r \<noteq> (ORIGINATOR, tid)) timers"
  have first: "ba_step maxlen (Rx_Frame True tx_ok ampdu field) (d, timers) = Some (d, ?timers)"
    using assms(2-8) tid by (simp add: settle_def umac_ba_process_rx_frame_def umac_ba_rx_addba_resp_def Let_def)
  have start: "stuck maxlen tid session (d, ?timers)" using assms(1-3) by (auto simp: stuck_def ba_sys_ok_def list_all_iff)
  have "\<exists>s'. ba_run maxlen ops s = Some s' \<and> stuck maxlen tid session s'" if "stuck maxlen tid session s" for s
    using that assms(9)
  proof (induction ops arbitrary: s)
    case (Cons op ops)
    then obtain s1 where "ba_step maxlen op s = Some s1" "stuck maxlen tid session s1" using stuck_step [of maxlen tid session s op] by auto
    then show ?case using Cons by simp
  qed simp
  then obtain s' where "ba_run maxlen ops (d, ?timers) = Some s'" "stuck maxlen tid session s'" using start by blast
  then have "ba_run maxlen (Rx_Frame True tx_ok ampdu field # ops) (d, timers) = Some s'" "stuck maxlen tid session s'"
    using first by (simp_all del: ba_step.simps)
  then show ?thesis using tid by (auto simp: stuck_def umac_ba_is_ampdu_permitted_def)
qed

theorem session_stuck_after_wrong_token_witness:
  "\<exists>s. ba_run 16 (Rx_Frame True True True [3, 129, 8, 0, 0, 10, 2, 0, 0] # [Session_Init True 5 2 0 0, Timer True (ORIGINATOR, 2)])
      (requested_sample, [(ORIGINATOR, 2)]) = Some s
    \<and> get_session (ORIGINATOR, 2) (fst s) = Some (ba_originator requested_sample ! 2) \<and> umac_ba_is_ampdu_permitted 2 (fst s) = Some False"
  by (rule session_stuck_after_wrong_token [where p = 522], simp add: requested_sample_ok ref_ok_def)
    (simp_all add: requested_sample_def umac_ba_deinit_def get_le16_def ba_fields fetch_def)

subsection \<open>Two stations\<close>

lemma le16_length [simp]: "length (le16 v) = 2"
  by (simp add: le16_def)

lemma get_le16_frame:
  assumes "v < 65536"
  shows "get_le16 (x # y # z # le16 v @ post) 3 = Some v"
    "get_le16 (x # y # z # le16 u @ le16 v @ post) 5 = Some v"
  using get_le16_le16 [OF assms, of 3 "[x, y, z]" post] get_le16_le16 [OF assms, of 5 "[x, y, z] @ le16 u" post] by simp_all

lemma frame_bytes:
  "fetch (x # y # z # bs) 1 = Some y" "fetch (x # y # z # bs) 2 = Some z"
  by (simp_all add: fetch_def)

text \<open>C20. The two halves of the agreement fit: the request that \<open>umac_ba_session_init\<close> sends is one the other station answers, the answer opens the
  session here, and both stations then know the same TID, aggregation is permitted, and the originator's window is exactly the
  reorder buffer that the recipient set aside, the smaller of the two configured lengths.\<close>

theorem ba_handshake:
  assumes "ba_ok ma da" "ba_ok mb db" "tid < 6" "ma \<le> 255" "mb \<le> 255"
    "get_session (ORIGINATOR, tid) da = Some a" "ba_status a = UMAC_BA_DISABLED"
    "get_session (RECIPIENT, tid) db = Some b" "ba_status b = UMAC_BA_DISABLED"
  shows "\<exists>da1 req ms db1 resp da2.
    umac_ba_session_init True ma token tid ssc 0 da = Some (da1, [Tx_Action req, Register_Timeout ms (ORIGINATOR, tid)])
    \<and> umac_ba_process_rx_frame dev True True True mb req db = Some (db1, [Tx_Action resp])
    \<and> umac_ba_process_rx_frame dev True True True ma resp da1 = Some (da2, [Cancel_Timeout (ORIGINATOR, tid)])
    \<and> umac_ba_is_ampdu_permitted tid da2 = Some True
    \<and> map_option ba_buffer_size (get_session (ORIGINATOR, tid) da2) = Some (min ma mb)
    \<and> umac_ba_get_reorder_buffer_size tid db1 = Some (min ma mb)
    \<and> umac_ba_get_expected_rx_seq_num tid db1 = Some (Some (ba_next_expected_rx_seq_num b))"
proof -
  have ref: "ref_ok (ORIGINATOR, tid)" "ref_ok (RECIPIENT, tid)" using assms(3) by (simp_all add: ref_ok_def)
  define a1 where "a1 = a\<lparr>ba_tid := tid, ba_timeout := 0, ba_dialog_token := u8 token, ba_buffer_size := ma, ba_starting_seq_ctrl := ssc,
    ba_attempt_backoff := umac_ba_calculate_addba_attempt_backoff (ba_attempt_backoff a), ba_status := UMAC_BA_REQUESTED\<rparr>"
  let ?da1 = "put_session (ORIGINATOR, tid) a1 da"
  let ?req = "[3, 128, u8 token] @ le16 (umac_ba_build_param_set a1) @ le16 0 @ le16 ssc"
  define b1 where "b1 = b\<lparr>ba_tid := tid, ba_buffer_size := min ma mb, ba_dialog_token := u8 token, ba_timeout := 0, ba_status := UMAC_BA_SUCCESS\<rparr>"
  let ?db1 = "put_session (RECIPIENT, tid) b1 db"
  let ?resp = "[3, 129, u8 token] @ le16 0 @ le16 (umac_ba_build_param_set b1) @ le16 0"
  have u16: "u16 ma = ma" "u16 mb = mb" using assms(4,5) by (simp_all add: u16_def)
  have init: "umac_ba_session_init True ma token tid ssc 0 da = Some (?da1, [Tx_Action ?req, Register_Timeout (ba_attempt_backoff a1) (ORIGINATOR, tid)])"
    using assms(3,6,7) u16 by (simp add: umac_ba_session_init_def umac_ba_tx_addba_req_def tx_action_def a1_def umac_ba_build_param_set_def
        Let_def del: get_session.simps put_session.simps)
  have pa: "umac_ba_build_param_set a1 < 65536" "dot11_ba_parameter_set_field_get_tid (umac_ba_build_param_set a1) = tid"
    "dot11_ba_parameter_set_field_get_ba_policy (umac_ba_build_param_set a1) = 1"
    "dot11_ba_parameter_set_field_get_buffer_size (umac_ba_build_param_set a1) = ma"
    using param_set_fields [of a1] assms(3,4) by (simp_all add: a1_def)
  have pb: "umac_ba_build_param_set b1 < 65536" "dot11_ba_parameter_set_field_get_tid (umac_ba_build_param_set b1) = tid"
    "dot11_ba_parameter_set_field_get_ba_policy (umac_ba_build_param_set b1) = 1"
    "dot11_ba_parameter_set_field_get_buffer_size (umac_ba_build_param_set b1) = min ma mb"
    using param_set_fields [of b1] assms(3-5) by (simp_all add: b1_def)
  have answered: "umac_ba_process_rx_frame dev True True True mb ?req db = Some (?db1, [Tx_Action ?resp])"
    using assms(3,8,9) pa u16
    by (simp add: umac_ba_process_rx_frame_def umac_ba_rx_addba_req_def umac_ba_tx_addba_resp_def tx_action_def get_le16_frame frame_bytes
        b1_def umac_ba_build_param_set_def Let_def del: get_session.simps put_session.simps)
  have opened: "get_session (ORIGINATOR, tid) ?da1 = Some a1" using get_put_session [OF assms(1) ref(1)] by (simp del: get_session.simps put_session.simps)
  define a2 where "a2 = a1\<lparr>ba_buffer_size := min ma mb, ba_status := UMAC_BA_SUCCESS\<rparr>"
  let ?da2 = "put_session (ORIGINATOR, tid) a2 ?da1"
  have closed: "umac_ba_process_rx_frame dev True True True ma ?resp ?da1 = Some (?da2, [Cancel_Timeout (ORIGINATOR, tid)])"
    using assms(3) pb opened
    by (simp add: umac_ba_process_rx_frame_def umac_ba_rx_addba_resp_def get_le16_frame frame_bytes a2_def a1_def min.commute [of mb]
        Let_def del: get_session.simps put_session.simps)
  have ok1: "ba_ok ma ?da1" by (rule put_shrunk [OF assms(1) ref(1) assms(6)]) simp
  have "get_session (ORIGINATOR, tid) ?da2 = Some a2" "get_session (RECIPIENT, tid) ?db1 = Some b1"
    using get_put_session [OF ok1 ref(1)] get_put_session [OF assms(2) ref(2)] by (simp_all del: get_session.simps put_session.simps)
  moreover have "ba_status a2 = UMAC_BA_SUCCESS" "ba_status b1 = UMAC_BA_SUCCESS" "ba_buffer_size a2 = min ma mb" "ba_buffer_size b1 = min ma mb"
    "ba_next_expected_rx_seq_num b1 = ba_next_expected_rx_seq_num b" by (simp_all add: a2_def b1_def)
  ultimately have "umac_ba_is_ampdu_permitted tid ?da2 = Some True \<and> map_option ba_buffer_size (get_session (ORIGINATOR, tid) ?da2) = Some (min ma mb)
    \<and> umac_ba_get_reorder_buffer_size tid ?db1 = Some (min ma mb)
    \<and> umac_ba_get_expected_rx_seq_num tid ?db1 = Some (Some (ba_next_expected_rx_seq_num b))"
    using assms(3,4) by (simp add: umac_ba_is_ampdu_permitted_def umac_ba_get_reorder_buffer_size_def umac_ba_get_expected_rx_seq_num_def
        del: get_session.simps put_session.simps)
  then show ?thesis using init answered closed by blast
qed

theorem ba_handshake_witness:
  "\<exists>da1 req ms db1 resp da2.
    umac_ba_session_init True 16 300 2 48 0 umac_ba_deinit = Some (da1, [Tx_Action req, Register_Timeout ms (ORIGINATOR, 2)])
    \<and> umac_ba_process_rx_frame True True True True 8 req umac_ba_deinit = Some (db1, [Tx_Action resp])
    \<and> umac_ba_process_rx_frame True True True True 16 resp da1 = Some (da2, [Cancel_Timeout (ORIGINATOR, 2)])
    \<and> umac_ba_is_ampdu_permitted 2 da2 = Some True
    \<and> map_option ba_buffer_size (get_session (ORIGINATOR, 2) da2) = Some (min 16 8)
    \<and> umac_ba_get_reorder_buffer_size 2 db1 = Some (min 16 8)
    \<and> umac_ba_get_expected_rx_seq_num 2 db1 = Some (Some (ba_next_expected_rx_seq_num zero_session))"
  by (rule ba_handshake [where a = zero_session]) (simp_all add: ba_deinit_ok, simp_all add: umac_ba_deinit_def, simp_all add: zero_session_def)

end
