(* ===== verification/Keys.thy ===== *)
theory Keys
  imports Prelude
begin

section \<open>Keys and replay detection\<close>

text \<open>
  The keychain of a station, \<open>morselib/src/umac/keys/connection_keys.c\<close> and \<open>umac_keys.c\<close>, and the check of the packet
  number of a protected frame, \<open>umac/supplicant_shim/ccmp.c\<close>. A key is a slot of the pool; \<open>keys\<close> points from a key
  identifier to its slot, a position in the pool. What is installed in the chip is the driver's: a call of it is a result
  of the function that makes it, its status a parameter.
\<close>

subsection \<open>The keychain\<close>

abbreviation (input) UMAC_CONNECTION_KEY_MAX_LEN :: nat where "UMAC_CONNECTION_KEY_MAX_LEN \<equiv> 32"
abbreviation (input) UMAC_KEYS_NUM_KEY_IDS :: nat where "UMAC_KEYS_NUM_KEY_IDS \<equiv> 6"
abbreviation (input) UMAC_KEYS_KEYCHAIN_LEN :: nat where "UMAC_KEYS_KEYCHAIN_LEN \<equiv> 6"
abbreviation (input) UMAC_KEY_RX_COUNTER_NUM :: nat where "UMAC_KEY_RX_COUNTER_NUM \<equiv> 2"

datatype umac_key_type = UMAC_KEY_TYPE_BLANK | UMAC_KEY_TYPE_PAIRWISE | UMAC_KEY_TYPE_GROUP | UMAC_KEY_TYPE_IGTK

fun key_type_number :: "umac_key_type \<Rightarrow> nat" where
  "key_type_number UMAC_KEY_TYPE_BLANK = 0"
| "key_type_number UMAC_KEY_TYPE_PAIRWISE = 1"
| "key_type_number UMAC_KEY_TYPE_GROUP = 2"
| "key_type_number UMAC_KEY_TYPE_IGTK = 3"

datatype umac_key_rx_counter_space = RX_COUNTER_SPACE_DEFAULT | RX_COUNTER_SPACE_IND_ROBUST_MGMT

fun space_number :: "umac_key_rx_counter_space \<Rightarrow> nat" where
  "space_number RX_COUNTER_SPACE_DEFAULT = 0"
| "space_number RX_COUNTER_SPACE_IND_ROBUST_MGMT = 1"

record umac_key =
  uk_id :: nat
  uk_type :: umac_key_type
  uk_data :: "nat list"
  uk_len :: nat
  uk_rx_seq :: "nat list"
  uk_tx_seq :: nat

record connection_keys_data =
  ck_keys :: "nat option list"
  ck_pool :: "umac_key list"
  ck_active :: "int list"

definition blank_key :: umac_key where
  "blank_key = \<lparr>uk_id = 0, uk_type = UMAC_KEY_TYPE_BLANK, uk_data = replicate UMAC_CONNECTION_KEY_MAX_LEN 0, uk_len = 0,
     uk_rx_seq = replicate UMAC_KEY_RX_COUNTER_NUM 0, uk_tx_seq = 0\<rparr>"

definition connection_keys_init :: connection_keys_data where
  "connection_keys_init = \<lparr>ck_keys = replicate UMAC_KEYS_NUM_KEY_IDS None,
     ck_pool = replicate UMAC_KEYS_KEYCHAIN_LEN blank_key, ck_active = replicate 4 (- 1)\<rparr>"

fun alloc_scan :: "umac_key list \<Rightarrow> nat \<Rightarrow> nat option" where
  "alloc_scan [] i = None"
| "alloc_scan (k # ks) i = (if uk_type k = UMAC_KEY_TYPE_BLANK then Some i else alloc_scan ks (i + 1))"

definition connection_keys_alloc :: "connection_keys_data \<Rightarrow> nat option" where
  "connection_keys_alloc d = alloc_scan (ck_pool d) 0"

definition key_at :: "connection_keys_data \<Rightarrow> nat \<Rightarrow> umac_key option option" where
  "key_at d key_id = do {
     slot \<leftarrow> fetch (ck_keys d) key_id;
     case slot of None \<Rightarrow> Some None | Some p \<Rightarrow> do { k \<leftarrow> fetch (ck_pool d) p; Some (Some k) }
   }"

definition connection_keys_free :: "nat \<Rightarrow> connection_keys_data \<Rightarrow> connection_keys_data option" where
  "connection_keys_free key_id d = do {
     k \<leftarrow> key_at d key_id;
     k \<leftarrow> k;
     active \<leftarrow> fetch (ck_active d) (key_type_number (uk_type k));
     actives \<leftarrow> (if active = int key_id then store (ck_active d) (key_type_number (uk_type k)) (- 1) else Some (ck_active d));
     slot \<leftarrow> fetch (ck_keys d) key_id;
     p \<leftarrow> slot;
     pool \<leftarrow> store (ck_pool d) p blank_key;
     keys \<leftarrow> store (ck_keys d) key_id None;
     Some \<lparr>ck_keys = keys, ck_pool = pool, ck_active = actives\<rparr>
   }"

definition connection_keys_key_id_is_valid :: "nat \<Rightarrow> bool" where
  "connection_keys_key_id_is_valid key_id \<longleftrightarrow> key_id < UMAC_KEYS_NUM_KEY_IDS"

definition connection_keys_key_is_installed :: "nat \<Rightarrow> connection_keys_data \<Rightarrow> bool option" where
  "connection_keys_key_is_installed key_id d = do { slot \<leftarrow> fetch (ck_keys d) key_id; Some (slot \<noteq> None) }"

definition umac_keys_key_params_are_valid :: "umac_key \<Rightarrow> bool" where
  "umac_keys_key_params_are_valid key \<longleftrightarrow> connection_keys_key_id_is_valid (uk_id key)
     \<and> uk_type key \<noteq> UMAC_KEY_TYPE_BLANK \<and> uk_len key \<le> UMAC_CONNECTION_KEY_MAX_LEN"

definition connection_keys_install_key :: "umac_key \<Rightarrow> connection_keys_data \<Rightarrow> (bool \<times> connection_keys_data) option" where
  "connection_keys_install_key key d =
     (if \<not> umac_keys_key_params_are_valid key then Some (False, d)
      else do {
        installed \<leftarrow> connection_keys_key_is_installed (uk_id key) d;
        new_key \<leftarrow> (if installed then fetch (ck_keys d) (uk_id key) else Some (connection_keys_alloc d));
        case new_key of
          None \<Rightarrow> Some (False, d)
        | Some p \<Rightarrow> do {
            keys \<leftarrow> store (ck_keys d) (uk_id key) (Some p);
            k \<leftarrow> fetch (ck_pool d) p;
            bytes \<leftarrow> mem_read (uk_data key) 0 (uk_len key);
            data \<leftarrow> mem_write (uk_data k) 0 bytes;
            rx_seq \<leftarrow> mem_read (uk_rx_seq key) 0 UMAC_KEY_RX_COUNTER_NUM;
            pool \<leftarrow> store (ck_pool d) p (k\<lparr>uk_id := uk_id key, uk_type := uk_type key, uk_rx_seq := rx_seq,
              uk_tx_seq := uk_tx_seq key, uk_data := data, uk_len := uk_len key\<rparr>);
            active \<leftarrow> store (ck_active d) (key_type_number (uk_type key)) (int (uk_id key));
            Some (True, \<lparr>ck_keys = keys, ck_pool = pool, ck_active = active\<rparr>)
          }
      })"

definition connection_keys_uninstall_key :: "nat \<Rightarrow> connection_keys_data \<Rightarrow> (bool \<times> connection_keys_data) option" where
  "connection_keys_uninstall_key key_id d =
     (if \<not> connection_keys_key_id_is_valid key_id then Some (False, d)
      else do {
        installed \<leftarrow> connection_keys_key_is_installed key_id d;
        if \<not> installed then Some (False, d)
        else do { d \<leftarrow> connection_keys_free key_id d; Some (True, d) }
      })"

definition connection_keys_get_key_type :: "nat \<Rightarrow> connection_keys_data \<Rightarrow> umac_key_type option" where
  "connection_keys_get_key_type key_id d = do {
     ensure (connection_keys_key_id_is_valid key_id);
     k \<leftarrow> key_at d key_id;
     Some (case k of None \<Rightarrow> UMAC_KEY_TYPE_BLANK | Some k \<Rightarrow> uk_type k)
   }"

definition connection_keys_check_and_update_rx_replay ::
  "nat \<Rightarrow> nat \<Rightarrow> umac_key_rx_counter_space \<Rightarrow> connection_keys_data \<Rightarrow> (bool \<times> connection_keys_data) option" where
  "connection_keys_check_and_update_rx_replay key_id packet_number space d = do {
     ensure (connection_keys_key_id_is_valid key_id);
     slot \<leftarrow> fetch (ck_keys d) key_id;
     case slot of
       None \<Rightarrow> Some (False, d)
     | Some p \<Rightarrow> do {
         k \<leftarrow> fetch (ck_pool d) p;
         last \<leftarrow> fetch (uk_rx_seq k) (space_number space);
         if packet_number > last then do {
           rx_seq \<leftarrow> store (uk_rx_seq k) (space_number space) packet_number;
           pool \<leftarrow> store (ck_pool d) p (k\<lparr>uk_rx_seq := rx_seq\<rparr>);
           Some (True, d\<lparr>ck_pool := pool\<rparr>)
         }
         else Some (False, d)
       }
   }"

definition connection_keys_get_key_len :: "nat \<Rightarrow> connection_keys_data \<Rightarrow> nat option" where
  "connection_keys_get_key_len key_id d = do {
     ensure (connection_keys_key_id_is_valid key_id);
     k \<leftarrow> key_at d key_id;
     Some (case k of None \<Rightarrow> 0 | Some k \<Rightarrow> uk_len k)
   }"

definition connection_keys_get_key_data :: "nat \<Rightarrow> connection_keys_data \<Rightarrow> nat list option option" where
  "connection_keys_get_key_data key_id d = do {
     ensure (connection_keys_key_id_is_valid key_id);
     k \<leftarrow> key_at d key_id;
     Some (map_option uk_data k)
   }"

definition connection_keys_get_active_key_id :: "umac_key_type \<Rightarrow> connection_keys_data \<Rightarrow> int option" where
  "connection_keys_get_active_key_id key_type d = fetch (ck_active d) (key_type_number key_type)"

definition connection_keys_increment_tx_seq :: "nat \<Rightarrow> connection_keys_data \<Rightarrow> connection_keys_data option" where
  "connection_keys_increment_tx_seq key_id d = do {
     ensure (connection_keys_key_id_is_valid key_id);
     slot \<leftarrow> fetch (ck_keys d) key_id;
     case slot of
       None \<Rightarrow> Some d
     | Some p \<Rightarrow> do {
         k \<leftarrow> fetch (ck_pool d) p;
         pool \<leftarrow> store (ck_pool d) p (k\<lparr>uk_tx_seq := (uk_tx_seq k + 1) mod 18446744073709551616\<rparr>);
         Some (d\<lparr>ck_pool := pool\<rparr>)
       }
   }"

definition connection_keys_get_tx_seq :: "nat \<Rightarrow> connection_keys_data \<Rightarrow> nat option" where
  "connection_keys_get_tx_seq key_id d = do {
     ensure (connection_keys_key_id_is_valid key_id);
     k \<leftarrow> key_at d key_id;
     Some (case k of None \<Rightarrow> 0 | Some k \<Rightarrow> uk_tx_seq k)
   }"

subsection \<open>Keys in the chip\<close>

text \<open>Calls of the driver, whose status is the parameter \<open>drv\<close>.\<close>

datatype key_call = Install_Key umac_key | Disable_Key nat bool

datatype mmwlan_status = MMWLAN_SUCCESS | MMWLAN_ERROR

definition umac_keys_mmdrv_install_key :: "mmwlan_status \<Rightarrow> umac_key \<Rightarrow> mmwlan_status \<times> key_call list" where
  "umac_keys_mmdrv_install_key drv key =
     (if uk_type key = UMAC_KEY_TYPE_PAIRWISE \<or> uk_type key = UMAC_KEY_TYPE_GROUP then (drv, [Install_Key key])
      else (MMWLAN_SUCCESS, []))"

definition umac_keys_install_key ::
  "mmwlan_status \<Rightarrow> umac_key \<Rightarrow> connection_keys_data \<Rightarrow> (mmwlan_status \<times> key_call list \<times> connection_keys_data) option" where
  "umac_keys_install_key drv key d = do {
     (ok, d) \<leftarrow> connection_keys_install_key key d;
     if \<not> ok then Some (MMWLAN_ERROR, [], d)
     else do { let (status, calls) = umac_keys_mmdrv_install_key drv key; Some (status, calls, d) }
   }"

definition umac_keys_uninstall_key ::
  "mmwlan_status \<Rightarrow> nat \<Rightarrow> connection_keys_data \<Rightarrow> (mmwlan_status \<times> key_call list \<times> connection_keys_data) option" where
  "umac_keys_uninstall_key drv key_id d = do {
     (ok, d) \<leftarrow> connection_keys_uninstall_key key_id d;
     if \<not> ok then Some (MMWLAN_SUCCESS, [], d)
     else do {
       key_type \<leftarrow> connection_keys_get_key_type key_id d;
       if key_type = UMAC_KEY_TYPE_PAIRWISE \<or> key_type = UMAC_KEY_TYPE_GROUP
       then Some (if drv = MMWLAN_SUCCESS then MMWLAN_SUCCESS else drv, [Disable_Key key_id (key_type = UMAC_KEY_TYPE_PAIRWISE)], d)
       else Some (MMWLAN_SUCCESS, [], d)
     }
   }"

text \<open>The loop over the identifiers; \<open>drv i\<close> is the status of the call for the identifier \<open>i\<close>.\<close>

fun reinstall_loop ::
  "(nat \<Rightarrow> mmwlan_status) \<Rightarrow> nat list \<Rightarrow> connection_keys_data \<Rightarrow> (mmwlan_status \<times> key_call list) option" where
  "reinstall_loop drv [] d = Some (MMWLAN_SUCCESS, [])"
| "reinstall_loop drv (i # is) d = do {
     key \<leftarrow> key_at d i;
     case key of
       None \<Rightarrow> reinstall_loop drv is d
     | Some key \<Rightarrow> do {
         let (status, calls) = umac_keys_mmdrv_install_key (drv i) key;
         if status \<noteq> MMWLAN_SUCCESS then Some (status, calls)
         else do { (status, calls') \<leftarrow> reinstall_loop drv is d; Some (status, calls @ calls') }
       }
   }"

definition umac_keys_reinstall_keys ::
  "(nat \<Rightarrow> mmwlan_status) \<Rightarrow> connection_keys_data \<Rightarrow> (mmwlan_status \<times> key_call list) option" where
  "umac_keys_reinstall_keys drv d = reinstall_loop drv [0..<UMAC_KEYS_NUM_KEY_IDS] d"

subsection \<open>The CCMP header\<close>

definition parse_ccmp_key_id :: "nat list \<Rightarrow> nat option" where
  "parse_ccmp_key_id ccmp_header = do { b \<leftarrow> fetch ccmp_header 3; Some (drop_bit 6 (and b 0xC0)) }"

definition parse_ccmp_packet_number :: "nat list \<Rightarrow> nat option" where
  "parse_ccmp_packet_number h = do {
     b0 \<leftarrow> fetch h 0; b1 \<leftarrow> fetch h 1; b2 \<leftarrow> fetch h 4; b3 \<leftarrow> fetch h 5; b4 \<leftarrow> fetch h 6; b5 \<leftarrow> fetch h 7;
     Some (or (or (or (or (or (push_bit 0 b0) (push_bit 8 b1)) (push_bit 16 b2)) (push_bit 24 b3)) (push_bit 32 b4)) (push_bit 40 b5))
   }"

definition ccmp_is_valid ::
  "nat list option \<Rightarrow> umac_key_rx_counter_space \<Rightarrow> connection_keys_data \<Rightarrow> (bool \<times> connection_keys_data) option" where
  "ccmp_is_valid ccmp_header space d =
     (case ccmp_header of
        None \<Rightarrow> Some (False, d)
      | Some h \<Rightarrow> do {
          key_id \<leftarrow> parse_ccmp_key_id h;
          key_type \<leftarrow> connection_keys_get_key_type key_id d;
          if key_type = UMAC_KEY_TYPE_BLANK then Some (False, d)
          else do {
            packet_number \<leftarrow> parse_ccmp_packet_number h;
            connection_keys_check_and_update_rx_replay key_id packet_number space d
          }
        })"

subsection \<open>The keychain as a map\<close>

text \<open>\<open>keys_ok\<close>: every installed identifier points to a slot that holds its key, and every slot in use is pointed to by its
  identifier. Then the keychain is a map from identifiers to keys, of which \<open>seen\<close> is what the code looks at.\<close>

definition key_struct :: "umac_key \<Rightarrow> bool" where
  "key_struct k \<longleftrightarrow> length (uk_data k) = UMAC_CONNECTION_KEY_MAX_LEN \<and> length (uk_rx_seq k) = UMAC_KEY_RX_COUNTER_NUM"

definition keys_ok :: "connection_keys_data \<Rightarrow> bool" where
  "keys_ok d \<longleftrightarrow> length (ck_keys d) = 6 \<and> length (ck_pool d) = 6 \<and> length (ck_active d) = 4
     \<and> (\<forall>p<6. key_struct (ck_pool d ! p) \<and> uk_len (ck_pool d ! p) \<le> UMAC_CONNECTION_KEY_MAX_LEN)
     \<and> (\<forall>k<6. \<forall>p. ck_keys d ! k = Some p \<longrightarrow> p < 6 \<and> uk_id (ck_pool d ! p) = k \<and> uk_type (ck_pool d ! p) \<noteq> UMAC_KEY_TYPE_BLANK)
     \<and> (\<forall>p<6. uk_type (ck_pool d ! p) \<noteq> UMAC_KEY_TYPE_BLANK \<longrightarrow>
          uk_id (ck_pool d ! p) < 6 \<and> ck_keys d ! uk_id (ck_pool d ! p) = Some p)"

lemma keys_okI:
  assumes "length (ck_keys d) = 6" "length (ck_pool d) = 6" "length (ck_active d) = 4"
    "\<And>p. p < 6 \<Longrightarrow> key_struct (ck_pool d ! p) \<and> uk_len (ck_pool d ! p) \<le> UMAC_CONNECTION_KEY_MAX_LEN"
    "\<And>k p. k < 6 \<Longrightarrow> ck_keys d ! k = Some p \<Longrightarrow> p < 6 \<and> uk_id (ck_pool d ! p) = k \<and> uk_type (ck_pool d ! p) \<noteq> UMAC_KEY_TYPE_BLANK"
    "\<And>p. p < 6 \<Longrightarrow> uk_type (ck_pool d ! p) \<noteq> UMAC_KEY_TYPE_BLANK \<Longrightarrow>
      uk_id (ck_pool d ! p) < 6 \<and> ck_keys d ! uk_id (ck_pool d ! p) = Some p"
  shows "keys_ok d"
  unfolding keys_ok_def using assms(1-3) assms(4-6) by simp

type_synonym key_seen = "umac_key_type \<times> nat list \<times> nat list \<times> nat"

definition seen :: "umac_key \<Rightarrow> key_seen" where
  "seen k = (uk_type k, take (uk_len k) (uk_data k), uk_rx_seq k, uk_tx_seq k)"

definition keymap :: "connection_keys_data \<Rightarrow> nat \<Rightarrow> key_seen option" where
  "keymap d i = (if i < 6 then map_option (\<lambda>p. seen (ck_pool d ! p)) (ck_keys d ! i) else None)"

lemma keys_init_ok: "keys_ok connection_keys_init" "keymap connection_keys_init = Map.empty"
  by (auto simp: keys_ok_def keymap_def connection_keys_init_def blank_key_def key_struct_def)

lemma alloc_scan_Some: "alloc_scan ks i = Some p \<Longrightarrow> i \<le> p \<and> p < i + length ks \<and> uk_type (ks ! (p - i)) = UMAC_KEY_TYPE_BLANK"
proof (induction ks arbitrary: i)
  case (Cons k ks)
  show ?case
  proof (cases "uk_type k = UMAC_KEY_TYPE_BLANK")
    case True
    then show ?thesis using Cons.prems by auto
  next
    case False
    then have "i + 1 \<le> p \<and> p < i + 1 + length ks \<and> uk_type (ks ! (p - (i + 1))) = UMAC_KEY_TYPE_BLANK"
      using Cons.IH [of "i + 1"] Cons.prems by simp
    moreover from this have "p - i = Suc (p - (i + 1))" by (simp add: Suc_diff_Suc Suc_le_lessD)
    ultimately show ?thesis by simp
  qed
qed simp

lemma alloc_scan_None: "alloc_scan ks i = None \<longleftrightarrow> (\<forall>k\<in>set ks. uk_type k \<noteq> UMAC_KEY_TYPE_BLANK)"
  by (induction ks arbitrary: i) auto

text \<open>There are as many slots as identifiers: an identifier that is not installed finds a slot.\<close>

lemma slot_left:
  assumes "keys_ok d" "i < 6" "ck_keys d ! i = None"
  shows "\<exists>p<6. connection_keys_alloc d = Some p \<and> uk_type (ck_pool d ! p) = UMAC_KEY_TYPE_BLANK"
proof (cases "connection_keys_alloc d")
  case (Some p)
  then show ?thesis using alloc_scan_Some [of "ck_pool d" 0 p] assms(1) by (simp add: connection_keys_alloc_def keys_ok_def)
next
  case None
  let ?id = "\<lambda>p. uk_id (ck_pool d ! p)"
  have used: "uk_type (ck_pool d ! p) \<noteq> UMAC_KEY_TYPE_BLANK" if "p < 6" for p
    using None that assms(1) by (simp add: connection_keys_alloc_def alloc_scan_None keys_ok_def)
  then have ids: "?id p < 6" "ck_keys d ! ?id p = Some p" if "p < 6" for p using that assms(1) by (simp_all add: keys_ok_def)
  have "inj_on ?id {..<6}" by (rule inj_onI) (metis ids(2) lessThan_iff option.inject)
  then have "?id ` {..<6} = {..<6}" by (intro card_subset_eq) (auto simp: ids(1) card_image)
  then obtain p where "p < 6" "?id p = i" using assms(2) by (metis imageE lessThan_iff)
  then show ?thesis using ids(2) [of p] assms(3) by simp
qed

lemma installed_slot:
  assumes "keys_ok d" "i < 6" "ck_keys d ! i = Some p"
  shows "p < 6" "uk_id (ck_pool d ! p) = i" "uk_type (ck_pool d ! p) \<noteq> UMAC_KEY_TYPE_BLANK" "key_struct (ck_pool d ! p)"
    "uk_len (ck_pool d ! p) \<le> UMAC_CONNECTION_KEY_MAX_LEN"
  using assms by (auto simp: keys_ok_def)

lemma slot_used:
  assumes "keys_ok d" "p < 6" "uk_type (ck_pool d ! p) \<noteq> UMAC_KEY_TYPE_BLANK"
  shows "uk_id (ck_pool d ! p) < 6" "ck_keys d ! uk_id (ck_pool d ! p) = Some p"
  using assms by (auto simp: keys_ok_def)

text \<open>Writing the slot \<open>p\<close> of the identifier \<open>i\<close>, whether it was its slot before or a free one.\<close>

lemma write_slot:
  assumes "keys_ok d" "i < 6" "p < 6" "ck_keys d ! i = Some p \<or> ck_keys d ! i = None \<and> uk_type (ck_pool d ! p) = UMAC_KEY_TYPE_BLANK"
    "uk_id k = i" "uk_type k \<noteq> UMAC_KEY_TYPE_BLANK" "key_struct k" "uk_len k \<le> UMAC_CONNECTION_KEY_MAX_LEN" "length a = 4"
  shows "keys_ok \<lparr>ck_keys = (ck_keys d)[i := Some p], ck_pool = (ck_pool d)[p := k], ck_active = a\<rparr>"
    "keymap \<lparr>ck_keys = (ck_keys d)[i := Some p], ck_pool = (ck_pool d)[p := k], ck_active = a\<rparr> = (keymap d)(i \<mapsto> seen k)"
proof -
  let ?d = "\<lparr>ck_keys = (ck_keys d)[i := Some p], ck_pool = (ck_pool d)[p := k], ck_active = a\<rparr>"
  have other: "q \<noteq> p" if "j < 6" "j \<noteq> i" "ck_keys d ! j = Some q" for j q
    using installed_slot [OF assms(1) that(1,3)] installed_slot(2) [OF assms(1,2)] assms(4) that(2) by metis
  have used: "uk_id (ck_pool d ! q) \<noteq> i" if "q < 6" "q \<noteq> p" "uk_type (ck_pool d ! q) \<noteq> UMAC_KEY_TYPE_BLANK" for q
    using assms(1,4) that by (auto simp: keys_ok_def)
  have len: "length (ck_keys d) = 6" "length (ck_pool d) = 6" using assms(1) by (simp_all add: keys_ok_def)
  have A: "\<forall>q<6. key_struct (ck_pool ?d ! q) \<and> uk_len (ck_pool ?d ! q) \<le> UMAC_CONNECTION_KEY_MAX_LEN"
    using assms by (auto simp: keys_ok_def nth_list_update)
  have B: "q < 6 \<and> uk_id (ck_pool ?d ! q) = j \<and> uk_type (ck_pool ?d ! q) \<noteq> UMAC_KEY_TYPE_BLANK"
    if "j < 6" "ck_keys ?d ! j = Some q" for j q
  proof (cases "j = i")
    case True
    then show ?thesis using that assms(2,3,5,6) len by simp
  next
    case False
    then have "ck_keys d ! j = Some q" using that by simp
    then show ?thesis using other [OF that(1) False] installed_slot(1,2,3) [OF assms(1) that(1)] by simp
  qed
  have C: "uk_id (ck_pool ?d ! q) < 6 \<and> ck_keys ?d ! uk_id (ck_pool ?d ! q) = Some q"
    if "q < 6" "uk_type (ck_pool ?d ! q) \<noteq> UMAC_KEY_TYPE_BLANK" for q
  proof (cases "q = p")
    case True
    then show ?thesis using assms(2,3,5) len by simp
  next
    case False
    then show ?thesis using that used [OF that(1) False] slot_used [OF assms(1) that(1)] by simp
  qed
  show "keys_ok ?d" by (rule keys_okI) (simp add: len, simp add: len, simp add: assms(9), erule A [rule_format], erule (1) B, erule (1) C)
  show "keymap ?d = (keymap d)(i \<mapsto> seen k)"
  proof
    fix j
    show "keymap ?d j = ((keymap d)(i \<mapsto> seen k)) j"
      using other [of j] assms(2,3) len by (cases "ck_keys d ! j") (auto simp: keymap_def nth_list_update)
  qed
qed

text \<open>Clearing the slot of an identifier.\<close>

lemma clear_slot:
  assumes "keys_ok d" "i < 6" "ck_keys d ! i = Some p" "length a = 4"
  shows "keys_ok \<lparr>ck_keys = (ck_keys d)[i := None], ck_pool = (ck_pool d)[p := blank_key], ck_active = a\<rparr>"
    "keymap \<lparr>ck_keys = (ck_keys d)[i := None], ck_pool = (ck_pool d)[p := blank_key], ck_active = a\<rparr> = (keymap d)(i := None)"
proof -
  let ?d = "\<lparr>ck_keys = (ck_keys d)[i := None], ck_pool = (ck_pool d)[p := blank_key], ck_active = a\<rparr>"
  note slot = installed_slot [OF assms(1-3)]
  have other: "q \<noteq> p" if "j < 6" "j \<noteq> i" "ck_keys d ! j = Some q" for j q
    using installed_slot(2) [OF assms(1) that(1,3)] slot(2) that(2) by metis
  have len: "length (ck_keys d) = 6" "length (ck_pool d) = 6" using assms(1) by (simp_all add: keys_ok_def)
  have A: "\<forall>q<6. key_struct (ck_pool ?d ! q) \<and> uk_len (ck_pool ?d ! q) \<le> UMAC_CONNECTION_KEY_MAX_LEN"
    using assms by (auto simp: keys_ok_def nth_list_update key_struct_def blank_key_def)
  have B: "q < 6 \<and> uk_id (ck_pool ?d ! q) = j \<and> uk_type (ck_pool ?d ! q) \<noteq> UMAC_KEY_TYPE_BLANK"
    if "j < 6" "ck_keys ?d ! j = Some q" for j q
  proof -
    have "j \<noteq> i" using that(2) len(1) assms(2) by auto
    then have "ck_keys d ! j = Some q" using that by simp
    then show ?thesis using other [OF that(1) \<open>j \<noteq> i\<close>] installed_slot(1,2,3) [OF assms(1) that(1)] by simp
  qed
  have C: "uk_id (ck_pool ?d ! q) < 6 \<and> ck_keys ?d ! uk_id (ck_pool ?d ! q) = Some q"
    if "q < 6" "uk_type (ck_pool ?d ! q) \<noteq> UMAC_KEY_TYPE_BLANK" for q
  proof -
    have "q \<noteq> p" using that(2) slot(1) len by (auto simp: blank_key_def)
    then have "uk_type (ck_pool d ! q) \<noteq> UMAC_KEY_TYPE_BLANK" using that(2) by simp
    then show ?thesis using slot_used [OF assms(1) that(1)] \<open>q \<noteq> p\<close> assms(3) by (cases "uk_id (ck_pool d ! q) = i") auto
  qed
  show "keys_ok ?d" by (rule keys_okI) (simp add: len, simp add: len, simp add: assms(4), erule A [rule_format], erule (1) B, erule (1) C)
  show "keymap ?d = (keymap d)(i := None)"
  proof
    fix j
    show "keymap ?d j = ((keymap d)(i := None)) j"
      using other [of j] assms(2) slot(1) len by (cases "ck_keys d ! j") (auto simp: keymap_def nth_list_update)
  qed
qed

lemma key_type_number_less [simp]: "key_type_number t < 4"
  by (cases t) simp_all

lemma keys_lengths: "keys_ok d \<Longrightarrow> length (ck_keys d) = 6" "keys_ok d \<Longrightarrow> length (ck_pool d) = 6" "keys_ok d \<Longrightarrow> length (ck_active d) = 4"
  by (simp_all add: keys_ok_def)

lemma install_key_ok:
  assumes "keys_ok d" "umac_keys_key_params_are_valid key" "key_struct key"
  shows "\<exists>d'. connection_keys_install_key key d = Some (True, d') \<and> keys_ok d' \<and> keymap d' = (keymap d)(uk_id key \<mapsto> seen key)
    \<and> connection_keys_get_active_key_id (uk_type key) d' = Some (int (uk_id key))"
proof -
  let ?i = "uk_id key" and ?n = "uk_len key"
  have i: "?i < 6" and n: "?n \<le> 32" and t: "uk_type key \<noteq> UMAC_KEY_TYPE_BLANK"
    using assms(2) by (simp_all add: umac_keys_key_params_are_valid_def connection_keys_key_id_is_valid_def)
  obtain p where p: "p < 6" "ck_keys d ! ?i = Some p \<or> ck_keys d ! ?i = None \<and> uk_type (ck_pool d ! p) = UMAC_KEY_TYPE_BLANK"
    and new: "(if ck_keys d ! ?i \<noteq> None then fetch (ck_keys d) ?i else Some (connection_keys_alloc d)) = Some (Some p)"
    using slot_left [OF assms(1) i] installed_slot(1) [OF assms(1) i] keys_lengths(1) [OF assms(1)] i by (cases "ck_keys d ! ?i") auto
  let ?k = "(ck_pool d ! p)\<lparr>uk_id := ?i, uk_type := uk_type key, uk_rx_seq := uk_rx_seq key,
      uk_tx_seq := uk_tx_seq key, uk_data := put_bytes (uk_data (ck_pool d ! p)) 0 (take ?n (uk_data key)), uk_len := ?n\<rparr>"
  have pool: "key_struct (ck_pool d ! p)" using assms(1) p(1) by (simp add: keys_ok_def)
  then have k: "key_struct ?k" "seen ?k = seen key"
    using assms(3) n by (auto simp: key_struct_def seen_def put_bytes_def)
  let ?d = "\<lparr>ck_keys = (ck_keys d)[?i := Some p], ck_pool = (ck_pool d)[p := ?k], ck_active = (ck_active d)[key_type_number (uk_type key) := int ?i]\<rparr>"
  have "connection_keys_install_key key d = Some (True, ?d)"
    using assms(2,3) i n p(1) pool new keys_lengths [OF assms(1)]
    by (simp add: connection_keys_install_key_def connection_keys_key_is_installed_def mem_read_def mem_write_def key_struct_def)
  moreover have "keys_ok ?d" "keymap ?d = (keymap d)(?i \<mapsto> seen key)"
    using write_slot [OF assms(1) i p, of ?k] t k n keys_lengths(3) [OF assms(1)] by simp_all
  ultimately show ?thesis using keys_lengths(3) [OF assms(1)] by (simp add: connection_keys_get_active_key_id_def)
qed

lemma uninstall_key_ok:
  assumes "keys_ok d"
  shows "\<exists>d'. connection_keys_uninstall_key i d = Some (keymap d i \<noteq> None, d') \<and> keys_ok d' \<and> keymap d' = (keymap d)(i := None)"
proof (cases "keymap d i")
  case None
  then have "connection_keys_uninstall_key i d = Some (False, d)"
    using keys_lengths(1) [OF assms]
    by (auto simp: connection_keys_uninstall_key_def connection_keys_key_id_is_valid_def connection_keys_key_is_installed_def keymap_def)
  then show ?thesis using None assms by (intro exI [of _ d]) (auto simp: fun_upd_idem)
next
  case (Some k)
  then obtain p where i: "i < 6" and p: "ck_keys d ! i = Some p" by (auto simp: keymap_def split: if_splits)
  let ?t = "key_type_number (uk_type (ck_pool d ! p))"
  let ?a = "if ck_active d ! ?t = int i then (ck_active d)[?t := - 1] else ck_active d"
  have "connection_keys_uninstall_key i d =
      Some (True, \<lparr>ck_keys = (ck_keys d)[i := None], ck_pool = (ck_pool d)[p := blank_key], ck_active = ?a\<rparr>)"
    using i p installed_slot(1) [OF assms i p] keys_lengths [OF assms]
    by (simp add: connection_keys_uninstall_key_def connection_keys_key_id_is_valid_def connection_keys_key_is_installed_def
      connection_keys_free_def key_at_def)
  then show ?thesis using clear_slot [OF assms i p, of ?a] keys_lengths(3) [OF assms] Some by simp
qed

lemma get_key_type_ok:
  assumes "keys_ok d" "i < 6"
  shows "connection_keys_get_key_type i d = Some (case keymap d i of None \<Rightarrow> UMAC_KEY_TYPE_BLANK | Some (t, _) \<Rightarrow> t)"
  using assms(2) installed_slot(1) [OF assms] keys_lengths [OF assms(1)]
  by (cases "ck_keys d ! i") (auto simp: connection_keys_get_key_type_def connection_keys_key_id_is_valid_def key_at_def keymap_def seen_def)

definition rx_counter :: "key_seen \<Rightarrow> umac_key_rx_counter_space \<Rightarrow> nat" where
  "rx_counter k s = fst (snd (snd k)) ! space_number s"

definition count_rx :: "umac_key_rx_counter_space \<Rightarrow> nat \<Rightarrow> key_seen \<Rightarrow> key_seen" where
  "count_rx s n k = (case k of (t, data, rx, tx) \<Rightarrow> (t, data, rx[space_number s := n], tx))"

lemma replay_check_ok:
  assumes "keys_ok d" "i < 6"
  shows "\<exists>d'. connection_keys_check_and_update_rx_replay i n s d =
      Some (case keymap d i of None \<Rightarrow> False | Some k \<Rightarrow> n > rx_counter k s, d') \<and> keys_ok d'
    \<and> keymap d' = (case keymap d i of None \<Rightarrow> keymap d
        | Some k \<Rightarrow> if n > rx_counter k s then (keymap d)(i \<mapsto> count_rx s n k) else keymap d)"
proof (cases "ck_keys d ! i")
  case None
  then have "keymap d i = None" using assms(2) by (simp add: keymap_def)
  then show ?thesis using None assms keys_lengths(1) [OF assms(1)]
    by (simp add: connection_keys_check_and_update_rx_replay_def connection_keys_key_id_is_valid_def)
next
  case (Some p)
  note slot = installed_slot [OF assms Some]
  let ?k = "(ck_pool d ! p)\<lparr>uk_rx_seq := (uk_rx_seq (ck_pool d ! p))[space_number s := n]\<rparr>"
  have k: "keymap d i = Some (seen (ck_pool d ! p))" using Some assms(2) by (simp add: keymap_def)
  have s: "space_number s < 2" by (cases s) simp_all
  have rx: "rx_counter (seen (ck_pool d ! p)) s = uk_rx_seq (ck_pool d ! p) ! space_number s" by (simp add: rx_counter_def seen_def)
  show ?thesis
  proof (cases "n > rx_counter (seen (ck_pool d ! p)) s")
    case False
    then show ?thesis using Some assms slot s rx k keys_lengths [OF assms(1)]
      by (simp add: connection_keys_check_and_update_rx_replay_def connection_keys_key_id_is_valid_def key_struct_def)
  next
    case True
    then have "connection_keys_check_and_update_rx_replay i n s d = Some (True, d\<lparr>ck_pool := (ck_pool d)[p := ?k]\<rparr>)"
      using Some assms slot s rx keys_lengths [OF assms(1)]
      by (simp add: connection_keys_check_and_update_rx_replay_def connection_keys_key_id_is_valid_def key_struct_def)
    moreover have "d\<lparr>ck_pool := (ck_pool d)[p := ?k]\<rparr> =
        \<lparr>ck_keys = (ck_keys d)[i := Some p], ck_pool = (ck_pool d)[p := ?k], ck_active = ck_active d\<rparr>"
      using Some by (metis connection_keys_data.surjective connection_keys_data.update_convs(2) list_update_id unit.exhaust)
    moreover have "seen ?k = count_rx s n (seen (ck_pool d ! p))" by (simp add: seen_def count_rx_def)
    ultimately show ?thesis
      using write_slot [OF assms slot(1), of ?k "ck_active d"] Some slot k True keys_lengths(3) [OF assms(1)]
      by (simp add: key_struct_def)
  qed
qed

lemma install_invalid: "\<not> umac_keys_key_params_are_valid key \<Longrightarrow> connection_keys_install_key key d = Some (False, d)"
  by (simp add: connection_keys_install_key_def)

text \<open>C18. The keychain is a map from identifiers to keys: a valid key can always be installed, since no slot is lost, and becomes the
  active key of its type; it replaces only the key of its own identifier. Uninstalling removes exactly one key, and the
  replay check accepts a packet number above the counter of its key and space, which alone it raises.\<close>

theorem keychain_refines_map:
  assumes "keys_ok d" "key_struct key" "i < 6"
  shows "(\<exists>d'. connection_keys_install_key key d = Some (umac_keys_key_params_are_valid key, d') \<and> keys_ok d'
      \<and> (if umac_keys_key_params_are_valid key
         then keymap d' = (keymap d)(uk_id key \<mapsto> seen key)
           \<and> connection_keys_get_active_key_id (uk_type key) d' = Some (int (uk_id key))
         else d' = d))
    \<and> (\<exists>d'. connection_keys_uninstall_key i d = Some (keymap d i \<noteq> None, d') \<and> keys_ok d' \<and> keymap d' = (keymap d)(i := None))
    \<and> (\<exists>d'. connection_keys_check_and_update_rx_replay i n s d =
        Some (case keymap d i of None \<Rightarrow> False | Some k \<Rightarrow> n > rx_counter k s, d') \<and> keys_ok d'
      \<and> keymap d' = (case keymap d i of None \<Rightarrow> keymap d
          | Some k \<Rightarrow> if n > rx_counter k s then (keymap d)(i \<mapsto> count_rx s n k) else keymap d))"
  using install_key_ok [OF assms(1) _ assms(2)] install_invalid [of key d] uninstall_key_ok [OF assms(1), of i]
    replay_check_ok [OF assms(1,3), of n s] assms(1)
  by (cases "umac_keys_key_params_are_valid key") auto

definition sample_key :: umac_key where
  "sample_key = blank_key\<lparr>uk_id := 1, uk_type := UMAC_KEY_TYPE_PAIRWISE, uk_len := 16\<rparr>"

lemma sample_key_ok: "key_struct sample_key" "umac_keys_key_params_are_valid sample_key" "uk_id sample_key = 1"
  "seen sample_key = (UMAC_KEY_TYPE_PAIRWISE, replicate 16 0, [0, 0], 0)"
  by (simp_all add: key_struct_def sample_key_def blank_key_def umac_keys_key_params_are_valid_def
    connection_keys_key_id_is_valid_def seen_def numeral_2_eq_2)

lemma sample_keychain: "\<exists>d. keys_ok d \<and> keymap d = [1 \<mapsto> (UMAC_KEY_TYPE_PAIRWISE, replicate 16 0, [0, 0], 0)]"
  using install_key_ok [OF keys_init_ok(1), of sample_key] keys_init_ok(2) sample_key_ok by auto

theorem keychain_refines_map_witness:
  "\<exists>d'. connection_keys_install_key sample_key connection_keys_init = Some (True, d') \<and> keys_ok d'
    \<and> keymap d' = [1 \<mapsto> (UMAC_KEY_TYPE_PAIRWISE, replicate 16 0, [0, 0], 0)]"
proof -
  show ?thesis using keychain_refines_map [OF keys_init_ok(1) sample_key_ok(1), of 0 0 RX_COUNTER_SPACE_DEFAULT] keys_init_ok(2) sample_key_ok by auto
qed

subsection \<open>No packet number is accepted twice\<close>

datatype key_op = Op_Install umac_key | Op_Uninstall nat | Op_Check "nat list" umac_key_rx_counter_space

fun key_step :: "key_op \<Rightarrow> connection_keys_data \<Rightarrow> (bool \<times> connection_keys_data) option" where
  "key_step (Op_Install key) d = connection_keys_install_key key d"
| "key_step (Op_Uninstall i) d = connection_keys_uninstall_key i d"
| "key_step (Op_Check h s) d = ccmp_is_valid (Some h) s d"

fun key_run :: "key_op list \<Rightarrow> connection_keys_data \<Rightarrow> (bool list \<times> connection_keys_data) option" where
  "key_run [] d = Some ([], d)"
| "key_run (op # ops) d = do { (r, d) \<leftarrow> key_step op d; (rs, d) \<leftarrow> key_run ops d; Some (r # rs, d) }"

text \<open>The packet numbers accepted for the key \<open>i\<close> in the space \<open>s\<close>.\<close>

definition header_ok :: "nat list \<Rightarrow> bool" where
  "header_ok h \<longleftrightarrow> length h = 8 \<and> (\<forall>b\<in>set h. b < 256)"

fun accepted_number :: "nat \<Rightarrow> umac_key_rx_counter_space \<Rightarrow> key_op \<times> bool \<Rightarrow> nat list" where
  "accepted_number i s (Op_Check h s', True) =
     (if parse_ccmp_key_id h = Some i \<and> s' = s then [the (parse_ccmp_packet_number h)] else [])"
| "accepted_number i s _ = []"

definition accepted :: "nat \<Rightarrow> umac_key_rx_counter_space \<Rightarrow> key_op list \<Rightarrow> bool list \<Rightarrow> nat list" where
  "accepted i s ops rs = concat (List.map (accepted_number i s) (zip ops rs))"

fun op_allowed :: "nat \<Rightarrow> key_op \<Rightarrow> bool" where
  "op_allowed i (Op_Install key) \<longleftrightarrow> key_struct key \<and> uk_id key \<noteq> i"
| "op_allowed i (Op_Uninstall _) \<longleftrightarrow> True"
| "op_allowed i (Op_Check h _) \<longleftrightarrow> header_ok h"

definition above :: "key_seen option \<Rightarrow> umac_key_rx_counter_space \<Rightarrow> nat list \<Rightarrow> bool" where
  "above k s ns \<longleftrightarrow> sorted_wrt (<) ns \<and> (case k of None \<Rightarrow> ns = [] | Some k \<Rightarrow> \<forall>n\<in>set ns. rx_counter k s < n)"

lemma ccmp_ok:
  assumes "keys_ok d" "header_ok h"
  obtains j n d' where "parse_ccmp_key_id h = Some j" "j < 4" "parse_ccmp_packet_number h = Some n"
    "ccmp_is_valid (Some h) s d = Some (case keymap d j of None \<Rightarrow> False | Some k \<Rightarrow> fst k \<noteq> UMAC_KEY_TYPE_BLANK \<and> n > rx_counter k s, d')"
    "keys_ok d'"
    "keymap d' = (case keymap d j of None \<Rightarrow> keymap d
        | Some k \<Rightarrow> if fst k \<noteq> UMAC_KEY_TYPE_BLANK \<and> n > rx_counter k s then (keymap d)(j \<mapsto> count_rx s n k) else keymap d)"
proof -
  have len: "length h = 8" "h ! 3 < 256" using assms(2) by (simp_all add: header_ok_def)
  define j where "j = drop_bit 6 (and (h ! 3) 0xC0)"
  have "j = drop_bit 6 (and (h ! 3) (push_bit 6 (mask 2)))" by (simp add: j_def mask_eq_exp_minus_1 push_bit_eq_mult)
  also have "\<dots> = take_bit 2 (drop_bit 6 (h ! 3))" by (rule bit_eqI) (auto simp: bit_simps)
  finally have "j = take_bit 2 (drop_bit 6 (h ! 3))" .
  then have j: "j < 4" by (simp add: take_bit_eq_mod)
  obtain n where n: "parse_ccmp_packet_number h = Some n" using len by (simp add: parse_ccmp_packet_number_def)
  have id: "parse_ccmp_key_id h = Some j" using len by (simp add: parse_ccmp_key_id_def j_def)
  note type = get_key_type_ok [OF assms(1), of j]
  obtain d' where d': "connection_keys_check_and_update_rx_replay j n s d =
      Some (case keymap d j of None \<Rightarrow> False | Some k \<Rightarrow> n > rx_counter k s, d')" "keys_ok d'"
    "keymap d' = (case keymap d j of None \<Rightarrow> keymap d
          | Some k \<Rightarrow> if n > rx_counter k s then (keymap d)(j \<mapsto> count_rx s n k) else keymap d)"
    using replay_check_ok [OF assms(1), of j n s] j by auto
  show ?thesis
  proof (cases "\<exists>k. keymap d j = Some k \<and> fst k \<noteq> UMAC_KEY_TYPE_BLANK")
    case True
    then show ?thesis using that [OF id j n, of d'] d' type j id n by (auto simp: ccmp_is_valid_def)
  next
    case False
    then show ?thesis using that [OF id j n, of d] type j id n assms(1) by (auto simp: ccmp_is_valid_def split: option.splits)
  qed
qed

lemma accepted_Cons: "accepted i s (op # ops) (r # rs) = accepted_number i s (op, r) @ accepted i s ops rs"
  by (simp add: accepted_def)

lemma rx_counter_count:
  assumes "length (fst (snd (snd k))) = 2"
  shows "rx_counter (count_rx s n k) s' = (if s' = s then n else rx_counter k s')"
  using assms by (cases k; cases s; cases s') (auto simp: rx_counter_def count_rx_def)

lemma keymap_counters:
  assumes "keys_ok d" "keymap d i = Some k"
  shows "length (fst (snd (snd k))) = 2"
  using assms installed_slot(4) [OF assms(1)] by (auto simp: keymap_def seen_def key_struct_def split: if_splits)

text \<open>One operation keeps the keychain in order and raises the counter to what it accepts, or else removes the key.\<close>

lemma key_step_above:
  assumes "keys_ok d" "op_allowed i op"
  obtains r d' where "key_step op d = Some (r, d')" "keys_ok d'"
    "\<And>ns. above (keymap d' i) s ns \<Longrightarrow> above (keymap d i) s (accepted_number i s (op, r) @ ns)"
proof (cases op)
  case (Op_Install key)
  then have "key_struct key" "uk_id key \<noteq> i" using assms(2) by simp_all
  then show ?thesis
    using that [of "umac_keys_key_params_are_valid key"] install_key_ok [OF assms(1), of key] install_invalid [of key d] assms(1) Op_Install
    by (cases "umac_keys_key_params_are_valid key") auto
next
  case (Op_Uninstall j)
  obtain d' where d': "connection_keys_uninstall_key j d = Some (keymap d j \<noteq> None, d')" "keys_ok d'" "keymap d' = (keymap d)(j := None)"
    using uninstall_key_ok [OF assms(1), of j] by blast
  have "above (keymap d i) s (accepted_number i s (op, b) @ ns)" if "above (keymap d' i) s ns" for ns b
    using that d'(3) Op_Uninstall by (cases "j = i") (auto simp: above_def split: option.splits)
  then show ?thesis using that d' Op_Uninstall by simp
next
  case (Op_Check h s')
  then have "header_ok h" using assms(2) by simp
  from ccmp_ok [OF assms(1) this] obtain j n d' where c: "parse_ccmp_key_id h = Some j" "j < 4" "parse_ccmp_packet_number h = Some n"
    "ccmp_is_valid (Some h) s' d = Some (case keymap d j of None \<Rightarrow> False | Some k \<Rightarrow> fst k \<noteq> UMAC_KEY_TYPE_BLANK \<and> n > rx_counter k s', d')"
    "keys_ok d'"
    "keymap d' = (case keymap d j of None \<Rightarrow> keymap d
        | Some k \<Rightarrow> if fst k \<noteq> UMAC_KEY_TYPE_BLANK \<and> n > rx_counter k s' then (keymap d)(j \<mapsto> count_rx s' n k) else keymap d)" .
  show ?thesis
  proof (cases "\<exists>k. keymap d j = Some k \<and> fst k \<noteq> UMAC_KEY_TYPE_BLANK \<and> n > rx_counter k s'")
    case False
    then have "keymap d' = keymap d" "ccmp_is_valid (Some h) s' d = Some (False, d')" using c by (auto split: option.splits)
    then show ?thesis using that [of False d'] c(5) Op_Check by simp
  next
    case True
    then obtain k where k: "keymap d j = Some k" "fst k \<noteq> UMAC_KEY_TYPE_BLANK" "n > rx_counter k s'" by blast
    have "above (keymap d i) s (accepted_number i s (op, True) @ ns)" if "above (keymap d' i) s ns" for ns
      using that k c rx_counter_count [OF keymap_counters [OF assms(1) k(1)], of s' n] Op_Check
      by (cases "j = i"; cases "s' = s") (auto simp: above_def split: option.splits)
    then show ?thesis using that [of True d'] c k Op_Check by simp
  qed
qed

text \<open>C19. Replays are detected: in any sequence of installations of other keys, removals and checks of frames, the packet numbers accepted for a
  key in a counter space are strictly increasing and above the counter the key had, so that none is accepted twice; without
  the key installed none is. No operation fails.\<close>

theorem replay_never_accepted:
  assumes "keys_ok d" "list_all (op_allowed i) ops"
  shows "\<exists>rs d'. key_run ops d = Some (rs, d') \<and> keys_ok d' \<and> sorted_wrt (<) (accepted i s ops rs)
    \<and> (case keymap d i of None \<Rightarrow> accepted i s ops rs = [] | Some k \<Rightarrow> \<forall>n\<in>set (accepted i s ops rs). rx_counter k s < n)"
proof -
  have "\<exists>rs d'. key_run ops d = Some (rs, d') \<and> keys_ok d' \<and> above (keymap d i) s (accepted i s ops rs)"
    using assms
  proof (induction ops arbitrary: d)
    case Nil
    then show ?case by (auto simp: accepted_def above_def split: option.splits)
  next
    case (Cons op ops)
    obtain r d1 where step: "key_step op d = Some (r, d1)" "keys_ok d1"
      "\<And>ns. above (keymap d1 i) s ns \<Longrightarrow> above (keymap d i) s (accepted_number i s (op, r) @ ns)"
      using key_step_above [of d i op s] Cons.prems by auto
    then obtain rs d' where "key_run ops d1 = Some (rs, d')" "keys_ok d'" "above (keymap d1 i) s (accepted i s ops rs)"
      using Cons.IH [of d1] Cons.prems by auto
    then show ?case using step by (simp add: accepted_Cons)
  qed
  then show ?thesis by (auto simp: above_def)
qed

text \<open>Uninstalling a key never disables it in the chip: its type is read after it was removed from the keychain and is blank then, so
  that the call of the driver is never made, and success is returned, whatever the key was.\<close>

theorem uninstall_leaves_key_in_chip:
  assumes "keys_ok d" "i < 6"
  shows "\<exists>d'. umac_keys_uninstall_key drv i d = Some (MMWLAN_SUCCESS, [], d') \<and> keymap d' = (keymap d)(i := None)"
proof -
  obtain d' where "connection_keys_uninstall_key i d = Some (keymap d i \<noteq> None, d')" "keys_ok d'" "keymap d' = (keymap d)(i := None)"
    using uninstall_key_ok [OF assms(1)] by blast
  then show ?thesis using get_key_type_ok [of d' i] assms(2) by (auto simp: umac_keys_uninstall_key_def)
qed

theorem replay_never_accepted_witness:
  "\<exists>d. keys_ok d \<and> keymap d 1 = Some (UMAC_KEY_TYPE_PAIRWISE, replicate 16 0, [0, 0], 0)
    \<and> (\<exists>rs d'. key_run [Op_Check [5, 0, 0, 64, 0, 0, 0, 0] RX_COUNTER_SPACE_DEFAULT, Op_Check [5, 0, 0, 64, 0, 0, 0, 0] RX_COUNTER_SPACE_DEFAULT,
          Op_Uninstall 1] d = Some (rs, d') \<and> keys_ok d' \<and>
        sorted_wrt (<) (accepted 1 RX_COUNTER_SPACE_DEFAULT [Op_Check [5, 0, 0, 64, 0, 0, 0, 0] RX_COUNTER_SPACE_DEFAULT,
          Op_Check [5, 0, 0, 64, 0, 0, 0, 0] RX_COUNTER_SPACE_DEFAULT, Op_Uninstall 1] rs))"
proof -
  obtain d where d: "keys_ok d" "keymap d = [1 \<mapsto> (UMAC_KEY_TYPE_PAIRWISE, replicate 16 0, [0, 0], 0)]"
    using sample_keychain by blast
  have ops: "list_all (op_allowed 1) [Op_Check [5, 0, 0, 64, 0, 0, 0, 0] RX_COUNTER_SPACE_DEFAULT,
      Op_Check [5, 0, 0, 64, 0, 0, 0, 0] RX_COUNTER_SPACE_DEFAULT, Op_Uninstall 1]"
    by (simp add: header_ok_def)
  show ?thesis using replay_never_accepted [OF d(1) ops, of RX_COUNTER_SPACE_DEFAULT] d by (intro exI [of _ d]) (elim exE conjE; simp)
qed

theorem uninstall_leaves_key_in_chip_witness:
  "\<exists>d. keymap d = [1 \<mapsto> (UMAC_KEY_TYPE_PAIRWISE, replicate 16 0, [0, 0], 0)]
    \<and> (\<exists>d'. umac_keys_uninstall_key MMWLAN_SUCCESS 1 d = Some (MMWLAN_SUCCESS, [], d') \<and> keymap d' = (keymap d)(1 := None))"
proof -
  obtain d where d: "keys_ok d" "keymap d = [1 \<mapsto> (UMAC_KEY_TYPE_PAIRWISE, replicate 16 0, [0, 0], 0)]" using sample_keychain by blast
  then show ?thesis using uninstall_leaves_key_in_chip [OF d(1), of 1 MMWLAN_SUCCESS] by (intro exI [of _ d]) simp
qed

end
