(* ===== verification/Rx_Frame.thy ===== *)
theory Rx_Frame
  imports Umac_Ba Keys
begin

section \<open>Received frames\<close>

text \<open>
  Packets as the data path sees them (\<open>morselib/include/mmpkt.h\<close>), the header of a frame (\<open>dot11.h\<close>, \<open>dot11_frames.h\<close>,
  \<open>dot11_utils.h\<close>) and the reassembly of fragments (\<open>umac/datapath/datapath_defrag.c\<close>).
\<close>

subsection \<open>Views of a packet\<close>

text \<open>The open view of a packet: its data, and the bytes of the buffer that are free in front of it and behind it.\<close>

record mmpktview =
  view_before :: nat
  view_data :: "nat list"
  view_after :: nat

definition mmpkt_get_data_length :: "mmpktview \<Rightarrow> nat" where
  "mmpkt_get_data_length view = length (view_data view)"

definition mmpkt_available_space_at_end :: "mmpktview \<Rightarrow> nat" where
  "mmpkt_available_space_at_end view = view_after view"

text \<open>The result \<open>None\<close> of the removals is the null pointer, that of the additions a failed assertion.\<close>

definition mmpkt_remove_from_start :: "nat \<Rightarrow> mmpktview \<Rightarrow> (nat list \<times> mmpktview) option" where
  "mmpkt_remove_from_start len view =
     (if mmpkt_get_data_length view < len then None
      else Some (take len (view_data view),
        view\<lparr>view_before := view_before view + len, view_data := drop len (view_data view)\<rparr>))"

definition mmpkt_remove_from_end :: "nat \<Rightarrow> mmpktview \<Rightarrow> (nat list \<times> mmpktview) option" where
  "mmpkt_remove_from_end len view =
     (if mmpkt_get_data_length view < len then None
      else Some (drop (mmpkt_get_data_length view - len) (view_data view),
        view\<lparr>view_data := take (mmpkt_get_data_length view - len) (view_data view), view_after := view_after view + len\<rparr>))"

definition mmpkt_prepend_data :: "nat list \<Rightarrow> mmpktview \<Rightarrow> mmpktview option" where
  "mmpkt_prepend_data bs view =
     (if length bs \<le> view_before view
      then Some (view\<lparr>view_before := view_before view - length bs, view_data := bs @ view_data view\<rparr>) else None)"

definition mmpkt_append_data :: "nat list \<Rightarrow> mmpktview \<Rightarrow> mmpktview option" where
  "mmpkt_append_data bs view =
     (if length bs \<le> mmpkt_available_space_at_end view
      then Some (view\<lparr>view_data := view_data view @ bs, view_after := view_after view - length bs\<rparr>) else None)"

definition mmpkt_adjust_start_offset :: "nat \<Rightarrow> mmpktview \<Rightarrow> mmpktview option" where
  "mmpkt_adjust_start_offset delta view =
     (if view_data view = [] \<and> delta \<le> view_after view
      then Some (view\<lparr>view_before := view_before view + delta, view_after := view_after view - delta\<rparr>) else None)"

subsection \<open>Headers\<close>

record dot11_hdr =
  frame_control :: nat
  addr1 :: "nat list"
  addr2 :: "nat list"
  addr3 :: "nat list"
  sequence_control :: nat
  addr4 :: "nat list"

text \<open>The header that a pointer to the first byte of a frame stands for: 24 bytes, and 6 more that only frames with four addresses have.\<close>

definition dot11_hdr_at :: "nat list \<Rightarrow> dot11_hdr option" where
  "dot11_hdr_at bs =
     (if length bs < 24 then None
      else do {
        fc \<leftarrow> get_le16 bs 0;
        sc \<leftarrow> get_le16 bs 22;
        Some \<lparr>frame_control = fc, addr1 = take 6 (drop 4 bs), addr2 = take 6 (drop 10 bs), addr3 = take 6 (drop 16 bs),
          sequence_control = sc, addr4 = take 6 (drop 24 bs)\<rparr>
      })"

definition dot11_frame_control_get_type :: "nat \<Rightarrow> nat" where
  "dot11_frame_control_get_type = get_field 0xc 2"

definition dot11_frame_control_get_subtype :: "nat \<Rightarrow> nat" where
  "dot11_frame_control_get_subtype = get_field 0xf0 4"

definition dot11_frame_control_get_to_ds :: "nat \<Rightarrow> bool" where
  "dot11_frame_control_get_to_ds fc \<longleftrightarrow> get_field 0x100 8 fc \<noteq> 0"

definition dot11_frame_control_get_from_ds :: "nat \<Rightarrow> bool" where
  "dot11_frame_control_get_from_ds fc \<longleftrightarrow> get_field 0x200 9 fc \<noteq> 0"

definition dot11_frame_control_get_more_fragments :: "nat \<Rightarrow> bool" where
  "dot11_frame_control_get_more_fragments fc \<longleftrightarrow> get_field 0x400 10 fc \<noteq> 0"

definition dot11_frame_control_get_retry :: "nat \<Rightarrow> bool" where
  "dot11_frame_control_get_retry fc \<longleftrightarrow> get_field 0x800 11 fc \<noteq> 0"

definition dot11_frame_control_get_protected :: "nat \<Rightarrow> bool" where
  "dot11_frame_control_get_protected fc \<longleftrightarrow> get_field 0x4000 14 fc \<noteq> 0"

definition dot11_sequence_control_get_fragment_number :: "nat \<Rightarrow> nat" where
  "dot11_sequence_control_get_fragment_number = get_field 0x000f 0"

definition dot11_sequence_control_get_sequence_number :: "nat \<Rightarrow> nat" where
  "dot11_sequence_control_get_sequence_number = get_field 0xfff0 4"

definition dot11_qos_control_get_tid :: "nat \<Rightarrow> nat" where
  "dot11_qos_control_get_tid = get_field 0x000f 0"

abbreviation (input) DOT11_FC_TYPE_CTRL :: nat where "DOT11_FC_TYPE_CTRL \<equiv> 1"
abbreviation (input) DOT11_FC_TYPE_DATA :: nat where "DOT11_FC_TYPE_DATA \<equiv> 2"
abbreviation (input) DOT11_FC_TYPE_EXT :: nat where "DOT11_FC_TYPE_EXT \<equiv> 3"
abbreviation (input) DOT11_FC_SUBTYPE_NULL_DATA :: nat where "DOT11_FC_SUBTYPE_NULL_DATA \<equiv> 4"
abbreviation (input) DOT11_FC_SUBTYPE_QOS_DATA :: nat where "DOT11_FC_SUBTYPE_QOS_DATA \<equiv> 8"
abbreviation (input) DOT11_FC_SUBTYPE_QOS_NULL :: nat where "DOT11_FC_SUBTYPE_QOS_NULL \<equiv> 12"
abbreviation (input) DOT11_CCMP_HEADER_LEN :: nat where "DOT11_CCMP_HEADER_LEN \<equiv> 8"
abbreviation (input) DOT11_CCMP_128_MIC_LEN :: nat where "DOT11_CCMP_128_MIC_LEN \<equiv> 8"

definition dot11_is_4addr_hdr :: "nat \<Rightarrow> bool" where
  "dot11_is_4addr_hdr fc \<longleftrightarrow> dot11_frame_control_get_type fc = DOT11_FC_TYPE_DATA
     \<and> (dot11_frame_control_get_to_ds fc \<and> dot11_frame_control_get_from_ds fc)"

definition dot11_data_hdr_get_len :: "dot11_hdr \<Rightarrow> nat" where
  "dot11_data_hdr_get_len hdr = (if dot11_is_4addr_hdr (frame_control hdr) then 30 else 24)"

definition dot11_get_sa_data :: "dot11_hdr \<Rightarrow> nat list" where
  "dot11_get_sa_data hdr =
     (let to_ds = dot11_frame_control_get_to_ds (frame_control hdr);
          from_ds = dot11_frame_control_get_from_ds (frame_control hdr)
      in if \<not> to_ds \<and> from_ds then addr3 hdr else if from_ds \<and> to_ds then addr4 hdr else addr2 hdr)"

definition dot11_get_da :: "dot11_hdr \<Rightarrow> nat list" where
  "dot11_get_da hdr = (if dot11_frame_control_get_to_ds (frame_control hdr) then addr3 hdr else addr1 hdr)"

definition mm_mac_addr_is_multicast :: "nat list \<Rightarrow> bool" where
  "mm_mac_addr_is_multicast a \<longleftrightarrow> and (a ! 0) 1 \<noteq> 0"

definition mm_mac_addr_is_broadcast :: "nat list \<Rightarrow> bool" where
  "mm_mac_addr_is_broadcast a \<longleftrightarrow> and (and (and (and (and (a ! 0) (a ! 1)) (a ! 2)) (a ! 3)) (a ! 4)) (a ! 5) = 0xff"

definition dot11_get_next_sequence_control :: "dot11_hdr \<Rightarrow> nat" where
  "dot11_get_next_sequence_control hdr =
     (if dot11_frame_control_get_more_fragments (frame_control hdr) then u16 (sequence_control hdr + 1)
      else u16 (and (sequence_control hdr) 0xfff0 + 16))"

text \<open>The difference is taken in 16 bits and read as signed.\<close>

definition dot11_sequence_control_lt :: "nat \<Rightarrow> nat \<Rightarrow> bool" where
  "dot11_sequence_control_lt a b \<longleftrightarrow> u16 (a + (65536 - b)) \<ge> 32768"

definition snap_802_1h :: "nat list" where
  "snap_802_1h = [0xAA, 0xAA, 0x03, 0x00, 0x00, 0x00]"

abbreviation (input) UMAC_802_1_HEADER_LEN :: nat where "UMAC_802_1_HEADER_LEN \<equiv> 8"
abbreviation (input) ETHERTYPE_EAPOL :: nat where "ETHERTYPE_EAPOL \<equiv> 0x888E"

definition umac_datapath_validate_buf_len :: "mmpktview \<Rightarrow> nat \<Rightarrow> bool" where
  "umac_datapath_validate_buf_len view min_length \<longleftrightarrow> \<not> mmpkt_get_data_length view < min_length"

definition umac_datapath_get_llc_ethertype :: "mmpktview \<Rightarrow> nat" where
  "umac_datapath_get_llc_ethertype view =
     (if \<not> umac_datapath_validate_buf_len view UMAC_802_1_HEADER_LEN then 0
      else if take 6 (view_data view) \<noteq> snap_802_1h then 0
      else 256 * view_data view ! 6 + view_data view ! 7)"

definition umac_datapath_is_eapol_frame :: "mmpktview \<Rightarrow> bool" where
  "umac_datapath_is_eapol_frame view \<longleftrightarrow> umac_datapath_get_llc_ethertype view = ETHERTYPE_EAPOL"

text \<open>The header of an Ethernet frame as bytes: destination, source, type.\<close>

definition umac_datapath_generate_8023_header :: "nat list \<Rightarrow> nat list \<Rightarrow> nat \<Rightarrow> nat list" where
  "umac_datapath_generate_8023_header dest_addr src_addr ethertype =
     dest_addr @ src_addr @ [ethertype div 256 mod 256, ethertype mod 256]"

subsection \<open>Reassembly\<close>

abbreviation (input) MAX_FRAG_CHAINS :: nat where "MAX_FRAG_CHAINS \<equiv> 9"
abbreviation (input) DEFRAG_TIMEOUT_MS :: nat where "DEFRAG_TIMEOUT_MS \<equiv> 1000"

text \<open>A chain of fragments. \<open>fc_timer\<close> is whether its timeout is registered with the core.\<close>

record frag_chain =
  fc_sequence_number :: nat
  fc_is_protected :: bool
  fc_buf :: "mmpktview option"
  fc_timer :: bool

definition empty_chain :: frag_chain where
  "empty_chain = \<lparr>fc_sequence_number = 0, fc_is_protected = False, fc_buf = None, fc_timer = False\<rparr>"

definition datapath_defrag_is_in_frag_chain :: "frag_chain \<Rightarrow> nat \<Rightarrow> bool" where
  "datapath_defrag_is_in_frag_chain c sc \<longleftrightarrow> fc_sequence_number c = dot11_sequence_control_get_sequence_number sc"

definition datapath_defrag_timeout :: "frag_chain \<Rightarrow> frag_chain" where
  "datapath_defrag_timeout c = c\<lparr>fc_buf := None, fc_timer := False\<rparr>"

text \<open>\<open>alloc\<close> is the capacity of the packet that the driver provides, if it does; \<open>timer_ok\<close> whether the timeout can be registered.\<close>

definition datapath_defrag_init_buffer :: "nat option \<Rightarrow> bool \<Rightarrow> frag_chain \<Rightarrow> frag_chain option" where
  "datapath_defrag_init_buffer alloc timer_ok c =
     (let c = c\<lparr>fc_buf := None\<rparr>; c = c\<lparr>fc_timer := False\<rparr>
      in case alloc of
           None \<Rightarrow> Some c
         | Some capacity \<Rightarrow> do {
             buf \<leftarrow> mmpkt_adjust_start_offset 30 \<lparr>view_before = 0, view_data = [], view_after = capacity\<rparr>;
             Some (c\<lparr>fc_buf := Some buf, fc_timer := timer_ok\<rparr>)
           })"

text \<open>The result tells whether there was room.\<close>

definition datapath_defrag_add_fragment :: "frag_chain \<Rightarrow> mmpktview \<Rightarrow> (bool \<times> frag_chain) option" where
  "datapath_defrag_add_fragment c view = do {
     buf \<leftarrow> fc_buf c;
     if mmpkt_available_space_at_end buf < mmpkt_get_data_length view then Some (False, c)
     else do {
       buf \<leftarrow> mmpkt_append_data (view_data view) buf;
       Some (True, c\<lparr>fc_buf := Some buf\<rparr>)
     }
   }"

definition datapath_defrag_is_first_fragment :: "dot11_hdr \<Rightarrow> bool" where
  "datapath_defrag_is_first_fragment hdr \<longleftrightarrow> dot11_sequence_control_get_fragment_number (sequence_control hdr) = 0"

definition datapath_defrag_is_fragment :: "dot11_hdr \<Rightarrow> bool" where
  "datapath_defrag_is_fragment hdr \<longleftrightarrow> dot11_sequence_control_get_fragment_number (sequence_control hdr) \<noteq> 0
     \<or> dot11_frame_control_get_more_fragments (frame_control hdr)"

text \<open>The steps that \<open>datapath_defrag\<close> takes on its chain: the view of the whole data once it is complete. The header prepended and removed
  again stays in front of that view.\<close>

definition defrag_chain :: "nat option \<Rightarrow> bool \<Rightarrow> dot11_hdr \<Rightarrow> nat list \<Rightarrow> mmpktview \<Rightarrow> frag_chain \<Rightarrow> (mmpktview option \<times> frag_chain) option" where
  "defrag_chain alloc timer_ok hdr hdr_bytes view c = do {
     c \<leftarrow> if datapath_defrag_is_first_fragment hdr
          then do {
            c \<leftarrow> datapath_defrag_init_buffer alloc timer_ok c;
            Some (c\<lparr>fc_sequence_number := dot11_sequence_control_get_sequence_number (sequence_control hdr),
              fc_is_protected := dot11_frame_control_get_protected (frame_control hdr)\<rparr>)
          }
          else Some c;
     if \<not> datapath_defrag_is_in_frag_chain c (sequence_control hdr) \<or> fc_buf c = None then Some (None, c)
     else if fc_is_protected c \<noteq> dot11_frame_control_get_protected (frame_control hdr) then Some (None, c)
     else do {
       (added, c) \<leftarrow> datapath_defrag_add_fragment c view;
       if \<not> added then Some (None, c\<lparr>fc_buf := None, fc_timer := False\<rparr>)
       else if dot11_frame_control_get_more_fragments (frame_control hdr) then Some (None, c)
       else do {
         return_view \<leftarrow> fc_buf c;
         return_view \<leftarrow> mmpkt_prepend_data hdr_bytes return_view;
         (_, return_view) \<leftarrow> mmpkt_remove_from_start (length hdr_bytes) return_view;
         Some (Some return_view, c\<lparr>fc_buf := None, fc_timer := False\<rparr>)
       }
     }
   }"

text \<open>The result is the view to go on with, if any; \<open>hdr_bytes\<close> are the bytes of the header.\<close>

definition datapath_defrag ::
  "nat option \<Rightarrow> bool \<Rightarrow> dot11_hdr \<Rightarrow> nat list \<Rightarrow> mmpktview \<Rightarrow> nat \<Rightarrow> frag_chain list \<Rightarrow> (mmpktview option \<times> frag_chain list) option" where
  "datapath_defrag alloc timer_ok hdr hdr_bytes view tid_idx cs =
     (if \<not> datapath_defrag_is_fragment hdr then Some (Some view, cs)
      else if tid_idx \<ge> MAX_FRAG_CHAINS then Some (None, cs)
      else do {
        c \<leftarrow> fetch cs tid_idx;
        (return_view, c) \<leftarrow> defrag_chain alloc timer_ok hdr hdr_bytes view c;
        cs \<leftarrow> store cs tid_idx c;
        Some (return_view, cs)
      })"

definition datapath_defrag_deinit :: "frag_chain list \<Rightarrow> frag_chain list" where
  "datapath_defrag_deinit cs = List.map (\<lambda>c. c\<lparr>fc_buf := None, fc_timer := False\<rparr>) cs"

end
