(* ===== verification/Defrag.thy ===== *)
theory Defrag
  imports Rx_Frame
begin

section \<open>Reassembly of fragments\<close>

text \<open>
  Theorems on \<open>datapath_defrag\<close> of \<open>Rx_Frame\<close>: what becomes of a sequence of fragments, and that the timeout of a chain finds a buffer to release.
\<close>

text \<open>A fragment: its header, the bytes of it, and the view of what follows. \<open>alloc\<close> and \<open>timer_ok\<close> are given per fragment.\<close>

record fragment =
  fr_hdr :: dot11_hdr
  fr_hdr_bytes :: "nat list"
  fr_view :: mmpktview
  fr_alloc :: "nat option"
  fr_timer_ok :: bool

definition take_fragment :: "nat \<Rightarrow> fragment \<Rightarrow> frag_chain list \<Rightarrow> (mmpktview option \<times> frag_chain list) option" where
  "take_fragment tid f cs = datapath_defrag (fr_alloc f) (fr_timer_ok f) (fr_hdr f) (fr_hdr_bytes f) (fr_view f) tid cs"

fun take_fragments :: "nat \<Rightarrow> fragment list \<Rightarrow> frag_chain list \<Rightarrow> (mmpktview option list \<times> frag_chain list) option" where
  "take_fragments tid [] cs = Some ([], cs)"
| "take_fragments tid (f # fs) cs = do {
     (v, cs) \<leftarrow> take_fragment tid f cs;
     (vs, cs) \<leftarrow> take_fragments tid fs cs;
     Some (v # vs, cs)
   }"

definition number_of :: "fragment \<Rightarrow> nat" where
  "number_of f = dot11_sequence_control_get_fragment_number (sequence_control (fr_hdr f))"

definition sequence_of :: "fragment \<Rightarrow> nat" where
  "sequence_of f = dot11_sequence_control_get_sequence_number (sequence_control (fr_hdr f))"

definition more_follow :: "fragment \<Rightarrow> bool" where
  "more_follow f \<longleftrightarrow> dot11_frame_control_get_more_fragments (frame_control (fr_hdr f))"

definition protected_of :: "fragment \<Rightarrow> bool" where
  "protected_of f \<longleftrightarrow> dot11_frame_control_get_protected (frame_control (fr_hdr f))"

abbreviation (input) body_of :: "fragment \<Rightarrow> nat list" where
  "body_of f \<equiv> view_data (fr_view f)"

text \<open>A chain that has taken \<open>done\<close> and has room for \<open>room\<close> more bytes.\<close>

definition collecting :: "nat \<Rightarrow> bool \<Rightarrow> nat list \<Rightarrow> nat \<Rightarrow> frag_chain \<Rightarrow> bool" where
  "collecting sq prot done' room c \<longleftrightarrow> fc_sequence_number c = sq \<and> fc_is_protected c = prot
     \<and> (\<exists>b. fc_buf c = Some b \<and> view_data b = done' \<and> view_before b = 30 \<and> view_after b \<ge> room)"

lemmas fragment_defs = number_of_def sequence_of_def more_follow_def protected_of_def datapath_defrag_is_first_fragment_def
  datapath_defrag_is_in_frag_chain_def datapath_defrag_add_fragment_def mmpkt_append_data_def mmpkt_available_space_at_end_def mmpkt_get_data_length_def

lemma take_fragment_chain:
  assumes "tid < length cs" "length cs = 9" "number_of f \<noteq> 0 \<or> more_follow f"
    "defrag_chain (fr_alloc f) (fr_timer_ok f) (fr_hdr f) (fr_hdr_bytes f) (fr_view f) (cs ! tid) = Some (v, c)"
  shows "take_fragment tid f cs = Some (v, cs[tid := c])"
  using assms by (simp add: take_fragment_def datapath_defrag_def datapath_defrag_is_fragment_def number_of_def more_follow_def)

lemma first_fragment:
  assumes "tid < length cs" "length cs = 9" "number_of f = 0" "more_follow f" "fr_alloc f = Some capacity"
    "30 + length (body_of f) + room \<le> capacity"
  shows "\<exists>c. take_fragment tid f cs = Some (None, cs[tid := c]) \<and> collecting (sequence_of f) (protected_of f) (body_of f) room c"
proof -
  have "30 \<le> capacity" "\<not> capacity - 30 < length (body_of f)" "length (body_of f) \<le> capacity - 30" "room \<le> capacity - 30 - length (body_of f)"
    using assms(6) by simp_all
  then have "\<exists>c. defrag_chain (fr_alloc f) (fr_timer_ok f) (fr_hdr f) (fr_hdr_bytes f) (fr_view f) (cs ! tid) = Some (None, c)
      \<and> collecting (sequence_of f) (protected_of f) (body_of f) room c"
    using assms(3-5) by (simp add: defrag_chain_def fragment_defs datapath_defrag_init_buffer_def mmpkt_adjust_start_offset_def collecting_def Let_def)
  then show ?thesis using take_fragment_chain assms(1,2,4) by blast
qed

lemma next_fragment:
  assumes "tid < length cs" "length cs = 9" "collecting sq prot done' room (cs ! tid)" "number_of f \<noteq> 0" "sequence_of f = sq" "protected_of f = prot"
    "length (body_of f) + room' \<le> room" "length (fr_hdr_bytes f) \<le> 30"
  shows "\<exists>v c. take_fragment tid f cs = Some (v, cs[tid := c])
    \<and> (if more_follow f then v = None \<and> collecting sq prot (done' @ body_of f) room' c
       else (\<exists>w. v = Some w \<and> view_data w = done' @ body_of f) \<and> fc_buf c = None \<and> \<not> fc_timer c)"
proof -
  obtain b where b: "fc_buf (cs ! tid) = Some b" "view_data b = done'" "view_before b = 30" "view_after b \<ge> room"
    "fc_sequence_number (cs ! tid) = sq" "fc_is_protected (cs ! tid) = prot" using assms(3) by (auto simp: collecting_def)
  have room: "\<not> view_after b < length (body_of f)" "length (body_of f) \<le> view_after b" "room' \<le> view_after b - length (body_of f)"
    using b(4) assms(7) by simp_all
  have "\<exists>v c. defrag_chain (fr_alloc f) (fr_timer_ok f) (fr_hdr f) (fr_hdr_bytes f) (fr_view f) (cs ! tid) = Some (v, c)
    \<and> (if more_follow f then v = None \<and> collecting sq prot (done' @ body_of f) room' c
       else (\<exists>w. v = Some w \<and> view_data w = done' @ body_of f) \<and> fc_buf c = None \<and> \<not> fc_timer c)"
    using assms(4-6,8) b room
    by (auto simp: defrag_chain_def fragment_defs collecting_def mmpkt_prepend_data_def mmpkt_remove_from_start_def)
  then show ?thesis using take_fragment_chain assms(1,2,4) by blast
qed

lemma later_fragments:
  assumes "fs \<noteq> []" "tid < length cs" "length cs = 9" "collecting sq prot done' (length (concat (List.map (\<lambda>f. body_of f) fs))) (cs ! tid)"
    "\<forall>f\<in>set fs. number_of f \<noteq> 0 \<and> sequence_of f = sq \<and> protected_of f = prot \<and> length (fr_hdr_bytes f) \<le> 30"
    "\<forall>f\<in>set (butlast fs). more_follow f" "\<not> more_follow (last fs)"
  shows "\<exists>w c. take_fragments tid fs cs = Some (replicate (length fs - 1) None @ [Some w], cs[tid := c])
    \<and> view_data w = done' @ concat (List.map (\<lambda>f. body_of f) fs) \<and> fc_buf c = None \<and> \<not> fc_timer c"
  using assms
proof (induction fs arbitrary: cs done')
  case (Cons f fs)
  let ?room = "length (concat (List.map (\<lambda>f. body_of f) fs))"
  obtain v c where c: "take_fragment tid f cs = Some (v, cs[tid := c])"
    "if more_follow f then v = None \<and> collecting sq prot (done' @ body_of f) ?room c
       else (\<exists>w. v = Some w \<and> view_data w = done' @ body_of f) \<and> fc_buf c = None \<and> \<not> fc_timer c"
    using next_fragment [OF Cons.prems(2-4), of f ?room] Cons.prems(5) by auto
  show ?case
  proof (cases "fs = []")
    case True
    then show ?thesis using c Cons.prems(7) by auto
  next
    case False
    then have more: "more_follow f" using Cons.prems(6) by simp
    then have "v = None" "collecting sq prot (done' @ body_of f) ?room (cs[tid := c] ! tid)" using c(2) Cons.prems(2) by simp_all
    then obtain w c' where "take_fragments tid fs (cs[tid := c]) = Some (replicate (length fs - 1) None @ [Some w], cs[tid := c, tid := c'])"
      "view_data w = (done' @ body_of f) @ concat (List.map (\<lambda>f. body_of f) fs)" "fc_buf c' = None" "\<not> fc_timer c'"
      using Cons.IH [of "cs[tid := c]" "done' @ body_of f"] False Cons.prems by auto
    moreover have "None # replicate (length fs - 1) None = replicate (length fs) None" using False by (cases fs) simp_all
    ultimately show ?thesis using c(1) \<open>v = None\<close> by auto
  qed
qed simp

text \<open>C24. Fragments of one number of the sequence that arrive in order are put together to what was cut, whatever the chain held before: nothing comes out before the last, then
  the concatenation, and the chain is free again. The same holds whatever the numbers of the later fragments are, since they are not compared.\<close>

theorem fragments_reassemble:
  assumes "fs \<noteq> []" "tid < 9" "length cs = 9" "number_of f = 0" "fr_alloc f = Some capacity"
    "30 + length (concat (List.map (\<lambda>f. body_of f) (f # fs))) \<le> capacity"
    "\<forall>g\<in>set fs. number_of g \<noteq> 0 \<and> sequence_of g = sequence_of f \<and> protected_of g = protected_of f \<and> length (fr_hdr_bytes g) \<le> 30"
    "\<forall>g\<in>set (butlast (f # fs)). more_follow g" "\<not> more_follow (last fs)"
  shows "\<exists>w c. take_fragments tid (f # fs) cs = Some (replicate (length fs) None @ [Some w], cs[tid := c])
    \<and> view_data w = concat (List.map (\<lambda>f. body_of f) (f # fs)) \<and> fc_buf c = None \<and> \<not> fc_timer c"
proof -
  let ?room = "length (concat (List.map (\<lambda>f. body_of f) fs))"
  obtain c where c: "take_fragment tid f cs = Some (None, cs[tid := c])" "collecting (sequence_of f) (protected_of f) (body_of f) ?room c"
    using first_fragment [of tid cs f capacity ?room] assms(1-6,8) by auto
  have "\<forall>g\<in>set (butlast fs). more_follow g" using assms(8,1) by simp
  then obtain w c' where "take_fragments tid fs (cs[tid := c]) = Some (replicate (length fs - 1) None @ [Some w], cs[tid := c, tid := c'])"
    "view_data w = body_of f @ concat (List.map (\<lambda>f. body_of f) fs)" "fc_buf c' = None" "\<not> fc_timer c'"
    using later_fragments [OF assms(1), of tid "cs[tid := c]" "sequence_of f" "protected_of f" "body_of f"] c(2) assms(2,3,7,9) by auto
  moreover have "None # replicate (length fs - 1) None = replicate (length fs) None" using assms(1) by (cases fs) simp_all
  ultimately show ?thesis using c(1) by auto
qed

text \<open>The fragment with the number 1 is missing.\<close>

definition sample_fragment :: "nat \<Rightarrow> bool \<Rightarrow> nat list \<Rightarrow> fragment" where
  "sample_fragment n follow body = \<lparr>fr_hdr = \<lparr>frame_control = 0x88 + (if follow then 0x400 else 0), addr1 = replicate 6 2, addr2 = replicate 6 4, addr3 = replicate 6 6,
     sequence_control = 16 * 7 + n, addr4 = []\<rparr>, fr_hdr_bytes = replicate 24 0, fr_view = \<lparr>view_before = 26, view_data = body, view_after = 0\<rparr>,
     fr_alloc = Some 1600, fr_timer_ok = True\<rparr>"

theorem fragments_reassemble_witness:
  "\<exists>w c. take_fragments 3 [sample_fragment 0 True [1, 2], sample_fragment 2 False [5, 6]] (replicate 9 empty_chain)
      = Some (replicate (length [sample_fragment 2 False [5, 6]]) None @ [Some w], (replicate 9 empty_chain)[3 := c])
    \<and> view_data w = concat (List.map (\<lambda>f. body_of f) [sample_fragment 0 True [1, 2], sample_fragment 2 False [5, 6]])
    \<and> fc_buf c = None \<and> \<not> fc_timer c"
  by (rule fragments_reassemble [where capacity = 1600])
    (simp_all add: sample_fragment_def number_of_def sequence_of_def protected_of_def more_follow_def dot11_sequence_control_get_fragment_number_def
      dot11_sequence_control_get_sequence_number_def dot11_frame_control_get_protected_def dot11_frame_control_get_more_fragments_def get_field_def)

text \<open>The timeout of a chain is registered only while there is a buffer to release.\<close>

definition timers_ok :: "frag_chain list \<Rightarrow> bool" where
  "timers_ok cs \<longleftrightarrow> (\<forall>c\<in>set cs. fc_timer c \<longrightarrow> fc_buf c \<noteq> None)"

lemma timers_ok_update: "timers_ok cs \<Longrightarrow> (fc_timer c \<Longrightarrow> fc_buf c \<noteq> None) \<Longrightarrow> timers_ok (cs[i := c])"
  by (auto simp: timers_ok_def dest!: set_update_subset_insert [THEN subsetD])

lemma defrag_timers:
  assumes "timers_ok cs" "datapath_defrag alloc timer_ok h hb v tid cs = Some (r, cs')"
  shows "timers_ok cs'"
proof -
  have "fc_timer c' \<longrightarrow> fc_buf c' \<noteq> None" if "defrag_chain alloc timer_ok h hb v c = Some (r, c')" "fc_timer c \<longrightarrow> fc_buf c \<noteq> None" for c c'
    using that
    by (auto simp: defrag_chain_def datapath_defrag_init_buffer_def datapath_defrag_add_fragment_def Let_def bind_eq_Some_conv
      split: if_splits option.splits)
  moreover have "tid < length cs \<Longrightarrow> fc_timer (cs ! tid) \<longrightarrow> fc_buf (cs ! tid) \<noteq> None" using assms(1) by (simp add: timers_ok_def)
  ultimately show ?thesis using assms
    by (auto simp: datapath_defrag_def bind_eq_Some_conv fetch_eq_Some store_eq_Some intro!: timers_ok_update split: if_splits)
qed

end
