(* ===== verification/Rx_Path.thy ===== *)
theory Rx_Path
  imports Rx_Frame Mmosal_Time
begin

section \<open>The receive path\<close>

text \<open>
  The path of received data frames in \<open>morselib/src/umac/datapath/umac_datapath.c\<close>: detection of repeated frames, the list that puts the
  frames of a block acknowledgement session back in order, and what happens to a frame after that. A step returns the state of the
  station, which ends with a log of what left the data path: frames delivered to the network stack, EAPOL frames and packets released.
\<close>

abbreviation (input) MMWLAN_MAX_QOS_TID :: nat where "MMWLAN_MAX_QOS_TID \<equiv> 7"
abbreviation (input) MMDRV_SEQ_NUM_BASELINE :: nat where "MMDRV_SEQ_NUM_BASELINE \<equiv> 8"
abbreviation (input) MMDRV_SEQ_NUM_SPACES :: nat where "MMDRV_SEQ_NUM_SPACES \<equiv> 10"
abbreviation (input) RX_REORDER_TIMEOUT_MS :: nat where "RX_REORDER_TIMEOUT_MS \<equiv> 100"

text \<open>A received packet: its view, and from its metadata whether the chip decrypted it and when it was read.\<close>

record rx_mpdu =
  m_view :: mmpktview
  m_decrypted :: bool
  m_time :: nat

datatype rx_effect = Deliver nat "nat list" | Eapol "nat list" "nat list" | Released

record umac_datapath_sta_data =
  rx_seq_num_spaces :: "nat list"
  rx_frag_chains :: "frag_chain list"
  rx_reorder_list :: "rx_mpdu list"
  rx_reorder_tid :: nat
  rx_reorder_timers :: nat
  rx_ba :: umac_ba_sta_data
  rx_keys :: connection_keys_data
  rx_log :: "rx_effect list"

text \<open>What a step finds outside: the security of the connection, the interface and its state, the callback registered, and, for the
  step whose log has \<open>n\<close> entries, the capacity of a packet allocated, whether a timeout can be registered and the time.\<close>

datatype rx_callback = Pkt_Ext_Callback | Pkt_Callback | Data_Callback | No_Callback

record rx_env =
  env_open :: bool
  env_ops :: bool
  env_connected :: bool
  env_vif_known :: bool
  env_own_addr :: "nat list"
  env_callback :: rx_callback
  env_alloc :: "nat \<Rightarrow> nat option"
  env_timer_ok :: "nat \<Rightarrow> bool"
  env_now :: "nat \<Rightarrow> nat"

type_synonym rx_step = "umac_datapath_sta_data \<Rightarrow> umac_datapath_sta_data option"

definition log_effects :: "rx_effect list \<Rightarrow> umac_datapath_sta_data \<Rightarrow> umac_datapath_sta_data" where
  "log_effects es s = s\<lparr>rx_log := rx_log s @ es\<rparr>"

subsection \<open>After reordering\<close>

text \<open>A protected frame loses its CCMP header, if that is no replay, and the integrity code; \<open>None\<close> inside the result drops it.\<close>

definition rx_unprotect :: "rx_mpdu \<Rightarrow> dot11_hdr \<Rightarrow> mmpktview \<Rightarrow> umac_datapath_sta_data \<Rightarrow> (mmpktview option \<times> umac_datapath_sta_data) option" where
  "rx_unprotect m hdr view s =
     (if \<not> dot11_frame_control_get_protected (frame_control hdr) then Some (Some view, s)
      else if \<not> m_decrypted m then Some (None, s)
      else do {
        let removed = mmpkt_remove_from_start DOT11_CCMP_HEADER_LEN view;
        (valid, keys) \<leftarrow> ccmp_is_valid (map_option fst removed) RX_COUNTER_SPACE_DEFAULT (rx_keys s);
        let s = s\<lparr>rx_keys := keys\<rparr>;
        let view = (case removed of None \<Rightarrow> view | Some (_, view) \<Rightarrow> view);
        if \<not> valid then Some (None, s)
        else Some (map_option snd (mmpkt_remove_from_end DOT11_CCMP_128_MIC_LEN view), s)
      })"

text \<open>The end of the path of a frame, complete and checked.\<close>

definition rx_deliver :: "rx_env \<Rightarrow> nat \<Rightarrow> dot11_hdr \<Rightarrow> mmpktview \<Rightarrow> rx_step" where
  "rx_deliver env tid_index hdr view s =
     (if umac_datapath_is_eapol_frame view
      then if dot11_is_4addr_hdr (frame_control hdr) then Some (log_effects [Released] s)
      else do {
        (_, view) \<leftarrow> mmpkt_remove_from_start UMAC_802_1_HEADER_LEN view;
        Some (log_effects ((if env_ops env then [Eapol (view_data view) (dot11_get_sa_data hdr)] else []) @ [Released]) s)
      }
      else if \<not> env_ops env \<or> \<not> env_connected env \<or> \<not> env_vif_known env then Some (log_effects [Released] s)
      else do {
        let llc_ethertype = umac_datapath_get_llc_ethertype view;
        if llc_ethertype = 0 then Some (log_effects [Released] s)
        else do {
          let view = (case mmpkt_remove_from_start UMAC_802_1_HEADER_LEN view of None \<Rightarrow> view | Some (_, view) \<Rightarrow> view);
          let header_8023 = umac_datapath_generate_8023_header (dot11_get_da hdr) (dot11_get_sa_data hdr) llc_ethertype;
          case env_callback env of
            No_Callback \<Rightarrow> Some (log_effects [Released] s)
          | Data_Callback \<Rightarrow> Some (log_effects [Deliver tid_index (header_8023 @ view_data view), Released] s)
          | _ \<Rightarrow> do {
              view \<leftarrow> mmpkt_prepend_data header_8023 view;
              Some (log_effects [Deliver tid_index (view_data view)] s)
            }
        }
      })"

definition rx_tid_of :: "dot11_hdr \<Rightarrow> mmpktview \<Rightarrow> (nat \<times> mmpktview) option" where
  "rx_tid_of hdr view =
     (if dot11_frame_control_get_subtype (frame_control hdr) = DOT11_FC_SUBTYPE_QOS_DATA
      then do {
        (qos_control, view) \<leftarrow> mmpkt_remove_from_start 2 view;
        field \<leftarrow> get_le16 qos_control 0;
        Some (if \<not> mm_mac_addr_is_multicast (addr1 hdr) then dot11_qos_control_get_tid field else MMDRV_SEQ_NUM_BASELINE, view)
      }
      else Some (MMDRV_SEQ_NUM_BASELINE, view))"

definition rx_count_expected :: "rx_env \<Rightarrow> nat \<Rightarrow> dot11_hdr \<Rightarrow> rx_step" where
  "rx_count_expected env tid_index hdr s =
     (if tid_index \<le> MMWLAN_MAX_QOS_TID \<and> (dot11_frame_control_get_protected (frame_control hdr) \<or> env_open env)
      then do {
        ba \<leftarrow> umac_ba_set_expected_rx_seq_num tid_index (dot11_get_next_sequence_control hdr) (rx_ba s);
        Some (s\<lparr>rx_ba := ba\<rparr>)
      }
      else Some s)"

text \<open>A frame whose header is off: frames to a group are filtered, others reassembled.\<close>

definition rx_route :: "rx_env \<Rightarrow> nat \<Rightarrow> dot11_hdr \<Rightarrow> nat list \<Rightarrow> mmpktview \<Rightarrow> rx_step" where
  "rx_route env tid_index hdr hdr_bytes view s =
     (if mm_mac_addr_is_broadcast (dot11_get_da hdr) \<or> mm_mac_addr_is_multicast (dot11_get_da hdr)
      then
        if dot11_frame_control_get_more_fragments (frame_control hdr)
          \<or> (dot11_frame_control_get_from_ds (frame_control hdr) \<and> dot11_get_sa_data hdr = env_own_addr env)
        then Some (log_effects [Released] s)
        else rx_deliver env tid_index hdr view s
      else do {
        let n = length (rx_log s);
        (whole, cs) \<leftarrow> datapath_defrag (env_alloc env n) (env_timer_ok env n) hdr hdr_bytes view tid_index (rx_frag_chains s);
        let s = s\<lparr>rx_frag_chains := cs\<rparr>;
        let s = (if datapath_defrag_is_fragment hdr then log_effects [Released] s else s);
        case whole of None \<Rightarrow> Some s | Some view \<Rightarrow> rx_deliver env tid_index hdr view s
      })"

definition umac_datapath_process_rx_data_frame_after_reorder :: "rx_env \<Rightarrow> rx_mpdu \<Rightarrow> rx_step" where
  "umac_datapath_process_rx_data_frame_after_reorder env m s = do {
     hdr \<leftarrow> dot11_hdr_at (view_data (m_view m));
     (hdr_bytes, view) \<leftarrow> mmpkt_remove_from_start (dot11_data_hdr_get_len hdr) (m_view m);
     (tid_index, view) \<leftarrow> rx_tid_of hdr view;
     if \<not> env_open env \<and> \<not> dot11_frame_control_get_protected (frame_control hdr) \<and> \<not> umac_datapath_is_eapol_frame view
     then Some (log_effects [Released] s)
     else do {
       (unprotected, s) \<leftarrow> rx_unprotect m hdr view s;
       case unprotected of
         None \<Rightarrow> Some (log_effects [Released] s)
       | Some view \<Rightarrow> do {
           s \<leftarrow> rx_count_expected env tid_index hdr s;
           rx_route env tid_index hdr hdr_bytes view s
         }
     }
   }"

subsection \<open>The reorder list\<close>

definition umac_datapath_flush_rx_reorder_list :: "rx_env \<Rightarrow> rx_step" where
  "umac_datapath_flush_rx_reorder_list env s =
     foldM (umac_datapath_process_rx_data_frame_after_reorder env) (rx_reorder_list s) (s\<lparr>rx_reorder_list := []\<rparr>)"

definition umac_datapath_flush_rx_reorder_list_for_tid :: "rx_env \<Rightarrow> nat \<Rightarrow> rx_step" where
  "umac_datapath_flush_rx_reorder_list_for_tid env tid s =
     (if rx_reorder_tid s \<noteq> tid then Some s
      else do {
        s \<leftarrow> umac_datapath_flush_rx_reorder_list env s;
        umac_datapath_flush_rx_reorder_list env s
      })"

text \<open>The loop of the evaluation, over the list.\<close>

fun evaluate_loop :: "rx_env \<Rightarrow> rx_mpdu list \<Rightarrow> rx_step" where
  "evaluate_loop env [] s = Some (s\<lparr>rx_reorder_list := []\<rparr>)"
| "evaluate_loop env (pkt # list) s = do {
     header \<leftarrow> dot11_hdr_at (view_data (m_view pkt));
     ret \<leftarrow> umac_ba_get_expected_rx_seq_num (rx_reorder_tid s) (rx_ba s);
     if (case ret of None \<Rightarrow> True | Some expected \<Rightarrow> sequence_control header = u16 expected)
       \<or> mmosal_time_has_passed (env_now env (length (rx_log s))) (u32 (m_time pkt + RX_REORDER_TIMEOUT_MS))
     then do {
       s \<leftarrow> umac_datapath_process_rx_data_frame_after_reorder env pkt s;
       evaluate_loop env list s
     }
     else Some (s\<lparr>rx_reorder_list := pkt # list\<rparr>)
   }"

definition umac_datapath_evaluate_rx_reorder_list :: "rx_env \<Rightarrow> rx_step" where
  "umac_datapath_evaluate_rx_reorder_list env s = evaluate_loop env (rx_reorder_list s) s"

definition register_reorder_timeout :: "rx_env \<Rightarrow> umac_datapath_sta_data \<Rightarrow> umac_datapath_sta_data" where
  "register_reorder_timeout env s =
     (if env_timer_ok env (length (rx_log s)) then s\<lparr>rx_reorder_timers := rx_reorder_timers s + 1\<rparr> else s)"

text \<open>The handler runs when one of the registered timeouts expires, which is no longer registered then.\<close>

definition umac_datapath_rx_reorder_timeout_handler :: "rx_env \<Rightarrow> rx_step" where
  "umac_datapath_rx_reorder_timeout_handler env s = do {
     s \<leftarrow> umac_datapath_evaluate_rx_reorder_list env s;
     if rx_reorder_list s \<noteq> [] then Some (register_reorder_timeout env s) else Some s
   }"

text \<open>The walk through the list: \<open>None\<close> is the failed assertion, \<open>None\<close> inside the result a repetition.\<close>

fun insert_walk :: "nat \<Rightarrow> rx_mpdu \<Rightarrow> rx_mpdu list \<Rightarrow> rx_mpdu list option option" where
  "insert_walk seq_ctrl rxbuf [] = None"
| "insert_walk seq_ctrl rxbuf [walk] = Some (Some [walk, rxbuf])"
| "insert_walk seq_ctrl rxbuf (walk # next' # rest) = do {
     next_header \<leftarrow> dot11_hdr_at (view_data (m_view next'));
     let next_seq_ctrl = sequence_control next_header;
     if next_seq_ctrl = seq_ctrl then Some None
     else if dot11_sequence_control_lt seq_ctrl next_seq_ctrl then Some (Some (walk # rxbuf # next' # rest))
     else do {
       list \<leftarrow> insert_walk seq_ctrl rxbuf (next' # rest);
       Some (map_option ((#) walk) list)
     }
   }"

definition umac_datapath_add_rx_mpdu_to_reorder_list :: "rx_env \<Rightarrow> rx_mpdu \<Rightarrow> nat \<Rightarrow> nat \<Rightarrow> rx_step" where
  "umac_datapath_add_rx_mpdu_to_reorder_list env rxbuf seq_ctrl maxlen s =
     (case rx_reorder_list s of
        [] \<Rightarrow> Some ((register_reorder_timeout env s)\<lparr>rx_reorder_list := [rxbuf]\<rparr>)
      | head # tail \<Rightarrow> do {
          head_header \<leftarrow> dot11_hdr_at (view_data (m_view head));
          let head_seq_ctrl = sequence_control head_header;
          if head_seq_ctrl = seq_ctrl then Some (log_effects [Released] s)
          else do {
            let reorder_list_full = length (rx_reorder_list s) \<ge> maxlen;
            if dot11_sequence_control_lt seq_ctrl head_seq_ctrl
            then if reorder_list_full then Some (log_effects [Released] s)
                 else Some (s\<lparr>rx_reorder_list := rxbuf # rx_reorder_list s\<rparr>)
            else do {
              s \<leftarrow> if reorder_list_full
                  then umac_datapath_process_rx_data_frame_after_reorder env head (s\<lparr>rx_reorder_list := tail\<rparr>)
                  else Some s;
              inserted \<leftarrow> insert_walk seq_ctrl rxbuf (rx_reorder_list s);
              case inserted of
                None \<Rightarrow> Some (log_effects [Released] s)
              | Some list \<Rightarrow> umac_datapath_evaluate_rx_reorder_list env (s\<lparr>rx_reorder_list := list\<rparr>)
            }
          }
        })"

definition umac_datapath_process_rx_data_frame :: "rx_env \<Rightarrow> rx_mpdu \<Rightarrow> rx_step" where
  "umac_datapath_process_rx_data_frame env rxbuf s = do {
     header \<leftarrow> dot11_hdr_at (view_data (m_view rxbuf));
     let subtype = dot11_frame_control_get_subtype (frame_control header);
     if subtype = DOT11_FC_SUBTYPE_NULL_DATA \<or> subtype = DOT11_FC_SUBTYPE_QOS_NULL then Some (log_effects [Released] s)
     else do {
       tid_index \<leftarrow>
         if subtype = DOT11_FC_SUBTYPE_QOS_DATA \<and> \<not> mm_mac_addr_is_multicast (addr1 header)
         then do {
           field \<leftarrow> get_le16 (view_data (m_view rxbuf)) (dot11_data_hdr_get_len header);
           Some (dot11_qos_control_get_tid field)
         }
         else Some MMDRV_SEQ_NUM_BASELINE;
       reorder_buf_size \<leftarrow> umac_ba_get_reorder_buffer_size tid_index (rx_ba s);
       if tid_index > MMWLAN_MAX_QOS_TID \<or> reorder_buf_size = 0
       then umac_datapath_process_rx_data_frame_after_reorder env rxbuf s
       else do {
         s \<leftarrow> if rx_reorder_tid s \<noteq> tid_index
             then do {
               s \<leftarrow> umac_datapath_flush_rx_reorder_list env s;
               Some (s\<lparr>rx_reorder_tid := tid_index\<rparr>)
             }
             else Some s;
         ret \<leftarrow> umac_ba_get_expected_rx_seq_num tid_index (rx_ba s);
         case ret of
           None \<Rightarrow> umac_datapath_process_rx_data_frame_after_reorder env rxbuf s
         | Some expected \<Rightarrow> do {
             let expected_seq_ctrl = u16 expected;
             let seq_ctrl = sequence_control header;
             if seq_ctrl = expected_seq_ctrl
             then do {
               s \<leftarrow> umac_datapath_process_rx_data_frame_after_reorder env rxbuf s;
               umac_datapath_evaluate_rx_reorder_list env s
             }
             else if dot11_sequence_control_lt seq_ctrl expected_seq_ctrl then Some (log_effects [Released] s)
             else umac_datapath_add_rx_mpdu_to_reorder_list env rxbuf seq_ctrl reorder_buf_size s
           }
       }
     }
   }"

subsection \<open>Repeated frames\<close>

definition umac_datapath_is_rx_frame_duplicate :: "mmpktview \<Rightarrow> umac_datapath_sta_data \<Rightarrow> (bool \<times> umac_datapath_sta_data) option" where
  "umac_datapath_is_rx_frame_duplicate view s = do {
     header \<leftarrow> dot11_hdr_at (view_data view);
     let fc = frame_control header;
     let data_hdr_len = dot11_data_hdr_get_len header;
     if dot11_frame_control_get_type fc = DOT11_FC_TYPE_EXT then Some (False, s)
     else do {
       ensure (umac_datapath_validate_buf_len view data_hdr_len);
       if mm_mac_addr_is_broadcast (dot11_get_da header) \<or> mm_mac_addr_is_multicast (dot11_get_da header) then Some (False, s)
       else if dot11_frame_control_get_type fc = DOT11_FC_TYPE_CTRL then Some (False, s)
       else if dot11_frame_control_get_type fc = DOT11_FC_TYPE_DATA \<and> dot11_frame_control_get_subtype fc = DOT11_FC_SUBTYPE_QOS_NULL
       then Some (False, s)
       else if dot11_frame_control_get_type fc = DOT11_FC_TYPE_DATA \<and> dot11_frame_control_get_subtype fc = DOT11_FC_SUBTYPE_QOS_DATA
         \<and> \<not> umac_datapath_validate_buf_len view (data_hdr_len + 2)
       then Some (True, s)
       else do {
         tid_index \<leftarrow>
           if dot11_frame_control_get_type fc = DOT11_FC_TYPE_DATA \<and> dot11_frame_control_get_subtype fc = DOT11_FC_SUBTYPE_QOS_DATA
           then do { field \<leftarrow> get_le16 (view_data view) data_hdr_len; Some (dot11_qos_control_get_tid field) }
           else Some MMDRV_SEQ_NUM_BASELINE;
         if tid_index \<ge> MMDRV_SEQ_NUM_SPACES then Some (True, s)
         else do {
           last \<leftarrow> fetch (rx_seq_num_spaces s) tid_index;
           if dot11_frame_control_get_retry fc \<and> last = sequence_control header then Some (True, s)
           else do {
             spaces \<leftarrow> store (rx_seq_num_spaces s) tid_index (sequence_control header);
             Some (False, s\<lparr>rx_seq_num_spaces := spaces\<rparr>)
           }
         }
       }
     }
   }"

definition umac_datapath_stad_init :: "umac_datapath_sta_data \<Rightarrow> umac_datapath_sta_data" where
  "umac_datapath_stad_init s = s\<lparr>rx_seq_num_spaces := replicate MMDRV_SEQ_NUM_SPACES 0xffff\<rparr>"

text \<open>What a station that leaves loses of its received frames (its transmit queue is not part of this state).\<close>

definition umac_datapath_stad_flush :: "rx_env \<Rightarrow> rx_step" where
  "umac_datapath_stad_flush env s = do {
     s \<leftarrow> umac_datapath_flush_rx_reorder_list env s;
     Some (s\<lparr>rx_frag_chains := datapath_defrag_deinit (rx_frag_chains s)\<rparr>)
   }"

subsection \<open>Stations in order\<close>

definition frame_ok :: "rx_mpdu \<Rightarrow> bool" where
  "frame_ok m \<longleftrightarrow> (\<exists>h. dot11_hdr_at (view_data (m_view m)) = Some h
     \<and> length (view_data (m_view m)) \<ge> dot11_data_hdr_get_len h
         + (if dot11_frame_control_get_subtype (frame_control h) = DOT11_FC_SUBTYPE_QOS_DATA then 2 else 0))
     \<and> (\<forall>b\<in>set (view_data (m_view m)). b < 256)"

definition chain_ok :: "frag_chain \<Rightarrow> bool" where
  "chain_ok c \<longleftrightarrow> (\<forall>v. fc_buf c = Some v \<longrightarrow> view_before v \<ge> 30)"

definition sta_ok :: "nat \<Rightarrow> umac_datapath_sta_data \<Rightarrow> bool" where
  "sta_ok maxlen s \<longleftrightarrow> ba_ok maxlen (rx_ba s) \<and> keys_ok (rx_keys s) \<and> length (rx_frag_chains s) = 9
     \<and> list_all chain_ok (rx_frag_chains s) \<and> list_all frame_ok (rx_reorder_list s) \<and> length (rx_seq_num_spaces s) = 10"

text \<open>What the processing of a frame leaves alone.\<close>

definition same_list :: "umac_datapath_sta_data \<Rightarrow> umac_datapath_sta_data \<Rightarrow> bool" where
  "same_list s s' \<longleftrightarrow> rx_reorder_list s' = rx_reorder_list s \<and> rx_reorder_tid s' = rx_reorder_tid s
     \<and> rx_reorder_timers s' = rx_reorder_timers s \<and> rx_seq_num_spaces s' = rx_seq_num_spaces s
     \<and> (\<forall>tid. umac_ba_get_reorder_buffer_size tid (rx_ba s') = umac_ba_get_reorder_buffer_size tid (rx_ba s))"

lemma same_list_refl [simp]: "same_list s s"
  by (simp add: same_list_def)

lemma same_list_trans: "same_list s s1 \<Longrightarrow> same_list s1 s2 \<Longrightarrow> same_list s s2"
  by (simp add: same_list_def)

lemma log_effects_simps [simp]:
  "rx_seq_num_spaces (log_effects es s) = rx_seq_num_spaces s" "rx_frag_chains (log_effects es s) = rx_frag_chains s"
  "rx_reorder_list (log_effects es s) = rx_reorder_list s" "rx_reorder_tid (log_effects es s) = rx_reorder_tid s"
  "rx_reorder_timers (log_effects es s) = rx_reorder_timers s" "rx_ba (log_effects es s) = rx_ba s"
  "rx_keys (log_effects es s) = rx_keys s" "rx_log (log_effects es s) = rx_log s @ es"
  by (simp_all add: log_effects_def)

lemma log_effects_ok [simp]: "sta_ok maxlen (log_effects es s) = sta_ok maxlen s" "same_list s (log_effects es s)"
  by (simp_all add: sta_ok_def same_list_def)

lemma hdr_at_lengths:
  assumes "dot11_hdr_at bs = Some h"
  shows "length bs \<ge> 24" "length (addr1 h) = 6" "length (addr2 h) = 6" "length (addr3 h) = 6" "length (addr4 h) \<le> 6"
    "length (dot11_get_da h) = 6" "length (dot11_get_sa_data h) \<le> 6"
  using assms by (auto simp: dot11_hdr_at_def bind_eq_Some_conv dot11_get_da_def dot11_get_sa_data_def Let_def split: if_splits)

lemma deliver_ok:
  assumes "sta_ok maxlen s" "dot11_hdr_at bs = Some h" "view_before view \<ge> 24"
  shows "\<exists>s'. rx_deliver env tid h view s = Some s' \<and> sta_ok maxlen s' \<and> same_list s s'"
proof -
  have eapol: "umac_datapath_is_eapol_frame view \<Longrightarrow> mmpkt_get_data_length view \<ge> 8"
    by (auto simp: umac_datapath_is_eapol_frame_def umac_datapath_get_llc_ethertype_def umac_datapath_validate_buf_len_def split: if_splits)
  have "length (umac_datapath_generate_8023_header (dot11_get_da h) (dot11_get_sa_data h) e) \<le> 24" for e
    using hdr_at_lengths [OF assms(2)] by (simp add: umac_datapath_generate_8023_header_def)
  then have room: "length (umac_datapath_generate_8023_header (dot11_get_da h) (dot11_get_sa_data h) e) \<le> view_before view" for e
    using assms(3) order.trans by blast
  then have prepend: "\<exists>v. mmpkt_prepend_data (umac_datapath_generate_8023_header (dot11_get_da h) (dot11_get_sa_data h) e)
      (case mmpkt_remove_from_start 8 view of None \<Rightarrow> view | Some (_, view) \<Rightarrow> view) = Some v" for e
    by (simp add: mmpkt_remove_from_start_def mmpkt_prepend_data_def trans_le_add1)
  show ?thesis
  proof (cases "umac_datapath_is_eapol_frame view")
    case True
    then show ?thesis using eapol assms(1) by (simp add: rx_deliver_def mmpkt_remove_from_start_def)
  next
    case False
    obtain v where "mmpkt_prepend_data (umac_datapath_generate_8023_header (dot11_get_da h) (dot11_get_sa_data h)
        (umac_datapath_get_llc_ethertype view)) (case mmpkt_remove_from_start 8 view of None \<Rightarrow> view | Some (_, view) \<Rightarrow> view) = Some v"
      using prepend by blast
    then show ?thesis using False assms(1) by (simp add: rx_deliver_def Let_def split: rx_callback.split)
  qed
qed

lemma set_expected_size:
  assumes "ba_ok maxlen d"
  obtains d' where "umac_ba_set_expected_rx_seq_num tid n d = Some d'" "ba_ok maxlen d'"
    "\<And>tid'. umac_ba_get_reorder_buffer_size tid' d' = umac_ba_get_reorder_buffer_size tid' d"
proof -
  obtain d' where d': "umac_ba_set_expected_rx_seq_num tid n d = Some d'" "ba_ok maxlen d'" using set_expected_ok [OF assms] by blast
  have "umac_ba_get_reorder_buffer_size tid' d' = umac_ba_get_reorder_buffer_size tid' d" for tid'
  proof (cases "tid < 6 \<and> tid' < 6")
    case True
    then have "tid < length (ba_recipient d)" "tid' < length (ba_recipient d)" using assms by (simp_all add: ba_ok_def)
    then show ?thesis using d'(1) True
      by (cases "tid' = tid") (auto simp: umac_ba_set_expected_rx_seq_num_def umac_ba_get_reorder_buffer_size_def split: if_splits)
  next
    case False
    then show ?thesis using d'(1) by (auto simp: umac_ba_set_expected_rx_seq_num_def umac_ba_get_reorder_buffer_size_def bind_eq_Some_conv)
  qed
  then show ?thesis using that d' by blast
qed

lemma count_expected_ok:
  assumes "sta_ok maxlen s"
  shows "\<exists>s'. rx_count_expected env tid h s = Some s' \<and> sta_ok maxlen s' \<and> same_list s s' \<and> rx_keys s' = rx_keys s
    \<and> rx_frag_chains s' = rx_frag_chains s \<and> rx_log s' = rx_log s"
proof -
  obtain d' where "umac_ba_set_expected_rx_seq_num tid (dot11_get_next_sequence_control h) (rx_ba s) = Some d'" "ba_ok maxlen d'"
    "\<And>tid'. umac_ba_get_reorder_buffer_size tid' d' = umac_ba_get_reorder_buffer_size tid' (rx_ba s)"
    using set_expected_size [of maxlen "rx_ba s" tid "dot11_get_next_sequence_control h"] assms by (auto simp: sta_ok_def)
  then show ?thesis using assms by (simp add: rx_count_expected_def sta_ok_def same_list_def)
qed

lemma unprotect_ok:
  assumes "sta_ok maxlen s" "\<forall>b\<in>set (view_data view). b < 256"
  shows "\<exists>v s'. rx_unprotect m h view s = Some (v, s') \<and> sta_ok maxlen s' \<and> same_list s s' \<and> rx_frag_chains s' = rx_frag_chains s
    \<and> rx_log s' = rx_log s \<and> (\<forall>w. v = Some w \<longrightarrow> view_before w \<ge> view_before view)"
proof (cases "dot11_frame_control_get_protected (frame_control h) \<and> m_decrypted m")
  case False
  then show ?thesis using assms(1) by (auto simp: rx_unprotect_def)
next
  case True
  let ?r = "mmpkt_remove_from_start 8 view"
  have keys: "keys_ok (rx_keys s)" using assms(1) by (simp add: sta_ok_def)
  have "\<exists>b k. ccmp_is_valid (map_option fst ?r) RX_COUNTER_SPACE_DEFAULT (rx_keys s) = Some (b, k) \<and> keys_ok k \<and> (?r = None \<longrightarrow> \<not> b)"
  proof (cases ?r)
    case None
    then show ?thesis using keys by (auto simp: ccmp_is_valid_def)
  next
    case (Some p)
    then have "header_ok (fst p)" using assms(2)
      by (auto simp: mmpkt_remove_from_start_def mmpkt_get_data_length_def header_ok_def dest!: in_set_takeD split: if_splits)
    then show ?thesis using ccmp_ok [OF keys, of "fst p" RX_COUNTER_SPACE_DEFAULT] Some by (cases p) fastforce
  qed
  then obtain b k where k: "ccmp_is_valid (map_option fst ?r) RX_COUNTER_SPACE_DEFAULT (rx_keys s) = Some (b, k)" "keys_ok k" "?r = None \<longrightarrow> \<not> b"
    by auto
  have "sta_ok maxlen (s\<lparr>rx_keys := k\<rparr>)" "same_list s (s\<lparr>rx_keys := k\<rparr>)" using assms(1) k(2) by (simp_all add: sta_ok_def same_list_def)
  then show ?thesis using True k
    by (cases ?r) (auto simp: rx_unprotect_def Let_def mmpkt_remove_from_start_def mmpkt_remove_from_end_def split: if_splits)
qed

text \<open>Allocations provide at least what the code asks for.\<close>

definition env_ok :: "rx_env \<Rightarrow> bool" where
  "env_ok env \<longleftrightarrow> (\<forall>n c. env_alloc env n = Some c \<longrightarrow> 1600 \<le> c)"

lemma defrag_chain_ok:
  assumes "chain_ok c" "\<forall>k. alloc = Some k \<longrightarrow> 1600 \<le> k" "length hdr_bytes \<le> 30"
  shows "\<exists>v c'. defrag_chain alloc timer_ok h hdr_bytes view c = Some (v, c') \<and> chain_ok c' \<and> (\<forall>w. v = Some w \<longrightarrow> view_before w \<ge> 30)"
proof -
  define c1 where "c1 = (if datapath_defrag_is_first_fragment h
     then do {
            c \<leftarrow> datapath_defrag_init_buffer alloc timer_ok c;
            Some (c\<lparr>fc_sequence_number := dot11_sequence_control_get_sequence_number (sequence_control h),
              fc_is_protected := dot11_frame_control_get_protected (frame_control h)\<rparr>)
          }
     else Some c)"
  have "\<exists>c'. c1 = Some c' \<and> chain_ok c'"
    using assms(1,2) by (auto simp: c1_def datapath_defrag_init_buffer_def Let_def mmpkt_adjust_start_offset_def chain_ok_def split: option.splits)
  then obtain c' where c': "c1 = Some c'" "chain_ok c'" by blast
  show ?thesis
    unfolding defrag_chain_def c1_def [symmetric] c'(1)
    using c'(2) assms(3)
    by (auto simp: datapath_defrag_add_fragment_def mmpkt_append_data_def mmpkt_prepend_data_def mmpkt_remove_from_start_def
      mmpkt_get_data_length_def chain_ok_def split: option.splits)
qed

lemma defrag_ok:
  assumes "list_all chain_ok cs" "length cs = 9" "\<forall>k. alloc = Some k \<longrightarrow> 1600 \<le> k" "length hdr_bytes \<le> 30"
  shows "\<exists>v cs'. datapath_defrag alloc timer_ok h hdr_bytes view tid cs = Some (v, cs') \<and> list_all chain_ok cs' \<and> length cs' = 9
    \<and> (\<forall>w. v = Some w \<longrightarrow> view_before w \<ge> view_before view \<or> view_before w \<ge> 30)"
proof (cases "datapath_defrag_is_fragment h \<and> tid < 9")
  case True
  then have "chain_ok (cs ! tid)" using assms(1,2) by (simp add: list_all_length)
  then obtain v c' where "defrag_chain alloc timer_ok h hdr_bytes view (cs ! tid) = Some (v, c')" "chain_ok c'" "\<forall>w. v = Some w \<longrightarrow> view_before w \<ge> 30"
    using defrag_chain_ok [OF _ assms(3,4)] by blast
  then show ?thesis using True assms(1,2) by (auto simp: datapath_defrag_def list_all_length nth_list_update)
qed (use assms in \<open>auto simp: datapath_defrag_def\<close>)

lemma tid_of_ok:
  assumes "length (view_data w) \<ge> (if dot11_frame_control_get_subtype (frame_control h) = 8 then 2 else 0)"
    "\<forall>b\<in>set (view_data w). b < 256"
  shows "\<exists>tid w'. rx_tid_of h w = Some (tid, w') \<and> view_before w' \<ge> view_before w \<and> (\<forall>b\<in>set (view_data w'). b < 256)"
proof (cases "dot11_frame_control_get_subtype (frame_control h) = 8")
  case True
  then obtain a b bs where d: "view_data w = a # b # bs" using assms(1) by (cases "view_data w"; cases "tl (view_data w)") auto
  then have "get_le16 [a, b] 0 = Some (a + 256 * b)" by (simp add: get_le16_def fetch_def)
  then show ?thesis using True d assms(2) by (simp add: rx_tid_of_def mmpkt_remove_from_start_def mmpkt_get_data_length_def)
qed (use assms(2) in \<open>simp add: rx_tid_of_def\<close>)

lemma route_ok:
  assumes "sta_ok maxlen s" "dot11_hdr_at bs = Some h" "view_before u \<ge> 24" "length hb \<le> 30" "env_ok env"
  shows "\<exists>s'. rx_route env tid h hb u s = Some s' \<and> sta_ok maxlen s' \<and> same_list s s'"
proof (cases "mm_mac_addr_is_broadcast (dot11_get_da h) \<or> mm_mac_addr_is_multicast (dot11_get_da h)")
  case True
  then show ?thesis using deliver_ok [OF assms(1-3)] assms(1) by (auto simp: rx_route_def)
next
  case False
  let ?n = "length (rx_log s)"
  have "list_all chain_ok (rx_frag_chains s)" "length (rx_frag_chains s) = 9" "\<forall>k. env_alloc env ?n = Some k \<longrightarrow> 1600 \<le> k"
    using assms(1,5) by (simp_all add: sta_ok_def env_ok_def)
  from defrag_ok [OF this assms(4), of "env_timer_ok env ?n" h u tid] obtain v cs where
    cs: "datapath_defrag (env_alloc env ?n) (env_timer_ok env ?n) h hb u tid (rx_frag_chains s) = Some (v, cs)"
      "list_all chain_ok cs" "length cs = 9" "\<forall>x. v = Some x \<longrightarrow> view_before x \<ge> view_before u \<or> view_before x \<ge> 30" by blast
  define s3 where "s3 = (if datapath_defrag_is_fragment h then log_effects [Released] (s\<lparr>rx_frag_chains := cs\<rparr>) else s\<lparr>rx_frag_chains := cs\<rparr>)"
  have s3: "sta_ok maxlen s3" "same_list s s3" using assms(1) cs(2,3) by (simp_all add: s3_def sta_ok_def same_list_def)
  have "\<exists>s'. (case v of None \<Rightarrow> Some s3 | Some view \<Rightarrow> rx_deliver env tid h view s3) = Some s' \<and> sta_ok maxlen s' \<and> same_list s s'"
  proof (cases v)
    case None
    then show ?thesis using s3 by simp
  next
    case (Some x)
    then have "view_before x \<ge> 24" using cs(4) assms(3) by auto
    then show ?thesis using deliver_ok [OF s3(1) assms(2), of x env tid] same_list_trans [OF s3(2)] Some by auto
  qed
  then show ?thesis using False cs(1) by (cases v; cases "datapath_defrag_is_fragment h") (simp_all add: rx_route_def Let_def s3_def)
qed

lemma process_ok:
  assumes "sta_ok maxlen s" "frame_ok m" "env_ok env"
  shows "\<exists>s'. umac_datapath_process_rx_data_frame_after_reorder env m s = Some s' \<and> sta_ok maxlen s' \<and> same_list s s'"
proof -
  let ?v = "m_view m"
  obtain h where h: "dot11_hdr_at (view_data ?v) = Some h" "length (view_data ?v) \<ge> dot11_data_hdr_get_len h
         + (if dot11_frame_control_get_subtype (frame_control h) = 8 then 2 else 0)" "\<forall>b\<in>set (view_data ?v). b < 256"
    using assms(2) by (auto simp: frame_ok_def)
  have len: "24 \<le> dot11_data_hdr_get_len h" "dot11_data_hdr_get_len h \<le> 30" by (simp_all add: dot11_data_hdr_get_len_def)
  let ?hb = "take (dot11_data_hdr_get_len h) (view_data ?v)"
  let ?w = "?v\<lparr>view_before := view_before ?v + dot11_data_hdr_get_len h, view_data := drop (dot11_data_hdr_get_len h) (view_data ?v)\<rparr>"
  have removed: "mmpkt_remove_from_start (dot11_data_hdr_get_len h) ?v = Some (?hb, ?w)"
    using h(2) by (simp add: mmpkt_remove_from_start_def mmpkt_get_data_length_def split: if_splits)
  have "length (view_data ?w) \<ge> (if dot11_frame_control_get_subtype (frame_control h) = 8 then 2 else 0)" "\<forall>b\<in>set (view_data ?w). b < 256"
    using h(2,3) by (auto dest: in_set_dropD)
  then obtain tid w where w: "rx_tid_of h ?w = Some (tid, w)" "view_before w \<ge> 24" "\<forall>b\<in>set (view_data w). b < 256"
    using tid_of_ok [of h ?w] len(1) by auto
  obtain v s1 where s1: "rx_unprotect m h w s = Some (v, s1)" "sta_ok maxlen s1" "same_list s s1" "\<forall>u. v = Some u \<longrightarrow> view_before u \<ge> view_before w"
    using unprotect_ok [OF assms(1) w(3)] by blast
  obtain s2 where s2: "rx_count_expected env tid h s1 = Some s2" "sta_ok maxlen s2" "same_list s1 s2"
    using count_expected_ok [OF s1(2)] by blast
  note whole = same_list_trans [OF s1(3) s2(3)]
  show ?thesis
  proof (cases v)
    case None
    then show ?thesis using h(1) removed w(1) s1 assms(1) same_list_trans [OF s1(3) log_effects_ok(2)]
      by (simp add: umac_datapath_process_rx_data_frame_after_reorder_def)
  next
    case (Some u)
    have u: "view_before u \<ge> 24" using s1(4) Some w(2) by auto
    have "length ?hb \<le> 30" using len(2) by simp
    from route_ok [OF s2(2) h(1) u this assms(3)] obtain s' where "rx_route env tid h ?hb u s2 = Some s'" "sta_ok maxlen s'" "same_list s2 s'" by blast
    then show ?thesis using h(1) removed w(1) s1(1) s2(1) Some assms(1) same_list_trans [OF whole]
      by (simp add: umac_datapath_process_rx_data_frame_after_reorder_def)
  qed
qed

text \<open>No session has a list of one frame.\<close>

definition no_single :: "umac_datapath_sta_data \<Rightarrow> bool" where
  "no_single s \<longleftrightarrow> (\<forall>tid. umac_ba_get_reorder_buffer_size tid (rx_ba s) \<noteq> Some 1)"

definition rx_ok :: "nat \<Rightarrow> umac_datapath_sta_data \<Rightarrow> bool" where
  "rx_ok maxlen s \<longleftrightarrow> sta_ok maxlen s \<and> no_single s \<and> length (rx_reorder_list s) \<le> maxlen"

lemma sta_ok_list:
  "sta_ok maxlen (s\<lparr>rx_reorder_list := l\<rparr>) \<longleftrightarrow> sta_ok maxlen (s\<lparr>rx_reorder_list := []\<rparr>) \<and> list_all frame_ok l"
  by (auto simp: sta_ok_def)

lemma sta_ok_frames: "sta_ok maxlen s \<Longrightarrow> list_all frame_ok (rx_reorder_list s)"
  by (simp add: sta_ok_def)

lemma rx_okI:
  assumes "sta_ok maxlen s" "no_single s'" "same_list s' s" "length l \<le> maxlen" "list_all frame_ok l"
  shows "rx_ok maxlen (s\<lparr>rx_reorder_list := l\<rparr>)"
  using assms by (simp add: rx_ok_def sta_ok_def no_single_def same_list_def)

lemma get_expected_ok:
  assumes "ba_ok maxlen d"
  shows "\<exists>r. umac_ba_get_expected_rx_seq_num tid d = Some r"
  using get_session_Some [OF assms, of "(RECIPIENT, tid)"]
  by (auto simp: umac_ba_get_expected_rx_seq_num_def ref_ok_def simp del: get_session.simps)

lemma get_size_ok:
  assumes "ba_ok maxlen d" "maxlen \<le> 255"
  shows "\<exists>n \<le> maxlen. umac_ba_get_reorder_buffer_size tid d = Some n"
proof (cases "tid < 6")
  case True
  then have "ba_buffer_size (ba_recipient d ! tid) \<le> maxlen" "tid < length (ba_recipient d)"
    using assms(1) by (auto simp: ba_ok_def)
  then show ?thesis using True assms(2) by (simp add: umac_ba_get_reorder_buffer_size_def)
qed (simp add: umac_ba_get_reorder_buffer_size_def)

lemma frame_hdr: "frame_ok m \<Longrightarrow> \<exists>h. dot11_hdr_at (view_data (m_view m)) = Some h"
  by (auto simp: frame_ok_def)

lemma evaluate_loop_ok:
  assumes "sta_ok maxlen s" "no_single s" "env_ok env" "list_all frame_ok l" "length l \<le> maxlen"
  shows "\<exists>s'. evaluate_loop env l s = Some s' \<and> rx_ok maxlen s'"
  using assms
proof (induction l arbitrary: s)
  case Nil
  then show ?case using rx_okI [of maxlen s s "[]"] by simp
next
  case (Cons m l)
  obtain h where h: "dot11_hdr_at (view_data (m_view m)) = Some h" using frame_hdr [of m] Cons.prems(4) by auto
  obtain r where r: "umac_ba_get_expected_rx_seq_num (rx_reorder_tid s) (rx_ba s) = Some r"
    using get_expected_ok [of maxlen "rx_ba s"] Cons.prems(1) by (auto simp: sta_ok_def)
  obtain s1 where s1: "umac_datapath_process_rx_data_frame_after_reorder env m s = Some s1" "sta_ok maxlen s1" "same_list s s1"
    using process_ok [OF Cons.prems(1) _ Cons.prems(3), of m] Cons.prems(4) by auto
  have "no_single s1" using s1(3) Cons.prems(2) by (simp add: no_single_def same_list_def)
  then obtain s2 where "evaluate_loop env l s1 = Some s2" "rx_ok maxlen s2" using Cons.IH [OF s1(2)] Cons.prems by auto
  then show ?case using h r s1(1) rx_okI [OF Cons.prems(1,2), of "m # l"] Cons.prems(4,5) by (simp add: Let_def)
qed

lemma evaluate_ok:
  assumes "rx_ok maxlen s" "env_ok env"
  shows "\<exists>s'. umac_datapath_evaluate_rx_reorder_list env s = Some s' \<and> rx_ok maxlen s'"
  using evaluate_loop_ok [of maxlen s env "rx_reorder_list s"] assms sta_ok_frames by (auto simp: umac_datapath_evaluate_rx_reorder_list_def rx_ok_def)

lemma flush_loop_ok:
  assumes "rx_ok maxlen s" "env_ok env" "list_all frame_ok l"
  shows "\<exists>s'. foldM (umac_datapath_process_rx_data_frame_after_reorder env) l s = Some s' \<and> rx_ok maxlen s'"
proof (rule foldM_invariant [where P = "rx_ok maxlen", OF assms(1)])
  fix m s assume m: "m \<in> set l" and s: "rx_ok maxlen s"
  obtain s1 where "umac_datapath_process_rx_data_frame_after_reorder env m s = Some s1" "sta_ok maxlen s1" "same_list s s1"
    using process_ok [of maxlen s m env] s m assms(2,3) by (auto simp: rx_ok_def list_all_iff)
  then show "\<exists>s'. umac_datapath_process_rx_data_frame_after_reorder env m s = Some s' \<and> rx_ok maxlen s'"
    using s by (simp add: rx_ok_def no_single_def same_list_def)
qed

lemma flush_ok:
  assumes "rx_ok maxlen s" "env_ok env"
  shows "\<exists>s'. umac_datapath_flush_rx_reorder_list env s = Some s' \<and> rx_ok maxlen s'"
proof -
  have "rx_ok maxlen (s\<lparr>rx_reorder_list := []\<rparr>)" using assms(1) rx_okI [of maxlen s s "[]"] by (simp add: rx_ok_def)
  then show ?thesis unfolding umac_datapath_flush_rx_reorder_list_def
    using flush_loop_ok [of maxlen "s\<lparr>rx_reorder_list := []\<rparr>" env "rx_reorder_list s"] assms sta_ok_frames [of maxlen s] by (simp add: rx_ok_def)
qed

lemma insert_walk_ok:
  assumes "list_all frame_ok l" "l \<noteq> []" "frame_ok m"
  shows "\<exists>r. insert_walk seq m l = Some r \<and> (\<forall>l'. r = Some l' \<longrightarrow> list_all frame_ok l' \<and> length l' = length l + 1)"
  using assms
proof (induction seq m l rule: insert_walk.induct)
  case (3 seq m w x rest)
  obtain h where h: "dot11_hdr_at (view_data (m_view x)) = Some h" using frame_hdr [of x] 3(2) by auto
  obtain r where r: "insert_walk seq m (x # rest) = Some r" "\<forall>l'. r = Some l' \<longrightarrow> list_all frame_ok l' \<and> length l' = length (x # rest) + 1"
    if "sequence_control h \<noteq> seq" "\<not> dot11_sequence_control_lt seq (sequence_control h)"
    using 3(1) [OF h refl] 3(2,4) by auto
  show ?case
  proof (cases "sequence_control h = seq \<or> dot11_sequence_control_lt seq (sequence_control h)")
    case True
    then show ?thesis using h 3(2,4) by (auto simp: Let_def)
  next
    case False
    then show ?thesis using h r 3(2) by (auto simp: Let_def)
  qed
qed simp_all

lemma register_ok [simp]:
  "sta_ok maxlen (register_reorder_timeout env s) = sta_ok maxlen s" "rx_ok maxlen (register_reorder_timeout env s) = rx_ok maxlen s"
  "no_single (register_reorder_timeout env s) = no_single s"
  by (simp_all add: register_reorder_timeout_def sta_ok_def rx_ok_def no_single_def)

lemma log_rx_ok [simp]: "rx_ok maxlen (log_effects es s) = rx_ok maxlen s"
  by (simp add: rx_ok_def no_single_def)

lemma add_ok:
  assumes "rx_ok maxlen s" "frame_ok m" "env_ok env" "n \<le> maxlen" "n \<ge> 2"
  shows "\<exists>s'. umac_datapath_add_rx_mpdu_to_reorder_list env m seq n s = Some s' \<and> rx_ok maxlen s'"
proof (cases "rx_reorder_list s")
  case Nil
  then show ?thesis using rx_okI [of maxlen "register_reorder_timeout env s" "register_reorder_timeout env s" "[m]"] assms
    by (simp add: umac_datapath_add_rx_mpdu_to_reorder_list_def rx_ok_def)
next
  case (Cons head tail)
  have s: "sta_ok maxlen s" "no_single s" "length (rx_reorder_list s) \<le> maxlen" using assms(1) by (simp_all add: rx_ok_def)
  have frames: "frame_ok head" "list_all frame_ok tail" using sta_ok_frames [OF s(1)] Cons by simp_all
  obtain h where h: "dot11_hdr_at (view_data (m_view head)) = Some h" using frame_hdr frames(1) by blast
  let ?full = "length (rx_reorder_list s) \<ge> n"
  have front: "\<not> ?full \<Longrightarrow> rx_ok maxlen (s\<lparr>rx_reorder_list := m # rx_reorder_list s\<rparr>)"
    using rx_okI [OF s(1,2), of "m # rx_reorder_list s"] assms(2,4) frames Cons by simp
  have "\<exists>s1. (if ?full then umac_datapath_process_rx_data_frame_after_reorder env head (s\<lparr>rx_reorder_list := tail\<rparr>) else Some s) = Some s1
      \<and> rx_ok maxlen s1 \<and> rx_reorder_list s1 \<noteq> [] \<and> length (rx_reorder_list s1) < maxlen"
  proof (cases ?full)
    case True
    have t: "sta_ok maxlen (s\<lparr>rx_reorder_list := tail\<rparr>)" using s(1) frames by (simp add: sta_ok_def)
    obtain s1 where "umac_datapath_process_rx_data_frame_after_reorder env head (s\<lparr>rx_reorder_list := tail\<rparr>) = Some s1" "sta_ok maxlen s1"
      "same_list (s\<lparr>rx_reorder_list := tail\<rparr>) s1" using process_ok [OF t frames(1) assms(3)] by blast
    moreover have "tail \<noteq> []" using True Cons assms(5) by auto
    ultimately show ?thesis using True s Cons by (auto simp: rx_ok_def same_list_def no_single_def)
  qed (use assms(1,4) Cons in auto)
  then obtain s1 where s1: "(if ?full then umac_datapath_process_rx_data_frame_after_reorder env head (s\<lparr>rx_reorder_list := tail\<rparr>) else Some s) = Some s1"
    "rx_ok maxlen s1" "rx_reorder_list s1 \<noteq> []" "length (rx_reorder_list s1) < maxlen" by blast
  obtain r where r: "insert_walk seq m (rx_reorder_list s1) = Some r"
    "\<forall>l'. r = Some l' \<longrightarrow> list_all frame_ok l' \<and> length l' = length (rx_reorder_list s1) + 1"
    using insert_walk_ok [OF _ s1(3) assms(2), of seq] s1(2) sta_ok_frames by (auto simp: rx_ok_def)
  have inserted: "\<exists>s'. (case r of None \<Rightarrow> Some (log_effects [Released] s1)
      | Some list \<Rightarrow> umac_datapath_evaluate_rx_reorder_list env (s1\<lparr>rx_reorder_list := list\<rparr>)) = Some s' \<and> rx_ok maxlen s'"
  proof (cases r)
    case (Some l)
    then have "rx_ok maxlen (s1\<lparr>rx_reorder_list := l\<rparr>)" using rx_okI [of maxlen s1 s1 l] r(2) s1(2,4) by (simp add: rx_ok_def)
    then show ?thesis using evaluate_ok [OF _ assms(3)] Some by simp
  qed (use s1(2) in simp)
  show ?thesis
    unfolding umac_datapath_add_rx_mpdu_to_reorder_list_def
    using Cons h front s1(1) r(1) inserted assms(1) by (simp add: Let_def)
qed

lemma qos_read:
  assumes "Q \<Longrightarrow> n + 2 \<le> length bs"
  shows "\<exists>tid. (if Q then do { field \<leftarrow> get_le16 bs n; Some (f field) } else Some c) = Some tid"
  using get_le16_Some [of n bs] assms by (cases Q) auto

lemma process_frame_ok:
  assumes "rx_ok maxlen s" "frame_ok m" "env_ok env" "maxlen \<le> 255"
  shows "\<exists>s'. umac_datapath_process_rx_data_frame env m s = Some s' \<and> rx_ok maxlen s'"
proof -
  obtain h where h: "dot11_hdr_at (view_data (m_view m)) = Some h" "length (view_data (m_view m)) \<ge> dot11_data_hdr_get_len h
         + (if dot11_frame_control_get_subtype (frame_control h) = 8 then 2 else 0)" using assms(2) by (auto simp: frame_ok_def)
  have straight: "\<exists>s'. umac_datapath_process_rx_data_frame_after_reorder env m s = Some s' \<and> rx_ok maxlen s'" if "rx_ok maxlen s" for s
    using process_ok [of maxlen s m env] that assms(2,3) by (auto simp: rx_ok_def no_single_def same_list_def)
  let ?tid = "if dot11_frame_control_get_subtype (frame_control h) = 8 \<and> \<not> mm_mac_addr_is_multicast (addr1 h)
         then do {
           field \<leftarrow> get_le16 (view_data (m_view m)) (dot11_data_hdr_get_len h);
           Some (dot11_qos_control_get_tid field)
         }
         else Some 8"
  obtain tid where tid: "?tid = Some tid"
    using qos_read [of "dot11_frame_control_get_subtype (frame_control h) = 8 \<and> \<not> mm_mac_addr_is_multicast (addr1 h)" "dot11_data_hdr_get_len h"] h(2)
    by fastforce
  have ba: "ba_ok maxlen (rx_ba s)" using assms(1) by (simp add: rx_ok_def sta_ok_def)
  obtain n where n: "umac_ba_get_reorder_buffer_size tid (rx_ba s) = Some n" "n \<le> maxlen" using get_size_ok [OF ba assms(4)] by blast
  show ?thesis
  proof (cases "tid > 7 \<or> n = 0")
    case True
    then show ?thesis using h(1) tid n(1) straight [OF assms(1)] assms(1) by (simp add: umac_datapath_process_rx_data_frame_def Let_def)
  next
    case False
    have "n \<noteq> 1" using assms(1) n(1) by (auto simp: rx_ok_def no_single_def)
    then have two: "n \<ge> 2" using False by simp
    have "\<exists>s1. (if rx_reorder_tid s \<noteq> tid
             then do {
               s \<leftarrow> umac_datapath_flush_rx_reorder_list env s;
               Some (s\<lparr>rx_reorder_tid := tid\<rparr>)
             }
             else Some s) = Some s1 \<and> rx_ok maxlen s1"
    proof -
      obtain s1 where "umac_datapath_flush_rx_reorder_list env s = Some s1" "rx_ok maxlen s1" using flush_ok [OF assms(1,3)] by blast
      moreover have "rx_ok maxlen s1 \<Longrightarrow> rx_ok maxlen (s1\<lparr>rx_reorder_tid := tid\<rparr>)" for s1 by (simp add: rx_ok_def sta_ok_def no_single_def)
      ultimately show ?thesis using assms(1) by auto
    qed
    then obtain s1 where s1: "(if rx_reorder_tid s \<noteq> tid
             then do {
               s \<leftarrow> umac_datapath_flush_rx_reorder_list env s;
               Some (s\<lparr>rx_reorder_tid := tid\<rparr>)
             }
             else Some s) = Some s1" "rx_ok maxlen s1" by blast
    obtain r where r: "umac_ba_get_expected_rx_seq_num tid (rx_ba s1) = Some r"
      using get_expected_ok [of maxlen "rx_ba s1"] s1(2) by (auto simp: rx_ok_def sta_ok_def)
    obtain s2 where s2: "umac_datapath_process_rx_data_frame_after_reorder env m s1 = Some s2" "rx_ok maxlen s2" using straight [OF s1(2)] by blast
    obtain s3 where s3: "umac_datapath_evaluate_rx_reorder_list env s2 = Some s3" "rx_ok maxlen s3" using evaluate_ok [OF s2(2) assms(3)] by blast
    obtain s4 where s4: "umac_datapath_add_rx_mpdu_to_reorder_list env m (sequence_control h) n s1 = Some s4" "rx_ok maxlen s4"
      using add_ok [OF s1(2) assms(2,3) n(2) two] by blast
    show ?thesis using h(1) tid n(1) False s1 r s2 s3 s4 assms(1)
      by (cases r) (simp_all add: umac_datapath_process_rx_data_frame_def Let_def)
  qed
qed

text \<open>A complete header of a data frame, as the check of a frame before it is queued leaves it.\<close>

definition header_complete :: "rx_mpdu \<Rightarrow> bool" where
  "header_complete m \<longleftrightarrow> (\<exists>h. dot11_hdr_at (view_data (m_view m)) = Some h \<and> length (view_data (m_view m)) \<ge> dot11_data_hdr_get_len h
     \<and> dot11_frame_control_get_type (frame_control h) = DOT11_FC_TYPE_DATA) \<and> (\<forall>b\<in>set (view_data (m_view m)). b < 256)"

text \<open>What that check does not ensure: a frame to a group that claims a QoS field has one.\<close>

definition group_qos_complete :: "rx_mpdu \<Rightarrow> bool" where
  "group_qos_complete m \<longleftrightarrow> (\<forall>h. dot11_hdr_at (view_data (m_view m)) = Some h \<longrightarrow> dot11_frame_control_get_subtype (frame_control h) = DOT11_FC_SUBTYPE_QOS_DATA \<longrightarrow>
     mm_mac_addr_is_broadcast (dot11_get_da h) \<or> mm_mac_addr_is_multicast (dot11_get_da h) \<longrightarrow>
     length (view_data (m_view m)) \<ge> dot11_data_hdr_get_len h + 2)"

lemma duplicate_ok:
  assumes "rx_ok maxlen s" "header_complete m" "group_qos_complete m"
  shows "\<exists>dup s'. umac_datapath_is_rx_frame_duplicate (m_view m) s = Some (dup, s') \<and> rx_ok maxlen s' \<and> (\<not> dup \<longrightarrow> frame_ok m)"
proof -
  let ?d = "view_data (m_view m)"
  obtain h where h: "dot11_hdr_at ?d = Some h" "length ?d \<ge> dot11_data_hdr_get_len h"
     "dot11_frame_control_get_type (frame_control h) = 2" and bytes: "\<forall>b\<in>set ?d. b < 256" using assms(2) by (auto simp: header_complete_def)
  let ?qos = "dot11_frame_control_get_subtype (frame_control h) = 8"
  have frame: "frame_ok m" if "?qos \<Longrightarrow> length ?d \<ge> dot11_data_hdr_get_len h + 2"
    using that h(1,2) bytes by (auto simp: frame_ok_def)
  have valid: "umac_datapath_validate_buf_len (m_view m) n \<longleftrightarrow> length ?d \<ge> n" for n
    by (auto simp: umac_datapath_validate_buf_len_def mmpkt_get_data_length_def)
  note start = umac_datapath_is_rx_frame_duplicate_def h(1,3) valid h(2) Let_def
  show ?thesis
  proof (cases "mm_mac_addr_is_broadcast (dot11_get_da h) \<or> mm_mac_addr_is_multicast (dot11_get_da h)")
    case True
    then have "frame_ok m" using frame assms(3) h(1) by (auto simp: group_qos_complete_def)
    then show ?thesis using True assms(1) by (auto simp: start)
  next
    case unicast: False
    show ?thesis
    proof (cases "dot11_frame_control_get_subtype (frame_control h) = 12 \<or> ?qos \<and> \<not> length ?d \<ge> dot11_data_hdr_get_len h + 2")
      case True
      then show ?thesis using unicast assms(1) frame by (auto simp: start)
    next
      case False
      then have frame: "frame_ok m" using frame by auto
      have "\<exists>tid. (if ?qos then do { field \<leftarrow> get_le16 ?d (dot11_data_hdr_get_len h); Some (dot11_qos_control_get_tid field) } else Some 8) = Some tid"
        by (rule qos_read) (use False in auto)
      then obtain tid where tid: "(if ?qos then do { field \<leftarrow> get_le16 ?d (dot11_data_hdr_get_len h); Some (dot11_qos_control_get_tid field) } else Some 8) = Some tid"
        by auto
      have "length (rx_seq_num_spaces s) = 10" using assms(1) by (simp add: rx_ok_def sta_ok_def)
      moreover have "rx_ok maxlen (s\<lparr>rx_seq_num_spaces := l\<rparr>)" if "length l = 10" for l
        using that assms(1) by (simp add: rx_ok_def sta_ok_def no_single_def)
      ultimately show ?thesis using unicast False tid frame assms(1) by (auto simp: start)
    qed
  qed
qed

subsection \<open>Sequences of frames and timeouts\<close>

datatype rx_op = Rx_Data rx_env rx_mpdu | Reorder_Timer rx_env | Flush_Tid rx_env nat | Stad_Flush rx_env | Defrag_Timer nat

fun rx_op_step :: "rx_op \<Rightarrow> umac_datapath_sta_data \<Rightarrow> umac_datapath_sta_data option" where
  "rx_op_step (Rx_Data env m) s = do {
     (duplicate, s) \<leftarrow> umac_datapath_is_rx_frame_duplicate (m_view m) s;
     if duplicate then Some (log_effects [Released] s) else umac_datapath_process_rx_data_frame env m s
   }"
| "rx_op_step (Reorder_Timer env) s =
     (if rx_reorder_timers s = 0 then Some s
      else umac_datapath_rx_reorder_timeout_handler env (s\<lparr>rx_reorder_timers := rx_reorder_timers s - 1\<rparr>))"
| "rx_op_step (Flush_Tid env tid) s = umac_datapath_flush_rx_reorder_list_for_tid env tid s"
| "rx_op_step (Stad_Flush env) s = umac_datapath_stad_flush env s"
| "rx_op_step (Defrag_Timer i) s =
     (if i < length (rx_frag_chains s) \<and> fc_timer (rx_frag_chains s ! i)
      then Some (s\<lparr>rx_frag_chains := (rx_frag_chains s)[i := datapath_defrag_timeout (rx_frag_chains s ! i)]\<rparr>) else Some s)"

fun rx_op_ok :: "rx_op \<Rightarrow> bool" where
  "rx_op_ok (Rx_Data env m) \<longleftrightarrow> env_ok env \<and> header_complete m \<and> group_qos_complete m"
| "rx_op_ok (Reorder_Timer env) \<longleftrightarrow> env_ok env"
| "rx_op_ok (Flush_Tid env tid) \<longleftrightarrow> env_ok env"
| "rx_op_ok (Stad_Flush env) \<longleftrightarrow> env_ok env"
| "rx_op_ok (Defrag_Timer i) \<longleftrightarrow> True"

lemma rx_op_step_ok:
  assumes "rx_ok maxlen s" "rx_op_ok op" "maxlen \<le> 255"
  shows "\<exists>s'. rx_op_step op s = Some s' \<and> rx_ok maxlen s'"
proof (cases op)
  case (Rx_Data env m)
  then obtain dup s1 where "umac_datapath_is_rx_frame_duplicate (m_view m) s = Some (dup, s1)" "rx_ok maxlen s1" "\<not> dup \<longrightarrow> frame_ok m"
    using duplicate_ok [OF assms(1), of m] assms(2) by auto
  then show ?thesis using process_frame_ok [of maxlen s1 m env] Rx_Data assms(2,3) by simp
next
  case (Reorder_Timer env)
  have "rx_ok maxlen (s\<lparr>rx_reorder_timers := rx_reorder_timers s - 1\<rparr>)" using assms(1) by (simp add: rx_ok_def sta_ok_def no_single_def)
  then show ?thesis using evaluate_ok [of maxlen _ env] Reorder_Timer assms(1,2) by (fastforce simp: umac_datapath_rx_reorder_timeout_handler_def)
next
  case (Flush_Tid env tid)
  then obtain s1 where "umac_datapath_flush_rx_reorder_list env s = Some s1" "rx_ok maxlen s1" using flush_ok [OF assms(1), of env] assms(2) by auto
  then show ?thesis using flush_ok [of maxlen s1 env] Flush_Tid assms(1,2) by (auto simp: umac_datapath_flush_rx_reorder_list_for_tid_def)
next
  case (Stad_Flush env)
  then obtain s1 where "umac_datapath_flush_rx_reorder_list env s = Some s1" "rx_ok maxlen s1" using flush_ok [OF assms(1), of env] assms(2) by auto
  then show ?thesis using Stad_Flush
    by (auto simp: umac_datapath_stad_flush_def rx_ok_def sta_ok_def no_single_def datapath_defrag_deinit_def list_all_length chain_ok_def)
next
  case (Defrag_Timer i)
  then show ?thesis using assms(1)
    by (auto simp: rx_ok_def sta_ok_def no_single_def list_all_length nth_list_update datapath_defrag_timeout_def chain_ok_def)
qed

text \<open>C23. No received data frame makes the station fail, whatever its contents beyond a complete header and in whatever order frames arrive and timeouts
  expire, and the reorder list stays within its configured length, as long as no session was agreed for a list of a single frame and a frame to a group that
  claims a QoS field has one.\<close>

theorem rx_path_never_fails:
  assumes "rx_ok maxlen s" "maxlen \<le> 255" "list_all rx_op_ok ops"
  shows "\<exists>s'. foldM rx_op_step ops s = Some s' \<and> length (rx_reorder_list s') \<le> maxlen"
proof -
  have "\<exists>s'. foldM rx_op_step ops s = Some s' \<and> rx_ok maxlen s'"
    by (rule foldM_invariant [where P = "rx_ok maxlen", OF assms(1)]) (use assms(2,3) rx_op_step_ok in \<open>auto simp: list_all_iff\<close>)
  then show ?thesis by (auto simp: rx_ok_def)
qed

text \<open>A station as it starts, and a data frame of an open network for the TID \<open>tid\<close> with the sequence number \<open>n\<close>.\<close>

definition idle_station :: umac_datapath_sta_data where
  "idle_station = \<lparr>rx_seq_num_spaces = replicate 10 0xffff, rx_frag_chains = replicate 9 empty_chain, rx_reorder_list = [], rx_reorder_tid = 0,
     rx_reorder_timers = 0, rx_ba = umac_ba_deinit, rx_keys = connection_keys_init, rx_log = []\<rparr>"

definition sample_env :: rx_env where
  "sample_env = \<lparr>env_open = True, env_ops = True, env_connected = True, env_vif_known = True, env_own_addr = [2, 0, 0, 0, 0, 1],
     env_callback = Pkt_Callback, env_alloc = (\<lambda>_. None), env_timer_ok = (\<lambda>_. True), env_now = (\<lambda>_. 10)\<rparr>"

definition sample_frame :: "nat \<Rightarrow> nat \<Rightarrow> nat list \<Rightarrow> rx_mpdu" where
  "sample_frame tid n payload = \<lparr>m_view = \<lparr>view_before = 0, view_data = [0x88, 2, 0, 0] @ [2, 0, 0, 0, 0, 1] @ [2, 0, 0, 0, 0, 2] @ [2, 0, 0, 0, 0, 3]
     @ [16 * n mod 256, n div 16] @ [tid, 0] @ snap_802_1h @ [8, 0] @ payload, view_after = 0\<rparr>, m_decrypted = True, m_time = 0\<rparr>"

lemma idle_ok: "rx_ok maxlen idle_station"
proof -
  have "umac_ba_get_reorder_buffer_size tid umac_ba_deinit = Some 0" for tid
    by (simp add: umac_ba_get_reorder_buffer_size_def umac_ba_deinit_def zero_session_def)
  then show ?thesis
    by (simp add: rx_ok_def sta_ok_def no_single_def idle_station_def ba_deinit_ok keys_init_ok(1) chain_ok_def empty_chain_def list_all_length)
qed

lemma sample_env_ok: "env_ok sample_env"
  by (simp add: env_ok_def sample_env_def)

lemma sample_header:
  "dot11_hdr_at (view_data (m_view (sample_frame tid n payload))) = Some \<lparr>frame_control = 0x288, addr1 = [2, 0, 0, 0, 0, 1], addr2 = [2, 0, 0, 0, 0, 2],
     addr3 = [2, 0, 0, 0, 0, 3], sequence_control = 16 * n mod 256 + 256 * (n div 16), addr4 = [tid, 0, 0xAA, 0xAA, 3, 0]\<rparr>"
  by (simp add: dot11_hdr_at_def sample_frame_def snap_802_1h_def get_le16_def fetch_def)

lemma fc_sample [simp]:
  "dot11_frame_control_get_type 0x288 = 2" "dot11_frame_control_get_subtype 0x288 = 8" "\<not> dot11_frame_control_get_to_ds 0x288"
  "dot11_frame_control_get_from_ds 0x288" "\<not> dot11_frame_control_get_more_fragments 0x288" "\<not> dot11_frame_control_get_retry 0x288"
  "\<not> dot11_frame_control_get_protected 0x288" "\<not> dot11_is_4addr_hdr 0x288"
  by (simp_all add: dot11_frame_control_get_type_def dot11_frame_control_get_subtype_def dot11_frame_control_get_to_ds_def
    dot11_frame_control_get_from_ds_def dot11_frame_control_get_more_fragments_def dot11_frame_control_get_retry_def
    dot11_frame_control_get_protected_def dot11_is_4addr_hdr_def get_field_def)

lemma sample_frame_complete:
  assumes "tid < 256" "n < 4096" "\<forall>b\<in>set payload. b < 256"
  shows "header_complete (sample_frame tid n payload)" "group_qos_complete (sample_frame tid n payload)"
proof -
  have "\<forall>b\<in>set (view_data (m_view (sample_frame tid n payload))). b < 256" using assms by (auto simp: sample_frame_def snap_802_1h_def)
  then show "header_complete (sample_frame tid n payload)"
    by (simp add: header_complete_def sample_header dot11_data_hdr_get_len_def) (simp add: sample_frame_def)
  show "group_qos_complete (sample_frame tid n payload)"
    by (simp add: group_qos_complete_def sample_header dot11_data_hdr_get_len_def) (simp add: sample_frame_def)
qed

theorem rx_path_never_fails_witness:
  "\<exists>s'. foldM rx_op_step [Rx_Data sample_env (sample_frame 2 1 [1, 2, 3]), Reorder_Timer sample_env, Stad_Flush sample_env] idle_station = Some s'
    \<and> length (rx_reorder_list s') \<le> 16"
  by (rule rx_path_never_fails) (simp_all add: idle_ok sample_env_ok sample_frame_complete)

text \<open>A data frame to a group whose QoS field is cut off makes the station fail: the check that drops unicast frames of this kind is skipped for groups,
  and the field is then read behind the frame or its removal asserted. It is the only way for a data frame with a complete header, when no session was agreed for
  a list of one frame.\<close>

theorem short_group_frame_fails:
  assumes "rx_ok maxlen s" "maxlen \<le> 255" "env_ok env" "header_complete m"
  shows "rx_op_step (Rx_Data env m) s = None \<longleftrightarrow> \<not> group_qos_complete m"
proof (cases "group_qos_complete m")
  case True
  then show ?thesis using rx_op_step_ok [OF assms(1) _ assms(2), of "Rx_Data env m"] assms(3,4) by auto
next
  case False
  let ?d = "view_data (m_view m)"
  obtain h where h: "dot11_hdr_at ?d = Some h" "length ?d \<ge> dot11_data_hdr_get_len h" "dot11_frame_control_get_type (frame_control h) = 2"
    "dot11_frame_control_get_subtype (frame_control h) = 8" "length ?d < dot11_data_hdr_get_len h + 2"
    "mm_mac_addr_is_broadcast (dot11_get_da h) \<or> mm_mac_addr_is_multicast (dot11_get_da h)"
    using assms(4) False by (auto simp: header_complete_def group_qos_complete_def)
  have short: "length ?d - dot11_data_hdr_get_len h < 2" using h(2,5) by simp
  have "umac_datapath_is_rx_frame_duplicate (m_view m) s = Some (False, s)"
    using h by (simp add: umac_datapath_is_rx_frame_duplicate_def Let_def umac_datapath_validate_buf_len_def mmpkt_get_data_length_def)
  moreover have "get_le16 ?d (dot11_data_hdr_get_len h) = None"
    using h(5) by (auto simp: get_le16_def fetch_def)
  moreover have "umac_datapath_process_rx_data_frame_after_reorder env m s = None"
    using h(1,2,4) short by (simp add: umac_datapath_process_rx_data_frame_after_reorder_def mmpkt_remove_from_start_def mmpkt_get_data_length_def rx_tid_of_def)
  moreover have "umac_ba_get_reorder_buffer_size 8 (rx_ba s) = Some 0" by (simp add: umac_ba_get_reorder_buffer_size_def)
  ultimately show ?thesis using h(1,4) False by (simp add: umac_datapath_process_rx_data_frame_def Let_def)
qed

text \<open>A QoS data frame that ends with its header, sent to all stations.\<close>

definition short_frame :: rx_mpdu where
  "short_frame = \<lparr>m_view = \<lparr>view_before = 0, view_data = [0x88, 2, 0, 0] @ replicate 6 255 @ [2, 0, 0, 0, 0, 2] @ [2, 0, 0, 0, 0, 3] @ [0, 0], view_after = 0\<rparr>,
     m_decrypted = False, m_time = 0\<rparr>"

lemma short_frame_header:
  "dot11_hdr_at (view_data (m_view short_frame)) = Some \<lparr>frame_control = 0x288, addr1 = replicate 6 255, addr2 = [2, 0, 0, 0, 0, 2],
     addr3 = [2, 0, 0, 0, 0, 3], sequence_control = 0, addr4 = []\<rparr>"
  by (simp add: dot11_hdr_at_def short_frame_def get_le16_def fetch_def numeral_eq_Suc)

theorem short_group_frame_fails_witness:
  "rx_op_step (Rx_Data sample_env short_frame) idle_station = None"
proof -
  have "\<forall>b\<in>set (view_data (m_view short_frame)). b < 256" by (simp add: short_frame_def)
  then have "header_complete short_frame"
    by (simp add: header_complete_def short_frame_header dot11_data_hdr_get_len_def) (simp add: short_frame_def)
  moreover have "\<not> group_qos_complete short_frame"
    by (simp add: group_qos_complete_def short_frame_header dot11_data_hdr_get_len_def dot11_get_da_def mm_mac_addr_is_broadcast_def)
      (simp add: short_frame_def)
  ultimately show ?thesis using short_group_frame_fails [OF idle_ok [of 16], of sample_env short_frame] sample_env_ok by simp
qed

text \<open>A session for a list of one frame, which a peer can ask for, makes the station fail as soon as two frames after the expected one arrive
  in order: the list is emptied to make room, and the search for the place of the second frame asserts that it is not empty.\<close>

theorem list_of_one_fails:
  assumes "sta_ok maxlen s" "env_ok env" "dot11_hdr_at (view_data (m_view m)) = Some h" "dot11_frame_control_get_subtype (frame_control h) = DOT11_FC_SUBTYPE_QOS_DATA"
    "\<not> mm_mac_addr_is_multicast (addr1 h)" "get_le16 (view_data (m_view m)) (dot11_data_hdr_get_len h) = Some qos" "dot11_qos_control_get_tid qos = tid"
    "umac_ba_get_reorder_buffer_size tid (rx_ba s) = Some 1" "rx_reorder_tid s = tid" "rx_reorder_list s = [queued]"
    "umac_ba_get_expected_rx_seq_num tid (rx_ba s) = Some (Some expected)" "sequence_control h \<noteq> u16 expected"
    "\<not> dot11_sequence_control_lt (sequence_control h) (u16 expected)"
    "dot11_hdr_at (view_data (m_view queued)) = Some hq" "sequence_control hq \<noteq> sequence_control h"
    "\<not> dot11_sequence_control_lt (sequence_control h) (sequence_control hq)"
  shows "umac_datapath_process_rx_data_frame env m s = None"
proof -
  have "frame_ok queued" using sta_ok_frames [OF assms(1)] assms(10) by simp
  moreover have "sta_ok maxlen (s\<lparr>rx_reorder_list := []\<rparr>)" using assms(1) by (simp add: sta_ok_def)
  ultimately obtain s1 where s1: "umac_datapath_process_rx_data_frame_after_reorder env queued (s\<lparr>rx_reorder_list := []\<rparr>) = Some s1"
    "same_list (s\<lparr>rx_reorder_list := []\<rparr>) s1" using process_ok assms(2) by blast
  then have "rx_reorder_list s1 = []" by (simp add: same_list_def)
  moreover have "tid < 6" using assms(8) by (auto simp: umac_ba_get_reorder_buffer_size_def split: if_splits)
  ultimately show ?thesis using assms s1(1)
    by (simp add: umac_datapath_process_rx_data_frame_def umac_datapath_add_rx_mpdu_to_reorder_list_def Let_def)
qed

definition with_session :: "nat \<Rightarrow> nat \<Rightarrow> umac_datapath_sta_data \<Rightarrow> umac_datapath_sta_data" where
  "with_session tid n s = s\<lparr>rx_ba := put_session (RECIPIENT, tid) (zero_session\<lparr>ba_status := UMAC_BA_SUCCESS, ba_tid := tid, ba_buffer_size := n\<rparr>) (rx_ba s),
     rx_reorder_tid := tid\<rparr>"

theorem list_of_one_fails_witness:
  "umac_datapath_process_rx_data_frame sample_env (sample_frame 2 2 []) ((with_session 2 1 idle_station)\<lparr>rx_reorder_list := [sample_frame 2 1 []]\<rparr>) = None"
proof -
  have ba: "ba_ok 16 (rx_ba (with_session 2 1 idle_station))"
    using put_session_ok [OF ba_deinit_ok, of "(RECIPIENT, 2)" _ 16] by (simp add: with_session_def idle_station_def ref_ok_def del: put_session.simps)
  have "frame_ok (sample_frame 2 1 [])"
    by (simp add: frame_ok_def sample_header dot11_data_hdr_get_len_def) (simp add: sample_frame_def snap_802_1h_def)
  then have "sta_ok 16 ((with_session 2 1 idle_station)\<lparr>rx_reorder_list := [sample_frame 2 1 []]\<rparr>)"
    using ba idle_ok [of 16] by (simp add: sta_ok_def rx_ok_def with_session_def idle_station_def)
  then show ?thesis
    by (rule list_of_one_fails [where qos = 2 and tid = 2 and expected = 0, OF _ sample_env_ok sample_header _ _ _ _ _ _ _ _ _ _ sample_header [of 2 1 "[]"]])
      (simp_all add: dot11_data_hdr_get_len_def mm_mac_addr_is_multicast_def with_session_def idle_station_def umac_ba_get_reorder_buffer_size_def
        umac_ba_get_expected_rx_seq_num_def umac_ba_deinit_def zero_session_def dot11_qos_control_get_tid_def get_field_def u16_def
        dot11_sequence_control_lt_def sample_frame_def get_le16_def fetch_def snap_802_1h_def)
qed

end
