(* ===== verification/Rx_Order.thy ===== *)
theory Rx_Order
  imports Rx_Path
begin

section \<open>Frames in order\<close>

text \<open>
  What the reorder list of \<open>Rx_Path\<close> is for: the frames of a session reach the network stack in the order of their sequence numbers, each once.
  It is proved over an interface, that the frames are accepted when they come in order, which open networks and networks with protected
  frames provide.
\<close>

text \<open>What the network stack and the supplicant see of a log.\<close>

definition delivered :: "rx_effect list \<Rightarrow> rx_effect list" where
  "delivered es = filter (\<lambda>e. e \<noteq> Released) es"

lemma delivered_simps [simp]:
  "delivered [] = []" "delivered (xs @ ys) = delivered xs @ delivered ys" "delivered (Released # es) = delivered es"
  "delivered (Deliver t bs # es) = Deliver t bs # delivered es"
  by (simp_all add: delivered_def)

text \<open>The steps of the list on the numbers of frames: those that follow the expected one leave it.\<close>

fun drain :: "nat \<Rightarrow> nat list \<Rightarrow> nat \<times> nat list" where
  "drain e [] = (e, [])"
| "drain e (k # ks) = (if k = e then drain (Suc e) ks else (e, k # ks))"

lemma drain_window:
  assumes "sorted_wrt (<) ks" "set ks = {k \<in> K. e \<le> k}" "{..<e} \<subseteq> K" "drain e ks = (e', ks')"
  shows "e \<le> e' \<and> sorted_wrt (<) ks' \<and> set ks' = {k \<in> K. e' < k} \<and> {..<e'} \<subseteq> K \<and> e' \<notin> K"
  using assms
proof (induction e ks rule: drain.induct)
  case (1 e)
  then have none: "k \<in> K \<Longrightarrow> k < e" for k using not_less by auto
  then have "e \<notin> K" "{k \<in> K. e < k} = {}" by force+
  then show ?case using 1 by simp
next
  case (2 e k ks)
  have above: "\<forall>x\<in>set ks. k < x" using 2(2) by simp
  show ?case
  proof (cases "k = e")
    case True
    then have "e \<in> K" using 2(3) by auto
    then have below: "{..<Suc e} \<subseteq> K" using 2(4) by (auto simp: less_Suc_eq)
    have rest: "set ks = {x \<in> K. Suc e \<le> x}"
    proof -
      have "set ks = set (k # ks) - {k}" using above by auto
      moreover have "{x \<in> K. e \<le> x} - {e} = {x \<in> K. Suc e \<le> x}" by auto
      ultimately show ?thesis using 2(3) True by metis
    qed
    have "sorted_wrt (<) ks" "drain (Suc e) ks = (e', ks')" using 2(2,5) True by simp_all
    from 2(1) [OF True this(1) rest below this(2)] show ?thesis by simp
  next
    case False
    have "k \<in> {x \<in> K. e \<le> x}" using 2(3) by (metis list.set_intros(1))
    then have "e < k" using False by simp
    then have "\<forall>x\<in>set (k # ks). e < x" using above by auto
    then have "\<forall>x\<in>{x \<in> K. e \<le> x}. e < x" unfolding 2(3) .
    then have out: "e \<notin> K" "{x \<in> K. e \<le> x} = {x \<in> K. e < x}" by auto
    have "e' = e" "ks' = k # ks" using 2(5) False by simp_all
    moreover have "set (k # ks) = {x \<in> K. e < x}" using 2(3) out(2) by (rule trans)
    ultimately show ?thesis using 2(2,4) out(1) by (metis order_refl)
  qed
qed

text \<open>Sequence controls wrap, and are compared within half of their range.\<close>

lemma wrap_add:
  assumes "d < 65536"
  shows "u16 (a + d) = (if u16 a + d < 65536 then u16 a + d else u16 a + d - 65536)"
proof -
  have "u16 (a + d) = (u16 a + d) mod 65536" by (simp add: u16_def mod_add_left_eq)
  moreover have "u16 a + d < 65536 + 65536" using assms u16_less [of a] by linarith
  ultimately show ?thesis by (simp add: mod_if)
qed

lemma u16_wrap: "x < 65536 \<Longrightarrow> u16 (65536 + x) = x" "x < 65536 \<Longrightarrow> u16 (x + 65536) = x"
  by (simp_all add: u16_def)

lemma sequence_less:
  assumes "0 < d" "d < 32768"
  shows "dot11_sequence_control_lt (u16 a) (u16 (a + d))" "\<not> dot11_sequence_control_lt (u16 (a + d)) (u16 a)" "u16 a \<noteq> u16 (a + d)"
    "\<not> dot11_sequence_control_lt (u16 a) (u16 a)"
proof -
  have d: "d < 65536" "u16 a < 65536" using assms by simp_all
  have "u16 (u16 a + (65536 - u16 (a + d))) = 65536 - d \<and> u16 (u16 (a + d) + (65536 - u16 a)) = d \<and> u16 a \<noteq> u16 (a + d)"
  proof (cases "u16 a + d < 65536")
    case True
    then have "u16 (a + d) = u16 a + d" using wrap_add [OF d(1), of a] by simp
    moreover have "u16 a + (65536 - (u16 a + d)) = 65536 - d" "u16 a + d + (65536 - u16 a) = d + 65536" using True by simp_all
    ultimately show ?thesis using assms u16_id [of "65536 - d"] u16_wrap [of d] by simp
  next
    case False
    then have "u16 (a + d) = u16 a + d - 65536" using wrap_add [OF d(1), of a] by simp
    moreover have "u16 a + (65536 - (u16 a + d - 65536)) = 65536 + (65536 - d)" "u16 a + d - 65536 + (65536 - u16 a) = d"
      "u16 a \<noteq> u16 a + d - 65536" using False d by linarith+
    ultimately show ?thesis using assms u16_id [of d] u16_wrap [of "65536 - d"] by simp
  qed
  then show "dot11_sequence_control_lt (u16 a) (u16 (a + d))" "\<not> dot11_sequence_control_lt (u16 (a + d)) (u16 a)" "u16 a \<noteq> u16 (a + d)"
    using assms by (simp_all add: dot11_sequence_control_lt_def)
  show "\<not> dot11_sequence_control_lt (u16 a) (u16 a)"
    using less_imp_le [OF u16_less [of a]] by (simp add: dot11_sequence_control_lt_def) (simp add: u16_def)
qed

subsection \<open>The interface\<close>

text \<open>\<open>frame k\<close> is the k-th frame of the window, \<open>ready k\<close> a station that expects it. Processing a frame that is not before the expected one delivers it.
  \<open>good\<close> are the surroundings in which nothing times out.\<close>

locale frame_window =
  fixes good :: "rx_env \<Rightarrow> bool"
    and frame :: "nat \<Rightarrow> rx_mpdu"
    and payload :: "nat \<Rightarrow> nat list"
    and first :: nat
    and n :: nat
    and tid :: nat
    and maxlen :: nat
    and ready :: "nat \<Rightarrow> umac_datapath_sta_data \<Rightarrow> bool"
  assumes window: "n < 2048" "tid < 6" "0 < maxlen"
    and header: "k < n \<Longrightarrow> \<exists>h qos. dot11_hdr_at (view_data (m_view (frame k))) = Some h \<and> sequence_control h = u16 (first + 16 * k)
      \<and> dot11_frame_control_get_subtype (frame_control h) = DOT11_FC_SUBTYPE_QOS_DATA \<and> \<not> mm_mac_addr_is_multicast (addr1 h)
      \<and> get_le16 (view_data (m_view (frame k))) (dot11_data_hdr_get_len h) = Some qos \<and> dot11_qos_control_get_tid qos = tid"
    and patient: "good env \<Longrightarrow> k < n \<Longrightarrow> \<not> mmosal_time_has_passed (env_now env j) (u32 (m_time (frame k) + RX_REORDER_TIMEOUT_MS))"
    and expected: "ready k s \<Longrightarrow> umac_ba_get_expected_rx_seq_num tid (rx_ba s) = Some (Some (u16 (first + 16 * k)))"
    and size: "ready k s \<Longrightarrow> umac_ba_get_reorder_buffer_size tid (rx_ba s) = Some maxlen"
    and ready_only: "ready k s \<Longrightarrow> rx_ba s' = rx_ba s \<Longrightarrow> rx_keys s' = rx_keys s \<Longrightarrow> rx_frag_chains s' = rx_frag_chains s \<Longrightarrow> ready k s'"
    and accept: "good env \<Longrightarrow> ready k s \<Longrightarrow> k \<le> j \<Longrightarrow> j < n \<Longrightarrow>
      \<exists>s' es. umac_datapath_process_rx_data_frame_after_reorder env (frame j) s = Some s' \<and> ready (Suc j) s'
        \<and> rx_log s' = rx_log s @ es \<and> delivered es = [Deliver tid (payload j)]
        \<and> rx_reorder_list s' = rx_reorder_list s \<and> rx_reorder_tid s' = rx_reorder_tid s \<and> rx_reorder_timers s' = rx_reorder_timers s"
begin

lemma seq_less:
  assumes "j \<le> n" "k \<le> n"
  shows "dot11_sequence_control_lt (u16 (first + 16 * j)) (u16 (first + 16 * k)) \<longleftrightarrow> j < k"
    "u16 (first + 16 * j) = u16 (first + 16 * k) \<longleftrightarrow> j = k"
proof -
  have "dot11_sequence_control_lt (u16 (first + 16 * j)) (u16 (first + 16 * k)) = (j < k) \<and>
    (u16 (first + 16 * j) = u16 (first + 16 * k)) = (j = k)"
  proof (cases j k rule: linorder_cases)
    case less
    then have k: "first + 16 * k = (first + 16 * j) + 16 * (k - j)" by simp
    show ?thesis unfolding k using sequence_less [of "16 * (k - j)" "first + 16 * j"] less assms(2) window(1) by simp
  next
    case equal
    then show ?thesis using sequence_less(4) [of 16] by simp
  next
    case greater
    then have j: "first + 16 * j = (first + 16 * k) + 16 * (j - k)" by simp
    show ?thesis unfolding j using sequence_less [of "16 * (j - k)" "first + 16 * k"] greater assms(1) window(1) by (simp add: eq_commute)
  qed
  then show "dot11_sequence_control_lt (u16 (first + 16 * j)) (u16 (first + 16 * k)) \<longleftrightarrow> j < k"
    "u16 (first + 16 * j) = u16 (first + 16 * k) \<longleftrightarrow> j = k" by simp_all
qed

end

lemma drain_mono: "e \<le> fst (drain e ks)"
  by (induction e ks rule: drain.induct) auto

context frame_window
begin

text \<open>The frames \<open>K\<close> have arrived: those before \<open>e\<close> are delivered, those after it wait in order.\<close>

definition waiting :: "nat set \<Rightarrow> nat \<Rightarrow> nat list \<Rightarrow> umac_datapath_sta_data \<Rightarrow> bool" where
  "waiting K e ks s \<longleftrightarrow> ready e s \<and> rx_reorder_list s = List.map frame ks \<and> (rx_reorder_tid s = tid \<or> ks = [])
     \<and> sorted_wrt (<) ks \<and> set ks = {k \<in> K. e < k} \<and> {..<e} \<subseteq> K \<and> e \<notin> K \<and> K \<subseteq> {..<n}"

definition deliveries :: "nat \<Rightarrow> nat \<Rightarrow> rx_effect list" where
  "deliveries e e' = List.map (\<lambda>k. Deliver tid (payload k)) [e..<e']"

lemma deliveries_simps [simp]: "deliveries e e = []" "e < e' \<Longrightarrow> Deliver tid (payload e) # deliveries (Suc e) e' = deliveries e e'"
  by (simp_all add: deliveries_def upt_conv_Cons)

lemma ready_list [simp]: "ready k (s\<lparr>rx_reorder_list := l\<rparr>) = ready k s" "ready k (s\<lparr>rx_reorder_tid := t\<rparr>) = ready k s"
  "ready k (log_effects es s) = ready k s" "ready k (s\<lparr>rx_reorder_timers := i\<rparr>) = ready k s"
  by (auto intro: ready_only)

lemma frame_number:
  assumes "k < n"
  obtains h qos where "dot11_hdr_at (view_data (m_view (frame k))) = Some h" "sequence_control h = u16 (first + 16 * k)"
    "dot11_frame_control_get_subtype (frame_control h) = 8" "\<not> mm_mac_addr_is_multicast (addr1 h)"
    "get_le16 (view_data (m_view (frame k))) (dot11_data_hdr_get_len h) = Some qos" "dot11_qos_control_get_tid qos = tid"
  using header [OF assms] by blast

lemma u16_twice [simp]: "u16 (u16 a) = u16 a"
  by (simp add: u16_id)

lemma evaluate_drain:
  assumes "good env" "ready e s" "e \<le> n" "rx_reorder_tid s = tid \<or> ks = []" "sorted_wrt (<) ks" "set ks \<subseteq> {e..<n}" "drain e ks = (e', ks')"
  shows "\<exists>s' es. evaluate_loop env (List.map frame ks) s = Some s' \<and> ready e' s' \<and> rx_reorder_list s' = List.map frame ks'
    \<and> rx_reorder_tid s' = rx_reorder_tid s \<and> rx_log s' = rx_log s @ es \<and> delivered es = deliveries e e'"
  using assms(2-)
proof (induction ks arbitrary: e s)
  case Nil
  then show ?case by simp
next
  case (Cons k ks)
  have k: "k < n" "e \<le> k" "rx_reorder_tid s = tid" using Cons.prems by auto
  obtain h where h: "dot11_hdr_at (view_data (m_view (frame k))) = Some h" "sequence_control h = u16 (first + 16 * k)"
    by (rule frame_number [OF k(1)]) blast
  have same: "u16 (first + 16 * k) = u16 (first + 16 * e) \<longleftrightarrow> k = e" using seq_less(2) [of k e] k(1) Cons.prems(2) by simp
  note here = h expected [OF Cons.prems(1)] patient [OF assms(1) k(1)] same k(3)
  show ?case
  proof (cases "k = e")
    case False
    then have "evaluate_loop env (List.map frame (k # ks)) s = Some (s\<lparr>rx_reorder_list := List.map frame (k # ks)\<rparr>)"
      using here by (simp add: Let_def)
    moreover have "e' = e" "ks' = k # ks" using Cons.prems(6) False by simp_all
    ultimately show ?thesis using Cons.prems(1) by (intro exI [of _ "s\<lparr>rx_reorder_list := List.map frame (k # ks)\<rparr>"]) simp
  next
    case True
    obtain s1 es where s1: "umac_datapath_process_rx_data_frame_after_reorder env (frame k) s = Some s1" "ready (Suc k) s1"
      "rx_log s1 = rx_log s @ es" "delivered es = [Deliver tid (payload k)]" "rx_reorder_tid s1 = rx_reorder_tid s"
      using accept [OF assms(1) Cons.prems(1) k(2,1)] by blast
    have "set ks \<subseteq> {Suc e..<n}" using Cons.prems(4,5) True by (fastforce simp: Suc_le_eq)
    moreover have "drain (Suc e) ks = (e', ks')" "sorted_wrt (<) ks" "Suc e \<le> n" "rx_reorder_tid s1 = tid" "ready (Suc e) s1"
      using Cons.prems(4,6) True k s1(2,5) by simp_all
    ultimately obtain s2 es2 where s2: "evaluate_loop env (List.map frame ks) s1 = Some s2" "ready e' s2" "rx_reorder_list s2 = List.map frame ks'"
      "rx_reorder_tid s2 = rx_reorder_tid s1" "rx_log s2 = rx_log s1 @ es2" "delivered es2 = deliveries (Suc e) e'"
      using Cons.IH [of "Suc e" s1] by blast
    have "e < e'" using drain_mono [of "Suc e" ks] Cons.prems(6) True by simp
    then have "delivered (es @ es2) = deliveries e e'" using s1(4) s2(6) True by simp
    moreover have "evaluate_loop env (List.map frame (k # ks)) s = Some s2" using here True s1(1) s2(1) by (simp add: Let_def)
    ultimately show ?thesis using s1(3,5) s2 by (intro exI [of _ s2] exI [of _ "es @ es2"]) simp
  qed
qed

lemma insert_walk_sorted:
  assumes "sorted_wrt (<) (a # ks)" "set (a # ks) \<subseteq> {..<n}" "j < n" "a < j"
  shows "insert_walk (u16 (first + 16 * j)) (frame j) (List.map frame (a # ks))
    = Some (if j \<in> set ks then None else Some (List.map frame (insort j (a # ks))))"
  using assms
proof (induction ks arbitrary: a)
  case (Cons b ks)
  have b: "b < n" "a < b" using Cons.prems by auto
  obtain h where h: "dot11_hdr_at (view_data (m_view (frame b))) = Some h" "sequence_control h = u16 (first + 16 * b)"
    by (rule frame_number [OF b(1)]) blast
  note seq = seq_less [of j b] seq_less [of b j]
  show ?case
  proof (cases j b rule: linorder_cases)
    case less
    then have "j \<notin> set (b # ks)" using Cons.prems(1) by auto
    then show ?thesis using less seq h b Cons.prems(3,4) by (simp add: Let_def)
  next
    case equal
    then show ?thesis using h by (simp add: Let_def)
  next
    case greater
    have "insert_walk (u16 (first + 16 * j)) (frame j) (List.map frame (b # ks))
      = Some (if j \<in> set ks then None else Some (List.map frame (insort j (b # ks))))"
      using Cons.IH [of b] Cons.prems greater by simp
    then show ?thesis using greater seq h b Cons.prems(3,4) by (auto simp: Let_def)
  qed
qed simp

lemma process_frame:
  assumes "ready e s" "e \<le> n" "k < n" "rx_reorder_tid s = tid \<or> rx_reorder_list s = []"
  shows "umac_datapath_process_rx_data_frame env (frame k) s =
    (let s = s\<lparr>rx_reorder_tid := tid\<rparr>
     in if k = e then do { s \<leftarrow> umac_datapath_process_rx_data_frame_after_reorder env (frame k) s; umac_datapath_evaluate_rx_reorder_list env s }
        else if k < e then Some (log_effects [Released] s)
        else umac_datapath_add_rx_mpdu_to_reorder_list env (frame k) (u16 (first + 16 * k)) maxlen s)"
proof -
  obtain h qos where h: "dot11_hdr_at (view_data (m_view (frame k))) = Some h" "sequence_control h = u16 (first + 16 * k)"
    "dot11_frame_control_get_subtype (frame_control h) = 8" "\<not> mm_mac_addr_is_multicast (addr1 h)"
    "get_le16 (view_data (m_view (frame k))) (dot11_data_hdr_get_len h) = Some qos" "dot11_qos_control_get_tid qos = tid"
    by (rule frame_number [OF assms(3)])
  have "(if rx_reorder_tid s \<noteq> tid
             then do {
               s \<leftarrow> umac_datapath_flush_rx_reorder_list env s;
               Some (s\<lparr>rx_reorder_tid := tid\<rparr>)
             }
             else Some s) = Some (s\<lparr>rx_reorder_tid := tid\<rparr>)"
    using assms(4) by (auto simp: umac_datapath_flush_rx_reorder_list_def)
  moreover have "umac_ba_get_expected_rx_seq_num tid (rx_ba (s\<lparr>rx_reorder_tid := tid\<rparr>)) = Some (Some (u16 (first + 16 * e)))"
    using expected [OF assms(1)] by simp
  moreover have "u16 (first + 16 * k) = u16 (first + 16 * e) \<longleftrightarrow> k = e"
    "dot11_sequence_control_lt (u16 (first + 16 * k)) (u16 (first + 16 * e)) \<longleftrightarrow> k < e"
    using seq_less [of k e] assms(2,3) by simp_all
  ultimately show ?thesis using h size [OF assms(1)] window(2,3)
    by (simp add: umac_datapath_process_rx_data_frame_def Let_def)
qed

end

context frame_window
begin

lemma waiting_bounds:
  assumes "waiting K e ks s"
  shows "e \<le> n" "set ks \<subseteq> {Suc e..<n}" "card (set ks) = length ks" "finite K"
proof -
  have w: "set ks = {k \<in> K. e < k}" "{..<e} \<subseteq> K" "K \<subseteq> {..<n}" "sorted_wrt (<) ks" using assms by (simp_all add: waiting_def)
  show "set ks \<subseteq> {Suc e..<n}" unfolding w(1) using w(3) by auto
  show "finite K" using w(3) finite_subset by blast
  have "{..<e} \<subseteq> {..<n}" using w(2,3) by (rule subset_trans)
  then show "e \<le> n" using not_le by auto
  show "card (set ks) = length ks" using w(4) strict_sorted_iff distinct_card by blast
qed

lemma not_full:
  assumes "waiting K e ks s" "e < n" "n \<le> maxlen"
  shows "length ks < maxlen"
proof -
  have "card (set ks) \<le> card {Suc e..<n}" using waiting_bounds(2) [OF assms(1)] by (rule card_mono [rotated]) simp
  then show ?thesis using waiting_bounds(3) [OF assms(1)] assms(2,3) by simp
qed

lemma insort_strict: "sorted_wrt (<) ks \<Longrightarrow> j \<notin> set ks \<Longrightarrow> sorted_wrt (<) (insort j ks)"
  by (simp add: strict_sorted_iff sorted_insort distinct_insort)

lemma evaluated:
  assumes "good env" "ready i s" "i \<le> n" "sorted_wrt (<) l" "set l = {x \<in> K. i \<le> x}" "{..<i} \<subseteq> K" "K \<subseteq> {..<n}" "rx_reorder_tid s = tid"
  shows "\<exists>s' e' ks' es. evaluate_loop env (List.map frame l) s = Some s' \<and> waiting K e' ks' s' \<and> rx_log s' = rx_log s @ es
    \<and> i \<le> e' \<and> delivered es = deliveries i e'"
proof -
  obtain e' ks' where d: "drain i l = (e', ks')" by fastforce
  have "set l \<subseteq> {i..<n}" unfolding assms(5) using assms(7) by auto
  with evaluate_drain [OF assms(1-3) _ assms(4) _ d] assms(8) obtain s' es where
    s': "evaluate_loop env (List.map frame l) s = Some s'" "ready e' s'" "rx_reorder_list s' = List.map frame ks'" "rx_reorder_tid s' = tid"
      "rx_log s' = rx_log s @ es" "delivered es = deliveries i e'" by blast
  show ?thesis using s' drain_window [OF assms(4,5,6) d] assms(7) by (auto simp: waiting_def)
qed

text \<open>A frame after the expected one, while the list has room.\<close>

lemma add_late:
  assumes "waiting K e ks s" "good env" "e < k" "k < n" "n \<le> maxlen" "rx_reorder_tid s = tid"
  shows "\<exists>s' e' ks' es. umac_datapath_add_rx_mpdu_to_reorder_list env (frame k) (u16 (first + 16 * k)) maxlen s = Some s'
    \<and> waiting (insert k K) e' ks' s' \<and> rx_log s' = rx_log s @ es \<and> e \<le> e' \<and> delivered es = deliveries e e'"
proof -
  have w: "ready e s" "rx_reorder_list s = List.map frame ks" "sorted_wrt (<) ks"
    "set ks = {k \<in> K. e < k}" "{..<e} \<subseteq> K" "e \<notin> K" "K \<subseteq> {..<n}" using assms(1) by (simp_all add: waiting_def)
  have member: "k \<in> K \<longleftrightarrow> k \<in> set ks" unfolding w(4) using assms(3) by simp
  have bigger: "waiting (insert k K) e ks' (s1\<lparr>rx_reorder_list := List.map frame ks'\<rparr>)"
    if "sorted_wrt (<) ks'" "set ks' = insert k (set ks)" "rx_reorder_tid s1 = tid" "ready e s1" for ks' s1
    using that w assms(3,4) by (auto simp: waiting_def)
  have room: "\<not> maxlen \<le> length ks" using not_full [OF assms(1) _ assms(5)] assms(3,4) by simp
  have repeated: "waiting (insert k K) e ks (log_effects [Released] s)" if "k \<in> set ks"
  proof -
    have "insert k K = K" using that member by auto
    then show ?thesis using assms(1) by (simp add: waiting_def)
  qed
  show ?thesis
  proof (cases ks)
    case Nil
    have "waiting (insert k K) e [k] ((register_reorder_timeout env s)\<lparr>rx_reorder_list := List.map frame [k]\<rparr>)"
      by (rule bigger) (use Nil assms(6) w(1) in \<open>simp_all add: register_reorder_timeout_def\<close>)
    then show ?thesis using Nil w(2)
      by (intro exI [of _ "(register_reorder_timeout env s)\<lparr>rx_reorder_list := [frame k]\<rparr>"] exI [of _ e] exI [of _ "[k]"] exI [of _ "[]"])
        (simp add: umac_datapath_add_rx_mpdu_to_reorder_list_def register_reorder_timeout_def)
  next
    case (Cons a l)
    have a: "a < n" using waiting_bounds(2) [OF assms(1)] Cons by auto
    obtain h where h: "dot11_hdr_at (view_data (m_view (frame a))) = Some h" "sequence_control h = u16 (first + 16 * a)"
      by (rule frame_number [OF a]) blast
    have le: "a \<le> n" "k \<le> n" using a assms(4) by simp_all
    note add = umac_datapath_add_rx_mpdu_to_reorder_list_def w(2) Cons h seq_less [OF le] seq_less [OF le(2,1)] room [unfolded Cons, simplified]
    show ?thesis
    proof (cases k a rule: linorder_cases)
      case equal
      then have "waiting (insert k K) e ks (log_effects [Released] s)" using repeated Cons by simp
      then show ?thesis using equal
        by (intro exI [of _ "log_effects [Released] s"] exI [of _ e] exI [of _ ks] exI [of _ "[Released]"]) (simp add: add Let_def)
    next
      case less
      then have "sorted_wrt (<) (k # ks)" using w(3) Cons by (auto intro: less_trans)
      then have "waiting (insert k K) e (k # ks) (s\<lparr>rx_reorder_list := List.map frame (k # ks)\<rparr>)"
        by (rule bigger) (use w(1) assms(6) in simp_all)
      then show ?thesis using less
        by (intro exI [of _ "s\<lparr>rx_reorder_list := List.map frame (k # ks)\<rparr>"] exI [of _ e] exI [of _ "k # ks"] exI [of _ "[]"]) (simp add: add Let_def)
    next
      case greater
      have walk: "insert_walk (u16 (first + 16 * k)) (frame k) (List.map frame (a # l))
          = Some (if k \<in> set l then None else Some (List.map frame (insort k (a # l))))"
      proof (rule insert_walk_sorted [OF _ _ assms(4) greater])
        have "set ks \<subseteq> {..<n}" using waiting_bounds(2) [OF assms(1)] by force
        then show "set (a # l) \<subseteq> {..<n}" unfolding Cons .
      qed (use w(3) Cons in simp)
      show ?thesis
      proof (cases "k \<in> set l")
        case True
        then have "waiting (insert k K) e ks (log_effects [Released] s)" using repeated Cons by simp
        then show ?thesis using greater True walk
          by (intro exI [of _ "log_effects [Released] s"] exI [of _ e] exI [of _ ks] exI [of _ "[Released]"]) (simp add: add Let_def)
      next
        case False
        then have new: "k \<notin> set ks" using Cons greater by simp
        let ?l = "insort k ks"
        have "set ?l = {x \<in> insert k K. e \<le> x}" using w(4,6) assms(3) by (auto simp: set_insort_key le_less)
        moreover have "sorted_wrt (<) ?l" using insort_strict [OF w(3) new] .
        moreover have "{..<e} \<subseteq> insert k K" "insert k K \<subseteq> {..<n}" "e \<le> n" using w(5,7) assms(3,4) by auto
        moreover have "ready e (s\<lparr>rx_reorder_list := List.map frame ?l\<rparr>)" "rx_reorder_tid (s\<lparr>rx_reorder_list := List.map frame ?l\<rparr>) = tid"
          using w(1) assms(6) by simp_all
        ultimately obtain s' e' ks' es where s': "evaluate_loop env (List.map frame ?l) (s\<lparr>rx_reorder_list := List.map frame ?l\<rparr>) = Some s'"
          "waiting (insert k K) e' ks' s'" "rx_log s' = rx_log s @ es" "e \<le> e'" "delivered es = deliveries e e'"
          using evaluated [OF assms(2), of e "s\<lparr>rx_reorder_list := List.map frame ?l\<rparr>" ?l "insert k K"] by auto
        then show ?thesis using greater False walk
          by (intro exI [of _ s'] exI [of _ e'] exI [of _ ks'] exI [of _ es]) (simp add: add Let_def umac_datapath_evaluate_rx_reorder_list_def)
      qed
    qed
  qed
qed

text \<open>One arrival.\<close>

lemma arrive:
  assumes "waiting K e ks s" "good env" "k < n" "n \<le> maxlen"
  shows "\<exists>s' e' ks' es. umac_datapath_process_rx_data_frame env (frame k) s = Some s' \<and> waiting (insert k K) e' ks' s'
    \<and> rx_log s' = rx_log s @ es \<and> e \<le> e' \<and> delivered es = deliveries e e'"
proof -
  have w: "ready e s" "rx_reorder_list s = List.map frame ks" "rx_reorder_tid s = tid \<or> ks = []" "sorted_wrt (<) ks"
    "set ks = {k \<in> K. e < k}" "{..<e} \<subseteq> K" "e \<notin> K" "K \<subseteq> {..<n}" using assms(1) by (simp_all add: waiting_def)
  let ?s = "s\<lparr>rx_reorder_tid := tid\<rparr>"
  have s: "waiting K e ks ?s" using w by (simp add: waiting_def)
  have "rx_reorder_tid s = tid \<or> rx_reorder_list s = []" using w(2,3) by auto
  note step = process_frame [OF w(1) waiting_bounds(1) [OF assms(1)] assms(3) this, of env]
  show ?thesis
  proof (cases k e rule: linorder_cases)
    case equal
    obtain s1 es where s1: "umac_datapath_process_rx_data_frame_after_reorder env (frame k) ?s = Some s1" "ready (Suc k) s1" "rx_log s1 = rx_log s @ es"
      "delivered es = [Deliver tid (payload k)]" "rx_reorder_list s1 = List.map frame ks" "rx_reorder_tid s1 = tid"
      using accept [OF assms(2), of e ?s k] equal w(1,2) assms(3) by auto
    have "set ks = {x \<in> insert k K. Suc e \<le> x}" unfolding w(5) using equal by auto
    moreover have "{..<Suc e} \<subseteq> insert k K" using w(6) equal by (auto simp: less_Suc_eq)
    ultimately obtain s2 e' ks' es2 where s2: "evaluate_loop env (List.map frame ks) s1 = Some s2" "waiting (insert k K) e' ks' s2"
      "rx_log s2 = rx_log s1 @ es2" "Suc e \<le> e'" "delivered es2 = deliveries (Suc e) e'"
      using evaluated [OF assms(2), of "Suc e" s1 ks "insert k K"] s1(2,6) w(4,8) equal assms(3) by auto
    have "delivered (es @ es2) = deliveries e e'" using s1(4) s2(4,5) equal by simp
    then show ?thesis using step equal s1 s2
      by (intro exI [of _ s2] exI [of _ e'] exI [of _ ks'] exI [of _ "es @ es2"]) (simp add: Let_def umac_datapath_evaluate_rx_reorder_list_def)
  next
    case less
    then have "insert k K = K" using w(6) by auto
    then have "waiting (insert k K) e ks (log_effects [Released] ?s)" using s by (simp add: waiting_def)
    then show ?thesis using step less
      by (intro exI [of _ "log_effects [Released] ?s"] exI [of _ e] exI [of _ ks] exI [of _ "[Released]"]) (simp add: Let_def)
  next
    case greater
    have "umac_datapath_process_rx_data_frame env (frame k) s = umac_datapath_add_rx_mpdu_to_reorder_list env (frame k) (u16 (first + 16 * k)) maxlen ?s"
      using step greater by (simp add: Let_def)
    then show ?thesis using add_late [OF s assms(2) greater assms(3,4)] by simp
  qed
qed

text \<open>Any sequence of arrivals.\<close>

lemma arrivals:
  assumes "waiting K e ks s" "\<forall>(env, k)\<in>set ops. good env \<and> k < n" "n \<le> maxlen"
  shows "\<exists>s' e' ks' es. foldM (\<lambda>(env, k). umac_datapath_process_rx_data_frame env (frame k)) ops s = Some s'
    \<and> waiting (K \<union> snd ` set ops) e' ks' s' \<and> rx_log s' = rx_log s @ es \<and> e \<le> e' \<and> delivered es = deliveries e e'"
  using assms(1,2)
proof (induction ops arbitrary: K e ks s)
  case Nil
  then show ?case by (intro exI [of _ s] exI [of _ e] exI [of _ ks] exI [of _ "[]"]) simp
next
  case (Cons op ops)
  obtain env k where op: "op = (env, k)" "good env" "k < n" using Cons.prems(2) by auto
  obtain s1 e1 ks1 es1 where s1: "umac_datapath_process_rx_data_frame env (frame k) s = Some s1" "waiting (insert k K) e1 ks1 s1"
    "rx_log s1 = rx_log s @ es1" "e \<le> e1" "delivered es1 = deliveries e e1" using arrive [OF Cons.prems(1) op(2,3) assms(3)] by blast
  obtain s2 e2 ks2 es2 where s2: "foldM (\<lambda>(env, k). umac_datapath_process_rx_data_frame env (frame k)) ops s1 = Some s2"
    "waiting (insert k K \<union> snd ` set ops) e2 ks2 s2" "rx_log s2 = rx_log s1 @ es2" "e1 \<le> e2" "delivered es2 = deliveries e1 e2"
    using Cons.IH [OF s1(2)] Cons.prems(2) by auto
  have "delivered (es1 @ es2) = deliveries e e2"
    using s1(4,5) s2(4,5) upt_add_eq_append [of e e1 "e2 - e1"] by (simp add: deliveries_def)
  then show ?case using op(1) s1 s2 by (intro exI [of _ s2] exI [of _ e2] exI [of _ ks2] exI [of _ "es1 @ es2"]) simp
qed

text \<open>The frames delivered are the longest prefix of those that arrived; the others wait.\<close>

lemma in_order:
  assumes "ready 0 s" "rx_reorder_list s = []" "\<forall>(env, k)\<in>set ops. good env \<and> k < n" "n \<le> maxlen"
  shows "\<exists>s' e. foldM (\<lambda>(env, k). umac_datapath_process_rx_data_frame env (frame k)) ops s = Some s'
    \<and> delivered (rx_log s') = delivered (rx_log s) @ List.map (\<lambda>k. Deliver tid (payload k)) [0..<e]
    \<and> {..<e} \<subseteq> snd ` set ops \<and> e \<notin> snd ` set ops
    \<and> rx_reorder_list s' = List.map frame (filter (\<lambda>k. e < k \<and> k \<in> snd ` set ops) [0..<n])"
proof -
  have "waiting {} 0 [] s" using assms(1,2) by (simp add: waiting_def)
  then obtain s' e ks es where s': "foldM (\<lambda>(env, k). umac_datapath_process_rx_data_frame env (frame k)) ops s = Some s'"
    "waiting (snd ` set ops) e ks s'" "rx_log s' = rx_log s @ es" "delivered es = deliveries 0 e"
    using arrivals [OF _ assms(3,4), of "{}" 0 "[]" s] by auto
  have w: "sorted_wrt (<) ks" "set ks = {k \<in> snd ` set ops. e < k}" "snd ` set ops \<subseteq> {..<n}" using s'(2) by (simp_all add: waiting_def)
  have "sorted_wrt (<) (filter (\<lambda>k. e < k \<and> k \<in> snd ` set ops) [0..<n])" by (simp add: sorted_wrt_filter)
  moreover have "set (filter (\<lambda>k. e < k \<and> k \<in> snd ` set ops) [0..<n]) = set ks" unfolding w(2) using w(3) by auto
  ultimately have "filter (\<lambda>k. e < k \<and> k \<in> snd ` set ops) [0..<n] = ks"
    using w(1) strict_sorted_equal by blast
  then show ?thesis using s' by (auto simp: waiting_def deliveries_def)
qed

end

context frame_window
begin

text \<open>A full list makes room by delivering its first frame, although an earlier one is still missing; a new frame that belongs before
  the second is then put behind it, and the missing frame is dropped when it comes.\<close>

lemma full_list:
  assumes "waiting K e (a # b # ks) s" "good env" "a < k" "k < b" "maxlen \<le> length (a # b # ks)"
  shows "\<exists>s' s'' es es'. umac_datapath_process_rx_data_frame env (frame k) s = Some s' \<and> rx_reorder_list s' = List.map frame (b # k # ks)
    \<and> rx_log s' = rx_log s @ es \<and> delivered es = [Deliver tid (payload a)]
    \<and> umac_datapath_process_rx_data_frame env (frame e) s' = Some s'' \<and> rx_log s'' = rx_log s' @ es' \<and> delivered es' = []"
proof -
  have w: "ready e s" "rx_reorder_list s = List.map frame (a # b # ks)" "rx_reorder_tid s = tid" "sorted_wrt (<) (a # b # ks)"
    using assms(1) by (simp_all add: waiting_def)
  have "set (a # b # ks) \<subseteq> {Suc e..<n}" using waiting_bounds(2) [OF assms(1)] .
  then have bounds: "e < a" "b < n" "set ks \<subseteq> {..<n}" by auto
  have k: "k < n" "a < n" "e < n" "e < k" using assms(3,4) bounds by simp_all
  obtain h where h: "dot11_hdr_at (view_data (m_view (frame a))) = Some h" "sequence_control h = u16 (first + 16 * a)"
    by (rule frame_number [OF k(2)]) blast
  obtain hb where hb: "dot11_hdr_at (view_data (m_view (frame b))) = Some hb" "sequence_control hb = u16 (first + 16 * b)"
    by (rule frame_number [OF bounds(2)]) blast
  let ?s = "s\<lparr>rx_reorder_tid := tid\<rparr>"
  obtain s1 es where s1: "umac_datapath_process_rx_data_frame_after_reorder env (frame a) (?s\<lparr>rx_reorder_list := List.map frame (b # ks)\<rparr>) = Some s1"
    "ready (Suc a) s1" "rx_log s1 = rx_log s @ es" "delivered es = [Deliver tid (payload a)]" "rx_reorder_list s1 = List.map frame (b # ks)"
    "rx_reorder_tid s1 = tid"
    using accept [OF assms(2), of e "?s\<lparr>rx_reorder_list := List.map frame (b # ks)\<rparr>" a] w(1) bounds(1) k(2) by auto
  have walk: "insert_walk (u16 (first + 16 * k)) (frame k) (List.map frame (b # ks)) = Some (Some (List.map frame (b # k # ks)))"
  proof (cases ks)
    case (Cons c l)
    then have c: "c < n" "k < c" using bounds(3) w(4) assms(4) by auto
    obtain hc where "dot11_hdr_at (view_data (m_view (frame c))) = Some hc" "sequence_control hc = u16 (first + 16 * c)"
      by (rule frame_number [OF c(1)]) blast
    then show ?thesis using Cons seq_less [of k c] seq_less [of c k] c k(1) by (simp add: Let_def)
  qed simp
  have ne: "u16 (first + 16 * b) \<noteq> u16 (first + 16 * Suc a)" using seq_less(2) [of b "Suc a"] bounds(2) assms(3,4) by simp
  let ?s2 = "s1\<lparr>rx_reorder_list := List.map frame (b # k # ks)\<rparr>"
  have evaluated: "umac_datapath_evaluate_rx_reorder_list env ?s2 = Some ?s2"
    using hb expected [OF s1(2)] ne patient [OF assms(2) bounds(2)] s1(6)
    by (simp add: umac_datapath_evaluate_rx_reorder_list_def Let_def)
  have le: "k \<le> n" "a \<le> n" using k by simp_all
  have "umac_datapath_process_rx_data_frame env (frame k) s = umac_datapath_add_rx_mpdu_to_reorder_list env (frame k) (u16 (first + 16 * k)) maxlen ?s"
    using process_frame [OF w(1) _ k(1), of env] w(3) k by (simp add: Let_def)
  also have "\<dots> = Some ?s2"
    using w(2) h seq_less [OF le] seq_less [OF le(2,1)] assms(3,5) s1(1,5) walk evaluated
    by (simp add: umac_datapath_add_rx_mpdu_to_reorder_list_def Let_def)
  finally have new: "umac_datapath_process_rx_data_frame env (frame k) s = Some ?s2" .
  have "ready (Suc a) ?s2" "Suc a \<le> n" using s1(2) k(2) by simp_all
  then have "umac_datapath_process_rx_data_frame env (frame e) ?s2 = Some (log_effects [Released] (?s2\<lparr>rx_reorder_tid := tid\<rparr>))"
    using process_frame [of "Suc a" ?s2 e env] s1(6) k(3) bounds(1) by (simp add: Let_def)
  then show ?thesis using new s1(3,4)
    by (intro exI [of _ ?s2] exI [of _ "log_effects [Released] (?s2\<lparr>rx_reorder_tid := tid\<rparr>)"] exI [of _ es] exI [of _ "[Released]"]) simp
qed

end

subsection \<open>Networks\<close>

text \<open>What a data frame carries, and what the network stack gets of it: an Ethernet frame.\<close>

definition frame_body :: "dot11_hdr \<Rightarrow> rx_mpdu \<Rightarrow> nat list" where
  "frame_body h m =
     (let bs = drop (dot11_data_hdr_get_len h + 2) (view_data (m_view m))
      in if dot11_frame_control_get_protected (frame_control h) then take (length bs - 16) (drop 8 bs) else bs)"

definition body_type :: "nat list \<Rightarrow> nat" where
  "body_type body = 256 * body ! 6 + body ! 7"

definition frame_payload :: "rx_mpdu \<Rightarrow> nat list" where
  "frame_payload m =
     (case dot11_hdr_at (view_data (m_view m)) of
        None \<Rightarrow> []
      | Some h \<Rightarrow> umac_datapath_generate_8023_header (dot11_get_da h) (dot11_get_sa_data h) (body_type (frame_body h m)) @ drop 8 (frame_body h m))"

definition frame_ccmp_header :: "rx_mpdu \<Rightarrow> nat list" where
  "frame_ccmp_header m =
     (case dot11_hdr_at (view_data (m_view m)) of
        None \<Rightarrow> [] | Some h \<Rightarrow> take 8 (drop (dot11_data_hdr_get_len h + 2) (view_data (m_view m))))"

text \<open>A whole unicast data frame for a TID with a sequence control, protected or not, that is neither a fragment nor for the supplicant.\<close>

definition data_frame :: "bool \<Rightarrow> nat \<Rightarrow> nat \<Rightarrow> rx_mpdu \<Rightarrow> bool" where
  "data_frame protected tid sc m \<longleftrightarrow>
     (\<exists>h qos. dot11_hdr_at (view_data (m_view m)) = Some h \<and> sequence_control h = sc
       \<and> dot11_sequence_control_get_fragment_number sc = 0 \<and> \<not> dot11_frame_control_get_more_fragments (frame_control h)
       \<and> dot11_frame_control_get_subtype (frame_control h) = DOT11_FC_SUBTYPE_QOS_DATA \<and> \<not> mm_mac_addr_is_multicast (addr1 h)
       \<and> \<not> mm_mac_addr_is_multicast (dot11_get_da h) \<and> \<not> mm_mac_addr_is_broadcast (dot11_get_da h)
       \<and> get_le16 (view_data (m_view m)) (dot11_data_hdr_get_len h) = Some qos \<and> dot11_qos_control_get_tid qos = tid
       \<and> dot11_frame_control_get_protected (frame_control h) = protected
       \<and> (protected \<longrightarrow> m_decrypted m \<and> length (view_data (m_view m)) \<ge> dot11_data_hdr_get_len h + 18)
       \<and> length (frame_body h m) \<ge> 8 \<and> take 6 (frame_body h m) = snap_802_1h
       \<and> body_type (frame_body h m) \<notin> {0, ETHERTYPE_EAPOL})"

definition connected_env :: "rx_env \<Rightarrow> bool" where
  "connected_env env \<longleftrightarrow> env_ops env \<and> env_connected env \<and> env_vif_known env \<and> env_callback env \<noteq> No_Callback"

lemma deliver_body:
  assumes "connected_env env" "dot11_hdr_at bs = Some h" "length (view_data view) \<ge> 8" "take 6 (view_data view) = snap_802_1h"
    "body_type (view_data view) \<notin> {0, ETHERTYPE_EAPOL}" "view_before view \<ge> 24"
  shows "\<exists>es. rx_deliver env tid h view s = Some (log_effects es s)
    \<and> delivered es = [Deliver tid (umac_datapath_generate_8023_header (dot11_get_da h) (dot11_get_sa_data h) (body_type (view_data view)) @ drop 8 (view_data view))]"
proof -
  have t: "umac_datapath_get_llc_ethertype view = body_type (view_data view)"
    using assms(3,4) by (simp add: umac_datapath_get_llc_ethertype_def umac_datapath_validate_buf_len_def mmpkt_get_data_length_def body_type_def)
  have "length (umac_datapath_generate_8023_header (dot11_get_da h) (dot11_get_sa_data h) e) \<le> 24" for e
    using hdr_at_lengths [OF assms(2)] by (simp add: umac_datapath_generate_8023_header_def)
  then have "length (umac_datapath_generate_8023_header (dot11_get_da h) (dot11_get_sa_data h) e) \<le> view_before view + 8" for e
    using assms(6) by (meson order.trans trans_le_add1)
  then show ?thesis using assms(1,3,5) t
    by (auto simp: rx_deliver_def umac_datapath_is_eapol_frame_def connected_env_def mmpkt_remove_from_start_def mmpkt_get_data_length_def
      mmpkt_prepend_data_def Let_def split: rx_callback.split)
qed

lemma and_high:
  assumes "sc < 65536" "dot11_sequence_control_get_fragment_number sc = 0"
  shows "and sc 0xfff0 = sc"
proof -
  have "(15::nat) = mask 4" by (simp add: mask_eq_exp_minus_1)
  then have "take_bit 4 sc = 0" using assms(2) by (simp add: dot11_sequence_control_get_fragment_number_def get_field_def take_bit_eq_mask)
  then obtain q where q: "sc = push_bit 4 q" "take_bit 12 q = q"
  proof -
    assume "take_bit 4 sc = 0"
    then have "sc = push_bit 4 (sc div 16)" by (simp add: take_bit_eq_mod push_bit_eq_mult minus_mod_eq_div_mult [symmetric])
    moreover have "take_bit 12 (sc div 16) = sc div 16" using assms(1) by (simp add: take_bit_eq_mod)
    ultimately show ?thesis using that by blast
  qed
  have "(0xfff0::nat) = push_bit 4 (mask 12)" by (simp add: mask_eq_exp_minus_1 push_bit_eq_mult)
  moreover have "and (push_bit 4 q) (push_bit 4 (mask 12)) = push_bit 4 (take_bit 12 q)" by (rule bit_eqI) (auto simp: bit_simps)
  ultimately show ?thesis using q by simp
qed

lemma get_le16_drop:
  assumes "n + 2 \<le> length bs"
  shows "get_le16 (take 2 (drop n bs)) 0 = get_le16 bs n"
  using assms by (simp add: get_le16_def)

lemma get_le16_length: "get_le16 bs n = Some v \<Longrightarrow> n + 2 \<le> length bs"
  by (auto simp: get_le16_def bind_eq_Some_conv fetch_eq_Some)

lemma unprotect_view:
  assumes "dot11_frame_control_get_protected (frame_control h)" "m_decrypted m" "16 \<le> length (view_data v)"
    "ccmp_is_valid (Some (take 8 (view_data v))) RX_COUNTER_SPACE_DEFAULT (rx_keys s) = Some (True, keys)"
  shows "rx_unprotect m h v s = Some (Some (v\<lparr>view_before := view_before v + 8,
    view_data := take (length (view_data v) - 16) (drop 8 (view_data v)), view_after := view_after v + 8\<rparr>), s\<lparr>rx_keys := keys\<rparr>)"
proof -
  have "\<not> length (view_data v) < 8" "\<not> length (view_data v) - 8 < 8" "length (view_data v) - 8 - 8 = length (view_data v) - 16"
    using assms(3) by simp_all
  then show ?thesis using assms(1,2,4)
    by (simp add: rx_unprotect_def Let_def mmpkt_remove_from_start_def mmpkt_remove_from_end_def mmpkt_get_data_length_def)
qed

text \<open>Such a frame is delivered, when it is protected, if its packet number is new.\<close>

lemma process_data:
  assumes "data_frame prot tid sc m" "tid < 6" "connected_env env" "prot \<or> env_open env"
    "if prot then ccmp_is_valid (Some (frame_ccmp_header m)) RX_COUNTER_SPACE_DEFAULT (rx_keys s) = Some (True, keys) else keys = rx_keys s"
    "umac_ba_set_expected_rx_seq_num tid (u16 (and sc 0xfff0 + 16)) (rx_ba s) = Some ba"
  shows "\<exists>es. umac_datapath_process_rx_data_frame_after_reorder env m s = Some (log_effects es (s\<lparr>rx_keys := keys, rx_ba := ba\<rparr>))
    \<and> delivered es = [Deliver tid (frame_payload m)]"
proof -
  let ?d = "view_data (m_view m)"
  obtain h qos where h: "dot11_hdr_at ?d = Some h" "sequence_control h = sc"
       "dot11_sequence_control_get_fragment_number sc = 0" "\<not> dot11_frame_control_get_more_fragments (frame_control h)"
       "dot11_frame_control_get_subtype (frame_control h) = 8" "\<not> mm_mac_addr_is_multicast (addr1 h)"
       "\<not> mm_mac_addr_is_multicast (dot11_get_da h)" "\<not> mm_mac_addr_is_broadcast (dot11_get_da h)"
       "get_le16 ?d (dot11_data_hdr_get_len h) = Some qos" "dot11_qos_control_get_tid qos = tid"
       "dot11_frame_control_get_protected (frame_control h) = prot"
       "prot \<longrightarrow> m_decrypted m \<and> length ?d \<ge> dot11_data_hdr_get_len h + 18"
       "length (frame_body h m) \<ge> 8" "take 6 (frame_body h m) = snap_802_1h" "body_type (frame_body h m) \<notin> {0, ETHERTYPE_EAPOL}"
    using assms(1) unfolding data_frame_def by blast
  let ?n = "dot11_data_hdr_get_len h"
  have len: "?n + 2 \<le> length ?d" "24 \<le> ?n" using get_le16_length [OF h(9)] by (simp_all add: dot11_data_hdr_get_len_def)
  let ?v1 = "m_view m\<lparr>view_before := view_before (m_view m) + ?n, view_data := drop ?n ?d\<rparr>"
  let ?v2 = "m_view m\<lparr>view_before := view_before (m_view m) + ?n + 2, view_data := drop (?n + 2) ?d\<rparr>"
  have start: "mmpkt_remove_from_start ?n (m_view m) = Some (take ?n ?d, ?v1)"
    using len by (simp add: mmpkt_remove_from_start_def mmpkt_get_data_length_def)
  have tid: "rx_tid_of h ?v1 = Some (tid, ?v2)"
    using len h(5,6,9,10) get_le16_drop [OF len(1)] by (simp add: rx_tid_of_def mmpkt_remove_from_start_def mmpkt_get_data_length_def)
  let ?s1 = "s\<lparr>rx_keys := keys\<rparr>"
  obtain v3 where v3: "rx_unprotect m h ?v2 s = Some (Some v3, ?s1)" "view_data v3 = frame_body h m" "view_before v3 \<ge> 24"
  proof (cases prot)
    case True
    then have long: "?n + 18 \<le> length ?d" using h(12) by simp
    have "frame_ccmp_header m = take 8 (drop (?n + 2) ?d)" by (simp add: frame_ccmp_header_def h(1))
    then have "ccmp_is_valid (Some (take 8 (drop (?n + 2) ?d))) RX_COUNTER_SPACE_DEFAULT (rx_keys s) = Some (True, keys)"
      using assms(5) True by simp
    then have v3: "rx_unprotect m h ?v2 s = Some (Some (?v2\<lparr>view_before := view_before ?v2 + 8,
      view_data := take (length (view_data ?v2) - 16) (drop 8 (view_data ?v2)), view_after := view_after ?v2 + 8\<rparr>), ?s1)"
      using True h(11,12) long by (intro unprotect_view) simp_all
    show ?thesis by (rule that [OF v3]) (use True h(11) len in \<open>simp_all add: frame_body_def Let_def\<close>)
  next
    case False
    then have v3: "rx_unprotect m h ?v2 s = Some (Some ?v2, ?s1)" using h(11) assms(5) by (simp add: rx_unprotect_def)
    show ?thesis by (rule that [OF v3]) (use False h(11) len in \<open>simp_all add: frame_body_def Let_def\<close>)
  qed
  let ?s2 = "?s1\<lparr>rx_ba := ba\<rparr>"
  have count: "rx_count_expected env tid h ?s1 = Some ?s2"
    using assms(2,4,6) h(2,4,11) by (simp add: rx_count_expected_def dot11_get_next_sequence_control_def)
  obtain es where es: "rx_deliver env tid h v3 ?s2 = Some (log_effects es ?s2)"
    "delivered es = [Deliver tid (umac_datapath_generate_8023_header (dot11_get_da h) (dot11_get_sa_data h) (body_type (view_data v3)) @ drop 8 (view_data v3))]"
    using deliver_body [OF assms(3) h(1) _ _ _ v3(3)] h(13-15) v3(2) by metis
  have "\<not> datapath_defrag_is_fragment h" using h(2-4) by (simp add: datapath_defrag_is_fragment_def)
  then have "rx_route env tid h (take ?n ?d) v3 ?s2 = Some (log_effects es ?s2)"
    using h(7,8) es(1) by (simp add: rx_route_def datapath_defrag_def)
  then have "umac_datapath_process_rx_data_frame_after_reorder env m s = Some (log_effects es ?s2)"
    using h(1,11) start tid v3(1) count assms(4) by (auto simp: umac_datapath_process_rx_data_frame_after_reorder_def)
  moreover have "delivered es = [Deliver tid (frame_payload m)]" using es(2) v3(2) h(1) by (simp add: frame_payload_def)
  ultimately show ?thesis by blast
qed

text \<open>The session of the window at the frame \<open>k\<close>.\<close>

definition session_at :: "nat \<Rightarrow> nat \<Rightarrow> nat \<Rightarrow> nat \<Rightarrow> umac_datapath_sta_data \<Rightarrow> bool" where
  "session_at tid maxlen first k s \<longleftrightarrow> (\<exists>b. get_session (RECIPIENT, tid) (rx_ba s) = Some b \<and> ba_status b = UMAC_BA_SUCCESS
     \<and> ba_buffer_size b = maxlen \<and> u16 (ba_next_expected_rx_seq_num b) = ba_next_expected_rx_seq_num b
     \<and> ba_next_expected_rx_seq_num b = u16 (16 * first + 16 * k))"

definition patient_env :: "nat \<Rightarrow> (nat \<Rightarrow> rx_mpdu) \<Rightarrow> rx_env \<Rightarrow> bool" where
  "patient_env n frame env \<longleftrightarrow> (\<forall>k<n. \<forall>j. \<not> mmosal_time_has_passed (env_now env j) (u32 (m_time (frame k) + RX_REORDER_TIMEOUT_MS)))"

lemma u16_fragment: "dot11_sequence_control_get_fragment_number (u16 (16 * a)) = 0"
proof -
  have "u16 (16 * a) = 16 * (a mod 4096)" using mult_mod_right [of 16 a 4096] by (simp add: u16_def)
  then have "take_bit 4 (u16 (16 * a)) = 0" by (simp add: take_bit_eq_mod)
  moreover have "(15::nat) = mask 4" by (simp add: mask_eq_exp_minus_1)
  ultimately show ?thesis by (simp add: dot11_sequence_control_get_fragment_number_def get_field_def take_bit_eq_mask)
qed

lemma next_sequence: "u16 (and (u16 (16 * first + 16 * j)) 0xfff0 + 16) = u16 (16 * first + 16 * Suc j)"
proof -
  have "and (u16 (16 * (first + j))) 0xfff0 = u16 (16 * (first + j))" by (rule and_high [OF u16_less u16_fragment])
  then have "u16 (and (u16 (16 * first + 16 * j)) 0xfff0 + 16) = u16 (u16 (16 * (first + j)) + 16)" by (simp add: algebra_simps)
  also have "\<dots> = u16 (16 * (first + j) + 16)" by (simp add: u16_def mod_add_left_eq)
  also have "16 * (first + j) + 16 = 16 * first + 16 * Suc j" by simp
  finally show ?thesis .
qed

lemma session_advance:
  assumes "session_at tid maxlen first k s" "tid < 6"
  shows "\<exists>ba. umac_ba_set_expected_rx_seq_num tid (u16 (16 * first + 16 * j)) (rx_ba s) = Some ba
    \<and> session_at tid maxlen first j (s'\<lparr>rx_ba := ba\<rparr>)"
  using assms by (auto simp: session_at_def umac_ba_set_expected_rx_seq_num_def fetch_eq_Some u16_id)

lemma session_expected:
  assumes "session_at tid maxlen first k s" "tid < 6" "maxlen \<le> 255"
  shows "umac_ba_get_expected_rx_seq_num tid (rx_ba s) = Some (Some (u16 (16 * first + 16 * k)))"
    "umac_ba_get_reorder_buffer_size tid (rx_ba s) = Some maxlen"
  using assms by (auto simp: session_at_def umac_ba_get_expected_rx_seq_num_def umac_ba_get_reorder_buffer_size_def)

lemma session_only: "session_at tid maxlen first k s \<Longrightarrow> rx_ba s' = rx_ba s \<Longrightarrow> session_at tid maxlen first k s'"
  by (simp add: session_at_def)

lemma data_frame_header:
  assumes "data_frame prot tid sc m"
  shows "\<exists>h qos. dot11_hdr_at (view_data (m_view m)) = Some h \<and> sequence_control h = sc
      \<and> dot11_frame_control_get_subtype (frame_control h) = DOT11_FC_SUBTYPE_QOS_DATA \<and> \<not> mm_mac_addr_is_multicast (addr1 h)
      \<and> get_le16 (view_data (m_view m)) (dot11_data_hdr_get_len h) = Some qos \<and> dot11_qos_control_get_tid qos = tid"
  using assms unfolding data_frame_def by blast

text \<open>An open network.\<close>

lemma open_window:
  assumes "n < 2048" "tid < 6" "0 < maxlen" "maxlen \<le> 255" "\<forall>k<n. data_frame False tid (u16 (16 * first + 16 * k)) (frame k)"
  shows "frame_window (\<lambda>env. connected_env env \<and> env_open env \<and> patient_env n frame env) frame (\<lambda>k. frame_payload (frame k)) (16 * first) n tid maxlen
    (session_at tid maxlen first)"
proof
  show "n < 2048" "tid < 6" "0 < maxlen" using assms by simp_all
  fix k assume "k < n"
  then show "\<exists>h qos. dot11_hdr_at (view_data (m_view (frame k))) = Some h \<and> sequence_control h = u16 (16 * first + 16 * k)
      \<and> dot11_frame_control_get_subtype (frame_control h) = DOT11_FC_SUBTYPE_QOS_DATA \<and> \<not> mm_mac_addr_is_multicast (addr1 h)
      \<and> get_le16 (view_data (m_view (frame k))) (dot11_data_hdr_get_len h) = Some qos \<and> dot11_qos_control_get_tid qos = tid"
    using data_frame_header assms(5) by blast
next
  fix env k s j
  assume env: "connected_env env \<and> env_open env \<and> patient_env n frame env" and s: "session_at tid maxlen first k s" and j: "k \<le> j" "j < n"
  obtain ba where ba: "umac_ba_set_expected_rx_seq_num tid (u16 (16 * first + 16 * Suc j)) (rx_ba s) = Some ba"
    "session_at tid maxlen first (Suc j) (s\<lparr>rx_ba := ba\<rparr>)"
    using session_advance [OF s assms(2)] by blast
  obtain es where es: "umac_datapath_process_rx_data_frame_after_reorder env (frame j) s = Some (log_effects es (s\<lparr>rx_keys := rx_keys s, rx_ba := ba\<rparr>))"
    "delivered es = [Deliver tid (frame_payload (frame j))]"
    using process_data [of False tid "u16 (16 * first + 16 * j)" "frame j" env s "rx_keys s" ba] assms(2,5) env j(2) ba(1) next_sequence by auto
  have "session_at tid maxlen first (Suc j) (log_effects es (s\<lparr>rx_keys := rx_keys s, rx_ba := ba\<rparr>))" by (rule session_only [OF ba(2)]) simp
  then show "\<exists>s' es. umac_datapath_process_rx_data_frame_after_reorder env (frame j) s = Some s' \<and> session_at tid maxlen first (Suc j) s'
        \<and> rx_log s' = rx_log s @ es \<and> delivered es = [Deliver tid (frame_payload (frame j))]
        \<and> rx_reorder_list s' = rx_reorder_list s \<and> rx_reorder_tid s' = rx_reorder_tid s \<and> rx_reorder_timers s' = rx_reorder_timers s"
    using es by (intro exI conjI) (assumption | simp)+
qed (use session_expected assms(2,4) session_only in \<open>auto simp: patient_env_def\<close>)

text \<open>A network with protected frames: their packet numbers rise with their sequence numbers.\<close>

definition counter_below :: "nat \<Rightarrow> (nat \<Rightarrow> nat) \<Rightarrow> nat \<Rightarrow> nat \<Rightarrow> umac_datapath_sta_data \<Rightarrow> bool" where
  "counter_below key_id pn n k s \<longleftrightarrow> keys_ok (rx_keys s) \<and> (\<exists>key. keymap (rx_keys s) key_id = Some key \<and> fst key \<noteq> UMAC_KEY_TYPE_BLANK
     \<and> (\<forall>i. k \<le> i \<longrightarrow> i < n \<longrightarrow> rx_counter key RX_COUNTER_SPACE_DEFAULT < pn i))"

definition numbered :: "nat \<Rightarrow> (nat \<Rightarrow> nat) \<Rightarrow> nat \<Rightarrow> (nat \<Rightarrow> rx_mpdu) \<Rightarrow> bool" where
  "numbered key_id pn n frame \<longleftrightarrow> (\<forall>k<n. header_ok (frame_ccmp_header (frame k)) \<and> parse_ccmp_key_id (frame_ccmp_header (frame k)) = Some key_id
     \<and> parse_ccmp_packet_number (frame_ccmp_header (frame k)) = Some (pn k)) \<and> (\<forall>j<n. \<forall>k<j. pn k < pn j)"

lemma counter_only: "counter_below key_id pn n k s \<Longrightarrow> rx_keys s' = rx_keys s \<Longrightarrow> counter_below key_id pn n k s'"
  by (simp add: counter_below_def)

lemma counter_accepts:
  assumes "counter_below key_id pn n k s" "numbered key_id pn n frame" "k \<le> j" "j < n"
  obtains keys where "ccmp_is_valid (Some (frame_ccmp_header (frame j))) RX_COUNTER_SPACE_DEFAULT (rx_keys s) = Some (True, keys)"
    "counter_below key_id pn n (Suc j) (s\<lparr>rx_keys := keys\<rparr>)"
proof -
  let ?h = "frame_ccmp_header (frame j)"
  have h: "header_ok ?h" "parse_ccmp_key_id ?h = Some key_id" "parse_ccmp_packet_number ?h = Some (pn j)"
    using assms(2,4) by (simp_all add: numbered_def)
  obtain key where keys: "keys_ok (rx_keys s)" and key: "keymap (rx_keys s) key_id = Some key" "fst key \<noteq> UMAC_KEY_TYPE_BLANK"
    "\<And>i. k \<le> i \<Longrightarrow> i < n \<Longrightarrow> rx_counter key RX_COUNTER_SPACE_DEFAULT < pn i"
    using assms(1) by (auto simp: counter_below_def)
  have new: "rx_counter key RX_COUNTER_SPACE_DEFAULT < pn j" using key(3) assms(3,4) by simp
  obtain d' where d': "ccmp_is_valid (Some ?h) RX_COUNTER_SPACE_DEFAULT (rx_keys s) = Some (True, d')" "keys_ok d'"
    "keymap d' = (keymap (rx_keys s))(key_id \<mapsto> count_rx RX_COUNTER_SPACE_DEFAULT (pn j) key)"
    by (rule ccmp_ok [OF keys h(1), of RX_COUNTER_SPACE_DEFAULT]) (use h(2,3) key(1,2) new in auto)
  have "rx_counter (count_rx RX_COUNTER_SPACE_DEFAULT (pn j) key) RX_COUNTER_SPACE_DEFAULT = pn j"
    using rx_counter_count [OF keymap_counters [OF keys key(1)]] by simp
  moreover have "fst (count_rx RX_COUNTER_SPACE_DEFAULT (pn j) key) = fst key" by (cases key) (simp add: count_rx_def)
  moreover have "pn j < pn i" if "Suc j \<le> i" "i < n" for i using assms(2) that by (simp add: numbered_def)
  ultimately have "counter_below key_id pn n (Suc j) (s\<lparr>rx_keys := d'\<rparr>)" using d'(2,3) key(2) by (simp add: counter_below_def)
  then show ?thesis using that d'(1) by blast
qed

lemma protected_window:
  assumes "n < 2048" "tid < 6" "0 < maxlen" "maxlen \<le> 255" "\<forall>k<n. data_frame True tid (u16 (16 * first + 16 * k)) (frame k)"
    "numbered key_id pn n frame"
  shows "frame_window (\<lambda>env. connected_env env \<and> patient_env n frame env) frame (\<lambda>k. frame_payload (frame k)) (16 * first) n tid maxlen
    (\<lambda>k s. session_at tid maxlen first k s \<and> counter_below key_id pn n k s)"
proof
  show "n < 2048" "tid < 6" "0 < maxlen" using assms by simp_all
  fix k assume "k < n"
  then show "\<exists>h qos. dot11_hdr_at (view_data (m_view (frame k))) = Some h \<and> sequence_control h = u16 (16 * first + 16 * k)
      \<and> dot11_frame_control_get_subtype (frame_control h) = DOT11_FC_SUBTYPE_QOS_DATA \<and> \<not> mm_mac_addr_is_multicast (addr1 h)
      \<and> get_le16 (view_data (m_view (frame k))) (dot11_data_hdr_get_len h) = Some qos \<and> dot11_qos_control_get_tid qos = tid"
    using data_frame_header assms(5) by blast
next
  fix env k s j
  assume env: "connected_env env \<and> patient_env n frame env" and s: "session_at tid maxlen first k s \<and> counter_below key_id pn n k s"
    and j: "k \<le> j" "j < n"
  obtain ba where ba: "umac_ba_set_expected_rx_seq_num tid (u16 (16 * first + 16 * Suc j)) (rx_ba s) = Some ba"
    "session_at tid maxlen first (Suc j) (s\<lparr>rx_ba := ba\<rparr>)"
    using session_advance [OF conjunct1 [OF s] assms(2)] by blast
  obtain keys where keys: "ccmp_is_valid (Some (frame_ccmp_header (frame j))) RX_COUNTER_SPACE_DEFAULT (rx_keys s) = Some (True, keys)"
    "counter_below key_id pn n (Suc j) (s\<lparr>rx_keys := keys\<rparr>)"
    using counter_accepts [OF conjunct2 [OF s] assms(6) j] by blast
  obtain es where es: "umac_datapath_process_rx_data_frame_after_reorder env (frame j) s = Some (log_effects es (s\<lparr>rx_keys := keys, rx_ba := ba\<rparr>))"
    "delivered es = [Deliver tid (frame_payload (frame j))]"
    using process_data [of True tid "u16 (16 * first + 16 * j)" "frame j" env s keys ba] assms(2,5) env j(2) keys(1) ba(1) next_sequence by auto
  have "session_at tid maxlen first (Suc j) (log_effects es (s\<lparr>rx_keys := keys, rx_ba := ba\<rparr>))"
    "counter_below key_id pn n (Suc j) (log_effects es (s\<lparr>rx_keys := keys, rx_ba := ba\<rparr>))"
    by (rule session_only [OF ba(2)], simp, rule counter_only [OF keys(2)], simp)
  then show "\<exists>s' es. umac_datapath_process_rx_data_frame_after_reorder env (frame j) s = Some s'
        \<and> (session_at tid maxlen first (Suc j) s' \<and> counter_below key_id pn n (Suc j) s')
        \<and> rx_log s' = rx_log s @ es \<and> delivered es = [Deliver tid (frame_payload (frame j))]
        \<and> rx_reorder_list s' = rx_reorder_list s \<and> rx_reorder_tid s' = rx_reorder_tid s \<and> rx_reorder_timers s' = rx_reorder_timers s"
    using es by (intro exI conjI) (assumption | simp)+
qed (use session_expected assms(2,4) session_only counter_only in \<open>auto simp: patient_env_def\<close>)

subsection \<open>Sample frames\<close>

text \<open>The window of eight sample frames, in an open network.\<close>

lemma sample_data_frame:
  assumes "k < 4096" "bs \<noteq> []"
  shows "data_frame False 2 (u16 (16 * 0 + 16 * k)) (sample_frame 2 k bs)"
proof -
  have n: "u16 (16 * 0 + 16 * k) = 16 * k mod 256 + 256 * (k div 16)"
  proof -
    have "16 * k mod 256 = 16 * (k mod 16)" using mult_mod_right [of 16 k 16] by simp
    then have "16 * k mod 256 + 256 * (k div 16) = 16 * (k mod 16 + 16 * (k div 16))" by (simp only: distrib_left)
    then have "16 * k mod 256 + 256 * (k div 16) = 16 * k" by simp
    then show ?thesis using assms(1) by (simp add: u16_def)
  qed
  let ?h = "\<lparr>frame_control = 0x288, addr1 = [2, 0, 0, 0, 0, 1], addr2 = [2, 0, 0, 0, 0, 2],
     addr3 = [2, 0, 0, 0, 0, 3], sequence_control = 16 * k mod 256 + 256 * (k div 16), addr4 = [2, 0, 0xAA, 0xAA, 3, 0]\<rparr>"
  have body: "frame_body ?h (sample_frame 2 k bs) = snap_802_1h @ [8, 0] @ bs"
    by (simp add: frame_body_def dot11_data_hdr_get_len_def sample_frame_def)
  have "dot11_sequence_control_get_fragment_number (16 * k mod 256 + 256 * (k div 16)) = 0" using u16_fragment [of k] n by simp
  then show ?thesis
    unfolding data_frame_def sample_header
    by (intro exI [of _ ?h] exI [of _ 2], unfold body n)
      (simp add: dot11_data_hdr_get_len_def dot11_get_da_def mm_mac_addr_is_multicast_def mm_mac_addr_is_broadcast_def
        sample_frame_def get_le16_def fetch_def dot11_qos_control_get_tid_def get_field_def snap_802_1h_def body_type_def)
qed

lemma sample_env_patient: "(\<And>k. k < n \<Longrightarrow> m_time (frame k) = 0) \<Longrightarrow> patient_env n frame sample_env"
  by (simp add: patient_env_def sample_env_def mmosal_time_has_passed_def mmosal_time_le_def sub32_def s32_def u32_def)

interpretation sample_window: frame_window
  "\<lambda>env. connected_env env \<and> env_open env \<and> patient_env 8 (\<lambda>k. sample_frame 2 k [k]) env" "\<lambda>k. sample_frame 2 k [k]"
  "\<lambda>k. frame_payload (sample_frame 2 k [k])" "16 * 0" 8 2 16 "session_at 2 16 0"
  by (rule open_window) (simp_all add: sample_data_frame [simplified])

lemma session_started:
  assumes "tid < 6"
  shows "session_at tid n 0 0 (with_session tid n idle_station)"
  using assms by (simp add: session_at_def with_session_def idle_station_def umac_ba_deinit_def zero_session_def fetch_eq_Some u16_def)

subsection \<open>Delivery in order\<close>

text \<open>In an open network the frames of a session are delivered in order and once each: whatever the order in which frames of a window no larger
  than the reorder list arrive, and however often each, what the network stack has got after them are the Ethernet frames of the longest run of
  consecutive frames that arrived, and the list holds the rest in order.\<close>

theorem open_network_in_order:
  assumes "\<forall>k<n. data_frame False tid (u16 (16 * first + 16 * k)) (frame k)" "n \<le> maxlen" "0 < maxlen" "maxlen \<le> 255" "tid < 6"
    "session_at tid maxlen first 0 s" "rx_reorder_list s = []"
    "\<forall>(env, k)\<in>set ops. (connected_env env \<and> env_open env \<and> patient_env n frame env) \<and> k < n"
  shows "\<exists>s' e. foldM (\<lambda>(env, k). umac_datapath_process_rx_data_frame env (frame k)) ops s = Some s'
    \<and> delivered (rx_log s') = delivered (rx_log s) @ List.map (\<lambda>k. Deliver tid (frame_payload (frame k))) [0..<e]
    \<and> {..<e} \<subseteq> snd ` set ops \<and> e \<notin> snd ` set ops
    \<and> rx_reorder_list s' = List.map frame (filter (\<lambda>k. e < k \<and> k \<in> snd ` set ops) [0..<n])"
  using frame_window.in_order [OF open_window] assms by force

theorem open_network_in_order_witness:
  "\<exists>s' e. foldM (\<lambda>(env, k). umac_datapath_process_rx_data_frame env (sample_frame 2 k [k])) [(sample_env, 2), (sample_env, 1), (sample_env, 2), (sample_env, 0)]
      (with_session 2 16 idle_station) = Some s'
    \<and> delivered (rx_log s') = delivered (rx_log (with_session 2 16 idle_station)) @ List.map (\<lambda>k. Deliver 2 (frame_payload (sample_frame 2 k [k]))) [0..<e]
    \<and> {..<e} \<subseteq> snd ` set [(sample_env, 2), (sample_env, 1), (sample_env, 2), (sample_env, 0)]
    \<and> e \<notin> snd ` set [(sample_env, 2), (sample_env, 1), (sample_env, 2), (sample_env, 0)]
    \<and> rx_reorder_list s' = List.map (\<lambda>k. sample_frame 2 k [k])
        (filter (\<lambda>k. e < k \<and> k \<in> snd ` set [(sample_env, 2), (sample_env, 1), (sample_env, 2), (sample_env, 0)]) [0..<8])"
proof (rule open_network_in_order [where first = 0 and maxlen = 16])
  show "\<forall>k<8. data_frame False 2 (u16 (16 * 0 + 16 * k)) (sample_frame 2 k [k])" using sample_data_frame by simp
  have "patient_env 8 (\<lambda>k. sample_frame 2 k [k]) sample_env" by (rule sample_env_patient) (simp add: sample_frame_def)
  then show "\<forall>(env, k)\<in>set [(sample_env, 2 :: nat), (sample_env, 1), (sample_env, 2), (sample_env, 0)].
      (connected_env env \<and> env_open env \<and> patient_env 8 (\<lambda>k. sample_frame 2 k [k]) env) \<and> k < 8"
    by (simp add: connected_env_def sample_env_def)
qed (simp_all add: session_started, simp add: with_session_def idle_station_def)

text \<open>C22. The same holds for protected frames, whose packet numbers rise with their sequence numbers: the replay check behind the reorder list lets
  all of them pass, in whatever order they arrive, and none twice.\<close>

theorem protected_network_in_order:
  assumes "\<forall>k<n. data_frame True tid (u16 (16 * first + 16 * k)) (frame k)" "numbered key_id pn n frame"
    "n \<le> maxlen" "0 < maxlen" "maxlen \<le> 255" "tid < 6"
    "session_at tid maxlen first 0 s" "counter_below key_id pn n 0 s" "rx_reorder_list s = []"
    "\<forall>(env, k)\<in>set ops. (connected_env env \<and> patient_env n frame env) \<and> k < n"
  shows "\<exists>s' e. foldM (\<lambda>(env, k). umac_datapath_process_rx_data_frame env (frame k)) ops s = Some s'
    \<and> delivered (rx_log s') = delivered (rx_log s) @ List.map (\<lambda>k. Deliver tid (frame_payload (frame k))) [0..<e]
    \<and> {..<e} \<subseteq> snd ` set ops \<and> e \<notin> snd ` set ops
    \<and> rx_reorder_list s' = List.map frame (filter (\<lambda>k. e < k \<and> k \<in> snd ` set ops) [0..<n])"
  using frame_window.in_order [OF protected_window] assms by force

text \<open>Protected frames, with the packet number after the sequence number.\<close>

definition sample_protected :: "nat \<Rightarrow> rx_mpdu" where
  "sample_protected k = \<lparr>m_view = \<lparr>view_before = 0, view_data = [0x88, 0x42, 0, 0] @ [2, 0, 0, 0, 0, 1] @ [2, 0, 0, 0, 0, 2] @ [2, 0, 0, 0, 0, 3]
     @ [16 * k, 0] @ [2, 0] @ [k + 1, 0, 0, 0x60, 0, 0, 0, 0] @ snap_802_1h @ [8, 0, k] @ replicate 8 0, view_after = 0\<rparr>, m_decrypted = True, m_time = 0\<rparr>"

lemma sample_protected_header:
  "dot11_hdr_at (view_data (m_view (sample_protected k))) = Some \<lparr>frame_control = 0x4288, addr1 = [2, 0, 0, 0, 0, 1], addr2 = [2, 0, 0, 0, 0, 2],
     addr3 = [2, 0, 0, 0, 0, 3], sequence_control = 16 * k, addr4 = [2, 0, k + 1, 0, 0, 0x60]\<rparr>"
  by (simp add: dot11_hdr_at_def sample_protected_def get_le16_def fetch_def)

lemma fc_protected [simp]:
  "dot11_frame_control_get_type 0x4288 = 2" "dot11_frame_control_get_subtype 0x4288 = 8" "\<not> dot11_frame_control_get_to_ds 0x4288"
  "\<not> dot11_frame_control_get_more_fragments 0x4288" "dot11_frame_control_get_protected 0x4288" "\<not> dot11_is_4addr_hdr 0x4288"
  by (simp_all add: dot11_frame_control_get_type_def dot11_frame_control_get_subtype_def dot11_frame_control_get_to_ds_def
    dot11_frame_control_get_from_ds_def dot11_frame_control_get_more_fragments_def dot11_frame_control_get_protected_def dot11_is_4addr_hdr_def get_field_def)

lemma sample_protected_frame:
  assumes "k < 8"
  shows "data_frame True 2 (u16 (16 * 0 + 16 * k)) (sample_protected k)"
proof -
  have n: "u16 (16 * 0 + 16 * k) = 16 * k" using assms by (simp add: u16_def)
  let ?h = "\<lparr>frame_control = 0x4288, addr1 = [2, 0, 0, 0, 0, 1], addr2 = [2, 0, 0, 0, 0, 2],
     addr3 = [2, 0, 0, 0, 0, 3], sequence_control = 16 * k, addr4 = [2, 0, k + 1, 0, 0, 0x60]\<rparr>"
  have body: "frame_body ?h (sample_protected k) = snap_802_1h @ [8, 0, k]"
    by (simp add: frame_body_def dot11_data_hdr_get_len_def sample_protected_def snap_802_1h_def)
  have "dot11_sequence_control_get_fragment_number (16 * k) = 0" using u16_fragment [of k] n by simp
  then show ?thesis
    unfolding data_frame_def sample_protected_header
    by (intro exI [of _ ?h] exI [of _ 2], unfold body n)
      (simp add: dot11_data_hdr_get_len_def dot11_get_da_def mm_mac_addr_is_multicast_def mm_mac_addr_is_broadcast_def
        sample_protected_def get_le16_def fetch_def dot11_qos_control_get_tid_def get_field_def snap_802_1h_def body_type_def)
qed

lemma sample_protected_numbered: "numbered 1 (\<lambda>k. k + 1) 8 sample_protected"
proof -
  have "frame_ccmp_header (sample_protected k) = [k + 1, 0, 0, 0x60, 0, 0, 0, 0]" for k
    by (simp add: frame_ccmp_header_def sample_protected_header dot11_data_hdr_get_len_def) (simp add: sample_protected_def)
  then show ?thesis by (simp add: numbered_def header_ok_def parse_ccmp_key_id_def parse_ccmp_packet_number_def fetch_def)
qed

theorem protected_network_in_order_witness:
  "\<exists>s s' e. foldM (\<lambda>(env, k). umac_datapath_process_rx_data_frame env (sample_protected k)) [(sample_env, 1), (sample_env, 0), (sample_env, 1)] s = Some s'
    \<and> delivered (rx_log s') = delivered (rx_log s) @ List.map (\<lambda>k. Deliver 2 (frame_payload (sample_protected k))) [0..<e]
    \<and> {..<e} \<subseteq> snd ` set [(sample_env, 1), (sample_env, 0), (sample_env, 1)] \<and> e \<notin> snd ` set [(sample_env, 1), (sample_env, 0), (sample_env, 1)]
    \<and> rx_reorder_list s' = List.map sample_protected (filter (\<lambda>k. e < k \<and> k \<in> snd ` set [(sample_env, 1), (sample_env, 0), (sample_env, 1)]) [0..<8])"
proof -
  obtain d where d: "keys_ok d" "keymap d = [1 \<mapsto> (UMAC_KEY_TYPE_PAIRWISE, replicate 16 0, [0, 0], 0)]" using sample_keychain by blast
  let ?s = "(with_session 2 16 idle_station)\<lparr>rx_keys := d\<rparr>"
  have "session_at 2 16 0 0 ?s" by (rule session_only [OF session_started]) simp_all
  moreover have "counter_below 1 (\<lambda>k. k + 1) 8 0 ?s" using d by (simp add: counter_below_def rx_counter_def)
  moreover have "patient_env 8 sample_protected sample_env" by (rule sample_env_patient) (simp add: sample_protected_def)
  moreover have "rx_reorder_list ?s = []" by (simp add: with_session_def idle_station_def)
  moreover have "connected_env sample_env" by (simp add: connected_env_def sample_env_def)
  moreover have "\<forall>k<8. data_frame True 2 (u16 (16 * 0 + 16 * k)) (sample_protected k)" using sample_protected_frame by simp
  ultimately show ?thesis
    by (intro exI [where P = "\<lambda>s. \<exists>s' e. Q s s' e" for Q, of _ ?s] protected_network_in_order [where first = 0 and key_id = 1 and pn = "\<lambda>k. k + 1"])
      (simp_all add: sample_protected_numbered [simplified])
qed

text \<open>A full list breaks the order: to make room it delivers its first frame although an earlier one is missing, and then puts a new frame that belongs
  in front of the second behind it. The missing frame is dropped when it comes.\<close>

theorem full_list_breaks_order:
  assumes "\<forall>k<n. data_frame False tid (u16 (16 * first + 16 * k)) (frame k)" "n < 2048" "0 < maxlen" "maxlen \<le> 255" "tid < 6"
    "session_at tid maxlen first e s" "rx_reorder_tid s = tid" "rx_reorder_list s = List.map frame (a # b # ks)" "maxlen \<le> length (a # b # ks)"
    "sorted_wrt (<) (e # a # b # ks)" "\<forall>k\<in>set (a # b # ks). k < n" "a < k" "k < b"
    "connected_env env" "env_open env" "patient_env n frame env"
  shows "\<exists>s' s'' es es'. umac_datapath_process_rx_data_frame env (frame k) s = Some s' \<and> rx_reorder_list s' = List.map frame (b # k # ks)
    \<and> rx_log s' = rx_log s @ es \<and> delivered es = [Deliver tid (frame_payload (frame a))]
    \<and> umac_datapath_process_rx_data_frame env (frame e) s' = Some s'' \<and> rx_log s'' = rx_log s' @ es' \<and> delivered es' = []"
proof -
  note window = open_window [OF assms(2,5,3,4,1)]
  have "a < n" "e < a" using assms(10,11) by simp_all
  moreover have "{..<e} \<subseteq> {..<n}" using calculation by auto
  moreover have "set (a # b # ks) = {x \<in> {..<e} \<union> set (a # b # ks). e < x}" using assms(10) by auto
  ultimately have "frame_window.waiting frame n tid (session_at tid maxlen first) ({..<e} \<union> set (a # b # ks)) e (a # b # ks) s"
    using assms(6-8,10,11) by (auto simp: frame_window.waiting_def [OF window])
  then show ?thesis using frame_window.full_list [OF window] assms(9,12-) by blast
qed

theorem full_list_breaks_order_witness:
  "\<exists>s' s'' es es'. umac_datapath_process_rx_data_frame sample_env (sample_frame 2 3 [3])
      ((with_session 2 2 idle_station)\<lparr>rx_reorder_list := List.map (\<lambda>k. sample_frame 2 k [k]) [2, 5]\<rparr>) = Some s'
    \<and> rx_reorder_list s' = List.map (\<lambda>k. sample_frame 2 k [k]) [5, 3]
    \<and> rx_log s' = rx_log ((with_session 2 2 idle_station)\<lparr>rx_reorder_list := List.map (\<lambda>k. sample_frame 2 k [k]) [2, 5]\<rparr>) @ es
    \<and> delivered es = [Deliver 2 (frame_payload (sample_frame 2 2 [2]))]
    \<and> umac_datapath_process_rx_data_frame sample_env (sample_frame 2 0 [0]) s' = Some s'' \<and> rx_log s'' = rx_log s' @ es' \<and> delivered es' = []"
proof -
  have "session_at 2 2 0 0 ((with_session 2 2 idle_station)\<lparr>rx_reorder_list := List.map (\<lambda>k. sample_frame 2 k [k]) [2, 5]\<rparr>)"
    by (rule session_only [OF session_started]) simp_all
  moreover have "patient_env 8 (\<lambda>k. sample_frame 2 k [k]) sample_env" by (rule sample_env_patient) (simp add: sample_frame_def)
  moreover have "\<forall>k<8. data_frame False 2 (u16 (16 * 0 + 16 * k)) (sample_frame 2 k [k])" using sample_data_frame by simp
  ultimately show ?thesis
    using full_list_breaks_order [of 8 2 0 "\<lambda>k. sample_frame 2 k [k]" 2 0 "(with_session 2 2 idle_station)\<lparr>rx_reorder_list := List.map (\<lambda>k. sample_frame 2 k [k]) [2, 5]\<rparr>"
        2 5 "[]" 3 sample_env]
    by (simp add: with_session_def connected_env_def sample_env_def)
qed

subsection \<open>Timeouts of the list\<close>

context frame_window
begin

text \<open>Two frames in the wrong order.\<close>

lemma swapped_pair:
  assumes "ready e s" "rx_reorder_list s = []" "Suc e < n" "good env" "env_timer_ok env (length (rx_log s))"
  shows "\<exists>s'. foldM (\<lambda>k. umac_datapath_process_rx_data_frame env (frame k)) [Suc e, e] s = Some s' \<and> ready (Suc (Suc e)) s'
    \<and> rx_reorder_list s' = [] \<and> rx_reorder_timers s' = Suc (rx_reorder_timers s)"
proof -
  let ?s = "s\<lparr>rx_reorder_tid := tid, rx_reorder_timers := Suc (rx_reorder_timers s), rx_reorder_list := [frame (Suc e)]\<rparr>"
  have first: "umac_datapath_process_rx_data_frame env (frame (Suc e)) s = Some ?s"
    using process_frame [OF assms(1) _ assms(3), of env] assms(2,3,5)
    by (simp add: Let_def umac_datapath_add_rx_mpdu_to_reorder_list_def register_reorder_timeout_def)
  have "ready e ?s" using ready_only [OF assms(1), of ?s] by simp
  then obtain s1 es where s1: "umac_datapath_process_rx_data_frame_after_reorder env (frame e) ?s = Some s1" "ready (Suc e) s1"
    "rx_reorder_list s1 = [frame (Suc e)]" "rx_reorder_tid s1 = tid" "rx_reorder_timers s1 = Suc (rx_reorder_timers s)"
    using accept [OF assms(4), of e ?s e] assms(3) by auto
  obtain s2 es2 where s2: "umac_datapath_process_rx_data_frame_after_reorder env (frame (Suc e)) s1 = Some s2" "ready (Suc (Suc e)) s2"
    "rx_reorder_timers s2 = Suc (rx_reorder_timers s)"
    using accept [OF assms(4) s1(2), of "Suc e"] assms(3) s1(5) by auto
  obtain h where h: "dot11_hdr_at (view_data (m_view (frame (Suc e)))) = Some h" "sequence_control h = u16 (first + 16 * Suc e)"
    by (rule frame_number [OF assms(3)]) blast
  have same: "?s\<lparr>rx_reorder_tid := tid\<rparr> = ?s" by (cases s) simp
  have "umac_datapath_process_rx_data_frame env (frame e) ?s
      = do { s \<leftarrow> umac_datapath_process_rx_data_frame_after_reorder env (frame e) ?s; umac_datapath_evaluate_rx_reorder_list env s }"
    using process_frame [OF \<open>ready e ?s\<close>, of e env] assms(3) unfolding Let_def same by simp
  then have "umac_datapath_process_rx_data_frame env (frame e) ?s = Some (s2\<lparr>rx_reorder_list := []\<rparr>)"
    using s1(1,3,4) h s2(1) expected [OF s1(2)] by (simp add: Let_def umac_datapath_evaluate_rx_reorder_list_def)
  then show ?thesis using first s2 by simp
qed

lemma swapped_pairs:
  assumes "ready 0 s" "rx_reorder_list s = []" "2 * p \<le> n" "good env" "\<forall>i. env_timer_ok env i"
  shows "\<exists>s'. foldM (\<lambda>k. umac_datapath_process_rx_data_frame env (frame k)) (concat (List.map (\<lambda>i. [2 * i + 1, 2 * i]) [0..<p])) s = Some s'
    \<and> ready (2 * p) s' \<and> rx_reorder_list s' = [] \<and> rx_reorder_timers s' = rx_reorder_timers s + p"
  using assms(3)
proof (induction p)
  case 0
  then show ?case using assms(1,2) by simp
next
  case (Suc p)
  then obtain s1 where s1: "foldM (\<lambda>k. umac_datapath_process_rx_data_frame env (frame k)) (concat (List.map (\<lambda>i. [2 * i + 1, 2 * i]) [0..<p])) s = Some s1"
    "ready (2 * p) s1" "rx_reorder_list s1 = []" "rx_reorder_timers s1 = rx_reorder_timers s + p" by auto
  obtain s2 where "foldM (\<lambda>k. umac_datapath_process_rx_data_frame env (frame k)) [Suc (2 * p), 2 * p] s1 = Some s2" "ready (Suc (Suc (2 * p))) s2"
    "rx_reorder_list s2 = []" "rx_reorder_timers s2 = Suc (rx_reorder_timers s1)"
    using swapped_pair [OF s1(2,3) _ assms(4)] Suc.prems assms(5) by auto
  then show ?case using s1(1,4) by (simp add: foldM_append)
qed

end

text \<open>The timeouts of the list accumulate: each time a frame enters the empty list one more is registered, and none is cancelled when the list
  is empty again. After \<open>p\<close> pairs of swapped frames the list is empty and \<open>p\<close> timeouts are registered, of the few the core has for everything.\<close>

theorem reorder_timeouts_accumulate:
  assumes "\<forall>k<2 * p. data_frame False tid (u16 (16 * first + 16 * k)) (frame k)" "2 * p < 2048" "0 < maxlen" "maxlen \<le> 255" "tid < 6"
    "session_at tid maxlen first 0 s" "rx_reorder_list s = []" "connected_env env" "env_open env" "patient_env (2 * p) frame env"
    "\<forall>i. env_timer_ok env i"
  shows "\<exists>s'. foldM (\<lambda>k. umac_datapath_process_rx_data_frame env (frame k)) (concat (List.map (\<lambda>i. [2 * i + 1, 2 * i]) [0..<p])) s = Some s'
    \<and> rx_reorder_list s' = [] \<and> rx_reorder_timers s' = rx_reorder_timers s + p"
  using frame_window.swapped_pairs [OF open_window [OF assms(2,5,3,4,1)], of s p env] assms(6-) by auto

theorem reorder_timeouts_accumulate_witness:
  "\<exists>s'. foldM (\<lambda>k. umac_datapath_process_rx_data_frame sample_env (sample_frame 2 k [k])) (concat (List.map (\<lambda>i. [2 * i + 1, 2 * i]) [0..<30]))
      (with_session 2 16 idle_station) = Some s'
    \<and> rx_reorder_list s' = [] \<and> rx_reorder_timers s' = rx_reorder_timers (with_session 2 16 idle_station) + 30"
proof (rule reorder_timeouts_accumulate [where first = 0 and tid = 2 and maxlen = 16])
  show "\<forall>k<2 * 30. data_frame False 2 (u16 (16 * 0 + 16 * k)) (sample_frame 2 k [k])" using sample_data_frame by simp
  show "patient_env (2 * 30) (\<lambda>k. sample_frame 2 k [k]) sample_env" by (rule sample_env_patient) (simp add: sample_frame_def)
  show "session_at 2 16 0 0 (with_session 2 16 idle_station)" by (rule session_started) simp
qed (simp_all add: connected_env_def sample_env_def with_session_def idle_station_def)

subsection \<open>New sessions\<close>

lemma accepted_request:
  assumes "umac_ba_rx_addba_req False True True maxlen field d = Some (d', e)" "get_session (RECIPIENT, tid) d = Some b"
    "ba_status b = UMAC_BA_DISABLED" "length field = 9" "get_le16 field 3 = Some p" "dot11_ba_parameter_set_field_get_tid p = tid" "tid < 6"
    "dot11_ba_parameter_set_field_get_ba_policy p = DOT11_BA_POLICY_IMMEDIATE"
  shows "\<exists>b'. get_session (RECIPIENT, tid) d' = Some b' \<and> ba_status b' = UMAC_BA_SUCCESS
    \<and> ba_buffer_size b' = min (dot11_ba_parameter_set_field_get_buffer_size p) (u16 maxlen)
    \<and> ba_next_expected_rx_seq_num b' = ba_next_expected_rx_seq_num b"
  using assms by (auto simp: umac_ba_rx_addba_req_def umac_ba_tx_addba_resp_def Let_def bind_eq_Some_conv fetch_eq_Some)

text \<open>A new session does not start at the sequence control that the request for it announces, but where the previous session of the TID ended, or
  at zero. When that is ahead of the announced one by less than half of the numbers, the station acknowledges the first frames of the session and drops them.\<close>

theorem new_session_drops_first_frame:
  assumes "ba_ok maxlen (rx_ba s)" "0 < maxlen" "maxlen \<le> 255" "get_session (RECIPIENT, tid) (rx_ba s) = Some b" "ba_status b = UMAC_BA_DISABLED"
    "length field = 9" "field ! 1 = DOT11_BA_ACTION_NDP_ADDBA_REQ" "get_le16 field 3 = Some p" "dot11_ba_parameter_set_field_get_tid p = tid" "tid < 6"
    "dot11_ba_parameter_set_field_get_ba_policy p = DOT11_BA_POLICY_IMMEDIATE" "0 < dot11_ba_parameter_set_field_get_buffer_size p"
    "get_le16 field 7 = Some ssc" "data_frame prot tid ssc m" "dot11_sequence_control_lt ssc (u16 (ba_next_expected_rx_seq_num b))"
    "rx_reorder_tid s = tid"
  shows "\<exists>ba answer. umac_ba_process_rx_frame False True True True maxlen field (rx_ba s) = Some (ba, [Tx_Action answer])
    \<and> umac_datapath_process_rx_data_frame env m (s\<lparr>rx_ba := ba\<rparr>) = Some (log_effects [Released] (s\<lparr>rx_ba := ba\<rparr>))"
proof -
  have process: "umac_ba_process_rx_frame False True True True maxlen field (rx_ba s) = umac_ba_rx_addba_req False True True maxlen field (rx_ba s)"
    using assms(6,7) by (simp add: umac_ba_process_rx_frame_def)
  obtain c where c: "get_le16 field 5 = Some c" using get_le16_Some [of 5 field] assms(6) by auto
  obtain ba answer where ba: "umac_ba_rx_addba_req False True True maxlen field (rx_ba s) = Some (ba, [Tx_Action answer])"
    using assms(4-6,8-11) c by (simp add: umac_ba_rx_addba_req_def umac_ba_tx_addba_resp_def tx_action_def Let_def del: get_session.simps put_session.simps)
  have u16: "u16 maxlen = maxlen" using assms(3) by (simp add: u16_id)
  obtain b' where b': "get_session (RECIPIENT, tid) ba = Some b'" "ba_status b' = UMAC_BA_SUCCESS"
    "ba_buffer_size b' = min (dot11_ba_parameter_set_field_get_buffer_size p) maxlen" "ba_next_expected_rx_seq_num b' = ba_next_expected_rx_seq_num b"
    using accepted_request [OF ba assms(4-6,8-11)] u16 by auto
  obtain h qos where h: "dot11_hdr_at (view_data (m_view m)) = Some h" "sequence_control h = ssc"
    "dot11_frame_control_get_subtype (frame_control h) = 8" "\<not> mm_mac_addr_is_multicast (addr1 h)"
    "get_le16 (view_data (m_view m)) (dot11_data_hdr_get_len h) = Some qos" "dot11_qos_control_get_tid qos = tid"
    using data_frame_header [OF assms(14)] by blast
  have "umac_ba_get_reorder_buffer_size tid ba = Some (ba_buffer_size b')" "ba_buffer_size b' \<noteq> 0"
    using b'(1,3) assms(2,3,10,12) by (auto simp: umac_ba_get_reorder_buffer_size_def simp del: get_session.simps)
  moreover have "umac_ba_get_expected_rx_seq_num tid ba = Some (Some (ba_next_expected_rx_seq_num b))"
    using b'(1,2,4) assms(10) by (simp add: umac_ba_get_expected_rx_seq_num_def del: get_session.simps)
  moreover have "ssc \<noteq> u16 (ba_next_expected_rx_seq_num b)"
    using assms(15) sequence_less(4) [of 1 "ba_next_expected_rx_seq_num b"] by auto
  ultimately have "umac_datapath_process_rx_data_frame env m (s\<lparr>rx_ba := ba\<rparr>) = Some (log_effects [Released] (s\<lparr>rx_ba := ba\<rparr>))"
    using h assms(10,15,16) by (simp add: umac_datapath_process_rx_data_frame_def Let_def)
  then show ?thesis using process ba by simp
qed

text \<open>The session before ended at 160; the request asks for one that starts at 32.\<close>

theorem new_session_drops_first_frame_witness:
  "\<exists>ba answer. umac_ba_process_rx_frame False True True True 16 [3, 128, 7, 10, 4, 0, 0, 32, 0]
      (put_session (RECIPIENT, 2) (zero_session\<lparr>ba_next_expected_rx_seq_num := 160\<rparr>) umac_ba_deinit) = Some (ba, [Tx_Action answer])
    \<and> umac_datapath_process_rx_data_frame sample_env (sample_frame 2 2 [2])
        (idle_station\<lparr>rx_ba := put_session (RECIPIENT, 2) (zero_session\<lparr>ba_next_expected_rx_seq_num := 160\<rparr>) umac_ba_deinit, rx_reorder_tid := 2\<rparr>\<lparr>rx_ba := ba\<rparr>)
      = Some (log_effects [Released] (idle_station\<lparr>rx_ba := put_session (RECIPIENT, 2) (zero_session\<lparr>ba_next_expected_rx_seq_num := 160\<rparr>) umac_ba_deinit,
          rx_reorder_tid := 2\<rparr>\<lparr>rx_ba := ba\<rparr>))"
proof -
  let ?b = "zero_session\<lparr>ba_next_expected_rx_seq_num := 160\<rparr>"
  let ?s = "idle_station\<lparr>rx_ba := put_session (RECIPIENT, 2) ?b umac_ba_deinit, rx_reorder_tid := 2\<rparr>"
  have ok: "ba_ok 16 (rx_ba ?s)" using put_session_ok [OF ba_deinit_ok, of "(RECIPIENT, 2)" ?b 16] by (simp add: ref_ok_def zero_session_def)
  have b: "get_session (RECIPIENT, 2) (rx_ba ?s) = Some ?b" by (simp add: umac_ba_deinit_def)
  have frame: "data_frame False 2 32 (sample_frame 2 2 [2])" using sample_data_frame [of 2 "[2]"] by (simp add: u16_def)
  have "\<exists>ba answer. umac_ba_process_rx_frame False True True True 16 [3, 128, 7, 10, 4, 0, 0, 32, 0] (rx_ba ?s) = Some (ba, [Tx_Action answer])
    \<and> umac_datapath_process_rx_data_frame sample_env (sample_frame 2 2 [2]) (?s\<lparr>rx_ba := ba\<rparr>) = Some (log_effects [Released] (?s\<lparr>rx_ba := ba\<rparr>))"
    by (rule new_session_drops_first_frame [where p = 1034 and ssc = 32, OF ok _ _ b _ _ _ _ _ _ _ _ _ frame])
      (simp_all add: get_le16_def fetch_def ba_fields zero_session_def dot11_sequence_control_lt_def u16_def)
  moreover have "rx_ba ?s = put_session (RECIPIENT, 2) ?b umac_ba_deinit" by (simp del: put_session.simps)
  ultimately show ?thesis by metis
qed

end
