(* ===== verification/Slip.thy ===== *)
theory Slip
  imports Prelude
begin

section \<open>SLIP framing\<close>

text \<open>
  The byte-stuffing layer of the serial link, \<open>slip/slip.c\<close> and the receive state of
  \<open>slip/slip.h\<close>. The receiver is a state machine fed one byte at a time; its buffer is the
  memory the caller provides, so an append outside it is \<open>None\<close>. The transmitter calls a
  transport function, which is a parameter that threads the transport's own state and returns
  the C status code.
\<close>

subsection \<open>The receiver\<close>

definition SLIP_FRAME_END :: byte where "SLIP_FRAME_END = 0xc0"
definition SLIP_FRAME_ESC :: byte where "SLIP_FRAME_ESC = 0xdb"
definition SLIP_FRAME_ESC_END :: byte where "SLIP_FRAME_ESC_END = 0xdc"
definition SLIP_FRAME_ESC_ESC :: byte where "SLIP_FRAME_ESC_ESC = 0xdd"

lemmas slip_chars =
  SLIP_FRAME_END_def SLIP_FRAME_ESC_def SLIP_FRAME_ESC_END_def SLIP_FRAME_ESC_ESC_def

datatype slip_rx_status =
  SLIP_RX_COMPLETE | SLIP_RX_IN_PROGRESS | SLIP_RX_BUFFER_LIMIT | SLIP_RX_ERROR

record slip_rx_state =
  buffer :: "byte list"
  buffer_length :: nat
  rx_length :: nat
  escape :: bool
  frame_started :: bool

definition slip_rx_state_reinit :: "slip_rx_state \<Rightarrow> byte list \<Rightarrow> nat \<Rightarrow> slip_rx_state" where
  "slip_rx_state_reinit st buf buf_len =
     st\<lparr>buffer := buf, buffer_length := buf_len, rx_length := 0, escape := False,
        frame_started := False\<rparr>"

definition slip_rx_append ::
  "slip_rx_state \<Rightarrow> byte \<Rightarrow> (slip_rx_status \<times> slip_rx_state) option" where
  "slip_rx_append st c =
     (if rx_length st = buffer_length st
      then Some (SLIP_RX_BUFFER_LIMIT, st\<lparr>frame_started := False\<rparr>)
      else do {
        buf \<leftarrow> store (buffer st) (rx_length st) c;
        Some (SLIP_RX_IN_PROGRESS, st\<lparr>buffer := buf, rx_length := u32 (rx_length st + 1)\<rparr>)
      })"

definition slip_rx :: "slip_rx_state \<Rightarrow> byte \<Rightarrow> (slip_rx_status \<times> slip_rx_state) option" where
  "slip_rx st c =
     (if c = SLIP_FRAME_END then
        (if escape st
         then Some (SLIP_RX_ERROR, slip_rx_state_reinit st (buffer st) (buffer_length st))
         else if rx_length st > 0 then Some (SLIP_RX_COMPLETE, st)
         else Some (SLIP_RX_IN_PROGRESS, st\<lparr>frame_started := True\<rparr>))
      else if escape st then
        (let st = st\<lparr>escape := False\<rparr> in
         if c = SLIP_FRAME_ESC_END then slip_rx_append st SLIP_FRAME_END
         else if c = SLIP_FRAME_ESC_ESC then slip_rx_append st SLIP_FRAME_ESC
         else Some (SLIP_RX_ERROR, slip_rx_state_reinit st (buffer st) (buffer_length st)))
      else if c = SLIP_FRAME_ESC then Some (SLIP_RX_IN_PROGRESS, st\<lparr>escape := True\<rparr>)
      else if frame_started st then slip_rx_append st c
      else Some (SLIP_RX_IN_PROGRESS, st))"

text \<open>Feeding a sequence of bytes, with the status reported for each.\<close>

fun slip_rx_bytes ::
  "slip_rx_state \<Rightarrow> byte list \<Rightarrow> (slip_rx_status list \<times> slip_rx_state) option" where
  "slip_rx_bytes st [] = Some ([], st)"
| "slip_rx_bytes st (c # cs) = do {
     (r, st) \<leftarrow> slip_rx st c;
     (rs, st) \<leftarrow> slip_rx_bytes st cs;
     Some (r # rs, st)
   }"

subsection \<open>The transmitter\<close>

type_synonym 't slip_transport_tx_fn = "byte \<Rightarrow> 't \<Rightarrow> int \<times> 't"

definition slip_tx_char :: "'t slip_transport_tx_fn \<Rightarrow> byte \<Rightarrow> 't \<Rightarrow> int \<times> 't" where
  "slip_tx_char tx c t =
     (if c = SLIP_FRAME_ESC then
        (let (ret, t) = tx SLIP_FRAME_ESC t in
         if ret \<noteq> 0 then (ret, t) else tx SLIP_FRAME_ESC_ESC t)
      else if c = SLIP_FRAME_END then
        (let (ret, t) = tx SLIP_FRAME_ESC t in
         if ret \<noteq> 0 then (ret, t) else tx SLIP_FRAME_ESC_END t)
      else tx c t)"

text \<open>
  The \<open>break\<close> statements of the source leave its \<open>switch\<close>, not its \<open>while\<close> loop, so
  the loop runs over the whole packet and \<open>ret\<close> is overwritten by every character.
\<close>

fun slip_tx_loop :: "'t slip_transport_tx_fn \<Rightarrow> byte list \<Rightarrow> int \<Rightarrow> 't \<Rightarrow> int \<times> 't" where
  "slip_tx_loop tx [] ret t = (ret, t)"
| "slip_tx_loop tx (c # cs) ret t = (let (ret, t) = slip_tx_char tx c t in slip_tx_loop tx cs ret t)"

definition slip_tx :: "'t slip_transport_tx_fn \<Rightarrow> 't \<Rightarrow> byte list \<Rightarrow> int \<times> 't" where
  "slip_tx tx t packet =
     (let t = snd (tx SLIP_FRAME_END t);
          (ret, t) = slip_tx_loop tx packet 0 t;
          t = snd (tx SLIP_FRAME_END t)
      in (ret, t))"

subsection \<open>Memory safety of the receiver\<close>

definition slip_inv :: "slip_rx_state \<Rightarrow> bool" where
  "slip_inv st \<longleftrightarrow> rx_length st \<le> buffer_length st \<and> buffer_length st \<le> length (buffer st)
     \<and> buffer_length st < 4294967296"

lemma slip_inv_reinit:
  "n \<le> length buf \<Longrightarrow> n < 4294967296 \<Longrightarrow> slip_inv (slip_rx_state_reinit st buf n)"
  by (simp add: slip_inv_def slip_rx_state_reinit_def)

lemma slip_rx_append_cases:
  assumes "slip_inv st"
  shows "slip_rx_append st c =
    (if rx_length st = buffer_length st then Some (SLIP_RX_BUFFER_LIMIT, st\<lparr>frame_started := False\<rparr>)
     else Some (SLIP_RX_IN_PROGRESS,
            st\<lparr>buffer := (buffer st)[rx_length st := c], rx_length := rx_length st + 1\<rparr>))"
  using assms by (auto simp: slip_rx_append_def slip_inv_def u32_id)

definition same_buffer :: "slip_rx_state \<Rightarrow> slip_rx_state \<Rightarrow> bool" where
  "same_buffer st st' \<longleftrightarrow> buffer_length st' = buffer_length st \<and> length (buffer st') = length (buffer st)"

lemma slip_rx_step:
  assumes "slip_inv st"
  obtains r st' where "slip_rx st c = Some (r, st')" "slip_inv st'" "same_buffer st st'"
proof -
  have inv_esc: "slip_inv (st\<lparr>escape := False\<rparr>)"
    using assms by (simp add: slip_inv_def)
  have "\<exists>r st'. slip_rx st c = Some (r, st') \<and> slip_inv st' \<and> same_buffer st st'"
    using assms
    by (auto simp: slip_rx_def slip_rx_append_cases inv_esc Let_def slip_rx_state_reinit_def
        slip_inv_def same_buffer_def)
  then show ?thesis using that by blast
qed

lemma slip_rx_bytes_step:
  assumes "slip_inv st"
  shows "\<exists>rs st'. slip_rx_bytes st cs = Some (rs, st') \<and> slip_inv st' \<and> same_buffer st st'
    \<and> length rs = length cs"
  using assms
proof (induction cs arbitrary: st)
  case Nil
  then show ?case by (simp add: same_buffer_def)
next
  case (Cons c cs)
  from Cons.prems obtain r st' where step: "slip_rx st c = Some (r, st')" "slip_inv st'"
      "same_buffer st st'"
    by (rule slip_rx_step)
  from Cons.IH [OF step(2)] step show ?case
    by (auto simp: same_buffer_def)
qed

lemma slip_rx_bytes_append:
  "slip_rx_bytes st (cs @ ds) = do {
     (rs, st) \<leftarrow> slip_rx_bytes st cs;
     (rs', st) \<leftarrow> slip_rx_bytes st ds;
     Some (rs @ rs', st)
   }"
proof (induction cs arbitrary: st)
  case Nil
  then show ?case by (cases "slip_rx_bytes st ds") auto
next
  case (Cons c cs)
  then show ?case
    by (cases "slip_rx st c") (auto simp: Cons split: Option.bind_splits)
qed

lemma slip_rx_bytes_appendI:
  assumes "slip_rx_bytes st cs = Some (rs, st')" "slip_rx_bytes st' ds = Some (rs', st'')"
  shows "slip_rx_bytes st (cs @ ds) = Some (rs @ rs', st'')"
  using assms by (simp add: slip_rx_bytes_append)

text \<open>C2. The receiver never writes outside its buffer and never reaches an undefined state: from any
  state whose fill level is within the buffer, every byte sequence is consumed, and the state
  reached satisfies the same bounds with the same buffer.\<close>

theorem slip_rx_memory_safe:
  assumes "slip_inv st"
  shows "\<exists>rs st'. slip_rx_bytes st cs = Some (rs, st') \<and> slip_inv st' \<and> same_buffer st st'
    \<and> length rs = length cs"
  by (rule slip_rx_bytes_step [OF assms])

definition slip_rx_fresh :: "nat \<Rightarrow> slip_rx_state" where
  "slip_rx_fresh n = \<lparr>buffer = replicate n 0, buffer_length = n, rx_length = 0, escape = False,
     frame_started = False\<rparr>"

lemma slip_inv_fresh: "n < 4294967296 \<Longrightarrow> slip_inv (slip_rx_fresh n)"
  by (simp add: slip_inv_def slip_rx_fresh_def)

theorem slip_rx_memory_safe_witness:
  "slip_inv (slip_rx_fresh 2) \<and>
   (\<exists>rs st'. slip_rx_bytes (slip_rx_fresh 2) [0xc0, 1, 2, 3, 0xc0] = Some (rs, st') \<and> slip_inv st'
      \<and> same_buffer (slip_rx_fresh 2) st' \<and> length rs = length [0xc0, 1, 2, 3, 0xc0 :: byte])"
  by (intro conjI slip_inv_fresh slip_rx_memory_safe) simp_all

subsection \<open>What is transmitted is received\<close>

definition slip_enc :: "byte \<Rightarrow> byte list" where
  "slip_enc c = (if c = SLIP_FRAME_ESC then [SLIP_FRAME_ESC, SLIP_FRAME_ESC_ESC]
     else if c = SLIP_FRAME_END then [SLIP_FRAME_ESC, SLIP_FRAME_ESC_END] else [c])"

definition slip_encs :: "byte list \<Rightarrow> byte list" where
  "slip_encs p = concat (map slip_enc p)"

lemma slip_encs_simps [simp]:
  "slip_encs [] = []" "slip_encs (c # p) = slip_enc c @ slip_encs p"
  by (simp_all add: slip_encs_def)

text \<open>A transport that accepts every byte and records it.\<close>

definition recording_tx :: "byte list slip_transport_tx_fn" where
  "recording_tx c t = (0, t @ [c])"

lemma slip_tx_char_recording: "slip_tx_char recording_tx c t = (0, t @ slip_enc c)"
  by (simp add: slip_tx_char_def recording_tx_def slip_enc_def)

lemma slip_tx_loop_recording:
  "slip_tx_loop recording_tx p 0 t = (0, t @ slip_encs p)"
  by (induction p arbitrary: t) (simp_all add: slip_tx_char_recording)

lemma slip_tx_recording:
  "slip_tx recording_tx t p = (0, t @ [SLIP_FRAME_END] @ slip_encs p @ [SLIP_FRAME_END])"
  by (simp add: slip_tx_def slip_tx_loop_recording) (simp add: recording_tx_def slip_tx_loop_recording)

lemma slip_chars_distinct [simp]:
  "SLIP_FRAME_ESC \<noteq> SLIP_FRAME_END" "SLIP_FRAME_END \<noteq> SLIP_FRAME_ESC"
  "SLIP_FRAME_ESC_END \<noteq> SLIP_FRAME_END" "SLIP_FRAME_ESC_ESC \<noteq> SLIP_FRAME_END"
  "SLIP_FRAME_ESC_END \<noteq> SLIP_FRAME_ESC" "SLIP_FRAME_ESC_ESC \<noteq> SLIP_FRAME_ESC_END"
  by (simp_all add: slip_chars)

lemma slip_rx_enc_room:
  assumes "slip_inv st" "\<not> escape st" "frame_started st" "rx_length st < buffer_length st"
  shows "slip_rx_bytes st (slip_enc c) = Some (replicate (length (slip_enc c)) SLIP_RX_IN_PROGRESS,
    st\<lparr>buffer := (buffer st)[rx_length st := c], rx_length := rx_length st + 1\<rparr>)"
proof -
  have "slip_inv (st\<lparr>escape := b\<rparr>)" for b
    using assms(1) by (simp add: slip_inv_def)
  then show ?thesis
    using assms by (auto simp: slip_enc_def slip_rx_def slip_rx_append_cases Let_def)
qed

lemma slip_rx_enc_full:
  assumes "slip_inv st" "\<not> escape st" "rx_length st = buffer_length st"
  shows "\<exists>rs b. slip_rx_bytes st (slip_enc c) = Some (rs, st\<lparr>frame_started := b\<rparr>)
    \<and> (frame_started st \<longrightarrow> SLIP_RX_BUFFER_LIMIT \<in> set rs \<and> \<not> b)"
proof -
  have "slip_inv (st\<lparr>escape := b\<rparr>)" for b
    using assms(1) by (simp add: slip_inv_def)
  moreover have "st\<lparr>escape := False\<rparr> = st" using assms(2) by (cases st) simp
  moreover have "st\<lparr>escape := False, frame_started := b\<rparr> = st\<lparr>frame_started := b\<rparr>" for b
    using assms(2) by (cases st) simp
  moreover have "st\<lparr>frame_started := frame_started st\<rparr> = st" by (cases st) simp
  ultimately show ?thesis
    using assms
    by (cases "frame_started st")
      (auto simp: slip_enc_def slip_rx_def slip_rx_append_cases Let_def
        intro: exI [of _ "frame_started st"] exI [of _ False])
qed

lemma slip_rx_encs_room:
  assumes "slip_inv st" "\<not> escape st" "frame_started st" "rx_length st + length p \<le> buffer_length st"
  shows "\<exists>st'. slip_rx_bytes st (slip_encs p)
      = Some (replicate (length (slip_encs p)) SLIP_RX_IN_PROGRESS, st')
    \<and> slip_inv st' \<and> same_buffer st st' \<and> \<not> escape st' \<and> frame_started st'
    \<and> rx_length st' = rx_length st + length p
    \<and> take (rx_length st') (buffer st') = take (rx_length st) (buffer st) @ p"
  using assms
proof (induction p arbitrary: st)
  case Nil
  then show ?case by (simp add: same_buffer_def)
next
  case (Cons c p)
  let ?st = "st\<lparr>buffer := (buffer st)[rx_length st := c], rx_length := rx_length st + 1\<rparr>"
  have "slip_inv ?st" using Cons.prems by (simp add: slip_inv_def)
  with Cons.IH [of ?st] Cons.prems obtain st' where
    IH: "slip_rx_bytes ?st (slip_encs p) = Some (replicate (length (slip_encs p)) SLIP_RX_IN_PROGRESS, st')"
    "slip_inv st'" "same_buffer ?st st'" "\<not> escape st'" "frame_started st'"
    "rx_length st' = rx_length st + 1 + length p"
    "take (rx_length st') (buffer st') = take (rx_length st + 1) ((buffer st)[rx_length st := c]) @ p"
    by auto
  have "rx_length st < length (buffer st)"
    using Cons.prems by (simp add: slip_inv_def)
  with IH slip_rx_bytes_appendI [OF slip_rx_enc_room IH(1)] Cons.prems show ?case
    by (auto simp: same_buffer_def replicate_add take_update_snoc)
qed

lemma slip_rx_encs_full:
  assumes "slip_inv st" "\<not> escape st" "rx_length st = buffer_length st"
  shows "\<exists>rs b. slip_rx_bytes st (slip_encs p) = Some (rs, st\<lparr>frame_started := b\<rparr>)
    \<and> (frame_started st \<and> p \<noteq> [] \<longrightarrow> SLIP_RX_BUFFER_LIMIT \<in> set rs)"
  using assms
proof (induction p arbitrary: st)
  case Nil
  then show ?case by (auto intro!: exI [of _ "frame_started st"])
next
  case (Cons c p)
  from slip_rx_enc_full [OF Cons.prems] obtain rs b where
    rs: "slip_rx_bytes st (slip_enc c) = Some (rs, st\<lparr>frame_started := b\<rparr>)"
    "frame_started st \<longrightarrow> SLIP_RX_BUFFER_LIMIT \<in> set rs"
    by blast
  have "slip_inv (st\<lparr>frame_started := b\<rparr>)"
    using Cons.prems by (simp add: slip_inv_def)
  with Cons.IH [of "st\<lparr>frame_started := b\<rparr>"] Cons.prems obtain rs' b' where
    "slip_rx_bytes (st\<lparr>frame_started := b\<rparr>) (slip_encs p) = Some (rs', st\<lparr>frame_started := b'\<rparr>)"
    by auto
  from slip_rx_bytes_appendI [OF rs(1) this] rs(2) show ?case by auto
qed

lemma slip_rx_start:
  "\<not> escape st \<Longrightarrow> rx_length st = 0 \<Longrightarrow>
    slip_rx_bytes st [SLIP_FRAME_END] = Some ([SLIP_RX_IN_PROGRESS], st\<lparr>frame_started := True\<rparr>)"
  by (simp add: slip_rx_def)

lemma slip_rx_finish:
  "\<not> escape st \<Longrightarrow> 0 < rx_length st \<Longrightarrow>
    slip_rx_bytes st [SLIP_FRAME_END] = Some ([SLIP_RX_COMPLETE], st)"
  by (simp add: slip_rx_def)

lemma slip_rx_delivers:
  assumes "slip_inv st" "\<not> escape st" "rx_length st = 0"
    and "p \<noteq> []" "length p \<le> buffer_length st"
  shows "\<exists>st'. slip_rx_bytes st (SLIP_FRAME_END # slip_encs p)
      = Some (replicate (Suc (length (slip_encs p))) SLIP_RX_IN_PROGRESS, st')
    \<and> slip_rx st' SLIP_FRAME_END = Some (SLIP_RX_COMPLETE, st')
    \<and> slip_inv st' \<and> same_buffer st st' \<and> rx_length st' = length p
    \<and> take (length p) (buffer st') = p \<and> \<not> escape st' \<and> frame_started st'"
proof -
  let ?st = "st\<lparr>frame_started := True\<rparr>"
  have "slip_inv ?st" using assms(1) by (simp add: slip_inv_def)
  with slip_rx_encs_room [of ?st p] assms obtain st' where
    body: "slip_rx_bytes ?st (slip_encs p)
      = Some (replicate (length (slip_encs p)) SLIP_RX_IN_PROGRESS, st')"
    and st': "slip_inv st'" "same_buffer ?st st'" "\<not> escape st'" "frame_started st'"
      "rx_length st' = length p"
      "take (rx_length st') (buffer st') = p"
    by auto
  from slip_rx_bytes_appendI [OF slip_rx_start body] assms(2,3)
  have "slip_rx_bytes st (SLIP_FRAME_END # slip_encs p)
      = Some (replicate (Suc (length (slip_encs p))) SLIP_RX_IN_PROGRESS, st')"
    by simp
  moreover have "slip_rx st' SLIP_FRAME_END = Some (SLIP_RX_COMPLETE, st')"
    using st' assms(4) by (simp add: slip_rx_def)
  ultimately show ?thesis
    using st' by (auto simp: same_buffer_def)
qed

text \<open>C1. Round trip: a non-empty packet that fits the receive buffer, sent with \<open>slip_tx\<close> and fed to a
  receiver between frames, is reported complete by its last byte and only there, and the received
  bytes are the packet, whatever bytes it contains.\<close>

theorem slip_round_trip:
  assumes "slip_inv st" "\<not> escape st" "rx_length st = 0"
    and "p \<noteq> []" "length p \<le> buffer_length st"
  shows "\<exists>st' n. slip_rx_bytes st (snd (slip_tx recording_tx [] p))
      = Some (replicate n SLIP_RX_IN_PROGRESS @ [SLIP_RX_COMPLETE], st')
    \<and> take (rx_length st') (buffer st') = p"
proof -
  from slip_rx_delivers [OF assms] obtain st' where st':
    "slip_rx_bytes st (SLIP_FRAME_END # slip_encs p)
      = Some (replicate (Suc (length (slip_encs p))) SLIP_RX_IN_PROGRESS, st')"
    "slip_rx st' SLIP_FRAME_END = Some (SLIP_RX_COMPLETE, st')"
    "rx_length st' = length p" "take (length p) (buffer st') = p"
    by auto
  have "slip_rx_bytes st' [SLIP_FRAME_END] = Some ([SLIP_RX_COMPLETE], st')"
    using st'(2) by simp
  from slip_rx_bytes_appendI [OF st'(1) this] show ?thesis
    using st'(3,4) by (auto simp: slip_tx_recording simp del: replicate.simps)
qed

theorem slip_round_trip_witness:
  "slip_inv (slip_rx_fresh 3) \<and>
   (\<exists>st' n. slip_rx_bytes (slip_rx_fresh 3) (snd (slip_tx recording_tx [] [0xc0, 7, 0xdb]))
      = Some (replicate n SLIP_RX_IN_PROGRESS @ [SLIP_RX_COMPLETE], st')
    \<and> take (rx_length st') (buffer st') = [0xc0, 7, 0xdb])"
  using slip_inv_fresh [of 3] slip_round_trip [OF slip_inv_fresh, of 3 "[0xc0, 7, 0xdb]"]
  by (simp add: slip_rx_fresh_def)

text \<open>A packet that exceeds the receive buffer is reported with \<open>SLIP_RX_BUFFER_LIMIT\<close> by
  some byte, but its closing delimiter is still reported as \<open>SLIP_RX_COMPLETE\<close>, with the
  truncated packet in the buffer: a caller that only looks for \<open>SLIP_RX_COMPLETE\<close> accepts it.\<close>

theorem slip_rx_truncates:
  assumes "slip_inv st" "\<not> escape st" "rx_length st = 0"
    and "0 < buffer_length st" "buffer_length st < length p"
  shows "\<exists>st' rs. slip_rx_bytes st (snd (slip_tx recording_tx [] p))
      = Some (rs @ [SLIP_RX_COMPLETE], st')
    \<and> SLIP_RX_BUFFER_LIMIT \<in> set rs
    \<and> take (rx_length st') (buffer st') = take (buffer_length st) p"
proof -
  let ?st = "st\<lparr>frame_started := True\<rparr>" and ?n = "buffer_length st"
  have "slip_inv ?st" using assms(1) by (simp add: slip_inv_def)
  with slip_rx_encs_room [of ?st "take ?n p"] assms obtain st' where
    body: "slip_rx_bytes ?st (slip_encs (take ?n p))
      = Some (replicate (length (slip_encs (take ?n p))) SLIP_RX_IN_PROGRESS, st')"
    and st': "slip_inv st'" "\<not> escape st'" "frame_started st'" "rx_length st' = ?n"
      "buffer_length st' = ?n" "take (rx_length st') (buffer st') = take ?n p"
    by (auto simp: same_buffer_def)
  from slip_rx_encs_full [of st' "drop ?n p"] st' assms obtain rs b where
    rest: "slip_rx_bytes st' (slip_encs (drop ?n p)) = Some (rs, st'\<lparr>frame_started := b\<rparr>)"
      "SLIP_RX_BUFFER_LIMIT \<in> set rs"
    by auto
  have "slip_encs p = slip_encs (take ?n p) @ slip_encs (drop ?n p)"
    by (simp add: slip_encs_def flip: concat_append map_append)
  moreover have "slip_rx_bytes st ([SLIP_FRAME_END] @ slip_encs (take ?n p)
      @ slip_encs (drop ?n p) @ [SLIP_FRAME_END])
    = Some ([SLIP_RX_IN_PROGRESS] @ replicate (length (slip_encs (take ?n p))) SLIP_RX_IN_PROGRESS
        @ rs @ [SLIP_RX_COMPLETE], st'\<lparr>frame_started := b\<rparr>)"
    using assms st' by (intro slip_rx_bytes_appendI [OF slip_rx_start] slip_rx_bytes_appendI [OF body]
        slip_rx_bytes_appendI [OF rest(1)] slip_rx_finish) auto
  ultimately show ?thesis
    using st' rest(2) by (auto simp: slip_tx_recording intro!: exI [of _ "st'\<lparr>frame_started := b\<rparr>"]
        exI [of _ "[SLIP_RX_IN_PROGRESS] @ replicate _ SLIP_RX_IN_PROGRESS @ rs"])
qed

theorem slip_rx_truncates_witness:
  "slip_inv (slip_rx_fresh 2) \<and>
   (\<exists>st' rs. slip_rx_bytes (slip_rx_fresh 2) (snd (slip_tx recording_tx [] [1, 2, 3]))
      = Some (rs @ [SLIP_RX_COMPLETE], st')
    \<and> SLIP_RX_BUFFER_LIMIT \<in> set rs
    \<and> take (rx_length st') (buffer st') = take (buffer_length (slip_rx_fresh 2)) [1, 2, 3])"
  using slip_inv_fresh [of 2] slip_rx_truncates [OF slip_inv_fresh, of 2 "[1, 2, 3]"]
  by (simp add: slip_rx_fresh_def)

subsection \<open>Transport errors\<close>

lemma slip_tx_loop_last:
  "slip_tx_loop tx (p @ [c]) ret t = slip_tx_char tx c (snd (slip_tx_loop tx p ret t))"
  by (induction p arbitrary: ret t) (auto split: prod.splits)

text \<open>The status \<open>slip_tx\<close> returns is the one of the last character of the packet alone, whatever
  the transport answered before: an error that hits an earlier character, or either frame
  delimiter, is lost.\<close>

theorem slip_tx_status_of_last:
  "fst (slip_tx tx t (p @ [c]))
    = fst (slip_tx_char tx c (snd (slip_tx_loop tx p 0 (snd (tx SLIP_FRAME_END t)))))"
  by (simp add: slip_tx_def slip_tx_loop_last split: prod.splits)

end
