(* ===== verification/Mmbuf.thy ===== *)
theory Mmbuf
  imports Prelude
begin

section \<open>Packet buffers\<close>

text \<open>
  The \<open>mmbuf\<close> packet buffer of \<open>mmutils/mmbuf.h\<close> and \<open>mmutils/mmbuf.c\<close>: a block of
  memory with a data window that grows and shrinks at both ends. A returned pointer is the offset
  it has in the block, \<open>None\<close> inside the result is a null pointer and \<open>None\<close> outside is a
  failed assertion or an access outside the block. The heap maps the addresses of the live
  buffers to their contents, so that releasing a buffer twice, or using it after its release, is
  \<open>None\<close>; which allocations succeed is a parameter kept in the heap.
\<close>

subsection \<open>The buffer operations\<close>

record mmbuf =
  mb_buf :: "byte list"
  mb_buf_len :: nat
  mb_start_offset :: nat
  mb_data_len :: nat

definition mmbuf_init :: "byte list \<Rightarrow> nat \<Rightarrow> nat \<Rightarrow> mmbuf" where
  "mmbuf_init mem len data_start_offset =
     \<lparr>mb_buf = mem, mb_buf_len = len, mb_start_offset = data_start_offset, mb_data_len = 0\<rparr>"

definition mmbuf_get_data_start :: "mmbuf \<Rightarrow> nat" where
  "mmbuf_get_data_start m = mb_start_offset m"

definition mmbuf_get_data_end :: "mmbuf \<Rightarrow> nat" where
  "mmbuf_get_data_end m = mb_start_offset m + mb_data_len m"

definition mmbuf_get_data_length :: "mmbuf \<Rightarrow> nat" where
  "mmbuf_get_data_length m = mb_data_len m"

definition mmbuf_available_space_at_start :: "mmbuf \<Rightarrow> nat" where
  "mmbuf_available_space_at_start m = mb_start_offset m"

definition mmbuf_available_space_at_end :: "mmbuf \<Rightarrow> nat" where
  "mmbuf_available_space_at_end m = sub32 (mb_buf_len m) (u32 (mb_start_offset m + mb_data_len m))"

definition mmbuf_prepend :: "mmbuf \<Rightarrow> nat \<Rightarrow> (nat \<times> mmbuf) option" where
  "mmbuf_prepend m len = do {
     ensure (len \<le> mmbuf_available_space_at_start m);
     let m = m\<lparr>mb_start_offset := sub32 (mb_start_offset m) len,
               mb_data_len := u32 (mb_data_len m + len)\<rparr>;
     Some (mb_start_offset m, m)
   }"

definition mmbuf_prepend_data :: "mmbuf \<Rightarrow> byte list \<Rightarrow> mmbuf option" where
  "mmbuf_prepend_data m data = do {
     (dest, m) \<leftarrow> mmbuf_prepend m (length data);
     mem \<leftarrow> mem_write (mb_buf m) dest data;
     Some (m\<lparr>mb_buf := mem\<rparr>)
   }"

definition mmbuf_append :: "mmbuf \<Rightarrow> nat \<Rightarrow> (nat \<times> mmbuf) option" where
  "mmbuf_append m len = do {
     let ret = mmbuf_get_data_end m;
     ensure (len \<le> mmbuf_available_space_at_end m);
     Some (ret, m\<lparr>mb_data_len := u32 (mb_data_len m + len)\<rparr>)
   }"

definition mmbuf_append_data :: "mmbuf \<Rightarrow> byte list \<Rightarrow> mmbuf option" where
  "mmbuf_append_data m data = do {
     (dest, m) \<leftarrow> mmbuf_append m (length data);
     mem \<leftarrow> mem_write (mb_buf m) dest data;
     Some (m\<lparr>mb_buf := mem\<rparr>)
   }"

definition mmbuf_remove_from_start :: "mmbuf \<Rightarrow> nat \<Rightarrow> nat option \<times> mmbuf" where
  "mmbuf_remove_from_start m len =
     (if mmbuf_get_data_length m < len then (None, m)
      else (Some (mmbuf_get_data_start m),
            m\<lparr>mb_start_offset := u32 (mb_start_offset m + len),
              mb_data_len := sub32 (mb_data_len m) len\<rparr>))"

definition mmbuf_remove_from_end :: "mmbuf \<Rightarrow> nat \<Rightarrow> nat option \<times> mmbuf" where
  "mmbuf_remove_from_end m len =
     (if mmbuf_get_data_length m < len then (None, m)
      else (Some (mmbuf_get_data_end m - len), m\<lparr>mb_data_len := sub32 (mb_data_len m) len\<rparr>))"

definition mmbuf_truncate :: "mmbuf \<Rightarrow> nat \<Rightarrow> mmbuf option" where
  "mmbuf_truncate m len = do {
     ensure (len \<le> mb_data_len m);
     Some (m\<lparr>mb_data_len := len\<rparr>)
   }"

subsection \<open>The heap of buffers\<close>

text \<open>
  \<open>mh_live\<close> holds the buffers that are allocated and not yet released. Allocation number
  \<open>n\<close> succeeds when \<open>mh_malloc_ok n\<close> holds; addresses are not reused, so that every use of
  a stale pointer shows. \<open>sizeof(struct mmbuf)\<close> is 24 on the target.
\<close>

record mm_heap =
  mh_live :: "nat \<Rightarrow> mmbuf option"
  mh_next :: nat
  mh_malloc_ok :: "nat \<Rightarrow> bool"

definition fast_round_up4 :: "nat \<Rightarrow> nat" where
  "fast_round_up4 x = u32 (or (sub32 x 1) 3 + 1)"

definition mmbuf_alloc_on_heap ::
  "nat \<Rightarrow> nat \<Rightarrow> 'a mm_heap_scheme \<Rightarrow> (nat option \<times> 'a mm_heap_scheme) option" where
  "mmbuf_alloc_on_heap space_at_start space_at_end h =
     (let alloc_len = u32 (24 + fast_round_up4 (u32 (space_at_start + space_at_end)));
          p = mh_next h
      in if \<not> mh_malloc_ok h p then Some (None, h\<lparr>mh_next := p + 1\<rparr>)
         else do {
           ensure (24 \<le> alloc_len);
           let m = mmbuf_init (replicate (alloc_len - 24) 0)
                     (fast_round_up4 (u32 (space_at_start + space_at_end))) space_at_start;
           Some (Some p, h\<lparr>mh_live := (mh_live h)(p \<mapsto> m), mh_next := p + 1\<rparr>)
         })"

text \<open>A copy is not zeroed: \<open>junk\<close> stands for what the allocator left in the new block.\<close>

definition mmbuf_make_copy_on_heap ::
  "(nat \<Rightarrow> byte) \<Rightarrow> mmbuf \<Rightarrow> 'a mm_heap_scheme \<Rightarrow> (nat option \<times> 'a mm_heap_scheme) option" where
  "mmbuf_make_copy_on_heap junk original h =
     (let alloc_len = u32 (24 + mb_buf_len original);
          p = mh_next h
      in if \<not> mh_malloc_ok h p then Some (None, h\<lparr>mh_next := p + 1\<rparr>)
         else do {
           ensure (24 \<le> alloc_len);
           let m = (mmbuf_init (map junk [0..<alloc_len - 24]) (mb_buf_len original)
                      (mb_start_offset original))\<lparr>mb_data_len := mb_data_len original\<rparr>;
           mem \<leftarrow> (if mb_data_len original \<noteq> 0 then do {
                    data \<leftarrow> mem_read (mb_buf original) (mmbuf_get_data_start original)
                              (mmbuf_get_data_length original);
                    mem_write (mb_buf m) (mmbuf_get_data_start m) data
                  } else Some (mb_buf m));
           Some (Some p, h\<lparr>mh_live := (mh_live h)(p \<mapsto> m\<lparr>mb_buf := mem\<rparr>), mh_next := p + 1\<rparr>)
         })"

definition mmbuf_release :: "nat option \<Rightarrow> 'a mm_heap_scheme \<Rightarrow> 'a mm_heap_scheme option" where
  "mmbuf_release p h =
     (case p of
        None \<Rightarrow> Some h
      | Some a \<Rightarrow> do {
          _ \<leftarrow> mh_live h a;
          Some (h\<lparr>mh_live := (mh_live h)(a := None)\<rparr>)
        })"

subsection \<open>What the operations do to the data\<close>

definition mmbuf_data :: "mmbuf \<Rightarrow> byte list" where
  "mmbuf_data m = take (mb_data_len m) (drop (mb_start_offset m) (mb_buf m))"

definition mmbuf_inv :: "mmbuf \<Rightarrow> bool" where
  "mmbuf_inv m \<longleftrightarrow> mb_start_offset m + mb_data_len m \<le> mb_buf_len m
     \<and> mb_buf_len m \<le> length (mb_buf m) \<and> mb_buf_len m < 4294967296"

definition headroom :: "mmbuf \<Rightarrow> nat" where
  "headroom m = mb_start_offset m"

definition tailroom :: "mmbuf \<Rightarrow> nat" where
  "tailroom m = mb_buf_len m - (mb_start_offset m + mb_data_len m)"

lemmas mmbuf_get_defs =
  mmbuf_get_data_start_def mmbuf_get_data_end_def mmbuf_get_data_length_def
  mmbuf_available_space_at_start_def

lemma length_mmbuf_data [simp]: "mmbuf_inv m \<Longrightarrow> length (mmbuf_data m) = mb_data_len m"
  by (auto simp: mmbuf_inv_def mmbuf_data_def)

lemma available_space_at_end_tailroom: "mmbuf_inv m \<Longrightarrow> mmbuf_available_space_at_end m = tailroom m"
  by (simp add: mmbuf_inv_def mmbuf_available_space_at_end_def tailroom_def u32_id sub32_ge)

lemma mmbuf_prepend_data_ok:
  assumes "mmbuf_inv m" "length bs \<le> headroom m"
  obtains m' where "mmbuf_prepend_data m bs = Some m'" "mmbuf_inv m'"
    "mmbuf_data m' = bs @ mmbuf_data m"
    "headroom m' = headroom m - length bs" "tailroom m' = tailroom m"
proof -
  let ?off = "mb_start_offset m - length bs"
  let ?m' = "m\<lparr>mb_start_offset := ?off, mb_data_len := mb_data_len m + length bs,
    mb_buf := put_bytes (mb_buf m) ?off bs\<rparr>"
  from assms have "mmbuf_prepend_data m bs = Some ?m'"
    by (simp add: mmbuf_prepend_data_def mmbuf_prepend_def mmbuf_get_defs headroom_def mmbuf_inv_def
        sub32_ge u32_id mem_write_Some)
  moreover from assms have "mmbuf_inv ?m'" "mmbuf_data ?m' = bs @ mmbuf_data m"
    "headroom ?m' = headroom m - length bs" "tailroom ?m' = tailroom m"
    by (simp_all add: mmbuf_inv_def mmbuf_data_def headroom_def tailroom_def window_put_bytes_before)
  ultimately show ?thesis by (rule that)
qed

lemma mmbuf_prepend_data_no_room:
  "headroom m < length bs \<Longrightarrow> mmbuf_prepend_data m bs = None"
  by (simp add: mmbuf_prepend_data_def mmbuf_prepend_def mmbuf_get_defs headroom_def)

lemma mmbuf_append_ok:
  assumes "mmbuf_inv m" "n \<le> tailroom m"
  shows "mmbuf_append m n = Some (mb_start_offset m + mb_data_len m,
    m\<lparr>mb_data_len := mb_data_len m + n\<rparr>)"
proof -
  have "u32 (mb_data_len m + n) = mb_data_len m + n"
    using assms by (intro u32_id) (auto simp: mmbuf_inv_def tailroom_def)
  then show ?thesis
    using assms by (simp add: mmbuf_append_def available_space_at_end_tailroom mmbuf_get_defs)
qed

lemma mmbuf_append_data_ok:
  assumes "mmbuf_inv m" "length bs \<le> tailroom m"
  obtains m' where "mmbuf_append_data m bs = Some m'" "mmbuf_inv m'"
    "mmbuf_data m' = mmbuf_data m @ bs"
    "headroom m' = headroom m" "tailroom m' = tailroom m - length bs"
proof -
  let ?off = "mb_start_offset m + mb_data_len m"
  let ?m' = "m\<lparr>mb_data_len := mb_data_len m + length bs,
    mb_buf := put_bytes (mb_buf m) ?off bs\<rparr>"
  from assms have "mmbuf_append_data m bs = Some ?m'"
    by (auto simp: mmbuf_append_data_def mmbuf_append_ok mmbuf_inv_def tailroom_def mem_write_def)
  moreover from assms have "mmbuf_inv ?m'" "mmbuf_data ?m' = mmbuf_data m @ bs"
    "headroom ?m' = headroom m" "tailroom ?m' = tailroom m - length bs"
    by (auto simp: mmbuf_inv_def mmbuf_data_def headroom_def tailroom_def window_put_bytes_after)
  ultimately show ?thesis by (rule that)
qed

lemma mmbuf_append_data_no_room:
  "mmbuf_inv m \<Longrightarrow> tailroom m < length bs \<Longrightarrow> mmbuf_append_data m bs = None"
  by (simp add: mmbuf_append_data_def mmbuf_append_def available_space_at_end_tailroom)

lemma mmbuf_remove_from_start_ok:
  assumes "mmbuf_inv m" "n \<le> mb_data_len m"
  obtains m' where "mmbuf_remove_from_start m n = (Some (mb_start_offset m), m')" "mmbuf_inv m'"
    "mb_buf m' = mb_buf m" "mmbuf_data m' = drop n (mmbuf_data m)"
    "headroom m' = headroom m + n" "tailroom m' = tailroom m"
proof -
  let ?m' = "m\<lparr>mb_start_offset := mb_start_offset m + n, mb_data_len := mb_data_len m - n\<rparr>"
  from assms have "mmbuf_remove_from_start m n = (Some (mb_start_offset m), ?m')"
    by (simp add: mmbuf_remove_from_start_def mmbuf_get_defs mmbuf_inv_def u32_id sub32_ge)
  moreover from assms have "mmbuf_inv ?m'" "mb_buf ?m' = mb_buf m"
    "mmbuf_data ?m' = drop n (mmbuf_data m)"
    "headroom ?m' = headroom m + n" "tailroom ?m' = tailroom m"
    by (simp_all add: mmbuf_inv_def mmbuf_data_def headroom_def tailroom_def drop_take add.commute)
  ultimately show ?thesis by (rule that)
qed

lemma mmbuf_remove_from_end_ok:
  assumes "mmbuf_inv m" "n \<le> mb_data_len m"
  obtains m' where
    "mmbuf_remove_from_end m n = (Some (mb_start_offset m + mb_data_len m - n), m')"
    "mmbuf_inv m'" "mb_buf m' = mb_buf m"
    "mmbuf_data m' = take (mb_data_len m - n) (mmbuf_data m)"
    "headroom m' = headroom m" "tailroom m' = tailroom m + n"
proof -
  let ?m' = "m\<lparr>mb_data_len := mb_data_len m - n\<rparr>"
  from assms have
    "mmbuf_remove_from_end m n = (Some (mb_start_offset m + mb_data_len m - n), ?m')"
    by (simp add: mmbuf_remove_from_end_def mmbuf_get_defs mmbuf_inv_def sub32_ge)
  moreover from assms have "mmbuf_inv ?m'" "mb_buf ?m' = mb_buf m"
    "mmbuf_data ?m' = take (mb_data_len m - n) (mmbuf_data m)"
    "headroom ?m' = headroom m" "tailroom ?m' = tailroom m + n"
    by (auto simp: mmbuf_inv_def mmbuf_data_def headroom_def tailroom_def min_def)
  ultimately show ?thesis by (rule that)
qed

lemma mmbuf_remove_too_long:
  "mb_data_len m < n \<Longrightarrow> mmbuf_remove_from_start m n = (None, m)"
  "mb_data_len m < n \<Longrightarrow> mmbuf_remove_from_end m n = (None, m)"
  by (simp_all add: mmbuf_remove_from_start_def mmbuf_remove_from_end_def mmbuf_get_defs)

text \<open>The bytes a removed header pointer refers to are the first bytes of the data.\<close>

lemma mem_read_data_start:
  assumes "mmbuf_inv m" "n \<le> mb_data_len m"
  shows "mem_read (mb_buf m) (mb_start_offset m) n = Some (take n (mmbuf_data m))"
  using assms by (simp add: mem_read_def mmbuf_inv_def mmbuf_data_def)

subsection \<open>Allocation\<close>

lemma or_3: "or n 3 = 4 * (n div 4) + (3 :: nat)"
proof -
  have "or k 1 = 1 + 2 * (k div 2)" for k :: nat
    by (subst or_nat_unfold) simp
  then show ?thesis
    by (subst or_nat_unfold) (simp add: div_mult2_eq [of n 2 2, simplified])
qed

lemma fast_round_up4_bounds:
  assumes "n + 4 \<le> 4294967296"
  shows "n \<le> fast_round_up4 n" "fast_round_up4 n < n + 4" "4 dvd fast_round_up4 n"
proof -
  have round_up: "fast_round_up4 n = (if n = 0 then 0 else 4 * ((n - 1) div 4) + 4)"
  proof (cases "n = 0")
    case True
    then show ?thesis by (simp add: fast_round_up4_def sub32_lt or_3) (simp add: u32_def)
  next
    case False
    with assms have "4 * ((n - 1) div 4) + 4 < 4294967296" by presburger
    with False assms show ?thesis by (simp add: fast_round_up4_def sub32_ge or_3 u32_id)
  qed
  then show "n \<le> fast_round_up4 n" "fast_round_up4 n < n + 4" "4 dvd fast_round_up4 n"
    by (auto; presburger)+
qed

lemma mmbuf_alloc_ok:
  assumes "s + e + 32 \<le> 4294967296"
  obtains "\<not> mh_malloc_ok h (mh_next h)"
      "mmbuf_alloc_on_heap s e h = Some (None, h\<lparr>mh_next := mh_next h + 1\<rparr>)"
  | m where "mh_malloc_ok h (mh_next h)"
      "mmbuf_alloc_on_heap s e h = Some (Some (mh_next h),
         h\<lparr>mh_live := (mh_live h)(mh_next h \<mapsto> m), mh_next := mh_next h + 1\<rparr>)"
      "mmbuf_inv m" "mmbuf_data m = []" "headroom m = s" "e \<le> tailroom m" "tailroom m < e + 4"
proof (cases "mh_malloc_ok h (mh_next h)")
  case False
  then show ?thesis using that(1) by (simp add: mmbuf_alloc_on_heap_def)
next
  case True
  let ?r = "fast_round_up4 (s + e)"
  let ?m = "mmbuf_init (replicate ?r 0) ?r s"
  have r: "s + e \<le> ?r" "?r < s + e + 4"
    using fast_round_up4_bounds [of "s + e"] assms by auto
  have "u32 (s + e) = s + e" "u32 (24 + ?r) = 24 + ?r"
    using assms r by (auto intro: u32_id)
  with True have "mmbuf_alloc_on_heap s e h = Some (Some (mh_next h),
      h\<lparr>mh_live := (mh_live h)(mh_next h \<mapsto> ?m), mh_next := mh_next h + 1\<rparr>)"
    by (simp add: mmbuf_alloc_on_heap_def Let_def)
  moreover from r assms have "mmbuf_inv ?m" "mmbuf_data ?m = []" "headroom ?m = s"
      "e \<le> tailroom ?m" "tailroom ?m < e + 4"
    by (auto simp: mmbuf_inv_def mmbuf_data_def mmbuf_init_def headroom_def tailroom_def)
  ultimately show ?thesis using that(2) True by blast
qed

lemma mmbuf_copy_ok:
  assumes "mmbuf_inv m" "mb_buf_len m + 24 < 4294967296" "mh_malloc_ok h (mh_next h)"
  obtains m' where "mmbuf_make_copy_on_heap junk m h = Some (Some (mh_next h),
      h\<lparr>mh_live := (mh_live h)(mh_next h \<mapsto> m'), mh_next := mh_next h + 1\<rparr>)"
    "mmbuf_inv m'" "mmbuf_data m' = mmbuf_data m" "headroom m' = headroom m"
    "tailroom m' = tailroom m"
proof -
  let ?junk = "map junk [0..<mb_buf_len m]"
  let ?m' = "m\<lparr>mb_buf := put_bytes ?junk (mb_start_offset m) (mmbuf_data m)\<rparr>"
  have bounds: "mb_start_offset m + mb_data_len m \<le> mb_buf_len m"
    using assms(1) by (simp add: mmbuf_inv_def)
  have "u32 (24 + mb_buf_len m) = 24 + mb_buf_len m"
    using assms(2) by (intro u32_id) simp
  moreover have "mem_read (mb_buf m) (mb_start_offset m) (mb_data_len m) = Some (mmbuf_data m)"
    using mem_read_data_start [OF assms(1), of "mb_data_len m"] assms(1) by simp
  moreover have "put_bytes ?junk (mb_start_offset m) (mmbuf_data m) = ?junk" if "mb_data_len m = 0"
    using that by (simp add: put_bytes_def mmbuf_data_def)
  ultimately have "mmbuf_make_copy_on_heap junk m h = Some (Some (mh_next h),
      h\<lparr>mh_live := (mh_live h)(mh_next h \<mapsto> ?m'), mh_next := mh_next h + 1\<rparr>)"
    using assms bounds
    by (cases m) (auto simp: mmbuf_make_copy_on_heap_def Let_def mmbuf_init_def mmbuf_get_defs
        mem_write_Some)
  moreover have "mmbuf_inv ?m'" "headroom ?m' = headroom m" "tailroom ?m' = tailroom m"
    using assms(1) bounds by (simp_all add: mmbuf_inv_def headroom_def tailroom_def)
  moreover have "mmbuf_data ?m' = mmbuf_data m"
    using bounds assms(1) window_put_bytes_before [of "mb_start_offset m" "mmbuf_data m" ?junk 0]
    by (simp add: mmbuf_data_def [of ?m'])
  ultimately show ?thesis using that by blast
qed

subsection \<open>The contract of the buffer operations\<close>

text \<open>
  What a buffer promises, on the triple of its free space in front, its data and its free space
  behind.
\<close>

type_synonym packet = "nat \<times> byte list \<times> nat"

definition packet_of :: "mmbuf \<Rightarrow> packet" where
  "packet_of m = (headroom m, mmbuf_data m, tailroom m)"

fun packet_prepend :: "packet \<Rightarrow> byte list \<Rightarrow> packet option" where
  "packet_prepend (h, d, t) bs = (if length bs \<le> h then Some (h - length bs, bs @ d, t) else None)"

fun packet_append :: "packet \<Rightarrow> byte list \<Rightarrow> packet option" where
  "packet_append (h, d, t) bs = (if length bs \<le> t then Some (h, d @ bs, t - length bs) else None)"

fun packet_pop_front :: "packet \<Rightarrow> nat \<Rightarrow> byte list option \<times> packet" where
  "packet_pop_front (h, d, t) n =
     (if n \<le> length d then (Some (take n d), (h + n, drop n d, t)) else (None, (h, d, t)))"

fun packet_pop_back :: "packet \<Rightarrow> nat \<Rightarrow> byte list option \<times> packet" where
  "packet_pop_back (h, d, t) n =
     (if n \<le> length d then (Some (drop (length d - n) d), (h, take (length d - n) d, t + n))
      else (None, (h, d, t)))"

fun packet_truncate :: "packet \<Rightarrow> nat \<Rightarrow> packet option" where
  "packet_truncate (h, d, t) n =
     (if n \<le> length d then Some (h, take n d, t + (length d - n)) else None)"

lemma prepend_data_refines:
  "mmbuf_inv m \<Longrightarrow> map_option packet_of (mmbuf_prepend_data m bs) = packet_prepend (packet_of m) bs"
  by (cases "length bs \<le> headroom m")
    (auto simp: packet_of_def mmbuf_prepend_data_no_room elim: mmbuf_prepend_data_ok)

lemma append_data_refines:
  "mmbuf_inv m \<Longrightarrow> map_option packet_of (mmbuf_append_data m bs) = packet_append (packet_of m) bs"
  by (cases "length bs \<le> tailroom m")
    (auto simp: packet_of_def mmbuf_append_data_no_room elim: mmbuf_append_data_ok)

text \<open>The bytes behind the pointer a removal of \<open>n\<close> bytes returns; the inner \<open>None\<close> is a read outside of the
  buffer.\<close>

definition removed_bytes :: "nat \<Rightarrow> nat option \<times> mmbuf \<Rightarrow> byte list option option" where
  "removed_bytes n r = map_option (\<lambda>p. mem_read (mb_buf (snd r)) p n) (fst r)"

lemma mem_read_data_end:
  assumes "mmbuf_inv m" "n \<le> mb_data_len m"
  shows "mem_read (mb_buf m) (mb_start_offset m + mb_data_len m - n) n
    = Some (drop (mb_data_len m - n) (mmbuf_data m))"
  using assms by (simp add: mem_read_def mmbuf_inv_def mmbuf_data_def drop_take add.commute)

lemma pop_front_refines:
  assumes "mmbuf_inv m"
  shows "removed_bytes n (mmbuf_remove_from_start m n) = map_option Some (fst (packet_pop_front (packet_of m) n))"
    "packet_of (snd (mmbuf_remove_from_start m n)) = snd (packet_pop_front (packet_of m) n)"
  using assms mem_read_data_start [OF assms, of n]
  by (cases "n \<le> mb_data_len m";
      auto simp: packet_of_def removed_bytes_def mmbuf_remove_too_long elim: mmbuf_remove_from_start_ok)+

lemma pop_back_refines:
  assumes "mmbuf_inv m"
  shows "removed_bytes n (mmbuf_remove_from_end m n) = map_option Some (fst (packet_pop_back (packet_of m) n))"
    "packet_of (snd (mmbuf_remove_from_end m n)) = snd (packet_pop_back (packet_of m) n)"
  using assms mem_read_data_end [OF assms, of n]
  by (cases "n \<le> mb_data_len m";
      auto simp: packet_of_def removed_bytes_def mmbuf_remove_too_long elim: mmbuf_remove_from_end_ok)+

lemma truncate_refines:
  "mmbuf_inv m \<Longrightarrow> map_option packet_of (mmbuf_truncate m n) = packet_truncate (packet_of m) n"
  by (auto simp: packet_of_def mmbuf_truncate_def)
    (auto simp: mmbuf_inv_def mmbuf_data_def headroom_def tailroom_def min_def)

text \<open>C7. The buffer operations implement a byte sequence with free space at both ends: prepending,
  appending and truncating fail exactly when the space or the data does not suffice, and otherwise
  change the data, the space in front and the space behind as the contract says; removing from
  either end returns \<open>NULL\<close> and keeps the buffer unchanged exactly when it holds too little data, and otherwise
  returns a pointer at which the bytes removed from that end are still read.\<close>

theorem mmbuf_ops_refine_packet:
  assumes "mmbuf_inv m"
  shows "map_option packet_of (mmbuf_prepend_data m bs) = packet_prepend (packet_of m) bs
    \<and> map_option packet_of (mmbuf_append_data m bs) = packet_append (packet_of m) bs
    \<and> removed_bytes n (mmbuf_remove_from_start m n) = map_option Some (fst (packet_pop_front (packet_of m) n))
    \<and> packet_of (snd (mmbuf_remove_from_start m n)) = snd (packet_pop_front (packet_of m) n)
    \<and> removed_bytes n (mmbuf_remove_from_end m n) = map_option Some (fst (packet_pop_back (packet_of m) n))
    \<and> packet_of (snd (mmbuf_remove_from_end m n)) = snd (packet_pop_back (packet_of m) n)
    \<and> map_option packet_of (mmbuf_truncate m n) = packet_truncate (packet_of m) n"
  using assms
  by (simp add: prepend_data_refines append_data_refines pop_front_refines pop_back_refines
      truncate_refines)

definition sample_mmbuf :: mmbuf where
  "sample_mmbuf = \<lparr>mb_buf = [0, 0, 1, 2, 3, 0], mb_buf_len = 6, mb_start_offset = 2, mb_data_len = 3\<rparr>"

lemma sample_mmbuf_inv: "mmbuf_inv sample_mmbuf"
  by (simp add: mmbuf_inv_def sample_mmbuf_def)

theorem mmbuf_ops_refine_packet_witness:
  "mmbuf_inv sample_mmbuf
    \<and> map_option packet_of (mmbuf_prepend_data sample_mmbuf [7]) = packet_prepend (packet_of sample_mmbuf) [7]
    \<and> removed_bytes 2 (mmbuf_remove_from_end sample_mmbuf 2)
        = map_option Some (fst (packet_pop_back (packet_of sample_mmbuf) 2))
    \<and> packet_of (snd (mmbuf_remove_from_end sample_mmbuf 2)) = snd (packet_pop_back (packet_of sample_mmbuf) 2)"
  using sample_mmbuf_inv mmbuf_ops_refine_packet [OF sample_mmbuf_inv, of "[7]" 2] by blast

text \<open>A buffer allocated for \<open>s\<close> bytes in front and \<open>e\<close> bytes behind provides them: when
  the allocation succeeds the new buffer is empty and well formed, a header of \<open>s\<close> bytes and
  data of \<open>e\<close> bytes both fit, the buffers already live are untouched and releasing the new one
  restores them; when it fails no buffer changes.\<close>

theorem mmbuf_alloc_provides:
  assumes "s + e + 32 \<le> 4294967296" "length hdr = s" "length bs = e" "mh_live h (mh_next h) = None"
  shows "\<exists>p h'. mmbuf_alloc_on_heap s e h = Some (p, h') \<and>
    (case p of None \<Rightarrow> mh_live h' = mh_live h
     | Some a \<Rightarrow> \<exists>m. mh_live h' = (mh_live h)(a \<mapsto> m) \<and> mh_live h a = None \<and> mmbuf_data m = []
        \<and> map_option mmbuf_data (do { m \<leftarrow> mmbuf_append_data m bs; mmbuf_prepend_data m hdr })
            = Some (hdr @ bs)
        \<and> map_option mh_live (mmbuf_release p h') = Some (mh_live h))"
proof (rule mmbuf_alloc_ok [OF assms(1), of h])
  fix m
  assume m: "mmbuf_alloc_on_heap s e h = Some (Some (mh_next h),
        h\<lparr>mh_live := (mh_live h)(mh_next h \<mapsto> m), mh_next := mh_next h + 1\<rparr>)"
    "mmbuf_inv m" "mmbuf_data m = []" "headroom m = s" "e \<le> tailroom m"
  have "length bs \<le> tailroom m" using m assms by simp
  with m(2) obtain m1 where m1: "mmbuf_append_data m bs = Some m1" "mmbuf_inv m1"
      "mmbuf_data m1 = bs" "headroom m1 = s"
    using m by (auto elim: mmbuf_append_data_ok)
  have "length hdr \<le> headroom m1" using m1 assms by simp
  with m1 obtain m2 where "mmbuf_prepend_data m1 hdr = Some m2" "mmbuf_data m2 = hdr @ bs"
    by (metis mmbuf_prepend_data_ok)
  with m m1 assms(4) show ?thesis
    by (auto simp: mmbuf_release_def fun_upd_idem_iff)
qed simp

definition empty_heap :: mm_heap where
  "empty_heap = \<lparr>mh_live = \<lambda>_. None, mh_next = 0, mh_malloc_ok = \<lambda>_. True\<rparr>"

theorem mmbuf_alloc_provides_witness:
  "mh_live empty_heap (mh_next empty_heap) = None \<and>
   (\<exists>p h'. mmbuf_alloc_on_heap 1 2 empty_heap = Some (p, h') \<and>
    (case p of None \<Rightarrow> mh_live h' = mh_live empty_heap
     | Some a \<Rightarrow> \<exists>m. mh_live h' = (mh_live empty_heap)(a \<mapsto> m) \<and> mh_live empty_heap a = None
        \<and> mmbuf_data m = []
        \<and> map_option mmbuf_data (do { m \<leftarrow> mmbuf_append_data m [8, 9]; mmbuf_prepend_data m [7] })
            = Some ([7] @ [8, 9])
        \<and> map_option mh_live (mmbuf_release p h') = Some (mh_live empty_heap)))"
proof -
  have "mh_live empty_heap (mh_next empty_heap) = None" by (simp add: empty_heap_def)
  then show ?thesis
    using mmbuf_alloc_provides [of 1 2 "[7]" "[8, 9]" empty_heap] by simp
qed

end
