(* ===== verification/Datalink.thy ===== *)
theory Datalink
  imports Crc Slip Mmbuf
begin

section \<open>The UART data link of the agent\<close>

text \<open>
  \<open>mmagic/agent/m2m_datalink/mmagic_datalink_uart.c\<close>: reassembly of SLIP frames into packet
  buffers, the one-byte link header with its optional CRC, and transmission. The world the data
  link works in extends the heap of packet buffers; the layers above extend it further.

  The SLIP receiver writes through a pointer into the current receive buffer. The model keeps the
  address of that buffer in \<open>dl_slip_ptr\<close> and lends its memory to \<open>slip_rx\<close> for each byte:
  once the buffer has been released the pointer reaches no memory at all, so that a write through
  it is \<open>None\<close>, and while somebody else owns the buffer the write changes that owner's packet.
  The \<open>buffer\<close> field of \<open>dl_slip\<close> itself is unused and stays empty.
\<close>

unbundle bit_operations_syntax

subsection \<open>State\<close>

record dl_world = mm_heap +
  dl_tx_crc_enabled :: bool
  dl_slip :: slip_rx_state
  dl_slip_ptr :: "nat option"
  dl_rxbuf :: "nat option"
  dl_max_rx_packet_size :: nat
  dl_uart_out :: "byte list"

type_synonym 'a dl_rx_cb = "nat \<Rightarrow> 'a dl_world_scheme \<Rightarrow> 'a dl_world_scheme option"

definition set_mmbuf :: "nat \<Rightarrow> mmbuf \<Rightarrow> 'a mm_heap_scheme \<Rightarrow> 'a mm_heap_scheme" where
  "set_mmbuf a m w = w\<lparr>mh_live := (mh_live w)(a \<mapsto> m)\<rparr>"

definition dl_slip_mem :: "'a dl_world_scheme \<Rightarrow> byte list" where
  "dl_slip_mem w =
     (case Option.bind (dl_slip_ptr w) (mh_live w) of None \<Rightarrow> [] | Some m \<Rightarrow> mb_buf m)"

definition dl_slip_rx ::
  "byte \<Rightarrow> 'a dl_world_scheme \<Rightarrow> (slip_rx_status \<times> 'a dl_world_scheme) option" where
  "dl_slip_rx c w = do {
     (status, st) \<leftarrow> slip_rx ((dl_slip w)\<lparr>buffer := dl_slip_mem w\<rparr>) c;
     let w' = w\<lparr>dl_slip := st\<lparr>buffer := []\<rparr>\<rparr>;
     Some (status,
       case dl_slip_ptr w of
         None \<Rightarrow> w'
       | Some a \<Rightarrow>
           (case mh_live w a of None \<Rightarrow> w' | Some m \<Rightarrow> set_mmbuf a (m\<lparr>mb_buf := buffer st\<rparr>) w'))
   }"

subsection \<open>Reception\<close>

definition datalink_init_slip_rx_state :: "'a dl_world_scheme \<Rightarrow> 'a dl_world_scheme option" where
  "datalink_init_slip_rx_state w = do {
     ensure (dl_rxbuf w = None);
     if dl_max_rx_packet_size w > 0 then do {
       (p, w) \<leftarrow> mmbuf_alloc_on_heap 0 (dl_max_rx_packet_size w) w;
       Some (case p of
           None \<Rightarrow> w\<lparr>dl_rxbuf := p\<rparr>
         | Some a \<Rightarrow> w\<lparr>dl_rxbuf := p, dl_slip_ptr := p,
             dl_slip := slip_rx_state_reinit (dl_slip w) [] (dl_max_rx_packet_size w)\<rparr>)
     }
     else Some w
   }"

text \<open>The check of a received CRC: \<open>None\<close> inside the result is the branch that drops the packet.\<close>

definition datalink_check_crc :: "mmbuf \<Rightarrow> (mmbuf option) option" where
  "datalink_check_crc m =
     (case mmbuf_remove_from_start m 2 of
        (None, m) \<Rightarrow> Some None
      | (Some rx_crc_buf, m) \<Rightarrow> do {
          crc_bytes \<leftarrow> mem_read (mb_buf m) rx_crc_buf 2;
          let rx_crc = ucast (crc_bytes ! 0) OR push_bit 8 (ucast (crc_bytes ! 1));
          bytes \<leftarrow> mem_read (mb_buf m) (mmbuf_get_data_start m) (mmbuf_get_data_length m);
          Some (if rx_crc \<noteq> mmcrc_16_xmodem 0 bytes then None else Some m)
        })"

definition datalink_process_rxbuf ::
  "'a dl_rx_cb option \<Rightarrow> nat \<Rightarrow> 'a dl_world_scheme \<Rightarrow> 'a dl_world_scheme option" where
  "datalink_process_rxbuf rx_callback a w = do {
     m \<leftarrow> mh_live w a;
     case mmbuf_remove_from_start m 1 of
       (None, m) \<Rightarrow> mmbuf_release (Some a) w
     | (Some hdr, m) \<Rightarrow> do {
         hdr_bytes \<leftarrow> mem_read (mb_buf m) hdr 1;
         let hdr = hdr_bytes ! 0;
         checked \<leftarrow> (if hdr AND 0x80 \<noteq> 0 then datalink_check_crc m else Some (Some m));
         case checked of
           None \<Rightarrow> mmbuf_release (Some a) w
         | Some m \<Rightarrow>
             if hdr AND 0x0f \<noteq> 0 then mmbuf_release (Some a) w
             else (case rx_callback of
                     None \<Rightarrow> mmbuf_release (Some a) w
                   | Some cb \<Rightarrow> cb a (set_mmbuf a m w))
       }
   }"

definition datalink_uart_rx_byte ::
  "'a dl_rx_cb option \<Rightarrow> byte \<Rightarrow> 'a dl_world_scheme \<Rightarrow> 'a dl_world_scheme option" where
  "datalink_uart_rx_byte rx_callback c w = do {
     (status, w) \<leftarrow> dl_slip_rx c w;
     if status = SLIP_RX_COMPLETE then do {
       let rxbuf = dl_rxbuf w;
       let w = w\<lparr>dl_rxbuf := None\<rparr>;
       w \<leftarrow> (case rxbuf of
               None \<Rightarrow> Some w
             | Some a \<Rightarrow> do {
                 m \<leftarrow> mh_live w a;
                 (_, m) \<leftarrow> mmbuf_append m (rx_length (dl_slip w));
                 datalink_process_rxbuf rx_callback a (set_mmbuf a m w)
               });
       datalink_init_slip_rx_state w
     }
     else Some w
   }"

fun datalink_uart_rx_loop ::
  "'a dl_rx_cb option \<Rightarrow> byte list \<Rightarrow> 'a dl_world_scheme \<Rightarrow> 'a dl_world_scheme option" where
  "datalink_uart_rx_loop rx_callback [] w = Some w"
| "datalink_uart_rx_loop rx_callback (c # cs) w = do {
     w \<leftarrow> datalink_uart_rx_byte rx_callback c w;
     datalink_uart_rx_loop rx_callback cs w
   }"

definition datalink_uart_rx_handler ::
  "'a dl_rx_cb option \<Rightarrow> byte list \<Rightarrow> 'a dl_world_scheme \<Rightarrow> 'a dl_world_scheme option" where
  "datalink_uart_rx_handler rx_callback data w = do {
     w \<leftarrow> (if dl_rxbuf w = None then datalink_init_slip_rx_state w else Some w);
     datalink_uart_rx_loop rx_callback data w
   }"

subsection \<open>Initialisation and transmission\<close>

datatype datalink_deep_sleep_mode =
  MMAGIC_DATALINK_AGENT_DEEP_SLEEP_DISABLED
| MMAGIC_DATALINK_AGENT_DEEP_SLEEP_ONE_SHOT
| MMAGIC_DATALINK_AGENT_DEEP_SLEEP_HARDWARE

datatype uart_deep_sleep_mode = MMHAL_UART_DEEP_SLEEP_DISABLED | MMHAL_UART_DEEP_SLEEP_ONE_SHOT

text \<open>The UART driver's \<open>mmhal_uart_set_deep_sleep_mode\<close> is a parameter.\<close>

type_synonym 'w uart_sleep_fn = "uart_deep_sleep_mode \<Rightarrow> 'w \<Rightarrow> bool \<times> 'w"

fun mmagic_datalink_agent_set_deep_sleep_mode ::
  "'w uart_sleep_fn \<Rightarrow> datalink_deep_sleep_mode \<Rightarrow> 'w \<Rightarrow> bool \<times> 'w" where
  "mmagic_datalink_agent_set_deep_sleep_mode hal MMAGIC_DATALINK_AGENT_DEEP_SLEEP_DISABLED w =
     hal MMHAL_UART_DEEP_SLEEP_DISABLED w"
| "mmagic_datalink_agent_set_deep_sleep_mode hal MMAGIC_DATALINK_AGENT_DEEP_SLEEP_ONE_SHOT w =
     hal MMHAL_UART_DEEP_SLEEP_ONE_SHOT w"
| "mmagic_datalink_agent_set_deep_sleep_mode hal MMAGIC_DATALINK_AGENT_DEEP_SLEEP_HARDWARE w =
     (False, w)"

definition slip_rx_zero :: slip_rx_state where
  "slip_rx_zero = \<lparr>buffer = [], buffer_length = 0, rx_length = 0, escape = False, frame_started = False\<rparr>"

text \<open>The result is whether a handle, and not a null pointer, is returned.\<close>

definition mmagic_datalink_agent_init ::
  "'a dl_world_scheme uart_sleep_fn \<Rightarrow> 'a dl_rx_cb option \<Rightarrow> nat \<Rightarrow> 'a dl_world_scheme
    \<Rightarrow> (bool \<times> 'a dl_world_scheme) option" where
  "mmagic_datalink_agent_init hal rx_callback max_packet_size w = do {
     let w = w\<lparr>dl_tx_crc_enabled := False, dl_slip := slip_rx_zero, dl_slip_ptr := None,
               dl_rxbuf := None, dl_max_rx_packet_size := max_packet_size\<rparr>;
     if rx_callback = None \<or> max_packet_size = 0 then Some (False, w)
     else do {
       let (_, w) = mmagic_datalink_agent_set_deep_sleep_mode hal
                      MMAGIC_DATALINK_AGENT_DEEP_SLEEP_DISABLED w;
       w \<leftarrow> datalink_init_slip_rx_state w;
       Some (True, w)
     }
   }"

definition mmagic_datalink_agent_deinit :: "'a dl_world_scheme \<Rightarrow> 'a dl_world_scheme option" where
  "mmagic_datalink_agent_deinit w = do {
     w \<leftarrow> mmbuf_release (dl_rxbuf w) w;
     Some (w\<lparr>dl_rxbuf := None, dl_slip_ptr := None, dl_slip := (dl_slip w)\<lparr>buffer_length := 0\<rparr>\<rparr>)
   }"

definition mmagic_datalink_agent_alloc_buffer_for_tx ::
  "nat \<Rightarrow> nat \<Rightarrow> 'a mm_heap_scheme \<Rightarrow> (nat option \<times> 'a mm_heap_scheme) option" where
  "mmagic_datalink_agent_alloc_buffer_for_tx header_size payload_size w =
     mmbuf_alloc_on_heap (u32 (header_size + 1)) (u32 (payload_size + 2)) w"

definition datalink_slip_tx_handler :: "byte list slip_transport_tx_fn" where
  "datalink_slip_tx_handler c uart = (0, uart @ [c])"

definition mmagic_datalink_agent_tx_buffer ::
  "nat \<Rightarrow> 'a dl_world_scheme \<Rightarrow> (int \<times> 'a dl_world_scheme) option" where
  "mmagic_datalink_agent_tx_buffer a w = do {
     m \<leftarrow> mh_live w a;
     (hdr, m) \<leftarrow> (if dl_tx_crc_enabled w then do {
            bytes \<leftarrow> mem_read (mb_buf m) (mmbuf_get_data_start m) (mmbuf_get_data_length m);
            let crc = mmcrc_16_xmodem 0 bytes;
            m \<leftarrow> mmbuf_append_data m [ucast crc, ucast (drop_bit 8 crc)];
            Some (0 OR 0x80, m)
          } else Some (0, m));
     m \<leftarrow> mmbuf_prepend_data m [hdr];
     let packet_len = mmbuf_get_data_length m;
     packet \<leftarrow> mem_read (mb_buf m) (mmbuf_get_data_start m) packet_len;
     let (ret, uart) = slip_tx datalink_slip_tx_handler (dl_uart_out w) packet;
     w \<leftarrow> mmbuf_release (Some a) (w\<lparr>dl_uart_out := uart\<rparr>);
     Some (if ret = 0 then int packet_len else ret, w)
   }"

subsection \<open>Reassembly\<close>

text \<open>The receive buffer is live, owned by the data link and the one the SLIP receiver writes to.\<close>

definition dl_linked :: "nat \<Rightarrow> mmbuf \<Rightarrow> 'a dl_world_scheme \<Rightarrow> bool" where
  "dl_linked a m w \<longleftrightarrow> dl_rxbuf w = Some a \<and> dl_slip_ptr w = Some a \<and> mh_live w a = Some m"

definition dl_progress :: "nat \<Rightarrow> mmbuf \<Rightarrow> slip_rx_state \<Rightarrow> 'a dl_world_scheme \<Rightarrow> 'a dl_world_scheme" where
  "dl_progress a m st w = set_mmbuf a (m\<lparr>mb_buf := buffer st\<rparr>) (w\<lparr>dl_slip := st\<lparr>buffer := []\<rparr>\<rparr>)"

lemma dl_slip_rx_linked:
  assumes "dl_linked a m w" "slip_rx ((dl_slip w)\<lparr>buffer := mb_buf m\<rparr>) c = Some (r, st)"
  shows "dl_slip_rx c w = Some (r, dl_progress a m st w)"
  using assms by (simp add: dl_linked_def dl_slip_rx_def dl_slip_mem_def dl_progress_def)

lemma dl_linked_progress:
  assumes "dl_linked a m w"
  shows "dl_linked a (m\<lparr>mb_buf := buffer st\<rparr>) (dl_progress a m st w)"
    "(dl_slip (dl_progress a m st w))\<lparr>buffer := mb_buf (m\<lparr>mb_buf := buffer st\<rparr>)\<rparr> = st"
    "dl_progress a (m\<lparr>mb_buf := buffer st\<rparr>) st' (dl_progress a m st w) = dl_progress a m st' w"
  using assms by (simp_all add: dl_linked_def dl_progress_def set_mmbuf_def)

lemma datalink_uart_rx_byte_in_progress:
  assumes "dl_linked a m w" "slip_rx ((dl_slip w)\<lparr>buffer := mb_buf m\<rparr>) c = Some (r, st)"
    "r \<noteq> SLIP_RX_COMPLETE"
  shows "datalink_uart_rx_byte cb c w = Some (dl_progress a m st w)"
  using assms(3) by (simp add: datalink_uart_rx_byte_def dl_slip_rx_linked [OF assms(1,2)])

lemma datalink_uart_rx_loop_in_progress:
  assumes "dl_linked a m w"
    "slip_rx_bytes ((dl_slip w)\<lparr>buffer := mb_buf m\<rparr>) cs = Some (rs, st)"
    "SLIP_RX_COMPLETE \<notin> set rs" "cs \<noteq> []"
  shows "datalink_uart_rx_loop cb cs w = Some (dl_progress a m st w)"
  using assms
proof (induction cs arbitrary: w m rs)
  case Nil
  then show ?case by simp
next
  case (Cons c cs)
  from Cons.prems(2) obtain r st1 rs' where
    c: "slip_rx ((dl_slip w)\<lparr>buffer := mb_buf m\<rparr>) c = Some (r, st1)"
    and cs: "slip_rx_bytes st1 cs = Some (rs', st)" and rs: "rs = r # rs'"
    by (auto split: Option.bind_splits)
  have byte: "datalink_uart_rx_byte cb c w = Some (dl_progress a m st1 w)"
    using Cons.prems c rs by (intro datalink_uart_rx_byte_in_progress) auto
  note linked = dl_linked_progress [OF Cons.prems(1), of st1]
  show ?case
  proof (cases "cs = []")
    case True
    then show ?thesis using byte cs by simp
  next
    case False
    then have "datalink_uart_rx_loop cb cs (dl_progress a m st1 w)
      = Some (dl_progress a (m\<lparr>mb_buf := buffer st1\<rparr>) st (dl_progress a m st1 w))"
      using Cons.prems rs cs linked by (intro Cons.IH) auto
    then show ?thesis using byte linked(3) by simp
  qed
qed

lemma datalink_uart_rx_loop_append:
  "datalink_uart_rx_loop cb (cs @ ds) w = do {
     w \<leftarrow> datalink_uart_rx_loop cb cs w;
     datalink_uart_rx_loop cb ds w
   }"
  by (induction cs arbitrary: w) (auto split: Option.bind_splits simp: Option.bind_assoc)

lemma datalink_uart_rx_loop_one: "datalink_uart_rx_loop cb [c] w = datalink_uart_rx_byte cb c w"
  by (cases "datalink_uart_rx_byte cb c w") simp_all

text \<open>The data link waits for a frame: its receive buffer is empty and the receiver between frames.\<close>

definition dl_idle :: "'a dl_world_scheme \<Rightarrow> bool" where
  "dl_idle w \<longleftrightarrow> (\<exists>a m. dl_linked a m w \<and> mmbuf_inv m \<and> mb_start_offset m = 0 \<and> mb_data_len m = 0
     \<and> dl_max_rx_packet_size w \<le> mb_buf_len m
     \<and> buffer_length (dl_slip w) = dl_max_rx_packet_size w
     \<and> rx_length (dl_slip w) = 0 \<and> \<not> escape (dl_slip w) \<and> 0 < dl_max_rx_packet_size w)"

lemma datalink_receives_frame:
  assumes "dl_idle w" "frame \<noteq> []" "length frame \<le> dl_max_rx_packet_size w"
  shows "\<exists>a w' m'. datalink_uart_rx_loop cb (SLIP_FRAME_END # slip_encs frame @ [SLIP_FRAME_END]) w
      = do { w \<leftarrow> datalink_process_rxbuf cb a w'; datalink_init_slip_rx_state w }
    \<and> dl_rxbuf w = Some a \<and> dl_rxbuf w' = None \<and> mh_live w' = (mh_live w)(a \<mapsto> m')
    \<and> mmbuf_inv m' \<and> headroom m' = 0 \<and> mmbuf_data m' = frame
    \<and> w' = w\<lparr>mh_live := mh_live w', dl_slip := dl_slip w', dl_rxbuf := None\<rparr>
    \<and> dl_slip_ptr w = Some a \<and> rx_length (dl_slip w') = length frame
    \<and> buffer_length (dl_slip w') = dl_max_rx_packet_size w
    \<and> \<not> escape (dl_slip w') \<and> frame_started (dl_slip w')"
proof -
  from assms(1) obtain a m where linked: "dl_linked a m w" and m: "mmbuf_inv m"
      "mb_start_offset m = 0" "mb_data_len m = 0" "dl_max_rx_packet_size w \<le> mb_buf_len m"
    and slip: "buffer_length (dl_slip w) = dl_max_rx_packet_size w" "rx_length (dl_slip w) = 0"
      "\<not> escape (dl_slip w)"
    unfolding dl_idle_def by blast
  let ?st = "(dl_slip w)\<lparr>buffer := mb_buf m\<rparr>"
  have "slip_inv ?st"
    using m slip by (simp add: slip_inv_def mmbuf_inv_def)
  with slip_rx_delivers [of ?st frame] slip assms obtain st' where
    body: "slip_rx_bytes ?st (SLIP_FRAME_END # slip_encs frame)
        = Some (replicate (Suc (length (slip_encs frame))) SLIP_RX_IN_PROGRESS, st')"
    and last: "slip_rx st' SLIP_FRAME_END = Some (SLIP_RX_COMPLETE, st')"
    and st': "slip_inv st'" "same_buffer ?st st'" "rx_length st' = length frame"
      "take (length frame) (buffer st') = frame" "\<not> escape st'" "frame_started st'"
    by auto
  let ?w1 = "dl_progress a m st' w" and ?m1 = "m\<lparr>mb_buf := buffer st'\<rparr>"
  let ?m' = "?m1\<lparr>mb_data_len := length frame\<rparr>"
  let ?w' = "set_mmbuf a ?m' (?w1\<lparr>dl_rxbuf := None\<rparr>)"
  have loop: "datalink_uart_rx_loop cb (SLIP_FRAME_END # slip_encs frame) w = Some ?w1"
    by (rule datalink_uart_rx_loop_in_progress [OF linked body]) auto
  note linked1 = dl_linked_progress [OF linked, of st']
  have "dl_slip_rx SLIP_FRAME_END ?w1 = Some (SLIP_RX_COMPLETE, ?w1)"
    using dl_slip_rx_linked [OF linked1(1), of SLIP_FRAME_END] linked1(2,3) last by simp
  moreover have "mmbuf_inv ?m1" "length frame \<le> tailroom ?m1"
    using m st' assms(3) by (auto simp: mmbuf_inv_def same_buffer_def tailroom_def)
  then have "mmbuf_append ?m1 (length frame) = Some (0, ?m')"
    using m by (simp add: mmbuf_append_ok)
  ultimately have "datalink_uart_rx_byte cb SLIP_FRAME_END ?w1
      = do { w \<leftarrow> datalink_process_rxbuf cb a ?w'; datalink_init_slip_rx_state w }"
    using linked1(1) st'(3)
    by (simp add: datalink_uart_rx_byte_def dl_linked_def) (simp add: dl_progress_def set_mmbuf_def)
  with loop have "datalink_uart_rx_loop cb (SLIP_FRAME_END # slip_encs frame @ [SLIP_FRAME_END]) w
      = do { w \<leftarrow> datalink_process_rxbuf cb a ?w'; datalink_init_slip_rx_state w }"
    using datalink_uart_rx_loop_append [of cb "SLIP_FRAME_END # slip_encs frame" "[SLIP_FRAME_END]" w]
    by (simp only: append_Cons bind.bind_lunit datalink_uart_rx_loop_one)
  moreover have "mmbuf_inv ?m'" "headroom ?m' = 0" "mmbuf_data ?m' = frame"
    using m st' assms(3) by (auto simp: mmbuf_inv_def same_buffer_def headroom_def mmbuf_data_def)
  moreover have "mh_live ?w' = (mh_live w)(a \<mapsto> ?m')" "dl_rxbuf ?w' = None"
    by (simp_all add: dl_progress_def set_mmbuf_def)
  moreover have "?w' = w\<lparr>mh_live := mh_live ?w', dl_slip := dl_slip ?w', dl_rxbuf := None\<rparr>"
    by (simp add: dl_progress_def set_mmbuf_def)
  moreover have "rx_length (dl_slip ?w') = length frame" "\<not> escape (dl_slip ?w')"
      "buffer_length (dl_slip ?w') = dl_max_rx_packet_size w" "frame_started (dl_slip ?w')"
    using st' slip by (simp_all add: dl_progress_def set_mmbuf_def same_buffer_def)
  ultimately show ?thesis
    using linked unfolding dl_linked_def by blast
qed

subsection \<open>What is transmitted is delivered\<close>

definition crc_le :: "byte list \<Rightarrow> byte list" where
  "crc_le bs = [ucast (mmcrc_16_xmodem 0 bs), ucast (drop_bit 8 (mmcrc_16_xmodem 0 bs))]"

definition datalink_frame :: "bool \<Rightarrow> byte list \<Rightarrow> byte list" where
  "datalink_frame crc_enabled bs = (if crc_enabled then 0x80 # bs @ crc_le bs else 0 # bs)"

lemma datalink_slip_tx_handler_recording: "datalink_slip_tx_handler = recording_tx"
  by (simp add: fun_eq_iff datalink_slip_tx_handler_def recording_tx_def)

lemma mem_read_data:
  "mmbuf_inv m \<Longrightarrow> mem_read (mb_buf m) (mmbuf_get_data_start m) (mmbuf_get_data_length m) = Some (mmbuf_data m)"
  using mem_read_data_start [of m "mb_data_len m"] by (simp add: mmbuf_get_defs)

lemma datalink_tx_frame:
  assumes "mh_live w a = Some m" "mmbuf_inv m" "1 \<le> headroom m"
    "dl_tx_crc_enabled w \<Longrightarrow> 2 \<le> tailroom m"
  shows "mmagic_datalink_agent_tx_buffer a w
    = Some (int (length (datalink_frame (dl_tx_crc_enabled w) (mmbuf_data m))),
        w\<lparr>mh_live := (mh_live w)(a := None),
          dl_uart_out := dl_uart_out w @ SLIP_FRAME_END
            # slip_encs (datalink_frame (dl_tx_crc_enabled w) (mmbuf_data m)) @ [SLIP_FRAME_END]\<rparr>)"
proof -
  let ?hdr = "if dl_tx_crc_enabled w then 0x80 else 0 :: byte"
    and ?trailer = "if dl_tx_crc_enabled w then crc_le (mmbuf_data m) else []"
  obtain m1 where m1: "(if dl_tx_crc_enabled w then do {
            bytes \<leftarrow> mem_read (mb_buf m) (mmbuf_get_data_start m) (mmbuf_get_data_length m);
            let crc = mmcrc_16_xmodem 0 bytes;
            m \<leftarrow> mmbuf_append_data m [ucast crc, ucast (drop_bit 8 crc)];
            Some (0 OR 0x80, m)
          } else Some (0, m)) = Some (?hdr, m1)"
      "mmbuf_inv m1" "mmbuf_data m1 = mmbuf_data m @ ?trailer" "headroom m1 = headroom m"
  proof (cases "dl_tx_crc_enabled w")
    case True
    then have "length (crc_le (mmbuf_data m)) \<le> tailroom m"
      using assms(4) by (simp add: crc_le_def)
    with assms(2) obtain m1 where "mmbuf_append_data m (crc_le (mmbuf_data m)) = Some m1"
        "mmbuf_inv m1" "mmbuf_data m1 = mmbuf_data m @ crc_le (mmbuf_data m)" "headroom m1 = headroom m"
      by (metis mmbuf_append_data_ok)
    with True that show ?thesis
      using assms(2) by (simp add: mem_read_data crc_le_def Let_def)
  next
    case False
    with that assms show ?thesis by simp
  qed
  have "length [?hdr] \<le> headroom m1" using m1 assms by simp
  with m1(2) obtain m2 where m2: "mmbuf_prepend_data m1 [?hdr] = Some m2" "mmbuf_inv m2"
      "mmbuf_data m2 = [?hdr] @ mmbuf_data m1"
    by (metis mmbuf_prepend_data_ok)
  then have frame: "mmbuf_data m2 = datalink_frame (dl_tx_crc_enabled w) (mmbuf_data m)"
    using m1 by (simp add: datalink_frame_def)
  then have "mmbuf_get_data_length m2 = length (datalink_frame (dl_tx_crc_enabled w) (mmbuf_data m))"
    using m2(2) length_mmbuf_data [of m2] by (simp add: mmbuf_get_defs)
  then show ?thesis
    using assms(1) m1(1) m2 mem_read_data [OF m2(2)] frame
    by (simp add: mmagic_datalink_agent_tx_buffer_def datalink_slip_tx_handler_recording
        slip_tx_recording mmbuf_release_def Let_def)
qed

lemma datalink_process_plain:
  assumes "mh_live w a = Some m" "mmbuf_inv m" "mmbuf_data m = hdr # bs"
    "hdr AND 0x80 = 0" "hdr AND 0x0f = 0"
  obtains m' where "datalink_process_rxbuf (Some cb) a w = cb a (set_mmbuf a m' w)"
    "mmbuf_inv m'" "mmbuf_data m' = bs" "headroom m' = headroom m + 1"
proof -
  have len: "1 \<le> mb_data_len m"
    using assms(2,3) length_mmbuf_data [of m] by simp
  with assms(2) obtain m' where m': "mmbuf_remove_from_start m 1 = (Some (mb_start_offset m), m')"
      "mmbuf_inv m'" "mb_buf m' = mb_buf m" "mmbuf_data m' = drop 1 (mmbuf_data m)"
      "headroom m' = headroom m + 1"
    by (rule mmbuf_remove_from_start_ok) blast
  then show ?thesis
    using that [of m'] assms mem_read_data_start [OF assms(2) len]
    by (simp add: datalink_process_rxbuf_def)
qed

text \<open>Round trip: a packet transmitted by one data link, received by an idle peer, reaches the
  peer's receive callback exactly once and with the data that was sent, whatever its bytes are; the
  sender's buffer is released, and when the callback has returned the peer takes a new receive
  buffer.\<close>

theorem datalink_round_trip:
  assumes "mh_live ws a = Some m" "mmbuf_inv m" "1 \<le> headroom m" "\<not> dl_tx_crc_enabled ws"
    and "dl_uart_out ws = []" "dl_idle wr" "length (mmbuf_data m) < dl_max_rx_packet_size wr"
  shows "\<exists>ws' wr' b m'.
    mmagic_datalink_agent_tx_buffer a ws = Some (int (length (mmbuf_data m)) + 1, ws')
    \<and> mh_live ws' = (mh_live ws)(a := None)
    \<and> datalink_uart_rx_handler (Some cb) (dl_uart_out ws') wr
        = do { w \<leftarrow> cb b wr'; datalink_init_slip_rx_state w }
    \<and> dl_rxbuf wr' = None \<and> mh_live wr' b = Some m' \<and> mmbuf_inv m' \<and> mmbuf_data m' = mmbuf_data m"
proof -
  let ?frame = "0 # mmbuf_data m"
  have tx: "mmagic_datalink_agent_tx_buffer a ws = Some (int (length (mmbuf_data m)) + 1,
      ws\<lparr>mh_live := (mh_live ws)(a := None),
        dl_uart_out := SLIP_FRAME_END # slip_encs ?frame @ [SLIP_FRAME_END]\<rparr>)"
    using assms datalink_tx_frame [of ws a m] by (simp add: datalink_frame_def)
  have "?frame \<noteq> []" "length ?frame \<le> dl_max_rx_packet_size wr"
    using assms by auto
  from datalink_receives_frame [OF assms(6) this] obtain b w1 m1 where
    rx: "datalink_uart_rx_loop (Some cb) (SLIP_FRAME_END # slip_encs ?frame @ [SLIP_FRAME_END]) wr
      = do { w \<leftarrow> datalink_process_rxbuf (Some cb) b w1; datalink_init_slip_rx_state w }"
    and b: "dl_rxbuf wr = Some b" "dl_rxbuf w1 = None" "mh_live w1 = (mh_live wr)(b \<mapsto> m1)"
      "mmbuf_inv m1" "mmbuf_data m1 = ?frame"
    by blast
  have "mh_live w1 b = Some m1" using b by simp
  from datalink_process_plain [OF this b(4,5)] obtain m2 where
    m2: "datalink_process_rxbuf (Some cb) b w1 = cb b (set_mmbuf b m2 w1)"
      "mmbuf_inv m2" "mmbuf_data m2 = mmbuf_data m"
    by auto
  have "datalink_uart_rx_handler (Some cb) (SLIP_FRAME_END # slip_encs ?frame @ [SLIP_FRAME_END]) wr
      = do { w \<leftarrow> cb b (set_mmbuf b m2 w1); datalink_init_slip_rx_state w }"
    using rx b(1) m2(1) by (simp add: datalink_uart_rx_handler_def del: datalink_uart_rx_loop.simps)
  moreover have "dl_rxbuf (set_mmbuf b m2 w1) = None" "mh_live (set_mmbuf b m2 w1) b = Some m2"
    using b by (simp_all add: set_mmbuf_def)
  ultimately show ?thesis
    using tx m2 by (intro exI conjI) (assumption | simp)+
qed

definition sample_rx_world :: dl_world where
  "sample_rx_world =
     \<lparr>mh_live = [0 \<mapsto> \<lparr>mb_buf = [0, 0, 0, 0], mb_buf_len = 4, mb_start_offset = 0, mb_data_len = 0\<rparr>],
      mh_next = 1, mh_malloc_ok = \<lambda>n. n < 1, dl_tx_crc_enabled = False,
      dl_slip = slip_rx_zero\<lparr>buffer_length := 4\<rparr>, dl_slip_ptr = Some 0, dl_rxbuf = Some 0,
      dl_max_rx_packet_size = 4, dl_uart_out = []\<rparr>"

definition sample_tx_world :: "bool \<Rightarrow> dl_world" where
  "sample_tx_world crc = sample_rx_world\<lparr>mh_live := [0 \<mapsto> sample_mmbuf], dl_tx_crc_enabled := crc\<rparr>"

lemma sample_rx_world_idle: "dl_idle sample_rx_world"
  by (simp add: dl_idle_def dl_linked_def sample_rx_world_def mmbuf_inv_def slip_rx_zero_def)

theorem datalink_round_trip_witness:
  "dl_idle sample_rx_world \<and> mmbuf_inv sample_mmbuf \<and> mmbuf_data sample_mmbuf = [1, 2, 3] \<and>
   (\<exists>ws' wr' b m'.
    mmagic_datalink_agent_tx_buffer 0 (sample_tx_world False)
      = Some (int (length (mmbuf_data sample_mmbuf)) + 1, ws')
    \<and> mh_live ws' = (mh_live (sample_tx_world False))(0 := None)
    \<and> datalink_uart_rx_handler (Some (mmbuf_release \<circ> Some)) (dl_uart_out ws') sample_rx_world
        = do { w \<leftarrow> (mmbuf_release \<circ> Some) b wr'; datalink_init_slip_rx_state w }
    \<and> dl_rxbuf wr' = None \<and> mh_live wr' b = Some m' \<and> mmbuf_inv m'
    \<and> mmbuf_data m' = mmbuf_data sample_mmbuf)"
proof -
  have "mmbuf_data sample_mmbuf = [1, 2, 3]"
    by (simp add: mmbuf_data_def sample_mmbuf_def)
  moreover have "mh_live (sample_tx_world False) 0 = Some sample_mmbuf"
      "\<not> dl_tx_crc_enabled (sample_tx_world False)" "dl_uart_out (sample_tx_world False) = []"
      "dl_max_rx_packet_size sample_rx_world = 4" "1 \<le> headroom sample_mmbuf"
    by (simp_all add: sample_tx_world_def sample_rx_world_def headroom_def sample_mmbuf_def)
  ultimately show ?thesis
    using sample_rx_world_idle sample_mmbuf_inv
    by (intro conjI datalink_round_trip) simp_all
qed

subsection \<open>The optional CRC\<close>

definition le16 :: "byte list \<Rightarrow> 16 word" where
  "le16 bs = ucast (bs ! 0) OR push_bit 8 (ucast (bs ! 1))"

lemma datalink_check_crc_spec:
  assumes "mmbuf_inv m"
  shows "if 2 \<le> length (mmbuf_data m) \<and> le16 (mmbuf_data m) = mmcrc_16_xmodem 0 (drop 2 (mmbuf_data m))
    then \<exists>m'. datalink_check_crc m = Some (Some m') \<and> mmbuf_inv m' \<and> mmbuf_data m' = drop 2 (mmbuf_data m)
    else datalink_check_crc m = Some None"
proof (cases "2 \<le> mb_data_len m")
  case False
  then show ?thesis
    using assms by (simp add: datalink_check_crc_def mmbuf_remove_too_long)
next
  case True
  with assms obtain m' where m': "mmbuf_remove_from_start m 2 = (Some (mb_start_offset m), m')"
      "mmbuf_inv m'" "mb_buf m' = mb_buf m" "mmbuf_data m' = drop 2 (mmbuf_data m)"
    by (rule mmbuf_remove_from_start_ok) blast
  moreover have "length (mmbuf_data m) = mb_data_len m" using assms by simp
  moreover have "le16 (take 2 (mmbuf_data m)) = le16 (mmbuf_data m)"
    by (simp add: le16_def)
  ultimately show ?thesis
    using assms True mem_read_data_start [OF assms True] mem_read_data [of m']
    by (simp add: datalink_check_crc_def le16_def)
qed

text \<open>The receiver looks for the CRC directly behind the link header, over the bytes that follow
  it, while the transmitter appends it behind the data: a frame sent with the CRC enabled is
  accepted only if the first two bytes of its body happen to be the CRC of the rest of body and
  trailer, and then what is delivered lacks them. Every other frame of the transmitter is dropped
  and its buffer released.\<close>

theorem datalink_crc_placement:
  assumes "mh_live w a = Some m" "mmbuf_inv m" "mmbuf_data m = datalink_frame True bs"
  shows "if le16 (bs @ crc_le bs) = mmcrc_16_xmodem 0 (drop 2 (bs @ crc_le bs))
    then \<exists>m'. datalink_process_rxbuf (Some cb) a w = cb a (set_mmbuf a m' w)
      \<and> mmbuf_data m' = drop 2 (bs @ crc_le bs)
    else datalink_process_rxbuf (Some cb) a w = mmbuf_release (Some a) w"
proof -
  have frame: "mmbuf_data m = 0x80 # bs @ crc_le bs"
    using assms(3) by (simp add: datalink_frame_def)
  then have len: "1 \<le> mb_data_len m"
    using assms(2) length_mmbuf_data [of m] by simp
  with assms(2) obtain m1 where m1: "mmbuf_remove_from_start m 1 = (Some (mb_start_offset m), m1)"
      "mmbuf_inv m1" "mb_buf m1 = mb_buf m" "mmbuf_data m1 = drop 1 (mmbuf_data m)"
    by (rule mmbuf_remove_from_start_ok) blast
  then have body: "mmbuf_data m1 = bs @ crc_le bs" "2 \<le> length (mmbuf_data m1)"
    using frame by (simp_all add: crc_le_def)
  have "datalink_process_rxbuf (Some cb) a w = do {
      checked \<leftarrow> datalink_check_crc m1;
      case checked of None \<Rightarrow> mmbuf_release (Some a) w | Some m \<Rightarrow> cb a (set_mmbuf a m w)
    }"
    using m1 assms(1) mem_read_data_start [OF assms(2) len] frame
    by (simp add: datalink_process_rxbuf_def cong: option.case_cong)
  then show ?thesis
    using datalink_check_crc_spec [OF m1(2)] body by (auto split: if_splits)
qed

definition crc_frame_mmbuf :: mmbuf where
  "crc_frame_mmbuf = \<lparr>mb_buf = datalink_frame True [1, 2], mb_buf_len = 5, mb_start_offset = 0,
     mb_data_len = 5\<rparr>"

theorem datalink_crc_placement_witness:
  "mmbuf_data crc_frame_mmbuf = datalink_frame True [1, 2] \<and>
   datalink_process_rxbuf (Some (mmbuf_release \<circ> Some)) 0 (sample_rx_world\<lparr>mh_live := [0 \<mapsto> crc_frame_mmbuf]\<rparr>)
     = mmbuf_release (Some 0) (sample_rx_world\<lparr>mh_live := [0 \<mapsto> crc_frame_mmbuf]\<rparr>)"
proof -
  have frame: "mmbuf_inv crc_frame_mmbuf" "mmbuf_data crc_frame_mmbuf = datalink_frame True [1, 2]"
    by (simp_all add: mmbuf_inv_def crc_frame_mmbuf_def mmbuf_data_def datalink_frame_def crc_le_def)
  have "le16 ([1, 2] @ crc_le [1, 2]) \<noteq> mmcrc_16_xmodem 0 (drop 2 ([1, 2] @ crc_le [1, 2]))"
    by (simp add: le16_def crc_le_def crc16_xmodem_lookup_table_def)
  then show ?thesis
    using frame datalink_crc_placement [of "sample_rx_world\<lparr>mh_live := [0 \<mapsto> crc_frame_mmbuf]\<rparr>" 0
        crc_frame_mmbuf "[1, 2]" "mmbuf_release \<circ> Some"]
    by simp
qed

subsection \<open>A failed allocation\<close>

text \<open>When the callback releases a delivered packet and the allocation of the next receive
  buffer fails, the SLIP receiver still points into the released packet: the next ordinary byte of
  the same burst is written through that pointer, a use after free.\<close>

theorem datalink_use_after_free:
  assumes "dl_idle w" "length bs + 1 < dl_max_rx_packet_size w" "\<not> mh_malloc_ok w (mh_next w)"
    and "c \<noteq> SLIP_FRAME_END" "c \<noteq> SLIP_FRAME_ESC"
  shows "datalink_uart_rx_handler (Some (mmbuf_release \<circ> Some))
    (SLIP_FRAME_END # slip_encs (0 # bs) @ [SLIP_FRAME_END] @ [c]) w = None"
proof -
  let ?cb = "Some (mmbuf_release \<circ> Some)"
  have "(0 # bs) \<noteq> []" "length (0 # bs) \<le> dl_max_rx_packet_size w" using assms(2) by auto
  from datalink_receives_frame [OF assms(1) this, of ?cb] obtain a w1 m1 where
    rx: "datalink_uart_rx_loop ?cb (SLIP_FRAME_END # slip_encs (0 # bs) @ [SLIP_FRAME_END]) w
      = do { w \<leftarrow> datalink_process_rxbuf ?cb a w1; datalink_init_slip_rx_state w }"
    and a: "dl_rxbuf w = Some a" "dl_slip_ptr w = Some a" "dl_rxbuf w1 = None"
      "mh_live w1 = (mh_live w)(a \<mapsto> m1)" "mmbuf_inv m1" "mmbuf_data m1 = 0 # bs"
    and w1: "w1 = w\<lparr>mh_live := mh_live w1, dl_slip := dl_slip w1, dl_rxbuf := None\<rparr>"
    and slip: "rx_length (dl_slip w1) = length (0 # bs)" "\<not> escape (dl_slip w1)"
      "frame_started (dl_slip w1)" "buffer_length (dl_slip w1) = dl_max_rx_packet_size w"
    by blast
  have same: "dl_slip_ptr w1 = Some a" "mh_malloc_ok w1 = mh_malloc_ok w" "mh_next w1 = mh_next w"
      "dl_max_rx_packet_size w1 = dl_max_rx_packet_size w"
    using a(2) by (subst w1; simp)+
  let ?w2 = "w1\<lparr>mh_live := (mh_live w1)(a := None)\<rparr>"
  have "mh_live w1 a = Some m1" using a by simp
  then obtain m2 where
    "datalink_process_rxbuf ?cb a w1 = (mmbuf_release \<circ> Some) a (set_mmbuf a m2 w1)"
    by (rule datalink_process_plain [OF _ a(5,6), where cb = "mmbuf_release \<circ> Some"]) auto
  then have "datalink_process_rxbuf ?cb a w1 = Some ?w2"
    by (simp add: mmbuf_release_def set_mmbuf_def)
  moreover have "datalink_init_slip_rx_state ?w2 = Some (?w2\<lparr>mh_next := mh_next w + 1\<rparr>)"
    using a assms same by (simp add: datalink_init_slip_rx_state_def mmbuf_alloc_on_heap_def)
  moreover have "datalink_uart_rx_byte ?cb c (?w2\<lparr>mh_next := mh_next w + 1\<rparr>) = None"
    using assms slip same
    by (simp add: datalink_uart_rx_byte_def dl_slip_rx_def dl_slip_mem_def slip_rx_def
        slip_rx_append_def store_def)
  ultimately show ?thesis
    using rx a datalink_uart_rx_loop_append [of ?cb
        "SLIP_FRAME_END # slip_encs (0 # bs) @ [SLIP_FRAME_END]" "[c]" w]
    by (simp add: datalink_uart_rx_handler_def datalink_uart_rx_loop_one del: datalink_uart_rx_loop.simps)
qed

theorem datalink_use_after_free_witness:
  "dl_idle sample_rx_world \<and> \<not> mh_malloc_ok sample_rx_world (mh_next sample_rx_world) \<and>
   datalink_uart_rx_handler (Some (mmbuf_release \<circ> Some))
    (SLIP_FRAME_END # slip_encs (0 # [5]) @ [SLIP_FRAME_END] @ [1]) sample_rx_world = None"
proof -
  have "\<not> mh_malloc_ok sample_rx_world (mh_next sample_rx_world)"
      "length [5 :: byte] + 1 < dl_max_rx_packet_size sample_rx_world"
      "(1 :: byte) \<noteq> SLIP_FRAME_END" "(1 :: byte) \<noteq> SLIP_FRAME_ESC"
    by (simp_all add: sample_rx_world_def slip_chars)
  with sample_rx_world_idle show ?thesis
    by (intro conjI datalink_use_after_free)
qed

subsection \<open>The interface to the layer above\<close>

text \<open>
  What the data link needs of its receive callback: in a state the callback's owner accepts, with
  enough memory and the packet live, the callback returns, keeps the heap in order and leaves the
  data link alone. The owner's condition must not depend on the data link's own state.
\<close>

definition heap_ok :: "'a mm_heap_scheme \<Rightarrow> bool" where
  "heap_ok w \<longleftrightarrow> (\<forall>n. mh_next w \<le> n \<longrightarrow> mh_live w n = None) \<and> (\<forall>n. mh_malloc_ok w n)
     \<and> (\<forall>a m. mh_live w a = Some m \<longrightarrow> mmbuf_inv m)"

definition dl_frame :: "'a dl_world_scheme \<Rightarrow> 'a dl_world_scheme \<Rightarrow> bool" where
  "dl_frame w w' \<longleftrightarrow> dl_max_rx_packet_size w' = dl_max_rx_packet_size w \<and> dl_rxbuf w' = dl_rxbuf w"

definition dl_inv :: "'a dl_world_scheme \<Rightarrow> bool" where
  "dl_inv w \<longleftrightarrow> heap_ok w \<and> 0 < dl_max_rx_packet_size w \<and> dl_max_rx_packet_size w + 32 \<le> 4294967296
     \<and> (\<exists>a m. dl_linked a m w \<and> mmbuf_inv m \<and> mb_start_offset m = 0 \<and> mb_data_len m = 0
        \<and> dl_max_rx_packet_size w \<le> mb_buf_len m
        \<and> slip_inv ((dl_slip w)\<lparr>buffer := mb_buf m\<rparr>)
        \<and> buffer_length (dl_slip w) = dl_max_rx_packet_size w)"

locale datalink_client =
  fixes cb :: "'a dl_rx_cb" and accepts :: "'a dl_world_scheme \<Rightarrow> bool"
  assumes cb_returns: "accepts w \<Longrightarrow> heap_ok w \<Longrightarrow> mh_live w a = Some m \<Longrightarrow> dl_rxbuf w = None \<Longrightarrow>
      \<exists>w'. cb a w = Some w' \<and> accepts w' \<and> heap_ok w' \<and> dl_frame w w'"
    and accepts_frame: "accepts (w\<lparr>mh_live := l, mh_next := n, dl_slip := s, dl_slip_ptr := p,
      dl_rxbuf := r\<rparr>) = accepts w"

lemma heap_ok_simps:
  "heap_ok w \<Longrightarrow> mmbuf_inv m \<Longrightarrow> mh_live w a = Some m0 \<Longrightarrow> heap_ok (w\<lparr>mh_live := (mh_live w)(a \<mapsto> m)\<rparr>)"
  "heap_ok w \<Longrightarrow> heap_ok (w\<lparr>mh_live := (mh_live w)(a := None)\<rparr>)"
  "heap_ok w \<Longrightarrow> mmbuf_inv m \<Longrightarrow>
    heap_ok (w\<lparr>mh_live := (mh_live w)(mh_next w \<mapsto> m), mh_next := mh_next w + 1\<rparr>)"
  by (auto simp: heap_ok_def; metis option.distinct(1))+

lemma heap_ok_dl_update [simp]:
  "heap_ok (w\<lparr>dl_slip := s\<rparr>) = heap_ok w" "heap_ok (w\<lparr>dl_slip_ptr := p\<rparr>) = heap_ok w"
  "heap_ok (w\<lparr>dl_rxbuf := r\<rparr>) = heap_ok w" "heap_ok (w\<lparr>dl_uart_out := u\<rparr>) = heap_ok w"
  by (simp_all add: heap_ok_def)

lemma datalink_process_cases:
  assumes "mh_live w a = Some m" "mmbuf_inv m"
  obtains "datalink_process_rxbuf (Some cb) a w = mmbuf_release (Some a) w"
  | m' where "datalink_process_rxbuf (Some cb) a w = cb a (set_mmbuf a m' w)" "mmbuf_inv m'"
proof (cases "1 \<le> mb_data_len m")
  case False
  then show ?thesis
    using that(1) assms by (simp add: datalink_process_rxbuf_def mmbuf_remove_too_long)
next
  case True
  with assms(2) obtain m1 where m1: "mmbuf_remove_from_start m 1 = (Some (mb_start_offset m), m1)"
      "mmbuf_inv m1" "mb_buf m1 = mb_buf m"
    by (rule mmbuf_remove_from_start_ok) blast
  let ?hdr = "mmbuf_data m ! 0"
  obtain checked where checked: "(if ?hdr AND 0x80 \<noteq> 0 then datalink_check_crc m1 else Some (Some m1))
      = Some checked" "\<And>m2. checked = Some m2 \<Longrightarrow> mmbuf_inv m2"
    using datalink_check_crc_spec [OF m1(2)] m1(2) by (cases "?hdr AND 0x80 \<noteq> 0") (auto split: if_splits)
  have "datalink_process_rxbuf (Some cb) a w =
      (case checked of None \<Rightarrow> mmbuf_release (Some a) w
       | Some m \<Rightarrow> if ?hdr AND 0x0f \<noteq> 0 then mmbuf_release (Some a) w else cb a (set_mmbuf a m w))"
    using m1 assms mem_read_data_start [OF assms(2) True] checked(1)
    by (cases checked) (simp_all add: datalink_process_rxbuf_def Let_def)
  then show ?thesis
    using that checked(2) by (cases checked; cases "?hdr AND 0x0f = 0") auto
qed


lemma datalink_init_slip_ok:
  assumes "heap_ok w" "dl_rxbuf w = None" "0 < dl_max_rx_packet_size w"
    "dl_max_rx_packet_size w + 32 \<le> 4294967296"
  obtains l n s p r where
    "datalink_init_slip_rx_state w
      = Some (w\<lparr>mh_live := l, mh_next := n, dl_slip := s, dl_slip_ptr := p, dl_rxbuf := r\<rparr>)"
    "dl_inv (w\<lparr>mh_live := l, mh_next := n, dl_slip := s, dl_slip_ptr := p, dl_rxbuf := r\<rparr>)"
proof -
  let ?max = "dl_max_rx_packet_size w"
  have "0 + ?max + 32 \<le> 4294967296" using assms(4) by simp
  then show ?thesis
  proof (cases rule: mmbuf_alloc_ok [of 0 ?max w, consumes 1, case_names fails ok])
    case fails
    then show ?thesis using assms(1) by (simp add: heap_ok_def)
  next
    case (ok m)
    let ?st = "slip_rx_state_reinit (dl_slip w) [] ?max"
    let ?w = "w\<lparr>mh_live := (mh_live w)(mh_next w \<mapsto> m), mh_next := mh_next w + 1, dl_slip := ?st,
      dl_slip_ptr := Some (mh_next w), dl_rxbuf := Some (mh_next w)\<rparr>"
    have m: "mb_start_offset m = 0" "mb_data_len m = 0" "?max \<le> mb_buf_len m" "?max \<le> length (mb_buf m)"
      using ok(3-6) length_mmbuf_data [OF ok(3)]
      by (auto simp: headroom_def tailroom_def mmbuf_inv_def)
    have "heap_ok ?w"
      using heap_ok_simps(3) [OF assms(1) ok(3)] by simp
    then have "dl_inv ?w"
      using assms m ok(3)
      by (simp add: dl_inv_def dl_linked_def slip_rx_state_reinit_def slip_inv_def)
    moreover have "datalink_init_slip_rx_state w = Some ?w"
      using ok(2) assms by (simp add: datalink_init_slip_rx_state_def)
    ultimately show ?thesis by (rule that [rotated])
  qed
qed

text \<open>A completed frame fits the receive buffer.\<close>

lemma slip_rx_complete:
  "slip_rx st c = Some (SLIP_RX_COMPLETE, st') \<Longrightarrow> st' = st"
  by (auto simp: slip_rx_def slip_rx_append_def Let_def split: if_splits Option.bind_splits)

context datalink_client
begin

lemma process_returns:
  assumes "accepts w" "heap_ok w" "mh_live w a = Some m" "dl_rxbuf w = None"
  shows "\<exists>w'. datalink_process_rxbuf (Some cb) a w = Some w' \<and> accepts w' \<and> heap_ok w' \<and> dl_frame w w'"
proof -
  have accepts_live: "accepts (w\<lparr>mh_live := l\<rparr>)" for l
    using accepts_frame [where w = w and l = l and n = "mh_next w" and s = "dl_slip w"
        and p = "dl_slip_ptr w" and r = "dl_rxbuf w"] assms(1) by simp
  have inv: "mmbuf_inv m" using assms by (auto simp: heap_ok_def)
  show ?thesis
  proof (rule datalink_process_cases [OF assms(3) inv, of cb])
    assume "datalink_process_rxbuf (Some cb) a w = mmbuf_release (Some a) w"
    then show ?thesis
      using assms accepts_live by (simp add: mmbuf_release_def heap_ok_simps dl_frame_def)
  next
    fix m'
    assume m': "datalink_process_rxbuf (Some cb) a w = cb a (set_mmbuf a m' w)" "mmbuf_inv m'"
    have "dl_frame w v" if "dl_frame (set_mmbuf a m' w) v" for v
      using that by (simp add: dl_frame_def set_mmbuf_def)
    moreover have "heap_ok (set_mmbuf a m' w)"
      using assms m' by (simp add: set_mmbuf_def heap_ok_simps)
    ultimately show ?thesis
      using cb_returns [of "set_mmbuf a m' w" a m'] assms(4) m'(1) accepts_live
      by (fastforce simp: set_mmbuf_def)
  qed
qed

lemma rx_byte_returns:
  assumes "accepts w" "dl_inv w"
  shows "\<exists>w'. datalink_uart_rx_byte (Some cb) c w = Some w' \<and> accepts w' \<and> dl_inv w'"
proof -
  from assms(2) obtain a m where heap: "heap_ok w" and max: "0 < dl_max_rx_packet_size w"
      "dl_max_rx_packet_size w + 32 \<le> 4294967296"
    and linked: "dl_linked a m w" and m: "mmbuf_inv m" "mb_start_offset m = 0" "mb_data_len m = 0"
      "dl_max_rx_packet_size w \<le> mb_buf_len m"
    and slip: "slip_inv ((dl_slip w)\<lparr>buffer := mb_buf m\<rparr>)"
      "buffer_length (dl_slip w) = dl_max_rx_packet_size w"
    unfolding dl_inv_def by blast
  obtain r st where step: "slip_rx ((dl_slip w)\<lparr>buffer := mb_buf m\<rparr>) c = Some (r, st)" "slip_inv st"
      "same_buffer ((dl_slip w)\<lparr>buffer := mb_buf m\<rparr>) st"
    by (rule slip_rx_step [OF slip(1)])
  have m_upd: "mmbuf_inv (m\<lparr>mb_buf := buffer st\<rparr>)"
    using m step(3) by (simp add: mmbuf_inv_def same_buffer_def)
  have "heap_ok (w\<lparr>dl_slip := st\<lparr>buffer := []\<rparr>\<rparr>)" using heap by simp
  from heap_ok_simps(1) [OF this m_upd] linked have heap1: "heap_ok (dl_progress a m st w)"
    by (simp add: dl_progress_def set_mmbuf_def dl_linked_def)
  have reorder: "w\<lparr>dl_slip := s, mh_live := l, dl_rxbuf := r'\<rparr> = w\<lparr>mh_live := l, dl_slip := s, dl_rxbuf := r'\<rparr>"
    for s l r' by (cases w) simp
  have accepts1: "accepts (dl_progress a m st w\<lparr>mh_live := l, dl_rxbuf := r'\<rparr>)" for l r'
    using accepts_frame [where w = w and l = l and n = "mh_next w" and s = "st\<lparr>buffer := []\<rparr>"
        and p = "dl_slip_ptr w" and r = r'] assms(1)
    by (simp add: dl_progress_def set_mmbuf_def reorder)
  have reorder2: "w\<lparr>dl_slip := s, dl_rxbuf := r', mh_live := l\<rparr> = w\<lparr>dl_slip := s, mh_live := l, dl_rxbuf := r'\<rparr>"
    for s l r' by (cases w) simp
  have accepts2: "accepts (dl_progress a m st w\<lparr>dl_rxbuf := r', mh_live := l\<rparr>)" for l r'
    using accepts1 [where l = l and r' = r'] by (simp add: dl_progress_def set_mmbuf_def reorder2)
  show ?thesis
  proof (cases "r = SLIP_RX_COMPLETE")
    case False
    have "dl_linked a (m\<lparr>mb_buf := buffer st\<rparr>) (dl_progress a m st w)"
      by (rule dl_linked_progress [OF linked])
    moreover have "dl_slip (dl_progress a m st w) = st\<lparr>buffer := []\<rparr>"
      "dl_max_rx_packet_size (dl_progress a m st w) = dl_max_rx_packet_size w"
      by (simp_all add: dl_progress_def set_mmbuf_def)
    ultimately have "dl_inv (dl_progress a m st w)"
      using heap1 max m m_upd step slip(2) unfolding dl_inv_def
      by (intro conjI exI [of _ a] exI [of _ "m\<lparr>mb_buf := buffer st\<rparr>"]) (auto simp: same_buffer_def)
    moreover have "accepts (dl_progress a m st w)"
      using accepts1 [where l = "mh_live (dl_progress a m st w)" and r' = "dl_rxbuf (dl_progress a m st w)"] by simp
    ultimately show ?thesis
      using datalink_uart_rx_byte_in_progress [OF linked step(1) False] by blast
  next
    case True
    let ?m1 = "m\<lparr>mb_buf := buffer st\<rparr>" and ?w0 = "dl_progress a m st w\<lparr>dl_rxbuf := None\<rparr>"
    have st: "st = (dl_slip w)\<lparr>buffer := mb_buf m\<rparr>"
      using slip_rx_complete step(1) True by blast
    have "rx_length st \<le> tailroom ?m1"
      using step(2) st m slip(2) by (simp add: slip_inv_def tailroom_def)
    then have app: "mmbuf_append ?m1 (rx_length st) = Some (0, ?m1\<lparr>mb_data_len := rx_length st\<rparr>)"
        "mmbuf_inv (?m1\<lparr>mb_data_len := rx_length st\<rparr>)"
      using mmbuf_append_ok [OF m_upd] m m_upd by (auto simp: mmbuf_inv_def tailroom_def)
    let ?w1 = "set_mmbuf a (?m1\<lparr>mb_data_len := rx_length st\<rparr>) ?w0"
    have "datalink_uart_rx_byte (Some cb) c w = do {
        w \<leftarrow> datalink_process_rxbuf (Some cb) a ?w1;
        datalink_init_slip_rx_state w
      }"
      using True app(1) dl_slip_rx_linked [OF linked step(1)] linked
      by (simp add: datalink_uart_rx_byte_def dl_progress_def set_mmbuf_def dl_linked_def)
    moreover have "accepts ?w1" "heap_ok ?w1" "dl_rxbuf ?w1 = None"
        "mh_live ?w1 a = Some (?m1\<lparr>mb_data_len := rx_length st\<rparr>)"
        "dl_max_rx_packet_size ?w1 = dl_max_rx_packet_size w"
      using accepts2 heap_ok_simps(1) [of ?w0 "?m1\<lparr>mb_data_len := rx_length st\<rparr>" a] heap1 app(2)
      by (simp_all add: set_mmbuf_def dl_progress_def)
    ultimately obtain w2 where w2: "datalink_uart_rx_byte (Some cb) c w = datalink_init_slip_rx_state w2"
        "accepts w2" "heap_ok w2" "dl_rxbuf w2 = None" "dl_max_rx_packet_size w2 = dl_max_rx_packet_size w"
      using process_returns [of ?w1 a] by (fastforce simp: dl_frame_def)
    then show ?thesis
      using max accepts_frame by (metis datalink_init_slip_ok)
  qed
qed

lemma rx_handler_returns:
  assumes "accepts w" "dl_inv w"
  shows "\<exists>w'. datalink_uart_rx_handler (Some cb) cs w = Some w' \<and> accepts w' \<and> dl_inv w'"
proof -
  have "\<exists>w'. datalink_uart_rx_loop (Some cb) cs w = Some w' \<and> accepts w' \<and> dl_inv w'"
    using assms
  proof (induction cs arbitrary: w)
    case Nil
    then show ?case by simp
  next
    case (Cons c cs)
    from rx_byte_returns [OF Cons.prems, of c] obtain w1 where
      "datalink_uart_rx_byte (Some cb) c w = Some w1" "accepts w1" "dl_inv w1"
      by blast
    with Cons.IH [of w1] show ?case by simp
  qed
  moreover have "dl_rxbuf w \<noteq> None"
    using assms(2) by (auto simp: dl_inv_def dl_linked_def)
  ultimately show ?thesis
    by (cases "dl_rxbuf w") (simp_all add: datalink_uart_rx_handler_def)
qed

end

end
