(* ===== verification/Llc.thy ===== *)
theory Llc
  imports Datalink
begin

section \<open>Logical link control of the agent\<close>

text \<open>
  \<open>mmagic/agent/m2m_llc/mmagic_llc_agent.c\<close> and its header: the four-byte packet header, the
  sequence numbers in both directions, suppression of repeated packets, detection of lost ones and
  the recovery packets. The receive callback of the layer above is a parameter; it gets the stream
  and the address of the packet. The transmit mutex only serialises concurrent senders and has no
  sequential effect; console output is left out. \<open>mmhal_reset\<close> does not return on the target;
  here it counts the requested resets.
\<close>

unbundle bit_operations_syntax

subsection \<open>The header\<close>

text \<open>The statuses of \<open>enum mmagic_status\<close> that this layer and the agent produce or test.\<close>

datatype mmagic_status =
  MMAGIC_STATUS_OK
| MMAGIC_STATUS_ERROR
| MMAGIC_STATUS_INVALID_ARG
| MMAGIC_STATUS_UNAVAILABLE
| MMAGIC_STATUS_INVALID_STREAM
| MMAGIC_STATUS_TX_ERROR
| MMAGIC_STATUS_NO_MEM
| MMAGIC_STATUS_OTHER nat

abbreviation (input) MMAGIC_LLC_PTYPE_COMMAND :: byte where "MMAGIC_LLC_PTYPE_COMMAND \<equiv> 0"
abbreviation (input) MMAGIC_LLC_PTYPE_RESPONSE :: byte where "MMAGIC_LLC_PTYPE_RESPONSE \<equiv> 1"
abbreviation (input) MMAGIC_LLC_PTYPE_EVENT :: byte where "MMAGIC_LLC_PTYPE_EVENT \<equiv> 2"
abbreviation (input) MMAGIC_LLC_PTYPE_ERROR :: byte where "MMAGIC_LLC_PTYPE_ERROR \<equiv> 3"
abbreviation (input) MMAGIC_LLC_PTYPE_AGENT_RESET :: byte where "MMAGIC_LLC_PTYPE_AGENT_RESET \<equiv> 4"
abbreviation (input) MMAGIC_LLC_PTYPE_AGENT_START_NOTIFICATION :: byte where
  "MMAGIC_LLC_PTYPE_AGENT_START_NOTIFICATION \<equiv> 5"
abbreviation (input) MMAGIC_LLC_PTYPE_INVALID_STREAM :: byte where "MMAGIC_LLC_PTYPE_INVALID_STREAM \<equiv> 8"
abbreviation (input) MMAGIC_LLC_PTYPE_PACKET_LOSS_DETECTED :: byte where
  "MMAGIC_LLC_PTYPE_PACKET_LOSS_DETECTED \<equiv> 9"
abbreviation (input) MMAGIC_LLC_PTYPE_SYNC_REQ :: byte where "MMAGIC_LLC_PTYPE_SYNC_REQ \<equiv> 10"
abbreviation (input) MMAGIC_LLC_PTYPE_SYNC_RESP :: byte where "MMAGIC_LLC_PTYPE_SYNC_RESP \<equiv> 11"

abbreviation (input) MMAGIC_LLC_INVALID_SEQUENCE :: byte where "MMAGIC_LLC_INVALID_SEQUENCE \<equiv> 0xff"
abbreviation (input) MMAGIC_LLC_PROTOCOL_VERSION :: byte where "MMAGIC_LLC_PROTOCOL_VERSION \<equiv> 1"
abbreviation (input) MMAGIC_LLC_MAX_PACKET_SIZE :: nat where "MMAGIC_LLC_MAX_PACKET_SIZE \<equiv> 2048"
abbreviation (input) MMAGIC_MAX_STREAMS :: nat where "MMAGIC_MAX_STREAMS \<equiv> 8"
abbreviation (input) CONTROL_STREAM :: byte where "CONTROL_STREAM \<equiv> 0"

definition MMAGIC_LLC_GET_PTYPE :: "byte \<Rightarrow> byte" where
  "MMAGIC_LLC_GET_PTYPE x = drop_bit 4 x"

definition MMAGIC_LLC_GET_SEQ :: "byte \<Rightarrow> byte" where
  "MMAGIC_LLC_GET_SEQ x = x AND 0x0f"

definition MMAGIC_LLC_GET_NEXT_SEQ :: "byte \<Rightarrow> byte" where
  "MMAGIC_LLC_GET_NEXT_SEQ x = (x + 1) AND 0x0f"

definition MMAGIC_LLC_SET_TSEQ :: "byte \<Rightarrow> byte \<Rightarrow> byte" where
  "MMAGIC_LLC_SET_TSEQ t s = push_bit 4 t OR (s AND 0x0f)"

record mmagic_llc_header =
  lh_tseq :: byte
  lh_sid :: byte
  lh_length :: nat

definition llc_header_bytes :: "mmagic_llc_header \<Rightarrow> byte list" where
  "llc_header_bytes h =
     [lh_tseq h, lh_sid h, word_of_nat (lh_length h), word_of_nat (lh_length h div 256)]"

definition llc_header_of :: "byte list \<Rightarrow> mmagic_llc_header" where
  "llc_header_of bs =
     \<lparr>lh_tseq = bs ! 0, lh_sid = bs ! 1, lh_length = unat (bs ! 2) + 256 * unat (bs ! 3)\<rparr>"

subsection \<open>State\<close>

record llc_world = dl_world +
  llc_last_seen_seq :: byte
  llc_last_sent_seq :: byte
  mcu_resets :: nat

type_synonym 'a llc_rx_cb =
  "byte \<Rightarrow> nat \<Rightarrow> 'a llc_world_scheme \<Rightarrow> (mmagic_status \<times> 'a llc_world_scheme) option"

subsection \<open>Transmission\<close>

definition mmagic_llc_agent_alloc_buffer_for_tx ::
  "byte list option \<Rightarrow> nat \<Rightarrow> 'a mm_heap_scheme \<Rightarrow> (nat option \<times> 'a mm_heap_scheme) option" where
  "mmagic_llc_agent_alloc_buffer_for_tx payload payload_size w = do {
     (p, w) \<leftarrow> mmagic_datalink_agent_alloc_buffer_for_tx 4 payload_size w;
     (case (p, payload) of
        (Some a, Some bytes) \<Rightarrow> do {
          m \<leftarrow> mh_live w a;
          m \<leftarrow> mmbuf_append_data m bytes;
          Some (p, set_mmbuf a m w)
        }
      | _ \<Rightarrow> Some (p, w))
   }"

definition mmagic_llc_agent_tx ::
  "byte \<Rightarrow> byte \<Rightarrow> nat option \<Rightarrow> 'a llc_world_scheme \<Rightarrow> (mmagic_status \<times> 'a llc_world_scheme) option" where
  "mmagic_llc_agent_tx ptype sid tx_buffer w =
     (case tx_buffer of
        None \<Rightarrow> Some (MMAGIC_STATUS_INVALID_ARG, w)
      | Some a \<Rightarrow> do {
          m \<leftarrow> mh_live w a;
          let payload_len = mmbuf_get_data_length m;
          if payload_len > 65535 then do {
            w \<leftarrow> mmbuf_release tx_buffer w;
            Some (MMAGIC_STATUS_INVALID_ARG, w)
          }
          else if mmbuf_available_space_at_start m < 4 then do {
            w \<leftarrow> mmbuf_release tx_buffer w;
            Some (MMAGIC_STATUS_NO_MEM, w)
          }
          else do {
            let sent_seq = MMAGIC_LLC_GET_NEXT_SEQ (llc_last_sent_seq w);
            m \<leftarrow> mmbuf_prepend_data m (llc_header_bytes
                   \<lparr>lh_tseq = MMAGIC_LLC_SET_TSEQ ptype sent_seq, lh_sid = sid,
                    lh_length = payload_len\<rparr>);
            (sent, w) \<leftarrow> mmagic_datalink_agent_tx_buffer a (set_mmbuf a m w);
            Some (if sent > 0 then (MMAGIC_STATUS_OK, w\<lparr>llc_last_sent_seq := sent_seq\<rparr>)
                  else (MMAGIC_STATUS_TX_ERROR, w))
          }
        })"

definition mmagic_llc_respond_error ::
  "byte \<Rightarrow> byte \<Rightarrow> 'a llc_world_scheme \<Rightarrow> (mmagic_status \<times> 'a llc_world_scheme) option" where
  "mmagic_llc_respond_error sid ptype w = do {
     (tx_buffer, w) \<leftarrow> mmagic_llc_agent_alloc_buffer_for_tx None 0 w;
     if tx_buffer = None then Some (MMAGIC_STATUS_NO_MEM, w)
     else mmagic_llc_agent_tx ptype sid tx_buffer w
   }"

definition mmagic_llc_sync_resp ::
  "byte \<Rightarrow> byte list \<Rightarrow> 'a llc_world_scheme \<Rightarrow> (mmagic_status \<times> 'a llc_world_scheme) option" where
  "mmagic_llc_sync_resp sid token w = do {
     let rsp = token @ [llc_last_seen_seq w, MMAGIC_LLC_PROTOCOL_VERSION];
     (tx_buffer, w) \<leftarrow> mmagic_llc_agent_alloc_buffer_for_tx (Some rsp) (length rsp) w;
     if tx_buffer = None then Some (MMAGIC_STATUS_NO_MEM, w)
     else mmagic_llc_agent_tx MMAGIC_LLC_PTYPE_SYNC_RESP sid tx_buffer w
   }"

definition mmagic_llc_send_start_notification ::
  "'a llc_world_scheme \<Rightarrow> (mmagic_status \<times> 'a llc_world_scheme) option" where
  "mmagic_llc_send_start_notification w = do {
     (tx_buffer, w) \<leftarrow> mmagic_llc_agent_alloc_buffer_for_tx None 0 w;
     if tx_buffer = None then Some (MMAGIC_STATUS_NO_MEM, w)
     else mmagic_llc_agent_tx MMAGIC_LLC_PTYPE_AGENT_START_NOTIFICATION CONTROL_STREAM tx_buffer w
   }"

subsection \<open>Reception\<close>

text \<open>
  The \<open>switch\<close> over the packet type. It returns the receive buffer this layer still has to
  release: none once the callback has accepted it.
\<close>

definition llc_rx_dispatch ::
  "'a llc_rx_cb \<Rightarrow> byte \<Rightarrow> byte \<Rightarrow> nat \<Rightarrow> nat \<Rightarrow> 'a llc_world_scheme
    \<Rightarrow> (nat option \<times> 'a llc_world_scheme) option" where
  "llc_rx_dispatch rx_callback ptype sid len a w =
     (if ptype = MMAGIC_LLC_PTYPE_COMMAND then do {
        (tx_status, w) \<leftarrow> rx_callback sid a w;
        if tx_status = MMAGIC_STATUS_OK then Some (None, w)
        else do {
          (_, w) \<leftarrow> mmagic_llc_respond_error sid
                     (if tx_status = MMAGIC_STATUS_INVALID_STREAM
                      then MMAGIC_LLC_PTYPE_INVALID_STREAM else MMAGIC_LLC_PTYPE_ERROR) w;
          Some (Some a, w)
        }
      }
      else if ptype = MMAGIC_LLC_PTYPE_ERROR then Some (Some a, w)
      else if ptype = MMAGIC_LLC_PTYPE_AGENT_RESET then
        Some (Some a, w\<lparr>mcu_resets := mcu_resets w + 1\<rparr>)
      else if ptype = MMAGIC_LLC_PTYPE_SYNC_REQ then
        if len \<noteq> 4 then do {
          (_, w) \<leftarrow> mmagic_llc_respond_error sid MMAGIC_LLC_PTYPE_ERROR w;
          Some (Some a, w)
        }
        else do {
          m \<leftarrow> mh_live w a;
          token \<leftarrow> mem_read (mb_buf m) (mmbuf_get_data_start m) 4;
          (_, w) \<leftarrow> mmagic_llc_sync_resp sid token w;
          Some (Some a, w)
        }
      else do {
        (_, w) \<leftarrow> mmagic_llc_respond_error sid MMAGIC_LLC_PTYPE_ERROR w;
        Some (Some a, w)
      })"

definition llc_rx_exit ::
  "nat option \<Rightarrow> byte \<Rightarrow> 'a llc_world_scheme \<Rightarrow> 'a llc_world_scheme option" where
  "llc_rx_exit rx_buffer seq w = do {
     w \<leftarrow> mmbuf_release rx_buffer w;
     Some (w\<lparr>llc_last_seen_seq := seq\<rparr>)
   }"

text \<open>What follows once the header has been taken off the packet.\<close>

definition llc_rx_packet ::
  "'a llc_rx_cb \<Rightarrow> mmagic_llc_header \<Rightarrow> nat \<Rightarrow> 'a llc_world_scheme \<Rightarrow> 'a llc_world_scheme option" where
  "llc_rx_packet rx_callback rxheader a w = do {
     m \<leftarrow> mh_live w a;
     let sid = lh_sid rxheader;
     let seq = MMAGIC_LLC_GET_SEQ (lh_tseq rxheader);
     let ptype = MMAGIC_LLC_GET_PTYPE (lh_tseq rxheader);
     let len = lh_length rxheader;
     if unat sid \<ge> MMAGIC_MAX_STREAMS then do {
       (_, w) \<leftarrow> mmagic_llc_respond_error sid MMAGIC_LLC_PTYPE_INVALID_STREAM w;
       llc_rx_exit (Some a) seq w
     }
     else if mmbuf_get_data_length m < len then do {
       (_, w) \<leftarrow> mmagic_llc_respond_error sid MMAGIC_LLC_PTYPE_ERROR w;
       llc_rx_exit (Some a) seq w
     }
     else if seq = llc_last_seen_seq w \<and> ptype \<noteq> MMAGIC_LLC_PTYPE_AGENT_RESET
       \<and> ptype \<noteq> MMAGIC_LLC_PTYPE_SYNC_REQ
     then llc_rx_exit (Some a) seq w
     else do {
       (rx_buffer, w) \<leftarrow> llc_rx_dispatch rx_callback ptype sid len a w;
       w \<leftarrow> (if seq \<noteq> MMAGIC_LLC_GET_NEXT_SEQ (llc_last_seen_seq w)
              \<and> llc_last_seen_seq w \<noteq> MMAGIC_LLC_INVALID_SEQUENCE
              \<and> ptype \<noteq> MMAGIC_LLC_PTYPE_SYNC_REQ
            then do {
              (_, w) \<leftarrow> mmagic_llc_respond_error sid MMAGIC_LLC_PTYPE_PACKET_LOSS_DETECTED w;
              Some w
            }
            else Some w);
       llc_rx_exit rx_buffer seq w
     }
   }"

definition mmagic_llc_agent_rx_buffer_callback ::
  "'a llc_rx_cb \<Rightarrow> nat option \<Rightarrow> 'a llc_world_scheme \<Rightarrow> 'a llc_world_scheme option" where
  "mmagic_llc_agent_rx_buffer_callback rx_callback rx_buffer w =
     (case rx_buffer of
        None \<Rightarrow> Some w
      | Some a \<Rightarrow> do {
          m \<leftarrow> mh_live w a;
          case mmbuf_remove_from_start m 4 of
            (None, m) \<Rightarrow> llc_rx_exit rx_buffer (llc_last_seen_seq w) w
          | (Some hdr, m) \<Rightarrow> do {
              hdr_bytes \<leftarrow> mem_read (mb_buf m) hdr 4;
              llc_rx_packet rx_callback (llc_header_of hdr_bytes) a (set_mmbuf a m w)
            }
        })"

subsection \<open>Initialisation\<close>

text \<open>\<open>mutex_created\<close> tells whether \<open>mmosal_mutex_create\<close> succeeded; the result, whether a
  handle is returned.\<close>

definition mmagic_llc_agent_init ::
  "'a llc_world_scheme uart_sleep_fn \<Rightarrow> 'a llc_rx_cb \<Rightarrow> bool \<Rightarrow> 'a llc_world_scheme
    \<Rightarrow> (bool \<times> 'a llc_world_scheme) option" where
  "mmagic_llc_agent_init hal rx_callback mutex_created w =
     (if \<not> mutex_created then Some (False, w)
      else mmagic_datalink_agent_init hal
             (Some (\<lambda>a. mmagic_llc_agent_rx_buffer_callback rx_callback (Some a)))
             MMAGIC_LLC_MAX_PACKET_SIZE
             (w\<lparr>llc_last_seen_seq := MMAGIC_LLC_INVALID_SEQUENCE,
                llc_last_sent_seq := MMAGIC_LLC_INVALID_SEQUENCE\<rparr>))"

text \<open>The handle is the static object \<open>m2m_agent_llc\<close>, which is not a block of the heap, so the
  \<open>mmosal_free\<close> that ends the function has no defined behaviour.\<close>

definition mmosal_free_static :: "'w \<Rightarrow> 'w option" where
  "mmosal_free_static w = None"

definition mmagic_llc_agent_deinit :: "'a llc_world_scheme \<Rightarrow> 'a llc_world_scheme option" where
  "mmagic_llc_agent_deinit w = do {
     w \<leftarrow> mmagic_datalink_agent_deinit w;
     mmosal_free_static w
   }"

datatype mmagic_deep_sleep_mode =
  MMAGIC_DEEP_SLEEP_MODE_DISABLED | MMAGIC_DEEP_SLEEP_MODE_ONE_SHOT | MMAGIC_DEEP_SLEEP_MODE_HARDWARE

fun mmagic_llc_agent_set_deep_sleep_mode ::
  "'w uart_sleep_fn \<Rightarrow> mmagic_deep_sleep_mode \<Rightarrow> 'w \<Rightarrow> bool \<times> 'w" where
  "mmagic_llc_agent_set_deep_sleep_mode hal MMAGIC_DEEP_SLEEP_MODE_DISABLED w =
     mmagic_datalink_agent_set_deep_sleep_mode hal MMAGIC_DATALINK_AGENT_DEEP_SLEEP_DISABLED w"
| "mmagic_llc_agent_set_deep_sleep_mode hal MMAGIC_DEEP_SLEEP_MODE_ONE_SHOT w =
     mmagic_datalink_agent_set_deep_sleep_mode hal MMAGIC_DATALINK_AGENT_DEEP_SLEEP_ONE_SHOT w"
| "mmagic_llc_agent_set_deep_sleep_mode hal MMAGIC_DEEP_SLEEP_MODE_HARDWARE w =
     mmagic_datalink_agent_set_deep_sleep_mode hal MMAGIC_DATALINK_AGENT_DEEP_SLEEP_HARDWARE w"

subsection \<open>Header fields\<close>

lemma mask_0x0f: "(0x0f :: byte) = mask 4"
  by (simp add: mask_eq_exp_minus_1)

lemma get_seq_set_tseq [simp]: "MMAGIC_LLC_GET_SEQ (MMAGIC_LLC_SET_TSEQ t s) = s AND 0x0f"
  unfolding MMAGIC_LLC_GET_SEQ_def MMAGIC_LLC_SET_TSEQ_def mask_0x0f
  by (rule bit_word_eqI) (auto simp: bit_simps)

lemma get_ptype_set_tseq:
  assumes "t < 16"
  shows "MMAGIC_LLC_GET_PTYPE (MMAGIC_LLC_SET_TSEQ t s) = t"
proof -
  have "take_bit 4 t = t"
    using assms by (simp add: word_unat_eq_iff unsigned_take_bit_eq word_less_nat_alt take_bit_nat_eq_self)
  then have high: "bit t n \<Longrightarrow> n < 4" for n
    by (metis bit_take_bit_iff)
  show ?thesis
    unfolding MMAGIC_LLC_GET_PTYPE_def MMAGIC_LLC_SET_TSEQ_def mask_0x0f
    by (rule bit_word_eqI) (auto simp: bit_simps dest: high)
qed

lemma next_seq_low [simp]: "MMAGIC_LLC_GET_NEXT_SEQ x AND 0x0f = MMAGIC_LLC_GET_NEXT_SEQ x"
  by (simp add: MMAGIC_LLC_GET_NEXT_SEQ_def and.assoc)

lemma next_seq_next_seq: "MMAGIC_LLC_GET_NEXT_SEQ x = word_of_nat ((unat x + 1) mod 16)"
proof -
  have "unat (MMAGIC_LLC_GET_NEXT_SEQ x) = (unat x + 1) mod 256 mod 16"
    unfolding MMAGIC_LLC_GET_NEXT_SEQ_def mask_0x0f
    by (simp add: unsigned_take_bit_eq take_bit_eq_mod unat_word_ariths flip: take_bit_eq_mask)
  also have "... = (unat x + 1) mod 16"
    by (simp add: mod_mod_cancel)
  finally show ?thesis
    by (simp add: word_unat_eq_iff unat_of_nat)
qed

lemma length_llc_header_bytes [simp]: "length (llc_header_bytes h) = 4"
  by (simp add: llc_header_bytes_def)

lemma llc_header_round_trip:
  assumes "lh_length h \<le> 65535"
  shows "llc_header_of (llc_header_bytes h) = h"
  using assms by (cases h) (simp add: llc_header_of_def llc_header_bytes_def unat_of_nat)

subsection \<open>What the transmitter sends\<close>

definition llc_packet :: "byte \<Rightarrow> byte \<Rightarrow> byte \<Rightarrow> byte list \<Rightarrow> byte list" where
  "llc_packet ptype seq sid bs =
     llc_header_bytes \<lparr>lh_tseq = MMAGIC_LLC_SET_TSEQ ptype seq, lh_sid = sid, lh_length = length bs\<rparr> @ bs"

lemma unat_next_seq: "unat (MMAGIC_LLC_GET_NEXT_SEQ x) = (unat x + 1) mod 16"
proof -
  have "(unat x + 1) mod 16 mod 256 = (unat x + 1) mod 16"
    by (intro mod_less) (rule less_trans [of _ 16], simp_all)
  then show ?thesis
    unfolding next_seq_next_seq unat_of_nat by simp
qed

text \<open>The world after a packet has gone out: its frame is on the line and its sequence number used.\<close>

definition llc_transmitted :: "byte \<Rightarrow> byte \<Rightarrow> byte list \<Rightarrow> 'a llc_world_scheme \<Rightarrow> 'a llc_world_scheme" where
  "llc_transmitted ptype sid bs w =
     (let seq = MMAGIC_LLC_GET_NEXT_SEQ (llc_last_sent_seq w) in
      w\<lparr>dl_uart_out := dl_uart_out w @ SLIP_FRAME_END
          # slip_encs (datalink_frame (dl_tx_crc_enabled w) (llc_packet ptype seq sid bs))
          @ [SLIP_FRAME_END],
        llc_last_sent_seq := seq\<rparr>)"

lemma llc_transmitted_sel [simp]:
  "mh_live (llc_transmitted ptype sid bs w) = mh_live w"
  "mh_next (llc_transmitted ptype sid bs w) = mh_next w"
  "mh_malloc_ok (llc_transmitted ptype sid bs w) = mh_malloc_ok w"
  "dl_rxbuf (llc_transmitted ptype sid bs w) = dl_rxbuf w"
  "dl_max_rx_packet_size (llc_transmitted ptype sid bs w) = dl_max_rx_packet_size w"
  "llc_last_seen_seq (llc_transmitted ptype sid bs w) = llc_last_seen_seq w"
  "llc_last_sent_seq (llc_transmitted ptype sid bs w) = MMAGIC_LLC_GET_NEXT_SEQ (llc_last_sent_seq w)"
  by (simp_all add: llc_transmitted_def Let_def)

lemma llc_tx_ok:
  assumes "mh_live w a = Some m" "mmbuf_inv m" "5 \<le> headroom m" "length (mmbuf_data m) \<le> 65535"
    "dl_tx_crc_enabled w \<Longrightarrow> 2 \<le> tailroom m"
  shows "mmagic_llc_agent_tx ptype sid (Some a) w
    = Some (MMAGIC_STATUS_OK,
        (llc_transmitted ptype sid (mmbuf_data m) w)\<lparr>mh_live := (mh_live w)(a := None)\<rparr>)"
proof -
  let ?seq = "MMAGIC_LLC_GET_NEXT_SEQ (llc_last_sent_seq w)"
  let ?hdr = "llc_header_bytes \<lparr>lh_tseq = MMAGIC_LLC_SET_TSEQ ptype ?seq, lh_sid = sid,
    lh_length = length (mmbuf_data m)\<rparr>"
  have "length ?hdr \<le> headroom m" using assms(3) by simp
  with assms(2) obtain m1 where m1: "mmbuf_prepend_data m ?hdr = Some m1" "mmbuf_inv m1"
      "mmbuf_data m1 = ?hdr @ mmbuf_data m" "headroom m1 = headroom m - length ?hdr"
      "tailroom m1 = tailroom m"
    by (metis mmbuf_prepend_data_ok)
  let ?w = "set_mmbuf a m1 w"
  have "mmagic_datalink_agent_tx_buffer a ?w
      = Some (int (length (datalink_frame (dl_tx_crc_enabled ?w) (mmbuf_data m1))),
          ?w\<lparr>mh_live := (mh_live ?w)(a := None),
            dl_uart_out := dl_uart_out ?w @ SLIP_FRAME_END
              # slip_encs (datalink_frame (dl_tx_crc_enabled ?w) (mmbuf_data m1)) @ [SLIP_FRAME_END]\<rparr>)"
    using m1 assms by (intro datalink_tx_frame) (auto simp: set_mmbuf_def)
  moreover have "length (datalink_frame (dl_tx_crc_enabled ?w) (mmbuf_data m1)) > 0"
    by (simp add: datalink_frame_def)
  moreover have "4 \<le> mmbuf_available_space_at_start m" "mmbuf_get_data_length m = length (mmbuf_data m)"
    using assms(2,3) by (simp_all add: mmbuf_get_defs headroom_def)
  ultimately show ?thesis
    using assms(1,4) m1(1,3)
    by (simp add: mmagic_llc_agent_tx_def llc_transmitted_def llc_packet_def set_mmbuf_def Let_def)
qed

lemma llc_alloc_ok:
  assumes "n \<le> 65535" "mh_live w (mh_next w) = None"
  obtains "\<not> mh_malloc_ok w (mh_next w)"
    "mmagic_llc_agent_alloc_buffer_for_tx None n w = Some (None, w\<lparr>mh_next := mh_next w + 1\<rparr>)"
    "mmagic_llc_agent_alloc_buffer_for_tx (Some bs) n w = Some (None, w\<lparr>mh_next := mh_next w + 1\<rparr>)"
  | m where "mh_malloc_ok w (mh_next w)"
    "mmagic_llc_agent_alloc_buffer_for_tx None n w = Some (Some (mh_next w),
       w\<lparr>mh_live := (mh_live w)(mh_next w \<mapsto> m), mh_next := mh_next w + 1\<rparr>)"
    "mmbuf_inv m" "mmbuf_data m = []" "headroom m = 5" "n + 2 \<le> tailroom m"
proof -
  have "5 + (n + 2) + 32 \<le> 4294967296" using assms(1) by simp
  then show ?thesis
  proof (cases rule: mmbuf_alloc_ok [where h = w, consumes 1, case_names fails ok])
    case fails
    then show ?thesis
      using that(1) assms(1)
      by (simp add: mmagic_llc_agent_alloc_buffer_for_tx_def
          mmagic_datalink_agent_alloc_buffer_for_tx_def u32_id)
  next
    case (ok m)
    then show ?thesis
      using that(2) [of m] assms(1)
      by (simp add: mmagic_llc_agent_alloc_buffer_for_tx_def
          mmagic_datalink_agent_alloc_buffer_for_tx_def u32_id)
  qed
qed

lemma llc_alloc_payload:
  assumes "mmagic_llc_agent_alloc_buffer_for_tx None (length bs) w = Some (Some a, w1)"
    "mh_live w1 a = Some m" "mmbuf_inv m" "mmbuf_data m = []" "length bs + 2 \<le> tailroom m"
  obtains m' where "mmagic_llc_agent_alloc_buffer_for_tx (Some bs) (length bs) w
      = Some (Some a, set_mmbuf a m' w1)"
    "mmbuf_inv m'" "mmbuf_data m' = bs" "headroom m' = headroom m" "2 \<le> tailroom m'"
proof -
  have "length bs \<le> tailroom m" using assms by simp
  with assms(3) obtain m' where m': "mmbuf_append_data m bs = Some m'" "mmbuf_inv m'"
      "mmbuf_data m' = mmbuf_data m @ bs" "headroom m' = headroom m" "tailroom m' = tailroom m - length bs"
    by (metis mmbuf_append_data_ok)
  moreover have "mmagic_datalink_agent_alloc_buffer_for_tx 4 (length bs) w = Some (Some a, w1)"
    using assms(1) by (auto simp: mmagic_llc_agent_alloc_buffer_for_tx_def
        split: Option.bind_splits option.splits)
  moreover have "length bs = mb_data_len m'"
    using m' assms(4) length_mmbuf_data [OF m'(2)] by simp
  ultimately show ?thesis
    using that [of m'] assms by (simp add: mmagic_llc_agent_alloc_buffer_for_tx_def)
qed

lemma llc_respond_error_ok:
  assumes "mh_live w (mh_next w) = None" "mh_malloc_ok w (mh_next w)"
  shows "mmagic_llc_respond_error sid ptype w
    = Some (MMAGIC_STATUS_OK, (llc_transmitted ptype sid [] w)\<lparr>mh_next := mh_next w + 1\<rparr>)"
proof (rule llc_alloc_ok [of 0, OF _ assms(1)])
  fix m
  assume m: "mmagic_llc_agent_alloc_buffer_for_tx None 0 w = Some (Some (mh_next w),
       w\<lparr>mh_live := (mh_live w)(mh_next w \<mapsto> m), mh_next := mh_next w + 1\<rparr>)"
    "mmbuf_inv m" "mmbuf_data m = []" "headroom m = 5" "0 + 2 \<le> tailroom m"
  let ?w = "w\<lparr>mh_live := (mh_live w)(mh_next w \<mapsto> m), mh_next := mh_next w + 1\<rparr>"
  have "mmagic_llc_agent_tx ptype sid (Some (mh_next w)) ?w
    = Some (MMAGIC_STATUS_OK, (llc_transmitted ptype sid (mmbuf_data m) ?w)
        \<lparr>mh_live := (mh_live ?w)(mh_next w := None)\<rparr>)"
    using m by (intro llc_tx_ok) auto
  with m(1,3) assms(1) show ?thesis
    by (simp add: mmagic_llc_respond_error_def llc_transmitted_def Let_def fun_upd_idem)
qed (use assms in simp_all)

lemma llc_sync_resp_ok:
  assumes "mh_live w (mh_next w) = None" "mh_malloc_ok w (mh_next w)" "length token = 4"
  shows "mmagic_llc_sync_resp sid token w
    = Some (MMAGIC_STATUS_OK, (llc_transmitted MMAGIC_LLC_PTYPE_SYNC_RESP sid
        (token @ [llc_last_seen_seq w, MMAGIC_LLC_PROTOCOL_VERSION]) w)\<lparr>mh_next := mh_next w + 1\<rparr>)"
proof -
  let ?rsp = "token @ [llc_last_seen_seq w, MMAGIC_LLC_PROTOCOL_VERSION]"
  have "length ?rsp \<le> 65535" using assms(3) by simp
  then show ?thesis
  proof (cases rule: llc_alloc_ok [of "length ?rsp" w ?rsp, OF _ assms(1), consumes 1, case_names fails ok])
    case fails
    then show ?thesis using assms(2) by simp
  next
    case (ok m)
    let ?w = "w\<lparr>mh_live := (mh_live w)(mh_next w \<mapsto> m), mh_next := mh_next w + 1\<rparr>"
    obtain m1 where m1: "mmagic_llc_agent_alloc_buffer_for_tx (Some ?rsp) (length ?rsp) w
        = Some (Some (mh_next w), set_mmbuf (mh_next w) m1 ?w)"
      "mmbuf_inv m1" "mmbuf_data m1 = ?rsp" "headroom m1 = headroom m" "2 \<le> tailroom m1"
      by (rule llc_alloc_payload [OF ok(2) _ ok(3,4,6)]) simp
    let ?w1 = "set_mmbuf (mh_next w) m1 ?w"
    have "mmagic_llc_agent_tx MMAGIC_LLC_PTYPE_SYNC_RESP sid (Some (mh_next w)) ?w1
      = Some (MMAGIC_STATUS_OK, (llc_transmitted MMAGIC_LLC_PTYPE_SYNC_RESP sid (mmbuf_data m1) ?w1)
          \<lparr>mh_live := (mh_live ?w1)(mh_next w := None)\<rparr>)"
      using m1 ok(5) assms(3) by (intro llc_tx_ok) (auto simp: set_mmbuf_def)
    with m1(1,3) assms show ?thesis
      by (simp add: mmagic_llc_sync_resp_def llc_transmitted_def Let_def set_mmbuf_def fun_upd_idem)
  qed
qed

subsection \<open>The contract with the layer above\<close>

text \<open>
  What the receive callback of the layer above promises in a state it accepts: it returns, keeps
  the heap in order and the data link alone, and when it does not return
  \<open>MMAGIC_STATUS_OK\<close> the packet is still live, since this layer then releases it. Under this
  contract the layer itself meets the contract of the data link.
\<close>

locale llc_client =
  fixes rx_callback :: "'a llc_rx_cb" and accepts :: "'a llc_world_scheme \<Rightarrow> bool"
  assumes rx_returns: "accepts w \<Longrightarrow> heap_ok w \<Longrightarrow> mh_live w a = Some m \<Longrightarrow> dl_rxbuf w = None \<Longrightarrow>
      unat sid < MMAGIC_MAX_STREAMS \<Longrightarrow>
      \<exists>st w'. rx_callback sid a w = Some (st, w') \<and> accepts w' \<and> heap_ok w' \<and> dl_frame w w'
        \<and> (st \<noteq> MMAGIC_STATUS_OK \<longrightarrow> mh_live w' a \<noteq> None)"
    and accepts_heap: "accepts (w\<lparr>mh_live := l\<rparr>) = accepts w" "accepts (w\<lparr>mh_next := n\<rparr>) = accepts w"
    and accepts_dl: "accepts (w\<lparr>dl_slip := s\<rparr>) = accepts w" "accepts (w\<lparr>dl_slip_ptr := p\<rparr>) = accepts w"
      "accepts (w\<lparr>dl_rxbuf := r\<rparr>) = accepts w" "accepts (w\<lparr>dl_uart_out := u\<rparr>) = accepts w"
    and accepts_llc: "accepts (w\<lparr>llc_last_seen_seq := x\<rparr>) = accepts w"
      "accepts (w\<lparr>llc_last_sent_seq := x\<rparr>) = accepts w" "accepts (w\<lparr>mcu_resets := c\<rparr>) = accepts w"

lemma heap_ok_llc_update [simp]:
  "heap_ok (w\<lparr>llc_last_seen_seq := x\<rparr>) = heap_ok w"
  "heap_ok (w\<lparr>llc_last_sent_seq := x\<rparr>) = heap_ok w"
  "heap_ok (w\<lparr>mcu_resets := c\<rparr>) = heap_ok w"
  by (simp_all add: heap_ok_def)

lemma heap_ok_next: "heap_ok w \<Longrightarrow> heap_ok (w\<lparr>mh_next := mh_next w + 1\<rparr>)"
  by (simp add: heap_ok_def)

lemma heap_ok_transmitted [simp]: "heap_ok (llc_transmitted ptype sid bs w) = heap_ok w"
  by (simp add: heap_ok_def)

lemma heap_okD: "heap_ok w \<Longrightarrow> mh_live w (mh_next w) = None" "heap_ok w \<Longrightarrow> mh_malloc_ok w n"
    "heap_ok w \<Longrightarrow> mh_live w a = Some m \<Longrightarrow> mmbuf_inv m"
  by (auto simp: heap_ok_def)

lemmas respond_error_heap_ok = llc_respond_error_ok [OF heap_okD(1) heap_okD(2)]
lemmas sync_resp_heap_ok = llc_sync_resp_ok [OF heap_okD(1) heap_okD(2)]

lemma dl_frame_transmitted [simp]:
  "dl_frame w ((llc_transmitted ptype sid bs w)\<lparr>mh_next := n\<rparr>)"
  by (simp add: dl_frame_def)

lemma dl_frame_trans: "dl_frame w w1 \<Longrightarrow> dl_frame w1 w2 \<Longrightarrow> dl_frame w w2"
  by (simp add: dl_frame_def)

lemma llc_rx_exit_ok:
  assumes "heap_ok w" "b \<noteq> None \<Longrightarrow> mh_live w (the b) \<noteq> None"
  obtains l where "llc_rx_exit b seq w = Some (w\<lparr>mh_live := l, llc_last_seen_seq := seq\<rparr>)"
    "heap_ok (w\<lparr>mh_live := l, llc_last_seen_seq := seq\<rparr>)"
    "l = (case b of None \<Rightarrow> mh_live w | Some a \<Rightarrow> (mh_live w)(a := None))"
  using assms by (cases b) (auto simp: llc_rx_exit_def mmbuf_release_def heap_ok_simps)

context llc_client
begin

lemmas accepts_simps [simp] = accepts_heap accepts_dl accepts_llc

lemma accepts_transmitted [simp]: "accepts (llc_transmitted ptype sid bs w) = accepts w"
  by (simp add: llc_transmitted_def Let_def)

lemma dispatch_returns:
  assumes "accepts w" "heap_ok w" "mh_live w a = Some m" "dl_rxbuf w = None"
    "unat sid < MMAGIC_MAX_STREAMS" "len \<le> mb_data_len m"
  shows "\<exists>b w'. llc_rx_dispatch rx_callback ptype sid len a w = Some (b, w') \<and> accepts w' \<and> heap_ok w'
    \<and> dl_frame w w' \<and> (b = None \<or> b = Some a \<and> mh_live w' a \<noteq> None)"
proof -
  have error: "\<exists>w'. mmagic_llc_respond_error sid pt v = Some (MMAGIC_STATUS_OK, w') \<and> accepts w'
      \<and> heap_ok w' \<and> dl_frame w w' \<and> mh_live w' = mh_live v"
    if "accepts v" "heap_ok v" "dl_frame w v" for pt v
    using that by (auto simp: respond_error_heap_ok heap_ok_next dl_frame_def
        intro: heap_ok_next [of "llc_transmitted pt sid [] v", simplified])
  obtain st w1 where cb: "rx_callback sid a w = Some (st, w1)" "accepts w1" "heap_ok w1" "dl_frame w w1"
      "st \<noteq> MMAGIC_STATUS_OK \<longrightarrow> mh_live w1 a \<noteq> None"
    using rx_returns [OF assms(1-5)] by blast
  have self: "accepts w" "heap_ok w" "dl_frame w w" using assms by (simp_all add: dl_frame_def)
  consider "ptype = MMAGIC_LLC_PTYPE_COMMAND" "st = MMAGIC_STATUS_OK"
    | "ptype = MMAGIC_LLC_PTYPE_COMMAND" "st \<noteq> MMAGIC_STATUS_OK"
    | "ptype = MMAGIC_LLC_PTYPE_ERROR \<or> ptype = MMAGIC_LLC_PTYPE_AGENT_RESET"
    | "ptype = MMAGIC_LLC_PTYPE_SYNC_REQ" "len = 4"
    | "ptype \<notin> {MMAGIC_LLC_PTYPE_COMMAND, MMAGIC_LLC_PTYPE_ERROR, MMAGIC_LLC_PTYPE_AGENT_RESET}"
      "ptype \<noteq> MMAGIC_LLC_PTYPE_SYNC_REQ \<or> len \<noteq> 4"
    by blast
  then show ?thesis
  proof cases
    case 1
    then show ?thesis using cb by (simp add: llc_rx_dispatch_def)
  next
    case 2
    let ?pt = "if st = MMAGIC_STATUS_INVALID_STREAM then MMAGIC_LLC_PTYPE_INVALID_STREAM
      else MMAGIC_LLC_PTYPE_ERROR"
    from error [OF cb(2-4), of ?pt] obtain w2 where
      "mmagic_llc_respond_error sid ?pt w1 = Some (MMAGIC_STATUS_OK, w2)" "accepts w2" "heap_ok w2"
      "dl_frame w w2" "mh_live w2 = mh_live w1"
      by blast
    with 2 cb show ?thesis by (simp add: llc_rx_dispatch_def)
  next
    case 3
    then show ?thesis using assms by (auto simp: llc_rx_dispatch_def dl_frame_def)
  next
    case 4
    have m: "mmbuf_inv m" using assms(2,3) by (rule heap_okD)
    then have token: "mem_read (mb_buf m) (mmbuf_get_data_start m) 4 = Some (take 4 (mmbuf_data m))"
        "length (take 4 (mmbuf_data m)) = 4"
      using 4 assms(6) mem_read_data_start [of m 4] by (simp_all add: mmbuf_get_defs)
    then show ?thesis
      using 4 assms sync_resp_heap_ok [OF assms(2,2) token(2), of sid] heap_ok_next
      by (simp add: llc_rx_dispatch_def) (simp add: heap_ok_def)
  next
    case 5
    with error [OF self, of MMAGIC_LLC_PTYPE_ERROR] assms(3) show ?thesis
      by (auto simp: llc_rx_dispatch_def)
  qed
qed

lemma exit_returns:
  assumes "accepts v" "heap_ok v" "dl_frame w v" "b = None \<or> b = Some a \<and> mh_live v a \<noteq> None"
  shows "\<exists>w'. llc_rx_exit b seq v = Some w' \<and> accepts w' \<and> heap_ok w' \<and> dl_frame w w'"
proof -
  have "b \<noteq> None \<Longrightarrow> mh_live v (the b) \<noteq> None" using assms(4) by auto
  with assms(2) obtain l where "llc_rx_exit b seq v = Some (v\<lparr>mh_live := l, llc_last_seen_seq := seq\<rparr>)"
      "heap_ok (v\<lparr>mh_live := l, llc_last_seen_seq := seq\<rparr>)"
    by (rule llc_rx_exit_ok)
  moreover have "dl_frame w (v\<lparr>mh_live := l, llc_last_seen_seq := seq\<rparr>)"
    using assms(3) by (simp add: dl_frame_def)
  ultimately show ?thesis using assms(1) by simp
qed

lemma rx_packet_returns:
  assumes "accepts w" "heap_ok w" "mh_live w a = Some m" "dl_rxbuf w = None"
  shows "\<exists>w'. llc_rx_packet rx_callback h a w = Some w' \<and> accepts w' \<and> heap_ok w' \<and> dl_frame w w'"
proof -
  let ?sid = "lh_sid h" and ?seq = "MMAGIC_LLC_GET_SEQ (lh_tseq h)"
    and ?ptype = "MMAGIC_LLC_GET_PTYPE (lh_tseq h)" and ?len = "lh_length h"
  note exit = exit_returns [where seq = ?seq and a = a and w = w]
  have m: "mmbuf_get_data_length m = mb_data_len m"
    by (simp add: mmbuf_get_defs)
  have respond: "\<exists>w'. do { (_, v) \<leftarrow> mmagic_llc_respond_error ?sid pt v; llc_rx_exit b ?seq v } = Some w'
      \<and> accepts w' \<and> heap_ok w' \<and> dl_frame w w'"
    if "accepts v" "heap_ok v" "dl_frame w v" "b = None \<or> b = Some a \<and> mh_live v a \<noteq> None" for pt b v
    using exit [of "(llc_transmitted pt ?sid [] v)\<lparr>mh_next := mh_next v + 1\<rparr>" b] that
      heap_ok_next [of "llc_transmitted pt ?sid [] v"]
    by (simp add: respond_error_heap_ok dl_frame_def)
  have self: "dl_frame w w" by (simp add: dl_frame_def)
  consider "MMAGIC_MAX_STREAMS \<le> unat ?sid"
    | "unat ?sid < MMAGIC_MAX_STREAMS" "mb_data_len m < ?len"
    | "unat ?sid < MMAGIC_MAX_STREAMS" "?len \<le> mb_data_len m" "?seq = llc_last_seen_seq w
        \<and> ?ptype \<noteq> MMAGIC_LLC_PTYPE_AGENT_RESET \<and> ?ptype \<noteq> MMAGIC_LLC_PTYPE_SYNC_REQ"
    | "unat ?sid < MMAGIC_MAX_STREAMS" "?len \<le> mb_data_len m" "\<not> (?seq = llc_last_seen_seq w
        \<and> ?ptype \<noteq> MMAGIC_LLC_PTYPE_AGENT_RESET \<and> ?ptype \<noteq> MMAGIC_LLC_PTYPE_SYNC_REQ)"
    by (meson not_less)
  then show ?thesis
  proof cases
    case 1
    then show ?thesis
      using respond [OF assms(1,2) self, of "Some a"] assms(3)
      by (simp add: llc_rx_packet_def del: split_paired_Ex)
  next
    case 2
    then show ?thesis
      using respond [OF assms(1,2) self, of "Some a"] assms(3) m
      by (simp add: llc_rx_packet_def del: split_paired_Ex)
  next
    case 3
    then show ?thesis
      using exit [OF assms(1,2) self, of "Some a"] assms(3) m by (simp add: llc_rx_packet_def)
  next
    case 4
    from dispatch_returns [OF assms 4(1,2), of ?ptype] obtain b w1 where
      w1: "llc_rx_dispatch rx_callback ?ptype ?sid ?len a w = Some (b, w1)" "accepts w1" "heap_ok w1"
        "dl_frame w w1" "b = None \<or> b = Some a \<and> mh_live w1 a \<noteq> None"
      by blast
    let ?loss = "?seq \<noteq> MMAGIC_LLC_GET_NEXT_SEQ (llc_last_seen_seq w1)
      \<and> llc_last_seen_seq w1 \<noteq> MMAGIC_LLC_INVALID_SEQUENCE \<and> ?ptype \<noteq> MMAGIC_LLC_PTYPE_SYNC_REQ"
    have "llc_rx_packet rx_callback h a w = (if ?loss
      then do {
        (_, w) \<leftarrow> mmagic_llc_respond_error ?sid MMAGIC_LLC_PTYPE_PACKET_LOSS_DETECTED w1;
        llc_rx_exit b ?seq w
      }
      else llc_rx_exit b ?seq w1)"
      using 4 w1(1) assms(3) m
      by (simp add: llc_rx_packet_def Let_def) (auto simp: respond_error_heap_ok w1(3))
    then show ?thesis
      using respond [OF w1(2-5), of MMAGIC_LLC_PTYPE_PACKET_LOSS_DETECTED] exit [OF w1(2-5)] by simp
  qed
qed

lemma rx_buffer_callback_returns:
  assumes "accepts w" "heap_ok w" "mh_live w a = Some m" "dl_rxbuf w = None"
  shows "\<exists>w'. mmagic_llc_agent_rx_buffer_callback rx_callback (Some a) w = Some w'
    \<and> accepts w' \<and> heap_ok w' \<and> dl_frame w w'"
proof (cases "4 \<le> mb_data_len m")
  case False
  then show ?thesis
    using assms exit_returns [OF assms(1,2), of w "Some a" a "llc_last_seen_seq w"]
    by (simp add: mmagic_llc_agent_rx_buffer_callback_def mmbuf_remove_too_long dl_frame_def)
next
  case True
  have m: "mmbuf_inv m" using assms(2,3) by (rule heap_okD)
  with True obtain m' where m': "mmbuf_remove_from_start m 4 = (Some (mb_start_offset m), m')"
      "mmbuf_inv m'" "mb_buf m' = mb_buf m"
    by (metis mmbuf_remove_from_start_ok)
  have "heap_ok (set_mmbuf a m' w)" "accepts (set_mmbuf a m' w)" "dl_rxbuf (set_mmbuf a m' w) = None"
      "mh_live (set_mmbuf a m' w) a = Some m'" "dl_frame w v = dl_frame (set_mmbuf a m' w) v" for v
    using assms m'(2) by (simp_all add: set_mmbuf_def heap_ok_simps dl_frame_def)
  with rx_packet_returns [of "set_mmbuf a m' w" a m'] show ?thesis
    using m' assms(3) mem_read_data_start [OF m True]
    by (simp add: mmagic_llc_agent_rx_buffer_callback_def)
qed

end

sublocale llc_client \<subseteq> dl: datalink_client
  "\<lambda>a. mmagic_llc_agent_rx_buffer_callback rx_callback (Some a)" accepts
  by unfold_locales (rule rx_buffer_callback_returns, assumption+, simp only: accepts_simps)

subsection \<open>Properties of the link control\<close>

lemma llc_rx_header:
  assumes "mh_live w a = Some m" "mmbuf_inv m" "mmbuf_data m = llc_packet ptype seq sid bs"
    "length bs \<le> 65535"
  obtains m' where "mmagic_llc_agent_rx_buffer_callback rx_callback (Some a) w
      = llc_rx_packet rx_callback \<lparr>lh_tseq = MMAGIC_LLC_SET_TSEQ ptype seq, lh_sid = sid,
          lh_length = length bs\<rparr> a (set_mmbuf a m' w)"
    "mmbuf_inv m'" "mmbuf_data m' = bs"
proof -
  have len: "4 \<le> mb_data_len m"
    using assms(2,3) length_mmbuf_data [of m] by (simp add: llc_packet_def)
  with assms(2) obtain m' where m': "mmbuf_remove_from_start m 4 = (Some (mb_start_offset m), m')"
      "mmbuf_inv m'" "mb_buf m' = mb_buf m" "mmbuf_data m' = drop 4 (mmbuf_data m)"
    by (metis mmbuf_remove_from_start_ok)
  with that [of m'] show ?thesis
    using assms mem_read_data_start [OF assms(2) len]
    by (simp add: mmagic_llc_agent_rx_buffer_callback_def llc_packet_def llc_header_round_trip)
qed

text \<open>C4. Round trip over the whole serial link: a packet one side transmits with
  \<open>mmagic_llc_agent_tx\<close>, sent over its data link without checksum and received byte by byte by an idle
  peer, is handed to the peer's link control with a header from which the peer decodes exactly the type and
  the stream it was sent with, its length, and the sequence number after the one the sender used last (modulo 16),
  which the sender now remembers; the buffer handed over holds exactly the data. The types are those that count
  in the sequence: for \<open>SYNC_REQ\<close> and \<open>SYNC_RESP\<close> \<open>mmagic_llc_agent.h\<close> asks for another numbering.\<close>

theorem llc_round_trip:
  assumes "mh_live ws a = Some m" "mmbuf_inv m" "5 \<le> headroom m" "\<not> dl_tx_crc_enabled ws"
    and "length (mmbuf_data m) \<le> 65535" "dl_uart_out ws = []"
    and "dl_idle wr" "length (mmbuf_data m) + 5 \<le> dl_max_rx_packet_size wr"
    and "ptype \<le> MMAGIC_LLC_PTYPE_PACKET_LOSS_DETECTED"
  shows "\<exists>ws' wr' h b m'.
    mmagic_llc_agent_tx ptype sid (Some a) ws = Some (MMAGIC_STATUS_OK, ws')
    \<and> mh_live ws' = (mh_live ws)(a := None)
    \<and> datalink_uart_rx_handler
        (Some (\<lambda>a. mmagic_llc_agent_rx_buffer_callback rx_callback (Some a))) (dl_uart_out ws') wr
      = do { w \<leftarrow> llc_rx_packet rx_callback h b wr'; datalink_init_slip_rx_state w }
    \<and> MMAGIC_LLC_GET_PTYPE (lh_tseq h) = ptype \<and> lh_sid h = sid \<and> lh_length h = length (mmbuf_data m)
    \<and> unat (MMAGIC_LLC_GET_SEQ (lh_tseq h)) = (unat (llc_last_sent_seq ws) + 1) mod 16
    \<and> llc_last_sent_seq ws' = MMAGIC_LLC_GET_SEQ (lh_tseq h)
    \<and> mh_live wr' b = Some m' \<and> mmbuf_data m' = mmbuf_data m"
proof -
  let ?seq = "MMAGIC_LLC_GET_NEXT_SEQ (llc_last_sent_seq ws)"
  let ?packet = "llc_packet ptype ?seq sid (mmbuf_data m)"
  let ?cb = "Some (\<lambda>a. mmagic_llc_agent_rx_buffer_callback rx_callback (Some a))"
  let ?ws = "(llc_transmitted ptype sid (mmbuf_data m) ws)\<lparr>mh_live := (mh_live ws)(a := None)\<rparr>"
  have tx: "mmagic_llc_agent_tx ptype sid (Some a) ws = Some (MMAGIC_STATUS_OK, ?ws)"
    using assms by (intro llc_tx_ok) auto
  have uart: "dl_uart_out ?ws = SLIP_FRAME_END # slip_encs (0 # ?packet) @ [SLIP_FRAME_END]"
    using assms(4,6) by (simp add: llc_transmitted_def Let_def datalink_frame_def)
  have "0 # ?packet \<noteq> []" "length (0 # ?packet) \<le> dl_max_rx_packet_size wr"
    using assms(2,8) by (auto simp: llc_packet_def)
  from datalink_receives_frame [OF assms(7) this, of ?cb] obtain b w1 m1 where
    rx: "datalink_uart_rx_loop ?cb (SLIP_FRAME_END # slip_encs (0 # ?packet) @ [SLIP_FRAME_END]) wr
      = do { w \<leftarrow> datalink_process_rxbuf ?cb b w1; datalink_init_slip_rx_state w }"
    and b: "dl_rxbuf wr = Some b" "mh_live w1 = (mh_live wr)(b \<mapsto> m1)"
      "mmbuf_inv m1" "mmbuf_data m1 = 0 # ?packet"
    by blast
  have "mh_live w1 b = Some m1" using b by simp
  then obtain m2 where m2: "datalink_process_rxbuf ?cb b w1
      = mmagic_llc_agent_rx_buffer_callback rx_callback (Some b) (set_mmbuf b m2 w1)"
      "mmbuf_inv m2" "mmbuf_data m2 = ?packet"
    by (rule datalink_process_plain [OF _ b(3,4),
        where cb = "\<lambda>a. mmagic_llc_agent_rx_buffer_callback rx_callback (Some a)"]) auto
  have "mh_live (set_mmbuf b m2 w1) b = Some m2" by (simp add: set_mmbuf_def)
  then obtain m3 where m3: "mmagic_llc_agent_rx_buffer_callback rx_callback (Some b) (set_mmbuf b m2 w1)
      = llc_rx_packet rx_callback \<lparr>lh_tseq = MMAGIC_LLC_SET_TSEQ ptype ?seq, lh_sid = sid,
          lh_length = length (mmbuf_data m)\<rparr> b (set_mmbuf b m3 (set_mmbuf b m2 w1))"
      "mmbuf_data m3 = mmbuf_data m"
    by (rule llc_rx_header [OF _ m2(2,3) assms(5)])
  let ?h = "\<lparr>lh_tseq = MMAGIC_LLC_SET_TSEQ ptype ?seq, lh_sid = sid, lh_length = length (mmbuf_data m)\<rparr>"
  have rx_eq: "datalink_uart_rx_handler ?cb (dl_uart_out ?ws) wr = do {
      w \<leftarrow> llc_rx_packet rx_callback ?h b (set_mmbuf b m3 (set_mmbuf b m2 w1));
      datalink_init_slip_rx_state w
    }"
    using rx b(1) m2(1) m3(1) uart
    by (simp add: datalink_uart_rx_handler_def del: datalink_uart_rx_loop.simps)
  have live: "mh_live (set_mmbuf b m3 (set_mmbuf b m2 w1)) b = Some m3" by (simp add: set_mmbuf_def)
  have "ptype < 16"
    using assms(9) by unat_arith
  then have decoded: "MMAGIC_LLC_GET_PTYPE (lh_tseq ?h) = ptype"
      "MMAGIC_LLC_GET_SEQ (lh_tseq ?h) = MMAGIC_LLC_GET_NEXT_SEQ (llc_last_sent_seq ws)"
    by (simp_all add: get_ptype_set_tseq)
  have "unat (MMAGIC_LLC_GET_NEXT_SEQ (llc_last_sent_seq ws)) = (unat (llc_last_sent_seq ws) + 1) mod 16"
    by (rule unat_next_seq)
  then show ?thesis
    using tx rx_eq live m3(2) decoded
    by (intro exI [of _ ?ws] exI [of _ "set_mmbuf b m3 (set_mmbuf b m2 w1)"] exI [of _ ?h] exI [of _ b]
        exI [of _ m3] conjI) simp_all
qed

definition sample_rx_callback :: "'a llc_rx_cb" where
  "sample_rx_callback sid a w = Some (MMAGIC_STATUS_ERROR, w)"

definition sample_llc_world :: "mmbuf \<Rightarrow> llc_world" where
  "sample_llc_world m =
     \<lparr>mh_live = [0 \<mapsto> m], mh_next = 1, mh_malloc_ok = \<lambda>n. True, dl_tx_crc_enabled = False,
      dl_slip = slip_rx_zero\<lparr>buffer_length := 8\<rparr>, dl_slip_ptr = Some 0, dl_rxbuf = Some 0,
      dl_max_rx_packet_size = 8, dl_uart_out = [], llc_last_seen_seq = 0xff,
      llc_last_sent_seq = 0xff, mcu_resets = 0\<rparr>"

definition sample_out_mmbuf :: mmbuf where
  "sample_out_mmbuf = \<lparr>mb_buf = [0, 0, 0, 0, 0, 1, 2, 3], mb_buf_len = 8, mb_start_offset = 5,
     mb_data_len = 3\<rparr>"

definition sample_in_mmbuf :: mmbuf where
  "sample_in_mmbuf = \<lparr>mb_buf = [0, 0, 0, 0, 0, 0, 0, 0], mb_buf_len = 8, mb_start_offset = 0,
     mb_data_len = 0\<rparr>"

theorem llc_round_trip_witness:
  "mmbuf_data sample_out_mmbuf = [1, 2, 3] \<and> dl_idle (sample_llc_world sample_in_mmbuf) \<and>
   (\<exists>ws' wr' h b m'.
    mmagic_llc_agent_tx 2 2 (Some 0) (sample_llc_world sample_out_mmbuf) = Some (MMAGIC_STATUS_OK, ws')
    \<and> mh_live ws' = (mh_live (sample_llc_world sample_out_mmbuf))(0 := None)
    \<and> datalink_uart_rx_handler
        (Some (\<lambda>a. mmagic_llc_agent_rx_buffer_callback sample_rx_callback (Some a))) (dl_uart_out ws')
        (sample_llc_world sample_in_mmbuf)
      = do { w \<leftarrow> llc_rx_packet sample_rx_callback h b wr'; datalink_init_slip_rx_state w }
    \<and> MMAGIC_LLC_GET_PTYPE (lh_tseq h) = 2 \<and> lh_sid h = 2 \<and> lh_length h = length (mmbuf_data sample_out_mmbuf)
    \<and> unat (MMAGIC_LLC_GET_SEQ (lh_tseq h))
        = (unat (llc_last_sent_seq (sample_llc_world sample_out_mmbuf)) + 1) mod 16
    \<and> llc_last_sent_seq ws' = MMAGIC_LLC_GET_SEQ (lh_tseq h)
    \<and> mh_live wr' b = Some m' \<and> mmbuf_data m' = mmbuf_data sample_out_mmbuf)"
proof -
  have "mmbuf_inv sample_out_mmbuf" "mmbuf_data sample_out_mmbuf = [1, 2, 3]"
      "5 \<le> headroom sample_out_mmbuf"
    by (simp_all add: sample_out_mmbuf_def mmbuf_inv_def mmbuf_data_def headroom_def)
  moreover have "dl_idle (sample_llc_world sample_in_mmbuf)"
    by (simp add: dl_idle_def dl_linked_def sample_llc_world_def sample_in_mmbuf_def mmbuf_inv_def
        slip_rx_zero_def)
  moreover have "mh_live (sample_llc_world m) 0 = Some m" "\<not> dl_tx_crc_enabled (sample_llc_world m)"
      "dl_uart_out (sample_llc_world m) = []" "dl_max_rx_packet_size (sample_llc_world m) = 8" for m
    by (simp_all add: sample_llc_world_def)
  ultimately show ?thesis
    by (intro conjI llc_round_trip) simp_all
qed

text \<open>A packet that repeats the sequence number last seen has no effect but the release of its
  buffer, unless it is a recovery packet: no callback, no answer, no change of sequence numbers. In
  particular a retransmission that follows the original directly is suppressed, because every
  processed packet leaves its sequence number as the last one seen.\<close>

theorem llc_repeat_suppressed:
  assumes "llc_rx_packet rx_callback h a w = Some w1" "mh_live w1 b = Some m"
    and "unat (lh_sid h) < MMAGIC_MAX_STREAMS" "lh_length h \<le> mb_data_len m"
    and "MMAGIC_LLC_GET_PTYPE (lh_tseq h) \<notin> {MMAGIC_LLC_PTYPE_AGENT_RESET, MMAGIC_LLC_PTYPE_SYNC_REQ}"
  shows "llc_rx_packet rx_callback h b w1 = Some (w1\<lparr>mh_live := (mh_live w1)(b := None)\<rparr>)"
proof -
  have exit: "llc_last_seen_seq v' = seq" if "llc_rx_exit x seq v = Some v'" for x seq v v'
    using that by (auto simp: llc_rx_exit_def split: Option.bind_splits)
  have "llc_last_seen_seq w1 = MMAGIC_LLC_GET_SEQ (lh_tseq h)"
    using assms(1) by (auto simp: llc_rx_packet_def Let_def split: Option.bind_splits if_splits dest: exit)
  with assms(2-5) show ?thesis
    by (cases w1) (simp add: llc_rx_packet_def Let_def mmbuf_get_defs llc_rx_exit_def mmbuf_release_def)
qed

definition sample_error_header :: mmagic_llc_header where
  "sample_error_header = \<lparr>lh_tseq = MMAGIC_LLC_SET_TSEQ MMAGIC_LLC_PTYPE_ERROR 5, lh_sid = 0, lh_length = 0\<rparr>"

definition sample_two_packets :: llc_world where
  "sample_two_packets = sample_llc_world sample_in_mmbuf\<lparr>mh_live := [7 \<mapsto> sample_in_mmbuf, 8 \<mapsto> sample_in_mmbuf]\<rparr>"

theorem llc_repeat_suppressed_witness:
  "\<exists>w1. llc_rx_packet sample_rx_callback sample_error_header 7 sample_two_packets = Some w1
     \<and> llc_last_seen_seq w1 = 5 \<and> mh_live w1 8 = Some sample_in_mmbuf
     \<and> llc_rx_packet sample_rx_callback sample_error_header 8 w1
         = Some (w1\<lparr>mh_live := (mh_live w1)(8 := None)\<rparr>)"
proof -
  let ?w1 = "sample_two_packets\<lparr>mh_live := [8 \<mapsto> sample_in_mmbuf], llc_last_seen_seq := 5\<rparr>"
  have ptype: "MMAGIC_LLC_GET_PTYPE (lh_tseq sample_error_header) = MMAGIC_LLC_PTYPE_ERROR"
    by (simp add: sample_error_header_def get_ptype_set_tseq)
  have first: "llc_rx_packet sample_rx_callback sample_error_header 7 sample_two_packets = Some ?w1"
    using ptype
    by (simp add: llc_rx_packet_def sample_two_packets_def sample_llc_world_def sample_error_header_def
        sample_in_mmbuf_def mmbuf_get_defs llc_rx_dispatch_def llc_rx_exit_def mmbuf_release_def)
  have "mh_live ?w1 8 = Some sample_in_mmbuf" "unat (lh_sid sample_error_header) < MMAGIC_MAX_STREAMS"
      "lh_length sample_error_header \<le> mb_data_len sample_in_mmbuf"
    by (simp_all add: sample_error_header_def)
  with llc_repeat_suppressed [OF first, of 8 sample_in_mmbuf] first ptype show ?thesis
    by (intro exI [of _ ?w1]) simp
qed

text \<open>Sending a list of messages, each in a buffer of its own.\<close>

fun llc_send_all :: "(byte \<times> byte \<times> byte list) list \<Rightarrow> 'a llc_world_scheme \<Rightarrow> 'a llc_world_scheme option" where
  "llc_send_all [] w = Some w"
| "llc_send_all ((ptype, sid, bs) # msgs) w = do {
     (p, w) \<leftarrow> mmagic_llc_agent_alloc_buffer_for_tx (Some bs) (length bs) w;
     (status, w) \<leftarrow> mmagic_llc_agent_tx ptype sid p w;
     ensure (status = MMAGIC_STATUS_OK);
     llc_send_all msgs w
   }"

fun llc_frames :: "bool \<Rightarrow> byte \<Rightarrow> (byte \<times> byte \<times> byte list) list \<Rightarrow> byte list" where
  "llc_frames crc seq [] = []"
| "llc_frames crc seq ((ptype, sid, bs) # msgs) =
     SLIP_FRAME_END # slip_encs (datalink_frame crc (llc_packet ptype seq sid bs)) @ [SLIP_FRAME_END]
     @ llc_frames crc (MMAGIC_LLC_GET_NEXT_SEQ seq) msgs"

lemma llc_send_one:
  assumes "heap_ok w" "length bs \<le> 65535"
  obtains p w1 where
    "mmagic_llc_agent_alloc_buffer_for_tx (Some bs) (length bs) w = Some (p, w1)"
    "mmagic_llc_agent_tx ptype sid p w1
      = Some (MMAGIC_STATUS_OK, (llc_transmitted ptype sid bs w)\<lparr>mh_next := mh_next w + 1\<rparr>)"
proof (rule llc_alloc_ok [of "length bs" w bs, OF assms(2) heap_okD(1) [OF assms(1)]])
  fix m
  let ?w = "w\<lparr>mh_live := (mh_live w)(mh_next w \<mapsto> m), mh_next := mh_next w + 1\<rparr>"
  assume m: "mmagic_llc_agent_alloc_buffer_for_tx None (length bs) w = Some (Some (mh_next w), ?w)"
    "mmbuf_inv m" "mmbuf_data m = []" "headroom m = 5" "length bs + 2 \<le> tailroom m"
  obtain m1 where m1: "mmagic_llc_agent_alloc_buffer_for_tx (Some bs) (length bs) w
      = Some (Some (mh_next w), set_mmbuf (mh_next w) m1 ?w)"
    "mmbuf_inv m1" "mmbuf_data m1 = bs" "headroom m1 = headroom m" "2 \<le> tailroom m1"
    by (rule llc_alloc_payload [OF m(1) _ m(2,3,5)]) simp
  let ?w1 = "set_mmbuf (mh_next w) m1 ?w"
  have "mmagic_llc_agent_tx ptype sid (Some (mh_next w)) ?w1
    = Some (MMAGIC_STATUS_OK, (llc_transmitted ptype sid (mmbuf_data m1) ?w1)
        \<lparr>mh_live := (mh_live ?w1)(mh_next w := None)\<rparr>)"
    using m1 m assms(2) by (intro llc_tx_ok) (auto simp: set_mmbuf_def)
  with that [OF m1(1)] m1(3) heap_okD(1) [OF assms(1)] show ?thesis
    by (simp add: llc_transmitted_def Let_def set_mmbuf_def fun_upd_idem)
qed (use assms in \<open>simp_all add: heap_ok_def\<close>)

text \<open>Packets go out in order, each framed, with sequence numbers that count up modulo 16 from the
  last one sent; after initialisation the first is 0. This holds for every packet type, recovery
  packets included, and leaves no buffer behind.\<close>

theorem llc_sequence_numbers:
  assumes "heap_ok w" "\<forall>(ptype, sid, bs) \<in> set msgs. length bs \<le> 65535"
  shows "\<exists>w'. llc_send_all msgs w = Some w' \<and> heap_ok w' \<and> mh_live w' = mh_live w
    \<and> dl_uart_out w' = dl_uart_out w
        @ llc_frames (dl_tx_crc_enabled w) (MMAGIC_LLC_GET_NEXT_SEQ (llc_last_sent_seq w)) msgs
    \<and> llc_last_sent_seq w' = (MMAGIC_LLC_GET_NEXT_SEQ ^^ length msgs) (llc_last_sent_seq w)"
  using assms
proof (induction msgs arbitrary: w)
  case Nil
  then show ?case by simp
next
  case (Cons msg msgs)
  obtain ptype sid bs where msg: "msg = (ptype, sid, bs)" by (cases msg)
  let ?w1 = "(llc_transmitted ptype sid bs w)\<lparr>mh_next := mh_next w + 1\<rparr>"
  have "length bs \<le> 65535" using Cons.prems msg by auto
  with Cons.prems(1) have send: "llc_send_all (msg # msgs) w = llc_send_all msgs ?w1"
    by (rule llc_send_one [where ptype = ptype and sid = sid]) (simp add: msg)
  have "heap_ok ?w1"
    using heap_ok_next [of "llc_transmitted ptype sid bs w"] Cons.prems(1) by simp
  with Cons.IH [of ?w1] Cons.prems obtain w' where
    "llc_send_all msgs ?w1 = Some w'" "heap_ok w'" "mh_live w' = mh_live w"
    "dl_uart_out w' = dl_uart_out ?w1
      @ llc_frames (dl_tx_crc_enabled ?w1) (MMAGIC_LLC_GET_NEXT_SEQ (llc_last_sent_seq ?w1)) msgs"
    "llc_last_sent_seq w' = (MMAGIC_LLC_GET_NEXT_SEQ ^^ length msgs) (llc_last_sent_seq ?w1)"
    by auto
  then show ?case
    using send by (simp add: msg funpow_swap1) (simp add: llc_transmitted_def Let_def)
qed

theorem llc_sequence_numbers_witness:
  "\<exists>w'. llc_send_all [(1, 0, [7]), (MMAGIC_LLC_PTYPE_SYNC_RESP, 0, [])] (sample_llc_world sample_in_mmbuf) = Some w'
    \<and> mh_live w' = mh_live (sample_llc_world sample_in_mmbuf) \<and> llc_last_sent_seq w' = 1"
proof -
  have "heap_ok (sample_llc_world sample_in_mmbuf)"
    by (auto simp: heap_ok_def sample_llc_world_def sample_in_mmbuf_def mmbuf_inv_def split: if_splits)
  then show ?thesis
    using llc_sequence_numbers [of "sample_llc_world sample_in_mmbuf"
        "[(1, 0, [7]), (MMAGIC_LLC_PTYPE_SYNC_RESP, 0, [])]"]
    by (auto simp: sample_llc_world_def MMAGIC_LLC_GET_NEXT_SEQ_def numeral_2_eq_2
        simp del: llc_send_all.simps)
qed

text \<open>A well-formed \<open>SYNC_REQ\<close> is answered with its token, the last sequence number seen before it
  and the protocol version. It does advance both counters: its own sequence number becomes the last
  one seen, and the \<open>SYNC_RESP\<close> consumes a sequence number of the agent.\<close>

theorem llc_sync_request:
  assumes "heap_ok w" "mh_live w a = Some m" "unat (lh_sid h) < MMAGIC_MAX_STREAMS"
    and "MMAGIC_LLC_GET_PTYPE (lh_tseq h) = MMAGIC_LLC_PTYPE_SYNC_REQ" "lh_length h = 4"
    and "4 \<le> mb_data_len m"
  shows "\<exists>w'. llc_rx_packet rx_callback h a w = Some w'
    \<and> dl_uart_out w' = dl_uart_out (llc_transmitted MMAGIC_LLC_PTYPE_SYNC_RESP (lh_sid h)
        (take 4 (mmbuf_data m) @ [llc_last_seen_seq w, MMAGIC_LLC_PROTOCOL_VERSION]) w)
    \<and> mh_live w' = (mh_live w)(a := None)
    \<and> llc_last_seen_seq w' = MMAGIC_LLC_GET_SEQ (lh_tseq h)
    \<and> llc_last_sent_seq w' = MMAGIC_LLC_GET_NEXT_SEQ (llc_last_sent_seq w)"
proof -
  have "mmbuf_inv m" using assms by (auto simp: heap_ok_def)
  then have token: "mem_read (mb_buf m) (mmbuf_get_data_start m) 4 = Some (take 4 (mmbuf_data m))"
      "length (take 4 (mmbuf_data m)) = 4"
    using assms(6) mem_read_data_start [of m 4] by (simp_all add: mmbuf_get_defs)
  then show ?thesis
    using assms sync_resp_heap_ok [OF assms(1,1) token(2), of "lh_sid h"]
    by (simp add: llc_rx_packet_def llc_rx_dispatch_def llc_rx_exit_def mmbuf_release_def mmbuf_get_defs)
qed

definition sample_sync_mmbuf :: mmbuf where
  "sample_sync_mmbuf = \<lparr>mb_buf = [1, 2, 3, 4], mb_buf_len = 4, mb_start_offset = 0, mb_data_len = 4\<rparr>"

definition sample_sync_header :: mmagic_llc_header where
  "sample_sync_header = \<lparr>lh_tseq = MMAGIC_LLC_SET_TSEQ MMAGIC_LLC_PTYPE_SYNC_REQ 9, lh_sid = 0, lh_length = 4\<rparr>"

theorem llc_sync_request_witness:
  "\<exists>w'. llc_rx_packet sample_rx_callback sample_sync_header 0 (sample_llc_world sample_sync_mmbuf) = Some w'
    \<and> llc_last_seen_seq w' = MMAGIC_LLC_GET_SEQ (lh_tseq sample_sync_header)
    \<and> llc_last_sent_seq w'
      = MMAGIC_LLC_GET_NEXT_SEQ (llc_last_sent_seq (sample_llc_world sample_sync_mmbuf))"
proof -
  have "heap_ok (sample_llc_world sample_sync_mmbuf)"
      "mh_live (sample_llc_world sample_sync_mmbuf) 0 = Some sample_sync_mmbuf"
      "4 \<le> mb_data_len sample_sync_mmbuf"
    by (auto simp: heap_ok_def sample_llc_world_def sample_sync_mmbuf_def mmbuf_inv_def split: if_splits)
  moreover have "unat (lh_sid sample_sync_header) < MMAGIC_MAX_STREAMS"
      "MMAGIC_LLC_GET_PTYPE (lh_tseq sample_sync_header) = MMAGIC_LLC_PTYPE_SYNC_REQ"
      "lh_length sample_sync_header = 4"
    by (simp_all add: sample_sync_header_def get_ptype_set_tseq)
  ultimately show ?thesis
    using llc_sync_request [of "sample_llc_world sample_sync_mmbuf" 0 sample_sync_mmbuf
        sample_sync_header sample_rx_callback]
    by blast
qed

end
