(* ===== verification/M2m.thy ===== *)
theory M2m
  imports Llc
begin

section \<open>The machine-to-machine agent\<close>

text \<open>
  \<open>mmagic/agent/m2m_api/mmagic_m2m_agent.c\<close>: the streams commands arrive on, their queues and
  worker tasks, and the response and event packets. A stream pointer in the table is null, refers
  to a live stream or dangles; using a dangling one is \<open>None\<close>. A push that would block waits
  in the queue of its stream. The generated command dispatcher \<open>mmagic_m2m_process\<close> and the
  local callbacks are parameters.
\<close>

subsection \<open>State\<close>

datatype mmagic_m2m_stream_request =
  MMAGIC_M2M_STREAM_REQUEST_WIRE nat
| MMAGIC_M2M_STREAM_REQUEST_LOCAL nat
| MMAGIC_M2M_STREAM_REQUEST_CLOSE

record mmagic_m2m_stream =
  ms_subsystem_id :: byte
  ms_sid :: byte
  ms_queue :: "mmagic_m2m_stream_request list"
  ms_context :: nat

datatype m2m_stream_ptr = Stream_null | Stream_live mmagic_m2m_stream | Stream_dangling

record m2m_world = llc_world +
  m2m_stream :: "m2m_stream_ptr list"
  m2m_initialized :: bool

definition stream_deref :: "m2m_stream_ptr \<Rightarrow> mmagic_m2m_stream option" where
  "stream_deref p = (case p of Stream_live s \<Rightarrow> Some s | _ \<Rightarrow> None)"

definition set_stream :: "nat \<Rightarrow> m2m_stream_ptr \<Rightarrow> 'a m2m_world_scheme \<Rightarrow> 'a m2m_world_scheme" where
  "set_stream i p w = w\<lparr>m2m_stream := (m2m_stream w)[i := p]\<rparr>"

definition stream_push ::
  "nat \<Rightarrow> mmagic_m2m_stream_request \<Rightarrow> 'a m2m_world_scheme \<Rightarrow> 'a m2m_world_scheme option" where
  "stream_push i req w = do {
     p \<leftarrow> fetch (m2m_stream w) i;
     s \<leftarrow> stream_deref p;
     Some (set_stream i (Stream_live (s\<lparr>ms_queue := ms_queue s @ [req]\<rparr>)) w)
   }"

subsection \<open>Opening, closing and looking up streams\<close>

text \<open>Which of the three allocations of a new stream succeed: its memory, its queue, its task.\<close>

record open_outcome =
  malloc_succeeds :: bool
  queue_succeeds :: bool
  task_succeeds :: bool

fun first_null :: "m2m_stream_ptr list \<Rightarrow> nat \<Rightarrow> nat option" where
  "first_null [] i = None"
| "first_null (p # ps) i = (if p = Stream_null then Some i else first_null ps (i + 1))"

definition mmagic_m2m_agent_open_stream ::
  "open_outcome \<Rightarrow> nat \<Rightarrow> byte \<Rightarrow> 'a m2m_world_scheme \<Rightarrow> mmagic_status \<times> nat option \<times> 'a m2m_world_scheme" where
  "mmagic_m2m_agent_open_stream out stream_context subsystem_id w =
     (case first_null (m2m_stream w) 0 of
        None \<Rightarrow> (MMAGIC_STATUS_UNAVAILABLE, None, w)
      | Some ii \<Rightarrow>
          if \<not> malloc_succeeds out then (MMAGIC_STATUS_NO_MEM, None, set_stream ii Stream_null w)
          else if \<not> queue_succeeds out then
            (MMAGIC_STATUS_NO_MEM, None, set_stream ii Stream_dangling w)
          else if \<not> task_succeeds out then
            (MMAGIC_STATUS_NO_MEM, None, set_stream ii Stream_dangling w)
          else
            (MMAGIC_STATUS_OK, Some ii,
             set_stream ii (Stream_live \<lparr>ms_subsystem_id = subsystem_id, ms_sid = word_of_nat ii,
               ms_queue = [], ms_context = stream_context\<rparr>) w))"

text \<open>A context is returned as \<open>Some\<close>, a null pointer as \<open>None\<close>.\<close>

definition mmagic_m2m_agent_get_stream_context ::
  "nat \<Rightarrow> 'a m2m_world_scheme \<Rightarrow> nat option option" where
  "mmagic_m2m_agent_get_stream_context stream_id w =
     (if stream_id \<ge> MMAGIC_MAX_STREAMS then Some None
      else do {
        p \<leftarrow> fetch (m2m_stream w) stream_id;
        if p \<noteq> Stream_null then do {
          s \<leftarrow> stream_deref p;
          Some (Some (ms_context s))
        }
        else Some None
      })"

definition mmagic_m2m_agent_get_stream_subsystem_id :: "nat \<Rightarrow> 'a m2m_world_scheme \<Rightarrow> byte option" where
  "mmagic_m2m_agent_get_stream_subsystem_id stream_id w =
     (if stream_id \<ge> MMAGIC_MAX_STREAMS then Some 0
      else do {
        p \<leftarrow> fetch (m2m_stream w) stream_id;
        if p \<noteq> Stream_null then do {
          s \<leftarrow> stream_deref p;
          Some (ms_subsystem_id s)
        }
        else Some 0
      })"

definition mmagic_m2m_agent_close_stream ::
  "nat \<Rightarrow> 'a m2m_world_scheme \<Rightarrow> (mmagic_status \<times> 'a m2m_world_scheme) option" where
  "mmagic_m2m_agent_close_stream stream_id w =
     (if stream_id = unat CONTROL_STREAM \<or> stream_id \<ge> MMAGIC_MAX_STREAMS
      then Some (MMAGIC_STATUS_INVALID_ARG, w)
      else do {
        p \<leftarrow> fetch (m2m_stream w) stream_id;
        w \<leftarrow> (if p \<noteq> Stream_null then stream_push stream_id MMAGIC_M2M_STREAM_REQUEST_CLOSE w
               else Some w);
        Some (MMAGIC_STATUS_OK, w)
      })"

definition mmagic_m2m_agent_free_stream :: "nat \<Rightarrow> 'a m2m_world_scheme \<Rightarrow> 'a m2m_world_scheme option" where
  "mmagic_m2m_agent_free_stream i w = do {
     p \<leftarrow> fetch (m2m_stream w) i;
     _ \<leftarrow> stream_deref p;
     Some (set_stream i Stream_null w)
   }"

subsection \<open>Packets\<close>

text \<open>\<open>enum mmagic_status\<close> values as they are stored in the one-byte result field.\<close>

fun status_code :: "mmagic_status \<Rightarrow> byte" where
  "status_code MMAGIC_STATUS_OK = 0"
| "status_code MMAGIC_STATUS_ERROR = 1"
| "status_code MMAGIC_STATUS_INVALID_ARG = 2"
| "status_code MMAGIC_STATUS_UNAVAILABLE = 3"
| "status_code MMAGIC_STATUS_INVALID_STREAM = 5"
| "status_code MMAGIC_STATUS_TX_ERROR = 8"
| "status_code MMAGIC_STATUS_NO_MEM = 9"
| "status_code (MMAGIC_STATUS_OTHER n) = word_of_nat n"

definition mmagic_m2m_create_response ::
  "byte \<Rightarrow> byte \<Rightarrow> byte \<Rightarrow> mmagic_status \<Rightarrow> byte list \<Rightarrow> 'a mm_heap_scheme
    \<Rightarrow> (nat option \<times> 'a mm_heap_scheme) option" where
  "mmagic_m2m_create_response subsystem command subcommand result data w = do {
     (txbuffer, w) \<leftarrow> mmagic_llc_agent_alloc_buffer_for_tx None (4 + length data) w;
     (case txbuffer of
        None \<Rightarrow> Some (None, w)
      | Some a \<Rightarrow> do {
          m \<leftarrow> mh_live w a;
          m \<leftarrow> mmbuf_append_data m [subsystem, command, subcommand, status_code result];
          m \<leftarrow> (if data \<noteq> [] then mmbuf_append_data m data else Some m);
          Some (Some a, set_mmbuf a m w)
        })
   }"

definition mmagic_m2m_rx_callback :: "'a m2m_world_ext llc_rx_cb" where
  "mmagic_m2m_rx_callback sid a w = do {
     ensure (unat sid < MMAGIC_MAX_STREAMS);
     p \<leftarrow> fetch (m2m_stream w) (unat sid);
     if p = Stream_null then do {
       w \<leftarrow> mmbuf_release (Some a) w;
       Some (MMAGIC_STATUS_INVALID_STREAM, w)
     }
     else do {
       w \<leftarrow> stream_push (unat sid) (MMAGIC_M2M_STREAM_REQUEST_WIRE a) w;
       Some (MMAGIC_STATUS_OK, w)
     }
   }"

definition mmagic_m2m_event_handler ::
  "byte \<Rightarrow> byte \<Rightarrow> byte list \<Rightarrow> 'a m2m_world_scheme \<Rightarrow> (mmagic_status \<times> 'a m2m_world_scheme) option" where
  "mmagic_m2m_event_handler subsystem_id notification_id payload w =
     (if \<not> m2m_initialized w then Some (MMAGIC_STATUS_OK, w)
      else do {
        (p, w) \<leftarrow> mmagic_m2m_create_response subsystem_id notification_id 0 MMAGIC_STATUS_OK payload w;
        if p = None then Some (MMAGIC_STATUS_NO_MEM, w)
        else mmagic_llc_agent_tx MMAGIC_LLC_PTYPE_EVENT 0 p w
      })"

subsection \<open>The worker task of a stream\<close>

type_synonym 'a m2m_process =
  "byte \<Rightarrow> byte list \<Rightarrow> nat \<Rightarrow> 'a m2m_world_scheme \<Rightarrow> (nat option \<times> 'a m2m_world_scheme) option"

type_synonym 'a m2m_local = "nat \<Rightarrow> 'a m2m_world_scheme \<Rightarrow> 'a m2m_world_scheme option"

definition stream_task_wire ::
  "'a m2m_process \<Rightarrow> byte \<Rightarrow> nat \<Rightarrow> 'a m2m_world_scheme \<Rightarrow> 'a m2m_world_scheme option" where
  "stream_task_wire process sid a w = do {
     m \<leftarrow> mh_live w a;
     (resp_buf, w) \<leftarrow>
       (case mmbuf_remove_from_start m 4 of
          (Some hdr, m) \<Rightarrow> do {
            header \<leftarrow> mem_read (mb_buf m) hdr 4;
            process sid header a (set_mmbuf a m w)
          }
        | (None, m) \<Rightarrow> mmagic_m2m_create_response 0 0 0 MMAGIC_STATUS_ERROR [] w);
     ensure (resp_buf \<noteq> None);
     (_, w) \<leftarrow> mmagic_llc_agent_tx MMAGIC_LLC_PTYPE_RESPONSE sid resp_buf w;
     mmbuf_release (Some a) w
   }"

text \<open>One round of the task of stream \<open>i\<close>; an empty queue leaves it waiting.\<close>

definition mmagic_m2m_agent_stream_task_step ::
  "'a m2m_process \<Rightarrow> 'a m2m_local \<Rightarrow> nat \<Rightarrow> 'a m2m_world_scheme \<Rightarrow> 'a m2m_world_scheme option" where
  "mmagic_m2m_agent_stream_task_step process run_local i w = do {
     p \<leftarrow> fetch (m2m_stream w) i;
     s \<leftarrow> stream_deref p;
     (case ms_queue s of
        [] \<Rightarrow> Some w
      | request # rest \<Rightarrow>
          (let w = set_stream i (Stream_live (s\<lparr>ms_queue := rest\<rparr>)) w in
           case request of
             MMAGIC_M2M_STREAM_REQUEST_WIRE a \<Rightarrow> stream_task_wire process (ms_sid s) a w
           | MMAGIC_M2M_STREAM_REQUEST_LOCAL cb \<Rightarrow> run_local cb w
           | MMAGIC_M2M_STREAM_REQUEST_CLOSE \<Rightarrow>
               if ms_sid s = CONTROL_STREAM then Some w else mmagic_m2m_agent_free_stream i w))
   }"

text \<open>The caller of a local command says how long it waits for a place in the queue; whether one is free by then is an argument.\<close>

definition mmagic_m2m_agent_local_command ::
  "bool \<Rightarrow> nat \<Rightarrow> 'a m2m_world_scheme \<Rightarrow> (mmagic_status \<times> 'a m2m_world_scheme) option" where
  "mmagic_m2m_agent_local_command place_in_time cb w = do {
     pushed \<leftarrow> stream_push (unat CONTROL_STREAM) (MMAGIC_M2M_STREAM_REQUEST_LOCAL cb) w;
     Some (if place_in_time then (MMAGIC_STATUS_OK, pushed) else (MMAGIC_STATUS_ERROR, w))
   }"

definition mmagic_m2m_agent_init ::
  "'a m2m_world_scheme uart_sleep_fn \<Rightarrow> bool \<Rightarrow> open_outcome \<Rightarrow> 'a m2m_world_scheme
    \<Rightarrow> 'a m2m_world_scheme option" where
  "mmagic_m2m_agent_init hal mutex_created out w = do {
     let w = w\<lparr>m2m_stream := replicate MMAGIC_MAX_STREAMS Stream_null, m2m_initialized := False\<rparr>;
     (agent_llc, w) \<leftarrow> mmagic_llc_agent_init hal mmagic_m2m_rx_callback mutex_created w;
     ensure agent_llc;
     let (status, command_sid, w) = mmagic_m2m_agent_open_stream out 0 0 w;
     ensure (status = MMAGIC_STATUS_OK);
     ensure (command_sid = Some (unat CONTROL_STREAM));
     (status, w) \<leftarrow> mmagic_llc_send_start_notification w;
     ensure (status = MMAGIC_STATUS_OK);
     Some (w\<lparr>m2m_initialized := True\<rparr>)
   }"

subsection \<open>With every stream open\<close>

definition all_streams_open :: "'a m2m_world_scheme \<Rightarrow> bool" where
  "all_streams_open w \<longleftrightarrow>
     length (m2m_stream w) = MMAGIC_MAX_STREAMS \<and> list_all (\<lambda>p. stream_deref p \<noteq> None) (m2m_stream w)"

lemma stream_push_open:
  assumes "all_streams_open w" "i < MMAGIC_MAX_STREAMS"
  shows "\<exists>ps. stream_push i req w = Some (w\<lparr>m2m_stream := ps\<rparr>) \<and> all_streams_open (w\<lparr>m2m_stream := ps\<rparr>)"
proof -
  from assms obtain s where "stream_deref (m2m_stream w ! i) = Some s"
    by (auto simp: all_streams_open_def list_all_length)
  then show ?thesis
    using assms by (auto simp: stream_push_def set_stream_def all_streams_open_def list_all_length
        nth_list_update stream_deref_def)
qed

lemma m2m_rx_callback_open:
  assumes "all_streams_open w" "unat sid < MMAGIC_MAX_STREAMS"
  shows "\<exists>ps. mmagic_m2m_rx_callback sid a w = Some (MMAGIC_STATUS_OK, w\<lparr>m2m_stream := ps\<rparr>)
    \<and> all_streams_open (w\<lparr>m2m_stream := ps\<rparr>)"
proof -
  have "m2m_stream w ! unat sid \<noteq> Stream_null"
    using assms by (auto simp: all_streams_open_def list_all_length stream_deref_def)
  moreover obtain ps where "stream_push (unat sid) (MMAGIC_M2M_STREAM_REQUEST_WIRE a) w
      = Some (w\<lparr>m2m_stream := ps\<rparr>)" "all_streams_open (w\<lparr>m2m_stream := ps\<rparr>)"
    using stream_push_open [OF assms] by blast
  ultimately show ?thesis
    using assms by (intro exI [of _ ps]) (simp add: mmagic_m2m_rx_callback_def, simp add: all_streams_open_def)
qed

lemma heap_ok_m2m_update [simp]: "heap_ok (w\<lparr>m2m_stream := ps\<rparr>) = heap_ok w"
  by (simp add: heap_ok_def)

interpretation m2m: llc_client mmagic_m2m_rx_callback all_streams_open
proof unfold_locales
  fix w :: "'a m2m_world_scheme" and a m and sid :: byte
  assume "all_streams_open w" "heap_ok w" "unat sid < MMAGIC_MAX_STREAMS"
  with m2m_rx_callback_open [of w sid a]
  show "\<exists>st w'. mmagic_m2m_rx_callback sid a w = Some (st, w') \<and> all_streams_open w' \<and> heap_ok w'
      \<and> dl_frame w w' \<and> (st \<noteq> MMAGIC_STATUS_OK \<longrightarrow> mh_live w' a \<noteq> None)"
    by (auto simp: dl_frame_def)
qed (simp_all add: all_streams_open_def)

text \<open>C5. As long as every stream is open and memory lasts, the agent's receive path handles any
  byte sequence the controller sends, well formed or not: no assertion fails, no buffer is used
  after its release or released twice, and the state it leaves is again one from which this
  holds.\<close>

theorem m2m_receive_path_safe:
  assumes "all_streams_open w" "dl_inv w"
  shows "\<exists>w'. datalink_uart_rx_handler
      (Some (\<lambda>a. mmagic_llc_agent_rx_buffer_callback mmagic_m2m_rx_callback (Some a))) bytes w = Some w'
    \<and> all_streams_open w' \<and> dl_inv w'"
  using m2m.dl.rx_handler_returns [OF assms] by blast

definition sample_stream :: "byte \<Rightarrow> mmagic_m2m_stream" where
  "sample_stream i = \<lparr>ms_subsystem_id = 0, ms_sid = i, ms_queue = [], ms_context = 0\<rparr>"

definition sample_m2m_world :: "m2m_stream_ptr list \<Rightarrow> m2m_world" where
  "sample_m2m_world streams =
     \<lparr>mh_live = [0 \<mapsto> sample_in_mmbuf], mh_next = 1, mh_malloc_ok = \<lambda>n. True,
      dl_tx_crc_enabled = False, dl_slip = slip_rx_zero\<lparr>buffer_length := 8\<rparr>, dl_slip_ptr = Some 0,
      dl_rxbuf = Some 0, dl_max_rx_packet_size = 8, dl_uart_out = [], llc_last_seen_seq = 0xff,
      llc_last_sent_seq = 0xff, mcu_resets = 0, m2m_stream = streams, m2m_initialized = True\<rparr>"

lemma sample_m2m_world_inv: "dl_inv (sample_m2m_world streams)"
proof -
  have "heap_ok (sample_m2m_world streams)"
    by (auto simp: heap_ok_def sample_m2m_world_def sample_in_mmbuf_def mmbuf_inv_def split: if_splits)
  then show ?thesis
    by (simp add: dl_inv_def dl_linked_def)
      (simp add: sample_m2m_world_def sample_in_mmbuf_def mmbuf_inv_def slip_inv_def slip_rx_zero_def)
qed

theorem m2m_receive_path_safe_witness:
  "all_streams_open (sample_m2m_world (replicate 8 (Stream_live (sample_stream 0)))) \<and>
   (\<exists>w'. datalink_uart_rx_handler
      (Some (\<lambda>a. mmagic_llc_agent_rx_buffer_callback mmagic_m2m_rx_callback (Some a)))
      [0xc0, 0, 0xdb, 0xc0, 1] (sample_m2m_world (replicate 8 (Stream_live (sample_stream 0)))) = Some w'
    \<and> all_streams_open w' \<and> dl_inv w')"
proof -
  have "all_streams_open (sample_m2m_world (replicate 8 (Stream_live (sample_stream 0))))"
    by (simp add: all_streams_open_def sample_m2m_world_def stream_deref_def list_all_length)
  with m2m_receive_path_safe [OF this sample_m2m_world_inv] show ?thesis by blast
qed

subsection \<open>A command for a stream that is not open\<close>

text \<open>C6. A command for a valid stream that is not open makes the agent release the packet twice:
  the callback releases it before it reports \<open>MMAGIC_STATUS_INVALID_STREAM\<close>, and the link
  control, which still owns the buffer of a rejected packet, releases it again.\<close>

theorem m2m_closed_stream_double_free:
  assumes "heap_ok w" "mh_live w a = Some m" "unat (lh_sid h) < MMAGIC_MAX_STREAMS"
    and "length (m2m_stream w) = MMAGIC_MAX_STREAMS"
    and "m2m_stream w ! unat (lh_sid h) = Stream_null"
    and "MMAGIC_LLC_GET_PTYPE (lh_tseq h) = MMAGIC_LLC_PTYPE_COMMAND"
    and "MMAGIC_LLC_GET_SEQ (lh_tseq h) \<noteq> llc_last_seen_seq w" "lh_length h \<le> mb_data_len m"
  shows "llc_rx_packet mmagic_m2m_rx_callback h a w = None"
proof -
  let ?w1 = "w\<lparr>mh_live := (mh_live w)(a := None)\<rparr>"
  have "heap_ok ?w1" using assms(1) by (rule heap_ok_simps)
  then have "mmagic_llc_respond_error (lh_sid h) MMAGIC_LLC_PTYPE_INVALID_STREAM ?w1
      = Some (MMAGIC_STATUS_OK,
          (llc_transmitted MMAGIC_LLC_PTYPE_INVALID_STREAM (lh_sid h) [] ?w1)\<lparr>mh_next := mh_next w + 1\<rparr>)"
    by (simp add: respond_error_heap_ok)
  moreover have "mmagic_m2m_rx_callback (lh_sid h) a w = Some (MMAGIC_STATUS_INVALID_STREAM, ?w1)"
    using assms by (simp add: mmagic_m2m_rx_callback_def mmbuf_release_def)
  ultimately have dispatch: "llc_rx_dispatch mmagic_m2m_rx_callback MMAGIC_LLC_PTYPE_COMMAND (lh_sid h)
      (lh_length h) a w = Some (Some a,
        (llc_transmitted MMAGIC_LLC_PTYPE_INVALID_STREAM (lh_sid h) [] ?w1)\<lparr>mh_next := mh_next w + 1\<rparr>)"
    by (simp add: llc_rx_dispatch_def)
  have twice: "llc_rx_exit (Some a) seq v = None" if "mh_live v a = None" for seq and v :: "'a m2m_world_scheme"
    using that by (simp add: llc_rx_exit_def mmbuf_release_def)
  have heap2: "heap_ok ((llc_transmitted pt s [] ?w1)\<lparr>mh_next := mh_next w + 1\<rparr>)" for pt s
    using heap_ok_next [of "llc_transmitted pt s [] ?w1"] \<open>heap_ok ?w1\<close> by simp
  then show ?thesis
    using assms dispatch
    by (simp add: llc_rx_packet_def mmbuf_get_defs Let_def)
      (simp add: respond_error_heap_ok [OF heap2, simplified] twice)
qed

text \<open>The double release happens on a concrete command from the controller, in the state that follows
  start-up: only the control stream is open.\<close>

definition startup_streams :: "m2m_stream_ptr list" where
  "startup_streams = Stream_live (sample_stream 0) # replicate 7 Stream_null"

definition sample_command_header :: mmagic_llc_header where
  "sample_command_header =
     \<lparr>lh_tseq = MMAGIC_LLC_SET_TSEQ MMAGIC_LLC_PTYPE_COMMAND 1, lh_sid = 3, lh_length = 0\<rparr>"

theorem m2m_closed_stream_double_free_witness:
  "m2m_stream (sample_m2m_world startup_streams) ! 3 = Stream_null
    \<and> llc_rx_packet mmagic_m2m_rx_callback sample_command_header 0 (sample_m2m_world startup_streams) = None"
proof -
  have "MMAGIC_LLC_GET_PTYPE (lh_tseq sample_command_header) = MMAGIC_LLC_PTYPE_COMMAND"
      "MMAGIC_LLC_GET_SEQ (lh_tseq sample_command_header) = 1" "lh_sid sample_command_header = 3"
      "lh_length sample_command_header = 0"
    by (simp_all add: sample_command_header_def get_ptype_set_tseq)
  moreover have "heap_ok (sample_m2m_world startup_streams)"
    using sample_m2m_world_inv by (simp add: dl_inv_def)
  moreover have "mh_live (sample_m2m_world startup_streams) 0 = Some sample_in_mmbuf"
      "length (m2m_stream (sample_m2m_world startup_streams)) = 8"
      "m2m_stream (sample_m2m_world startup_streams) ! 3 = Stream_null"
      "llc_last_seen_seq (sample_m2m_world startup_streams) = 0xff"
    by (simp_all add: sample_m2m_world_def startup_streams_def)
  ultimately show ?thesis
    using m2m_closed_stream_double_free [of "sample_m2m_world startup_streams" 0 sample_in_mmbuf
        sample_command_header]
    by simp
qed

subsection \<open>Opening streams\<close>

lemma first_null_Some:
  "first_null ps i = Some j \<Longrightarrow> i \<le> j \<and> j - i < length ps \<and> ps ! (j - i) = Stream_null
    \<and> (\<forall>k < j - i. ps ! k \<noteq> Stream_null)"
  by (induction ps i rule: first_null.induct) (auto split: if_splits simp: nth_Cons' Suc_le_eq)

lemma first_null_None: "first_null ps i = None \<longleftrightarrow> Stream_null \<notin> set ps"
  by (induction ps i rule: first_null.induct) auto

text \<open>Opening a stream: with all its allocations succeeding it takes the lowest free identifier,
  which then finds the stream's context, and no other stream changes; a full table is reported
  as unavailable. But when the queue or the task of the stream cannot be created, the table keeps
  the pointer to the memory just freed: the slot counts as taken and looking its stream up reads
  freed memory.\<close>

theorem m2m_open_stream:
  assumes "length (m2m_stream w) = MMAGIC_MAX_STREAMS"
  shows "case mmagic_m2m_agent_open_stream out ctx subsystem w of
      (status, sid, w') \<Rightarrow>
        (Stream_null \<notin> set (m2m_stream w) \<longrightarrow> status = MMAGIC_STATUS_UNAVAILABLE \<and> w' = w)
      \<and> (Stream_null \<in> set (m2m_stream w) \<longrightarrow>
          (\<exists>i < MMAGIC_MAX_STREAMS. m2m_stream w ! i = Stream_null
            \<and> (\<forall>k < i. m2m_stream w ! k \<noteq> Stream_null)
            \<and> (\<forall>k < MMAGIC_MAX_STREAMS. k \<noteq> i \<longrightarrow> m2m_stream w' ! k = m2m_stream w ! k)
            \<and> (if malloc_succeeds out \<and> queue_succeeds out \<and> task_succeeds out
               then status = MMAGIC_STATUS_OK \<and> sid = Some i
                 \<and> mmagic_m2m_agent_get_stream_context i w' = Some (Some ctx)
               else status = MMAGIC_STATUS_NO_MEM
                 \<and> mmagic_m2m_agent_get_stream_context i w'
                    = (if malloc_succeeds out then None else Some None))))"
proof (cases "first_null (m2m_stream w) 0")
  case None
  then show ?thesis
    using first_null_None [of "m2m_stream w" 0] by (simp add: mmagic_m2m_agent_open_stream_def)
next
  case (Some i)
  from first_null_Some [OF this] have i: "i < MMAGIC_MAX_STREAMS" "m2m_stream w ! i = Stream_null"
      "\<forall>k < i. m2m_stream w ! k \<noteq> Stream_null"
    using assms by auto
  moreover have "Stream_null \<in> set (m2m_stream w)"
    using i assms by (metis nth_mem)
  ultimately show ?thesis
    using Some assms
    by (auto simp: mmagic_m2m_agent_open_stream_def set_stream_def stream_deref_def
        mmagic_m2m_agent_get_stream_context_def intro!: exI [of _ i])
qed

theorem m2m_open_stream_witness:
  "length (m2m_stream (sample_m2m_world startup_streams)) = MMAGIC_MAX_STREAMS \<and>
   mmagic_m2m_agent_get_stream_context 1
     (snd (snd (mmagic_m2m_agent_open_stream
        \<lparr>malloc_succeeds = True, queue_succeeds = False, task_succeeds = True\<rparr> 5 2
        (sample_m2m_world startup_streams)))) = None"
proof -
  have len: "length (m2m_stream (sample_m2m_world startup_streams)) = MMAGIC_MAX_STREAMS"
    and streams: "m2m_stream (sample_m2m_world startup_streams) = startup_streams"
    by (simp_all add: sample_m2m_world_def startup_streams_def)
  have one: "i = 1" if "startup_streams ! i = Stream_null"
    "\<forall>k < i. startup_streams ! k \<noteq> Stream_null" "i < 8" for i
  proof -
    have "startup_streams ! 1 = Stream_null" "startup_streams ! 0 \<noteq> Stream_null"
      by (simp_all add: startup_streams_def)
    with that show ?thesis by (metis less_one linorder_neqE_nat)
  qed
  let ?w = "sample_m2m_world startup_streams"
  let ?out = "\<lparr>malloc_succeeds = True, queue_succeeds = False, task_succeeds = True\<rparr>"
  obtain status sid w' where res: "mmagic_m2m_agent_open_stream ?out 5 2 ?w = (status, sid, w')"
    by (cases "mmagic_m2m_agent_open_stream ?out 5 2 ?w")
  have "Stream_null \<in> set (m2m_stream ?w)" by (simp only: streams) (simp add: startup_streams_def)
  with m2m_open_stream [OF len, of ?out 5 2] res obtain i where "i < MMAGIC_MAX_STREAMS"
      "startup_streams ! i = Stream_null" "\<forall>k < i. startup_streams ! k \<noteq> Stream_null"
      "mmagic_m2m_agent_get_stream_context i w' = None"
    by (auto simp: streams)
  with one [of i] len res show ?thesis by simp
qed

end
