(* ===== verification/Mmrc.thy ===== *)
theory Mmrc
  imports Mmrc_Rates
begin

section \<open>Rate control\<close>

text \<open>
  The state of \<open>morselib/mmrc/src/core/mmrc.c\<close> and its operations: the periodic update of the
  statistics and of the choice of rates, the retry chain of a packet with its attempts and
  lookaround, the feedback of a transmission, and initialisation. An out-of-range table access, a
  division by zero, a failed assertion and a signed overflow are \<open>None\<close>. The random number used
  to pick a lookaround candidate is a parameter.
\<close>

subsection \<open>State\<close>

record mmrc_stats_table =
  st_avg_throughput_counter :: nat
  st_sum_throughput :: nat
  st_max_throughput :: nat
  st_sent :: nat
  st_sent_success :: nat
  st_back_mpdu_success :: nat
  st_back_mpdu_failure :: nat
  st_total_sent :: nat
  st_total_success :: nat
  st_evidence :: nat
  st_prob :: nat
  st_have_sent_ampdus :: bool

record mmrc_table =
  tb_caps :: mmrc_sta_capabilities
  tb_best_tp :: mmrc_rate
  tb_second_tp :: mmrc_rate
  tb_baseline :: mmrc_rate
  tb_best_prob :: mmrc_rate
  tb_fixed_rate :: mmrc_rate
  tb_cycle_cnt :: nat
  tb_last_lookaround_cycle :: nat
  tb_lookaround_cnt :: nat
  tb_lookaround_wrap :: nat
  tb_forced_lookaround :: nat
  tb_current_lookaround_rate_attempts :: nat
  tb_current_lookaround_rate_index :: nat
  tb_total_lookaround :: nat
  tb_stability_cnt :: nat
  tb_stability_cnt_threshold :: nat
  tb_probability_variation :: nat
  tb_best_rate_diff :: "int \<times> int"
  tb_probability_variation_direction :: int
  tb_interference_likely :: bool
  tb_unconverged :: bool
  tb_newly_unconverged :: bool
  tb_best_rate_cycle_count :: int
  tb_lookaround_candidates :: "mmrc_rate list"
  tb_num_lookaround_candidates :: nat
  tb_table :: "mmrc_stats_table list"

abbreviation (input) LOOKAROUND_RATE_INIT :: nat where "LOOKAROUND_RATE_INIT \<equiv> 5"
abbreviation (input) LOOKAROUND_RATE_NORMAL :: nat where "LOOKAROUND_RATE_NORMAL \<equiv> 50"
abbreviation (input) LOOKAROUND_RATE_STABLE :: nat where "LOOKAROUND_RATE_STABLE \<equiv> 100"
abbreviation (input) STABILITY_CNT_THRESHOLD_INIT :: nat where "STABILITY_CNT_THRESHOLD_INIT \<equiv> 20"
abbreviation (input) STABILITY_CNT_THRESHOLD_NORMAL :: nat where "STABILITY_CNT_THRESHOLD_NORMAL \<equiv> 50"
abbreviation (input) STABILITY_CNT_THRESHOLD_STABLE :: nat where "STABILITY_CNT_THRESHOLD_STABLE \<equiv> 100"
abbreviation (input) STABILITY_BACKOFF_STEP :: nat where "STABILITY_BACKOFF_STEP \<equiv> 2"
abbreviation (input) LOOKAROUND_MAX_RC_CYCLES :: nat where "LOOKAROUND_MAX_RC_CYCLES \<equiv> 5"
abbreviation (input) LOOKAROUND_RATE_ATTEMPTS :: nat where "LOOKAROUND_RATE_ATTEMPTS \<equiv> 4"
abbreviation (input) MAX_LOOKAROUND_CANDIDATES :: nat where "MAX_LOOKAROUND_CANDIDATES \<equiv> 10"

subsection \<open>Throughput of a rate\<close>

definition calculate_throughput :: "mmrc_table \<Rightarrow> mmrc_rate \<Rightarrow> nat option" where
  "calculate_throughput tb rate = do {
     st \<leftarrow> fetch (tb_table tb) (mr_index rate);
     if st_evidence st = 0 then mmrc_calculate_theoretical_throughput rate
     else if st_prob st < 10 then Some 0
     else if mr_index rate = mr_index (tb_best_tp tb) \<and> tb_interference_likely tb then do {
       tpt \<leftarrow> mmrc_calculate_theoretical_throughput rate;
       Some (u32 (tpt div 100 * (st_prob st + tb_probability_variation tb)))
     }
     else do {
       tpt \<leftarrow> mmrc_calculate_theoretical_throughput rate;
       Some (u32 (tpt div 100 * st_prob st))
     }
   }"

definition find_baseline_index :: "mmrc_table \<Rightarrow> nat option" where
  "find_baseline_index tb =
     (if bit (cap_rates (tb_caps tb)) MMRC_MCS10 then Some 0
      else do {
        row0 \<leftarrow> get_rate_row (tb_caps tb) 0;
        tp0 \<leftarrow> mmrc_calculate_theoretical_throughput row0;
        (_, index) \<leftarrow> foldM (\<lambda>i (min_tp, min_index). do {
            rate \<leftarrow> get_rate_row (tb_caps tb) i;
            if \<not> validate_rate (tb_caps tb) rate then Some (min_tp, min_index)
            else do {
              tp \<leftarrow> mmrc_calculate_theoretical_throughput rate;
              Some (if min_tp > tp then (tp, mr_index rate) else (min_tp, min_index))
            }
          }) [0..<rows_from_sta_caps (tb_caps tb)] (tp0, 0);
        Some index
      })"

subsection \<open>Choosing rates\<close>

text \<open>One step down from a rate: an MCS lower, capped in unconverged mode, or else a bandwidth lower.\<close>

definition fallback_rate ::
  "mmrc_table \<Rightarrow> nat \<Rightarrow> mmrc_rate \<Rightarrow> mmrc_rate option" where
  "fallback_rate tb cap rate =
     (if mr_rate rate \<noteq> 0 then
        (let r = mr_rate rate - 1;
             r = (if tb_unconverged tb \<and> r > cap then cap else r)
         in rate_update_index (tb_caps tb) (rate\<lparr>mr_rate := r\<rparr>))
      else if mr_bw rate > MMRC_BW_1MHZ then
        rate_update_index (tb_caps tb) (rate\<lparr>mr_bw := mr_bw rate - 1\<rparr>)
      else Some rate)"

definition mmrc_fill_retry_rates :: "mmrc_table \<Rightarrow> mmrc_table option" where
  "mmrc_fill_retry_rates tb = do {
     second_tp \<leftarrow> fallback_rate tb 4 (tb_best_tp tb);
     best_prob \<leftarrow> fallback_rate tb 2 second_tp;
     baseline \<leftarrow>
       (if mr_rate best_prob \<noteq> 0 then rate_update_index (tb_caps tb) (best_prob\<lparr>mr_rate := 0\<rparr>)
        else if mr_bw best_prob > MMRC_BW_1MHZ then
          rate_update_index (tb_caps tb) (best_prob\<lparr>mr_bw := mr_bw best_prob - 1\<rparr>)
        else Some best_prob);
     Some (tb\<lparr>tb_second_tp := second_tp, tb_best_prob := best_prob, tb_baseline := baseline\<rparr>)
   }"

fun lookaround_scan :: "nat \<Rightarrow> nat list \<Rightarrow> mmrc_table \<Rightarrow> mmrc_table option" where
  "lookaround_scan best_tp [] tb = Some tb"
| "lookaround_scan best_tp (i # is) tb = do {
     rate \<leftarrow> get_rate_row (tb_caps tb) i;
     if \<not> validate_rate (tb_caps tb) rate then lookaround_scan best_tp is tb
     else if mr_rate rate > mr_rate (tb_best_tp tb) + 1 \<or> mr_bw rate > mr_bw (tb_best_tp tb) + 1
       \<or> mr_rate rate > mr_rate (tb_best_tp tb) \<and> mr_bw rate > mr_bw (tb_best_tp tb)
     then lookaround_scan best_tp is tb
     else do {
       rate_tp \<leftarrow> calculate_throughput tb rate;
       if rate_tp > best_tp then do {
         candidates \<leftarrow> store (tb_lookaround_candidates tb) (tb_num_lookaround_candidates tb) rate;
         let tb = tb\<lparr>tb_lookaround_candidates := candidates,
                     tb_num_lookaround_candidates := u32 (tb_num_lookaround_candidates tb + 1)\<rparr>;
         if tb_num_lookaround_candidates tb \<ge> MAX_LOOKAROUND_CANDIDATES then Some tb
         else lookaround_scan best_tp is tb
       }
       else lookaround_scan best_tp is tb
     }
   }"

definition generate_lookaround_candidates :: "mmrc_table \<Rightarrow> nat \<Rightarrow> mmrc_table option" where
  "generate_lookaround_candidates tb best_tp =
     lookaround_scan best_tp [0..<rows_from_sta_caps (tb_caps tb)]
       (tb\<lparr>tb_num_lookaround_candidates := 0\<rparr>)"

text \<open>The local variables of the loop of \<open>generate_table_priority\<close>.\<close>

record priority_scan =
  ps_best_tp :: nat
  ps_best_row :: nat
  ps_second_best_tp :: nat
  ps_second_best_row :: nat
  ps_last_nonzero_prob :: nat

definition priority_step :: "mmrc_table \<Rightarrow> nat \<Rightarrow> nat \<Rightarrow> priority_scan \<Rightarrow> priority_scan option" where
  "priority_step tb prev_best_row i s = do {
     st \<leftarrow> fetch (tb_table tb) i;
     if st_evidence st = 0 then Some s
     else do {
       tmp \<leftarrow> get_rate_row (tb_caps tb) i;
       if \<not> validate_rate (tb_caps tb) tmp then Some s
       else do {
         tmp_tp \<leftarrow> calculate_throughput tb tmp;
         st_tmp \<leftarrow> fetch (tb_table tb) (mr_index tmp);
         st_prev \<leftarrow> fetch (tb_table tb) prev_best_row;
         st_last \<leftarrow> fetch (tb_table tb) (ps_last_nonzero_prob s);
         let s = (if tmp_tp > ps_best_tp s
                    \<or> st_max_throughput st_tmp \<le> st_max_throughput st_prev
                      \<and> st_prob st_tmp \<ge> 40 \<and> st_prob st_tmp > st_prob st_last
                  then s\<lparr>ps_second_best_row := ps_best_row s, ps_second_best_tp := ps_best_tp s,
                         ps_best_tp := tmp_tp, ps_best_row := mr_index tmp\<rparr>
                  else if tmp_tp > ps_second_best_tp s \<and> ps_best_row s \<noteq> mr_index tmp
                  then s\<lparr>ps_second_best_tp := tmp_tp, ps_second_best_row := mr_index tmp\<rparr>
                  else s);
         Some (if st_prob st_tmp \<ge> 20 \<and> st_max_throughput st_tmp \<ge> st_max_throughput st_last
               then s\<lparr>ps_last_nonzero_prob := mr_index tmp\<rparr> else s)
       }
     }
   }"

text \<open>What happens to the convergence state when the best row has changed, and when it has not.\<close>

definition best_row_changed :: "mmrc_table \<Rightarrow> nat \<Rightarrow> mmrc_table" where
  "best_row_changed tb prev_best_rate =
     (let latest = s8 (int prev_best_rate - int (mr_rate (tb_best_tp tb)));
          (diff0, diff1) = tb_best_rate_diff tb;
          total_abs = u8 (nat \<bar>diff0 + diff1 + latest\<bar>);
          tb = (if \<not> tb_interference_likely tb then
                  (let tb = tb\<lparr>tb_probability_variation := 0\<rparr> in
                   if \<not> tb_unconverged tb \<and> tb_best_rate_cycle_count tb \<le> 4 \<and> total_abs \<ge> 2
                   then tb\<lparr>tb_unconverged := True, tb_newly_unconverged := True\<rparr> else tb)
                else tb);
          tb = (if tb_unconverged tb \<and> \<not> tb_newly_unconverged tb \<and> total_abs < 2
                then tb\<lparr>tb_unconverged := False\<rparr> else tb)
      in tb\<lparr>tb_probability_variation_direction := 0, tb_best_rate_cycle_count := 0,
            tb_best_rate_diff := (diff1, latest)\<rparr>)"

definition best_row_kept :: "mmrc_table \<Rightarrow> mmrc_table option" where
  "best_row_kept tb = do {
     ensure (tb_best_rate_cycle_count tb < 2147483647);
     let tb = tb\<lparr>tb_best_rate_cycle_count := tb_best_rate_cycle_count tb + 1\<rparr>;
     Some (if tb_unconverged tb \<and> \<not> tb_newly_unconverged tb \<and> tb_best_rate_cycle_count tb \<ge> 10
           then tb\<lparr>tb_unconverged := False\<rparr> else tb)
   }"

definition update_stability :: "mmrc_table \<Rightarrow> bool \<Rightarrow> mmrc_table" where
  "update_stability tb kept =
     tb\<lparr>tb_stability_cnt :=
          (if mr_rate (tb_best_tp tb) > 1 \<and> kept then u32 (tb_stability_cnt tb + 1)
           else if tb_stability_cnt tb > STABILITY_BACKOFF_STEP
           then tb_stability_cnt tb - STABILITY_BACKOFF_STEP
           else 0)\<rparr>"

definition generate_table_priority :: "mmrc_table \<Rightarrow> bool \<Rightarrow> mmrc_table option" where
  "generate_table_priority tb new_stats = do {
     let prev_best_row = mr_index (tb_best_tp tb);
     let prev_best_rate = mr_rate (tb_best_tp tb);
     best_tp \<leftarrow> calculate_throughput tb (tb_best_tp tb);
     second_best_tp \<leftarrow> calculate_throughput tb (tb_second_tp tb);
     if mr_rate (tb_fixed_rate tb) \<noteq> MMRC_MCS_UNUSED then
       Some (tb\<lparr>tb_best_tp := tb_fixed_rate tb, tb_second_tp := tb_fixed_rate tb,
                tb_best_prob := tb_fixed_rate tb\<rparr>)
     else do {
       s \<leftarrow> foldM (priority_step tb prev_best_row) [0..<rows_from_sta_caps (tb_caps tb)]
              \<lparr>ps_best_tp = best_tp, ps_best_row = prev_best_row, ps_second_best_tp = second_best_tp,
               ps_second_best_row = mr_index (tb_second_tp tb), ps_last_nonzero_prob = 0\<rparr>;
       tb \<leftarrow> (if new_stats then do {
                rate \<leftarrow> get_rate_row (tb_caps tb) (ps_best_row s);
                rate \<leftarrow> (if ps_best_tp s = 0 \<and> mr_rate rate > 0
                         then rate_update_index (tb_caps tb) (rate\<lparr>mr_rate := mr_rate rate - 1\<rparr>)
                         else Some rate);
                Some (tb\<lparr>tb_best_tp := rate\<rparr>)
              }
              else Some tb);
       tb \<leftarrow> generate_lookaround_candidates tb (ps_best_tp s);
       if \<not> new_stats then Some tb
       else do {
         second \<leftarrow> get_rate_row (tb_caps tb) (ps_second_best_row s);
         tb \<leftarrow> mmrc_fill_retry_rates (tb\<lparr>tb_second_tp := second\<rparr>);
         let kept = (prev_best_row = ps_best_row s);
         let tb = update_stability tb kept;
         tb \<leftarrow> (if \<not> kept then Some (best_row_changed tb prev_best_rate) else best_row_kept tb);
         Some (tb\<lparr>tb_newly_unconverged := False\<rparr>)
       }
     }
   }"

subsection \<open>The retry chain of a packet\<close>

fun allocate_initial_attempts ::
  "mmrc_rate list \<Rightarrow> int \<Rightarrow> nat \<Rightarrow> (mmrc_rate list \<times> int) option" where
  "allocate_initial_attempts [] rem_time sz = Some ([], rem_time)"
| "allocate_initial_attempts (r # rs) rem_time sz =
     (if mr_rate r = MMRC_MCS_UNUSED then Some (r # rs, rem_time)
      else do {
        attempt_time \<leftarrow> calculate_attempt_time r sz;
        let (r, rem_time) =
          (if attempt_time > 4000
           then (r\<lparr>mr_attempts := 1\<rparr>, wrap_s32 (rem_time - int attempt_time))
           else (r\<lparr>mr_attempts := 2\<rparr>, wrap_s32 (rem_time - int (u32 (attempt_time * 2)))));
        (rs, rem_time) \<leftarrow> allocate_initial_attempts rs rem_time sz;
        Some (r # rs, rem_time)
      })"

fun remaining_attempts_loop ::
  "mmrc_table \<Rightarrow> bool \<Rightarrow> mmrc_rate list \<Rightarrow> nat \<Rightarrow> nat \<Rightarrow> mmrc_rate list option" where
  "remaining_attempts_loop tb first [] rem_time sz = Some []"
| "remaining_attempts_loop tb first (r # rs) rem_time sz =
     (if mr_rate r = MMRC_MCS_UNUSED then Some (r # rs)
      else do {
        st \<leftarrow> fetch (tb_table tb) (mr_index r);
        skip \<leftarrow> (if st_prob st < 20 then Some True
                 else if first then do {
                   tp \<leftarrow> calculate_throughput tb r;
                   prob_tp \<leftarrow> calculate_throughput tb (tb_best_prob tb);
                   Some (tp < prob_tp)
                 }
                 else Some False);
        r \<leftarrow> (if skip then Some r
              else do {
                attempt_time \<leftarrow> calculate_attempt_time r sz;
                if attempt_time = 0 then Some r
                else do {
                  share \<leftarrow> cdiv rem_time (cap_max_rates (tb_caps tb));
                  let attempt = u32 (share div attempt_time + mr_attempts r);
                  Some (r\<lparr>mr_attempts := (if attempt > 2 then 2 else attempt) mod 8\<rparr>)
                }
              });
        rs \<leftarrow> remaining_attempts_loop tb False rs rem_time sz;
        Some (r # rs)
      })"

definition calculate_remaining_attempts ::
  "mmrc_table \<Rightarrow> mmrc_rate list \<Rightarrow> int \<Rightarrow> nat \<Rightarrow> mmrc_rate list option" where
  "calculate_remaining_attempts tb rates rem_time sz =
     (if rem_time \<le> 0 then Some rates
      else remaining_attempts_loop tb True rates (nat rem_time) sz)"

definition unused_rate :: mmrc_rate where
  "unused_rate = mmrc_rate_zero\<lparr>mr_rate := MMRC_MCS_UNUSED\<rparr>"

text \<open>The choice of a lookaround rate. The result is the rate to try, if a valid one was picked.\<close>

definition pick_lookaround :: "nat \<Rightarrow> mmrc_table \<Rightarrow> (mmrc_rate option \<times> mmrc_table) option" where
  "pick_lookaround rnd tb = do {
     let tb = tb\<lparr>tb_total_lookaround := u32 (tb_total_lookaround tb + 1),
                 tb_forced_lookaround := (tb_forced_lookaround tb + 1) mod LOOKAROUND_RATE_NORMAL,
                 tb_last_lookaround_cycle := tb_cycle_cnt tb\<rparr>;
     (random, tb) \<leftarrow>
       (if tb_current_lookaround_rate_attempts tb < LOOKAROUND_RATE_ATTEMPTS then do {
          random \<leftarrow> get_rate_row (tb_caps tb) (tb_current_lookaround_rate_index tb);
          Some (random, tb)
        }
        else do {
          random \<leftarrow> fetch (tb_lookaround_candidates tb) (u16 rnd);
          Some (random, tb\<lparr>tb_current_lookaround_rate_index := mr_index random\<rparr>)
        });
     Some (if \<not> validate_rate (tb_caps tb) random then None else Some random, tb)
   }"

definition limit_attempts :: "mmrc_rate \<Rightarrow> mmrc_rate" where
  "limit_attempts r =
     (if mr_rate r \<noteq> MMRC_MCS_UNUSED then
        (let r = (if mr_attempts r = 0 then r\<lparr>mr_attempts := 1\<rparr> else r) in
         if mr_attempts r > 2 then r\<lparr>mr_attempts := 2\<rparr> else r)
      else r)"

definition chain_rates ::
  "mmrc_table \<Rightarrow> bool \<Rightarrow> mmrc_rate \<Rightarrow> mmrc_rate \<Rightarrow> mmrc_rate list" where
  "chain_rates tb is_lookaround lookaround0 lookaround1 =
     (let first = (if is_lookaround then lookaround0 else tb_best_tp tb) in
      if cap_max_rates (tb_caps tb) = 1 then [first, unused_rate, unused_rate, unused_rate]
      else if cap_max_rates (tb_caps tb) = 2 then
        [first, if is_lookaround then lookaround1 else tb_best_prob tb, unused_rate, unused_rate]
      else if cap_max_rates (tb_caps tb) = 3 then
        [first, if is_lookaround then lookaround1 else tb_second_tp tb, tb_best_prob tb, unused_rate]
      else
        [first, if is_lookaround then lookaround1 else tb_second_tp tb, tb_best_prob tb, tb_baseline tb])"

definition best_rate_attempts :: "mmrc_rate \<Rightarrow> mmrc_rate" where
  "best_rate_attempts r =
     (if mr_attempts r = 1 \<and> mr_rate r > 1 then r\<lparr>mr_attempts := 2\<rparr>
      else if mr_rate r \<le> 1 then r\<lparr>mr_attempts := 1\<rparr> else r)"

text \<open>Whether this packet is to look around, and the switch between the sampling speeds.\<close>

definition lookaround_due :: "mmrc_table \<Rightarrow> (bool \<times> mmrc_table) option" where
  "lookaround_due tb = do {
     cnt \<leftarrow> cmod (tb_lookaround_cnt tb + 1) (tb_lookaround_wrap tb);
     let tb = tb\<lparr>tb_lookaround_cnt := cnt\<rparr>;
     Some (mr_rate (tb_fixed_rate tb) = MMRC_MCS_UNUSED
           \<and> (tb_lookaround_cnt tb = 0
              \<or> u32 (tb_last_lookaround_cycle tb + LOOKAROUND_MAX_RC_CYCLES) \<le> tb_cycle_cnt tb), tb)
   }"

definition switch_lookaround :: "bool \<Rightarrow> mmrc_table \<Rightarrow> bool \<times> mmrc_table" where
  "switch_lookaround is_lookaround tb =
     (if tb_lookaround_wrap tb \<noteq> LOOKAROUND_RATE_STABLE then
        if tb_stability_cnt tb \<ge> tb_stability_cnt_threshold tb then
          (False, tb\<lparr>tb_lookaround_wrap := LOOKAROUND_RATE_STABLE,
                     tb_stability_cnt_threshold := STABILITY_CNT_THRESHOLD_STABLE,
                     tb_stability_cnt := STABILITY_CNT_THRESHOLD_STABLE * 2\<rparr>)
        else (is_lookaround, tb)
      else if tb_stability_cnt tb < tb_stability_cnt_threshold tb then
        (is_lookaround, tb\<lparr>tb_stability_cnt_threshold := STABILITY_CNT_THRESHOLD_NORMAL,
                           tb_lookaround_wrap := LOOKAROUND_RATE_NORMAL, tb_stability_cnt := 0\<rparr>)
      else (is_lookaround, tb))"

text \<open>The limits on the attempts of the finished chain.\<close>

definition finish_chain ::
  "mmrc_table \<Rightarrow> bool \<Rightarrow> nat \<Rightarrow> mmrc_rate list \<Rightarrow> mmrc_rate list option" where
  "finish_chain tb picked best_index rates = do {
     let rates = map limit_attempts rates;
     first \<leftarrow> fetch rates 0;
     let rates = (if picked \<and> mr_rate first \<noteq> MMRC_MCS_UNUSED
                    \<and> tb_lookaround_wrap tb \<noteq> LOOKAROUND_RATE_INIT
                  then rates[0 := first\<lparr>mr_attempts := 1\<rparr>] else rates);
     best \<leftarrow> fetch rates best_index;
     Some (rates[best_index := best_rate_attempts best])
   }"

definition request_rts :: "mmrc_rate \<Rightarrow> mmrc_rate" where
  "request_rts r = r\<lparr>mr_flags := or (mr_flags r) 1\<rparr>"

definition mmrc_get_rates :: "nat \<Rightarrow> mmrc_table \<Rightarrow> nat \<Rightarrow> (mmrc_rate list \<times> mmrc_table) option" where
  "mmrc_get_rates rnd tb sz = do {
     (is_lookaround, tb) \<leftarrow> lookaround_due tb;
     let (is_lookaround, tb) = switch_lookaround is_lookaround tb;
     (picked, tb) \<leftarrow>
       (if is_lookaround \<and> tb_num_lookaround_candidates tb > 0 then pick_lookaround rnd tb
        else Some (None, tb));
     let (lookaround0, lookaround1, best_index) =
       (case picked of None \<Rightarrow> (tb_best_tp tb, tb_second_tp tb, 0)
        | Some random \<Rightarrow> (random, tb_best_tp tb, 1));
     let rates = chain_rates tb is_lookaround lookaround0 lookaround1;
     let rates = hd rates # map request_rts (tl rates);
     (rates, rem_time) \<leftarrow> allocate_initial_attempts rates 24000 sz;
     rates \<leftarrow> calculate_remaining_attempts tb rates rem_time sz;
     rates \<leftarrow> finish_chain tb (picked \<noteq> None) best_index rates;
     Some (rates, tb)
   }"

subsection \<open>The periodic update\<close>

definition modify_row :: "nat \<Rightarrow> (mmrc_stats_table \<Rightarrow> mmrc_stats_table) \<Rightarrow> mmrc_table \<Rightarrow> mmrc_table option" where
  "modify_row i f tb = do {
     st \<leftarrow> fetch (tb_table tb) i;
     Some (tb\<lparr>tb_table := (tb_table tb)[i := f st]\<rparr>)
   }"

definition variation_direction :: "int \<Rightarrow> int \<Rightarrow> int" where
  "variation_direction diff direction =
     (if diff * direction < 0 then 0
      else if diff > 0 then min (direction + 1) 5
      else if diff < 0 then max (direction - 1) (-5)
      else direction)"

definition note_variation :: "int \<Rightarrow> nat \<Rightarrow> mmrc_table \<Rightarrow> mmrc_table" where
  "note_variation diff variation tb =
     (let tb = tb\<lparr>tb_probability_variation := u8 variation\<rparr>
      in if tb_probability_variation tb \<ge> 3 \<or> tb_interference_likely tb
         then tb\<lparr>tb_probability_variation_direction :=
                   variation_direction diff (tb_probability_variation_direction tb)\<rparr>
         else tb)"

definition update_interference :: "mmrc_table \<Rightarrow> mmrc_table" where
  "update_interference tb =
     (if tb_best_rate_cycle_count tb > 3 \<and> tb_probability_variation tb \<ge> 5 then
        (if \<bar>tb_probability_variation_direction tb\<bar> \<le> 3 \<and> \<not> tb_interference_likely tb
         then tb\<lparr>tb_interference_likely := True\<rparr> else tb)
      else if tb_interference_likely tb
        \<and> (tb_probability_variation tb \<le> 1 \<or> \<bar>tb_probability_variation_direction tb\<bar> = 5)
      then tb\<lparr>tb_interference_likely := False\<rparr>
      else tb)"

definition mmrc_process_variation :: "mmrc_table \<Rightarrow> nat \<Rightarrow> nat \<Rightarrow> mmrc_table option" where
  "mmrc_process_variation tb current_success index =
     (if index \<noteq> mr_index (tb_best_tp tb) then Some tb
      else if current_success = 0 then
        Some (if \<not> tb_unconverged tb
              then tb\<lparr>tb_unconverged := True, tb_newly_unconverged := True\<rparr> else tb)
      else do {
        st \<leftarrow> fetch (tb_table tb) index;
        if st_prob st = 0 then Some tb
        else if tb_lookaround_wrap tb = LOOKAROUND_RATE_INIT then Some tb
        else do {
          let diff = int current_success - int (st_prob st);
          variation \<leftarrow> calc_ewma_average (tb_probability_variation tb) (nat \<bar>diff\<bar>) 95;
          Some (update_interference (note_variation diff variation tb))
        }
      })"

definition enough_stats :: "mmrc_stats_table \<Rightarrow> nat \<Rightarrow> nat \<Rightarrow> bool" where
  "enough_stats st min_stats attempts_for_stats \<longleftrightarrow>
     attempts_for_stats \<ge> min_stats \<or> attempts_for_stats > 0 \<and> st_prob st > 0"

text \<open>The weight of the old average: the less old evidence there is, the lower.\<close>

definition row_ewma :: "mmrc_stats_table \<Rightarrow> nat" where
  "row_ewma st =
     (let scale = (if st_evidence st = 0 then 0
                   else st_evidence st * 2 * 100 div (st_sent st * 5 + st_evidence st));
          scale = (if scale > 100 then 100 else scale)
      in scale * 75 div 100)"

text \<open>The attempts and the successes an update counts.\<close>

definition stats_for_row :: "bool \<Rightarrow> mmrc_stats_table \<Rightarrow> nat \<times> nat" where
  "stats_for_row unconverged st =
     (let attempts_for_stats = st_back_mpdu_success st + st_back_mpdu_failure st in
      if \<not> st_have_sent_ampdus st \<or> unconverged \<or> attempts_for_stats < 2
         \<or> sub32 (st_sent st) attempts_for_stats < attempts_for_stats div 2
      then (st_sent st, st_sent_success st)
      else (attempts_for_stats, st_back_mpdu_success st))"

definition clear_sent :: "mmrc_stats_table \<Rightarrow> mmrc_stats_table" where
  "clear_sent st =
     st\<lparr>st_total_sent := u32 (st_total_sent st + st_sent st), st_sent := 0,
        st_total_success := u32 (st_total_success st + st_sent_success st), st_sent_success := 0,
        st_back_mpdu_failure := 0, st_back_mpdu_success := 0, st_have_sent_ampdus := False\<rparr>"

definition count_throughput :: "nat \<Rightarrow> mmrc_stats_table \<Rightarrow> mmrc_stats_table option" where
  "count_throughput throughput st = do {
     let st = (if st_max_throughput st < throughput then st\<lparr>st_max_throughput := throughput\<rparr> else st);
     st \<leftarrow> (if st_sum_throughput st > 4294967295 - throughput then do {
              sum \<leftarrow> cdiv (st_sum_throughput st) (st_avg_throughput_counter st);
              Some (st\<lparr>st_sum_throughput := sum, st_avg_throughput_counter := 1\<rparr>)
            }
            else Some st);
     Some (st\<lparr>st_sum_throughput := u32 (st_sum_throughput st + throughput),
              st_avg_throughput_counter := u32 (st_avg_throughput_counter st + 1)\<rparr>)
   }"

definition mmrc_update_row :: "nat \<Rightarrow> nat \<Rightarrow> mmrc_table \<times> bool \<Rightarrow> (mmrc_table \<times> bool) option" where
  "mmrc_update_row min_stats i = (\<lambda>(tb, new_stats). do {
     st \<leftarrow> fetch (tb_table tb) i;
     let scaled_ewma = row_ewma st;
     let (attempts_for_stats, success_for_stats) = stats_for_row (tb_unconverged tb) st;
     let process_this_rate = enough_stats st min_stats attempts_for_stats;
     let evidence_sent = (if process_this_rate then st_sent st else 0);
     average \<leftarrow> calc_ewma_average (st_evidence st) (evidence_sent * 5) scaled_ewma;
     let evidence = u16 average;
     tb \<leftarrow> modify_row i (\<lambda>st. st\<lparr>st_evidence := (if evidence > 100 then 100 else evidence)\<rparr>) tb;
     tb \<leftarrow> (if process_this_rate then do {
              success \<leftarrow> cdiv (100 * success_for_stats) attempts_for_stats;
              let this_success = u16 success;
              tb \<leftarrow> (if scaled_ewma \<noteq> 0 then mmrc_process_variation tb this_success i else Some tb);
              st \<leftarrow> fetch (tb_table tb) i;
              prob \<leftarrow> calc_ewma_average (st_prob st) this_success scaled_ewma;
              modify_row i (\<lambda>st. clear_sent (st\<lparr>st_prob := u8 prob\<rparr>)) tb
            }
            else Some tb);
     rate \<leftarrow> get_rate_row (tb_caps tb) i;
     throughput \<leftarrow> calculate_throughput tb rate;
     st \<leftarrow> fetch (tb_table tb) i;
     st \<leftarrow> count_throughput throughput st;
     tb \<leftarrow> modify_row i (\<lambda>_. st) tb;
     Some (tb, new_stats \<or> process_this_rate)
   })"

text \<open>After the rows: the faster lookaround mode, and the choice of a new lookaround rate.\<close>

definition update_lookaround :: "mmrc_table \<Rightarrow> mmrc_table" where
  "update_lookaround tb =
     (let tb = (if tb_lookaround_wrap tb \<noteq> LOOKAROUND_RATE_INIT
                  \<and> (tb_unconverged tb
                     \<or> mr_bw (tb_best_tp tb) = MMRC_BW_1MHZ \<and> mr_rate (tb_best_tp tb) \<le> 2)
                then tb\<lparr>tb_lookaround_cnt := 0, tb_lookaround_wrap := LOOKAROUND_RATE_INIT,
                        tb_stability_cnt_threshold := STABILITY_CNT_THRESHOLD_INIT\<rparr>
                else tb)
      in if tb_current_lookaround_rate_attempts tb \<le> LOOKAROUND_RATE_ATTEMPTS div 2
         then tb\<lparr>tb_current_lookaround_rate_attempts := LOOKAROUND_RATE_ATTEMPTS\<rparr> else tb)"

definition mmrc_update :: "mmrc_table \<Rightarrow> mmrc_table option" where
  "mmrc_update tb = do {
     let tb = tb\<lparr>tb_cycle_cnt := u32 (tb_cycle_cnt tb + 1)\<rparr>;
     let min_stats = (if tb_lookaround_wrap tb \<noteq> LOOKAROUND_RATE_INIT then 2 else 1);
     (tb, new_stats) \<leftarrow> foldM (mmrc_update_row min_stats) [0..<rows_from_sta_caps (tb_caps tb)] (tb, False);
     tb \<leftarrow> generate_table_priority tb new_stats;
     Some (update_lookaround tb)
   }"

subsection \<open>Feedback\<close>

definition count_sent :: "bool \<Rightarrow> nat \<Rightarrow> mmrc_stats_table \<Rightarrow> mmrc_stats_table" where
  "count_sent was_aggregated attempts st =
     (let st = st\<lparr>st_sent := u16 (st_sent st + attempts)\<rparr> in
      if was_aggregated
      then st\<lparr>st_back_mpdu_failure := u16 (st_back_mpdu_failure st + attempts)\<rparr>
      else st)"

text \<open>The loop of \<open>mmrc_feedback\<close>. The result is the table, the chain with its indices filled in, and the
  position of the last entry with attempts.\<close>

fun feedback_loop ::
  "bool \<Rightarrow> mmrc_rate list \<Rightarrow> mmrc_table \<Rightarrow> (mmrc_table \<times> mmrc_rate list \<times> nat option) option" where
  "feedback_loop was_aggregated [] tb = Some (tb, [], None)"
| "feedback_loop was_aggregated (r # rs) tb = do {
     r \<leftarrow> rate_update_index (tb_caps tb) r;
     tb \<leftarrow> modify_row (mr_index r)
       (\<lambda>st. st\<lparr>st_have_sent_ampdus := st_have_sent_ampdus st \<or> was_aggregated\<rparr>) tb;
     if mr_attempts r > 0 then do {
       tb \<leftarrow> modify_row (mr_index r) (count_sent was_aggregated (mr_attempts r)) tb;
       (tb, rs, last) \<leftarrow> feedback_loop was_aggregated rs tb;
       Some (tb, r # rs, Some (case last of None \<Rightarrow> 0 | Some i \<Rightarrow> Suc i))
     }
     else Some (tb, r # rs, None)
   }"

definition count_ack :: "bool \<Rightarrow> mmrc_stats_table \<Rightarrow> mmrc_stats_table" where
  "count_ack was_aggregated st =
     (let st = st\<lparr>st_sent_success := u16 (st_sent_success st + 1)\<rparr> in
      if was_aggregated
      then st\<lparr>st_back_mpdu_success := u16 (st_back_mpdu_success st + 1),
              st_back_mpdu_failure := u16 (st_back_mpdu_failure st + 65535)\<rparr>
      else st)"

definition mmrc_feedback ::
  "mmrc_table \<Rightarrow> mmrc_rate list \<Rightarrow> bool \<Rightarrow> bool \<Rightarrow> (mmrc_table \<times> mmrc_rate list) option" where
  "mmrc_feedback tb rates was_aggregated was_acked = do {
     (tb, rates, last_index) \<leftarrow> feedback_loop was_aggregated rates tb;
     case last_index of
       None \<Rightarrow> Some (tb, rates)
     | Some i \<Rightarrow>
         if was_acked then do {
           r \<leftarrow> fetch rates i;
           tb \<leftarrow> modify_row (mr_index r) (count_ack was_aggregated) tb;
           Some (tb, rates)
         }
         else Some (tb, rates)
   }"

subsection \<open>Initialisation\<close>

definition max_bw :: "nat \<Rightarrow> nat" where
  "max_bw bw_caps =
     (if bit bw_caps MMRC_BW_16MHZ then MMRC_BW_16MHZ
      else if bit bw_caps MMRC_BW_8MHZ then MMRC_BW_8MHZ
      else if bit bw_caps MMRC_BW_4MHZ then MMRC_BW_4MHZ
      else if bit bw_caps MMRC_BW_2MHZ then MMRC_BW_2MHZ
      else MMRC_BW_1MHZ)"

definition mmrc_init_rates :: "mmrc_table \<Rightarrow> int \<Rightarrow> mmrc_table option" where
  "mmrc_init_rates tb rssi = do {
     let bw = max_bw (cap_bandwidth (tb_caps tb));
     let guard = (if bit (cap_sgi_per_bw (tb_caps tb)) bw then MMRC_GUARD_SHORT else MMRC_GUARD_LONG);
     let rate = (if rssi \<ge> -70 then 7
                 else if rssi \<ge> -85 then 3
                 else if bw = MMRC_BW_1MHZ \<or> bw = MMRC_BW_2MHZ then 3
                 else 0);
     best_tp \<leftarrow> rate_update_index (tb_caps tb)
       ((tb_best_tp tb)\<lparr>mr_bw := bw, mr_guard := guard, mr_rate := rate, mr_ss := 0\<rparr>);
     mmrc_fill_retry_rates (tb\<lparr>tb_best_tp := best_tp, tb_second_tp := best_tp,
                               tb_best_prob := best_tp, tb_baseline := best_tp\<rparr>)
   }"

definition mmrc_stats_zero :: mmrc_stats_table where
  "mmrc_stats_zero = \<lparr>st_avg_throughput_counter = 0, st_sum_throughput = 0, st_max_throughput = 0,
     st_sent = 0, st_sent_success = 0, st_back_mpdu_success = 0, st_back_mpdu_failure = 0,
     st_total_sent = 0, st_total_success = 0, st_evidence = 0, st_prob = 0,
     st_have_sent_ampdus = False\<rparr>"

text \<open>\<open>mmrc_sta_init\<close> writes every member of the table, so the old contents do not matter. The table is
  allocated with one row per row of the capabilities.\<close>

definition mmrc_sta_init :: "mmrc_sta_capabilities \<Rightarrow> int \<Rightarrow> mmrc_table option" where
  "mmrc_sta_init caps rssi = do {
     let tb = \<lparr>tb_caps = caps, tb_best_tp = mmrc_rate_zero, tb_second_tp = mmrc_rate_zero,
       tb_baseline = mmrc_rate_zero, tb_best_prob = mmrc_rate_zero,
       tb_fixed_rate = mmrc_rate_zero\<lparr>mr_rate := MMRC_MCS_UNUSED\<rparr>,
       tb_cycle_cnt = 0, tb_last_lookaround_cycle = 0, tb_lookaround_cnt = 0,
       tb_lookaround_wrap = LOOKAROUND_RATE_INIT, tb_forced_lookaround = 0,
       tb_current_lookaround_rate_attempts = 0, tb_current_lookaround_rate_index = 0,
       tb_total_lookaround = 0, tb_stability_cnt = 0,
       tb_stability_cnt_threshold = STABILITY_CNT_THRESHOLD_INIT, tb_probability_variation = 0,
       tb_best_rate_diff = (0, 0), tb_probability_variation_direction = 0,
       tb_interference_likely = False, tb_unconverged = True, tb_newly_unconverged = True,
       tb_best_rate_cycle_count = 0,
       tb_lookaround_candidates = replicate MAX_LOOKAROUND_CANDIDATES mmrc_rate_zero,
       tb_num_lookaround_candidates = 0,
       tb_table = replicate (rows_from_sta_caps caps) mmrc_stats_zero\<rparr>;
     index \<leftarrow> find_baseline_index tb;
     baseline \<leftarrow> get_rate_row caps index;
     tb \<leftarrow> mmrc_init_rates (tb\<lparr>tb_baseline := baseline\<rparr>) rssi;
     ensure (cap_max_rates caps \<noteq> 0);
     ensure (cap_max_retries caps \<noteq> 0);
     Some tb
   }"

definition mmrc_set_fixed_rate :: "mmrc_table \<Rightarrow> mmrc_rate \<Rightarrow> (bool \<times> mmrc_table) option" where
  "mmrc_set_fixed_rate tb fixed_rate =
     (let caps = tb_caps tb;
          caps_support_rate = (bit (cap_rates caps) (mr_rate fixed_rate)
            \<and> bit (cap_bandwidth caps) (mr_bw fixed_rate)
            \<and> bit (cap_spatial_streams caps) (mr_ss fixed_rate)
            \<and> bit (cap_guard caps) (mr_guard fixed_rate))
      in if validate_rate caps fixed_rate \<and> caps_support_rate then do {
           fixed_rate \<leftarrow> rate_update_index caps fixed_rate;
           Some (True, tb\<lparr>tb_fixed_rate := fixed_rate\<rparr>)
         }
         else Some (False, tb))"

end
