(* ===== verification/Mmrc_Correct.thy ===== *)
theory Mmrc_Correct
  imports Mmrc
begin

section \<open>Correctness of rate control\<close>

text \<open>
  The invariant of a station's rate control table and the proof that every operation of
  \<open>Mmrc\<close> keeps it and never fails: no access outside the table of statistics, the throughput tables
  or the candidates, no division by zero and no failed assertion. Then what the operations do to the
  statistics and the shape of the retry chain they hand out.
\<close>

subsection \<open>The invariant\<close>

text \<open>A rate that fits the station's statistics table and the throughput tables.\<close>

definition rate_fits :: "mmrc_sta_capabilities \<Rightarrow> mmrc_rate \<Rightarrow> bool" where
  "rate_fits c r \<longleftrightarrow> mr_rate r < 10 \<and> mr_bw r < 4 \<and> mr_guard r < 2 \<and> mr_index r < rows_from_sta_caps c"

lemma row_rate_fits: "caps_ok c \<Longrightarrow> row_rate c r \<Longrightarrow> rate_fits c r"
  using row_rate_bounds [of c r] by (simp add: rate_fits_def)

lemma get_rate_row_fits:
  assumes "caps_ok c" "i < rows_from_sta_caps c"
  obtains r where "get_rate_row c i = Some r" "rate_fits c r"
  using get_rate_row_total [OF assms] row_rate_fits [OF assms(1)] by metis

lemma rate_update_index_fits:
  assumes "caps_ok c" "mr_rate r < 10" "mr_bw r < 4" "mr_guard r < 2"
  shows "\<exists>r'. rate_update_index c r = Some r' \<and> rate_fits c r'"
  using rate_update_index_ok [OF assms(1), of r] assms(2-4) by (simp add: rate_fits_def)

text \<open>
  The statistics of a row after \<open>n\<close> updates: the running average is only ever divided by a positive
  counter. A table is consistent when its chosen rates fit, its candidates are rates of the table and
  the counters match the number of updates.
\<close>

definition st_u16 :: "mmrc_stats_table \<Rightarrow> bool" where
  "st_u16 st \<longleftrightarrow> st_sent st < 65536 \<and> st_sent_success st < 65536 \<and> st_back_mpdu_success st < 65536
     \<and> st_back_mpdu_failure st < 65536"

definition row_ok :: "nat \<Rightarrow> mmrc_stats_table \<Rightarrow> bool" where
  "row_ok n st \<longleftrightarrow> st_u16 st \<and> st_avg_throughput_counter st \<le> n
     \<and> (0 < st_sum_throughput st \<longrightarrow> 0 < st_avg_throughput_counter st)"

definition rates_ok :: "mmrc_table \<Rightarrow> bool" where
  "rates_ok tb \<longleftrightarrow> caps_ok (tb_caps tb) \<and> rate_fits (tb_caps tb) (tb_best_tp tb)
     \<and> rate_fits (tb_caps tb) (tb_second_tp tb) \<and> rate_fits (tb_caps tb) (tb_best_prob tb)
     \<and> rate_fits (tb_caps tb) (tb_baseline tb)
     \<and> (mr_rate (tb_fixed_rate tb) = MMRC_MCS_UNUSED \<or> rate_fits (tb_caps tb) (tb_fixed_rate tb))
     \<and> length (tb_table tb) = rows_from_sta_caps (tb_caps tb)"

definition candidates_ok :: "mmrc_table \<Rightarrow> bool" where
  "candidates_ok tb \<longleftrightarrow> length (tb_lookaround_candidates tb) = MAX_LOOKAROUND_CANDIDATES
     \<and> tb_num_lookaround_candidates tb \<le> MAX_LOOKAROUND_CANDIDATES
     \<and> (\<forall>r \<in> set (take (tb_num_lookaround_candidates tb) (tb_lookaround_candidates tb)).
          rate_fits (tb_caps tb) r)"

definition mmrc_inv :: "nat \<Rightarrow> mmrc_table \<Rightarrow> bool" where
  "mmrc_inv n tb \<longleftrightarrow> rates_ok tb \<and> candidates_ok tb \<and> (\<forall>st \<in> set (tb_table tb). row_ok n st)
     \<and> tb_lookaround_wrap tb \<in> {LOOKAROUND_RATE_INIT, LOOKAROUND_RATE_NORMAL, LOOKAROUND_RATE_STABLE}
     \<and> tb_current_lookaround_rate_attempts tb \<in> {0, LOOKAROUND_RATE_ATTEMPTS}
     \<and> (0 < tb_num_lookaround_candidates tb
          \<longrightarrow> tb_current_lookaround_rate_attempts tb = LOOKAROUND_RATE_ATTEMPTS)
     \<and> 0 \<le> tb_best_rate_cycle_count tb \<and> tb_best_rate_cycle_count tb \<le> int n
     \<and> \<bar>tb_probability_variation_direction tb\<bar> \<le> 5"

lemma calculate_throughput_Some:
  assumes "rate_fits c r" "length (tb_table tb) = rows_from_sta_caps c"
  shows "\<exists>t < 4294967296. calculate_throughput tb r = Some t"
proof -
  obtain t where "mmrc_calculate_theoretical_throughput r = Some t" "t \<le> 43333000"
    using assms(1) throughput_Some [of r] by (auto simp: rate_fits_def)
  then show ?thesis
    using assms by (simp add: calculate_throughput_def rate_fits_def Let_def)
qed

lemma fallback_rate_fits:
  assumes "caps_ok (tb_caps tb)" "rate_fits (tb_caps tb) r" "cap < 10"
  shows "\<exists>r'. fallback_rate tb cap r = Some r' \<and> rate_fits (tb_caps tb) r'"
proof -
  let ?rate = "if tb_unconverged tb \<and> mr_rate r - 1 > cap then cap else mr_rate r - 1"
  have bw: "mr_bw r - 1 < 4" using assms(2) by (auto simp: rate_fits_def)
  have "?rate < 10" using assms(2,3) by (auto simp: rate_fits_def)
  then obtain r1 where r1: "rate_update_index (tb_caps tb) (r\<lparr>mr_rate := ?rate\<rparr>) = Some r1" "rate_fits (tb_caps tb) r1"
    using rate_update_index_fits [OF assms(1), of "r\<lparr>mr_rate := ?rate\<rparr>"] assms(2) by (auto simp: rate_fits_def)
  obtain r2 where r2: "rate_update_index (tb_caps tb) (r\<lparr>mr_bw := mr_bw r - 1\<rparr>) = Some r2" "rate_fits (tb_caps tb) r2"
    using bw rate_update_index_fits [OF assms(1), of "r\<lparr>mr_bw := mr_bw r - 1\<rparr>"] assms(2) by (auto simp: rate_fits_def)
  show ?thesis using assms(2) r1 r2 unfolding fallback_rate_def Let_def by auto
qed

lemma mmrc_fill_retry_rates_fits:
  assumes "caps_ok (tb_caps tb)" "rate_fits (tb_caps tb) (tb_best_tp tb)"
  shows "\<exists>s p b. mmrc_fill_retry_rates tb = Some (tb\<lparr>tb_second_tp := s, tb_best_prob := p, tb_baseline := b\<rparr>)
    \<and> rate_fits (tb_caps tb) s \<and> rate_fits (tb_caps tb) p \<and> rate_fits (tb_caps tb) b"
proof -
  obtain s where s: "fallback_rate tb 4 (tb_best_tp tb) = Some s" "rate_fits (tb_caps tb) s"
    using fallback_rate_fits [OF assms, of 4] by auto
  obtain p where p: "fallback_rate tb 2 s = Some p" "rate_fits (tb_caps tb) p"
    using fallback_rate_fits [OF assms(1) s(2), of 2] by auto
  have bw: "mr_bw p - 1 < 4" using p(2) by (auto simp: rate_fits_def)
  have "\<exists>b. rate_update_index (tb_caps tb) (p\<lparr>mr_rate := 0\<rparr>) = Some b \<and> rate_fits (tb_caps tb) b"
    "\<exists>b. rate_update_index (tb_caps tb) (p\<lparr>mr_bw := mr_bw p - 1\<rparr>) = Some b \<and> rate_fits (tb_caps tb) b"
    using p(2) bw by (intro rate_update_index_fits [OF assms(1)]; simp add: rate_fits_def)+
  then obtain b where b: "(if mr_rate p \<noteq> 0 then rate_update_index (tb_caps tb) (p\<lparr>mr_rate := 0\<rparr>)
        else if mr_bw p > MMRC_BW_1MHZ then rate_update_index (tb_caps tb) (p\<lparr>mr_bw := mr_bw p - 1\<rparr>)
        else Some p) = Some b" "rate_fits (tb_caps tb) b"
    using p(2) by (cases "mr_rate p \<noteq> 0"; cases "mr_bw p > 0") auto
  have "mmrc_fill_retry_rates tb = Some (tb\<lparr>tb_second_tp := s, tb_best_prob := p, tb_baseline := b\<rparr>)"
    using s p b(1) by (simp add: mmrc_fill_retry_rates_def)
  then show ?thesis using s p b(2) by blast
qed

text \<open>The loop that collects lookaround candidates.\<close>

lemma take_store_fits:
  "n < length xs \<Longrightarrow> \<forall>r \<in> set (take n xs). P r \<Longrightarrow> P v \<Longrightarrow> \<forall>r \<in> set (take (Suc n) (xs[n := v])). P r"
  by (simp add: take_update_snoc)

lemma lookaround_scan_ok:
  assumes "rates_ok tb" "candidates_ok tb" "tb_num_lookaround_candidates tb < MAX_LOOKAROUND_CANDIDATES"
    "\<forall>i \<in> set is. i < rows_from_sta_caps (tb_caps tb)"
  shows "\<exists>cs n. lookaround_scan best_tp is tb
      = Some (tb\<lparr>tb_lookaround_candidates := cs, tb_num_lookaround_candidates := n\<rparr>)
    \<and> candidates_ok (tb\<lparr>tb_lookaround_candidates := cs, tb_num_lookaround_candidates := n\<rparr>)"
  using assms
proof (induction "is" arbitrary: tb)
  case Nil
  then show ?case
    by (intro exI [of _ "tb_lookaround_candidates tb"] exI [of _ "tb_num_lookaround_candidates tb"]) simp
next
  case (Cons i "is")
  obtain r where r: "get_rate_row (tb_caps tb) i = Some r" "rate_fits (tb_caps tb) r"
    using Cons.prems(1,4) get_rate_row_fits [of "tb_caps tb" i] by (auto simp: rates_ok_def)
  obtain t where t: "calculate_throughput tb r = Some t"
    using calculate_throughput_Some [OF r(2)] Cons.prems(1) by (auto simp: rates_ok_def)
  let ?n = "tb_num_lookaround_candidates tb"
  let ?tb = "tb\<lparr>tb_lookaround_candidates := (tb_lookaround_candidates tb)[?n := r],
                tb_num_lookaround_candidates := Suc ?n\<rparr>"
  have n: "?n < length (tb_lookaround_candidates tb)" "u32 (?n + 1) = Suc ?n"
    using Cons.prems(2,3) by (auto simp: candidates_ok_def u32_id)
  have "rates_ok ?tb" using Cons.prems(1) by (simp add: rates_ok_def)
  moreover have "\<forall>r \<in> set (take (Suc ?n) ((tb_lookaround_candidates tb)[?n := r])). rate_fits (tb_caps tb) r"
    using take_store_fits [OF n(1), of "rate_fits (tb_caps tb)" r] r(2) Cons.prems(2) unfolding candidates_ok_def by blast
  then have "candidates_ok ?tb"
    using Cons.prems(2,3) by (simp add: candidates_ok_def)
  ultimately have ok: "rates_ok ?tb" "candidates_ok ?tb" by simp_all
  define skip where "skip \<longleftrightarrow> \<not> validate_rate (tb_caps tb) r \<or> mr_rate r > mr_rate (tb_best_tp tb) + 1
    \<or> mr_bw r > mr_bw (tb_best_tp tb) + 1
    \<or> mr_rate r > mr_rate (tb_best_tp tb) \<and> mr_bw r > mr_bw (tb_best_tp tb) \<or> \<not> t > best_tp"
  have "lookaround_scan best_tp (i # is) tb = (if skip then lookaround_scan best_tp is tb
      else if MAX_LOOKAROUND_CANDIDATES \<le> Suc ?n then Some ?tb else lookaround_scan best_tp is ?tb)"
    using n by (simp add: r t Let_def skip_def)
  then consider "lookaround_scan best_tp (i # is) tb = lookaround_scan best_tp is tb"
    | "lookaround_scan best_tp (i # is) tb = Some ?tb"
    | "lookaround_scan best_tp (i # is) tb = lookaround_scan best_tp is ?tb" "Suc ?n < MAX_LOOKAROUND_CANDIDATES"
    using not_le by metis
  then show ?case
  proof cases
    case 1
    then show ?thesis using Cons.IH [OF Cons.prems(1-3)] Cons.prems(4) by simp
  next
    case 2
    then show ?thesis using ok
      by (intro exI [of _ "tb_lookaround_candidates ?tb"] exI [of _ "tb_num_lookaround_candidates ?tb"]) simp
  next
    case 3
    then show ?thesis using Cons.IH [OF ok] Cons.prems(4) by simp
  qed
qed

lemma generate_lookaround_candidates_ok:
  assumes "rates_ok tb" "length (tb_lookaround_candidates tb) = MAX_LOOKAROUND_CANDIDATES"
  shows "\<exists>cs n. generate_lookaround_candidates tb best_tp
      = Some (tb\<lparr>tb_lookaround_candidates := cs, tb_num_lookaround_candidates := n\<rparr>)
    \<and> candidates_ok (tb\<lparr>tb_lookaround_candidates := cs, tb_num_lookaround_candidates := n\<rparr>)"
proof -
  have "rates_ok (tb\<lparr>tb_num_lookaround_candidates := 0\<rparr>)" "candidates_ok (tb\<lparr>tb_num_lookaround_candidates := 0\<rparr>)"
    using assms by (simp_all add: rates_ok_def candidates_ok_def)
  from lookaround_scan_ok [OF this, of "[0..<rows_from_sta_caps (tb_caps tb)]" best_tp]
  show ?thesis by (simp add: generate_lookaround_candidates_def)
qed

text \<open>The scan of the rows keeps the rows it remembers inside the table.\<close>

definition scan_ok :: "nat \<Rightarrow> priority_scan \<Rightarrow> bool" where
  "scan_ok rows s \<longleftrightarrow> ps_best_row s < rows \<and> ps_second_best_row s < rows \<and> ps_last_nonzero_prob s < rows"

lemma priority_step_ok:
  assumes "rates_ok tb" "prev_best_row < rows_from_sta_caps (tb_caps tb)" "i < rows_from_sta_caps (tb_caps tb)"
    "scan_ok (rows_from_sta_caps (tb_caps tb)) s"
  shows "\<exists>s'. priority_step tb prev_best_row i s = Some s' \<and> scan_ok (rows_from_sta_caps (tb_caps tb)) s'"
proof -
  obtain r where r: "get_rate_row (tb_caps tb) i = Some r" "rate_fits (tb_caps tb) r"
    using assms(1,3) get_rate_row_fits [of "tb_caps tb" i] by (auto simp: rates_ok_def)
  obtain t where t: "calculate_throughput tb r = Some t"
    using calculate_throughput_Some [OF r(2)] assms(1) by (auto simp: rates_ok_def)
  have len: "length (tb_table tb) = rows_from_sta_caps (tb_caps tb)" "mr_index r < rows_from_sta_caps (tb_caps tb)"
    using assms(1) r(2) by (auto simp: rates_ok_def rate_fits_def)
  show ?thesis
    using assms(2-4) len by (simp add: priority_step_def r t scan_ok_def Let_def)
qed

lemma best_row_changed_fields [simp]:
  "tb_caps (best_row_changed tb p) = tb_caps tb" "tb_best_tp (best_row_changed tb p) = tb_best_tp tb"
  "tb_second_tp (best_row_changed tb p) = tb_second_tp tb" "tb_best_prob (best_row_changed tb p) = tb_best_prob tb"
  "tb_baseline (best_row_changed tb p) = tb_baseline tb" "tb_fixed_rate (best_row_changed tb p) = tb_fixed_rate tb"
  "tb_table (best_row_changed tb p) = tb_table tb"
  "tb_lookaround_candidates (best_row_changed tb p) = tb_lookaround_candidates tb"
  "tb_num_lookaround_candidates (best_row_changed tb p) = tb_num_lookaround_candidates tb"
  "tb_lookaround_wrap (best_row_changed tb p) = tb_lookaround_wrap tb"
  "tb_current_lookaround_rate_attempts (best_row_changed tb p) = tb_current_lookaround_rate_attempts tb"
  "tb_probability_variation_direction (best_row_changed tb p) = 0"
  "tb_best_rate_cycle_count (best_row_changed tb p) = 0"
  by (simp_all add: best_row_changed_def Let_def split: prod.splits)

text \<open>
  What the periodic update relies on while the lookaround state of the last period is still in place:
  the invariant without the link between the candidates and the attempts at the current one.
\<close>

definition update_inv :: "nat \<Rightarrow> mmrc_table \<Rightarrow> bool" where
  "update_inv n tb \<longleftrightarrow> rates_ok tb \<and> candidates_ok tb
     \<and> tb_lookaround_wrap tb \<in> {LOOKAROUND_RATE_INIT, LOOKAROUND_RATE_NORMAL, LOOKAROUND_RATE_STABLE}
     \<and> tb_current_lookaround_rate_attempts tb \<in> {0, LOOKAROUND_RATE_ATTEMPTS}
     \<and> 0 \<le> tb_best_rate_cycle_count tb \<and> tb_best_rate_cycle_count tb \<le> int n
     \<and> \<bar>tb_probability_variation_direction tb\<bar> \<le> 5"

lemma update_inv_simps [simp]:
  "update_inv n (tb\<lparr>tb_newly_unconverged := x\<rparr>) = update_inv n tb"
  "update_inv n (tb\<lparr>tb_unconverged := x\<rparr>) = update_inv n tb"
  "update_inv n (tb\<lparr>tb_stability_cnt := k\<rparr>) = update_inv n tb"
  "update_inv n (tb\<lparr>tb_cycle_cnt := k\<rparr>) = update_inv n tb"
  by (simp_all add: update_inv_def rates_ok_def candidates_ok_def)

lemma best_row_kept_ok:
  assumes "update_inv n tb" "n < 2147483647"
  shows "\<exists>tb'. best_row_kept tb = Some tb' \<and> update_inv (Suc n) tb' \<and> tb_table tb' = tb_table tb
    \<and> tb_caps tb' = tb_caps tb"
proof -
  let ?tb = "tb\<lparr>tb_best_rate_cycle_count := tb_best_rate_cycle_count tb + 1\<rparr>"
  have "update_inv (Suc n) ?tb"
    using assms(1) by (simp add: update_inv_def rates_ok_def candidates_ok_def)
  moreover have "tb_best_rate_cycle_count tb < 2147483647"
    using assms by (simp add: update_inv_def)
  ultimately show ?thesis by (simp add: best_row_kept_def Let_def)
qed

lemma generate_table_priority_ok:
  assumes inv: "update_inv n tb" and n: "n < 2147483647"
  shows "\<exists>tb'. generate_table_priority tb new_stats = Some tb' \<and> update_inv (Suc n) tb'
    \<and> tb_table tb' = tb_table tb \<and> tb_caps tb' = tb_caps tb"
proof -
  let ?c = "tb_caps tb" and ?rows = "rows_from_sta_caps (tb_caps tb)"
  have rates: "rates_ok tb" and c: "caps_ok ?c" and len: "length (tb_table tb) = ?rows"
    and fits: "rate_fits ?c (tb_best_tp tb)" "rate_fits ?c (tb_second_tp tb)"
    using inv by (auto simp: update_inv_def rates_ok_def)
  obtain b where b: "calculate_throughput tb (tb_best_tp tb) = Some b"
    using calculate_throughput_Some [OF fits(1) len] by auto
  obtain b2 where b2: "calculate_throughput tb (tb_second_tp tb) = Some b2"
    using calculate_throughput_Some [OF fits(2) len] by auto
  show ?thesis
  proof (cases "mr_rate (tb_fixed_rate tb) = MMRC_MCS_UNUSED")
    case False
    then show ?thesis using inv
      by (auto simp: generate_table_priority_def b b2 Let_def update_inv_def rates_ok_def candidates_ok_def)
  next
    case True
    let ?s0 = "\<lparr>ps_best_tp = b, ps_best_row = mr_index (tb_best_tp tb), ps_second_best_tp = b2,
      ps_second_best_row = mr_index (tb_second_tp tb), ps_last_nonzero_prob = 0\<rparr>"
    have "\<exists>s. foldM (priority_step tb (mr_index (tb_best_tp tb))) [0..<?rows] ?s0 = Some s \<and> scan_ok ?rows s"
      using fits rows_ok(3) [OF c] priority_step_ok [OF rates]
      by (intro foldM_invariant) (auto simp: scan_ok_def rate_fits_def)
    then obtain s where s: "foldM (priority_step tb (mr_index (tb_best_tp tb))) [0..<?rows] ?s0 = Some s"
      "scan_ok ?rows s" by blast
    have cands: "length (tb_lookaround_candidates tb) = MAX_LOOKAROUND_CANDIDATES"
      using inv by (simp add: update_inv_def candidates_ok_def)
    show ?thesis
    proof (cases new_stats)
      case False
      from generate_lookaround_candidates_ok [OF rates cands, of "ps_best_tp s"]
      show ?thesis using inv True False s
        by (auto simp: generate_table_priority_def b b2 Let_def update_inv_def rates_ok_def)
    next
      case new: True
      obtain r0 where r0: "get_rate_row ?c (ps_best_row s) = Some r0" "rate_fits ?c r0"
        using s(2) get_rate_row_fits [OF c] by (auto simp: scan_ok_def)
      have "mr_rate r0 - 1 < 10" using r0(2) by (auto simp: rate_fits_def)
      then have "\<exists>r. rate_update_index ?c (r0\<lparr>mr_rate := mr_rate r0 - 1\<rparr>) = Some r \<and> rate_fits ?c r"
        using r0(2) by (intro rate_update_index_fits [OF c]) (simp_all add: rate_fits_def)
      then obtain r where r: "(if ps_best_tp s = 0 \<and> mr_rate r0 > 0
            then rate_update_index ?c (r0\<lparr>mr_rate := mr_rate r0 - 1\<rparr>) else Some r0) = Some r"
          "rate_fits ?c r"
        using r0(2) by (cases "ps_best_tp s = 0 \<and> mr_rate r0 > 0") auto
      have rates1: "rates_ok (tb\<lparr>tb_best_tp := r\<rparr>)"
        using rates r(2) by (simp add: rates_ok_def)
      from generate_lookaround_candidates_ok [OF rates1, of "ps_best_tp s"] cands
      obtain cs k where cs: "generate_lookaround_candidates (tb\<lparr>tb_best_tp := r\<rparr>) (ps_best_tp s)
          = Some (tb\<lparr>tb_best_tp := r, tb_lookaround_candidates := cs, tb_num_lookaround_candidates := k\<rparr>)"
          "candidates_ok (tb\<lparr>tb_best_tp := r, tb_lookaround_candidates := cs, tb_num_lookaround_candidates := k\<rparr>)"
        by auto
      obtain r2 where r2: "get_rate_row ?c (ps_second_best_row s) = Some r2" "rate_fits ?c r2"
        using s(2) get_rate_row_fits [OF c] by (auto simp: scan_ok_def)
      define tb1 where "tb1 = tb\<lparr>tb_best_tp := r, tb_lookaround_candidates := cs,
        tb_num_lookaround_candidates := k, tb_second_tp := r2\<rparr>"
      from mmrc_fill_retry_rates_fits [of tb1] c r(2)
      obtain x y z where fill: "mmrc_fill_retry_rates tb1
          = Some (tb1\<lparr>tb_second_tp := x, tb_best_prob := y, tb_baseline := z\<rparr>)"
          "rate_fits ?c x" "rate_fits ?c y" "rate_fits ?c z"
        by (auto simp: tb1_def)
      define kept where "kept \<longleftrightarrow> mr_index (tb_best_tp tb) = ps_best_row s"
      define tb2 where "tb2 = update_stability (tb1\<lparr>tb_second_tp := x, tb_best_prob := y, tb_baseline := z\<rparr>) kept"
      have inv2: "update_inv n tb2" "tb_table tb2 = tb_table tb" "tb_caps tb2 = ?c"
        using inv r(2) r2(2) fill(2-4) cs(2)
        by (simp_all add: tb2_def tb1_def update_stability_def update_inv_def rates_ok_def candidates_ok_def)
      have "generate_table_priority tb new_stats
        = (if \<not> kept then Some ((best_row_changed tb2 (mr_rate (tb_best_tp tb)))\<lparr>tb_newly_unconverged := False\<rparr>)
           else map_option (\<lambda>tb. tb\<lparr>tb_newly_unconverged := False\<rparr>) (best_row_kept tb2))"
        using True new s(1) r0(1) r(1) cs(1) r2(1) fill(1)
        by (simp add: generate_table_priority_def b b2 Let_def tb1_def tb2_def kept_def map_option_case
            split: option.split)
      moreover have "update_inv (Suc n) (best_row_changed tb2 p)" for p
        using inv2(1) by (simp add: update_inv_def rates_ok_def candidates_ok_def)
      moreover note best_row_kept_ok [OF inv2(1) n]
      ultimately show ?thesis using inv2(2,3) by (cases kept) auto
    qed
  qed
qed

text \<open>The update of a row.\<close>

lemma calc_ewma_Some: "w \<le> 100 \<Longrightarrow> \<exists>a. calc_ewma_average avg latest w = Some a"
  by (simp add: calc_ewma_average_def)

lemma calc_ewma_bound:
  assumes "calc_ewma_average avg latest w = Some a" "avg \<le> m" "latest \<le> m"
  shows "a \<le> m"
proof -
  have w: "w \<le> 100" using assms(1) by (simp add: calc_ewma_average_def split: if_splits)
  have "latest * (100 - w) + avg * w \<le> m * (100 - w) + m * w"
    using assms(2,3) by (intro add_mono mult_right_mono) auto
  also have "... = m * 100" using w by (simp flip: distrib_left)
  finally have "u32 (latest * (100 - w) + avg * w) div 100 \<le> m"
    using u32_le [of "latest * (100 - w) + avg * w"] by linarith
  then show ?thesis using assms w by (auto simp: calc_ewma_average_def split: if_splits)
qed

lemma row_ewma_le: "row_ewma st \<le> 75"
  by (auto simp: row_ewma_def Let_def intro!: div_le_mono [of _ 300 4, simplified])

lemma variation_direction_bound: "\<bar>d\<bar> \<le> 5 \<Longrightarrow> \<bar>variation_direction x d\<bar> \<le> 5"
  by (auto simp: variation_direction_def)

lemma update_inv_interference [simp]: "update_inv n (tb\<lparr>tb_interference_likely := x\<rparr>) = update_inv n tb"
  by (simp add: update_inv_def rates_ok_def candidates_ok_def)

lemma mmrc_process_variation_ok:
  assumes "update_inv n tb" "i < length (tb_table tb)"
  shows "\<exists>tb'. mmrc_process_variation tb success i = Some tb' \<and> update_inv n tb'
    \<and> tb_table tb' = tb_table tb \<and> tb_caps tb' = tb_caps tb"
proof -
  obtain v where v: "calc_ewma_average (tb_probability_variation tb)
      (nat \<bar>int success - int (st_prob (tb_table tb ! i))\<bar>) 95 = Some v"
    using calc_ewma_Some [of 95] by auto
  have note_ok: "update_inv n (note_variation d v tb)" "tb_table (note_variation d v tb) = tb_table tb"
      "tb_caps (note_variation d v tb) = tb_caps tb" for d
    using assms(1) variation_direction_bound [of "tb_probability_variation_direction tb" d]
    by (auto simp: note_variation_def Let_def update_inv_def rates_ok_def candidates_ok_def)
  have "update_inv n (update_interference tb) = update_inv n tb"
      "tb_table (update_interference tb) = tb_table tb" "tb_caps (update_interference tb) = tb_caps tb" for tb
    by (simp_all add: update_interference_def)
  with note_ok v assms show ?thesis
    by (auto simp: mmrc_process_variation_def Let_def)
qed

lemma modify_row_Some: "i < length (tb_table tb) \<Longrightarrow>
    modify_row i f tb = Some (tb\<lparr>tb_table := (tb_table tb)[i := f (tb_table tb ! i)]\<rparr>)"
  by (simp add: modify_row_def)

lemma update_inv_table [simp]:
  "length xs = length (tb_table tb) \<Longrightarrow> update_inv n (tb\<lparr>tb_table := xs\<rparr>) = update_inv n tb"
  by (simp add: update_inv_def rates_ok_def candidates_ok_def)

text \<open>What an update does to the running average and to the attempts of a row.\<close>

lemma count_throughput_ok:
  assumes "row_ok n st" "n < 4294967294" "t < 4294967296"
  shows "\<exists>st'. count_throughput t st = Some st' \<and> row_ok (Suc n) st'
    \<and> st_prob st' = st_prob st \<and> st_evidence st' = st_evidence st \<and> st_sent st' = st_sent st
    \<and> st_sent_success st' = st_sent_success st \<and> st_back_mpdu_success st' = st_back_mpdu_success st
    \<and> st_back_mpdu_failure st' = st_back_mpdu_failure st"
  using assms by (cases "st_sum_throughput st > 4294967295 - t")
    (auto simp: count_throughput_def row_ok_def st_u16_def u32_id Let_def)

text \<open>
  The statistics of a row: no more successes than attempts, for packets and for acknowledged aggregates,
  and a probability and an evidence of at most 100.
\<close>

definition stats_ok :: "mmrc_stats_table \<Rightarrow> bool" where
  "stats_ok st \<longleftrightarrow> st_sent_success st \<le> st_sent st
     \<and> st_back_mpdu_success st + st_back_mpdu_failure st \<le> st_sent st
     \<and> st_prob st \<le> 100 \<and> st_evidence st \<le> 100"

lemma stats_for_row_le:
  "stats_ok st \<Longrightarrow> stats_for_row u st = (attempts, success) \<Longrightarrow> success \<le> attempts"
  by (auto simp: stats_for_row_def stats_ok_def Let_def split: if_splits)

lemma success_percentage:
  assumes "success \<le> attempts" "0 < (attempts :: nat)"
  shows "100 * success div attempts \<le> 100"
proof -
  have "100 * success div attempts \<le> 100 * attempts div attempts"
    using assms(1) by (intro div_le_mono) simp
  with assms(2) show ?thesis by simp
qed

definition row_step :: "nat \<Rightarrow> mmrc_stats_table \<Rightarrow> mmrc_stats_table \<Rightarrow> bool" where
  "row_step n st st' \<longleftrightarrow> (row_ok n st \<longrightarrow> row_ok (Suc n) st') \<and> (stats_ok st \<longrightarrow> stats_ok st')"

lemma mmrc_update_row_ok:
  assumes inv: "update_inv n tb" and i: "i < length (tb_table tb)" and min_stats: "0 < min_stats"
    and row: "row_ok k (tb_table tb ! i)" "k < 4294967294"
  shows "\<exists>tb' new'. mmrc_update_row min_stats i (tb, new) = Some (tb', new') \<and> update_inv n tb'
    \<and> tb_caps tb' = tb_caps tb
    \<and> (\<exists>st'. tb_table tb' = (tb_table tb)[i := st'] \<and> row_step k (tb_table tb ! i) st')"
proof -
  let ?st = "tb_table tb ! i"
  obtain attempts success where stats: "stats_for_row (tb_unconverged tb) ?st = (attempts, success)"
    by (cases "stats_for_row (tb_unconverged tb) ?st")
  define this where "this \<longleftrightarrow> enough_stats ?st min_stats attempts"
  obtain average where average: "calc_ewma_average (st_evidence ?st)
      ((if this then st_sent ?st else 0) * 5) (row_ewma ?st) = Some average"
    using calc_ewma_Some [of "row_ewma ?st"] row_ewma_le [of ?st] by auto
  define st1 where "st1 = ?st\<lparr>st_evidence := (if u16 average > 100 then 100 else u16 average)\<rparr>"
  define tb1 where "tb1 = tb\<lparr>tb_table := (tb_table tb)[i := st1]\<rparr>"
  have inv1: "update_inv n tb1" "i < length (tb_table tb1)" "tb_table tb1 ! i = st1" "tb_caps tb1 = tb_caps tb"
    using inv i by (simp_all add: tb1_def)
  have pos: "0 < attempts" if this
    using that min_stats by (auto simp: this_def enough_stats_def)
  let ?success = "u16 (100 * success div attempts)"
  obtain tb2 where tb2: "(if row_ewma ?st \<noteq> 0 then mmrc_process_variation tb1 ?success i else Some tb1) = Some tb2"
      "update_inv n tb2" "tb_table tb2 = tb_table tb1" "tb_caps tb2 = tb_caps tb1"
    using mmrc_process_variation_ok [OF inv1(1,2), of ?success] inv1(1) by (cases "row_ewma ?st \<noteq> 0") auto
  obtain prob where prob: "calc_ewma_average (st_prob st1) ?success (row_ewma ?st) = Some prob"
    using calc_ewma_Some [of "row_ewma ?st"] row_ewma_le [of ?st] by auto
  define st3 where "st3 = (if this then clear_sent (st1\<lparr>st_prob := u8 prob\<rparr>) else st1)"
  define tb3 where "tb3 = (if this then tb2\<lparr>tb_table := (tb_table tb2)[i := st3]\<rparr> else tb1)"
  have tb3: "update_inv n tb3" "tb_table tb3 = (tb_table tb)[i := st3]" "tb_caps tb3 = tb_caps tb"
    using inv1 tb2 i by (auto simp: tb3_def tb1_def st3_def)
  have caps: "caps_ok (tb_caps tb)" "length (tb_table tb) = rows_from_sta_caps (tb_caps tb)"
    using inv by (auto simp: update_inv_def rates_ok_def)
  obtain r where r: "get_rate_row (tb_caps tb) i = Some r" "rate_fits (tb_caps tb) r"
    using get_rate_row_fits [OF caps(1)] i caps(2) by metis
  obtain t where t: "calculate_throughput tb3 r = Some t" "t < 4294967296"
    using calculate_throughput_Some [OF r(2), of tb3] tb3(2) caps(2) by auto
  have row3: "row_ok k st3" using row(1) by (simp add: st3_def st1_def clear_sent_def row_ok_def st_u16_def)
  from count_throughput_ok [OF this row(2) t(2)]
  obtain st4 where st4: "count_throughput t st3 = Some st4" "row_ok (Suc k) st4"
    "st_prob st4 = st_prob st3" "st_evidence st4 = st_evidence st3" "st_sent st4 = st_sent st3"
    "st_sent_success st4 = st_sent_success st3" "st_back_mpdu_success st4 = st_back_mpdu_success st3"
    "st_back_mpdu_failure st4 = st_back_mpdu_failure st3" by blast
  have "stats_ok st3" if ok: "stats_ok ?st"
  proof -
    have "u8 prob \<le> 100" if this
    proof -
      have "?success \<le> 100"
        using success_percentage [OF stats_for_row_le [OF ok stats] pos] that u16_le
        by (meson le_trans)
      moreover have "st_prob st1 \<le> 100" using ok by (simp add: st1_def stats_ok_def)
      ultimately have "prob \<le> 100" using calc_ewma_bound [OF prob] by simp
      then show ?thesis by (simp add: u8_id)
    qed
    then show ?thesis using ok by (simp add: st3_def st1_def clear_sent_def stats_ok_def)
  qed
  then have "row_step k ?st st4"
    using st4 by (simp add: row_step_def stats_ok_def)
  moreover have "mmrc_update_row min_stats i (tb, new)
      = Some (tb3\<lparr>tb_table := (tb_table tb3)[i := st4]\<rparr>, new \<or> this)"
  proof -
    have tail: "do { st \<leftarrow> fetch (tb_table tb3) i; st \<leftarrow> count_throughput t st;
        tb \<leftarrow> modify_row i (\<lambda>_. st) tb3; Some (tb, new \<or> this) }
      = Some (tb3\<lparr>tb_table := (tb_table tb3)[i := st4]\<rparr>, new \<or> this)"
      using i st4(1) tb3(2) by (simp add: modify_row_Some)
    have "(if this then do {
              success \<leftarrow> cdiv (100 * success) attempts;
              let this_success = u16 success;
              tb \<leftarrow> (if row_ewma ?st \<noteq> 0 then mmrc_process_variation tb1 this_success i else Some tb1);
              st \<leftarrow> fetch (tb_table tb) i;
              prob \<leftarrow> calc_ewma_average (st_prob st) this_success (row_ewma ?st);
              modify_row i (\<lambda>st. clear_sent (st\<lparr>st_prob := u8 prob\<rparr>)) tb
            }
            else Some tb1) = Some tb3"
    proof (cases this)
      case True
      have cd: "cdiv (100 * success) attempts = Some (100 * success div attempts)"
        using pos True by simp
      have prob2: "calc_ewma_average (st_prob (tb_table tb2 ! i)) ?success (row_ewma ?st) = Some prob"
        using prob inv1(3) tb2(3) by simp
      have "i < length (tb_table tb2)" using tb2(3) inv1(2) by simp
      then show ?thesis
        using True inv1(3) tb2(3)
        by (simp only: if_True cd bind.bind_lunit Let_def tb2(1) fetch_Some prob2 modify_row_Some)
          (simp add: tb3_def st3_def prob)
    next
      case False
      then show ?thesis by (simp add: tb3_def)
    qed
    then show ?thesis
      unfolding mmrc_update_row_def case_prod_conv fetch_Some [OF i] bind.bind_lunit Let_def stats
        this_def [symmetric] average
      using i tb3(3) r(1) t(1) tail
      by (simp add: modify_row_Some st1_def [symmetric] tb1_def [symmetric] tb3_def del: fetch_Some)
  qed
  moreover have "update_inv n (tb3\<lparr>tb_table := (tb_table tb3)[i := st4]\<rparr>)" using tb3(1) by simp
  ultimately show ?thesis using tb3 by auto
qed


text \<open>The periodic update never fails and keeps the invariant.\<close>

lemma mmrc_inv_update: "mmrc_inv n tb \<Longrightarrow> update_inv n tb"
  by (simp add: mmrc_inv_def update_inv_def)

lemma update_lookaround_inv:
  assumes "update_inv n tb" "\<forall>st \<in> set (tb_table tb). row_ok n st"
  shows "mmrc_inv n (update_lookaround tb)"
proof -
  have "tb_current_lookaround_rate_attempts (update_lookaround tb) = LOOKAROUND_RATE_ATTEMPTS"
    "tb_lookaround_wrap (update_lookaround tb) \<in> {LOOKAROUND_RATE_INIT, LOOKAROUND_RATE_NORMAL, LOOKAROUND_RATE_STABLE}"
    using assms(1) by (auto simp: update_lookaround_def Let_def update_inv_def)
  moreover have "rates_ok (update_lookaround tb) = rates_ok tb" "candidates_ok (update_lookaround tb) = candidates_ok tb"
    "tb_table (update_lookaround tb) = tb_table tb"
    "tb_best_rate_cycle_count (update_lookaround tb) = tb_best_rate_cycle_count tb"
    "tb_probability_variation_direction (update_lookaround tb) = tb_probability_variation_direction tb"
    by (simp_all add: update_lookaround_def Let_def rates_ok_def candidates_ok_def)
  ultimately show ?thesis using assms by (simp add: mmrc_inv_def update_inv_def)
qed

lemma mmrc_update_ok:
  assumes inv: "mmrc_inv n tb" and n: "n < 2147483647"
  shows "\<exists>tb'. mmrc_update tb = Some tb' \<and> mmrc_inv (Suc n) tb' \<and> tb_caps tb' = tb_caps tb
    \<and> length (tb_table tb') = length (tb_table tb)
    \<and> (\<forall>j < length (tb_table tb). row_step n (tb_table tb ! j) (tb_table tb' ! j))"
proof -
  let ?tb = "tb\<lparr>tb_cycle_cnt := u32 (tb_cycle_cnt tb + 1)\<rparr>"
  let ?min = "if tb_lookaround_wrap ?tb \<noteq> LOOKAROUND_RATE_INIT then 2 else (1 :: nat)"
  let ?rows = "rows_from_sta_caps (tb_caps tb)"
  define P where "P i = (\<lambda>(t, new :: bool). update_inv n t \<and> tb_caps t = tb_caps tb \<and> length (tb_table t) = ?rows
    \<and> (\<forall>j < i. row_step n (tb_table tb ! j) (tb_table t ! j))
    \<and> (\<forall>j. i \<le> j \<longrightarrow> j < ?rows \<longrightarrow> tb_table t ! j = tb_table tb ! j))" for i
  have len: "length (tb_table tb) = ?rows" and rows: "\<And>j. j < ?rows \<Longrightarrow> row_ok n (tb_table tb ! j)"
    using inv by (auto simp: mmrc_inv_def rates_ok_def)
  have "P 0 (?tb, False)"
    using mmrc_inv_update [OF inv] len by (simp add: P_def)
  moreover have "\<exists>s'. mmrc_update_row ?min i s = Some s' \<and> P (Suc i) s'" if i: "i < ?rows" and P: "P i s" for i s
  proof -
    obtain t new where s: "s = (t, new)" by (cases s)
    have t: "update_inv n t" "tb_caps t = tb_caps tb" "length (tb_table t) = ?rows" "tb_table t ! i = tb_table tb ! i"
      using P i by (auto simp: P_def s)
    have "0 < ?min" "n < 4294967294" using n by simp_all
    from mmrc_update_row_ok [OF t(1) _ this(1) _ this(2), of i new]
    obtain t' new' st' where t': "mmrc_update_row ?min i (t, new) = Some (t', new')" "update_inv n t'"
        "tb_caps t' = tb_caps t" "tb_table t' = (tb_table t)[i := st']" "row_step n (tb_table t ! i) st'"
      using t i rows [OF i] by auto
    have "P (Suc i) (t', new')"
      using P t' t i by (auto simp: P_def s nth_list_update less_Suc_eq)
    then show ?thesis using t'(1) s by blast
  qed
  ultimately obtain t new where t: "foldM (mmrc_update_row ?min) [0..<?rows] (?tb, False) = Some (t, new)" "P ?rows (t, new)"
    using foldM_upt_invariant [of P "(?tb, False)" ?rows "mmrc_update_row ?min"] by auto
  have "update_inv n t" using t(2) by (simp add: P_def)
  from generate_table_priority_ok [OF this n, of new]
  obtain t2 where t2: "generate_table_priority t new = Some t2" "update_inv (Suc n) t2" "tb_table t2 = tb_table t"
      "tb_caps t2 = tb_caps t" by blast
  have steps: "\<forall>j < ?rows. row_step n (tb_table tb ! j) (tb_table t2 ! j)" "length (tb_table t2) = ?rows"
    using t(2) t2(3) by (simp_all add: P_def)
  then have "\<forall>st \<in> set (tb_table t2). row_ok (Suc n) st"
    using rows by (auto simp: row_step_def in_set_conv_nth)
  then have "mmrc_inv (Suc n) (update_lookaround t2)" using update_lookaround_inv t2(2) by blast
  moreover have "mmrc_update tb = Some (update_lookaround t2)"
    using t(1) t2(1) by (simp add: mmrc_update_def Let_def)
  moreover have "tb_table (update_lookaround t2) = tb_table t2" "tb_caps (update_lookaround t2) = tb_caps t2"
    by (simp_all add: update_lookaround_def Let_def)
  ultimately show ?thesis using steps len t2(4) t(2) by (simp add: P_def)
qed

subsection \<open>The retry chain\<close>

text \<open>The passes over the chain change attempts only, and not those of an unused entry.\<close>

definition keep_rate :: "mmrc_rate \<Rightarrow> mmrc_rate \<Rightarrow> bool" where
  "keep_rate r r' \<longleftrightarrow> (\<exists>a. r' = r\<lparr>mr_attempts := a\<rparr>) \<and> (mr_rate r = MMRC_MCS_UNUSED \<longrightarrow> r' = r)"

lemma keep_rate_refl [simp]: "keep_rate r r"
  by (auto simp: keep_rate_def intro: exI [of _ "mr_attempts r"])

lemma keep_rate_trans: "keep_rate a b \<Longrightarrow> keep_rate b c \<Longrightarrow> keep_rate a c"
  by (auto simp: keep_rate_def)

lemma keep_rate_attempts: "mr_rate r \<noteq> MMRC_MCS_UNUSED \<Longrightarrow> keep_rate r (r\<lparr>mr_attempts := a\<rparr>)"
  by (auto simp: keep_rate_def)

lemma keep_rates_trans: "list_all2 keep_rate as bs \<Longrightarrow> list_all2 keep_rate bs cs \<Longrightarrow> list_all2 keep_rate as cs"
  by (rule list_all2_trans [of keep_rate keep_rate keep_rate]) (blast intro: keep_rate_trans)

lemma keep_rates_refl [simp]: "list_all2 keep_rate rs rs"
  by (rule list_all2_refl) simp

lemma keep_rate_fits:
  "keep_rate r r' \<Longrightarrow> rate_fits c r' = rate_fits c r \<and> mr_rate r' = mr_rate r \<and> mr_bw r' = mr_bw r
     \<and> mr_guard r' = mr_guard r \<and> mr_index r' = mr_index r \<and> mr_flags r' = mr_flags r"
  by (auto simp: keep_rate_def rate_fits_def)

lemma allocate_initial_attempts_ok:
  assumes "\<forall>r \<in> set rs. rate_fits c r \<or> mr_rate r = MMRC_MCS_UNUSED" "0 < sz"
  shows "\<exists>rs' t. allocate_initial_attempts rs rem sz = Some (rs', t) \<and> list_all2 keep_rate rs rs'"
  using assms
proof (induction rs arbitrary: rem)
  case Nil
  then show ?case by simp
next
  case (Cons r rs)
  show ?case
  proof (cases "mr_rate r = MMRC_MCS_UNUSED")
    case True
    then show ?thesis by simp
  next
    case False
    then obtain t where t: "calculate_attempt_time r sz = Some t"
      using Cons.prems calculate_attempt_time_Some [of r sz] by (auto simp: rate_fits_def)
    obtain a rem1 where a: "(if t > 4000 then (r\<lparr>mr_attempts := 1\<rparr>, wrap_s32 (rem - int t))
        else (r\<lparr>mr_attempts := 2\<rparr>, wrap_s32 (rem - int (u32 (t * 2))))) = (r\<lparr>mr_attempts := a\<rparr>, rem1)"
      by (cases "4000 < t") auto
    obtain rs' t' where "allocate_initial_attempts rs rem1 sz = Some (rs', t')" "list_all2 keep_rate rs rs'"
      using Cons.IH [of rem1] Cons.prems by auto
    then show ?thesis using False keep_rate_attempts [OF False] by (auto simp: t a)
  qed
qed

lemma remaining_attempts_loop_ok:
  assumes "rates_ok tb" "\<forall>r \<in> set rs. rate_fits (tb_caps tb) r \<or> mr_rate r = MMRC_MCS_UNUSED" "0 < sz"
  shows "\<exists>rs'. remaining_attempts_loop tb first rs rem sz = Some rs' \<and> list_all2 keep_rate rs rs'"
  using assms(2)
proof (induction rs arbitrary: first)
  case Nil
  then show ?case by simp
next
  case (Cons r rs)
  show ?case
  proof (cases "mr_rate r = MMRC_MCS_UNUSED")
    case True
    then show ?thesis by simp
  next
    case False
    then have fits: "rate_fits (tb_caps tb) r" using Cons.prems by simp
    have len: "length (tb_table tb) = rows_from_sta_caps (tb_caps tb)" "rate_fits (tb_caps tb) (tb_best_prob tb)"
      and max: "cap_max_rates (tb_caps tb) \<noteq> 0"
      using assms(1) by (auto simp: rates_ok_def caps_ok_def)
    obtain t where t: "calculate_attempt_time r sz = Some t"
      using fits assms(3) calculate_attempt_time_Some [of r sz] by (auto simp: rate_fits_def)
    obtain x y where tp: "calculate_throughput tb r = Some x" "calculate_throughput tb (tb_best_prob tb) = Some y"
      using calculate_throughput_Some [OF fits len(1)] calculate_throughput_Some [OF len(2,1)] by auto
    obtain rs' where rs': "remaining_attempts_loop tb False rs rem sz = Some rs'" "list_all2 keep_rate rs rs'"
      using Cons.IH [of False] Cons.prems by auto
    have fetch: "fetch (tb_table tb) (mr_index r) = Some (tb_table tb ! mr_index r)"
      using fits len(1) by (simp add: rate_fits_def)
    obtain skip where skip: "(if st_prob (tb_table tb ! mr_index r) < 20 then Some True
        else if first then do {
          tp \<leftarrow> calculate_throughput tb r;
          prob_tp \<leftarrow> calculate_throughput tb (tb_best_prob tb);
          Some (tp < prob_tp)
        } else Some False) = Some skip"
      using tp by (cases "st_prob (tb_table tb ! mr_index r) < 20"; cases first) auto
    obtain r' where "(if skip then Some r
        else do {
          attempt_time \<leftarrow> calculate_attempt_time r sz;
          if attempt_time = 0 then Some r
          else do {
            share \<leftarrow> cdiv rem (cap_max_rates (tb_caps tb));
            let attempt = u32 (share div attempt_time + mr_attempts r);
            Some (r\<lparr>mr_attempts := (if attempt > 2 then 2 else attempt) mod 8\<rparr>)
          }
        }) = Some r'" "keep_rate r r'"
      using t max keep_rate_attempts [OF False] by (cases skip; cases "t = 0") (auto simp: Let_def)
    then show ?thesis using False rs' skip fetch by simp
  qed
qed

lemma limit_attempts_keep: "keep_rate r (limit_attempts r)"
  by (auto simp: keep_rate_def limit_attempts_def Let_def intro: exI [of _ "mr_attempts r"])

lemma best_rate_attempts_keep: "mr_rate r = MMRC_MCS_UNUSED \<Longrightarrow> mr_attempts r = 0 \<Longrightarrow> best_rate_attempts r = r"
  by (simp add: best_rate_attempts_def)

text \<open>
  A chain has as many rates as the capabilities ask for, each of them in the tables and with one or two
  attempts; the entries that follow are marked unused and have none. All but the first request RTS.
\<close>

definition chain_entry :: "mmrc_sta_capabilities \<Rightarrow> nat \<Rightarrow> mmrc_rate \<Rightarrow> bool" where
  "chain_entry c i r \<longleftrightarrow>
     (if i < cap_max_rates c then rate_fits c r \<and> mr_attempts r \<in> {1, 2}
      else mr_rate r = MMRC_MCS_UNUSED \<and> mr_attempts r = 0)
     \<and> (0 < i \<longrightarrow> bit (mr_flags r) 0)"

definition chain_ok :: "mmrc_sta_capabilities \<Rightarrow> mmrc_rate list \<Rightarrow> bool" where
  "chain_ok c rates \<longleftrightarrow> length rates = MMRC_MAX_CHAIN_LENGTH
     \<and> list_all2 (chain_entry c) [0..<MMRC_MAX_CHAIN_LENGTH] rates"

text \<open>The same before the attempts are set.\<close>

definition raw_entry :: "mmrc_sta_capabilities \<Rightarrow> nat \<Rightarrow> mmrc_rate \<Rightarrow> bool" where
  "raw_entry c i r \<longleftrightarrow>
     (if i < cap_max_rates c then rate_fits c r else mr_rate r = MMRC_MCS_UNUSED \<and> mr_attempts r = 0)
     \<and> (0 < i \<longrightarrow> bit (mr_flags r) 0)"

lemma raw_entry_keep:
  assumes "raw_entry c i r" "keep_rate r r'"
  shows "raw_entry c i r'"
proof (cases "mr_rate r = MMRC_MCS_UNUSED")
  case True
  then have "r' = r" using assms(2) unfolding keep_rate_def by blast
  then show ?thesis using assms(1) by simp
next
  case False
  then show ?thesis using assms(1) keep_rate_fits [OF assms(2), of c]
    by (auto simp: raw_entry_def split: if_splits)
qed

lemma chain_entry_limit: "raw_entry c i r \<Longrightarrow> chain_entry c i (limit_attempts r)"
  by (auto simp: raw_entry_def chain_entry_def limit_attempts_def rate_fits_def Let_def split: if_splits)

lemma chain_entry_best: "chain_entry c i r \<Longrightarrow> chain_entry c i (best_rate_attempts r)"
  by (auto simp: chain_entry_def best_rate_attempts_def rate_fits_def)

lemma chain_entry_one: "chain_entry c i r \<Longrightarrow> mr_rate r \<noteq> MMRC_MCS_UNUSED \<Longrightarrow> chain_entry c i (r\<lparr>mr_attempts := 1\<rparr>)"
  by (auto simp: chain_entry_def rate_fits_def split: if_splits)

lemma raw_entries_keep:
  assumes "list_all2 (raw_entry c) is rs" "list_all2 keep_rate rs rs'"
  shows "list_all2 (raw_entry c) is rs'"
  using list_all2_trans [of "raw_entry c" keep_rate "raw_entry c"] raw_entry_keep assms by blast

lemma raw_entry_cases: "raw_entry c i r \<Longrightarrow> rate_fits c r \<or> mr_rate r = MMRC_MCS_UNUSED"
  by (auto simp: raw_entry_def split: if_splits)

lemma finish_chain_ok:
  assumes "list_all2 (raw_entry c) [0..<4] rates" "best_index < 4"
  shows "\<exists>rates'. finish_chain tb picked best_index rates = Some rates' \<and> chain_ok c rates'"
proof -
  let ?es = "map limit_attempts rates"
  have len: "length rates = 4" using list_all2_lengthD [OF assms(1)] by simp
  have entries: "chain_entry c i (?es ! i)" if "i < 4" for i
    using assms(1) that len chain_entry_limit by (auto simp: list_all2_conv_all_nth)
  define es where "es = (if picked \<and> mr_rate (?es ! 0) \<noteq> MMRC_MCS_UNUSED
      \<and> tb_lookaround_wrap tb \<noteq> LOOKAROUND_RATE_INIT
    then ?es[0 := (?es ! 0)\<lparr>mr_attempts := 1\<rparr>] else ?es)"
  have "length es = 4" "chain_entry c i (es ! i)" if "i < 4" for i
    using entries [OF that] chain_entry_one [of c 0 "?es ! 0"] entries [of 0] len
    by (auto simp: es_def nth_list_update)
  then have es: "length es = 4" "\<And>i. i < 4 \<Longrightarrow> chain_entry c i (es ! i)" by (blast intro: zero_less_numeral)+
  have "finish_chain tb picked best_index rates = Some (es[best_index := best_rate_attempts (es ! best_index)])"
    using len es(1) assms(2) by (simp add: finish_chain_def es_def Let_def)
  moreover have "chain_ok c (es[best_index := best_rate_attempts (es ! best_index)])"
    using es assms(2) chain_entry_best by (auto simp: chain_ok_def list_all2_conv_all_nth nth_list_update)
  ultimately show ?thesis by blast
qed

lemma chain_rates_raw:
  assumes "rates_ok tb" "rate_fits (tb_caps tb) l0" "rate_fits (tb_caps tb) l1"
  shows "list_all2 (raw_entry (tb_caps tb)) [0..<4]
    (let rates = chain_rates tb b l0 l1 in hd rates # map request_rts (tl rates))"
proof -
  have four: "[0..<4] = [0, 1, 2, 3 :: nat]" by (simp add: upt_rec)
  have rts: "bit (or n 1) 0" for n :: nat by (simp add: bit_simps)
  have max: "0 < cap_max_rates (tb_caps tb)" using assms(1) by (auto simp: rates_ok_def caps_ok_def)
  consider "cap_max_rates (tb_caps tb) = 1" | "cap_max_rates (tb_caps tb) = 2" | "cap_max_rates (tb_caps tb) = 3"
    | "cap_max_rates (tb_caps tb) > 3" using max by linarith
  then show ?thesis
    using assms rts unfolding four
    by cases (auto simp: chain_rates_def rates_ok_def raw_entry_def request_rts_def rate_fits_def unused_rate_def
        mmrc_rate_zero_def Let_def bit_0)
qed

lemma mmrc_inv_simps [simp]:
  "mmrc_inv n (tb\<lparr>tb_lookaround_cnt := k\<rparr>) = mmrc_inv n tb"
  "mmrc_inv n (tb\<lparr>tb_total_lookaround := k\<rparr>) = mmrc_inv n tb"
  "mmrc_inv n (tb\<lparr>tb_forced_lookaround := k\<rparr>) = mmrc_inv n tb"
  "mmrc_inv n (tb\<lparr>tb_last_lookaround_cycle := k\<rparr>) = mmrc_inv n tb"
  "mmrc_inv n (tb\<lparr>tb_current_lookaround_rate_index := k\<rparr>) = mmrc_inv n tb"
  "mmrc_inv n (tb\<lparr>tb_stability_cnt := k\<rparr>) = mmrc_inv n tb"
  "mmrc_inv n (tb\<lparr>tb_stability_cnt_threshold := k\<rparr>) = mmrc_inv n tb"
  by (simp_all add: mmrc_inv_def rates_ok_def candidates_ok_def)

lemma mmrc_inv_wrap: "mmrc_inv n tb \<Longrightarrow> w = LOOKAROUND_RATE_NORMAL \<or> w = LOOKAROUND_RATE_STABLE
    \<Longrightarrow> mmrc_inv n (tb\<lparr>tb_lookaround_wrap := w\<rparr>)"
  by (auto simp: mmrc_inv_def rates_ok_def candidates_ok_def)

text \<open>With candidates at hand the attempts at the current one are always at their maximum, so the rate to
  try is a candidate.\<close>

lemma pick_lookaround_ok:
  assumes inv: "mmrc_inv n tb" and rnd: "rnd < tb_num_lookaround_candidates tb"
  shows "\<exists>tb'. pick_lookaround rnd tb
      = Some (if validate_rate (tb_caps tb) (tb_lookaround_candidates tb ! rnd)
              then Some (tb_lookaround_candidates tb ! rnd) else None, tb')
    \<and> mmrc_inv n tb' \<and> tb_caps tb' = tb_caps tb \<and> tb_table tb' = tb_table tb
    \<and> rate_fits (tb_caps tb) (tb_lookaround_candidates tb ! rnd)"
proof -
  have c: "tb_current_lookaround_rate_attempts tb = LOOKAROUND_RATE_ATTEMPTS" "rnd < 10"
      "length (tb_lookaround_candidates tb) = MAX_LOOKAROUND_CANDIDATES"
    using inv rnd by (auto simp: mmrc_inv_def candidates_ok_def)
  have "tb_lookaround_candidates tb ! rnd \<in> set (take (tb_num_lookaround_candidates tb) (tb_lookaround_candidates tb))"
    using rnd c(2,3) by (auto simp: in_set_conv_nth)
  then have "rate_fits (tb_caps tb) (tb_lookaround_candidates tb ! rnd)"
    using inv by (auto simp: mmrc_inv_def candidates_ok_def)
  then show ?thesis
    using c inv by (simp add: pick_lookaround_def u16_id)
qed

lemma switch_lookaround_ok:
  assumes "mmrc_inv n tb"
  shows "mmrc_inv n (snd (switch_lookaround b tb))" "tb_caps (snd (switch_lookaround b tb)) = tb_caps tb"
    "tb_table (snd (switch_lookaround b tb)) = tb_table tb"
    "tb_num_lookaround_candidates (snd (switch_lookaround b tb)) = tb_num_lookaround_candidates tb"
  using assms by (simp_all add: switch_lookaround_def mmrc_inv_wrap)

lemma mmrc_get_rates_ok:
  assumes inv: "mmrc_inv n tb" and sz: "0 < sz"
    and rnd: "0 < tb_num_lookaround_candidates tb \<longrightarrow> rnd < tb_num_lookaround_candidates tb"
  shows "\<exists>rates tb'. mmrc_get_rates rnd tb sz = Some (rates, tb') \<and> chain_ok (tb_caps tb) rates
    \<and> mmrc_inv n tb' \<and> tb_caps tb' = tb_caps tb \<and> tb_table tb' = tb_table tb"
proof -
  have wrap: "tb_lookaround_wrap tb \<noteq> 0" using inv by (auto simp: mmrc_inv_def)
  then obtain due cnt where due: "lookaround_due tb = Some (due, tb\<lparr>tb_lookaround_cnt := cnt\<rparr>)"
    by (simp add: lookaround_due_def Let_def)
  obtain b tb2 where sw: "switch_lookaround due (tb\<lparr>tb_lookaround_cnt := cnt\<rparr>) = (b, tb2)"
    by (cases "switch_lookaround due (tb\<lparr>tb_lookaround_cnt := cnt\<rparr>)")
  have tb2: "mmrc_inv n tb2" "tb_caps tb2 = tb_caps tb" "tb_table tb2 = tb_table tb"
      "tb_num_lookaround_candidates tb2 = tb_num_lookaround_candidates tb"
    using switch_lookaround_ok [of n "tb\<lparr>tb_lookaround_cnt := cnt\<rparr>" due] inv by (simp_all add: sw)
  have "\<exists>picked tb3. (if b \<and> tb_num_lookaround_candidates tb2 > 0 then pick_lookaround rnd tb2 else Some (None, tb2))
      = Some (picked, tb3) \<and> mmrc_inv n tb3 \<and> tb_caps tb3 = tb_caps tb \<and> tb_table tb3 = tb_table tb
      \<and> (\<forall>r. picked = Some r \<longrightarrow> rate_fits (tb_caps tb) r)"
    using tb2 rnd pick_lookaround_ok [OF tb2(1), of rnd]
    by (cases "b \<and> tb_num_lookaround_candidates tb2 > 0") auto
  then obtain picked tb3 where picked: "(if b \<and> tb_num_lookaround_candidates tb2 > 0
        then pick_lookaround rnd tb2 else Some (None, tb2)) = Some (picked, tb3)"
      "mmrc_inv n tb3" "tb_caps tb3 = tb_caps tb" "tb_table tb3 = tb_table tb"
      "\<And>r. picked = Some r \<Longrightarrow> rate_fits (tb_caps tb) r" by blast
  have rates: "rates_ok tb3" using picked(2) by (simp add: mmrc_inv_def)
  obtain l0 l1 k where l: "(case picked of None \<Rightarrow> (tb_best_tp tb3, tb_second_tp tb3, 0)
        | Some random \<Rightarrow> (random, tb_best_tp tb3, 1 :: nat)) = (l0, l1, k)" by (cases picked) auto
  have "rate_fits (tb_caps tb3) (tb_best_tp tb3)" "rate_fits (tb_caps tb3) (tb_second_tp tb3)"
    using rates by (simp_all add: rates_ok_def)
  then have fits: "rate_fits (tb_caps tb3) l0" "rate_fits (tb_caps tb3) l1" "k < 4"
    using l picked(3,5) by (auto split: option.splits)
  let ?rates = "let rates = chain_rates tb3 b l0 l1 in hd rates # map request_rts (tl rates)"
  have raw: "list_all2 (raw_entry (tb_caps tb3)) [0..<4] ?rates"
    by (rule chain_rates_raw [OF rates fits(1,2)])
  have ok: "\<forall>r \<in> set rs. rate_fits (tb_caps tb3) r \<or> mr_rate r = MMRC_MCS_UNUSED"
    if "list_all2 (raw_entry (tb_caps tb3)) [0..<4] rs" for rs
    using that raw_entry_cases by (fastforce simp: list_all2_conv_all_nth in_set_conv_nth)
  obtain rs t where rs: "allocate_initial_attempts ?rates 24000 sz = Some (rs, t)" "list_all2 keep_rate ?rates rs"
    using allocate_initial_attempts_ok [OF ok [OF raw] sz, of 24000] by blast
  have raw2: "list_all2 (raw_entry (tb_caps tb3)) [0..<4] rs" by (rule raw_entries_keep [OF raw rs(2)])
  obtain rs2 where rs2: "calculate_remaining_attempts tb3 rs t sz = Some rs2" "list_all2 keep_rate rs rs2"
    using remaining_attempts_loop_ok [OF rates ok [OF raw2] sz, of True "nat t"]
    by (cases "t \<le> 0") (auto simp: calculate_remaining_attempts_def)
  obtain out where out: "finish_chain tb3 (picked \<noteq> None) k rs2 = Some out" "chain_ok (tb_caps tb3) out"
    using finish_chain_ok [OF raw_entries_keep [OF raw2 rs2(2)] fits(3)] by blast
  have "mmrc_get_rates rnd tb sz = Some (out, tb3)"
    using rs(1) rs2(1) out(1)
    by (simp only: mmrc_get_rates_def due sw picked(1) l bind.bind_lunit case_prod_conv Let_def)
  then show ?thesis using out(2) picked(2,3,4) by simp
qed

subsection \<open>Feedback\<close>

text \<open>The members of a rate fit their bit fields.\<close>

definition rate_bits :: "mmrc_rate \<Rightarrow> bool" where
  "rate_bits r \<longleftrightarrow> mr_rate r < 16 \<and> mr_attempts r < 16 \<and> mr_bw r < 8 \<and> mr_guard r < 2"

text \<open>The attempts a chain reports for a row: those of the entries before the first one without attempts.\<close>

definition tried :: "mmrc_rate list \<Rightarrow> mmrc_rate list" where
  "tried rates = takeWhile (\<lambda>r. mr_attempts r > 0) rates"

definition attempts_at :: "mmrc_sta_capabilities \<Rightarrow> nat \<Rightarrow> mmrc_rate list \<Rightarrow> nat" where
  "attempts_at c j rates = sum_list (map (\<lambda>r. if row_index c r = j then mr_attempts r else 0) (tried rates))"

definition sent_more :: "bool \<Rightarrow> nat \<Rightarrow> mmrc_stats_table \<Rightarrow> mmrc_stats_table \<Rightarrow> bool" where
  "sent_more agg k st st' \<longleftrightarrow>
     st_sent st' = u16 (st_sent st + k)
     \<and> st_back_mpdu_failure st' = (if agg then u16 (st_back_mpdu_failure st + k) else st_back_mpdu_failure st)
     \<and> st_sent_success st' = st_sent_success st \<and> st_back_mpdu_success st' = st_back_mpdu_success st
     \<and> st_prob st' = st_prob st \<and> st_evidence st' = st_evidence st
     \<and> st_sum_throughput st' = st_sum_throughput st
     \<and> st_avg_throughput_counter st' = st_avg_throughput_counter st"

lemma u16_add: "u16 (u16 a + b) = u16 (a + b)"
  by (simp add: u16_def mod_add_left_eq)

lemma sent_more_refl: "st_u16 st \<Longrightarrow> sent_more agg 0 st st"
  by (simp add: sent_more_def st_u16_def u16_id)

lemma sent_more_trans: "sent_more agg k a b \<Longrightarrow> sent_more agg l b c \<Longrightarrow> sent_more agg (k + l) a c"
  by (auto simp: sent_more_def u16_add add.assoc)

lemma sent_more_u16: "sent_more agg k st st' \<Longrightarrow> st_u16 st \<Longrightarrow> st_u16 st'"
  by (auto simp: sent_more_def st_u16_def)

lemma sent_more_update:
  assumes "\<forall>st \<in> set xs. st_u16 st" "i < length xs" "sent_more agg k (xs ! i) v" "j < length xs"
  shows "sent_more agg (if i = j then k else 0) (xs ! j) (xs[i := v] ! j)"
  using assms sent_more_refl by (auto simp: nth_list_update)

lemma feedback_loop_ok:
  assumes "caps_ok (tb_caps tb)" "length (tb_table tb) = rows_from_sta_caps (tb_caps tb)"
    "\<forall>st \<in> set (tb_table tb). st_u16 st" "\<forall>r \<in> set rates. rate_bits r"
  shows "\<exists>table rates' last. feedback_loop agg rates tb = Some (tb\<lparr>tb_table := table\<rparr>, rates', last)
    \<and> length table = length (tb_table tb)
    \<and> (\<forall>j < length table. sent_more agg (attempts_at (tb_caps tb) j rates) (tb_table tb ! j) (table ! j))
    \<and> (case last of None \<Rightarrow> tried rates = []
       | Some i \<Rightarrow> i < length rates' \<and> tried rates \<noteq> []
          \<and> mr_index (rates' ! i) = row_index (tb_caps tb) (List.last (tried rates)))"
  using assms
proof (induction rates arbitrary: tb)
  case Nil
  then show ?case
    by (intro exI [of _ "tb_table tb"]) (auto simp: attempts_at_def tried_def intro!: sent_more_refl)
next
  case (Cons r rs)
  let ?c = "tb_caps tb" and ?j = "row_index (tb_caps tb) r"
  have r: "rate_update_index ?c r = Some (r\<lparr>mr_index := ?j\<rparr>)" "?j < length (tb_table tb)"
    using rate_update_index_ok [OF Cons.prems(1), of r] Cons.prems(2,4) by (auto simp: rate_bits_def)
  let ?f = "\<lambda>st. st\<lparr>st_have_sent_ampdus := st_have_sent_ampdus st \<or> agg\<rparr>"
  let ?g = "count_sent agg (mr_attempts r)"
  let ?st = "tb_table tb ! ?j"
  have st: "st_u16 ?st" using Cons.prems(3) r(2) by simp
  show ?case
  proof (cases "mr_attempts r > 0")
    case False
    have "sent_more agg 0 ?st (?f ?st)" using st by (simp add: sent_more_def st_u16_def u16_id)
    from sent_more_update [OF Cons.prems(3) r(2) this]
    have "sent_more agg 0 (tb_table tb ! j) ((tb_table tb)[?j := ?f ?st] ! j)" if "j < length (tb_table tb)" for j
      using that by (metis (full_types))
    then show ?thesis
      using False r by (auto simp: modify_row_Some attempts_at_def tried_def)
  next
    case True
    let ?table = "(tb_table tb)[?j := ?g (?f ?st)]"
    let ?tb = "tb\<lparr>tb_table := ?table\<rparr>"
    have "sent_more agg (mr_attempts r) ?st (?g (?f ?st))" by (simp add: sent_more_def count_sent_def Let_def)
    note step = sent_more_update [OF Cons.prems(3) r(2) this]
    have "st_u16 (?table ! j)" if "j < length (tb_table tb)" for j
      using sent_more_u16 [OF step [OF that]] Cons.prems(3) that by simp
    then have prems: "caps_ok (tb_caps ?tb)" "length (tb_table ?tb) = rows_from_sta_caps (tb_caps ?tb)"
        "\<forall>st \<in> set (tb_table ?tb). st_u16 st" "\<forall>r \<in> set rs. rate_bits r"
      using Cons.prems by (auto simp: in_set_conv_nth)
    have m1: "modify_row ?j ?f tb = Some (tb\<lparr>tb_table := (tb_table tb)[?j := ?f ?st]\<rparr>)"
      using r(2) by (simp add: modify_row_Some)
    have m2: "modify_row ?j ?g (tb\<lparr>tb_table := (tb_table tb)[?j := ?f ?st]\<rparr>) = Some ?tb"
      using r(2) by (simp add: modify_row_Some)
    have simps: "tb_caps ?tb = ?c" "tb_table ?tb = ?table" by simp_all
    obtain table rates' last where IH: "feedback_loop agg rs ?tb = Some (?tb\<lparr>tb_table := table\<rparr>, rates', last)"
      "length table = length ?table"
      "\<forall>j < length table. sent_more agg (attempts_at ?c j rs) (?table ! j) (table ! j)"
      "case last of None \<Rightarrow> tried rs = []
       | Some i \<Rightarrow> i < length rates' \<and> tried rs \<noteq> [] \<and> mr_index (rates' ! i) = row_index ?c (List.last (tried rs))"
      using Cons.IH [OF prems] unfolding simps by blast
    have "feedback_loop agg (r # rs) tb = Some (tb\<lparr>tb_table := table\<rparr>, r\<lparr>mr_index := ?j\<rparr> # rates',
        Some (case last of None \<Rightarrow> 0 | Some i \<Rightarrow> Suc i))"
      using IH(1) True r(1) m1 m2 by simp
    moreover have "sent_more agg (attempts_at ?c j (r # rs)) (tb_table tb ! j) (table ! j)" if "j < length table" for j
    proof -
      have eq: "attempts_at ?c j (r # rs) = (if ?j = j then mr_attempts r else 0) + attempts_at ?c j rs"
        using True by (simp add: attempts_at_def tried_def)
      have j: "j < length (tb_table tb)" using that IH(2) by simp
      have t: "sent_more agg (attempts_at ?c j rs) (?table ! j) (table ! j)" using IH(3) that by blast
      from sent_more_trans [OF step [OF j] t] show ?thesis unfolding eq .
    qed
    moreover have "length table = length (tb_table tb)" using IH(2) by simp
    moreover have "tried (r # rs) = r # tried rs" using True by (simp add: tried_def)
    moreover have "mr_index (r\<lparr>mr_index := ?j\<rparr>) = ?j" by simp
    ultimately show ?thesis using IH(4)
      by (intro exI [of _ table] exI [of _ "r\<lparr>mr_index := ?j\<rparr> # rates'"]
          exI [of _ "Some (case last of None \<Rightarrow> 0 | Some i \<Rightarrow> Suc i)"]) (cases last; simp)
  qed
qed

lemma row_ok_u16: "row_ok n st \<Longrightarrow> st_u16 st"
  by (simp add: row_ok_def)

lemma sent_more_row_ok: "sent_more agg k st st' \<Longrightarrow> row_ok n st \<Longrightarrow> row_ok n st'"
  by (auto simp: sent_more_def row_ok_def st_u16_def)

lemma count_ack_row_ok: "row_ok n st \<Longrightarrow> row_ok n (count_ack agg st)"
  by (auto simp: count_ack_def row_ok_def st_u16_def Let_def)

text \<open>The row a feedback credits with an acknowledgement.\<close>

definition acked_row :: "mmrc_sta_capabilities \<Rightarrow> mmrc_rate list \<Rightarrow> bool \<Rightarrow> nat \<Rightarrow> bool" where
  "acked_row c rates was_acked j \<longleftrightarrow>
     was_acked \<and> tried rates \<noteq> [] \<and> row_index c (last (tried rates)) = j"

lemma mmrc_feedback_ok:
  assumes inv: "mmrc_inv n tb" and bits: "\<forall>r \<in> set rates. rate_bits r"
  shows "\<exists>table rates'. mmrc_feedback tb rates agg acked = Some (tb\<lparr>tb_table := table\<rparr>, rates')
    \<and> mmrc_inv n (tb\<lparr>tb_table := table\<rparr>) \<and> length table = length (tb_table tb)
    \<and> (\<forall>j < length table. \<exists>st. sent_more agg (attempts_at (tb_caps tb) j rates) (tb_table tb ! j) st
         \<and> table ! j = (if acked_row (tb_caps tb) rates acked j then count_ack agg st else st))"
proof -
  let ?c = "tb_caps tb"
  have c: "caps_ok ?c" "length (tb_table tb) = rows_from_sta_caps ?c"
    and rows: "\<forall>st \<in> set (tb_table tb). row_ok n st" "\<forall>st \<in> set (tb_table tb). st_u16 st"
    using inv row_ok_u16 by (auto simp: mmrc_inv_def rates_ok_def)
  obtain table rates' i where loop: "feedback_loop agg rates tb = Some (tb\<lparr>tb_table := table\<rparr>, rates', i)"
      "length table = length (tb_table tb)"
      "\<forall>j < length table. sent_more agg (attempts_at ?c j rates) (tb_table tb ! j) (table ! j)"
      "case i of None \<Rightarrow> tried rates = []
       | Some i \<Rightarrow> i < length rates' \<and> tried rates \<noteq> [] \<and> mr_index (rates' ! i) = row_index ?c (last (tried rates))"
    using feedback_loop_ok [OF c rows(2) bits, of agg] by blast
  have row_ok: "row_ok n (table ! j)" if "j < length table" for j
    using sent_more_row_ok loop(2,3) rows(1) that by (metis nth_mem)
  have inv': "mmrc_inv n (tb\<lparr>tb_table := xs\<rparr>)" if "length xs = length table" "\<forall>j < length xs. row_ok n (xs ! j)" for xs
    using inv that loop(2) by (auto simp: mmrc_inv_def rates_ok_def candidates_ok_def in_set_conv_nth)
  show ?thesis
  proof (cases "acked \<and> tried rates \<noteq> []")
    case False
    then have "mmrc_feedback tb rates agg acked = Some (tb\<lparr>tb_table := table\<rparr>, rates')"
      using loop(1,4) by (auto simp: mmrc_feedback_def split: option.splits)
    then show ?thesis
      using False loop(2,3) inv' [of table] row_ok by (auto simp: acked_row_def)
  next
    case True
    let ?last = "last (tried rates)"
    obtain k where k: "i = Some k" "k < length rates'" "mr_index (rates' ! k) = row_index ?c ?last"
      using True loop(4) by (cases i) auto
    have "?last \<in> set rates"
      using True by (metis last_in_set set_takeWhileD tried_def)
    then have j: "row_index ?c ?last < length table"
      using rate_update_index_ok(2) [OF c(1), of ?last] bits c(2) loop(2) by (auto simp: rate_bits_def)
    let ?table = "table[row_index ?c ?last := count_ack agg (table ! row_index ?c ?last)]"
    have "mmrc_feedback tb rates agg acked = Some (tb\<lparr>tb_table := ?table\<rparr>, rates')"
      using loop(1) k True j by (simp add: mmrc_feedback_def modify_row_Some)
    moreover have "mmrc_inv n (tb\<lparr>tb_table := ?table\<rparr>)"
      using row_ok count_ack_row_ok j by (intro inv') (auto simp: nth_list_update)
    moreover have "\<forall>j < length ?table. \<exists>st. sent_more agg (attempts_at ?c j rates) (tb_table tb ! j) st
         \<and> ?table ! j = (if acked_row ?c rates acked j then count_ack agg st else st)"
      using loop(3) True j by (auto simp: acked_row_def nth_list_update)
    ultimately show ?thesis using loop(2) by (metis length_list_update)
  qed
qed

lemma attempts_at_last: "tried rates \<noteq> [] \<Longrightarrow> 0 < attempts_at c (row_index c (last (tried rates))) rates"
proof -
  assume ne: "tried rates \<noteq> []"
  then have "last (tried rates) \<in> set (tried rates)" by simp
  then have "0 < mr_attempts (last (tried rates))"
    by (auto simp: tried_def dest: set_takeWhileD)
  moreover have "mr_attempts (last (tried rates)) \<le> attempts_at c (row_index c (last (tried rates))) rates"
    using ne unfolding attempts_at_def by (intro member_le_sum_list) (auto simp: image_iff)
  ultimately show ?thesis by simp
qed

lemma feedback_stats_ok:
  assumes "stats_ok st" "sent_more agg k st st'" "st_sent st + k < 65536"
  shows "stats_ok st'" "0 < k \<Longrightarrow> stats_ok (count_ack agg st')"
proof -
  have f: "st_sent st' = st_sent st + k" "st_prob st' = st_prob st" "st_evidence st' = st_evidence st"
    "st_back_mpdu_success st' = st_back_mpdu_success st" "st_sent_success st' = st_sent_success st"
    "st_back_mpdu_failure st' = (if agg then st_back_mpdu_failure st + k else st_back_mpdu_failure st)"
    using assms by (auto simp: sent_more_def stats_ok_def u16_id)
  show "stats_ok st'" using assms(1) f by (auto simp: stats_ok_def)
  assume k: "0 < k"
  have "u16 (st_back_mpdu_failure st + k + 65535) = st_back_mpdu_failure st + k - 1"
  proof -
    have "st_back_mpdu_failure st + k + 65535 = st_back_mpdu_failure st + k - 1 + 65536" using k by simp
    moreover have "st_back_mpdu_failure st + k - 1 < 65536" using assms by (auto simp: stats_ok_def)
    ultimately show ?thesis unfolding u16_def by (simp only: mod_add_self2 mod_less)
  qed
  then show "stats_ok (count_ack agg st')"
    using assms k f by (auto simp: stats_ok_def count_ack_def Let_def u16_id)
qed

subsection \<open>Initialisation and fixed rates\<close>

lemma find_baseline_index_ok:
  assumes "caps_ok (tb_caps tb)"
  shows "\<exists>i < rows_from_sta_caps (tb_caps tb). find_baseline_index tb = Some i"
proof -
  let ?c = "tb_caps tb" and ?rows = "rows_from_sta_caps (tb_caps tb)"
  have tp: "\<exists>r t. get_rate_row ?c i = Some r \<and> rate_fits ?c r \<and> mmrc_calculate_theoretical_throughput r = Some t"
    if i: "i < ?rows" for i
  proof -
    obtain r where "get_rate_row ?c i = Some r" "rate_fits ?c r" using get_rate_row_fits [OF assms i] .
    moreover from this obtain t where "mmrc_calculate_theoretical_throughput r = Some t"
      using throughput_Some [of r] by (auto simp: rate_fits_def)
    ultimately show ?thesis by blast
  qed
  have no_mcs10: "\<not> bit (cap_rates ?c) 10" using bit_caps(1) [OF assms, of 10] by auto
  obtain r0 t0 where r0: "get_rate_row ?c 0 = Some r0" "mmrc_calculate_theoretical_throughput r0 = Some t0"
    using tp [OF rows_ok(3) [OF assms]] by blast
  let ?f = "\<lambda>i (min_tp, min_index). do {
            rate \<leftarrow> get_rate_row ?c i;
            if \<not> validate_rate ?c rate then Some (min_tp, min_index)
            else do {
              tp \<leftarrow> mmrc_calculate_theoretical_throughput rate;
              Some (if min_tp > tp then (tp, mr_index rate) else (min_tp, min_index))
            }
          }"
  have "\<exists>s. foldM ?f [0..<?rows] (t0, 0) = Some s \<and> snd s < ?rows"
  proof (rule foldM_invariant)
    show "snd (t0, 0 :: nat) < ?rows" using rows_ok(3) [OF assms] by simp
    fix i and s :: "nat \<times> nat" assume "i \<in> set [0..<?rows]" "snd s < ?rows"
    then show "\<exists>s'. ?f i s = Some s' \<and> snd s' < ?rows"
      using tp [of i] by (cases s) (auto simp: rate_fits_def)
  qed
  then show ?thesis using r0 no_mcs10 by (auto simp: find_baseline_index_def)
qed

lemma max_bw_less: "caps_ok c \<Longrightarrow> max_bw (cap_bandwidth c) < 4"
  using bit_caps(2) [of c 4] by (auto simp: max_bw_def)

lemma mmrc_sta_init_ok:
  assumes "caps_ok c"
  shows "\<exists>tb. mmrc_sta_init c rssi = Some tb \<and> mmrc_inv 0 tb \<and> tb_caps tb = c
    \<and> (\<forall>st \<in> set (tb_table tb). st = mmrc_stats_zero)
    \<and> (rssi \<ge> -70 \<longrightarrow> mr_rate (tb_best_tp tb) = 7)"
proof -
  have caps: "cap_max_rates c \<noteq> 0" "cap_max_retries c \<noteq> 0" using assms by (auto simp: caps_ok_def)
  define tb0 where "tb0 = \<lparr>tb_caps = c, tb_best_tp = mmrc_rate_zero, tb_second_tp = mmrc_rate_zero,
       tb_baseline = mmrc_rate_zero, tb_best_prob = mmrc_rate_zero,
       tb_fixed_rate = mmrc_rate_zero\<lparr>mr_rate := MMRC_MCS_UNUSED\<rparr>,
       tb_cycle_cnt = 0, tb_last_lookaround_cycle = 0, tb_lookaround_cnt = 0,
       tb_lookaround_wrap = LOOKAROUND_RATE_INIT, tb_forced_lookaround = 0,
       tb_current_lookaround_rate_attempts = 0, tb_current_lookaround_rate_index = 0,
       tb_total_lookaround = 0, tb_stability_cnt = 0,
       tb_stability_cnt_threshold = STABILITY_CNT_THRESHOLD_INIT, tb_probability_variation = 0,
       tb_best_rate_diff = (0, 0), tb_probability_variation_direction = 0,
       tb_interference_likely = False, tb_unconverged = True, tb_newly_unconverged = True,
       tb_best_rate_cycle_count = 0,
       tb_lookaround_candidates = replicate MAX_LOOKAROUND_CANDIDATES mmrc_rate_zero,
       tb_num_lookaround_candidates = 0,
       tb_table = replicate (rows_from_sta_caps c) mmrc_stats_zero\<rparr>"
  obtain i where i: "find_baseline_index tb0 = Some i" "i < rows_from_sta_caps c"
    using find_baseline_index_ok [of tb0] assms by (auto simp: tb0_def)
  obtain b where b: "get_rate_row c i = Some b" by (rule get_rate_row_fits [OF assms i(2)])
  define rate where "rate = (if rssi \<ge> -70 then 7 else if rssi \<ge> -85 then 3
    else if max_bw (cap_bandwidth c) = MMRC_BW_1MHZ \<or> max_bw (cap_bandwidth c) = MMRC_BW_2MHZ then 3 else 0 :: nat)"
  let ?r = "mmrc_rate_zero\<lparr>mr_bw := max_bw (cap_bandwidth c),
    mr_guard := if bit (cap_sgi_per_bw c) (max_bw (cap_bandwidth c)) then MMRC_GUARD_SHORT else MMRC_GUARD_LONG,
    mr_rate := rate, mr_ss := 0\<rparr>"
  have "rate < 10" by (simp add: rate_def)
  then have "mr_rate ?r < 10" "mr_bw ?r < 4" "mr_guard ?r < 2"
    using max_bw_less [OF assms] by simp_all
  from rate_update_index_ok [OF assms, of ?r] this
  obtain best where best: "rate_update_index c ?r = Some best" "rate_fits c best" "mr_rate best = rate"
    by (auto simp: rate_fits_def)
  define tb1 where "tb1 = tb0\<lparr>tb_baseline := b, tb_best_tp := best, tb_second_tp := best,
      tb_best_prob := best, tb_baseline := best\<rparr>"
  have "tb_caps tb1 = c" "tb_best_tp tb1 = best" by (simp_all add: tb1_def tb0_def)
  with mmrc_fill_retry_rates_fits [of tb1] assms best(2)
  obtain s p z where fill: "mmrc_fill_retry_rates tb1 = Some (tb1\<lparr>tb_second_tp := s, tb_best_prob := p, tb_baseline := z\<rparr>)"
    "rate_fits c s" "rate_fits c p" "rate_fits c z" by auto
  have c0: "tb_caps tb0 = c" "tb_best_tp tb0 = mmrc_rate_zero" by (simp_all add: tb0_def)
  have init: "mmrc_init_rates (tb0\<lparr>tb_baseline := b\<rparr>) rssi = mmrc_fill_retry_rates tb1"
    using best(1) by (simp add: mmrc_init_rates_def c0 Let_def rate_def tb1_def)
  have "mmrc_sta_init c rssi = Some (tb1\<lparr>tb_second_tp := s, tb_best_prob := p, tb_baseline := z\<rparr>)"
    unfolding mmrc_sta_init_def tb0_def [symmetric] Let_def using i(1) b init fill(1) caps by simp
  moreover have "mmrc_inv 0 (tb1\<lparr>tb_second_tp := s, tb_best_prob := p, tb_baseline := z\<rparr>)"
    using assms fill best(2)
    by (simp add: tb1_def tb0_def mmrc_inv_def rates_ok_def candidates_ok_def row_ok_def st_u16_def
        mmrc_stats_zero_def)
  ultimately show ?thesis using best(3) by (auto simp: tb1_def tb0_def rate_def)
qed

lemma mmrc_set_fixed_rate_ok:
  assumes "mmrc_inv n tb"
  shows "\<exists>b tb'. mmrc_set_fixed_rate tb r = Some (b, tb') \<and> mmrc_inv n tb' \<and> tb_caps tb' = tb_caps tb
    \<and> tb_table tb' = tb_table tb"
proof (cases "validate_rate (tb_caps tb) r \<and> bit (cap_rates (tb_caps tb)) (mr_rate r)
    \<and> bit (cap_bandwidth (tb_caps tb)) (mr_bw r) \<and> bit (cap_spatial_streams (tb_caps tb)) (mr_ss r)
    \<and> bit (cap_guard (tb_caps tb)) (mr_guard r)")
  case False
  then have "mmrc_set_fixed_rate tb r = Some (False, tb)" by (auto simp: mmrc_set_fixed_rate_def)
  then show ?thesis using assms by blast
next
  case True
  have c: "caps_ok (tb_caps tb)" using assms by (simp add: mmrc_inv_def rates_ok_def)
  from rate_update_index_fits [OF c, of r] True
  obtain r' where r': "rate_update_index (tb_caps tb) r = Some r'" "rate_fits (tb_caps tb) r'"
    using bit_caps [OF c] by blast
  then have "mmrc_set_fixed_rate tb r = Some (True, tb\<lparr>tb_fixed_rate := r'\<rparr>)"
    using True by (simp add: mmrc_set_fixed_rate_def Let_def)
  moreover have "mmrc_inv n (tb\<lparr>tb_fixed_rate := r'\<rparr>)"
    using assms r'(2) by (simp add: mmrc_inv_def rates_ok_def candidates_ok_def)
  ultimately show ?thesis by (intro exI [of _ True] exI [of _ "tb\<lparr>tb_fixed_rate := r'\<rparr>"]) simp
qed

lemma mmrc_inv_mono: "mmrc_inv m tb \<Longrightarrow> m \<le> n \<Longrightarrow> mmrc_inv n tb"
  by (auto simp: mmrc_inv_def row_ok_def)

subsection \<open>Sequences of operations\<close>

text \<open>
  What the UMAC does to a table once it is initialised. The chain of an operation \<open>Op_get_rates\<close> is drawn
  with a random source, a function that returns a number below its argument.
\<close>

datatype mmrc_op =
    Op_update
  | Op_get_rates "nat \<Rightarrow> nat" nat
  | Op_feedback "mmrc_rate list" bool bool
  | Op_set_fixed_rate mmrc_rate

fun mmrc_step :: "mmrc_op \<Rightarrow> mmrc_table \<Rightarrow> mmrc_table option" where
  "mmrc_step Op_update tb = mmrc_update tb"
| "mmrc_step (Op_get_rates random sz) tb =
     map_option snd (mmrc_get_rates (random (tb_num_lookaround_candidates tb)) tb sz)"
| "mmrc_step (Op_feedback rates agg acked) tb = map_option fst (mmrc_feedback tb rates agg acked)"
| "mmrc_step (Op_set_fixed_rate r) tb = map_option snd (mmrc_set_fixed_rate tb r)"

fun op_ok :: "mmrc_op \<Rightarrow> bool" where
  "op_ok Op_update \<longleftrightarrow> True"
| "op_ok (Op_get_rates random sz) \<longleftrightarrow> 0 < sz \<and> (\<forall>m > 0. random m < m)"
| "op_ok (Op_feedback rates agg acked) \<longleftrightarrow> list_all rate_bits rates"
| "op_ok (Op_set_fixed_rate r) \<longleftrightarrow> True"

definition mmrc_run :: "mmrc_sta_capabilities \<Rightarrow> int \<Rightarrow> mmrc_op list \<Rightarrow> mmrc_table option" where
  "mmrc_run caps rssi ops = Option.bind (mmrc_sta_init caps rssi) (foldM mmrc_step ops)"

lemma mmrc_inv_Suc: "mmrc_inv n tb \<Longrightarrow> mmrc_inv (Suc n) tb"
  by (erule mmrc_inv_mono) simp

lemma mmrc_step_ok:
  assumes "mmrc_inv n tb" "op_ok op" "n < 2147483647"
  shows "\<exists>tb'. mmrc_step op tb = Some tb' \<and> mmrc_inv (Suc n) tb' \<and> tb_caps tb' = tb_caps tb"
proof (cases op)
  case Op_update
  then show ?thesis using mmrc_update_ok [OF assms(1,3)] by auto
next
  case (Op_get_rates random sz)
  then show ?thesis
    using mmrc_get_rates_ok [OF assms(1), of sz "random (tb_num_lookaround_candidates tb)"] assms(2)
    by (auto intro: mmrc_inv_Suc)
next
  case (Op_feedback rates agg acked)
  then show ?thesis
    using mmrc_feedback_ok [OF assms(1), of rates agg acked] assms(2)
    by (auto simp: list_all_iff intro: mmrc_inv_Suc)
next
  case (Op_set_fixed_rate r)
  then show ?thesis
    using mmrc_set_fixed_rate_ok [OF assms(1), of r] by (auto intro: mmrc_inv_Suc)
qed

lemma foldM_step_ok:
  assumes "mmrc_inv n tb" "list_all op_ok ops" "n + length ops \<le> 2147483647"
  shows "\<exists>tb'. foldM mmrc_step ops tb = Some tb' \<and> mmrc_inv (n + length ops) tb' \<and> tb_caps tb' = tb_caps tb"
  using assms
proof (induction ops arbitrary: n tb)
  case Nil
  then show ?case by simp
next
  case (Cons op ops)
  then obtain tb1 where tb1: "mmrc_step op tb = Some tb1" "mmrc_inv (Suc n) tb1" "tb_caps tb1 = tb_caps tb"
    using mmrc_step_ok [of n tb op] by auto
  then show ?case using Cons.IH [OF tb1(2)] Cons.prems by simp
qed

lemma mmrc_run_ok:
  assumes "caps_ok caps" "list_all op_ok ops" "length ops \<le> 2147483647"
  shows "\<exists>tb. mmrc_run caps rssi ops = Some tb \<and> mmrc_inv (length ops) tb \<and> tb_caps tb = caps"
proof -
  obtain tb where "mmrc_sta_init caps rssi = Some tb" "mmrc_inv 0 tb" "tb_caps tb = caps"
    using mmrc_sta_init_ok [OF assms(1), of rssi] by blast
  with foldM_step_ok [of 0 tb ops] assms(2,3) show ?thesis by (auto simp: mmrc_run_def)
qed

text \<open>Rate control never fails: from initialisation, any sequence of updates, chain requests for
  non-empty packets, feedbacks and fixed-rate settings runs without an access outside a table, a
  division by zero, a signed overflow or a failed assertion, and the table stays consistent, for as many as
  2147483647 operations, which is how long the signed count of unchanged cycles can last.\<close>

theorem mmrc_never_fails:
  assumes "caps_ok caps" "list_all op_ok ops" "length ops \<le> 2147483647"
  shows "\<exists>tb. mmrc_run caps rssi ops = Some tb \<and> mmrc_inv (length ops) tb"
  using mmrc_run_ok [OF assms] by blast

definition sample_ops :: "mmrc_op list" where
  "sample_ops =
     [Op_get_rates (\<lambda>_. 0) 1500,
      Op_feedback [mmrc_rate_zero\<lparr>mr_rate := 3, mr_attempts := 2\<rparr>,
                   mmrc_rate_zero\<lparr>mr_rate := 2, mr_attempts := 1, mr_bw := 1\<rparr>] True True,
      Op_update, Op_set_fixed_rate (mmrc_rate_zero\<lparr>mr_rate := 5\<rparr>), Op_update]"

lemma sample_ops_ok: "list_all op_ok sample_ops"
  by (simp add: sample_ops_def rate_bits_def mmrc_rate_zero_def)

theorem mmrc_never_fails_witness:
  "caps_ok sample_caps \<and> list_all op_ok sample_ops \<and> length sample_ops = 5
    \<and> (\<exists>tb. mmrc_run sample_caps (-60) sample_ops = Some tb \<and> mmrc_inv 5 tb)"
proof -
  have len: "length sample_ops = 5" by (simp add: sample_ops_def)
  then show ?thesis
    using mmrc_never_fails [OF sample_caps_ok sample_ops_ok, of "-60"] sample_caps_ok sample_ops_ok by simp
qed

text \<open>C9. The chain of a packet is well formed whatever happened before: it has as many usable rates as the
  station's capabilities allow, each with an index inside the table, a rate and bandwidth the
  throughput tables cover and one or two attempts; the remaining entries are marked unused and have no
  attempts, and every entry after the first requests RTS.\<close>

theorem mmrc_chain_well_formed:
  assumes "caps_ok caps" "list_all op_ok ops" "length ops \<le> 2147483647" "mmrc_run caps rssi ops = Some tb"
    and "0 < sz" "0 < tb_num_lookaround_candidates tb \<longrightarrow> rnd < tb_num_lookaround_candidates tb"
  shows "\<exists>rates tb'. mmrc_get_rates rnd tb sz = Some (rates, tb') \<and> chain_ok caps rates"
proof -
  have "mmrc_inv (length ops) tb" "tb_caps tb = caps"
    using mmrc_run_ok [OF assms(1-3), of rssi] assms(4) by auto
  then show ?thesis using mmrc_get_rates_ok [OF _ assms(5,6)] by blast
qed

theorem mmrc_chain_well_formed_witness:
  "\<exists>tb. mmrc_run sample_caps (-60) sample_ops = Some tb
    \<and> (\<exists>rates tb'. mmrc_get_rates 0 tb 1500 = Some (rates, tb') \<and> chain_ok sample_caps rates)"
proof -
  have "length sample_ops \<le> 2147483647" by (simp add: sample_ops_def)
  moreover from this obtain tb where "mmrc_run sample_caps (-60) sample_ops = Some tb"
    using mmrc_run_ok [OF sample_caps_ok sample_ops_ok] by blast
  ultimately show ?thesis
    using mmrc_chain_well_formed [OF sample_caps_ok sample_ops_ok, of "-60" tb 1500 0] by auto
qed

text \<open>Feedback counts what was transmitted: the attempts of every row grow, at 16 bits, by the attempts the
  chain reports for it, up to the first entry without attempts; an acknowledged transmission counts one
  success, for the row of the last entry that was tried; nothing else about a row's outcome changes.\<close>

theorem mmrc_feedback_counts:
  assumes "mmrc_inv n tb" "\<forall>r \<in> set rates. rate_bits r"
  shows "\<exists>tb' rates'. mmrc_feedback tb rates agg acked = Some (tb', rates') \<and> mmrc_inv n tb'
    \<and> (\<forall>j < length (tb_table tb).
          st_sent (tb_table tb' ! j) = u16 (st_sent (tb_table tb ! j) + attempts_at (tb_caps tb) j rates)
        \<and> st_sent_success (tb_table tb' ! j)
            = (if acked_row (tb_caps tb) rates acked j then u16 (st_sent_success (tb_table tb ! j) + 1)
               else st_sent_success (tb_table tb ! j))
        \<and> st_prob (tb_table tb' ! j) = st_prob (tb_table tb ! j)
        \<and> st_evidence (tb_table tb' ! j) = st_evidence (tb_table tb ! j))"
proof -
  obtain table rates' where t: "mmrc_feedback tb rates agg acked = Some (tb\<lparr>tb_table := table\<rparr>, rates')"
    "mmrc_inv n (tb\<lparr>tb_table := table\<rparr>)" "length table = length (tb_table tb)"
    "\<forall>j < length table. \<exists>st. sent_more agg (attempts_at (tb_caps tb) j rates) (tb_table tb ! j) st
         \<and> table ! j = (if acked_row (tb_caps tb) rates acked j then count_ack agg st else st)"
    using mmrc_feedback_ok [OF assms] by blast
  have ack: "st_sent (count_ack agg st) = st_sent st" "st_prob (count_ack agg st) = st_prob st"
    "st_evidence (count_ack agg st) = st_evidence st"
    "st_sent_success (count_ack agg st) = u16 (st_sent_success st + 1)" for st
    by (simp_all add: count_ack_def Let_def)
  show ?thesis
  proof (intro exI conjI allI impI)
    show "mmrc_feedback tb rates agg acked = Some (tb\<lparr>tb_table := table\<rparr>, rates')" by (fact t(1))
    show "mmrc_inv n (tb\<lparr>tb_table := table\<rparr>)" by (fact t(2))
    fix j assume "j < length (tb_table tb)"
    with t(3,4) obtain st where st: "sent_more agg (attempts_at (tb_caps tb) j rates) (tb_table tb ! j) st"
      "table ! j = (if acked_row (tb_caps tb) rates acked j then count_ack agg st else st)" by auto
    then show "st_sent (tb_table (tb\<lparr>tb_table := table\<rparr>) ! j)
        = u16 (st_sent (tb_table tb ! j) + attempts_at (tb_caps tb) j rates)"
      "st_sent_success (tb_table (tb\<lparr>tb_table := table\<rparr>) ! j)
        = (if acked_row (tb_caps tb) rates acked j then u16 (st_sent_success (tb_table tb ! j) + 1)
           else st_sent_success (tb_table tb ! j))"
      "st_prob (tb_table (tb\<lparr>tb_table := table\<rparr>) ! j) = st_prob (tb_table tb ! j)"
      "st_evidence (tb_table (tb\<lparr>tb_table := table\<rparr>) ! j) = st_evidence (tb_table tb ! j)"
      by (simp_all add: sent_more_def ack)
  qed
qed

definition sample_chain :: "mmrc_rate list" where
  "sample_chain = [mmrc_rate_zero\<lparr>mr_rate := 3, mr_attempts := 2\<rparr>, mmrc_rate_zero\<lparr>mr_attempts := 1\<rparr>]"

lemma sample_chain_bits: "\<forall>r \<in> set sample_chain. rate_bits r"
  by (simp add: sample_chain_def rate_bits_def mmrc_rate_zero_def)

theorem mmrc_feedback_counts_witness:
  "\<exists>tb tb' rates'. mmrc_inv 0 tb \<and> mmrc_feedback tb sample_chain True True = Some (tb', rates') \<and> mmrc_inv 0 tb'"
proof -
  obtain tb where "mmrc_inv 0 tb" using mmrc_sta_init_ok [OF sample_caps_ok, of 0] by blast
  with mmrc_feedback_counts [OF this sample_chain_bits, of True True] show ?thesis by blast
qed

text \<open>The statistics stay meaningful: as long as the 16-bit attempts of a row do not wrap between two
  updates, no row ever has more successes than attempts, and the success probability computed from them, like the
  evidence, is at most 100.\<close>

theorem mmrc_statistics_bounded:
  assumes "mmrc_inv n tb" "n < 2147483647" "\<forall>st \<in> set (tb_table tb). stats_ok st"
    and "\<forall>r \<in> set rates. rate_bits r"
    and "\<forall>j < length (tb_table tb). st_sent (tb_table tb ! j) + attempts_at (tb_caps tb) j rates < 65536"
  shows "(\<exists>tb'. mmrc_update tb = Some tb' \<and> (\<forall>st \<in> set (tb_table tb'). stats_ok st))
    \<and> (\<exists>tb' rates'. mmrc_feedback tb rates agg acked = Some (tb', rates')
        \<and> (\<forall>st \<in> set (tb_table tb'). stats_ok st))"
proof
  show "\<exists>tb'. mmrc_update tb = Some tb' \<and> (\<forall>st \<in> set (tb_table tb'). stats_ok st)"
    using mmrc_update_ok [OF assms(1,2)] assms(3) by (metis in_set_conv_nth row_step_def)
  obtain table rates' where t: "mmrc_feedback tb rates agg acked = Some (tb\<lparr>tb_table := table\<rparr>, rates')"
    "length table = length (tb_table tb)"
    "\<forall>j < length table. \<exists>st. sent_more agg (attempts_at (tb_caps tb) j rates) (tb_table tb ! j) st
         \<and> table ! j = (if acked_row (tb_caps tb) rates acked j then count_ack agg st else st)"
    using mmrc_feedback_ok [OF assms(1,4)] by blast
  have "stats_ok (table ! j)" if j: "j < length table" for j
  proof -
    obtain st where st: "sent_more agg (attempts_at (tb_caps tb) j rates) (tb_table tb ! j) st"
      "table ! j = (if acked_row (tb_caps tb) rates acked j then count_ack agg st else st)"
      using t(3) j by blast
    have "0 < attempts_at (tb_caps tb) j rates" if "acked_row (tb_caps tb) rates acked j"
      using that attempts_at_last by (auto simp: acked_row_def)
    then show ?thesis
      using feedback_stats_ok [OF _ st(1)] assms(3,5) j t(2) st(2) by auto
  qed
  then show "\<exists>tb' rates'. mmrc_feedback tb rates agg acked = Some (tb', rates')
      \<and> (\<forall>st \<in> set (tb_table tb'). stats_ok st)"
    using t(1) by (auto simp: in_set_conv_nth)
qed

theorem mmrc_statistics_bounded_witness:
  "\<exists>tb. mmrc_inv 0 tb
    \<and> (\<exists>tb'. mmrc_update tb = Some tb' \<and> (\<forall>st \<in> set (tb_table tb'). stats_ok st))
    \<and> (\<exists>tb' rates'. mmrc_feedback tb sample_chain False True = Some (tb', rates')
        \<and> (\<forall>st \<in> set (tb_table tb'). stats_ok st))"
proof -
  obtain tb where tb: "mmrc_inv 0 tb" "\<forall>st \<in> set (tb_table tb). st = mmrc_stats_zero"
    using mmrc_sta_init_ok [OF sample_caps_ok, of 0] by blast
  have ok: "\<forall>st \<in> set (tb_table tb). stats_ok st"
    using tb(2) by (auto simp: stats_ok_def mmrc_stats_zero_def)
  have le: "attempts_at c j sample_chain \<le> 3" for c j
    by (simp add: attempts_at_def tried_def sample_chain_def mmrc_rate_zero_def)
  have "\<forall>j < length (tb_table tb). st_sent (tb_table tb ! j) + attempts_at (tb_caps tb) j sample_chain < 65536"
  proof (intro allI impI)
    fix j assume "j < length (tb_table tb)"
    then have "tb_table tb ! j = mmrc_stats_zero" using tb(2) nth_mem by blast
    then have "st_sent (tb_table tb ! j) = 0" by (simp add: mmrc_stats_zero_def)
    then show "st_sent (tb_table tb ! j) + attempts_at (tb_caps tb) j sample_chain < 65536"
      using le [of "tb_caps tb" j] by simp
  qed
  then show ?thesis
    using mmrc_statistics_bounded [OF tb(1) _ ok sample_chain_bits, of False True] tb(1) by auto
qed

text \<open>A lookaround always draws a fresh candidate: whenever a consistent table has candidates, the counter of
  attempts at the current one stands at its maximum of 4, so the rate tried is the candidate drawn (when
  802.11ah has it) and never the row of the previous lookaround.\<close>

theorem mmrc_lookaround_draws_afresh:
  assumes "mmrc_inv n tb" "rnd < tb_num_lookaround_candidates tb"
  shows "tb_current_lookaround_rate_attempts tb = LOOKAROUND_RATE_ATTEMPTS
    \<and> (\<exists>tb'. pick_lookaround rnd tb
      = Some (if validate_rate (tb_caps tb) (tb_lookaround_candidates tb ! rnd)
              then Some (tb_lookaround_candidates tb ! rnd) else None, tb') \<and> mmrc_inv n tb')"
proof
  show "tb_current_lookaround_rate_attempts tb = LOOKAROUND_RATE_ATTEMPTS"
    using assms by (simp add: mmrc_inv_def)
qed (use pick_lookaround_ok [OF assms] in blast)

theorem mmrc_lookaround_draws_afresh_witness:
  "\<exists>tb. mmrc_inv 0 tb \<and> 0 < tb_num_lookaround_candidates tb
    \<and> tb_current_lookaround_rate_attempts tb = LOOKAROUND_RATE_ATTEMPTS
    \<and> (\<exists>p tb'. pick_lookaround 0 tb = Some (p, tb') \<and> mmrc_inv 0 tb')"
proof -
  obtain tb where tb: "mmrc_inv 0 tb" using mmrc_sta_init_ok [OF sample_caps_ok, of 0] by blast
  obtain cs where cs: "length cs = MAX_LOOKAROUND_CANDIDATES" "\<forall>r \<in> set (take 1 cs). rate_fits (tb_caps tb) r"
  proof
    show "length (replicate 10 (tb_best_tp tb)) = MAX_LOOKAROUND_CANDIDATES"
      "\<forall>r \<in> set (take 1 (replicate 10 (tb_best_tp tb))). rate_fits (tb_caps tb) r"
      using tb by (auto simp: mmrc_inv_def rates_ok_def)
  qed
  let ?tb = "tb\<lparr>tb_lookaround_candidates := cs, tb_num_lookaround_candidates := 1,
    tb_current_lookaround_rate_attempts := 4\<rparr>"
  have "mmrc_inv 0 ?tb" "0 < tb_num_lookaround_candidates ?tb"
    using tb cs by (simp_all add: mmrc_inv_def rates_ok_def candidates_ok_def)
  then obtain tb1 where "mmrc_inv 0 tb1" "0 < tb_num_lookaround_candidates tb1" by metis
  with mmrc_lookaround_draws_afresh [OF this] show ?thesis by metis
qed

text \<open>At close range the first rate of a station is MCS 7 whatever rates were negotiated: with an RSSI of at
  least -70 dBm a table is initialised to transmit at MCS 7, also for a peer that supports fewer.\<close>

theorem mmrc_initial_rate_ignores_capabilities:
  assumes "caps_ok caps" "rssi \<ge> -70"
  shows "\<exists>tb. mmrc_sta_init caps rssi = Some tb \<and> mr_rate (tb_best_tp tb) = 7"
  using mmrc_sta_init_ok [OF assms(1), of rssi] assms(2) by auto

theorem mmrc_initial_rate_ignores_capabilities_witness:
  "caps_ok (sample_caps\<lparr>cap_rates := 7\<rparr>) \<and> \<not> bit (cap_rates (sample_caps\<lparr>cap_rates := 7\<rparr>)) 7
    \<and> (\<exists>tb. mmrc_sta_init (sample_caps\<lparr>cap_rates := 7\<rparr>) (-60) = Some tb \<and> mr_rate (tb_best_tp tb) = 7)"
proof -
  have ok: "caps_ok (sample_caps\<lparr>cap_rates := 7\<rparr>)" by (simp add: caps_ok_def sample_caps_def)
  have "\<not> bit (7 :: nat) 7" by (simp add: bit_nat_def)
  with mmrc_initial_rate_ignores_capabilities [OF ok, of "-60"] ok show ?thesis by simp
qed

text \<open>A 16 MHz channel takes rate control outside its tables: with 16 MHz as the only bandwidth, as
  negotiated on such a channel without sub-bands, initialising a station's table reads past the end of the
  throughput tables, whatever the signal strength.\<close>

theorem mmrc_16mhz_out_of_bounds:
  "mmrc_sta_init (sample_caps\<lparr>cap_bandwidth := 16, cap_rates := 1, cap_guard := 1\<rparr>) rssi = None"
proof -
  let ?c = "sample_caps\<lparr>cap_bandwidth := 16, cap_rates := 1, cap_guard := 1\<rparr>"
  have b16: "bit (16 :: nat) 4" "bit (1 :: nat) 0" by (simp_all add: bit_nat_def)
  have nth: "nth_bit 16 0 = Some 4" "nth_bit 1 0 = Some 0"
  proof -
    have "rank 16 4 = 0" by (simp add: rank_def upt_rec bit_nat_def)
    then show "nth_bit 16 0 = Some 4" using nth_bit_rank [OF b16(1)] by simp
    show "nth_bit 1 0 = Some 0" using nth_bit_rank [OF b16(2)] by simp
  qed
  have cnt: "bit_count 16 = 1" "bit_count 1 = 1" by (simp_all add: bit_count.simps)
  have idx: "bit_index 16 4 = 0" "bit_index 1 0 = 0"
    using bit_index_rank [OF b16(1)] bit_index_rank [OF b16(2)]
    by (simp_all add: rank_def upt_rec bit_nat_def)
  have rows: "rows_from_sta_caps ?c = 1"
    by (simp add: rows_from_sta_caps_def sample_caps_def cnt [simplified] u16_def bit_nat_def)
  have row: "get_rate_row ?c 0 = Some \<lparr>mr_rate = 0, mr_attempts = 0, mr_ss = 0, mr_bw = 4, mr_flags = 0,
      mr_index = 0, mr_guard = 0\<rparr>"
    using nth cnt idx rows by (simp add: get_rate_row_def rate_update_index_def sample_caps_def u16_def)
  have "\<not> bit (1 :: nat) 10" by (simp add: bit_nat_def)
  then have "find_baseline_index tb = None" if "tb_caps tb = ?c" for tb
    using that row by (simp add: find_baseline_index_def sample_caps_def mmrc_calculate_theoretical_throughput_def
        fetch_def s1g_tpt_lgi_def)
  then show ?thesis by (simp add: mmrc_sta_init_def Let_def)
qed

end
