(* ===== verification/Umac_Rc.thy ===== *)
theory Umac_Rc
  imports Mmrc_Correct Mmosal_Time
begin

section \<open>Rate control in the UMAC\<close>

text \<open>
  \<open>morselib/src/umac/rc/umac_rc.c\<close>: negotiation of a station's capabilities when rate control starts,
  the rate table of a management and of a data frame with the configured overrides and the MCS10 mode,
  the feedback of the driver with the periodic update, and the statistics for the user. The
  configuration the UMAC keeps elsewhere, the signal strength and the time are parameters; a failed allocation of the
  table is a failed assertion, as in the code.
\<close>

subsection \<open>State and configuration\<close>

datatype mcs10_mode = MCS10_DISABLED | MCS10_FORCED | MCS10_AUTO

record rc_config =
  cf_max_supported_bw :: nat
  cf_sgi_enabled :: bool
  cf_subbands_enabled :: bool
  cf_mcs8 :: bool
  cf_mcs9 :: bool
  cf_operation_channel_width :: nat
  cf_primary_channel_width :: nat
  cf_override_tx_rate :: int
  cf_override_bandwidth :: int
  cf_override_guard_interval :: int
  cf_mcs10_mode :: mcs10_mode
  cf_rssi :: int

record umac_rc_sta_data =
  rc_reference_table :: "mmrc_table option"
  rc_active_capabilities :: mmrc_sta_capabilities
  rc_local_capabilities :: mmrc_sta_capabilities
  rc_next_update_time_ms :: nat

subsection \<open>Starting rate control\<close>

text \<open>The bandwidths up to the maximum, as a bit set; an unknown maximum fails an assertion.\<close>

definition bw_mask :: "nat \<Rightarrow> nat option" where
  "bw_mask width =
     (if width = 16 then Some 31 else if width = 8 then Some 15 else if width = 4 then Some 7
      else if width = 2 then Some 3 else if width = 1 then Some 1 else None)"

definition local_capabilities :: "rc_config \<Rightarrow> mmrc_sta_capabilities \<Rightarrow> mmrc_sta_capabilities option" where
  "local_capabilities cf caps = do {
     bandwidth \<leftarrow> bw_mask (cf_max_supported_bw cf);
     sgi \<leftarrow> (if cf_sgi_enabled cf then bw_mask (cf_max_supported_bw cf) else Some 0);
     Some (caps\<lparr>cap_bandwidth := bandwidth,
                cap_guard := (if cf_sgi_enabled cf then 3 else 1),
                cap_sgi_per_bw := sgi,
                cap_rates := or (or 255 (if cf_mcs8 cf then 256 else 0)) (if cf_mcs9 cf then 512 else 0),
                cap_spatial_streams := 1,
                cap_sta_flags := 1\<rparr>)
   }"

definition negotiate :: "rc_config \<Rightarrow> nat \<Rightarrow> nat \<Rightarrow> mmrc_sta_capabilities \<Rightarrow> mmrc_sta_capabilities" where
  "negotiate cf sgi_flags max_mcs caps =
     (let width = cf_operation_channel_width cf;
          supported_bws = (if cf_subbands_enabled cf then or width (width - 1) else width);
          sgi = and (cap_sgi_per_bw caps) sgi_flags
      in caps\<lparr>cap_bandwidth := and (cap_bandwidth caps) supported_bws,
              cap_rates := and (cap_rates caps) (or (2 ^ max_mcs) (2 ^ max_mcs - 1)),
              cap_sgi_per_bw := sgi,
              cap_guard := (if sgi = 0 then and (cap_guard caps) 1 else cap_guard caps)\<rparr>)"

definition umac_rc_start ::
  "rc_config \<Rightarrow> bool \<Rightarrow> nat \<Rightarrow> nat \<Rightarrow> nat \<Rightarrow> umac_rc_sta_data \<Rightarrow> umac_rc_sta_data option" where
  "umac_rc_start cf malloc_ok now sgi_flags max_mcs sta = do {
     local \<leftarrow> local_capabilities cf (rc_local_capabilities sta);
     let sta = sta\<lparr>rc_local_capabilities := local\<rparr>;
     ensure (max_mcs < 32);
     let caps = negotiate cf sgi_flags max_mcs local;
     if cap_bandwidth caps = 0 \<or> cap_rates caps = 0 then Some sta
     else do {
       let caps = caps\<lparr>cap_max_rates := 4, cap_max_retries := 2\<rparr>;
       let sta = sta\<lparr>rc_reference_table := None\<rparr>;
       ensure malloc_ok;
       tb \<leftarrow> mmrc_sta_init caps (cf_rssi cf);
       Some (sta\<lparr>rc_reference_table := Some tb, rc_active_capabilities := caps,
                 rc_next_update_time_ms := u32 (now + 100)\<rparr>)
     }
   }"

definition umac_rc_stop :: "umac_rc_sta_data \<Rightarrow> umac_rc_sta_data" where
  "umac_rc_stop sta = sta\<lparr>rc_reference_table := None\<rparr>"

subsection \<open>The rate table of a frame\<close>

definition override_rate :: "rc_config \<Rightarrow> mmrc_rate \<Rightarrow> mmrc_rate" where
  "override_rate cf r =
     (let r = (if 0 \<le> cf_override_tx_rate cf \<and> cf_override_tx_rate cf \<le> 9
               then r\<lparr>mr_rate := nat (cf_override_tx_rate cf)\<rparr> else r);
          r = (if cf_override_guard_interval cf > -1
               then r\<lparr>mr_guard := (if cf_override_guard_interval cf = 0 then MMRC_GUARD_SHORT else MMRC_GUARD_LONG)\<rparr>
               else r);
          bw = cf_override_bandwidth cf
      in if bw = 1 then r\<lparr>mr_bw := MMRC_BW_1MHZ\<rparr>
         else if bw = 2 then r\<lparr>mr_bw := MMRC_BW_2MHZ\<rparr>
         else if bw = 4 then r\<lparr>mr_bw := MMRC_BW_4MHZ\<rparr>
         else if bw = 8 then r\<lparr>mr_bw := MMRC_BW_8MHZ\<rparr>
         else r)"

definition apply_rate_table_overrides :: "rc_config \<Rightarrow> mmrc_rate list \<Rightarrow> mmrc_rate list" where
  "apply_rate_table_overrides cf rates = map (override_rate cf) rates"

definition use_mcs10 :: "mmrc_rate \<Rightarrow> mmrc_rate" where
  "use_mcs10 r = (if mr_rate r = 0 \<and> mr_bw r = MMRC_BW_1MHZ then r\<lparr>mr_rate := MMRC_MCS10\<rparr> else r)"

definition apply_mcs10_mode :: "rc_config \<Rightarrow> mmrc_rate list \<Rightarrow> mmrc_rate list" where
  "apply_mcs10_mode cf rates =
     (case rates of [] \<Rightarrow> []
      | r # rs \<Rightarrow>
        (case cf_mcs10_mode cf of
           MCS10_FORCED \<Rightarrow> use_mcs10 r # map use_mcs10 rs
         | MCS10_AUTO \<Rightarrow> r # map use_mcs10 rs
         | MCS10_DISABLED \<Rightarrow> r # rs))"

definition umac_rc_init_rate_table_mgmt :: "rc_config \<Rightarrow> bool \<Rightarrow> mmrc_rate list \<Rightarrow> mmrc_rate list option" where
  "umac_rc_init_rate_table_mgmt cf rts_required table = do {
     r0 \<leftarrow> fetch table 0; r1 \<leftarrow> fetch table 1; r2 \<leftarrow> fetch table 2; r3 \<leftarrow> fetch table 3;
     Some (apply_mcs10_mode cf (apply_rate_table_overrides cf
       [r0\<lparr>mr_attempts := 5, mr_rate := 0,
           mr_bw := (if cf_primary_channel_width cf = 1 then MMRC_BW_1MHZ else MMRC_BW_2MHZ),
           mr_guard := MMRC_GUARD_LONG, mr_ss := 0, mr_flags := (if rts_required then 1 else 0)\<rparr>,
        r1\<lparr>mr_rate := MMRC_MCS_UNUSED\<rparr>, r2\<lparr>mr_rate := MMRC_MCS_UNUSED\<rparr>, r3\<lparr>mr_rate := MMRC_MCS_UNUSED\<rparr>]))
   }"

definition umac_rc_init_rate_table_data ::
  "rc_config \<Rightarrow> nat \<Rightarrow> bool \<Rightarrow> nat \<Rightarrow> mmrc_rate list \<Rightarrow> umac_rc_sta_data
    \<Rightarrow> (mmrc_rate list \<times> umac_rc_sta_data) option" where
  "umac_rc_init_rate_table_data cf rnd rts_required frame_size table sta =
     (case rc_reference_table sta of
        None \<Rightarrow> do {
          rates \<leftarrow> umac_rc_init_rate_table_mgmt cf rts_required table;
          Some (rates, sta)
        }
      | Some tb \<Rightarrow> do {
          (rates, tb) \<leftarrow> mmrc_get_rates rnd tb frame_size;
          let rates = (if rts_required then map request_rts rates else rates);
          Some (apply_mcs10_mode cf (apply_rate_table_overrides cf rates), sta\<lparr>rc_reference_table := Some tb\<rparr>)
        })"

subsection \<open>Feedback and update\<close>

definition umac_rc_update :: "nat \<Rightarrow> umac_rc_sta_data \<Rightarrow> umac_rc_sta_data option" where
  "umac_rc_update now sta = do {
     sta \<leftarrow> (case rc_reference_table sta of
              None \<Rightarrow> Some sta
            | Some tb \<Rightarrow> do { tb \<leftarrow> mmrc_update tb; Some (sta\<lparr>rc_reference_table := Some tb\<rparr>) });
     Some (sta\<lparr>rc_next_update_time_ms := u32 (now + 100)\<rparr>)
   }"

definition feed_table :: "mmrc_rate list \<Rightarrow> bool \<Rightarrow> bool \<Rightarrow> umac_rc_sta_data \<Rightarrow> umac_rc_sta_data option" where
  "feed_table rate_table was_aggregated frame_acked sta =
     (case rc_reference_table sta of
        None \<Rightarrow> Some sta
      | Some tb \<Rightarrow> do {
          (tb, _) \<leftarrow> mmrc_feedback tb rate_table was_aggregated frame_acked;
          Some (sta\<lparr>rc_reference_table := Some tb\<rparr>)
        })"

definition umac_rc_feedback ::
  "nat \<Rightarrow> mmrc_rate list \<Rightarrow> nat \<Rightarrow> nat \<Rightarrow> umac_rc_sta_data \<Rightarrow> umac_rc_sta_data option" where
  "umac_rc_feedback now rate_table attempts_count status_flags sta = do {
     let frame_acked = (and status_flags 16 = 0);
     let was_aggregated = (and status_flags 128 \<noteq> 0);
     r0 \<leftarrow> fetch rate_table 0;
     if mr_attempts r0 = 0 then Some sta
     else if attempts_count = 0 then Some sta
     else do {
       sta \<leftarrow> feed_table rate_table was_aggregated frame_acked sta;
       if mmosal_time_has_passed now (rc_next_update_time_ms sta) then umac_rc_update now sta else Some sta
     }
   }"

subsection \<open>Statistics\<close>

record mmwlan_rc_stats =
  ws_n_entries :: nat
  ws_rate_info :: "nat list"
  ws_total_sent :: "nat list"
  ws_total_success :: "nat list"

definition rate_info_word :: "mmrc_rate \<Rightarrow> nat" where
  "rate_info_word r = or (or (mr_bw r) (mr_rate r * 16)) (mr_guard r * 256)"

text \<open>\<open>allocs\<close> says which of the four allocations succeed. The outer option is failure of the code, the
  inner one the pointer it returns.\<close>

definition umac_rc_get_rc_stats ::
  "bool \<times> bool \<times> bool \<times> bool \<Rightarrow> umac_rc_sta_data \<Rightarrow> mmwlan_rc_stats option option" where
  "umac_rc_get_rc_stats allocs sta =
     (case rc_reference_table sta of
        None \<Rightarrow> Some None
      | Some tb \<Rightarrow>
          if allocs \<noteq> (True, True, True, True) then Some None
          else do {
            let n = rows_from_sta_caps (tb_caps tb);
            (infos, sents, successes) \<leftarrow> foldM (\<lambda>i (infos, sents, successes). do {
                rate \<leftarrow> get_rate_row (tb_caps tb) i;
                infos \<leftarrow> store infos i (rate_info_word rate);
                st \<leftarrow> fetch (tb_table tb) i;
                sents \<leftarrow> store sents i (st_total_sent st);
                successes \<leftarrow> store successes i (st_total_success st);
                Some (infos, sents, successes)
              }) [0..<n] (replicate n 0, replicate n 0, replicate n 0);
            Some (Some \<lparr>ws_n_entries = n, ws_rate_info = infos, ws_total_sent = sents,
                        ws_total_success = successes\<rparr>)
          })"

subsection \<open>Negotiation\<close>

text \<open>The channel and chip widths rate control has throughput tables for, and an MCS limit of the S1G
  capabilities element.\<close>

definition width_ok :: "nat \<Rightarrow> bool" where
  "width_ok w \<longleftrightarrow> (\<exists>k < 4. w = 2 ^ k)"

definition rc_config_ok :: "rc_config \<Rightarrow> bool" where
  "rc_config_ok cf \<longleftrightarrow> width_ok (cf_max_supported_bw cf) \<and> width_ok (cf_operation_channel_width cf)"

lemma or_pow_mask: "or (2 ^ n) (2 ^ n - 1) = (mask (Suc n) :: nat)"
  unfolding mask_eq_exp_minus_1 [of n, symmetric] by (rule bit_eqI) (auto simp: bit_simps)

lemmas or_pow = or_pow_mask or_pow_mask [unfolded One_nat_def]

lemma bw_mask_pow: "k < 4 \<Longrightarrow> bw_mask (2 ^ k) = Some (mask (Suc k))"
  by (cases k; cases "k - 1"; cases "k - 2") (auto simp: bw_mask_def mask_eq_exp_minus_1 less_Suc_eq numeral_eq_Suc)

definition negotiated :: "rc_config \<Rightarrow> nat \<Rightarrow> nat \<Rightarrow> mmrc_sta_capabilities \<Rightarrow> bool" where
  "negotiated cf sgi_flags max_mcs caps \<longleftrightarrow>
     (\<forall>i. bit (cap_rates caps) i \<longleftrightarrow> i \<le> max_mcs \<and> (i < 8 \<or> i = 8 \<and> cf_mcs8 cf \<or> i = 9 \<and> cf_mcs9 cf))
     \<and> (\<forall>i. bit (cap_bandwidth caps) i \<longleftrightarrow> 2 ^ i \<le> cf_max_supported_bw cf
           \<and> (if cf_subbands_enabled cf then 2 ^ i \<le> cf_operation_channel_width cf
              else 2 ^ i = cf_operation_channel_width cf))
     \<and> (\<forall>i. bit (cap_sgi_per_bw caps) i \<longleftrightarrow>
           cf_sgi_enabled cf \<and> 2 ^ i \<le> cf_max_supported_bw cf \<and> bit sgi_flags i)
     \<and> cap_guard caps = (if cap_sgi_per_bw caps = 0 then 1 else 3)"

text \<open>Some bandwidth is common to the chip and the channel.\<close>

definition bandwidth_agrees :: "rc_config \<Rightarrow> bool" where
  "bandwidth_agrees cf \<longleftrightarrow> cf_subbands_enabled cf \<or> cf_operation_channel_width cf \<le> cf_max_supported_bw cf"

lemma local_capabilities_Some:
  assumes "width_ok (cf_max_supported_bw cf)"
  obtains k where "cf_max_supported_bw cf = 2 ^ k" "k < 4"
    "local_capabilities cf caps = Some (caps\<lparr>cap_bandwidth := mask (Suc k),
                cap_guard := (if cf_sgi_enabled cf then 3 else 1),
                cap_sgi_per_bw := (if cf_sgi_enabled cf then mask (Suc k) else 0),
                cap_rates := or (or 255 (if cf_mcs8 cf then 256 else 0)) (if cf_mcs9 cf then 512 else 0),
                cap_spatial_streams := 1,
                cap_sta_flags := 1\<rparr>)"
proof -
  obtain k where k: "cf_max_supported_bw cf = 2 ^ k" "k < 4" using assms by (auto simp: width_ok_def)
  show ?thesis
    by (rule that [OF k]) (simp add: local_capabilities_def k bw_mask_pow)
qed

lemma bit_rates:
  "bit (or (or 255 (if a then 256 else 0)) (if b then 512 else (0 :: nat))) i
    \<longleftrightarrow> i < 8 \<or> i = 8 \<and> a \<or> i = 9 \<and> b"
proof -
  have "(255 :: nat) = mask 8" "(256 :: nat) = 2 ^ 8" "(512 :: nat) = 2 ^ 9"
    by (simp_all add: mask_eq_exp_minus_1)
  then show ?thesis by (auto simp only: bit_or_iff bit_mask_iff bit_exp_iff bit_0_eq possible_bit_nat split: if_splits)
qed

lemma negotiate_ok:
  assumes "rc_config_ok cf" "local_capabilities cf caps0 = Some local"
    and caps_def: "caps = negotiate cf sgi_flags max_mcs local"
  shows "negotiated cf sgi_flags max_mcs caps"
    and "bandwidth_agrees cf \<longleftrightarrow> cap_bandwidth caps \<noteq> 0"
    and "cap_rates caps \<noteq> 0"
    and "cap_max_rates caps = cap_max_rates caps0"
proof -
  obtain k where k: "cf_max_supported_bw cf = 2 ^ k" "k < 4"
    and loc: "local = caps0\<lparr>cap_bandwidth := mask (Suc k),
                cap_guard := (if cf_sgi_enabled cf then 3 else 1),
                cap_sgi_per_bw := (if cf_sgi_enabled cf then mask (Suc k) else 0),
                cap_rates := or (or 255 (if cf_mcs8 cf then 256 else 0)) (if cf_mcs9 cf then 512 else 0),
                cap_spatial_streams := 1, cap_sta_flags := 1\<rparr>"
    using assms(1,2) local_capabilities_Some [of cf caps0] by (auto simp: rc_config_ok_def)
  obtain w where w: "cf_operation_channel_width cf = 2 ^ w" "w < 4"
    using assms(1) by (auto simp: rc_config_ok_def width_ok_def)
  have rates: "bit (cap_rates caps) i \<longleftrightarrow> i \<le> max_mcs \<and> (i < 8 \<or> i = 8 \<and> cf_mcs8 cf \<or> i = 9 \<and> cf_mcs9 cf)" for i
    by (simp add: caps_def negotiate_def loc or_pow bit_and_iff bit_rates bit_mask_iff less_Suc_eq_le
        conj_commute Let_def)
  have bw: "bit (cap_bandwidth caps) i \<longleftrightarrow> i \<le> k \<and> (if cf_subbands_enabled cf then i \<le> w else i = w)" for i
    by (simp add: caps_def negotiate_def loc w or_pow bit_and_iff bit_mask_iff bit_exp_iff less_Suc_eq_le Let_def)
  have sgi: "bit (cap_sgi_per_bw caps) i \<longleftrightarrow> cf_sgi_enabled cf \<and> i \<le> k \<and> bit sgi_flags i" for i
    by (simp add: caps_def negotiate_def loc bit_and_iff bit_mask_iff less_Suc_eq_le Let_def)
  have guard: "cap_guard caps = (if cap_sgi_per_bw caps = 0 then 1 else 3)"
    by (simp add: caps_def negotiate_def loc Let_def)
  show "negotiated cf sgi_flags max_mcs caps"
    using rates bw sgi guard by (simp add: negotiated_def k w)
  have "bit (cap_rates caps) 0" by (simp add: rates)
  then show "cap_rates caps \<noteq> 0" by (metis bit_0_eq bot_apply bot_bool_def)
  have "cap_bandwidth caps \<noteq> 0 \<longleftrightarrow> (\<exists>i. bit (cap_bandwidth caps) i)"
    by (metis bit_0_eq bit_eqI bot_apply bot_bool_def)
  also have "... \<longleftrightarrow> bandwidth_agrees cf" by (auto simp: bw bandwidth_agrees_def k w)
  finally show "bandwidth_agrees cf \<longleftrightarrow> cap_bandwidth caps \<noteq> 0" ..
  show "cap_max_rates caps = cap_max_rates caps0" by (simp add: caps_def negotiate_def loc Let_def)
qed

lemma less_by_bits: "(\<And>i. bit n i \<Longrightarrow> i < m) \<Longrightarrow> n < 2 ^ m" for n :: nat
  by (metis bit_take_bit_iff bit_eqI take_bit_nat_eq_self_iff)

lemma negotiated_caps_ok:
  assumes "rc_config_ok cf" "negotiated cf sgi_flags max_mcs caps" "cap_bandwidth caps \<noteq> 0" "cap_rates caps \<noteq> 0"
  shows "caps_ok (caps\<lparr>cap_max_rates := 4, cap_max_retries := 2\<rparr>)"
proof -
  obtain k where k: "cf_max_supported_bw cf = 2 ^ k" "k < 4"
    using assms(1) by (auto simp: rc_config_ok_def width_ok_def)
  have "cap_rates caps < 2 ^ 10" using assms(2) by (intro less_by_bits) (auto simp: negotiated_def)
  moreover have "cap_bandwidth caps < 2 ^ 4"
    using assms(2) k by (intro less_by_bits) (auto simp: negotiated_def)
  ultimately show ?thesis using assms(2-4) by (simp add: caps_ok_def negotiated_def)
qed

subsection \<open>The invariant\<close>

definition rc_ok :: "nat \<Rightarrow> umac_rc_sta_data \<Rightarrow> bool" where
  "rc_ok n sta \<longleftrightarrow> (\<forall>tb. rc_reference_table sta = Some tb
     \<longrightarrow> mmrc_inv n tb \<and> tb_caps tb = rc_active_capabilities sta)"

lemma rc_ok_mono: "rc_ok m sta \<Longrightarrow> m \<le> n \<Longrightarrow> rc_ok n sta"
  using mmrc_inv_mono by (auto simp: rc_ok_def)

lemma umac_rc_start_ok:
  assumes cf: "rc_config_ok cf" and mcs: "max_mcs < 32"
  shows "\<exists>sta' local. umac_rc_start cf True now sgi_flags max_mcs sta = Some sta'
    \<and> (if bandwidth_agrees cf
       then negotiated cf sgi_flags max_mcs (rc_active_capabilities sta')
         \<and> caps_ok (rc_active_capabilities sta')
         \<and> rc_ok 0 sta' \<and> rc_reference_table sta' \<noteq> None \<and> rc_next_update_time_ms sta' = u32 (now + 100)
       else sta' = sta\<lparr>rc_local_capabilities := local\<rparr>)"
proof -
  obtain local where local: "local_capabilities cf (rc_local_capabilities sta) = Some local"
    using cf local_capabilities_Some [of cf "rc_local_capabilities sta"] by (auto simp: rc_config_ok_def)
  define caps where "caps = negotiate cf sgi_flags max_mcs local"
  note neg = negotiate_ok [OF cf local caps_def]
  show ?thesis
  proof (cases "bandwidth_agrees cf")
    case False
    then have "umac_rc_start cf True now sgi_flags max_mcs sta = Some (sta\<lparr>rc_local_capabilities := local\<rparr>)"
      using neg(2) mcs by (simp add: umac_rc_start_def local caps_def [symmetric] Let_def)
    then show ?thesis using False by auto
  next
    case True
    let ?caps = "caps\<lparr>cap_max_rates := 4, cap_max_retries := 2\<rparr>"
    have ok: "caps_ok ?caps" using negotiated_caps_ok [OF cf neg(1)] neg(2,3) True by simp
    from mmrc_sta_init_ok [OF this]
    obtain tb where tb: "mmrc_sta_init ?caps (cf_rssi cf) = Some tb" "mmrc_inv 0 tb" "tb_caps tb = ?caps" by blast
    have "umac_rc_start cf True now sgi_flags max_mcs sta
        = Some (sta\<lparr>rc_local_capabilities := local, rc_reference_table := Some tb,
            rc_active_capabilities := ?caps, rc_next_update_time_ms := u32 (now + 100)\<rparr>)"
      using neg(2,3) True mcs tb(1) by (simp add: umac_rc_start_def local caps_def [symmetric] Let_def)
    moreover have "negotiated cf sgi_flags max_mcs ?caps" using neg(1) by (simp add: negotiated_def)
    ultimately show ?thesis using True ok tb(2,3) by (simp add: rc_ok_def)
  qed
qed

lemma fetch_upto_4: "length table = 4 \<Longrightarrow>
    \<exists>r0 r1 r2 r3. fetch table 0 = Some r0 \<and> fetch table 1 = Some r1 \<and> fetch table 2 = Some r2 \<and> fetch table 3 = Some r3"
  by simp

lemma umac_rc_init_rate_table_mgmt_ok:
  "length table = 4 \<Longrightarrow> \<exists>rates. umac_rc_init_rate_table_mgmt cf rts table = Some rates"
  by (simp add: umac_rc_init_rate_table_mgmt_def)

lemma umac_rc_init_rate_table_data_ok:
  assumes "rc_ok n sta" "length table = 4" "0 < frame_size"
    and "\<forall>tb. rc_reference_table sta = Some tb \<longrightarrow> 0 < tb_num_lookaround_candidates tb
           \<longrightarrow> rnd < tb_num_lookaround_candidates tb"
  shows "\<exists>rates sta'. umac_rc_init_rate_table_data cf rnd rts frame_size table sta = Some (rates, sta') \<and> rc_ok n sta'"
proof (cases "rc_reference_table sta")
  case None
  then show ?thesis
    using assms(1,2) umac_rc_init_rate_table_mgmt_ok [of table cf rts]
    by (auto simp: umac_rc_init_rate_table_data_def)
next
  case (Some tb)
  then have "mmrc_inv n tb" using assms(1) by (simp add: rc_ok_def)
  from mmrc_get_rates_ok [OF this assms(3), of rnd] assms(4) Some
  obtain rates tb' where "mmrc_get_rates rnd tb frame_size = Some (rates, tb')" "mmrc_inv n tb'" "tb_caps tb' = tb_caps tb"
    by auto
  then show ?thesis using Some assms(1) by (auto simp: umac_rc_init_rate_table_data_def rc_ok_def)
qed

lemma umac_rc_update_ok:
  assumes "rc_ok n sta" "n < 2147483647"
  shows "\<exists>sta'. umac_rc_update now sta = Some sta' \<and> rc_ok (Suc n) sta'"
proof (cases "rc_reference_table sta")
  case None
  then show ?thesis by (simp add: umac_rc_update_def rc_ok_def)
next
  case (Some tb)
  then have "mmrc_inv n tb" "tb_caps tb = rc_active_capabilities sta" using assms(1) by (simp_all add: rc_ok_def)
  with mmrc_update_ok [OF this(1) assms(2)] Some show ?thesis
    by (auto simp: umac_rc_update_def rc_ok_def)
qed

lemma feed_table_ok:
  assumes "rc_ok n sta" "\<forall>r \<in> set rate_table. rate_bits r"
  shows "\<exists>sta'. feed_table rate_table agg acked sta = Some sta' \<and> rc_ok n sta'"
proof (cases "rc_reference_table sta")
  case None
  then show ?thesis using assms(1) by (simp add: feed_table_def)
next
  case (Some tb)
  then have tb: "mmrc_inv n tb" "tb_caps tb = rc_active_capabilities sta" using assms(1) by (simp_all add: rc_ok_def)
  from mmrc_feedback_ok [OF tb(1) assms(2)] obtain table rates' where
    "mmrc_feedback tb rate_table agg acked = Some (tb\<lparr>tb_table := table\<rparr>, rates')"
    "mmrc_inv n (tb\<lparr>tb_table := table\<rparr>)" by blast
  then show ?thesis using Some tb by (simp add: feed_table_def rc_ok_def)
qed

lemma umac_rc_feedback_ok:
  assumes "rc_ok n sta" "n < 2147483647" "\<forall>r \<in> set rate_table. rate_bits r" "rate_table \<noteq> []"
  shows "\<exists>sta'. umac_rc_feedback now rate_table attempts flags sta = Some sta' \<and> rc_ok (Suc n) sta'"
proof -
  have r0: "fetch rate_table 0 = Some (hd rate_table)" using assms(4) by (simp add: hd_conv_nth)
  obtain sta1 where sta1: "feed_table rate_table (and flags 128 \<noteq> 0) (and flags 16 = 0) sta = Some sta1" "rc_ok n sta1"
    using feed_table_ok [OF assms(1,3)] by blast
  from umac_rc_update_ok [OF this(2) assms(2), of now]
  show ?thesis
    using sta1 assms(1) rc_ok_mono [of n _ "Suc n"] r0 by (simp add: umac_rc_feedback_def Let_def)
qed

text \<open>
  The life of a station: rate control is started (again), frames are given rate tables, the driver
  reports transmissions, rate control is stopped. A start says whether the allocation of the table succeeds.
\<close>

datatype rc_op =
    Rc_start rc_config bool nat nat nat
  | Rc_data rc_config "nat \<Rightarrow> nat" bool nat "mmrc_rate list"
  | Rc_feedback nat "mmrc_rate list" nat nat
  | Rc_stop

fun lookaround_candidates :: "mmrc_table option \<Rightarrow> nat" where
  "lookaround_candidates None = 0"
| "lookaround_candidates (Some tb) = tb_num_lookaround_candidates tb"

fun rc_step :: "rc_op \<Rightarrow> umac_rc_sta_data \<Rightarrow> umac_rc_sta_data option" where
  "rc_step (Rc_start cf malloc_ok now sgi_flags max_mcs) sta = umac_rc_start cf malloc_ok now sgi_flags max_mcs sta"
| "rc_step (Rc_data cf random rts frame_size table) sta =
     map_option snd (umac_rc_init_rate_table_data cf (random (lookaround_candidates (rc_reference_table sta)))
       rts frame_size table sta)"
| "rc_step (Rc_feedback now table attempts flags) sta = umac_rc_feedback now table attempts flags sta"
| "rc_step Rc_stop sta = Some (umac_rc_stop sta)"

text \<open>The inputs the code relies on: widths up to 8 MHz (the throughput tables have no row for 16 MHz), an MCS limit
  within the assertion of \<open>umac_rc_start\<close>, rate tables of four entries, a frame that is not empty, random numbers below
  their bound and feedback whose fields fit the bit fields of \<open>struct mmrc_rate\<close>.\<close>

fun rc_op_ok :: "rc_op \<Rightarrow> bool" where
  "rc_op_ok (Rc_start cf malloc_ok now sgi_flags max_mcs) \<longleftrightarrow> rc_config_ok cf \<and> max_mcs < 32"
| "rc_op_ok (Rc_data cf random rts frame_size table) \<longleftrightarrow> length table = 4 \<and> 0 < frame_size \<and> (\<forall>m > 0. random m < m)"
| "rc_op_ok (Rc_feedback now table attempts flags) \<longleftrightarrow> length table = 4 \<and> list_all rate_bits table"
| "rc_op_ok Rc_stop \<longleftrightarrow> True"

definition rc_idle :: umac_rc_sta_data where
  "rc_idle = (let none = \<lparr>cap_max_rates = 0, cap_max_retries = 0, cap_bandwidth = 0, cap_spatial_streams = 0,
       cap_rates = 0, cap_guard = 0, cap_sta_flags = 0, cap_sgi_per_bw = 0\<rparr>
     in \<lparr>rc_reference_table = None, rc_active_capabilities = none, rc_local_capabilities = none,
         rc_next_update_time_ms = 0\<rparr>)"

text \<open>An operation in which no allocation fails.\<close>

fun op_allocates :: "rc_op \<Rightarrow> bool" where
  "op_allocates (Rc_start cf malloc_ok now sgi_flags max_mcs) \<longleftrightarrow> malloc_ok"
| "op_allocates (Rc_data cf random rts frame_size table) \<longleftrightarrow> True"
| "op_allocates (Rc_feedback now table attempts flags) \<longleftrightarrow> True"
| "op_allocates Rc_stop \<longleftrightarrow> True"

lemma umac_rc_start_malloc_fails:
  "umac_rc_start cf False now sgi_flags max_mcs sta = Some sta' \<Longrightarrow>
    umac_rc_start cf True now sgi_flags max_mcs sta = Some sta'"
  by (auto simp: umac_rc_start_def Let_def split: bind_splits if_splits)

lemma rc_step_ok:
  assumes "rc_ok n sta" "rc_op_ok op" "n < 2147483647"
  shows "case rc_step op sta of None \<Rightarrow> \<not> op_allocates op | Some sta' \<Rightarrow> rc_ok (Suc n) sta'"
proof (cases op)
  case (Rc_start cf malloc_ok now sgi_flags max_mcs)
  with assms(2) umac_rc_start_ok [of cf max_mcs now sgi_flags sta]
  obtain sta' local where sta': "umac_rc_start cf True now sgi_flags max_mcs sta = Some sta'"
      "rc_ok 0 sta' \<or> sta' = sta\<lparr>rc_local_capabilities := local\<rparr>"
    by (auto split: if_splits)
  moreover have "rc_ok (Suc n) (sta\<lparr>rc_local_capabilities := local\<rparr>)"
    using rc_ok_mono [OF assms(1), of "Suc n"] by (simp add: rc_ok_def)
  ultimately have "rc_ok (Suc n) sta'" using rc_ok_mono [of 0 sta' "Suc n"] by blast
  then show ?thesis
    using Rc_start sta'(1) umac_rc_start_malloc_fails [of cf now sgi_flags max_mcs sta]
    by (cases malloc_ok) (auto split: option.split)
next
  case (Rc_data cf random rts frame_size table)
  with assms(1,2) umac_rc_init_rate_table_data_ok [of n sta table frame_size
      "random (lookaround_candidates (rc_reference_table sta))" cf rts]
  show ?thesis using rc_ok_mono [of n _ "Suc n"] by fastforce
next
  case (Rc_feedback now table attempts flags)
  then have "table \<noteq> []" "\<forall>r \<in> set table. rate_bits r" using assms(2) by (auto simp: list_all_iff)
  from umac_rc_feedback_ok [OF assms(1,3) this(2,1), of now attempts flags] Rc_feedback show ?thesis by auto
next
  case Rc_stop
  then show ?thesis by (simp add: umac_rc_stop_def rc_ok_def)
qed

lemma rc_steps_ok:
  assumes "rc_ok n sta" "list_all rc_op_ok ops" "n + length ops \<le> 2147483647"
  shows "case foldM rc_step ops sta of None \<Rightarrow> \<not> list_all op_allocates ops
    | Some sta' \<Rightarrow> rc_ok (n + length ops) sta'"
  using assms
proof (induction ops arbitrary: n sta)
  case Nil
  then show ?case by simp
next
  case (Cons op ops)
  then have step: "case rc_step op sta of None \<Rightarrow> \<not> op_allocates op | Some sta' \<Rightarrow> rc_ok (Suc n) sta'"
    using rc_step_ok [of n sta op] by simp
  show ?case
  proof (cases "rc_step op sta")
    case None
    then show ?thesis using step by simp
  next
    case (Some sta1)
    then show ?thesis using step Cons.IH [of "Suc n" sta1] Cons.prems by (auto split: option.splits)
  qed
qed

subsection \<open>Properties\<close>

lemma or_shift_add: "a < 2 ^ k \<Longrightarrow> or a (b * 2 ^ k) = a + b * (2 ^ k :: nat)" for a b :: nat
  by (rule disjunctive_add [symmetric])
    (auto simp: bit_simps push_bit_eq_mult [symmetric] dest: bit_lt)


text \<open>Starting rate control negotiates capabilities: with widths the throughput tables cover, the station gets
  a fresh, consistent table for exactly the MCSs up to the peer's limit that the chip has, the bandwidths the chip and
  the channel share (all narrower ones only when sub-bands are enabled), the short guard interval
  only where both sides have it; when no bandwidth is shared nothing but the local capabilities changes, so
  a table of an earlier association stays in use.\<close>

theorem umac_rc_start_negotiates:
  assumes "rc_config_ok cf" "max_mcs < 32"
  shows "\<exists>sta' local. umac_rc_start cf True now sgi_flags max_mcs sta = Some sta'
    \<and> (if bandwidth_agrees cf
       then negotiated cf sgi_flags max_mcs (rc_active_capabilities sta')
         \<and> caps_ok (rc_active_capabilities sta')
         \<and> rc_ok 0 sta' \<and> rc_reference_table sta' \<noteq> None \<and> rc_next_update_time_ms sta' = u32 (now + 100)
       else sta' = sta\<lparr>rc_local_capabilities := local\<rparr>)"
  by (rule umac_rc_start_ok [OF assms])

definition sample_config :: rc_config where
  "sample_config = \<lparr>cf_max_supported_bw = 8, cf_sgi_enabled = True, cf_subbands_enabled = True, cf_mcs8 = True,
     cf_mcs9 = False, cf_operation_channel_width = 4, cf_primary_channel_width = 1, cf_override_tx_rate = -1,
     cf_override_bandwidth = -1, cf_override_guard_interval = -1, cf_mcs10_mode = MCS10_AUTO, cf_rssi = -60\<rparr>"

lemma sample_config_ok: "rc_config_ok sample_config" "bandwidth_agrees sample_config"
  by (auto simp: rc_config_ok_def width_ok_def sample_config_def bandwidth_agrees_def
      intro: exI [of _ 3] exI [of _ 2])

theorem umac_rc_start_negotiates_witness:
  "rc_config_ok sample_config
    \<and> (\<exists>sta'. umac_rc_start sample_config True 1000 7 7 rc_idle = Some sta' \<and> rc_ok 0 sta'
        \<and> rc_reference_table sta' \<noteq> None \<and> rc_next_update_time_ms sta' = u32 1100)"
  using umac_rc_start_negotiates [OF sample_config_ok(1), of 7 1000 7 rc_idle] sample_config_ok by auto

text \<open>C8. The UMAC's rate control fails only by its own assertion on the allocation of the table: from an idle
  station, any sequence of starts, requests for a frame's rate table, transmission reports and stops with the inputs
  of \<open>rc_op_ok\<close> (channels up to 8 MHz: at 16 MHz \<open>mmrc.c\<close> reads outside of its tables) runs to its end unless the
  allocation of some start fails, no access leaves an array and no other assertion fails, and the table, when there is
  one, stays consistent and belongs to the active capabilities.\<close>

theorem umac_rc_never_fails:
  assumes "list_all rc_op_ok ops" "length ops \<le> 2147483647"
  shows "case foldM rc_step ops rc_idle of None \<Rightarrow> \<not> list_all op_allocates ops
    | Some sta \<Rightarrow> rc_ok (length ops) sta"
proof -
  have "rc_ok 0 rc_idle" by (simp add: rc_ok_def rc_idle_def Let_def)
  from rc_steps_ok [OF this assms(1)] assms(2) show ?thesis by (simp only: add_0)
qed

definition sample_rc_ops :: "rc_op list" where
  "sample_rc_ops = [Rc_start sample_config True 0 7 7,
      Rc_data sample_config (\<lambda>_. 0) True 1500 (replicate 4 mmrc_rate_zero),
      Rc_feedback 200 (replicate 4 (mmrc_rate_zero\<lparr>mr_attempts := 1\<rparr>)) 4 0, Rc_stop]"

lemma sample_rc_ops_ok: "list_all rc_op_ok sample_rc_ops" "length sample_rc_ops = 4"
  "list_all op_allocates sample_rc_ops"
  using sample_config_ok(1) by (simp_all add: sample_rc_ops_def rate_bits_def mmrc_rate_zero_def list_all_iff)

theorem umac_rc_never_fails_witness:
  "\<exists>sta. foldM rc_step sample_rc_ops rc_idle = Some sta \<and> rc_ok 4 sta"
  using umac_rc_never_fails [OF sample_rc_ops_ok(1)] sample_rc_ops_ok by (auto split: option.splits)

text \<open>With MCS10 in use on retries, feedback credits the wrong row: a 1 MHz MCS0 retry of a chain is sent as
  MCS10, which no row of the table stands for, and the feedback for it goes to the row of the highest MCS of the
  station at 1 MHz instead of the row of MCS0.\<close>

theorem mcs10_feedback_credits_highest_rate:
  assumes "caps_ok caps" "cf_mcs10_mode cf = MCS10_AUTO"
    and "0 < i" "i < length rates" "mr_rate (rates ! i) = 0" "mr_bw (rates ! i) = MMRC_BW_1MHZ"
      "mr_guard (rates ! i) < 2"
    and "bit (cap_rates caps) m" "\<forall>k > m. \<not> bit (cap_rates caps) k"
  shows "mr_rate (apply_mcs10_mode cf rates ! i) = MMRC_MCS10
    \<and> rate_update_index caps (apply_mcs10_mode cf rates ! i)
        = Some ((apply_mcs10_mode cf rates ! i)\<lparr>mr_index := row_index caps ((rates ! i)\<lparr>mr_rate := m\<rparr>)\<rparr>)"
proof -
  let ?r = "apply_mcs10_mode cf rates ! i"
  obtain r0 rs where rates: "rates = r0 # rs" using assms(4) by (cases rates) auto
  have r: "?r = (rates ! i)\<lparr>mr_rate := MMRC_MCS10\<rparr>"
    using assms(2-6) by (simp add: apply_mcs10_mode_def rates use_mcs10_def nth_Cons')
  have m: "m < 10" using bit_caps(1) [OF assms(1,8)] .
  have "rank (cap_rates caps) b = rank (cap_rates caps) (Suc m)" if "Suc m \<le> b" for b
    using that assms(9) by (induction b) (auto simp: rank_Suc le_Suc_eq)
  from this [of 11] m have "bit_index (cap_rates caps) 10 = bit_index (cap_rates caps) m"
    by (simp add: bit_index_def bit_index_loop_rank)
  then have "row_index caps ?r = row_index caps ((rates ! i)\<lparr>mr_rate := m\<rparr>)"
    by (simp add: r row_index_def)
  moreover have "rate_update_index caps ?r = Some (?r\<lparr>mr_index := row_index caps ?r\<rparr>)"
    using assms(6,7) by (intro rate_update_index_ok [OF assms(1)]) (simp_all add: r)
  ultimately show ?thesis by (simp add: r)
qed

theorem mcs10_feedback_credits_highest_rate_witness:
  "row_index sample_caps (mmrc_rate_zero\<lparr>mr_rate := 7\<rparr>) \<noteq> row_index sample_caps mmrc_rate_zero
    \<and> rate_update_index sample_caps (apply_mcs10_mode sample_config (replicate 4 mmrc_rate_zero) ! 3)
      = Some ((apply_mcs10_mode sample_config (replicate 4 mmrc_rate_zero) ! 3)
          \<lparr>mr_index := row_index sample_caps (mmrc_rate_zero\<lparr>mr_rate := 7\<rparr>)\<rparr>)"
proof -
  have "(255 :: nat) = mask 8" by (simp add: mask_eq_exp_minus_1)
  then have bits: "bit (cap_rates sample_caps) i \<longleftrightarrow> i < 8" for i
    by (simp only: sample_caps_def mmrc_sta_capabilities.simps bit_mask_iff possible_bit_nat) simp
  have "bit_index (cap_rates sample_caps) 7 = 7" "bit_index (cap_rates sample_caps) 0 = 0"
    using bit_index_rank [of "cap_rates sample_caps" 7] bit_index_rank [of "cap_rates sample_caps" 0] bits
    by (simp_all add: rank_def upt_rec)
  moreover have "0 < bit_count (cap_guard sample_caps)" "0 < bit_count (cap_bandwidth sample_caps)"
    using bit_count_bounds [OF sample_caps_ok] by simp_all
  ultimately have "row_index sample_caps (mmrc_rate_zero\<lparr>mr_rate := 7\<rparr>) \<noteq> row_index sample_caps mmrc_rate_zero"
    by (simp add: row_index_def mmrc_rate_zero_def)
  moreover have "cf_mcs10_mode sample_config = MCS10_AUTO" by (simp add: sample_config_def)
  ultimately show ?thesis
    using mcs10_feedback_credits_highest_rate [OF sample_caps_ok, of sample_config 3 "replicate 4 mmrc_rate_zero" 7] bits
    by (simp add: mmrc_rate_zero_def del: replicate.simps)
qed

text \<open>The statistics reported to the user describe the table: when the allocations succeed there is an entry for
  every row, whose packed word gives the row's bandwidth, MCS and guard interval and whose totals are the row's; when one
  fails, or rate control is not running, there are none and the code still ends normally.\<close>

theorem umac_rc_stats_describe_table:
  assumes "rc_ok n sta"
  shows "(case rc_reference_table sta of
      None \<Rightarrow> umac_rc_get_rc_stats allocs sta = Some None
    | Some tb \<Rightarrow>
        if allocs \<noteq> (True, True, True, True) then umac_rc_get_rc_stats allocs sta = Some None
        else (\<exists>stats. umac_rc_get_rc_stats allocs sta = Some (Some stats)
          \<and> ws_n_entries stats = rows_from_sta_caps (tb_caps tb)
          \<and> (\<forall>i < ws_n_entries stats. \<exists>r. get_rate_row (tb_caps tb) i = Some r
              \<and> ws_rate_info stats ! i mod 16 = mr_bw r
              \<and> ws_rate_info stats ! i div 16 mod 16 = mr_rate r
              \<and> ws_rate_info stats ! i div 256 = mr_guard r
              \<and> ws_total_sent stats ! i = st_total_sent (tb_table tb ! i)
              \<and> ws_total_success stats ! i = st_total_success (tb_table tb ! i))))"
proof (cases "rc_reference_table sta")
  case None
  then show ?thesis by (simp add: umac_rc_get_rc_stats_def)
next
  case (Some tb)
  then have tb: "caps_ok (tb_caps tb)" "length (tb_table tb) = rows_from_sta_caps (tb_caps tb)"
    using assms by (auto simp: rc_ok_def mmrc_inv_def rates_ok_def)
  let ?n = "rows_from_sta_caps (tb_caps tb)"
  let ?f = "\<lambda>i (infos, sents, successes). do {
                rate \<leftarrow> get_rate_row (tb_caps tb) i;
                infos \<leftarrow> store infos i (rate_info_word rate);
                st \<leftarrow> fetch (tb_table tb) i;
                sents \<leftarrow> store sents i (st_total_sent st);
                successes \<leftarrow> store successes i (st_total_success st);
                Some (infos, sents, successes)
              }"
  define P where "P k = (\<lambda>(infos, sents, successes). length infos = ?n \<and> length sents = ?n \<and> length successes = ?n
    \<and> (\<forall>i < k. \<exists>r. get_rate_row (tb_caps tb) i = Some r \<and> rate_fits (tb_caps tb) r \<and> infos ! i = rate_info_word r
        \<and> sents ! i = st_total_sent (tb_table tb ! i) \<and> successes ! i = st_total_success (tb_table tb ! i)))"
    for k
  have "\<exists>s'. foldM ?f [0..<?n] (replicate ?n 0, replicate ?n 0, replicate ?n 0) = Some s' \<and> P ?n s'"
  proof (rule foldM_upt_invariant)
    show "P 0 (replicate ?n 0, replicate ?n 0, replicate ?n 0)" by (simp add: P_def)
    fix i s assume i: "i < ?n" and P: "P i s"
    obtain r where r: "get_rate_row (tb_caps tb) i = Some r" "rate_fits (tb_caps tb) r"
      using get_rate_row_fits [OF tb(1) i] .
    obtain a b c where s: "s = (a, b, c)" by (cases s)
    show "\<exists>s'. ?f i s = Some s' \<and> P (Suc i) s'"
      using P r i tb(2) by (auto simp: s P_def nth_list_update less_Suc_eq)
  qed
  then obtain a b c where abc: "foldM ?f [0..<?n] (replicate ?n 0, replicate ?n 0, replicate ?n 0) = Some (a, b, c)"
      "P ?n (a, b, c)" by auto
  have word: "rate_info_word r mod 16 = mr_bw r" "rate_info_word r div 16 mod 16 = mr_rate r"
      "rate_info_word r div 256 = mr_guard r" if "rate_fits (tb_caps tb) r" for r
  proof -
    have "or (mr_bw r) (mr_rate r * 16) = mr_bw r + mr_rate r * 16"
      using that by (intro or_shift_add [of _ 4, simplified]) (auto simp: rate_fits_def)
    moreover have "or (mr_bw r + mr_rate r * 16) (mr_guard r * 256) = mr_bw r + mr_rate r * 16 + mr_guard r * 256"
      using that by (intro or_shift_add [of _ 8, simplified]) (auto simp: rate_fits_def)
    ultimately have word: "rate_info_word r = mr_bw r + 16 * (mr_rate r + 16 * mr_guard r)"
      by (simp add: rate_info_word_def)
    have bounds: "mr_bw r < 16" "mr_rate r < 16" using that by (auto simp: rate_fits_def)
    have div: "rate_info_word r div 16 = mr_rate r + 16 * mr_guard r"
      using bounds(1) by (simp add: word)
    have low: "rate_info_word r mod 16 = mr_bw r"
      unfolding word mod_mult_self2 using bounds(1) by simp
    have "rate_info_word r div 256 = rate_info_word r div 16 div 16" by (simp add: div_mult2_eq [symmetric])
    then show "rate_info_word r mod 16 = mr_bw r" "rate_info_word r div 16 mod 16 = mr_rate r"
        "rate_info_word r div 256 = mr_guard r"
      using bounds by (simp_all add: div low)
  qed
  show ?thesis
  proof (cases "allocs = (True, True, True, True)")
    case False
    then show ?thesis using Some by (auto simp: umac_rc_get_rc_stats_def)
  next
    case True
    then have "umac_rc_get_rc_stats allocs sta = Some (Some \<lparr>ws_n_entries = ?n, ws_rate_info = a,
        ws_total_sent = b, ws_total_success = c\<rparr>)"
      using Some abc(1) by (simp add: umac_rc_get_rc_stats_def Let_def)
    moreover have "\<forall>i < ?n. \<exists>r. get_rate_row (tb_caps tb) i = Some r
        \<and> a ! i mod 16 = mr_bw r \<and> a ! i div 16 mod 16 = mr_rate r \<and> a ! i div 256 = mr_guard r
        \<and> b ! i = st_total_sent (tb_table tb ! i) \<and> c ! i = st_total_success (tb_table tb ! i)"
      using abc(2) word unfolding P_def prod.case by metis
    ultimately show ?thesis using Some True by simp
  qed
qed

theorem umac_rc_stats_describe_table_witness:
  "\<exists>sta stats. umac_rc_start sample_config True 0 7 7 rc_idle = Some sta \<and> rc_ok 0 sta
    \<and> umac_rc_get_rc_stats (True, True, True, True) sta = Some (Some stats)"
proof -
  obtain sta tb where sta: "umac_rc_start sample_config True 0 7 7 rc_idle = Some sta" "rc_ok 0 sta"
      "rc_reference_table sta = Some tb"
    using umac_rc_start_ok [OF sample_config_ok(1), of 7 0 7 rc_idle] sample_config_ok(2) by auto
  from umac_rc_stats_describe_table [OF sta(2), of "(True, True, True, True)"] sta show ?thesis by auto
qed

end
