(* ===== verification/Chain.thy ===== *)
theory Chain
  imports Prelude
begin

section \<open>Intrusive linked lists\<close>

text \<open>
  The queues of the code link their elements through a \<open>next\<close> member. \<open>links\<close> maps the address of every
  live element to its \<open>next\<close> pointer; reading or writing the member of \<open>NULL\<close> or of an element that
  is not live is \<open>None\<close>. \<open>seg h p as q\<close> says that following the pointers from \<open>p\<close> one passes
  through the elements \<open>as\<close> and arrives at \<open>q\<close>.
\<close>

type_synonym ptr = "nat option"
type_synonym links = "nat \<Rightarrow> ptr option"

definition load_next :: "links \<Rightarrow> ptr \<Rightarrow> ptr option" where
  "load_next h p = (case p of None \<Rightarrow> None | Some a \<Rightarrow> h a)"

definition store_next :: "links \<Rightarrow> ptr \<Rightarrow> ptr \<Rightarrow> links option" where
  "store_next h p v = (case p of None \<Rightarrow> None | Some a \<Rightarrow> if h a = None then None else Some (h(a \<mapsto> v)))"

fun seg :: "links \<Rightarrow> ptr \<Rightarrow> nat list \<Rightarrow> ptr \<Rightarrow> bool" where
  "seg h p [] q \<longleftrightarrow> p = q"
| "seg h p (a # as) q \<longleftrightarrow> p = Some a \<and> (\<exists>n. h a = Some n \<and> seg h n as q)"

abbreviation (input) linked :: "links \<Rightarrow> ptr \<Rightarrow> nat list \<Rightarrow> bool" where
  "linked h p as \<equiv> seg h p as None"

lemma load_next_simps [simp]:
  "load_next h None = None" "load_next h (Some a) = h a"
  by (simp_all add: load_next_def)

lemma store_next_simps [simp]:
  "store_next h None v = None" "h a = Some n \<Longrightarrow> store_next h (Some a) v = Some (h(a \<mapsto> v))"
  by (simp_all add: store_next_def)

lemma store_next_dom: "a \<in> dom h \<Longrightarrow> store_next h (Some a) v = Some (h(a \<mapsto> v))"
  by auto

lemma seg_append: "seg h p (as @ bs) q \<longleftrightarrow> (\<exists>r. seg h p as r \<and> seg h r bs q)"
  by (induction as arbitrary: p) auto

lemma seg_frame [simp]: "a \<notin> set as \<Longrightarrow> seg (h(a := v)) p as q = seg h p as q"
  by (induction as arbitrary: p) auto

lemma seg_frame_set: "(\<And>a. a \<in> set as \<Longrightarrow> h a = h' a) \<Longrightarrow> seg h p as q = seg h' p as q"
  by (induction as arbitrary: p) auto

lemma seg_dom: "seg h p as q \<Longrightarrow> set as \<subseteq> dom h"
  by (induction as arbitrary: p) auto

lemma linked_None [simp]: "linked h None as \<longleftrightarrow> as = []"
  by (cases as) auto

lemma linked_Some: "linked h (Some a) as \<longleftrightarrow> (\<exists>n bs. as = a # bs \<and> h a = Some n \<and> linked h n bs)"
  by (cases as) auto

lemma linked_unique: "linked h p as \<Longrightarrow> linked h p bs \<Longrightarrow> as = bs"
  by (induction as arbitrary: p bs) (auto simp: linked_Some)

lemma linked_distinct: "linked h p as \<Longrightarrow> distinct as"
proof (induction as arbitrary: p)
  case Nil
  then show ?case by simp
next
  case (Cons a as)
  then obtain n where n: "p = Some a" "h a = Some n" "linked h n as" by auto
  have "a \<notin> set as"
  proof
    assume "a \<in> set as"
    then obtain xs ys where as: "as = xs @ a # ys" by (auto simp: in_set_conv_decomp)
    then have "linked h n ys" using n by (auto simp: seg_append)
    then have "as = ys" using n(3) linked_unique by blast
    then show False using as by simp
  qed
  then show ?case using Cons.IH n(3) by simp
qed

lemma linked_head: "linked h p as \<Longrightarrow> p = (if as = [] then None else Some (hd as))"
  by (cases as) auto

lemma linked_split:
  assumes "linked h p as" "a \<in> set as"
  obtains xs ys n where "as = xs @ a # ys" "seg h p xs (Some a)" "h a = Some n" "linked h n ys"
    "a \<notin> set xs" "a \<notin> set ys"
proof -
  obtain xs ys where as: "as = xs @ a # ys" using assms(2) by (auto simp: in_set_conv_decomp)
  then obtain n where "seg h p xs (Some a)" "h a = Some n" "linked h n ys"
    using assms(1) by (auto simp: seg_append)
  moreover have "a \<notin> set xs" "a \<notin> set ys" using linked_distinct [OF assms(1)] as by auto
  ultimately show ?thesis using as that by blast
qed

text \<open>Appending behind the last element.\<close>

lemma linked_append:
  assumes "linked h p as" "as \<noteq> []" "b \<notin> set as" "h b \<noteq> None"
  shows "linked (h(b \<mapsto> None, last as \<mapsto> Some b)) p (as @ [b])"
proof -
  obtain xs x where as: "as = xs @ [x]" using assms(2) by (metis append_butlast_last_id)
  then have "x \<noteq> b" "x \<notin> set xs" "b \<notin> set xs" using assms(3) linked_distinct [OF assms(1)] by auto
  then show ?thesis using assms(1) by (auto simp: as seg_append)
qed

lemma linked_join:
  assumes "linked h p xs" "xs \<noteq> []" "linked h q ys" "set xs \<inter> set ys = {}"
  shows "linked (h(last xs \<mapsto> q)) p (xs @ ys)"
proof -
  obtain zs z where xs: "xs = zs @ [z]" using assms(2) by (metis append_butlast_last_id)
  then have "z \<notin> set zs" using linked_distinct [OF assms(1)] by simp
  then show ?thesis using assms by (auto simp: xs seg_append)
qed

subsection \<open>First-in first-out queues\<close>

text \<open>
  The contract the queues of the code share: \<open>content s xs\<close> says that state \<open>s\<close> holds the elements
  \<open>xs\<close>, and an element may be put where \<open>allowed\<close>. A sequence of operations on such a queue gives out
  what the same sequence gives out on a list.
\<close>

datatype 'a queue_op = Put 'a | Get

fun queue_run ::
  "('a \<Rightarrow> 's \<Rightarrow> 's option) \<Rightarrow> ('s \<Rightarrow> ('a option \<times> 's) option) \<Rightarrow> 'a queue_op list \<Rightarrow> 's
    \<Rightarrow> ('a option list \<times> 's) option" where
  "queue_run put get [] s = Some ([], s)"
| "queue_run put get (Put a # ops) s = do { s \<leftarrow> put a s; queue_run put get ops s }"
| "queue_run put get (Get # ops) s = do {
     (r, s) \<leftarrow> get s;
     (rs, s) \<leftarrow> queue_run put get ops s;
     Some (r # rs, s)
   }"

fun queue_spec :: "'a queue_op list \<Rightarrow> 'a list \<Rightarrow> 'a option list \<times> 'a list" where
  "queue_spec [] xs = ([], xs)"
| "queue_spec (Put a # ops) xs = queue_spec ops (xs @ [a])"
| "queue_spec (Get # ops) xs =
     (let (rs, ys) = queue_spec ops (tl xs) in ((if xs = [] then None else Some (hd xs)) # rs, ys))"

fun queue_allowed :: "('a \<Rightarrow> 'a list \<Rightarrow> bool) \<Rightarrow> 'a queue_op list \<Rightarrow> 'a list \<Rightarrow> bool" where
  "queue_allowed ok [] xs \<longleftrightarrow> True"
| "queue_allowed ok (Put a # ops) xs \<longleftrightarrow> ok a xs \<and> queue_allowed ok ops (xs @ [a])"
| "queue_allowed ok (Get # ops) xs \<longleftrightarrow> queue_allowed ok ops (tl xs)"

locale fifo =
  fixes content :: "'s \<Rightarrow> 'a list \<Rightarrow> bool"
    and allowed :: "'a \<Rightarrow> 'a list \<Rightarrow> bool"
    and put :: "'a \<Rightarrow> 's \<Rightarrow> 's option"
    and get :: "'s \<Rightarrow> ('a option \<times> 's) option"
  assumes put_content: "content s xs \<Longrightarrow> allowed a xs \<Longrightarrow> \<exists>s'. put a s = Some s' \<and> content s' (xs @ [a])"
    and get_empty: "content s [] \<Longrightarrow> \<exists>s'. get s = Some (None, s') \<and> content s' []"
    and get_content: "content s (x # xs) \<Longrightarrow> \<exists>s'. get s = Some (Some x, s') \<and> content s' xs"
begin

lemma get_list:
  assumes "content s xs"
  shows "\<exists>s'. get s = Some (if xs = [] then None else Some (hd xs), s') \<and> content s' (tl xs)"
  using assms get_empty get_content by (cases xs) auto

lemma run_refines_list:
  assumes "content s xs" "queue_allowed allowed ops xs"
  shows "\<exists>s'. queue_run put get ops s = Some (fst (queue_spec ops xs), s')
    \<and> content s' (snd (queue_spec ops xs))"
  using assms
proof (induction ops arbitrary: s xs)
  case Nil
  then show ?case by simp
next
  case (Cons op ops)
  show ?case
  proof (cases op)
    case (Put a)
    then obtain s1 where "put a s = Some s1" "content s1 (xs @ [a])"
      using put_content [OF Cons.prems(1), of a] Cons.prems(2) by auto
    with Cons.IH [of s1 "xs @ [a]"] Cons.prems(2) Put show ?thesis by auto
  next
    case Get
    obtain s1 where s1: "get s = Some (if xs = [] then None else Some (hd xs), s1)" "content s1 (tl xs)"
      using get_list [OF Cons.prems(1)] by blast
    with Cons.IH [of s1 "tl xs"] Cons.prems(2) Get show ?thesis
      by (auto simp: Let_def split: prod.splits)
  qed
qed

end

end
