(* ===== verification/Mmpkt_List.thy ===== *)
theory Mmpkt_List
  imports Chain
begin

section \<open>Packet lists\<close>

text \<open>
  \<open>morselib/src/common/mmpkt_list.c\<close>: the counted lists of packets the UMAC and the driver queue their
  traffic in. A list has a head, a tail and a length; the packets are the addresses of \<open>links\<close>. Releasing
  a packet takes it out of \<open>links\<close>, so a later access through it fails.
\<close>

subsection \<open>State and operations\<close>

record mmpkt_list =
  ml_head :: ptr
  ml_tail :: ptr
  ml_len :: nat

type_synonym list_state = "links \<times> mmpkt_list"

definition mmpkt_list_init :: mmpkt_list where
  "mmpkt_list_init = \<lparr>ml_head = None, ml_tail = None, ml_len = 0\<rparr>"

definition mmpkt_list_prepend :: "nat \<Rightarrow> list_state \<Rightarrow> list_state option" where
  "mmpkt_list_prepend mmpkt = (\<lambda>(h, l). do {
     h \<leftarrow> store_next h (Some mmpkt) (ml_head l);
     let l = l\<lparr>ml_head := Some mmpkt, ml_len := u32 (ml_len l + 1)\<rparr>;
     Some (h, if ml_tail l = None then l\<lparr>ml_tail := ml_head l\<rparr> else l)
   })"

definition mmpkt_list_append :: "nat \<Rightarrow> list_state \<Rightarrow> list_state option" where
  "mmpkt_list_append mmpkt = (\<lambda>(h, l). do {
     h \<leftarrow> store_next h (Some mmpkt) None;
     (h, l) \<leftarrow> (if ml_head l = None then Some (h, l\<lparr>ml_head := Some mmpkt, ml_tail := Some mmpkt\<rparr>)
               else do {
                 h \<leftarrow> store_next h (ml_tail l) (Some mmpkt);
                 Some (h, l\<lparr>ml_tail := Some mmpkt\<rparr>)
               });
     Some (h, l\<lparr>ml_len := u32 (ml_len l + 1)\<rparr>)
   })"

text \<open>The loop of \<open>mmpkt_list_insert_after\<close>: the result is the successor of the reference, if it is found.\<close>

partial_function (option) find_ref :: "links \<Rightarrow> nat \<Rightarrow> ptr \<Rightarrow> ptr option option" where
  "find_ref h ref walk =
     (case walk of
        None \<Rightarrow> Some None
      | Some a \<Rightarrow> do {
          next \<leftarrow> h a;
          if a = ref then Some (Some next) else find_ref h ref next
        })"

definition mmpkt_list_insert_after :: "nat \<Rightarrow> nat \<Rightarrow> list_state \<Rightarrow> list_state option" where
  "mmpkt_list_insert_after ref mmpkt = (\<lambda>(h, l). do {
     found \<leftarrow> find_ref h ref (ml_head l);
     case found of
       None \<Rightarrow> None
     | Some next \<Rightarrow> do {
         h \<leftarrow> store_next h (Some ref) (Some mmpkt);
         h \<leftarrow> store_next h (Some mmpkt) next;
         let l = l\<lparr>ml_len := u32 (ml_len l + 1)\<rparr>;
         Some (h, if next = None then l\<lparr>ml_tail := Some mmpkt\<rparr> else l)
       }
   })"

partial_function (option) find_prev_loop :: "links \<Rightarrow> nat \<Rightarrow> ptr \<Rightarrow> ptr \<Rightarrow> ptr option" where
  "find_prev_loop h mmpkt walk next =
     (case next of
        None \<Rightarrow> Some None
      | Some b \<Rightarrow>
          if b = mmpkt then Some walk
          else do { n \<leftarrow> h b; find_prev_loop h mmpkt next n })"

definition mmpkt_find_prev :: "links \<Rightarrow> mmpkt_list \<Rightarrow> nat \<Rightarrow> ptr option" where
  "mmpkt_find_prev h l mmpkt = do {
     next \<leftarrow> load_next h (ml_head l);
     find_prev_loop h mmpkt (ml_head l) next
   }"

definition mmpkt_list_remove :: "nat \<Rightarrow> list_state \<Rightarrow> list_state option" where
  "mmpkt_list_remove mmpkt = (\<lambda>(h, l).
     if ml_head l = None then Some (h, l)
     else do {
       next \<leftarrow> h mmpkt;
       (h, l, prev) \<leftarrow>
         (if ml_head l = Some mmpkt then Some (h, l\<lparr>ml_head := next\<rparr>, None)
          else do {
            prev \<leftarrow> mmpkt_find_prev h l mmpkt;
            ensure (prev \<noteq> None);
            h \<leftarrow> store_next h prev next;
            Some (h, l, prev)
          });
       let l = (if ml_tail l = Some mmpkt then l\<lparr>ml_tail := prev\<rparr> else l);
       let l = l\<lparr>ml_len := sub32 (ml_len l) 1\<rparr>;
       h \<leftarrow> store_next h (Some mmpkt) None;
       Some (h, l)
     })"

definition mmpkt_list_dequeue :: "list_state \<Rightarrow> (ptr \<times> list_state) option" where
  "mmpkt_list_dequeue = (\<lambda>(h, l).
     case ml_head l of
       None \<Rightarrow> Some (None, h, l)
     | Some mmpkt \<Rightarrow> do {
         next \<leftarrow> h mmpkt;
         let l = l\<lparr>ml_head := next, ml_len := sub32 (ml_len l) 1\<rparr>;
         let l = (if ml_tail l = Some mmpkt then l\<lparr>ml_tail := None\<rparr> else l);
         h \<leftarrow> store_next h (Some mmpkt) None;
         Some (Some mmpkt, h, l)
       })"

definition mmpkt_list_dequeue_tail :: "list_state \<Rightarrow> (ptr \<times> list_state) option" where
  "mmpkt_list_dequeue_tail = (\<lambda>(h, l).
     case ml_tail l of
       None \<Rightarrow> Some (None, h, l)
     | Some mmpkt \<Rightarrow> do {
         s \<leftarrow> mmpkt_list_remove mmpkt (h, l);
         Some (Some mmpkt, s)
       })"

text \<open>Two lists that share the packets. \<open>mmpkt_list_append_list\<close> moves the second behind the first.\<close>

definition mmpkt_list_append_list ::
  "links \<Rightarrow> mmpkt_list \<Rightarrow> mmpkt_list \<Rightarrow> (links \<times> mmpkt_list \<times> mmpkt_list) option" where
  "mmpkt_list_append_list h l other =
     (if ml_head other = None then Some (h, l, other)
      else do {
        (h, l) \<leftarrow> (if ml_head l = None then Some (h, l\<lparr>ml_head := ml_head other\<rparr>)
                  else do { h \<leftarrow> store_next h (ml_tail l) (ml_head other); Some (h, l) });
        Some (h, l\<lparr>ml_tail := ml_tail other, ml_len := u32 (ml_len l + ml_len other)\<rparr>, mmpkt_list_init)
      })"

fun advance :: "nat \<Rightarrow> links \<Rightarrow> ptr \<Rightarrow> ptr option" where
  "advance 0 h p = Some p"
| "advance (Suc n) h p = do { p \<leftarrow> load_next h p; advance n h p }"

definition mmpkt_list_dequeue_multiple ::
  "links \<Rightarrow> mmpkt_list \<Rightarrow> mmpkt_list \<Rightarrow> nat \<Rightarrow> (nat \<times> links \<times> mmpkt_list \<times> mmpkt_list) option" where
  "mmpkt_list_dequeue_multiple h src dst count =
     (if count = 0 \<or> ml_head src = None then Some (0, h, src, dst)
      else if count \<ge> ml_len src then do {
        (h, dst, src') \<leftarrow> mmpkt_list_append_list h dst src;
        Some (ml_len src, h, src', dst)
      }
      else do {
        let moved_head = ml_head src;
        moved_tail \<leftarrow> advance (count - 1) h moved_head;
        next \<leftarrow> load_next h moved_tail;
        h \<leftarrow> store_next h moved_tail None;
        let src = src\<lparr>ml_head := next, ml_len := sub32 (ml_len src) count\<rparr>;
        (h, dst) \<leftarrow> (if ml_head dst = None then Some (h, dst\<lparr>ml_head := moved_head\<rparr>)
                    else do { h \<leftarrow> store_next h (ml_tail dst) moved_head; Some (h, dst) });
        Some (count, h, src, dst\<lparr>ml_tail := moved_tail, ml_len := u32 (ml_len dst + count)\<rparr>)
      })"

partial_function (option) release_walk :: "links \<Rightarrow> ptr \<Rightarrow> links option" where
  "release_walk h walk =
     (case walk of
        None \<Rightarrow> Some h
      | Some a \<Rightarrow> do { next \<leftarrow> h a; release_walk (h(a := None)) next })"

definition mmpkt_list_clear :: "list_state \<Rightarrow> (nat \<times> list_state) option" where
  "mmpkt_list_clear = (\<lambda>(h, l). do {
     h \<leftarrow> release_walk h (ml_head l);
     Some (ml_len l, h, mmpkt_list_init)
   })"

subsection \<open>Lists as sequences\<close>

text \<open>\<open>list_rep h l xs\<close>: list \<open>l\<close> holds the packets \<open>xs\<close>. An operation leaves the packets outside the list
  alone and the set of live packets unchanged.\<close>

definition list_rep :: "links \<Rightarrow> mmpkt_list \<Rightarrow> nat list \<Rightarrow> bool" where
  "list_rep h l xs \<longleftrightarrow> linked h (ml_head l) xs \<and> ml_tail l = (if xs = [] then None else Some (last xs))
     \<and> ml_len l = length xs \<and> length xs < 4294967296"

definition unchanged :: "nat set \<Rightarrow> links \<Rightarrow> links \<Rightarrow> bool" where
  "unchanged A h h' \<longleftrightarrow> dom h' = dom h \<and> (\<forall>a. a \<notin> A \<longrightarrow> h' a = h a)"

lemma unchanged_refl [simp]: "unchanged A h h"
  by (simp add: unchanged_def)

lemma unchanged_upd: "a \<in> A \<Longrightarrow> h a \<noteq> None \<Longrightarrow> unchanged A h (h(a \<mapsto> v))"
  by (auto simp: unchanged_def)

lemma unchanged_upd2: "a \<in> A \<Longrightarrow> b \<in> A \<Longrightarrow> h a \<noteq> None \<Longrightarrow> h b \<noteq> None \<Longrightarrow> unchanged A h (h(a \<mapsto> v, b \<mapsto> w))"
  by (auto simp: unchanged_def)

lemma list_rep_empty [simp]: "list_rep h mmpkt_list_init []"
  by (simp add: list_rep_def mmpkt_list_init_def)

lemma list_rep_other:
  assumes "list_rep h l xs" "unchanged A h h'" "set xs \<inter> A = {}"
  shows "list_rep h' l xs"
proof -
  have "seg h (ml_head l) xs None = seg h' (ml_head l) xs None"
    using assms(2,3) by (intro seg_frame_set) (auto simp: unchanged_def)
  then show ?thesis using assms(1) by (simp add: list_rep_def)
qed

lemma list_rep_live: "list_rep h l xs \<Longrightarrow> x \<in> set xs \<Longrightarrow> \<exists>n. h x = Some n"
  using seg_dom by (fastforce simp: list_rep_def)

lemma list_rep_null: "list_rep h l xs \<Longrightarrow> ml_head l = None \<longleftrightarrow> xs = []"
  by (cases xs) (auto simp: list_rep_def)

lemma prepend_rep:
  assumes "list_rep h l xs" "a \<notin> set xs" "h a \<noteq> None" "length xs < 4294967295"
  shows "\<exists>h' l'. mmpkt_list_prepend a (h, l) = Some (h', l') \<and> list_rep h' l' (a # xs)
    \<and> unchanged {a} h h'"
proof -
  let ?h = "h(a \<mapsto> ml_head l)"
  have "linked ?h (ml_head l) xs" using assms(1,2) by (simp add: list_rep_def)
  then show ?thesis
    using assms by (auto simp: mmpkt_list_prepend_def list_rep_def unchanged_def u32_id Let_def)
qed

lemma append_rep:
  assumes "list_rep h l xs" "a \<notin> set xs" "h a \<noteq> None" "length xs < 4294967295"
  shows "\<exists>h' l'. mmpkt_list_append a (h, l) = Some (h', l') \<and> list_rep h' l' (xs @ [a])
    \<and> unchanged (insert a (set xs)) h h'"
proof (cases "xs = []")
  case True
  then show ?thesis
    using assms by (auto simp: mmpkt_list_append_def list_rep_def unchanged_def u32_id)
next
  case False
  let ?h = "h(a \<mapsto> None, last xs \<mapsto> Some a)"
  have tail: "ml_tail l = Some (last xs)" "ml_head l \<noteq> None"
    using assms(1) False list_rep_null [OF assms(1)] by (simp_all add: list_rep_def)
  have "linked ?h (ml_head l) (xs @ [a])"
    using assms False by (intro linked_append) (auto simp: list_rep_def)
  moreover have "h (last xs) \<noteq> None" using list_rep_live [OF assms(1)] False by fastforce
  moreover have "last xs \<noteq> a" using assms(2) False last_in_set by fastforce
  ultimately show ?thesis
    using assms tail False by (auto simp: mmpkt_list_append_def list_rep_def unchanged_def u32_id)
qed

lemma find_ref_seg:
  assumes "seg h p xs (Some ref)" "ref \<notin> set xs" "h ref = Some n"
  shows "find_ref h ref p = Some (Some n)"
  using assms
proof (induction xs arbitrary: p)
  case Nil
  then show ?case by (simp add: find_ref.simps)
next
  case (Cons x xs)
  then show ?case by (auto simp: find_ref.simps [of h ref "Some x"])
qed

lemma find_ref_absent: "linked h p xs \<Longrightarrow> ref \<notin> set xs \<Longrightarrow> find_ref h ref p = Some None"
proof (induction xs arbitrary: p)
  case Nil
  then show ?case by (simp add: find_ref.simps)
next
  case (Cons x xs)
  then show ?case by (auto simp: find_ref.simps [of h ref "Some x"])
qed

lemma insert_after_rep:
  assumes "list_rep h l (xs @ ref # ys)" "a \<notin> set (xs @ ref # ys)" "h a \<noteq> None" "length (xs @ ref # ys) < 4294967295"
  shows "\<exists>h' l'. mmpkt_list_insert_after ref a (h, l) = Some (h', l') \<and> list_rep h' l' (xs @ ref # a # ys)
    \<and> unchanged {a, ref} h h'"
proof -
  have l: "linked h (ml_head l) (xs @ ref # ys)" using assms(1) by (simp add: list_rep_def)
  then obtain n where n: "seg h (ml_head l) xs (Some ref)" "h ref = Some n" "linked h n ys"
    by (auto simp: seg_append)
  have d: "ref \<notin> set xs" "ref \<notin> set ys" "set xs \<inter> set ys = {}" using linked_distinct [OF l] by auto
  have null: "n = None \<longleftrightarrow> ys = []" using linked_head [OF n(3)] by (cases ys) auto
  let ?h = "h(ref \<mapsto> Some a, a \<mapsto> n)"
  have "linked ?h (ml_head l) (xs @ ref # a # ys)"
    using n d assms(2) by (auto simp: seg_append)
  then show ?thesis
    using assms n find_ref_seg [OF n(1) d(1) n(2)] null
    by (auto simp: mmpkt_list_insert_after_def list_rep_def unchanged_def u32_id Let_def)
qed

lemma insert_after_absent:
  "list_rep h l xs \<Longrightarrow> ref \<notin> set xs \<Longrightarrow> mmpkt_list_insert_after ref a (h, l) = None"
  using find_ref_absent [of h "ml_head l" xs ref] by (simp add: mmpkt_list_insert_after_def list_rep_def)

lemma find_prev_loop_seg:
  assumes "seg h walk (x # xs) (Some a)" "h walk' = h walk'" "a \<notin> set (x # xs)" "h x = Some n"
  shows "find_prev_loop h a (Some x) n = Some (Some (last (x # xs)))"
  using assms
proof (induction xs arbitrary: x n walk)
  case Nil
  then show ?case by (simp add: find_prev_loop.simps)
next
  case (Cons y ys)
  then obtain m where "n = Some y" "h y = Some m" "seg h m ys (Some a)" by auto
  then show ?case using Cons.IH [of "Some y" y m] Cons.prems(3)
    by (simp add: find_prev_loop.simps [of h a "Some x"])
qed

lemma find_prev_loop_absent:
  "linked h n xs \<Longrightarrow> a \<notin> set xs \<Longrightarrow> find_prev_loop h a walk n = Some None"
proof (induction xs arbitrary: n walk)
  case Nil
  then show ?case by (simp add: find_prev_loop.simps)
next
  case (Cons x xs)
  then show ?case by (auto simp: find_prev_loop.simps [of h a walk])
qed

lemma remove_rep:
  assumes "list_rep h l (xs @ a # ys)"
  shows "\<exists>h' l'. mmpkt_list_remove a (h, l) = Some (h', l') \<and> list_rep h' l' (xs @ ys)
    \<and> unchanged (insert a (set xs)) h h'"
proof -
  have l: "linked h (ml_head l) (xs @ a # ys)" using assms by (simp add: list_rep_def)
  then obtain n where n: "seg h (ml_head l) xs (Some a)" "h a = Some n" "linked h n ys"
    by (auto simp: seg_append)
  have d: "a \<notin> set xs" "a \<notin> set ys" "set xs \<inter> set ys = {}" using linked_distinct [OF l] by auto
  have len: "sub32 (ml_len l) 1 = length (xs @ ys)"
    using assms by (simp add: list_rep_def sub32_ge)
  show ?thesis
  proof (cases xs rule: rev_cases)
    case Nil
    then have "ml_head l = Some a" using n(1) by simp
    moreover have "ys \<noteq> [] \<Longrightarrow> last ys \<noteq> a" using d(2) last_in_set by metis
    ultimately show ?thesis
      using assms n d len Nil by (auto simp: mmpkt_list_remove_def list_rep_def unchanged_def Let_def)
  next
    case (snoc zs z)
    then obtain x ws where xs: "xs = x # ws" by (metis list.exhaust snoc_eq_iff_butlast)
    have head: "ml_head l = Some x" "x \<noteq> a" using n(1) d(1) xs by auto
    obtain m where m: "h x = Some m" using n(1) xs by auto
    have "find_prev_loop h a (Some x) m = Some (Some (last (x # ws)))"
      using find_prev_loop_seg [of h "Some x" x ws a undefined m] n(1) d(1) m xs head by simp
    moreover have "last (x # ws) = z" using xs snoc by (metis last_snoc)
    ultimately have prev: "mmpkt_find_prev h l a = Some (Some z)"
      using head m by (simp only: mmpkt_find_prev_def load_next_simps bind.bind_lunit)
    obtain k where z: "h z = Some k" "seg h (ml_head l) zs (Some z)" "k = Some a"
      using n(1) snoc by (auto simp: seg_append)
    have zd: "z \<notin> set zs" "z \<notin> set ys" "z \<noteq> a" "a \<notin> set zs" using linked_distinct [OF l] snoc by auto
    let ?h = "h(z \<mapsto> n, a \<mapsto> None)"
    have "linked ?h (ml_head l) (xs @ ys)" using z n(3) zd d by (auto simp: snoc seg_append)
    moreover have "mmpkt_list_remove a (h, l) = Some (?h, (if ml_tail l = Some a then l\<lparr>ml_tail := Some z\<rparr> else l)
        \<lparr>ml_len := length (xs @ ys)\<rparr>)"
      using head prev n(2) z(1) zd len by (simp add: mmpkt_list_remove_def Let_def)
    moreover have "unchanged (insert a (set xs)) h ?h" using z n(2) snoc by (auto simp: unchanged_def)
    moreover have "ys \<noteq> [] \<Longrightarrow> last ys \<noteq> a" using d(2) last_in_set by metis
    ultimately show ?thesis using assms snoc by (auto simp: list_rep_def)
  qed
qed

lemma remove_absent:
  assumes "list_rep h l xs" "xs \<noteq> []" "a \<notin> set xs"
  shows "mmpkt_list_remove a (h, l) = None"
proof -
  obtain x ys where xs: "xs = x # ys" using assms(2) by (cases xs) auto
  then obtain n where "ml_head l = Some x" "h x = Some n" "linked h n ys" using assms(1) by (auto simp: list_rep_def)
  then have "mmpkt_find_prev h l a = Some None" "ml_head l \<noteq> Some a"
    using assms(3) xs by (simp_all add: mmpkt_find_prev_def find_prev_loop_absent)
  then show ?thesis using \<open>ml_head l = Some x\<close> by (auto simp: mmpkt_list_remove_def split: Option.bind_split)
qed

lemma dequeue_rep:
  assumes "list_rep h l (a # xs)"
  shows "\<exists>h' l'. mmpkt_list_dequeue (h, l) = Some (Some a, h', l') \<and> list_rep h' l' xs \<and> unchanged {a} h h'
    \<and> h' a = Some None"
proof -
  have l: "linked h (ml_head l) (a # xs)" using assms by (simp add: list_rep_def)
  then obtain n where n: "ml_head l = Some a" "h a = Some n" "linked h n xs" by auto
  have d: "a \<notin> set xs" using linked_distinct [OF l] by simp
  moreover have "sub32 (ml_len l) 1 = length xs" using assms by (simp add: list_rep_def sub32_ge)
  moreover have "xs \<noteq> [] \<Longrightarrow> last xs \<noteq> a" using d last_in_set by metis
  ultimately show ?thesis
    using n assms by (auto simp: mmpkt_list_dequeue_def list_rep_def unchanged_def Let_def)
qed

lemma dequeue_empty: "list_rep h l [] \<Longrightarrow> mmpkt_list_dequeue (h, l) = Some (None, h, l)"
  by (simp add: mmpkt_list_dequeue_def list_rep_def)

lemma dequeue_tail_rep:
  assumes "list_rep h l (xs @ [a])"
  shows "\<exists>h' l'. mmpkt_list_dequeue_tail (h, l) = Some (Some a, h', l') \<and> list_rep h' l' xs"
proof -
  have "ml_tail l = Some a" using assms by (simp add: list_rep_def)
  then show ?thesis using remove_rep [of h l xs a "[]"] assms by (auto simp: mmpkt_list_dequeue_tail_def)
qed

subsection \<open>Moving and clearing lists\<close>

lemma append_list_rep:
  assumes "list_rep h l xs" "list_rep h m ys" "set xs \<inter> set ys = {}" "length xs + length ys < 4294967296"
  shows "\<exists>h' l' m'. mmpkt_list_append_list h l m = Some (h', l', m') \<and> list_rep h' l' (xs @ ys) \<and> list_rep h' m' []
    \<and> unchanged (set xs) h h'"
proof (cases "ys = []")
  case True
  then have "ml_head m = None" using assms(2) by (simp add: list_rep_def)
  then show ?thesis using assms(1,2) True by (auto simp: mmpkt_list_append_list_def)
next
  case False
  then have m: "ml_head m \<noteq> None" using list_rep_null [OF assms(2)] by simp
  show ?thesis
  proof (cases "xs = []")
    case True
    then have "ml_head l = None" using assms(1) by (simp add: list_rep_def)
    then show ?thesis using assms m True by (auto simp: mmpkt_list_append_list_def list_rep_def u32_id mmpkt_list_init_def)
  next
    case xs: False
    let ?h = "h(last xs \<mapsto> ml_head m)"
    have "linked ?h (ml_head l) (xs @ ys)"
      using assms xs by (intro linked_join) (auto simp: list_rep_def)
    moreover have "h (last xs) \<noteq> None" using list_rep_live [OF assms(1)] xs by fastforce
    moreover have "ml_head l \<noteq> None" using list_rep_null [OF assms(1)] xs by simp
    ultimately show ?thesis
      using assms m xs False
      by (auto simp: mmpkt_list_append_list_def list_rep_def u32_id mmpkt_list_init_def unchanged_def)
  qed
qed

lemma advance_seg: "seg h p xs q \<Longrightarrow> advance (length xs) h p = Some q"
  by (induction xs arbitrary: p) auto

lemma dequeue_multiple_rep:
  assumes src: "list_rep h src xs" and dst: "list_rep h dst ys" and disj: "set xs \<inter> set ys = {}"
    and len: "length xs + length ys < 4294967296"
  shows "\<exists>h' src' dst'. mmpkt_list_dequeue_multiple h src dst count = Some (min count (length xs), h', src', dst')
    \<and> list_rep h' src' (drop count xs) \<and> list_rep h' dst' (ys @ take count xs)
    \<and> unchanged (set xs \<union> set ys) h h'"
proof -
  consider "count = 0 \<or> xs = []" | "count \<noteq> 0" "xs \<noteq> []" "length xs \<le> count"
    | "count \<noteq> 0" "xs \<noteq> []" "count < length xs" by linarith
  then show ?thesis
  proof cases
    case 1
    then have "count = 0 \<or> ml_head src = None" using list_rep_null [OF src] by simp
    then show ?thesis using 1 src dst by (auto simp: mmpkt_list_dequeue_multiple_def)
  next
    case 2
    obtain h' dst' src' where r: "mmpkt_list_append_list h dst src = Some (h', dst', src')" "list_rep h' dst' (ys @ xs)"
        "list_rep h' src' []" "unchanged (set ys) h h'"
      using append_list_rep [OF dst src] disj len by (auto simp: Int_commute add.commute)
    moreover have "ml_head src \<noteq> None" "ml_len src = length xs"
      using 2 list_rep_null [OF src] src by (simp_all add: list_rep_def)
    moreover have "unchanged (set xs \<union> set ys) h h'" using r(4) by (auto simp: unchanged_def)
    ultimately show ?thesis using 2 by (simp add: mmpkt_list_dequeue_multiple_def min_def)
  next
    case 3
    obtain zs z bs where xs: "xs = zs @ z # bs" "length zs = count - 1"
      using 3 by (metis id_take_nth_drop length_take min.absorb2 diff_less less_imp_le less_trans zero_less_one not_gr_zero)
    then have cnt: "count = Suc (length zs)" using 3 by simp
    obtain n where n: "seg h (ml_head src) zs (Some z)" "h z = Some n" "linked h n bs"
      using src by (auto simp: list_rep_def xs(1) seg_append)
    have dis: "distinct xs" using src linked_distinct by (auto simp: list_rep_def)
    have bs: "bs \<noteq> []" using 3 cnt xs(1) by auto
    have head: "ml_head src \<noteq> None" "ml_len src = length xs" using 3 list_rep_null [OF src] src by (simp_all add: list_rep_def)
    have adv: "advance (count - 1) h (ml_head src) = Some (Some z)" using advance_seg [OF n(1)] cnt by simp
    let ?h = "h(z \<mapsto> None)"
    have moved: "linked ?h (ml_head src) (zs @ [z])" using n dis by (auto simp: seg_append xs(1))
    have rest: "linked ?h n bs" using n(3) dis by (auto simp: xs(1))
    have dst': "linked ?h (ml_head dst) ys" using dst disj by (auto simp: list_rep_def xs(1))
    have sub: "sub32 (length xs) count = length bs" using src xs(1) cnt by (simp add: list_rep_def sub32_ge)
    show ?thesis
    proof (cases "ys = []")
      case True
      then have "ml_head dst = None" "ml_len dst = 0" using dst by (simp_all add: list_rep_def)
      then show ?thesis
        using 3 head adv n(2) moved rest bs sub src dst True len cnt
        by (auto simp: mmpkt_list_dequeue_multiple_def list_rep_def u32_id unchanged_def xs(1) Let_def)
    next
      case False
      let ?h2 = "?h(last ys \<mapsto> ml_head src)"
      have last: "last ys \<in> set ys" "last ys \<noteq> z" "h (last ys) \<noteq> None"
        using False disj list_rep_live [OF dst] by (fastforce simp: xs(1))+
      have "linked ?h2 (ml_head dst) (ys @ zs @ [z])"
        using linked_join [OF dst' False moved] disj by (auto simp: xs(1))
      moreover have "linked ?h2 n bs" using rest last(1) disj by (subst seg_frame) (auto simp: xs(1))
      moreover have "ml_head dst \<noteq> None" "ml_tail dst = Some (last ys)" using False dst list_rep_null [OF dst] by (simp_all add: list_rep_def)
      ultimately show ?thesis
        using 3 head adv n(2) bs sub src dst False len cnt last
        by (auto simp: mmpkt_list_dequeue_multiple_def list_rep_def u32_id unchanged_def xs(1) Let_def)
    qed
  qed
qed

lemma release_walk_linked:
  assumes "linked h p xs"
  shows "release_walk h p = Some (\<lambda>a. if a \<in> set xs then None else h a)"
  using assms
proof (induction xs arbitrary: h p)
  case Nil
  then show ?case by (simp add: release_walk.simps)
next
  case (Cons x xs)
  then obtain n where n: "p = Some x" "h x = Some n" "linked h n xs" by auto
  have "x \<notin> set xs" using linked_distinct [OF Cons.prems] by simp
  then have "linked (h(x := None)) n xs" using n(3) by simp
  note walk = Cons.IH [OF this]
  have "(\<lambda>a. if a \<in> set xs then None else (h(x := None)) a) = (\<lambda>a. if a \<in> set (x # xs) then None else h a)"
    by auto
  from walk [unfolded this]
  show ?case by (simp only: n release_walk.simps [of h "Some x"] option.case bind.bind_lunit)
qed

subsection \<open>Properties\<close>

definition packet_content :: "nat set \<Rightarrow> list_state \<Rightarrow> nat list \<Rightarrow> bool" where
  "packet_content live = (\<lambda>(h, l) xs. list_rep h l xs \<and> dom h = live)"

definition packet_allowed :: "nat set \<Rightarrow> nat \<Rightarrow> nat list \<Rightarrow> bool" where
  "packet_allowed live a xs \<longleftrightarrow> a \<in> live \<and> a \<notin> set xs \<and> length xs < 4294967295"

interpretation packets: fifo "packet_content live" "packet_allowed live" mmpkt_list_append mmpkt_list_dequeue for live
proof
  fix s xs a
  assume "packet_content live s xs" "packet_allowed live a xs"
  then show "\<exists>s'. mmpkt_list_append a s = Some s' \<and> packet_content live s' (xs @ [a])"
    using append_rep [of "fst s" "snd s" xs a]
    by (cases s) (auto simp: packet_content_def packet_allowed_def unchanged_def)
next
  fix s
  assume "packet_content live s []"
  then show "\<exists>s'. mmpkt_list_dequeue s = Some (None, s') \<and> packet_content live s' []"
    by (cases s) (auto simp: packet_content_def dequeue_empty)
next
  fix s x xs
  assume "packet_content live s (x # xs)"
  then show "\<exists>s'. mmpkt_list_dequeue s = Some (Some x, s') \<and> packet_content live s' xs"
    using dequeue_rep [of "fst s" "snd s" x xs]
    by (cases s) (auto simp: packet_content_def unchanged_def)
qed

text \<open>Packets come out of a list in the order they went in, whatever the interleaving.\<close>

lemma mmpkt_list_fifo:
  assumes "packet_content live s xs" "queue_allowed (packet_allowed live) ops xs"
  shows "\<exists>s'. queue_run mmpkt_list_append mmpkt_list_dequeue ops s = Some (fst (queue_spec ops xs), s')
    \<and> packet_content live s' (snd (queue_spec ops xs))"
  by (rule packets.run_refines_list [OF assms])

text \<open>A packet list is a sequence: prepending, appending, inserting behind a packet, removing, taking from
  either end, moving a number of packets or a whole list behind another and clearing do to the sequence of packets what
  their names say; clearing releases each packet once, and removing or inserting at a packet that is not in the
  (non-empty) list fails the assertion.\<close>

theorem mmpkt_list_refines_sequence:
  assumes "list_rep h l xs" "list_rep h m ys" "set xs \<inter> set ys = {}" "length xs + length ys < 4294967295"
    and "a \<in> dom h" "a \<notin> set xs" "b \<notin> set xs"
  shows "(\<exists>h' l'. mmpkt_list_prepend a (h, l) = Some (h', l') \<and> list_rep h' l' (a # xs))
    \<and> (\<exists>h' l'. mmpkt_list_append a (h, l) = Some (h', l') \<and> list_rep h' l' (xs @ [a]))
    \<and> (\<forall>us x vs. xs = us @ x # vs \<longrightarrow>
          (\<exists>h' l'. mmpkt_list_insert_after x a (h, l) = Some (h', l') \<and> list_rep h' l' (us @ x # a # vs))
        \<and> (\<exists>h' l'. mmpkt_list_remove x (h, l) = Some (h', l') \<and> list_rep h' l' (us @ vs)))
    \<and> mmpkt_list_insert_after b a (h, l) = None
    \<and> mmpkt_list_remove b (h, l) = (if xs = [] then Some (h, l) else None)
    \<and> (\<exists>h' l'. mmpkt_list_dequeue (h, l) = Some (if xs = [] then None else Some (hd xs), h', l') \<and> list_rep h' l' (tl xs))
    \<and> (\<exists>h' l'. mmpkt_list_dequeue_tail (h, l) = Some (if xs = [] then None else Some (last xs), h', l')
        \<and> list_rep h' l' (butlast xs))
    \<and> (\<exists>h' l' m'. mmpkt_list_append_list h l m = Some (h', l', m') \<and> list_rep h' l' (xs @ ys) \<and> list_rep h' m' [])
    \<and> (\<forall>count. \<exists>h' l' m'. mmpkt_list_dequeue_multiple h l m count = Some (min count (length xs), h', l', m')
        \<and> list_rep h' l' (drop count xs) \<and> list_rep h' m' (ys @ take count xs))
    \<and> mmpkt_list_clear (h, l) = Some (length xs, (\<lambda>x. if x \<in> set xs then None else h x), mmpkt_list_init)"
    (is "?pre \<and> ?app \<and> ?mid \<and> ?noins \<and> ?norem \<and> ?deq \<and> ?tail \<and> ?join \<and> ?multi \<and> ?clear")
proof (intro conjI)
  have len: "length xs < 4294967295" using assms(4) by simp
  have live: "h a \<noteq> None" using assms(5) by auto
  show ?pre using prepend_rep [OF assms(1,6) live len] by blast
  show ?app using append_rep [OF assms(1,6) live len] by blast
  show ?mid using insert_after_rep [of h l _ _ _ a] remove_rep [of h l] assms(1,6) live len by metis
  show ?noins by (rule insert_after_absent [OF assms(1,7)])
  show ?norem
    using remove_absent [OF assms(1) _ assms(7)] list_rep_null [OF assms(1)]
    by (auto simp: mmpkt_list_remove_def)
  show ?deq using dequeue_empty dequeue_rep assms(1) by (cases xs) fastforce+
  show ?tail
  proof (cases xs rule: rev_cases)
    case Nil
    then show ?thesis using assms(1) by (simp add: mmpkt_list_dequeue_tail_def list_rep_def)
  next
    case (snoc zs z)
    then show ?thesis using dequeue_tail_rep [of h l zs z] assms(1) by simp
  qed
  show ?join using append_list_rep [OF assms(1-3)] assms(4) by fastforce
  show ?multi using dequeue_multiple_rep [OF assms(1-3)] assms(4) by fastforce
  show ?clear
    using release_walk_linked [of h "ml_head l" xs] assms(1) by (simp add: mmpkt_list_clear_def list_rep_def)
qed

theorem mmpkt_list_refines_sequence_witness:
  "\<exists>h l m. list_rep h l [1, 2] \<and> list_rep h m [3] \<and> mmpkt_list_remove 7 (h, l) = None
    \<and> (\<exists>h' l' m'. mmpkt_list_dequeue_multiple h l m 1 = Some (1, h', l', m')
        \<and> list_rep h' l' [2] \<and> list_rep h' m' [3, 1])"
proof -
  let ?h = "[1 \<mapsto> Some 2, 2 \<mapsto> None, 3 \<mapsto> None, 4 \<mapsto> None] :: links"
  let ?l = "\<lparr>ml_head = Some 1, ml_tail = Some 2, ml_len = 2\<rparr>"
  let ?m = "\<lparr>ml_head = Some 3, ml_tail = Some 3, ml_len = 1\<rparr>"
  have reps: "list_rep ?h ?l [1, 2]" "list_rep ?h ?m [3]" by (simp_all add: list_rep_def)
  have p: "set [1, 2] \<inter> set [3 :: nat] = {}" "length [1, 2 :: nat] + length [3 :: nat] < 4294967295"
    "4 \<in> dom ?h" "4 \<notin> set [1, 2 :: nat]" "7 \<notin> set [1, 2 :: nat]" by simp_all
  from mmpkt_list_refines_sequence [OF reps p] have "mmpkt_list_remove 7 (?h, ?l) = None"
    "\<exists>h' l' m'. mmpkt_list_dequeue_multiple ?h ?l ?m 1 = Some (min 1 (length [1, 2 :: nat]), h', l', m')
        \<and> list_rep h' l' (drop 1 [1, 2]) \<and> list_rep h' m' ([3] @ take 1 [1, 2])"
    by (simp_all only: list.distinct if_False)
  then show ?thesis using reps by (intro exI [of _ ?h] exI [of _ ?l] exI [of _ ?m]) simp
qed

end
