(* ===== verification/Mmbuf_List.thy ===== *)
theory Mmbuf_List
  imports Mmpkt_List
begin

section \<open>Lists of mmbufs\<close>

text \<open>
  The list operations of \<open>mmutils/mmbuf.c\<close> and the inline ones of \<open>mmutils/mmbuf.h\<close>. A \<open>struct mmbuf_list\<close> has
  the members of a \<open>struct mmpkt_list\<close>. The operations differ from those on packets in what they do when an
  element is not found, and in the loop that clears a list.
\<close>

type_synonym mmbuf_list = mmpkt_list

subsection \<open>Operations\<close>

definition mmbuf_list_init :: mmbuf_list where
  "mmbuf_list_init = \<lparr>ml_head = None, ml_tail = None, ml_len = 0\<rparr>"

definition mmbuf_list_prepend :: "nat \<Rightarrow> list_state \<Rightarrow> list_state option" where
  "mmbuf_list_prepend mmbuf = (\<lambda>(h, l). do {
     h \<leftarrow> store_next h (Some mmbuf) (ml_head l);
     let l = l\<lparr>ml_head := Some mmbuf\<rparr>;
     let l = l\<lparr>ml_len := u32 (ml_len l + 1)\<rparr>;
     Some (h, if ml_tail l = None then l\<lparr>ml_tail := ml_head l\<rparr> else l)
   })"

definition mmbuf_list_append :: "nat \<Rightarrow> list_state \<Rightarrow> list_state option" where
  "mmbuf_list_append mmbuf = (\<lambda>(h, l). do {
     h \<leftarrow> store_next h (Some mmbuf) None;
     (h, l) \<leftarrow> (if ml_head l = None then Some (h, l\<lparr>ml_head := Some mmbuf, ml_tail := Some mmbuf\<rparr>)
               else do {
                 h \<leftarrow> store_next h (ml_tail l) (Some mmbuf);
                 Some (h, l\<lparr>ml_tail := Some mmbuf\<rparr>)
               });
     Some (h, l\<lparr>ml_len := u32 (ml_len l + 1)\<rparr>)
   })"

definition mmbuf_find_prev :: "links \<Rightarrow> mmbuf_list \<Rightarrow> nat \<Rightarrow> ptr option" where
  "mmbuf_find_prev h l mmbuf = do {
     next \<leftarrow> load_next h (ml_head l);
     find_prev_loop h mmbuf (ml_head l) next
   }"

definition mmbuf_list_remove :: "nat \<Rightarrow> list_state \<Rightarrow> (bool \<times> list_state) option" where
  "mmbuf_list_remove mmbuf = (\<lambda>(h, l).
     if ml_head l = None then Some (False, h, l)
     else do {
       found \<leftarrow>
         (if ml_head l = Some mmbuf then do { next \<leftarrow> h mmbuf; Some (Some (h, l\<lparr>ml_head := next\<rparr>, None)) }
          else do {
            prev \<leftarrow> mmbuf_find_prev h l mmbuf;
            if prev = None then Some None
            else do {
              next \<leftarrow> h mmbuf;
              h \<leftarrow> store_next h prev next;
              Some (Some (h, l, prev))
            }
          });
       case found of
         None \<Rightarrow> Some (False, h, l)
       | Some (h, l, prev) \<Rightarrow> do {
           let l = (if ml_tail l = Some mmbuf then l\<lparr>ml_tail := prev\<rparr> else l);
           h \<leftarrow> store_next h (Some mmbuf) None;
           Some (True, h, l\<lparr>ml_len := sub32 (ml_len l) 1\<rparr>)
         }
     })"

definition mmbuf_list_dequeue :: "list_state \<Rightarrow> (ptr \<times> list_state) option" where
  "mmbuf_list_dequeue = (\<lambda>(h, l).
     case ml_head l of
       None \<Rightarrow> Some (None, h, l)
     | Some mmbuf \<Rightarrow> do {
         next \<leftarrow> h mmbuf;
         let l = l\<lparr>ml_head := next, ml_len := sub32 (ml_len l) 1\<rparr>;
         let l = (if ml_tail l = Some mmbuf then l\<lparr>ml_tail := None\<rparr> else l);
         h \<leftarrow> store_next h (Some mmbuf) None;
         Some (Some mmbuf, h, l)
       })"

definition mmbuf_list_dequeue_tail :: "list_state \<Rightarrow> (ptr \<times> list_state) option" where
  "mmbuf_list_dequeue_tail = (\<lambda>(h, l).
     case ml_tail l of
       None \<Rightarrow> Some (None, h, l)
     | Some mmbuf \<Rightarrow> do {
         (_, s) \<leftarrow> mmbuf_list_remove mmbuf (h, l);
         Some (Some mmbuf, s)
       })"

definition mmbuf_list_dequeue_all :: "list_state \<Rightarrow> ptr \<times> list_state" where
  "mmbuf_list_dequeue_all = (\<lambda>(h, l). (ml_head l, h, l\<lparr>ml_head := None, ml_tail := None, ml_len := 0\<rparr>))"

definition mmbuf_list_is_empty :: "list_state \<Rightarrow> bool" where
  "mmbuf_list_is_empty = (\<lambda>(h, l). ml_head l = None)"

definition mmbuf_list_peek :: "list_state \<Rightarrow> ptr" where
  "mmbuf_list_peek = (\<lambda>(h, l). ml_head l)"

definition mmbuf_list_peek_tail :: "list_state \<Rightarrow> ptr" where
  "mmbuf_list_peek_tail = (\<lambda>(h, l). ml_tail l)"

text \<open>The loop of \<open>mmbuf_list_clear\<close>, which has the next element at hand while it releases one.\<close>

partial_function (option) clear_loop :: "links \<Rightarrow> ptr \<Rightarrow> ptr \<Rightarrow> links option" where
  "clear_loop h walk next =
     (case walk of
        None \<Rightarrow> Some h
      | Some a \<Rightarrow> do {
          h \<leftarrow> (if h a = None then None else Some (h(a := None)));
          next' \<leftarrow> (if next = None then Some None else load_next h next);
          clear_loop h next next'
        })"

definition mmbuf_list_clear :: "list_state \<Rightarrow> list_state option" where
  "mmbuf_list_clear = (\<lambda>(h, l).
     if ml_head l = None then Some (h, l)
     else do {
       next \<leftarrow> load_next h (ml_head l);
       h \<leftarrow> clear_loop h (ml_head l) next;
       Some (h, l\<lparr>ml_len := 0, ml_head := None, ml_tail := None\<rparr>)
     })"

subsection \<open>Equivalence with packet lists\<close>

text \<open>The two list modules are the same code; this carries over what is proved of packet lists.\<close>

lemma mmbuf_same_as_mmpkt:
  "mmbuf_list_init = mmpkt_list_init"
  "mmbuf_list_prepend = mmpkt_list_prepend"
  "mmbuf_list_append = mmpkt_list_append"
  "mmbuf_find_prev = mmpkt_find_prev"
  "mmbuf_list_dequeue = mmpkt_list_dequeue"
  by (simp_all add: fun_eq_iff mmbuf_list_init_def mmpkt_list_init_def mmbuf_list_prepend_def mmpkt_list_prepend_def
      mmbuf_list_append_def mmpkt_list_append_def mmbuf_find_prev_def mmpkt_find_prev_def
      mmbuf_list_dequeue_def mmpkt_list_dequeue_def Let_def)

lemma mmbuf_list_remove_present:
  assumes "mmpkt_list_remove a (h, l) = Some s" "ml_head l \<noteq> None"
  shows "mmbuf_list_remove a (h, l) = Some (True, s)"
proof (cases "ml_head l = Some a")
  case True
  then show ?thesis
    using assms by (auto simp: mmpkt_list_remove_def mmbuf_list_remove_def Let_def elim!: bind_eq_SomeE)
next
  case False
  with assms obtain n p where "h a = Some n" "mmpkt_find_prev h l a = Some (Some p)"
    by (auto simp: mmpkt_list_remove_def elim!: bind_eq_SomeE split: if_splits)
  with False assms show ?thesis
    by (auto simp: mmpkt_list_remove_def mmbuf_list_remove_def mmbuf_same_as_mmpkt Let_def elim!: bind_eq_SomeE)
qed

lemma mmbuf_remove_rep:
  assumes "list_rep h l (xs @ a # ys)"
  shows "\<exists>h' l'. mmbuf_list_remove a (h, l) = Some (True, h', l') \<and> list_rep h' l' (xs @ ys)"
proof -
  have "ml_head l \<noteq> None" using list_rep_null [OF assms] by simp
  then show ?thesis using remove_rep [OF assms] mmbuf_list_remove_present by blast
qed

lemma mmbuf_remove_absent:
  assumes "list_rep h l xs" "a \<notin> set xs"
  shows "mmbuf_list_remove a (h, l) = Some (False, h, l)"
proof (cases xs)
  case Nil
  then show ?thesis using list_rep_null [OF assms(1)] by (simp add: mmbuf_list_remove_def)
next
  case (Cons x ys)
  then obtain n where n: "ml_head l = Some x" "h x = Some n" "linked h n ys" using assms(1) by (auto simp: list_rep_def)
  then have "mmpkt_find_prev h l a = Some None"
    using assms(2) Cons by (simp add: mmpkt_find_prev_def find_prev_loop_absent)
  then show ?thesis using n(1) assms(2) Cons by (simp add: mmbuf_list_remove_def mmbuf_same_as_mmpkt)
qed

lemma clear_loop_linked:
  assumes "linked h p xs" "p \<noteq> None" "load_next h p = Some n"
  shows "clear_loop h p n = Some (\<lambda>a. if a \<in> set xs then None else h a)"
  using assms
proof (induction xs arbitrary: h p n)
  case Nil
  then show ?case by simp
next
  case (Cons x xs)
  then have p: "p = Some x" "h x = Some n" "linked h n xs" by auto
  have "x \<notin> set xs" using linked_distinct [OF Cons.prems(1)] by simp
  then have l: "linked (h(x := None)) n xs" using p(3) by simp
  have eq: "(\<lambda>a. if a \<in> set xs then None else (h(x := None)) a) = (\<lambda>a. if a \<in> set (x # xs) then None else h a)"
    by auto
  show ?case
  proof (cases n)
    case None
    then have "xs = []" using p(3) by simp
    moreover have "h(x := None) = (\<lambda>a. if a = x then None else h a)" by auto
    ultimately show ?thesis using p None by (simp add: clear_loop.simps)
  next
    case (Some b)
    then obtain m where m: "load_next (h(x := None)) n = Some m" using l by (auto simp: linked_Some)
    have "clear_loop (h(x := None)) n m = Some (\<lambda>a. if a \<in> set xs then None else (h(x := None)) a)"
      by (rule Cons.IH [OF l _ m]) (simp add: Some)
    then show ?thesis unfolding eq using p m Some by (simp only: clear_loop.simps [of h "Some x"] option.case) simp
  qed
qed

lemma mmbuf_list_clear_rep:
  assumes "list_rep h l xs"
  shows "\<exists>l'. mmbuf_list_clear (h, l) = Some ((\<lambda>a. if a \<in> set xs then None else h a), l')
    \<and> list_rep (\<lambda>a. if a \<in> set xs then None else h a) l' []"
proof (cases xs)
  case Nil
  then show ?thesis using assms list_rep_null [OF assms] by (simp add: mmbuf_list_clear_def)
next
  case (Cons x ys)
  then obtain n where n: "ml_head l = Some x" "h x = Some n" using assms by (auto simp: list_rep_def)
  have "linked h (ml_head l) xs" using assms by (simp add: list_rep_def)
  from clear_loop_linked [OF this, of n] n show ?thesis
    by (simp add: mmbuf_list_clear_def list_rep_def)
qed

interpretation buffers: fifo "packet_content live" "packet_allowed live" mmbuf_list_append mmbuf_list_dequeue for live
  unfolding mmbuf_same_as_mmpkt by (rule packets.fifo_axioms)

lemma mmbuf_list_fifo:
  assumes "packet_content live s xs" "queue_allowed (packet_allowed live) ops xs"
  shows "\<exists>s'. queue_run mmbuf_list_append mmbuf_list_dequeue ops s = Some (fst (queue_spec ops xs), s')
    \<and> packet_content live s' (snd (queue_spec ops xs))"
  by (rule buffers.run_refines_list [OF assms])

end
