(* ===== verification/Evtq.thy ===== *)
theory Evtq
  imports Chain
begin

section \<open>The event queue of the UMAC\<close>

text \<open>
  \<open>morselib/src/umac/core/umac_evtq.c\<close>: events live in a pool of \<open>UMAC_EVTQ_MAXLEN\<close> elements, linked either into
  the queue or into the free list; an event being handled is in neither. The elements of the pool are the
  addresses below the pool's size; \<open>eq_pool\<close> is what an event carries besides its \<open>next\<close> member. The
  protected operations run in critical sections and are atomic steps here.
\<close>

subsection \<open>State and operations\<close>

abbreviation (input) UMAC_EVTQ_MAXLEN :: nat where "UMAC_EVTQ_MAXLEN \<equiv> 25"

record 'e umac_core_evtq =
  eq_head :: ptr
  eq_tail :: ptr
  eq_free :: ptr
  eq_next :: links
  eq_pool :: "nat \<Rightarrow> 'e"

datatype umac_evtq_position = EVTQ_HEAD | EVTQ_TAIL

definition umac_evtq_init :: "'e umac_core_evtq \<Rightarrow> 'e umac_core_evtq option" where
  "umac_evtq_init q = foldM (\<lambda>ii q. do {
       next \<leftarrow> store_next (eq_next q) (Some ii) (eq_free q);
       Some (q\<lparr>eq_next := next, eq_free := Some ii\<rparr>)
     }) [0..<UMAC_EVTQ_MAXLEN] q"

definition umac_evt_alloc_protected :: "'e umac_core_evtq \<Rightarrow> (ptr \<times> 'e umac_core_evtq) option" where
  "umac_evt_alloc_protected q =
     (case eq_free q of
        None \<Rightarrow> Some (None, q)
      | Some evt \<Rightarrow> do { next \<leftarrow> eq_next q evt; Some (Some evt, q\<lparr>eq_free := next\<rparr>) })"

definition umac_evt_free_protected :: "nat \<Rightarrow> 'e umac_core_evtq \<Rightarrow> 'e umac_core_evtq option" where
  "umac_evt_free_protected evt q = do {
     next \<leftarrow> store_next (eq_next q) (Some evt) (eq_free q);
     Some (q\<lparr>eq_next := next, eq_free := Some evt\<rparr>)
   }"

definition umac_evt_free :: "nat \<Rightarrow> 'e umac_core_evtq \<Rightarrow> 'e umac_core_evtq option" where
  "umac_evt_free evt q = umac_evt_free_protected evt q"

definition umac_evt_queue_protected ::
  "'e \<Rightarrow> umac_evtq_position \<Rightarrow> 'e umac_core_evtq \<Rightarrow> (bool \<times> 'e umac_core_evtq) option" where
  "umac_evt_queue_protected evt position q = do {
     (new_evt, q) \<leftarrow> umac_evt_alloc_protected q;
     case new_evt of
       None \<Rightarrow> Some (False, q)
     | Some new_evt \<Rightarrow> do {
         let q = q\<lparr>eq_pool := (eq_pool q)(new_evt := evt)\<rparr>;
         q \<leftarrow>
           (case position of
              EVTQ_HEAD \<Rightarrow> do {
                next \<leftarrow> store_next (eq_next q) (Some new_evt) (eq_head q);
                let q = q\<lparr>eq_next := next\<rparr>;
                q \<leftarrow> (if eq_tail q = None then do {
                        ensure (eq_head q = None);
                        Some (q\<lparr>eq_tail := Some new_evt\<rparr>)
                      }
                      else Some q);
                Some (q\<lparr>eq_head := Some new_evt\<rparr>)
              }
            | EVTQ_TAIL \<Rightarrow> do {
                next \<leftarrow> store_next (eq_next q) (Some new_evt) None;
                let q = q\<lparr>eq_next := next\<rparr>;
                if eq_tail q = None then do {
                  ensure (eq_head q = None);
                  Some (q\<lparr>eq_head := Some new_evt, eq_tail := Some new_evt\<rparr>)
                }
                else do {
                  last \<leftarrow> load_next (eq_next q) (eq_tail q);
                  ensure (last = None);
                  next \<leftarrow> store_next (eq_next q) (eq_tail q) (Some new_evt);
                  Some (q\<lparr>eq_next := next, eq_tail := Some new_evt\<rparr>)
                }
              });
         Some (True, q)
       }
   }"

definition umac_evt_queue :: "'e \<Rightarrow> umac_evtq_position \<Rightarrow> 'e umac_core_evtq \<Rightarrow> (bool \<times> 'e umac_core_evtq) option" where
  "umac_evt_queue evt position q = umac_evt_queue_protected evt position q"

definition umac_evt_dequeue_protected :: "'e umac_core_evtq \<Rightarrow> (ptr \<times> 'e umac_core_evtq) option" where
  "umac_evt_dequeue_protected q =
     (case eq_head q of
        None \<Rightarrow> Some (None, q)
      | Some evt \<Rightarrow> do {
          ensure (eq_tail q \<noteq> None);
          next \<leftarrow> eq_next q evt;
          let q = q\<lparr>eq_head := next\<rparr>;
          let q = (if eq_head q = None then q\<lparr>eq_tail := None\<rparr> else q);
          next \<leftarrow> store_next (eq_next q) (Some evt) None;
          Some (Some evt, q\<lparr>eq_next := next\<rparr>)
        })"

definition umac_evt_dequeue :: "'e umac_core_evtq \<Rightarrow> (ptr \<times> 'e umac_core_evtq) option" where
  "umac_evt_dequeue q = umac_evt_dequeue_protected q"

definition umac_evtq_is_empty :: "'e umac_core_evtq \<Rightarrow> bool" where
  "umac_evtq_is_empty q \<longleftrightarrow> eq_head q = None"

subsection \<open>The invariant\<close>

text \<open>The pool is split between the queue, the free list and the events being handled.\<close>

definition evtq_rep :: "'e umac_core_evtq \<Rightarrow> nat list \<Rightarrow> nat list \<Rightarrow> nat set \<Rightarrow> bool" where
  "evtq_rep q xs fs held \<longleftrightarrow>
     linked (eq_next q) (eq_head q) xs \<and> eq_tail q = (if xs = [] then None else Some (last xs))
     \<and> linked (eq_next q) (eq_free q) fs \<and> dom (eq_next q) = {..<UMAC_EVTQ_MAXLEN}
     \<and> set xs \<union> set fs \<union> held = {..<UMAC_EVTQ_MAXLEN}
     \<and> set xs \<inter> set fs = {} \<and> (set xs \<union> set fs) \<inter> held = {}"

lemma evtq_rep_live: "evtq_rep q xs fs held \<Longrightarrow> a \<in> set xs \<union> set fs \<union> held \<Longrightarrow> \<exists>n. eq_next q a = Some n"
  by (auto simp: evtq_rep_def)

definition evtq_zero :: "'e umac_core_evtq \<Rightarrow> bool" where
  "evtq_zero q \<longleftrightarrow> eq_head q = None \<and> eq_tail q = None \<and> eq_free q = None
     \<and> dom (eq_next q) = {..<UMAC_EVTQ_MAXLEN}"

lemma evtq_init_rep:
  assumes "evtq_zero q"
  shows "\<exists>q'. umac_evtq_init q = Some q' \<and> evtq_rep q' [] (rev [0..<UMAC_EVTQ_MAXLEN]) {}"
proof -
  define P where "P i q' \<longleftrightarrow> eq_head q' = None \<and> eq_tail q' = None \<and> dom (eq_next q') = {..<UMAC_EVTQ_MAXLEN}
    \<and> linked (eq_next q') (eq_free q') (rev [0..<i])" for i and q' :: "'a umac_core_evtq"
  have "\<exists>q'. umac_evtq_init q = Some q' \<and> P UMAC_EVTQ_MAXLEN q'"
    unfolding umac_evtq_init_def
  proof (rule foldM_upt_invariant)
    show "P 0 q" using assms by (simp add: P_def evtq_zero_def)
    fix i q1
    assume i: "i < UMAC_EVTQ_MAXLEN" and P: "P i q1"
    then have "i \<in> dom (eq_next q1)" by (simp add: P_def)
    then show "\<exists>s'. do {
        next \<leftarrow> store_next (eq_next q1) (Some i) (eq_free q1);
        Some (q1\<lparr>eq_next := next, eq_free := Some i\<rparr>)
      } = Some s' \<and> P (Suc i) s'"
      using P i by (auto simp: P_def store_next_dom)
  qed
  then show ?thesis by (auto simp: P_def evtq_rep_def)
qed

lemma evt_alloc_rep:
  assumes "evtq_rep q xs (a # fs) held"
  shows "\<exists>q'. umac_evt_alloc_protected q = Some (Some a, q') \<and> evtq_rep q' xs fs (insert a held)
    \<and> eq_pool q' = eq_pool q"
proof -
  have "linked (eq_next q) (eq_free q) (a # fs)" using assms by (simp add: evtq_rep_def)
  then obtain n where n: "eq_free q = Some a" "eq_next q a = Some n" "linked (eq_next q) n fs" "a \<notin> set fs"
    using linked_distinct by fastforce
  then have "umac_evt_alloc_protected q = Some (Some a, q\<lparr>eq_free := n\<rparr>)" by (simp add: umac_evt_alloc_protected_def)
  moreover have "evtq_rep (q\<lparr>eq_free := n\<rparr>) xs fs (insert a held)"
    using assms n(3,4) by (auto simp: evtq_rep_def)
  ultimately show ?thesis by simp
qed

lemma evt_alloc_empty: "evtq_rep q xs [] held \<Longrightarrow> umac_evt_alloc_protected q = Some (None, q)"
  by (simp add: evtq_rep_def umac_evt_alloc_protected_def)

lemma evt_free_rep:
  assumes "evtq_rep q xs fs held" "a \<in> held"
  shows "\<exists>q'. umac_evt_free a q = Some q' \<and> evtq_rep q' xs (a # fs) (held - {a}) \<and> eq_pool q' = eq_pool q"
proof -
  have a: "a \<notin> set xs" "a \<notin> set fs" "a < UMAC_EVTQ_MAXLEN" "a \<in> dom (eq_next q)"
    using assms by (auto simp: evtq_rep_def)
  let ?q = "q\<lparr>eq_next := (eq_next q)(a \<mapsto> eq_free q), eq_free := Some a\<rparr>"
  have "umac_evt_free a q = Some ?q"
    using store_next_dom [OF a(4)] by (simp add: umac_evt_free_def umac_evt_free_protected_def)
  moreover have "evtq_rep ?q xs (a # fs) (held - {a})"
    using assms a(1-3) by (auto simp: evtq_rep_def)
  ultimately show ?thesis by auto
qed

lemma queue_head_rep:
  assumes "evtq_rep q xs (a # fs) held"
  shows "\<exists>q'. umac_evt_queue e EVTQ_HEAD q = Some (True, q') \<and> evtq_rep q' (a # xs) fs held
    \<and> eq_pool q' = (eq_pool q)(a := e)"
proof -
  obtain q1 where q1: "umac_evt_alloc_protected q = Some (Some a, q1)" "evtq_rep q1 xs fs (insert a held)"
      "eq_pool q1 = eq_pool q" using evt_alloc_rep [OF assms] by blast
  have a: "a \<notin> set xs" "a \<notin> set fs" "a < UMAC_EVTQ_MAXLEN" "a \<in> dom (eq_next q1)" "a \<notin> held"
    using q1(2) assms by (auto simp: evtq_rep_def)
  let ?q = "q1\<lparr>eq_pool := (eq_pool q)(a := e), eq_next := (eq_next q1)(a \<mapsto> eq_head q1), eq_head := Some a,
      eq_tail := (if eq_tail q1 = None then Some a else eq_tail q1)\<rparr>"
  have empty: "eq_tail q1 = None \<longleftrightarrow> xs = []" "eq_head q1 = None \<longleftrightarrow> xs = []"
    using q1(2) by (auto simp: evtq_rep_def elim: seg.elims)
  have "umac_evt_queue e EVTQ_HEAD q = Some (True, ?q)"
    using q1 store_next_dom [OF a(4)] empty
    by (simp add: umac_evt_queue_def umac_evt_queue_protected_def Let_def)
  moreover have "evtq_rep ?q (a # xs) fs held"
    using q1(2) a empty by (auto simp: evtq_rep_def)
  ultimately show ?thesis by auto
qed

lemma queue_tail_rep:
  assumes "evtq_rep q xs (a # fs) held"
  shows "\<exists>q'. umac_evt_queue e EVTQ_TAIL q = Some (True, q') \<and> evtq_rep q' (xs @ [a]) fs held
    \<and> eq_pool q' = (eq_pool q)(a := e)"
proof -
  obtain q1 where q1: "umac_evt_alloc_protected q = Some (Some a, q1)" "evtq_rep q1 xs fs (insert a held)"
      "eq_pool q1 = eq_pool q" using evt_alloc_rep [OF assms] by blast
  have a: "a \<notin> set xs" "a \<notin> set fs" "a < UMAC_EVTQ_MAXLEN" "a \<in> dom (eq_next q1)" "a \<notin> held"
    using q1(2) assms by (auto simp: evtq_rep_def)
  show ?thesis
  proof (cases "xs = []")
    case True
    let ?q = "q1\<lparr>eq_pool := (eq_pool q)(a := e), eq_next := (eq_next q1)(a \<mapsto> None), eq_head := Some a,
      eq_tail := Some a\<rparr>"
    have "eq_tail q1 = None" "eq_head q1 = None" using q1(2) True by (auto simp: evtq_rep_def)
    then have "umac_evt_queue e EVTQ_TAIL q = Some (True, ?q)"
      using q1 store_next_dom [OF a(4)]
      by (simp add: umac_evt_queue_def umac_evt_queue_protected_def Let_def)
    moreover have "evtq_rep ?q (xs @ [a]) fs held" using q1(2) a True by (auto simp: evtq_rep_def)
    ultimately show ?thesis by auto
  next
    case False
    then have tail: "eq_tail q1 = Some (last xs)" "last xs \<in> set xs" using q1(2) by (simp_all add: evtq_rep_def)
    have ne: "last xs \<noteq> a" "last xs \<notin> set fs" "last xs < UMAC_EVTQ_MAXLEN"
      using tail(2) a q1(2) by (auto simp: evtq_rep_def)
    obtain ys where ys: "xs = ys @ [last xs]" using False by (metis append_butlast_last_id)
    have "eq_next q1 (last xs) = Some None"
    proof -
      have "linked (eq_next q1) (eq_head q1) (ys @ [last xs])" using q1(2) ys by (simp add: evtq_rep_def)
      then show ?thesis by (auto simp: seg_append)
    qed
    moreover have "linked ((eq_next q1)(a \<mapsto> None, last xs \<mapsto> Some a)) (eq_head q1) (xs @ [a])"
      using q1(2) a False by (intro linked_append) (auto simp: evtq_rep_def)
    ultimately show ?thesis
      using q1 tail ne a store_next_dom [OF a(4)]
      by (auto simp: umac_evt_queue_def umac_evt_queue_protected_def evtq_rep_def Let_def)
  qed
qed

lemma queue_full: "evtq_rep q xs [] held \<Longrightarrow> umac_evt_queue e pos q = Some (False, q)"
  by (simp add: umac_evt_queue_def umac_evt_queue_protected_def evt_alloc_empty)

lemma evt_dequeue_rep:
  assumes "evtq_rep q (a # xs) fs held"
  shows "\<exists>q'. umac_evt_dequeue q = Some (Some a, q') \<and> evtq_rep q' xs fs (insert a held) \<and> eq_pool q' = eq_pool q"
proof -
  have "linked (eq_next q) (eq_head q) (a # xs)" using assms by (simp add: evtq_rep_def)
  then have "a \<notin> set xs" using linked_distinct by fastforce
  moreover have "a \<notin> set fs" using assms by (simp add: evtq_rep_def)
  ultimately have d: "a \<notin> set xs" "a \<notin> set fs" .
  obtain n where n: "eq_head q = Some a" "eq_next q a = Some n" "linked (eq_next q) n xs" "eq_tail q \<noteq> None"
    using assms by (auto simp: evtq_rep_def)
  have null: "n = None \<longleftrightarrow> xs = []" using linked_head [OF n(3)] by (cases xs) auto
  let ?q = "q\<lparr>eq_head := n, eq_tail := (if n = None then None else eq_tail q), eq_next := (eq_next q)(a \<mapsto> None)\<rparr>"
  have "umac_evt_dequeue q = Some (Some a, ?q)"
    using n by (simp add: umac_evt_dequeue_def umac_evt_dequeue_protected_def Let_def)
  moreover have "evtq_rep ?q xs fs (insert a held)"
    using assms n d null by (auto simp: evtq_rep_def)
  ultimately show ?thesis by auto
qed

lemma evt_dequeue_empty: "evtq_rep q [] fs held \<Longrightarrow> umac_evt_dequeue q = Some (None, q)"
  by (simp add: evtq_rep_def umac_evt_dequeue_def umac_evt_dequeue_protected_def)

subsection \<open>First in, first out\<close>

definition evt_content :: "'e umac_core_evtq \<Rightarrow> 'e list \<Rightarrow> bool" where
  "evt_content q es \<longleftrightarrow> (\<exists>xs fs. evtq_rep q xs fs {} \<and> es = List.map (eq_pool q) xs)"

text \<open>Queueing that must succeed, and taking the next event out with its return to the pool, as
  \<open>umac_core_evt_queue\<close> and the event loop do.\<close>

definition evt_put :: "'e \<Rightarrow> 'e umac_core_evtq \<Rightarrow> 'e umac_core_evtq option" where
  "evt_put e q = do { (queued, q) \<leftarrow> umac_evt_queue e EVTQ_TAIL q; ensure queued; Some q }"

definition evt_get :: "'e umac_core_evtq \<Rightarrow> ('e option \<times> 'e umac_core_evtq) option" where
  "evt_get q = do {
     (evt, q) \<leftarrow> umac_evt_dequeue q;
     case evt of
       None \<Rightarrow> Some (None, q)
     | Some a \<Rightarrow> do { q' \<leftarrow> umac_evt_free a q; Some (Some (eq_pool q a), q') }
   }"

lemma rep_distinct: "evtq_rep q xs fs held \<Longrightarrow> distinct xs \<and> distinct fs"
  using linked_distinct by (auto simp: evtq_rep_def)

lemma evt_rep_count:
  assumes "evtq_rep q xs fs held"
  shows "length xs + length fs + card held = UMAC_EVTQ_MAXLEN"
proof -
  have "card (set xs \<union> set fs \<union> held) = card {..<UMAC_EVTQ_MAXLEN}" using assms by (simp add: evtq_rep_def)
  moreover have "finite held" using assms by (metis evtq_rep_def finite_Un finite_lessThan)
  moreover have "set xs \<inter> set fs = {}" "(set xs \<union> set fs) \<inter> held = {}" using assms by (simp_all add: evtq_rep_def)
  ultimately show ?thesis using rep_distinct [OF assms] by (simp add: card_Un_disjoint distinct_card)
qed

lemma rep_space: "evtq_rep q xs fs held \<Longrightarrow> length xs + card held < UMAC_EVTQ_MAXLEN \<Longrightarrow> \<exists>a fs'. fs = a # fs'"
  using evt_rep_count [of q xs fs held] by (cases fs) auto

lemma rep_apart: "evtq_rep q xs (a # fs) held \<Longrightarrow> a \<notin> set xs"
  by (simp add: evtq_rep_def)

interpretation events: fifo evt_content "\<lambda>_ es. length es < UMAC_EVTQ_MAXLEN" evt_put evt_get
proof
  fix q :: "'e umac_core_evtq" and es e
  assume "evt_content q es" and room: "length es < UMAC_EVTQ_MAXLEN"
  then obtain xs fs where rep: "evtq_rep q xs fs {}" and es: "es = List.map (eq_pool q) xs"
    by (auto simp: evt_content_def)
  then obtain a fs' where fs: "fs = a # fs'" using room rep_space [OF rep] by auto
  then have "a \<notin> set xs" using rep rep_apart by blast
  then show "\<exists>s'. evt_put e q = Some s' \<and> evt_content s' (es @ [e])"
    using queue_tail_rep [of q xs a fs' "{}" e] rep fs es by (fastforce simp: evt_put_def evt_content_def)
next
  fix q :: "'e umac_core_evtq"
  assume "evt_content q []"
  then show "\<exists>s'. evt_get q = Some (None, s') \<and> evt_content s' []"
    by (auto simp: evt_content_def evt_get_def evt_dequeue_empty)
next
  fix q :: "'e umac_core_evtq" and e es
  assume "evt_content q (e # es)"
  then obtain x xs fs where rep: "evtq_rep q (x # xs) fs {}" and es: "e = eq_pool q x" "es = List.map (eq_pool q) xs"
    by (auto simp: evt_content_def)
  obtain q1 where q1: "umac_evt_dequeue q = Some (Some x, q1)" "evtq_rep q1 xs fs {x}" "eq_pool q1 = eq_pool q"
    using evt_dequeue_rep [OF rep] by auto
  obtain q2 where "umac_evt_free x q1 = Some q2" "evtq_rep q2 xs (x # fs) {}" "eq_pool q2 = eq_pool q"
    using evt_free_rep [OF q1(2)] q1(3) by auto
  then show "\<exists>s'. evt_get q = Some (Some e, s') \<and> evt_content s' es"
    using q1 es by (auto simp: evt_get_def evt_content_def)
qed

text \<open>The event queue is a queue of 25 events: after initialisation every interleaving of queueing and handling
  gives the events out in the order they were queued; an event queued at the start is the next one handled, and
  while 25 events are queued or being handled a further one is refused without changing the queue.\<close>

theorem umac_evtq_fifo:
  assumes "evtq_zero q" "queue_allowed (\<lambda>_ es. length es < UMAC_EVTQ_MAXLEN) ops []" "evtq_rep q1 xs fs held"
  shows "(\<exists>q0 q'. umac_evtq_init q = Some q0
      \<and> queue_run evt_put evt_get ops q0 = Some (fst (queue_spec ops []), q') \<and> evt_content q' (snd (queue_spec ops [])))
    \<and> (length xs + card held < UMAC_EVTQ_MAXLEN \<longrightarrow>
        (\<exists>q2 q3 a. umac_evt_queue e EVTQ_HEAD q1 = Some (True, q2) \<and> umac_evt_dequeue q2 = Some (Some a, q3)
          \<and> eq_pool q2 a = e \<and> eq_pool q3 a = e))
    \<and> (length xs + card held \<ge> UMAC_EVTQ_MAXLEN \<longrightarrow> umac_evt_queue e pos q1 = Some (False, q1))"
    (is "?run \<and> (?room \<longrightarrow> ?first) \<and> (?full \<longrightarrow> ?refused)")
proof (intro conjI impI)
  obtain q0 where q0: "umac_evtq_init q = Some q0" "evtq_rep q0 [] (rev [0..<UMAC_EVTQ_MAXLEN]) {}"
    using evtq_init_rep [OF assms(1)] by blast
  then have "evt_content q0 []" by (auto simp: evt_content_def)
  then show ?run using events.run_refines_list [OF _ assms(2)] q0(1) by blast
next
  assume ?room
  then obtain a fs' where fs: "fs = a # fs'" using rep_space [OF assms(3)] by blast
  obtain q2 where q2: "umac_evt_queue e EVTQ_HEAD q1 = Some (True, q2)" "evtq_rep q2 (a # xs) fs' held"
      "eq_pool q2 a = e"
    using queue_head_rep [of q1 xs a fs' held e] assms(3) fs by auto
  with evt_dequeue_rep [OF q2(2)] show ?first by auto
next
  assume ?full
  then show ?refused
    using queue_full [of q1 xs held] assms(3) evt_rep_count [OF assms(3)] by (cases fs) auto
qed

theorem umac_evtq_fifo_witness:
  "\<exists>q0 q'. umac_evtq_init \<lparr>eq_head = None, eq_tail = None, eq_free = None,
        eq_next = (\<lambda>a. if a < UMAC_EVTQ_MAXLEN then Some None else None), eq_pool = (\<lambda>_. 0 :: nat)\<rparr> = Some q0
      \<and> queue_run evt_put evt_get [Put 7, Put 8, Get, Put 9, Get, Get, Get] q0 = Some ([Some 7, Some 8, Some 9, None], q')"
proof -
  let ?q = "\<lparr>eq_head = None, eq_tail = None, eq_free = None,
    eq_next = (\<lambda>a. if a < UMAC_EVTQ_MAXLEN then Some None else None), eq_pool = (\<lambda>_. 0 :: nat)\<rparr>"
  let ?ops = "[Put 7, Put 8, Get, Put 9, Get, Get, Get] :: nat queue_op list"
  have zero: "evtq_zero ?q" by (auto simp: evtq_zero_def dom_def)
  then obtain q1 where rep: "evtq_rep q1 [] (rev [0..<UMAC_EVTQ_MAXLEN]) {}" "umac_evtq_init ?q = Some q1"
    using evtq_init_rep by blast
  have ops: "queue_allowed (\<lambda>_ es. length es < UMAC_EVTQ_MAXLEN) ?ops []" by simp
  show ?thesis
    using umac_evtq_fifo [OF zero ops rep(1), of 7 EVTQ_HEAD] by auto
qed

end
