(* ===== verification/Timeoutq.thy ===== *)
theory Timeoutq
  imports Chain Mmosal_Time
begin

section \<open>The timeout queue of the UMAC\<close>

text \<open>
  \<open>morselib/src/umac/core/umac_timeout.c\<close>: timers live in a pool of 20 elements, to which 64 more may be added.
  The elements of the pool are the addresses 0 to 19, those of the extra pool 20 to 83; each is linked into
  the queue, in the order the timers expire, or into the free list. A handler is a value of type \<open>'h\<close>, its
  arguments are pointers. The protected operations run in critical sections and are atomic steps here; the loops
  over the queue need not end, as nothing bounds them in the code, and are partial functions.
\<close>

subsection \<open>State\<close>

abbreviation (input) UMAC_TIMEOUTQ_MAXLEN :: nat where "UMAC_TIMEOUTQ_MAXLEN \<equiv> 20"
abbreviation (input) UMAC_TIMEOUTQ_EXTRA_LEN :: nat where "UMAC_TIMEOUTQ_EXTRA_LEN \<equiv> 64"
abbreviation (input) MAX_TIMEOUTS_DISPATCHED_AT_ONCE :: nat where "MAX_TIMEOUTS_DISPATCHED_AT_ONCE \<equiv> 5"

record 'h umac_core_timeout =
  timeout_abs_ms :: nat
  to_handler :: "'h option"
  to_arg1 :: ptr
  to_arg2 :: ptr

record 'h umac_core_timeoutq =
  tq_head :: ptr
  tq_free :: ptr
  tq_extra_pool :: bool
  tq_next :: links
  tq_to :: "nat \<Rightarrow> 'h umac_core_timeout"

definition zero_timeout :: "'h umac_core_timeout" where
  "zero_timeout = \<lparr>timeout_abs_ms = 0, to_handler = None, to_arg1 = None, to_arg2 = None\<rparr>"

abbreviation (input) abs_ms :: "'h umac_core_timeoutq \<Rightarrow> nat \<Rightarrow> nat" where
  "abs_ms q a \<equiv> timeout_abs_ms (tq_to q a)"

definition set_next :: "nat \<Rightarrow> ptr \<Rightarrow> 'h umac_core_timeoutq \<Rightarrow> 'h umac_core_timeoutq option" where
  "set_next a v q = do { h \<leftarrow> store_next (tq_next q) (Some a) v; Some (q\<lparr>tq_next := h\<rparr>) }"

subsection \<open>The pools\<close>

definition umac_timeoutq_init :: "'h umac_core_timeoutq \<Rightarrow> 'h umac_core_timeoutq option" where
  "umac_timeoutq_init q = foldM (\<lambda>ii q. do {
       q \<leftarrow> set_next ii (tq_free q) q;
       Some (q\<lparr>tq_free := Some ii\<rparr>)
     }) [0..<UMAC_TIMEOUTQ_MAXLEN] q"

datatype mmwlan_status = MMWLAN_SUCCESS | MMWLAN_NO_MEM

definition umac_timeoutq_alloc_extra ::
  "bool \<Rightarrow> 'h umac_core_timeoutq \<Rightarrow> (mmwlan_status \<times> 'h umac_core_timeoutq) option" where
  "umac_timeoutq_alloc_extra allocated q =
     (if tq_extra_pool q then Some (MMWLAN_SUCCESS, q)
      else if \<not> allocated then Some (MMWLAN_NO_MEM, q)
      else do {
        let extra = {UMAC_TIMEOUTQ_MAXLEN..<UMAC_TIMEOUTQ_MAXLEN + UMAC_TIMEOUTQ_EXTRA_LEN};
        let q = q\<lparr>tq_next := (\<lambda>a. if a \<in> extra then Some None else tq_next q a),
                  tq_to := (\<lambda>a. if a \<in> extra then zero_timeout else tq_to q a)\<rparr>;
        let tail = UMAC_TIMEOUTQ_MAXLEN;
        (head, q) \<leftarrow> foldM (\<lambda>ii (head, q). do {
            q \<leftarrow> set_next (UMAC_TIMEOUTQ_MAXLEN + ii) (Some head) q;
            Some (UMAC_TIMEOUTQ_MAXLEN + ii, q)
          }) [1..<UMAC_TIMEOUTQ_EXTRA_LEN] (UMAC_TIMEOUTQ_MAXLEN, q);
        let q = q\<lparr>tq_extra_pool := True\<rparr>;
        q \<leftarrow> set_next tail (tq_free q) q;
        Some (MMWLAN_SUCCESS, q\<lparr>tq_free := Some head\<rparr>)
      })"

definition umac_timeoutq_deinit :: "'h umac_core_timeoutq \<Rightarrow> 'h umac_core_timeoutq" where
  "umac_timeoutq_deinit q =
     q\<lparr>tq_next := (\<lambda>a. if tq_extra_pool q \<and> UMAC_TIMEOUTQ_MAXLEN \<le> a then None else tq_next q a),
       tq_extra_pool := False\<rparr>"

definition umac_timeoutq_alloc_protected :: "'h umac_core_timeoutq \<Rightarrow> (ptr \<times> 'h umac_core_timeoutq) option" where
  "umac_timeoutq_alloc_protected q =
     (case tq_free q of
        None \<Rightarrow> Some (None, q)
      | Some to \<Rightarrow> do { next \<leftarrow> tq_next q to; Some (Some to, q\<lparr>tq_free := next\<rparr>) })"

definition umac_timeoutq_alloc :: "'h umac_core_timeoutq \<Rightarrow> (ptr \<times> 'h umac_core_timeoutq) option" where
  "umac_timeoutq_alloc q = do {
     (to, q) \<leftarrow> umac_timeoutq_alloc_protected q;
     case to of
       None \<Rightarrow> Some (None, q)
     | Some a \<Rightarrow> do { q \<leftarrow> set_next a None q; Some (Some a, q) }
   }"

definition umac_timeoutq_free_protected :: "nat \<Rightarrow> 'h umac_core_timeoutq \<Rightarrow> 'h umac_core_timeoutq option" where
  "umac_timeoutq_free_protected to q = do {
     q \<leftarrow> set_next to (tq_free q) q;
     Some (q\<lparr>tq_free := Some to\<rparr>)
   }"

definition umac_timeoutq_free :: "nat \<Rightarrow> 'h umac_core_timeoutq \<Rightarrow> 'h umac_core_timeoutq option" where
  "umac_timeoutq_free to q = do {
     q \<leftarrow> set_next to None q;
     let q = q\<lparr>tq_to := (tq_to q)(to := zero_timeout)\<rparr>;
     umac_timeoutq_free_protected to q
   }"

subsection \<open>The queue\<close>

definition umac_timeoutq_dequeue_protected ::
  "nat \<Rightarrow> 'h umac_core_timeoutq \<Rightarrow> (ptr \<times> 'h umac_core_timeoutq) option" where
  "umac_timeoutq_dequeue_protected time_ms q =
     (case tq_head q of
        None \<Rightarrow> Some (None, q)
      | Some to \<Rightarrow>
          if mmosal_time_lt time_ms (abs_ms q to) then Some (None, q)
          else do { next \<leftarrow> tq_next q to; Some (Some to, q\<lparr>tq_head := next\<rparr>) })"

definition umac_timeoutq_dequeue ::
  "nat \<Rightarrow> 'h umac_core_timeoutq \<Rightarrow> (ptr \<times> 'h umac_core_timeoutq) option" where
  "umac_timeoutq_dequeue time_ms q = umac_timeoutq_dequeue_protected time_ms q"

partial_function (option) enqueue_walk ::
  "nat \<Rightarrow> nat \<Rightarrow> ptr \<Rightarrow> 'h umac_core_timeoutq \<Rightarrow> 'h umac_core_timeoutq option" where
  "enqueue_walk to walk next q =
     (case next of
        None \<Rightarrow> set_next walk (Some to) q
      | Some n \<Rightarrow>
          if mmosal_time_le (abs_ms q walk) (abs_ms q to) \<and> mmosal_time_lt (abs_ms q to) (abs_ms q n)
          then do { q \<leftarrow> set_next walk (Some to) q; set_next to (Some n) q }
          else do { next' \<leftarrow> tq_next q n; enqueue_walk to n next' q })"

definition umac_timeoutq_enqueue_protected :: "nat \<Rightarrow> 'h umac_core_timeoutq \<Rightarrow> 'h umac_core_timeoutq option" where
  "umac_timeoutq_enqueue_protected to q =
     (case tq_head q of
        None \<Rightarrow> Some (q\<lparr>tq_head := Some to\<rparr>)
      | Some head \<Rightarrow>
          if mmosal_time_lt (abs_ms q to) (abs_ms q head) then do {
            q \<leftarrow> set_next to (tq_head q) q;
            Some (q\<lparr>tq_head := Some to\<rparr>)
          }
          else do { next \<leftarrow> tq_next q head; enqueue_walk to head next q })"

definition umac_timeoutq_enqueue :: "nat \<Rightarrow> 'h umac_core_timeoutq \<Rightarrow> 'h umac_core_timeoutq option" where
  "umac_timeoutq_enqueue to q = do { q \<leftarrow> set_next to None q; umac_timeoutq_enqueue_protected to q }"

definition to_matches :: "'h option \<Rightarrow> ptr \<Rightarrow> ptr \<Rightarrow> 'h umac_core_timeout \<Rightarrow> bool" where
  "to_matches handler arg1 arg2 t \<longleftrightarrow> to_handler t = handler \<and> to_arg1 t = arg1 \<and> to_arg2 t = arg2"

partial_function (option) remove_one_walk ::
  "('h umac_core_timeout \<Rightarrow> bool) \<Rightarrow> nat \<Rightarrow> ptr \<Rightarrow> 'h umac_core_timeoutq \<Rightarrow> (ptr \<times> 'h umac_core_timeoutq) option" where
  "remove_one_walk match prev walk q =
     (case walk of
        None \<Rightarrow> Some (None, q)
      | Some a \<Rightarrow> do {
          next \<leftarrow> tq_next q a;
          if match (tq_to q a) then do { q \<leftarrow> set_next prev next q; Some (Some a, q) }
          else remove_one_walk match a next q
        })"

definition umac_timeoutq_remove_one_protected ::
  "'h option \<Rightarrow> ptr \<Rightarrow> ptr \<Rightarrow> 'h umac_core_timeoutq \<Rightarrow> (ptr \<times> 'h umac_core_timeoutq) option" where
  "umac_timeoutq_remove_one_protected handler arg1 arg2 q =
     (case tq_head q of
        None \<Rightarrow> Some (None, q)
      | Some walk \<Rightarrow> do {
          next \<leftarrow> tq_next q walk;
          if to_matches handler arg1 arg2 (tq_to q walk) then Some (Some walk, q\<lparr>tq_head := next\<rparr>)
          else remove_one_walk (to_matches handler arg1 arg2) walk next q
        })"

definition umac_timeoutq_peek_next_timeout_protected :: "'h umac_core_timeoutq \<Rightarrow> nat option" where
  "umac_timeoutq_peek_next_timeout_protected q = map_option (abs_ms q) (tq_head q)"

definition umac_timeoutq_peek_next_timeout :: "'h umac_core_timeoutq \<Rightarrow> nat option" where
  "umac_timeoutq_peek_next_timeout q = umac_timeoutq_peek_next_timeout_protected q"

partial_function (option) cancel_head ::
  "('h umac_core_timeout \<Rightarrow> bool) \<Rightarrow> nat \<Rightarrow> 'h umac_core_timeoutq \<Rightarrow> (nat \<times> 'h umac_core_timeoutq) option" where
  "cancel_head match count q =
     (case tq_head q of
        None \<Rightarrow> Some (count, q)
      | Some walk \<Rightarrow>
          if match (tq_to q walk) then do {
            next \<leftarrow> tq_next q walk;
            let q = q\<lparr>tq_head := next\<rparr>;
            q \<leftarrow> umac_timeoutq_free_protected walk q;
            cancel_head match (count + 1) q
          }
          else Some (count, q))"

partial_function (option) cancel_rest ::
  "('h umac_core_timeout \<Rightarrow> bool) \<Rightarrow> nat \<Rightarrow> nat \<Rightarrow> ptr \<Rightarrow> 'h umac_core_timeoutq \<Rightarrow> (nat \<times> 'h umac_core_timeoutq) option" where
  "cancel_rest match count prev walk q =
     (case walk of
        None \<Rightarrow> Some (count, q)
      | Some a \<Rightarrow> do {
          next \<leftarrow> tq_next q a;
          if match (tq_to q a) then do {
            q \<leftarrow> set_next prev next q;
            q \<leftarrow> umac_timeoutq_free_protected a q;
            walk \<leftarrow> tq_next q prev;
            cancel_rest match (count + 1) prev walk q
          }
          else cancel_rest match count a next q
        })"

definition umac_timeoutq_cancel_protected ::
  "'h option \<Rightarrow> ptr \<Rightarrow> ptr \<Rightarrow> 'h umac_core_timeoutq \<Rightarrow> (nat \<times> 'h umac_core_timeoutq) option" where
  "umac_timeoutq_cancel_protected handler arg1 arg2 q = do {
     (count, q) \<leftarrow> cancel_head (to_matches handler arg1 arg2) 0 q;
     case tq_head q of
       None \<Rightarrow> Some (count, q)
     | Some prev \<Rightarrow> do {
         walk \<leftarrow> tq_next q prev;
         cancel_rest (to_matches handler arg1 arg2) count prev walk q
       }
   }"

partial_function (option) is_registered_walk ::
  "('h umac_core_timeout \<Rightarrow> bool) \<Rightarrow> ptr \<Rightarrow> 'h umac_core_timeoutq \<Rightarrow> bool option" where
  "is_registered_walk match walk q =
     (case walk of
        None \<Rightarrow> Some False
      | Some a \<Rightarrow>
          if match (tq_to q a) then Some True
          else do { next \<leftarrow> tq_next q a; is_registered_walk match next q })"

definition umac_timeoutq_is_timeout_registered_protected ::
  "'h option \<Rightarrow> ptr \<Rightarrow> ptr \<Rightarrow> 'h umac_core_timeoutq \<Rightarrow> bool option" where
  "umac_timeoutq_is_timeout_registered_protected handler arg1 arg2 q =
     is_registered_walk (to_matches handler arg1 arg2) (tq_head q) q"

definition umac_timeoutq_deplete_timeout_protected ::
  "nat \<Rightarrow> nat \<Rightarrow> 'h option \<Rightarrow> ptr \<Rightarrow> ptr \<Rightarrow> 'h umac_core_timeoutq \<Rightarrow> (int \<times> 'h umac_core_timeoutq) option" where
  "umac_timeoutq_deplete_timeout_protected now delta_ms handler arg1 arg2 q = do {
     let new_timeout = u32 (now + delta_ms);
     (to, q) \<leftarrow> umac_timeoutq_remove_one_protected handler arg1 arg2 q;
     case to of
       None \<Rightarrow> Some (-1, q)
     | Some a \<Rightarrow> do {
         let sooner = mmosal_time_lt new_timeout (abs_ms q a);
         let q = (if sooner then q\<lparr>tq_to := (tq_to q)(a := (tq_to q a)\<lparr>timeout_abs_ms := new_timeout\<rparr>)\<rparr> else q);
         q \<leftarrow> umac_timeoutq_enqueue_protected a q;
         Some (if sooner then 1 else 0, q)
       }
   }"

subsection \<open>The invariant\<close>

text \<open>The pool is split between the queue, the free list and the timers in the hands of an operation.\<close>

definition pool_size :: "'h umac_core_timeoutq \<Rightarrow> nat" where
  "pool_size q = (if tq_extra_pool q then UMAC_TIMEOUTQ_MAXLEN + UMAC_TIMEOUTQ_EXTRA_LEN else UMAC_TIMEOUTQ_MAXLEN)"

definition tq_rep :: "'h umac_core_timeoutq \<Rightarrow> nat list \<Rightarrow> nat list \<Rightarrow> nat set \<Rightarrow> bool" where
  "tq_rep q xs fs held \<longleftrightarrow>
     linked (tq_next q) (tq_head q) xs \<and> linked (tq_next q) (tq_free q) fs
     \<and> dom (tq_next q) = {..<pool_size q} \<and> set xs \<union> set fs \<union> held = {..<pool_size q}
     \<and> set xs \<inter> set fs = {} \<and> (set xs \<union> set fs) \<inter> held = {}"

lemma pool_size_update [simp]:
  "pool_size (q\<lparr>tq_next := h\<rparr>) = pool_size q" "pool_size (q\<lparr>tq_head := p\<rparr>) = pool_size q"
  "pool_size (q\<lparr>tq_free := p\<rparr>) = pool_size q" "pool_size (q\<lparr>tq_to := t\<rparr>) = pool_size q"
  by (simp_all add: pool_size_def)

lemma rep_parts:
  assumes "tq_rep q xs fs held"
  shows "linked (tq_next q) (tq_head q) xs" "linked (tq_next q) (tq_free q) fs"
    "distinct xs" "distinct fs" "set xs \<inter> set fs = {}" "(set xs \<union> set fs) \<inter> held = {}"
    "set xs \<union> set fs \<union> held = {..<pool_size q}" "dom (tq_next q) = {..<pool_size q}"
  using assms linked_distinct unfolding tq_rep_def by blast+

lemma rep_live: "tq_rep q xs fs held \<Longrightarrow> a \<in> set xs \<union> set fs \<union> held \<Longrightarrow> a \<in> dom (tq_next q)"
  unfolding tq_rep_def by blast

lemma rep_count:
  assumes "tq_rep q xs fs held"
  shows "length xs + length fs + card held = pool_size q"
proof -
  note rep = rep_parts [OF assms]
  have "card (set xs \<union> set fs \<union> held) = card {..<pool_size q}" using rep(7) by simp
  moreover have "finite held" using rep(7) by (metis finite_Un finite_lessThan)
  ultimately show ?thesis using rep(3-6) by (simp add: card_Un_disjoint distinct_card)
qed

lemma set_next_live: "a \<in> dom (tq_next q) \<Longrightarrow> set_next a v q = Some (q\<lparr>tq_next := (tq_next q)(a \<mapsto> v)\<rparr>)"
  by (simp add: set_next_def store_next_dom)

text \<open>Operations that rearrange the queue and leave the links of the free elements alone.\<close>

lemma rep_requeue:
  assumes rep: "tq_rep q xs fs held" and new: "linked h p ys" and sub: "set ys \<subseteq> set xs \<union> held"
    and free: "\<And>b. b \<in> set fs \<Longrightarrow> h b = tq_next q b" and dom: "dom h = dom (tq_next q)"
  shows "tq_rep (q\<lparr>tq_next := h, tq_head := p, tq_to := t\<rparr>) ys fs (set xs \<union> held - set ys)"
proof -
  note r = rep_parts [OF rep]
  have "linked h (tq_free q) fs = linked (tq_next q) (tq_free q) fs" by (rule seg_frame_set) (rule free)
  then have "linked h (tq_free q) fs" using r(2) by simp
  moreover have "set ys \<union> set fs \<union> (set xs \<union> held - set ys) = {..<pool_size q}" using r(7) sub by blast
  moreover have "set ys \<inter> set fs = {}" "(set ys \<union> set fs) \<inter> (set xs \<union> held - set ys) = {}" using r(5,6) sub by blast+
  ultimately show ?thesis using new dom r(8) by (simp add: tq_rep_def)
qed

definition tq_zero :: "'h umac_core_timeoutq \<Rightarrow> bool" where
  "tq_zero q \<longleftrightarrow> tq_head q = None \<and> tq_free q = None \<and> \<not> tq_extra_pool q \<and> dom (tq_next q) = {..<UMAC_TIMEOUTQ_MAXLEN}"

lemma init_rep:
  assumes "tq_zero q"
  shows "\<exists>q'. umac_timeoutq_init q = Some q' \<and> tq_rep q' [] (rev [0..<UMAC_TIMEOUTQ_MAXLEN]) {} \<and> \<not> tq_extra_pool q'"
proof -
  define P where "P i q' \<longleftrightarrow> tq_head q' = None \<and> \<not> tq_extra_pool q' \<and> dom (tq_next q') = {..<UMAC_TIMEOUTQ_MAXLEN}
    \<and> linked (tq_next q') (tq_free q') (rev [0..<i])" for i and q' :: "'a umac_core_timeoutq"
  have "\<exists>q'. umac_timeoutq_init q = Some q' \<and> P UMAC_TIMEOUTQ_MAXLEN q'"
    unfolding umac_timeoutq_init_def
  proof (rule foldM_upt_invariant)
    show "P 0 q" using assms by (simp add: P_def tq_zero_def)
    fix i q1
    assume i: "i < UMAC_TIMEOUTQ_MAXLEN" and P: "P i q1"
    then have "i \<in> dom (tq_next q1)" by (simp add: P_def)
    then show "\<exists>s'. do {
        q1 \<leftarrow> set_next i (tq_free q1) q1;
        Some (q1\<lparr>tq_free := Some i\<rparr>)
      } = Some s' \<and> P (Suc i) s'"
      using P i by (auto simp: P_def set_next_live)
  qed
  then obtain q' where "umac_timeoutq_init q = Some q'" "P UMAC_TIMEOUTQ_MAXLEN q'" by blast
  moreover have "tq_rep q' [] (rev [0..<UMAC_TIMEOUTQ_MAXLEN]) {}"
    using calculation(2) unfolding P_def tq_rep_def by (auto simp: pool_size_def)
  ultimately show ?thesis by (auto simp: P_def)
qed

lemma alloc_rep:
  assumes "tq_rep q xs (a # fs) held"
  shows "\<exists>q'. umac_timeoutq_alloc q = Some (Some a, q') \<and> tq_rep q' xs fs (insert a held)
    \<and> tq_to q' = tq_to q \<and> tq_next q' a = Some None \<and> tq_extra_pool q' = tq_extra_pool q"
proof -
  note r = rep_parts [OF assms]
  obtain n where n: "tq_free q = Some a" "tq_next q a = Some n" "linked (tq_next q) n fs" using r(2) by auto
  have a: "a \<in> dom (tq_next q)" "a \<notin> set xs" "a \<notin> set fs" using n(2) r(4,5) by auto
  let ?q = "q\<lparr>tq_free := n, tq_next := (tq_next q)(a \<mapsto> None)\<rparr>"
  have "umac_timeoutq_alloc q = Some (Some a, ?q)"
    using n a by (simp add: umac_timeoutq_alloc_def umac_timeoutq_alloc_protected_def set_next_live)
  moreover have "tq_rep ?q xs fs (insert a held)"
    using r n a by (auto simp: tq_rep_def)
  ultimately show ?thesis by simp
qed

lemma alloc_empty: "tq_rep q xs [] held \<Longrightarrow> umac_timeoutq_alloc q = Some (None, q)"
  by (simp add: tq_rep_def umac_timeoutq_alloc_def umac_timeoutq_alloc_protected_def)

lemma free_protected_rep:
  assumes "tq_rep q xs fs held" "a \<in> held"
  shows "\<exists>q'. umac_timeoutq_free_protected a q = Some q' \<and> tq_rep q' xs (a # fs) (held - {a})
    \<and> tq_to q' = tq_to q \<and> tq_extra_pool q' = tq_extra_pool q \<and> tq_head q' = tq_head q
    \<and> (\<forall>b. b \<noteq> a \<longrightarrow> tq_next q' b = tq_next q b)"
proof -
  note r = rep_parts [OF assms(1)]
  have a: "a \<in> dom (tq_next q)" "a \<notin> set xs" "a \<notin> set fs" using rep_live [OF assms(1)] assms(2) r(6) by blast+
  let ?q = "q\<lparr>tq_next := (tq_next q)(a \<mapsto> tq_free q), tq_free := Some a\<rparr>"
  have "umac_timeoutq_free_protected a q = Some ?q"
    using a(1) by (simp add: umac_timeoutq_free_protected_def set_next_live)
  moreover have "tq_rep ?q xs (a # fs) (held - {a})"
    using r a assms(2) by (auto simp: tq_rep_def)
  ultimately show ?thesis by simp
qed

lemma free_rep:
  assumes "tq_rep q xs fs held" "a \<in> held"
  shows "\<exists>q'. umac_timeoutq_free a q = Some q' \<and> tq_rep q' xs (a # fs) (held - {a})
    \<and> tq_to q' = (tq_to q)(a := zero_timeout) \<and> tq_extra_pool q' = tq_extra_pool q"
proof -
  note r = rep_parts [OF assms(1)]
  have a: "a \<in> dom (tq_next q)" "a \<notin> set xs" "a \<notin> set fs" using rep_live [OF assms(1)] assms(2) r(6) by blast+
  let ?q = "q\<lparr>tq_next := (tq_next q)(a \<mapsto> None), tq_to := (tq_to q)(a := zero_timeout)\<rparr>"
  have "tq_rep ?q xs fs held" using r a by (auto simp: tq_rep_def)
  from free_protected_rep [OF this assms(2)] show ?thesis
    using a(1) by (auto simp: umac_timeoutq_free_def set_next_live)
qed

lemma dequeue_due:
  assumes "tq_rep q (a # xs) fs held" "\<not> mmosal_time_lt now (abs_ms q a)"
  shows "\<exists>q'. umac_timeoutq_dequeue now q = Some (Some a, q') \<and> tq_rep q' xs fs (insert a held)
    \<and> tq_to q' = tq_to q \<and> tq_extra_pool q' = tq_extra_pool q"
proof -
  note r = rep_parts [OF assms(1)]
  obtain n where n: "tq_head q = Some a" "tq_next q a = Some n" "linked (tq_next q) n xs" using r(1) by auto
  have "umac_timeoutq_dequeue now q = Some (Some a, q\<lparr>tq_head := n\<rparr>)"
    using n assms(2) by (simp add: umac_timeoutq_dequeue_def umac_timeoutq_dequeue_protected_def)
  moreover have "tq_rep (q\<lparr>tq_head := n\<rparr>) xs fs (insert a held)"
    using r n by (auto simp: tq_rep_def)
  ultimately show ?thesis by simp
qed

lemma dequeue_none:
  assumes "tq_rep q xs fs held" "xs = [] \<or> mmosal_time_lt now (abs_ms q (hd xs))"
  shows "umac_timeoutq_dequeue now q = Some (None, q)"
  using assms linked_head [OF rep_parts(1) [OF assms(1)]]
  by (auto simp: umac_timeoutq_dequeue_def umac_timeoutq_dequeue_protected_def split: if_splits)

subsection \<open>Placing a timer\<close>

text \<open>\<open>place later a xs\<close> puts \<open>a\<close> in front of the first element that is later, behind all others.\<close>

definition place :: "('a \<Rightarrow> bool) \<Rightarrow> 'a \<Rightarrow> 'a list \<Rightarrow> 'a list" where
  "place later a xs = takeWhile (\<lambda>x. \<not> later x) xs @ a # dropWhile (\<lambda>x. \<not> later x) xs"

lemma place_simps [simp]:
  "place later a [] = [a]"
  "place later a (x # xs) = (if later x then a # x # xs else x # place later a xs)"
  by (simp_all add: place_def)

lemma set_place [simp]: "set (place later a xs) = insert a (set xs)"
  by (induction xs) auto

lemma enqueue_walk_links:
  assumes "seg (tq_next q) p ps (Some w)" "tq_next q w = Some next" "linked (tq_next q) next ys"
    and "a \<notin> set (ps @ w # ys)" "a \<in> dom (tq_next q)"
    and "\<And>x. x \<in> set (w # ys) \<Longrightarrow> mmosal_time_le (abs_ms q x) (abs_ms q a) \<longleftrightarrow> \<not> mmosal_time_lt (abs_ms q a) (abs_ms q x)"
    and "\<not> mmosal_time_lt (abs_ms q a) (abs_ms q w)"
    and "tq_next q a = Some None \<or> (\<exists>y\<in>set ys. mmosal_time_lt (abs_ms q a) (abs_ms q y))"
    and "distinct (ps @ w # ys)"
  shows "\<exists>h. enqueue_walk a w next q = Some (q\<lparr>tq_next := h\<rparr>) \<and> dom h = dom (tq_next q)
    \<and> linked h p (ps @ w # place (\<lambda>y. mmosal_time_lt (abs_ms q a) (abs_ms q y)) a ys)
    \<and> (\<forall>b. b \<notin> set (a # w # ys) \<longrightarrow> h b = tq_next q b)"
  using assms
proof (induction ys arbitrary: ps w "next")
  case Nil
  then have nx: "next = None" "tq_next q a = Some None" "w \<in> dom (tq_next q)" by auto
  let ?h = "(tq_next q)(w \<mapsto> Some a)"
  have w: "w \<notin> set ps" "w \<noteq> a" "a \<notin> set ps" using Nil.prems(4,9) by auto
  show ?case
  proof (intro exI conjI allI impI)
    show "enqueue_walk a w next q = Some (q\<lparr>tq_next := ?h\<rparr>)"
      using nx by (simp add: enqueue_walk.simps set_next_live)
    show "dom ?h = dom (tq_next q)" using nx(3) by (simp add: insert_absorb)
    show "seg ?h p (ps @ w # place (\<lambda>y. mmosal_time_lt (abs_ms q a) (abs_ms q y)) a []) None"
      using Nil.prems(1) w nx by (simp add: seg_append)
    show "\<And>b. b \<notin> set (a # w # []) \<Longrightarrow> ?h b = tq_next q b" by simp
  qed
next
  case (Cons y ys)
  then obtain n where n: "next = Some y" "tq_next q y = Some n" "linked (tq_next q) n ys" by auto
  have w: "w \<in> dom (tq_next q)" "w \<notin> set ps" "w \<noteq> a" "a \<notin> set ps" "a \<noteq> y" "y \<noteq> w" "y \<notin> set ps" "y \<notin> set ys"
    "w \<notin> set ys" "a \<notin> set ys" "set ps \<inter> set ys = {}" using Cons.prems(2,4,9) by auto
  show ?case
  proof (cases "mmosal_time_lt (abs_ms q a) (abs_ms q y)")
    case True
    let ?h = "(tq_next q)(w \<mapsto> Some a, a \<mapsto> Some y)"
    have "place (\<lambda>y. mmosal_time_lt (abs_ms q a) (abs_ms q y)) a (y # ys) = a # y # ys" using True by simp
    moreover have "enqueue_walk a w next q = Some (q\<lparr>tq_next := ?h\<rparr>)"
      using True n w Cons.prems(5,6,7) by (simp add: enqueue_walk.simps [of a w] set_next_live)
    moreover have "linked ?h p (ps @ w # a # y # ys)"
      using Cons.prems(1) n w by (simp add: seg_append)
    moreover have "dom ?h = dom (tq_next q)" using w Cons.prems(5) by (simp add: insert_absorb)
    moreover have "\<forall>b. b \<notin> set (a # w # y # ys) \<longrightarrow> ?h b = tq_next q b" by simp
    ultimately show ?thesis by metis
  next
    case False
    have "\<exists>h. enqueue_walk a y n q = Some (q\<lparr>tq_next := h\<rparr>) \<and> dom h = dom (tq_next q)
      \<and> linked h p ((ps @ [w]) @ y # place (\<lambda>y. mmosal_time_lt (abs_ms q a) (abs_ms q y)) a ys)
      \<and> (\<forall>b. b \<notin> set (a # y # ys) \<longrightarrow> h b = tq_next q b)"
    proof (rule Cons.IH)
      show "seg (tq_next q) p (ps @ [w]) (Some y)" using Cons.prems(1,2) n(1) by (simp add: seg_append)
      show "tq_next q a = Some None \<or> (\<exists>y\<in>set ys. mmosal_time_lt (abs_ms q a) (abs_ms q y))"
        using Cons.prems(8) False by auto
    qed (use Cons.prems n False in auto)
    moreover have "enqueue_walk a w next q = enqueue_walk a y n q"
      using False n by (simp add: enqueue_walk.simps [of a w])
    ultimately show ?thesis using False by auto
  qed
qed

text \<open>Times within one half of the 32-bit range, counted from \<open>base\<close>.\<close>

definition in_window :: "nat \<Rightarrow> nat \<Rightarrow> bool" where
  "in_window base t \<longleftrightarrow> t < 4294967296 \<and> sub32 t base < 2147483648"

lemma u32_add_sub32: "t < 4294967296 \<Longrightarrow> u32 (b + sub32 t b) = t"
proof -
  assume t: "t < 4294967296"
  have "int (u32 (b + sub32 t b)) = (int b + int (sub32 (u32 t) (u32 b))) mod 4294967296"
    using t by (simp add: u32_def zmod_int sub32_def)
  also have "... = (int b + (int t - int b) mod 4294967296) mod 4294967296" by (simp add: sub32_wrap)
  also have "... = int t" using t by (simp add: mod_add_right_eq)
  finally show ?thesis by simp
qed

lemma window_compare:
  assumes "in_window base t" "in_window base u"
  shows "mmosal_time_lt t u \<longleftrightarrow> sub32 t base < sub32 u base" "mmosal_time_le t u \<longleftrightarrow> sub32 t base \<le> sub32 u base"
proof -
  have "near (base + sub32 t base) (base + sub32 u base)" using assms by (simp add: near_def in_window_def)
  from time_compare [OF this] show "mmosal_time_lt t u \<longleftrightarrow> sub32 t base < sub32 u base"
    "mmosal_time_le t u \<longleftrightarrow> sub32 t base \<le> sub32 u base"
    using assms by (simp_all add: u32_add_sub32 in_window_def)
qed

definition due_in :: "nat \<Rightarrow> 'h umac_core_timeoutq \<Rightarrow> nat \<Rightarrow> nat" where
  "due_in base q a = sub32 (abs_ms q a) base"

text \<open>The queue is in order: every timer is within the window of \<open>base\<close> and none expires before its predecessor.\<close>

definition in_order :: "nat \<Rightarrow> 'h umac_core_timeoutq \<Rightarrow> nat list \<Rightarrow> bool" where
  "in_order base q xs \<longleftrightarrow> (\<forall>a\<in>set xs. in_window base (abs_ms q a)) \<and> sorted (List.map (due_in base q) xs)"

lemma sorted_place:
  fixes f :: "'a \<Rightarrow> 'b :: linorder"
  assumes "sorted (List.map f xs)"
  shows "sorted (List.map f (place (\<lambda>x. f a < f x) a xs))"
  using assms by (induction xs) (auto simp: not_less intro: less_imp_le order.trans)

lemma place_cong:
  assumes "\<And>x. x \<in> set xs \<Longrightarrow> P x = Q x"
  shows "place P a xs = place Q a xs"
  using assms by (induction xs) auto

text \<open>The order only matters for those in the queue: \<open>umac_timeoutq_enqueue_protected\<close> places any timer whose
  \<open>next\<close> member is null, or in front of which a later one is.\<close>

lemma enqueue_protected_rep:
  assumes rep: "tq_rep q xs fs held" and a: "a \<in> held"
    and win: "\<forall>x\<in>set (a # xs). in_window base (abs_ms q x)"
    and stale: "tq_next q a = Some None \<or> (\<exists>y\<in>set xs. mmosal_time_lt (abs_ms q a) (abs_ms q y))"
  shows "\<exists>q'. umac_timeoutq_enqueue_protected a q = Some q'
    \<and> tq_rep q' (place (\<lambda>x. due_in base q a < due_in base q x) a xs) fs (held - {a})
    \<and> tq_to q' = tq_to q \<and> tq_extra_pool q' = tq_extra_pool q"
proof -
  note r = rep_parts [OF rep]
  have fresh: "a \<notin> set xs" "a \<notin> set fs" "a \<in> dom (tq_next q)" using r(6) a rep_live [OF rep] by auto
  let ?later = "\<lambda>x. mmosal_time_lt (abs_ms q a) (abs_ms q x)"
  have "place ?later a xs = place (\<lambda>x. due_in base q a < due_in base q x) a xs"
    using win by (intro place_cong) (simp add: window_compare due_in_def)
  moreover have "\<exists>h p. umac_timeoutq_enqueue_protected a q = Some (q\<lparr>tq_next := h, tq_head := p\<rparr>)
      \<and> linked h p (place ?later a xs) \<and> dom h = dom (tq_next q) \<and> (\<forall>b. b \<notin> set (a # xs) \<longrightarrow> h b = tq_next q b)"
  proof (cases xs)
    case Nil
    then have "tq_head q = None" "tq_next q a = Some None" using r(1) stale by simp_all
    then show ?thesis using Nil
      by (intro exI [of _ "tq_next q"] exI [of _ "Some a"]) (simp add: umac_timeoutq_enqueue_protected_def)
  next
    case (Cons w ys)
    obtain n where n: "tq_head q = Some w" "tq_next q w = Some n" "linked (tq_next q) n ys" using r(1) Cons by auto
    show ?thesis
    proof (cases "?later w")
      case True
      let ?h = "(tq_next q)(a \<mapsto> Some w)"
      have "umac_timeoutq_enqueue_protected a q = Some (q\<lparr>tq_next := ?h, tq_head := Some a\<rparr>)"
        using True n fresh by (simp add: umac_timeoutq_enqueue_protected_def set_next_live)
      moreover have "linked ?h (Some a) (place ?later a xs)" using True n fresh Cons by simp
      ultimately show ?thesis using fresh Cons by (intro exI [of _ ?h] exI [of _ "Some a"]) auto
    next
      case False
      have "\<exists>h. enqueue_walk a w n q = Some (q\<lparr>tq_next := h\<rparr>) \<and> dom h = dom (tq_next q)
        \<and> linked h (tq_head q) ([] @ w # place ?later a ys) \<and> (\<forall>b. b \<notin> set (a # w # ys) \<longrightarrow> h b = tq_next q b)"
      proof (rule enqueue_walk_links)
        fix x assume "x \<in> set (w # ys)"
        then show "mmosal_time_le (abs_ms q x) (abs_ms q a) \<longleftrightarrow> \<not> mmosal_time_lt (abs_ms q a) (abs_ms q x)"
          using win Cons by (auto simp: window_compare [of base])
      qed (use n fresh stale r(3) False Cons in auto)
      then obtain h where h: "enqueue_walk a w n q = Some (q\<lparr>tq_next := h\<rparr>)" "dom h = dom (tq_next q)"
        "linked h (tq_head q) (w # place ?later a ys)" "\<forall>b. b \<notin> set (a # w # ys) \<longrightarrow> h b = tq_next q b" by auto
      have "q\<lparr>tq_next := h\<rparr> = q\<lparr>tq_next := h, tq_head := tq_head q\<rparr>" by (cases q) simp
      then have "umac_timeoutq_enqueue_protected a q = Some (q\<lparr>tq_next := h, tq_head := tq_head q\<rparr>)"
        using n False h(1) by (simp add: umac_timeoutq_enqueue_protected_def)
      then show ?thesis using h(2-4) False Cons by (intro exI [of _ h] exI [of _ "tq_head q"]) simp
    qed
  qed
  ultimately obtain h p where h: "umac_timeoutq_enqueue_protected a q = Some (q\<lparr>tq_next := h, tq_head := p\<rparr>)"
    "linked h p (place (\<lambda>x. due_in base q a < due_in base q x) a xs)" "dom h = dom (tq_next q)"
    "\<forall>b. b \<notin> set (a # xs) \<longrightarrow> h b = tq_next q b" by auto
  have "set xs \<union> held - set (place (\<lambda>x. due_in base q a < due_in base q x) a xs) = held - {a}"
    using r(6) by auto
  moreover have "\<And>b. b \<in> set fs \<Longrightarrow> h b = tq_next q b" using h(4) fresh(2) r(5) by auto
  ultimately have "tq_rep (q\<lparr>tq_next := h, tq_head := p, tq_to := tq_to q\<rparr>)
      (place (\<lambda>x. due_in base q a < due_in base q x) a xs) fs (held - {a})"
    using rep_requeue [OF rep h(2) _ _ h(3), of "tq_to q"] a by auto
  then show ?thesis using h(1) by simp
qed

lemma enqueue_rep:
  assumes rep: "tq_rep q xs fs held" and a: "a \<in> held" and win: "\<forall>x\<in>set (a # xs). in_window base (abs_ms q x)"
  shows "\<exists>q'. umac_timeoutq_enqueue a q = Some q'
    \<and> tq_rep q' (place (\<lambda>x. due_in base q a < due_in base q x) a xs) fs (held - {a})
    \<and> tq_to q' = tq_to q \<and> tq_extra_pool q' = tq_extra_pool q"
proof -
  note r = rep_parts [OF rep]
  have fresh: "a \<notin> set xs" "a \<notin> set fs" "a \<in> dom (tq_next q)" using r(6) a rep_live [OF rep] by auto
  let ?q = "q\<lparr>tq_next := (tq_next q)(a \<mapsto> None)\<rparr>"
  have "tq_rep ?q xs fs held" using r fresh by (auto simp: tq_rep_def)
  from enqueue_protected_rep [OF this a, of base] win fresh(3) show ?thesis
    by (auto simp: umac_timeoutq_enqueue_def set_next_live due_in_def)
qed

lemma in_order_place:
  assumes "in_order base q xs" "in_window base (abs_ms q a)"
  shows "in_order base q (place (\<lambda>x. due_in base q a < due_in base q x) a xs)"
  using assms sorted_place [of "due_in base q" xs a] by (auto simp: in_order_def)

lemma in_order_cong: "(\<And>a. a \<in> set xs \<Longrightarrow> tq_to q' a = tq_to q a) \<Longrightarrow> in_order base q' xs = in_order base q xs"
  by (auto simp: in_order_def due_in_def cong: map_cong)

lemma in_order_filter: "in_order base q xs \<Longrightarrow> in_order base q (filter P xs)"
  by (auto simp: in_order_def sorted_filter)

lemma in_order_Cons: "in_order base q (a # xs) \<Longrightarrow> in_order base q xs"
  by (simp add: in_order_def)

subsection \<open>Removing timers\<close>

text \<open>The loop of \<open>umac_timeoutq_remove_one_protected\<close> takes out the first match behind \<open>prev\<close>.\<close>

lemma remove_one_walk_none:
  assumes "linked (tq_next q) walk ys" "\<forall>y\<in>set ys. \<not> m (tq_to q y)"
  shows "remove_one_walk m prev walk q = Some (None, q)"
  using assms by (induction ys arbitrary: prev walk) (auto simp: remove_one_walk.simps)

lemma remove_one_walk_found:
  assumes "seg (tq_next q) p ps (Some w)" "tq_next q w = Some walk" "linked (tq_next q) walk (us @ a # vs)"
    and "distinct (ps @ w # us @ a # vs)" "\<forall>u\<in>set us. \<not> m (tq_to q u)" "m (tq_to q a)"
  shows "\<exists>h. remove_one_walk m w walk q = Some (Some a, q\<lparr>tq_next := h\<rparr>) \<and> dom h = dom (tq_next q)
    \<and> linked h p (ps @ w # us @ vs) \<and> h a = tq_next q a \<and> (\<forall>b. b \<notin> set (w # us) \<longrightarrow> h b = tq_next q b)"
  using assms
proof (induction us arbitrary: ps w walk)
  case Nil
  then obtain n where n: "walk = Some a" "tq_next q a = Some n" "linked (tq_next q) n vs" by auto
  let ?h = "(tq_next q)(w \<mapsto> n)"
  have "w \<in> dom (tq_next q)" using Nil.prems(2) by auto
  then have "remove_one_walk m w walk q = Some (Some a, q\<lparr>tq_next := ?h\<rparr>)" "dom ?h = dom (tq_next q)"
    using n Nil.prems(6) by (simp_all add: remove_one_walk.simps set_next_live insert_absorb)
  moreover have "linked ?h p (ps @ w # vs)" using Nil.prems(1,4) n(3) by (simp add: seg_append)
  moreover have "?h a = tq_next q a" "\<forall>b. b \<notin> set [w] \<longrightarrow> ?h b = tq_next q b" using Nil.prems(4) by auto
  ultimately show ?case by (metis append_Nil)
next
  case (Cons u us)
  then obtain n where n: "walk = Some u" "tq_next q u = Some n" "linked (tq_next q) n (us @ a # vs)" by auto
  have "\<exists>h. remove_one_walk m u n q = Some (Some a, q\<lparr>tq_next := h\<rparr>) \<and> dom h = dom (tq_next q)
    \<and> linked h p ((ps @ [w]) @ u # us @ vs) \<and> h a = tq_next q a \<and> (\<forall>b. b \<notin> set (u # us) \<longrightarrow> h b = tq_next q b)"
  proof (rule Cons.IH)
    show "seg (tq_next q) p (ps @ [w]) (Some u)" using Cons.prems(1,2) n(1) by (simp add: seg_append)
  qed (use Cons.prems n in auto)
  moreover have "remove_one_walk m w walk q = remove_one_walk m u n q"
    using n Cons.prems(5) by (simp add: remove_one_walk.simps [of m w])
  ultimately show ?case by auto
qed

lemma remove_one_none:
  assumes "tq_rep q xs fs held" "\<forall>x\<in>set xs. \<not> to_matches h a1 a2 (tq_to q x)"
  shows "umac_timeoutq_remove_one_protected h a1 a2 q = Some (None, q)"
proof (cases xs)
  case Nil
  then show ?thesis using rep_parts(1) [OF assms(1)] by (simp add: umac_timeoutq_remove_one_protected_def)
next
  case (Cons x ys)
  then obtain n where "tq_head q = Some x" "tq_next q x = Some n" "linked (tq_next q) n ys"
    using rep_parts(1) [OF assms(1)] by auto
  then show ?thesis
    using assms(2) Cons by (simp add: umac_timeoutq_remove_one_protected_def remove_one_walk_none)
qed

lemma remove_one_found:
  assumes rep: "tq_rep q (us @ a # vs) fs held"
    and m: "\<forall>u\<in>set us. \<not> to_matches h a1 a2 (tq_to q u)" "to_matches h a1 a2 (tq_to q a)"
  shows "\<exists>q'. umac_timeoutq_remove_one_protected h a1 a2 q = Some (Some a, q')
    \<and> tq_rep q' (us @ vs) fs (insert a held) \<and> tq_to q' = tq_to q \<and> tq_extra_pool q' = tq_extra_pool q
    \<and> tq_next q' a = tq_next q a"
proof -
  note r = rep_parts [OF rep]
  have held: "set (us @ a # vs) \<union> held - set (us @ vs) = insert a held" using r(3,6) by auto
  have "\<exists>h' p. umac_timeoutq_remove_one_protected h a1 a2 q = Some (Some a, q\<lparr>tq_next := h', tq_head := p\<rparr>)
      \<and> dom h' = dom (tq_next q) \<and> linked h' p (us @ vs) \<and> h' a = tq_next q a
      \<and> (\<forall>b. b \<notin> set us \<longrightarrow> h' b = tq_next q b)"
  proof (cases us)
    case Nil
    then obtain n where n: "tq_head q = Some a" "tq_next q a = Some n" "linked (tq_next q) n vs" using r(1) by auto
    have "q\<lparr>tq_head := n\<rparr> = q\<lparr>tq_next := tq_next q, tq_head := n\<rparr>" by (cases q) simp
    then show ?thesis
      using n m Nil by (intro exI [of _ "tq_next q"] exI [of _ n]) (simp add: umac_timeoutq_remove_one_protected_def)
  next
    case (Cons w us')
    then obtain n where n: "tq_head q = Some w" "tq_next q w = Some n" "linked (tq_next q) n (us' @ a # vs)"
      using r(1) by auto
    have "\<exists>h'. remove_one_walk (to_matches h a1 a2) w n q = Some (Some a, q\<lparr>tq_next := h'\<rparr>) \<and> dom h' = dom (tq_next q)
      \<and> linked h' (tq_head q) ([] @ w # us' @ vs) \<and> h' a = tq_next q a \<and> (\<forall>b. b \<notin> set (w # us') \<longrightarrow> h' b = tq_next q b)"
      by (rule remove_one_walk_found) (use n m r(3) Cons in auto)
    then obtain h' where h': "remove_one_walk (to_matches h a1 a2) w n q = Some (Some a, q\<lparr>tq_next := h'\<rparr>)"
      "dom h' = dom (tq_next q)" "linked h' (tq_head q) (us @ vs)" "h' a = tq_next q a"
      "\<forall>b. b \<notin> set us \<longrightarrow> h' b = tq_next q b" using Cons by auto
    have "q\<lparr>tq_next := h'\<rparr> = q\<lparr>tq_next := h', tq_head := tq_head q\<rparr>" by (cases q) simp
    then show ?thesis
      using n m(1) h' Cons by (intro exI [of _ h'] exI [of _ "tq_head q"]) (simp add: umac_timeoutq_remove_one_protected_def)
  qed
  then obtain h' p where h': "umac_timeoutq_remove_one_protected h a1 a2 q = Some (Some a, q\<lparr>tq_next := h', tq_head := p\<rparr>)"
      "dom h' = dom (tq_next q)" "linked h' p (us @ vs)" "h' a = tq_next q a"
      "\<forall>b. b \<notin> set us \<longrightarrow> h' b = tq_next q b" by blast
  have "tq_rep (q\<lparr>tq_next := h', tq_head := p, tq_to := tq_to q\<rparr>) (us @ vs) fs
      (set (us @ a # vs) \<union> held - set (us @ vs))"
  proof (rule rep_requeue [OF rep h'(3) _ _ h'(2)])
    show "set (us @ vs) \<subseteq> set (us @ a # vs) \<union> held" by auto
    show "\<And>b. b \<in> set fs \<Longrightarrow> h' b = tq_next q b" using h'(5) r(5) by auto
  qed
  then have "tq_rep (q\<lparr>tq_next := h', tq_head := p, tq_to := tq_to q\<rparr>) (us @ vs) fs (insert a held)"
    unfolding held .
  then show ?thesis using h'(1,4) by simp
qed

text \<open>Cancelling.\<close>

lemma cancel_head_rep:
  assumes "tq_rep q xs fs {}"
  shows "\<exists>q'. cancel_head m count q = Some (count + length (takeWhile (\<lambda>x. m (tq_to q x)) xs), q')
    \<and> tq_rep q' (dropWhile (\<lambda>x. m (tq_to q x)) xs) (rev (takeWhile (\<lambda>x. m (tq_to q x)) xs) @ fs) {}
    \<and> tq_to q' = tq_to q \<and> tq_extra_pool q' = tq_extra_pool q"
  using assms
proof (induction xs arbitrary: q fs count)
  case Nil
  then have "tq_head q = None" using rep_parts(1) by fastforce
  then show ?case using Nil by (simp add: cancel_head.simps)
next
  case (Cons x xs)
  note r = rep_parts [OF Cons.prems]
  obtain n where n: "tq_head q = Some x" "tq_next q x = Some n" "linked (tq_next q) n xs" using r(1) by auto
  show ?case
  proof (cases "m (tq_to q x)")
    case False
    then show ?thesis using n Cons.prems by (simp add: cancel_head.simps)
  next
    case True
    let ?q = "q\<lparr>tq_head := n\<rparr>"
    have "tq_rep ?q xs fs {x}" using r n by (auto simp: tq_rep_def)
    from free_protected_rep [OF this, of x] obtain q1 where q1: "umac_timeoutq_free_protected x ?q = Some q1"
      "tq_rep q1 xs (x # fs) {}" "tq_to q1 = tq_to q" "tq_extra_pool q1 = tq_extra_pool q" by auto
    have "cancel_head m count q = cancel_head m (count + 1) q1"
      using True n q1(1) by (simp add: cancel_head.simps [of m count])
    then show ?thesis using Cons.IH [OF q1(2), of "count + 1"] q1(3,4) True by simp
  qed
qed

lemma cancel_rest_rep:
  assumes "tq_rep q (ps @ w # ys) fs {}" "tq_next q w = Some walk"
  shows "\<exists>q'. cancel_rest m count w walk q = Some (count + length (filter (\<lambda>x. m (tq_to q x)) ys), q')
    \<and> tq_rep q' (ps @ w # filter (\<lambda>x. \<not> m (tq_to q x)) ys) (rev (filter (\<lambda>x. m (tq_to q x)) ys) @ fs) {}
    \<and> tq_to q' = tq_to q \<and> tq_extra_pool q' = tq_extra_pool q"
  using assms
proof (induction ys arbitrary: q ps w walk fs count)
  case Nil
  then have "walk = None" using rep_parts(1) [OF Nil.prems(1)] by (auto simp: seg_append)
  then show ?case using Nil by (simp add: cancel_rest.simps)
next
  case (Cons y ys)
  note r = rep_parts [OF Cons.prems(1)]
  obtain n where n: "walk = Some y" "tq_next q y = Some n" "linked (tq_next q) n ys" "seg (tq_next q) (tq_head q) ps (Some w)"
    using r(1) Cons.prems(2) by (auto simp: seg_append)
  have w: "w \<in> dom (tq_next q)" "w \<noteq> y" "w \<notin> set ps" "w \<notin> set ys" "w \<notin> set fs" using Cons.prems(2) r(3,5) by auto
  show ?case
  proof (cases "m (tq_to q y)")
    case False
    have "cancel_rest m count w walk q = cancel_rest m count y n q"
      using False n by (simp add: cancel_rest.simps [of m count w])
    then show ?thesis using Cons.IH [of q "ps @ [w]" y fs n count] Cons.prems(1) n(2) False by simp
  next
    case True
    let ?h = "(tq_next q)(w \<mapsto> n)"
    have "linked ?h (tq_head q) (ps @ w # ys)" using n w by (simp add: seg_append)
    moreover have "set (ps @ w # ys) \<subseteq> set (ps @ w # y # ys) \<union> {}" by auto
    moreover have "\<And>b. b \<in> set fs \<Longrightarrow> ?h b = tq_next q b" using w(5) by auto
    moreover have "dom ?h = dom (tq_next q)" using w(1) by (simp add: insert_absorb)
    ultimately have "tq_rep (q\<lparr>tq_next := ?h, tq_head := tq_head q, tq_to := tq_to q\<rparr>) (ps @ w # ys) fs
        (set (ps @ w # y # ys) \<union> {} - set (ps @ w # ys))"
      by (rule rep_requeue [OF Cons.prems(1)])
    moreover have "set (ps @ w # y # ys) \<union> {} - set (ps @ w # ys) = {y}" using r(3) by auto
    moreover have "q\<lparr>tq_next := ?h, tq_head := tq_head q, tq_to := tq_to q\<rparr> = q\<lparr>tq_next := ?h\<rparr>" by (cases q) simp
    ultimately have "tq_rep (q\<lparr>tq_next := ?h\<rparr>) (ps @ w # ys) fs {y}" by (simp only:)
    from free_protected_rep [OF this, of y] obtain q1 where q1:
      "umac_timeoutq_free_protected y (q\<lparr>tq_next := ?h\<rparr>) = Some q1" "tq_rep q1 (ps @ w # ys) (y # fs) {}"
      "tq_to q1 = tq_to q" "tq_extra_pool q1 = tq_extra_pool q" "tq_next q1 w = Some n" using w by auto
    have "cancel_rest m count w walk q = cancel_rest m (count + 1) w n q1"
      using True n q1(1,5) w by (simp add: cancel_rest.simps [of m count] set_next_live)
    then show ?thesis using Cons.IH [OF q1(2,5), of "count + 1"] q1(3,4) True by simp
  qed
qed

lemma filter_dropWhile_split:
  "length (filter P xs) = length (takeWhile P xs) + length (filter P (dropWhile P xs))"
  "filter (\<lambda>x. \<not> P x) (dropWhile P xs) = filter (\<lambda>x. \<not> P x) xs"
  by (induction xs) auto

lemma cancel_rep:
  assumes "tq_rep q xs fs {}"
  shows "\<exists>q' fs'. umac_timeoutq_cancel_protected h a1 a2 q
      = Some (length (filter (\<lambda>x. to_matches h a1 a2 (tq_to q x)) xs), q')
    \<and> tq_rep q' (filter (\<lambda>x. \<not> to_matches h a1 a2 (tq_to q x)) xs) fs' {}
    \<and> tq_to q' = tq_to q \<and> tq_extra_pool q' = tq_extra_pool q"
proof -
  let ?m = "\<lambda>x. to_matches h a1 a2 (tq_to q x)"
  obtain q1 where q1: "cancel_head (to_matches h a1 a2) 0 q = Some (length (takeWhile ?m xs), q1)"
    "tq_rep q1 (dropWhile ?m xs) (rev (takeWhile ?m xs) @ fs) {}" "tq_to q1 = tq_to q" "tq_extra_pool q1 = tq_extra_pool q"
    using cancel_head_rep [OF assms, of "to_matches h a1 a2" 0] by auto
  show ?thesis
  proof (cases "dropWhile ?m xs")
    case Nil
    then have "tq_head q1 = None" using rep_parts(1) [OF q1(2)] by (simp only: Nil seg.simps)
    moreover have "filter (\<lambda>x. \<not> ?m x) xs = []" "length (filter ?m xs) = length (takeWhile ?m xs)"
      using filter_dropWhile_split [of ?m xs] Nil by simp_all
    ultimately show ?thesis using q1 Nil by (auto simp: umac_timeoutq_cancel_protected_def)
  next
    case (Cons w ys)
    then obtain n where n: "tq_head q1 = Some w" "tq_next q1 w = Some n" using rep_parts(1) [OF q1(2)] by auto
    have w: "\<not> ?m w" using Cons hd_dropWhile [of ?m xs] by auto
    have "tq_rep q1 ([] @ w # ys) (rev (takeWhile ?m xs) @ fs) {}" using q1(2) Cons by simp
    from cancel_rest_rep [OF this n(2), of "to_matches h a1 a2" "length (takeWhile ?m xs)"] obtain q2 where q2:
      "cancel_rest (to_matches h a1 a2) (length (takeWhile ?m xs)) w n q1
        = Some (length (takeWhile ?m xs) + length (filter ?m ys), q2)"
      "tq_rep q2 (w # filter (\<lambda>x. \<not> ?m x) ys) (rev (filter ?m ys) @ rev (takeWhile ?m xs) @ fs) {}"
      "tq_to q2 = tq_to q" "tq_extra_pool q2 = tq_extra_pool q" using q1(3,4) by auto
    moreover have "filter (\<lambda>x. \<not> ?m x) xs = w # filter (\<lambda>x. \<not> ?m x) ys"
      "length (filter ?m xs) = length (takeWhile ?m xs) + length (filter ?m ys)"
      using filter_dropWhile_split [of ?m xs] Cons w by simp_all
    ultimately show ?thesis using q1(1) n
      by (intro exI [of _ q2] exI [of _ "rev (filter ?m ys) @ rev (takeWhile ?m xs) @ fs"])
        (simp add: umac_timeoutq_cancel_protected_def)
  qed
qed

lemma is_registered_walk_linked:
  assumes "linked (tq_next q) walk xs"
  shows "is_registered_walk m walk q = Some (\<exists>x\<in>set xs. m (tq_to q x))"
  using assms by (induction xs arbitrary: walk) (auto simp: is_registered_walk.simps)

lemma is_registered_rep:
  "tq_rep q xs fs held \<Longrightarrow>
    umac_timeoutq_is_timeout_registered_protected h a1 a2 q = Some (\<exists>x\<in>set xs. to_matches h a1 a2 (tq_to q x))"
  by (simp add: umac_timeoutq_is_timeout_registered_protected_def is_registered_walk_linked rep_parts(1))

subsection \<open>The extra pool\<close>

lemma alloc_extra_rep:
  assumes rep: "tq_rep q xs fs {}" and none: "\<not> tq_extra_pool q"
  shows "\<exists>q'. umac_timeoutq_alloc_extra True q = Some (MMWLAN_SUCCESS, q') \<and> tq_extra_pool q'
    \<and> tq_rep q' xs (rev [UMAC_TIMEOUTQ_MAXLEN..<UMAC_TIMEOUTQ_MAXLEN + UMAC_TIMEOUTQ_EXTRA_LEN] @ fs) {}
    \<and> (\<forall>a<UMAC_TIMEOUTQ_MAXLEN. tq_to q' a = tq_to q a)"
proof -
  note r = rep_parts [OF rep]
  have low: "set xs \<union> set fs = {..<20}" "dom (tq_next q) = {..<20}" using r(7,8) none by (simp_all add: pool_size_def)
  define q0 where "q0 = q\<lparr>tq_next := (\<lambda>a. if a \<in> {20..<84} then Some None else tq_next q a),
    tq_to := (\<lambda>a. if a \<in> {20..<84} then zero_timeout else tq_to q a)\<rparr>"
  have dom: "dom (tq_next q0) = {..<84}"
  proof -
    have "a \<in> dom (tq_next q0) \<longleftrightarrow> a \<in> {20..<84} \<or> a \<in> dom (tq_next q)" for a by (auto simp: q0_def dom_def)
    then have "a \<in> dom (tq_next q0) \<longleftrightarrow> a \<in> {..<84}" for a using low(2) by auto
    then show ?thesis by (rule set_eqI)
  qed
  define f where "f = (\<lambda>ii (head, q :: 'a umac_core_timeoutq). do {
      q \<leftarrow> set_next (20 + ii) (Some head) q;
      Some (20 + ii, q)
    })"
  define P where "P i s \<longleftrightarrow> fst s = 19 + i \<and> tq_free (snd s) = tq_free q \<and> tq_head (snd s) = tq_head q
    \<and> tq_to (snd s) = tq_to q0 \<and> dom (tq_next (snd s)) = {..<84}
    \<and> linked (tq_next (snd s)) (Some (fst s)) (rev [20..<20 + i]) \<and> (\<forall>b<20. tq_next (snd s) b = tq_next q b)" for i and s :: "nat \<times> 'a umac_core_timeoutq"
  have "\<exists>s'. foldM f [1..<64] (20, q0) = Some s' \<and> P 64 s'"
  proof (rule foldM_upt_from)
    show "P 1 (20, q0)" using dom by (simp add: P_def) (simp add: q0_def)
    fix i s assume i: "1 \<le> i" "i < (64 :: nat)" and P: "P i s"
    then have live: "20 + i \<in> dom (tq_next (snd s))" by (simp add: P_def)
    let ?q = "(snd s)\<lparr>tq_next := (tq_next (snd s))(20 + i \<mapsto> Some (fst s))\<rparr>"
    have "f i s = Some (20 + i, ?q)" using live by (cases s) (simp add: f_def set_next_live)
    moreover have "P (Suc i) (20 + i, ?q)"
    proof -
      have "[20..<21 + i] = [20..<20 + i] @ [20 + i]" using upt_Suc_append [of 20 "20 + i"] by simp
      then show ?thesis using P live by (clarsimp simp: P_def insert_absorb)
    qed
    ultimately show "\<exists>s'. f i s = Some s' \<and> P (Suc i) s'" by blast
  qed simp
  then obtain head q1 where q1: "foldM f [1..<64] (20, q0) = Some (head, q1)" "P 64 (head, q1)" by auto
  have P1: "head = 83" "tq_to q1 = tq_to q0" "dom (tq_next q1) = {..<84}"
    "linked (tq_next q1) (Some head) (rev [20..<84])" "\<forall>b<20. tq_next q1 b = tq_next q b"
    using q1(2) by (simp_all add: P_def)
  let ?h = "(tq_next q1)(20 \<mapsto> tq_free q)"
  let ?q = "q1\<lparr>tq_extra_pool := True, tq_next := ?h, tq_free := Some head\<rparr>"
  have other: "tq_free q1 = tq_free q" "tq_head q1 = tq_head q" "\<And>a. a < 20 \<Longrightarrow> tq_to q1 a = tq_to q a"
    using q1(2) by (simp_all add: P_def q0_def)
  have old: "seg (tq_next q1) p ys None = seg (tq_next q) p ys None" if "set ys \<subseteq> {..<20}" for p ys
    using that P1(5) by (intro seg_frame_set) auto
  define es where "es = [20..<84 :: nat]"
  have es: "set es = {20..<84}" "last (rev es) = 20" "es \<noteq> []" by (simp_all add: es_def last_rev del: upt_rec_numeral)
  have apart: "set es \<inter> {..<20} = {}" by (auto simp: es(1))
  have P4: "linked (tq_next q1) (Some head) (rev es)" using P1(4) by (simp only: es_def)
  have "linked ((tq_next q1)(last (rev es) \<mapsto> tq_free q)) (Some head) (rev es @ fs)"
  proof (rule linked_join)
    show "linked (tq_next q1) (tq_free q) fs" using old [of fs "tq_free q"] r(2) low(1) by blast
    show "set (rev es) \<inter> set fs = {}" using low(1) apart unfolding set_rev by blast
  qed (use P4 es in simp_all)
  then have "linked ?h (Some head) (rev es @ fs)" by (simp add: es)
  moreover have "linked ?h (tq_head q) xs"
  proof -
    have "20 \<notin> set xs" using low(1) by blast
    then show ?thesis using old [of xs "tq_head q"] r(1) low(1) seg_frame by blast
  qed
  moreover have "dom ?h = {..<84}" using P1(3) by (simp add: insert_absorb)
  moreover have "set xs \<union> set (rev es @ fs) = {..<84}"
  proof -
    have "set xs \<union> set (rev es @ fs) = (set xs \<union> set fs) \<union> set es" by auto
    also have "... = {..<20} \<union> {20..<84}" by (simp only: low(1) es(1))
    also have "... = {..<84}" by auto
    finally show ?thesis .
  qed
  moreover have "set xs \<inter> set (rev es @ fs) = {}" using low(1) r(5) apart unfolding set_append set_rev by blast
  ultimately have "tq_rep ?q xs (rev es @ fs) {}" using other by (simp add: tq_rep_def pool_size_def)
  moreover have "umac_timeoutq_alloc_extra True q = Some (MMWLAN_SUCCESS, ?q)"
  proof -
    have "20 \<in> dom (tq_next (q1\<lparr>tq_extra_pool := True\<rparr>))" using P1(3) by simp
    then show ?thesis
      using none q1(1) other(1)
      by (simp add: umac_timeoutq_alloc_extra_def Let_def set_next_live q0_def f_def del: upt_rec_numeral)
  qed
  ultimately show ?thesis using other(3) by (simp add: es_def del: upt_rec_numeral)
qed

subsection \<open>Bringing a timer forward\<close>

text \<open>\<open>umac_timeoutq_deplete_timeout_protected\<close> takes the first match out of the queue and places it anew. Its \<open>next\<close>
  member still points to the old successor, which does no harm as long as a later timer is behind it or none was.\<close>

lemma deplete_none:
  assumes "tq_rep q xs fs held" "\<forall>x\<in>set xs. \<not> to_matches h a1 a2 (tq_to q x)"
  shows "umac_timeoutq_deplete_timeout_protected now d h a1 a2 q = Some (-1, q)"
  using remove_one_none [OF assms] by (simp add: umac_timeoutq_deplete_timeout_protected_def)

lemma deplete_rep:
  assumes rep: "tq_rep q (us @ a # vs) fs {}"
    and m: "\<forall>u\<in>set us. \<not> to_matches h a1 a2 (tq_to q u)" "to_matches h a1 a2 (tq_to q a)"
    and win: "in_order base q (us @ a # vs)" "in_window base (u32 (now + d))"
    and later: "vs = [] \<or> mmosal_time_lt (abs_ms q a) (abs_ms q (last vs)) \<or> mmosal_time_lt (u32 (now + d)) (abs_ms q a)"
  defines "sooner \<equiv> mmosal_time_lt (u32 (now + d)) (abs_ms q a)"
  defines "t \<equiv> (if sooner then (tq_to q a)\<lparr>timeout_abs_ms := u32 (now + d)\<rparr> else tq_to q a)"
  shows "\<exists>q'. umac_timeoutq_deplete_timeout_protected now d h a1 a2 q = Some (if sooner then 1 else 0, q')
    \<and> tq_rep q' (place (\<lambda>x. due_in base q' a < due_in base q' x) a (us @ vs)) fs {}
    \<and> in_order base q' (place (\<lambda>x. due_in base q' a < due_in base q' x) a (us @ vs))
    \<and> tq_to q' = (tq_to q)(a := t) \<and> tq_extra_pool q' = tq_extra_pool q"
proof -
  note r = rep_parts [OF rep]
  obtain q1 where q1: "umac_timeoutq_remove_one_protected h a1 a2 q = Some (Some a, q1)" "tq_rep q1 (us @ vs) fs {a}"
    "tq_to q1 = tq_to q" "tq_extra_pool q1 = tq_extra_pool q" "tq_next q1 a = tq_next q a"
    using remove_one_found [OF rep m] by auto
  define q2 where "q2 = q1\<lparr>tq_to := (tq_to q)(a := t)\<rparr>"
  have step: "(if sooner then q1\<lparr>tq_to := (tq_to q1)(a := (tq_to q1 a)\<lparr>timeout_abs_ms := u32 (now + d)\<rparr>)\<rparr> else q1) = q2"
    using q1(3) by (cases q1) (simp add: q2_def t_def)
  have rep2: "tq_rep q2 (us @ vs) fs {a}" using q1(2) by (simp add: q2_def tq_rep_def)
  have a: "a \<notin> set us" "a \<notin> set vs" using r(3) by auto
  have order: "\<forall>x\<in>set (us @ a # vs). in_window base (abs_ms q x)" "sorted (List.map (due_in base q) (us @ a # vs))"
    using win(1) by (simp_all add: in_order_def)
  have win2: "\<forall>x\<in>set (a # us @ vs). in_window base (abs_ms q2 x)"
    using order(1) win(2) a by (auto simp: q2_def t_def)
  have "vs = [] \<longrightarrow> tq_next q a = Some None" using r(1) by (auto simp: seg_append)
  moreover have "vs \<noteq> [] \<longrightarrow> (\<exists>y\<in>set (us @ vs). mmosal_time_lt (abs_ms q2 a) (abs_ms q2 y))"
  proof
    assume ne: "vs \<noteq> []"
    then have l: "last vs \<in> set vs" by simp
    then have le: "due_in base q a \<le> due_in base q (last vs)" using order(2) by (auto simp: sorted_append)
    have "mmosal_time_lt (abs_ms q2 a) (abs_ms q2 (last vs))"
    proof (cases sooner)
      case True
      then have "sub32 (u32 (now + d)) base < due_in base q a"
        using window_compare(1) [OF win(2), of "abs_ms q a"] order(1) by (simp add: sooner_def due_in_def)
      then have "sub32 (u32 (now + d)) base < sub32 (abs_ms q (last vs)) base" using le by (simp add: due_in_def)
      then show ?thesis using window_compare(1) [OF win(2), of "abs_ms q (last vs)"] order(1) l a True
        by (auto simp: q2_def t_def)
    next
      case False
      then show ?thesis using later ne a l by (auto simp: q2_def t_def sooner_def)
    qed
    then show "\<exists>y\<in>set (us @ vs). mmosal_time_lt (abs_ms q2 a) (abs_ms q2 y)" using l by auto
  qed
  ultimately have "tq_next q2 a = Some None \<or> (\<exists>y\<in>set (us @ vs). mmosal_time_lt (abs_ms q2 a) (abs_ms q2 y))"
    using q1(5) by (cases "vs = []") (simp_all add: q2_def)
  from enqueue_protected_rep [OF rep2 _ win2 this] obtain q' where q': "umac_timeoutq_enqueue_protected a q2 = Some q'"
    "tq_rep q' (place (\<lambda>x. due_in base q2 a < due_in base q2 x) a (us @ vs)) fs {}"
    "tq_to q' = (tq_to q)(a := t)" "tq_extra_pool q' = tq_extra_pool q" using q1(4) by (auto simp: q2_def)
  have due: "due_in base q2 = due_in base q'" using q'(3) by (intro ext) (simp add: due_in_def q2_def)
  have "sorted (List.map (due_in base q) us)" "sorted (List.map (due_in base q) vs)"
    "\<forall>x\<in>set us. \<forall>y\<in>set vs. due_in base q x \<le> due_in base q y" using order(2) by (auto simp: sorted_append)
  then have "sorted (List.map (due_in base q) (us @ vs))" by (auto simp: sorted_append)
  then have "in_order base q (us @ vs)" using order(1) by (simp add: in_order_def)
  moreover have "in_order base q' (us @ vs) = in_order base q (us @ vs)"
    using q'(3) a by (intro in_order_cong) auto
  ultimately have "in_order base q' (us @ vs)" by simp
  then have "in_order base q' (place (\<lambda>x. due_in base q' a < due_in base q' x) a (us @ vs))"
    using win2 q'(3) by (intro in_order_place) (simp_all add: q2_def)
  moreover have "umac_timeoutq_deplete_timeout_protected now d h a1 a2 q = Some (if sooner then 1 else 0, q')"
    using q1(1,3) q'(1) step by (simp add: umac_timeoutq_deplete_timeout_protected_def sooner_def Let_def)
  ultimately show ?thesis using q'(2-4) due by (simp only:) blast
qed

text \<open>Whatever the times are, a timer whose \<open>next\<close> member is null finds a place.\<close>

lemma enqueue_walk_any:
  assumes "seg (tq_next q) p ps (Some w)" "tq_next q w = Some next" "linked (tq_next q) next ys"
    and "a \<notin> set (ps @ w # ys)" "tq_next q a = Some None" "distinct (ps @ w # ys)"
  shows "\<exists>h zs. enqueue_walk a w next q = Some (q\<lparr>tq_next := h\<rparr>) \<and> dom h = dom (tq_next q)
    \<and> linked h p (ps @ w # zs) \<and> set zs = insert a (set ys) \<and> (\<forall>b. b \<notin> set (a # w # ys) \<longrightarrow> h b = tq_next q b)"
  using assms
proof (induction ys arbitrary: ps w "next")
  case Nil
  then have nx: "next = None" "w \<in> dom (tq_next q)" by auto
  let ?h = "(tq_next q)(w \<mapsto> Some a)"
  have "enqueue_walk a w next q = Some (q\<lparr>tq_next := ?h\<rparr>)"
    using nx by (simp add: enqueue_walk.simps set_next_live)
  moreover have "dom ?h = dom (tq_next q)" using nx(2) by (simp add: insert_absorb)
  moreover have "linked ?h p (ps @ w # [a])" using Nil.prems by (simp add: seg_append)
  moreover have "\<forall>b. b \<notin> set (a # w # []) \<longrightarrow> ?h b = tq_next q b" by simp
  ultimately show ?case by (metis list.simps(15))
next
  case (Cons y ys)
  then obtain n where n: "next = Some y" "tq_next q y = Some n" "linked (tq_next q) n ys" by auto
  show ?case
  proof (cases "mmosal_time_le (abs_ms q w) (abs_ms q a) \<and> mmosal_time_lt (abs_ms q a) (abs_ms q y)")
    case True
    let ?h = "(tq_next q)(w \<mapsto> Some a, a \<mapsto> Some y)"
    have w: "w \<in> dom (tq_next q)" "a \<in> dom (tq_next q)" using Cons.prems(2,5) by auto
    have "enqueue_walk a w next q = Some (q\<lparr>tq_next := ?h\<rparr>)"
      using True n w Cons.prems(4) by (simp add: enqueue_walk.simps [of a w] set_next_live)
    moreover have "dom ?h = dom (tq_next q)" using w by (simp add: insert_absorb)
    moreover have "linked ?h p (ps @ w # a # y # ys)" using Cons.prems n by (simp add: seg_append)
    moreover have "\<forall>b. b \<notin> set (a # w # y # ys) \<longrightarrow> ?h b = tq_next q b" by simp
    ultimately show ?thesis by (metis list.simps(15))
  next
    case False
    have "\<exists>h zs. enqueue_walk a y n q = Some (q\<lparr>tq_next := h\<rparr>) \<and> dom h = dom (tq_next q)
      \<and> linked h p ((ps @ [w]) @ y # zs) \<and> set zs = insert a (set ys) \<and> (\<forall>b. b \<notin> set (a # y # ys) \<longrightarrow> h b = tq_next q b)"
    proof (rule Cons.IH)
      show "seg (tq_next q) p (ps @ [w]) (Some y)" using Cons.prems(1,2) n(1) by (simp add: seg_append)
    qed (use Cons.prems n in auto)
    then obtain h zs where h: "enqueue_walk a y n q = Some (q\<lparr>tq_next := h\<rparr>)" "dom h = dom (tq_next q)"
      "linked h p ((ps @ [w]) @ y # zs)" "set zs = insert a (set ys)" "\<forall>b. b \<notin> set (a # y # ys) \<longrightarrow> h b = tq_next q b"
      by blast
    have "enqueue_walk a w next q = enqueue_walk a y n q"
      using False n by (auto simp: enqueue_walk.simps [of a w])
    then show ?thesis using h by (intro exI [of _ h] exI [of _ "y # zs"]) auto
  qed
qed

lemma enqueue_any:
  assumes rep: "tq_rep q xs fs held" and a: "a \<in> held"
  shows "\<exists>q' ys. umac_timeoutq_enqueue a q = Some q' \<and> tq_rep q' ys fs (held - {a}) \<and> set ys = insert a (set xs)
    \<and> tq_to q' = tq_to q \<and> tq_extra_pool q' = tq_extra_pool q"
proof -
  have fresh: "a \<notin> set xs" "a \<notin> set fs" "a \<in> dom (tq_next q)"
    using rep_parts(6) [OF rep] a rep_live [OF rep] by auto
  define q0 where "q0 = q\<lparr>tq_next := (tq_next q)(a \<mapsto> None)\<rparr>"
  have rep0: "tq_rep q0 xs fs held" using rep_parts [OF rep] fresh by (auto simp: tq_rep_def q0_def)
  note r = rep_parts [OF rep0]
  have live: "tq_next q0 a = Some None" by (simp add: q0_def)
  have "\<exists>h p ys. umac_timeoutq_enqueue_protected a q0 = Some (q0\<lparr>tq_next := h, tq_head := p\<rparr>)
      \<and> linked h p ys \<and> set ys = insert a (set xs) \<and> dom h = dom (tq_next q0)
      \<and> (\<forall>b. b \<notin> set (a # xs) \<longrightarrow> h b = tq_next q0 b)"
  proof (cases xs)
    case Nil
    then have "tq_head q0 = None" using r(1) by simp
    then show ?thesis using Nil live
      by (intro exI [of _ "tq_next q0"] exI [of _ "Some a"] exI [of _ "[a]"]) (simp add: umac_timeoutq_enqueue_protected_def)
  next
    case (Cons w ys)
    obtain n where n: "tq_head q0 = Some w" "tq_next q0 w = Some n" "linked (tq_next q0) n ys" using r(1) Cons by auto
    show ?thesis
    proof (cases "mmosal_time_lt (abs_ms q0 a) (abs_ms q0 w)")
      case True
      let ?h = "(tq_next q0)(a \<mapsto> Some w)"
      have "a \<in> dom (tq_next q0)" using live by auto
      then have "umac_timeoutq_enqueue_protected a q0 = Some (q0\<lparr>tq_next := ?h, tq_head := Some a\<rparr>)"
        "dom ?h = dom (tq_next q0)"
        using True n by (simp_all add: umac_timeoutq_enqueue_protected_def set_next_live insert_absorb)
      moreover have "linked ?h (Some a) (a # xs)" using n fresh Cons by simp
      moreover have "\<forall>b. b \<notin> set (a # xs) \<longrightarrow> ?h b = tq_next q0 b" by simp
      ultimately show ?thesis by (metis list.simps(15))
    next
      case False
      have "\<exists>h zs. enqueue_walk a w n q0 = Some (q0\<lparr>tq_next := h\<rparr>) \<and> dom h = dom (tq_next q0)
        \<and> linked h (tq_head q0) ([] @ w # zs) \<and> set zs = insert a (set ys)
        \<and> (\<forall>b. b \<notin> set (a # w # ys) \<longrightarrow> h b = tq_next q0 b)"
        by (rule enqueue_walk_any) (use n live fresh r(3) Cons in auto)
      then obtain h zs where h: "enqueue_walk a w n q0 = Some (q0\<lparr>tq_next := h\<rparr>)" "dom h = dom (tq_next q0)"
        "linked h (tq_head q0) (w # zs)" "set zs = insert a (set ys)" "\<forall>b. b \<notin> set (a # w # ys) \<longrightarrow> h b = tq_next q0 b"
        by auto
      have "q0\<lparr>tq_next := h\<rparr> = q0\<lparr>tq_next := h, tq_head := tq_head q0\<rparr>" by (cases q0) simp
      then have "umac_timeoutq_enqueue_protected a q0 = Some (q0\<lparr>tq_next := h, tq_head := tq_head q0\<rparr>)"
        using n False h(1) by (simp add: umac_timeoutq_enqueue_protected_def)
      then show ?thesis using h(2-5) Cons
        by (intro exI [of _ h] exI [of _ "tq_head q0"] exI [of _ "w # zs"]) (simp add: insert_commute)
    qed
  qed
  then obtain h p ys where h: "umac_timeoutq_enqueue_protected a q0 = Some (q0\<lparr>tq_next := h, tq_head := p\<rparr>)"
    "linked h p ys" "set ys = insert a (set xs)" "dom h = dom (tq_next q0)"
    "\<forall>b. b \<notin> set (a # xs) \<longrightarrow> h b = tq_next q0 b" by blast
  have "tq_rep (q0\<lparr>tq_next := h, tq_head := p, tq_to := tq_to q0\<rparr>) ys fs (set xs \<union> held - set ys)"
  proof (rule rep_requeue [OF rep0 h(2) _ _ h(4)])
    show "set ys \<subseteq> set xs \<union> held" using h(3) a by auto
    show "\<And>b. b \<in> set fs \<Longrightarrow> h b = tq_next q0 b" using h(5) fresh(2) r(5) by auto
  qed
  moreover have "set xs \<union> held - set ys = held - {a}" using h(3) r(6) by auto
  moreover have "umac_timeoutq_enqueue a q = umac_timeoutq_enqueue_protected a q0"
    using fresh(3) by (simp add: umac_timeoutq_enqueue_def set_next_live q0_def)
  ultimately show ?thesis using h(1,3)
    by (intro exI [of _ "q0\<lparr>tq_next := h, tq_head := p\<rparr>"] exI [of _ ys]) (simp add: q0_def)
qed

text \<open>If no later timer is behind it, the timer becomes the last one and closes a cycle: walking the queue never
  ends.\<close>

lemma enqueue_walk_last:
  assumes "tq_next q w = Some next" "linked (tq_next q) next ys"
    and "\<And>y. y \<in> set ys \<Longrightarrow> \<not> mmosal_time_lt (abs_ms q a) (abs_ms q y)"
  shows "enqueue_walk a w next q = Some (q\<lparr>tq_next := (tq_next q)(last (w # ys) \<mapsto> Some a)\<rparr>)"
  using assms
proof (induction ys arbitrary: w "next")
  case Nil
  then have "w \<in> dom (tq_next q)" by auto
  then show ?case using Nil by (simp add: enqueue_walk.simps set_next_live fun_upd_def)
next
  case (Cons y ys)
  then obtain n where n: "next = Some y" "tq_next q y = Some n" "linked (tq_next q) n ys" by auto
  have "enqueue_walk a w next q = enqueue_walk a y n q"
    using n Cons.prems(3) by (simp add: enqueue_walk.simps [of a w])
  then show ?case using Cons.IH [OF n(2,3)] Cons.prems(3) by simp
qed

lemma enqueue_last:
  assumes rep: "tq_rep q xs fs held" and ne: "xs \<noteq> []"
    and late: "\<And>x. x \<in> set xs \<Longrightarrow> \<not> mmosal_time_lt (abs_ms q a) (abs_ms q x)"
  shows "umac_timeoutq_enqueue_protected a q = Some (q\<lparr>tq_next := (tq_next q)(last xs \<mapsto> Some a)\<rparr>)"
proof -
  obtain w ys where xs: "xs = w # ys" using ne by (cases xs) auto
  then obtain n where "tq_head q = Some w" "tq_next q w = Some n" "linked (tq_next q) n ys"
    using rep_parts(1) [OF rep] by auto
  then show ?thesis
    using enqueue_walk_last [of q w n ys a] late xs by (simp add: umac_timeoutq_enqueue_protected_def)
qed

lemma linked_step:
  "linked h p xs \<Longrightarrow> x \<in> set xs \<Longrightarrow> x = last xs \<or> (\<exists>y\<in>set xs. h x = Some (Some y))"
proof (induction xs arbitrary: p)
  case Nil
  then show ?case by simp
next
  case (Cons a xs)
  then obtain n where n: "h a = Some n" "linked h n xs" by auto
  then show ?case using Cons.IH [OF n(2)] Cons.prems(2) linked_head [OF n(2)] by (cases xs) auto
qed

lemma walk_cycle:
  assumes "\<And>a. a \<in> C \<Longrightarrow> \<not> m (tq_to q a) \<and> (\<exists>b\<in>C. tq_next q a = Some (Some b))" "a \<in> C"
  shows "is_registered_walk m (Some a) q = None"
proof -
  have "m' = m \<longrightarrow> q' = q \<longrightarrow> walk \<notin> Some ` C" if "is_registered_walk m' walk q' = Some y" for m' walk q' y
  proof (rule is_registered_walk.raw_induct [OF _ that])
    fix f m' walk q' y
    assume IH: "\<And>m1 w1 q1 y. f m1 w1 q1 = Some y \<Longrightarrow> m1 = m \<longrightarrow> q1 = q \<longrightarrow> w1 \<notin> Some ` C"
      and body: "(case walk of None \<Rightarrow> Some False
        | Some a \<Rightarrow> if m' (tq_to q' a) then Some True
            else Option.bind (tq_next q' a) (\<lambda>next. f m' next q')) = Some y"
    show "m' = m \<longrightarrow> q' = q \<longrightarrow> walk \<notin> Some ` C"
    proof (intro impI notI)
      assume eq: "m' = m" "q' = q" and "walk \<in> Some ` C"
      then obtain b c where "walk = Some b" "c \<in> C" "tq_next q b = Some (Some c)" "\<not> m (tq_to q b)"
        using assms(1) by blast
      then show False using IH [of m "Some c" q y] body eq by simp
    qed
  qed
  from this [of m "Some a" q] show ?thesis using assms(2) by (cases "is_registered_walk m (Some a) q") auto
qed

lemma walk_seg:
  assumes "seg (tq_next q) p us r" "\<And>u. u \<in> set us \<Longrightarrow> \<not> m (tq_to q u)"
  shows "is_registered_walk m p q = is_registered_walk m r q"
  using assms
proof (induction us arbitrary: p)
  case Nil
  then show ?case by simp
next
  case (Cons u us)
  then obtain n where n: "p = Some u" "tq_next q u = Some n" "seg (tq_next q) n us r" by auto
  have "is_registered_walk m p q = is_registered_walk m n q"
    using n Cons.prems(2) by (simp add: is_registered_walk.simps [of m "Some u"])
  then show ?case using Cons.IH [OF n(3)] Cons.prems(2) by simp
qed

lemma deplete_cycle:
  assumes rep: "tq_rep q (us @ a # vs) fs {}" and ne: "vs \<noteq> []"
    and m: "\<forall>u\<in>set us. \<not> to_matches h a1 a2 (tq_to q u)" "to_matches h a1 a2 (tq_to q a)"
    and late: "\<forall>x\<in>set (us @ vs). \<not> mmosal_time_lt (abs_ms q a) (abs_ms q x)"
    and keep: "\<not> mmosal_time_lt (u32 (now + d)) (abs_ms q a)"
  shows "\<exists>q'. umac_timeoutq_deplete_timeout_protected now d h a1 a2 q = Some (0, q')
    \<and> (\<forall>h' b1 b2. (\<forall>x\<in>set (us @ a # vs). \<not> to_matches h' b1 b2 (tq_to q x)) \<longrightarrow>
        umac_timeoutq_is_timeout_registered_protected h' b1 b2 q' = None)"
proof -
  note r = rep_parts [OF rep]
  obtain q1 where q1: "umac_timeoutq_remove_one_protected h a1 a2 q = Some (Some a, q1)" "tq_rep q1 (us @ vs) fs {a}"
    "tq_to q1 = tq_to q" "tq_next q1 a = tq_next q a"
    using remove_one_found [OF rep m] by auto
  let ?q = "q1\<lparr>tq_next := (tq_next q1)(last (us @ vs) \<mapsto> Some a)\<rparr>"
  have "umac_timeoutq_enqueue_protected a q1 = Some ?q"
    using late ne q1(3) by (intro enqueue_last [OF q1(2)]) auto
  then have "umac_timeoutq_deplete_timeout_protected now d h a1 a2 q = Some (0, ?q)"
    using q1 keep by (simp add: umac_timeoutq_deplete_timeout_protected_def Let_def)
  moreover have "umac_timeoutq_is_timeout_registered_protected h' b1 b2 ?q = None"
    if no: "\<forall>x\<in>set (us @ a # vs). \<not> to_matches h' b1 b2 (tq_to q x)" for h' b1 b2
  proof -
    let ?m = "to_matches h' b1 b2" and ?C = "insert a (set vs)"
    obtain v ws where vs: "vs = v # ws" using ne by (cases vs) auto
    have l: "last (us @ vs) = last vs" "last vs \<in> set vs" "last vs \<noteq> a" "last vs \<notin> set us" "a \<notin> set vs"
      using ne r(3) last_in_set [OF ne] by auto
    have p: "seg (tq_next q1) (tq_head q1) us (Some v)" "linked (tq_next q1) (Some v) vs"
      using rep_parts(1) [OF q1(2)] by (auto simp: seg_append vs)
    have stale: "tq_next q1 a = Some (Some v)" using r(1) q1(4) by (auto simp: seg_append vs)
    have "?m (tq_to ?q b) = False \<and> (\<exists>c\<in>?C. tq_next ?q b = Some (Some c))" if "b \<in> ?C" for b
    proof (intro conjI)
      show "?m (tq_to ?q b) = False" using no that q1(3) by auto
      show "\<exists>c\<in>?C. tq_next ?q b = Some (Some c)"
      proof (cases "b = a")
        case True
        then show ?thesis using stale l vs by auto
      next
        case False
        then have "b \<in> set vs" using that by simp
        then show ?thesis using linked_step [OF p(2)] l(1) by (cases "b = last vs") auto
      qed
    qed
    then have "is_registered_walk ?m (Some v) ?q = None" using vs by (intro walk_cycle [of ?C]) auto
    moreover have "is_registered_walk ?m (tq_head q1) ?q = is_registered_walk ?m (Some v) ?q"
    proof (rule walk_seg)
      show "seg (tq_next ?q) (tq_head q1) us (Some v)" using p(1) l by simp
      show "\<And>u. u \<in> set us \<Longrightarrow> \<not> ?m (tq_to ?q u)" using no q1(3) by simp
    qed
    ultimately show ?thesis by (simp add: umac_timeoutq_is_timeout_registered_protected_def)
  qed
  ultimately show ?thesis by blast
qed

end
