(* ===== verification/Umac_Core.thy ===== *)
theory Umac_Core
  imports Evtq Timeoutq
begin

section \<open>The event loop of the UMAC\<close>

text \<open>
  \<open>morselib/src/umac/core/umac_core.c\<close>, \<open>umac_evtloop.c\<close> and the operations of \<open>umac_timeout.c\<close> on the core: one
  task handles queued events and expired timers; all others reach it by queueing events and registering timers. The
  supplicant's event loop (\<open>supplicant_shim/eloop.c\<close>) is built on it.

  Event handlers, timer handlers and the data path run arbitrary code; of that code the model keeps what it
  does to the core: it is a program that calls the core's interface and goes on according to the results. The
  time of day is an argument of a call that reads it.
\<close>

subsection \<open>State\<close>

datatype mmwlan_sleep_state = MMWLAN_SLEEP_STATE_BUSY | MMWLAN_SLEEP_STATE_IDLE

text \<open>\<open>evtloop_semb\<close> is the binary semaphore (\<open>None\<close>: not created); \<open>sleep_callback\<close> says whether a callback is
  registered, \<open>sleep_calls\<close> records its invocations.\<close>

record ('e, 'h) umac_core_data =
  evtq :: "'e umac_core_evtq"
  toq :: "'h umac_core_timeoutq"
  evtloop_task :: bool
  evtloop_semb :: "bool option"
  evtloop_shutting_down :: bool
  evtloop_has_finished :: bool
  sleep_callback :: bool
  sleep_calls :: "(mmwlan_sleep_state \<times> nat) list"

type_synonym ('e, 'h) core_op = "('e, 'h) umac_core_data \<Rightarrow> ('e, 'h) umac_core_data option"

definition umac_core_init :: "('e, 'h) core_op" where
  "umac_core_init core = do {
     t \<leftarrow> umac_timeoutq_init (toq core);
     e \<leftarrow> umac_evtq_init (evtq core);
     Some (core\<lparr>toq := t, evtq := e\<rparr>)
   }"

definition umac_core_is_running :: "('e, 'h) umac_core_data \<Rightarrow> bool" where
  "umac_core_is_running core = evtloop_task core"

definition umac_core_deinit :: "('e, 'h) core_op" where
  "umac_core_deinit core = do {
     ensure (\<not> umac_core_is_running core);
     Some (core\<lparr>toq := umac_timeoutq_deinit (toq core)\<rparr>)
   }"

definition umac_core_alloc_extra_timeouts ::
  "bool \<Rightarrow> ('e, 'h) umac_core_data \<Rightarrow> (mmwlan_status \<times> ('e, 'h) umac_core_data) option" where
  "umac_core_alloc_extra_timeouts allocated core = do {
     ensure (umac_core_is_running core);
     (status, t) \<leftarrow> umac_timeoutq_alloc_extra allocated (toq core);
     Some (status, core\<lparr>toq := t\<rparr>)
   }"

definition umac_core_register_sleep_cb ::
  "bool \<Rightarrow> ('e, 'h) umac_core_data \<Rightarrow> mmwlan_status \<times> ('e, 'h) umac_core_data" where
  "umac_core_register_sleep_cb callback core = (MMWLAN_SUCCESS, core\<lparr>sleep_callback := callback\<rparr>)"

subsection \<open>Waking and queueing\<close>

definition invoke_sleep_callback ::
  "mmwlan_sleep_state \<Rightarrow> nat \<Rightarrow> ('e, 'h) umac_core_data \<Rightarrow> ('e, 'h) umac_core_data" where
  "invoke_sleep_callback state next_timeout_ms core =
     (if sleep_callback core then core\<lparr>sleep_calls := sleep_calls core @ [(state, next_timeout_ms)]\<rparr> else core)"

definition mmosal_semb_give :: "('e, 'h) core_op" where
  "mmosal_semb_give core = (case evtloop_semb core of None \<Rightarrow> None | Some _ \<Rightarrow> Some (core\<lparr>evtloop_semb := Some True\<rparr>))"

definition umac_core_evt_wake :: "('e, 'h) core_op" where
  "umac_core_evt_wake core =
     (if evtloop_shutting_down core \<or> \<not> evtloop_task core then Some core
      else mmosal_semb_give (invoke_sleep_callback MMWLAN_SLEEP_STATE_BUSY 0 core))"

definition evt_queue_at ::
  "umac_evtq_position \<Rightarrow> 'e \<Rightarrow> ('e, 'h) umac_core_data \<Rightarrow> (bool \<times> ('e, 'h) umac_core_data) option" where
  "evt_queue_at position evt core =
     (if evtloop_shutting_down core \<or> \<not> evtloop_task core then Some (False, core)
      else do {
        (ret, q) \<leftarrow> umac_evt_queue evt position (evtq core);
        core \<leftarrow> mmosal_semb_give (invoke_sleep_callback MMWLAN_SLEEP_STATE_BUSY 0 (core\<lparr>evtq := q\<rparr>));
        Some (ret, core)
      })"

definition umac_core_evt_queue ::
  "'e \<Rightarrow> ('e, 'h) umac_core_data \<Rightarrow> (bool \<times> ('e, 'h) umac_core_data) option" where
  "umac_core_evt_queue = evt_queue_at EVTQ_TAIL"

definition umac_core_evt_queue_at_start ::
  "'e \<Rightarrow> ('e, 'h) umac_core_data \<Rightarrow> (bool \<times> ('e, 'h) umac_core_data) option" where
  "umac_core_evt_queue_at_start = evt_queue_at EVTQ_HEAD"

subsection \<open>Timers\<close>

definition umac_core_register_timeout ::
  "nat \<Rightarrow> nat \<Rightarrow> 'h option \<Rightarrow> ptr \<Rightarrow> ptr \<Rightarrow> ('e, 'h) umac_core_data \<Rightarrow> (bool \<times> ('e, 'h) umac_core_data) option" where
  "umac_core_register_timeout now delta_ms handler arg1 arg2 core =
     (if evtloop_shutting_down core \<or> \<not> umac_core_is_running core then Some (False, core)
      else do {
        (to, q) \<leftarrow> umac_timeoutq_alloc (toq core);
        case to of
          None \<Rightarrow> Some (False, core\<lparr>toq := q\<rparr>)
        | Some a \<Rightarrow> do {
            let timeout = u32 (now + delta_ms);
            let timeout =
              (if delta_ms = 0 then
                 case umac_timeoutq_peek_next_timeout q of
                   None \<Rightarrow> timeout
                 | Some next \<Rightarrow> if mmosal_time_lt next timeout then sub32 next 1 else timeout
               else timeout);
            let q = q\<lparr>tq_to := (tq_to q)(a :=
              \<lparr>timeout_abs_ms = timeout, to_handler = handler, to_arg1 = arg1, to_arg2 = arg2\<rparr>)\<rparr>;
            q \<leftarrow> umac_timeoutq_enqueue a q;
            core \<leftarrow> umac_core_evt_wake (core\<lparr>toq := q\<rparr>);
            Some (True, core)
          }
      })"

definition umac_core_cancel_timeout ::
  "'h option \<Rightarrow> ptr \<Rightarrow> ptr \<Rightarrow> ('e, 'h) umac_core_data \<Rightarrow> (nat \<times> ('e, 'h) umac_core_data) option" where
  "umac_core_cancel_timeout handler arg1 arg2 core = do {
     (ret, q) \<leftarrow> umac_timeoutq_cancel_protected handler arg1 arg2 (toq core);
     Some (ret, core\<lparr>toq := q\<rparr>)
   }"

text \<open>The result is the number of timers cancelled and what is stored through \<open>remaining\<close>, if anything is.\<close>

definition umac_core_cancel_timeout_one ::
  "nat \<Rightarrow> 'h option \<Rightarrow> ptr \<Rightarrow> ptr \<Rightarrow> ('e, 'h) umac_core_data
    \<Rightarrow> (nat \<times> nat option \<times> ('e, 'h) umac_core_data) option" where
  "umac_core_cancel_timeout_one now handler arg1 arg2 core = do {
     (to, q) \<leftarrow> umac_timeoutq_remove_one_protected handler arg1 arg2 (toq core);
     case to of
       None \<Rightarrow> Some (0, None, core\<lparr>toq := q\<rparr>)
     | Some a \<Rightarrow> do {
         let remaining_signed = s32 (sub32 (abs_ms q a) now);
         let remaining = (if remaining_signed < 0 then 0 else nat remaining_signed);
         q \<leftarrow> umac_timeoutq_free a q;
         Some (1, Some remaining, core\<lparr>toq := q\<rparr>)
       }
   }"

definition umac_core_is_timeout_registered ::
  "'h option \<Rightarrow> ptr \<Rightarrow> ptr \<Rightarrow> ('e, 'h) umac_core_data \<Rightarrow> bool option" where
  "umac_core_is_timeout_registered handler arg1 arg2 core =
     umac_timeoutq_is_timeout_registered_protected handler arg1 arg2 (toq core)"

definition umac_core_deplete_timeout ::
  "nat \<Rightarrow> nat \<Rightarrow> 'h option \<Rightarrow> ptr \<Rightarrow> ptr \<Rightarrow> ('e, 'h) umac_core_data \<Rightarrow> (int \<times> ('e, 'h) umac_core_data) option" where
  "umac_core_deplete_timeout now delta_ms handler arg1 arg2 core = do {
     (ret, q) \<leftarrow> umac_timeoutq_deplete_timeout_protected now delta_ms handler arg1 arg2 (toq core);
     core \<leftarrow> (if ret = 1 then umac_core_evt_wake (core\<lparr>toq := q\<rparr>) else Some (core\<lparr>toq := q\<rparr>));
     Some (ret, core)
   }"

subsection \<open>The event loop of the supplicant\<close>

abbreviation (input) INT32_MAX :: nat where "INT32_MAX \<equiv> 2147483647"

definition eloop_register_timeout ::
  "nat \<Rightarrow> nat \<Rightarrow> nat \<Rightarrow> 'h option \<Rightarrow> ptr \<Rightarrow> ptr \<Rightarrow> ('e, 'h) umac_core_data \<Rightarrow> (int \<times> ('e, 'h) umac_core_data) option" where
  "eloop_register_timeout now secs usecs handler eloop_data user_data core =
     (if secs > INT32_MAX div 1000 - 1 then Some (-1, core)
      else do {
        (ok, core) \<leftarrow> umac_core_register_timeout now (u32 (secs * 1000 + usecs div 1000)) handler eloop_data user_data core;
        Some (if ok then 1 else 0, core)
      })"

definition eloop_cancel_timeout ::
  "'h option \<Rightarrow> ptr \<Rightarrow> ptr \<Rightarrow> ('e, 'h) umac_core_data \<Rightarrow> (nat \<times> ('e, 'h) umac_core_data) option" where
  "eloop_cancel_timeout handler eloop_data user_data = umac_core_cancel_timeout handler eloop_data user_data"

text \<open>The third component is \<open>remaining\<close>, seconds and microseconds, where it is stored.\<close>

definition eloop_cancel_timeout_one ::
  "nat \<Rightarrow> 'h option \<Rightarrow> ptr \<Rightarrow> ptr \<Rightarrow> ('e, 'h) umac_core_data
    \<Rightarrow> (nat \<times> (nat \<times> nat) option \<times> ('e, 'h) umac_core_data) option" where
  "eloop_cancel_timeout_one now handler eloop_data user_data core = do {
     let remaining_ms = 0;
     (ret, stored, core) \<leftarrow> umac_core_cancel_timeout_one now handler eloop_data user_data core;
     let remaining_ms = (case stored of None \<Rightarrow> remaining_ms | Some ms \<Rightarrow> ms);
     Some (ret, if ret > 0 then Some (remaining_ms div 1000, u32 (remaining_ms * 1000)) else None, core)
   }"

definition eloop_is_timeout_registered ::
  "'h option \<Rightarrow> ptr \<Rightarrow> ptr \<Rightarrow> ('e, 'h) umac_core_data \<Rightarrow> bool option" where
  "eloop_is_timeout_registered handler eloop_data user_data = umac_core_is_timeout_registered handler eloop_data user_data"

definition eloop_deplete_timeout ::
  "nat \<Rightarrow> nat \<Rightarrow> nat \<Rightarrow> 'h option \<Rightarrow> ptr \<Rightarrow> ptr \<Rightarrow> ('e, 'h) umac_core_data \<Rightarrow> (int \<times> ('e, 'h) umac_core_data) option" where
  "eloop_deplete_timeout now req_secs req_usecs handler eloop_data user_data core =
     (if req_secs > INT32_MAX div 1000 - 1 then Some (-1, core)
      else umac_core_deplete_timeout now (u32 (req_secs * 1000 + req_usecs div 1000)) handler eloop_data user_data core)"

subsection \<open>Handlers\<close>

text \<open>A handler calls the core and goes on according to the result. \<open>umac_core_deplete_timeout\<close> is not among the calls:
  it can break the queue (\<open>deplete_cycle\<close>).\<close>

datatype ('e, 'h) core_call =
    Register_timeout nat nat 'h ptr ptr
  | Cancel_timeout 'h ptr ptr
  | Cancel_timeout_one nat 'h ptr ptr
  | Is_timeout_registered 'h ptr ptr
  | Queue_event 'e
  | Queue_event_at_start 'e
  | Wake
  | Alloc_extra_timeouts bool
  | Register_sleep_cb bool

fun run_call :: "('e, 'h) core_call \<Rightarrow> ('e, 'h) umac_core_data \<Rightarrow> (nat \<times> ('e, 'h) umac_core_data) option" where
  "run_call (Register_timeout now delta h a1 a2) core = do {
     (ok, core) \<leftarrow> umac_core_register_timeout now delta (Some h) a1 a2 core; Some (of_bool ok, core) }"
| "run_call (Cancel_timeout h a1 a2) core = umac_core_cancel_timeout (Some h) a1 a2 core"
| "run_call (Cancel_timeout_one now h a1 a2) core = do {
     (n, _, core) \<leftarrow> umac_core_cancel_timeout_one now (Some h) a1 a2 core; Some (n, core) }"
| "run_call (Is_timeout_registered h a1 a2) core = do {
     r \<leftarrow> umac_core_is_timeout_registered (Some h) a1 a2 core; Some (of_bool r, core) }"
| "run_call (Queue_event e) core = do { (ok, core) \<leftarrow> umac_core_evt_queue e core; Some (of_bool ok, core) }"
| "run_call (Queue_event_at_start e) core = do {
     (ok, core) \<leftarrow> umac_core_evt_queue_at_start e core; Some (of_bool ok, core) }"
| "run_call Wake core = do { core \<leftarrow> umac_core_evt_wake core; Some (0, core) }"
| "run_call (Alloc_extra_timeouts ok) core = do {
     (s, core) \<leftarrow> umac_core_alloc_extra_timeouts ok core; Some (of_bool (s = MMWLAN_SUCCESS), core) }"
| "run_call (Register_sleep_cb cb) core = (let (_, core) = umac_core_register_sleep_cb cb core in Some (0, core))"

datatype ('e, 'h, 'r) program = Done 'r | Call "('e, 'h) core_call" "nat \<Rightarrow> ('e, 'h, 'r) program"

primrec run_program ::
  "('e, 'h, 'r) program \<Rightarrow> ('e, 'h) umac_core_data \<Rightarrow> ('r \<times> ('e, 'h) umac_core_data) option" where
  "run_program (Done r) = (\<lambda>core. Some (r, core))"
| "run_program (Call call k) = (\<lambda>core. Option.bind (run_call call core) (\<lambda>(r, core). run_program (k r) core))"

text \<open>\<open>'w\<close> is everything besides the core: the rest of the UMAC and the world, whose time \<open>clock\<close> reads.\<close>

record ('e, 'h, 'w) environment =
  on_event :: "'e \<Rightarrow> 'w \<Rightarrow> ('e, 'h, 'w) program"
  on_timeout :: "'h \<Rightarrow> ptr \<Rightarrow> ptr \<Rightarrow> 'w \<Rightarrow> ('e, 'h, 'w) program"
  umac_datapath_process :: "'w \<Rightarrow> ('e, 'h, bool \<times> 'w) program"
  clock :: "'w \<Rightarrow> nat"

subsection \<open>Dispatching\<close>

definition umac_timeoutq_dispatch_timeout ::
  "('e, 'h, 'w) environment \<Rightarrow> nat \<Rightarrow> 'w \<Rightarrow> ('e, 'h) umac_core_data \<Rightarrow> ('w \<times> ('e, 'h) umac_core_data) option" where
  "umac_timeoutq_dispatch_timeout env to w core = do {
     let t = tq_to (toq core) to;
     q \<leftarrow> umac_timeoutq_free to (toq core);
     case to_handler t of
       None \<Rightarrow> None
     | Some handler \<Rightarrow> run_program (on_timeout env handler (to_arg1 t) (to_arg2 t) w) (core\<lparr>toq := q\<rparr>)
   }"

fun dispatch_timeouts ::
  "('e, 'h, 'w) environment \<Rightarrow> nat \<Rightarrow> nat \<Rightarrow> 'w \<Rightarrow> ('e, 'h) umac_core_data
    \<Rightarrow> (nat \<times> 'w \<times> ('e, 'h) umac_core_data) option" where
  "dispatch_timeouts env time_ms 0 w core = Some (0, w, core)"
| "dispatch_timeouts env time_ms (Suc n) w core = do {
     (to, q) \<leftarrow> umac_timeoutq_dequeue time_ms (toq core);
     let core = core\<lparr>toq := q\<rparr>;
     case to of
       None \<Rightarrow> Some (0, w, core)
     | Some a \<Rightarrow> do {
         (w, core) \<leftarrow> umac_timeoutq_dispatch_timeout env a w core;
         (fired, w, core) \<leftarrow> dispatch_timeouts env time_ms n w core;
         Some (fired + 1, w, core)
       }
   }"

definition umac_timeoutq_dispatch ::
  "('e, 'h, 'w) environment \<Rightarrow> 'w \<Rightarrow> ('e, 'h) umac_core_data \<Rightarrow> (nat \<times> 'w \<times> ('e, 'h) umac_core_data) option" where
  "umac_timeoutq_dispatch env w core = dispatch_timeouts env (clock env w) MAX_TIMEOUTS_DISPATCHED_AT_ONCE w core"

abbreviation (input) UINT32_MAX :: nat where "UINT32_MAX \<equiv> 4294967295"

definition umac_timeoutq_time_to_next_timeout ::
  "('e, 'h, 'w) environment \<Rightarrow> 'w \<Rightarrow> ('e, 'h) umac_core_data \<Rightarrow> nat" where
  "umac_timeoutq_time_to_next_timeout env w core =
     (case umac_timeoutq_peek_next_timeout (toq core) of
        None \<Rightarrow> UINT32_MAX
      | Some next \<Rightarrow>
          (let delta = s32 (sub32 next (clock env w)) in if delta < 0 then 0 else nat delta))"

definition evtloop_dispatch ::
  "('e, 'h, 'w) environment \<Rightarrow> nat \<Rightarrow> 'w \<Rightarrow> ('e, 'h) umac_core_data \<Rightarrow> ('w \<times> ('e, 'h) umac_core_data) option" where
  "evtloop_dispatch env evt w core = do {
     (w, core) \<leftarrow> run_program (on_event env (eq_pool (evtq core) evt) w) core;
     q \<leftarrow> umac_evt_free evt (evtq core);
     Some (w, core\<lparr>evtq := q\<rparr>)
   }"

abbreviation (input) MAX_EVTS_DISPATCHED_AT_ONCE :: nat where "MAX_EVTS_DISPATCHED_AT_ONCE \<equiv> 5"

fun dispatch_events ::
  "('e, 'h, 'w) environment \<Rightarrow> nat \<Rightarrow> 'w \<Rightarrow> ('e, 'h) umac_core_data \<Rightarrow> ('w \<times> ('e, 'h) umac_core_data) option" where
  "dispatch_events env 0 w core = Some (w, core)"
| "dispatch_events env (Suc n) w core = do {
     (evt, q) \<leftarrow> umac_evt_dequeue (evtq core);
     let core = core\<lparr>evtq := q\<rparr>;
     case evt of
       None \<Rightarrow> Some (w, core)
     | Some a \<Rightarrow> do { (w, core) \<leftarrow> evtloop_dispatch env a w core; dispatch_events env n w core }
   }"

definition evtloop_iteration ::
  "('e, 'h, 'w) environment \<Rightarrow> 'w \<Rightarrow> ('e, 'h) umac_core_data \<Rightarrow> (nat \<times> 'w \<times> ('e, 'h) umac_core_data) option" where
  "evtloop_iteration env w core = do {
     ((datapath_pending, w), core) \<leftarrow> run_program (umac_datapath_process env w) core;
     (w, core) \<leftarrow> dispatch_events env MAX_EVTS_DISPATCHED_AT_ONCE w core;
     (num_timeouts_fired, w, core) \<leftarrow> umac_timeoutq_dispatch env w core;
     Some (if datapath_pending \<or> \<not> umac_evtq_is_empty (evtq core) then 0
           else umac_timeoutq_time_to_next_timeout env w core, w, core)
   }"

subsection \<open>The task\<close>

text \<open>One turn of \<open>evtloop_main\<close>: the result says whether the task has ended. \<open>mmosal_semb_wait\<close> takes the semaphore,
  unless the time runs out first; meanwhile other tasks may change the core and the world, which the environment of
  the next turn sees.\<close>

definition mmosal_semb_wait :: "('e, 'h) core_op" where
  "mmosal_semb_wait core = (case evtloop_semb core of None \<Rightarrow> None | Some _ \<Rightarrow> Some (core\<lparr>evtloop_semb := Some False\<rparr>))"

definition evtloop_main_turn ::
  "('e, 'h, 'w) environment \<Rightarrow> 'w \<Rightarrow> ('e, 'h) umac_core_data \<Rightarrow> (bool \<times> 'w \<times> ('e, 'h) umac_core_data) option" where
  "evtloop_main_turn env w core =
     (if \<not> evtloop_shutting_down core then do {
        (next_timeout, w, core) \<leftarrow> evtloop_iteration env w core;
        core \<leftarrow> (if next_timeout \<noteq> 0 then do {
                   let core = invoke_sleep_callback MMWLAN_SLEEP_STATE_IDLE next_timeout core;
                   core \<leftarrow> mmosal_semb_wait core;
                   Some (invoke_sleep_callback MMWLAN_SLEEP_STATE_BUSY 0 core)
                 }
                 else Some core);
        Some (False, w, core)
      }
      else do {
        ensure (evtloop_semb core \<noteq> None);
        Some (True, w, core\<lparr>evtloop_semb := None, evtloop_has_finished := True\<rparr>)
      })"

definition umac_core_start ::
  "bool \<Rightarrow> bool \<Rightarrow> ('e, 'h) umac_core_data \<Rightarrow> mmwlan_status \<times> ('e, 'h) umac_core_data" where
  "umac_core_start semb_created task_created core =
     (if \<not> evtloop_task core then
        (let core = core\<lparr>evtloop_shutting_down := False, evtloop_has_finished := False,
                         evtloop_semb := (if semb_created then Some False else None)\<rparr> in
         if evtloop_semb core = None then (MMWLAN_NO_MEM, core)
         else
           (let core = core\<lparr>evtloop_task := task_created\<rparr> in
            if \<not> evtloop_task core then (MMWLAN_NO_MEM, core\<lparr>evtloop_semb := None\<rparr>)
            else (MMWLAN_SUCCESS, core)))
      else (MMWLAN_SUCCESS, core))"

text \<open>\<open>active\<close> says that the event loop's own task stops the core; otherwise the caller waits for that task, which
  goes on until it has ended: \<open>finish\<close> is what it does to the core.\<close>

definition umac_core_stop ::
  "bool \<Rightarrow> ('e, 'h) core_op \<Rightarrow> ('e, 'h) core_op" where
  "umac_core_stop active finish core =
     (if \<not> evtloop_shutting_down core then do {
        let core = core\<lparr>evtloop_shutting_down := True\<rparr>;
        if evtloop_task core then do {
          core \<leftarrow> mmosal_semb_give (invoke_sleep_callback MMWLAN_SLEEP_STATE_BUSY 0 core);
          core \<leftarrow> (if \<not> active \<and> \<not> evtloop_has_finished core then do {
                     core \<leftarrow> finish core;
                     ensure (evtloop_has_finished core);
                     Some core
                   }
                   else Some core);
          Some (core\<lparr>evtloop_task := False\<rparr>)
        }
        else Some core
      }
      else Some core)"

end
