(* ===== verification/Umac_Core_Correct.thy ===== *)
theory Umac_Core_Correct
  imports Umac_Core
begin

section \<open>Correctness of the event loop\<close>

text \<open>
  The core never fails, whatever the handlers do with it (\<open>core_ok\<close>); timers form a list ordered by expiry; due
  timers fire in that order and the loop does not sleep past the next one; \<open>umac_core_deplete_timeout\<close> can
  break the queue.
\<close>

subsection \<open>The invariant of a running core\<close>

text \<open>Both pools are split as \<open>evtq_rep\<close> and \<open>tq_rep\<close> say, \<open>held\<close> being the events that are being handled; every timer
  has a handler; the task and its semaphore exist.\<close>

definition timers_ok :: "'h umac_core_timeoutq \<Rightarrow> bool" where
  "timers_ok q \<longleftrightarrow> (\<exists>xs fs. tq_rep q xs fs {} \<and> (\<forall>a\<in>set xs. to_handler (tq_to q a) \<noteq> None))"

lemma timers_okI:
  "tq_rep q xs fs {} \<Longrightarrow> (\<And>a. a \<in> set xs \<Longrightarrow> to_handler (tq_to q a) \<noteq> None) \<Longrightarrow> timers_ok q"
  unfolding timers_ok_def by blast

definition core_ok :: "nat set \<Rightarrow> ('e, 'h) umac_core_data \<Rightarrow> bool" where
  "core_ok held core \<longleftrightarrow> (\<exists>xs fs. evtq_rep (evtq core) xs fs held) \<and> timers_ok (toq core)
     \<and> evtloop_task core \<and> evtloop_semb core \<noteq> None \<and> \<not> evtloop_shutting_down core"

lemma core_ok_toq: "core_ok held core \<Longrightarrow> timers_ok q \<Longrightarrow> core_ok held (core\<lparr>toq := q\<rparr>)"
  by (simp add: core_ok_def)

lemma core_ok_evtq: "core_ok held core \<Longrightarrow> evtq_rep q xs fs held' \<Longrightarrow> core_ok held' (core\<lparr>evtq := q\<rparr>)"
  by (auto simp: core_ok_def)

lemma core_ok_sleep: "core_ok held core \<Longrightarrow> core_ok held (invoke_sleep_callback s t core)"
  by (simp add: core_ok_def invoke_sleep_callback_def)

lemma core_ok_give:
  assumes "core_ok held core"
  shows "\<exists>core'. mmosal_semb_give core = Some core' \<and> core_ok held core'"
proof -
  obtain b where "evtloop_semb core = Some b" using assms by (auto simp: core_ok_def)
  then show ?thesis using assms by (auto simp: mmosal_semb_give_def core_ok_def)
qed

lemma core_ok_wake:
  assumes "core_ok held core"
  shows "\<exists>core'. umac_core_evt_wake core = Some core' \<and> core_ok held core'"
  using assms core_ok_give [OF core_ok_sleep [OF assms]] by (auto simp: umac_core_evt_wake_def)

lemma core_ok_queue:
  assumes "core_ok held core"
  shows "\<exists>ok core'. evt_queue_at pos e core = Some (ok, core') \<and> core_ok held core'"
proof (cases "evtloop_shutting_down core \<or> \<not> evtloop_task core")
  case True
  then show ?thesis using assms by (auto simp: evt_queue_at_def)
next
  case False
  obtain xs fs where rep: "evtq_rep (evtq core) xs fs held" using assms by (auto simp: core_ok_def)
  have "\<exists>ok q' ys gs. umac_evt_queue e pos (evtq core) = Some (ok, q') \<and> evtq_rep q' ys gs held"
  proof (cases fs)
    case Nil
    then show ?thesis using queue_full [of "evtq core" xs held e pos] rep by auto
  next
    case (Cons a fs')
    then show ?thesis
      using queue_head_rep [of "evtq core" xs a fs' held e] queue_tail_rep [of "evtq core" xs a fs' held e] rep
      by (cases pos) blast+
  qed
  then obtain ok q' where q': "umac_evt_queue e pos (evtq core) = Some (ok, q')" "core_ok held (core\<lparr>evtq := q'\<rparr>)"
    using core_ok_evtq [OF assms] by blast
  from core_ok_give [OF core_ok_sleep [OF q'(2)], of MMWLAN_SLEEP_STATE_BUSY 0] q'(1) False
  show ?thesis by (auto simp: evt_queue_at_def)
qed

lemma timers_ok_enqueue:
  assumes "tq_rep q xs fs {a}" "\<forall>x\<in>set (a # xs). to_handler (tq_to q x) \<noteq> None"
  shows "\<exists>q'. umac_timeoutq_enqueue a q = Some q' \<and> timers_ok q'"
proof -
  obtain q' ys where q': "umac_timeoutq_enqueue a q = Some q'" "tq_rep q' ys fs {}" "set ys = insert a (set xs)"
    "tq_to q' = tq_to q" using enqueue_any [OF assms(1)] by auto
  moreover have "\<forall>y\<in>set ys. to_handler (tq_to q' y) \<noteq> None" using q'(3,4) assms(2) by simp
  ultimately show ?thesis using timers_okI by blast
qed

lemma tq_rep_to: "tq_rep (q\<lparr>tq_to := t\<rparr>) xs fs held = tq_rep q xs fs held"
  by (simp add: tq_rep_def)

lemma core_ok_register:
  assumes "core_ok held core"
  shows "\<exists>ok core'. umac_core_register_timeout now delta (Some h) a1 a2 core = Some (ok, core') \<and> core_ok held core'"
proof (cases "evtloop_shutting_down core \<or> \<not> umac_core_is_running core")
  case True
  then show ?thesis using assms by (auto simp: umac_core_register_timeout_def)
next
  case False
  obtain xs fs where rep: "tq_rep (toq core) xs fs {}" "\<forall>a\<in>set xs. to_handler (tq_to (toq core) a) \<noteq> None"
    using assms by (auto simp: core_ok_def timers_ok_def)
  show ?thesis
  proof (cases fs)
    case Nil
    have "umac_timeoutq_alloc (toq core) = Some (None, toq core)" using alloc_empty rep(1) Nil by blast
    moreover have "core\<lparr>toq := toq core\<rparr> = core" by simp
    ultimately show ?thesis using assms False by (auto simp: umac_core_register_timeout_def)
  next
    case (Cons a fs')
    obtain q1 where q1: "umac_timeoutq_alloc (toq core) = Some (Some a, q1)" "tq_rep q1 xs fs' {a}" "tq_to q1 = tq_to (toq core)"
      using alloc_rep [of "toq core" xs a fs'] rep(1) Cons by auto
    have "\<exists>q'. umac_timeoutq_enqueue a (q1\<lparr>tq_to := (tq_to q1)(a := t)\<rparr>) = Some q' \<and> timers_ok q'"
      if "to_handler t \<noteq> None" for t
      using that rep(2) q1(2,3) by (intro timers_ok_enqueue [of _ xs fs']) (auto simp: tq_rep_to)
    note place = this
    define timeout where "timeout =
      (if delta = 0 then case umac_timeoutq_peek_next_timeout q1 of None \<Rightarrow> u32 (now + delta)
          | Some next \<Rightarrow> if mmosal_time_lt next (u32 (now + delta)) then sub32 next 1 else u32 (now + delta)
       else u32 (now + delta))"
    obtain q' where "umac_timeoutq_enqueue a (q1\<lparr>tq_to := (tq_to q1)(a :=
        \<lparr>timeout_abs_ms = timeout, to_handler = Some h, to_arg1 = a1, to_arg2 = a2\<rparr>)\<rparr>) = Some q'" "timers_ok q'"
      using place [of "\<lparr>timeout_abs_ms = timeout, to_handler = Some h, to_arg1 = a1, to_arg2 = a2\<rparr>"] by auto
    moreover obtain core' where "umac_core_evt_wake (core\<lparr>toq := q'\<rparr>) = Some core'" "core_ok held core'"
      using core_ok_wake [OF core_ok_toq [OF assms calculation(2)]] by blast
    ultimately show ?thesis using False q1(1)
      by (auto simp: umac_core_register_timeout_def Let_def timeout_def)
  qed
qed

lemma core_ok_cancel:
  assumes "core_ok held core"
  shows "\<exists>n core'. umac_core_cancel_timeout h a1 a2 core = Some (n, core') \<and> core_ok held core'"
proof -
  obtain xs fs where rep: "tq_rep (toq core) xs fs {}" "\<forall>a\<in>set xs. to_handler (tq_to (toq core) a) \<noteq> None"
    using assms by (auto simp: core_ok_def timers_ok_def)
  obtain n q' ys fs' where q': "umac_timeoutq_cancel_protected h a1 a2 (toq core) = Some (n, q')"
    "tq_rep q' ys fs' {}" "set ys \<subseteq> set xs" "tq_to q' = tq_to (toq core)"
    using cancel_rep [OF rep(1), of h a1 a2] filter_is_subset by metis
  have "timers_ok q'" by (rule timers_okI [OF q'(2)]) (use q'(3,4) rep(2) in auto)
  then show ?thesis using q'(1) core_ok_toq [OF assms] by (auto simp: umac_core_cancel_timeout_def)
qed

lemma core_ok_cancel_one:
  assumes "core_ok held core"
  shows "\<exists>n rem core'. umac_core_cancel_timeout_one now h a1 a2 core = Some (n, rem, core') \<and> core_ok held core'"
proof -
  obtain xs fs where rep: "tq_rep (toq core) xs fs {}" "\<forall>a\<in>set xs. to_handler (tq_to (toq core) a) \<noteq> None"
    using assms by (auto simp: core_ok_def timers_ok_def)
  show ?thesis
  proof (cases "\<exists>x\<in>set xs. to_matches h a1 a2 (tq_to (toq core) x)")
    case False
    moreover have "core\<lparr>toq := toq core\<rparr> = core" by simp
    ultimately show ?thesis using remove_one_none [OF rep(1)] assms by (simp add: umac_core_cancel_timeout_one_def)
  next
    case True
    then obtain us a vs where xs: "xs = us @ a # vs" "to_matches h a1 a2 (tq_to (toq core) a)"
      "\<forall>u\<in>set us. \<not> to_matches h a1 a2 (tq_to (toq core) u)"
      using split_list_first_prop [OF True] by blast
    obtain q1 where q1: "umac_timeoutq_remove_one_protected h a1 a2 (toq core) = Some (Some a, q1)"
      "tq_rep q1 (us @ vs) fs {a}" "tq_to q1 = tq_to (toq core)"
      using remove_one_found [of "toq core" us a vs fs "{}" h a1 a2] rep(1) xs by auto
    obtain q2 where q2: "umac_timeoutq_free a q1 = Some q2" "tq_rep q2 (us @ vs) (a # fs) {}"
      "tq_to q2 = (tq_to q1)(a := zero_timeout)" using free_rep [OF q1(2), of a] by auto
    have "a \<notin> set (us @ vs)" using rep_parts(3) [OF rep(1)] xs(1) by auto
    then have "timers_ok q2" using q2(3) q1(3) rep(2) xs(1) by (intro timers_okI [OF q2(2)]) auto
    then show ?thesis using q1(1) q2(1) core_ok_toq [OF assms]
      by (auto simp: umac_core_cancel_timeout_one_def Let_def)
  qed
qed

lemma core_ok_alloc_extra:
  assumes "core_ok held core"
  shows "\<exists>s core'. umac_core_alloc_extra_timeouts ok core = Some (s, core') \<and> core_ok held core'"
proof -
  obtain xs fs where rep: "tq_rep (toq core) xs fs {}" "\<forall>a\<in>set xs. to_handler (tq_to (toq core) a) \<noteq> None"
    using assms by (auto simp: core_ok_def timers_ok_def)
  have same: "core\<lparr>toq := toq core\<rparr> = core" by simp
  have run: "umac_core_is_running core" using assms by (simp add: core_ok_def umac_core_is_running_def)
  show ?thesis
  proof (cases "tq_extra_pool (toq core) \<or> \<not> ok")
    case True
    then show ?thesis using run assms same
      by (auto simp: umac_core_alloc_extra_timeouts_def umac_timeoutq_alloc_extra_def)
  next
    case False
    then obtain q' where q': "umac_timeoutq_alloc_extra True (toq core) = Some (MMWLAN_SUCCESS, q')"
      "tq_rep q' xs (rev [20..<84] @ fs) {}" "\<forall>a<20. tq_to q' a = tq_to (toq core) a"
      using alloc_extra_rep [OF rep(1)] by auto
    have "set xs \<subseteq> {..<20}" using rep_parts(7) [OF rep(1)] False by (auto simp: pool_size_def)
    then have "timers_ok q'" using q'(3) rep(2) by (intro timers_okI [OF q'(2)]) auto
    then show ?thesis using q'(1) False run core_ok_toq [OF assms]
      by (auto simp: umac_core_alloc_extra_timeouts_def)
  qed
qed

lemma core_ok_call:
  assumes "core_ok held core"
  shows "\<exists>r core'. run_call call core = Some (r, core') \<and> core_ok held core'"
proof (cases call)
  case (Register_timeout now delta h a1 a2)
  then show ?thesis using core_ok_register [OF assms, of now delta h a1 a2] by auto
next
  case (Cancel_timeout h a1 a2)
  then show ?thesis using core_ok_cancel [OF assms] by auto
next
  case (Cancel_timeout_one now h a1 a2)
  then show ?thesis using core_ok_cancel_one [OF assms, of now "Some h" a1 a2] by auto
next
  case (Is_timeout_registered h a1 a2)
  obtain xs fs where "tq_rep (toq core) xs fs {}" using assms by (auto simp: core_ok_def timers_ok_def)
  then show ?thesis using Is_timeout_registered assms is_registered_rep
    by (fastforce simp: umac_core_is_timeout_registered_def)
next
  case (Queue_event e)
  then show ?thesis using core_ok_queue [OF assms, of EVTQ_TAIL e] by (auto simp: umac_core_evt_queue_def)
next
  case (Queue_event_at_start e)
  then show ?thesis using core_ok_queue [OF assms, of EVTQ_HEAD e] by (auto simp: umac_core_evt_queue_at_start_def)
next
  case Wake
  then show ?thesis using core_ok_wake [OF assms] by auto
next
  case (Alloc_extra_timeouts ok)
  then show ?thesis using core_ok_alloc_extra [OF assms, of ok] by auto
next
  case (Register_sleep_cb cb)
  then show ?thesis using assms by (simp add: umac_core_register_sleep_cb_def core_ok_def)
qed

lemma core_ok_program:
  "core_ok held core \<Longrightarrow> \<exists>r core'. run_program p core = Some (r, core') \<and> core_ok held core'"
proof (induction p arbitrary: core)
  case (Done r)
  then show ?case by simp
next
  case (Call call k)
  obtain r core1 where "run_call call core = Some (r, core1)" "core_ok held core1"
    using core_ok_call [OF Call.prems] by blast
  with Call.IH [of "k r" core1] show ?case by auto
qed

subsection \<open>The loop never fails\<close>

lemma core_ok_evtloop_dispatch:
  assumes "core_ok (insert a held) core" "a \<notin> held"
  shows "\<exists>w' core'. evtloop_dispatch env a w core = Some (w', core') \<and> core_ok held core'"
proof -
  obtain w1 core1 where run: "run_program (on_event env (eq_pool (evtq core) a) w) core = Some (w1, core1)"
    "core_ok (insert a held) core1" 
    using core_ok_program [OF assms(1), of "on_event env (eq_pool (evtq core) a) w"] by blast
  then obtain xs fs where "evtq_rep (evtq core1) xs fs (insert a held)" by (auto simp: core_ok_def)
  then obtain q' where "umac_evt_free a (evtq core1) = Some q'" "evtq_rep q' xs (a # fs) held"
    using evt_free_rep [of "evtq core1" xs fs "insert a held" a] assms(2) by auto
  then show ?thesis using run core_ok_evtq by (fastforce simp: evtloop_dispatch_def)
qed

lemma core_ok_dispatch_events:
  "core_ok {} core \<Longrightarrow> \<exists>w' core'. dispatch_events env n w core = Some (w', core') \<and> core_ok {} core'"
proof (induction n arbitrary: w core)
  case 0
  then show ?case by simp
next
  case (Suc n)
  obtain xs fs where rep: "evtq_rep (evtq core) xs fs {}" using Suc.prems by (auto simp: core_ok_def)
  show ?case
  proof (cases xs)
    case Nil
    have "core\<lparr>evtq := evtq core\<rparr> = core" by simp
    then show ?thesis using evt_dequeue_empty [of "evtq core" fs] rep Nil Suc.prems by simp
  next
    case (Cons a ys)
    obtain q1 where q1: "umac_evt_dequeue (evtq core) = Some (Some a, q1)" "evtq_rep q1 ys fs {a}"
      using evt_dequeue_rep [of "evtq core" a ys fs "{}"] rep Cons by auto
    have "core_ok (insert a {}) (core\<lparr>evtq := q1\<rparr>)" by (rule core_ok_evtq [OF Suc.prems q1(2)])
    then obtain w2 core2 where "evtloop_dispatch env a w (core\<lparr>evtq := q1\<rparr>) = Some (w2, core2)" "core_ok {} core2"
      using core_ok_evtloop_dispatch [of a "{}" "core\<lparr>evtq := q1\<rparr>" env w] by auto
    with Suc.IH [of core2 w2] q1(1) show ?thesis by auto
  qed
qed

lemma core_ok_dispatch_timeouts:
  "core_ok held core \<Longrightarrow> \<exists>k w' core'. dispatch_timeouts env t n w core = Some (k, w', core') \<and> core_ok held core' \<and> k \<le> n"
proof (induction n arbitrary: w core)
  case 0
  then show ?case by simp
next
  case (Suc n)
  obtain xs fs where rep: "tq_rep (toq core) xs fs {}" "\<forall>a\<in>set xs. to_handler (tq_to (toq core) a) \<noteq> None"
    using Suc.prems by (auto simp: core_ok_def timers_ok_def)
  show ?case
  proof (cases "xs = [] \<or> mmosal_time_lt t (abs_ms (toq core) (hd xs))")
    case True
    have "core\<lparr>toq := toq core\<rparr> = core" by simp
    then show ?thesis using dequeue_none [OF rep(1) True] Suc.prems by simp
  next
    case False
    then obtain a ys where xs: "xs = a # ys" "\<not> mmosal_time_lt t (abs_ms (toq core) a)" by (cases xs) auto
    obtain q1 where q1: "umac_timeoutq_dequeue t (toq core) = Some (Some a, q1)" "tq_rep q1 ys fs {a}"
      "tq_to q1 = tq_to (toq core)" using dequeue_due [of "toq core" a ys fs "{}" t] rep(1) xs by auto
    obtain q2 where q2: "umac_timeoutq_free a q1 = Some q2" "tq_rep q2 ys (a # fs) {}"
      "tq_to q2 = (tq_to q1)(a := zero_timeout)" using free_rep [OF q1(2), of a] by auto
    have "a \<notin> set ys" using rep_parts(3) [OF rep(1)] xs(1) by simp
    then have "timers_ok q2" using q2(3) q1(3) rep(2) xs(1) by (intro timers_okI [OF q2(2)]) auto
    then have "core_ok held (core\<lparr>toq := q2\<rparr>)" by (rule core_ok_toq [OF Suc.prems])
    moreover obtain h where h: "to_handler (tq_to (toq core) a) = Some h" using rep(2) xs(1) by auto
    ultimately obtain w2 core2 where
      "umac_timeoutq_dispatch_timeout env a w (core\<lparr>toq := q1\<rparr>) = Some (w2, core2)" "core_ok held core2"
      using core_ok_program [of held "core\<lparr>toq := q2\<rparr>"
          "on_timeout env h (to_arg1 (tq_to (toq core) a)) (to_arg2 (tq_to (toq core) a)) w"] q2(1) q1(3)
      by (auto simp: umac_timeoutq_dispatch_timeout_def Let_def)
    with Suc.IH [of core2 w2] q1(1) show ?thesis by auto
  qed
qed

lemma core_ok_iteration:
  assumes "core_ok {} core"
  shows "\<exists>t w' core'. evtloop_iteration env w core = Some (t, w', core') \<and> core_ok {} core'"
proof -
  obtain r core1 where 1: "run_program (umac_datapath_process env w) core = Some (r, core1)" "core_ok {} core1"
    using core_ok_program [OF assms, of "umac_datapath_process env w"] by blast
  obtain pending w1 where r: "r = (pending, w1)" by (cases r)
  obtain w2 core2 where 2: "dispatch_events env MAX_EVTS_DISPATCHED_AT_ONCE w1 core1 = Some (w2, core2)" "core_ok {} core2"
    using core_ok_dispatch_events [OF 1(2), of env 5 w1] by blast
  obtain k w3 core3 where 3: "umac_timeoutq_dispatch env w2 core2 = Some (k, w3, core3)" "core_ok {} core3"
    using core_ok_dispatch_timeouts [OF 2(2), of env "clock env w2" 5 w2] unfolding umac_timeoutq_dispatch_def by blast
  show ?thesis unfolding evtloop_iteration_def using 1 r 2 3 by simp
qed

lemma core_ok_turn:
  assumes "core_ok {} core"
  shows "\<exists>w' core'. evtloop_main_turn env w core = Some (False, w', core') \<and> core_ok {} core'"
proof -
  obtain t w1 core1 where it: "evtloop_iteration env w core = Some (t, w1, core1)" "core_ok {} core1"
    using core_ok_iteration [OF assms, of env w] by blast
  let ?core = "invoke_sleep_callback MMWLAN_SLEEP_STATE_IDLE t core1"
  have ok: "core_ok {} ?core" by (rule core_ok_sleep [OF it(2)])
  then obtain b where b: "evtloop_semb ?core = Some b" by (auto simp: core_ok_def)
  have "core_ok {} (?core\<lparr>evtloop_semb := Some False\<rparr>)" using ok by (simp add: core_ok_def)
  from core_ok_sleep [OF this, of MMWLAN_SLEEP_STATE_BUSY 0] show ?thesis
    using assms it b by (simp add: core_ok_def evtloop_main_turn_def mmosal_semb_wait_def Let_def)
qed

text \<open>What can become of the core after its start: turns of the loop with any environment, calls from other
  tasks at any time between them, and whatever else happens in the world.\<close>

definition core_zero :: "('e, 'h) umac_core_data \<Rightarrow> bool" where
  "core_zero core \<longleftrightarrow> evtq_zero (evtq core) \<and> tq_zero (toq core) \<and> \<not> evtloop_task core"

inductive core_reachable :: "'w \<times> ('e, 'h) umac_core_data \<Rightarrow> bool" where
  started: "\<lbrakk>core_zero zero; umac_core_init zero = Some idle; umac_core_start True True idle = (status, core)\<rbrakk>
    \<Longrightarrow> core_reachable (w, core)"
| turn: "\<lbrakk>core_reachable (w, core); evtloop_main_turn env w core = Some (ended, w', core')\<rbrakk> \<Longrightarrow> core_reachable (w', core')"
| other_task: "\<lbrakk>core_reachable (w, core); run_call call core = Some (r, core')\<rbrakk> \<Longrightarrow> core_reachable (w, core')"
| world: "core_reachable (w, core) \<Longrightarrow> core_reachable (w', core)"

lemma started_ok:
  assumes "core_zero zero" "umac_core_init zero = Some idle" "umac_core_start True True idle = (status, core)"
  shows "core_ok {} core"
proof -
  have z: "evtq_zero (evtq zero)" "tq_zero (toq zero)" "\<not> evtloop_task zero" using assms(1) by (simp_all add: core_zero_def)
  obtain q where q: "umac_timeoutq_init (toq zero) = Some q" "tq_rep q [] (rev [0..<UMAC_TIMEOUTQ_MAXLEN]) {}"
    using init_rep [OF z(2)] by blast
  obtain e where e: "umac_evtq_init (evtq zero) = Some e" "evtq_rep e [] (rev [0..<UMAC_EVTQ_MAXLEN]) {}"
    using evtq_init_rep [OF z(1)] by blast
  have "idle = zero\<lparr>toq := q, evtq := e\<rparr>" using assms(2) q(1) e(1) by (simp add: umac_core_init_def)
  then have "core = zero\<lparr>toq := q, evtq := e, evtloop_shutting_down := False, evtloop_has_finished := False,
      evtloop_semb := Some False, evtloop_task := True\<rparr>"
    using assms(3) z(3) by (simp add: umac_core_start_def Let_def)
  moreover have "timers_ok q" by (rule timers_okI [OF q(2)]) simp
  ultimately show ?thesis using e(2) by (auto simp: core_ok_def)
qed


lemma core_reachable_ok: "core_reachable s \<Longrightarrow> core_ok {} (snd s)"
proof (induction rule: core_reachable.induct)
  case (started zero idle status core w)
  then show ?case using started_ok by simp
next
  case (turn w core env ended w' core')
  then show ?case using core_ok_turn [of core env w] by auto
next
  case (other_task w core call r core')
  then show ?case using core_ok_call [of "{}" core call] by auto
next
  case (world w core w')
  then show ?case by simp
qed

text \<open>C10. The event loop does not fail: from its start, whatever programs the handlers and other tasks run on the core
  with the calls of \<open>core_call\<close> (registering, cancelling and looking for timers, queueing events, waking, growing the
  pool, setting the sleep callback) and whatever the time is, every turn of the loop and every such call runs without a
  failed assertion or an access outside the pools, every pool element stays in exactly one list, and the loop's task ends
  when another task stops it. Two calls of the interface are not among them: \<open>umac_core_deplete_timeout\<close>, which can
  make the queue a cycle (\<open>deplete_timeout_places_or_cycles\<close>), and \<open>umac_core_stop\<close> from a handler, which
  would wait for the task it runs on.\<close>

theorem core_loop_never_fails:
  assumes "core_reachable (w, core)"
  shows "(\<exists>w' core'. evtloop_main_turn env w core = Some (False, w', core'))
    \<and> (\<exists>r core'. run_call call core = Some (r, core'))
    \<and> (\<exists>xs fs. evtq_rep (evtq core) xs fs {})
    \<and> (\<exists>xs fs. tq_rep (toq core) xs fs {} \<and> (\<forall>a\<in>set xs. to_handler (tq_to (toq core) a) \<noteq> None))
    \<and> (\<exists>core'. umac_core_stop False
          (\<lambda>core. map_option (\<lambda>(_, _, core). core) (evtloop_main_turn env w core)) core = Some core'
        \<and> evtloop_has_finished core' \<and> \<not> evtloop_task core')"
proof (intro conjI)
  have ok: "core_ok {} core" using core_reachable_ok [OF assms] by simp
  show "\<exists>w' core'. evtloop_main_turn env w core = Some (False, w', core')" using core_ok_turn [OF ok, of env w] by blast
  show "\<exists>r core'. run_call call core = Some (r, core')" using core_ok_call [OF ok] by blast
  show "\<exists>xs fs. evtq_rep (evtq core) xs fs {}" using ok by (simp add: core_ok_def)
  show "\<exists>xs fs. tq_rep (toq core) xs fs {} \<and> (\<forall>a\<in>set xs. to_handler (tq_to (toq core) a) \<noteq> None)"
    using ok by (simp add: core_ok_def timers_ok_def)
  obtain b where "evtloop_semb core = Some b" "evtloop_task core" "\<not> evtloop_shutting_down core"
    using ok by (auto simp: core_ok_def)
  then show "\<exists>core'. umac_core_stop False
      (\<lambda>core. map_option (\<lambda>(_, _, core). core) (evtloop_main_turn env w core)) core = Some core'
    \<and> evtloop_has_finished core' \<and> \<not> evtloop_task core'"
    by (auto simp: umac_core_stop_def mmosal_semb_give_def invoke_sleep_callback_def evtloop_main_turn_def Let_def)
qed

definition sample_zero :: "(nat, nat) umac_core_data" where
  "sample_zero = \<lparr>evtq = \<lparr>eq_head = None, eq_tail = None, eq_free = None,
       eq_next = (\<lambda>a. if a < UMAC_EVTQ_MAXLEN then Some None else None), eq_pool = (\<lambda>_. 0)\<rparr>,
     toq = \<lparr>tq_head = None, tq_free = None, tq_extra_pool = False,
       tq_next = (\<lambda>a. if a < UMAC_TIMEOUTQ_MAXLEN then Some None else None), tq_to = (\<lambda>_. zero_timeout)\<rparr>,
     evtloop_task = False, evtloop_semb = None, evtloop_shutting_down = False, evtloop_has_finished = False,
     sleep_callback = False, sleep_calls = []\<rparr>"

text \<open>Every event queues another one and starts a timer that starts itself again.\<close>

definition sample_environment :: "(nat, nat, nat) environment" where
  "sample_environment =
     \<lparr>on_event = (\<lambda>e w. Call (Queue_event (e + 1)) (\<lambda>r. Call (Register_timeout w r 7 None None) (\<lambda>_. Done (w + 1)))),
      on_timeout = (\<lambda>h a1 a2 w. Call (Register_timeout w 0 h a1 a2) (\<lambda>_. Done (w + 1))),
      umac_datapath_process = (\<lambda>w. Done (False, w)), clock = u32\<rparr>"

lemma sample_reachable: "\<exists>core. core_reachable (w, core :: (nat, nat) umac_core_data)"
proof -
  have z: "core_zero sample_zero" by (auto simp: core_zero_def sample_zero_def evtq_zero_def tq_zero_def dom_def)
  then obtain q e where "umac_timeoutq_init (toq sample_zero) = Some q" "umac_evtq_init (evtq sample_zero) = Some e"
    using init_rep evtq_init_rep by (metis core_zero_def)
  then have "umac_core_init sample_zero = Some (sample_zero\<lparr>toq := q, evtq := e\<rparr>)" by (simp add: umac_core_init_def)
  moreover obtain status core where "umac_core_start True True (sample_zero\<lparr>toq := q, evtq := e\<rparr>) = (status, core)"
    by (meson surj_pair)
  ultimately have "core_reachable (w, core)" by (rule core_reachable.started [OF z])
  then show ?thesis by blast
qed

theorem core_loop_never_fails_witness:
  "\<exists>core. core_reachable (5 :: nat, core) \<and> (\<exists>w' core'. evtloop_main_turn sample_environment (5 :: nat) core = Some (False, w', core'))
    \<and> (\<exists>r core'. run_call (Queue_event 3) core = Some (r, core'))"
proof -
  obtain core :: "(nat, nat) umac_core_data" where core: "core_reachable (5 :: nat, core)" using sample_reachable [of "5 :: nat"] by blast
  from core_loop_never_fails [OF this, of sample_environment "Queue_event 3"]
  have "\<exists>w' core'. evtloop_main_turn sample_environment (5 :: nat) core = Some (False, w', core')"
    "\<exists>r core'. run_call (Queue_event 3) core = Some (r, core')" by blast+
  then show ?thesis using core by blast
qed

subsection \<open>Timers as a list\<close>

text \<open>\<open>timer_list base core ts\<close>: the timers of the core are \<open>ts\<close>, in the order they expire, all within the half of the
  32-bit range that begins at \<open>base\<close>.\<close>

definition expiry :: "nat \<Rightarrow> 'h umac_core_timeout \<Rightarrow> nat" where
  "expiry base t = sub32 (timeout_abs_ms t) base"

definition timer_list :: "nat \<Rightarrow> ('e, 'h) umac_core_data \<Rightarrow> 'h umac_core_timeout list \<Rightarrow> bool" where
  "timer_list base core ts \<longleftrightarrow>
     (\<exists>xs fs. tq_rep (toq core) xs fs {} \<and> ts = List.map (tq_to (toq core)) xs)
     \<and> (\<forall>t\<in>set ts. in_window base (timeout_abs_ms t) \<and> to_handler t \<noteq> None) \<and> sorted (List.map (expiry base) ts)"

lemma expiry_map: "List.map (expiry base) (List.map (tq_to q) xs) = List.map (due_in base q) xs"
  by (simp add: expiry_def due_in_def)

lemma timer_listE:
  assumes "timer_list base core ts"
  obtains xs fs where "tq_rep (toq core) xs fs {}" "ts = List.map (tq_to (toq core)) xs" "in_order base (toq core) xs"
    "\<forall>x\<in>set xs. to_handler (tq_to (toq core) x) \<noteq> None"
proof -
  obtain xs fs where xs: "tq_rep (toq core) xs fs {}" "ts = List.map (tq_to (toq core)) xs"
    using assms by (auto simp: timer_list_def)
  moreover have "in_order base (toq core) xs"
    using assms xs(2) expiry_map [of base "toq core" xs] by (simp only: timer_list_def in_order_def) simp
  moreover have "\<forall>x\<in>set xs. to_handler (tq_to (toq core) x) \<noteq> None"
    using assms xs(2) by (simp add: timer_list_def)
  ultimately show ?thesis using that by blast
qed

lemma timer_listI:
  assumes "tq_rep (toq core) xs fs {}" "in_order base (toq core) xs" "\<forall>x\<in>set xs. to_handler (tq_to (toq core) x) \<noteq> None"
  shows "timer_list base core (List.map (tq_to (toq core)) xs)"
  unfolding timer_list_def expiry_map using assms by (auto simp: in_order_def)

lemma place_map:
  assumes "\<And>x. x \<in> set xs \<Longrightarrow> P x = Q (f x)"
  shows "List.map f (place P a xs) = place Q (f a) (List.map f xs)"
  using assms by (induction xs) auto

lemma core_fields_sleep [simp]:
  "toq (invoke_sleep_callback s t core) = toq core"
  by (simp add: invoke_sleep_callback_def)

lemma wake_toq:
  assumes "umac_core_evt_wake core = Some core'"
  shows "toq core' = toq core"
  using assms by (auto simp: umac_core_evt_wake_def mmosal_semb_give_def split: if_splits option.splits)

lemma timer_list_toq: "toq core' = toq core \<Longrightarrow> timer_list base core' ts = timer_list base core ts"
  by (simp add: timer_list_def)

lemma register_timer_list:
  assumes ts: "timer_list base core ts" and ok: "core_ok held core" and room: "length ts < pool_size (toq core)"
    and t: "t = \<lparr>timeout_abs_ms = time, to_handler = Some h, to_arg1 = a1, to_arg2 = a2\<rparr>"
    and time: "time = (if delta = 0 \<and> ts \<noteq> [] \<and> mmosal_time_lt (timeout_abs_ms (hd ts)) (u32 now)
      then sub32 (timeout_abs_ms (hd ts)) 1 else u32 (now + delta))"
    and win: "in_window base time"
  shows "\<exists>core'. umac_core_register_timeout now delta (Some h) a1 a2 core = Some (True, core')
    \<and> timer_list base core' (place (\<lambda>u. expiry base t < expiry base u) t ts)"
proof -
  obtain xs fs where rep: "tq_rep (toq core) xs fs {}" "ts = List.map (tq_to (toq core)) xs" "in_order base (toq core) xs"
    "\<forall>x\<in>set xs. to_handler (tq_to (toq core) x) \<noteq> None" using timer_listE [OF ts] by blast
  then obtain a fs' where fs: "fs = a # fs'" using room rep_count [OF rep(1)] by (cases fs) auto
  obtain q1 where q1: "umac_timeoutq_alloc (toq core) = Some (Some a, q1)" "tq_rep q1 xs fs' {a}"
    "tq_to q1 = tq_to (toq core)" using alloc_rep [of "toq core" xs a fs'] rep(1) fs by auto
  have a: "a \<notin> set xs" using rep_parts(6) [OF q1(2)] by auto
  have peek: "umac_timeoutq_peek_next_timeout q1 = (if ts = [] then None else Some (timeout_abs_ms (hd ts)))"
    using linked_head [OF rep_parts(1) [OF q1(2)]] rep(2) q1(3)
    by (simp add: umac_timeoutq_peek_next_timeout_def umac_timeoutq_peek_next_timeout_protected_def hd_map)
  define q2 where "q2 = q1\<lparr>tq_to := (tq_to q1)(a := t)\<rparr>"
  have rep2: "tq_rep q2 xs fs' {a}" using q1(2) by (simp add: q2_def tq_rep_to)
  have keep: "\<And>x. x \<in> set xs \<Longrightarrow> tq_to q2 x = tq_to (toq core) x" using q1(3) a by (auto simp: q2_def)
  have order: "in_order base q2 xs" using in_order_cong [of xs q2 "toq core" base] keep rep(3) by simp
  have win2: "\<forall>x\<in>set (a # xs). in_window base (abs_ms q2 x)"
    using order win t by (simp add: in_order_def) (simp add: q2_def)
  let ?ys = "place (\<lambda>x. due_in base q2 a < due_in base q2 x) a xs"
  obtain q3 where q3: "umac_timeoutq_enqueue a q2 = Some q3" "tq_rep q3 ?ys fs' {}" "tq_to q3 = tq_to q2"
    using enqueue_rep [OF rep2 _ win2] by auto
  have "in_order base q2 ?ys" using in_order_place [OF order] win2 by simp
  then have order3: "in_order base q3 ?ys" using in_order_cong [of ?ys q3 q2 base] q3(3) by simp
  have handlers: "\<forall>x\<in>set ?ys. to_handler (tq_to q3 x) \<noteq> None" using keep rep(4) t q3(3) by (auto simp: q2_def)
  have due: "due_in base q2 x = expiry base (tq_to q2 x)" for x by (simp add: due_in_def expiry_def)
  have "List.map (tq_to q3) ?ys = List.map (tq_to q2) ?ys" using q3(3) by simp
  also have "... = place (\<lambda>u. expiry base (tq_to q2 a) < expiry base u) (tq_to q2 a) (List.map (tq_to q2) xs)"
    by (intro place_map) (simp add: due)
  also have "List.map (tq_to q2) xs = ts" using keep rep(2) by simp
  finally have list: "List.map (tq_to q3) ?ys = place (\<lambda>u. expiry base t < expiry base u) t ts"
    by (simp add: q2_def)
  have "core_ok held (core\<lparr>toq := q3\<rparr>)" by (rule core_ok_toq [OF ok timers_okI [OF q3(2)]]) (use handlers in blast)
  then obtain core' where core': "umac_core_evt_wake (core\<lparr>toq := q3\<rparr>) = Some core'" using core_ok_wake by blast
  then have toq: "toq core' = q3" using wake_toq by fastforce
  have "timer_list base core' (place (\<lambda>u. expiry base t < expiry base u) t ts)"
    using timer_listI [of core' ?ys fs' base] q3(2) order3 handlers list unfolding toq by simp
  moreover have "umac_core_register_timeout now delta (Some h) a1 a2 core = Some (True, core')"
  proof -
    have "(if delta = 0 then case umac_timeoutq_peek_next_timeout q1 of None \<Rightarrow> u32 (now + delta)
        | Some next \<Rightarrow> if mmosal_time_lt next (u32 (now + delta)) then sub32 next 1 else u32 (now + delta)
      else u32 (now + delta)) = time" using time peek by simp
    then show ?thesis using ok q1(1) q3(1) core' t
      by (simp add: umac_core_register_timeout_def core_ok_def umac_core_is_running_def q2_def Let_def)
  qed
  ultimately show ?thesis by blast
qed

lemma timer_list_sub:
  assumes "tq_rep q ys fs {}" "tq_to q = tq_to (toq core)" "in_order base (toq core) xs" "ys = filter P xs"
    "\<forall>x\<in>set xs. to_handler (tq_to (toq core) x) \<noteq> None"
  shows "timer_list base (core\<lparr>toq := q\<rparr>) (List.map (tq_to (toq core)) ys)"
  using timer_listI [of "core\<lparr>toq := q\<rparr>" ys fs base] assms in_order_filter [OF assms(3), of P]
    in_order_cong [of ys q "toq core" base] by simp

lemma cancel_timer_list:
  assumes "timer_list base core ts"
  shows "\<exists>core'. umac_core_cancel_timeout h a1 a2 core = Some (length (filter (to_matches h a1 a2) ts), core')
    \<and> timer_list base core' (filter (\<lambda>t. \<not> to_matches h a1 a2 t) ts)"
proof -
  obtain xs fs where rep: "tq_rep (toq core) xs fs {}" "ts = List.map (tq_to (toq core)) xs" "in_order base (toq core) xs"
    "\<forall>x\<in>set xs. to_handler (tq_to (toq core) x) \<noteq> None" using timer_listE [OF assms] by blast
  let ?m = "\<lambda>x. to_matches h a1 a2 (tq_to (toq core) x)"
  obtain q' fs' where q': "umac_timeoutq_cancel_protected h a1 a2 (toq core) = Some (length (filter ?m xs), q')"
    "tq_rep q' (filter (\<lambda>x. \<not> ?m x) xs) fs' {}" "tq_to q' = tq_to (toq core)"
    using cancel_rep [OF rep(1), of h a1 a2] by blast
  have "timer_list base (core\<lparr>toq := q'\<rparr>) (List.map (tq_to (toq core)) (filter (\<lambda>x. \<not> ?m x) xs))"
    by (rule timer_list_sub [OF q'(2,3) rep(3) refl rep(4)])
  moreover have "List.map (tq_to (toq core)) (filter (\<lambda>x. \<not> ?m x) xs) = filter (\<lambda>t. \<not> to_matches h a1 a2 t) ts"
    "length (filter ?m xs) = length (filter (to_matches h a1 a2) ts)"
    by (simp_all add: rep(2) filter_map comp_def)
  ultimately show ?thesis using q'(1) by (simp add: umac_core_cancel_timeout_def)
qed

lemma cancel_one_timer_list:
  assumes "timer_list base core (us @ t # vs)" "to_matches h a1 a2 t" "\<forall>u\<in>set us. \<not> to_matches h a1 a2 u"
  shows "\<exists>core'. umac_core_cancel_timeout_one now h a1 a2 core
      = Some (1, Some (nat (max 0 (s32 (sub32 (timeout_abs_ms t) now)))), core')
    \<and> timer_list base core' (us @ vs)"
proof -
  obtain zs fs where rep: "tq_rep (toq core) zs fs {}" "us @ t # vs = List.map (tq_to (toq core)) zs"
    "in_order base (toq core) zs" "\<forall>x\<in>set zs. to_handler (tq_to (toq core) x) \<noteq> None"
    using timer_listE [OF assms(1)] by blast
  then obtain xs a ys where zs: "zs = xs @ a # ys" "us = List.map (tq_to (toq core)) xs" "t = tq_to (toq core) a"
    "vs = List.map (tq_to (toq core)) ys" by (auto simp: append_eq_map_conv Cons_eq_map_conv)
  obtain q1 where q1: "umac_timeoutq_remove_one_protected h a1 a2 (toq core) = Some (Some a, q1)"
    "tq_rep q1 (xs @ ys) fs {a}" "tq_to q1 = tq_to (toq core)"
    using remove_one_found [of "toq core" xs a ys fs "{}" h a1 a2] rep(1) zs assms(2,3) by auto
  obtain q2 where q2: "umac_timeoutq_free a q1 = Some q2" "tq_rep q2 (xs @ ys) (a # fs) {}"
    "tq_to q2 = (tq_to q1)(a := zero_timeout)" using free_rep [OF q1(2), of a] by auto
  have d: "a \<notin> set (xs @ ys)" using rep_parts(3) [OF rep(1)] zs(1) by auto
  have "filter (\<lambda>x. x \<noteq> a) xs = xs" "filter (\<lambda>x. x \<noteq> a) ys = ys" using d by (auto simp: filter_id_conv)
  then have filt: "filter (\<lambda>x. x \<noteq> a) zs = xs @ ys" by (simp add: zs(1))
  have keep: "\<And>x. x \<in> set (xs @ ys) \<Longrightarrow> tq_to q2 x = tq_to (toq core) x" using q2(3) q1(3) d by auto
  have "in_order base q2 (xs @ ys)"
    using in_order_cong [of "xs @ ys" q2 "toq core" base] keep in_order_filter [OF rep(3), of "\<lambda>x. x \<noteq> a"] filt by simp
  moreover have "\<forall>x\<in>set (xs @ ys). to_handler (tq_to q2 x) \<noteq> None" using keep rep(4) zs(1) by auto
  ultimately have "timer_list base (core\<lparr>toq := q2\<rparr>) (List.map (tq_to q2) (xs @ ys))"
    using timer_listI [of "core\<lparr>toq := q2\<rparr>" "xs @ ys" "a # fs" base] q2(2) by simp
  moreover have "List.map (tq_to q2) (xs @ ys) = us @ vs" using keep zs by simp
  ultimately show ?thesis using q1(1,3) q2(1) zs(3)
    by (auto simp: umac_core_cancel_timeout_one_def Let_def max_def)
qed

lemma registered_timer_list:
  "timer_list base core ts \<Longrightarrow> umac_core_is_timeout_registered h a1 a2 core = Some (\<exists>t\<in>set ts. to_matches h a1 a2 t)"
  by (elim timer_listE) (simp add: umac_core_is_timeout_registered_def is_registered_rep)

lemma register_full:
  assumes "timer_list base core ts" "pool_size (toq core) \<le> length ts"
  shows "umac_core_register_timeout now delta (Some h) a1 a2 core = Some (False, core)"
proof -
  obtain xs fs where rep: "tq_rep (toq core) xs fs {}" "ts = List.map (tq_to (toq core)) xs"
    using timer_listE [OF assms(1)] by blast
  then have "fs = []" using rep_count [OF rep(1)] assms(2) by (cases fs) auto
  then have "umac_timeoutq_alloc (toq core) = Some (None, toq core)" using alloc_empty rep(1) by blast
  then show ?thesis by (simp add: umac_core_register_timeout_def)
qed

text \<open>C11. The timers of a running core form a list in the order they expire: registering puts a timer behind all that
  expire no later and in front of the others (at once in front of all, if it is due immediately and the first is
  overdue), and fails only when the pool is exhausted; cancelling takes out exactly the matching timers and counts
  them, cancelling one takes the first match and tells its remaining time, and the query finds a match.\<close>

theorem core_timers_refine_list:
  assumes "timer_list base core ts" "core_ok held core"
    and "time = (if delta = 0 \<and> ts \<noteq> [] \<and> mmosal_time_lt (timeout_abs_ms (hd ts)) (u32 now)
      then sub32 (timeout_abs_ms (hd ts)) 1 else u32 (now + delta))"
    and "in_window base time"
  shows "(\<exists>core'. umac_core_register_timeout now delta (Some h) a1 a2 core = Some (length ts < pool_size (toq core), core')
      \<and> timer_list base core'
          (if length ts < pool_size (toq core)
           then place (\<lambda>u. sub32 time base < expiry base u)
              \<lparr>timeout_abs_ms = time, to_handler = Some h, to_arg1 = a1, to_arg2 = a2\<rparr> ts
           else ts))
    \<and> (\<exists>core'. umac_core_cancel_timeout g b1 b2 core = Some (length (filter (to_matches g b1 b2) ts), core')
        \<and> timer_list base core' (filter (\<lambda>t. \<not> to_matches g b1 b2 t) ts))
    \<and> (\<forall>us t vs. ts = us @ t # vs \<and> to_matches g b1 b2 t \<and> (\<forall>u\<in>set us. \<not> to_matches g b1 b2 u) \<longrightarrow>
        (\<exists>core'. umac_core_cancel_timeout_one now g b1 b2 core
            = Some (1, Some (nat (max 0 (s32 (sub32 (timeout_abs_ms t) now)))), core')
          \<and> timer_list base core' (us @ vs)))
    \<and> umac_core_is_timeout_registered g b1 b2 core = Some (\<exists>t\<in>set ts. to_matches g b1 b2 t)"
proof (intro conjI allI impI)
  let ?t = "\<lparr>timeout_abs_ms = time, to_handler = Some h, to_arg1 = a1, to_arg2 = a2\<rparr>"
  have exp: "expiry base ?t = sub32 time base" by (simp add: expiry_def)
  show "\<exists>core'. umac_core_register_timeout now delta (Some h) a1 a2 core = Some (length ts < pool_size (toq core), core')
      \<and> timer_list base core'
          (if length ts < pool_size (toq core) then place (\<lambda>u. sub32 time base < expiry base u) ?t ts else ts)"
  proof (cases "length ts < pool_size (toq core)")
    case True
    then show ?thesis using register_timer_list [OF assms(1,2) True refl assms(3,4), of h a1 a2, unfolded exp] by simp
  next
    case False
    then show ?thesis using register_full [OF assms(1)] assms(1) by simp
  qed
  show "\<exists>core'. umac_core_cancel_timeout g b1 b2 core = Some (length (filter (to_matches g b1 b2) ts), core')
      \<and> timer_list base core' (filter (\<lambda>t. \<not> to_matches g b1 b2 t) ts)"
    by (rule cancel_timer_list [OF assms(1)])
  show "umac_core_is_timeout_registered g b1 b2 core = Some (\<exists>t\<in>set ts. to_matches g b1 b2 t)"
    by (rule registered_timer_list [OF assms(1)])
  fix us t vs
  assume "ts = us @ t # vs \<and> to_matches g b1 b2 t \<and> (\<forall>u\<in>set us. \<not> to_matches g b1 b2 u)"
  then show "\<exists>core'. umac_core_cancel_timeout_one now g b1 b2 core
        = Some (1, Some (nat (max 0 (s32 (sub32 (timeout_abs_ms t) now)))), core')
      \<and> timer_list base core' (us @ vs)"
    using cancel_one_timer_list assms(1) by blast
qed

lemma started_timers:
  assumes "core_zero zero" "umac_core_init zero = Some idle" "umac_core_start True True idle = (status, core)"
  shows "timer_list base core [] \<and> pool_size (toq core) = UMAC_TIMEOUTQ_MAXLEN"
proof -
  have z: "tq_zero (toq zero)" using assms(1) by (simp add: core_zero_def)
  obtain q where q: "umac_timeoutq_init (toq zero) = Some q" "tq_rep q [] (rev [0..<UMAC_TIMEOUTQ_MAXLEN]) {}"
    "\<not> tq_extra_pool q" using init_rep [OF z] by blast
  obtain e where "umac_evtq_init (evtq zero) = Some e" "idle = zero\<lparr>toq := q, evtq := e\<rparr>"
    using assms(2) q(1) by (auto simp: umac_core_init_def split: Option.bind_splits)
  then have "toq core = q" using assms(3) by (auto simp: umac_core_start_def Let_def split: if_splits)
  then show ?thesis using q(2,3) unfolding timer_list_def pool_size_def by auto
qed

lemma init_evtq_empty:
  assumes "core_zero zero" "umac_core_init zero = Some idle" "umac_core_start True True idle = (status, core)"
  shows "umac_evtq_is_empty (evtq core)"
proof -
  have z: "evtq_zero (evtq zero)" using assms(1) by (simp add: core_zero_def)
  obtain e where e: "umac_evtq_init (evtq zero) = Some e" "evtq_rep e [] (rev [0..<UMAC_EVTQ_MAXLEN]) {}"
    using evtq_init_rep [OF z] by blast
  then obtain q where "idle = zero\<lparr>toq := q, evtq := e\<rparr>"
    using assms(2) by (auto simp: umac_core_init_def split: Option.bind_splits)
  then have "evtq core = e" using assms(3) by (auto simp: umac_core_start_def Let_def split: if_splits)
  then show ?thesis using e(2) by (simp add: umac_evtq_is_empty_def evtq_rep_def)
qed

lemma sample_started:
  "\<exists>core :: (nat, nat) umac_core_data. core_ok {} core \<and> timer_list base core []
    \<and> pool_size (toq core) = UMAC_TIMEOUTQ_MAXLEN \<and> umac_evtq_is_empty (evtq core)"
proof -
  have z: "core_zero sample_zero" by (auto simp: core_zero_def sample_zero_def evtq_zero_def tq_zero_def dom_def)
  then obtain q e where "umac_timeoutq_init (toq sample_zero) = Some q" "umac_evtq_init (evtq sample_zero) = Some e"
    using init_rep evtq_init_rep by (metis core_zero_def)
  then have i: "umac_core_init sample_zero = Some (sample_zero\<lparr>toq := q, evtq := e\<rparr>)" by (simp add: umac_core_init_def)
  obtain status core where c: "umac_core_start True True (sample_zero\<lparr>toq := q, evtq := e\<rparr>) = (status, core)"
    by (meson surj_pair)
  show ?thesis using started_ok [OF z i c] started_timers [OF z i c, of base] init_evtq_empty [OF z i c] by blast
qed

lemma register_evtq:
  assumes "umac_core_register_timeout now delta h a1 a2 core = Some (ok, core')"
  shows "evtq core' = evtq core"
  using assms
  by (auto simp: umac_core_register_timeout_def umac_core_evt_wake_def mmosal_semb_give_def invoke_sleep_callback_def Let_def
      split: Option.bind_splits option.splits if_splits)

theorem core_timers_refine_list_witness:
  "\<exists>core core'. umac_core_register_timeout 1000 50 (Some 7) None None (core :: (nat, nat) umac_core_data) = Some (True, core')
    \<and> timer_list 0 core' [\<lparr>timeout_abs_ms = 1050, to_handler = Some 7, to_arg1 = None, to_arg2 = None\<rparr>]"
proof -
  obtain core :: "(nat, nat) umac_core_data" where core: "core_ok {} core" "timer_list 0 core []"
    "pool_size (toq core) = UMAC_TIMEOUTQ_MAXLEN" using sample_started [of 0] by blast
  have "1050 = (if (50 :: nat) = 0 \<and> [] \<noteq> [] \<and> mmosal_time_lt (timeout_abs_ms (hd [])) (u32 1000)
      then sub32 (timeout_abs_ms (hd [])) 1 else u32 (1000 + 50))" "in_window 0 1050"
    by (simp_all add: u32_def in_window_def sub32_def)
  from core_timers_refine_list [OF core(2,1) this, of 7 None None None None None] core(3) show ?thesis by auto
qed

subsection \<open>Due timers fire in order\<close>

definition due :: "nat \<Rightarrow> nat \<Rightarrow> 'h umac_core_timeout \<Rightarrow> bool" where
  "due base now t \<longleftrightarrow> expiry base t \<le> sub32 now base"

definition fire_timer :: "('h \<Rightarrow> ptr \<Rightarrow> ptr \<Rightarrow> 'w \<Rightarrow> 'w) \<Rightarrow> 'h umac_core_timeout \<Rightarrow> 'w \<Rightarrow> 'w" where
  "fire_timer fire t = fire (the (to_handler t)) (to_arg1 t) (to_arg2 t)"

text \<open>Handlers that do not call the core.\<close>

definition quiet :: "('e, 'h, 'w) environment \<Rightarrow> ('h \<Rightarrow> ptr \<Rightarrow> ptr \<Rightarrow> 'w \<Rightarrow> 'w) \<Rightarrow> bool" where
  "quiet env fire \<longleftrightarrow> (\<forall>h a1 a2 w. on_timeout env h a1 a2 w = Done (fire h a1 a2 w))"

lemma sorted_filter_split:
  fixes f :: "'a \<Rightarrow> 'b :: linorder"
  assumes "sorted (List.map f xs)"
  shows "xs = filter (\<lambda>x. f x \<le> c) xs @ filter (\<lambda>x. \<not> f x \<le> c) xs"
  using assms
proof (induction xs)
  case Nil
  then show ?case by simp
next
  case (Cons x xs)
  show ?case
  proof (cases "f x \<le> c")
    case True
    then show ?thesis using Cons by simp
  next
    case False
    then have "\<forall>y\<in>set xs. \<not> f y \<le> c" using Cons.prems by auto
    then have "filter (\<lambda>x. f x \<le> c) xs = []" "filter (\<lambda>x. \<not> f x \<le> c) xs = xs"
      by (auto simp: filter_empty_conv filter_id_conv)
    then show ?thesis using False by simp
  qed
qed

lemma due_split:
  assumes "timer_list base core ts"
  shows "ts = filter (due base now) ts @ filter (\<lambda>t. \<not> due base now t) ts"
proof -
  have "sorted (List.map (expiry base) ts)" using assms by (simp add: timer_list_def)
  then show ?thesis unfolding due_def [abs_def] by (rule sorted_filter_split)
qed

lemma dispatch_next:
  assumes ts: "timer_list base core (t # ts)" and now: "in_window base now" and due: "due base now t" and env: "quiet env fire"
  shows "\<exists>core'. dispatch_timeouts env now (Suc n) w core =
      do { (k, w, core) \<leftarrow> dispatch_timeouts env now n (fire_timer fire t w) core'; Some (k + 1, w, core) }
    \<and> timer_list base core' ts"
proof -
  obtain zs fs where rep: "tq_rep (toq core) zs fs {}" "t # ts = List.map (tq_to (toq core)) zs"
    "in_order base (toq core) zs" "\<forall>x\<in>set zs. to_handler (tq_to (toq core) x) \<noteq> None"
    using timer_listE [OF ts] by blast
  then obtain a xs where zs: "zs = a # xs" "t = tq_to (toq core) a" "ts = List.map (tq_to (toq core)) xs" by (cases zs) auto
  have "\<not> mmosal_time_lt now (abs_ms (toq core) a)"
    using window_compare(1) [OF now, of "timeout_abs_ms t"] ts due zs(2) by (simp add: timer_list_def due_def expiry_def)
  then obtain q1 where q1: "umac_timeoutq_dequeue now (toq core) = Some (Some a, q1)" "tq_rep q1 xs fs {a}"
    "tq_to q1 = tq_to (toq core)" using dequeue_due [of "toq core" a xs fs "{}" now] rep(1) zs by auto
  obtain q2 where q2: "umac_timeoutq_free a q1 = Some q2" "tq_rep q2 xs (a # fs) {}"
    "tq_to q2 = (tq_to q1)(a := zero_timeout)" using free_rep [OF q1(2), of a] by auto
  have a: "a \<notin> set xs" using rep_parts(3) [OF rep(1)] zs(1) by simp
  then have keep: "\<And>x. x \<in> set xs \<Longrightarrow> tq_to q2 x = tq_to (toq core) x" using q2(3) q1(3) by auto
  have "in_order base q2 xs"
    using in_order_cong [of xs q2 "toq core" base] keep in_order_Cons rep(3) zs(1) by blast
  moreover have "\<forall>x\<in>set xs. to_handler (tq_to q2 x) \<noteq> None" using keep rep(4) zs(1) by auto
  ultimately have "timer_list base (core\<lparr>toq := q2\<rparr>) (List.map (tq_to q2) xs)"
    using timer_listI [of "core\<lparr>toq := q2\<rparr>" xs "a # fs" base] q2(2) by simp
  moreover have "List.map (tq_to q2) xs = ts" using keep zs(3) by simp
  moreover obtain h where "to_handler t = Some h" using rep(4) zs(1,2) by auto
  ultimately show ?thesis using q1(1,3) q2(1) zs(2) env
    by (intro exI [of _ "core\<lparr>toq := q2\<rparr>"])
      (simp add: umac_timeoutq_dispatch_timeout_def Let_def quiet_def fire_timer_def)
qed

lemma dispatch_stop:
  assumes ts: "timer_list base core ts" and now: "in_window base now" and none: "ts = [] \<or> \<not> due base now (hd ts)"
  shows "dispatch_timeouts env now n w core = Some (0, w, core)"
proof (cases n)
  case (Suc m)
  obtain xs fs where rep: "tq_rep (toq core) xs fs {}" "ts = List.map (tq_to (toq core)) xs"
    using timer_listE [OF ts] by blast
  have "xs = [] \<or> mmosal_time_lt now (abs_ms (toq core) (hd xs))"
  proof (cases xs)
    case (Cons a ys)
    then have "timeout_abs_ms (hd ts) = abs_ms (toq core) a" "in_window base (abs_ms (toq core) a)" "ts \<noteq> []"
      using ts rep(2) by (auto simp: timer_list_def)
    then show ?thesis using none window_compare(1) [OF now] Cons by (simp add: due_def expiry_def)
  qed simp
  moreover have "core\<lparr>toq := toq core\<rparr> = core" by simp
  ultimately show ?thesis using dequeue_none [OF rep(1)] Suc by simp
qed simp

lemma dispatch_due:
  assumes "timer_list base core ts" "in_window base now" "quiet env fire"
  shows "\<exists>core'. dispatch_timeouts env now n w core
      = Some (min n (length (filter (due base now) ts)), fold (fire_timer fire) (take n (filter (due base now) ts)) w, core')
    \<and> timer_list base core' (drop n (filter (due base now) ts) @ filter (\<lambda>t. \<not> due base now t) ts)"
  using assms(1)
proof (induction n arbitrary: core ts w)
  case 0
  then show ?case using due_split [OF 0, of now] by simp
next
  case (Suc n)
  show ?case
  proof (cases "ts = [] \<or> \<not> due base now (hd ts)")
    case True
    have "filter (due base now) ts = []"
    proof (rule ccontr)
      assume ne: "filter (due base now) ts \<noteq> []"
      then have "hd ts = hd (filter (due base now) ts)" using due_split [OF Suc.prems, of now] by (metis hd_append2)
      then have "due base now (hd ts)" using hd_in_set [OF ne] by simp
      then show False using True ne by auto
    qed
    then show ?thesis
      using dispatch_stop [OF Suc.prems assms(2) True, of env "Suc n" w] due_split [OF Suc.prems, of now] Suc.prems
      by (auto simp del: dispatch_timeouts.simps)
  next
    case False
    then obtain t us where ts: "ts = t # us" "due base now t" by (cases ts) auto
    obtain core1 where core1: "dispatch_timeouts env now (Suc n) w core =
        do { (k, w, core) \<leftarrow> dispatch_timeouts env now n (fire_timer fire t w) core1; Some (k + 1, w, core) }"
      "timer_list base core1 us"
      using dispatch_next [of base core t us now env fire n w] Suc.prems assms(2,3) ts by blast
    from Suc.IH [OF core1(2), of "fire_timer fire t w"] core1(1) show ?thesis using ts
      by (auto simp del: dispatch_timeouts.simps)
  qed
qed

text \<open>Repeated turns of the dispatcher at one time.\<close>

fun dispatch_rounds ::
  "nat \<Rightarrow> ('e, 'h, 'w) environment \<Rightarrow> 'w \<Rightarrow> ('e, 'h) umac_core_data \<Rightarrow> ('w \<times> ('e, 'h) umac_core_data) option" where
  "dispatch_rounds 0 env w core = Some (w, core)"
| "dispatch_rounds (Suc n) env w core = do {
     (_, w, core) \<leftarrow> umac_timeoutq_dispatch env w core;
     dispatch_rounds n env w core
   }"

text \<open>C12. Every timer whose time has come fires: when handlers take no time and leave the core alone, one dispatch fires
  the first five due timers in the order they expire, and \<open>n\<close> dispatches in a row fire all of up to \<open>5 * n\<close> due
  timers, each once, in that order, and leave exactly the timers that are not due.\<close>

theorem due_timers_fire:
  assumes "timer_list base core ts" "in_window base (clock env w)" "quiet env fire"
    and "\<And>h a1 a2 w. clock env (fire h a1 a2 w) = clock env w"
    and "length (filter (due base (clock env w)) ts) \<le> 5 * n"
  shows "(\<exists>core'. umac_timeoutq_dispatch env w core = Some (min 5 (length (filter (due base (clock env w)) ts)),
        fold (fire_timer fire) (take 5 (filter (due base (clock env w)) ts)) w, core'))
    \<and> (\<exists>core'. dispatch_rounds n env w core = Some (fold (fire_timer fire) (filter (due base (clock env w)) ts) w, core')
      \<and> timer_list base core' (filter (\<lambda>t. \<not> due base (clock env w) t) ts))"
proof (intro conjI)
  show "\<exists>core'. umac_timeoutq_dispatch env w core = Some (min 5 (length (filter (due base (clock env w)) ts)),
      fold (fire_timer fire) (take 5 (filter (due base (clock env w)) ts)) w, core')"
    using dispatch_due [OF assms(1-3), of 5] by (auto simp: umac_timeoutq_dispatch_def)
  show "\<exists>core'. dispatch_rounds n env w core = Some (fold (fire_timer fire) (filter (due base (clock env w)) ts) w, core')
      \<and> timer_list base core' (filter (\<lambda>t. \<not> due base (clock env w) t) ts)"
    using assms(1,2,5)
  proof (induction n arbitrary: core ts w)
    case 0
    then show ?case using due_split [OF 0(1), of "clock env w"] by simp
  next
    case (Suc n)
    let ?now = "clock env w" and ?due = "filter (due base (clock env w)) ts"
    let ?w = "fold (fire_timer fire) (take 5 ?due) w"
    obtain core1 where core1: "umac_timeoutq_dispatch env w core = Some (min 5 (length ?due), ?w, core1)"
      "timer_list base core1 (drop 5 ?due @ filter (\<lambda>t. \<not> due base ?now t) ts)"
      using dispatch_due [OF Suc.prems(1,2) assms(3), of 5 w] by (auto simp: umac_timeoutq_dispatch_def)
    have clk: "clock env (fold (fire_timer fire) us v) = clock env v" for us v
      by (induction us arbitrary: v) (simp_all add: fire_timer_def assms(4))
    have "set (drop 5 ?due) \<subseteq> set ?due" by (rule set_drop_subset)
    then have rest: "filter (due base ?now) (drop 5 ?due @ filter (\<lambda>t. \<not> due base ?now t) ts) = drop 5 ?due"
      "filter (\<lambda>t. \<not> due base ?now t) (drop 5 ?due @ filter (\<lambda>t. \<not> due base ?now t) ts) = filter (\<lambda>t. \<not> due base ?now t) ts"
      by (auto simp: filter_id_conv filter_empty_conv)
    have "\<exists>core'. dispatch_rounds n env ?w core1 = Some (fold (fire_timer fire) (drop 5 ?due) ?w, core')
        \<and> timer_list base core' (filter (\<lambda>t. \<not> due base ?now t) ts)"
      using Suc.IH [OF core1(2), of ?w] Suc.prems(2,3) unfolding clk rest by simp
    moreover have "fold (fire_timer fire) (drop 5 ?due) ?w = fold (fire_timer fire) ?due w"
      by (metis append_take_drop_id fold_append comp_apply)
    ultimately show ?case using core1(1) by simp
  qed
qed

definition logging_environment :: "(nat, nat, nat list) environment" where
  "logging_environment =
     \<lparr>on_event = (\<lambda>e w. Done w), on_timeout = (\<lambda>h a1 a2 w. Done (w @ [h])),
      umac_datapath_process = (\<lambda>w. Done (False, w)), clock = (\<lambda>_. 1100)\<rparr>"

lemma sample_timers:
  "\<exists>core :: (nat, nat) umac_core_data. core_ok {} core \<and> umac_evtq_is_empty (evtq core) \<and> timer_list 0 core
    [\<lparr>timeout_abs_ms = 1050, to_handler = Some 7, to_arg1 = None, to_arg2 = None\<rparr>,
     \<lparr>timeout_abs_ms = 1050, to_handler = Some 8, to_arg1 = None, to_arg2 = None\<rparr>]"
proof -
  obtain core :: "(nat, nat) umac_core_data" where core: "core_ok {} core" "timer_list 0 core []"
    "pool_size (toq core) = UMAC_TIMEOUTQ_MAXLEN" "umac_evtq_is_empty (evtq core)" using sample_started [of 0] by blast
  have t: "u32 1050 = 1050" "in_window 0 1050" "sub32 1050 0 = 1050" by (simp_all add: u32_def in_window_def sub32_def)
  obtain core1 where core1: "umac_core_register_timeout 1000 50 (Some 7) None None core = Some (True, core1)"
    "timer_list 0 core1 [\<lparr>timeout_abs_ms = 1050, to_handler = Some 7, to_arg1 = None, to_arg2 = None\<rparr>]"
    using register_timer_list [OF core(2,1) _ refl, of 1050 50 1000 7 None None] core(3) t by auto
  have ok: "core_ok {} core1" using core_ok_register [OF core(1), of 1000 50 7 None None] core1(1) by auto
  obtain xs fs where "tq_rep (toq core1) xs fs {}" using ok by (auto simp: core_ok_def timers_ok_def)
  then have "1 < pool_size (toq core1)" by (simp add: pool_size_def)
  then obtain core2 where core2: "umac_core_register_timeout 1000 50 (Some 8) None None core1 = Some (True, core2)"
    "timer_list 0 core2
      [\<lparr>timeout_abs_ms = 1050, to_handler = Some 7, to_arg1 = None, to_arg2 = None\<rparr>,
       \<lparr>timeout_abs_ms = 1050, to_handler = Some 8, to_arg1 = None, to_arg2 = None\<rparr>]"
    using register_timer_list [OF core1(2) ok _ refl, of 1050 50 1000 8 None None] t by (auto simp: expiry_def)
  have "umac_evtq_is_empty (evtq core2)" using register_evtq core1(1) core2(1) core(4) by metis
  moreover have "core_ok {} core2" using core_ok_register [OF ok, of 1000 50 8 None None] core2(1) by auto
  ultimately show ?thesis using core2(2) by blast
qed

theorem due_timers_fire_witness:
  "\<exists>core core'. timer_list 0 core [\<lparr>timeout_abs_ms = 1050, to_handler = Some 7, to_arg1 = None, to_arg2 = None\<rparr>,
      \<lparr>timeout_abs_ms = 1050, to_handler = Some 8, to_arg1 = None, to_arg2 = None\<rparr>]
    \<and> dispatch_rounds 1 logging_environment [] core = Some ([7, 8], core') \<and> timer_list 0 core' []"
proof -
  let ?ts = "[\<lparr>timeout_abs_ms = 1050, to_handler = Some 7, to_arg1 = None, to_arg2 = None\<rparr>,
      \<lparr>timeout_abs_ms = 1050, to_handler = Some 8, to_arg1 = None, to_arg2 = None\<rparr>] :: nat umac_core_timeout list"
  obtain core :: "(nat, nat) umac_core_data" where core: "timer_list 0 core ?ts" using sample_timers by blast
  have p: "in_window 0 (clock logging_environment [])" "quiet logging_environment (\<lambda>h a1 a2 w. w @ [h])"
    "\<And>h a1 a2 w. clock logging_environment (w @ [h]) = clock logging_environment w"
    "filter (due 0 (clock logging_environment [])) ?ts = ?ts"
    "filter (\<lambda>t. \<not> due 0 (clock logging_environment []) t) ?ts = []"
    by (simp_all add: logging_environment_def quiet_def due_def expiry_def in_window_def sub32_def u32_def)
  from due_timers_fire [OF core p(1,2), of 1] p(3,4,5) core show ?thesis by (auto simp: fire_timer_def)
qed

subsection \<open>The loop does not oversleep\<close>

lemma time_to_next:
  assumes ts: "timer_list base core ts" and now: "in_window base (clock env w)"
  shows "umac_timeoutq_time_to_next_timeout env w core =
    (if ts = [] then UINT32_MAX
     else if due base (clock env w) (hd ts) then 0
     else expiry base (hd ts) - sub32 (clock env w) base)"
proof -
  obtain xs fs where rep: "tq_rep (toq core) xs fs {}" "ts = List.map (tq_to (toq core)) xs"
    using timer_listE [OF ts] by blast
  have peek: "umac_timeoutq_peek_next_timeout (toq core) = (if ts = [] then None else Some (timeout_abs_ms (hd ts)))"
    using linked_head [OF rep_parts(1) [OF rep(1)]] rep(2)
    by (simp add: umac_timeoutq_peek_next_timeout_def umac_timeoutq_peek_next_timeout_protected_def hd_map)
  show ?thesis
  proof (cases "ts = []")
    case True
    then show ?thesis using peek by (simp add: umac_timeoutq_time_to_next_timeout_def)
  next
    case False
    then have win: "in_window base (timeout_abs_ms (hd ts))" using ts by (simp add: timer_list_def)
    let ?a = "base + sub32 (timeout_abs_ms (hd ts)) base" and ?b = "base + sub32 (clock env w) base"
    have "near ?a ?b" using win now by (simp add: near_def in_window_def)
    then have "s32 (sub32 (u32 ?a) (u32 ?b)) = int ?a - int ?b" by (rule s32_sub32)
    moreover have "u32 ?a = timeout_abs_ms (hd ts)" "u32 ?b = clock env w"
      using win now by (simp_all add: in_window_def u32_add_sub32)
    ultimately have delta: "s32 (sub32 (timeout_abs_ms (hd ts)) (clock env w))
        = int (expiry base (hd ts)) - int (sub32 (clock env w) base)" by (simp add: expiry_def)
    show ?thesis using False peek
      by (simp add: umac_timeoutq_time_to_next_timeout_def delta due_def Let_def nat_diff_distrib not_le)
  qed
qed

text \<open>C13. The loop never sleeps too long: when a turn allows it to sleep, no event is waiting and the time to sleep ends
  exactly when the first timer expires, or is unlimited if there is none; it does not sleep while the first timer is
  due.\<close>

theorem loop_sleeps_until_next_timer:
  assumes "evtloop_iteration env w core = Some (sleep, w', core')"
    and "timer_list base core' ts" "in_window base (clock env w')"
  shows "sleep \<noteq> 0 \<longrightarrow> umac_evtq_is_empty (evtq core')
    \<and> (\<forall>t\<in>set ts. sub32 (clock env w') base + sleep \<le> expiry base t)
    \<and> (if ts = [] then sleep = UINT32_MAX else sub32 (clock env w') base + sleep = expiry base (hd ts))"
proof
  assume "sleep \<noteq> 0"
  then have s: "umac_evtq_is_empty (evtq core')" "sleep = umac_timeoutq_time_to_next_timeout env w' core'"
    using assms(1) by (auto simp: evtloop_iteration_def split: Option.bind_splits if_splits)
  moreover have "ts \<noteq> [] \<longrightarrow> sub32 (clock env w') base + sleep = expiry base (hd ts)"
    using s(2) \<open>sleep \<noteq> 0\<close> time_to_next [OF assms(2,3)] by (auto simp: due_def split: if_splits)
  moreover have "ts \<noteq> [] \<longrightarrow> (\<forall>t\<in>set ts. expiry base (hd ts) \<le> expiry base t)"
    using assms(2) by (cases ts) (auto simp: timer_list_def)
  ultimately show "umac_evtq_is_empty (evtq core')
    \<and> (\<forall>t\<in>set ts. sub32 (clock env w') base + sleep \<le> expiry base t)
    \<and> (if ts = [] then sleep = UINT32_MAX else sub32 (clock env w') base + sleep = expiry base (hd ts))"
    using time_to_next [OF assms(2,3)] by (cases "ts = []") auto
qed

theorem loop_sleeps_until_next_timer_witness:
  "\<exists>core. evtloop_iteration (logging_environment\<lparr>clock := \<lambda>_. 1020\<rparr>) [] core = Some (30, [], core)
    \<and> umac_evtq_is_empty (evtq core)
    \<and> timer_list 0 core [\<lparr>timeout_abs_ms = 1050, to_handler = Some 7, to_arg1 = None, to_arg2 = None\<rparr>,
        \<lparr>timeout_abs_ms = 1050, to_handler = Some 8, to_arg1 = None, to_arg2 = None\<rparr>]"
proof -
  let ?t = "\<lambda>h. \<lparr>timeout_abs_ms = 1050, to_handler = Some h, to_arg1 = None, to_arg2 = None\<rparr> :: nat umac_core_timeout"
  let ?env = "logging_environment\<lparr>clock := \<lambda>_. 1020\<rparr>"
  obtain core :: "(nat, nat) umac_core_data" where core: "umac_evtq_is_empty (evtq core)" "timer_list 0 core [?t 7, ?t 8]"
    using sample_timers by blast
  have now: "in_window 0 (clock ?env [])" "\<not> due 0 1020 (?t 7)" "sub32 1020 0 = 1020" "expiry 0 (?t 7) = 1050"
    by (simp_all add: in_window_def due_def expiry_def sub32_def u32_def)
  have "dispatch_events ?env n [] core = Some ([], core)" for n
    using core(1)
    by (cases n) (simp_all add: umac_evtq_is_empty_def umac_evt_dequeue_def umac_evt_dequeue_protected_def)
  moreover have "umac_timeoutq_dispatch ?env [] core = Some (0, [], core)"
    using dispatch_stop [OF core(2) now(1)] now(2) by (simp add: umac_timeoutq_dispatch_def)
  moreover have "umac_timeoutq_time_to_next_timeout ?env [] core = 30"
    using time_to_next [OF core(2) now(1)] now by simp
  ultimately have it: "evtloop_iteration ?env [] core = Some (30, [], core)"
    using core(1) by (simp add: evtloop_iteration_def logging_environment_def)
  show ?thesis using loop_sleeps_until_next_timer [OF it core(2) now(1)] it core(2) by auto
qed

subsection \<open>Bringing a timer forward\<close>

lemma deplete_timer_list:
  assumes ts: "timer_list base core (us @ t # vs)" and ok: "core_ok held core"
    and m: "to_matches h a1 a2 t" "\<forall>u\<in>set us. \<not> to_matches h a1 a2 u" and win: "in_window base (u32 (now + d))"
    and later: "vs = [] \<or> expiry base t < expiry base (last vs) \<or> sub32 (u32 (now + d)) base < expiry base t"
  defines "t' \<equiv> (if sub32 (u32 (now + d)) base < expiry base t then t\<lparr>timeout_abs_ms := u32 (now + d)\<rparr> else t)"
  shows "\<exists>core'. umac_core_deplete_timeout now d h a1 a2 core
      = Some (if sub32 (u32 (now + d)) base < expiry base t then 1 else 0, core')
    \<and> timer_list base core' (place (\<lambda>u. expiry base t' < expiry base u) t' (us @ vs))"
proof -
  obtain zs fs where rep: "tq_rep (toq core) zs fs {}" "us @ t # vs = List.map (tq_to (toq core)) zs"
    "in_order base (toq core) zs" "\<forall>x\<in>set zs. to_handler (tq_to (toq core) x) \<noteq> None"
    using timer_listE [OF ts] by blast
  then obtain xs a ys where zs: "zs = xs @ a # ys" "us = List.map (tq_to (toq core)) xs" "t = tq_to (toq core) a"
    "vs = List.map (tq_to (toq core)) ys" by (auto simp: append_eq_map_conv Cons_eq_map_conv)
  have wins: "\<forall>x\<in>set zs. in_window base (abs_ms (toq core) x)" using rep(3) by (simp add: in_order_def)
  then have wt: "in_window base (timeout_abs_ms t)" using zs(1,3) by simp
  have sooner: "mmosal_time_lt (u32 (now + d)) (abs_ms (toq core) a) \<longleftrightarrow> sub32 (u32 (now + d)) base < expiry base t"
    using window_compare(1) [OF win wt] zs(3) by (simp add: expiry_def)
  have "ys = [] \<or> mmosal_time_lt (abs_ms (toq core) a) (abs_ms (toq core) (last ys))
      \<or> mmosal_time_lt (u32 (now + d)) (abs_ms (toq core) a)"
  proof (cases "ys = []")
    case False
    then have "in_window base (timeout_abs_ms (last vs))" "timeout_abs_ms (last vs) = abs_ms (toq core) (last ys)"
      using wins zs(1,4) by (simp_all add: last_map)
    then show ?thesis using later False window_compare(1) [OF wt] zs(3,4) sooner by (auto simp: expiry_def)
  qed simp
  from deplete_rep [OF rep(1) [unfolded zs(1)] _ _ rep(3) [unfolded zs(1)] win this, of h a1 a2] m zs(2,3)
  obtain q' where q': "umac_timeoutq_deplete_timeout_protected now d h a1 a2 (toq core)
        = Some (if sub32 (u32 (now + d)) base < expiry base t then 1 else 0, q')"
    "tq_rep q' (place (\<lambda>x. due_in base q' a < due_in base q' x) a (xs @ ys)) fs {}"
    "in_order base q' (place (\<lambda>x. due_in base q' a < due_in base q' x) a (xs @ ys))"
    "tq_to q' = (tq_to (toq core))(a := t')"
    unfolding sooner t'_def by auto
  let ?ys = "place (\<lambda>x. due_in base q' a < due_in base q' x) a (xs @ ys)"
  have a: "a \<notin> set (xs @ ys)" using rep_parts(3) [OF rep(1)] zs(1) by auto
  then have keep: "\<And>x. x \<in> set (xs @ ys) \<Longrightarrow> tq_to q' x = tq_to (toq core) x" using q'(4) by auto
  have "to_handler t' \<noteq> None" using rep(4) zs(1,3) by (simp add: t'_def)
  then have handlers: "\<forall>x\<in>set ?ys. to_handler (tq_to q' x) \<noteq> None" using keep rep(4) zs(1) q'(4) by auto
  have due: "due_in base q' x = expiry base (tq_to q' x)" for x by (simp add: due_in_def expiry_def)
  have "List.map (tq_to q') ?ys
      = place (\<lambda>u. expiry base (tq_to q' a) < expiry base u) (tq_to q' a) (List.map (tq_to q') (xs @ ys))"
    by (intro place_map) (simp add: due)
  also have "List.map (tq_to q') (xs @ ys) = us @ vs" using keep zs(2,4) by simp
  also have "tq_to q' a = t'" by (simp add: q'(4))
  finally have list: "List.map (tq_to q') ?ys = place (\<lambda>u. expiry base t' < expiry base u) t' (us @ vs)" .
  have "core_ok held (core\<lparr>toq := q'\<rparr>)" by (rule core_ok_toq [OF ok timers_okI [OF q'(2)]]) (use handlers in blast)
  then obtain core1 where core1: "umac_core_evt_wake (core\<lparr>toq := q'\<rparr>) = Some core1" using core_ok_wake by blast
  then have "toq core1 = q'" using wake_toq by fastforce
  moreover have "timer_list base c (place (\<lambda>u. expiry base t' < expiry base u) t' (us @ vs))" if "toq c = q'" for c
    using timer_listI [of c ?ys fs base] q'(2,3) handlers list that by simp
  ultimately show ?thesis using q'(1) core1 by (auto simp: umac_core_deplete_timeout_def)
qed

text \<open>C14. Bringing a timer forward takes the first match and sorts it in at the earlier of its time and the new one, as
  long as a later timer is behind it, none is, or its time changes. If its time does not change and the timers behind
  it all expire at the same time as it does, the queue becomes a cycle: looking for a timer that is not in it never
  returns.\<close>

theorem deplete_timeout_places_or_cycles:
  assumes "timer_list base core (us @ t # vs)" "core_ok held core"
    and "to_matches h a1 a2 t" "\<forall>u\<in>set us. \<not> to_matches h a1 a2 u" "in_window base (u32 (now + d))"
  shows "if vs = [] \<or> expiry base t < expiry base (last vs) \<or> sub32 (u32 (now + d)) base < expiry base t
    then (\<exists>core' t'. umac_core_deplete_timeout now d h a1 a2 core
          = Some (if sub32 (u32 (now + d)) base < expiry base t then 1 else 0, core')
        \<and> expiry base t' = min (expiry base t) (sub32 (u32 (now + d)) base) \<and> to_matches h a1 a2 t'
        \<and> timer_list base core' (place (\<lambda>u. expiry base t' < expiry base u) t' (us @ vs)))
    else (\<exists>core'. umac_core_deplete_timeout now d h a1 a2 core = Some (0, core')
        \<and> (\<forall>g b1 b2. (\<forall>u\<in>set (us @ t # vs). \<not> to_matches g b1 b2 u) \<longrightarrow>
            umac_core_is_timeout_registered g b1 b2 core' = None))"
proof (cases "vs = [] \<or> expiry base t < expiry base (last vs) \<or> sub32 (u32 (now + d)) base < expiry base t")
  case True
  define t' where "t' = (if sub32 (u32 (now + d)) base < expiry base t then t\<lparr>timeout_abs_ms := u32 (now + d)\<rparr> else t)"
  have "expiry base t' = min (expiry base t) (sub32 (u32 (now + d)) base)" "to_matches h a1 a2 t'"
    using assms(3) by (auto simp: t'_def expiry_def to_matches_def)
  moreover obtain core' where "umac_core_deplete_timeout now d h a1 a2 core
      = Some (if sub32 (u32 (now + d)) base < expiry base t then 1 else 0, core')"
    "timer_list base core' (place (\<lambda>u. expiry base t' < expiry base u) t' (us @ vs))"
    using deplete_timer_list [OF assms(1-5) True, folded t'_def] by blast
  ultimately show ?thesis using True by auto
next
  case False
  obtain zs fs where rep: "tq_rep (toq core) zs fs {}" "us @ t # vs = List.map (tq_to (toq core)) zs"
    using timer_listE [OF assms(1)] by blast
  then obtain xs a ys where zs: "zs = xs @ a # ys" "us = List.map (tq_to (toq core)) xs" "t = tq_to (toq core) a"
    "vs = List.map (tq_to (toq core)) ys" by (auto simp: append_eq_map_conv Cons_eq_map_conv)
  have order: "\<forall>u\<in>set (us @ t # vs). in_window base (timeout_abs_ms u)" "sorted (List.map (expiry base) (us @ t # vs))"
    using assms(1) by (simp_all add: timer_list_def)
  have wt: "in_window base (timeout_abs_ms t)" using order(1) by simp
  have "\<forall>u\<in>set (us @ vs). expiry base u \<le> expiry base t"
  proof -
    obtain ws v where "vs = ws @ [v]" using False by (metis rev_exhaust)
    then show ?thesis using order(2) False by (auto simp: sorted_append)
  qed
  then have low: "\<And>u. u \<in> set (us @ vs) \<Longrightarrow> expiry base u \<le> expiry base t" by blast
  have late: "\<forall>x\<in>set (xs @ ys). \<not> mmosal_time_lt (abs_ms (toq core) a) (abs_ms (toq core) x)"
  proof
    fix x assume "x \<in> set (xs @ ys)"
    then have u: "tq_to (toq core) x \<in> set (us @ vs)" using zs(2,4) by auto
    then have "in_window base (abs_ms (toq core) x)" using order(1) by auto
    from window_compare(1) [OF wt this] low [OF u]
    show "\<not> mmosal_time_lt (abs_ms (toq core) a) (abs_ms (toq core) x)" using zs(3) by (simp add: expiry_def)
  qed
  have keep: "\<not> mmosal_time_lt (u32 (now + d)) (abs_ms (toq core) a)"
    using window_compare(1) [OF assms(5) wt] False zs(3) by (simp add: expiry_def)
  have "\<exists>q'. umac_timeoutq_deplete_timeout_protected now d h a1 a2 (toq core) = Some (0, q')
    \<and> (\<forall>h' b1 b2. (\<forall>x\<in>set (xs @ a # ys). \<not> to_matches h' b1 b2 (tq_to (toq core) x)) \<longrightarrow>
        umac_timeoutq_is_timeout_registered_protected h' b1 b2 q' = None)"
  proof (rule deplete_cycle [OF _ _ _ _ late keep])
    show "ys \<noteq> []" using False zs(4) by simp
    show "\<forall>x\<in>set xs. \<not> to_matches h a1 a2 (tq_to (toq core) x)" using assms(4) zs(2) by simp
    show "to_matches h a1 a2 (tq_to (toq core) a)" using assms(3) zs(3) by simp
  qed (use rep(1) zs(1) in simp)
  then obtain q' where q': "umac_timeoutq_deplete_timeout_protected now d h a1 a2 (toq core) = Some (0, q')"
    "\<And>h' b1 b2. (\<forall>x\<in>set (xs @ a # ys). \<not> to_matches h' b1 b2 (tq_to (toq core) x)) \<Longrightarrow>
        umac_timeoutq_is_timeout_registered_protected h' b1 b2 q' = None" by blast
  have "umac_core_deplete_timeout now d h a1 a2 core = Some (0, core\<lparr>toq := q'\<rparr>)"
    using q'(1) by (simp add: umac_core_deplete_timeout_def)
  moreover have "umac_core_is_timeout_registered g b1 b2 (core\<lparr>toq := q'\<rparr>) = None"
    if "\<forall>u\<in>set (us @ t # vs). \<not> to_matches g b1 b2 u" for g b1 b2
  proof -
    have "\<forall>x\<in>set (xs @ a # ys). \<not> to_matches g b1 b2 (tq_to (toq core) x)" using that zs(2-4) by auto
    then show ?thesis using q'(2) by (simp add: umac_core_is_timeout_registered_def)
  qed
  ultimately show ?thesis using False by auto
qed

theorem deplete_timeout_places_or_cycles_witness:
  "\<exists>core core'. timer_list 0 core [\<lparr>timeout_abs_ms = 1050, to_handler = Some 7, to_arg1 = None, to_arg2 = None\<rparr>,
      \<lparr>timeout_abs_ms = 1050, to_handler = Some 8, to_arg1 = None, to_arg2 = None\<rparr>]
    \<and> umac_core_deplete_timeout 1000 90 (Some (7 :: nat)) None None (core :: (nat, nat) umac_core_data) = Some (0, core')
    \<and> umac_core_is_timeout_registered (Some 9) None None core' = None"
proof -
  let ?t = "\<lambda>h. \<lparr>timeout_abs_ms = 1050, to_handler = Some h, to_arg1 = None, to_arg2 = None\<rparr> :: nat umac_core_timeout"
  obtain core :: "(nat, nat) umac_core_data" where core: "timer_list 0 core ([] @ ?t 7 # [?t 8])" "core_ok {} core"
    using sample_timers by auto
  have p: "to_matches (Some 7) None None (?t 7)" "\<forall>u\<in>set []. \<not> to_matches (Some 7) None None u"
    "in_window 0 (u32 (1000 + 90))" "\<not> (sub32 (u32 (1000 + 90)) 0 < expiry 0 (?t 7))" "expiry 0 (?t 8) = expiry 0 (?t 7)"
    by (simp_all add: to_matches_def in_window_def expiry_def sub32_def u32_def)
  from deplete_timeout_places_or_cycles [OF core p(1-3)] p(4,5)
  obtain core' where "umac_core_deplete_timeout 1000 90 (Some 7) None None core = Some (0, core')"
    "\<forall>g b1 b2. (\<forall>u\<in>set ([] @ ?t 7 # [?t 8]). \<not> to_matches g b1 b2 u) \<longrightarrow> umac_core_is_timeout_registered g b1 b2 core' = None"
    by auto
  then show ?thesis using core(1) by (intro exI [of _ core] exI [of _ core']) (simp add: to_matches_def)
qed

subsection \<open>The supplicant's interface\<close>

text \<open>\<open>eloop_register_timeout\<close> returns 1 for success and 0 for failure, and \<open>eloop_cancel_timeout_one\<close> stores all of the
  remaining time as microseconds beside the seconds.\<close>

lemma eloop_register_result:
  assumes "eloop_register_timeout now secs usecs h a1 a2 core = Some (r, core')" "secs < 2147483"
  shows "r = 1 \<or> r = 0"
  using assms by (auto simp: eloop_register_timeout_def split: Option.bind_splits if_splits)

lemma eloop_remaining_microseconds:
  assumes "umac_core_cancel_timeout_one now h a1 a2 core = Some (1, Some ms, core')"
  shows "eloop_cancel_timeout_one now h a1 a2 core = Some (1, Some (ms div 1000, u32 (ms * 1000)), core')"
  using assms by (simp add: eloop_cancel_timeout_one_def)

end
