(* ===== verification/Spec2Isabelle.thy ===== *)
theory Spec2Isabelle
  imports Driver_Correct Config_Correct S1g_Tim Defrag Rx_Order M2m Umac_Rc Mmpkt_List Mmbuf_List Umac_Core_Correct
begin

text \<open>
  \<^bold>\<open>Verification of the Morse Micro IoT SDK for Wi-Fi HaLow\<close>

  The repository is a CMSIS pack for microcontrollers. Its own code is the driver and upper MAC of a HaLow
  chip (\<open>morselib\<close>), with its rate control (\<open>morselib/mmrc\<close>), the agent that lets a host drive the
  chip over a serial line (\<open>mmagic\<close>, on \<open>slip\<close>), packet and buffer utilities (\<open>mmutils\<close>), and glue to the
  vendored stacks. This development models the parts that hold the logic of its own and can be read completely.

  \<^bold>\<open>The serial path of the agent.\<close> A host and the agent exchange packets over a UART, in three layers above each other.
  \<^item> \<open>Crc\<close> (\<open>mmutils/mmcrc.c\<close>, \<open>morselib/src/driver/morse_crc/morse_crc.c\<close>, the CRC-7 of the YAPS
    driver): both loops compute the polynomial remainder bit by bit; which errors they detect.
  \<^item> \<open>Slip\<close> (\<open>slip/slip.c\<close>): framing; a packet arrives as it was sent, and no byte sequence makes the receiver write
    outside its buffer.
  \<^item> \<open>Mmbuf\<close> (\<open>mmutils/mmbuf.c\<close>): buffers with space at both ends, allocated on a heap whose failures are parameters; the
    operations refine byte sequences.
  \<^item> \<open>Datalink\<close> (\<open>mmagic_datalink_uart.c\<close>): sending and receiving a packet in a frame, with the receive buffer that is replaced
    after each packet.
  \<^item> \<open>Llc\<close> (\<open>mmagic_llc_agent.c\<close>): sequence numbers, repetition, synchronisation, and the round trip through all layers.
  \<^item> \<open>M2m\<close> (\<open>mmagic_m2m_agent.c\<close>): streams and dispatch of commands; which packets are released how often.

  \<^bold>\<open>Rate control.\<close> \<open>Mmrc_Rates\<close>, \<open>Mmrc\<close> and \<open>Mmrc_Correct\<close> (\<open>morselib/mmrc/src/core/mmrc.c\<close>) model the statistics
  table of a station, its periodic update, the choice of retry chains and the feedback; \<open>Umac_Rc\<close> (\<open>umac/rc/umac_rc.c\<close>) the negotiation
  of capabilities and the life of the table. The lemmas give an invariant of the table that every operation keeps and under which none
  fails, for up to 2147483647 operations, which keeps every 32-bit counter from wrapping; then what the chains and the statistics are.

  \<^bold>\<open>Lists and the event loop of the UMAC.\<close> \<open>Chain\<close> is about sequences linked by pointers, used by \<open>Mmpkt_List\<close>
  (\<open>common/mmpkt_list.c\<close>), \<open>Mmbuf_List\<close> (the lists of \<open>mmbuf.c\<close>), \<open>Evtq\<close> (\<open>umac_evtq.c\<close>, 25 events) and \<open>Timeoutq\<close>
  (\<open>umac_timeout.c\<close>, 20 timers and an extra pool). \<open>Mmosal_Time\<close> has the comparison of times that wrap; the order of the
  timers relies on all of them lying within half of the 32-bit range. \<open>Umac_Core\<close> composes them into the loop of \<open>umac_evtloop.c\<close>: a turn
  takes the events, fires at most 5 due timers and sleeps. A handler is a program of calls on the core (a parameter), so that the
  theorems of \<open>Umac_Core_Correct\<close> hold whatever the handlers, other tasks and the clock do. Loops over a queue are partial
  functions, since the code does not bound them: that they end is proved, and that one of them does not, where it does not.

  \<^bold>\<open>Information elements.\<close> \<open>Ies\<close> (\<open>common/consbuf.c\<close>, \<open>umac/ies/ies_common.c\<close> and small elements): building in a buffer
  and searching received bytes. \<open>S1g_Tim\<close> (\<open>umac/ies/s1g_tim.c\<close>, \<open>umac/ap/traffic_bitmap.h\<close>): the traffic indication an access point
  builds and a station searches, in the four encodings of the standard.

  \<^bold>\<open>Keys and block acknowledgement.\<close> \<open>Keys\<close> (\<open>umac/keys\<close>, \<open>supplicant_shim/ccmp.c\<close>): the keychain of a peer as a map from
  identifiers to keys, and the replay counters that let no frame be accepted twice. \<open>Umac_Ba\<close> (\<open>umac/ba/umac_ba.c\<close>): the sessions that
  permit aggregation and set aside reorder buffers, with their frames as bytes, so that the handshake is proved between two stations.

  \<^bold>\<open>Received frames.\<close> \<open>Rx_Frame\<close> (\<open>include/mmpkt.h\<close>, \<open>dot11/*.h\<close>, \<open>datapath_defrag.c\<close>) has the views of packets, the headers as
  they lie in the bytes of a frame, and the chains of fragments, whose reassembly is proved in \<open>Defrag\<close>. \<open>Rx_Path\<close> (\<open>umac_datapath.c\<close>)
  composes them with \<open>Keys\<close> and \<open>Umac_Ba\<close> into the path of a data frame: detection of repetitions, the reorder list, removal of the protection, reassembly and
  delivery; its lemmas show which frames and sessions make it fail and that no others do. \<open>Rx_Order\<close> shows that frames are
  delivered in order and once each, over the interface \<open>frame_window\<close>, which open and protected networks provide, and what happens when
  the list is full, between sessions and to the timeouts. What a step finds outside, such as the capacity of an allocated packet, is
  given by the position in the log of the station, so that it may differ at every use.

  \<^bold>\<open>The persistent configuration.\<close> \<open>Config_Text\<close>, \<open>Config_Store\<close>, \<open>Config_Image\<close> and \<open>Config_Correct\<close> (\<open>mmconfig/mmconfig.c\<close>)
  model the key/value store in two copies on flash: keys, numbers and checksum of a partition as bytes; choosing the copy at
  start, reading, searching and the update, which writes the other copy and erases the first only then. The driver of the flash is the locale
  \<open>flash_device\<close>, whose laws (an erased block reads 0xFF, what is written to erased bytes is read back, a write changes nothing else) are discharged for
  NOR flash; \<open>byte_store\<close> is what searching needs of it. The driver, the place of the partition and the allocator are
  parameters; addresses are naturals that do not wrap. The lemmas show that the store refines
  a map, that values and their types come back, and that the power may fail at any flash operation.

  \<^bold>\<open>The driver of the chip\<close> (\<open>morselib/src/driver\<close>), from the UMAC to the transport of an MM8108, and back.
  \<^item> \<open>Driver_Task\<close> (\<open>driver_task.c\<close>): events as bits and the table of scheduled events, which refines a map.
  \<^item> \<open>Skbq\<close> (\<open>morse_driver/skbq.c\<close>): the header and padding of a packet, the queue it waits in and the list of
    pending packets; no packet is lost, doubled or changed.
  \<^item> \<open>Driver_State\<close> (\<open>morse.h\<close>, \<open>hw.c\<close>, \<open>coredump.c\<close>, \<open>beacon.c\<close>, \<open>transport/sdio.c\<close>): the state of the driver, the interrupts
    of the chip, starting and stopping beacons, and the search for the assertion of a firmware that has stopped.
  \<^item> \<open>Driver_Ps\<close> (\<open>ps.c\<close>): waking the chip and letting it sleep.
  \<^item> \<open>Yaps_Hw\<close>, \<open>Yaps\<close> (\<open>mm8108/yaps-hw.c\<close>, \<open>mm8108/yaps.c\<close>): delimiters, the pages and places of the chip,
    bursts of packets, received packets and reports, and the work of the interface.
  \<^item> \<open>Driver_Loop\<close>: the loop of the task over this work, frames of the UMAC, the work for beacons and the control of
    traffic (\<open>event.c\<close>). Its inner loop is unbounded in the code and a partial function here.
  \<^item> \<open>Yaps_Correct\<close>, \<open>Driver_Awake\<close>, \<open>Driver_Correct\<close>: a burst always fits the chip; the bus is used only while the chip is awake,
    apart from the two places where the driver does not wake it, and how that happens; what overflows the table of scheduled events, what
    nobody handles, what the chip reads from the header of a packet, and in which order returned packets stand.

  What the driver finds outside (the clock, the busy pin, results of the bus, allocations, events that interrupts and other tasks raise)
  are functions of a counter \<open>ticks\<close> that each reading advances. Accesses to the bus are logged with the state of the wake pin.
  Interrupts and operations of other tasks come between the rounds of the driver task, their events also between the turns of its inner loop.

  \<^bold>\<open>Conventions\<close> (\<open>Prelude\<close>). A function that fails an assertion, divides by zero or touches memory outside an object is
  \<open>None\<close>, so that a result \<open>Some\<close> means none of these happens. Integers are bytes (\<open>8 word\<close>) on the serial line and
  elsewhere naturals whose stores are cut to the width of their variable. Pointers are positions in a list, or offsets. Critical sections
  are single steps. Allocation outcomes, random numbers and the clock are arguments.

  \<^bold>\<open>Not modelled.\<close> Vendored code (hostap, mbedtls, lwIP, littlefs, the AWS and core libraries, tinycbor, puff), the firmware images, board
  support and examples; generated code of the agent and its command tables; the adapters to lwIP (\<open>mmipal\<close>, \<open>mmping\<close>, \<open>mmiperf\<close>);
  commands to the chip and their responses, the loading of firmware, the transports and the pager of the MM6108, which act on
  registers and memory of the chip; and the parts of the UMAC that mainly configure hostap or the chip. Logging, tracing and statistics for display are left out everywhere.
\<close>

end
